(* ===== verification/Prelude.thy ===== *)
theory Prelude
  imports Main "HOL-Library.Multiset" "HOL-Library.List_Lexorder" "HOL-Library.Char_ord"
begin

text \<open>
  Shared vocabulary of the development: the lemma collections the component theories add to, the
  result type of fallible Go functions (\<open>Inl\<close> is the returned error), instants of time, and the
  generic facts about lists that several components use.
\<close>

named_theorems result_simps \<open>unfolding of the result combinators\<close>
named_theorems go_defs \<open>definitions of the Go string primitives, for evaluating closed terms\<close>

type_synonym ('e, 'a) result = "'e + 'a"

text \<open>\<open>time.Time\<close>: nanoseconds since the Unix epoch; \<open>UTC()\<close> keeps the instant. The zero value of
  Go's type is the first of January of year 1.\<close>

type_synonym instant = int

definition zero_time :: instant where
  "zero_time = - 62135596800000000000"

definition is_zero_time :: "instant \<Rightarrow> bool" where
  "is_zero_time t \<longleftrightarrow> t = zero_time"

section \<open>Results\<close>

definition rbind :: "('e, 'a) result \<Rightarrow> ('a \<Rightarrow> ('e, 'b) result) \<Rightarrow> ('e, 'b) result" where
  "rbind m f = (case m of Inl e \<Rightarrow> Inl e | Inr x \<Rightarrow> f x)"

lemma rbind_simps [simp, result_simps]:
  "rbind (Inl e) f = Inl e"
  "rbind (Inr x) f = f x"
  by (simp_all add: rbind_def)

lemma rbind_Inr_iff [result_simps]: "rbind m f = Inr y \<longleftrightarrow> (\<exists>x. m = Inr x \<and> f x = Inr y)"
  by (cases m) simp_all

lemma rbind_InrE:
  assumes "rbind m f = Inr y"
  obtains x where "m = Inr x" and "f x = Inr y"
  using assms by (auto simp: rbind_Inr_iff)

fun is_ok :: "('e, 'a) result \<Rightarrow> bool" where
  "is_ok (Inr _) = True"
| "is_ok (Inl _) = False"

section \<open>Lists\<close>

lemma takeWhile_snoc_all: "(\<And>x. x \<in> set xs \<Longrightarrow> P x) \<Longrightarrow> takeWhile P (xs @ [y]) = xs @ takeWhile P [y]"
  by (induction xs) auto

lemma distinct_map_fst_lookup:
  "distinct (map fst xs) \<Longrightarrow> map_of xs k = Some v \<longleftrightarrow> (k, v) \<in> set xs"
  by (simp add: map_of_eq_Some_iff)

lemma filter_id_conv_all: "(\<And>x. x \<in> set xs \<Longrightarrow> P x) \<Longrightarrow> filter P xs = xs"
  by (induction xs) auto

text \<open>Stable insertion sort by an \<open>lt\<close> function: what \<open>sort.SliceStable\<close> computes. Its result is
  determined by the contract (sorted, a permutation, equivalent elements in their old order)
  whenever \<open>lt\<close> is a strict weak order, which the locale below states.\<close>

fun insert_by :: "('a \<Rightarrow> 'a \<Rightarrow> bool) \<Rightarrow> 'a \<Rightarrow> 'a list \<Rightarrow> 'a list" where
  "insert_by lt x [] = [x]"
| "insert_by lt x (y # ys) = (if lt y x then y # insert_by lt x ys else x # y # ys)"

definition stable_sort :: "('a \<Rightarrow> 'a \<Rightarrow> bool) \<Rightarrow> 'a list \<Rightarrow> 'a list" where
  "stable_sort lt xs = foldr (insert_by lt) xs []"

lemma stable_sort_simps [simp]:
  "stable_sort lt [] = []"
  "stable_sort lt (x # xs) = insert_by lt x (stable_sort lt xs)"
  by (simp_all add: stable_sort_def)

lemma mset_insert_by [simp]: "mset (insert_by lt x xs) = add_mset x (mset xs)"
  by (induction xs) auto

lemma mset_stable_sort [simp]: "mset (stable_sort lt xs) = mset xs"
  by (induction xs) auto

lemma set_stable_sort [simp]: "set (stable_sort lt xs) = set xs"
  by (metis mset_stable_sort set_mset_mset)

lemma length_stable_sort [simp]: "length (stable_sort lt xs) = length xs"
  by (metis mset_stable_sort size_mset)

locale weak_order =
  fixes lt :: "'a \<Rightarrow> 'a \<Rightarrow> bool"
  assumes irreflexive: "\<not> lt x x"
    and transitive: "lt x y \<Longrightarrow> lt y z \<Longrightarrow> lt x z"
    and incomparable_transitive:
      "\<not> lt x y \<Longrightarrow> \<not> lt y x \<Longrightarrow> \<not> lt y z \<Longrightarrow> \<not> lt z y \<Longrightarrow> \<not> lt x z \<and> \<not> lt z x"
begin

lemma asymmetric: "lt x y \<Longrightarrow> \<not> lt y x"
  using irreflexive transitive by blast

lemma not_less_trans: "\<not> lt y x \<Longrightarrow> \<not> lt z y \<Longrightarrow> \<not> lt z x"
  using incomparable_transitive transitive asymmetric by metis

lemma sorted_insert_by:
  assumes "sorted_wrt (\<lambda>a b. \<not> lt b a) xs"
  shows "sorted_wrt (\<lambda>a b. \<not> lt b a) (insert_by lt x xs)"
  using assms
proof (induction xs)
  case Nil
  then show ?case by simp
next
  case (Cons y ys)
  show ?case
  proof (cases "lt y x")
    case True
    have "set (insert_by lt x ys) = insert x (set ys)"
      by (metis mset_insert_by set_mset_add_mset_insert set_mset_mset)
    then show ?thesis using True Cons asymmetric by auto
  next
    case False
    then show ?thesis using Cons.prems not_less_trans by auto
  qed
qed

lemma sorted_stable_sort: "sorted_wrt (\<lambda>a b. \<not> lt b a) (stable_sort lt xs)"
  by (induction xs) (auto intro: sorted_insert_by)

lemma insert_by_first_of_class:
  assumes "\<And>y. y \<in> set ys \<Longrightarrow> P y \<Longrightarrow> \<not> lt y x"
    and "P x"
  shows "filter P (insert_by lt x ys) = x # filter P ys"
  using assms by (induction ys) auto

lemma insert_by_filter_other: "\<not> P x \<Longrightarrow> filter P (insert_by lt x ys) = filter P ys"
  by (induction ys) auto

lemma stable:
  "filter (\<lambda>y. \<not> lt x y \<and> \<not> lt y x) (stable_sort lt xs) =
   filter (\<lambda>y. \<not> lt x y \<and> \<not> lt y x) xs"
proof (induction xs)
  case Nil
  then show ?case by simp
next
  case (Cons z zs)
  let ?P = "\<lambda>y. \<not> lt x y \<and> \<not> lt y x"
  show ?case
  proof (cases "?P z")
    case True
    have "filter ?P (insert_by lt z (stable_sort lt zs)) = z # filter ?P (stable_sort lt zs)"
    proof (rule insert_by_first_of_class)
      show "\<not> lt y z" if "y \<in> set (stable_sort lt zs)" "?P y" for y
        using that True incomparable_transitive by blast
    qed (use True in simp)
    with Cons True show ?thesis by simp
  next
    case False
    then show ?thesis using Cons by (simp add: insert_by_filter_other)
  qed
qed

end

text \<open>Byte strings are compared lexicographically by byte, as Go's string comparison does.\<close>

lemma string_less_weak_order: "weak_order ((<) :: string \<Rightarrow> string \<Rightarrow> bool)"
  by unfold_locales auto

interpretation bytes_order: weak_order "(<) :: string \<Rightarrow> string \<Rightarrow> bool"
  by (rule string_less_weak_order)

definition sort_strings :: "string list \<Rightarrow> string list" where
  "sort_strings = stable_sort (<)"

lemma mset_sort_strings [simp]: "mset (sort_strings xs) = mset xs"
  by (simp add: sort_strings_def)

lemma set_sort_strings [simp]: "set (sort_strings xs) = set xs"
  by (simp add: sort_strings_def)

lemma length_sort_strings [simp]: "length (sort_strings xs) = length xs"
  by (simp add: sort_strings_def)

lemma sorted_sort_strings: "sorted (sort_strings xs)"
  using bytes_order.sorted_stable_sort [of xs] by (simp add: sort_strings_def not_less)

lemma distinct_sort_strings [simp]: "distinct (sort_strings xs) = distinct xs"
  by (metis mset_sort_strings mset_eq_imp_distinct_iff)

end
