(* ===== verification/GoStrings.thy ===== *)
theory GoStrings
  imports Prelude
begin

text \<open>
  Go strings are byte sequences, modelled by \<open>string\<close> (a list of bytes). Ranging over a string
  decodes UTF-8: \<open>chunks\<close> splits a string into runes with the bytes each came from, and an invalid
  byte is the rune U+FFFD of width one, as in Go's \<open>unicode/utf8\<close>. On top of it stand the functions
  of \<open>strings\<close>, \<open>unicode\<close> and \<open>strconv\<close> that the source uses.
\<close>

section \<open>UTF-8\<close>

definition rune_error :: nat where
  "rune_error = 0xFFFD"

definition is_cont :: "nat \<Rightarrow> bool" where
  "is_cont b \<longleftrightarrow> 0x80 \<le> b \<and> b \<le> 0xBF"

text \<open>The least and greatest second byte after a lead byte, as in the accept ranges of Go's decoder.\<close>

definition second_lo :: "nat \<Rightarrow> nat" where
  "second_lo b = (if b = 0xE0 then 0xA0 else if b = 0xF0 then 0x90 else 0x80)"

definition second_hi :: "nat \<Rightarrow> nat" where
  "second_hi b = (if b = 0xED then 0x9F else if b = 0xF4 then 0x8F else 0xBF)"

text \<open>\<open>utf8.DecodeRuneInString\<close>: the first rune and its width.\<close>

definition decode_rune :: "nat list \<Rightarrow> nat \<times> nat" where
  "decode_rune bs = (case bs of
     [] \<Rightarrow> (rune_error, 0)
   | b0 # r \<Rightarrow>
       if b0 < 0x80 then (b0, 1)
       else if b0 < 0xC2 \<or> 0xF4 < b0 then (rune_error, 1)
       else (case r of
         [] \<Rightarrow> (rune_error, 1)
       | b1 # r1 \<Rightarrow>
           if b1 < second_lo b0 \<or> second_hi b0 < b1 then (rune_error, 1)
           else if b0 < 0xE0 then ((b0 - 0xC0) * 64 + (b1 - 0x80), 2)
           else (case r1 of
             [] \<Rightarrow> (rune_error, 1)
           | b2 # r2 \<Rightarrow>
               if \<not> is_cont b2 then (rune_error, 1)
               else if b0 < 0xF0 then
                 (((b0 - 0xE0) * 64 + (b1 - 0x80)) * 64 + (b2 - 0x80), 3)
               else (case r2 of
                 [] \<Rightarrow> (rune_error, 1)
               | b3 # _ \<Rightarrow>
                   if \<not> is_cont b3 then (rune_error, 1)
                   else ((((b0 - 0xF0) * 64 + (b1 - 0x80)) * 64 + (b2 - 0x80)) * 64
                           + (b3 - 0x80), 4)))))"

lemma decode_rune_width: "bs \<noteq> [] \<Longrightarrow> 0 < snd (decode_rune bs)"
  by (simp add: decode_rune_def split: list.split)

definition bytes_of :: "string \<Rightarrow> nat list" where
  "bytes_of s = map of_char s"

function chunks :: "string \<Rightarrow> (nat \<times> string) list" where
  "chunks [] = []"
| "chunks (c # cs) =
     (let (r, w) = decode_rune (bytes_of (c # cs))
      in (r, take w (c # cs)) # chunks (drop w (c # cs)))"
  by pat_completeness auto
termination
proof (relation "measure length", goal_cases)
  case 1
  then show ?case by simp
next
  case (2 c cs p r w)
  have "0 < snd (decode_rune (bytes_of (c # cs)))"
    by (rule decode_rune_width) (simp add: bytes_of_def)
  with 2 have "0 < w" by (metis snd_conv)
  then show ?case by simp
qed

definition runes :: "string \<Rightarrow> nat list" where
  "runes s = map fst (chunks s)"

definition is_ascii :: "string \<Rightarrow> bool" where
  "is_ascii s \<longleftrightarrow> list_all (\<lambda>c. of_char c < (128::nat)) s"

lemma is_ascii_simps [simp]:
  "is_ascii []"
  "is_ascii (c # s) \<longleftrightarrow> of_char c < (128::nat) \<and> is_ascii s"
  "is_ascii (s @ t) \<longleftrightarrow> is_ascii s \<and> is_ascii t"
  by (simp_all add: is_ascii_def)

lemma chunks_Cons_ascii [simp]:
  "of_char c < (128::nat) \<Longrightarrow> chunks (c # cs) = (of_char c, [c]) # chunks cs"
  by (simp add: decode_rune_def bytes_of_def)

declare chunks.simps(2) [simp del]

lemma chunks_ascii: "is_ascii s \<Longrightarrow> chunks s = map (\<lambda>c. (of_char c, [c])) s"
  by (induction s) auto

lemma runes_ascii: "is_ascii s \<Longrightarrow> runes s = map of_char s"
  by (simp add: runes_def chunks_ascii comp_def)

lemma concat_chunks [simp]: "concat (map snd (chunks s)) = s"
proof (induction s rule: chunks.induct)
  case 1
  then show ?case by simp
next
  case (2 c cs)
  obtain r w where rw: "decode_rune (bytes_of (c # cs)) = (r, w)" by fastforce
  then have "chunks (c # cs) = (r, take w (c # cs)) # chunks (drop w (c # cs))"
    by (simp add: chunks.simps(2))
  moreover have "concat (map snd (chunks (drop w (c # cs)))) = drop w (c # cs)"
    using 2 rw by metis
  ultimately show ?case by (metis append_take_drop_id concat.simps(2) list.simps(9) snd_conv)
qed

text \<open>A chunk is an error when the rune is U+FFFD of width one.\<close>

definition bad_chunk :: "nat \<times> string \<Rightarrow> bool" where
  "bad_chunk p \<longleftrightarrow> fst p = rune_error \<and> length (snd p) = 1"

definition valid_utf8 :: "string \<Rightarrow> bool" where
  "valid_utf8 s \<longleftrightarrow> list_all (\<lambda>p. \<not> bad_chunk p) (chunks s)"

lemma valid_utf8_ascii: "is_ascii s \<Longrightarrow> valid_utf8 s"
  by (auto simp: valid_utf8_def chunks_ascii list_all_iff bad_chunk_def rune_error_def is_ascii_def)

definition rune_count :: "string \<Rightarrow> nat" where
  "rune_count s = length (chunks s)"

definition encode_rune :: "nat \<Rightarrow> string" where
  "encode_rune r = map char_of
     (if r < 0x80 then [r]
      else if r < 0x800 then [0xC0 + r div 64, 0x80 + r mod 64]
      else if 0x10FFFF < r \<or> 0xD800 \<le> r \<and> r \<le> 0xDFFF then [0xEF, 0xBF, 0xBD]
      else if r < 0x10000 then [0xE0 + r div 4096, 0x80 + r div 64 mod 64, 0x80 + r mod 64]
      else [0xF0 + r div 262144, 0x80 + r div 4096 mod 64, 0x80 + r div 64 mod 64, 0x80 + r mod 64])"

lemma encode_rune_ascii: "r < 128 \<Longrightarrow> encode_rune r = [char_of r]"
  by (simp add: encode_rune_def)

section \<open>Character classes and case\<close>

text \<open>\<open>unicode.IsSpace\<close> and \<open>unicode.IsControl\<close>.\<close>

definition is_space :: "nat \<Rightarrow> bool" where
  "is_space r \<longleftrightarrow> r \<in> {0x20, 0x85, 0xA0, 0x1680, 0x2028, 0x2029, 0x202F, 0x205F, 0x3000}
     \<or> 9 \<le> r \<and> r \<le> 13 \<or> 0x2000 \<le> r \<and> r \<le> 0x200A"

definition is_control :: "nat \<Rightarrow> bool" where
  "is_control r \<longleftrightarrow> r < 0x20 \<or> 0x7F \<le> r \<and> r \<le> 0x9F"

text \<open>\<open>unicode.ToLower\<close> on the runes the source can tell apart: the ASCII letters and the two
  letters beyond ASCII whose lower case is ASCII (U+0130 and the Kelvin sign). The remaining runes
  are kept: every use compares the result with ASCII characters or white space only, and no other
  rune has an ASCII or white-space lower case.\<close>

definition rune_lower :: "nat \<Rightarrow> nat" where
  "rune_lower r =
     (if 65 \<le> r \<and> r \<le> 90 then r + 32 else if r = 0x130 then 105 else if r = 0x212A then 107 else r)"

definition to_lower :: "string \<Rightarrow> string" where
  "to_lower s = concat (map (encode_rune \<circ> rune_lower) (runes s))"

lemma rune_lower_ascii: "r < 128 \<Longrightarrow> rune_lower r < 128"
  by (simp add: rune_lower_def)

definition char_lower :: "char \<Rightarrow> char" where
  "char_lower c = char_of (rune_lower (of_char c))"

lemma of_char_char_lower: "of_char c < (128::nat) \<Longrightarrow> of_char (char_lower c) = rune_lower (of_char c)"
  using rune_lower_ascii [of "of_char c"] by (simp add: char_lower_def)

lemma to_lower_ascii: "is_ascii s \<Longrightarrow> to_lower s = map char_lower s"
  by (induction s)
    (simp_all add: to_lower_def runes_ascii comp_def encode_rune_ascii rune_lower_ascii char_lower_def)

lemma is_ascii_to_lower: "is_ascii s \<Longrightarrow> is_ascii (to_lower s)"
  by (auto simp: to_lower_ascii is_ascii_def list_all_iff of_char_char_lower rune_lower_ascii)

section \<open>Trimming and splitting\<close>

definition trim_both :: "('a \<Rightarrow> bool) \<Rightarrow> 'a list \<Rightarrow> 'a list" where
  "trim_both P xs = rev (dropWhile P (rev (dropWhile P xs)))"

lemma trim_both_Nil [simp]: "trim_both P [] = []"
  by (simp add: trim_both_def)

lemma set_trim_both: "set (trim_both P xs) \<subseteq> set xs"
  by (auto simp: trim_both_def dest!: set_dropWhileD)

lemma length_trim_both: "length (trim_both P xs) \<le> length xs"
  by (metis trim_both_def length_rev length_dropWhile_le le_trans)

lemma trim_both_ends:
  assumes "trim_both P xs \<noteq> []"
  shows "\<not> P (hd (trim_both P xs))" and "\<not> P (last (trim_both P xs))"
proof -
  let ?ys = "dropWhile P xs"
  have ne: "dropWhile P (rev ?ys) \<noteq> []" using assms by (simp add: trim_both_def)
  then show "\<not> P (last (trim_both P xs))"
    by (simp add: trim_both_def last_rev hd_dropWhile)
  obtain us where us: "rev ?ys = us @ dropWhile P (rev ?ys)"
    by (metis takeWhile_dropWhile_id)
  then have "?ys = trim_both P xs @ rev us"
    by (metis rev_append rev_rev_ident trim_both_def)
  then have "hd ?ys = hd (trim_both P xs)" and "?ys \<noteq> []" using assms by auto
  then show "\<not> P (hd (trim_both P xs))" by (metis hd_dropWhile)
qed

lemma trim_both_id:
  "xs = [] \<or> \<not> P (hd xs) \<and> \<not> P (last xs) \<Longrightarrow> trim_both P xs = xs"
  by (cases xs rule: rev_cases) (auto simp: trim_both_def dropWhile_append neq_Nil_conv hd_append split: if_splits)

lemma trim_both_idem [simp]: "trim_both P (trim_both P xs) = trim_both P xs"
  using trim_both_ends [of P xs] by (intro trim_both_id) auto

text \<open>\<open>strings.TrimSpace\<close> and \<open>strings.Trim(s, "-")\<close>.\<close>

definition trim_space :: "string \<Rightarrow> string" where
  "trim_space s = concat (map snd (trim_both (is_space \<circ> fst) (chunks s)))"

definition trim_char :: "char \<Rightarrow> string \<Rightarrow> string" where
  "trim_char c s = trim_both (\<lambda>x. x = c) s"

definition ascii_space :: "char \<Rightarrow> bool" where
  "ascii_space c \<longleftrightarrow> is_space (of_char c)"

lemma trim_both_map: "trim_both P (map f xs) = map f (trim_both (P \<circ> f) xs)"
  by (simp add: trim_both_def dropWhile_map rev_map)

lemma trim_space_ascii: "is_ascii s \<Longrightarrow> trim_space s = trim_both ascii_space s"
  by (simp add: trim_space_def chunks_ascii trim_both_map comp_def ascii_space_def [abs_def])

lemma is_ascii_trim_space: "is_ascii s \<Longrightarrow> is_ascii (trim_space s)"
  using set_trim_both [of ascii_space s] by (auto simp: trim_space_ascii is_ascii_def list_all_iff)

lemma trim_space_idem_ascii: "is_ascii s \<Longrightarrow> trim_space (trim_space s) = trim_space s"
  by (subst trim_space_ascii, erule is_ascii_trim_space) (simp add: trim_space_ascii)

lemma trim_space_Nil [simp]: "trim_space [] = []"
  by (simp add: trim_space_def)

text \<open>What evaluates these functions on literals with \<open>simp\<close>.\<close>

lemmas go_eval = trim_space_ascii trim_both_def ascii_space_def is_space_def to_lower_ascii
  char_lower_def rune_lower_def runes_ascii trim_char_def char_of_def bit_0

text \<open>\<open>strings.Cut\<close>, \<open>strings.Split\<close> on one byte, \<open>strings.Join\<close>.\<close>

fun cut_char :: "char \<Rightarrow> string \<Rightarrow> (string \<times> string) option" where
  "cut_char c [] = None"
| "cut_char c (x # xs) =
     (if x = c then Some ([], xs)
      else (case cut_char c xs of None \<Rightarrow> None | Some (a, b) \<Rightarrow> Some (x # a, b)))"

lemma cut_char_Some: "cut_char c s = Some (a, b) \<Longrightarrow> s = a @ c # b \<and> c \<notin> set a"
  by (induction s arbitrary: a) (auto split: if_splits option.splits)

lemma cut_char_None: "cut_char c s = None \<longleftrightarrow> c \<notin> set s"
  by (induction s) (auto split: option.splits)

fun split_char :: "char \<Rightarrow> string \<Rightarrow> string list" where
  "split_char c [] = [[]]"
| "split_char c (x # xs) =
     (if x = c then [] # split_char c xs
      else (case split_char c xs of [] \<Rightarrow> [[x]] | p # ps \<Rightarrow> (x # p) # ps))"

fun join_with :: "string \<Rightarrow> string list \<Rightarrow> string" where
  "join_with sep [] = []"
| "join_with sep [x] = x"
| "join_with sep (x # y # ys) = x @ sep @ join_with sep (y # ys)"

lemma split_char_not_Nil [simp]: "split_char c s \<noteq> []"
  by (induction s) (auto split: list.splits)

lemma join_split: "join_with [c] (split_char c s) = s"
proof (induction s)
  case Nil
  then show ?case by simp
next
  case (Cons x xs)
  obtain p ps where ps: "split_char c xs = p # ps" by (cases "split_char c xs") auto
  with Cons show ?case by (cases ps) auto
qed

text \<open>\<open>strings.IndexFunc(s, unicode.IsControl) >= 0\<close>.\<close>

definition has_control :: "string \<Rightarrow> bool" where
  "has_control s \<longleftrightarrow> list_ex is_control (runes s)"

text \<open>\<open>strings.ToValidUTF8(s, "")\<close> drops the invalid bytes, and \<open>strings.Map\<close> with -1 drops runes.\<close>

definition to_valid_utf8 :: "string \<Rightarrow> string" where
  "to_valid_utf8 s = concat (map snd (filter (\<lambda>p. \<not> bad_chunk p) (chunks s)))"

definition drop_control :: "string \<Rightarrow> string" where
  "drop_control s = concat (map (\<lambda>p. encode_rune (fst p)) (filter (\<lambda>p. \<not> is_control (fst p)) (chunks s)))"

section \<open>Decimal and hexadecimal numerals\<close>

definition digit_char :: "nat \<Rightarrow> char" where
  "digit_char d = char_of (if d < 10 then 48 + d else 87 + d)"

fun itoa :: "nat \<Rightarrow> string" where
  "itoa n = (if n < 10 then [digit_char n] else itoa (n div 10) @ [digit_char (n mod 10)])"

declare itoa.simps [simp del]

text \<open>\<open>hex.EncodeToString\<close> on bytes and the check \<open>hex.DecodeString\<close> makes.\<close>

definition hex_of_bytes :: "nat list \<Rightarrow> string" where
  "hex_of_bytes bs = concat (map (\<lambda>b. [digit_char (b div 16 mod 16), digit_char (b mod 16)]) bs)"

definition is_hex_char :: "char \<Rightarrow> bool" where
  "is_hex_char c \<longleftrightarrow> (let n = of_char c :: nat in
     48 \<le> n \<and> n \<le> 57 \<or> 97 \<le> n \<and> n \<le> 102 \<or> 65 \<le> n \<and> n \<le> 70)"

text \<open>\<open>hex.DecodeString\<close> succeeds and yields this many bytes.\<close>

definition hex_decoded_length :: "string \<Rightarrow> nat option" where
  "hex_decoded_length s =
     (if even (length s) \<and> list_all is_hex_char s then Some (length s div 2) else None)"

lemma digit_char_inj: "a < 16 \<Longrightarrow> b < 16 \<Longrightarrow> digit_char a = digit_char b \<Longrightarrow> a = b"
  by (auto simp: digit_char_def split: if_splits dest!: arg_cong [where f = "of_char :: char \<Rightarrow> nat"])

lemma is_hex_digit_char: "d < 16 \<Longrightarrow> is_hex_char (digit_char d)"
  by (auto simp: digit_char_def is_hex_char_def Let_def)

lemma length_hex_of_bytes [simp]: "length (hex_of_bytes bs) = 2 * length bs"
  by (induction bs) (auto simp: hex_of_bytes_def)

lemma itoa_not_Nil [simp]: "itoa n \<noteq> []"
  by (subst itoa.simps) simp

lemma itoa_digits: "c \<in> set (itoa n) \<Longrightarrow> 48 \<le> (of_char c :: nat) \<and> of_char c \<le> (57::nat)"
proof (induction n rule: itoa.induct)
  case (1 n)
  show ?case
    using 1 by (cases "n < 10") (auto simp: itoa.simps [of n] digit_char_def)
qed

lemma itoa_inj: "itoa m = itoa n \<Longrightarrow> m = n"
proof (induction m arbitrary: n rule: itoa.induct)
  case (1 m)
  show ?case
  proof (cases "m < 10")
    case True
    with "1.prems" have "n < 10"
      using itoa_not_Nil [of "n div 10"] by (cases "n < 10") (auto simp: itoa.simps [of m] itoa.simps [of n])
    with True "1.prems" show ?thesis
      using digit_char_inj [of m n] by (auto simp: itoa.simps [of m] itoa.simps [of n])
  next
    case False
    with "1.prems" have n: "\<not> n < 10"
      using itoa_not_Nil [of "m div 10"] by (cases "n < 10") (auto simp: itoa.simps [of m] itoa.simps [of n])
    from False n "1.prems" have "itoa (m div 10) = itoa (n div 10)"
      and d: "digit_char (m mod 10) = digit_char (n mod 10)"
      by (auto simp: itoa.simps [of m] itoa.simps [of n])
    with "1.IH" [OF False] have "m div 10 = n div 10" by blast
    moreover from d have "m mod 10 = n mod 10" by (rule digit_char_inj [rotated 2]) simp_all
    ultimately show ?thesis by (metis div_mult_mod_eq)
  qed
qed

text \<open>Lengths of decimal suffixes, used for the bounds on allocated slugs.\<close>

lemma length_itoa_le: "n < 10 ^ k \<Longrightarrow> 0 < k \<Longrightarrow> length (itoa n) \<le> k"
proof (induction k arbitrary: n)
  case 0
  then show ?case by simp
next
  case (Suc k)
  show ?case
  proof (cases "n < 10")
    case True
    then show ?thesis by (simp add: itoa.simps [of n])
  next
    case False
    with Suc.prems have "k \<noteq> 0" by (cases k) auto
    moreover from Suc.prems have "n div 10 < 10 ^ k" by (simp add: div_less_iff_less_mult mult.commute)
    ultimately have "length (itoa (n div 10)) \<le> k" using Suc.IH by simp
    with False show ?thesis by (simp add: itoa.simps [of n])
  qed
qed

section \<open>\<open>compactIdentifier\<close> (internal/coordinator/projections.go)\<close>

definition compact_identifier :: "string \<Rightarrow> nat \<Rightarrow> string" where
  "compact_identifier value limit = take limit (drop_control (to_valid_utf8 (trim_space value)))"

lemma compact_identifier_Nil [simp]: "compact_identifier [] n = []"
  by (simp add: compact_identifier_def to_valid_utf8_def drop_control_def)

lemma compact_identifier_length: "length (compact_identifier v n) \<le> n"
  by (simp add: compact_identifier_def)

lemma is_control_graphic: "33 \<le> r \<Longrightarrow> r \<le> 126 \<Longrightarrow> \<not> is_control r \<and> \<not> is_space r"
  by (auto simp: is_control_def is_space_def)

text \<open>A printable ASCII identifier of legal length is its own compact form.\<close>

lemma compact_identifier_printable:
  assumes "list_all (\<lambda>c. 33 \<le> (of_char c :: nat) \<and> of_char c \<le> (126::nat)) v"
    and "length v \<le> n"
  shows "compact_identifier v n = v"
proof -
  have a: "is_ascii v" using assms(1) by (auto simp: is_ascii_def list_all_iff)
  have g: "\<not> ascii_space c" if "c \<in> set v" for c
    using that assms(1) is_control_graphic by (auto simp: ascii_space_def list_all_iff)
  then have t: "trim_space v = v"
    unfolding trim_space_ascii [OF a] by (intro trim_both_id) auto
  have "filter (\<lambda>p. \<not> bad_chunk p) (chunks v) = chunks v"
    using valid_utf8_ascii [OF a] by (simp add: valid_utf8_def list_all_iff)
  then have u: "to_valid_utf8 v = v" by (simp add: to_valid_utf8_def)
  have "filter (\<lambda>p. \<not> is_control (fst p)) (chunks v) = chunks v"
    using assms(1) is_control_graphic by (auto simp: chunks_ascii [OF a] list_all_iff)
  moreover have "concat (map (\<lambda>p. encode_rune (fst p)) (chunks v)) = v"
    using a by (induction v) (simp_all add: encode_rune_ascii)
  ultimately have "drop_control v = v" by (simp add: drop_control_def)
  with t u assms(2) show ?thesis by (simp add: compact_identifier_def)
qed

end
