(* ===== verification/Ident.thy ===== *)
theory Ident
  imports Sha256 "HOL-Library.Sublist"
begin

text \<open>
  Work-item identifiers (\<open>internal/model/id.go\<close>): generation from a time stamp and ten entropy
  bytes, the fixed-width base-32 encoding, validation, and the shortest unique display prefixes.
\<close>

section \<open>Generation\<close>

datatype id_error = NilEntropy | EntropyRead

definition crockford :: string where
  "crockford = ''0123456789ABCDEFGHJKMNPQRSTVWXYZ''"

text \<open>Go's integer division truncates towards zero; \<open>UnixNano\<close> is a 64-bit signed integer.\<close>

definition go_div :: "int \<Rightarrow> int \<Rightarrow> int" where
  "go_div a b = sgn a * sgn b * (\<bar>a\<bar> div \<bar>b\<bar>)"

definition unix_nano :: "instant \<Rightarrow> int" where
  "unix_nano t = sint (word_of_int t :: 64 word)"

definition id_millis :: "instant \<Rightarrow> 64 word" where
  "id_millis t = word_of_int (go_div (unix_nano t) 1000000)"

definition byte_of :: "64 word \<Rightarrow> char" where
  "byte_of w = char_of (unat w mod 256)"

fun encode_loop :: "nat \<Rightarrow> nat \<Rightarrow> string" where
  "encode_loop 0 n = []"
| "encode_loop (Suc i) n =
     (if n = 0 then encode_loop i n @ [crockford ! 0]
      else encode_loop i (n div 32) @ [crockford ! (n mod 32)])"

definition set_bytes :: "string \<Rightarrow> nat" where
  "set_bytes b = foldl (\<lambda>n c. n * 256 + of_char c) 0 b"

definition encode_base32_fixed :: "string \<Rightarrow> string" where
  "encode_base32_fixed b = encode_loop 26 (set_bytes b)"

text \<open>The entropy reader is the bytes it can deliver; \<open>None\<close> is a nil reader and
  \<open>io.ReadFull\<close> fails when fewer than ten bytes come.\<close>

definition new_id_with :: "instant \<Rightarrow> string option \<Rightarrow> (id_error, string) result" where
  "new_id_with t entropy = (case entropy of
     None \<Rightarrow> Inl NilEntropy
   | Some bytes \<Rightarrow>
       (let ms = id_millis t;
            b = map (\<lambda>k. byte_of (drop_bit k ms)) [40, 32, 24, 16, 8, 0]
        in if length bytes < 10 then Inl EntropyRead
           else Inr (encode_base32_fixed (b @ take 10 bytes))))"

text \<open>The pattern \<open>^[0-9A-HJKMNP-TV-Z]{26}$\<close>.\<close>

definition id_char :: "char \<Rightarrow> bool" where
  "id_char c \<longleftrightarrow> (let n = of_char c :: nat in
     48 \<le> n \<and> n \<le> 57 \<or> 65 \<le> n \<and> n \<le> 72 \<or> n = 74 \<or> n = 75 \<or> n = 77 \<or> n = 78
     \<or> 80 \<le> n \<and> n \<le> 84 \<or> 86 \<le> n \<and> n \<le> 90)"

definition valid_id :: "string \<Rightarrow> bool" where
  "valid_id s \<longleftrightarrow> length s = 26 \<and> list_all id_char s"

definition short_id :: "string \<Rightarrow> string" where
  "short_id i = (if length i \<le> 6 then i else take 6 i)"

section \<open>Unique prefixes\<close>

fun count_matches :: "string \<Rightarrow> nat \<Rightarrow> string list \<Rightarrow> nat \<Rightarrow> nat option" where
  "count_matches pre n [] matches = Some matches"
| "count_matches pre n (other # others) matches =
     (if length other < n then count_matches pre n others matches
      else if take n other = pre then
        (if matches + 1 > 1 then None else count_matches pre n others (matches + 1))
      else count_matches pre n others matches)"

definition prefix_unique :: "string \<Rightarrow> string list \<Rightarrow> nat \<Rightarrow> bool" where
  "prefix_unique i ids n =
     (let n' = (if n > length i then length i else n)
      in count_matches (take n' i) n' ids 0 = Some 1)"

function grow_prefix :: "string \<Rightarrow> string list \<Rightarrow> nat \<Rightarrow> nat" where
  "grow_prefix i ids n =
     (if n < length i \<and> \<not> prefix_unique i ids n then grow_prefix i ids (n + 1) else n)"
  by pat_completeness auto
termination
  by (relation "measure (\<lambda>(i, ids, n). length i - n)") auto

declare grow_prefix.simps [simp del]

definition unique_id_prefix :: "string list \<Rightarrow> int \<Rightarrow> string \<Rightarrow> string" where
  "unique_id_prefix ids lo i =
     (let m = nat (if lo < 1 then 1 else lo);
          n = (if m > length i then length i else m)
      in take (grow_prefix i ids n) i)"

text \<open>The result map holds one entry per listed identifier.\<close>

definition unique_id_prefixes :: "string list \<Rightarrow> int \<Rightarrow> string \<Rightarrow> string option" where
  "unique_id_prefixes ids lo =
     (\<lambda>i. if i \<in> set ids then Some (unique_id_prefix ids lo i) else None)"

section \<open>The encoding is fixed-width, valid and order preserving\<close>

lemma length_crockford [simp]: "length crockford = 32"
  by (simp add: crockford_def)

lemma crockford_id_char: "list_all id_char crockford"
  by (simp add: crockford_def id_char_def Let_def)

lemma crockford_sorted: "sorted_wrt (<) crockford"
  by (simp add: crockford_def less_char_def)

lemma crockford_less_iff: "i < 32 \<Longrightarrow> j < 32 \<Longrightarrow> crockford ! i < crockford ! j \<longleftrightarrow> i < j"
  using crockford_sorted
  by (metis length_crockford linorder_neqE_nat not_less_iff_gr_or_eq sorted_wrt_nth_less)

lemma length_encode_loop [simp]: "length (encode_loop i n) = i"
  by (induction i arbitrary: n) auto

lemma encode_loop_Suc: "encode_loop (Suc i) n = encode_loop i (n div 32) @ [crockford ! (n mod 32)]"
  by simp

lemma encode_loop_numeral:
  "encode_loop (numeral k) n = encode_loop (pred_numeral k) (n div 32) @ [crockford ! (n mod 32)]"
  by (simp only: numeral_eq_Suc encode_loop_Suc)

declare encode_loop.simps(2) [simp del]

lemma encode_loop_chars: "list_all id_char (encode_loop i n)"
proof (induction i arbitrary: n)
  case (Suc i)
  have "id_char (crockford ! (n mod 32))"
    using crockford_id_char by (simp add: list_all_length)
  with Suc show ?case by (simp add: encode_loop_Suc)
qed simp

lemma valid_id_encode: "valid_id (encode_base32_fixed b)"
  by (simp add: valid_id_def encode_base32_fixed_def encode_loop_chars)

lemma snoc_less_iff:
  "length xs = length ys \<Longrightarrow> xs @ [a] < ys @ [b] \<longleftrightarrow> xs < ys \<or> xs = ys \<and> (a::'a::order) < b"
  by (induction xs ys rule: list_induct2) auto

lemma digit_lex:
  "r < 32 \<Longrightarrow> s < 32 \<Longrightarrow> (a < b \<or> a = b \<and> r < s) = (a * 32 + r < b * 32 + (s::nat))"
  by (cases a b rule: linorder_cases) auto

lemma encode_loop_less_iff:
  "m < 32 ^ i \<Longrightarrow> n < 32 ^ i \<Longrightarrow> encode_loop i m < encode_loop i n \<longleftrightarrow> m < n"
proof (induction i arbitrary: m n)
  case 0
  then show ?case by simp
next
  case (Suc i)
  have bound: "x div 32 < 32 ^ i" if "x < 32 ^ Suc i" for x :: nat
    using that by (simp add: div_less_iff_less_mult mult.commute)
  have eq: "encode_loop i a = encode_loop i b \<longleftrightarrow> a = b" if "a < 32 ^ i" "b < 32 ^ i" for a b
    using that Suc.IH by (metis less_irrefl linorder_neqE_nat)
  have "encode_loop (Suc i) m < encode_loop (Suc i) n \<longleftrightarrow>
      m div 32 < n div 32 \<or> m div 32 = n div 32 \<and> m mod 32 < n mod 32"
    by (simp only: encode_loop_Suc snoc_less_iff length_encode_loop Suc.IH [OF bound bound, OF Suc.prems]
        eq [OF bound bound, OF Suc.prems] crockford_less_iff mod_less_divisor zero_less_numeral)
  also have "\<dots> \<longleftrightarrow> m < n"
    using digit_lex [of "m mod 32" "n mod 32" "m div 32" "n div 32"] by simp
  finally show ?case .
qed

lemma set_bytes_snoc: "set_bytes (xs @ [x]) = set_bytes xs * 256 + of_char x"
  by (simp add: set_bytes_def)

lemma set_bytes_append: "set_bytes (xs @ ys) = set_bytes xs * 256 ^ length ys + set_bytes ys"
proof (induction ys rule: rev_induct)
  case (snoc y ys)
  then show ?case
    by (simp only: set_bytes_snoc append_assoc [symmetric] length_append list.size power_add)
      (simp add: distrib_right mult.assoc)
qed (simp add: set_bytes_def)

lemma set_bytes_bound: "set_bytes xs < 256 ^ length xs"
proof (induction xs rule: rev_induct)
  case (snoc x xs)
  have x: "(of_char x :: nat) < 256" by simp
  have p: "256 ^ length (xs @ [x]) = 256 * (256 ^ length xs :: nat)" by simp
  from snoc x show ?case unfolding set_bytes_snoc p by linarith
qed (simp add: set_bytes_def)

text \<open>The six clock bytes, read as a number, are the low 48 bits of the millisecond count.\<close>

lemma byte_shift: "n div 256 mod p * 256 + n mod 256 = n mod (p * 256)" for n p :: nat
  by (metis add.commute mod_mult2_eq mult.commute)

lemma div_powers:
  fixes n :: nat
  shows "n div 2 ^ 8 = n div 256" and "n div 2 ^ 16 = n div 256 div 256"
    and "n div 2 ^ 24 = n div 256 div 256 div 256"
    and "n div 2 ^ 32 = n div 256 div 256 div 256 div 256"
    and "n div 2 ^ 40 = n div 256 div 256 div 256 div 256 div 256"
  by (simp_all flip: div_mult2_eq)

lemma of_char_byte_of: "(of_char (byte_of (drop_bit k w)) :: nat) = unat w div 2 ^ k mod 256"
  by (simp add: byte_of_def unat_drop_bit_eq drop_bit_eq_div [where ?'a = nat])

lemma clock_bytes:
  "set_bytes (map (\<lambda>k. byte_of (drop_bit k ms)) [40, 32, 24, 16, 8, 0]) = unat ms mod 2 ^ 48"
proof -
  have "set_bytes (map (\<lambda>k. byte_of (drop_bit k ms)) [40, 32, 24, 16, 8, 0]) =
     ((((unat ms div 2 ^ 40 mod 256 * 256 + unat ms div 2 ^ 32 mod 256) * 256 + unat ms div 2 ^ 24 mod 256) * 256
       + unat ms div 2 ^ 16 mod 256) * 256 + unat ms div 2 ^ 8 mod 256) * 256 + unat ms mod 256"
    unfolding set_bytes_def list.map foldl.simps of_char_byte_of by simp
  also have "\<dots> = unat ms mod (256 * 256 * 256 * 256 * 256 * 256)"
    by (simp only: div_powers byte_shift)
  finally show ?thesis by simp
qed

text \<open>For clocks between 1970 and 2262 the count is the plain millisecond number.\<close>

lemma unat_id_millis:
  assumes "0 \<le> t" and "t < 2 ^ 63"
  shows "unat (id_millis t) = nat (t div 1000000)"
proof -
  have "unix_nano t = t"
    using assms by (simp add: unix_nano_def sint_uint uint_word_of_int_eq take_bit_int_eq_self
      signed_take_bit_int_eq_self)
  moreover have "0 \<le> t div 1000000" and "t div 1000000 < 2 ^ 64"
    using assms by (auto intro: order.strict_trans1 [OF zdiv_mono2 [of t 1 1000000, simplified]])
  moreover have "go_div t 1000000 = t div 1000000"
    using assms by (cases "t = 0") (auto simp: go_div_def)
  ultimately show ?thesis
    by (simp add: id_millis_def unat_eq_nat_uint uint_word_of_int_eq take_bit_int_eq_self)
qed

text \<open>Identifiers are always valid, whatever the clock and the entropy.\<close>

theorem new_id_valid: "new_id_with t entropy = Inr i \<Longrightarrow> valid_id i"
  by (auto simp: new_id_with_def Let_def valid_id_encode split: option.splits if_splits)

lemma new_id_sample:
  "new_id_with 1700000000000000000 (Some ''0123456789'') = Inr ''01HF7YAT0060RK4CSM6MV3EE1S''"
proof -
  have "set_bytes (map (\<lambda>k. byte_of (drop_bit k (id_millis 1700000000000000000))) [40, 32, 24, 16, 8, 0])
      = 1700000000000"
    unfolding clock_bytes by (simp add: unat_id_millis)
  then have "set_bytes (map (\<lambda>k. byte_of (drop_bit k (id_millis 1700000000000000000))) [40, 32, 24, 16, 8, 0]
      @ ''0123456789'') = 1700000000000 * 256 ^ 10 + set_bytes ''0123456789''"
    by (simp only: set_bytes_append) simp
  also have "\<dots> = 1700000000000 * 256 ^ 10 + 227581098929683594426425"
    by (simp add: set_bytes_def)
  finally have n: "set_bytes (map (\<lambda>k. byte_of (drop_bit k (id_millis 1700000000000000000))) [40, 32, 24, 16, 8, 0]
      @ ''0123456789'') = 2055173893345097178099428883594426425" by simp
  have t: "take 10 ''0123456789'' = ''0123456789''" by simp
  have "new_id_with 1700000000000000000 (Some ''0123456789'') = Inr (encode_loop 26 2055173893345097178099428883594426425)"
    unfolding new_id_with_def option.case Let_def encode_base32_fixed_def t n by simp
  also have "encode_loop 26 2055173893345097178099428883594426425 = ''01HF7YAT0060RK4CSM6MV3EE1S''"
    by (simp add: encode_loop_numeral encode_loop_Suc crockford_def)
  finally show ?thesis .
qed

theorem new_id_valid_witness: "valid_id ''01HF7YAT0060RK4CSM6MV3EE1S''"
  by (rule new_id_valid [OF new_id_sample])

text \<open>Identifiers sort by creation time: a later millisecond gives a greater identifier, whatever the
  entropy was.\<close>

theorem new_id_sortable:
  assumes "new_id_with t1 e1 = Inr i1" and "new_id_with t2 e2 = Inr i2"
    and "0 \<le> t1" and "t1 div 1000000 < t2 div 1000000" and "t2 < 2 ^ 63"
  shows "i1 < i2"
proof -
  have id: "\<exists>r. r < 256 ^ 10 \<and> i = encode_loop 26 (nat (t div 1000000) * 256 ^ 10 + r)
      \<and> nat (t div 1000000) < 2 ^ 48"
    if "new_id_with t e = Inr i" "0 \<le> t" "t < 2 ^ 63" for t e i
  proof -
    from that(1) obtain bs where e: "e = Some bs" "10 \<le> length bs"
      and i: "i = encode_base32_fixed (map (\<lambda>k. byte_of (drop_bit k (id_millis t))) [40, 32, 24, 16, 8, 0] @ take 10 bs)"
      unfolding new_id_with_def Let_def by (auto split: option.splits if_splits)
    have "unat (id_millis t) = nat (t div 1000000)" using that by (intro unat_id_millis) auto
    moreover have "nat (t div 1000000) < 2 ^ 48" using that by (simp add: nat_less_iff) 
    moreover have "set_bytes (take 10 bs) < 256 ^ 10" using set_bytes_bound [of "take 10 bs"] e by simp
    ultimately show ?thesis
      using i e unfolding encode_base32_fixed_def set_bytes_append clock_bytes by auto
  qed
  have "t1 < t2"
  proof (rule ccontr)
    assume "\<not> t1 < t2"
    then have "t2 div 1000000 \<le> t1 div 1000000" by (intro zdiv_mono1) auto
    with assms(4) show False by simp
  qed
  with assms have "t1 < 2 ^ 63" and "0 \<le> t2" by simp_all
  from id [OF assms(1,3) this(1)] obtain r1 where r1: "r1 < 256 ^ 10" "nat (t1 div 1000000) < 2 ^ 48"
      "i1 = encode_loop 26 (nat (t1 div 1000000) * 256 ^ 10 + r1)" by auto
  from id [OF assms(2) \<open>0 \<le> t2\<close> assms(5)] obtain r2 where r2: "r2 < 256 ^ 10" "nat (t2 div 1000000) < 2 ^ 48"
      "i2 = encode_loop 26 (nat (t2 div 1000000) * 256 ^ 10 + r2)" by auto
  have bound: "n * 256 ^ 10 + r < 32 ^ 26" if "n < 2 ^ 48" "r < 256 ^ 10" for n r :: nat
    using that by simp
  have radix: "a * p + x < b * p + y" if "a < b" "x < p" for a b p x y :: nat
  proof -
    have "a * p + x < Suc a * p" using that by simp
    also have "\<dots> \<le> b * p" using that by (intro mult_right_mono) auto
    finally show ?thesis by simp
  qed
  have "nat (t1 div 1000000) < nat (t2 div 1000000)" using assms by simp
  then have "nat (t1 div 1000000) * 256 ^ 10 + r1 < nat (t2 div 1000000) * 256 ^ 10 + r2"
    using r1(1) by (rule radix)
  then show ?thesis
    unfolding r1(3) r2(3) by (subst encode_loop_less_iff) (use bound r1 r2 in blast)+
qed

theorem new_id_sortable_witness:
  "''01HF7YAT0060RK4CSM6MV3EE1S'' < encode_base32_fixed
     (map (\<lambda>k. byte_of (drop_bit k (id_millis 1700000000001000000))) [40, 32, 24, 16, 8, 0] @ ''0000000000'')"
  by (rule new_id_sortable [OF new_id_sample, where ?t2.0 = 1700000000001000000 and ?e2.0 = "Some ''0000000000''"])
    (simp_all add: new_id_with_def Let_def)

section \<open>Display prefixes\<close>

lemma count_matches_spec:
  "m \<le> 1 \<Longrightarrow> count_matches p n ids m =
     (let k = m + length (filter (\<lambda>j. n \<le> length j \<and> take n j = p) ids)
      in if k > 1 then None else Some k)"
proof (induction ids arbitrary: m)
  case (Cons j ids)
  then show ?case by (cases "m = 0") (auto simp: Let_def)
qed (simp add: Let_def)

lemma prefix_take_iff: "n \<le> length i \<Longrightarrow> n \<le> length j \<and> take n j = take n i \<longleftrightarrow> prefix (take n i) j"
  by (metis append_eq_conv_conj length_take min.absorb2 prefix_def prefix_length_le take_is_prefix)

lemma prefix_unique_iff:
  "n \<le> length i \<Longrightarrow> prefix_unique i ids n \<longleftrightarrow> length (filter (prefix (take n i)) ids) = 1"
  by (simp add: prefix_unique_def count_matches_spec Let_def prefix_take_iff)

lemma prefix_unique_distinct:
  assumes "distinct ids" and "i \<in> set ids" and "n \<le> length i"
  shows "prefix_unique i ids n \<longleftrightarrow> (\<forall>j\<in>set ids. prefix (take n i) j \<longrightarrow> j = i)"
proof -
  have i: "i \<in> set (filter (prefix (take n i)) ids)" using assms by (simp add: take_is_prefix)
  have "length (filter (prefix (take n i)) ids) = card (set (filter (prefix (take n i)) ids))"
    by (rule distinct_card [OF distinct_filter [OF assms(1)], symmetric])
  moreover have "card (set (filter (prefix (take n i)) ids)) = 1 \<longleftrightarrow> set (filter (prefix (take n i)) ids) = {i}"
    using i by (metis card_1_singletonE is_singletonI is_singleton_altdef singletonD)
  moreover have "set (filter (prefix (take n i)) ids) = {i} \<longleftrightarrow> (\<forall>j\<in>set ids. prefix (take n i) j \<longrightarrow> j = i)"
    using i by (simp add: set_eq_iff) blast
  ultimately show ?thesis using prefix_unique_iff [OF assms(3), of ids] by simp
qed

lemma grow_prefix_spec:
  "n \<le> grow_prefix i ids n
   \<and> (n \<le> length i \<longrightarrow> grow_prefix i ids n \<le> length i)
   \<and> (grow_prefix i ids n < length i \<longrightarrow> prefix_unique i ids (grow_prefix i ids n))
   \<and> (\<forall>k. n \<le> k \<and> k < grow_prefix i ids n \<longrightarrow> \<not> prefix_unique i ids k)"
proof (induction i ids n rule: grow_prefix.induct)
  case (1 i ids n)
  show ?case
  proof (cases "n < length i \<and> \<not> prefix_unique i ids n")
    case True
    then have step: "grow_prefix i ids n = grow_prefix i ids (n + 1)"
      by (simp add: grow_prefix.simps [of i ids n])
    have "\<not> prefix_unique i ids k" if "n \<le> k" "k < grow_prefix i ids (n + 1)" for k
      using that "1.IH" [OF True] True by (cases "k = n") auto
    with "1.IH" [OF True] True step show ?thesis by auto
  next
    case False
    then have "grow_prefix i ids n = n" by (subst grow_prefix.simps) auto
    with False show ?thesis by auto
  qed
qed

text \<open>Among distinct valid identifiers, the display prefix of an identifier names it alone, has the
  requested minimal length, and no shorter admissible prefix would do.\<close>

theorem unique_id_prefix_correct:
  assumes "distinct ids" and "\<forall>j\<in>set ids. valid_id j" and "i \<in> set ids"
  shows "\<exists>p. unique_id_prefixes ids lo i = Some p \<and> prefix p i \<and> min (max 1 lo) 26 \<le> int (length p)
    \<and> (\<forall>j\<in>set ids. prefix p j \<longrightarrow> j = i)
    \<and> (\<forall>n. max 1 lo \<le> int n \<and> n < length p \<longrightarrow> (\<exists>j\<in>set ids. j \<noteq> i \<and> prefix (take n i) j))"
proof -
  define n0 where "n0 = min (nat (max 1 lo)) (length i)"
  define g where "g = grow_prefix i ids n0"
  have len: "length j = 26" if "j \<in> set ids" for j using assms(2) that by (simp add: valid_id_def)
  have g: "n0 \<le> g" "g \<le> length i" "g < length i \<Longrightarrow> prefix_unique i ids g"
    "\<And>k. n0 \<le> k \<Longrightarrow> k < g \<Longrightarrow> \<not> prefix_unique i ids k"
    using grow_prefix_spec [of n0 i ids] by (auto simp: g_def n0_def)
  have p: "unique_id_prefixes ids lo i = Some (take g i)"
    using assms(3) by (simp add: unique_id_prefixes_def unique_id_prefix_def Let_def g_def n0_def max_def min_def)
  have "j = i" if j: "j \<in> set ids" "prefix (take g i) j" for j
  proof (cases "g < length i")
    case True
    with g(3) j assms show ?thesis using prefix_unique_distinct [of ids i g] g(2) by blast
  next
    case False
    with j(2) have "prefix i j" by simp
    with len [OF j(1)] len [OF assms(3)] show ?thesis by (metis prefix_def append_eq_conv_conj take_all_iff order_refl)
  qed
  moreover have "\<exists>j\<in>set ids. j \<noteq> i \<and> prefix (take n i) j" if "max 1 lo \<le> int n" "n < length (take g i)" for n
  proof -
    from that have "n0 \<le> n" "n < g" "n \<le> length i" using g(2) by (auto simp: n0_def)
    with g(4) assms show ?thesis using prefix_unique_distinct [of ids i n] by blast
  qed
  moreover have "min (max 1 lo) 26 \<le> int (length (take g i))"
    using g(1,2) len [OF assms(3)] by (auto simp: n0_def)
  ultimately show ?thesis using p take_is_prefix by blast
qed

theorem unique_id_prefix_correct_witness:
  "\<exists>p. unique_id_prefixes [''01HF7YAT0060RK4CSM6MV3EE1S'', ''01HF7YAT0160RK4CSM6MV3EE1S''] 4
     ''01HF7YAT0060RK4CSM6MV3EE1S'' = Some p"
  using unique_id_prefix_correct
    [of "[''01HF7YAT0060RK4CSM6MV3EE1S'', ''01HF7YAT0160RK4CSM6MV3EE1S'']" "''01HF7YAT0060RK4CSM6MV3EE1S''" 4]
  by (auto simp: valid_id_def id_char_def)

end
