(* ===== verification/Slug.thy ===== *)
theory Slug
  imports GoStrings
begin

text \<open>
  Slugs and names derived from titles and identifiers (\<open>internal/model/slug.go\<close>). \<open>canonical_slug\<close>
  is the abstract specification: lower-case letters and digits in groups joined by single hyphens,
  at most sixty bytes. \<open>Slugify\<close> maps every title into it and is the identity on it.
\<close>

definition max_slug_length :: nat where
  "max_slug_length = 60"

definition branch_id_suffix_length :: nat where
  "branch_id_suffix_length = 8"

definition slug_letter :: "nat \<Rightarrow> bool" where
  "slug_letter r \<longleftrightarrow> 97 \<le> r \<and> r \<le> 122 \<or> 48 \<le> r \<and> r \<le> 57"

definition slug_separator :: "nat \<Rightarrow> bool" where
  "slug_separator r \<longleftrightarrow> is_space r \<or> r = 45 \<or> r = 95 \<or> r = 47 \<or> r = 46"

text \<open>One iteration of the loop of \<open>Slugify\<close>, on the buffer and \<open>lastHyphen\<close>.\<close>

definition slug_step :: "nat \<Rightarrow> string \<times> bool \<Rightarrow> string \<times> bool" where
  "slug_step r st = (case st of (b, last_hyphen) \<Rightarrow>
     if slug_letter r then (b @ [char_of r], False)
     else if slug_separator r then
       (if length b > 0 \<and> \<not> last_hyphen then (b @ ''-'', True) else (b, last_hyphen))
     else (b, last_hyphen))"

fun slug_loop :: "nat list \<Rightarrow> string \<times> bool \<Rightarrow> string" where
  "slug_loop [] st = fst st"
| "slug_loop (r # rs) st =
     (let st' = slug_step r st
      in if length (fst st') \<ge> max_slug_length then fst st' else slug_loop rs st')"

definition slugify :: "string \<Rightarrow> string" where
  "slugify title =
     (let slug = trim_char (CHR ''-'') (slug_loop (runes (to_lower title)) ([], False))
      in if slug = [] then ''item'' else slug)"

definition normalize_slug_selector :: "string \<Rightarrow> string \<times> bool" where
  "normalize_slug_selector v =
     (let value = to_lower (trim_space v)
      in if value = [] then ([], False) else (slugify value, slugify value = value))"

definition item_id_suffix :: "string \<Rightarrow> string" where
  "item_id_suffix i =
     (let s = to_lower (trim_space i);
          s' = (if length s > branch_id_suffix_length then drop (length s - branch_id_suffix_length) s else s)
      in if s' = [] then ''item'' else s')"

definition item_branch_name :: "string \<Rightarrow> string \<Rightarrow> string" where
  "item_branch_name slug i = ''wi/'' @ slugify slug @ ''-'' @ item_id_suffix i"

definition id_derived_slug :: "string \<Rightarrow> string" where
  "id_derived_slug i = ''item-'' @ item_id_suffix i"

definition terminal_session_name :: "string \<Rightarrow> string" where
  "terminal_session_name i =
     (let i' = trim_space i;
          i'' = (if i' = [] then ''item'' else i')
      in ''wi-'' @ (if length i'' > 12 then take 12 i'' else i''))"

section \<open>The specification\<close>

definition slug_char :: "char \<Rightarrow> bool" where
  "slug_char c \<longleftrightarrow> slug_letter (of_char c) \<or> c = CHR ''-''"

definition no_double_hyphen :: "string \<Rightarrow> bool" where
  "no_double_hyphen s \<longleftrightarrow> successively (\<lambda>a b. \<not> (a = CHR ''-'' \<and> b = CHR ''-'')) s"

definition canonical_slug :: "string \<Rightarrow> bool" where
  "canonical_slug s \<longleftrightarrow> s \<noteq> [] \<and> length s \<le> max_slug_length \<and> list_all slug_char s
     \<and> no_double_hyphen s \<and> hd s \<noteq> CHR ''-'' \<and> last s \<noteq> CHR ''-''"

text \<open>The state of the loop: what the buffer holds before the final trim.\<close>

definition slug_state :: "string \<times> bool \<Rightarrow> bool" where
  "slug_state st \<longleftrightarrow> (case st of (b, last_hyphen) \<Rightarrow>
     list_all slug_char b \<and> no_double_hyphen b \<and> (b \<noteq> [] \<longrightarrow> hd b \<noteq> CHR ''-'')
     \<and> (last_hyphen \<longleftrightarrow> b \<noteq> [] \<and> last b = CHR ''-''))"

lemma slug_letter_mod [simp]: "slug_letter r \<Longrightarrow> r mod 256 = r"
  by (auto simp: slug_letter_def)

lemma slug_letter_not_hyphen: "slug_letter r \<Longrightarrow> char_of r \<noteq> CHR ''-''"
proof
  assume r: "slug_letter r" and "char_of r = CHR ''-''"
  then have "(of_char (char_of r :: char) :: nat) = of_char (CHR ''-'')" by simp
  with r show False by (simp add: slug_letter_def)
qed

lemma slug_step_state: "slug_state st \<Longrightarrow> slug_state (slug_step r st)"
  by (cases st)
    (auto simp: slug_state_def slug_step_def slug_char_def slug_letter_not_hyphen
      no_double_hyphen_def successively_append_iff)

lemma slug_step_length: "length (fst (slug_step r st)) \<le> Suc (length (fst st))"
  by (auto simp: slug_step_def split: prod.splits)

lemma slug_loop_state:
  "slug_state st \<Longrightarrow> length (fst st) < max_slug_length \<Longrightarrow>
   \<exists>h. slug_state (slug_loop rs st, h) \<and> length (slug_loop rs st) \<le> max_slug_length"
proof (induction rs st rule: slug_loop.induct)
  case (1 st)
  then show ?case by (cases st) auto
next
  case (2 r rs st)
  obtain b h where st': "slug_step r st = (b, h)" by fastforce
  have "slug_state (b, h)" using slug_step_state [OF "2.prems"(1), of r] st' by simp
  moreover have "length b \<le> max_slug_length"
    using slug_step_length [of r st] st' "2.prems"(2) by simp
  ultimately show ?case using "2.IH" st' by (auto simp: Let_def)
qed

lemma trim_hyphen_once:
  assumes "no_double_hyphen b" and "b \<noteq> []" and "hd b \<noteq> CHR ''-''"
  shows "trim_char (CHR ''-'') b = (if last b = CHR ''-'' then butlast b else b)"
proof -
  have hd: "dropWhile (\<lambda>x. x = CHR ''-'') b = b" using assms(2,3) by (cases b) auto
  obtain xs x where b: "b = xs @ [x]" using assms(2) by (cases b rule: rev_cases) auto
  show ?thesis
  proof (cases "xs = []")
    case True
    with assms b show ?thesis by (auto simp: trim_char_def trim_both_def)
  next
    case False
    then obtain ys y where xs: "xs = ys @ [y]" by (cases xs rule: rev_cases) auto
    have "x = CHR ''-'' \<Longrightarrow> y \<noteq> CHR ''-''"
      using assms(1) b xs by (auto simp: no_double_hyphen_def successively_append_iff)
    with b xs hd show ?thesis by (auto simp: trim_char_def trim_both_def butlast_append)
  qed
qed

lemma canonical_item: "canonical_slug ''item''"
  by (simp add: canonical_slug_def max_slug_length_def slug_char_def slug_letter_def no_double_hyphen_def)

lemma slugify_is_canonical: "canonical_slug (slugify title)"
proof -
  let ?b = "slug_loop (runes (to_lower title)) ([], False)"
  obtain h where st: "slug_state (?b, h)" and len: "length ?b \<le> max_slug_length"
    using slug_loop_state [of "([], False)" "runes (to_lower title)"]
    by (auto simp: slug_state_def no_double_hyphen_def max_slug_length_def)
  show ?thesis
  proof (cases "?b = []")
    case True
    then show ?thesis by (simp add: slugify_def trim_char_def canonical_item)
  next
    case False
    with st have b: "list_all slug_char ?b" "no_double_hyphen ?b" "hd ?b \<noteq> CHR ''-''"
      by (simp_all add: slug_state_def)
    obtain xs x where bx: "?b = xs @ [x]" using False by (cases ?b rule: rev_cases) auto
    have trim: "trim_char (CHR ''-'') ?b = (if x = CHR ''-'' then xs else ?b)"
      using trim_hyphen_once [OF b(2) False b(3)] bx by simp
    have "canonical_slug (trim_char (CHR ''-'') ?b)"
    proof (cases "x = CHR ''-''")
      case True
      then have xs: "xs \<noteq> []" "last xs \<noteq> CHR ''-''"
        using b(2,3) unfolding bx by (auto simp: no_double_hyphen_def successively_append_iff)
      moreover have "list_all slug_char xs" "no_double_hyphen xs" "hd xs \<noteq> CHR ''-''" "length xs \<le> max_slug_length"
        using b len xs unfolding bx by (auto simp: no_double_hyphen_def successively_append_iff)
      moreover have "trim_char (CHR ''-'') ?b = xs" using trim True by simp
      ultimately show ?thesis by (simp add: canonical_slug_def)
    next
      case False
      with b len bx show ?thesis unfolding trim by (simp add: canonical_slug_def)
    qed
    then show ?thesis by (auto simp: slugify_def Let_def canonical_item)
  qed
qed

lemma slug_char_ascii: "slug_char c \<Longrightarrow> of_char c < (128::nat)"
  by (auto simp: slug_char_def slug_letter_def)

lemma canonical_ascii: "list_all slug_char s \<Longrightarrow> is_ascii s"
  using slug_char_ascii by (auto simp: is_ascii_def list_all_iff)

lemma char_lower_slug_char: "slug_char c \<Longrightarrow> char_lower c = c"
  by (auto simp: slug_char_def slug_letter_def char_lower_def rune_lower_def)

lemma to_lower_slug: "list_all slug_char s \<Longrightarrow> to_lower s = s"
  by (simp add: to_lower_ascii canonical_ascii char_lower_slug_char list_all_iff map_idI)

lemma slug_step_slug_char:
  assumes "slug_char c" and "no_double_hyphen (b @ [c])" and "b = [] \<longrightarrow> c \<noteq> CHR ''-''"
  shows "slug_step (of_char c) (b, b \<noteq> [] \<and> last b = CHR ''-'') = (b @ [c], c = CHR ''-'')"
proof (cases "c = CHR ''-''")
  case True
  with assms show ?thesis
    by (cases b rule: rev_cases)
      (auto simp: slug_step_def slug_letter_def slug_separator_def no_double_hyphen_def successively_append_iff)
next
  case False
  with assms(1) show ?thesis by (auto simp: slug_step_def slug_char_def)
qed

lemma slug_loop_fixed:
  "list_all slug_char s \<Longrightarrow> no_double_hyphen (b @ s) \<Longrightarrow> hd (b @ s) \<noteq> CHR ''-'' \<Longrightarrow>
   length (b @ s) \<le> max_slug_length \<Longrightarrow>
   slug_loop (map of_char s) (b, b \<noteq> [] \<and> last b = CHR ''-'') = b @ s"
proof (induction s arbitrary: b)
  case Nil
  then show ?case by simp
next
  case (Cons c s)
  have "no_double_hyphen (b @ [c])"
    using Cons.prems(2) by (auto simp: no_double_hyphen_def successively_append_iff)
  then have step: "slug_step (of_char c) (b, b \<noteq> [] \<and> last b = CHR ''-'') = (b @ [c], c = CHR ''-'')"
    using Cons.prems by (intro slug_step_slug_char) auto
  have "slug_loop (map of_char s) (b @ [c], c = CHR ''-'') = b @ c # s"
    using Cons.IH [of "b @ [c]"] Cons.prems by simp
  moreover have "s = []" if "length (b @ [c]) \<ge> max_slug_length"
    using that Cons.prems(4) by (cases s) auto
  ultimately show ?case by (auto simp: step Let_def)
qed

lemma canonical_slug_iff: "slugify s = s \<longleftrightarrow> canonical_slug s"
proof
  assume "slugify s = s"
  then show "canonical_slug s" by (metis slugify_is_canonical)
next
  assume c: "canonical_slug s"
  then have s: "list_all slug_char s" by (simp add: canonical_slug_def)
  have "slug_loop (map of_char s) ([], False) = s"
    using slug_loop_fixed [of s "[]"] c by (simp add: canonical_slug_def)
  then have "slug_loop (runes (to_lower s)) ([], False) = s"
    by (simp add: to_lower_slug [OF s] runes_ascii [OF canonical_ascii [OF s]])
  moreover have "trim_char (CHR ''-'') s = s"
    using c by (simp add: trim_char_def canonical_slug_def trim_both_id)
  ultimately show "slugify s = s" using c by (simp add: slugify_def canonical_slug_def)
qed

text \<open>Every title becomes a canonical slug, and the canonical slugs are exactly the fixed points.\<close>

theorem slugify_canonical: "canonical_slug (slugify title) \<and> (slugify title = title \<longleftrightarrow> canonical_slug title)"
  using slugify_is_canonical canonical_slug_iff by blast

lemma slugify_idem [simp]: "slugify (slugify s) = slugify s"
  using canonical_slug_iff slugify_is_canonical by blast

lemma normalize_slug_selector_iff:
  "snd (normalize_slug_selector v) \<longleftrightarrow> canonical_slug (to_lower (trim_space v))"
  using canonical_slug_iff [of "to_lower (trim_space v)"]
  by (auto simp: normalize_slug_selector_def Let_def canonical_slug_def)

end
