(* ===== verification/Labels.thy ===== *)
theory Labels
  imports GoStrings
begin

text \<open>
  Item labels (\<open>internal/model/labels.go\<close>): normalisation of one label and of label lists, adding,
  removing and looking up. \<open>label_ok\<close> is the abstract set of canonical labels; a label list is
  well formed when it is a duplicate-free list of canonical labels.
\<close>

datatype label_error = LabelEmpty | LabelUnsafe nat

definition label_rune :: "nat \<Rightarrow> bool" where
  "label_rune r \<longleftrightarrow> 97 \<le> r \<and> r \<le> 122 \<or> 48 \<le> r \<and> r \<le> 57 \<or> r = 95 \<or> r = 45 \<or> r = 46 \<or> r = 47"

text \<open>The loop of \<open>NormalizeLabel\<close> over the lower-cased runes, on the buffer and \<open>lastSep\<close>.\<close>

fun label_loop :: "nat list \<Rightarrow> string \<Rightarrow> bool \<Rightarrow> (label_error, string) result" where
  "label_loop [] b last_sep = Inr b"
| "label_loop (r # rs) b last_sep =
     (if label_rune r then label_loop rs (b @ [char_of r]) False
      else if is_space r then
        (if length b > 0 \<and> \<not> last_sep then label_loop rs (b @ ''-'') True else label_loop rs b last_sep)
      else Inl (LabelUnsafe r))"

definition normalize_label :: "string \<Rightarrow> (label_error, string) result" where
  "normalize_label l =
     (let label = trim_space l
      in if label = [] then Inl LabelEmpty
         else (case label_loop (runes (to_lower label)) [] False of
           Inl e \<Rightarrow> Inl e
         | Inr b \<Rightarrow>
             (let out = trim_char (CHR ''-'') b
              in if out = [] then Inl LabelEmpty else Inr out)))"

text \<open>\<open>seen\<close> is the map the Go loop keeps; \<open>out\<close> the list built so far.\<close>

fun normalize_loop :: "string list \<Rightarrow> string set \<Rightarrow> string list \<Rightarrow> (label_error, string list) result" where
  "normalize_loop [] seen out = Inr out"
| "normalize_loop (l # ls) seen out =
     (case normalize_label l of
        Inl e \<Rightarrow> Inl e
      | Inr n \<Rightarrow> if n \<in> seen then normalize_loop ls seen out
                 else normalize_loop ls (insert n seen) (out @ [n]))"

definition normalize_labels :: "string list \<Rightarrow> (label_error, string list) result" where
  "normalize_labels ls = normalize_loop ls {} []"

fun add_loop :: "string list \<Rightarrow> string set \<Rightarrow> string list \<Rightarrow> string list
    \<Rightarrow> (label_error, string list \<times> string list) result" where
  "add_loop [] seen out added = Inr (out, added)"
| "add_loop (l # ls) seen out added =
     (case normalize_label l of
        Inl e \<Rightarrow> Inl e
      | Inr n \<Rightarrow> if n \<in> seen then add_loop ls seen out added
                 else add_loop ls (insert n seen) (out @ [n]) (added @ [n]))"

definition add_labels :: "string list \<Rightarrow> string list \<Rightarrow> (label_error, string list \<times> string list) result" where
  "add_labels existing labels =
     (case normalize_labels existing of
        Inl e \<Rightarrow> Inl e
      | Inr out \<Rightarrow> add_loop labels (set out) out [])"

fun remove_set :: "string list \<Rightarrow> string set \<Rightarrow> (label_error, string set) result" where
  "remove_set [] acc = Inr acc"
| "remove_set (l # ls) acc =
     (case normalize_label l of Inl e \<Rightarrow> Inl e | Inr n \<Rightarrow> remove_set ls (insert n acc))"

fun remove_loop :: "string list \<Rightarrow> string set \<Rightarrow> string list \<Rightarrow> string list
    \<Rightarrow> (label_error, string list \<times> string list) result" where
  "remove_loop [] rm out removed = Inr (out, removed)"
| "remove_loop (l # ls) rm out removed =
     (case normalize_label l of
        Inl e \<Rightarrow> Inl e
      | Inr n \<Rightarrow> if n \<in> rm then remove_loop ls rm out (removed @ [n])
                 else remove_loop ls rm (out @ [n]) removed)"

definition remove_labels :: "string list \<Rightarrow> string list \<Rightarrow> (label_error, string list \<times> string list) result" where
  "remove_labels existing labels =
     (case remove_set labels {} of
        Inl e \<Rightarrow> Inl e
      | Inr rm \<Rightarrow> remove_loop existing rm [] [])"

definition has_label :: "string list \<Rightarrow> string \<Rightarrow> bool" where
  "has_label labels label =
     (case normalize_label label of Inl _ \<Rightarrow> False | Inr n \<Rightarrow> n \<in> set labels)"

section \<open>Canonical labels\<close>

definition label_char :: "char \<Rightarrow> bool" where
  "label_char c \<longleftrightarrow> label_rune (of_char c)"

definition label_ok :: "string \<Rightarrow> bool" where
  "label_ok l \<longleftrightarrow> l \<noteq> [] \<and> list_all label_char l \<and> hd l \<noteq> CHR ''-'' \<and> last l \<noteq> CHR ''-''"

definition labels_ok :: "string list \<Rightarrow> bool" where
  "labels_ok ls \<longleftrightarrow> distinct ls \<and> list_all label_ok ls"

lemma label_rune_mod [simp]: "label_rune r \<Longrightarrow> r mod 256 = r"
  by (auto simp: label_rune_def)

lemma label_loop_chars:
  "list_all label_char b \<Longrightarrow> label_loop rs b h = Inr out \<Longrightarrow> list_all label_char out"
proof (induction rs b h rule: label_loop.induct)
  case (2 r rs b h)
  have "label_char (CHR ''-'')" by (simp add: label_char_def label_rune_def)
  with 2 show ?case by (auto simp: label_char_def split: if_splits)
qed simp

lemma normalize_label_ok: "normalize_label l = Inr n \<Longrightarrow> label_ok n"
  using label_loop_chars [of "[]" "runes (to_lower (trim_space l))" False]
    set_trim_both [of "\<lambda>x. x = CHR ''-''"] trim_both_ends [where P = "\<lambda>x. x = CHR ''-''"]
  unfolding normalize_label_def label_ok_def Let_def trim_char_def list_all_iff
  by (fastforce split: if_splits sum.splits)

lemma label_loop_fixed:
  "list_all label_char s \<Longrightarrow> label_loop (map of_char s) b h = Inr (b @ s)"
  by (induction s arbitrary: b h) (auto simp: label_char_def)

lemma label_ascii: "list_all label_char s \<Longrightarrow> is_ascii s"
  by (auto simp: is_ascii_def list_all_iff label_char_def label_rune_def)

lemma label_char_space: "label_char c \<Longrightarrow> \<not> ascii_space c"
  by (auto simp: label_char_def label_rune_def ascii_space_def is_space_def)

lemma label_char_lower: "label_char c \<Longrightarrow> char_lower c = c"
  by (auto simp: label_char_def label_rune_def char_lower_def rune_lower_def)

lemma trim_space_label: "list_all label_char s \<Longrightarrow> trim_space s = s"
  using label_char_space
  by (cases "s = []") (auto simp: trim_space_ascii label_ascii list_all_iff intro!: trim_both_id)

lemma to_lower_label: "list_all label_char s \<Longrightarrow> to_lower s = s"
  by (simp add: to_lower_ascii label_ascii label_char_lower list_all_iff map_idI)

lemma normalize_label_fixed: "label_ok l \<Longrightarrow> normalize_label l = Inr l"
  by (simp add: label_ok_def normalize_label_def trim_space_label to_lower_label runes_ascii label_ascii
      label_loop_fixed trim_char_def trim_both_id)

text \<open>Normalisation yields canonical labels and leaves exactly those unchanged.\<close>

theorem normalize_label_fixed_iff: "normalize_label l = Inr l \<longleftrightarrow> label_ok l"
  using normalize_label_ok normalize_label_fixed by blast

lemma normalize_loop_ok:
  "distinct out \<Longrightarrow> list_all label_ok out \<Longrightarrow> seen = set out \<Longrightarrow> normalize_loop ls seen out = Inr r \<Longrightarrow>
   labels_ok r"
  by (induction ls seen out rule: normalize_loop.induct)
    (auto simp: labels_ok_def dest: normalize_label_ok split: sum.splits if_splits)

lemma normalize_labels_ok: "normalize_labels ls = Inr r \<Longrightarrow> labels_ok r"
  by (auto simp: normalize_labels_def intro: normalize_loop_ok [of "[]" "{}"])

lemma normalize_loop_fixed:
  "labels_ok (out @ ls) \<Longrightarrow> normalize_loop ls (set out) out = Inr (out @ ls)"
proof (induction ls arbitrary: out)
  case (Cons l ls)
  then show ?case using Cons.IH [of "out @ [l]"] by (simp add: labels_ok_def normalize_label_fixed)
qed simp

lemma normalize_labels_fixed: "labels_ok ls \<Longrightarrow> normalize_labels ls = Inr ls"
  using normalize_loop_fixed [of "[]" ls] by (simp add: normalize_labels_def)

lemma add_loop_spec:
  "add_loop ls seen out added = Inr (out', added') \<Longrightarrow> seen = set out \<Longrightarrow> labels_ok out \<Longrightarrow>
   labels_ok out' \<and> (\<exists>new. out' = out @ new \<and> added' = added @ new
     \<and> set new = {n. \<exists>l\<in>set ls. normalize_label l = Inr n} - set out)"
proof (induction ls seen out added rule: add_loop.induct)
  case (1 seen out added)
  then show ?case by simp
next
  case (2 l ls seen out added)
  from "2.prems"(1) obtain n where n: "normalize_label l = Inr n" by (auto split: sum.splits)
  show ?case
  proof (cases "n \<in> seen")
    case True
    with "2.IH"(1) [OF n True] "2.prems" n obtain new where "labels_ok out'" "out' = out @ new" "added' = added @ new"
      "set new = {n. \<exists>l\<in>set ls. normalize_label l = Inr n} - set out" by auto
    with True n "2.prems"(2) show ?thesis by auto
  next
    case False
    with "2.prems" n have ok: "labels_ok (out @ [n])"
      by (auto simp: labels_ok_def normalize_label_ok)
    from "2.IH"(2) [OF n False] "2.prems" False n ok obtain new where new: "labels_ok out'"
      "out' = (out @ [n]) @ new" "added' = (added @ [n]) @ new"
      "set new = {n. \<exists>l\<in>set ls. normalize_label l = Inr n} - set (out @ [n])" by auto
    have "set (n # new) = {n. \<exists>l\<in>set (l # ls). normalize_label l = Inr n} - set out"
      using new(4) n False "2.prems"(2) by auto
    with new show ?thesis by (intro conjI exI [of _ "n # new"]) auto
  qed
qed

text \<open>Adding labels to a well-formed list appends exactly the missing ones, once each, keeps the order
  of the old ones and reports what it appended.\<close>

theorem add_labels_correct:
  assumes "labels_ok existing" and "add_labels existing labels = Inr (out, added)"
  shows "labels_ok out \<and> out = existing @ added
    \<and> set added = {n. \<exists>l\<in>set labels. normalize_label l = Inr n} - set existing"
  using assms add_loop_spec [of labels "set existing" existing "[]" out added]
  by (auto simp: add_labels_def normalize_labels_fixed)

lemma remove_set_spec: "remove_set ls acc = Inr s \<Longrightarrow> s = acc \<union> {n. \<exists>l\<in>set ls. normalize_label l = Inr n}"
  by (induction ls acc rule: remove_set.induct) (auto split: sum.splits)

lemma remove_loop_fixed:
  "list_all label_ok ls \<Longrightarrow>
   remove_loop ls rm out removed = Inr (out @ filter (\<lambda>l. l \<notin> rm) ls, removed @ filter (\<lambda>l. l \<in> rm) ls)"
  by (induction ls arbitrary: out removed) (auto simp: normalize_label_fixed)

lemma remove_labels_eq:
  assumes "labels_ok existing" and "remove_labels existing labels = Inr (out, removed)"
  shows "out = filter (\<lambda>l. \<not> (\<exists>m\<in>set labels. normalize_label m = Inr l)) existing"
    and "removed = filter (\<lambda>l. \<exists>m\<in>set labels. normalize_label m = Inr l) existing"
  using assms remove_set_spec [of labels "{}"]
  by (auto simp: remove_labels_def labels_ok_def remove_loop_fixed split: sum.splits)

lemma remove_labels_ok:
  "labels_ok existing \<Longrightarrow> remove_labels existing labels = Inr (out, removed) \<Longrightarrow> labels_ok out"
  using remove_labels_eq(1) [of existing labels out removed] by (auto simp: labels_ok_def list_all_iff)

lemma has_label_fixed: "label_ok l \<Longrightarrow> has_label ls l \<longleftrightarrow> l \<in> set ls"
  by (simp add: has_label_def normalize_label_fixed)

theorem add_labels_correct_witness:
  "set [''bug''] = {n. \<exists>l\<in>set ['' Bug '', ''ui'']. normalize_label l = Inr n} - set [''ui'']"
proof -
  have "labels_ok [''ui'']" by (simp add: labels_ok_def label_ok_def label_char_def label_rune_def)
  moreover have "add_labels [''ui''] ['' Bug '', ''ui''] = Inr ([''ui'', ''bug''], [''bug''])"
    by (simp add: add_labels_def normalize_labels_def normalize_label_def label_rune_def go_eval)
  ultimately show ?thesis using add_labels_correct [of "[''ui'']" "['' Bug '', ''ui'']"] by blast
qed

end
