(* ===== verification/KeyValue.thy ===== *)
theory KeyValue
  imports Prelude
begin

text \<open>
  Key-ordered maps. A Go map with string keys is represented by its entries sorted by key, the order
  in which \<open>encoding/json\<close> writes it. The same operations are the reference instance of the contract
  of a bucket of the key/value store (\<open>go.etcd.io/bbolt\<close>), which the coordinator is parametric in.
\<close>

section \<open>Sorted association lists\<close>

fun kv_put :: "string \<Rightarrow> 'v \<Rightarrow> (string \<times> 'v) list \<Rightarrow> (string \<times> 'v) list" where
  "kv_put k v [] = [(k, v)]"
| "kv_put k v (p # ps) =
     (if fst p < k then p # kv_put k v ps else if fst p = k then (k, v) # ps else (k, v) # p # ps)"

definition kv_get :: "(string \<times> 'v) list \<Rightarrow> string \<Rightarrow> 'v option" where
  "kv_get xs k = map_of xs k"

definition kv_delete :: "string \<Rightarrow> (string \<times> 'v) list \<Rightarrow> (string \<times> 'v) list" where
  "kv_delete k xs = filter (\<lambda>p. fst p \<noteq> k) xs"

definition kv_ok :: "(string \<times> 'v) list \<Rightarrow> bool" where
  "kv_ok xs \<longleftrightarrow> sorted_wrt (<) (map fst xs)"

lemma kv_ok_simps [simp]:
  "kv_ok []"
  "kv_ok (p # ps) \<longleftrightarrow> (\<forall>q\<in>set ps. fst p < fst q) \<and> kv_ok ps"
  by (auto simp: kv_ok_def)

lemma kv_ok_distinct: "kv_ok xs \<Longrightarrow> distinct (map fst xs)"
  by (induction xs) auto

lemma set_kv_put:
  "kv_ok xs \<Longrightarrow> set (kv_put k v xs) = insert (k, v) {p \<in> set xs. fst p \<noteq> k}"
  by (induction xs) auto

lemma kv_ok_put [simp]: "kv_ok xs \<Longrightarrow> kv_ok (kv_put k v xs)"
  by (induction xs) (auto simp: set_kv_put)

lemma kv_ok_delete [simp]: "kv_ok xs \<Longrightarrow> kv_ok (kv_delete k xs)"
  by (induction xs) (auto simp: kv_delete_def)

lemma kv_get_iff: "kv_ok xs \<Longrightarrow> kv_get xs k = Some v \<longleftrightarrow> (k, v) \<in> set xs"
  by (simp add: kv_get_def kv_ok_distinct map_of_eq_Some_iff)

lemma kv_get_put: "kv_ok xs \<Longrightarrow> kv_get (kv_put k v xs) k' = (if k' = k then Some v else kv_get xs k')"
  by (induction xs) (auto simp: kv_get_def)

lemma kv_get_delete: "kv_get (kv_delete k xs) k' = (if k' = k then None else kv_get xs k')"
  by (induction xs) (auto simp: kv_get_def kv_delete_def)

section \<open>The bucket interface\<close>

text \<open>
  What the coordinator relies on of a bucket: a byte-keyed map whose \<open>ForEach\<close> visits the entries
  in byte order of their keys. \<open>'b\<close> is the bucket, \<open>'v\<close> a stored value (the bytes, seen through
  the encoding the code gives them).
\<close>

record ('b, 'v) bolt =
  b_empty :: 'b
  b_get :: "'b \<Rightarrow> string \<Rightarrow> 'v option"
  b_put :: "string \<Rightarrow> 'v \<Rightarrow> 'b \<Rightarrow> 'b"
  b_delete :: "string \<Rightarrow> 'b \<Rightarrow> 'b"
  b_entries :: "'b \<Rightarrow> (string \<times> 'v) list"

locale bucket_store =
  fixes B :: "('b, 'v) bolt"
    and ok :: "'b \<Rightarrow> bool"
  assumes ok_empty: "ok (b_empty B)"
    and ok_put: "ok b \<Longrightarrow> ok (b_put B k v b)"
    and ok_delete: "ok b \<Longrightarrow> ok (b_delete B k b)"
    and get_empty: "b_get B (b_empty B) k = None"
    and get_put: "ok b \<Longrightarrow> b_get B (b_put B k v b) k' = (if k' = k then Some v else b_get B b k')"
    and get_delete: "ok b \<Longrightarrow> b_get B (b_delete B k b) k' = (if k' = k then None else b_get B b k')"
    and entries_sorted: "ok b \<Longrightarrow> sorted_wrt (<) (map fst (b_entries B b))"
    and entries_get: "ok b \<Longrightarrow> (k, v) \<in> set (b_entries B b) \<longleftrightarrow> b_get B b k = Some v"
begin

lemma entries_distinct: "ok b \<Longrightarrow> distinct (map fst (b_entries B b))"
  using entries_sorted strict_sorted_iff by blast

lemma map_of_entries: "ok b \<Longrightarrow> map_of (b_entries B b) = b_get B b"
  using entries_distinct entries_get by (metis (no_types) map_of_eq_Some_iff not_Some_eq ext)

lemma finite_keys: "ok b \<Longrightarrow> finite {k. b_get B b k \<noteq> None}"
  using map_of_entries [of b] finite_dom_map_of [of "b_entries B b"] by (simp add: dom_def)

end

text \<open>The reference instance.\<close>

definition list_bolt :: "((string \<times> 'v) list, 'v) bolt" where
  "list_bolt = \<lparr>b_empty = [], b_get = kv_get, b_put = kv_put, b_delete = kv_delete, b_entries = id\<rparr>"

lemma list_bolt_simps [simp]:
  "b_empty list_bolt = []" "b_get list_bolt = kv_get" "b_put list_bolt = kv_put"
  "b_delete list_bolt = kv_delete" "b_entries list_bolt = id"
  by (simp_all add: list_bolt_def)

interpretation list_store: bucket_store list_bolt kv_ok
  by unfold_locales (auto simp: kv_get_put kv_get_delete kv_get_iff kv_ok_def [symmetric], simp add: kv_get_def)

end
