(* ===== verification/GoPath.thy ===== *)
theory GoPath
  imports GoStrings
begin

text \<open>\<open>path/filepath\<close> on Unix: \<open>IsAbs\<close>, the lexical \<open>Clean\<close> and \<open>Join\<close>.\<close>

definition is_abs :: "string \<Rightarrow> bool" where
  "is_abs p \<longleftrightarrow> (case p of [] \<Rightarrow> False | c # _ \<Rightarrow> c = CHR ''/'')"

text \<open>The elements of a path, processed left to right; the accumulator holds the kept ones, last first.\<close>

fun clean_parts :: "bool \<Rightarrow> string list \<Rightarrow> string list \<Rightarrow> string list" where
  "clean_parts rooted acc [] = rev acc"
| "clean_parts rooted acc (p # ps) =
     (if p = [] \<or> p = ''.'' then clean_parts rooted acc ps
      else if p = ''..'' then
        (case acc of
           [] \<Rightarrow> if rooted then clean_parts rooted [] ps else clean_parts rooted [p] ps
         | q # qs \<Rightarrow> if q = ''..'' then clean_parts rooted (p # acc) ps else clean_parts rooted qs ps)
      else clean_parts rooted (p # acc) ps)"

definition path_clean :: "string \<Rightarrow> string" where
  "path_clean p =
     (if p = [] then ''.''
      else
        (let parts = clean_parts (is_abs p) [] (split_char (CHR ''/'') p);
             body = join_with ''/'' parts
         in if is_abs p then ''/'' @ body else if parts = [] then ''.'' else body))"

text \<open>The kept elements are names, except leading \<open>..\<close> of a relative path.\<close>

lemma clean_parts_no_dotdot:
  "rooted \<Longrightarrow> list_all (\<lambda>p. p \<notin> {[], ''.'', ''..''}) acc \<Longrightarrow>
   list_all (\<lambda>p. p \<notin> {[], ''.'', ''..''}) (clean_parts rooted acc ps)"
  by (induction rooted acc ps rule: clean_parts.induct) (auto split: list.splits)

text \<open>\<open>filepath.Join\<close>.\<close>

definition path_join :: "string list \<Rightarrow> string" where
  "path_join ps = (let qs = filter (\<lambda>p. p \<noteq> []) ps in if qs = [] then [] else path_clean (join_with ''/'' qs))"

end
