(* ===== verification/Manifest.thy ===== *)
theory Manifest
  imports Ident Slug Labels KeyValue GoPath
begin

text \<open>
  The durable record of a work item (\<open>internal/model/manifest.go\<close>): its repository, checkout with the
  workspace claim, conversation and blockers; the fenced claim operations; what the JSON encoding
  keeps of a repository; and the normalisation every stored manifest goes through
  (\<open>internal/store/store.go\<close>).
\<close>

section \<open>Data\<close>

abbreviation state_backlog :: string where "state_backlog \<equiv> ''backlog''"
abbreviation state_active :: string where "state_active \<equiv> ''active''"
abbreviation state_closed :: string where "state_closed \<equiv> ''closed''"

abbreviation blocker_time :: string where "blocker_time \<equiv> ''time''"
abbreviation blocker_item :: string where "blocker_item \<equiv> ''item''"
abbreviation blocker_external :: string where "blocker_external \<equiv> ''external''"

abbreviation kind_managed_slot :: string where "kind_managed_slot \<equiv> ''managed-slot''"
abbreviation executor_local :: string where "executor_local \<equiv> ''local''"

record repository =
  repo_id :: string
  repo_name :: string
  integration_branch :: string
  root_at_creation :: string
  git_common_dir :: string
  remote_url :: string
  created_from_commit :: string
  current_root :: string

record checkout_spec =
  cs_kind :: string
  cs_executor :: string
  cs_branch :: string

record workspace_claim =
  wc_id :: string
  wc_generation :: "64 word"
  wc_executor :: string
  wc_repository_key :: string
  wc_slot :: string
  wc_path :: string

record checkout =
  co_specification :: checkout_spec
  co_generation :: "64 word"
  co_claim :: "workspace_claim option"

record conversation =
  cv_driver :: string
  cv_executor :: string
  cv_id :: string
  cv_locator :: string
  cv_format :: string

record blocker =
  bl_id :: string
  bl_kind :: string
  bl_until :: "instant option"
  bl_item :: string
  bl_event :: string
  bl_label :: string
  bl_meta :: "(string \<times> string) list"
  bl_created_at :: instant

record manifest =
  m_id :: string
  m_slug :: string
  m_title :: string
  m_state :: string
  m_state_changed_at :: instant
  m_created_at :: instant
  m_updated_at :: instant
  m_repository :: repository
  m_checkout :: checkout
  m_conversation :: "conversation option"
  m_agent :: string
  m_agent_settings :: "(string \<times> string) list"
  m_labels :: "string list"
  m_deep_work :: bool
  m_priority :: "32 word"
  m_pinned :: bool
  m_snoozed_until :: "instant option"
  m_resolution :: string
  m_blockers :: "blocker list"

text \<open>Go's zero values.\<close>

definition zero_repository :: repository where
  "zero_repository = \<lparr>repo_id = [], repo_name = [], integration_branch = [], root_at_creation = [],
     git_common_dir = [], remote_url = [], created_from_commit = [], current_root = []\<rparr>"

definition zero_checkout :: checkout where
  "zero_checkout = \<lparr>co_specification = \<lparr>cs_kind = [], cs_executor = [], cs_branch = []\<rparr>,
     co_generation = 0, co_claim = None\<rparr>"

definition zero_manifest :: manifest where
  "zero_manifest = \<lparr>m_id = [], m_slug = [], m_title = [], m_state = [], m_state_changed_at = zero_time,
     m_created_at = zero_time, m_updated_at = zero_time, m_repository = zero_repository,
     m_checkout = zero_checkout, m_conversation = None, m_agent = [], m_agent_settings = [],
     m_labels = [], m_deep_work = False, m_priority = 0, m_pinned = False, m_snoozed_until = None,
     m_resolution = [], m_blockers = []\<rparr>"

section \<open>Repositories\<close>

text \<open>What \<open>Repository.MarshalJSON\<close> and the \<open>json:"-"\<close> tags leave after a write and a read.\<close>

definition persist_repository :: "repository \<Rightarrow> repository" where
  "persist_repository r =
     (if repo_id r \<noteq> [] then
        zero_repository\<lparr>repo_id := repo_id r, created_from_commit := created_from_commit r\<rparr>
      else r\<lparr>repo_name := [], integration_branch := []\<rparr>)"

definition persist_manifest :: "manifest \<Rightarrow> manifest" where
  "persist_manifest m = m\<lparr>m_repository := persist_repository (m_repository m)\<rparr>"

lemma persist_manifest_idem [simp]: "persist_manifest (persist_manifest m) = persist_manifest m"
  by (simp add: persist_manifest_def persist_repository_def zero_repository_def)

lemma persist_manifest_fields [simp]:
  "m_id (persist_manifest m) = m_id m"
  "m_slug (persist_manifest m) = m_slug m"
  "m_title (persist_manifest m) = m_title m"
  "m_state (persist_manifest m) = m_state m"
  "m_state_changed_at (persist_manifest m) = m_state_changed_at m"
  "m_updated_at (persist_manifest m) = m_updated_at m"
  "m_checkout (persist_manifest m) = m_checkout m"
  "m_labels (persist_manifest m) = m_labels m"
  "m_deep_work (persist_manifest m) = m_deep_work m"
  "m_resolution (persist_manifest m) = m_resolution m"
  "m_blockers (persist_manifest m) = m_blockers m"
  by (simp_all add: persist_manifest_def)

definition operational_root :: "repository \<Rightarrow> string" where
  "operational_root r =
     (let root = trim_space (current_root r)
      in if root \<noteq> [] then root else trim_space (root_at_creation r))"

definition repository_key :: "repository \<Rightarrow> string" where
  "repository_key r =
     (if repo_id r \<noteq> [] then repo_id r
      else
        (let v1 = trim_space (git_common_dir r);
             v2 = (if v1 = [] then trim_space (remote_url r) else v1);
             v3 = (if v2 = [] then trim_space (root_at_creation r) else v2)
         in hex_digest 8 v3))"

section \<open>Checkouts and workspace claims\<close>

datatype claim_error =
    AlreadyClaimed string
  | GenerationExhausted
  | ClaimId id_error
  | GenerationMismatch "64 word" "64 word"

definition new_checkout :: "string \<Rightarrow> string \<Rightarrow> string \<Rightarrow> checkout" where
  "new_checkout kind executor branch =
     \<lparr>co_specification = \<lparr>cs_kind = kind, cs_executor = executor, cs_branch = branch\<rparr>,
      co_generation = 0, co_claim = None\<rparr>"

text \<open>\<open>NewID\<close> reads the clock and the system's entropy, which are arguments here.\<close>

definition assign_new_claim ::
  "instant \<Rightarrow> string option \<Rightarrow> checkout \<Rightarrow> string \<Rightarrow> string \<Rightarrow> string \<Rightarrow> string
   \<Rightarrow> (claim_error, workspace_claim \<times> checkout) result" where
  "assign_new_claim clock entropy c executor key slot path = (case co_claim c of
     Some held \<Rightarrow> Inl (AlreadyClaimed (wc_id held))
   | None \<Rightarrow>
       if co_generation c = - 1 then Inl GenerationExhausted
       else (case new_id_with clock entropy of
         Inl e \<Rightarrow> Inl (ClaimId e)
       | Inr i \<Rightarrow>
           (let claim = \<lparr>wc_id = i, wc_generation = co_generation c + 1, wc_executor = executor,
                         wc_repository_key = key, wc_slot = slot, wc_path = path\<rparr>
            in Inr (claim, c\<lparr>co_generation := wc_generation claim, co_claim := Some claim\<rparr>))))"

definition accept_claim :: "checkout \<Rightarrow> workspace_claim \<Rightarrow> (claim_error, checkout) result" where
  "accept_claim c claim = (case co_claim c of
     Some held \<Rightarrow> Inl (AlreadyClaimed (wc_id held))
   | None \<Rightarrow>
       if wc_generation claim = 0 \<or> wc_generation claim \<noteq> co_generation c + 1
       then Inl (GenerationMismatch (wc_generation claim) (co_generation c))
       else Inr (c\<lparr>co_generation := wc_generation claim, co_claim := Some claim\<rparr>))"

definition ever_materialized :: "checkout \<Rightarrow> bool" where
  "ever_materialized c \<longleftrightarrow> co_generation c > 0"

definition present :: "checkout \<Rightarrow> bool" where
  "present c \<longleftrightarrow> (case co_claim c of None \<Rightarrow> False | Some k \<Rightarrow> trim_space (wc_path k) \<noteq> [])"

definition presence :: "checkout \<Rightarrow> string" where
  "presence c = (if present c then ''present'' else ''absent'')"

definition clear_claim :: "checkout \<Rightarrow> checkout" where
  "clear_claim c = c\<lparr>co_claim := None\<rparr>"

text \<open>A held claim carries the checkout's current generation.\<close>

definition checkout_ok :: "checkout \<Rightarrow> bool" where
  "checkout_ok c \<longleftrightarrow> (case co_claim c of
     None \<Rightarrow> True
   | Some k \<Rightarrow> wc_generation k = co_generation c \<and> wc_generation k \<noteq> 0)"

text \<open>The operations on a checkout, and the claims a run of them grants.\<close>

datatype claim_op =
    Assign instant "string option" string string string string
  | Accept workspace_claim
  | Clear

definition claim_step :: "claim_op \<Rightarrow> checkout \<Rightarrow> checkout \<times> workspace_claim option" where
  "claim_step opn c = (case opn of
     Assign clock entropy executor key slot path \<Rightarrow>
       (case assign_new_claim clock entropy c executor key slot path of
          Inl _ \<Rightarrow> (c, None) | Inr (k, c') \<Rightarrow> (c', Some k))
   | Accept k \<Rightarrow> (case accept_claim c k of Inl _ \<Rightarrow> (c, None) | Inr c' \<Rightarrow> (c', Some k))
   | Clear \<Rightarrow> (clear_claim c, None))"

fun claim_run :: "claim_op list \<Rightarrow> checkout \<Rightarrow> checkout \<times> workspace_claim list" where
  "claim_run [] c = (c, [])"
| "claim_run (opn # ops) c =
     (let (c', granted) = claim_step opn c; (c'', rest) = claim_run ops c'
      in (c'', (case granted of None \<Rightarrow> rest | Some k \<Rightarrow> k # rest)))"

section \<open>New manifests\<close>

definition new_manifest ::
  "string \<Rightarrow> string \<Rightarrow> string \<Rightarrow> string list \<Rightarrow> bool \<Rightarrow> instant \<Rightarrow> repository \<Rightarrow> checkout \<Rightarrow> manifest" where
  "new_manifest i slug title labels deep now repo checkout =
     (let spec = co_specification checkout;
          spec1 = (if cs_kind spec = [] then spec\<lparr>cs_kind := kind_managed_slot\<rparr> else spec);
          spec2 = (if cs_executor spec1 = [] then spec1\<lparr>cs_executor := executor_local\<rparr> else spec1);
          spec3 = (if trim_space (cs_branch spec2) = [] then spec2\<lparr>cs_branch := item_branch_name slug i\<rparr> else spec2);
          normalized = (case normalize_labels labels of Inl _ \<Rightarrow> [] | Inr ls \<Rightarrow> ls)
      in zero_manifest\<lparr>m_id := i, m_slug := slug, m_title := title, m_state := state_backlog,
           m_state_changed_at := now, m_created_at := now, m_updated_at := now, m_repository := repo,
           m_checkout := checkout\<lparr>co_specification := spec3\<rparr>, m_agent := ''default'',
           m_labels := normalized, m_deep_work := deep\<rparr>)"

section \<open>The claim protocol\<close>

lemma word_succ_not_zero: "(x::64 word) \<noteq> - 1 \<Longrightarrow> x + 1 \<noteq> 0"
  by (metis add.commute add_eq_0_iff)

lemma unat_succ: "(x::64 word) + 1 \<noteq> 0 \<Longrightarrow> unat (x + 1) = Suc (unat x)"
  by (metis add.commute unatSuc Suc_eq_plus1)

lemma claim_step_ok: "checkout_ok c \<Longrightarrow> checkout_ok (fst (claim_step opn c))"
  by (auto simp: claim_step_def assign_new_claim_def accept_claim_def clear_claim_def checkout_ok_def Let_def
      word_succ_not_zero split: claim_op.split option.splits sum.splits)

lemma claim_step_generation:
  assumes "claim_step opn c = (c', g)"
  shows "(g = None \<longrightarrow> co_generation c' = co_generation c)
    \<and> (\<forall>k. g = Some k \<longrightarrow> co_generation c' = wc_generation k \<and> unat (wc_generation k) = Suc (unat (co_generation c)))"
  using assms word_succ_not_zero [of "co_generation c"] unat_succ [of "co_generation c"]
  by (auto simp: claim_step_def assign_new_claim_def accept_claim_def clear_claim_def Let_def
      split: claim_op.splits option.splits sum.splits if_splits)

lemma claim_run_generations:
  "map (unat \<circ> wc_generation) (snd (claim_run ops c)) =
     map (\<lambda>i. Suc (unat (co_generation c) + i)) [0..<length (snd (claim_run ops c))]
   \<and> unat (co_generation (fst (claim_run ops c))) = unat (co_generation c) + length (snd (claim_run ops c))"
proof (induction ops arbitrary: c)
  case Nil
  then show ?case by simp
next
  case (Cons opn ops)
  obtain c' g where st: "claim_step opn c = (c', g)" by fastforce
  obtain c'' rest where run: "claim_run ops c' = (c'', rest)" by fastforce
  show ?case
  proof (cases g)
    case None
    with claim_step_generation [OF st] Cons.IH [of c'] st run show ?thesis by simp
  next
    case (Some k)
    then have k: "co_generation c' = wc_generation k" "unat (wc_generation k) = Suc (unat (co_generation c))"
      using claim_step_generation [OF st] by auto
    have "map (\<lambda>i. Suc (unat (co_generation c) + i)) [0..<Suc (length rest)] =
        Suc (unat (co_generation c)) # map (\<lambda>i. Suc (Suc (unat (co_generation c)) + i)) [0..<length rest]"
      by (simp add: map_upt_Suc del: upt_Suc)
    with k Some Cons.IH [of c'] st run show ?thesis by (simp del: upt_Suc)
  qed
qed

text \<open>Whatever assignments, acceptances and releases a checkout goes through, the claims it grants carry
  the consecutive generations after the initial one, so no two granted claims share a fencing generation
  and the counter never wraps.\<close>

theorem claim_generations_consecutive:
  "map (unat \<circ> wc_generation) (snd (claim_run ops c)) =
     map (\<lambda>i. Suc (unat (co_generation c) + i)) [0..<length (snd (claim_run ops c))]"
  using claim_run_generations by blast

lemma claim_run_ok: "checkout_ok c \<Longrightarrow> checkout_ok (fst (claim_run ops c))"
proof (induction ops arbitrary: c)
  case (Cons opn ops)
  then have "checkout_ok (fst (claim_run ops (fst (claim_step opn c))))"
    using claim_step_ok by blast
  then show ?case by (simp add: case_prod_beta Let_def)
qed simp

lemma new_checkout_ok [simp]: "checkout_ok (new_checkout kind executor branch)"
  by (simp add: checkout_ok_def new_checkout_def)

end
