(* ===== verification/Lifecycle.thy ===== *)
theory Lifecycle
  imports Manifest
begin

text \<open>
  Blockers and lifecycle states (\<open>internal/model/lifecycle.go\<close>): when a blocker is open, blocker
  metadata and its \<open>key=value\<close> form, operator state input, and the shape check every requested
  blocker passes.
\<close>

datatype blocker_error =
    MetaNotPair string
  | MetaRepeated string
  | KindInvalid string
  | EventNotLine
  | EventNotExternal
  | LabelNotLine
  | MetaTooMany
  | MetaKeyInvalid string
  | MetaValueInvalid string
  | TimeNotFuture
  | TimeWithItem
  | ItemIdInvalid
  | ItemSelf
  | ItemWithTime
  | EventMissing
  | ExternalWithTimeOrItem

definition max_blocker_event_length :: nat where "max_blocker_event_length = 200"
definition max_blocker_label_length :: nat where "max_blocker_label_length = 40"
definition max_blocker_meta_keys :: nat where "max_blocker_meta_keys = 16"
definition max_blocker_meta_value :: nat where "max_blocker_meta_value = 256"

text \<open>The pattern \<open>^[a-z0-9][a-z0-9_.-]{0,63}$\<close>.\<close>

definition meta_key_start :: "char \<Rightarrow> bool" where
  "meta_key_start c \<longleftrightarrow> (let n = of_char c :: nat in 97 \<le> n \<and> n \<le> 122 \<or> 48 \<le> n \<and> n \<le> 57)"

definition valid_meta_key :: "string \<Rightarrow> bool" where
  "valid_meta_key k \<longleftrightarrow> (case k of [] \<Rightarrow> False
     | c # cs \<Rightarrow> meta_key_start c \<and> length cs \<le> 63
         \<and> list_all (\<lambda>d. meta_key_start d \<or> d \<in> {CHR ''_'', CHR ''.'', CHR ''-''}) cs)"

definition blocker_open :: "blocker \<Rightarrow> instant \<Rightarrow> bool" where
  "blocker_open b now =
     (if bl_kind b = blocker_time then (case bl_until b of None \<Rightarrow> False | Some u \<Rightarrow> u > now) else True)"

definition meta_pairs :: "blocker \<Rightarrow> string list" where
  "meta_pairs b = map (\<lambda>(k, v). k @ ''='' @ v) (bl_meta b)"

fun parse_meta_loop :: "string list \<Rightarrow> (string \<times> string) list
    \<Rightarrow> (blocker_error, (string \<times> string) list) result" where
  "parse_meta_loop [] meta = Inr meta"
| "parse_meta_loop (value # values) meta =
     (case cut_char (CHR ''='') value of
        None \<Rightarrow> Inl (MetaNotPair value)
      | Some (key, val) \<Rightarrow>
          if kv_get meta key \<noteq> None then Inl (MetaRepeated key)
          else parse_meta_loop values (kv_put key val meta))"

definition parse_blocker_meta :: "string list \<Rightarrow> (blocker_error, (string \<times> string) list) result" where
  "parse_blocker_meta values = (if values = [] then Inr [] else parse_meta_loop values [])"

definition open_blockers :: "manifest \<Rightarrow> instant \<Rightarrow> blocker list" where
  "open_blockers m now = filter (\<lambda>b. blocker_open b now) (m_blockers m)"

definition waiting :: "manifest \<Rightarrow> instant \<Rightarrow> bool" where
  "waiting m now \<longleftrightarrow> length (open_blockers m now) > 0"

definition valid_resolution :: "string \<Rightarrow> bool" where
  "valid_resolution r \<longleftrightarrow> r = ''completed'' \<or> r = ''abandoned'' \<or> r = ''superseded''"

definition valid_blocker_kind :: "string \<Rightarrow> bool" where
  "valid_blocker_kind k \<longleftrightarrow> k = blocker_time \<or> k = blocker_item \<or> k = blocker_external"

definition normalize_state_input :: "string \<Rightarrow> (string, string) result" where
  "normalize_state_input value =
     (let state = to_lower (trim_space value)
      in if state = state_backlog \<or> state = state_active \<or> state = state_closed then Inr state
         else Inl value)"

text \<open>Go visits the metadata in an unspecified order; the model visits it by key. Only the choice of
  the error among several differs.\<close>

fun validate_meta :: "(string \<times> string) list \<Rightarrow> (blocker_error, unit) result" where
  "validate_meta [] = Inr ()"
| "validate_meta ((key, value) # rest) =
     (if \<not> valid_meta_key key then Inl (MetaKeyInvalid key)
      else if length value > max_blocker_meta_value \<or> has_control value then Inl (MetaValueInvalid key)
      else validate_meta rest)"

definition validate_blocker :: "blocker \<Rightarrow> string \<Rightarrow> instant \<Rightarrow> (blocker_error, unit) result" where
  "validate_blocker b item_id now =
     (if \<not> valid_blocker_kind (bl_kind b) then Inl (KindInvalid (bl_kind b))
      else if length (bl_event b) > max_blocker_event_length \<or> has_control (bl_event b) then Inl EventNotLine
      else if bl_kind b \<noteq> blocker_external \<and> bl_event b \<noteq> [] then Inl EventNotExternal
      else if rune_count (bl_label b) > max_blocker_label_length \<or> has_control (bl_label b) then Inl LabelNotLine
      else if length (bl_meta b) > max_blocker_meta_keys then Inl MetaTooMany
      else rbind (validate_meta (bl_meta b)) (\<lambda>_.
        if bl_kind b = blocker_time then
          (if (case bl_until b of None \<Rightarrow> True | Some u \<Rightarrow> \<not> u > now) then Inl TimeNotFuture
           else if bl_item b \<noteq> [] then Inl TimeWithItem
           else Inr ())
        else if bl_kind b = blocker_item then
          (if \<not> valid_id (bl_item b) then Inl ItemIdInvalid
           else if bl_item b = item_id then Inl ItemSelf
           else if bl_until b \<noteq> None then Inl ItemWithTime
           else Inr ())
        else
          (if trim_space (bl_event b) = [] then Inl EventMissing
           else if bl_until b \<noteq> None \<or> bl_item b \<noteq> [] then Inl ExternalWithTimeOrItem
           else Inr ())))"

section \<open>The contract of a valid blocker\<close>

definition meta_ok :: "(string \<times> string) list \<Rightarrow> bool" where
  "meta_ok meta \<longleftrightarrow> length meta \<le> 16
     \<and> (\<forall>(k, v)\<in>set meta. valid_meta_key k \<and> length v \<le> 256 \<and> \<not> has_control v)"

text \<open>Exactly one condition, by kind: a future time, another item, or a named event.\<close>

definition blocker_condition :: "blocker \<Rightarrow> string \<Rightarrow> instant \<Rightarrow> bool" where
  "blocker_condition b item_id now \<longleftrightarrow>
     bl_kind b = blocker_time \<and> (\<exists>u. bl_until b = Some u \<and> now < u) \<and> bl_item b = [] \<and> bl_event b = []
   \<or> bl_kind b = blocker_item \<and> bl_until b = None \<and> valid_id (bl_item b) \<and> bl_item b \<noteq> item_id \<and> bl_event b = []
   \<or> bl_kind b = blocker_external \<and> bl_until b = None \<and> bl_item b = [] \<and> trim_space (bl_event b) \<noteq> []"

lemma validate_meta_iff:
  "validate_meta meta = Inr () \<longleftrightarrow> (\<forall>(k, v)\<in>set meta. valid_meta_key k \<and> length v \<le> 256 \<and> \<not> has_control v)"
  by (induction meta rule: validate_meta.induct) (auto simp: max_blocker_meta_value_def)

lemma validate_blocker_conditions:
  "validate_blocker b item_id now = Inr () \<longleftrightarrow>
     blocker_condition b item_id now \<and> meta_ok (bl_meta b)
     \<and> length (bl_event b) \<le> 200 \<and> \<not> has_control (bl_event b)
     \<and> rune_count (bl_label b) \<le> 40 \<and> \<not> has_control (bl_label b)"
proof -
  have kinds: "bl_kind b = blocker_time \<Longrightarrow> bl_kind b \<noteq> blocker_item \<and> bl_kind b \<noteq> blocker_external"
    "bl_kind b = blocker_item \<Longrightarrow> bl_kind b \<noteq> blocker_external" by simp_all
  have [simp]: "\<not> has_control []" by (simp add: has_control_def runes_def)
  show ?thesis
    unfolding validate_blocker_def blocker_condition_def meta_ok_def valid_blocker_kind_def
      max_blocker_event_length_def max_blocker_label_length_def max_blocker_meta_keys_def
    using kinds by (auto simp: rbind_Inr_iff validate_meta_iff split: option.splits)
qed

text \<open>A requested blocker is accepted exactly when it names one well-formed condition of its kind and its
  event, label and metadata are short single lines.\<close>

theorem validate_blocker_iff:
  "validate_blocker b item_id now = Inr () \<longleftrightarrow>
     blocker_condition b item_id now \<and> meta_ok (bl_meta b)
     \<and> length (bl_event b) \<le> 200 \<and> \<not> has_control (bl_event b)
     \<and> rune_count (bl_label b) \<le> 40 \<and> \<not> has_control (bl_label b)"
  by (rule validate_blocker_conditions)

lemma validate_blocker_item:
  "validate_blocker b item_id now = Inr () \<Longrightarrow> bl_kind b = blocker_item \<Longrightarrow>
   valid_id (bl_item b) \<and> bl_item b \<noteq> item_id"
  by (auto simp: validate_blocker_conditions blocker_condition_def)

lemma validate_blocker_kind:
  "validate_blocker b item_id now = Inr () \<Longrightarrow> valid_blocker_kind (bl_kind b)"
  by (auto simp: validate_blocker_conditions blocker_condition_def valid_blocker_kind_def)

lemma validate_blocker_open:
  "validate_blocker b item_id now = Inr () \<Longrightarrow> blocker_open b now"
  by (auto simp: validate_blocker_conditions blocker_condition_def blocker_open_def)

section \<open>Metadata round trip\<close>

lemma cut_char_append: "c \<notin> set a \<Longrightarrow> cut_char c (a @ c # b) = Some (a, b)"
  by (induction a) auto

lemma kv_put_last:
  "\<forall>p\<in>set xs. fst p < k \<Longrightarrow> kv_put k v xs = xs @ [(k, v)]"
  by (induction xs) auto

lemma kv_get_None: "kv_get xs k = None \<longleftrightarrow> k \<notin> fst ` set xs"
  by (simp add: kv_get_def map_of_eq_None_iff)

lemma parse_meta_loop_pairs:
  "kv_ok (acc @ rest) \<Longrightarrow> \<forall>(k, v)\<in>set rest. CHR ''='' \<notin> set k \<Longrightarrow>
   parse_meta_loop (map (\<lambda>(k, v). k @ ''='' @ v) rest) acc = Inr (acc @ rest)"
proof (induction rest arbitrary: acc)
  case Nil
  then show ?case by simp
next
  case (Cons p rest)
  obtain k v where p: "p = (k, v)" by fastforce
  have lt: "\<forall>q\<in>set acc. fst q < k"
    using Cons.prems(1) p by (auto simp: kv_ok_def sorted_wrt_append)
  then have "kv_get acc k = None" by (auto simp: kv_get_None)
  moreover have "kv_put k v acc = acc @ [(k, v)]" using lt by (rule kv_put_last)
  ultimately show ?case
    using Cons.IH [of "acc @ [(k, v)]"] Cons.prems p by (simp add: cut_char_append)
qed

lemma valid_meta_key_no_eq: "valid_meta_key k \<Longrightarrow> CHR ''='' \<notin> set k"
  by (cases k) (auto simp: valid_meta_key_def meta_key_start_def Let_def list_all_iff)

text \<open>The \<open>key=value\<close> lines of a valid blocker parse back to its metadata.\<close>

theorem parse_meta_pairs:
  assumes "kv_ok (bl_meta b)" and "meta_ok (bl_meta b)"
  shows "parse_blocker_meta (meta_pairs b) = Inr (bl_meta b)"
proof -
  have "\<forall>(k, v)\<in>set (bl_meta b). CHR ''='' \<notin> set k"
    using assms(2) valid_meta_key_no_eq by (auto simp: meta_ok_def)
  then show ?thesis
    using parse_meta_loop_pairs [of "[]" "bl_meta b"] assms(1)
    by (simp add: parse_blocker_meta_def meta_pairs_def)
qed

definition sample_blocker :: blocker where
  "sample_blocker = \<lparr>bl_id = ''b1'', bl_kind = blocker_external, bl_until = None, bl_item = [],
     bl_event = ''review'', bl_label = ''#12'', bl_meta = [(''pr'', ''a=b''), (''repo'', ''wi'')], bl_created_at = 0\<rparr>"

lemma sample_meta_ok: "kv_ok (bl_meta sample_blocker) \<and> meta_ok (bl_meta sample_blocker)"
  by (simp add: sample_blocker_def meta_ok_def valid_meta_key_def meta_key_start_def has_control_def
      runes_ascii is_control_def less_char_def)

theorem parse_meta_pairs_witness:
  "parse_blocker_meta [''pr=a=b'', ''repo=wi''] = Inr [(''pr'', ''a=b''), (''repo'', ''wi'')]"
  using parse_meta_pairs [of sample_blocker] sample_meta_ok
  by (simp add: sample_blocker_def meta_pairs_def)

lemma parse_meta_loop_keys:
  "kv_ok acc \<Longrightarrow> parse_meta_loop vs acc = Inr meta \<Longrightarrow> kv_ok meta"
  by (induction vs acc rule: parse_meta_loop.induct) (auto split: option.splits if_splits)

section \<open>Waiting\<close>

lemma waiting_iff: "waiting m now \<longleftrightarrow> (\<exists>b\<in>set (m_blockers m). blocker_open b now)"
  by (auto simp: waiting_def open_blockers_def filter_empty_conv)

text \<open>Time only ever opens the way: a blocker closed at one instant stays closed.\<close>

lemma blocker_open_antimono: "blocker_open b later \<Longrightarrow> now \<le> later \<Longrightarrow> blocker_open b now"
  by (auto simp: blocker_open_def split: if_splits option.splits)

lemma waiting_antimono: "waiting m later \<Longrightarrow> now \<le> later \<Longrightarrow> waiting m now"
  using blocker_open_antimono by (auto simp: waiting_iff)

end
