(* ===== verification/Normalize.thy ===== *)
theory Normalize
  imports Lifecycle
begin

text \<open>
  \<open>NormalizeManifest\<close> (\<open>internal/store/store.go\<close>): every manifest that is created or saved as a whole
  passes through it. The parsing and printing of remote URLs (\<open>net/url\<close>) is the argument
  \<open>url_clean\<close>: the credential-free form of a URL, or nothing when it does not parse or lacks a
  scheme or host.
\<close>

datatype manifest_error =
    InvalidId string
  | TitleRequired
  | InvalidState string
  | SlugRequired
  | SlugOnClosed
  | ResolutionMisplaced string
  | BadBlocker string
  | StateChangedRequired
  | CreatedRequired
  | UpdatedRequired
  | InvalidRepositoryReference
  | CommitIncomplete
  | OwnedKind
  | OwnedExecutor
  | ClaimForeign
  | RemoteControl
  | RemoteUrl
  | LabelsError label_error
  | UnsupportedKind string
  | BranchRequired
  | ClaimIdInvalid
  | ClaimGeneration "64 word" "64 word"
  | ClaimExecutor string string
  | ClaimPath

definition contains_scheme :: "string \<Rightarrow> bool" where
  "contains_scheme s \<longleftrightarrow> sublist ''://'' s"

definition sanitize_remote_url :: "(string \<Rightarrow> string option) \<Rightarrow> string \<Rightarrow> (manifest_error, string) result" where
  "sanitize_remote_url url_clean raw =
     (let remote = trim_space raw
      in if remote = [] then Inr []
         else if has_control remote then Inl RemoteControl
         else if \<not> contains_scheme remote then Inr remote
         else (case url_clean remote of None \<Rightarrow> Inl RemoteUrl | Some u \<Rightarrow> Inr u))"

fun check_blockers :: "blocker list \<Rightarrow> string set \<Rightarrow> (manifest_error, unit) result" where
  "check_blockers [] seen = Inr ()"
| "check_blockers (b # bs) seen =
     (if bl_id b = [] \<or> bl_id b \<in> seen \<or> \<not> valid_blocker_kind (bl_kind b) then Inl (BadBlocker (bl_id b))
      else check_blockers bs (insert (bl_id b) seen))"

definition check_owned :: "manifest \<Rightarrow> (manifest_error, unit) result" where
  "check_owned m =
     (let r = m_repository m; spec = co_specification (m_checkout m)
      in if repo_id r = [] then Inr ()
         else if \<not> valid_id (repo_id r) then Inl InvalidRepositoryReference
         else if hex_decoded_length (created_from_commit r) \<notin> {Some 20, Some 32} then Inl CommitIncomplete
         else if cs_kind spec \<noteq> kind_managed_slot then Inl OwnedKind
         else if cs_executor spec \<noteq> [] \<and> cs_executor spec \<noteq> executor_local then Inl OwnedExecutor
         else (case co_claim (m_checkout m) of
             None \<Rightarrow> Inr ()
           | Some k \<Rightarrow> if wc_repository_key k \<noteq> repo_id r then Inl ClaimForeign else Inr ()))"

definition claim_id_bad :: "string \<Rightarrow> bool" where
  "claim_id_bad i \<longleftrightarrow> i = [] \<or> list_ex (\<lambda>c. c \<in> {CHR ''/'', CHR 0x5C, CHR 0x0D, CHR 0x0A, CHR 0x00}) i"

definition normalize_claim ::
  "repository \<Rightarrow> checkout_spec \<Rightarrow> 64 word \<Rightarrow> workspace_claim \<Rightarrow> (manifest_error, workspace_claim) result" where
  "normalize_claim r spec generation k0 =
     (let k = k0\<lparr>wc_id := trim_space (wc_id k0), wc_executor := trim_space (wc_executor k0),
                 wc_repository_key := trim_space (wc_repository_key k0),
                 wc_slot := trim_space (wc_slot k0), wc_path := trim_space (wc_path k0)\<rparr>
      in if claim_id_bad (wc_id k) then Inl ClaimIdInvalid
         else if wc_generation k = 0 \<or> wc_generation k \<noteq> generation
           then Inl (ClaimGeneration (wc_generation k) generation)
         else
           (let k1 = (if wc_executor k = [] then k\<lparr>wc_executor := cs_executor spec\<rparr> else k)
            in if wc_executor k1 \<noteq> cs_executor spec then Inl (ClaimExecutor (wc_executor k1) (cs_executor spec))
               else if \<not> is_abs (wc_path k1) \<or> path_clean (wc_path k1) \<noteq> wc_path k1 then Inl ClaimPath
               else Inr (if wc_repository_key k1 = [] then k1\<lparr>wc_repository_key := repository_key r\<rparr> else k1)))"

definition normalize_checkout :: "repository \<Rightarrow> checkout \<Rightarrow> (manifest_error, checkout) result" where
  "normalize_checkout r c =
     (let s0 = co_specification c;
          s1 = (if cs_kind s0 = [] then s0\<lparr>cs_kind := kind_managed_slot\<rparr> else s0);
          s2 = (if trim_space (cs_executor s1) = [] then s1\<lparr>cs_executor := executor_local\<rparr> else s1)
      in if cs_kind s2 \<noteq> kind_managed_slot then Inl (UnsupportedKind (cs_kind s2))
         else if cs_kind s2 = kind_managed_slot \<and> trim_space (cs_branch s2) = [] then Inl BranchRequired
         else (case co_claim c of
             None \<Rightarrow> Inr (c\<lparr>co_specification := s2\<rparr>)
           | Some k \<Rightarrow> (case normalize_claim r s2 (co_generation c) k of
                 Inl e \<Rightarrow> Inl e
               | Inr k' \<Rightarrow> Inr (c\<lparr>co_specification := s2, co_claim := Some k'\<rparr>))))"

definition normalize_manifest ::
  "(string \<Rightarrow> string option) \<Rightarrow> manifest \<Rightarrow> (manifest_error, manifest) result" where
  "normalize_manifest url_clean m0 =
     (if \<not> valid_id (m_id m0) then Inl (InvalidId (m_id m0))
      else
        (let m = m0\<lparr>m_slug := trim_space (m_slug m0)\<rparr>
         in if trim_space (m_title m) = [] then Inl TitleRequired
            else if m_state m \<noteq> state_backlog \<and> m_state m \<noteq> state_active \<and> m_state m \<noteq> state_closed
              then Inl (InvalidState (m_state m))
            else if m_state m \<noteq> state_closed \<and> m_slug m = [] then Inl SlugRequired
            else if m_state m = state_closed \<and> m_slug m \<noteq> [] then Inl SlugOnClosed
            else if m_resolution m \<noteq> [] \<and> (m_state m \<noteq> state_closed \<or> \<not> valid_resolution (m_resolution m))
              then Inl (ResolutionMisplaced (m_resolution m))
            else rbind (check_blockers (m_blockers m) {}) (\<lambda>_.
              if is_zero_time (m_state_changed_at m) then Inl StateChangedRequired
              else if is_zero_time (m_created_at m) then Inl CreatedRequired
              else if is_zero_time (m_updated_at m) then Inl UpdatedRequired
              else rbind (check_owned m) (\<lambda>_.
                rbind (sanitize_remote_url url_clean (remote_url (m_repository m))) (\<lambda>remote.
                  (case normalize_labels (m_labels m) of
                     Inl e \<Rightarrow> Inl (LabelsError e)
                   | Inr labels \<Rightarrow>
                       (let r = (m_repository m)\<lparr>remote_url := remote\<rparr>
                        in rbind (normalize_checkout r (m_checkout m)) (\<lambda>c.
                             Inr (m\<lparr>m_repository := r, m_labels := labels, m_checkout := c\<rparr>)))))))))"

section \<open>Well-formed manifests\<close>

definition valid_state :: "string \<Rightarrow> bool" where
  "valid_state s \<longleftrightarrow> s = state_backlog \<or> s = state_active \<or> s = state_closed"

text \<open>The invariant of a stored item: the state, the slug and the resolution agree, blockers have
  known kinds, labels are canonical and a claim carries the checkout's generation.\<close>

definition manifest_ok :: "manifest \<Rightarrow> bool" where
  "manifest_ok m \<longleftrightarrow> valid_id (m_id m) \<and> valid_state (m_state m)
     \<and> (m_state m = state_closed \<longleftrightarrow> m_slug m = [])
     \<and> (m_resolution m = [] \<or> m_state m = state_closed \<and> valid_resolution (m_resolution m))
     \<and> list_all (\<lambda>b. bl_id b \<noteq> [] \<and> valid_blocker_kind (bl_kind b)) (m_blockers m)
     \<and> labels_ok (m_labels m) \<and> checkout_ok (m_checkout m)"

lemma check_blockers_iff:
  "check_blockers bs seen = Inr () \<longleftrightarrow>
     list_all (\<lambda>b. bl_id b \<noteq> [] \<and> valid_blocker_kind (bl_kind b)) bs
     \<and> distinct (map bl_id bs) \<and> set (map bl_id bs) \<inter> seen = {}"
  by (induction bs seen rule: check_blockers.induct) auto

lemma normalize_claim_generation:
  "normalize_claim r spec g k = Inr k' \<Longrightarrow> wc_generation k' = g \<and> g \<noteq> 0"
  by (auto simp: normalize_claim_def Let_def split: if_splits)

lemma normalize_checkout_ok: "normalize_checkout r c = Inr c' \<Longrightarrow> checkout_ok c'"
  by (auto simp: normalize_checkout_def checkout_ok_def Let_def split: if_splits option.splits sum.splits
      dest: normalize_claim_generation)

lemma normalize_manifest_parts:
  assumes "normalize_manifest url_clean m = Inr m'"
  shows "\<exists>remote labels c. m' = m\<lparr>m_slug := trim_space (m_slug m),
        m_repository := (m_repository m)\<lparr>remote_url := remote\<rparr>, m_labels := labels, m_checkout := c\<rparr>
    \<and> normalize_labels (m_labels m) = Inr labels
    \<and> (\<exists>r. normalize_checkout r (m_checkout m) = Inr c)
    \<and> check_blockers (m_blockers m) {} = Inr ()
    \<and> valid_id (m_id m) \<and> valid_state (m_state m)
    \<and> (m_state m = state_closed \<longleftrightarrow> trim_space (m_slug m) = [])
    \<and> (m_resolution m = [] \<or> m_state m = state_closed \<and> valid_resolution (m_resolution m))"
proof -
  have ok: "valid_id (m_id m)" "valid_state (m_state m)"
    "m_state m = state_closed \<longleftrightarrow> trim_space (m_slug m) = []"
    "m_resolution m = [] \<or> m_state m = state_closed \<and> valid_resolution (m_resolution m)"
    using assms by (auto simp: normalize_manifest_def valid_state_def Let_def simp del: split_paired_Ex
      split: if_split_asm)
  have "check_blockers (m_blockers m) {} = Inr ()"
    using assms by (simp add: normalize_manifest_def rbind_Inr_iff Let_def split: if_split_asm)
  moreover obtain remote labels c where "m' = m\<lparr>m_slug := trim_space (m_slug m),
        m_repository := (m_repository m)\<lparr>remote_url := remote\<rparr>, m_labels := labels, m_checkout := c\<rparr>"
    "normalize_labels (m_labels m) = Inr labels"
    "normalize_checkout ((m_repository m)\<lparr>remote_url := remote\<rparr>) (m_checkout m) = Inr c"
    using assms
    by (cases "normalize_labels (m_labels m)")
      (auto simp: normalize_manifest_def rbind_Inr_iff Let_def split: if_split_asm)
  ultimately show ?thesis using ok by blast
qed

lemma normalized_manifest:
  assumes "normalize_manifest url_clean m = Inr m'"
  shows "manifest_ok m' \<and> distinct (map bl_id (m_blockers m'))
    \<and> m_id m' = m_id m \<and> m_state m' = m_state m \<and> m_title m' = m_title m
    \<and> m_blockers m' = m_blockers m \<and> m_created_at m' = m_created_at m \<and> m_resolution m' = m_resolution m"
proof -
  obtain remote labels c where m': "m' = m\<lparr>m_slug := trim_space (m_slug m),
        m_repository := (m_repository m)\<lparr>remote_url := remote\<rparr>, m_labels := labels, m_checkout := c\<rparr>"
    and labels: "normalize_labels (m_labels m) = Inr labels"
    and c: "\<exists>r. normalize_checkout r (m_checkout m) = Inr c"
    and bs: "check_blockers (m_blockers m) {} = Inr ()"
    and i: "valid_id (m_id m)"
    and st: "valid_state (m_state m)"
    and slug: "m_state m = state_closed \<longleftrightarrow> trim_space (m_slug m) = []"
    and res: "m_resolution m = [] \<or> m_state m = state_closed \<and> valid_resolution (m_resolution m)"
    using normalize_manifest_parts [OF assms] by blast
  from c have "checkout_ok c" using normalize_checkout_ok by blast
  with labels have "labels_ok labels \<and> checkout_ok c" using normalize_labels_ok by blast
  with i st slug res bs show ?thesis
    unfolding m' manifest_ok_def check_blockers_iff by simp
qed

text \<open>Whatever is normalised is a well-formed manifest with distinct blocker identities, and keeps
  identity, state, title, blockers and time stamps of the input.\<close>

theorem normalize_manifest_ok:
  assumes "normalize_manifest url_clean m = Inr m'"
  shows "manifest_ok m' \<and> distinct (map bl_id (m_blockers m'))
    \<and> m_id m' = m_id m \<and> m_state m' = m_state m \<and> m_title m' = m_title m
    \<and> m_blockers m' = m_blockers m \<and> m_created_at m' = m_created_at m \<and> m_resolution m' = m_resolution m"
  using normalized_manifest [OF assms] .

definition sample_manifest :: manifest where
  "sample_manifest = new_manifest ''01HF7YAT0060RK4CSM6MV3EE1S'' ''fix-it'' ''Fix it'' [] False 5 zero_repository
     zero_checkout"

lemma sample_manifest_normal:
  "normalize_manifest (\<lambda>_. None) (sample_manifest\<lparr>m_checkout := new_checkout kind_managed_slot executor_local ''wi/x''\<rparr>)
   = Inr (sample_manifest\<lparr>m_checkout := new_checkout kind_managed_slot executor_local ''wi/x''\<rparr>)"
  by (simp add: sample_manifest_def new_manifest_def normalize_manifest_def valid_id_def id_char_def Let_def
      zero_manifest_def normalize_labels_def check_owned_def zero_repository_def sanitize_remote_url_def
      normalize_checkout_def new_checkout_def is_zero_time_def zero_time_def go_eval)

theorem normalize_manifest_ok_witness:
  "manifest_ok (sample_manifest\<lparr>m_checkout := new_checkout kind_managed_slot executor_local ''wi/x''\<rparr>)"
  using normalize_manifest_ok [OF sample_manifest_normal] by blast

end
