(* ===== verification/Priority.thy ===== *)
theory Priority
  imports GoStrings "HOL-Library.Product_Lexorder"
begin

text \<open>
  The attention queue's admission and ranking (\<open>internal/priority/priority.go\<close>): unread responses,
  eligibility, the registry of strategies and the default strategy \<open>recent-request\<close>. A strategy is
  its \<open>Less\<close> function; \<open>Rank\<close> sorts a copy stably by it.
\<close>

record candidate =
  cd_id :: string
  cd_deep_work :: bool
  cd_base_order :: int
  cd_state_changed_at :: instant
  cd_last_requested_at :: "instant option"
  cd_last_completed_at :: "instant option"
  cd_last_deferred_at :: "instant option"
  cd_waiting :: bool
  cd_unread :: bool

definition newer_than_read :: "instant option \<Rightarrow> instant option \<Rightarrow> bool" where
  "newer_than_read last_read v = (case v of
     None \<Rightarrow> False
   | Some t \<Rightarrow> (case last_read of None \<Rightarrow> True | Some r \<Rightarrow> t > r))"

definition unread :: "instant option \<Rightarrow> instant option \<Rightarrow> instant option \<Rightarrow> bool" where
  "unread last_completed last_read last_unread \<longleftrightarrow>
     newer_than_read last_read last_completed \<or> newer_than_read last_read last_unread"

definition eligible :: "bool \<Rightarrow> bool \<Rightarrow> bool" where
  "eligible waiting has_unread \<longleftrightarrow> \<not> waiting \<or> has_unread"

definition effectively_deferred :: "candidate \<Rightarrow> bool" where
  "effectively_deferred c = (case cd_last_deferred_at c of
     None \<Rightarrow> False
   | Some d \<Rightarrow> (case cd_last_requested_at c of None \<Rightarrow> True | Some r \<Rightarrow> d > r))"

definition compare_time_pointers :: "instant option \<Rightarrow> instant option \<Rightarrow> bool \<Rightarrow> int" where
  "compare_time_pointers a b descending = (case (a, b) of
     (None, None) \<Rightarrow> 0
   | (Some _, None) \<Rightarrow> - 1
   | (None, Some _) \<Rightarrow> 1
   | (Some x, Some y) \<Rightarrow>
       if x = y then 0
       else if descending then (if x > y then - 1 else 1)
       else (if x < y then - 1 else 1))"

definition recent_tail :: "candidate \<Rightarrow> candidate \<Rightarrow> bool" where
  "recent_tail a b =
     (if cd_deep_work a \<noteq> cd_deep_work b then cd_deep_work a
      else if cd_base_order a \<noteq> cd_base_order b then cd_base_order a < cd_base_order b
      else cd_id a < cd_id b)"

definition recent_less :: "candidate \<Rightarrow> candidate \<Rightarrow> bool" where
  "recent_less a b =
     (if effectively_deferred a \<noteq> effectively_deferred b then \<not> effectively_deferred a
      else if effectively_deferred a then
        (let cmp = compare_time_pointers (cd_last_deferred_at a) (cd_last_deferred_at b) False
         in if cmp \<noteq> 0 then cmp < 0 else recent_tail a b)
      else
        (let cmp = compare_time_pointers (cd_last_requested_at a) (cd_last_requested_at b) True
         in if cmp \<noteq> 0 then cmp < 0 else recent_tail a b))"

definition default_strategy :: string where
  "default_strategy = ''recent-request''"

type_synonym registry = "string \<rightharpoonup> (candidate \<Rightarrow> candidate \<Rightarrow> bool)"

datatype priority_error = StrategyUnnamed | StrategyUnknown string

definition register_strategy ::
  "string \<Rightarrow> (candidate \<Rightarrow> candidate \<Rightarrow> bool) \<Rightarrow> registry \<Rightarrow> (priority_error, registry) result" where
  "register_strategy name lt reg =
     (if trim_space name = [] then Inl StrategyUnnamed else Inr (reg(name \<mapsto> lt)))"

text \<open>The registry after the package's \<open>init\<close>.\<close>

definition default_registry :: registry where
  "default_registry = Map.empty(default_strategy \<mapsto> recent_less)"

definition strategy_name :: "string \<Rightarrow> string" where
  "strategy_name s = (let n = trim_space s in if n = [] then default_strategy else n)"

definition rank :: "registry \<Rightarrow> string \<Rightarrow> candidate list \<Rightarrow> (priority_error, candidate list) result" where
  "rank reg s cs =
     (let name = strategy_name s
      in case reg name of
           None \<Rightarrow> Inl (StrategyUnknown name)
         | Some lt \<Rightarrow> Inr (stable_sort lt cs))"

section \<open>The default order\<close>

text \<open>The order is that of a key: undeferred first, then the time criterion of the class, deep work,
  the base order and the identifier.\<close>

definition time_key :: "candidate \<Rightarrow> int \<times> int" where
  "time_key c =
     (if effectively_deferred c then (case cd_last_deferred_at c of None \<Rightarrow> (1, 0) | Some t \<Rightarrow> (0, t))
      else (case cd_last_requested_at c of None \<Rightarrow> (1, 0) | Some t \<Rightarrow> (0, - t)))"

definition recent_key :: "candidate \<Rightarrow> int \<times> (int \<times> int) \<times> int \<times> int \<times> string" where
  "recent_key c = (of_bool (effectively_deferred c), time_key c, of_bool (\<not> cd_deep_work c), cd_base_order c, cd_id c)"

lemma recent_tail_key:
  "recent_tail a b \<longleftrightarrow> (of_bool (\<not> cd_deep_work a) :: int, cd_base_order a, cd_id a)
     < (of_bool (\<not> cd_deep_work b), cd_base_order b, cd_id b)"
  by (auto simp: recent_tail_def less_prod_def)

lemma compare_deferred:
  "effectively_deferred a \<Longrightarrow> effectively_deferred b \<Longrightarrow>
   compare_time_pointers (cd_last_deferred_at a) (cd_last_deferred_at b) False =
     (if time_key a = time_key b then 0 else if time_key a < time_key b then - 1 else 1)"
  by (auto simp: compare_time_pointers_def time_key_def less_prod_def split: option.splits)

lemma compare_requested:
  "\<not> effectively_deferred a \<Longrightarrow> \<not> effectively_deferred b \<Longrightarrow>
   compare_time_pointers (cd_last_requested_at a) (cd_last_requested_at b) True =
     (if time_key a = time_key b then 0 else if time_key a < time_key b then - 1 else 1)"
  by (auto simp: compare_time_pointers_def time_key_def less_prod_def split: option.splits)

lemma pair_less_iff: "(a, b) < (c, d) \<longleftrightarrow> a < c \<or> a = c \<and> b < (d::'b::linorder)" for a c :: "'a::linorder"
  by (auto simp: less_prod_def)

lemma recent_less_key: "recent_less a b \<longleftrightarrow> recent_key a < recent_key b"
proof (cases "effectively_deferred a = effectively_deferred b")
  case True
  have "recent_less a b \<longleftrightarrow> (if time_key a = time_key b then recent_tail a b else time_key a < time_key b)"
    using True by (simp add: recent_less_def Let_def compare_deferred compare_requested)
  with True show ?thesis
    unfolding recent_key_def pair_less_iff recent_tail_key by auto
next
  case False
  then show ?thesis by (auto simp: recent_less_def recent_key_def pair_less_iff)
qed

lemma weak_order_key: "weak_order (\<lambda>a b. f a < (f b :: 'k::linorder))"
  by unfold_locales auto

interpretation recent: weak_order recent_less
  using weak_order_key [of recent_key] by (simp add: recent_less_key [abs_def])

lemma recent_less_total: "cd_id a \<noteq> cd_id b \<Longrightarrow> recent_less a b \<or> recent_less b a"
  by (auto simp: recent_less_key recent_key_def)

lemma recent_less_deferred: "\<not> recent_less b a \<Longrightarrow> effectively_deferred a \<Longrightarrow> effectively_deferred b"
  by (rule ccontr) (simp add: recent_less_def)

lemma rank_default: "trim_space s = [] \<Longrightarrow> rank default_registry s cs = Inr (stable_sort recent_less cs)"
  by (simp add: rank_def default_registry_def strategy_name_def)

text \<open>Ranking with the default strategy returns all candidates, ordered by recency of request, with
  every deferred candidate after every undeferred one.\<close>

theorem rank_correct:
  assumes "rank default_registry s cs = Inr out"
  shows "mset out = mset cs \<and> sorted_wrt (\<lambda>a b. \<not> recent_less b a) out
    \<and> sorted_wrt (\<lambda>a b. effectively_deferred a \<longrightarrow> effectively_deferred b) out"
proof -
  have out: "out = stable_sort recent_less cs"
    using assms by (auto simp: rank_def default_registry_def Let_def split: option.splits if_splits)
  have "sorted_wrt (\<lambda>a b. \<not> recent_less b a) out"
    unfolding out by (rule recent.sorted_stable_sort)
  moreover from this have "sorted_wrt (\<lambda>a b. effectively_deferred a \<longrightarrow> effectively_deferred b) out"
    by (rule sorted_wrt_mono_rel [rotated]) (blast intro: recent_less_deferred)
  ultimately show ?thesis using out by simp
qed

definition sample_candidate :: "string \<Rightarrow> instant option \<Rightarrow> instant option \<Rightarrow> candidate" where
  "sample_candidate i requested deferred = \<lparr>cd_id = i, cd_deep_work = False, cd_base_order = 0,
     cd_state_changed_at = 0, cd_last_requested_at = requested, cd_last_completed_at = None,
     cd_last_deferred_at = deferred, cd_waiting = False, cd_unread = False\<rparr>"

lemma sample_rank:
  "rank default_registry [] [sample_candidate ''a'' (Some 3) (Some 5), sample_candidate ''b'' (Some 2) None]
   = Inr [sample_candidate ''b'' (Some 2) None, sample_candidate ''a'' (Some 3) (Some 5)]"
  by (simp add: rank_default recent_less_def effectively_deferred_def sample_candidate_def)

theorem rank_correct_witness:
  "sorted_wrt (\<lambda>a b. effectively_deferred a \<longrightarrow> effectively_deferred b)
     [sample_candidate ''b'' (Some 2) None, sample_candidate ''a'' (Some 3) (Some 5)]"
  using rank_correct [OF sample_rank] by blast

end
