(* ===== verification/Lease.thy ===== *)
theory Lease
  imports Ident
begin

text \<open>
  Controller leases (\<open>internal/model/control.go\<close>, \<open>internal/coordinator/lease.go\<close>): the single
  client allowed to drive an item's runtime. The table maps an item to its lease; every operation
  runs under the table's mutex, so it is a function of the table.
\<close>

record runtime_capabilities =
  rc_live_content :: bool
  rc_idle_guard :: bool
  rc_image_input :: bool
  rc_native_tui :: bool
  rc_headless :: bool
  rc_streaming :: bool
  rc_prompt :: bool
  rc_steering :: bool
  rc_follow_up :: bool
  rc_cancel :: bool
  rc_monitor :: bool
  rc_control :: string
  rc_settings :: "string list"

record channels =
  ch_observe :: bool
  ch_control :: string
  ch_atomic_idle :: bool
  ch_terminal :: bool

definition control_channel :: "runtime_capabilities \<Rightarrow> string" where
  "control_channel c =
     (if rc_control c \<noteq> [] then rc_control c
      else if \<not> rc_prompt c then []
      else if rc_native_tui c \<and> \<not> rc_idle_guard c then ''emulated''
      else ''structured'')"

definition channels_of :: "runtime_capabilities \<Rightarrow> channels" where
  "channels_of c = \<lparr>ch_observe = True, ch_control = control_channel c,
     ch_atomic_idle = rc_idle_guard c, ch_terminal = rc_native_tui c\<rparr>"

definition live_setting :: "runtime_capabilities \<Rightarrow> string \<Rightarrow> bool" where
  "live_setting c name = list_ex (\<lambda>s. s = name) (rc_settings c)"

record control_lease =
  ls_id :: string
  ls_item :: string
  ls_holder :: string
  ls_client :: string
  ls_label :: string
  ls_acquired_at :: instant
  ls_renewed_at :: instant
  ls_expires_at :: "instant option"

definition lease_live :: "control_lease \<Rightarrow> instant \<Rightarrow> bool" where
  "lease_live l now = (case ls_expires_at l of None \<Rightarrow> True | Some e \<Rightarrow> e > now)"

definition same_client :: "control_lease \<Rightarrow> string \<Rightarrow> string \<Rightarrow> bool" where
  "same_client l holder client \<longleftrightarrow> ls_holder l = holder \<and> ls_client l = client"

record lease_request =
  lr_item :: string
  lr_holder :: string
  lr_client :: string
  lr_label :: string
  lr_takeover :: bool
  lr_expected :: "string option"
  lr_ttl_seconds :: int

record lease_result =
  lx_granted :: bool
  lx_lease :: "control_lease option"
  lx_previous :: "control_lease option"

datatype lease_error =
    LeaseItem
  | LeaseHolder
  | LeaseClient
  | LeaseLabel
  | LeaseTtl
  | LeaseId id_error

type_synonym lease_table = "string \<rightharpoonup> control_lease"

definition lease_get :: "lease_table \<Rightarrow> string \<Rightarrow> instant \<Rightarrow> control_lease option \<times> lease_table" where
  "lease_get t item now = (case t item of
     None \<Rightarrow> (None, t)
   | Some l \<Rightarrow> if \<not> lease_live l now then (None, t(item := None)) else (Some l, t))"

definition second :: int where
  "second = 1000000000"

definition max_lease_ttl_seconds :: int where
  "max_lease_ttl_seconds = 600"

definition validate_lease_request :: "lease_request \<Rightarrow> (lease_error, unit) result" where
  "validate_lease_request r =
     (if \<not> valid_id (lr_item r) then Inl LeaseItem
      else if lr_holder r \<noteq> ''web'' \<and> lr_holder r \<noteq> ''terminal'' \<and> lr_holder r \<noteq> ''cli'' then Inl LeaseHolder
      else if trim_space (lr_client r) = [] \<or> compact_identifier (lr_client r) 128 \<noteq> lr_client r then Inl LeaseClient
      else if length (lr_label r) > 200 then Inl LeaseLabel
      else if lr_ttl_seconds r < 0 \<or> lr_ttl_seconds r > max_lease_ttl_seconds then Inl LeaseTtl
      else Inr ())"

definition live_lease :: "lease_table \<Rightarrow> string \<Rightarrow> instant \<Rightarrow> control_lease option" where
  "live_lease t item now = (case t item of
     None \<Rightarrow> None | Some l \<Rightarrow> if lease_live l now then Some l else None)"

definition denied :: "control_lease option \<Rightarrow> lease_result" where
  "denied l = \<lparr>lx_granted = False, lx_lease = l, lx_previous = None\<rparr>"

text \<open>\<open>acquire\<close>; \<open>clock\<close> and \<open>entropy\<close> are what \<open>NewID\<close> reads.\<close>

definition lease_acquire ::
  "instant \<Rightarrow> string option \<Rightarrow> lease_table \<Rightarrow> lease_request \<Rightarrow> instant
   \<Rightarrow> (lease_error, lease_result \<times> lease_table) result" where
  "lease_acquire clock entropy t r now = (case validate_lease_request r of
     Inl e \<Rightarrow> Inl e
   | Inr _ \<Rightarrow>
       (let current = live_lease t (lr_item r) now;
            actual = (case current of None \<Rightarrow> [] | Some l \<Rightarrow> ls_id l)
        in if lr_expected r \<noteq> None \<and> lr_expected r \<noteq> Some actual then Inr (denied current, t)
           else if (case current of None \<Rightarrow> False
                    | Some l \<Rightarrow> \<not> same_client l (lr_holder r) (lr_client r) \<and> \<not> lr_takeover r)
             then Inr (denied current, t)
           else (case new_id_with clock entropy of
               Inl e \<Rightarrow> Inl (LeaseId e)
             | Inr i \<Rightarrow>
                 (let lease0 = \<lparr>ls_id = i, ls_item = lr_item r, ls_holder = lr_holder r,
                        ls_client = lr_client r, ls_label = trim_space (lr_label r),
                        ls_acquired_at = now, ls_renewed_at = now, ls_expires_at = None\<rparr>;
                      (lease1, previous) = (case current of
                          None \<Rightarrow> (lease0, None)
                        | Some l \<Rightarrow>
                            if same_client l (lr_holder r) (lr_client r)
                            then (lease0\<lparr>ls_acquired_at := ls_acquired_at l, ls_id := ls_id l\<rparr>, None)
                            else (lease0, Some l));
                      lease = (if lr_ttl_seconds r > 0
                               then lease1\<lparr>ls_expires_at := Some (now + lr_ttl_seconds r * second)\<rparr>
                               else lease1)
                  in Inr (\<lparr>lx_granted = True, lx_lease = Some lease, lx_previous = previous\<rparr>,
                          t(lr_item r \<mapsto> lease))))))"

definition lease_release ::
  "lease_table \<Rightarrow> lease_request \<Rightarrow> (lease_error, lease_result \<times> lease_table) result" where
  "lease_release t r =
     (if \<not> valid_id (lr_item r) then Inl LeaseItem
      else (case t (lr_item r) of
          None \<Rightarrow> Inr (denied None, t)
        | Some l \<Rightarrow>
            if lr_expected r \<noteq> None \<and> lr_expected r \<noteq> Some (ls_id l)
               \<or> \<not> same_client l (lr_holder r) (lr_client r) \<and> \<not> lr_takeover r
            then Inr (denied None, t)
            else Inr (\<lparr>lx_granted = True, lx_lease = None, lx_previous = Some l\<rparr>, t(lr_item r := None))))"

section \<open>Histories of the table\<close>

datatype lease_op =
    Get string instant
  | Acquire instant "string option" lease_request instant
  | Release lease_request

fun lease_step :: "lease_op \<Rightarrow> lease_table \<Rightarrow> lease_table" where
  "lease_step (Get item now) t = snd (lease_get t item now)"
| "lease_step (Acquire clock entropy r now) t =
     (case lease_acquire clock entropy t r now of Inl _ \<Rightarrow> t | Inr (_, t') \<Rightarrow> t')"
| "lease_step (Release r) t = (case lease_release t r of Inl _ \<Rightarrow> t | Inr (_, t') \<Rightarrow> t')"

text \<open>An operation of another client that does not ask for a takeover, up to an instant.\<close>

fun polite :: "string \<Rightarrow> string \<Rightarrow> instant \<Rightarrow> lease_op \<Rightarrow> bool" where
  "polite holder client until (Get item now) \<longleftrightarrow> now \<le> until"
| "polite holder client until (Acquire clock entropy r now) \<longleftrightarrow>
     now \<le> until \<and> \<not> lr_takeover r \<and> (lr_holder r \<noteq> holder \<or> lr_client r \<noteq> client)"
| "polite holder client until (Release r) \<longleftrightarrow>
     \<not> lr_takeover r \<and> (lr_holder r \<noteq> holder \<or> lr_client r \<noteq> client)"

lemma lease_live_antimono: "lease_live l later \<Longrightarrow> now \<le> later \<Longrightarrow> lease_live l now"
  by (auto simp: lease_live_def split: option.splits)

lemma polite_step_keeps:
  assumes "t item = Some l" and "lease_live l until" and "polite (ls_holder l) (ls_client l) until opn"
  shows "lease_step opn t item = Some l"
proof (cases opn)
  case (Get i now)
  with assms show ?thesis
    using lease_live_antimono [of l until now] by (auto simp: lease_get_def split: option.splits)
next
  case (Acquire clock entropy r now)
  show ?thesis
  proof (cases "lr_item r = item")
    case True
    with assms Acquire have "live_lease t (lr_item r) now = Some l"
      using lease_live_antimono [of l until now] by (auto simp: live_lease_def)
    moreover have "\<not> same_client l (lr_holder r) (lr_client r)" "\<not> lr_takeover r"
      using assms(3) Acquire by (auto simp: same_client_def)
    ultimately show ?thesis
      using assms(1) Acquire by (auto simp: lease_acquire_def Let_def split: sum.splits if_splits)
  next
    case False
    with assms(1) Acquire show ?thesis
      by (auto simp: lease_acquire_def Let_def split: sum.splits if_splits option.splits prod.splits)
  qed
next
  case (Release r)
  with assms show ?thesis
    by (auto simp: lease_release_def same_client_def split: sum.splits if_splits option.splits)
qed

text \<open>C39: a live lease is exclusive: through any history of other clients' operations that does not take
  over explicitly, the item keeps the same lease.\<close>

theorem lease_exclusive:
  assumes "t item = Some l" and "lease_live l until"
    and "\<forall>opn\<in>set ops. polite (ls_holder l) (ls_client l) until opn"
  shows "fold lease_step ops t item = Some l"
  using assms(1,3)
proof (induction ops arbitrary: t)
  case Nil
  then show ?case by simp
next
  case (Cons opn ops)
  then have "lease_step opn t item = Some l"
    using polite_step_keeps assms(2) by simp
  with Cons show ?case by simp
qed

lemma validate_lease_ttl: "validate_lease_request r = Inr u \<Longrightarrow> 0 \<le> lr_ttl_seconds r"
  by (auto simp: validate_lease_request_def split: if_split_asm)

lemma granted_lease:
  assumes "lease_acquire clock entropy t r now = Inr (x, t')" and "lx_granted x"
  shows "\<exists>l. lx_lease x = Some l \<and> t' = t(lr_item r \<mapsto> l) \<and> same_client l (lr_holder r) (lr_client r)
    \<and> ls_item l = lr_item r \<and> lease_live l now \<and> ls_renewed_at l = now"
proof -
  obtain u where u: "validate_lease_request r = Inr u"
    using assms(1) by (auto simp: lease_acquire_def split: sum.splits)
  note ttl = validate_lease_ttl [OF u]
  show ?thesis
    using assms ttl
    by (cases "live_lease t (lr_item r) now"; cases "new_id_with clock entropy")
      (auto simp: lease_acquire_def u denied_def same_client_def lease_live_def second_def Let_def
        split: if_split_asm)
qed

text \<open>Fencing. An acquisition is granted only to a request that names the live lease it saw (or none), and
  only if the item is vacant, its own, or explicitly taken over; the new lease is live, belongs to the
  requester, and no other item changes. A refused acquisition changes nothing.\<close>

theorem lease_acquire_fenced:
  assumes "lease_acquire clock entropy t r now = Inr (x, t')"
  shows "(if lx_granted x then
       (\<exists>l. t' = t(lr_item r \<mapsto> l) \<and> lease_live l now \<and> same_client l (lr_holder r) (lr_client r)
          \<and> (case live_lease t (lr_item r) now of
               None \<Rightarrow> lr_expected r \<in> {None, Some []}
             | Some c \<Rightarrow> lr_expected r \<in> {None, Some (ls_id c)}
                 \<and> (if same_client c (lr_holder r) (lr_client r) then ls_id l = ls_id c \<and> lx_previous x = None
                    else lr_takeover r \<and> lx_previous x = Some c)))
     else t' = t \<and> lx_lease x = live_lease t (lr_item r) now)"
proof (cases "lx_granted x")
  case True
  obtain l where l: "t' = t(lr_item r \<mapsto> l)" "lx_lease x = Some l"
    "lease_live l now" "same_client l (lr_holder r) (lr_client r)"
    using granted_lease [OF assms True] by blast
  have "(case live_lease t (lr_item r) now of
               None \<Rightarrow> lr_expected r \<in> {None, Some []}
             | Some c \<Rightarrow> lr_expected r \<in> {None, Some (ls_id c)}
                 \<and> (if same_client c (lr_holder r) (lr_client r) then ls_id l = ls_id c \<and> lx_previous x = None
                    else lr_takeover r \<and> lx_previous x = Some c))"
    using assms True l(2)
    by (cases "live_lease t (lr_item r) now")
      (auto simp: lease_acquire_def denied_def Let_def split: sum.splits if_splits)
  with True l show ?thesis unfolding if_P [OF True] by blast
next
  case False
  with assms show ?thesis
    by (cases "validate_lease_request r"; cases "live_lease t (lr_item r) now"; cases "new_id_with clock entropy")
      (auto simp: lease_acquire_def denied_def Let_def split: if_split_asm)
qed

section \<open>Concrete histories\<close>

definition sample_item :: string where
  "sample_item = ''01HF7YAT0060RK4CSM6MV3EE1S''"

definition sample_request :: "string \<Rightarrow> lease_request" where
  "sample_request client = \<lparr>lr_item = sample_item, lr_holder = ''web'', lr_client = client, lr_label = [],
     lr_takeover = False, lr_expected = Some [], lr_ttl_seconds = 60\<rparr>"

lemma sample_request_valid: "validate_lease_request (sample_request ''tab1'') = Inr ()"
  using compact_identifier_printable [of "''tab1''" 128]
  by (simp add: validate_lease_request_def sample_request_def sample_item_def valid_id_def id_char_def
      max_lease_ttl_seconds_def go_eval)

definition sample_lease :: control_lease where
  "sample_lease = \<lparr>ls_id = sample_item, ls_item = sample_item, ls_holder = ''web'', ls_client = ''tab1'',
     ls_label = [], ls_acquired_at = 7, ls_renewed_at = 7, ls_expires_at = Some (7 + 60 * second)\<rparr>"

lemma sample_acquire:
  "lease_acquire 1700000000000000000 (Some ''0123456789'') Map.empty (sample_request ''tab1'') 7 =
     Inr (\<lparr>lx_granted = True, lx_lease = Some sample_lease, lx_previous = None\<rparr>,
          Map.empty(sample_item \<mapsto> sample_lease))"
  by (simp add: lease_acquire_def sample_request_valid new_id_sample live_lease_def)
    (simp add: sample_request_def sample_lease_def sample_item_def Let_def)

lemma sample_table_unique:
  "Map.empty(sample_item \<mapsto> l) = Map.empty(lr_item (sample_request c) \<mapsto> l') \<longleftrightarrow> l = l'"
  by (auto simp: sample_request_def fun_eq_iff)

theorem lease_acquire_fenced_witness: "lease_live sample_lease 7"
  using lease_acquire_fenced [OF sample_acquire] by (auto simp: sample_table_unique)

theorem lease_exclusive_witness:
  "fold lease_step [Acquire 8 (Some ''0123456789'') (sample_request ''tab2'') 8, Get sample_item 9]
     (Map.empty(sample_item \<mapsto> sample_lease)) sample_item = Some sample_lease"
  by (rule lease_exclusive [where until = 10])
    (simp_all add: sample_lease_def sample_request_def lease_live_def second_def)

end
