(* ===== verification/Changes.thy ===== *)
theory Changes
  imports Prelude "HOL-Library.Word"
begin

text \<open>
  The in-memory change log readers wait on (\<open>internal/coordinator/changes.go\<close>). The \<open>notify\<close> channel
  carries no data: it is closed by every \<open>record\<close> that appends, so it is not part of the state.
\<close>

record item_change =
  ic_revision :: "64 word"
  ic_item :: string

record change_log =
  cl_epoch :: string
  cl_revision :: "64 word"
  cl_recent :: "item_change list"

record changes_result =
  cr_epoch :: string
  cr_revision :: "64 word"
  cr_items :: "string list"
  cr_all :: bool

abbreviation max_recent_changes :: nat where "max_recent_changes \<equiv> 1024"

abbreviation (input) all_items :: string where "all_items \<equiv> []"

text \<open>\<open>newChangeLog\<close>; the epoch is the start time in base 36.\<close>

definition new_change_log :: "string \<Rightarrow> change_log" where
  "new_change_log epoch = \<lparr>cl_epoch = epoch, cl_revision = 1, cl_recent = []\<rparr>"

definition event_items :: "string list \<Rightarrow> string list" where
  "event_items ids = rev (fold (\<lambda>i seen. if i \<noteq> [] \<and> i \<notin> set seen then i # seen else seen) ids [])"

definition record_changes :: "string list \<Rightarrow> change_log \<Rightarrow> change_log" where
  "record_changes ids l =
     (if ids = [] then l
      else (let revision = cl_revision l + 1;
                recent = cl_recent l @ List.map (\<lambda>i. \<lparr>ic_revision = revision, ic_item = i\<rparr>) ids
            in l\<lparr>cl_revision := revision,
                 cl_recent := (if length recent > max_recent_changes
                               then drop (length recent - max_recent_changes) recent else recent)\<rparr>))"

definition record_all :: "change_log \<Rightarrow> change_log" where
  "record_all = record_changes [all_items]"

fun since_items :: "64 word \<Rightarrow> item_change list \<Rightarrow> string list \<Rightarrow> string list option" where
  "since_items after [] items = Some items"
| "since_items after (c # cs) items =
     (if ic_revision c > after \<and> ic_item c = all_items then None
      else if ic_revision c > after \<and> ic_item c \<notin> set items
        then since_items after cs (items @ [ic_item c])
      else since_items after cs items)"

definition since :: "string \<Rightarrow> 64 word \<Rightarrow> change_log \<Rightarrow> changes_result" where
  "since epoch after l =
     (let result = \<lparr>cr_epoch = cl_epoch l, cr_revision = cl_revision l, cr_items = [], cr_all = False\<rparr>
      in if epoch \<noteq> cl_epoch l \<or> after = 0 \<or> after > cl_revision l then result\<lparr>cr_all := True\<rparr>
         else if after < cl_revision l then
           (case cl_recent l of
              [] \<Rightarrow> result\<lparr>cr_all := True\<rparr>
            | c # cs \<Rightarrow>
                if ic_revision c > after + 1 then result\<lparr>cr_all := True\<rparr>
                else (case since_items after (cl_recent l) [] of
                    None \<Rightarrow> result\<lparr>cr_all := True\<rparr>
                  | Some items \<Rightarrow> result\<lparr>cr_items := items\<rparr>))
         else result)"

section \<open>Lemmas\<close>

lemma set_event_items: "set (event_items ids) = set ids - {[]} \<and> distinct (event_items ids)"
proof -
  have "set (fold (\<lambda>i seen. if i \<noteq> [] \<and> i \<notin> set seen then i # seen else seen) ids acc)
      = set acc \<union> (set ids - {[]})
    \<and> (distinct acc \<longrightarrow> distinct (fold (\<lambda>i seen. if i \<noteq> [] \<and> i \<notin> set seen then i # seen else seen) ids acc))"
    for acc
    by (induction ids arbitrary: acc) auto
  then show ?thesis by (auto simp: event_items_def)
qed

text \<open>The last \<open>n\<close> elements of a list, and the history without the bound.\<close>

definition last_n :: "nat \<Rightarrow> 'a list \<Rightarrow> 'a list" where
  "last_n n xs = drop (length xs - n) xs"

lemma last_n_append: "last_n n (last_n n xs @ ys) = last_n n (xs @ ys)"
  by (cases "n \<le> length xs") (simp_all add: last_n_def add.commute)

lemma last_n_short: "length xs \<le> n \<Longrightarrow> last_n n xs = xs"
  by (simp add: last_n_def)

lemma last_n_suffix: "\<exists>pre. xs = pre @ last_n n xs"
  by (metis append_take_drop_id last_n_def)

fun change_history :: "nat \<Rightarrow> string list list \<Rightarrow> item_change list" where
  "change_history r [] = []"
| "change_history r (b # bs) =
     (if b = [] then change_history r bs
      else List.map (\<lambda>i. \<lparr>ic_revision = of_nat (r + 1), ic_item = i\<rparr>) b @ change_history (r + 1) bs)"

definition batches :: "string list list \<Rightarrow> nat" where
  "batches bs = length (filter (\<lambda>b. b \<noteq> []) bs)"

lemma batches_simps [simp]:
  "batches [] = 0"
  "batches (b # bs) = (if b = [] then batches bs else Suc (batches bs))"
  "batches (bs @ cs) = batches bs + batches cs"
  by (simp_all add: batches_def)

definition after_records :: "string list list \<Rightarrow> change_log \<Rightarrow> change_log" where
  "after_records bs l = fold record_changes bs l"

lemma record_changes_log:
  assumes "cl_recent l = last_n max_recent_changes h" and "cl_revision l = of_nat r"
  shows "cl_recent (record_changes ids l) = last_n max_recent_changes (h @ change_history r [ids])
    \<and> cl_revision (record_changes ids l) = of_nat (r + batches [ids])
    \<and> cl_epoch (record_changes ids l) = cl_epoch l"
proof (cases "ids = []")
  case False
  let ?new = "List.map (\<lambda>i. \<lparr>ic_revision = cl_revision l + 1, ic_item = i\<rparr>) ids"
  have "cl_recent (record_changes ids l) = last_n max_recent_changes (cl_recent l @ ?new)"
    using False by (simp add: record_changes_def Let_def last_n_def)
  then show ?thesis
    using assms False by (simp add: last_n_append record_changes_def Let_def add.commute)
qed (use assms in \<open>simp add: record_changes_def\<close>)

lemma change_history_append:
  "change_history r (bs @ cs) = change_history r bs @ change_history (r + batches bs) cs"
  by (induction bs arbitrary: r) auto

lemma after_records_log:
  "cl_recent (after_records bs (new_change_log e)) = last_n max_recent_changes (change_history 1 bs)
   \<and> cl_revision (after_records bs (new_change_log e)) = of_nat (1 + batches bs)
   \<and> cl_epoch (after_records bs (new_change_log e)) = e"
proof (induction bs rule: rev_induct)
  case Nil
  then show ?case by (simp add: after_records_def new_change_log_def last_n_def)
next
  case (snoc b bs)
  let ?l = "after_records bs (new_change_log e)"
  have "after_records (bs @ [b]) (new_change_log e) = record_changes b ?l"
    by (simp add: after_records_def)
  then show ?case
    using record_changes_log [of ?l "change_history 1 bs" "1 + batches bs" b] snoc
    by (simp add: change_history_append)
qed

lemma map_ic_item: "List.map ic_item (change_history r bs) = concat bs"
  by (induction r bs rule: change_history.induct) (auto simp: comp_def)

lemma change_history_revisions:
  "c \<in> set (change_history r bs) \<Longrightarrow>
     \<exists>n. ic_revision c = of_nat n \<and> r < n \<and> n \<le> r + batches bs"
proof (induction r bs rule: change_history.induct)
  case (2 r b bs)
  show ?case
  proof (cases "b = [] \<or> c \<in> set (change_history (r + 1) bs)")
    case True
    with 2 show ?thesis by (cases "b = []") force+
  next
    case False
    with "2.prems" have "ic_revision c = of_nat (r + 1)" by auto
    with False show ?thesis by (intro exI [of _ "r + 1"]) simp
  qed
qed simp

lemma change_history_hd:
  "change_history r bs \<noteq> [] \<Longrightarrow> ic_revision (hd (change_history r bs)) = of_nat (r + 1)"
  by (induction r bs rule: change_history.induct) (auto simp: hd_map hd_append)

lemma word_of_nat_less_iff64:
  "a < 2 ^ 64 \<Longrightarrow> b < 2 ^ 64 \<Longrightarrow> (of_nat a :: 64 word) < of_nat b \<longleftrightarrow> a < b"
  by (simp add: word_less_nat_alt unat_of_nat)

text \<open>\<open>since_items\<close> collects the items of the changes after the revision.\<close>


lemma since_items_Some:
  "since_items after cs items = Some out \<Longrightarrow> distinct items \<Longrightarrow>
     distinct out \<and> set out = set items \<union> ic_item ` {c \<in> set cs. ic_revision c > after}
       \<and> all_items \<notin> ic_item ` {c \<in> set cs. ic_revision c > after}"
  by (induction after cs items rule: since_items.induct) (auto split: if_split_asm)

lemma since_items_None:
  "since_items after cs items = None \<longleftrightarrow> all_items \<in> ic_item ` {c \<in> set cs. ic_revision c > after}"
  by (induction after cs items rule: since_items.induct) (auto simp: image_iff)

section \<open>What a waiting reader sees\<close>

text \<open>The reader's view of a log that still remembers everything after its revision.\<close>

definition seen_revision :: "string list list \<Rightarrow> 64 word" where
  "seen_revision bs = of_nat (1 + batches bs)"

definition exact_result :: "string list list \<Rightarrow> changes_result \<Rightarrow> bool" where
  "exact_result bs r \<longleftrightarrow>
     (if all_items \<in> set (concat bs) then cr_all r
      else \<not> cr_all r \<and> distinct (cr_items r) \<and> set (cr_items r) = set (concat bs))"

lemma history_after:
  assumes "1 + batches bs1 + batches bs2 < 2 ^ 64"
  shows "c \<in> set (change_history 1 bs1) \<Longrightarrow> \<not> ic_revision c > seen_revision bs1"
    and "c \<in> set (change_history (1 + batches bs1) bs2) \<Longrightarrow> ic_revision c > seen_revision bs1"
proof -
  assume "c \<in> set (change_history 1 bs1)"
  then obtain n where "ic_revision c = of_nat n" "n \<le> 1 + batches bs1"
    using change_history_revisions by blast
  with assms show "\<not> ic_revision c > seen_revision bs1"
    unfolding seen_revision_def by (simp only: word_of_nat_less_iff64)
next
  assume "c \<in> set (change_history (1 + batches bs1) bs2)"
  then obtain n where "ic_revision c = of_nat n" "1 + batches bs1 < n" "n \<le> 1 + batches bs1 + batches bs2"
    using change_history_revisions by blast
  with assms show "ic_revision c > seen_revision bs1"
    unfolding seen_revision_def by (simp only: word_of_nat_less_iff64)
qed

lemma items_of_history: "ic_item ` set (change_history r bs) = set (concat bs)"
  by (metis list.set_map map_ic_item)

lemma since_remembered:
  assumes "cl_recent l = pre @ change_history (1 + batches bs1) bs2"
    and "set pre \<subseteq> set (change_history 1 bs1)"
    and "cl_revision l = of_nat (1 + batches bs1 + batches bs2)" and "cl_epoch l = e"
    and bound: "1 + batches bs1 + batches bs2 < 2 ^ 64"
  shows "exact_result bs2 (since e (seen_revision bs1) l)"
proof -
  let ?after = "seen_revision bs1" and ?h = "change_history (1 + batches bs1) bs2"
  have nonzero: "?after \<noteq> 0"
    using bound word_of_nat_less_iff64 [of 0 "1 + batches bs1"] by (auto simp: seen_revision_def)
  have items: "ic_item ` {c \<in> set (cl_recent l). ic_revision c > ?after} = set (concat bs2)"
  proof -
    have "{c \<in> set (cl_recent l). ic_revision c > ?after} = set ?h"
      using assms(1,2) history_after [OF bound] by auto
    then show ?thesis using items_of_history by simp
  qed
  show ?thesis
  proof (cases "batches bs2 = 0")
    case True
    then have "set (concat bs2) = {}" by (auto simp: batches_def filter_empty_conv)
    moreover have "since e ?after l = \<lparr>cr_epoch = e, cr_revision = cl_revision l, cr_items = [], cr_all = False\<rparr>"
      using nonzero True assms(3,4) by (simp add: since_def seen_revision_def Let_def)
    ultimately show ?thesis unfolding exact_result_def by (simp only: empty_iff if_False) simp
  next
    case False
    then have less: "?after < cl_revision l"
      unfolding seen_revision_def assms(3) using bound by (subst word_of_nat_less_iff64) simp_all
    have "?h \<noteq> []"
      using False map_ic_item [of "1 + batches bs1" bs2] by (auto simp: batches_def filter_empty_conv)
    then obtain c cs where c: "cl_recent l = c # cs" by (cases "cl_recent l") (simp_all add: assms(1))
    have "\<not> ic_revision c > ?after + 1"
    proof (cases pre)
      case Nil
      then have "c = hd ?h" using c assms(1) by (metis append_Nil list.sel(1))
      then have "ic_revision c = of_nat (1 + batches bs1 + 1)"
        using change_history_hd [OF \<open>?h \<noteq> []\<close>] by (simp only:)
      then show ?thesis by (simp add: seen_revision_def add.commute)
    next
      case (Cons p ps)
      then have "\<not> ic_revision c > ?after"
        using c assms(1,2) history_after(1) [OF bound] by auto
      moreover have "\<not> ?after + 1 < ?after"
        using bound False word_of_nat_less_iff64 [of "1 + batches bs1 + 1" "1 + batches bs1"]
        by (simp add: seen_revision_def add.commute)
      ultimately show ?thesis by (simp add: not_less)
    qed
    then show ?thesis
      using nonzero less c items since_items_Some [of ?after "cl_recent l" "[]"]
        since_items_None [of ?after "cl_recent l" "[]"] assms(4)
      by (cases "since_items ?after (cl_recent l) []")
        (auto simp: since_def exact_result_def Let_def)
  qed
qed

lemma since_remembered_exact:
  assumes "length (concat bs2) \<le> max_recent_changes" and "1 + batches bs1 + batches bs2 < 2 ^ 64"
  shows "exact_result bs2 (since e (seen_revision bs1) (after_records (bs1 @ bs2) (new_change_log e)))"
proof -
  let ?l = "after_records (bs1 @ bs2) (new_change_log e)" and ?h = "change_history (1 + batches bs1) bs2"
  have log: "cl_recent ?l = last_n max_recent_changes (change_history 1 bs1 @ ?h)"
    "cl_revision ?l = of_nat (1 + batches bs1 + batches bs2)" "cl_epoch ?l = e"
    using after_records_log [of "bs1 @ bs2" e] by (simp_all add: change_history_append add.assoc)
  have "length ?h \<le> max_recent_changes"
    using assms(1) by (metis length_map map_ic_item)
  then have "cl_recent ?l = last_n (max_recent_changes - length ?h) (change_history 1 bs1) @ ?h"
    using log(1) by (simp add: last_n_def)
  moreover have "set (last_n (max_recent_changes - length ?h) (change_history 1 bs1)) \<subseteq> set (change_history 1 bs1)"
    by (metis last_n_suffix set_append Un_upper2)
  ultimately show ?thesis using since_remembered log assms(2) by blast
qed

text \<open>A reader that is at most 1024 remembered entries behind is told exactly the items changed since
  the revision it saw, or that every item may have changed when one of the changes says so.\<close>

theorem since_exact:
  assumes "length (concat bs2) \<le> max_recent_changes" and "1 + batches bs1 + batches bs2 < 2 ^ 64"
  shows "exact_result bs2 (since e (seen_revision bs1) (after_records (bs1 @ bs2) (new_change_log e)))"
  using assms by (rule since_remembered_exact)

theorem since_exact_witness:
  "exact_result [[''b'', ''c''], [''b'']]
     (since ''k'' 2 (after_records ([[''a'']] @ [[''b'', ''c''], [''b'']]) (new_change_log ''k'')))"
  using since_exact [of "[[''b'', ''c''], [''b'']]" "[[''a'']]" "''k''"] by (simp add: seen_revision_def)

text \<open>Without that bound a reader is still safe as long as every record names a single item.\<close>

lemma history_strict:
  assumes "\<forall>b\<in>set bs. length b \<le> 1" and "change_history r bs = pre @ c # cs" and "pre \<noteq> []"
  shows "\<exists>n. ic_revision c = of_nat n \<and> r + 1 < n \<and> n \<le> r + batches bs"
  using assms
proof (induction r bs arbitrary: pre rule: change_history.induct)
  case (2 r b bs)
  show ?case
  proof (cases "b = []")
    case True
    with 2 show ?thesis by simp
  next
    case False
    then obtain i where b: "b = [i]" using "2.prems"(1) by (cases b) auto
    then obtain p ps where pre: "pre = p # ps" using "2.prems"(3) by (cases pre) simp_all
    then have "c \<in> set (change_history (r + 1) bs)" using "2.prems"(2) b by auto
    from change_history_revisions [OF this] obtain n
      where "ic_revision c = of_nat n" "r + 1 < n" "n \<le> r + 1 + batches bs" by blast
    then show ?thesis using b by auto
  qed
qed simp

text \<open>When every record names at most one item, a reader at any distance is either told that every item
  may have changed, or given exactly the changed items: no change is missed.\<close>

theorem since_never_misses:
  assumes "\<forall>b\<in>set bs2. length b \<le> 1" and "1 + batches bs1 + batches bs2 < 2 ^ 64"
  shows "let r = since e (seen_revision bs1) (after_records (bs1 @ bs2) (new_change_log e))
    in cr_all r \<or> set (cr_items r) = set (concat bs2)"
proof (cases "length (concat bs2) \<le> max_recent_changes")
  case True
  from since_remembered_exact [OF this assms(2), of e] show ?thesis
    unfolding exact_result_def Let_def by presburger
next
  case False
  let ?l = "after_records (bs1 @ bs2) (new_change_log e)" and ?h = "change_history (1 + batches bs1) bs2"
  have log: "cl_recent ?l = last_n max_recent_changes (change_history 1 bs1 @ ?h)"
    "cl_revision ?l = of_nat (1 + batches bs1 + batches bs2)" "cl_epoch ?l = e"
    using after_records_log [of "bs1 @ bs2" e] by (simp_all add: change_history_append add.assoc)
  have len: "length ?h > max_recent_changes" using False by (metis length_map map_ic_item not_le)
  define d where "d = length ?h - max_recent_changes"
  have recent: "cl_recent ?l = drop d ?h"
    using log(1) len by (simp add: last_n_def d_def)
  moreover have "length (drop d ?h) > 0" using len by (simp add: d_def)
  ultimately obtain c cs where c: "cl_recent ?l = c # cs" by (metis list.exhaust list.size(3) less_irrefl)
  have "?h = take d ?h @ c # cs" and "take d ?h \<noteq> []"
    using c recent len by (metis append_take_drop_id, auto simp: d_def)
  from history_strict [OF assms(1) this] obtain n where
    n: "ic_revision c = of_nat n" "1 + batches bs1 + 1 < n" "n \<le> 1 + batches bs1 + batches bs2" by blast
  then have "ic_revision c > seen_revision bs1 + 1"
    using assms(2) word_of_nat_less_iff64 [of "1 + batches bs1 + 1" n]
    by (simp add: seen_revision_def add.commute)
  moreover have "seen_revision bs1 < cl_revision ?l"
    unfolding seen_revision_def log(2) using assms(2) n by (subst word_of_nat_less_iff64) simp_all
  moreover have "seen_revision bs1 \<noteq> 0"
    using assms(2) word_of_nat_less_iff64 [of 0 "1 + batches bs1"] by (auto simp: seen_revision_def)
  ultimately have "cr_all (since e (seen_revision bs1) ?l)"
    using c log(3) by (simp add: since_def Let_def)
  then show ?thesis by (simp add: Let_def)
qed

theorem since_never_misses_witness:
  "let r = since ''k'' 1 (after_records [[''a''], [''b'']] (new_change_log ''k''))
    in cr_all r \<or> set (cr_items r) = {''a'', ''b''}"
  using since_never_misses [of "[[''a''], [''b'']]" "[]" "''k''"] by (simp add: seen_revision_def)

lemma length_concat_replicate_one: "length (concat (replicate n [x])) = n"
  by (induction n) auto

lemma batches_replicate: "batches (replicate n [x]) = n"
  by (induction n) auto

lemma since_items_same:
  "(\<And>c. c \<in> set cs \<Longrightarrow> ic_item c = x) \<Longrightarrow> x \<noteq> all_items \<Longrightarrow> since_items after cs [x] = Some [x]"
  by (induction cs) auto

text \<open>C40: the bound on single-item records is needed. When a record of two items is followed by 1023 more
  records, the first of the two is dropped from the log while the second, of the same revision, is
  kept: a reader that saw the revision before is given a list that omits a changed item, and is not
  told that every item may have changed.\<close>

theorem since_splits_batch:
  assumes "x \<noteq> all_items" and "x \<noteq> ''a''"
  shows "let r = since e 1 (after_records ([''a'', x] # replicate 1023 [x]) (new_change_log e))
    in \<not> cr_all r \<and> cr_items r = [x]"
proof -
  let ?bs = "[''a'', x] # replicate 1023 [x]" and ?h = "change_history 2 (replicate 1023 [x])"
  let ?l = "after_records ?bs (new_change_log e)"
  let ?c = "\<lparr>ic_revision = 2, ic_item = x\<rparr>"
  have len: "length ?h = 1023"
    using map_ic_item [of 2 "replicate 1023 [x]"] by (metis length_map length_concat_replicate_one)
  have hist: "change_history 1 ?bs = \<lparr>ic_revision = 2, ic_item = ''a''\<rparr> # ?c # ?h"
    by (simp add: numeral_2_eq_2)
  have recent: "cl_recent ?l = ?c # ?h"
    using after_records_log [of ?bs e] hist len by (simp add: last_n_def)
  have revision: "cl_revision ?l = 1025" and epoch: "cl_epoch ?l = e"
    using after_records_log [of ?bs e] batches_replicate [of 1023 x] by simp_all
  have "ic_item c = x" if "c \<in> set ?h" for c
    using that items_of_history [of 2 "replicate 1023 [x]"] by auto
  then have "since_items 1 ?h [x] = Some [x]" by (rule since_items_same [OF _ assms(1)])
  then have "since_items 1 (cl_recent ?l) [] = Some [x]"
    using recent assms(1) by simp
  then show ?thesis
    using recent revision epoch by (simp add: since_def Let_def)
qed

theorem since_splits_batch_witness:
  "cr_items (since ''k'' 1 (after_records ([''a'', ''b''] # replicate 1023 [''b'']) (new_change_log ''k''))) = [''b'']"
  using since_splits_batch [of "''b''" "''k''"] by (simp only: Let_def) simp

end
