(* ===== verification/Repositories.thy ===== *)
theory Repositories
  imports Ident "HOL-Library.Sublist"
begin

text \<open>
  Registered repositories (\<open>internal/model/owned_repository.go\<close>, \<open>repository_upstream.go\<close>,
  \<open>repository_settings.go\<close>, \<open>repository_environment.go\<close>): the registry record and its
  normalisation, branch names, and the environment variables of a repository.
\<close>

section \<open>The registry record\<close>

record owned_repository =
  or_id :: string
  or_name :: string
  or_branch :: string
  or_created_at :: instant
  or_archived :: bool

datatype repository_error =
    RepoId string
  | RepoName
  | RepoBranch string
  | RepoCreatedAt

text \<open>The pattern \<open>^[a-z0-9][a-z0-9._-]{0,63}$\<close>.\<close>

definition name_start_char :: "char \<Rightarrow> bool" where
  "name_start_char c \<longleftrightarrow> (let n = of_char c :: nat in 97 \<le> n \<and> n \<le> 122 \<or> 48 \<le> n \<and> n \<le> 57)"

definition valid_repository_name :: "string \<Rightarrow> bool" where
  "valid_repository_name s \<longleftrightarrow> (case s of [] \<Rightarrow> False
     | c # cs \<Rightarrow> name_start_char c \<and> length cs \<le> 63
         \<and> list_all (\<lambda>d. name_start_char d \<or> d \<in> {CHR ''.'', CHR ''_'', CHR ''-''}) cs)"

text \<open>\<open>strings.HasPrefix\<close>, \<open>strings.HasSuffix\<close> and \<open>strings.Contains\<close>.\<close>

definition has_prefix :: "string \<Rightarrow> string \<Rightarrow> bool" where
  "has_prefix s p \<longleftrightarrow> take (length p) s = p"

definition has_suffix :: "string \<Rightarrow> string \<Rightarrow> bool" where
  "has_suffix s p \<longleftrightarrow> has_prefix (rev s) (rev p)"

fun contains_string :: "string \<Rightarrow> string \<Rightarrow> bool" where
  "contains_string [] p \<longleftrightarrow> p = []"
| "contains_string (c # s) p \<longleftrightarrow> has_prefix (c # s) p \<or> contains_string s p"

lemma has_prefix_iff: "has_prefix s p \<longleftrightarrow> prefix p s"
  by (auto simp: has_prefix_def prefix_def intro: append_take_drop_id [symmetric])
    (metis append_take_drop_id)

lemma contains_string_iff: "contains_string s p \<longleftrightarrow> (\<exists>a b. s = a @ p @ b)"
proof (induction s)
  case (Cons c s)
  show ?case
    unfolding contains_string.simps Cons has_prefix_iff prefix_def
    by (metis append_Cons append_Nil append_eq_Cons_conv)
qed simp

definition branch_special :: "char \<Rightarrow> bool" where
  "branch_special c \<longleftrightarrow> c \<in> set '' ~^:?*['' \<or> of_char c \<in> {92, 9, 13, 10, 0 :: nat}"

definition bad_branch_part :: "string \<Rightarrow> bool" where
  "bad_branch_part part \<longleftrightarrow> has_prefix part ''.'' \<or> has_suffix part ''.'' \<or> has_suffix part ''.lock''"

definition validate_repository_branch :: "string \<Rightarrow> (repository_error, unit) result" where
  "validate_repository_branch branch =
     (if list_ex (\<lambda>r. r \<le> 32 \<or> r = 127) (runes branch) then Inl (RepoBranch branch)
      else if branch = [] \<or> branch = ''@'' \<or> has_prefix branch ''-'' \<or> has_prefix branch ''/''
          \<or> has_suffix branch ''/'' \<or> contains_string branch ''..'' \<or> contains_string branch ''//''
          \<or> contains_string branch [CHR ''@'', CHR ''{''] \<or> list_ex branch_special branch then Inl (RepoBranch branch)
      else if list_ex bad_branch_part (split_char (CHR ''/'') branch) then Inl (RepoBranch branch)
      else Inr ())"

definition normalize_owned_repository :: "owned_repository \<Rightarrow> (repository_error, owned_repository) result" where
  "normalize_owned_repository r =
     (if \<not> valid_id (or_id r) then Inl (RepoId (or_id r))
      else (let r = r\<lparr>or_name := trim_space (or_name r)\<rparr>
        in if \<not> valid_repository_name (or_name r) then Inl RepoName
           else (case validate_repository_branch (or_branch r) of
               Inl e \<Rightarrow> Inl e
             | Inr _ \<Rightarrow> if is_zero_time (or_created_at r) then Inl RepoCreatedAt else Inr r)))"

definition repository_ok :: "owned_repository \<Rightarrow> bool" where
  "repository_ok r \<longleftrightarrow> valid_id (or_id r) \<and> valid_repository_name (or_name r)
     \<and> validate_repository_branch (or_branch r) = Inr () \<and> \<not> is_zero_time (or_created_at r)"

lemma valid_name_chars:
  assumes "valid_repository_name s"
  shows "is_ascii s" and "\<And>c. c \<in> set s \<Longrightarrow> \<not> ascii_space c"
proof -
  have "33 \<le> (of_char c :: nat) \<and> of_char c < (128 :: nat)" if "c \<in> set s" for c
    using assms that
    by (cases s) (auto simp: valid_repository_name_def name_start_char_def Let_def list_all_iff)
  then show "is_ascii s" "\<And>c. c \<in> set s \<Longrightarrow> \<not> ascii_space c"
    by (auto simp: is_ascii_def ascii_space_def is_space_def list_all_iff)
      (fastforce dest: spec)+
qed

lemma trim_space_name: "valid_repository_name s \<Longrightarrow> trim_space s = s"
  using valid_name_chars [of s] by (auto simp: trim_space_ascii intro!: trim_both_id dest: hd_in_set last_in_set)

text \<open>Normalisation accepts exactly the records that are well formed after trimming the name, and its
  result is a fixed point.\<close>

lemma normalize_owned_ok: "normalize_owned_repository r = Inr r' \<Longrightarrow> repository_ok r'"
  by (auto simp: normalize_owned_repository_def repository_ok_def Let_def split: if_split_asm sum.splits)

lemma normalize_owned_fixed: "repository_ok r \<Longrightarrow> normalize_owned_repository r = Inr r"
  by (simp add: normalize_owned_repository_def repository_ok_def trim_space_name)

lemma normalize_owned_fields:
  "normalize_owned_repository r = Inr r' \<Longrightarrow>
     or_id r' = or_id r \<and> or_branch r' = or_branch r \<and> or_archived r' = or_archived r
     \<and> or_created_at r' = or_created_at r \<and> or_name r' = trim_space (or_name r)"
  by (auto simp: normalize_owned_repository_def Let_def split: if_split_asm sum.splits)

text \<open>A repository record is in the image of the normalisation iff the normalisation leaves it alone, iff
  it is well formed.\<close>

theorem normalize_owned_iff:
  "(normalize_owned_repository r = Inr r \<longleftrightarrow> repository_ok r)
   \<and> ((\<exists>r0. normalize_owned_repository r0 = Inr r) \<longleftrightarrow> repository_ok r)"
  using normalize_owned_ok normalize_owned_fixed by blast

section \<open>Settings and environment variables\<close>

text \<open>Stored setting values are JSON texts, kept as they are.\<close>

record repository_settings =
  st_repository :: string
  st_revision :: "64 word"
  st_namespaces :: "(string \<times> (string \<times> string) list) list"

record env_var =
  ev_key :: string
  ev_value :: string

record repository_environment =
  en_repository :: string
  en_revision :: "64 word"
  en_vars :: "env_var list"
  en_changed_at :: "instant option"

definition env_start_char :: "char \<Rightarrow> bool" where
  "env_start_char c \<longleftrightarrow> (let n = of_char c :: nat in
     65 \<le> n \<and> n \<le> 90 \<or> 97 \<le> n \<and> n \<le> 122 \<or> c = CHR ''_'')"

definition valid_env_key :: "string \<Rightarrow> bool" where
  "valid_env_key k \<longleftrightarrow> length k \<le> 256 \<and> (case k of [] \<Rightarrow> False
     | c # cs \<Rightarrow> env_start_char c
         \<and> list_all (\<lambda>d. env_start_char d \<or> (let n = of_char d :: nat in 48 \<le> n \<and> n \<le> 57)) cs)"

datatype env_error =
    EnvKey string
  | EnvReserved string
  | EnvTwice string
  | EnvValue string

fun valid_env_loop :: "env_var list \<Rightarrow> string list \<Rightarrow> (env_error, unit) result" where
  "valid_env_loop [] seen = Inr ()"
| "valid_env_loop (v # vs) seen =
     (if \<not> valid_env_key (ev_key v) then Inl (EnvKey (ev_key v))
      else if has_prefix (ev_key v) ''WI_'' \<or> ev_key v = ''TMUX'' \<or> ev_key v = ''TMUX_PANE''
        then Inl (EnvReserved (ev_key v))
      else if ev_key v \<in> set seen then Inl (EnvTwice (ev_key v))
      else if list_ex (\<lambda>c. of_char c = (0 :: nat)) (ev_value v) \<or> length (ev_value v) > 65536
        then Inl (EnvValue (ev_key v))
      else valid_env_loop vs (ev_key v # seen))"

definition valid_env :: "env_var list \<Rightarrow> (env_error, unit) result" where
  "valid_env vars = valid_env_loop vars []"

fun set_env :: "env_var list \<Rightarrow> env_var \<Rightarrow> env_var list" where
  "set_env [] v = [v]"
| "set_env (e # es) v = (if ev_key e = ev_key v then e\<lparr>ev_value := ev_value v\<rparr> # es else e # set_env es v)"

definition merge_env :: "env_var list \<Rightarrow> env_var list \<Rightarrow> string list \<Rightarrow> env_var list" where
  "merge_env vars new unset = filter (\<lambda>e. ev_key e \<notin> set unset) (fold (\<lambda>v es. set_env es v) new vars)"

text \<open>\<open>EnvChanges\<close>: \<open>old\<close> is the Go map, an association list here.\<close>

fun env_changed_loop :: "env_var list \<Rightarrow> (string \<rightharpoonup> string) \<Rightarrow> string list \<times> (string \<rightharpoonup> string)" where
  "env_changed_loop [] old = ([], old)"
| "env_changed_loop (v # vs) old =
     (let (changed, rest) = env_changed_loop vs (old(ev_key v := None))
      in (if old (ev_key v) \<noteq> Some (ev_value v) then ev_key v # changed else changed, rest))"

definition env_map :: "env_var list \<Rightarrow> string \<rightharpoonup> string" where
  "env_map vars = fold (\<lambda>v m. m(ev_key v \<mapsto> ev_value v)) vars Map.empty"

definition env_changes :: "env_var list \<Rightarrow> env_var list \<Rightarrow> string list" where
  "env_changes before after =
     (let (changed, rest) = env_changed_loop after (env_map before)
      in changed @ filter (\<lambda>k. rest k \<noteq> None) (List.map ev_key before))"

section \<open>Merging and comparing environments\<close>

abbreviation env_keys :: "env_var list \<Rightarrow> string list" where
  "env_keys \<equiv> List.map ev_key"

lemma env_map_fold: "fold (\<lambda>v m. m(ev_key v \<mapsto> ev_value v)) vars m =
    m ++ map_of (rev (List.map (\<lambda>v. (ev_key v, ev_value v)) vars))"
  by (induction vars arbitrary: m) (auto simp: map_add_def fun_eq_iff split: option.splits)

lemma map_of_rev_distinct: "distinct (List.map fst xs) \<Longrightarrow> map_of (rev xs) = map_of xs"
  by (subst map_of_inject_set) (auto simp: rev_map [symmetric])

lemma env_map_eq: "distinct (env_keys vars) \<Longrightarrow> env_map vars = map_of (List.map (\<lambda>v. (ev_key v, ev_value v)) vars)"
  by (simp add: env_map_def env_map_fold map_of_rev_distinct comp_def)

lemma env_map_lookup:
  assumes "distinct (env_keys vars)"
  shows "env_map vars k = Some x \<longleftrightarrow> (\<exists>v\<in>set vars. ev_key v = k \<and> ev_value v = x)"
  using assms by (auto simp: env_map_eq map_of_eq_Some_iff comp_def)

lemma env_keys_set_env:
  "env_keys (set_env vars v) = (if ev_key v \<in> set (env_keys vars) then env_keys vars else env_keys vars @ [ev_key v])"
  by (induction vars) auto

lemma env_map_Cons:
  assumes "distinct (env_keys (e # es))"
  shows "env_map (e # es) = (env_map es)(ev_key e \<mapsto> ev_value e)"
  using assms env_map_eq [of "e # es"] env_map_eq [of es] by simp

lemma env_map_Nil [simp]: "env_map [] = Map.empty"
  by (simp add: env_map_def)

lemma distinct_set_env: "distinct (env_keys vars) \<Longrightarrow> distinct (env_keys (set_env vars v))"
  by (simp add: env_keys_set_env)

lemma env_map_set_env:
  "distinct (env_keys vars) \<Longrightarrow> env_map (set_env vars v) = (env_map vars)(ev_key v \<mapsto> ev_value v)"
proof (induction vars)
  case (Cons e es)
  show ?case
  proof (cases "ev_key e = ev_key v")
    case True
    with Cons.prems show ?thesis by (simp add: env_map_Cons fun_eq_iff)
  next
    case False
    with Cons.prems have "distinct (env_keys (e # set_env es v))" by (simp add: env_keys_set_env)
    with Cons False show ?thesis by (auto simp: env_map_Cons fun_eq_iff)
  qed
qed (simp add: env_map_def)

lemma env_map_merge_fold:
  "distinct (env_keys vars) \<Longrightarrow>
     distinct (env_keys (fold (\<lambda>v es. set_env es v) new vars))
     \<and> env_map (fold (\<lambda>v es. set_env es v) new vars) = fold (\<lambda>v m. m(ev_key v \<mapsto> ev_value v)) new (env_map vars)"
  by (induction new arbitrary: vars) (simp_all add: distinct_set_env env_map_set_env)

lemma env_map_filter:
  assumes "distinct (env_keys vars)"
  shows "env_map (filter (\<lambda>e. P (ev_key e)) vars) k = (if P k then env_map vars k else None)"
proof -
  have "map_of (List.map (\<lambda>v. (ev_key v, ev_value v)) (filter (\<lambda>e. P (ev_key e)) vars)) k =
      (if P k then map_of (List.map (\<lambda>v. (ev_key v, ev_value v)) vars) k else None)"
    by (induction vars) auto
  then show ?thesis using assms by (simp add: env_map_eq distinct_map_filter)
qed

lemma env_map_None: "distinct (env_keys vars) \<Longrightarrow> env_map vars k = None \<longleftrightarrow> k \<notin> set (env_keys vars)"
  by (simp add: env_map_eq map_of_eq_None_iff image_image)

text \<open>Merging updates: a key that is unset disappears, a key that is set has its last new value, every
  other key keeps its value, and no key occurs twice.\<close>

theorem merge_env_correct:
  assumes "distinct (env_keys vars)"
  shows "distinct (env_keys (merge_env vars new unset)) \<and>
    env_map (merge_env vars new unset) k =
      (if k \<in> set unset then None
       else case env_map new k of None \<Rightarrow> env_map vars k | Some x \<Rightarrow> Some x)"
proof -
  let ?m = "fold (\<lambda>v es. set_env es v) new vars"
  have d: "distinct (env_keys ?m)" and m: "env_map ?m = env_map vars ++ env_map new"
    using env_map_merge_fold [OF assms, of new] by (simp_all add: env_map_fold env_map_def)
  have "env_map (merge_env vars new unset) k = (if k \<notin> set unset then env_map ?m k else None)"
    unfolding merge_env_def by (rule env_map_filter [OF d])
  then show ?thesis
    using d by (simp add: merge_env_def m map_add_def distinct_map_filter)
qed

theorem merge_env_correct_witness:
  "env_map (merge_env [\<lparr>ev_key = ''A'', ev_value = ''1''\<rparr>, \<lparr>ev_key = ''B'', ev_value = ''2''\<rparr>]
      [\<lparr>ev_key = ''A'', ev_value = ''3''\<rparr>] [''B'']) ''A'' = Some ''3''"
  using merge_env_correct [of "[\<lparr>ev_key = ''A'', ev_value = ''1''\<rparr>, \<lparr>ev_key = ''B'', ev_value = ''2''\<rparr>]"
      "[\<lparr>ev_key = ''A'', ev_value = ''3''\<rparr>]" "[''B'']" "''A''"]
  by (simp add: env_map_def)

lemma env_changed_loop_spec:
  assumes "distinct (env_keys after)" and "env_changed_loop after old = (changed, rest)"
  shows "distinct changed \<and> set changed = {k. env_map after k \<noteq> None \<and> env_map after k \<noteq> old k}
    \<and> rest = (\<lambda>k. if k \<in> set (env_keys after) then None else old k)"
  using assms
proof (induction after arbitrary: old changed rest)
  case (Cons v vs)
  obtain changed' where c: "env_changed_loop vs (old(ev_key v := None)) = (changed', rest)"
    and changed: "changed = (if old (ev_key v) \<noteq> Some (ev_value v) then ev_key v # changed' else changed')"
    using Cons.prems(2) by (auto simp: Let_def split: prod.splits)
  have d: "distinct (env_keys vs)" "ev_key v \<notin> set (env_keys vs)" using Cons.prems(1) by simp_all
  note IH = Cons.IH [OF d(1) c]
  have none: "env_map vs (ev_key v) = None"
    using d by (simp add: env_map_None)
  have "set changed' = {k. env_map vs k \<noteq> None \<and> env_map vs k \<noteq> old k}"
    using IH none by auto
  then show ?case
    using IH none Cons.prems(1) changed by (auto simp: env_map_Cons fun_eq_iff)
qed simp

text \<open>The reported changes are exactly the keys whose value differs, each once; a reordering of the same
  assignments changes nothing.\<close>

theorem env_changes_correct:
  assumes "distinct (env_keys before)" and "distinct (env_keys after)"
  shows "distinct (env_changes before after)
    \<and> set (env_changes before after) = {k. env_map before k \<noteq> env_map after k}"
proof -
  obtain changed rest where c: "env_changed_loop after (env_map before) = (changed, rest)"
    by (meson surj_pair)
  note spec = env_changed_loop_spec [OF assms(2) c]
  have key: "k \<in> set (env_keys vs) \<longleftrightarrow> env_map vs k \<noteq> None" if "distinct (env_keys vs)" for vs k
    using env_map_None [OF that, of k] by simp
  have "set (env_changes before after) = {k. env_map before k \<noteq> env_map after k}"
    using spec c key [OF assms(1)] key [OF assms(2)] by (auto simp: env_changes_def)
  moreover have "distinct (env_changes before after)"
    using spec c assms key [OF assms(2)] by (auto simp: env_changes_def)
  ultimately show ?thesis by simp
qed

theorem env_changes_correct_witness:
  "env_changes [\<lparr>ev_key = ''A'', ev_value = ''1''\<rparr>] [\<lparr>ev_key = ''A'', ev_value = ''1''\<rparr>] = []"
  using env_changes_correct [of "[\<lparr>ev_key = ''A'', ev_value = ''1''\<rparr>]" "[\<lparr>ev_key = ''A'', ev_value = ''1''\<rparr>]"]
  by simp

end
