(* ===== verification/Records.thy ===== *)
theory Records
  imports Lifecycle Lease Repositories
begin

text \<open>
  What the coordinator's database stores (\<open>internal/coordinator\<close>): domain events, commands with their
  outcomes, the projections, and the union of them a bucket holds. A stored JSON text is represented
  by the value it encodes, after what its encoding drops (see \<open>persist_manifest\<close>); a text of another
  type than the reader expects is a decoding error.
\<close>

section \<open>Payloads and events\<close>

datatype json =
    JNull
  | JBool bool
  | JInt int
  | JStr string
  | JTime instant
  | JList "json list"
  | JObj "(string \<times> json) list"

definition jstrs :: "string list \<Rightarrow> json" where
  "jstrs ss = JList (List.map JStr ss)"

record domain_event =
  de_sequence :: "64 word"
  de_id :: string
  de_item :: string
  de_revision :: "64 word"
  de_type :: string
  de_time :: instant
  de_actor :: string
  de_causation :: string
  de_payload :: json

record command =
  cm_id :: string
  cm_protocol :: int
  cm_type :: string
  cm_actor :: string
  cm_item :: string
  cm_expected :: "64 word option"
  cm_payload :: json
  cm_received_at :: instant

record pending_event =
  pe_id :: string
  pe_item :: string
  pe_type :: string
  pe_time :: instant
  pe_actor :: string
  pe_payload :: json

record commit_result =
  cr_command :: string
  cr_events :: "domain_event list"
  cr_final_sequence :: "64 word"
  cr_item_revision :: "64 word"
  cr_committed_at :: instant
  cr_duplicate :: bool

section \<open>Projections\<close>

record attention_activity =
  aa_item :: string
  aa_requested_at :: "instant option"
  aa_completed_at :: "instant option"
  aa_deferred_at :: "instant option"
  aa_read_at :: "instant option"
  aa_unread_at :: "instant option"
  aa_observed_at :: instant
  aa_source :: string

record runtime_activity =
  ra_item :: string
  ra_runtime :: string
  ra_runtime_state :: string
  ra_agent_state :: string
  ra_failure_reason :: string
  ra_leaf :: string
  ra_turn_state :: string
  ra_last_event_at :: "instant option"
  ra_last_requested_at :: "instant option"
  ra_last_completed_at :: "instant option"
  ra_observed_at :: instant
  ra_source :: string

record agent_runtime =
  ar_id :: string
  ar_generation :: "32 word"
  ar_item :: string
  ar_mode :: string
  ar_state :: string
  ar_conversation :: string
  ar_executor :: string
  ar_claim_id :: string
  ar_claim_generation :: "64 word"
  ar_capabilities :: runtime_capabilities
  ar_host_pid :: int
  ar_host_process_group :: int
  ar_host_start_time :: "64 word"
  ar_started_at :: instant
  ar_updated_at :: instant
  ar_stopped_at :: "instant option"
  ar_readiness :: string
  ar_readiness_reason :: string
  ar_readiness_at :: "instant option"
  ar_settings :: "(string \<times> string) list"

record terminal_runtime =
  tr_claim_id :: string
  tr_claim_generation :: "64 word"
  tr_updated_at :: instant
  tr_window :: string
  tr_pane_id :: string
  tr_pane_index :: string
  tr_pane_pid :: int
  tr_pane_command :: string
  tr_pane_path :: string

record projected_worktree =
  pw_status :: string
  pw_reason :: string
  pw_checkout_path :: string
  pw_head :: string
  pw_expected_branch :: string
  pw_current_branch :: string
  pw_branch_matches :: bool
  pw_branch_mismatch :: bool
  pw_dirty :: bool
  pw_has_changes :: bool

record projected_process =
  pp_runtime :: string
  pp_mode :: string
  pp_host_pid :: int
  pp_tmux_session :: string
  pp_tmux_window :: string
  pp_pane_id :: string
  pp_pane_index :: string
  pp_pane_pid :: int
  pp_pane_command :: string
  pp_pane_path :: string
  pp_backend_pid :: int
  pp_source :: string

record agent_observation =
  ob_item :: string
  ob_status :: string
  ob_reason :: string
  ob_online :: bool
  ob_process :: projected_process
  ob_runtime :: "agent_runtime option"
  ob_terminal :: "terminal_runtime option"
  ob_agent_state :: string
  ob_turn_state :: string
  ob_last_activity_at :: "instant option"
  ob_worktree :: "projected_worktree option"
  ob_worktree_at :: instant
  ob_activity :: attention_activity
  ob_observed_at :: instant
  ob_warnings :: "string list"

record source_checkpoint =
  sc_source :: string
  sc_fingerprint :: string
  sc_fingerprint_size :: int
  sc_offset :: int
  sc_size :: int
  sc_modified_at :: instant
  sc_observed_at :: instant
  sc_seen :: "64 word"
  sc_imported :: "64 word"
  sc_skipped :: "64 word"

record conversation_fact =
  cf_line :: "64 word"
  cf_type :: string
  cf_role :: string
  cf_time :: instant
  cf_stop_reason :: string
  cf_content_types :: "string list"
  cf_terminal :: bool
  cf_failed :: bool

record conversation_index =
  ci_item :: string
  ci_conversation :: string
  ci_source :: string
  ci_offset :: int
  ci_size :: int
  ci_observed_at :: instant
  ci_scanned :: "64 word"
  ci_malformed :: "64 word"
  ci_turn_state :: string
  ci_last_event :: "conversation_fact option"
  ci_last_activity :: "conversation_fact option"
  ci_last_prompt :: "conversation_fact option"
  ci_last_assistant :: "conversation_fact option"
  ci_last_terminal :: "conversation_fact option"
  ci_last_tool :: "conversation_fact option"

text \<open>The jobs of the daemon's API (\<open>proto/wi/core/v1/jobs.proto\<close>), which it stores as summaries.\<close>

datatype job_state = JobUnspecified | JobQueued | JobRunning | JobWaiting | JobSucceeded | JobFailed | JobCancelled

record job_approval =
  jp_challenge :: string
  jp_question :: string
  jp_path :: string
  jp_digest :: string
  jp_expires_at :: instant

record job_partial =
  jt_item :: string
  jt_completed :: "string list"
  jt_warnings :: "string list"

record api_job =
  jb_id :: string
  jb_kind :: string
  jb_state :: job_state
  jb_item :: string
  jb_repository :: string
  jb_phase :: string
  jb_log_tail :: string
  jb_approval :: "job_approval option"
  jb_error :: string
  jb_partial :: "job_partial option"
  jb_warnings :: "string list"
  jb_created_at :: "instant option"
  jb_started_at :: "instant option"
  jb_finished_at :: "instant option"

section \<open>Upstreams and synchronization plans\<close>

record repo_upstream =
  ru_url :: string
  ru_branch :: string
  ru_remote :: string
  ru_tracking_ref :: string

record sync_plan =
  sp_id :: string
  sp_mode :: string
  sp_phase :: string
  sp_old :: string
  sp_upstream_sha :: string
  sp_new :: string
  sp_recovery_ref :: string
  sp_upstream :: "repo_upstream option"

record repo_fetch =
  rf_sha :: string
  rf_upstream :: repo_upstream
  rf_at :: instant

section \<open>Agent profiles\<close>

record agent_profile =
  af_name :: string
  af_driver :: string
  af_label :: string
  af_config :: "(string \<times> json) list"

record agent_profiles =
  afs_revision :: "64 word"
  afs_default :: string
  afs_profiles :: "agent_profile list"

section \<open>Typed commands and their outcomes\<close>

record metadata_edit =
  me_priority :: "32 word option"
  me_pinned :: "bool option"
  me_snoozed_until :: "instant option"
  me_clear_snooze :: bool
  me_title :: "string option"
  me_add_labels :: "string list"
  me_remove_labels :: "string list"
  me_deep_work :: "bool option"
  me_digest :: string
  me_previous_digest :: string

record manifest_command =
  mc_id :: string
  mc_protocol :: int
  mc_type :: string
  mc_item :: string
  mc_expected :: "64 word option"
  mc_actor :: string
  mc_labels :: "string list"
  mc_deep_work :: "bool option"
  mc_target_state :: string
  mc_title :: string
  mc_edit :: "metadata_edit option"
  mc_event_type :: string
  mc_force :: bool
  mc_max_active :: int
  mc_resolution :: string
  mc_blockers :: "blocker list"
  mc_blocker_id :: string
  mc_created_at :: instant

record manifest_result =
  mr_command :: string
  mr_manifest :: manifest
  mr_revision :: "64 word"
  mr_changed :: bool
  mr_events :: "domain_event list"
  mr_duplicate :: bool
  mr_committed_at :: instant

record queue_options =
  qo_strategy :: string
  qo_label_rules :: "(string \<times> bool) list"

record queue_candidate =
  qc_manifest :: manifest
  qc_activity :: attention_activity
  qc_rank :: int

record queue_result =
  qr_strategy :: string
  qr_candidates :: "queue_candidate list"

record create_command =
  cc_id :: string
  cc_protocol :: int
  cc_manifest :: manifest
  cc_digest :: string
  cc_actor :: string
  cc_created_at :: instant

record create_result =
  ct_command :: string
  ct_manifest :: manifest
  ct_revision :: "64 word"
  ct_event :: domain_event
  ct_duplicate :: bool
  ct_committed_at :: instant

record store_command =
  so_id :: string
  so_protocol :: int
  so_operation :: string
  so_item :: string
  so_expected :: "64 word option"
  so_digest :: string
  so_created_at :: instant

record store_result =
  sr_command :: string
  sr_revision :: "64 word"
  sr_event :: domain_event
  sr_duplicate :: bool
  sr_committed_at :: instant

record register_command =
  rg_id :: string
  rg_protocol :: int
  rg_repository :: owned_repository
  rg_created_at :: instant

record register_result =
  rr_repository :: owned_repository
  rr_sequence :: "64 word"
  rr_duplicate :: bool

record archive_command =
  ac_id :: string
  ac_protocol :: int
  ac_repository :: string
  ac_previous :: bool
  ac_archived :: bool
  ac_created_at :: instant

record archive_result =
  ax_repository :: owned_repository
  ax_changed :: bool
  ax_sequence :: "64 word"
  ax_duplicate :: bool

record rename_command =
  rn_id :: string
  rn_protocol :: int
  rn_repository :: string
  rn_previous :: string
  rn_name :: string
  rn_created_at :: instant

record rename_result =
  rx_repository :: owned_repository
  rx_previous :: string
  rx_changed :: bool
  rx_sequence :: "64 word"
  rx_duplicate :: bool

record setting_command =
  sn_id :: string
  sn_protocol :: int
  sn_repository :: string
  sn_expected :: "64 word"
  sn_namespace :: string
  sn_key :: string
  sn_value :: string
  sn_unset :: bool
  sn_created_at :: instant

record setting_result =
  sx_repository :: string
  sx_namespace :: string
  sx_key :: string
  sx_revision :: "64 word"
  sx_changed :: bool
  sx_sequence :: "64 word"
  sx_duplicate :: bool

datatype domain_outcome =
    OutManifest manifest_command manifest_result "queue_options option" "queue_result option"
  | OutCreate create_command create_result
  | OutStore store_command store_result
  | OutRegister register_command register_result
  | OutArchive archive_command archive_result
  | OutRename rename_command rename_result
  | OutSetting string setting_result

record native_write =
  nw_command :: string
  nw_sequence :: "64 word"
  nw_operation :: string
  nw_manifest :: manifest
  nw_digest :: string
  nw_previous_digest :: string

section \<open>The union of the stored values\<close>

datatype stored =
    StBytes string
  | StEvent domain_event
  | StManifest manifest
  | StAttention attention_activity
  | StRuntimeActivity runtime_activity
  | StObservation agent_observation
  | StRuntime agent_runtime
  | StTerminal terminal_runtime
  | StRepository owned_repository
  | StSettings repository_settings
  | StEnvironment repository_environment
  | StCheckpoint source_checkpoint
  | StConversation conversation_index
  | StJob api_job instant
  | StSyncPlan sync_plan
  | StFetch repo_fetch
  | StProfiles agent_profiles
  | StCommit commit_result
  | StOutcome domain_outcome
  | StPending native_write

text \<open>Decoding into the type a reader expects.\<close>

definition as_event :: "stored \<Rightarrow> domain_event option" where
  "as_event v = (case v of StEvent e \<Rightarrow> Some e | _ \<Rightarrow> None)"

definition as_manifest :: "stored \<Rightarrow> manifest option" where
  "as_manifest v = (case v of StManifest m \<Rightarrow> Some m | _ \<Rightarrow> None)"

definition as_attention :: "stored \<Rightarrow> attention_activity option" where
  "as_attention v = (case v of StAttention a \<Rightarrow> Some a | _ \<Rightarrow> None)"

definition as_runtime :: "stored \<Rightarrow> agent_runtime option" where
  "as_runtime v = (case v of StRuntime a \<Rightarrow> Some a | _ \<Rightarrow> None)"

definition as_observation :: "stored \<Rightarrow> agent_observation option" where
  "as_observation v = (case v of StObservation a \<Rightarrow> Some a | _ \<Rightarrow> None)"

definition as_repository :: "stored \<Rightarrow> owned_repository option" where
  "as_repository v = (case v of StRepository r \<Rightarrow> Some r | _ \<Rightarrow> None)"

definition as_pending :: "stored \<Rightarrow> native_write option" where
  "as_pending v = (case v of StPending w \<Rightarrow> Some w | _ \<Rightarrow> None)"

definition as_settings :: "stored \<Rightarrow> repository_settings option" where
  "as_settings v = (case v of StSettings s \<Rightarrow> Some s | _ \<Rightarrow> None)"

definition as_environment :: "stored \<Rightarrow> repository_environment option" where
  "as_environment v = (case v of StEnvironment e \<Rightarrow> Some e | _ \<Rightarrow> None)"

definition as_conversation :: "stored \<Rightarrow> conversation_index option" where
  "as_conversation v = (case v of StConversation c \<Rightarrow> Some c | _ \<Rightarrow> None)"

definition as_activity :: "stored \<Rightarrow> runtime_activity option" where
  "as_activity v = (case v of StRuntimeActivity a \<Rightarrow> Some a | _ \<Rightarrow> None)"

definition as_bytes :: "stored option \<Rightarrow> string" where
  "as_bytes v = (case v of Some (StBytes b) \<Rightarrow> b | _ \<Rightarrow> [])"

lemmas decoders = as_event_def as_manifest_def as_attention_def as_runtime_def as_observation_def
  as_repository_def as_pending_def as_settings_def as_environment_def as_conversation_def
  as_activity_def as_bytes_def

lemma decoder_simps [simp]:
  "as_event (StEvent e) = Some e"
  "as_manifest (StManifest m) = Some m"
  "as_attention (StAttention a) = Some a"
  "as_runtime (StRuntime r) = Some r"
  "as_observation (StObservation ob) = Some ob"
  "as_repository (StRepository r0) = Some r0"
  "as_pending (StPending w) = Some w"
  "as_settings (StSettings st) = Some st"
  "as_environment (StEnvironment en) = Some en"
  "as_conversation (StConversation ci) = Some ci"
  "as_activity (StRuntimeActivity ra) = Some ra"
  "as_bytes None = []"
  "as_bytes (Some (StBytes b)) = b"
  by (simp_all add: decoders)

section \<open>Names\<close>

text \<open>Projection names (\<open>database.go\<close>, \<open>projections.go\<close>, \<open>store_command.go\<close>, \<open>repository.go\<close>,
  \<open>external_observer.go\<close>, \<open>conversation_importer.go\<close>).\<close>

abbreviation manifest_projection :: string where "manifest_projection \<equiv> ''manifests''"
abbreviation attention_projection :: string where "attention_projection \<equiv> ''attention_activity''"
abbreviation runtime_activity_projection :: string where "runtime_activity_projection \<equiv> ''runtime_activity''"
abbreviation runtime_ownership_projection :: string where "runtime_ownership_projection \<equiv> ''runtime_ownership''"
abbreviation terminal_ownership_projection :: string where "terminal_ownership_projection \<equiv> ''terminal_ownership''"
abbreviation observation_projection :: string where "observation_projection \<equiv> ''agent_observations''"
abbreviation repository_projection :: string where "repository_projection \<equiv> ''repositories''"
abbreviation settings_projection :: string where "settings_projection \<equiv> ''repository_settings''"

abbreviation environment_projection :: string where "environment_projection \<equiv> ''repository_environment''"

abbreviation conversation_projection :: string where "conversation_projection \<equiv> ''conversations''"
abbreviation repository_sync_projection :: string where "repository_sync_projection \<equiv> ''repository_sync''"
abbreviation repository_fetch_projection :: string where "repository_fetch_projection \<equiv> ''repository_fetch''"
abbreviation agent_profiles_projection :: string where "agent_profiles_projection \<equiv> ''agent_profiles''"
abbreviation api_jobs_projection :: string where "api_jobs_projection \<equiv> ''api_jobs''"

abbreviation key_schema_version :: string where "key_schema_version \<equiv> ''schema_version''"
abbreviation key_global_sequence :: string where "key_global_sequence \<equiv> ''global_sequence''"

end
