(* ===== verification/EventLog.thy ===== *)
theory EventLog
  imports Records Changes
begin

text \<open>
  The transaction state of the coordinator database (\<open>internal/coordinator/database.go\<close>) over the
  bucket interface, the encoding of its numbers, and its event log: the detailed representation
  (the buckets of events, event identities, revisions and the global sequence) against the abstract
  one, the list of events in commit order. Every transaction that commits events rests on the
  lemmas of the last section.
\<close>

section \<open>Transaction state\<close>

record 'b tx_state =
  tx_meta :: 'b
  tx_commands :: 'b
  tx_events :: 'b
  tx_event_ids :: 'b
  tx_revisions :: 'b
  tx_projections :: "string \<Rightarrow> 'b option"
  tx_sources :: 'b
  tx_offsets :: 'b
  tx_outcomes :: 'b
  tx_pending :: 'b

record 'b database =
  db_tx :: "'b tx_state"
  db_changes :: change_log

text \<open>\<open>encodeUint64\<close> and \<open>decodeUint64\<close>: big endian, eight bytes.\<close>

fun be_bytes :: "nat \<Rightarrow> nat \<Rightarrow> string" where
  "be_bytes 0 n = []"
| "be_bytes (Suc k) n = char_of (n div 256 ^ k mod 256) # be_bytes k n"

definition encode_uint64 :: "64 word \<Rightarrow> string" where
  "encode_uint64 w = be_bytes 8 (unat w)"

definition decode_uint64 :: "string \<Rightarrow> 64 word" where
  "decode_uint64 s = (if length s \<noteq> 8 then 0 else of_nat (foldl (\<lambda>a c. a * 256 + of_char c) 0 s))"

definition get_u64 :: "('b, stored) bolt \<Rightarrow> 'b \<Rightarrow> string \<Rightarrow> 64 word" where
  "get_u64 B b k = decode_uint64 (as_bytes (b_get B b k))"

definition st_u64 :: "64 word \<Rightarrow> stored" where
  "st_u64 w = StBytes (encode_uint64 w)"

definition global_sequence :: "('b, stored) bolt \<Rightarrow> 'b tx_state \<Rightarrow> 64 word" where
  "global_sequence B t = get_u64 B (tx_meta t) key_global_sequence"

definition put_sequence :: "('b, stored) bolt \<Rightarrow> 64 word \<Rightarrow> 'b tx_state \<Rightarrow> 'b tx_state" where
  "put_sequence B n t = t\<lparr>tx_meta := b_put B key_global_sequence (st_u64 n) (tx_meta t)\<rparr>"

definition item_revision :: "('b, stored) bolt \<Rightarrow> 'b tx_state \<Rightarrow> string \<Rightarrow> 64 word" where
  "item_revision B t i = get_u64 B (tx_revisions t) i"

definition put_revision :: "('b, stored) bolt \<Rightarrow> string \<Rightarrow> 64 word \<Rightarrow> 'b tx_state \<Rightarrow> 'b tx_state" where
  "put_revision B i n t = t\<lparr>tx_revisions := b_put B i (st_u64 n) (tx_revisions t)\<rparr>"

text \<open>The two writes that record an event: under its sequence and under its identity.\<close>

definition put_event :: "('b, stored) bolt \<Rightarrow> domain_event \<Rightarrow> 'b tx_state \<Rightarrow> 'b tx_state" where
  "put_event B e t = t\<lparr>
     tx_events := b_put B (encode_uint64 (de_sequence e)) (StEvent e) (tx_events t),
     tx_event_ids := b_put B (de_id e) (st_u64 (de_sequence e)) (tx_event_ids t)\<rparr>"

section \<open>Numbers\<close>

lemma length_be_bytes [simp]: "length (be_bytes k n) = k"
  by (induction k) auto

lemma byte_split: "x mod 256 ^ Suc k = (x div 256 ^ k mod 256) * 256 ^ k + x mod 256 ^ k" for x :: nat
  using mod_mult2_eq [of x "256 ^ k" 256] by (simp add: mult.commute)

lemma unat_byte_bound: "unat (w :: 64 word) < 256 ^ 8"
  using unsigned_less [of w] by simp

lemma foldl_be_bytes:
  "foldl (\<lambda>a c. a * 256 + of_char c) acc (be_bytes k n) = acc * 256 ^ k + n mod 256 ^ k"
proof (induction k arbitrary: acc)
  case (Suc k)
  show ?case
    unfolding byte_split [of n k] be_bytes.simps foldl.simps Suc.IH by (simp add: algebra_simps)
qed simp

lemma decode_encode [simp]: "decode_uint64 (encode_uint64 w) = w"
  using unat_byte_bound [of w] by (simp add: decode_uint64_def encode_uint64_def foldl_be_bytes)

lemma decode_Nil [simp]: "decode_uint64 [] = 0"
  by (simp add: decode_uint64_def)

lemma encode_inj [simp]: "encode_uint64 v = encode_uint64 w \<longleftrightarrow> v = w"
  by (metis decode_encode)

lemma be_bytes_less:
  "m mod 256 ^ k < n mod 256 ^ k \<Longrightarrow> be_bytes k m < be_bytes k n"
proof (induction k)
  case (Suc k)
  let ?d = "\<lambda>x::nat. x div 256 ^ k mod 256"
  note split = byte_split [of _ k]
  have small: "x mod 256 ^ k < 256 ^ k" for x :: nat by simp
  consider "?d m < ?d n" | "?d m = ?d n" | "?d m > ?d n" by linarith
  then show ?case
  proof cases
    case 1
    then have "char_of (?d m) < char_of (?d n)" by (simp add: less_char_def)
    then show ?thesis by simp
  next
    case 2
    with Suc show ?thesis by (simp only: split) simp
  next
    case 3
    then have "(?d n + 1) * 256 ^ k \<le> ?d m * 256 ^ k" by (intro mult_le_mono1) simp
    with Suc.prems show ?thesis unfolding split using small [of n] by simp
  qed
qed simp

lemma encode_uint64_less: "a < b \<Longrightarrow> encode_uint64 a < encode_uint64 b"
  using unat_byte_bound [of a] unat_byte_bound [of b]
  by (simp add: encode_uint64_def word_less_nat_alt be_bytes_less)

text \<open>The encoding of a sequence number is eight bytes, decodes to it, and orders keys as numbers, so a
  bucket keyed by it is visited in numeric order.\<close>

theorem encode_uint64_order:
  "length (encode_uint64 v) = 8 \<and> decode_uint64 (encode_uint64 v) = v
   \<and> (encode_uint64 v < encode_uint64 w \<longleftrightarrow> v < w)"
proof -
  have "encode_uint64 v < encode_uint64 w \<longleftrightarrow> v < w"
    using encode_uint64_less [of v w] encode_uint64_less [of w v] by (metis less_asym not_less_iff_gr_or_eq)
  moreover have "length (encode_uint64 v) = 8" by (simp add: encode_uint64_def)
  ultimately show ?thesis by simp
qed

section \<open>The abstract log\<close>

definition item_count :: "domain_event list \<Rightarrow> string \<Rightarrow> nat" where
  "item_count L i = length (filter (\<lambda>e. de_item e = i) L)"

lemma item_count_simps [simp]:
  "item_count [] i = 0"
  "item_count (L @ [e]) i = (if de_item e = i then Suc (item_count L i) else item_count L i)"
  by (simp_all add: item_count_def)

lemma item_count_le: "item_count L i \<le> length L"
  by (simp add: item_count_def)

text \<open>Sequences run from 1 without a gap, and so do the revisions of every item.\<close>

definition log_wf :: "domain_event list \<Rightarrow> bool" where
  "log_wf L \<longleftrightarrow> List.map de_sequence L = List.map of_nat [1..<Suc (length L)]
     \<and> (\<forall>i. i \<noteq> [] \<longrightarrow> List.map de_revision (filter (\<lambda>e. de_item e = i) L)
           = List.map of_nat [1..<Suc (item_count L i)])"

definition stamp :: "domain_event list \<Rightarrow> domain_event \<Rightarrow> domain_event" where
  "stamp L e = e\<lparr>de_sequence := of_nat (Suc (length L)),
     de_revision := (if de_item e = [] then de_revision e else of_nat (Suc (item_count L (de_item e))))\<rparr>"

definition log_append :: "domain_event \<Rightarrow> domain_event list \<Rightarrow> domain_event list" where
  "log_append e L = L @ [stamp L e]"

lemma log_wf_Nil [simp]: "log_wf []"
  by (simp add: log_wf_def)

lemma log_wf_snoc:
  assumes "log_wf L" and "de_sequence e = of_nat (Suc (length L))"
    and "de_item e \<noteq> [] \<Longrightarrow> de_revision e = of_nat (Suc (item_count L (de_item e)))"
  shows "log_wf (L @ [e])"
  using assms by (auto simp: log_wf_def)

lemma log_wf_append: "log_wf L \<Longrightarrow> log_wf (log_append e L)"
  unfolding log_append_def by (rule log_wf_snoc) (simp_all add: stamp_def)

lemma log_wf_sequence:
  assumes "log_wf L" and "k < length L"
  shows "de_sequence (L ! k) = of_nat (Suc k)"
proof -
  have "List.map de_sequence L ! k = List.map of_nat [1..<Suc (length L)] ! k"
    using assms(1) by (simp add: log_wf_def)
  then show ?thesis using assms(2) by (simp add: nth_append del: upt_Suc)
qed

section \<open>The detailed representation\<close>

definition event_entry :: "domain_event \<Rightarrow> string \<times> stored" where
  "event_entry e = (encode_uint64 (de_sequence e), StEvent e)"

definition ev_rep :: "('b, stored) bolt \<Rightarrow> ('b \<Rightarrow> bool) \<Rightarrow> 'b tx_state \<Rightarrow> domain_event list \<Rightarrow> bool" where
  "ev_rep B ok t L \<longleftrightarrow> ok (tx_events t) \<and> ok (tx_event_ids t) \<and> log_wf L \<and> length L < 2 ^ 64
     \<and> b_entries B (tx_events t) = List.map event_entry L
     \<and> (\<forall>k. b_get B (tx_event_ids t) k \<noteq> None \<longleftrightarrow> k \<in> de_id ` set L)"

definition rev_rep :: "('b, stored) bolt \<Rightarrow> ('b \<Rightarrow> bool) \<Rightarrow> 'b tx_state \<Rightarrow> domain_event list \<Rightarrow> bool" where
  "rev_rep B ok t L \<longleftrightarrow> ok (tx_revisions t)
     \<and> (\<forall>i. i \<noteq> [] \<longrightarrow> item_revision B t i = of_nat (item_count L i))"

definition seq_rep :: "('b, stored) bolt \<Rightarrow> ('b \<Rightarrow> bool) \<Rightarrow> 'b tx_state \<Rightarrow> domain_event list \<Rightarrow> bool" where
  "seq_rep B ok t L \<longleftrightarrow> ok (tx_meta t) \<and> global_sequence B t = of_nat (length L)"

text \<open>The database state \<open>t\<close> represents the log \<open>L\<close>.\<close>

definition log_rep :: "('b, stored) bolt \<Rightarrow> ('b \<Rightarrow> bool) \<Rightarrow> 'b tx_state \<Rightarrow> domain_event list \<Rightarrow> bool" where
  "log_rep B ok t L \<longleftrightarrow> ev_rep B ok t L \<and> rev_rep B ok t L \<and> seq_rep B ok t L"

lemma rep_cong [simp]:
  "ev_rep B ok (t\<lparr>tx_meta := x\<rparr>) L = ev_rep B ok t L"
  "ev_rep B ok (t\<lparr>tx_commands := x\<rparr>) L = ev_rep B ok t L"
  "ev_rep B ok (t\<lparr>tx_revisions := x\<rparr>) L = ev_rep B ok t L"
  "ev_rep B ok (t\<lparr>tx_projections := y\<rparr>) L = ev_rep B ok t L"
  "ev_rep B ok (t\<lparr>tx_sources := x\<rparr>) L = ev_rep B ok t L"
  "ev_rep B ok (t\<lparr>tx_offsets := x\<rparr>) L = ev_rep B ok t L"
  "ev_rep B ok (t\<lparr>tx_outcomes := x\<rparr>) L = ev_rep B ok t L"
  "ev_rep B ok (t\<lparr>tx_pending := x\<rparr>) L = ev_rep B ok t L"
  "rev_rep B ok (t\<lparr>tx_meta := x\<rparr>) L = rev_rep B ok t L"
  "rev_rep B ok (t\<lparr>tx_commands := x\<rparr>) L = rev_rep B ok t L"
  "rev_rep B ok (t\<lparr>tx_projections := y\<rparr>) L = rev_rep B ok t L"
  "rev_rep B ok (t\<lparr>tx_sources := x\<rparr>) L = rev_rep B ok t L"
  "rev_rep B ok (t\<lparr>tx_offsets := x\<rparr>) L = rev_rep B ok t L"
  "rev_rep B ok (t\<lparr>tx_outcomes := x\<rparr>) L = rev_rep B ok t L"
  "rev_rep B ok (t\<lparr>tx_pending := x\<rparr>) L = rev_rep B ok t L"
  "rev_rep B ok (put_event B e t) L = rev_rep B ok t L"
  "rev_rep B ok (put_sequence B n t) L = rev_rep B ok t L"
  "seq_rep B ok (t\<lparr>tx_commands := x\<rparr>) L = seq_rep B ok t L"
  "seq_rep B ok (t\<lparr>tx_revisions := x\<rparr>) L = seq_rep B ok t L"
  "seq_rep B ok (t\<lparr>tx_projections := y\<rparr>) L = seq_rep B ok t L"
  "seq_rep B ok (t\<lparr>tx_sources := x\<rparr>) L = seq_rep B ok t L"
  "seq_rep B ok (t\<lparr>tx_offsets := x\<rparr>) L = seq_rep B ok t L"
  "seq_rep B ok (t\<lparr>tx_outcomes := x\<rparr>) L = seq_rep B ok t L"
  "seq_rep B ok (t\<lparr>tx_pending := x\<rparr>) L = seq_rep B ok t L"
  "ev_rep B ok (put_revision B i n t) L = ev_rep B ok t L"
  "ev_rep B ok (put_sequence B n t) L = ev_rep B ok t L"
  by (simp_all add: ev_rep_def rev_rep_def seq_rep_def item_revision_def global_sequence_def
      put_event_def put_sequence_def put_revision_def)

text \<open>Two strictly sorted lists of entries with the same elements are equal.\<close>

lemma sorted_entries_unique:
  assumes "sorted_wrt (<) (List.map fst xs)" and "sorted_wrt (<) (List.map fst ys)" and "set xs = set ys"
  shows "xs = (ys :: (string \<times> 'v) list)"
proof (rule map_sorted_distinct_set_unique [of fst])
  show "inj_on fst (set xs \<union> set ys)"
    using assms(1,3) by (simp add: strict_sorted_iff distinct_map)
qed (use assms in \<open>simp_all add: strict_sorted_iff\<close>)

context bucket_store
begin

lemma put_last_entry:
  assumes "ok b" and "\<And>p. p \<in> set (b_entries B b) \<Longrightarrow> fst p < k"
  shows "b_entries B (b_put B k v b) = b_entries B b @ [(k, v)]"
proof (rule sorted_entries_unique)
  have "b_get B b k = None"
    using assms entries_get [OF assms(1)] by (metis fst_conv less_irrefl not_Some_eq)
  then show "set (b_entries B (b_put B k v b)) = set (b_entries B b @ [(k, v)])"
    using assms(1) by (auto simp: entries_get ok_put get_put split: if_split_asm)
  show "sorted_wrt (<) (List.map fst (b_entries B b @ [(k, v)]))"
    using assms entries_sorted [OF assms(1)] by (simp add: sorted_wrt_append)
qed (simp add: assms(1) ok_put entries_sorted)

end

text \<open>The bucket interface at the database's stored values.\<close>

locale event_store = bucket_store B ok
  for B :: "('b, stored) bolt" and ok :: "'b \<Rightarrow> bool"
begin

lemma ev_rep_put:
  assumes rep: "ev_rep B ok t L" and "Suc (length L) < 2 ^ 64"
    and seq: "de_sequence e = of_nat (Suc (length L))"
    and "de_item e \<noteq> [] \<Longrightarrow> de_revision e = of_nat (Suc (item_count L (de_item e)))"
  shows "ev_rep B ok (put_event B e t) (L @ [e])"
proof -
  have wf: "log_wf L" and okb: "ok (tx_events t)" "ok (tx_event_ids t)"
    and entries: "b_entries B (tx_events t) = List.map event_entry L"
    and ids: "\<And>k. b_get B (tx_event_ids t) k \<noteq> None \<longleftrightarrow> k \<in> de_id ` set L"
    using rep by (simp_all add: ev_rep_def)
  have "fst p < encode_uint64 (de_sequence e)" if "p \<in> set (b_entries B (tx_events t))" for p
  proof -
    have "p \<in> event_entry ` set L" using that entries by simp
    then obtain k where k: "k < length L" "p = event_entry (L ! k)"
      by (auto simp: in_set_conv_nth)
    then have "de_sequence (L ! k) = of_nat (Suc k)" using log_wf_sequence [OF wf] by simp
    then have "de_sequence (L ! k) < de_sequence e"
      unfolding seq using k assms(2) by (simp only: word_of_nat_less_iff64)
    then show ?thesis using k encode_uint64_less by (simp add: event_entry_def)
  qed
  from put_last_entry [OF okb(1) this]
  have "b_entries B (tx_events (put_event B e t)) = List.map event_entry (L @ [e])"
    by (simp add: put_event_def event_entry_def entries)
  moreover have "b_get B (tx_event_ids (put_event B e t)) k \<noteq> None \<longleftrightarrow> k \<in> de_id ` set (L @ [e])" for k
    using ids [of k] okb by (auto simp: put_event_def get_put)
  moreover have "log_wf (L @ [e])"
    using wf seq assms(4) by (rule log_wf_snoc)
  ultimately show ?thesis
    using okb assms(2) by (simp add: ev_rep_def put_event_def ok_put)
qed

lemma rev_rep_put:
  assumes "rev_rep B ok t L" and "i \<noteq> []" and "de_item e = i"
  shows "rev_rep B ok (put_revision B i (of_nat (Suc (item_count L i))) t) (L @ [e])"
  using assms
  by (auto simp: rev_rep_def item_revision_def put_revision_def get_u64_def get_put ok_put st_u64_def)

lemma rev_rep_other: "rev_rep B ok t L \<Longrightarrow> de_item e = [] \<Longrightarrow> rev_rep B ok t (L @ [e])"
  by (simp add: rev_rep_def)

lemma seq_rep_put: "seq_rep B ok t L \<Longrightarrow> seq_rep B ok (put_sequence B (of_nat (length L')) t) L'"
  by (simp add: seq_rep_def global_sequence_def put_sequence_def get_u64_def get_put ok_put st_u64_def)

lemma seq_rep_event [simp]: "seq_rep B ok (put_event B e t) L = seq_rep B ok t L"
  by (simp add: seq_rep_def global_sequence_def put_event_def)

lemma seq_rep_revision [simp]: "seq_rep B ok (put_revision B i n t) L = seq_rep B ok t L"
  by (simp add: seq_rep_def global_sequence_def put_revision_def)

end

lemma event_store_bucket: "bucket_store B ok \<Longrightarrow> event_store B ok"
  by (rule event_store.intro)

interpretation list_events: event_store "list_bolt :: ((string \<times> stored) list, stored) bolt" kv_ok
  by unfold_locales

end
