(* ===== verification/Database.thy ===== *)
theory Database
  imports EventLog Normalize GoPath Priority
begin

text \<open>
  The storage primitives of the coordinator (\<open>internal/coordinator/database.go\<close>,
  \<open>source_store.go\<close>, \<open>attention_activity.go\<close>): the idempotent \<open>Commit\<close>, imported manifests, source
  batches with their checkpoints, projections, attention markers and event listings. A transaction
  is a function of the state; one that fails returns only its error, since the store rolls it back.
  \<open>now\<close> is what \<open>time.Now\<close> returns.
\<close>

datatype coord_error =
    CommandRequired
  | CommandInvalid
  | Protocol int
  | ActorRefused
  | AlreadyUsed string
  | RevisionConflict "64 word" "64 word"
  | EventRequired
  | DuplicateEvent string
  | SequenceExhausted
  | ProjectionRequired
  | Undecodable
  | InvalidCheckpoint
  | IdentityMismatch
  | InvalidMarker string
  | InvalidItemId
  | NotFound
  | NotRegistered string
  | NameTaken string
  | Refused string
  | OfLabel label_error
  | OfBlocker blocker_error
  | OfManifest manifest_error
  | OfRepository repository_error
  | OfPriority priority_error

section \<open>Projections\<close>

record projection_update =
  pu_projection :: string
  pu_key :: string
  pu_value :: stored
  pu_delete :: bool

text \<open>\<open>CreateBucketIfNotExists\<close>, then one write.\<close>

definition projection_bucket :: "('b, stored) bolt \<Rightarrow> string \<Rightarrow> 'b tx_state \<Rightarrow> 'b" where
  "projection_bucket B name t = (case tx_projections t name of None \<Rightarrow> b_empty B | Some b \<Rightarrow> b)"

definition set_projection :: "string \<Rightarrow> 'b \<Rightarrow> 'b tx_state \<Rightarrow> 'b tx_state" where
  "set_projection name b t = t\<lparr>tx_projections := (tx_projections t)(name \<mapsto> b)\<rparr>"

definition put_projection :: "('b, stored) bolt \<Rightarrow> string \<Rightarrow> string \<Rightarrow> stored \<Rightarrow> 'b tx_state \<Rightarrow> 'b tx_state" where
  "put_projection B name key v t = set_projection name (b_put B key v (projection_bucket B name t)) t"

definition delete_projection :: "('b, stored) bolt \<Rightarrow> string \<Rightarrow> string \<Rightarrow> 'b tx_state \<Rightarrow> 'b tx_state" where
  "delete_projection B name key t = set_projection name (b_delete B key (projection_bucket B name t)) t"

definition get_projection :: "('b, stored) bolt \<Rightarrow> string \<Rightarrow> string \<Rightarrow> 'b tx_state \<Rightarrow> stored option" where
  "get_projection B name key t =
     (case tx_projections t name of None \<Rightarrow> None | Some b \<Rightarrow> b_get B b key)"

definition apply_update ::
  "('b, stored) bolt \<Rightarrow> projection_update \<Rightarrow> 'b tx_state \<Rightarrow> (coord_error, 'b tx_state) result" where
  "apply_update B u t =
     (if pu_projection u = [] \<or> pu_key u = [] then Inl ProjectionRequired
      else if pu_delete u then Inr (delete_projection B (pu_projection u) (pu_key u) t)
      else Inr (put_projection B (pu_projection u) (pu_key u) (pu_value u) t))"

fun apply_updates ::
  "('b, stored) bolt \<Rightarrow> projection_update list \<Rightarrow> 'b tx_state \<Rightarrow> (coord_error, 'b tx_state) result" where
  "apply_updates B [] t = Inr t"
| "apply_updates B (u # us) t = rbind (apply_update B u t) (apply_updates B us)"

definition update_projections ::
  "('b, stored) bolt \<Rightarrow> projection_update list \<Rightarrow> 'b database \<Rightarrow> (coord_error, 'b database) result" where
  "update_projections B us d = rbind (apply_updates B us (db_tx d)) (\<lambda>t. Inr (d\<lparr>db_tx := t\<rparr>))"

definition list_projection ::
  "('b, stored) bolt \<Rightarrow> string \<Rightarrow> 'b tx_state \<Rightarrow> (coord_error, (string \<times> stored) list) result" where
  "list_projection B name t =
     (if name = [] then Inl ProjectionRequired
      else (case tx_projections t name of None \<Rightarrow> Inr [] | Some b \<Rightarrow> Inr (b_entries B b)))"

definition read_projection ::
  "('b, stored) bolt \<Rightarrow> string \<Rightarrow> string \<Rightarrow> 'b tx_state \<Rightarrow> (coord_error, stored option) result" where
  "read_projection B name key t =
     (if name = [] \<or> key = [] then Inl ProjectionRequired else Inr (get_projection B name key t))"

section \<open>Commit\<close>

fun commit_loop ::
  "('b, stored) bolt \<Rightarrow> command \<Rightarrow> pending_event list
   \<Rightarrow> 64 word \<times> domain_event list \<times> 64 word \<times> 'b tx_state
   \<Rightarrow> (coord_error, 64 word \<times> domain_event list \<times> 64 word \<times> 'b tx_state) result" where
  "commit_loop B c [] st = Inr st"
| "commit_loop B c (p # ps) (sequence, events, result_revision, t) =
     (if pe_id p = [] \<or> pe_type p = [] then Inl EventRequired
      else if b_get B (tx_event_ids t) (pe_id p) \<noteq> None then Inl (DuplicateEvent (pe_id p))
      else (let sequence = sequence + 1;
                revision = (if pe_item p \<noteq> [] then item_revision B t (pe_item p) + 1 else 0);
                t = (if pe_item p \<noteq> [] then put_revision B (pe_item p) revision t else t);
                result_revision = (if pe_item p \<noteq> [] \<and> pe_item p = cm_item c then revision else result_revision);
                event = \<lparr>de_sequence = sequence, de_id = pe_id p, de_item = pe_item p, de_revision = revision,
                  de_type = pe_type p, de_time = pe_time p, de_actor = pe_actor p, de_causation = cm_id c,
                  de_payload = pe_payload p\<rparr>
            in commit_loop B c ps (sequence, events @ [event], result_revision, put_event B event t)))"

definition commit_tx ::
  "('b, stored) bolt \<Rightarrow> instant \<Rightarrow> command \<Rightarrow> pending_event list \<Rightarrow> projection_update list
   \<Rightarrow> 'b tx_state \<Rightarrow> (coord_error, commit_result \<times> 'b tx_state) result" where
  "commit_tx B now c ps us t =
     (case b_get B (tx_commands t) (cm_id c) of
        Some v \<Rightarrow> (case v of StCommit r \<Rightarrow> Inr (r\<lparr>cr_duplicate := True\<rparr>, t) | _ \<Rightarrow> Inl Undecodable)
      | None \<Rightarrow>
          (let current = item_revision B t (cm_item c)
           in if cm_expected c \<noteq> None \<and> cm_expected c \<noteq> Some current
              then Inl (RevisionConflict (the (cm_expected c)) current)
              else rbind (commit_loop B c ps (global_sequence B t, [], 0, t))
                (\<lambda>(sequence, events, revision, t).
                   rbind (apply_updates B us t) (\<lambda>t.
                     let result = \<lparr>cr_command = cm_id c, cr_events = events, cr_final_sequence = sequence,
                           cr_item_revision = revision, cr_committed_at = now, cr_duplicate = False\<rparr>;
                         t = put_sequence B sequence t
                     in Inr (result, t\<lparr>tx_commands := b_put B (cm_id c) (StCommit result) (tx_commands t)\<rparr>)))))"

definition commit ::
  "('b, stored) bolt \<Rightarrow> instant \<Rightarrow> command \<Rightarrow> pending_event list \<Rightarrow> projection_update list
   \<Rightarrow> 'b database \<Rightarrow> (coord_error, commit_result \<times> 'b database) result" where
  "commit B now c ps us d =
     (if cm_id c = [] \<or> cm_type c = [] then Inl CommandRequired
      else rbind (commit_tx B now c ps us (db_tx d)) (\<lambda>(r, t).
        let changes = (if \<not> cr_duplicate r \<and> (cr_events r \<noteq> [] \<or> us \<noteq> [])
              then record_changes (event_items (cm_item c # List.map de_item (cr_events r))) (db_changes d)
              else db_changes d)
        in Inr (r, \<lparr>db_tx = t, db_changes = changes\<rparr>)))"

section \<open>Reading events\<close>

definition event_exists :: "('b, stored) bolt \<Rightarrow> string \<Rightarrow> 'b tx_state \<Rightarrow> bool" where
  "event_exists B i t \<longleftrightarrow> i \<noteq> [] \<and> b_get B (tx_event_ids t) i \<noteq> None"

definition stored_events :: "('b, stored) bolt \<Rightarrow> 'b tx_state \<Rightarrow> (coord_error, domain_event list) result" where
  "stored_events B t = (case those (List.map (\<lambda>p. as_event (snd p)) (b_entries B (tx_events t))) of
     None \<Rightarrow> Inl Undecodable | Some es \<Rightarrow> Inr es)"

definition list_item_events ::
  "('b, stored) bolt \<Rightarrow> string \<Rightarrow> 'b tx_state \<Rightarrow> (coord_error, domain_event list) result" where
  "list_item_events B i t =
     (if \<not> valid_id i then Inl InvalidItemId
      else rbind (stored_events B t) (\<lambda>es. Inr (filter (\<lambda>e. de_item e = i) es)))"

text \<open>\<open>appendDomainEventTx\<close>.\<close>

definition append_domain_event ::
  "('b, stored) bolt \<Rightarrow> domain_event \<Rightarrow> 'b tx_state \<Rightarrow> (coord_error, 64 word \<times> 'b tx_state) result" where
  "append_domain_event B e t =
     (let sequence = global_sequence B t
      in if sequence = - 1 then Inl SequenceExhausted
         else (let sequence = sequence + 1; e = e\<lparr>de_sequence := sequence\<rparr>
           in if b_get B (tx_event_ids t) (de_id e) \<noteq> None then Inl (DuplicateEvent (de_id e))
              else Inr (sequence, put_sequence B sequence (put_event B e t))))"

section \<open>Committing refines appending to the log\<close>

definition pending_event_of :: "command \<Rightarrow> pending_event \<Rightarrow> domain_event" where
  "pending_event_of c p = \<lparr>de_sequence = 0, de_id = pe_id p, de_item = pe_item p, de_revision = 0,
     de_type = pe_type p, de_time = pe_time p, de_actor = pe_actor p, de_causation = cm_id c,
     de_payload = pe_payload p\<rparr>"

definition log_appends :: "domain_event list \<Rightarrow> domain_event list \<Rightarrow> domain_event list" where
  "log_appends es L = fold log_append es L"

lemma log_appends_simps [simp]:
  "log_appends [] L = L"
  "log_appends (e # es) L = log_appends es (log_append e L)"
  by (simp_all add: log_appends_def)

lemma log_appends_append: "log_appends (es @ fs) L = log_appends fs (log_appends es L)"
  by (simp add: log_appends_def)

lemma log_append_length [simp]: "length (log_append e L) = Suc (length L)"
  by (simp add: log_append_def)

lemma log_appends_length [simp]: "length (log_appends es L) = length L + length es"
  by (induction es arbitrary: L) auto

lemma log_appends_prefix: "\<exists>es'. log_appends es L = L @ es' \<and> length es' = length es \<and> List.map de_id es' = List.map de_id es
    \<and> List.map de_item es' = List.map de_item es \<and> List.map de_type es' = List.map de_type es"
proof (induction es arbitrary: L)
  case (Cons e es)
  obtain es' where "log_appends es (log_append e L) = log_append e L @ es'" "length es' = length es"
    "List.map de_id es' = List.map de_id es" "List.map de_item es' = List.map de_item es"
    "List.map de_type es' = List.map de_type es"
    using Cons by blast
  then show ?case
    by (intro exI [of _ "stamp L e # es'"]) (simp add: log_append_def stamp_def)
qed simp

lemma log_wf_appends: "log_wf L \<Longrightarrow> log_wf (log_appends es L)"
  by (induction es arbitrary: L) (simp_all add: log_wf_append)

definition same_others :: "'b tx_state \<Rightarrow> 'b tx_state \<Rightarrow> bool" where
  "same_others t t' \<longleftrightarrow> tx_meta t' = tx_meta t \<and> tx_commands t' = tx_commands t \<and> tx_projections t' = tx_projections t
     \<and> tx_sources t' = tx_sources t \<and> tx_offsets t' = tx_offsets t \<and> tx_outcomes t' = tx_outcomes t
     \<and> tx_pending t' = tx_pending t"

lemma same_others_refl [simp]: "same_others t t"
  by (simp add: same_others_def)

lemma same_others_put [simp]:
  "same_others t (put_event B e t') = same_others t t'"
  "same_others t (put_revision B i n t') = same_others t t'"
  "same_others (put_event B e t) t' = same_others t t'"
  "same_others (put_revision B i n t) t' = same_others t t'"
  by (simp_all add: same_others_def put_event_def put_revision_def)

context event_store
begin

text \<open>One event of a commit.\<close>

lemma put_stamped:
  assumes "ev_rep B ok t L" and "rev_rep B ok t L" and "Suc (length L) < 2 ^ 64" and "de_item e = i"
    and "de_item e = [] \<Longrightarrow> t' = t" and "de_item e \<noteq> [] \<Longrightarrow> t' = put_revision B i (item_revision B t i + 1) t"
    and "e' = e\<lparr>de_sequence := of_nat (length L) + 1, de_revision := (if i = [] then de_revision e else item_revision B t i + 1)\<rparr>"
  shows "ev_rep B ok (put_event B e' t') (log_append e L) \<and> rev_rep B ok (put_event B e' t') (log_append e L)
    \<and> e' = stamp L e"
proof -
  have rev: "i \<noteq> [] \<Longrightarrow> item_revision B t i + 1 = of_nat (Suc (item_count L i))"
    using assms(2) by (simp add: rev_rep_def)
  have e': "e' = stamp L e"
    using assms(4,7) rev by (cases "i = []") (simp_all add: stamp_def)
  have ev': "ev_rep B ok t' L"
    using assms(1,5,6) by (cases "de_item e = []") simp_all
  have "ev_rep B ok (put_event B (stamp L e) t') (L @ [stamp L e])"
    by (rule ev_rep_put [OF ev' assms(3)]) (simp_all add: stamp_def)
  moreover have "rev_rep B ok t' (L @ [stamp L e])"
  proof (cases "de_item e = []")
    case True
    then show ?thesis
      using assms(2,5) by (simp add: stamp_def rev_rep_other)
  next
    case False
    then have "t' = put_revision B i (of_nat (Suc (item_count L i))) t"
      using assms(4,6) rev by simp
    then show ?thesis
      using rev_rep_put [OF assms(2), of i "stamp L e"] False assms(4) by (simp add: stamp_def)
  qed
  ultimately show ?thesis by (simp add: e' log_append_def)
qed

lemma commit_loop_refines:
  assumes "commit_loop B c ps (of_nat (length L), evs, rr, t) = Inr (n, evs', rr', t')"
    and "ev_rep B ok t L" and "rev_rep B ok t L" and "length L + length ps < 2 ^ 64"
  shows "let L' = log_appends (List.map (pending_event_of c) ps) L in
      ev_rep B ok t' L' \<and> rev_rep B ok t' L' \<and> n = of_nat (length L') \<and> L @ drop (length evs) evs' = L'
      \<and> take (length evs) evs' = evs \<and> same_others t t'
      \<and> (distinct (List.map de_id L) \<longrightarrow> distinct (List.map de_id L'))"
  using assms
proof (induction ps arbitrary: L evs rr t)
  case Nil
  then show ?case by simp
next
  case (Cons p ps)
  define i where "i = pe_item p"
  define t1 where "t1 = (if i \<noteq> [] then put_revision B i (item_revision B t i + 1) t else t)"
  define e where "e = pending_event_of c p"
  define e' where "e' = e\<lparr>de_sequence := of_nat (length L) + 1, de_revision := (if i = [] then de_revision e else item_revision B t i + 1)\<rparr>"
  have fresh: "b_get B (tx_event_ids t) (pe_id p) = None"
    and step: "\<exists>rr2. commit_loop B c ps (of_nat (length L) + 1, evs @ [e'], rr2, put_event B e' t1) = Inr (n, evs', rr', t')"
    using Cons.prems(1)
    by (auto simp: Let_def i_def t1_def e_def e'_def pending_event_of_def split: if_split_asm)
  have "ev_rep B ok (put_event B e' t1) (log_append e L) \<and> rev_rep B ok (put_event B e' t1) (log_append e L) \<and> e' = stamp L e"
    by (rule put_stamped [OF Cons.prems(2,3), where i = i])
      (use Cons.prems(4) in \<open>auto simp: t1_def e_def e'_def pending_event_of_def i_def\<close>)
  then have rep: "ev_rep B ok (put_event B e' t1) (log_append e L)"
    "rev_rep B ok (put_event B e' t1) (log_append e L)" and e': "e' = stamp L e" by blast+
  have len: "of_nat (length L) + 1 = (of_nat (length (log_append e L)) :: 64 word)"
    by (simp add: log_append_def)
  obtain rr2 where
    "commit_loop B c ps (of_nat (length (log_append e L)), evs @ [e'], rr2, put_event B e' t1) = Inr (n, evs', rr', t')"
    using step len by auto
  note IH = Cons.IH [OF this rep, unfolded Let_def]
  have new: "pe_id p \<notin> de_id ` set L"
    using Cons.prems(2) fresh unfolding ev_rep_def by blast
  have "distinct (List.map de_id (log_append e L))" if "distinct (List.map de_id L)"
    using that new by (simp add: log_append_def stamp_def e_def pending_event_of_def)
  moreover have "same_others t t'"
    using IH Cons.prems(4) by (simp add: t1_def split: if_split_asm)
  moreover have "take (length evs) evs' = evs" "L @ drop (length evs) evs' = log_append e L @ drop (Suc (length evs)) evs'"
  proof -
    have tk: "take (Suc (length evs)) evs' = evs @ [e']" using IH Cons.prems(4) by simp
    then show "take (length evs) evs' = evs"
      by (metis append_eq_conv_conj lessI min.absorb1 less_imp_le take_take)
    have "evs' = evs @ e' # drop (Suc (length evs)) evs'"
      using tk by (metis append.assoc append_Cons append_Nil append_take_drop_id)
    then show "L @ drop (length evs) evs' = log_append e L @ drop (Suc (length evs)) evs'"
      by (metis append.assoc append_Cons append_Nil append_eq_conv_conj e' log_append_def)
  qed
  ultimately show ?case
    using IH Cons.prems(4) by (simp add: Let_def e_def [symmetric])
qed

end

section \<open>Well-formed buckets\<close>

definition tx_ok :: "('b \<Rightarrow> bool) \<Rightarrow> 'b tx_state \<Rightarrow> bool" where
  "tx_ok ok t \<longleftrightarrow> ok (tx_meta t) \<and> ok (tx_commands t) \<and> ok (tx_events t) \<and> ok (tx_event_ids t)
     \<and> ok (tx_revisions t) \<and> ok (tx_sources t) \<and> ok (tx_offsets t) \<and> ok (tx_outcomes t) \<and> ok (tx_pending t)
     \<and> (\<forall>name b. tx_projections t name = Some b \<longrightarrow> ok b)"

lemma apply_updates_frame:
  "apply_updates B us t = Inr t' \<Longrightarrow> t' = t\<lparr>tx_projections := tx_projections t'\<rparr>"
proof (induction us arbitrary: t)
  case (Cons u us)
  then obtain t1 where "apply_update B u t = Inr t1" "apply_updates B us t1 = Inr t'"
    by (auto simp: rbind_Inr_iff)
  moreover from this(1) have "t1 = t\<lparr>tx_projections := tx_projections t1\<rparr>"
    by (auto simp: apply_update_def put_projection_def delete_projection_def set_projection_def split: if_split_asm)
  ultimately show ?case using Cons.IH [of t1] by (metis tx_state.surjective tx_state.update_convs(6))
qed simp

lemma rep_projections:
  assumes "t' = t\<lparr>tx_projections := tx_projections t'\<rparr>"
  shows "ev_rep B ok t' L = ev_rep B ok t L" "rev_rep B ok t' L = rev_rep B ok t L"
    "seq_rep B ok t' L = seq_rep B ok t L" "log_rep B ok t' L = log_rep B ok t L"
  by (subst assms, simp add: log_rep_def)+

context event_store
begin

lemma tx_ok_put [simp]:
  "tx_ok ok t \<Longrightarrow> tx_ok ok (put_event B e t)"
  "tx_ok ok t \<Longrightarrow> tx_ok ok (put_revision B i n t)"
  "tx_ok ok t \<Longrightarrow> tx_ok ok (put_sequence B n t)"
  "tx_ok ok t \<Longrightarrow> tx_ok ok (put_projection B name key v t)"
  "tx_ok ok t \<Longrightarrow> tx_ok ok (delete_projection B name key t)"
  "tx_ok ok t \<Longrightarrow> tx_ok ok (t\<lparr>tx_commands := b_put B k v (tx_commands t)\<rparr>)"
  "tx_ok ok t \<Longrightarrow> tx_ok ok (t\<lparr>tx_outcomes := b_put B k v (tx_outcomes t)\<rparr>)"
  "tx_ok ok t \<Longrightarrow> tx_ok ok (t\<lparr>tx_sources := b_put B k v (tx_sources t)\<rparr>)"
  "tx_ok ok t \<Longrightarrow> tx_ok ok (t\<lparr>tx_sources := b_delete B k (tx_sources t)\<rparr>)"
  "tx_ok ok t \<Longrightarrow> tx_ok ok (t\<lparr>tx_offsets := b_put B k v (tx_offsets t)\<rparr>)"
  "tx_ok ok t \<Longrightarrow> tx_ok ok (t\<lparr>tx_pending := b_put B k v (tx_pending t)\<rparr>)"
  "tx_ok ok t \<Longrightarrow> tx_ok ok (t\<lparr>tx_pending := b_delete B k (tx_pending t)\<rparr>)"
  by (auto simp: tx_ok_def put_event_def put_revision_def put_sequence_def put_projection_def
      delete_projection_def set_projection_def projection_bucket_def ok_put ok_delete ok_empty split: option.splits)

lemma tx_ok_apply_updates: "apply_updates B us t = Inr t' \<Longrightarrow> tx_ok ok t \<Longrightarrow> tx_ok ok t'"
proof (induction us arbitrary: t)
  case (Cons u us)
  then obtain t1 where "apply_update B u t = Inr t1" "apply_updates B us t1 = Inr t'"
    by (auto simp: rbind_Inr_iff)
  moreover from this(1) have "tx_ok ok t1"
    using Cons.prems(2) by (auto simp: apply_update_def split: if_split_asm)
  ultimately show ?case using Cons.IH by blast
qed simp

lemma tx_ok_commit_loop:
  "commit_loop B c ps (m, evs0, rr0, t) = Inr (n, evs, rr, t') \<Longrightarrow> tx_ok ok t \<Longrightarrow> tx_ok ok t'"
proof (induction ps arbitrary: m evs0 rr0 t)
  case (Cons p ps)
  from Cons.prems show ?case
    by (auto simp: Let_def split: if_split_asm elim!: Cons.IH)
qed simp

lemma get_put_projection [simp]:
  assumes "tx_ok ok t"
  shows "get_projection B name' key' (put_projection B name key v t) =
    (if name' = name \<and> key' = key then Some v else get_projection B name' key' t)"
  using assms
  by (auto simp: get_projection_def put_projection_def set_projection_def projection_bucket_def tx_ok_def
      get_put get_empty ok_empty split: option.splits)

lemma get_delete_projection [simp]:
  assumes "tx_ok ok t"
  shows "get_projection B name' key' (delete_projection B name key t) =
    (if name' = name \<and> key' = key then None else get_projection B name' key' t)"
  using assms
  by (auto simp: get_projection_def delete_projection_def set_projection_def projection_bucket_def tx_ok_def
      get_delete get_empty ok_empty split: option.splits)

lemma commit_tx_fresh:
  assumes "commit_tx B now c ps us t = Inr (r, t')" and "b_get B (tx_commands t) (cm_id c) = None"
  obtains n evs rr t1 t2 where "commit_loop B c ps (global_sequence B t, [], 0, t) = Inr (n, evs, rr, t1)"
    and "apply_updates B us t1 = Inr t2"
    and "r = \<lparr>cr_command = cm_id c, cr_events = evs, cr_final_sequence = n, cr_item_revision = rr,
           cr_committed_at = now, cr_duplicate = False\<rparr>"
    and "t' = (put_sequence B n t2)\<lparr>tx_commands := b_put B (cm_id c) (StCommit r) (tx_commands (put_sequence B n t2))\<rparr>"
    and "cm_expected c = None \<or> cm_expected c = Some (item_revision B t (cm_item c))"
  using assms by (auto simp: commit_tx_def Let_def rbind_Inr_iff split: if_split_asm)

lemma commit_tx_old:
  assumes "commit_tx B now c ps us t = Inr (r, t')" and "b_get B (tx_commands t) (cm_id c) \<noteq> None"
  shows "t' = t \<and> cr_duplicate r"
  using assms by (auto simp: commit_tx_def split: stored.splits)

lemma commit_tx_refines:
  assumes "commit_tx B now c ps us t = Inr (r, t')" and "log_rep B ok t L" and "length L + length ps < 2 ^ 64"
    and "b_get B (tx_commands t) (cm_id c) = None"
  shows "\<not> cr_duplicate r \<and> log_rep B ok t' (L @ cr_events r)
    \<and> L @ cr_events r = log_appends (List.map (pending_event_of c) ps) L
    \<and> (distinct (List.map de_id L) \<longrightarrow> distinct (List.map de_id (L @ cr_events r)))"
proof -
  obtain n evs rr t1 t2 where c: "commit_loop B c ps (global_sequence B t, [], 0, t) = Inr (n, evs, rr, t1)"
    and u: "apply_updates B us t1 = Inr t2"
    and r: "r = \<lparr>cr_command = cm_id c, cr_events = evs, cr_final_sequence = n, cr_item_revision = rr,
           cr_committed_at = now, cr_duplicate = False\<rparr>"
    and t': "t' = (put_sequence B n t2)\<lparr>tx_commands := b_put B (cm_id c) (StCommit r) (tx_commands (put_sequence B n t2))\<rparr>"
    using commit_tx_fresh [OF assms(1,4)] by metis
  have rep: "ev_rep B ok t L" "rev_rep B ok t L" "seq_rep B ok t L"
    using assms(2) by (simp_all add: log_rep_def)
  have "global_sequence B t = of_nat (length L)" using rep(3) by (simp add: seq_rep_def)
  then have c': "commit_loop B c ps (of_nat (length L), [], 0, t) = Inr (n, evs, rr, t1)" using c by simp
  let ?L' = "log_appends (List.map (pending_event_of c) ps) L"
  have *: "ev_rep B ok t1 ?L'" "rev_rep B ok t1 ?L'" "n = of_nat (length ?L')" "L @ evs = ?L'" "same_others t t1"
    "distinct (List.map de_id L) \<longrightarrow> distinct (List.map de_id ?L')"
    using commit_loop_refines [OF c' rep(1,2) assms(3)] by (simp_all add: Let_def)
  have "seq_rep B ok t1 L" using rep(3) *(5) by (simp add: seq_rep_def global_sequence_def same_others_def)
  then have "seq_rep B ok (put_sequence B n t2) ?L'"
    unfolding *(3) using rep_projections(3) [OF apply_updates_frame [OF u]] seq_rep_put by blast
  moreover have "ev_rep B ok t2 ?L'" "rev_rep B ok t2 ?L'"
    using * rep_projections [OF apply_updates_frame [OF u]] by simp_all
  ultimately have "log_rep B ok t' ?L'" by (simp add: t' log_rep_def)
  then show ?thesis using * r by simp
qed

end

section \<open>A fresh database\<close>

text \<open>What \<open>initialize\<close> leaves of an empty file: every bucket, the manifest projection, the schema version.\<close>

definition schema_version :: "64 word" where
  "schema_version = 8"

definition new_tx :: "('b, stored) bolt \<Rightarrow> 'b tx_state" where
  "new_tx B = \<lparr>tx_meta = b_put B key_schema_version (st_u64 schema_version) (b_empty B), tx_commands = b_empty B,
     tx_events = b_empty B, tx_event_ids = b_empty B, tx_revisions = b_empty B,
     tx_projections = [manifest_projection \<mapsto> b_empty B], tx_sources = b_empty B, tx_offsets = b_empty B,
     tx_outcomes = b_empty B, tx_pending = b_empty B\<rparr>"

context event_store
begin

lemma entries_empty [simp]: "b_entries B (b_empty B) = []"
  using entries_get [OF ok_empty] get_empty by (metis list.set_intros(1) neq_Nil_conv not_None_eq option.distinct(1) surj_pair)

lemma new_tx_rep: "log_rep B ok (new_tx B) [] \<and> tx_ok ok (new_tx B)"
  by (auto simp: log_rep_def ev_rep_def rev_rep_def seq_rep_def new_tx_def tx_ok_def ok_empty ok_put get_empty get_put
      item_revision_def global_sequence_def get_u64_def)

end

section \<open>Properties\<close>

text \<open>C1: \<open>Commit\<close> refines appending to the log: when a new command commits, the database represents the old log
  followed by its events, in order, each with the next global sequence and its item's next revision,
  and event identities stay unique.\<close>

theorem commit_refines_log:
  assumes "bucket_store B ok" and "log_rep B ok (db_tx d) L" and "length L + length ps < 2 ^ 64"
    and "commit B now c ps us d = Inr (r, d')" and "b_get B (tx_commands (db_tx d)) (cm_id c) = None"
  shows "log_rep B ok (db_tx d') (L @ cr_events r)
    \<and> L @ cr_events r = log_appends (List.map (pending_event_of c) ps) L
    \<and> (distinct (List.map de_id L) \<longrightarrow> distinct (List.map de_id (L @ cr_events r)))"
proof -
  have "commit_tx B now c ps us (db_tx d) = Inr (r, db_tx d')"
    using assms(4) by (auto simp: commit_def rbind_Inr_iff split: if_split_asm)
  from event_store.commit_tx_refines [OF event_store_bucket [OF assms(1)] this assms(2,3,5)]
  show ?thesis by blast
qed

text \<open>A committed command is recorded with its result.\<close>

lemma commit_recorded:
  assumes "bucket_store B ok" and "tx_ok ok (db_tx d)" and "commit B now c ps us d = Inr (r, d')"
  shows "cm_id c \<noteq> [] \<and> (\<exists>r0. b_get B (tx_commands (db_tx d')) (cm_id c) = Some (StCommit r0)
    \<and> r0\<lparr>cr_duplicate := True\<rparr> = r\<lparr>cr_duplicate := True\<rparr>)"
proof -
  note es = event_store_bucket [OF assms(1)]
  have tx: "commit_tx B now c ps us (db_tx d) = Inr (r, db_tx d')" and id: "cm_id c \<noteq> []"
    using assms(3) by (auto simp: commit_def rbind_Inr_iff split: if_split_asm)
  show ?thesis
  proof (cases "b_get B (tx_commands (db_tx d)) (cm_id c)")
    case None
    from event_store.commit_tx_fresh [OF es tx None] obtain n evs rr t1 t2 where
      loop: "commit_loop B c ps (global_sequence B (db_tx d), [], 0, db_tx d) = Inr (n, evs, rr, t1)"
      and u: "apply_updates B us t1 = Inr t2"
      and t': "db_tx d' = (put_sequence B n t2)\<lparr>tx_commands := b_put B (cm_id c) (StCommit r) (tx_commands (put_sequence B n t2))\<rparr>"
      by metis
    have "tx_ok ok (put_sequence B n t2)"
      using event_store.tx_ok_commit_loop [OF es loop assms(2)] event_store.tx_ok_apply_updates [OF es u]
        event_store.tx_ok_put(3) [OF es] by blast
    then have "b_get B (tx_commands (db_tx d')) (cm_id c) = Some (StCommit r)"
      unfolding t' using bucket_store.get_put [OF assms(1)] by (simp add: tx_ok_def)
    then show ?thesis using id by simp
  next
    case (Some v)
    then show ?thesis using tx id by (auto simp: commit_tx_def split: stored.splits)
  qed
qed

text \<open>Retrying a committed command returns its recorded outcome, marked as a duplicate, and changes
  neither the database nor the change log, whatever events and updates the retry carries.\<close>

theorem commit_idempotent:
  assumes "bucket_store B ok" and "tx_ok ok (db_tx d)" and "commit B now c ps us d = Inr (r, d')"
    and "cm_id c' = cm_id c" and "cm_type c' \<noteq> []"
  shows "commit B now' c' ps' us' d' = Inr (r\<lparr>cr_duplicate := True\<rparr>, d')"
  using commit_recorded [OF assms(1-3)] assms(4,5) by (auto simp: commit_def commit_tx_def)

text \<open>Optimistic concurrency. Of two different commands that expect the same revision of an item, at most
  one commits when the first records an event of that item: the second is refused with the revision
  conflict and its current revision.\<close>

theorem commit_concurrent_refused:
  assumes "bucket_store B ok" and "log_rep B ok (db_tx d) L" and "length L + length ps < 2 ^ 64"
    and "commit B now c ps us d = Inr (r, d')" and "b_get B (tx_commands (db_tx d)) (cm_id c) = None"
    and "cm_expected c = Some e" and "\<exists>p\<in>set ps. pe_item p = cm_item c" and "cm_item c \<noteq> []"
    and "cm_expected c' = Some e" and "cm_item c' = cm_item c"
    and "b_get B (tx_commands (db_tx d')) (cm_id c') = None" and "cm_id c' \<noteq> []" and "cm_type c' \<noteq> []"
  shows "\<exists>current. commit B now' c' ps' us' d' = Inl (RevisionConflict e current) \<and> e \<noteq> current"
proof -
  note es = event_store_bucket [OF assms(1)]
  let ?i = "cm_item c" and ?L' = "L @ cr_events r"
  have tx: "commit_tx B now c ps us (db_tx d) = Inr (r, db_tx d')"
    using assms(4) by (auto simp: commit_def rbind_Inr_iff split: if_split_asm)
  from event_store.commit_tx_fresh [OF es tx assms(5)]
  have e: "e = item_revision B (db_tx d) ?i" using assms(6) by (metis option.distinct(1) option.inject)
  have rep: "log_rep B ok (db_tx d') ?L'" and app: "?L' = log_appends (List.map (pending_event_of c) ps) L"
    using event_store.commit_tx_refines [OF es tx assms(2,3,5)] by blast+
  obtain es' where es': "?L' = L @ es'" "List.map de_item es' = List.map pe_item ps" "length es' = length ps"
    using log_appends_prefix [of "List.map (pending_event_of c) ps" L] app
    by (auto simp: pending_event_of_def comp_def)
  have "?i \<in> set (List.map de_item es')" unfolding es'(2) using assms(7) by force
  then have pos: "0 < item_count es' ?i"
    by (auto simp: item_count_def filter_empty_conv)
  have cnt: "item_count ?L' ?i = item_count L ?i + item_count es' ?i"
    by (simp add: es'(1) item_count_def)
  have bound: "item_count ?L' ?i < 2 ^ 64"
    using item_count_le [of ?L' ?i] assms(3) es' by simp
  have "item_revision B (db_tx d') ?i = of_nat (item_count ?L' ?i)" and e': "e = of_nat (item_count L ?i)"
    using rep assms(2,8) e by (simp_all add: log_rep_def rev_rep_def)
  moreover have "(of_nat (item_count L ?i) :: 64 word) < of_nat (item_count ?L' ?i)"
    using bound pos cnt by (subst word_of_nat_less_iff64) simp_all
  ultimately have "e \<noteq> item_revision B (db_tx d') ?i" by auto
  then show ?thesis
    using assms(9-13) by (simp add: commit_def commit_tx_def Let_def)
qed

lemma those_Some: "those (List.map Some xs) = Some xs"
  by (induction xs) auto

lemma log_wf_sorted:
  assumes "log_wf L" and "length L < 2 ^ 64"
  shows "sorted_wrt (<) (List.map de_sequence L)"
proof -
  have "sorted_wrt (\<lambda>a b. (of_nat a :: 64 word) < of_nat b) [1..<Suc (length L)]"
    by (rule sorted_wrt_mono_rel [OF _ sorted_wrt_upt]) (use assms(2) in \<open>auto simp: word_of_nat_less_iff64\<close>)
  then show ?thesis using assms(1) by (simp add: log_wf_def sorted_wrt_map del: upt_Suc)
qed

text \<open>The events of an item are listed in commit order, and their revisions are 1, 2, ... without a gap.\<close>

theorem list_item_events_refines:
  assumes "bucket_store B ok" and "log_rep B ok t L" and "valid_id i"
  shows "\<exists>es. list_item_events B i t = Inr es \<and> es = filter (\<lambda>e. de_item e = i) L
    \<and> List.map de_revision es = List.map of_nat [1..<Suc (length es)] \<and> sorted_wrt (<) (List.map de_sequence es)"
proof -
  let ?es = "filter (\<lambda>e. de_item e = i) L"
  have wf: "log_wf L" and entries: "b_entries B (tx_events t) = List.map event_entry L" and len: "length L < 2 ^ 64"
    using assms(2) by (simp_all add: log_rep_def ev_rep_def)
  have "stored_events B t = Inr L"
    by (simp add: stored_events_def entries comp_def event_entry_def those_Some)
  then have "list_item_events B i t = Inr ?es"
    using assms(3) by (simp add: list_item_events_def)
  moreover have "i \<noteq> []" using assms(3) by (auto simp: valid_id_def)
  then have "List.map de_revision ?es = List.map of_nat [1..<Suc (length ?es)]"
    using wf by (simp add: log_wf_def item_count_def)
  moreover have "sorted_wrt (<) (List.map de_sequence ?es)"
    using log_wf_sorted [OF wf len] by (simp add: sorted_wrt_map sorted_wrt_filter)
  ultimately show ?thesis by blast
qed

section \<open>Concrete runs\<close>

abbreviation list_db :: "(string \<times> stored) list database" where
  "list_db \<equiv> \<lparr>db_tx = new_tx list_bolt, db_changes = new_change_log ''k''\<rparr>"

definition sample_command :: "string \<Rightarrow> 64 word option \<Rightarrow> command" where
  "sample_command i expected = \<lparr>cm_id = i, cm_protocol = 3, cm_type = ''note'', cm_actor = ''user'', cm_item = ''x'',
     cm_expected = expected, cm_payload = JNull, cm_received_at = 5\<rparr>"

definition sample_pending :: pending_event where
  "sample_pending = \<lparr>pe_id = ''e1'', pe_item = ''x'', pe_type = ''note.added'', pe_time = 5, pe_actor = ''user'',
     pe_payload = JNull\<rparr>"

definition sample_event :: domain_event where
  "sample_event = \<lparr>de_sequence = 1, de_id = ''e1'', de_item = ''x'', de_revision = 1, de_type = ''note.added'',
     de_time = 5, de_actor = ''user'', de_causation = ''c1'', de_payload = JNull\<rparr>"

definition sample_result :: commit_result where
  "sample_result = \<lparr>cr_command = ''c1'', cr_events = [sample_event], cr_final_sequence = 1, cr_item_revision = 1,
     cr_committed_at = 9, cr_duplicate = False\<rparr>"

definition sample_committed :: "(string \<times> stored) list database" where
  "sample_committed = \<lparr>db_tx =
      (let t = put_sequence list_bolt 1 (put_event list_bolt sample_event (put_revision list_bolt ''x'' 1 (new_tx list_bolt)))
       in t\<lparr>tx_commands := kv_put ''c1'' (StCommit sample_result) (tx_commands t)\<rparr>),
     db_changes = record_changes [''x''] (new_change_log ''k'')\<rparr>"

lemma new_tx_list [simp]:
  "item_revision list_bolt (new_tx list_bolt) i = 0"
  "global_sequence list_bolt (new_tx list_bolt) = 0"
  "tx_commands (new_tx list_bolt) = []"
  "tx_event_ids (new_tx list_bolt) = []"
  "kv_get [] k = None"
  by (simp_all add: item_revision_def global_sequence_def new_tx_def get_u64_def kv_get_def)

lemma sample_commit:
  "commit list_bolt 9 (sample_command ''c1'' (Some 0)) [sample_pending] [] list_db = Inr (sample_result, sample_committed)"
  by (simp add: commit_def commit_tx_def sample_command_def sample_pending_def sample_result_def sample_event_def
      sample_committed_def Let_def event_items_def)

lemma sample_rep: "log_rep list_bolt kv_ok (db_tx list_db) [] \<and> tx_ok kv_ok (db_tx list_db)"
  using list_events.new_tx_rep by simp

theorem commit_refines_log_witness: "log_rep list_bolt kv_ok (db_tx sample_committed) [sample_event]"
  using commit_refines_log [OF list_store.bucket_store_axioms sample_rep [THEN conjunct1] _ sample_commit, THEN conjunct1]
  by (simp add: sample_command_def sample_result_def)

theorem commit_idempotent_witness:
  "commit list_bolt 11 (sample_command ''c1'' None) [] [] sample_committed
   = Inr (sample_result\<lparr>cr_duplicate := True\<rparr>, sample_committed)"
  by (rule commit_idempotent [OF list_store.bucket_store_axioms sample_rep [THEN conjunct2] sample_commit])
    (simp_all add: sample_command_def)

theorem commit_concurrent_refused_witness:
  "\<exists>current. commit list_bolt 11 (sample_command ''c2'' (Some 0)) [] [] sample_committed = Inl (RevisionConflict 0 current)
     \<and> 0 \<noteq> current"
  by (rule commit_concurrent_refused [OF list_store.bucket_store_axioms sample_rep [THEN conjunct1] _ sample_commit])
    (simp_all add: sample_command_def sample_pending_def sample_committed_def Let_def put_sequence_def put_event_def
      put_revision_def kv_get_def)

theorem list_item_events_refines_witness:
  "\<exists>es. list_item_events list_bolt ''01HF7YAT0060RK4CSM6MV3EE1S'' (db_tx list_db) = Inr es \<and> es = []"
  using list_item_events_refines [OF list_store.bucket_store_axioms sample_rep [THEN conjunct1],
      of "''01HF7YAT0060RK4CSM6MV3EE1S''"]
  by (simp add: valid_id_def id_char_def)

end
