(* ===== verification/Sources.thy ===== *)
theory Sources
  imports Database
begin

text \<open>
  Native sources and attention (\<open>internal/coordinator/attention_activity.go\<close>, \<open>source_store.go\<close>, the
  manifest import of \<open>database.go\<close>, \<open>laterTime\<close> of \<open>external_observer.go\<close>): monotonic attention
  markers, batches imported from a native source with their checkpoint, and the manifest seed.
\<close>

section \<open>Attention markers\<close>

definition later_time :: "instant option \<Rightarrow> instant option \<Rightarrow> instant option" where
  "later_time left right = (case left of None \<Rightarrow> right
     | Some l \<Rightarrow> (case right of None \<Rightarrow> left | Some r \<Rightarrow> if \<not> l < r then left else right))"

definition empty_attention :: "string \<Rightarrow> attention_activity" where
  "empty_attention i = \<lparr>aa_item = i, aa_requested_at = None, aa_completed_at = None, aa_deferred_at = None,
     aa_read_at = None, aa_unread_at = None, aa_observed_at = zero_time, aa_source = []\<rparr>"

definition read_attention ::
  "('b, stored) bolt \<Rightarrow> string \<Rightarrow> 'b tx_state \<Rightarrow> (coord_error, attention_activity \<times> bool) result" where
  "read_attention B i t = (case get_projection B attention_projection i t of
     None \<Rightarrow> Inr (empty_attention i, False)
   | Some v \<Rightarrow> (case as_attention v of
       None \<Rightarrow> Inl Undecodable
     | Some a \<Rightarrow> if aa_item a \<noteq> i then Inl IdentityMismatch else Inr (a, True)))"

definition put_attention :: "('b, stored) bolt \<Rightarrow> attention_activity \<Rightarrow> 'b tx_state \<Rightarrow> 'b tx_state" where
  "put_attention B a t = put_projection B attention_projection (aa_item a) (StAttention a) t"

definition record_marker ::
  "('b, stored) bolt \<Rightarrow> string \<Rightarrow> string \<Rightarrow> instant \<Rightarrow> 'b tx_state \<Rightarrow> (coord_error, 'b tx_state) result" where
  "record_marker B i event at t = rbind (read_attention B i t) (\<lambda>(a, _).
     if event = ''attention.read'' then Inr (put_attention B (a\<lparr>aa_read_at := later_time (aa_read_at a) (Some at)\<rparr>) t)
     else if event = ''attention.unread'' then Inr (put_attention B (a\<lparr>aa_unread_at := later_time (aa_unread_at a) (Some at)\<rparr>) t)
     else if event = ''attention.deferred'' then Inr (put_attention B (a\<lparr>aa_deferred_at := later_time (aa_deferred_at a) (Some at)\<rparr>) t)
     else Inl (InvalidMarker event))"

definition merge_attention ::
  "('b, stored) bolt \<Rightarrow> string \<Rightarrow> stored \<Rightarrow> 'b tx_state \<Rightarrow> (coord_error, 'b tx_state) result" where
  "merge_attention B i data t = (case as_attention data of
     None \<Rightarrow> Inl Undecodable
   | Some imported \<Rightarrow>
       if aa_item imported \<noteq> i then Inl IdentityMismatch
       else rbind (read_attention B i t) (\<lambda>(current, _).
         Inr (put_attention B (imported\<lparr>
             aa_read_at := later_time (aa_read_at imported) (aa_read_at current),
             aa_unread_at := later_time (aa_unread_at imported) (aa_unread_at current),
             aa_deferred_at := later_time (aa_deferred_at imported) (aa_deferred_at current),
             aa_requested_at := later_time (aa_requested_at imported) (aa_requested_at current),
             aa_completed_at := later_time (aa_completed_at imported) (aa_completed_at current)\<rparr>) t)))"

text \<open>\<open>Database.AttentionActivity\<close>; the result's projection metadata is its revision.\<close>

definition attention_activity_of ::
  "('b, stored) bolt \<Rightarrow> string \<Rightarrow> 'b tx_state \<Rightarrow> (coord_error, 64 word \<times> attention_activity \<times> bool) result" where
  "attention_activity_of B i t =
     (if \<not> valid_id i then Inl InvalidItemId
      else if get_projection B manifest_projection i t = None then Inl NotFound
      else rbind (read_attention B i t) (\<lambda>(a, found). Inr (global_sequence B t, a, found)))"

section \<open>Source batches\<close>

definition valid_source_key :: "string \<Rightarrow> bool" where
  "valid_source_key s \<longleftrightarrow> s \<noteq> [] \<and> \<not> is_abs s \<and> path_clean s = s
     \<and> list_all (\<lambda>p. p \<noteq> [] \<and> p \<noteq> ''.'' \<and> p \<noteq> ''..'') (split_char (CHR ''/'') s)"

record batch_result =
  br_imported :: nat
  br_duplicates :: nat
  br_final_sequence :: "64 word"

definition source_checkpoint_of ::
  "('b, stored) bolt \<Rightarrow> string \<Rightarrow> 'b tx_state \<Rightarrow> (coord_error, source_checkpoint option) result" where
  "source_checkpoint_of B s t =
     (if \<not> valid_source_key s then Inl InvalidCheckpoint
      else (case b_get B (tx_offsets t) s of
          None \<Rightarrow> Inr None
        | Some v \<Rightarrow> (case v of StCheckpoint c \<Rightarrow> Inr (Some c) | _ \<Rightarrow> Inl Undecodable)))"

definition source_event :: "string \<Rightarrow> pending_event \<Rightarrow> domain_event" where
  "source_event source p = \<lparr>de_sequence = 0, de_id = pe_id p, de_item = pe_item p, de_revision = 0,
     de_type = pe_type p, de_time = pe_time p, de_actor = pe_actor p, de_causation = ''source:'' @ source,
     de_payload = pe_payload p\<rparr>"

fun batch_loop ::
  "('b, stored) bolt \<Rightarrow> string \<Rightarrow> pending_event list \<Rightarrow> 64 word \<times> nat \<times> nat \<times> 'b tx_state
   \<Rightarrow> (coord_error, 64 word \<times> nat \<times> nat \<times> 'b tx_state) result" where
  "batch_loop B source [] st = Inr st"
| "batch_loop B source (p # ps) (sequence, imported, duplicates, t) =
     (if pe_id p = [] \<or> pe_type p = [] then Inl EventRequired
      else if b_get B (tx_event_ids t) (pe_id p) \<noteq> None
        then batch_loop B source ps (sequence, imported, duplicates + 1, t)
      else (let sequence = sequence + 1;
                revision = (if pe_item p \<noteq> [] then item_revision B t (pe_item p) + 1 else 0);
                t = (if pe_item p \<noteq> [] then put_revision B (pe_item p) revision t else t);
                event = (source_event source p)\<lparr>de_sequence := sequence, de_revision := revision\<rparr>
            in batch_loop B source ps (sequence, imported + 1, duplicates, put_event B event t)))"

fun batch_updates ::
  "('b, stored) bolt \<Rightarrow> projection_update list \<Rightarrow> 'b tx_state \<Rightarrow> (coord_error, 'b tx_state) result" where
  "batch_updates B [] t = Inr t"
| "batch_updates B (u # us) t =
     rbind (if pu_projection u = attention_projection \<and> \<not> pu_delete u
            then merge_attention B (pu_key u) (pu_value u) t else apply_update B u t)
       (batch_updates B us)"

definition commit_source_batch ::
  "('b, stored) bolt \<Rightarrow> source_checkpoint \<Rightarrow> pending_event list \<Rightarrow> projection_update list
   \<Rightarrow> 'b database \<Rightarrow> (coord_error, batch_result \<times> 'b database) result" where
  "commit_source_batch B cp ps us d =
     (if \<not> valid_source_key (sc_source cp) \<or> sc_offset cp < 0 \<or> sc_size cp < 0 \<or> sc_fingerprint_size cp < 0
      then Inl InvalidCheckpoint
      else rbind (batch_loop B (sc_source cp) ps (global_sequence B (db_tx d), 0, 0, db_tx d))
        (\<lambda>(sequence, imported, duplicates, t).
           rbind (batch_updates B us t) (\<lambda>t.
             let t = t\<lparr>tx_offsets := b_put B (sc_source cp) (StCheckpoint cp) (tx_offsets t)\<rparr>;
                 t = put_sequence B sequence t;
                 changes = (if imported > 0
                   then record_changes (event_items (List.map pe_item ps)) (db_changes d) else db_changes d)
             in Inr (\<lparr>br_imported = imported, br_duplicates = duplicates, br_final_sequence = sequence\<rparr>,
                     \<lparr>db_tx = t, db_changes = changes\<rparr>))))"

section \<open>Imported manifests\<close>

record sync_result =
  sy_imported :: nat
  sy_unchanged :: nat
  sy_removed :: nat
  sy_sequence :: "64 word"

definition imported_event :: "instant \<Rightarrow> 64 word \<Rightarrow> 64 word \<Rightarrow> string \<Rightarrow> string \<Rightarrow> string \<Rightarrow> domain_event" where
  "imported_event now sequence revision item kind digest =
     (let i = ''seed-'' @ hex_digest 16 (kind @ '':'' @ item @ '':'' @ itoa (unat revision) @ '':'' @ digest)
      in \<lparr>de_sequence = sequence, de_id = i, de_item = item, de_revision = revision, de_type = kind,
          de_time = now, de_actor = ''wi'', de_causation = i,
          de_payload = JObj [(''digest'', JStr digest), (''source'', JStr ''manifest'')]\<rparr>)"

definition put_source :: "('b, stored) bolt \<Rightarrow> string \<Rightarrow> string \<Rightarrow> 'b tx_state \<Rightarrow> 'b tx_state" where
  "put_source B i digest t = t\<lparr>tx_sources := b_put B i (StBytes digest) (tx_sources t)\<rparr>"

text \<open>One imported or removed manifest: its revision, its event, then the projection and the source.\<close>

definition sync_event ::
  "('b, stored) bolt \<Rightarrow> instant \<Rightarrow> 64 word \<Rightarrow> string \<Rightarrow> string \<Rightarrow> string \<Rightarrow> 'b tx_state \<Rightarrow> 'b tx_state" where
  "sync_event B now sequence i kind digest t =
     (let revision = item_revision B t i + 1
      in put_event B (imported_event now sequence revision i kind digest) (put_revision B i revision t))"

fun import_loop ::
  "('b, stored) bolt \<Rightarrow> instant \<Rightarrow> (string \<times> manifest \<times> string) list
   \<Rightarrow> 64 word \<times> nat \<times> nat \<times> 'b tx_state \<Rightarrow> 64 word \<times> nat \<times> nat \<times> 'b tx_state" where
  "import_loop B now [] st = st"
| "import_loop B now ((i, m, digest) # vs) (sequence, imported, unchanged, t) =
     (if as_bytes (b_get B (tx_sources t) i) = digest \<and> get_projection B manifest_projection i t \<noteq> None
      then import_loop B now vs (sequence, imported, unchanged + 1, t)
      else (let sequence = sequence + 1;
                t = sync_event B now sequence i ''manifest.imported'' digest t;
                t = put_projection B manifest_projection i (StManifest (persist_manifest m)) t;
                t = put_source B i digest t
            in import_loop B now vs (sequence, imported + 1, unchanged, t)))"

fun remove_loop_tx ::
  "('b, stored) bolt \<Rightarrow> instant \<Rightarrow> string list \<Rightarrow> 64 word \<times> nat \<times> 'b tx_state \<Rightarrow> 64 word \<times> nat \<times> 'b tx_state" where
  "remove_loop_tx B now [] st = st"
| "remove_loop_tx B now (i # ids) (sequence, removed, t) =
     (let sequence = sequence + 1;
          t = sync_event B now sequence i ''manifest.removed'' (as_bytes (b_get B (tx_sources t) i)) t;
          t = delete_projection B manifest_projection i t;
          t = t\<lparr>tx_sources := b_delete B i (tx_sources t)\<rparr>
      in remove_loop_tx B now ids (sequence, removed + 1, t))"

text \<open>\<open>values\<close> is the Go map, in the sorted order of its keys in which the code visits it.\<close>

definition sync_imported_manifests ::
  "('b, stored) bolt \<Rightarrow> instant \<Rightarrow> (string \<times> manifest \<times> string) list \<Rightarrow> bool
   \<Rightarrow> 'b database \<Rightarrow> sync_result \<times> 'b database" where
  "sync_imported_manifests B now vs scan_complete d =
     (let t = db_tx d;
          t = set_projection manifest_projection (projection_bucket B manifest_projection t) t;
          (sequence, imported, unchanged, t) = import_loop B now vs (global_sequence B t, 0, 0, t);
          stale = filter (\<lambda>i. i \<notin> fst ` set vs) (List.map fst (b_entries B (tx_sources t)));
          (sequence, removed, t) =
            (if scan_complete then remove_loop_tx B now (sort_strings stale) (sequence, 0, t) else (sequence, 0, t));
          t = put_sequence B sequence t
      in (\<lparr>sy_imported = imported, sy_unchanged = unchanged, sy_removed = removed, sy_sequence = sequence\<rparr>,
          \<lparr>db_tx = t, db_changes = (if imported > 0 \<or> removed > 0 then record_all (db_changes d) else db_changes d)\<rparr>))"

section \<open>Latest times\<close>

definition latest :: "instant set \<Rightarrow> instant option" where
  "latest S = (if S = {} then None else Some (Max S))"

lemma latest_set_option [simp]: "latest (set_option x) = x"
  by (cases x) (simp_all add: latest_def)

lemma later_time_simps [simp]:
  "later_time None y = y"
  "later_time x None = x"
  "later_time (Some l) (Some r) = Some (max l r)"
  by (auto simp: later_time_def max_def split: option.splits)

lemma later_time_latest:
  "finite S \<Longrightarrow> finite T \<Longrightarrow> later_time (latest S) (latest T) = latest (S \<union> T)"
  by (cases "S = {}"; cases "T = {}") (simp_all add: latest_def Max_Un)

lemma later_time_options: "later_time x y = latest (set_option x \<union> set_option y)"
  using later_time_latest [of "set_option x" "set_option y"] by simp

definition at_least :: "instant option \<Rightarrow> instant option \<Rightarrow> bool" where
  "at_least new old \<longleftrightarrow> (\<forall>x\<in>set_option old. \<exists>y. new = Some y \<and> x \<le> y)"

lemma at_least_refl [simp]: "at_least x x"
  by (auto simp: at_least_def)

lemma at_least_trans: "at_least x y \<Longrightarrow> at_least y z \<Longrightarrow> at_least x z"
  by (fastforce simp: at_least_def)

lemma at_least_later [simp]: "at_least (later_time x y) x" "at_least (later_time x y) y"
  by (auto simp: at_least_def later_time_def split: option.splits)

definition markers_at_least :: "attention_activity \<Rightarrow> attention_activity \<Rightarrow> bool" where
  "markers_at_least a' a \<longleftrightarrow> at_least (aa_read_at a') (aa_read_at a) \<and> at_least (aa_unread_at a') (aa_unread_at a)
     \<and> at_least (aa_deferred_at a') (aa_deferred_at a) \<and> at_least (aa_requested_at a') (aa_requested_at a)
     \<and> at_least (aa_completed_at a') (aa_completed_at a)"

lemma markers_at_least_refl [simp]: "markers_at_least a a"
  by (simp add: markers_at_least_def)

lemma markers_at_least_trans: "markers_at_least a b \<Longrightarrow> markers_at_least b c \<Longrightarrow> markers_at_least a c"
  by (auto simp: markers_at_least_def intro: at_least_trans)

section \<open>Markers are monotonic and independent of their order\<close>

fun run_markers ::
  "('b, stored) bolt \<Rightarrow> string \<Rightarrow> (string \<times> instant) list \<Rightarrow> 'b tx_state \<Rightarrow> (coord_error, 'b tx_state) result" where
  "run_markers B i [] t = Inr t"
| "run_markers B i ((event, at) # ms) t = rbind (record_marker B i event at t) (run_markers B i ms)"

definition marker_times :: "string \<Rightarrow> (string \<times> instant) list \<Rightarrow> instant set" where
  "marker_times event ms = {at. (event, at) \<in> set ms}"

lemma marker_times_simps [simp]:
  "marker_times event [] = {}"
  "marker_times event ((e, at) # ms) = (if e = event then insert at (marker_times event ms) else marker_times event ms)"
  by (auto simp: marker_times_def)

lemma finite_marker_times [simp]: "finite (marker_times event ms)"
  by (rule finite_subset [of _ "snd ` set ms"]) (force simp: marker_times_def)+

lemma read_attention_item: "read_attention B i t = Inr (a, f) \<Longrightarrow> aa_item a = i"
  by (auto simp: read_attention_def empty_attention_def split: option.splits if_split_asm)

context event_store
begin

lemma read_put_attention:
  "tx_ok ok t \<Longrightarrow> read_attention B i (put_attention B a t) = (if i = aa_item a then Inr (a, True) else read_attention B i t)"
  by (simp add: read_attention_def put_attention_def)

lemma tx_ok_put_attention [simp]: "tx_ok ok t \<Longrightarrow> tx_ok ok (put_attention B a t)"
  by (simp add: put_attention_def)

lemma record_marker_step:
  assumes "record_marker B i event at t = Inr t'" and "tx_ok ok t" and "read_attention B i t = Inr (a, f)"
  shows "tx_ok ok t' \<and> (\<exists>a'. read_attention B i t' = Inr (a', True)
    \<and> aa_read_at a' = later_time (aa_read_at a) (latest (marker_times ''attention.read'' [(event, at)]))
    \<and> aa_unread_at a' = later_time (aa_unread_at a) (latest (marker_times ''attention.unread'' [(event, at)]))
    \<and> aa_deferred_at a' = later_time (aa_deferred_at a) (latest (marker_times ''attention.deferred'' [(event, at)])))"
proof -
  have none: "later_time x (latest {}) = x" for x by (cases x) (simp_all add: later_time_def latest_def)
  have some: "latest {at} = Some at" by (simp add: latest_def)
  have "aa_item a = i" by (rule read_attention_item [OF assms(3)])
  then show ?thesis
    using assms by (auto simp: record_marker_def read_put_attention none some split: if_split_asm)
qed

lemma run_markers_latest:
  assumes "run_markers B i ms t = Inr t'" and "tx_ok ok t" and "read_attention B i t = Inr (a, f)"
  shows "tx_ok ok t' \<and> (\<exists>a' f'. read_attention B i t' = Inr (a', f')
    \<and> aa_read_at a' = latest (set_option (aa_read_at a) \<union> marker_times ''attention.read'' ms)
    \<and> aa_unread_at a' = latest (set_option (aa_unread_at a) \<union> marker_times ''attention.unread'' ms)
    \<and> aa_deferred_at a' = latest (set_option (aa_deferred_at a) \<union> marker_times ''attention.deferred'' ms))"
  using assms
proof (induction ms arbitrary: t a f)
  case Nil
  then show ?case by auto
next
  case (Cons m ms)
  obtain event at where m: "m = (event, at)" by (cases m)
  obtain t1 where t1: "record_marker B i event at t = Inr t1" and rest: "run_markers B i ms t1 = Inr t'"
    using Cons.prems(1) m by (auto simp: rbind_Inr_iff)
  obtain a1 where ok1: "tx_ok ok t1" and a1: "read_attention B i t1 = Inr (a1, True)"
    "aa_read_at a1 = later_time (aa_read_at a) (latest (marker_times ''attention.read'' [(event, at)]))"
    "aa_unread_at a1 = later_time (aa_unread_at a) (latest (marker_times ''attention.unread'' [(event, at)]))"
    "aa_deferred_at a1 = later_time (aa_deferred_at a) (latest (marker_times ''attention.deferred'' [(event, at)]))"
    using record_marker_step [OF t1 Cons.prems(2,3)] by blast
  have comb: "latest (set_option (later_time x (latest S)) \<union> T) = latest (set_option x \<union> (S \<union> T))"
    if "finite S" "finite T" for x S T
  proof -
    have "latest (set_option (later_time x (latest S)) \<union> T) = later_time (later_time x (latest S)) (latest T)"
      using that by (subst later_time_latest [symmetric]) simp_all
    also have "\<dots> = later_time (latest (set_option x \<union> S)) (latest T)"
      using that later_time_latest [of "set_option x" S] by simp
    also have "\<dots> = latest (set_option x \<union> (S \<union> T))"
      using that by (simp add: later_time_latest Un_assoc)
    finally show ?thesis .
  qed
  have split: "marker_times e (m # ms) = marker_times e [(event, at)] \<union> marker_times e ms" for e
    by (simp add: m)
  show ?case
    using Cons.IH [OF rest ok1 a1(1)] unfolding a1(2-4) split by (simp add: comb del: marker_times_simps)
qed

end

text \<open>The markers of an item depend only on which marker events were recorded, not on their order: each
  is the latest of its recorded times, so an out-of-order marker never moves it back.\<close>

theorem markers_order_independent:
  assumes "bucket_store B ok" and "tx_ok ok t" and "read_attention B i t = Inr (a, f)"
    and "run_markers B i ms t = Inr t'"
  shows "\<exists>a' f'. read_attention B i t' = Inr (a', f')
    \<and> aa_read_at a' = latest (set_option (aa_read_at a) \<union> marker_times ''attention.read'' ms)
    \<and> aa_unread_at a' = latest (set_option (aa_unread_at a) \<union> marker_times ''attention.unread'' ms)
    \<and> aa_deferred_at a' = latest (set_option (aa_deferred_at a) \<union> marker_times ''attention.deferred'' ms)"
  using event_store.run_markers_latest [OF event_store_bucket [OF assms(1)] assms(4,2,3)] by blast

section \<open>Batches\<close>

fun fresh_pending :: "string set \<Rightarrow> pending_event list \<Rightarrow> pending_event list" where
  "fresh_pending seen [] = []"
| "fresh_pending seen (p # ps) =
     (if pe_id p \<in> seen then fresh_pending seen ps else p # fresh_pending (insert (pe_id p) seen) ps)"

lemma fresh_pending_none: "pe_id ` set ps \<subseteq> seen \<Longrightarrow> fresh_pending seen ps = []"
  by (induction ps) auto

lemma fresh_pending_ids: "seen \<union> pe_id ` set (fresh_pending seen ps) = seen \<union> pe_id ` set ps"
  by (induction seen ps rule: fresh_pending.induct) auto

lemma length_fresh_pending: "length (fresh_pending seen ps) \<le> length ps"
  by (induction seen ps rule: fresh_pending.induct) auto

lemma rep_put_projection [simp]:
  "ev_rep B ok (put_projection C name k v t) L = ev_rep B ok t L"
  "rev_rep B ok (put_projection C name k v t) L = rev_rep B ok t L"
  "seq_rep B ok (put_projection C name k v t) L = seq_rep B ok t L"
  "ev_rep B ok (delete_projection C name k t) L = ev_rep B ok t L"
  "rev_rep B ok (delete_projection C name k t) L = rev_rep B ok t L"
  "seq_rep B ok (delete_projection C name k t) L = seq_rep B ok t L"
  "ev_rep B ok (set_projection name b t) L = ev_rep B ok t L"
  "rev_rep B ok (set_projection name b t) L = rev_rep B ok t L"
  "seq_rep B ok (set_projection name b t) L = seq_rep B ok t L"
  "ev_rep B ok (put_source C i g t) L = ev_rep B ok t L"
  "rev_rep B ok (put_source C i g t) L = rev_rep B ok t L"
  "seq_rep B ok (put_source C i g t) L = seq_rep B ok t L"
  "ev_rep B ok (put_attention C a t) L = ev_rep B ok t L"
  "rev_rep B ok (put_attention C a t) L = rev_rep B ok t L"
  "seq_rep B ok (put_attention C a t) L = seq_rep B ok t L"
  by (simp_all add: put_projection_def delete_projection_def set_projection_def put_source_def put_attention_def)

lemma batch_updates_frame:
  "batch_updates B us t = Inr t' \<Longrightarrow> t' = t\<lparr>tx_projections := tx_projections t'\<rparr>"
proof (induction us arbitrary: t)
  case (Cons u us)
  then obtain t1 where t1: "(if pu_projection u = attention_projection \<and> \<not> pu_delete u
      then merge_attention B (pu_key u) (pu_value u) t else apply_update B u t) = Inr t1"
    and "batch_updates B us t1 = Inr t'"
    by (auto simp: rbind_Inr_iff)
  moreover from t1 have "t1 = t\<lparr>tx_projections := tx_projections t1\<rparr>"
    by (auto simp: apply_update_def merge_attention_def put_attention_def put_projection_def delete_projection_def
        set_projection_def rbind_Inr_iff split: if_split_asm option.splits)
  ultimately show ?case using Cons.IH [of t1] by (metis tx_state.surjective tx_state.update_convs(6))
qed simp

lemma batch_loop_projections:
  "batch_loop B src ps (m, k, dup, t) = Inr (n, k', dup', t') \<Longrightarrow> tx_projections t' = tx_projections t"
proof (induction ps arbitrary: m k dup t)
  case (Cons p ps)
  from Cons.prems show ?case
    by (auto simp: Let_def put_event_def put_revision_def split: if_split_asm dest!: Cons.IH)
qed simp

context event_store
begin

lemma batch_loop_refines:
  assumes "batch_loop B src ps (of_nat (length L), k, dup, t) = Inr (n, k', dup', t')"
    and "ev_rep B ok t L" and "rev_rep B ok t L" and "length L + length ps < 2 ^ 64"
  shows "let fs = fresh_pending (de_id ` set L) ps; L' = log_appends (List.map (source_event src) fs) L in
      ev_rep B ok t' L' \<and> rev_rep B ok t' L' \<and> n = of_nat (length L') \<and> k' = k + length fs
      \<and> dup' = dup + (length ps - length fs) \<and> same_others t t'
      \<and> (distinct (List.map de_id L) \<longrightarrow> distinct (List.map de_id L'))"
  using assms
proof (induction ps arbitrary: L k dup t)
  case Nil
  then show ?case by simp
next
  case (Cons p ps)
  have known: "b_get B (tx_event_ids t) (pe_id p) \<noteq> None \<longleftrightarrow> pe_id p \<in> de_id ` set L"
    using Cons.prems(2) unfolding ev_rep_def by blast
  show ?case
  proof (cases "pe_id p \<in> de_id ` set L")
    case True
    then have "batch_loop B src ps (of_nat (length L), k, dup + 1, t) = Inr (n, k', dup', t')"
      using Cons.prems(1) known by (auto split: if_split_asm)
    from Cons.IH [OF this Cons.prems(2,3)] show ?thesis
      using Cons.prems(4) True length_fresh_pending [of "de_id ` set L" ps] by (simp add: Let_def Suc_diff_le)
  next
    case False
    define i where "i = pe_item p"
    define t1 where "t1 = (if i \<noteq> [] then put_revision B i (item_revision B t i + 1) t else t)"
    define e where "e = source_event src p"
    define e' where "e' = e\<lparr>de_sequence := of_nat (length L) + 1, de_revision := (if i = [] then de_revision e else item_revision B t i + 1)\<rparr>"
    have step: "batch_loop B src ps (of_nat (length L) + 1, k + 1, dup, put_event B e' t1) = Inr (n, k', dup', t')"
      using Cons.prems(1) known False
      by (auto simp: Let_def i_def t1_def e_def e'_def source_event_def split: if_split_asm)
    have "ev_rep B ok (put_event B e' t1) (log_append e L) \<and> rev_rep B ok (put_event B e' t1) (log_append e L) \<and> e' = stamp L e"
      by (rule put_stamped [OF Cons.prems(2,3), where i = i])
        (use Cons.prems(4) in \<open>auto simp: t1_def e_def e'_def source_event_def i_def\<close>)
    then have rep: "ev_rep B ok (put_event B e' t1) (log_append e L)"
      "rev_rep B ok (put_event B e' t1) (log_append e L)" by blast+
    have "of_nat (length L) + 1 = (of_nat (length (log_append e L)) :: 64 word)" by simp
    then have step': "batch_loop B src ps (of_nat (length (log_append e L)), k + 1, dup, put_event B e' t1) = Inr (n, k', dup', t')"
      using step by (simp add: add.commute)
    have ids: "de_id ` set (log_append e L) = insert (pe_id p) (de_id ` set L)"
      by (auto simp: log_append_def stamp_def e_def source_event_def)
    have "distinct (List.map de_id (log_append e L))" if "distinct (List.map de_id L)"
      using that False by (simp add: log_append_def stamp_def e_def source_event_def)
    moreover note Cons.IH [OF step' rep]
    ultimately show ?thesis
      using Cons.prems(4) False by (simp add: Let_def ids e_def [symmetric] t1_def split: if_split_asm)
  qed
qed

lemma tx_ok_batch_loop:
  "batch_loop B src ps (m, k, dup, t) = Inr (n, k', dup', t') \<Longrightarrow> tx_ok ok t \<Longrightarrow> tx_ok ok t'"
proof (induction ps arbitrary: m k dup t)
  case (Cons p ps)
  from Cons.prems show ?case
    by (auto simp: Let_def split: if_split_asm elim!: Cons.IH)
qed simp

lemma merge_attention_step:
  assumes "merge_attention B i v t = Inr t'" and "tx_ok ok t" and "read_attention B j t = Inr (a, f)"
  shows "tx_ok ok t' \<and> (\<exists>a' f'. read_attention B j t' = Inr (a', f') \<and> markers_at_least a' a)"
  using assms
  by (auto simp: merge_attention_def rbind_Inr_iff read_put_attention markers_at_least_def
      split: option.splits if_split_asm)

lemma batch_updates_markers:
  assumes "batch_updates B us t = Inr t'" and "tx_ok ok t" and "read_attention B i t = Inr (a, f)"
    and "\<forall>u\<in>set us. pu_projection u = attention_projection \<longrightarrow> \<not> pu_delete u"
  shows "tx_ok ok t' \<and> (\<exists>a' f'. read_attention B i t' = Inr (a', f') \<and> markers_at_least a' a)"
  using assms
proof (induction us arbitrary: t a f)
  case (Cons u us)
  then obtain t1 where t1: "(if pu_projection u = attention_projection \<and> \<not> pu_delete u
      then merge_attention B (pu_key u) (pu_value u) t else apply_update B u t) = Inr t1"
    and rest: "batch_updates B us t1 = Inr t'"
    by (auto simp: rbind_Inr_iff)
  have "tx_ok ok t1 \<and> (\<exists>a1 f1. read_attention B i t1 = Inr (a1, f1) \<and> markers_at_least a1 a)"
  proof (cases "pu_projection u = attention_projection")
    case True
    then show ?thesis using t1 Cons.prems merge_attention_step by simp
  next
    case False
    then have "apply_update B u t = Inr t1" using t1 by simp
    then show ?thesis
      using Cons.prems(2,3) False
      by (auto simp: apply_update_def read_attention_def split: if_split_asm)
  qed
  then show ?case using Cons.IH [OF rest] Cons.prems(4) markers_at_least_trans by fastforce
qed auto

lemma commit_source_batch_parts:
  assumes "commit_source_batch B cp ps us d = Inr (r, d')"
  obtains n k dup t1 t2 where "batch_loop B (sc_source cp) ps (global_sequence B (db_tx d), 0, 0, db_tx d) = Inr (n, k, dup, t1)"
    and "batch_updates B us t1 = Inr t2"
    and "r = \<lparr>br_imported = k, br_duplicates = dup, br_final_sequence = n\<rparr>"
    and "db_tx d' = put_sequence B n (t2\<lparr>tx_offsets := b_put B (sc_source cp) (StCheckpoint cp) (tx_offsets t2)\<rparr>)"
  using assms by (auto simp: commit_source_batch_def Let_def rbind_Inr_iff split: if_split_asm)

lemma commit_source_batch_refines:
  assumes "commit_source_batch B cp ps us d = Inr (r, d')" and "log_rep B ok (db_tx d) L"
    and "length L + length ps < 2 ^ 64"
  shows "let fs = fresh_pending (de_id ` set L) ps; L' = log_appends (List.map (source_event (sc_source cp)) fs) L in
    log_rep B ok (db_tx d') L' \<and> br_imported r = length fs \<and> br_duplicates r = length ps - length fs
    \<and> (distinct (List.map de_id L) \<longrightarrow> distinct (List.map de_id L'))"
proof -
  obtain n k dup t1 t2 where
    loop: "batch_loop B (sc_source cp) ps (global_sequence B (db_tx d), 0, 0, db_tx d) = Inr (n, k, dup, t1)"
    and u: "batch_updates B us t1 = Inr t2"
    and r: "r = \<lparr>br_imported = k, br_duplicates = dup, br_final_sequence = n\<rparr>"
    and d': "db_tx d' = put_sequence B n (t2\<lparr>tx_offsets := b_put B (sc_source cp) (StCheckpoint cp) (tx_offsets t2)\<rparr>)"
    by (rule commit_source_batch_parts [OF assms(1)]) blast
  have rep: "ev_rep B ok (db_tx d) L" "rev_rep B ok (db_tx d) L" "seq_rep B ok (db_tx d) L"
    using assms(2) by (simp_all add: log_rep_def)
  have "global_sequence B (db_tx d) = of_nat (length L)" using rep(3) by (simp add: seq_rep_def)
  with loop have "batch_loop B (sc_source cp) ps (of_nat (length L), 0, 0, db_tx d) = Inr (n, k, dup, t1)" by simp
  note * = batch_loop_refines [OF this rep(1,2) assms(3), unfolded Let_def]
  define L' where "L' = log_appends (List.map (source_event (sc_source cp)) (fresh_pending (de_id ` set L) ps)) L"
  have "seq_rep B ok t1 L" using rep(3) * by (simp add: seq_rep_def global_sequence_def same_others_def)
  then have "seq_rep B ok t2 L" using rep_projections(3) [OF batch_updates_frame [OF u]] by blast
  then have "seq_rep B ok (db_tx d') L'"
    using * unfolding d' L'_def [symmetric] by (simp add: seq_rep_put)
  moreover have "ev_rep B ok t2 L'" "rev_rep B ok t2 L'"
    using * rep_projections [OF batch_updates_frame [OF u]] by (simp_all add: L'_def)
  ultimately have "log_rep B ok (db_tx d') L'" by (simp add: d' log_rep_def)
  then show ?thesis using * r by (simp add: Let_def L'_def)
qed

end

text \<open>A source batch imports exactly its events not yet in the log, in order; importing a batch again,
  with any checkpoint, imports nothing and leaves the log as it is.\<close>

theorem batch_replay_idempotent:
  assumes "bucket_store B ok" and "log_rep B ok (db_tx d) L" and "length L + 2 * length ps < 2 ^ 64"
    and "commit_source_batch B cp ps us d = Inr (r, d')" and "commit_source_batch B cp' ps us' d' = Inr (r', d'')"
  shows "\<exists>L'. log_rep B ok (db_tx d') L' \<and> L' = log_appends (List.map (source_event (sc_source cp)) (fresh_pending (de_id ` set L) ps)) L
    \<and> log_rep B ok (db_tx d'') L' \<and> br_imported r' = 0 \<and> br_duplicates r' = length ps"
proof -
  note es = event_store_bucket [OF assms(1)]
  let ?fs = "fresh_pending (de_id ` set L) ps"
  define L' where "L' = log_appends (List.map (source_event (sc_source cp)) ?fs) L"
  have rep: "log_rep B ok (db_tx d') L'"
    using event_store.commit_source_batch_refines [OF es assms(4,2)] assms(3) by (simp add: Let_def L'_def)
  obtain es' where es': "L' = L @ es'" "List.map de_id es' = List.map pe_id ?fs" "length es' = length ?fs"
    using log_appends_prefix [of "List.map (source_event (sc_source cp)) ?fs" L]
    by (auto simp: L'_def source_event_def comp_def)
  have "de_id ` set L' = de_id ` set L \<union> pe_id ` set ?fs"
    using es' by (metis image_Un list.set_map set_append)
  then have "de_id ` set L' = de_id ` set L \<union> pe_id ` set ps"
    using fresh_pending_ids [of "de_id ` set L" ps] by simp
  then have none: "fresh_pending (de_id ` set L') ps = []"
    by (intro fresh_pending_none) blast
  have len: "length L' + length ps < 2 ^ 64"
    using es' assms(3) length_fresh_pending [of "de_id ` set L" ps] by simp
  from event_store.commit_source_batch_refines [OF es assms(5) rep len]
  have "log_rep B ok (db_tx d'') L' \<and> br_imported r' = 0 \<and> br_duplicates r' = length ps"
    by (simp add: Let_def none)
  with rep show ?thesis using L'_def by blast
qed

text \<open>A source batch computed from an older snapshot never loses a marker the operator set meanwhile: each
  time of an item's attention record stays or moves forward.\<close>

theorem batch_keeps_markers:
  assumes "bucket_store B ok" and "tx_ok ok (db_tx d)" and "commit_source_batch B cp ps us d = Inr (r, d')"
    and "read_attention B i (db_tx d) = Inr (a, f)"
    and "\<forall>u\<in>set us. pu_projection u = attention_projection \<longrightarrow> \<not> pu_delete u"
  shows "\<exists>a' f'. read_attention B i (db_tx d') = Inr (a', f') \<and> markers_at_least a' a"
proof -
  note es = event_store_bucket [OF assms(1)]
  obtain n k dup t1 t2 where
    loop: "batch_loop B (sc_source cp) ps (global_sequence B (db_tx d), 0, 0, db_tx d) = Inr (n, k, dup, t1)"
    and u: "batch_updates B us t1 = Inr t2"
    and d': "db_tx d' = put_sequence B n (t2\<lparr>tx_offsets := b_put B (sc_source cp) (StCheckpoint cp) (tx_offsets t2)\<rparr>)"
    by (rule event_store.commit_source_batch_parts [OF es assms(3)]) blast
  have ok: "tx_ok ok t1" using event_store.tx_ok_batch_loop [OF es loop assms(2)] .
  have "tx_projections t1 = tx_projections (db_tx d)" by (rule batch_loop_projections [OF loop])
  then have "read_attention B i t1 = Inr (a, f)"
    using assms(4) by (simp add: read_attention_def get_projection_def)
  from event_store.batch_updates_markers [OF es u ok this assms(5)] show ?thesis
    by (simp add: d' read_attention_def get_projection_def put_sequence_def)
qed

section \<open>Imported manifests\<close>

definition source_digest :: "('b, stored) bolt \<Rightarrow> 'b tx_state \<Rightarrow> string \<Rightarrow> string" where
  "source_digest B t i = as_bytes (b_get B (tx_sources t) i)"

definition synced :: "('b, stored) bolt \<Rightarrow> 'b tx_state \<Rightarrow> string \<times> manifest \<times> string \<Rightarrow> bool" where
  "synced B t v = (case v of (i, m, g) \<Rightarrow>
     source_digest B t i = g \<and> get_projection B manifest_projection i t \<noteq> None)"

lemma import_loop_synced:
  "list_all (synced B t) vs \<Longrightarrow> import_loop B now vs (n, k, u, t) = (n, k, u + length vs, t)"
  by (induction vs arbitrary: u) (auto simp: synced_def source_digest_def)

lemma sync_event_others [simp]:
  "tx_sources (sync_event B now n i kind g t) = tx_sources t"
  "get_projection B name k (sync_event B now n i kind g t) = get_projection B name k t"
  "tx_projections (sync_event B now n i kind g t) = tx_projections t"
  "tx_meta (sync_event B now n i kind g t) = tx_meta t"
  by (simp_all add: sync_event_def put_event_def put_revision_def get_projection_def Let_def)

lemma put_source_others [simp]:
  "get_projection B name k (t\<lparr>tx_sources := x\<rparr>) = get_projection B name k t"
  "get_projection B name k (put_source C i g t) = get_projection B name k t"
  "tx_sources (put_source C i g t) = b_put C i (StBytes g) (tx_sources t)"
  "tx_meta (put_source C i g t) = tx_meta t"
  by (simp_all add: put_source_def get_projection_def)

lemma put_projection_others [simp]:
  "tx_sources (put_projection B name k v t) = tx_sources t"
  "tx_sources (delete_projection B name k t) = tx_sources t"
  "tx_sources (set_projection name b t) = tx_sources t"
  "tx_meta (put_projection B name k v t) = tx_meta t"
  "tx_meta (delete_projection B name k t) = tx_meta t"
  "tx_meta (set_projection name b t) = tx_meta t"
  by (simp_all add: put_projection_def delete_projection_def set_projection_def)

lemma length_log_ge: "log_appends es L = L' \<Longrightarrow> length L' = length L + length es"
  by auto

context event_store
begin

lemma tx_ok_sync_event [simp]: "tx_ok ok t \<Longrightarrow> tx_ok ok (sync_event B now n i kind g t)"
  by (simp add: sync_event_def Let_def)

lemma tx_ok_put_source [simp]: "tx_ok ok t \<Longrightarrow> tx_ok ok (put_source B i g t)"
  by (simp add: put_source_def)

lemma tx_ok_set_projection [simp]: "tx_ok ok t \<Longrightarrow> tx_ok ok (set_projection name (projection_bucket B name t) t)"
  by (auto simp: tx_ok_def set_projection_def projection_bucket_def ok_empty split: option.splits)

lemma sync_event_refines:
  assumes "ev_rep B ok t L" and "rev_rep B ok t L" and "Suc (length L) < 2 ^ 64" and "i \<noteq> []"
  shows "\<exists>e. ev_rep B ok (sync_event B now (of_nat (length L) + 1) i kind g t) (log_append e L)
    \<and> rev_rep B ok (sync_event B now (of_nat (length L) + 1) i kind g t) (log_append e L)"
proof -
  define e where "e = imported_event now (of_nat (length L) + 1) (item_revision B t i + 1) i kind g"
  have "de_item e = i" and
    e': "e = e\<lparr>de_sequence := of_nat (length L) + 1, de_revision := (if i = [] then de_revision e else item_revision B t i + 1)\<rparr>"
    using assms(4) by (simp_all add: e_def imported_event_def Let_def)
  with put_stamped [OF assms(1-3) this(1) _ _ e', of "put_revision B i (item_revision B t i + 1) t"] assms(4)
  have "ev_rep B ok (put_event B e (put_revision B i (item_revision B t i + 1) t)) (log_append e L)
    \<and> rev_rep B ok (put_event B e (put_revision B i (item_revision B t i + 1) t)) (log_append e L)"
    by (metis (no_types, lifting))
  then show ?thesis by (auto simp: sync_event_def Let_def e_def intro!: exI)
qed

lemma import_loop_refines:
  assumes "import_loop B now vs (of_nat (length L), k, u, t) = (n, k', u', t')"
    and "ev_rep B ok t L" and "rev_rep B ok t L" and "length L + length vs < 2 ^ 64"
    and "[] \<notin> fst ` set vs"
  shows "\<exists>es. let L' = log_appends es L in ev_rep B ok t' L' \<and> rev_rep B ok t' L' \<and> n = of_nat (length L')
    \<and> k' = k + length es \<and> u' + length es = u + length vs"
  using assms
proof (induction vs arbitrary: L k u t)
  case Nil
  then show ?case by (intro exI [of _ "[]"]) simp
next
  case (Cons v vs)
  obtain i m g where v: "v = (i, m, g)" by (cases v)
  show ?case
  proof (cases "synced B t v")
    case True
    then have "import_loop B now vs (of_nat (length L), k, u + 1, t) = (n, k', u', t')"
      using Cons.prems(1) by (simp add: v synced_def source_digest_def)
    from Cons.IH [OF this Cons.prems(2,3)] Cons.prems(4,5) show ?thesis by (auto simp: Let_def)
  next
    case False
    let ?t = "put_source B i g (put_projection B manifest_projection i (StManifest (persist_manifest m))
      (sync_event B now (of_nat (length L) + 1) i ''manifest.imported'' g t))"
    have step: "import_loop B now vs (of_nat (length L) + 1, k + 1, u, ?t) = (n, k', u', t')"
      using Cons.prems(1) False by (auto simp: v synced_def source_digest_def Let_def split: if_split_asm)
    obtain e where e: "ev_rep B ok ?t (log_append e L)" "rev_rep B ok ?t (log_append e L)"
      using sync_event_refines [OF Cons.prems(2,3), of i now "''manifest.imported''" g] Cons.prems(4,5) v by auto
    have "import_loop B now vs (of_nat (length (log_append e L)), k + 1, u, ?t) = (n, k', u', t')"
      using step by (simp add: add.commute)
    from Cons.IH [OF this e] obtain es where
      "let L' = log_appends es (log_append e L) in ev_rep B ok t' L' \<and> rev_rep B ok t' L' \<and> n = of_nat (length L')
        \<and> k' = k + 1 + length es \<and> u' + length es = u + length vs"
      using Cons.prems(4,5) by auto
    then show ?thesis by (intro exI [of _ "e # es"]) (simp add: Let_def)
  qed
qed

lemma remove_loop_refines:
  assumes "remove_loop_tx B now ids (of_nat (length L), k, t) = (n, k', t')"
    and "ev_rep B ok t L" and "rev_rep B ok t L" and "length L + length ids < 2 ^ 64" and "[] \<notin> set ids"
  shows "\<exists>es. let L' = log_appends es L in ev_rep B ok t' L' \<and> rev_rep B ok t' L' \<and> n = of_nat (length L')
    \<and> k' = k + length es \<and> length es = length ids"
  using assms
proof (induction ids arbitrary: L k t)
  case Nil
  then show ?case by (intro exI [of _ "[]"]) simp
next
  case (Cons i ids)
  let ?s = "sync_event B now (of_nat (length L) + 1) i ''manifest.removed'' (as_bytes (b_get B (tx_sources t) i)) t"
  let ?t = "(delete_projection B manifest_projection i ?s)\<lparr>tx_sources := b_delete B i (tx_sources t)\<rparr>"
  have step: "remove_loop_tx B now ids (of_nat (length L) + 1, k + 1, ?t) = (n, k', t')"
    using Cons.prems(1) by (simp add: Let_def)
  obtain e where e: "ev_rep B ok ?t (log_append e L)" "rev_rep B ok ?t (log_append e L)"
    using sync_event_refines [OF Cons.prems(2,3), of i now "''manifest.removed''" "as_bytes (b_get B (tx_sources t) i)"]
      Cons.prems(4,5) by auto
  have "remove_loop_tx B now ids (of_nat (length (log_append e L)), k + 1, ?t) = (n, k', t')"
    using step by (simp add: add.commute)
  from Cons.IH [OF this e] obtain es where
    "let L' = log_appends es (log_append e L) in ev_rep B ok t' L' \<and> rev_rep B ok t' L' \<and> n = of_nat (length L')
      \<and> k' = k + 1 + length es \<and> length es = length ids"
    using Cons.prems(4,5) by auto
  then show ?case by (intro exI [of _ "e # es"]) (simp add: Let_def)
qed

lemma import_loop_frame:
  assumes "import_loop B now vs (n, k, u, t) = (n', k', u', t')" and "tx_ok ok t"
  shows "tx_ok ok t' \<and> tx_meta t' = tx_meta t \<and> (\<forall>i. i \<notin> fst ` set vs \<longrightarrow> b_get B (tx_sources t') i = b_get B (tx_sources t) i
    \<and> get_projection B manifest_projection i t' = get_projection B manifest_projection i t)"
  using assms
proof (induction vs arbitrary: n k u t)
  case (Cons v vs)
  obtain i m g where v: "v = (i, m, g)" by (cases v)
  have src: "ok (tx_sources t)" using Cons.prems(2) by (simp add: tx_ok_def)
  show ?case
  proof (cases "synced B t v")
    case True
    then show ?thesis
      using Cons.prems Cons.IH [of n k "u + 1" t] by (simp add: v synced_def source_digest_def)
  next
    case False
    let ?t = "put_source B i g (put_projection B manifest_projection i (StManifest (persist_manifest m))
      (sync_event B now (n + 1) i ''manifest.imported'' g t))"
    have "import_loop B now vs (n + 1, k + 1, u, ?t) = (n', k', u', t')"
      using Cons.prems(1) False by (auto simp: v synced_def source_digest_def Let_def split: if_split_asm)
    from Cons.IH [OF this] Cons.prems(2) src show ?thesis
      by (simp add: v get_put)
  qed
qed simp

lemma import_loop_all_synced:
  assumes "import_loop B now vs (n, k, u, t) = (n', k', u', t')" and "tx_ok ok t" and "distinct (List.map fst vs)"
  shows "list_all (synced B t') vs"
  using assms
proof (induction vs arbitrary: n k u t)
  case (Cons v vs)
  obtain i m g where v: "v = (i, m, g)" by (cases v)
  have src: "ok (tx_sources t)" using Cons.prems(2) by (simp add: tx_ok_def)
  obtain n1 k1 u1 t1 where step: "import_loop B now vs (n1, k1, u1, t1) = (n', k', u', t')"
    and t1: "tx_ok ok t1" "synced B t1 v"
  proof (cases "synced B t v")
    case True
    show ?thesis
      by (rule that [of n k "u + 1" t]) (use True Cons.prems in \<open>simp_all add: v synced_def source_digest_def\<close>)
  next
    case False
    let ?t = "put_source B i g (put_projection B manifest_projection i (StManifest (persist_manifest m))
      (sync_event B now (n + 1) i ''manifest.imported'' g t))"
    show ?thesis
    proof (rule that [of "n + 1" "k + 1" u ?t])
      show "import_loop B now vs (n + 1, k + 1, u, ?t) = (n', k', u', t')"
        using Cons.prems(1) False by (auto simp: v synced_def source_digest_def Let_def split: if_split_asm)
      show "tx_ok ok ?t" using Cons.prems(2) by simp
      show "synced B ?t v"
        using Cons.prems(2) src by (simp add: v synced_def source_digest_def put_source_def get_put get_projection_def
          put_projection_def set_projection_def projection_bucket_def tx_ok_def ok_empty split: option.splits)
    qed
  qed
  have "fst v \<notin> fst ` set vs" using Cons.prems(3) by simp
  then have "synced B t' v"
    using import_loop_frame [OF step t1(1)] t1(2) by (simp add: v synced_def source_digest_def)
  then show ?case using Cons.IH [OF step t1(1)] Cons.prems(3) by simp
qed simp

lemma remove_loop_frame:
  assumes "remove_loop_tx B now ids (n, k, t) = (n', k', t')" and "tx_ok ok t"
  shows "tx_ok ok t' \<and> tx_meta t' = tx_meta t \<and> (\<forall>i. b_get B (tx_sources t') i = (if i \<in> set ids then None else b_get B (tx_sources t) i))
    \<and> (\<forall>i. i \<notin> set ids \<longrightarrow> get_projection B manifest_projection i t' = get_projection B manifest_projection i t)"
  using assms
proof (induction ids arbitrary: n k t)
  case (Cons i ids)
  have src: "ok (tx_sources t)" using Cons.prems(2) by (simp add: tx_ok_def)
  let ?s = "sync_event B now (n + 1) i ''manifest.removed'' (as_bytes (b_get B (tx_sources t) i)) t"
  let ?t = "(delete_projection B manifest_projection i ?s)\<lparr>tx_sources := b_delete B i (tx_sources t)\<rparr>"
  have "remove_loop_tx B now ids (n + 1, k + 1, ?t) = (n', k', t')"
    using Cons.prems(1) by (simp add: Let_def)
  moreover have "tx_ok ok ?t"
    using tx_ok_put(9) [of "delete_projection B manifest_projection i ?s" i] Cons.prems(2) by simp
  ultimately show ?case
    using Cons.IH [of "n + 1" "k + 1" ?t] src Cons.prems(2)
    by (simp add: get_delete)
qed simp

lemma projection_bucket_same [simp]:
  "get_projection B name k (set_projection p (projection_bucket B p t) t) = get_projection B name k t"
  by (auto simp: get_projection_def set_projection_def projection_bucket_def get_empty split: option.splits)

lemma sync_run:
  assumes "sync_imported_manifests B now vs True d = (r, d')" and "log_rep B ok (db_tx d) L" and "tx_ok ok (db_tx d)"
    and "distinct (List.map fst vs)" and "[] \<notin> fst ` set vs" and "b_get B (tx_sources (db_tx d)) [] = None"
    and "length L + length vs + card {i. b_get B (tx_sources (db_tx d)) i \<noteq> None} < 2 ^ 64"
  shows "\<exists>es. log_rep B ok (db_tx d') (log_appends es L) \<and> length es = sy_imported r + sy_removed r
    \<and> sy_imported r + sy_unchanged r = length vs \<and> tx_ok ok (db_tx d') \<and> list_all (synced B (db_tx d')) vs
    \<and> (\<forall>i. b_get B (tx_sources (db_tx d')) i \<noteq> None \<longrightarrow> i \<in> fst ` set vs)"
proof -
  define t0 where "t0 = set_projection manifest_projection (projection_bucket B manifest_projection (db_tx d)) (db_tx d)"
  have rep: "ev_rep B ok t0 L" "rev_rep B ok t0 L" "seq_rep B ok t0 L" and ok0: "tx_ok ok t0"
    using assms(2,3) by (simp_all add: log_rep_def t0_def)
  have seq: "global_sequence B t0 = of_nat (length L)" using rep(3) by (simp add: seq_rep_def)
  obtain n k u t1 where imp: "import_loop B now vs (of_nat (length L), 0, 0, t0) = (n, k, u, t1)"
    by (metis prod_cases4)
  define stale where "stale = sort_strings (filter (\<lambda>i. i \<notin> fst ` set vs) (List.map fst (b_entries B (tx_sources t1))))"
  obtain n2 k2 t2 where rem: "remove_loop_tx B now stale (n, 0, t1) = (n2, k2, t2)"
    by (metis prod_cases3)
  have r: "sy_imported r = k" "sy_unchanged r = u" "sy_removed r = k2" and d': "db_tx d' = put_sequence B n2 t2"
    using assms(1) imp rem by (auto simp: sync_imported_manifests_def Let_def t0_def [symmetric] seq stale_def [symmetric])
  have frame1: "tx_ok ok t1" "tx_meta t1 = tx_meta t0"
      "\<And>i. i \<notin> fst ` set vs \<Longrightarrow> b_get B (tx_sources t1) i = b_get B (tx_sources t0) i"
    using import_loop_frame [OF imp ok0] by blast+
  have synced1: "list_all (synced B t1) vs" by (rule import_loop_all_synced [OF imp ok0 assms(4)])
  have src1: "ok (tx_sources t1)" using frame1(1) by (simp add: tx_ok_def)
  have mem: "i \<in> set stale \<longleftrightarrow> i \<notin> fst ` set vs \<and> b_get B (tx_sources t0) i \<noteq> None" for i
  proof -
    have "i \<in> set (List.map fst (b_entries B (tx_sources t1))) \<longleftrightarrow> b_get B (tx_sources t1) i \<noteq> None"
      using entries_get [OF src1] by force
    moreover have "i \<in> set stale \<longleftrightarrow> i \<notin> fst ` set vs \<and> i \<in> set (List.map fst (b_entries B (tx_sources t1)))"
      unfolding stale_def set_sort_strings by auto
    ultimately show ?thesis using frame1(3) [of i] by metis
  qed
  have src0: "tx_sources t0 = tx_sources (db_tx d)" by (simp add: t0_def)
  have "distinct stale" using entries_distinct [OF src1] by (simp add: stale_def)
  moreover have "set stale \<subseteq> {i. b_get B (tx_sources (db_tx d)) i \<noteq> None}" using mem src0 by auto
  moreover have "finite {i. b_get B (tx_sources (db_tx d)) i \<noteq> None}"
    using finite_keys assms(3) by (simp add: tx_ok_def)
  ultimately have len: "length stale \<le> card {i. b_get B (tx_sources (db_tx d)) i \<noteq> None}"
    by (metis card_mono distinct_card)
  have "length L + length vs < 2 ^ 64" using assms(7) by linarith
  from import_loop_refines [OF imp rep(1,2) this assms(5)] obtain es where
    es: "ev_rep B ok t1 (log_appends es L)" "rev_rep B ok t1 (log_appends es L)"
      "n = of_nat (length (log_appends es L))" "k = length es" "u + length es = length vs"
    by (auto simp: Let_def)
  have "remove_loop_tx B now stale (of_nat (length (log_appends es L)), 0, t1) = (n2, k2, t2)"
    using rem es(3) by simp
  moreover have "[] \<notin> set stale" using mem assms(6) src0 by simp
  moreover have "length (log_appends es L) + length stale < 2 ^ 64"
    using assms(7) len es(5) by simp
  ultimately obtain fs where
    fs: "ev_rep B ok t2 (log_appends fs (log_appends es L))" "rev_rep B ok t2 (log_appends fs (log_appends es L))"
      "n2 = of_nat (length (log_appends fs (log_appends es L)))" "k2 = length fs"
    using remove_loop_refines [OF _ es(1,2)] by (fastforce simp: Let_def)
  have frame2: "tx_ok ok t2" "tx_meta t2 = tx_meta t1"
      "\<And>i. b_get B (tx_sources t2) i = (if i \<in> set stale then None else b_get B (tx_sources t1) i)"
      "\<And>i. i \<notin> set stale \<Longrightarrow> get_projection B manifest_projection i t2 = get_projection B manifest_projection i t1"
    using remove_loop_frame [OF rem frame1(1)] by blast+
  have "seq_rep B ok t2 L"
    using rep(3) frame1(2) frame2(2) by (simp add: seq_rep_def global_sequence_def)
  then have "log_rep B ok (db_tx d') (log_appends (es @ fs) L)"
    using fs(1,2) seq_rep_put unfolding d' log_rep_def log_appends_append fs(3) rep_cong by blast
  moreover have "synced B (db_tx d') v" if "v \<in> set vs" for v
  proof -
    obtain i m g where v: "v = (i, m, g)" by (cases v)
    have "i \<in> fst ` set vs" using that v by force
    then have "i \<notin> set stale" using mem by blast
    moreover have "synced B t1 v" using synced1 that by (simp add: list_all_iff)
    ultimately show ?thesis
      using frame2(3) [of i] frame2(4) [of i]
      by (simp add: v d' synced_def source_digest_def put_sequence_def get_projection_def)
  qed
  then have "list_all (synced B (db_tx d')) vs" by (simp add: list_all_iff)
  moreover have "\<forall>i. b_get B (tx_sources (db_tx d')) i \<noteq> None \<longrightarrow> i \<in> fst ` set vs"
  proof (intro allI impI)
    fix i
    assume "b_get B (tx_sources (db_tx d')) i \<noteq> None"
    then have "i \<notin> set stale" "b_get B (tx_sources t1) i \<noteq> None"
      using frame2(3) [of i] by (simp_all add: d' put_sequence_def split: if_split_asm)
    then show "i \<in> fst ` set vs" using mem [of i] frame1(3) [of i] by metis
  qed
  moreover have "tx_ok ok (db_tx d')" using frame2(1) by (simp add: d')
  ultimately show ?thesis
    using es(4,5) fs(4) r by (intro exI [of _ "es @ fs"]) simp
qed

lemma sync_again:
  assumes "tx_ok ok (db_tx d)" and "log_rep B ok (db_tx d) L" and "list_all (synced B (db_tx d)) vs"
    and "\<forall>i. b_get B (tx_sources (db_tx d)) i \<noteq> None \<longrightarrow> i \<in> fst ` set vs"
    and "sync_imported_manifests B now vs True d = (r, d')"
  shows "sy_imported r = 0 \<and> sy_removed r = 0 \<and> sy_unchanged r = length vs \<and> log_rep B ok (db_tx d') L"
proof -
  define t0 where "t0 = set_projection manifest_projection (projection_bucket B manifest_projection (db_tx d)) (db_tx d)"
  have "list_all (synced B t0) vs"
    using assms(3) by (simp add: list_all_iff synced_def source_digest_def t0_def)
  note imp = import_loop_synced [OF this]
  have src: "ok (tx_sources t0)" "tx_sources t0 = tx_sources (db_tx d)"
    using assms(1) by (simp_all add: t0_def tx_ok_def)
  have "filter (\<lambda>i. i \<notin> fst ` set vs) (List.map fst (b_entries B (tx_sources t0))) = []"
    using assms(4) entries_get [OF src(1)] src(2) by (auto simp: filter_empty_conv)
  then have "sy_imported r = 0 \<and> sy_removed r = 0 \<and> sy_unchanged r = length vs
      \<and> db_tx d' = put_sequence B (global_sequence B t0) t0"
    using assms(5) by (auto simp: sync_imported_manifests_def Let_def t0_def [symmetric] imp sort_strings_def)
  moreover have "log_rep B ok t0 L" using assms(2) by (simp add: log_rep_def t0_def)
  then have "log_rep B ok (put_sequence B (global_sequence B t0) t0) L"
    using seq_rep_put [of t0 L L] by (simp add: log_rep_def seq_rep_def)
  ultimately show ?thesis by simp
qed

end


section \<open>Concrete runs\<close>

abbreviation list_tx :: "(string \<times> stored) list tx_state" where
  "list_tx \<equiv> new_tx list_bolt"

lemma list_tx_rep: "log_rep list_bolt kv_ok list_tx []" and list_tx_ok: "tx_ok kv_ok list_tx"
  using list_events.new_tx_rep by simp_all

lemma list_tx_attention: "read_attention list_bolt i list_tx = Inr (empty_attention i, False)"
  by (simp add: read_attention_def get_projection_def new_tx_def)

definition sample_markers :: "(string \<times> instant) list" where
  "sample_markers = [(''attention.read'', 5), (''attention.read'', 3)]"

lemma sample_marker_run: "\<exists>t'. run_markers list_bolt ''x'' sample_markers list_tx = Inr t'"
  by (simp add: sample_markers_def record_marker_def list_tx_attention list_events.read_put_attention list_tx_ok
      empty_attention_def)

theorem markers_order_independent_witness:
  "\<exists>t' a f. run_markers list_bolt ''x'' sample_markers list_tx = Inr t'
     \<and> read_attention list_bolt ''x'' t' = Inr (a, f) \<and> aa_read_at a = Some 5"
proof -
  obtain t' where run: "run_markers list_bolt ''x'' sample_markers list_tx = Inr t'"
    using sample_marker_run by blast
  have "latest (set_option None \<union> marker_times ''attention.read'' sample_markers) = Some 5"
    by (simp add: sample_markers_def latest_def)
  then show ?thesis
    using markers_order_independent [OF list_store.bucket_store_axioms list_tx_ok list_tx_attention run] run
    by (auto simp: empty_attention_def)
qed

definition sample_checkpoint :: source_checkpoint where
  "sample_checkpoint = \<lparr>sc_source = ''a'', sc_fingerprint = [], sc_fingerprint_size = 0, sc_offset = 4, sc_size = 4,
     sc_modified_at = 1, sc_observed_at = 2, sc_seen = 1, sc_imported = 1, sc_skipped = 0\<rparr>"

lemma sample_source_key: "valid_source_key ''a''"
  by (simp add: valid_source_key_def is_abs_def path_clean_def)

lemma sample_batch:
  "\<exists>r d'. commit_source_batch list_bolt sample_checkpoint [sample_pending] [] list_db = Inr (r, d')"
  by (simp add: commit_source_batch_def sample_checkpoint_def sample_source_key sample_pending_def Let_def)

lemma sample_batch_again:
  assumes "commit_source_batch list_bolt sample_checkpoint [sample_pending] [] list_db = Inr (r, d')"
  shows "\<exists>r' d''. commit_source_batch list_bolt sample_checkpoint [sample_pending] [] d' = Inr (r', d'')"
  using assms
  by (auto simp: commit_source_batch_def sample_checkpoint_def sample_source_key sample_pending_def Let_def
      put_event_def put_sequence_def put_revision_def kv_get_def source_event_def)

theorem batch_replay_idempotent_witness:
  "\<exists>r' d' d''. commit_source_batch list_bolt sample_checkpoint [sample_pending] [] d' = Inr (r', d'')
     \<and> br_imported r' = 0 \<and> br_duplicates r' = 1"
proof -
  obtain r d' where run: "commit_source_batch list_bolt sample_checkpoint [sample_pending] [] list_db = Inr (r, d')"
    using sample_batch by blast
  obtain r' d'' where again: "commit_source_batch list_bolt sample_checkpoint [sample_pending] [] d' = Inr (r', d'')"
    using sample_batch_again [OF run] by blast
  show ?thesis
    using batch_replay_idempotent [OF list_store.bucket_store_axioms _ _ run again, of "[]"] list_tx_rep again by auto
qed

theorem batch_keeps_markers_witness:
  "\<exists>r d' a f. commit_source_batch list_bolt sample_checkpoint [sample_pending] [] list_db = Inr (r, d')
     \<and> read_attention list_bolt ''x'' (db_tx d') = Inr (a, f) \<and> markers_at_least a (empty_attention ''x'')"
proof -
  obtain r d' where run: "commit_source_batch list_bolt sample_checkpoint [sample_pending] [] list_db = Inr (r, d')"
    using sample_batch by blast
  have "read_attention list_bolt ''x'' (db_tx list_db) = Inr (empty_attention ''x'', False)"
    by (simp add: list_tx_attention)
  from batch_keeps_markers [OF list_store.bucket_store_axioms _ run this] list_tx_ok run show ?thesis by auto
qed


end
