(* ===== verification/Blockers.thy ===== *)
theory Blockers
  imports Sources
begin

text \<open>
  Blockers of an item as the coordinator changes them (\<open>internal/coordinator/blockers.go\<close>): adding with
  the cycle check, clearing, the transaction that commits an item's events, and the sweep of
  blockers whose condition passed. The item-to-item graph of the blockers stays acyclic.
\<close>

record command_event =
  ce_type :: string
  ce_payload :: json

text \<open>\<open>json.Marshal\<close> of a map with string keys writes them in order.\<close>

type_synonym event_data = "(string \<times> json) list"

definition emit :: "string \<Rightarrow> event_data \<Rightarrow> command_event" where
  "emit kind data = \<lparr>ce_type = kind, ce_payload = JObj data\<rparr>"

definition blocker_id :: "string \<Rightarrow> nat \<Rightarrow> string" where
  "blocker_id command index = ''b'' @ hex_digest 4 (''blocker:'' @ command @ '':'' @ itoa index)"

definition blocker_event_data :: "blocker \<Rightarrow> event_data" where
  "blocker_event_data b =
     (let data = kv_put ''kind'' (JStr (bl_kind b)) (kv_put ''blocker_id'' (JStr (bl_id b)) []);
          data = (case bl_until b of None \<Rightarrow> data | Some u \<Rightarrow> kv_put ''until'' (JTime u) data);
          data = (if bl_item b \<noteq> [] then kv_put ''blocking_item_id'' (JStr (bl_item b)) data else data);
          data = (if bl_event b \<noteq> [] then kv_put ''event'' (JStr (bl_event b)) data else data);
          data = (if bl_label b \<noteq> [] then kv_put ''label'' (JStr (bl_label b)) data else data)
      in if bl_meta b \<noteq> [] then kv_put ''meta'' (JObj (List.map (\<lambda>(k, v). (k, JStr v)) (bl_meta b))) data else data)"

section \<open>Item dependencies\<close>

text \<open>\<open>byID\<close>: a Go map, with the last manifest of an identity.\<close>

type_synonym manifests = "(string \<times> manifest) list"

definition by_id :: "manifest list \<Rightarrow> manifests" where
  "by_id all = fold (\<lambda>m g. kv_put (m_id m) m g) all []"

definition item_targets :: "manifest \<Rightarrow> string list" where
  "item_targets m = List.map bl_item (filter (\<lambda>b. bl_kind b = blocker_item) (m_blockers m))"

definition targets_of :: "manifests \<Rightarrow> string \<Rightarrow> string list" where
  "targets_of g i = (case kv_get g i of None \<Rightarrow> [] | Some m \<Rightarrow> item_targets m)"

text \<open>The search of \<open>blocksTransitively\<close>: the top of its stack is the head of the list.\<close>

function dfs_blocked :: "manifests \<Rightarrow> string \<Rightarrow> string list \<Rightarrow> string list \<Rightarrow> bool" where
  "dfs_blocked g target seen [] = False"
| "dfs_blocked g target seen (current # stack) =
     (if current \<in> set seen then dfs_blocked g target seen stack
      else if target \<in> set (targets_of g current) then True
      else dfs_blocked g target (current # seen) (rev (targets_of g current) @ stack))"
  by pat_completeness auto

termination
proof (relation "(\<lambda>(g, target, seen, stack). card (fst ` set g - set seen)) <*mlex*>
    measure (\<lambda>(g, target, seen, stack). length stack)", goal_cases)
  case 1
  show ?case by (intro wf_mlex wf_measure)
next
  case (2 g target seen current stack)
  then show ?case by (simp add: mlex_iff)
next
  case (3 g target seen current stack)
  show ?case
  proof (cases "current \<in> fst ` set g")
    case True
    then have "fst ` set g - set (current # seen) \<subset> fst ` set g - set seen" using 3 by auto
    then have "card (fst ` set g - set (current # seen)) < card (fst ` set g - set seen)"
      by (intro psubset_card_mono) auto
    then show ?thesis by (simp add: mlex_iff)
  next
    case False
    then have "targets_of g current = []"
      by (simp add: targets_of_def kv_get_def map_of_eq_None_iff [THEN iffD2])
    moreover have "fst ` set g - set (current # seen) = fst ` set g - set seen" using False by auto
    ultimately show ?thesis by (simp add: mlex_iff)
  qed
qed

definition blocks_transitively :: "manifests \<Rightarrow> string \<Rightarrow> string \<Rightarrow> bool" where
  "blocks_transitively g origin target = dfs_blocked g target [] [origin]"

section \<open>Adding and clearing\<close>

fun add_blockers ::
  "string \<Rightarrow> instant \<Rightarrow> nat \<Rightarrow> blocker list \<Rightarrow> manifest \<times> manifests \<times> command_event list
   \<Rightarrow> (coord_error, manifest \<times> manifests \<times> command_event list) result" where
  "add_blockers command now index [] st = Inr st"
| "add_blockers command now index (requested # rest) (m, g, events) =
     (let b = requested\<lparr>bl_event := trim_space (bl_event requested), bl_label := trim_space (bl_label requested),
            bl_id := blocker_id command index, bl_created_at := now\<rparr>
      in case validate_blocker b (m_id m) now of
           Inl e \<Rightarrow> Inl (OfBlocker e)
         | Inr _ \<Rightarrow>
             (let add = (let m = m\<lparr>m_blockers := m_blockers m @ [b]\<rparr>
                    in add_blockers command now (Suc index) rest
                         (m, kv_put (m_id m) m g, events @ [emit ''blocker.added'' (blocker_event_data b)]))
              in if bl_kind b = blocker_item then
                   (case kv_get g (bl_item b) of
                      None \<Rightarrow> Inl (Refused ''work item does not exist'')
                    | Some target \<Rightarrow>
                        if m_state target = state_closed then Inl (Refused ''work item is already closed'')
                        else if list_ex (\<lambda>x. bl_kind x = blocker_item \<and> bl_item x = bl_item b) (m_blockers m)
                          then add_blockers command now (Suc index) rest (m, g, events)
                        else if blocks_transitively g (bl_item b) (m_id m)
                          then Inl (Refused ''refusing a dependency cycle'')
                        else add)
                 else add))"

definition apply_blocker_add ::
  "manifest_command \<Rightarrow> manifest \<Rightarrow> manifest list \<Rightarrow> (coord_error, manifest \<times> command_event list) result" where
  "apply_blocker_add c m all =
     (if mc_blockers c = [] then Inl (Refused ''at least one blocker is required'')
      else if m_state m = state_closed then Inl (Refused ''closed items cannot wait'')
      else rbind (add_blockers (mc_id c) (mc_created_at c) 0 (mc_blockers c) (m, by_id all, []))
        (\<lambda>(m, g, events).
           Inr (m, if events \<noteq> []
                   then events @ [emit ''attention.read'' [(''at'', JTime (mc_created_at c)), (''cause'', JStr ''waiting'')]]
                   else events)))"

definition cleared :: "string \<Rightarrow> blocker \<Rightarrow> command_event" where
  "cleared cause b = emit ''blocker.cleared'' (kv_put ''cause'' (JStr cause) (blocker_event_data b))"

definition clear_all_blockers :: "string \<Rightarrow> manifest \<Rightarrow> manifest \<times> command_event list" where
  "clear_all_blockers cause m = (m\<lparr>m_blockers := []\<rparr>, List.map (cleared cause) (m_blockers m))"

definition apply_blocker_clear ::
  "manifest_command \<Rightarrow> manifest \<Rightarrow> (coord_error, manifest \<times> command_event list) result" where
  "apply_blocker_clear c m =
     (let i = trim_space (mc_blocker_id c)
      in if i = [] then Inr (clear_all_blockers ''manual'' m)
         else if \<not> list_ex (\<lambda>b. bl_id b = i) (m_blockers m) then Inl (Refused ''work item has no such blocker'')
         else Inr (m\<lparr>m_blockers := filter (\<lambda>b. bl_id b \<noteq> i) (m_blockers m)\<rparr>,
                   List.map (cleared ''manual'') (filter (\<lambda>b. bl_id b = i) (m_blockers m))))"

section \<open>The dependency graph\<close>

definition blocking :: "manifests \<Rightarrow> (string \<times> string) set" where
  "blocking g = {(i, j). j \<in> set (targets_of g i)}"

lemma blocking_iff: "(i, j) \<in> blocking g \<longleftrightarrow> j \<in> set (targets_of g i)"
  by (simp add: blocking_def)

lemma dfs_blocked_sound:
  "dfs_blocked g target seen stack \<Longrightarrow> \<exists>x\<in>set stack. (x, target) \<in> (blocking g)\<^sup>+"
proof (induction g target seen stack rule: dfs_blocked.induct)
  case (2 g target seen current stack)
  show ?case
  proof (cases "current \<in> set seen")
    case True
    with 2 show ?thesis by auto
  next
    case new: False
    show ?thesis
    proof (cases "target \<in> set (targets_of g current)")
      case True
      then show ?thesis by (auto simp: blocking_iff)
    next
      case False
      with 2 new obtain x where "x \<in> set (targets_of g current) \<union> set stack" "(x, target) \<in> (blocking g)\<^sup>+"
        by auto
      then show ?thesis by (auto simp: blocking_iff dest: trancl_into_trancl2 [rotated])
    qed
  qed
qed simp

lemma dfs_blocked_closed:
  assumes "\<not> dfs_blocked g target seen stack"
    and "\<And>i. i \<in> set seen \<Longrightarrow> target \<notin> set (targets_of g i) \<and> set (targets_of g i) \<subseteq> set seen \<union> set stack"
  shows "\<exists>S. set seen \<union> set stack \<subseteq> S \<and> (\<forall>i\<in>S. target \<notin> set (targets_of g i) \<and> set (targets_of g i) \<subseteq> S)"
  using assms
proof (induction g target seen stack rule: dfs_blocked.induct)
  case (1 g target seen)
  then show ?case by (intro exI [of _ "set seen"]) auto
next
  case (2 g target seen current stack)
  show ?case
  proof (cases "current \<in> set seen")
    case True
    have "\<exists>S. set seen \<union> set stack \<subseteq> S \<and> (\<forall>i\<in>S. target \<notin> set (targets_of g i) \<and> set (targets_of g i) \<subseteq> S)"
    proof (rule "2.IH"(1) [OF True])
      show "\<not> dfs_blocked g target seen stack" using "2.prems"(1) True by simp
      show "target \<notin> set (targets_of g i) \<and> set (targets_of g i) \<subseteq> set seen \<union> set stack" if "i \<in> set seen" for i
        using "2.prems"(2) [OF that] True by (simp add: insert_absorb)
    qed
    moreover have "set seen \<union> set (current # stack) = set seen \<union> set stack" using True by auto
    ultimately show ?thesis by (simp only:)
  next
    case False
    have none: "target \<notin> set (targets_of g current)" using "2.prems"(1) False by auto
    have "\<exists>S. set (current # seen) \<union> set (rev (targets_of g current) @ stack) \<subseteq> S
        \<and> (\<forall>i\<in>S. target \<notin> set (targets_of g i) \<and> set (targets_of g i) \<subseteq> S)"
    proof (rule "2.IH"(2) [OF False none])
      show "\<not> dfs_blocked g target (current # seen) (rev (targets_of g current) @ stack)"
        using "2.prems"(1) False none by simp
      show "target \<notin> set (targets_of g i) \<and> set (targets_of g i)
          \<subseteq> set (current # seen) \<union> set (rev (targets_of g current) @ stack)" if "i \<in> set (current # seen)" for i
        using that "2.prems"(2) [of i] none by auto
    qed
    moreover have "set seen \<union> set (current # stack) \<subseteq> set (current # seen) \<union> set (rev (targets_of g current) @ stack)"
      by auto
    ultimately show ?thesis by (meson order_trans)
  qed
qed

lemma closed_no_path:
  assumes "\<forall>i\<in>S. target \<notin> set (targets_of g i) \<and> set (targets_of g i) \<subseteq> S"
    and "(i, j) \<in> (blocking g)\<^sup>+" and "i \<in> S"
  shows "j \<in> S \<and> j \<noteq> target"
  using assms(2,3)
  by (induction rule: trancl_induct) (use assms(1) in \<open>auto simp: blocking_iff\<close>)

lemma blocks_transitively_path:
  "blocks_transitively g origin target \<longleftrightarrow> (origin, target) \<in> (blocking g)\<^sup>+"
proof
  show "(origin, target) \<in> (blocking g)\<^sup>+" if "blocks_transitively g origin target"
    using dfs_blocked_sound [of g target "[]" "[origin]"] that by (simp add: blocks_transitively_def)
next
  assume path: "(origin, target) \<in> (blocking g)\<^sup>+"
  show "blocks_transitively g origin target"
  proof (rule ccontr)
    assume "\<not> blocks_transitively g origin target"
    then obtain S where "origin \<in> S" "\<forall>i\<in>S. target \<notin> set (targets_of g i) \<and> set (targets_of g i) \<subseteq> S"
      using dfs_blocked_closed [of g target "[]" "[origin]"] by (auto simp: blocks_transitively_def)
    with closed_no_path [OF this(2) path] show False by blast
  qed
qed

text \<open>C28: the search decides reachability: an item is reported as blocked by a target exactly when a chain of
  item blockers leads from it to the target.\<close>

theorem blocks_transitively_iff:
  "blocks_transitively g origin target \<longleftrightarrow> (origin, target) \<in> (blocking g)\<^sup>+"
  by (rule blocks_transitively_path)

section \<open>The graph stays acyclic\<close>

lemma kv_ok_by_id_fold: "kv_ok g \<Longrightarrow> kv_ok (fold (\<lambda>m g. kv_put (m_id m) m g) all g)"
  by (induction all arbitrary: g) auto

lemma kv_ok_by_id [simp]: "kv_ok (by_id all)"
  by (simp add: by_id_def kv_ok_by_id_fold)

lemma targets_of_put:
  "kv_ok g \<Longrightarrow> targets_of (kv_put i m g) j = (if j = i then item_targets m else targets_of g j)"
  by (simp add: targets_of_def kv_get_put)

lemma blocking_put_same:
  "kv_ok g \<Longrightarrow> set (item_targets m) = set (targets_of g i) \<Longrightarrow> blocking (kv_put i m g) = blocking g"
  by (auto simp: blocking_def targets_of_put split: if_split_asm)

lemma blocking_put_insert:
  "kv_ok g \<Longrightarrow> set (item_targets m) = insert k (set (targets_of g i)) \<Longrightarrow> blocking (kv_put i m g) = insert (i, k) (blocking g)"
  by (auto simp: blocking_def targets_of_put split: if_split_asm)

lemma add_blockers_acyclic:
  assumes "add_blockers command now index bs (m, g, events) = Inr (m', g', events')"
    and "kv_ok g" and "kv_get g (m_id m) = Some m" and "acyclic (blocking g)"
  shows "kv_ok g' \<and> kv_get g' (m_id m') = Some m' \<and> acyclic (blocking g') \<and> m_id m' = m_id m
    \<and> (\<forall>i. i \<noteq> m_id m \<longrightarrow> kv_get g' i = kv_get g i)"
  using assms
proof (induction bs arbitrary: index m g events)
  case (Cons requested rest)
  define b where "b = requested\<lparr>bl_event := trim_space (bl_event requested), bl_label := trim_space (bl_label requested),
            bl_id := blocker_id command index, bl_created_at := now\<rparr>"
  define m1 where "m1 = m\<lparr>m_blockers := m_blockers m @ [b]\<rparr>"
  define g1 where "g1 = kv_put (m_id m) m1 g"
  obtain u where valid: "validate_blocker b (m_id m) now = Inr u"
    using Cons.prems(1) by (auto simp: Let_def b_def split: sum.splits)
  have tg: "targets_of g (m_id m) = item_targets m" using Cons.prems(3) by (simp add: targets_of_def)
  have id1: "m_id m1 = m_id m" by (simp add: m1_def)
  consider (skip) "add_blockers command now (Suc index) rest (m, g, events) = Inr (m', g', events')"
    | (add) e where "add_blockers command now (Suc index) rest (m1, g1, e) = Inr (m', g', events')"
        "bl_kind b = blocker_item \<longrightarrow> \<not> blocks_transitively g (bl_item b) (m_id m)"
    using Cons.prems(1) valid
    by (auto simp: Let_def b_def [symmetric] m1_def [symmetric] g1_def id1 [symmetric]
        split: if_split_asm option.splits)
  then show ?case
  proof cases
    case skip
    from Cons.IH [OF this Cons.prems(2-4)] show ?thesis .
  next
    case add
    have "acyclic (blocking g1)"
    proof (cases "bl_kind b = blocker_item")
      case True
      have "bl_item b \<noteq> m_id m" using validate_blocker_item [of b "m_id m" now] valid True by simp
      moreover have "(bl_item b, m_id m) \<notin> (blocking g)\<^sup>+" using add(2) True by (simp add: blocks_transitively_path)
      ultimately have "(bl_item b, m_id m) \<notin> (blocking g)\<^sup>*" by (simp add: rtrancl_eq_or_trancl)
      moreover have "blocking g1 = insert (m_id m, bl_item b) (blocking g)"
        unfolding g1_def
        by (rule blocking_put_insert [OF Cons.prems(2)]) (auto simp: tg m1_def item_targets_def True)
      ultimately show ?thesis using Cons.prems(4) by (simp add: acyclic_insert)
    next
      case False
      then have "blocking g1 = blocking g"
        unfolding g1_def
        by (intro blocking_put_same [OF Cons.prems(2)]) (simp add: tg m1_def item_targets_def)
      then show ?thesis using Cons.prems(4) by simp
    qed
    moreover have "kv_ok g1" "kv_get g1 (m_id m1) = Some m1"
      using Cons.prems(2) by (simp_all add: g1_def id1 kv_get_put)
    ultimately have "kv_ok g' \<and> kv_get g' (m_id m') = Some m' \<and> acyclic (blocking g') \<and> m_id m' = m_id m
        \<and> (\<forall>i. i \<noteq> m_id m \<longrightarrow> kv_get g' i = kv_get g1 i)"
      using Cons.IH [OF add(1)] unfolding id1 by blast
    moreover have "kv_get g1 i = kv_get g i" if "i \<noteq> m_id m" for i
      using that Cons.prems(2) by (simp add: g1_def kv_get_put)
    ultimately show ?thesis by metis
  qed
qed simp

lemma add_keeps_acyclic:
  assumes "apply_blocker_add c m all = Inr (m', events)"
    and "kv_get (by_id all) (m_id m) = Some m" and "acyclic (blocking (by_id all))"
  shows "acyclic (blocking (kv_put (m_id m) m' (by_id all))) \<and> m_id m' = m_id m"
proof -
  obtain g es where run: "add_blockers (mc_id c) (mc_created_at c) 0 (mc_blockers c) (m, by_id all, []) = Inr (m', g, es)"
    using assms(1) by (auto simp: apply_blocker_add_def rbind_Inr_iff split: if_split_asm)
  note r = add_blockers_acyclic [OF run kv_ok_by_id assms(2,3)]
  have "targets_of (kv_put (m_id m) m' (by_id all)) i = targets_of g i" for i
    using r by (cases "i = m_id m") (simp_all add: targets_of_def kv_get_put, metis option.simps(5))
  then have "blocking (kv_put (m_id m) m' (by_id all)) = blocking g" by (simp add: blocking_def)
  with r show ?thesis by simp
qed

text \<open>C29: adding blockers keeps the item dependencies acyclic, whatever blockers one command names: with the
  item replaced by the result, the graph has no cycle.\<close>

theorem apply_blocker_add_acyclic:
  assumes "apply_blocker_add c m all = Inr (m', events)"
    and "kv_get (by_id all) (m_id m) = Some m" and "acyclic (blocking (by_id all))"
  shows "acyclic (blocking (kv_put (m_id m) m' (by_id all))) \<and> m_id m' = m_id m"
  using add_keeps_acyclic [OF assms] .

lemma add_blockers_keeps:
  assumes "add_blockers command now index bs (m, g, events) = Inr (m', g', events')"
  shows "(\<exists>new. m' = m\<lparr>m_blockers := m_blockers m @ new\<rparr> \<and> (\<forall>b\<in>set new. validate_blocker b (m_id m) now = Inr ()
    \<and> bl_created_at b = now \<and> (\<exists>k. bl_id b = blocker_id command k))
    \<and> events' = events @ List.map (\<lambda>b. emit ''blocker.added'' (blocker_event_data b)) new)"
  using assms
proof (induction bs arbitrary: index m g events)
  case Nil
  then show ?case by simp
next
  case (Cons requested rest)
  define b where "b = requested\<lparr>bl_event := trim_space (bl_event requested), bl_label := trim_space (bl_label requested),
            bl_id := blocker_id command index, bl_created_at := now\<rparr>"
  define m1 where "m1 = m\<lparr>m_blockers := m_blockers m @ [b]\<rparr>"
  obtain u where valid: "validate_blocker b (m_id m) now = Inr u"
    using Cons.prems(1) by (auto simp: Let_def b_def split: sum.splits)
  have id1: "m_id m1 = m_id m" by (simp add: m1_def)
  consider (skip) "add_blockers command now (Suc index) rest (m, g, events) = Inr (m', g', events')"
    | (add) "add_blockers command now (Suc index) rest (m1, kv_put (m_id m) m1 g,
        events @ [emit ''blocker.added'' (blocker_event_data b)]) = Inr (m', g', events')"
    using Cons.prems(1) valid
    by (auto simp: Let_def b_def [symmetric] m1_def [symmetric] id1 [symmetric]
        split: if_split_asm option.splits)
  then show ?case
  proof cases
    case skip
    from Cons.IH [OF this] show ?thesis .
  next
    case add
    from Cons.IH [OF this, unfolded id1] obtain new where
      new: "m' = m1\<lparr>m_blockers := m_blockers m1 @ new\<rparr>"
      "\<forall>b\<in>set new. validate_blocker b (m_id m) now = Inr () \<and> bl_created_at b = now \<and> (\<exists>k. bl_id b = blocker_id command k)"
      "events' = (events @ [emit ''blocker.added'' (blocker_event_data b)])
         @ List.map (\<lambda>b. emit ''blocker.added'' (blocker_event_data b)) new"
      by blast
    have "bl_created_at b = now" "bl_id b = blocker_id command index" by (simp_all add: b_def)
    with new valid show ?thesis
      by (intro exI [of _ "b # new"]) (auto simp: m1_def)
  qed
qed

section \<open>Committing an item's events\<close>

definition domain_event_id :: "string \<Rightarrow> nat \<Rightarrow> string" where
  "domain_event_id command index = ''event-'' @ hex_digest 16 (command @ '':'' @ itoa index)"

definition manifest_event :: "string \<Rightarrow> string \<Rightarrow> string \<Rightarrow> instant \<Rightarrow> nat \<Rightarrow> command_event \<Rightarrow> domain_event" where
  "manifest_event item causation actor created index ev = \<lparr>de_sequence = 0, de_id = domain_event_id causation index,
     de_item = item, de_revision = 0, de_type = ce_type ev, de_time = created, de_actor = actor,
     de_causation = causation, de_payload = ce_payload ev\<rparr>"

fun manifest_event_loop ::
  "('b, stored) bolt \<Rightarrow> string \<Rightarrow> string \<Rightarrow> string \<Rightarrow> instant \<Rightarrow> nat \<Rightarrow> command_event list
   \<Rightarrow> 64 word \<times> 64 word \<times> domain_event list \<times> 'b tx_state
   \<Rightarrow> (coord_error, 64 word \<times> 64 word \<times> domain_event list \<times> 'b tx_state) result" where
  "manifest_event_loop B item causation actor created index [] st = Inr st"
| "manifest_event_loop B item causation actor created index (ev # rest) (sequence, revision, committed, t) =
     (let sequence = sequence + 1; revision = revision + 1;
          e = (manifest_event item causation actor created index ev)\<lparr>de_sequence := sequence, de_revision := revision\<rparr>
      in if b_get B (tx_event_ids t) (de_id e) \<noteq> None then Inl (DuplicateEvent (de_id e))
         else manifest_event_loop B item causation actor created (Suc index) rest
                (sequence, revision, committed @ [e], put_event B e t))"

fun read_markers ::
  "('b, stored) bolt \<Rightarrow> string \<Rightarrow> domain_event list \<Rightarrow> 'b tx_state \<Rightarrow> (coord_error, 'b tx_state) result" where
  "read_markers B item [] t = Inr t"
| "read_markers B item (e # es) t =
     (if de_type e \<noteq> ''attention.read'' then read_markers B item es t
      else rbind (record_marker B item (de_type e) (de_time e) t) (read_markers B item es))"

text \<open>The manifest and the digest of its JSON text, which \<open>enc\<close> gives.\<close>

definition put_manifest :: "('b, stored) bolt \<Rightarrow> (manifest \<Rightarrow> string) \<Rightarrow> manifest \<Rightarrow> 'b tx_state \<Rightarrow> 'b tx_state" where
  "put_manifest B enc m t =
     put_source B (m_id m) (hex_digest 32 (enc m))
       (put_projection B manifest_projection (m_id m) (StManifest (persist_manifest m)) t)"

definition commit_manifest_events ::
  "('b, stored) bolt \<Rightarrow> (manifest \<Rightarrow> string) \<Rightarrow> manifest \<Rightarrow> string \<Rightarrow> string \<Rightarrow> instant \<Rightarrow> command_event list
   \<Rightarrow> 'b tx_state \<Rightarrow> (coord_error, domain_event list \<times> 64 word \<times> 'b tx_state) result" where
  "commit_manifest_events B enc m causation actor created pending t =
     rbind (manifest_event_loop B (m_id m) causation actor created 0 pending
              (global_sequence B t, item_revision B t (m_id m), [], t))
       (\<lambda>(sequence, revision, committed, t).
          let t = put_sequence B sequence (put_manifest B enc m (put_revision B (m_id m) revision t))
          in rbind (read_markers B (m_id m) committed t) (\<lambda>t. Inr (committed, revision, t)))"

section \<open>The sweep\<close>

definition manifests_of :: "('b, stored) bolt \<Rightarrow> 'b tx_state \<Rightarrow> (coord_error, manifest list) result" where
  "manifests_of B t = (case tx_projections t manifest_projection of
     None \<Rightarrow> Inr []
   | Some b \<Rightarrow> (case those (List.map (\<lambda>p. as_manifest (snd p)) (b_entries B b)) of
       None \<Rightarrow> Inl Undecodable | Some ms \<Rightarrow> Inr ms))"

definition requested_at :: "('b, stored) bolt \<Rightarrow> 'b tx_state \<Rightarrow> string \<Rightarrow> instant option" where
  "requested_at B t i = (case get_projection B attention_projection i t of
     None \<Rightarrow> None
   | Some v \<Rightarrow> (case as_attention v of None \<Rightarrow> None | Some a \<Rightarrow> aa_requested_at a))"

text \<open>The event data of a blocker the sweep clears; \<open>None\<close> when it remains.\<close>

definition sweep_data :: "manifests \<Rightarrow> instant option \<Rightarrow> instant \<Rightarrow> blocker \<Rightarrow> event_data option" where
  "sweep_data g requested now b =
     (let data = blocker_event_data b
      in if bl_kind b = blocker_time \<and> (case bl_until b of None \<Rightarrow> False | Some u \<Rightarrow> \<not> u > now)
           then Some (kv_put ''cause'' (JStr ''expired'') data)
         else if bl_kind b = blocker_time \<and> (case requested of None \<Rightarrow> False | Some r \<Rightarrow> r > bl_created_at b)
           then Some (kv_put ''prompted_at'' (JTime (the requested)) (kv_put ''cause'' (JStr ''prompted'') data))
         else if bl_kind b = blocker_item then
           (case kv_get g (bl_item b) of
              None \<Rightarrow> Some (kv_put ''cause'' (JStr ''item_missing'') data)
            | Some target \<Rightarrow>
                if m_state target = state_closed
                then Some (kv_put ''blocking_item_resolution'' (JStr (m_resolution target))
                       (kv_put ''cause'' (JStr ''item_closed'') data))
                else None)
         else None)"

definition sweep_pending :: "manifests \<Rightarrow> instant option \<Rightarrow> instant \<Rightarrow> blocker list \<Rightarrow> command_event list" where
  "sweep_pending g requested now bs =
     List.map (emit ''blocker.cleared'') (List.map_filter (sweep_data g requested now) bs)"

definition itoa_int :: "int \<Rightarrow> string" where
  "itoa_int n = (if n < 0 then CHR ''-'' # itoa (nat (- n)) else itoa (nat n))"

definition swept :: "manifests \<Rightarrow> instant option \<Rightarrow> instant \<Rightarrow> manifest \<Rightarrow> manifest" where
  "swept g requested now m =
     m\<lparr>m_blockers := filter (\<lambda>b. sweep_data g requested now b = None) (m_blockers m), m_updated_at := now\<rparr>"

fun sweep_loop ::
  "('b, stored) bolt \<Rightarrow> (manifest \<Rightarrow> string) \<Rightarrow> instant \<Rightarrow> manifests \<Rightarrow> manifest list \<Rightarrow> nat \<times> 'b tx_state
   \<Rightarrow> (coord_error, nat \<times> 'b tx_state) result" where
  "sweep_loop B enc now g [] st = Inr st"
| "sweep_loop B enc now g (m # ms) (n, t) =
     (if m_state m = state_closed \<or> m_blockers m = [] then sweep_loop B enc now g ms (n, t)
      else (let requested = requested_at B t (m_id m);
                pending = sweep_pending g requested now (m_blockers m)
            in if pending = [] then sweep_loop B enc now g ms (n, t)
               else rbind (commit_manifest_events B enc (swept g requested now m)
                      (''blocker-sweep-'' @ m_id m @ ''-'' @ itoa_int now @ ''-'' @ itoa (unat (global_sequence B t)))
                      ''wi'' now pending t)
                 (\<lambda>(_, _, t). sweep_loop B enc now g ms (n + length pending, t))))"

definition sweep_blockers ::
  "('b, stored) bolt \<Rightarrow> (manifest \<Rightarrow> string) \<Rightarrow> instant \<Rightarrow> 'b database \<Rightarrow> (coord_error, nat \<times> 'b database) result" where
  "sweep_blockers B enc now d =
     rbind (manifests_of B (db_tx d)) (\<lambda>all.
       rbind (sweep_loop B enc now (by_id all) all (0, db_tx d)) (\<lambda>(n, t).
         Inr (n, \<lparr>db_tx = t, db_changes = (if n > 0 then record_all (db_changes d) else db_changes d)\<rparr>)))"

section \<open>Committing an item's events refines appending to the log\<close>

definition manifest_events ::
  "string \<Rightarrow> string \<Rightarrow> string \<Rightarrow> instant \<Rightarrow> nat \<Rightarrow> command_event list \<Rightarrow> domain_event list" where
  "manifest_events item causation actor created k ps =
     List.map (\<lambda>(j, ev). manifest_event item causation actor created j ev) (enumerate k ps)"

lemma manifest_events_simps [simp]:
  "manifest_events item causation actor created k [] = []"
  "manifest_events item causation actor created k (p # ps) =
     manifest_event item causation actor created k p # manifest_events item causation actor created (Suc k) ps"
  "length (manifest_events item causation actor created k ps) = length ps"
  by (simp_all add: manifest_events_def)

lemma projections_frame_trans:
  "t1 = t\<lparr>tx_projections := tx_projections t1\<rparr> \<Longrightarrow> t2 = t1\<lparr>tx_projections := tx_projections t2\<rparr> \<Longrightarrow>
   t2 = t\<lparr>tx_projections := tx_projections t2\<rparr>"
  by (metis tx_state.surjective tx_state.update_convs(6))

lemma rep_put_manifest [simp]:
  "ev_rep B ok (put_manifest C enc m t) L = ev_rep B ok t L"
  "rev_rep B ok (put_manifest C enc m t) L = rev_rep B ok t L"
  "seq_rep B ok (put_manifest C enc m t) L = seq_rep B ok t L"
  by (simp_all add: put_manifest_def)

context event_store
begin

lemma manifest_event_loop_refines:
  assumes "manifest_event_loop B i c a cr k ps (of_nat (length L), of_nat (item_count L i), evs, t) = Inr (n, rv, evs', t')"
    and "ev_rep B ok t L" and "i \<noteq> []" and "length L + length ps < 2 ^ 64"
  shows "let L' = log_appends (manifest_events i c a cr k ps) L in
    ev_rep B ok t' L' \<and> n = of_nat (length L') \<and> rv = of_nat (item_count L' i) \<and> item_count L' i = item_count L i + length ps
    \<and> (\<forall>j. j \<noteq> i \<longrightarrow> item_count L' j = item_count L j)
    \<and> (\<exists>new. L' = L @ new \<and> evs' = evs @ new) \<and> same_others t t' \<and> tx_revisions t' = tx_revisions t
    \<and> (distinct (List.map de_id L) \<longrightarrow> distinct (List.map de_id L')) \<and> (tx_ok ok t \<longrightarrow> tx_ok ok t')"
  using assms
proof (induction ps arbitrary: k L evs t)
  case Nil
  then show ?case by simp
next
  case (Cons p ps)
  define e0 where "e0 = manifest_event i c a cr k p"
  define e where "e = e0\<lparr>de_sequence := of_nat (length L) + 1, de_revision := of_nat (item_count L i) + 1\<rparr>"
  have item: "de_item e0 = i" and eid: "de_id e = de_id e0" by (simp_all add: e0_def e_def manifest_event_def)
  have e: "e = stamp L e0" using item Cons.prems(3) by (simp add: e_def stamp_def add.commute)
  have fresh: "b_get B (tx_event_ids t) (de_id e) = None"
    and step: "manifest_event_loop B i c a cr (Suc k) ps (of_nat (length L) + 1, of_nat (item_count L i) + 1, evs @ [e], put_event B e t)
      = Inr (n, rv, evs', t')"
    using Cons.prems(1) by (auto simp: Let_def e_def e0_def split: if_split_asm)
  have rep: "ev_rep B ok (put_event B e t) (log_append e0 L)"
    unfolding log_append_def e [symmetric]
    by (rule ev_rep_put [OF Cons.prems(2)]) (use Cons.prems(4) item in \<open>simp_all add: e stamp_def\<close>)
  have cnt: "item_count (log_append e0 L) j = (if j = i then Suc (item_count L i) else item_count L j)" for j
    using item by (simp add: log_append_def stamp_def)
  have "manifest_event_loop B i c a cr (Suc k) ps (of_nat (length (log_append e0 L)), of_nat (item_count (log_append e0 L) i),
      evs @ [e], put_event B e t) = Inr (n, rv, evs', t')"
    using step by (simp add: cnt add.commute)
  moreover have "length (log_append e0 L) + length ps < 2 ^ 64" using Cons.prems(4) by simp
  ultimately have IH: "let L' = log_appends (manifest_events i c a cr (Suc k) ps) (log_append e0 L) in
    ev_rep B ok t' L' \<and> n = of_nat (length L') \<and> rv = of_nat (item_count L' i)
    \<and> item_count L' i = item_count (log_append e0 L) i + length ps
    \<and> (\<forall>j. j \<noteq> i \<longrightarrow> item_count L' j = item_count (log_append e0 L) j)
    \<and> (\<exists>new. L' = log_append e0 L @ new \<and> evs' = (evs @ [e]) @ new) \<and> same_others (put_event B e t) t'
    \<and> tx_revisions t' = tx_revisions (put_event B e t)
    \<and> (distinct (List.map de_id (log_append e0 L)) \<longrightarrow> distinct (List.map de_id L')) \<and> (tx_ok ok (put_event B e t) \<longrightarrow> tx_ok ok t')"
    by (rule Cons.IH [OF _ rep Cons.prems(3)])
  define L' where "L' = log_appends (manifest_events i c a cr (Suc k) ps) (log_append e0 L)"
  note IH' = IH [unfolded Let_def, folded L'_def]
  have new: "de_id e0 \<notin> de_id ` set L"
    using Cons.prems(2) fresh unfolding ev_rep_def eid [symmetric] by blast
  have d: "distinct (List.map de_id (log_append e0 L))" if "distinct (List.map de_id L)"
    using that new by (simp add: log_append_def stamp_def)
  have "\<exists>nw. L' = L @ nw \<and> evs' = evs @ nw"
  proof -
    obtain nw where "L' = log_append e0 L @ nw" "evs' = (evs @ [e]) @ nw" using IH' by blast
    then have "L' = L @ e # nw" "evs' = evs @ e # nw" by (simp_all add: log_append_def e)
    then show ?thesis by blast
  qed
  moreover have "item_count L' i = item_count L i + length (p # ps)" "\<forall>j. j \<noteq> i \<longrightarrow> item_count L' j = item_count L j"
    using IH' by (simp_all add: cnt)
  moreover have "same_others t t'" "tx_revisions t' = tx_revisions t"
    using IH' by (simp_all add: put_event_def [of B e t, THEN arg_cong, of tx_revisions])
  moreover have "log_appends (manifest_events i c a cr k (p # ps)) L = L'" by (simp add: L'_def e0_def)
  ultimately show ?case
    using IH' d unfolding Let_def by simp
qed

lemma read_markers_frame:
  "read_markers B i es t = Inr t' \<Longrightarrow> tx_ok ok t \<Longrightarrow> tx_ok ok t' \<and> (\<forall>name k. name \<noteq> attention_projection \<longrightarrow>
     get_projection B name k t' = get_projection B name k t) \<and> t' = t\<lparr>tx_projections := tx_projections t'\<rparr>"
proof (induction es arbitrary: t)
  case (Cons e es)
  show ?case
  proof (cases "de_type e = ''attention.read''")
    case False
    then show ?thesis using Cons by simp
  next
    case True
    then obtain t1 where t1: "record_marker B i (de_type e) (de_time e) t = Inr t1" and rest: "read_markers B i es t1 = Inr t'"
      using Cons.prems(1) by (auto simp: rbind_Inr_iff)
    then have 1: "tx_ok ok t1" "\<And>name k. name \<noteq> attention_projection \<Longrightarrow> get_projection B name k t1 = get_projection B name k t"
      using Cons.prems(2) True by (auto simp: record_marker_def rbind_Inr_iff put_attention_def)
    have 2: "t1 = t\<lparr>tx_projections := tx_projections t1\<rparr>"
      using t1 True by (auto simp: record_marker_def rbind_Inr_iff put_attention_def put_projection_def set_projection_def)
    note IH = Cons.IH [OF rest 1(1)]
    have "t' = t\<lparr>tx_projections := tx_projections t'\<rparr>"
      by (rule projections_frame_trans [OF 2]) (use IH in blast)
    moreover have "\<forall>name k. name \<noteq> attention_projection \<longrightarrow> get_projection B name k t' = get_projection B name k t"
      using IH 1(2) by simp
    ultimately show ?thesis using IH by blast
  qed
qed simp

lemma put_manifest_get [simp]:
  "tx_ok ok t \<Longrightarrow> get_projection B name k (put_manifest B enc m t) =
    (if name = manifest_projection \<and> k = m_id m then Some (StManifest (persist_manifest m)) else get_projection B name k t)"
  by (simp add: put_manifest_def)

lemma tx_ok_put_manifest [simp]: "tx_ok ok t \<Longrightarrow> tx_ok ok (put_manifest B enc m t)"
  by (simp add: put_manifest_def)

lemma commit_manifest_events_refines:
  assumes "commit_manifest_events B enc m c a cr ps t = Inr (evs, rv, t')"
    and "log_rep B ok t L" and "tx_ok ok t" and "m_id m \<noteq> []" and "length L + length ps < 2 ^ 64"
  shows "log_rep B ok t' (L @ evs) \<and> L @ evs = log_appends (manifest_events (m_id m) c a cr 0 ps) L
    \<and> rv = of_nat (item_count (L @ evs) (m_id m)) \<and> tx_ok ok t'
    \<and> (distinct (List.map de_id L) \<longrightarrow> distinct (List.map de_id (L @ evs)))
    \<and> (\<forall>k. get_projection B manifest_projection k t' =
         (if k = m_id m then Some (StManifest (persist_manifest m)) else get_projection B manifest_projection k t))
    \<and> (\<forall>name k. name \<noteq> manifest_projection \<and> name \<noteq> attention_projection \<longrightarrow>
         get_projection B name k t' = get_projection B name k t)
    \<and> tx_commands t' = tx_commands t \<and> tx_outcomes t' = tx_outcomes t \<and> tx_pending t' = tx_pending t"
proof -
  let ?i = "m_id m"
  obtain n t1 where loop: "manifest_event_loop B ?i c a cr 0 ps (global_sequence B t, item_revision B t ?i, [], t) = Inr (n, rv, evs, t1)"
    and marks: "read_markers B ?i evs (put_sequence B n (put_manifest B enc m (put_revision B ?i rv t1))) = Inr t'"
    using assms(1) by (auto simp: commit_manifest_events_def rbind_Inr_iff Let_def)
  have rep: "ev_rep B ok t L" "rev_rep B ok t L" "seq_rep B ok t L" using assms(2) by (simp_all add: log_rep_def)
  have "global_sequence B t = of_nat (length L)" "item_revision B t ?i = of_nat (item_count L ?i)"
    using rep assms(4) by (simp_all add: seq_rep_def rev_rep_def)
  with loop have "manifest_event_loop B ?i c a cr 0 ps (of_nat (length L), of_nat (item_count L ?i), [], t) = Inr (n, rv, evs, t1)"
    by simp
  note r = manifest_event_loop_refines [OF this rep(1) assms(4,5), unfolded Let_def]
  define L' where "L' = log_appends (manifest_events ?i c a cr 0 ps) L"
  have L': "L' = L @ evs" using r by (auto simp: L'_def)
  have t1: "ev_rep B ok t1 L'" "n = of_nat (length L')" "rv = of_nat (item_count L' ?i)" "same_others t t1"
    "tx_revisions t1 = tx_revisions t" "tx_ok ok t1" "\<And>j. j \<noteq> ?i \<Longrightarrow> item_count L' j = item_count L j"
    "distinct (List.map de_id L) \<longrightarrow> distinct (List.map de_id L')"
    using r [folded L'_def] assms(3) by blast+
  define t2 where "t2 = put_sequence B n (put_manifest B enc m (put_revision B ?i rv t1))"
  have ok2: "tx_ok ok t2" using t1(6) by (simp add: t2_def)
  have "rev_rep B ok (put_revision B ?i rv t1) L'"
    using rep(2) t1(3,5,6,7)
    by (auto simp: rev_rep_def item_revision_def put_revision_def get_u64_def get_put ok_put st_u64_def tx_ok_def)
  moreover have "seq_rep B ok t1 L" using rep(3) t1(4) by (simp add: seq_rep_def global_sequence_def same_others_def)
  then have "seq_rep B ok t2 L'" unfolding t2_def t1(2) by (simp add: seq_rep_put)
  ultimately have "log_rep B ok t2 L'" using t1(1) by (simp add: log_rep_def t2_def)
  note fr = read_markers_frame [OF marks [folded t2_def] ok2]
  then have fr3: "t' = t2\<lparr>tx_projections := tx_projections t'\<rparr>" by blast
  then have "log_rep B ok t' L'" using \<open>log_rep B ok t2 L'\<close> rep_projections(4) by blast
  moreover have "get_projection B name k t2 = (if name = manifest_projection \<and> k = ?i then Some (StManifest (persist_manifest m))
      else get_projection B name k t)" for name k
  proof -
    have "get_projection B name k (put_revision B ?i rv t1) = get_projection B name k t"
      using t1(4) by (simp add: get_projection_def put_revision_def same_others_def)
    then show ?thesis using t1(6)
      by (simp add: t2_def put_sequence_def get_projection_def [of _ _ _ "_\<lparr>tx_meta := _\<rparr>"])
        (simp add: get_projection_def [symmetric])
  qed
  moreover have "tx_commands t2 = tx_commands t \<and> tx_outcomes t2 = tx_outcomes t \<and> tx_pending t2 = tx_pending t"
    using t1(4) by (simp add: t2_def same_others_def put_sequence_def put_manifest_def put_source_def put_projection_def
        set_projection_def put_revision_def)
  moreover have "tx_commands t' = tx_commands t2 \<and> tx_outcomes t' = tx_outcomes t2 \<and> tx_pending t' = tx_pending t2"
    using arg_cong [OF fr3, of tx_commands] arg_cong [OF fr3, of tx_outcomes] arg_cong [OF fr3, of tx_pending] by simp
  ultimately show ?thesis
    using fr t1(3,8) by (simp add: L' [symmetric] L'_def [symmetric])
qed

end

section \<open>Items of the projection\<close>

definition manifest_at :: "('b, stored) bolt \<Rightarrow> 'b tx_state \<Rightarrow> string \<Rightarrow> manifest option" where
  "manifest_at B t i = (case get_projection B manifest_projection i t of None \<Rightarrow> None | Some v \<Rightarrow> as_manifest v)"

text \<open>Every entry is a manifest under its own identity.\<close>

definition items_ok :: "('b, stored) bolt \<Rightarrow> 'b tx_state \<Rightarrow> bool" where
  "items_ok B t \<longleftrightarrow> (\<forall>i v. get_projection B manifest_projection i t = Some v \<longrightarrow>
     (\<exists>m. v = StManifest m \<and> m_id m = i \<and> i \<noteq> [] \<and> persist_manifest m = m))"

lemma manifest_at_Some:
  "items_ok B t \<Longrightarrow> manifest_at B t i = Some m \<longleftrightarrow> get_projection B manifest_projection i t = Some (StManifest m)"
  by (auto simp: items_ok_def manifest_at_def split: option.splits) fastforce

lemma items_ok_id: "items_ok B t \<Longrightarrow> manifest_at B t i = Some m \<Longrightarrow> m_id m = i \<and> i \<noteq> [] \<and> persist_manifest m = m"
  by (auto simp: manifest_at_Some) (auto simp: items_ok_def)

lemma kv_get_by_id_fold:
  "kv_ok g \<Longrightarrow> distinct (List.map m_id ms) \<Longrightarrow> kv_get (fold (\<lambda>m g. kv_put (m_id m) m g) ms g) i =
     (case find (\<lambda>m. m_id m = i) ms of None \<Rightarrow> kv_get g i | Some m \<Rightarrow> Some m)"
proof (induction ms arbitrary: g)
  case (Cons m ms)
  have "m_id m \<notin> m_id ` set ms" using Cons.prems(2) by simp
  then have "m_id m = i \<Longrightarrow> find (\<lambda>m. m_id m = i) ms = None" unfolding find_None_iff by (metis imageI)
  with Cons show ?case by (auto simp: kv_get_put split: option.splits)
qed simp

lemma kv_get_by_id:
  assumes "distinct (List.map m_id ms)"
  shows "kv_get (by_id ms) i = Some m \<longleftrightarrow> m \<in> set ms \<and> m_id m = i"
proof -
  have "find (\<lambda>m. m_id m = i) ms = Some m \<longleftrightarrow> m \<in> set ms \<and> m_id m = i"
    using assms by (induction ms) (auto simp: image_iff)
  then show ?thesis
    using kv_get_by_id_fold [of "[]" ms i] assms by (auto simp: by_id_def kv_get_def split: option.splits)
qed

lemma those_map_Some: "(\<And>x. x \<in> set xs \<Longrightarrow> f x = Some (g x)) \<Longrightarrow> those (List.map f xs) = Some (List.map g xs)"
  by (induction xs) auto

context event_store
begin

lemma manifests_of_items:
  assumes "tx_ok ok t" and "items_ok B t"
  shows "\<exists>ms. manifests_of B t = Inr ms \<and> distinct (List.map m_id ms)
    \<and> (\<forall>m. m \<in> set ms \<longleftrightarrow> manifest_at B t (m_id m) = Some m)"
proof (cases "tx_projections t manifest_projection")
  case None
  then show ?thesis by (simp add: manifests_of_def manifest_at_def get_projection_def)
next
  case (Some b)
  then have okb: "ok b" using assms(1) by (auto simp: tx_ok_def)
  have entry: "(k, v) \<in> set (b_entries B b) \<longleftrightarrow> get_projection B manifest_projection k t = Some v" for k v
    using entries_get [OF okb] Some by (simp add: get_projection_def)
  define f :: "string \<times> stored \<Rightarrow> manifest" where "f = (\<lambda>p. the (as_manifest (snd p)))"
  have each: "as_manifest (snd p) = Some (f p) \<and> m_id (f p) = fst p" if "p \<in> set (b_entries B b)" for p
  proof -
    have "get_projection B manifest_projection (fst p) t = Some (snd p)" using that entry [of "fst p" "snd p"] by simp
    then obtain m where "snd p = StManifest m" "m_id m = fst p" using assms(2) unfolding items_ok_def by blast
    then show ?thesis by (simp add: f_def)
  qed
  have "manifests_of B t = Inr (List.map f (b_entries B b))"
    using those_map_Some [of "b_entries B b" "\<lambda>p. as_manifest (snd p)" f] each Some by (simp add: manifests_of_def)
  moreover have "List.map m_id (List.map f (b_entries B b)) = List.map fst (b_entries B b)"
    using each by simp
  then have "distinct (List.map m_id (List.map f (b_entries B b)))" using entries_distinct [OF okb] by (simp only:)
  moreover have "m \<in> set (List.map f (b_entries B b)) \<longleftrightarrow> manifest_at B t (m_id m) = Some m" for m
  proof
    assume "m \<in> set (List.map f (b_entries B b))"
    then obtain p where p: "p \<in> set (b_entries B b)" "m = f p" by auto
    then have "get_projection B manifest_projection (fst p) t = Some (snd p)"
      using entry [of "fst p" "snd p"] by simp
    with each [OF p(1)] p(2) show "manifest_at B t (m_id m) = Some m" by (simp add: manifest_at_def)
  next
    assume "manifest_at B t (m_id m) = Some m"
    then have "(m_id m, StManifest m) \<in> set (b_entries B b)" using manifest_at_Some [OF assms(2)] entry by simp
    then show "m \<in> set (List.map f (b_entries B b))" by (force simp: f_def)
  qed
  ultimately show ?thesis by blast
qed

lemma manifest_event_loop_frame:
  "manifest_event_loop B i c a cr k ps (n, rv, evs, t) = Inr (n', rv', evs', t') \<Longrightarrow>
     same_others t t' \<and> (tx_ok ok t \<longrightarrow> tx_ok ok t') \<and> List.map de_type evs' = List.map de_type evs @ List.map ce_type ps"
proof (induction ps arbitrary: k n rv evs t)
  case (Cons p ps)
  then show ?case by (auto simp: Let_def manifest_event_def split: if_split_asm dest!: Cons.IH)
qed simp

lemma read_markers_none: "\<forall>e\<in>set es. de_type e \<noteq> ''attention.read'' \<Longrightarrow> read_markers B i es t = Inr t"
  by (induction es) auto

lemma commit_manifest_events_projections:
  assumes "commit_manifest_events B enc m c a cr ps t = Inr (evs, rv, t')" and "tx_ok ok t"
  shows "tx_ok ok t'
    \<and> (\<forall>k. get_projection B manifest_projection k t' =
         (if k = m_id m then Some (StManifest (persist_manifest m)) else get_projection B manifest_projection k t))
    \<and> (\<forall>name k. name \<noteq> manifest_projection \<and> (name \<noteq> attention_projection \<or> ''attention.read'' \<notin> ce_type ` set ps) \<longrightarrow>
         get_projection B name k t' = get_projection B name k t)"
proof -
  let ?i = "m_id m"
  obtain n t1 where loop: "manifest_event_loop B ?i c a cr 0 ps (global_sequence B t, item_revision B t ?i, [], t) = Inr (n, rv, evs, t1)"
    and marks: "read_markers B ?i evs (put_sequence B n (put_manifest B enc m (put_revision B ?i rv t1))) = Inr t'"
    using assms(1) by (auto simp: commit_manifest_events_def rbind_Inr_iff Let_def)
  define t2 where "t2 = put_sequence B n (put_manifest B enc m (put_revision B ?i rv t1))"
  have t1: "same_others t t1" "tx_ok ok t1" and types: "List.map de_type evs = List.map ce_type ps"
    using manifest_event_loop_frame [OF loop] assms(2) by simp_all
  have ok2: "tx_ok ok t2" using t1(2) by (simp add: t2_def)
  have get2: "get_projection B name k t2 = (if name = manifest_projection \<and> k = ?i then Some (StManifest (persist_manifest m))
      else get_projection B name k t)" for name k
  proof -
    have "get_projection B name k (put_revision B ?i rv t1) = get_projection B name k t"
      using t1(1) by (simp add: get_projection_def put_revision_def same_others_def)
    then show ?thesis using t1(2)
      by (simp add: t2_def put_sequence_def get_projection_def [of _ _ _ "_\<lparr>tx_meta := _\<rparr>"])
        (simp add: get_projection_def [symmetric])
  qed
  note fr = read_markers_frame [OF marks [folded t2_def] ok2]
  have "t' = t2" if "''attention.read'' \<notin> ce_type ` set ps"
  proof -
    have "de_type ` set evs = ce_type ` set ps" using types by (metis list.set_map)
    then have "\<forall>e\<in>set evs. de_type e \<noteq> ''attention.read''" using that by force
    then show ?thesis using read_markers_none marks by (simp add: t2_def)
  qed
  with fr get2 show ?thesis by auto
qed

end

end
