(* ===== verification/Sweep.thy ===== *)
theory Sweep
  imports Blockers
begin

text \<open>
  What \<open>SweepBlockers\<close> does to the items: it removes exactly the blockers whose condition passed, and
  nothing is left for a second sweep at the same instant.
\<close>

definition sweepable :: "manifests \<Rightarrow> instant option \<Rightarrow> instant \<Rightarrow> blocker \<Rightarrow> bool" where
  "sweepable g requested now b \<longleftrightarrow>
     bl_kind b = blocker_time \<and> (\<exists>u. bl_until b = Some u \<and> u \<le> now)
   \<or> bl_kind b = blocker_time \<and> (\<exists>r. requested = Some r \<and> bl_created_at b < r)
   \<or> bl_kind b = blocker_item \<and> (\<forall>target. kv_get g (bl_item b) = Some target \<longrightarrow> m_state target = state_closed)"

lemma sweep_data_None: "sweep_data g requested now b = None \<longleftrightarrow> \<not> sweepable g requested now b"
  by (auto simp: sweep_data_def sweepable_def Let_def split: option.splits)

lemma length_sweep_pending:
  "length (sweep_pending g requested now bs) = length (filter (sweepable g requested now) bs)"
  by (induction bs) (auto simp: sweep_pending_def map_filter_simps sweep_data_None split: option.splits,
    metis option.distinct(1) sweep_data_None)

lemma sweep_pending_Nil: "sweep_pending g requested now bs = [] \<longleftrightarrow> (\<forall>b\<in>set bs. \<not> sweepable g requested now b)"
  using length_sweep_pending [of g requested now bs] by (metis filter_empty_conv length_0_conv)

lemma sweep_pending_types: "''attention.read'' \<notin> ce_type ` set (sweep_pending g requested now bs)"
  by (auto simp: sweep_pending_def emit_def)

text \<open>What the sweep makes of an item of the snapshot \<open>g\<close>.\<close>

definition sweep_result :: "manifests \<Rightarrow> instant option \<Rightarrow> instant \<Rightarrow> manifest \<Rightarrow> manifest" where
  "sweep_result g requested now m =
     (if m_state m = state_closed \<or> (\<forall>b\<in>set (m_blockers m). \<not> sweepable g requested now b) then m
      else m\<lparr>m_blockers := filter (\<lambda>b. \<not> sweepable g requested now b) (m_blockers m), m_updated_at := now\<rparr>)"

lemma swept_eq: "swept g requested now m =
    m\<lparr>m_blockers := filter (\<lambda>b. \<not> sweepable g requested now b) (m_blockers m), m_updated_at := now\<rparr>"
  by (simp add: swept_def sweep_data_None)

lemma swept_id [simp]: "m_id (swept g requested now m) = m_id m"
  by (simp add: swept_def)

lemma persist_fixed_iff: "persist_manifest m = m \<longleftrightarrow> persist_repository (m_repository m) = m_repository m"
proof
  assume "persist_manifest m = m"
  from arg_cong [OF this, of m_repository] show "persist_repository (m_repository m) = m_repository m"
    by (simp add: persist_manifest_def)
qed (simp add: persist_manifest_def)

lemma persist_swept: "persist_manifest m = m \<Longrightarrow> persist_manifest (swept g requested now m) = swept g requested now m"
  by (simp add: persist_fixed_iff swept_def)

context event_store
begin

lemma sweep_loop_items:
  assumes "sweep_loop B enc now g ms (n, t) = Inr (n', t')" and "tx_ok ok t" and "items_ok B t"
    and "distinct (List.map m_id ms)" and "\<forall>m\<in>set ms. manifest_at B t (m_id m) = Some m"
  shows "tx_ok ok t' \<and> items_ok B t' \<and> (\<forall>i. requested_at B t' i = requested_at B t i)
    \<and> (\<forall>i. manifest_at B t' i = (case find (\<lambda>m. m_id m = i) ms of None \<Rightarrow> manifest_at B t i
         | Some m \<Rightarrow> Some (sweep_result g (requested_at B t i) now m)))"
  using assms
proof (induction ms arbitrary: n t)
  case (Cons m ms)
  have notin: "m_id m \<notin> m_id ` set ms" using Cons.prems(4) by simp
  then have find_m: "find (\<lambda>m'. m_id m' = m_id m) ms = None" unfolding find_None_iff by (metis imageI)
  let ?r = "requested_at B t (m_id m)" and ?p = "sweep_pending g (requested_at B t (m_id m)) now (m_blockers m)"
  show ?case
  proof (cases "m_state m = state_closed \<or> m_blockers m = [] \<or> ?p = []")
    case True
    then have "sweep_loop B enc now g ms (n, t) = Inr (n', t')"
      using Cons.prems(1) by (auto simp: Let_def split: if_split_asm)
    note IH = Cons.IH [OF this Cons.prems(2,3)]
    have "sweep_result g ?r now m = m" using True by (auto simp: sweep_result_def sweep_pending_Nil)
    then show ?thesis using IH Cons.prems(4,5) find_m by (auto split: option.splits)
  next
    case False
    obtain evs rv t1 where c: "commit_manifest_events B enc (swept g ?r now m)
        (''blocker-sweep-'' @ m_id m @ ''-'' @ itoa_int now @ ''-'' @ itoa (unat (global_sequence B t))) ''wi'' now ?p t = Inr (evs, rv, t1)"
      and rest: "sweep_loop B enc now g ms (n + length ?p, t1) = Inr (n', t')"
      using Cons.prems(1) False by (auto simp: Let_def rbind_Inr_iff)
    have pm: "persist_manifest m = m" "m_id m \<noteq> []"
      using items_ok_id [OF Cons.prems(3), of "m_id m" m] Cons.prems(5) by simp_all
    have fr: "tx_ok ok t1"
      "\<And>k. get_projection B manifest_projection k t1 = (if k = m_id m then Some (StManifest (swept g ?r now m))
           else get_projection B manifest_projection k t)"
      "\<And>name k. name \<noteq> manifest_projection \<Longrightarrow> get_projection B name k t1 = get_projection B name k t"
      using commit_manifest_events_projections [OF c Cons.prems(2)] sweep_pending_types persist_swept [OF pm(1)] by auto
    have items1: "items_ok B t1"
      using Cons.prems(3) fr(2) persist_swept [OF pm(1)] pm(2) by (auto simp: items_ok_def)
    have at1: "manifest_at B t1 i = (if i = m_id m then Some (swept g ?r now m) else manifest_at B t i)" for i
      by (simp add: manifest_at_def fr(2))
    have req1: "requested_at B t1 i = requested_at B t i" for i
      by (simp add: requested_at_def fr(3))
    have res: "sweep_result g ?r now m = swept g ?r now m"
      using False by (auto simp: sweep_result_def swept_eq sweep_pending_Nil)
    have "\<forall>m'\<in>set ms. manifest_at B t1 (m_id m') = Some m'"
      using Cons.prems(5) notin at1 by (metis imageI list.set_intros(2))
    with Cons.IH [OF rest fr(1) items1] Cons.prems(4) show ?thesis
      using find_m res at1 req1 by (auto split: option.splits)
  qed
qed simp

end

lemma sweep_loop_settled:
  assumes "\<And>m. m \<in> set ms \<Longrightarrow> m_state m \<noteq> state_closed \<Longrightarrow>
    \<forall>b\<in>set (m_blockers m). \<not> sweepable g (requested_at B t (m_id m)) now b"
  shows "sweep_loop B enc now g ms (n, t) = Inr (n, t)"
  using assms by (induction ms) (auto simp: Let_def sweep_pending_Nil)

lemma sweep_result_fields [simp]:
  "m_id (sweep_result g r now m) = m_id m"
  "m_state (sweep_result g r now m) = m_state m"
  by (simp_all add: sweep_result_def)

lemma sweepable_states:
  assumes "\<And>i. map_option m_state (kv_get g' i) = map_option m_state (kv_get g i)"
  shows "sweepable g' r now b = sweepable g r now b"
proof -
  have "(\<forall>x. kv_get g' i = Some x \<longrightarrow> m_state x = state_closed) \<longleftrightarrow> (\<forall>x. kv_get g i = Some x \<longrightarrow> m_state x = state_closed)" for i
    using assms [of i] by (cases "kv_get g' i"; cases "kv_get g i") auto
  then show ?thesis by (simp add: sweepable_def)
qed

context event_store
begin

lemma by_id_manifest_at:
  assumes "manifests_of B t = Inr ms" and "tx_ok ok t" and "items_ok B t"
  shows "kv_get (by_id ms) i = manifest_at B t i" and "distinct (List.map m_id ms)"
    and "m \<in> set ms \<longleftrightarrow> manifest_at B t (m_id m) = Some m"
proof -
  show d: "distinct (List.map m_id ms)" and mem: "m \<in> set ms \<longleftrightarrow> manifest_at B t (m_id m) = Some m" for m
    using manifests_of_items [OF assms(2,3)] assms(1) by auto
  have "kv_get (by_id ms) i = Some m \<longleftrightarrow> manifest_at B t i = Some m" for m
    using kv_get_by_id [OF d] mem items_ok_id [OF assms(3)] by metis
  then show "kv_get (by_id ms) i = manifest_at B t i" by (metis not_Some_eq)
qed

lemma find_items:
  assumes "distinct (List.map m_id ms)" and "\<And>m. m \<in> set ms \<longleftrightarrow> manifest_at B t (m_id m) = Some m" and "items_ok B t"
  shows "find (\<lambda>m. m_id m = i) ms = manifest_at B t i"
proof (cases "find (\<lambda>m. m_id m = i) ms")
  case None
  then have "m \<notin> set ms \<or> m_id m \<noteq> i" for m by (auto simp: find_None_iff)
  then have "manifest_at B t i \<noteq> Some m" for m using assms(2) items_ok_id [OF assms(3)] by metis
  with None show ?thesis by (metis not_Some_eq)
next
  case (Some m)
  then have "m \<in> set ms" "m_id m = i" by (auto simp: find_Some_iff)
  with Some assms(2) show ?thesis by auto
qed

lemma sweep_items:
  assumes "sweep_blockers B enc now d = Inr (n, d')" and "manifests_of B (db_tx d) = Inr ms"
    and "tx_ok ok (db_tx d)" and "items_ok B (db_tx d)"
  shows "tx_ok ok (db_tx d') \<and> items_ok B (db_tx d') \<and> (\<forall>i. requested_at B (db_tx d') i = requested_at B (db_tx d) i)
    \<and> (\<forall>i. manifest_at B (db_tx d') i
         = map_option (sweep_result (by_id ms) (requested_at B (db_tx d) i) now) (manifest_at B (db_tx d) i))"
proof -
  have loop: "sweep_loop B enc now (by_id ms) ms (0, db_tx d) = Inr (n, db_tx d')"
    using assms(1,2) by (auto simp: sweep_blockers_def rbind_Inr_iff)
  note b = by_id_manifest_at [OF assms(2-4)]
  have "find (\<lambda>m. m_id m = i) ms = manifest_at B (db_tx d) i" for i
    by (rule find_items [OF b(2) b(3) assms(4)])
  moreover have "\<forall>m\<in>set ms. manifest_at B (db_tx d) (m_id m) = Some m" using b(3) by blast
  ultimately show ?thesis
    using sweep_loop_items [OF loop assms(3,4) b(2)] by (auto split: option.splits)
qed

end

text \<open>C8: the sweep rewrites each open item by removing exactly the blockers whose condition passed at the
  sweep (an expired time, a prompt after the blocker was set, a closed or missing item), in place and
  without touching any other item; a second sweep at the same instant changes nothing at all.\<close>

theorem sweep_blockers_correct:
  assumes "bucket_store B ok" and "tx_ok ok (db_tx d)" and "items_ok B (db_tx d)"
    and "manifests_of B (db_tx d) = Inr ms" and "sweep_blockers B enc now d = Inr (n, d')"
  shows "(\<forall>i. manifest_at B (db_tx d') i
         = map_option (sweep_result (by_id ms) (requested_at B (db_tx d) i) now) (manifest_at B (db_tx d) i))
    \<and> sweep_blockers B enc now d' = Inr (0, d')"
proof -
  note es = event_store_bucket [OF assms(1)]
  note after = event_store.sweep_items [OF es assms(5,4,2,3)]
  have ok': "tx_ok ok (db_tx d')" "items_ok B (db_tx d')" using after by blast+
  obtain ms' where ms': "manifests_of B (db_tx d') = Inr ms'"
    using event_store.manifests_of_items [OF es ok'] by blast
  note b = event_store.by_id_manifest_at [OF es assms(4,2,3)] and b' = event_store.by_id_manifest_at [OF es ms' ok']
  have states: "map_option m_state (kv_get (by_id ms') i) = map_option m_state (kv_get (by_id ms) i)" for i
    using after by (cases "manifest_at B (db_tx d) i") (simp_all add: b(1) b'(1))
  have "\<forall>x\<in>set (m_blockers m'). \<not> sweepable (by_id ms') (requested_at B (db_tx d') (m_id m')) now x"
    if m': "m' \<in> set ms'" "m_state m' \<noteq> state_closed" for m'
  proof -
    have "manifest_at B (db_tx d') (m_id m') = Some m'" using b'(3) m'(1) by blast
    then have "map_option (sweep_result (by_id ms) (requested_at B (db_tx d) (m_id m')) now) (manifest_at B (db_tx d) (m_id m')) = Some m'"
      using after by metis
    then obtain m where m: "m' = sweep_result (by_id ms) (requested_at B (db_tx d) (m_id m')) now m"
      unfolding map_option_eq_Some by metis
    then have open_m: "m_state m \<noteq> state_closed" using m'(2) by (metis sweep_result_fields(2))
    have "\<forall>x\<in>set (m_blockers m'). \<not> sweepable (by_id ms) (requested_at B (db_tx d) (m_id m')) now x"
      by (subst m) (use open_m in \<open>auto simp: sweep_result_def\<close>)
    then show ?thesis using after sweepable_states [of "by_id ms'" "by_id ms", OF states] by simp
  qed
  from sweep_loop_settled [OF this] have "sweep_blockers B enc now d' = Inr (0, d')"
    by (simp add: sweep_blockers_def ms')
  with after show ?thesis by blast
qed

section \<open>Concrete items\<close>

definition sample_item :: "string \<Rightarrow> string \<Rightarrow> manifest" where
  "sample_item i slug = zero_manifest\<lparr>m_id := i, m_slug := slug, m_title := ''Fix it'', m_state := state_backlog,
     m_created_at := 5, m_checkout := new_checkout kind_managed_slot executor_local ''wi/x''\<rparr>"

definition this_item :: manifest where
  "this_item = sample_item ''01HF7YAT0060RK4CSM6MV3EE1S'' ''fix-it''"

definition other_item :: manifest where
  "other_item = sample_item ''01HF7YAT0060RK4CSM6MV3EE1T'' ''other''"

definition wait_command :: manifest_command where
  "wait_command = \<lparr>mc_id = ''c1'', mc_protocol = 3, mc_type = ''item.blocker.add'', mc_item = m_id this_item,
     mc_expected = Some 0, mc_actor = ''user'', mc_labels = [], mc_deep_work = None, mc_target_state = [], mc_title = [],
     mc_edit = None, mc_event_type = [], mc_force = False, mc_max_active = 0, mc_resolution = [],
     mc_blockers = [\<lparr>bl_id = [], bl_kind = blocker_item, bl_until = None, bl_item = m_id other_item, bl_event = [],
       bl_label = [], bl_meta = [], bl_created_at = 0\<rparr>], mc_blocker_id = [], mc_created_at = 5\<rparr>"

lemma sample_fields:
  "m_id this_item = ''01HF7YAT0060RK4CSM6MV3EE1S''" "m_id other_item = ''01HF7YAT0060RK4CSM6MV3EE1T''"
  "m_blockers this_item = []" "m_blockers other_item = []"
  "m_state this_item = state_backlog" "m_state other_item = state_backlog"
  "m_slug this_item = ''fix-it''" "m_slug other_item = ''other''"
  by (simp_all add: this_item_def other_item_def sample_item_def zero_manifest_def)

lemma sample_by_id:
  "by_id [this_item, other_item] = [(m_id this_item, this_item), (m_id other_item, other_item)]"
  by (simp add: by_id_def sample_fields)

lemma sample_not_blocked: "\<not> blocks_transitively (by_id [this_item, other_item]) (m_id other_item) (m_id this_item)"
  by (simp add: blocks_transitively_def sample_by_id targets_of_def kv_get_def item_targets_def sample_fields)

lemma wait_accepted: "\<exists>m' events. apply_blocker_add wait_command this_item [this_item, other_item] = Inr (m', events)"
proof -
  have "validate_blocker \<lparr>bl_id = i, bl_kind = blocker_item, bl_until = None, bl_item = m_id other_item, bl_event = [],
       bl_label = [], bl_meta = [], bl_created_at = 5\<rparr> (m_id this_item) 5 = Inr ()" for i
    by (simp add: validate_blocker_conditions blocker_condition_def sample_fields valid_id_def id_char_def meta_ok_def has_control_def
        runes_def rune_count_def)
  then show ?thesis
    using sample_not_blocked
    by (simp add: apply_blocker_add_def wait_command_def sample_fields(3,5) Let_def sample_by_id kv_get_def)
      (simp add: sample_fields)
qed

theorem apply_blocker_add_acyclic_witness:
  "\<exists>m' events. apply_blocker_add wait_command this_item [this_item, other_item] = Inr (m', events)
     \<and> acyclic (blocking (kv_put (m_id this_item) m' (by_id [this_item, other_item])))"
proof -
  obtain m' events where run: "apply_blocker_add wait_command this_item [this_item, other_item] = Inr (m', events)"
    using wait_accepted by blast
  have "blocking (by_id [this_item, other_item]) = {}"
    by (auto simp: blocking_def targets_of_def sample_by_id kv_get_def item_targets_def sample_fields split: option.splits if_splits)
  then have "acyclic (blocking (by_id [this_item, other_item]))" by (simp add: acyclic_def)
  moreover have "kv_get (by_id [this_item, other_item]) (m_id this_item) = Some this_item"
    by (simp add: sample_by_id kv_get_def)
  ultimately show ?thesis using apply_blocker_add_acyclic [OF run] run by blast
qed

theorem sweep_blockers_correct_witness:
  "sweep_blockers list_bolt (\<lambda>_. []) 9 list_db = Inr (0, list_db)"
proof -
  have items: "items_ok list_bolt (db_tx list_db)" by (simp add: items_ok_def get_projection_def new_tx_def)
  have ms: "manifests_of list_bolt (db_tx list_db) = Inr []" by (simp add: manifests_of_def new_tx_def)
  have run: "sweep_blockers list_bolt (\<lambda>_. []) 9 list_db = Inr (0, list_db)"
    using ms by (simp add: sweep_blockers_def)
  have ok: "tx_ok kv_ok (db_tx list_db)" by (simp add: list_tx_ok)
  show ?thesis using sweep_blockers_correct [OF list_store.bucket_store_axioms ok items ms run] by blast
qed

end
