(* ===== verification/Queue.thy ===== *)
theory Queue
  imports Sweep
begin

text \<open>
  The attention queue as the coordinator computes it inside a transaction
  (\<open>actionabilityQueueFromTransaction\<close>, \<open>SelectActionability\<close>, \<open>matchesCanonicalLabels\<close> of
  \<open>internal/coordinator/domain.go\<close>): the active, observed, unblocked items in rank order, and the item to
  go to next.
\<close>

definition matches_canonical_labels :: "string list \<Rightarrow> (string \<times> bool) list \<Rightarrow> bool" where
  "matches_canonical_labels labels rules = list_all (\<lambda>(label, incl). has_label labels label = incl) rules"

text \<open>The base order: deep work first, then the oldest state change, then the identity.\<close>

definition base_less :: "manifest \<Rightarrow> manifest \<Rightarrow> bool" where
  "base_less a b =
     (if m_deep_work a \<noteq> m_deep_work b then m_deep_work a
      else if m_state_changed_at a \<noteq> m_state_changed_at b then m_state_changed_at a < m_state_changed_at b
      else m_id a < m_id b)"

definition observation_skipped :: "agent_observation \<Rightarrow> bool" where
  "observation_skipped ob \<longleftrightarrow> ob_status ob = [] \<or> ob_status ob = ''busy'' \<or> ob_status ob = ''problem''
     \<or> (case ob_worktree ob of None \<Rightarrow> False | Some w \<Rightarrow> pw_status w = ''problem'')"

definition merged_activity :: "attention_activity \<Rightarrow> attention_activity \<Rightarrow> attention_activity" where
  "merged_activity a markers = a\<lparr>aa_read_at := later_time (aa_read_at a) (aa_read_at markers),
     aa_unread_at := later_time (aa_unread_at a) (aa_unread_at markers),
     aa_deferred_at := later_time (aa_deferred_at a) (aa_deferred_at markers)\<rparr>"

text \<open>The activity of an item the queue admits; \<open>None\<close> when it is passed over.\<close>

definition queue_activity ::
  "('b, stored) bolt \<Rightarrow> queue_options \<Rightarrow> instant \<Rightarrow> 'b tx_state \<Rightarrow> manifest
   \<Rightarrow> (coord_error, attention_activity option) result" where
  "queue_activity B opts now t m =
     (if m_state m \<noteq> state_active \<or> \<not> matches_canonical_labels (m_labels m) (qo_label_rules opts) then Inr None
      else (case get_projection B observation_projection (m_id m) t of
          None \<Rightarrow> Inr None
        | Some v \<Rightarrow> (case as_observation v of
            None \<Rightarrow> Inl Undecodable
          | Some ob \<Rightarrow>
              if observation_skipped ob then Inr None
              else rbind (read_attention B (m_id m) t) (\<lambda>(markers, _).
                let a = merged_activity (ob_activity ob) markers
                in if eligible (waiting m now) (unread (aa_completed_at a) (aa_read_at a) (aa_unread_at a))
                   then Inr (Some a) else Inr None))))"

definition queue_entry :: "int \<Rightarrow> instant \<Rightarrow> manifest \<Rightarrow> attention_activity \<Rightarrow> candidate" where
  "queue_entry order now m a = \<lparr>cd_id = m_id m, cd_deep_work = m_deep_work m, cd_base_order = order,
     cd_state_changed_at = m_state_changed_at m, cd_last_requested_at = aa_requested_at a,
     cd_last_completed_at = aa_completed_at a, cd_last_deferred_at = aa_deferred_at a, cd_waiting = waiting m now,
     cd_unread = unread (aa_completed_at a) (aa_read_at a) (aa_unread_at a)\<rparr>"

fun queue_loop ::
  "('b, stored) bolt \<Rightarrow> queue_options \<Rightarrow> instant \<Rightarrow> 'b tx_state \<Rightarrow> manifest list
   \<Rightarrow> candidate list \<times> (string \<times> manifest \<times> attention_activity) list
   \<Rightarrow> (coord_error, candidate list \<times> (string \<times> manifest \<times> attention_activity) list) result" where
  "queue_loop B opts now t [] st = Inr st"
| "queue_loop B opts now t (m # ms) (candidates, projected) =
     rbind (queue_activity B opts now t m) (\<lambda>x. case x of
         None \<Rightarrow> queue_loop B opts now t ms (candidates, projected)
       | Some a \<Rightarrow> queue_loop B opts now t ms
           (candidates @ [queue_entry (int (length candidates)) now m a], kv_put (m_id m) (m, a) projected))"

definition zero_queue_candidate :: queue_candidate where
  "zero_queue_candidate = \<lparr>qc_manifest = zero_manifest, qc_activity = empty_attention [], qc_rank = 0\<rparr>"

definition ranked_candidate ::
  "(string \<times> manifest \<times> attention_activity) list \<Rightarrow> nat \<times> candidate \<Rightarrow> queue_candidate" where
  "ranked_candidate projected ic =
     (case kv_get projected (cd_id (snd ic)) of
        None \<Rightarrow> zero_queue_candidate\<lparr>qc_rank := int (fst ic) + 1\<rparr>
      | Some (m, a) \<Rightarrow> \<lparr>qc_manifest = m, qc_activity = a, qc_rank = int (fst ic) + 1\<rparr>)"

definition actionability_queue ::
  "('b, stored) bolt \<Rightarrow> queue_options \<Rightarrow> instant \<Rightarrow> 'b tx_state \<Rightarrow> (coord_error, queue_result) result" where
  "actionability_queue B opts now t =
     (if tx_projections t manifest_projection = None then Inl (Refused ''manifest projection is unavailable'')
      else rbind (manifests_of B t) (\<lambda>ms.
        rbind (queue_loop B opts now t (stable_sort base_less ms) ([], [])) (\<lambda>(candidates, projected).
          case rank default_registry (qo_strategy opts) candidates of
            Inl e \<Rightarrow> Inl (OfPriority e)
          | Inr ranked \<Rightarrow> Inr \<lparr>qr_strategy = strategy_name (qo_strategy opts),
              qr_candidates = List.map (ranked_candidate projected) (enumerate 0 ranked)\<rparr>)))"

record selection =
  sl_found :: bool
  sl_index :: int
  sl_item :: string
  sl_current_in_queue :: bool
  sl_wrapped :: bool
  sl_terminal :: string

fun index_of_item :: "string \<Rightarrow> queue_candidate list \<Rightarrow> nat option" where
  "index_of_item i [] = None"
| "index_of_item i (c # cs) =
     (if m_id (qc_manifest c) = i then Some 0 else map_option Suc (index_of_item i cs))"

definition select_actionability :: "queue_result \<Rightarrow> string \<Rightarrow> selection" where
  "select_actionability q current =
     (if qr_candidates q = [] then \<lparr>sl_found = False, sl_index = 0, sl_item = [], sl_current_in_queue = False,
        sl_wrapped = False, sl_terminal = []\<rparr>
      else (let (index, present) = (case index_of_item current (qr_candidates q) of
                    None \<Rightarrow> (0, False)
                  | Some k \<Rightarrow> ((k + 1) mod length (qr_candidates q), True));
                m = qc_manifest (qr_candidates q ! index)
            in \<lparr>sl_found = True, sl_index = int index, sl_item = m_id m, sl_current_in_queue = present,
                sl_wrapped = (present \<and> index = 0), sl_terminal = terminal_session_name (m_id m)\<rparr>))"

section \<open>Lemmas\<close>

definition base_key :: "manifest \<Rightarrow> int \<times> int \<times> string" where
  "base_key m = (if m_deep_work m then 0 else 1, m_state_changed_at m, m_id m)"

lemma base_less_key: "base_less a b \<longleftrightarrow> base_key a < base_key b"
  by (auto simp: base_less_def base_key_def less_prod_def)

interpretation base_order: weak_order base_less
  using weak_order_key [of base_key] by (simp add: base_less_key [abs_def])

text \<open>Whether the queue admits an item, without the order of visits.\<close>

definition admitted :: "('b, stored) bolt \<Rightarrow> queue_options \<Rightarrow> instant \<Rightarrow> 'b tx_state \<Rightarrow> manifest \<Rightarrow> bool" where
  "admitted B opts now t m \<longleftrightarrow> (\<exists>a. queue_activity B opts now t m = Inr (Some a))"

text \<open>What the queue shows of an item: it is active, has exactly the labels the rules ask for, is observed,
  neither busy nor a problem, and waits for nothing unless it has an unread response.\<close>

definition queue_admits ::
  "('b, stored) bolt \<Rightarrow> queue_options \<Rightarrow> instant \<Rightarrow> 'b tx_state \<Rightarrow> manifest \<Rightarrow> attention_activity \<Rightarrow> bool" where
  "queue_admits B opts now t m a \<longleftrightarrow> m_state m = state_active
     \<and> (\<forall>(label, incl)\<in>set (qo_label_rules opts). has_label (m_labels m) label = incl)
     \<and> (\<exists>ob markers found. get_projection B observation_projection (m_id m) t = Some (StObservation ob)
          \<and> ob_status ob \<notin> {[], ''busy'', ''problem''} \<and> (\<forall>w. ob_worktree ob = Some w \<longrightarrow> pw_status w \<noteq> ''problem'')
          \<and> read_attention B (m_id m) t = Inr (markers, found) \<and> a = merged_activity (ob_activity ob) markers)
     \<and> (open_blockers m now = [] \<or> unread (aa_completed_at a) (aa_read_at a) (aa_unread_at a))"

lemma queue_activity_admits: "queue_activity B opts now t m = Inr (Some a) \<longleftrightarrow> queue_admits B opts now t m a"
proof (cases "get_projection B observation_projection (m_id m) t")
  case None
  then show ?thesis by (auto simp: queue_activity_def queue_admits_def)
next
  case (Some v)
  show ?thesis
  proof (cases "as_observation v")
    case None
    then show ?thesis using Some by (auto simp: queue_activity_def queue_admits_def as_observation_def)
  next
    case (Some ob)
    then have v: "v = StObservation ob" by (auto simp: as_observation_def split: stored.splits)
    have skip: "observation_skipped ob \<longleftrightarrow> ob_status ob \<in> {[], ''busy'', ''problem''} \<or> (\<exists>w. ob_worktree ob = Some w \<and> pw_status w = ''problem'')"
      by (auto simp: observation_skipped_def split: option.splits)
    show ?thesis
      using \<open>get_projection B observation_projection (m_id m) t = Some v\<close>
      by (cases "read_attention B (m_id m) t")
        (auto simp: queue_activity_def queue_admits_def v skip matches_canonical_labels_def list_all_iff eligible_def waiting_def Let_def
          split: if_split_asm)
  qed
qed

text \<open>The order of the candidates, and of the queue: undeferred first, then the most recent request (the oldest deferral among the
  deferred), deep work, the oldest state change, the identity.\<close>

definition candidate_key :: "candidate \<Rightarrow> int \<times> (int \<times> int) \<times> int \<times> int \<times> string" where
  "candidate_key c = (of_bool (effectively_deferred c), time_key c, of_bool (\<not> cd_deep_work c), cd_state_changed_at c, cd_id c)"

definition queue_key :: "instant \<Rightarrow> manifest \<Rightarrow> attention_activity \<Rightarrow> int \<times> (int \<times> int) \<times> int \<times> int \<times> string" where
  "queue_key now m a = candidate_key (queue_entry 0 now m a)"

lemma candidate_key_entry: "candidate_key (queue_entry k now m a) = queue_key now m a"
  by (simp add: queue_key_def candidate_key_def queue_entry_def effectively_deferred_def time_key_def
      split: option.splits)

definition entry_key :: "candidate \<Rightarrow> int \<times> int \<times> string" where
  "entry_key c = (of_bool (\<not> cd_deep_work c), cd_state_changed_at c, cd_id c)"

lemma entry_key_queue_entry: "entry_key (queue_entry k now m a) = base_key m"
  by (simp add: entry_key_def queue_entry_def base_key_def)

lemma lex_refine:
  fixes d d' :: "'a::linorder" and t t' :: "'b::linorder" and p p' :: "'c::linorder" and b b' :: "'d::linorder"
    and s s' :: "'e::linorder" and i i' :: "'f::linorder"
  assumes "(d, t, p, b, i) \<le> (d', t', p', b', i')" and "i \<noteq> i'" and "b \<le> b' \<Longrightarrow> (p, s, i) \<le> (p', s', i')"
  shows "(d, t, p, s, i) < (d', t', p', s', i')"
  using assms by (auto simp: less_prod_def less_eq_prod_def le_less)

text \<open>The base order numbers the candidates by their entry keys, so ranking by it ranks by the keys.\<close>

lemma ranked_candidate_keys:
  assumes "List.map cd_base_order cs = List.map int [0..<length cs]" and "sorted (List.map entry_key cs)"
    and "sorted_wrt (\<lambda>a b. \<not> recent_less b a) ranked" and "mset ranked = mset cs" and "distinct (List.map cd_id ranked)"
  shows "sorted_wrt (<) (List.map candidate_key ranked)"
  unfolding sorted_wrt_map unfolding sorted_wrt_iff_nth_less
proof (intro allI impI)
  fix i j assume ij: "i < j" "j < length ranked"
  have "List.map cd_id ranked ! i \<noteq> List.map cd_id ranked ! j" using ij by (subst nth_eq_iff_index_eq [OF assms(5)]) auto
  then have ids: "cd_id (ranked ! i) \<noteq> cd_id (ranked ! j)" using ij by simp
  have "ranked ! i \<in> set cs" "ranked ! j \<in> set cs" using ij by (simp_all flip: mset_eq_setD [OF assms(4)])
  then obtain x y where x: "x < length cs" "ranked ! i = cs ! x" and y: "y < length cs" "ranked ! j = cs ! y"
    by (metis in_set_conv_nth)
  have nums: "cd_base_order (cs ! x) = int x" "cd_base_order (cs ! y) = int y"
    using arg_cong [OF assms(1), of "\<lambda>xs. xs ! x"] arg_cong [OF assms(1), of "\<lambda>xs. xs ! y"] x y by simp_all
  have "\<not> recent_less (cs ! y) (cs ! x)" using sorted_wrt_nth_less [OF assms(3) ij] x y by simp
  then have le: "recent_key (cs ! x) \<le> recent_key (cs ! y)" by (simp add: recent_less_key)
  have base: "entry_key (cs ! x) \<le> entry_key (cs ! y)" if "x \<le> y"
    using sorted_nth_mono [OF assms(2) that] x y by simp
  have "candidate_key (cs ! x) < candidate_key (cs ! y)"
    unfolding candidate_key_def using le [unfolded recent_key_def]
  proof (rule lex_refine)
    show "cd_id (cs ! x) \<noteq> cd_id (cs ! y)" using ids x y by simp
    show "cd_base_order (cs ! x) \<le> cd_base_order (cs ! y) \<Longrightarrow>
        (of_bool (\<not> cd_deep_work (cs ! x)) :: int, cd_state_changed_at (cs ! x), cd_id (cs ! x))
        \<le> (of_bool (\<not> cd_deep_work (cs ! y)), cd_state_changed_at (cs ! y), cd_id (cs ! y))"
      using base [unfolded entry_key_def] nums by simp
  qed
  then show "candidate_key (ranked ! i) < candidate_key (ranked ! j)" by (simp add: x y)
qed

definition projected_ok ::
  "('b, stored) bolt \<Rightarrow> queue_options \<Rightarrow> instant \<Rightarrow> 'b tx_state \<Rightarrow> manifest set
   \<Rightarrow> (string \<times> manifest \<times> attention_activity) list \<Rightarrow> candidate \<Rightarrow> bool" where
  "projected_ok B opts now t M pr c \<longleftrightarrow> (\<exists>m a. kv_get pr (cd_id c) = Some (m, a) \<and> m_id m = cd_id c \<and> m \<in> M
     \<and> queue_activity B opts now t m = Inr (Some a) \<and> c = queue_entry (cd_base_order c) now m a)"

lemma queue_loop_spec:
  assumes "queue_loop B opts now t ms (cs, pr) = Inr (cs', pr')" and "distinct (List.map cd_id cs @ List.map m_id ms)"
    and "kv_ok pr" and "\<forall>c\<in>set cs. projected_ok B opts now t M pr c" and "set ms \<subseteq> M"
    and "List.map cd_base_order cs = List.map int [0..<length cs]"
  shows "kv_ok pr' \<and> List.map cd_id cs' = List.map cd_id cs @ List.map m_id (filter (admitted B opts now t) ms)
    \<and> (\<forall>c\<in>set cs'. projected_ok B opts now t M pr' c) \<and> List.map cd_base_order cs' = List.map int [0..<length cs']
    \<and> List.map entry_key cs' = List.map entry_key cs @ List.map base_key (filter (admitted B opts now t) ms)"
  using assms
proof (induction ms arbitrary: cs pr)
  case Nil
  then show ?case by simp
next
  case (Cons m ms)
  obtain x where x: "queue_activity B opts now t m = Inr x" using Cons.prems(1) by (auto simp: rbind_Inr_iff)
  show ?case
  proof (cases x)
    case None
    then have step: "queue_loop B opts now t ms (cs, pr) = Inr (cs', pr')" using Cons.prems(1) x by simp
    have "\<not> admitted B opts now t m" using x None by (simp add: admitted_def)
    with Cons.IH [OF step _ Cons.prems(3,4)] Cons.prems(2,5,6) show ?thesis by simp
  next
    case (Some a)
    let ?c = "queue_entry (int (length cs)) now m a"
    have step: "queue_loop B opts now t ms (cs @ [?c], kv_put (m_id m) (m, a) pr) = Inr (cs', pr')"
      using Cons.prems(1) x Some by simp
    have adm: "admitted B opts now t m" using x Some by (simp add: admitted_def)
    have id: "cd_id ?c = m_id m" "?c = queue_entry (cd_base_order ?c) now m a" by (simp_all add: queue_entry_def)
    have "kv_get (kv_put (m_id m) (m, a) pr) (cd_id ?c) = Some (m, a)" using Cons.prems(3) id(1) by (simp add: kv_get_put)
    then have "projected_ok B opts now t M (kv_put (m_id m) (m, a) pr) ?c"
      using Cons.prems(5) x Some id unfolding projected_ok_def by (intro exI [of _ m] exI [of _ a]) simp
    moreover have "cd_id c \<noteq> m_id m" if "c \<in> set cs" for c using Cons.prems(2) that by force
    then have "\<forall>c\<in>set cs. projected_ok B opts now t M (kv_put (m_id m) (m, a) pr) c"
      using Cons.prems(3,4) by (simp add: projected_ok_def kv_get_put)
    moreover have "distinct (List.map cd_id (cs @ [?c]) @ List.map m_id ms)" using Cons.prems(2) id by simp
    moreover have "List.map cd_base_order (cs @ [?c]) = List.map int [0..<length (cs @ [?c])]"
      using Cons.prems(6) by (simp add: queue_entry_def)
    ultimately show ?thesis
      using Cons.IH [OF step] Cons.prems(3,5) adm id(1) by (simp add: entry_key_queue_entry)
  qed
qed

lemma ranked_map:
  assumes "\<forall>c\<in>set ranked. projected_ok B opts now t M pr c"
  shows "List.map (\<lambda>q. m_id (qc_manifest q)) (List.map (ranked_candidate pr) (enumerate k ranked)) = List.map cd_id ranked
    \<and> List.map qc_rank (List.map (ranked_candidate pr) (enumerate k ranked)) = List.map (\<lambda>j. int j + 1) [k..<k + length ranked]
    \<and> (\<forall>q\<in>set (List.map (ranked_candidate pr) (enumerate k ranked)).
         qc_manifest q \<in> M \<and> queue_admits B opts now t (qc_manifest q) (qc_activity q))
    \<and> List.map (\<lambda>q. queue_key now (qc_manifest q) (qc_activity q)) (List.map (ranked_candidate pr) (enumerate k ranked))
        = List.map candidate_key ranked"
  using assms
proof (induction ranked arbitrary: k)
  case (Cons c ranked)
  then obtain m a where c: "kv_get pr (cd_id c) = Some (m, a)" "m_id m = cd_id c" "m \<in> M"
    "queue_admits B opts now t m a" and entry: "c = queue_entry (cd_base_order c) now m a"
    by (auto simp: projected_ok_def queue_activity_admits)
  have key: "candidate_key c = queue_key now m a" by (subst entry) (rule candidate_key_entry)
  have "[k..<k + length (c # ranked)] = k # [Suc k..<Suc k + length ranked]" by (simp add: upt_conv_Cons del: upt_Suc)
  then show ?case using Cons.IH [of "Suc k"] Cons.prems c key by (simp add: ranked_candidate_def del: upt_Suc)
qed simp


text \<open>The selection cycles through the queue: from an item at a position it goes to the next one, back to
  the first exactly after the last, and from an item outside the queue to the first.\<close>

theorem select_actionability_cycles:
  assumes "distinct (List.map (\<lambda>c. m_id (qc_manifest c)) (qr_candidates q))" and "k < length (qr_candidates q)"
  shows "sl_item (select_actionability q (m_id (qc_manifest (qr_candidates q ! k))))
      = m_id (qc_manifest (qr_candidates q ! (if Suc k = length (qr_candidates q) then 0 else Suc k)))
    \<and> (sl_wrapped (select_actionability q (m_id (qc_manifest (qr_candidates q ! k)))) \<longleftrightarrow> Suc k = length (qr_candidates q))
    \<and> (i \<notin> (\<lambda>c. m_id (qc_manifest c)) ` set (qr_candidates q) \<longrightarrow>
         sl_item (select_actionability q i) = m_id (qc_manifest (qr_candidates q ! 0)) \<and> \<not> sl_wrapped (select_actionability q i))"
proof -
  have nth: "k < length cs \<Longrightarrow> distinct (List.map (\<lambda>c. m_id (qc_manifest c)) cs) \<Longrightarrow>
      index_of_item (m_id (qc_manifest (cs ! k))) cs = Some k" for cs k
  proof (induction cs arbitrary: k)
    case (Cons c cs)
    then show ?case by (cases k) (auto simp: image_iff)
  qed simp
  have out: "i \<notin> (\<lambda>c. m_id (qc_manifest c)) ` set cs \<Longrightarrow> index_of_item i cs = None" for cs
    by (induction cs) auto
  have ne: "qr_candidates q \<noteq> []" using assms(2) by auto
  have "(k + 1) mod length (qr_candidates q) = (if Suc k = length (qr_candidates q) then 0 else Suc k)"
    using assms(2) by auto
  then show ?thesis
    using nth [OF assms(2,1)] out [of "qr_candidates q"] ne by (simp add: select_actionability_def Let_def)
qed

section \<open>A concrete queue\<close>

definition two_queue :: queue_result where
  "two_queue = \<lparr>qr_strategy = default_strategy, qr_candidates =
     [\<lparr>qc_manifest = this_item, qc_activity = empty_attention (m_id this_item), qc_rank = 1\<rparr>,
      \<lparr>qc_manifest = other_item, qc_activity = empty_attention (m_id other_item), qc_rank = 2\<rparr>]\<rparr>"

theorem select_actionability_cycles_witness:
  "sl_item (select_actionability two_queue (m_id other_item)) = m_id this_item
   \<and> sl_wrapped (select_actionability two_queue (m_id other_item))"
  using select_actionability_cycles [of two_queue 1] by (simp add: two_queue_def sample_fields)

definition idle_observation :: agent_observation where
  "idle_observation = \<lparr>ob_item = m_id this_item, ob_status = ''idle'', ob_reason = [], ob_online = True,
     ob_process = \<lparr>pp_runtime = [], pp_mode = [], pp_host_pid = 0, pp_tmux_session = [], pp_tmux_window = [],
       pp_pane_id = [], pp_pane_index = [], pp_pane_pid = 0, pp_pane_command = [], pp_pane_path = [],
       pp_backend_pid = 0, pp_source = []\<rparr>,
     ob_runtime = None, ob_terminal = None, ob_agent_state = [], ob_turn_state = [], ob_last_activity_at = None,
     ob_worktree = None, ob_worktree_at = 0, ob_activity = empty_attention (m_id this_item), ob_observed_at = 0,
     ob_warnings = []\<rparr>"

definition active_item :: manifest where
  "active_item = this_item\<lparr>m_state := state_active\<rparr>"

definition queue_tx :: "(string \<times> stored) list tx_state" where
  "queue_tx = put_projection list_bolt observation_projection (m_id this_item) (StObservation idle_observation)
     (put_projection list_bolt manifest_projection (m_id this_item) (StManifest active_item) list_tx)"

lemma active_fields: "m_id active_item = m_id this_item" "m_state active_item = state_active" "m_labels active_item = []"
  "m_blockers active_item = []" "persist_manifest active_item = active_item"
  by (simp_all add: active_item_def this_item_def sample_item_def zero_manifest_def persist_manifest_def
      persist_repository_def zero_repository_def)

lemma queue_tx_ok: "tx_ok kv_ok queue_tx"
  using list_events.tx_ok_put(4) [OF list_events.tx_ok_put(4) [OF list_tx_ok]] by (simp add: queue_tx_def)

lemma queue_tx_get: "get_projection list_bolt name k queue_tx =
   (if name = observation_projection \<and> k = m_id this_item then Some (StObservation idle_observation)
    else if name = manifest_projection \<and> k = m_id this_item then Some (StManifest active_item) else None)"
  using list_events.get_put_projection [OF list_events.tx_ok_put(4) [OF list_tx_ok]]
    list_events.get_put_projection [OF list_tx_ok]
  by (auto simp: queue_tx_def) (auto simp: get_projection_def new_tx_def)

lemma queue_tx_items: "items_ok list_bolt queue_tx"
  by (auto simp: items_ok_def queue_tx_get active_fields sample_fields)

lemma queue_tx_activity:
  "queue_activity list_bolt \<lparr>qo_strategy = [], qo_label_rules = []\<rparr> 9 queue_tx active_item = Inr (Some (empty_attention (m_id this_item)))"
  by (simp add: queue_activity_def active_fields matches_canonical_labels_def queue_tx_get observation_skipped_def
      idle_observation_def read_attention_def merged_activity_def empty_attention_def eligible_def waiting_def
      open_blockers_def)


end
