(* ===== verification/Commands.thy ===== *)
theory Commands
  imports Queue
begin

text \<open>
  Manifest commands (\<open>internal/coordinator/domain.go\<close> and the pure part of \<open>edit_item.go\<close>): what each
  command makes of an item and which events it records, and the transaction around it with its
  replay, revision check and outcome record.
\<close>

abbreviation command_labels_add :: string where "command_labels_add \<equiv> ''item.labels.add''"
abbreviation command_labels_remove :: string where "command_labels_remove \<equiv> ''item.labels.remove''"
abbreviation command_deep_work_set :: string where "command_deep_work_set \<equiv> ''item.deep_work.set''"
abbreviation command_state_set :: string where "command_state_set \<equiv> ''item.state.set''"
abbreviation command_title_set :: string where "command_title_set \<equiv> ''item.title.set''"
abbreviation command_edit :: string where "command_edit \<equiv> ''item.edit''"
abbreviation command_blocker_add :: string where "command_blocker_add \<equiv> ''item.blocker.add''"
abbreviation command_blocker_clear :: string where "command_blocker_clear \<equiv> ''item.blocker.clear''"

section \<open>Metadata edits\<close>

definition valid_title :: "string \<Rightarrow> bool" where
  "valid_title s \<longleftrightarrow> s \<noteq> [] \<and> length s \<le> 512 \<and> valid_utf8 s \<and> \<not> has_control s"

definition max_description_bytes :: nat where
  "max_description_bytes = 4 * 1024 * 1024"

definition valid_description :: "string \<Rightarrow> bool" where
  "valid_description s \<longleftrightarrow> length s \<le> max_description_bytes \<and> valid_utf8 s"

definition description_digest :: "string \<Rightarrow> string" where
  "description_digest s = hex_digest 32 s"

definition valid_description_digest :: "string \<Rightarrow> bool" where
  "valid_description_digest s \<longleftrightarrow> hex_decoded_length s = Some 32 \<and> s = to_lower s"

definition label_text :: "string list \<Rightarrow> string" where
  "label_text ls = join_with [char_of (0 :: nat)] ls"

definition edit_title :: "metadata_edit \<Rightarrow> manifest \<Rightarrow> (coord_error, manifest \<times> string list) result" where
  "edit_title e m = (case me_title e of
     None \<Rightarrow> Inr (m, [])
   | Some raw \<Rightarrow>
       (let title = trim_space raw
        in if \<not> valid_title title then Inl (Refused ''a single-line UTF-8 title of up to 512 bytes is required'')
           else if m_title m \<noteq> title then Inr (m\<lparr>m_title := title\<rparr>, [''title'']) else Inr (m, [])))"

definition edit_labels :: "metadata_edit \<Rightarrow> manifest \<Rightarrow> (coord_error, manifest \<times> string list) result" where
  "edit_labels e m = (case normalize_labels (me_add_labels e) of
     Inl x \<Rightarrow> Inl (OfLabel x)
   | Inr add \<Rightarrow> (case normalize_labels (me_remove_labels e) of
       Inl x \<Rightarrow> Inl (OfLabel x)
     | Inr remove \<Rightarrow>
         if list_ex (has_label remove) add then Inl (Refused ''label cannot be both added and removed'')
         else (case remove_labels (m_labels m) remove of
             Inl x \<Rightarrow> Inl (OfLabel x)
           | Inr (labels, _) \<Rightarrow> (case add_labels labels add of
               Inl x \<Rightarrow> Inl (OfLabel x)
             | Inr (labels, _) \<Rightarrow>
                 if label_text labels \<noteq> label_text (m_labels m)
                 then Inr (m\<lparr>m_labels := labels\<rparr>, [''labels'']) else Inr (m, [])))))"

text \<open>The fields without a rule of their own, in the code's order.\<close>

definition edit_field ::
  "(manifest \<Rightarrow> bool) \<Rightarrow> string \<Rightarrow> (manifest \<Rightarrow> manifest) \<Rightarrow> manifest \<times> string list \<Rightarrow> manifest \<times> string list" where
  "edit_field changes name change st =
     (case st of (m, fs) \<Rightarrow> if changes m then (change m, fs @ [name]) else (m, fs))"

definition edit_flags :: "metadata_edit \<Rightarrow> manifest \<Rightarrow> manifest \<times> string list" where
  "edit_flags e m =
     edit_field (\<lambda>m. me_snoozed_until e \<noteq> None \<and> m_snoozed_until m \<noteq> me_snoozed_until e) ''snoozed_until''
       (\<lambda>m. m\<lparr>m_snoozed_until := me_snoozed_until e\<rparr>)
    (edit_field (\<lambda>m. me_clear_snooze e \<and> m_snoozed_until m \<noteq> None) ''snoozed_until''
       (\<lambda>m. m\<lparr>m_snoozed_until := None\<rparr>)
    (edit_field (\<lambda>m. me_pinned e \<noteq> None \<and> me_pinned e \<noteq> Some (m_pinned m)) ''pinned''
       (\<lambda>m. m\<lparr>m_pinned := the (me_pinned e)\<rparr>)
    (edit_field (\<lambda>m. me_priority e \<noteq> None \<and> me_priority e \<noteq> Some (m_priority m)) ''priority''
       (\<lambda>m. m\<lparr>m_priority := the (me_priority e)\<rparr>)
    (edit_field (\<lambda>m. me_deep_work e \<noteq> None \<and> me_deep_work e \<noteq> Some (m_deep_work m)) ''deep_work''
       (\<lambda>m. m\<lparr>m_deep_work := the (me_deep_work e)\<rparr>) (m, [])))))"

definition edit_description :: "metadata_edit \<Rightarrow> (coord_error, string list) result" where
  "edit_description e =
     (if me_digest e \<noteq> [] then
        (if \<not> valid_description_digest (me_digest e) \<or> \<not> valid_description_digest (me_previous_digest e)
         then Inl (Refused ''description edit requires valid old and new digests'')
         else Inr (if me_digest e \<noteq> me_previous_digest e then [''description''] else []))
      else if me_previous_digest e \<noteq> [] then Inl (Refused ''new description digest is required'')
      else Inr [])"

definition apply_metadata_edit ::
  "metadata_edit option \<Rightarrow> manifest \<Rightarrow> (coord_error, manifest \<times> string list) result" where
  "apply_metadata_edit edit m = (case edit of
     None \<Rightarrow> Inl (Refused ''metadata edit is required'')
   | Some e \<Rightarrow>
       rbind (edit_title e m) (\<lambda>(m, f1).
       rbind (edit_labels e m) (\<lambda>(m, f2).
         let (m, f3) = edit_flags e m
         in rbind (edit_description e) (\<lambda>f4. Inr (m, f1 @ f2 @ f3 @ f4)))))"

definition edit_event_data :: "metadata_edit \<Rightarrow> manifest \<Rightarrow> string list \<Rightarrow> event_data" where
  "edit_event_data e m fs = fold (\<lambda>f d.
       if f = ''title'' then kv_put f (JStr (m_title m)) d
       else if f = ''labels'' then kv_put f (jstrs (m_labels m)) d
       else if f = ''deep_work'' then kv_put f (JBool (m_deep_work m)) d
       else if f = ''description'' then kv_put ''description_digest'' (JStr (me_digest e)) d
       else d) fs [(''fields'', jstrs fs)]"

section \<open>State changes\<close>

definition deep_work_capacity :: "manifest list \<Rightarrow> nat \<times> string list" where
  "deep_work_capacity all =
     (let active = filter (\<lambda>m. m_deep_work m \<and> m_state m = state_active) all
      in (length active, sort_strings (List.map m_id active)))"

definition used_slugs :: "string \<Rightarrow> manifest list \<Rightarrow> string list" where
  "used_slugs i all = List.map m_slug (filter (\<lambda>m. m_id m \<noteq> i \<and> m_state m \<noteq> state_closed \<and> m_slug m \<noteq> []) all)"

definition slug_candidate :: "string \<Rightarrow> nat \<Rightarrow> string" where
  "slug_candidate base index =
     (let suffix = CHR ''-'' # itoa index; limit = max_slug_length - length suffix
      in trim_char (CHR ''-'') (take (min (length base) limit) base) @ suffix)"

fun try_slugs :: "string \<Rightarrow> string list \<Rightarrow> nat \<Rightarrow> nat \<Rightarrow> (coord_error, string) result" where
  "try_slugs base used index 0 = Inl (Refused ''could not allocate a unique slug'')"
| "try_slugs base used index (Suc n) =
     (if slug_candidate base index \<notin> set used then Inr (slug_candidate base index)
      else try_slugs base used (Suc index) n)"

definition unique_canonical_slug :: "string \<Rightarrow> string \<Rightarrow> manifest list \<Rightarrow> (coord_error, string) result" where
  "unique_canonical_slug base i all =
     (let used = used_slugs i all; base = (if base = [] then ''item'' else base)
      in if base \<notin> set used then Inr base else try_slugs base used 2 9999)"

definition reopen_item :: "manifest \<Rightarrow> manifest list \<Rightarrow> (coord_error, manifest \<times> command_event list) result" where
  "reopen_item m all = rbind (unique_canonical_slug (slugify (m_title m)) (m_id m) all) (\<lambda>slug.
     Inr (m\<lparr>m_slug := slug, m_state := state_backlog, m_resolution := []\<rparr>,
          [emit ''work_item.state_set'' [(''new_state'', JStr state_backlog), (''previous_resolution'', JStr (m_resolution m)),
             (''previous_state'', JStr (m_state m)), (''slug'', JStr slug), (''workspace_unchanged'', JBool True)]]))"

definition close_item :: "string \<Rightarrow> manifest \<Rightarrow> (coord_error, manifest \<times> command_event list) result" where
  "close_item requested m =
     (let resolution = (if requested = [] then ''completed'' else requested)
      in if \<not> valid_resolution resolution then Inl (Refused ''invalid resolution'')
         else (let (m', events) = clear_all_blockers ''closed'' m
           in Inr (m'\<lparr>m_state := state_closed, m_slug := [], m_resolution := resolution\<rparr>,
                events @ [emit ''work_item.state_set'' [(''new_state'', JStr state_closed),
                  (''previous_slug'', JStr (m_slug m)), (''previous_state'', JStr (m_state m)),
                  (''resolution'', JStr resolution), (''workspace_unchanged'', JBool True)]])))"

definition state_event_data :: "manifest_command \<Rightarrow> manifest \<Rightarrow> string \<Rightarrow> nat \<Rightarrow> int \<Rightarrow> event_data" where
  "state_event_data c m target active limit =
     [(''active_before'', JInt (int active)), (''deep_work'', JBool (m_deep_work m)), (''forced'', JBool (mc_force c)),
      (''limit'', JInt limit), (''new_state'', JStr target), (''previous_state'', JStr (m_state m))]"

definition move_item ::
  "manifest_command \<Rightarrow> string \<Rightarrow> manifest \<Rightarrow> manifest list \<Rightarrow> (coord_error, manifest \<times> command_event list) result" where
  "move_item c target m all =
     (if \<not> (target = state_active \<and> m_state m = state_backlog \<or> target = state_backlog \<and> m_state m = state_active)
      then Inl (Refused ''invalid state transition'')
      else (let active = fst (deep_work_capacity all); limit = max 0 (mc_max_active c)
        in if m_deep_work m \<and> m_state m = state_backlog \<and> target = state_active \<and> int active \<ge> limit \<and> \<not> mc_force c
           then Inl (Refused ''deep work active limit reached'')
           else (let kind = (if mc_event_type c = [] then ''work_item.state_set'' else mc_event_type c)
             in if kind \<noteq> ''work_item.state_set'' \<and> kind \<noteq> ''work_item.started'' \<and> kind \<noteq> ''work_item.resumed''
                then Inl (Refused ''unsupported state event type'')
                else (let data = state_event_data c m target active limit;
                          data = (if kind = ''work_item.state_set'' then kv_put ''workspace_unchanged'' (JBool True) data else data)
                  in Inr (m\<lparr>m_state := target\<rparr>,
                       (if mc_force c \<and> m_deep_work m \<and> m_state m = state_backlog
                        then [emit ''deep_work_limit.overridden'' data] else []) @ [emit kind data])))))"

definition apply_state_set ::
  "manifest_command \<Rightarrow> manifest \<Rightarrow> manifest list \<Rightarrow> (coord_error, manifest \<times> command_event list) result" where
  "apply_state_set c m all =
     (let target = mc_target_state c
      in if target \<noteq> state_backlog \<and> target \<noteq> state_active \<and> target \<noteq> state_closed then Inl (Refused ''invalid state'')
         else if mc_resolution c \<noteq> [] \<and> target \<noteq> state_closed
           then Inl (Refused ''a resolution is only valid when closing an item'')
         else if m_state m = target then Inr (m, [])
         else if m_state m = state_closed then
           (if target \<noteq> state_backlog then Inl (Refused ''work item is closed; reopen it to backlog'') else reopen_item m all)
         else if target = state_closed then close_item (mc_resolution c) m
         else move_item c target m all)"

section \<open>One command\<close>

definition label_event :: "string \<Rightarrow> string \<Rightarrow> command_event" where
  "label_event kind l = emit kind [(''label'', JStr l)]"

definition edit_item :: "manifest_command \<Rightarrow> manifest \<Rightarrow> (coord_error, manifest \<times> command_event list) result" where
  "edit_item c m = rbind (apply_metadata_edit (mc_edit c) m) (\<lambda>(m, fs).
     Inr (m, if fs = [] then [] else [emit ''work_item.edited'' (edit_event_data (the (mc_edit c)) m fs)]))"

definition set_title :: "string \<Rightarrow> manifest \<Rightarrow> (coord_error, manifest \<times> command_event list) result" where
  "set_title raw m =
     (let title = trim_space raw
      in if \<not> valid_title title then Inl (Refused ''a single-line title of up to 512 bytes is required'')
         else if title = m_title m then Inr (m, [])
         else Inr (m\<lparr>m_title := title\<rparr>, [emit ''work_item.title_set'' [(''title'', JStr title)]]))"

definition labels_command ::
  "string \<Rightarrow> (label_error, string list \<times> string list) result \<Rightarrow> manifest
   \<Rightarrow> (coord_error, manifest \<times> command_event list) result" where
  "labels_command kind outcome m = (case outcome of
     Inl x \<Rightarrow> Inl (OfLabel x)
   | Inr (labels, changed) \<Rightarrow>
       if changed = [] then Inr (m, []) else Inr (m\<lparr>m_labels := labels\<rparr>, List.map (label_event kind) changed))"

definition set_deep_work :: "bool option \<Rightarrow> manifest \<Rightarrow> (coord_error, manifest \<times> command_event list) result" where
  "set_deep_work value m = (case value of
     None \<Rightarrow> Inl (Refused ''deep_work is required'')
   | Some d \<Rightarrow>
       if m_deep_work m = d then Inr (m, [])
       else Inr (m\<lparr>m_deep_work := d\<rparr>,
         [emit (if d then ''deep_work.set'' else ''deep_work.cleared'') [(''deep_work'', JBool d)]]))"

text \<open>The manifest and the pending events of a command, before the shared ending.\<close>

definition command_effect ::
  "manifest_command \<Rightarrow> manifest \<Rightarrow> manifest list \<Rightarrow> (coord_error, manifest \<times> command_event list) result" where
  "command_effect c m all =
     (if mc_type c = command_edit then edit_item c m
      else if mc_type c = command_title_set then set_title (mc_title c) m
      else if mc_type c = command_labels_add
        then labels_command ''label.added'' (add_labels (m_labels m) (mc_labels c)) m
      else if mc_type c = command_labels_remove
        then labels_command ''label.removed'' (remove_labels (m_labels m) (mc_labels c)) m
      else if mc_type c = command_deep_work_set then set_deep_work (mc_deep_work c) m
      else if mc_type c = command_blocker_add then apply_blocker_add c m all
      else if mc_type c = command_blocker_clear then apply_blocker_clear c m
      else if mc_type c = command_state_set then apply_state_set c m all
      else Inl (Refused ''unsupported manifest command''))"

definition apply_manifest_command ::
  "manifest_command \<Rightarrow> manifest \<Rightarrow> manifest list \<Rightarrow> (coord_error, manifest \<times> command_event list \<times> bool) result" where
  "apply_manifest_command c m all = rbind (command_effect c m all) (\<lambda>(m, pending).
     if pending = [] then Inr (m, [], False)
     else (let m = (if mc_type c = command_state_set then m\<lparr>m_state_changed_at := mc_created_at c\<rparr> else m)
       in Inr (m\<lparr>m_updated_at := mc_created_at c\<rparr>, pending, True)))"

section \<open>Unique slugs\<close>

lemma slug_candidate_inj: "slug_candidate base i = slug_candidate base j \<Longrightarrow> i = j"
proof -
  have no: "CHR ''-'' \<notin> set (itoa n)" for n using itoa_digits [of "CHR ''-''" n] by auto
  have "takeWhile (\<lambda>c. c \<noteq> CHR ''-'') (rev (slug_candidate base n)) = rev (itoa n)" for n
    using no [of n] by (auto simp: slug_candidate_def Let_def takeWhile_append)
  then show "slug_candidate base i = slug_candidate base j \<Longrightarrow> i = j" by (metis itoa_inj rev_rev_ident)
qed

lemma canonical_append_number:
  assumes "canonical_slug p" and "length p + length ds + 1 \<le> max_slug_length" and "ds \<noteq> []"
    and "\<forall>c\<in>set ds. 48 \<le> (of_char c :: nat) \<and> of_char c \<le> (57 :: nat)"
  shows "canonical_slug (p @ CHR ''-'' # ds)"
proof -
  have digit: "slug_char c \<and> c \<noteq> CHR ''-''" if "c \<in> set ds" for c
    using assms(4) that by (auto simp: slug_char_def slug_letter_def)
  then have "successively (\<lambda>a b. \<not> (a = CHR ''-'' \<and> b = CHR ''-'')) ds"
    using assms(3) by (induction ds rule: induct_list012) auto
  moreover have "hd ds \<noteq> CHR ''-''" "last ds \<noteq> CHR ''-''" using assms(3) digit by (auto simp: neq_Nil_conv)
  ultimately show ?thesis
    using assms digit
    by (auto simp: canonical_slug_def no_double_hyphen_def successively_append_iff successively_Cons list_all_iff
        slug_char_def hd_append)
qed

lemma slug_candidate_canonical:
  assumes "canonical_slug base" and "index \<le> 10000"
  shows "canonical_slug (slug_candidate base index)"
proof -
  have len: "length (itoa index) \<le> 5" using length_itoa_le [of index 5] assms(2) by simp
  define n where "n = min (length base) (max_slug_length - Suc (length (itoa index)))"
  have n: "0 < n" "n \<le> length base" "n + length (itoa index) + 1 \<le> max_slug_length"
    using len assms(1) by (auto simp: n_def max_slug_length_def canonical_slug_def)
  have eq: "base = take n base @ drop n base" by simp
  then have b: "list_all slug_char (take n base)" "no_double_hyphen (take n base)" "hd (take n base) \<noteq> CHR ''-''"
    "take n base \<noteq> []"
    using assms(1) n unfolding canonical_slug_def no_double_hyphen_def
    by (metis list_all_append, metis successively_append_iff, auto simp: hd_conv_nth)
  obtain xs x where xs: "take n base = xs @ [x]" using b(4) by (cases "take n base" rule: rev_cases) auto
  have trim: "trim_char (CHR ''-'') (take n base) = (if x = CHR ''-'' then xs else take n base)"
    using trim_hyphen_once [OF b(2,4,3)] xs by simp
  have "canonical_slug (trim_char (CHR ''-'') (take n base)) \<and> length (trim_char (CHR ''-'') (take n base)) \<le> n"
  proof (cases "x = CHR ''-''")
    case True
    then have "xs \<noteq> []" "last xs \<noteq> CHR ''-''"
      using b(2,3) unfolding xs by (auto simp: no_double_hyphen_def successively_append_iff)
    moreover have "length xs < n" using arg_cong [OF xs, of length] n(2) by simp
    moreover have "list_all slug_char xs" "no_double_hyphen xs" "hd xs \<noteq> CHR ''-''"
      using b \<open>xs \<noteq> []\<close> unfolding xs by (auto simp: no_double_hyphen_def successively_append_iff)
    moreover have "trim_char (CHR ''-'') (take n base) = xs" using trim True by simp
    ultimately show ?thesis using n by (simp add: canonical_slug_def)
  next
    case False
    moreover have "length (take n base) \<le> n" "n \<le> max_slug_length" using n by simp_all
    ultimately show ?thesis using b xs unfolding trim by (simp add: canonical_slug_def)
  qed
  then show ?thesis
    using canonical_append_number [of "trim_char (CHR ''-'') (take n base)" "itoa index"] n(3) itoa_digits
    by (auto simp: slug_candidate_def Let_def n_def [symmetric])
qed

lemma try_slugs_Inr:
  "try_slugs base used k n = Inr s \<Longrightarrow> s \<notin> set used \<and> (\<exists>i. k \<le> i \<and> i < k + n \<and> s = slug_candidate base i)"
proof (induction n arbitrary: k)
  case (Suc n)
  show ?case
  proof (cases "slug_candidate base k \<notin> set used")
    case True
    then show ?thesis using Suc.prems by auto
  next
    case False
    then have "try_slugs base used (Suc k) n = Inr s" using Suc.prems by simp
    from Suc.IH [OF this] show ?thesis by (metis Suc_leD add_Suc_right add_Suc_shift)
  qed
qed simp

lemma try_slugs_Inl: "try_slugs base used k n = Inl e \<Longrightarrow> slug_candidate base ` {k..<k + n} \<subseteq> set used"
proof (induction n arbitrary: k)
  case (Suc n)
  then have "slug_candidate base k \<in> set used" "try_slugs base used (Suc k) n = Inl e"
    by (simp_all split: if_split_asm)
  moreover have "{k..<k + Suc n} = insert k {Suc k..<Suc k + n}" by auto
  ultimately show ?case using Suc.IH [of "Suc k"] by simp
qed simp

lemma unique_slug_nonempty: "unique_canonical_slug base i all = Inr s \<Longrightarrow> s \<noteq> []"
  using try_slugs_Inr [of "if base = [] then ''item'' else base" "used_slugs i all" 2 9999 s]
  by (auto simp: unique_canonical_slug_def slug_candidate_def Let_def split: if_split_asm)

lemma unique_slug_fresh: "unique_canonical_slug base i all = Inr s \<Longrightarrow> s \<notin> set (used_slugs i all)"
  using try_slugs_Inr [of "if base = [] then ''item'' else base" "used_slugs i all" 2 9999 s]
  by (auto simp: unique_canonical_slug_def Let_def split: if_split_asm)

text \<open>C33: a slug allocated for an item is not used by another open item and is canonical when the wanted one
  is; allocation succeeds whenever fewer than 9999 slugs are in use.\<close>

theorem unique_canonical_slug_correct:
  "(\<forall>s. unique_canonical_slug base i all = Inr s \<longrightarrow>
      s \<notin> set (used_slugs i all) \<and> (canonical_slug base \<longrightarrow> canonical_slug s))
   \<and> (length (used_slugs i all) < 9999 \<longrightarrow> (\<exists>s. unique_canonical_slug base i all = Inr s))"
proof (intro conjI allI impI)
  let ?b = "if base = [] then ''item'' else base" and ?u = "used_slugs i all"
  fix s assume s: "unique_canonical_slug base i all = Inr s"
  consider "s = ?b" "?b \<notin> set ?u" | k where "s = slug_candidate ?b k" "s \<notin> set ?u" "k \<le> 10000"
    using s try_slugs_Inr [of ?b ?u 2 9999 s] by (fastforce simp: unique_canonical_slug_def Let_def split: if_split_asm)
  note c = this
  from c show "s \<notin> set ?u" by cases auto
  assume "canonical_slug base"
  then have "canonical_slug ?b" by (simp add: canonical_slug_def)
  with c show "canonical_slug s" by cases (auto intro: slug_candidate_canonical)
next
  let ?b = "if base = [] then ''item'' else base" and ?u = "used_slugs i all"
  assume small: "length ?u < 9999"
  show "\<exists>s. unique_canonical_slug base i all = Inr s"
  proof (rule ccontr)
    assume "\<not> ?thesis"
    then obtain e where "try_slugs ?b ?u 2 9999 = Inl e"
      by (cases "try_slugs ?b ?u 2 9999") (auto simp: unique_canonical_slug_def Let_def split: if_split_asm)
    from card_mono [OF _ try_slugs_Inl [OF this]]
    have "card (slug_candidate ?b ` {2..<2 + 9999}) \<le> length ?u" using card_length [of ?u] by simp
    moreover have "inj_on (slug_candidate ?b) {2..<2 + 9999}" by (rule inj_onI) (rule slug_candidate_inj)
    ultimately show False using small by (simp add: card_image)
  qed
qed

section \<open>What a command makes of an item\<close>

text \<open>The parts of an item no command touches.\<close>

definition same_identity :: "manifest \<Rightarrow> manifest \<Rightarrow> bool" where
  "same_identity m m' \<longleftrightarrow> m_id m' = m_id m \<and> m_created_at m' = m_created_at m \<and> m_repository m' = m_repository m
     \<and> m_checkout m' = m_checkout m \<and> m_conversation m' = m_conversation m \<and> m_agent m' = m_agent m"

definition item_ok :: "manifest \<Rightarrow> bool" where
  "item_ok m \<longleftrightarrow> manifest_ok m \<and> (m_state m = state_closed \<longrightarrow> m_blockers m = [])"

lemma used_slugs_iff: "s \<in> set (used_slugs i all) \<longleftrightarrow>
    (\<exists>m\<in>set all. m_id m \<noteq> i \<and> m_state m \<noteq> state_closed \<and> m_slug m \<noteq> [] \<and> m_slug m = s)"
  by (auto simp: used_slugs_def)

lemma add_labels_ok:
  assumes "labels_ok existing" and "add_labels existing ls = Inr (out, added)"
  shows "labels_ok out"
proof -
  have "add_loop ls (set existing) existing [] = Inr (out, added)"
    using assms by (simp add: add_labels_def normalize_labels_fixed)
  from add_loop_spec [OF this refl assms(1)] show ?thesis by blast
qed

text \<open>An item without what a metadata edit may change.\<close>

definition edit_frame :: "manifest \<Rightarrow> manifest" where
  "edit_frame m = m\<lparr>m_title := [], m_labels := [], m_deep_work := False, m_priority := 0, m_pinned := False,
     m_snoozed_until := None\<rparr>"

lemma edit_frame_update [simp]:
  "edit_frame (m\<lparr>m_title := x1\<rparr>) = edit_frame m"
  "edit_frame (m\<lparr>m_labels := x2\<rparr>) = edit_frame m"
  "edit_frame (m\<lparr>m_deep_work := x3\<rparr>) = edit_frame m"
  "edit_frame (m\<lparr>m_priority := x4\<rparr>) = edit_frame m"
  "edit_frame (m\<lparr>m_pinned := x3\<rparr>) = edit_frame m"
  "edit_frame (m\<lparr>m_snoozed_until := x5\<rparr>) = edit_frame m"
  by (simp_all add: edit_frame_def)

lemma edit_frame_item_ok:
  assumes "edit_frame m' = edit_frame m" and "item_ok m" and "labels_ok (m_labels m')"
  shows "item_ok m' \<and> same_identity m m' \<and> m_state m' = m_state m \<and> m_slug m' = m_slug m"
proof -
  have f: "m_id m' = m_id m" "m_slug m' = m_slug m" "m_state m' = m_state m" "m_created_at m' = m_created_at m"
    "m_repository m' = m_repository m" "m_checkout m' = m_checkout m" "m_conversation m' = m_conversation m"
    "m_agent m' = m_agent m" "m_resolution m' = m_resolution m" "m_blockers m' = m_blockers m"
    using arg_cong [OF assms(1), of m_id] arg_cong [OF assms(1), of m_slug] arg_cong [OF assms(1), of m_state]
      arg_cong [OF assms(1), of m_created_at] arg_cong [OF assms(1), of m_repository]
      arg_cong [OF assms(1), of m_checkout] arg_cong [OF assms(1), of m_conversation]
      arg_cong [OF assms(1), of m_agent] arg_cong [OF assms(1), of m_resolution]
      arg_cong [OF assms(1), of m_blockers]
    by (simp_all add: edit_frame_def)
  with assms(2,3) show ?thesis unfolding item_ok_def manifest_ok_def same_identity_def f by blast
qed

definition edit_kept :: "manifest \<Rightarrow> manifest \<times> string list \<Rightarrow> bool" where
  "edit_kept m st \<longleftrightarrow> edit_frame (fst st) = edit_frame m
     \<and> (labels_ok (m_labels m) \<longrightarrow> labels_ok (m_labels (fst st))) \<and> (snd st = [] \<longrightarrow> fst st = m)"

lemma edit_field_kept:
  assumes "edit_kept m st" and "edit_frame (change (fst st)) = edit_frame (fst st)"
    and "m_labels (change (fst st)) = m_labels (fst st)"
  shows "edit_kept m (edit_field changes name change st)"
  using assms by (cases st) (auto simp: edit_kept_def edit_field_def)

lemma edit_flags_kept: "edit_kept m (edit_flags e m)"
  unfolding edit_flags_def by (intro edit_field_kept) (simp_all add: edit_kept_def)

lemma edit_title_kept: "edit_title e m = Inr st \<Longrightarrow> edit_kept m st"
  by (auto simp: edit_title_def edit_kept_def Let_def split: option.splits if_split_asm)

lemma edit_labels_kept:
  assumes "edit_labels e m = Inr st"
  shows "edit_kept m st"
proof -
  obtain add rm kept removed labels added where r: "remove_labels (m_labels m) rm = Inr (kept, removed)"
      "add_labels kept add = Inr (labels, added)"
    and st: "fst st = m\<lparr>m_labels := labels\<rparr> \<and> snd st \<noteq> [] \<or> fst st = m"
    using assms by (auto simp: edit_labels_def split: sum.splits if_split_asm)
  have "labels_ok (m_labels m) \<Longrightarrow> labels_ok labels" using r remove_labels_ok add_labels_ok by blast
  then show ?thesis using st by (auto simp: edit_kept_def)
qed

lemma edit_kept_trans: "edit_kept m (m1, f1) \<Longrightarrow> edit_kept m1 (m2, f2) \<Longrightarrow> edit_kept m (m2, f1 @ f2)"
  by (auto simp: edit_kept_def)

lemma apply_metadata_edit_kept:
  assumes "apply_metadata_edit edit m = Inr (m', fs)"
  shows "edit_kept m (m', fs)"
proof -
  obtain e m1 f1 m2 f2 f4 where t: "edit_title e m = Inr (m1, f1)" and l: "edit_labels e m1 = Inr (m2, f2)"
    and m': "m' = fst (edit_flags e m2)" "fs = f1 @ f2 @ snd (edit_flags e m2) @ f4"
    using assms by (auto simp: apply_metadata_edit_def rbind_Inr_iff split_beta split: option.splits)
  have "edit_kept m (m2, f1 @ f2)" using edit_title_kept [OF t] edit_labels_kept [OF l] by (rule edit_kept_trans)
  moreover have "edit_kept m2 (m', snd (edit_flags e m2))" using edit_flags_kept [of m2 e] by (simp add: m')
  ultimately have "edit_kept m (m', (f1 @ f2) @ snd (edit_flags e m2))" by (rule edit_kept_trans)
  then show ?thesis by (auto simp: edit_kept_def m'(2))
qed

lemma apply_state_set_cases:
  assumes "apply_state_set c m all = Inr (m', evs)"
  obtains (same) "m' = m" "evs = []" "m_state m = mc_target_state c"
  | (reopen) slug where "m_state m = state_closed" "mc_target_state c = state_backlog"
      "unique_canonical_slug (slugify (m_title m)) (m_id m) all = Inr slug"
      "m' = m\<lparr>m_slug := slug, m_state := state_backlog, m_resolution := []\<rparr>" "evs \<noteq> []"
  | (close) r where "m_state m \<noteq> state_closed" "valid_resolution r"
      "m' = m\<lparr>m_blockers := [], m_state := state_closed, m_slug := [], m_resolution := r\<rparr>" "evs \<noteq> []"
  | (move) "m_state m \<noteq> state_closed" "m' = m\<lparr>m_state := mc_target_state c\<rparr>" "evs \<noteq> []"
      "mc_target_state c = state_active \<and> m_state m = state_backlog
       \<or> mc_target_state c = state_backlog \<and> m_state m = state_active"
      "m_deep_work m \<and> mc_target_state c = state_active \<and> \<not> mc_force c \<longrightarrow>
         int (fst (deep_work_capacity all)) < max 0 (mc_max_active c)"
proof -
  let ?t = "mc_target_state c"
  consider "m_state m = ?t" | "m_state m \<noteq> ?t" "m_state m = state_closed"
    | "m_state m \<noteq> ?t" "m_state m \<noteq> state_closed" "?t = state_closed"
    | "m_state m \<noteq> ?t" "m_state m \<noteq> state_closed" "?t \<noteq> state_closed" by blast
  then show thesis
  proof cases
    case 1
    then show thesis using assms same by (simp add: apply_state_set_def Let_def split: if_split_asm)
  next
    case 2
    then have t: "?t = state_backlog" and r: "reopen_item m all = Inr (m', evs)"
      using assms by (simp_all add: apply_state_set_def Let_def split: if_split_asm)
    from r obtain slug where "unique_canonical_slug (slugify (m_title m)) (m_id m) all = Inr slug"
      "m' = m\<lparr>m_slug := slug, m_state := state_backlog, m_resolution := []\<rparr>" "evs \<noteq> []"
      unfolding reopen_item_def by (elim rbind_InrE) auto
    with 2 t reopen show thesis by blast
  next
    case 3
    then have "close_item (mc_resolution c) m = Inr (m', evs)"
      using assms by (simp add: apply_state_set_def Let_def split: if_split_asm)
    then obtain r where "valid_resolution r" "evs \<noteq> []"
      "m' = m\<lparr>m_blockers := [], m_state := state_closed, m_slug := [], m_resolution := r\<rparr>"
      by (auto simp: close_item_def clear_all_blockers_def Let_def split: if_split_asm)
    with 3 close show thesis by blast
  next
    case 4
    then have "move_item c ?t m all = Inr (m', evs)"
      using assms by (simp add: apply_state_set_def Let_def split: if_split_asm)
    then have "m' = m\<lparr>m_state := ?t\<rparr>" "evs \<noteq> []"
      "?t = state_active \<and> m_state m = state_backlog \<or> ?t = state_backlog \<and> m_state m = state_active"
      "m_deep_work m \<and> ?t = state_active \<and> \<not> mc_force c \<longrightarrow>
         int (fst (deep_work_capacity all)) < max 0 (mc_max_active c)"
      by (auto simp: move_item_def Let_def split: if_split_asm)
    with 4 move show thesis by blast
  qed
qed

lemma if_resultE: "(if P then x else y) = z \<Longrightarrow> (P \<Longrightarrow> x = z \<Longrightarrow> T) \<Longrightarrow> (\<not> P \<Longrightarrow> y = z \<Longrightarrow> T) \<Longrightarrow> T"
  by (simp split: if_split_asm)

lemma command_effect_cases:
  assumes "command_effect c m all = Inr r"
  obtains (edit) "edit_item c m = Inr r"
  | (title) "set_title (mc_title c) m = Inr r"
  | (labels) kind outcome where "labels_command kind outcome m = Inr r"
      "outcome = add_labels (m_labels m) (mc_labels c) \<or> outcome = remove_labels (m_labels m) (mc_labels c)"
  | (deep) "set_deep_work (mc_deep_work c) m = Inr r"
  | (add) "mc_type c = command_blocker_add" "apply_blocker_add c m all = Inr r"
  | (clear) "apply_blocker_clear c m = Inr r"
  | (state) "mc_type c = command_state_set" "apply_state_set c m all = Inr r"
  using assms unfolding command_effect_def
  apply (elim if_resultE)
  subgoal by (rule edit)
  subgoal by (rule title)
  subgoal by (rule labels, assumption) simp
  subgoal by (rule labels, assumption) simp
  subgoal by (rule deep)
  subgoal by (rule add)
  subgoal by (rule clear)
  subgoal by (rule state)
  subgoal by (rule Inl_Inr_False [THEN iffD1, THEN FalseE])
  done

lemma command_effect_ok:
  assumes "command_effect c m all = Inr (m', evs)" and "item_ok m"
  shows "item_ok m' \<and> same_identity m m' \<and> (evs = [] \<longrightarrow> m' = m)"
proof -
  note ok = assms(2)
  from assms(1) show ?thesis
  proof (cases rule: command_effect_cases)
    case edit
    then obtain fs where fs: "apply_metadata_edit (mc_edit c) m = Inr (m', fs)" "evs = [] \<longleftrightarrow> fs = []"
      unfolding edit_item_def by (elim rbind_InrE) (auto split: prod.splits if_split_asm)
    have "labels_ok (m_labels m)" using ok by (simp add: item_ok_def manifest_ok_def)
    with apply_metadata_edit_kept [OF fs(1)] have "edit_frame m' = edit_frame m" "labels_ok (m_labels m')"
      "fs = [] \<longrightarrow> m' = m" by (simp_all add: edit_kept_def)
    with edit_frame_item_ok [OF _ ok] fs(2) show ?thesis by blast
  next
    case title
    then show ?thesis using ok
      by (auto simp: set_title_def Let_def item_ok_def manifest_ok_def same_identity_def split: if_split_asm)
  next
    case (labels kind outcome)
    then obtain ls changed where l: "outcome = Inr (ls, changed)"
      "m' = m \<and> evs = [] \<or> m' = m\<lparr>m_labels := ls\<rparr> \<and> evs \<noteq> []"
      by (auto simp: labels_command_def split: sum.splits if_split_asm)
    have "labels_ok ls"
      using labels(2) l(1) ok [unfolded item_ok_def manifest_ok_def] add_labels_ok remove_labels_ok by metis
    then show ?thesis using l(2) ok by (auto simp: item_ok_def manifest_ok_def same_identity_def)
  next
    case deep
    then show ?thesis using ok
      by (auto simp: set_deep_work_def item_ok_def manifest_ok_def same_identity_def split: option.splits if_split_asm)
  next
    case add
    then obtain new g es where m': "m_state m \<noteq> state_closed"
      "add_blockers (mc_id c) (mc_created_at c) 0 (mc_blockers c) (m, by_id all, []) = Inr (m', g, es)"
      "evs = [] \<longleftrightarrow> es = []"
      by (auto simp: apply_blocker_add_def rbind_Inr_iff split: if_split_asm)
    from add_blockers_keeps [OF m'(2)] obtain new where new: "m' = m\<lparr>m_blockers := m_blockers m @ new\<rparr>"
      "\<forall>b\<in>set new. validate_blocker b (m_id m) (mc_created_at c) = Inr () \<and> (\<exists>k. bl_id b = blocker_id (mc_id c) k)"
      "es = List.map (\<lambda>b. emit ''blocker.added'' (blocker_event_data b)) new" by auto
    then have "list_all (\<lambda>b. bl_id b \<noteq> [] \<and> valid_blocker_kind (bl_kind b)) new"
      by (auto simp: list_all_iff blocker_id_def dest: validate_blocker_kind)
    then show ?thesis using new m' assms(2) by (auto simp: item_ok_def manifest_ok_def same_identity_def)
  next
    case clear
    then show ?thesis using assms(2)
      by (auto simp: apply_blocker_clear_def clear_all_blockers_def Let_def item_ok_def manifest_ok_def same_identity_def
          list_all_iff filter_empty_conv list_ex_iff split: if_split_asm)
  next
    case state
    from state(2) show ?thesis
    proof (cases rule: apply_state_set_cases)
      case (reopen slug)
      have "slug \<noteq> []" using unique_slug_nonempty [OF reopen(3)] .
      with reopen assms(2) show ?thesis by (auto simp: item_ok_def manifest_ok_def same_identity_def valid_state_def)
    next
      case move
      then show ?thesis using assms(2)
        by (auto simp: item_ok_def manifest_ok_def same_identity_def valid_state_def valid_resolution_def)
    qed (use assms(2) in \<open>auto simp: item_ok_def manifest_ok_def same_identity_def valid_state_def\<close>)
  qed
qed

text \<open>C30: a manifest command keeps an item well formed, with blockers only while it is open, and keeps its
  identity, creation time, repository, checkout and conversation; it stamps the update time exactly
  when it records events, and changes nothing otherwise.\<close>

theorem apply_manifest_command_ok:
  assumes "apply_manifest_command c m all = Inr (m', evs, changed)" and "item_ok m"
  shows "item_ok m' \<and> same_identity m m' \<and> (changed \<longleftrightarrow> evs \<noteq> [])
    \<and> (changed \<longrightarrow> m_updated_at m' = mc_created_at c) \<and> (\<not> changed \<longrightarrow> m' = m)"
proof -
  obtain m1 where e: "command_effect c m all = Inr (m1, evs)"
    and m': "if evs = [] then m' = m1 \<and> \<not> changed else changed \<and> m_updated_at m' = mc_created_at c
      \<and> m' = m1\<lparr>m_state_changed_at := m_state_changed_at m', m_updated_at := mc_created_at c\<rparr>"
    using assms(1) by (cases "command_effect c m all")
      (auto simp: apply_manifest_command_def Let_def split: if_split_asm)
  note ok = command_effect_ok [OF e assms(2)]
  show ?thesis
  proof (cases "evs = []")
    case True
    with ok m' show ?thesis by auto
  next
    case False
    have "item_ok (m1\<lparr>m_state_changed_at := t, m_updated_at := u\<rparr>) = item_ok m1"
      "same_identity m (m1\<lparr>m_state_changed_at := t, m_updated_at := u\<rparr>) = same_identity m m1" for t u
      by (simp_all add: item_ok_def manifest_ok_def same_identity_def)
    with False ok m' show ?thesis by metis
  qed
qed

section \<open>What a command makes of the items\<close>

text \<open>The items after the one with \<open>m'\<close>'s identity was replaced.\<close>

definition put_item :: "manifest \<Rightarrow> manifest list \<Rightarrow> manifest list" where
  "put_item m' all = List.map (\<lambda>x. if m_id x = m_id m' then m' else x) all"

definition slugs_unique :: "manifest list \<Rightarrow> bool" where
  "slugs_unique all \<longleftrightarrow> (\<forall>x\<in>set all. \<forall>y\<in>set all. m_state x \<noteq> state_closed \<longrightarrow> m_state y \<noteq> state_closed \<longrightarrow>
     m_slug x = m_slug y \<longrightarrow> m_id x = m_id y)"

definition active_deep_work :: "manifest \<Rightarrow> bool" where
  "active_deep_work m \<longleftrightarrow> m_deep_work m \<and> m_state m = state_active"

lemma deep_work_count: "fst (deep_work_capacity all) = length (filter active_deep_work all)"
  by (simp add: deep_work_capacity_def active_deep_work_def [abs_def] Let_def)

lemma apply_manifest_command_effect:
  assumes "apply_manifest_command c m all = Inr (m', evs, changed)"
  obtains m1 where "command_effect c m all = Inr (m1, evs)"
    and "m_id m' = m_id m1" "m_state m' = m_state m1" "m_slug m' = m_slug m1" "m_deep_work m' = m_deep_work m1"
proof -
  obtain m1 where e: "command_effect c m all = Inr (m1, evs)"
    using assms by (cases "command_effect c m all") (auto simp: apply_manifest_command_def Let_def split: if_split_asm)
  with assms that [OF e] show thesis
    by (auto simp: apply_manifest_command_def Let_def split: if_split_asm)
qed

lemma command_effect_slug:
  assumes "command_effect c m all = Inr (m', evs)" and "item_ok m"
  shows "m_state m' = state_closed \<or> m_state m \<noteq> state_closed \<and> m_slug m' = m_slug m
    \<or> m_slug m' \<notin> set (used_slugs (m_id m) all)"
  using assms(1)
proof (cases rule: command_effect_cases)
  case edit
  then obtain fs where "apply_metadata_edit (mc_edit c) m = Inr (m', fs)"
    unfolding edit_item_def by (elim rbind_InrE) (auto split: prod.splits if_split_asm)
  from apply_metadata_edit_kept [OF this] edit_frame_item_ok [of m' m] assms(2) show ?thesis
    by (auto simp: edit_kept_def item_ok_def manifest_ok_def)
next
  case state
  from state(2) show ?thesis
  proof (cases rule: apply_state_set_cases)
    case (reopen slug)
    then show ?thesis using unique_slug_fresh by simp
  qed auto
next
  case add
  then obtain g es where
    "add_blockers (mc_id c) (mc_created_at c) 0 (mc_blockers c) (m, by_id all, []) = Inr (m', g, es)"
    by (auto simp: apply_blocker_add_def rbind_Inr_iff split: if_split_asm)
  from add_blockers_keeps [OF this] show ?thesis by auto
qed (auto simp: set_title_def labels_command_def set_deep_work_def apply_blocker_clear_def clear_all_blockers_def Let_def
    split: if_split_asm option.splits sum.splits)

text \<open>C31: no manifest command gives two open items the same slug, reopening a closed item included.\<close>

theorem slugs_stay_unique:
  assumes "apply_manifest_command c m all = Inr (m', evs, changed)" and "m \<in> set all"
    and "\<forall>x\<in>set all. item_ok x" and "slugs_unique all"
  shows "slugs_unique (put_item m' all)"
proof -
  obtain m1 where e: "command_effect c m all = Inr (m1, evs)" and m': "m_id m' = m_id m1" "m_state m' = m_state m1" "m_slug m' = m_slug m1"
    using apply_manifest_command_effect [OF assms(1)] by metis
  have ok: "item_ok m" using assms(2,3) by blast
  have id: "m_id m' = m_id m" using command_effect_ok [OF e ok] m' by (simp add: same_identity_def)
  have slug: "m_state m' = state_closed \<or> m_state m \<noteq> state_closed \<and> m_slug m' = m_slug m
      \<or> m_slug m' \<notin> set (used_slugs (m_id m) all)"
    using command_effect_slug [OF e ok] by (simp add: m')
  have other: "m_slug x \<noteq> m_slug m'"
    if x: "x \<in> set all" "m_id x \<noteq> m_id m" "m_state x \<noteq> state_closed" and "m_state m' \<noteq> state_closed" for x
  proof -
    have "m_slug x \<noteq> []" using x assms(3) by (auto simp: item_ok_def manifest_ok_def)
    then have "m_slug x \<in> set (used_slugs (m_id m) all)" using x by (auto simp: used_slugs_iff)
    moreover have "m_state m \<noteq> state_closed \<Longrightarrow> m_slug x \<noteq> m_slug m"
      using x assms(2,4) unfolding slugs_unique_def by blast
    ultimately show ?thesis using slug that(4) by metis
  qed
  have src: "z = m' \<or> z \<in> set all \<and> m_id z \<noteq> m_id m" if "z \<in> set (put_item m' all)" for z
    using that by (auto simp: put_item_def id split: if_split_asm)
  show ?thesis unfolding slugs_unique_def
  proof (intro ballI impI)
    fix x y assume "x \<in> set (put_item m' all)" "y \<in> set (put_item m' all)"
      and open_xy: "m_state x \<noteq> state_closed" "m_state y \<noteq> state_closed" and eq: "m_slug x = m_slug y"
    from src [OF this(1)] src [OF this(2)] show "m_id x = m_id y"
    proof (elim disjE conjE)
      assume "x \<in> set all" "y \<in> set all"
      with open_xy eq assms(4) show ?thesis unfolding slugs_unique_def by blast
    next
      assume "x = m'" "y \<in> set all" "m_id y \<noteq> m_id m"
      with other [of y] open_xy eq show ?thesis by metis
    next
      assume "y = m'" "x \<in> set all" "m_id x \<noteq> m_id m"
      with other [of x] open_xy eq show ?thesis by metis
    qed simp
  qed
qed

text \<open>C32: without force, changing a state never lifts the number of active deep-work items above the larger of
  the limit and what it was.\<close>

theorem deep_work_stays_limited:
  assumes "apply_manifest_command c m all = Inr (m', evs, changed)" and "mc_type c = command_state_set"
    and "\<not> mc_force c" and "m \<in> set all" and "distinct (List.map m_id all)"
  shows "int (fst (deep_work_capacity (put_item m' all)))
    \<le> max (int (fst (deep_work_capacity all))) (max 0 (mc_max_active c))"
proof -
  obtain m1 where "command_effect c m all = Inr (m1, evs)" and m': "m_id m' = m_id m1" "m_state m' = m_state m1"
    "m_deep_work m' = m_deep_work m1"
    using apply_manifest_command_effect [OF assms(1)] by metis
  then have "apply_state_set c m all = Inr (m1, evs)" using assms(2) by (simp add: command_effect_def)
  then have id: "m_id m' = m_id m" and new: "active_deep_work m' \<Longrightarrow> \<not> active_deep_work m \<Longrightarrow>
      int (fst (deep_work_capacity all)) < max 0 (mc_max_active c)"
    using m' assms(3) by (auto simp: active_deep_work_def elim!: apply_state_set_cases)
  obtain pre post where all: "all = pre @ m # post" using assms(4) by (auto dest: split_list)
  have keep: "List.map (\<lambda>x. if m_id x = m_id m then m' else x) xs = xs" if "m_id m \<notin> m_id ` set xs" for xs
    using that by (induction xs) auto
  have "m_id m \<notin> m_id ` set pre" "m_id m \<notin> m_id ` set post" using assms(5) by (auto simp: all)
  then have put: "put_item m' all = pre @ m' # post" by (simp add: put_item_def id all keep)
  show ?thesis using new unfolding deep_work_count put by (auto simp: all deep_work_count)
qed

section \<open>Concrete commands\<close>

definition start_command :: manifest_command where
  "start_command = wait_command\<lparr>mc_type := command_state_set, mc_target_state := state_active, mc_max_active := 1,
     mc_blockers := []\<rparr>"

definition deep_item :: manifest where
  "deep_item = this_item\<lparr>m_deep_work := True\<rparr>"

lemma deep_item_fields:
  "m_id deep_item = m_id this_item" "m_state deep_item = state_backlog" "m_deep_work deep_item"
  "m_slug deep_item = ''fix-it''" "m_blockers deep_item = []"
  by (simp_all add: deep_item_def sample_fields)

lemma start_accepted:
  "\<exists>m' evs. apply_manifest_command start_command deep_item [deep_item] = Inr (m', evs, True) \<and> m_state m' = state_active"
  by (simp add: apply_manifest_command_def command_effect_def start_command_def wait_command_def apply_state_set_def
      move_item_def deep_item_fields deep_work_count active_deep_work_def Let_def)

lemma deep_item_ok: "item_ok deep_item"
proof -
  have "valid_id (m_id this_item)" by (simp add: sample_fields valid_id_def id_char_def)
  then show ?thesis
    by (simp add: item_ok_def manifest_ok_def deep_item_fields valid_state_def)
      (simp add: deep_item_def this_item_def sample_item_def zero_manifest_def labels_ok_def checkout_ok_def new_checkout_def)
qed

theorem apply_manifest_command_ok_witness:
  "\<exists>m' evs. apply_manifest_command start_command deep_item [deep_item] = Inr (m', evs, True) \<and> item_ok m'"
proof -
  obtain m' evs where run: "apply_manifest_command start_command deep_item [deep_item] = Inr (m', evs, True)"
    using start_accepted by blast
  then show ?thesis using apply_manifest_command_ok [OF run deep_item_ok] by blast
qed

theorem slugs_stay_unique_witness:
  "\<exists>m' evs. apply_manifest_command start_command deep_item [deep_item] = Inr (m', evs, True)
     \<and> slugs_unique (put_item m' [deep_item])"
proof -
  obtain m' evs where run: "apply_manifest_command start_command deep_item [deep_item] = Inr (m', evs, True)"
    using start_accepted by blast
  have "slugs_unique [deep_item]" by (simp add: slugs_unique_def)
  then show ?thesis using slugs_stay_unique [OF run] run deep_item_ok by simp
qed

theorem deep_work_stays_limited_witness:
  "\<exists>m' evs. apply_manifest_command start_command deep_item [deep_item] = Inr (m', evs, True)
     \<and> int (fst (deep_work_capacity (put_item m' [deep_item]))) \<le> 1"
proof -
  obtain m' evs where run: "apply_manifest_command start_command deep_item [deep_item] = Inr (m', evs, True)"
    using start_accepted by blast
  have "mc_type start_command = command_state_set" "\<not> mc_force start_command" "mc_max_active start_command = 1"
    by (simp_all add: start_command_def wait_command_def)
  moreover have "fst (deep_work_capacity [deep_item]) = 0"
    by (simp add: deep_work_count active_deep_work_def deep_item_fields)
  ultimately show ?thesis using deep_work_stays_limited [OF run] run by simp
qed

theorem unique_canonical_slug_correct_witness:
  "\<exists>s. unique_canonical_slug ''fix-it'' ''x'' [deep_item] = Inr s \<and> s \<noteq> ''fix-it'' \<and> canonical_slug s"
proof -
  have used: "used_slugs ''x'' [deep_item] = [''fix-it'']"
    by (simp add: used_slugs_def deep_item_fields sample_fields)
  have "canonical_slug ''fix-it''"
    by (simp add: canonical_slug_def max_slug_length_def slug_char_def slug_letter_def no_double_hyphen_def)
  then show ?thesis using unique_canonical_slug_correct [of "''fix-it''" "''x''" "[deep_item]"] used by auto
qed

end
