(* ===== verification/Execute.thy ===== *)
theory Execute
  imports Commands
begin

text \<open>
  The transaction around a manifest command (\<open>executeManifestCommand\<close> in \<open>internal/coordinator/domain.go\<close>):
  replay of a command identity, the revision check, the commit of the item's events, the pending
  native write of a description edit, the queue read in the same transaction, and the stored
  outcome; then the reads around it and the list of pending native writes.
\<close>

abbreviation protocol_version :: int where "protocol_version \<equiv> 3"

text \<open>What every typed command checks of its identity and protocol.\<close>

definition id_invalid :: "string \<Rightarrow> bool" where
  "id_invalid i \<longleftrightarrow> compact_identifier i 200 \<noteq> i"

definition outcome_of :: "('b, stored) bolt \<Rightarrow> string \<Rightarrow> 'b tx_state \<Rightarrow> stored option" where
  "outcome_of B i t = b_get B (tx_outcomes t) i"

definition put_outcome :: "('b, stored) bolt \<Rightarrow> string \<Rightarrow> domain_outcome \<Rightarrow> 'b tx_state \<Rightarrow> 'b tx_state" where
  "put_outcome B i out t = t\<lparr>tx_outcomes := b_put B i (StOutcome out) (tx_outcomes t)\<rparr>"

definition put_pending :: "('b, stored) bolt \<Rightarrow> native_write \<Rightarrow> 'b tx_state \<Rightarrow> 'b tx_state" where
  "put_pending B w t = t\<lparr>tx_pending := b_put B (nw_command w) (StPending w) (tx_pending t)\<rparr>"

text \<open>The stored outcome of an identity, for a command with or without a queue. An outcome that another
  kind of command stored differs from every manifest command.\<close>

definition replay_manifest ::
  "domain_outcome \<Rightarrow> manifest_command \<Rightarrow> queue_options option
   \<Rightarrow> (coord_error, manifest_result \<times> queue_result option) result" where
  "replay_manifest out c opts = (case out of
     OutManifest c0 r opts0 q0 \<Rightarrow>
       if c0 \<noteq> c then Inl (AlreadyUsed (mc_id c))
       else if opts = None \<and> opts0 \<noteq> None then Inl (AlreadyUsed (mc_id c))
       else (case opts of
           None \<Rightarrow> Inr (r\<lparr>mr_duplicate := True\<rparr>, None)
         | Some o1 \<Rightarrow>
             if opts0 \<noteq> Some o1 then Inl (AlreadyUsed (mc_id c))
             else (case q0 of
                 None \<Rightarrow> Inl (Refused ''no stored actionability queue'')
               | Some q \<Rightarrow> Inr (r\<lparr>mr_duplicate := True\<rparr>, Some q)))
   | _ \<Rightarrow> Inl (AlreadyUsed (mc_id c)))"

definition description_write :: "manifest_command \<Rightarrow> manifest \<Rightarrow> native_write option" where
  "description_write c m = (case mc_edit c of
     None \<Rightarrow> None
   | Some e \<Rightarrow>
       if mc_type c = command_edit \<and> me_digest e \<noteq> [] \<and> me_digest e \<noteq> me_previous_digest e
       then Some \<lparr>nw_command = mc_id c, nw_sequence = 0, nw_operation = ''edit-description'',
         nw_manifest = persist_manifest m, nw_digest = me_digest e, nw_previous_digest = me_previous_digest e\<rparr>
       else None)"

definition stage_write :: "('b, stored) bolt \<Rightarrow> native_write option \<Rightarrow> 'b tx_state \<Rightarrow> 'b tx_state" where
  "stage_write B w t = (case w of None \<Rightarrow> t | Some w \<Rightarrow> put_pending B w t)"

text \<open>\<open>CreateBucketIfNotExists\<close> of the manifest projection, which a read of it starts with.\<close>

definition ensure_projection :: "('b, stored) bolt \<Rightarrow> string \<Rightarrow> 'b tx_state \<Rightarrow> 'b tx_state" where
  "ensure_projection B name t = set_projection name (projection_bucket B name t) t"

text \<open>The item a command is about: its manifest at the expected revision.\<close>

definition expected_item ::
  "('b, stored) bolt \<Rightarrow> string \<Rightarrow> 64 word option \<Rightarrow> 'b tx_state \<Rightarrow> (coord_error, manifest \<times> 64 word) result" where
  "expected_item B i expected t = (case get_projection B manifest_projection i t of
     None \<Rightarrow> Inl NotFound
   | Some v \<Rightarrow> (case as_manifest v of
       None \<Rightarrow> Inl Undecodable
     | Some m \<Rightarrow>
         (let revision = item_revision B t i
          in if Some revision \<noteq> expected then Inl (RevisionConflict (case expected of None \<Rightarrow> 0 | Some r \<Rightarrow> r) revision)
             else Inr (m, revision))))"

definition commit_command ::
  "('b, stored) bolt \<Rightarrow> (manifest \<Rightarrow> string) \<Rightarrow> instant \<Rightarrow> manifest_command \<Rightarrow> 'b tx_state
   \<Rightarrow> (coord_error, manifest_result \<times> 'b tx_state) result" where
  "commit_command B enc now c t =
     rbind (expected_item B (mc_item c) (mc_expected c) t) (\<lambda>(m, revision).
     rbind (manifests_of B t) (\<lambda>all.
     rbind (apply_manifest_command c m all) (\<lambda>(m, pending, changed).
       let result = \<lparr>mr_command = mc_id c, mr_manifest = m, mr_revision = revision, mr_changed = changed, mr_events = [],
             mr_duplicate = False, mr_committed_at = now\<rparr>
       in if \<not> changed then Inr (result, t)
          else rbind (commit_manifest_events B enc m (mc_id c) (mc_actor c) (mc_created_at c) pending t)
            (\<lambda>(events, revision, t). Inr (result\<lparr>mr_events := events, mr_revision := revision\<rparr>, t)))))"

definition read_queue ::
  "('b, stored) bolt \<Rightarrow> queue_options option \<Rightarrow> instant \<Rightarrow> 'b tx_state \<Rightarrow> (coord_error, queue_result option) result" where
  "read_queue B opts now t = (case opts of
     None \<Rightarrow> Inr None
   | Some o1 \<Rightarrow> rbind (actionability_queue B o1 now t) (\<lambda>q. Inr (Some q)))"

definition manifest_command_tx ::
  "('b, stored) bolt \<Rightarrow> (manifest \<Rightarrow> string) \<Rightarrow> instant \<Rightarrow> manifest_command \<Rightarrow> queue_options option \<Rightarrow> 'b tx_state
   \<Rightarrow> (coord_error, manifest_result \<times> queue_result option \<times> 'b tx_state) result" where
  "manifest_command_tx B enc now c opts t = (case outcome_of B (mc_id c) t of
     Some v \<Rightarrow> (case v of
         StOutcome out \<Rightarrow> rbind (replay_manifest out c opts) (\<lambda>(r, q). Inr (r, q, t))
       | _ \<Rightarrow> Inl Undecodable)
   | None \<Rightarrow>
       rbind (commit_command B enc now c (ensure_projection B manifest_projection t)) (\<lambda>(r, t).
         let t = stage_write B (description_write c (mr_manifest r)) t
         in rbind (read_queue B opts now t) (\<lambda>q.
              Inr (r, q, put_outcome B (mc_id c)
                (OutManifest c (r\<lparr>mr_manifest := persist_manifest (mr_manifest r)\<rparr>) opts q) t))))"

text \<open>The command as the transaction sees it: \<open>now\<close> stands for a creation time that was not given.\<close>

definition stamped_command :: "instant \<Rightarrow> manifest_command \<Rightarrow> manifest_command" where
  "stamped_command now c = c\<lparr>mc_actor := ''user'',
     mc_created_at := (if is_zero_time (mc_created_at c) then now else mc_created_at c)\<rparr>"

definition execute_manifest_command ::
  "('b, stored) bolt \<Rightarrow> (manifest \<Rightarrow> string) \<Rightarrow> instant \<Rightarrow> manifest_command \<Rightarrow> queue_options option \<Rightarrow> 'b database
   \<Rightarrow> (coord_error, manifest_result \<times> queue_result option \<times> 'b database) result" where
  "execute_manifest_command B enc now c opts d =
     (if mc_id c = [] \<or> \<not> valid_id (mc_item c) \<or> mc_expected c = None then Inl CommandRequired
      else if id_invalid (mc_id c) then Inl CommandInvalid
      else if mc_protocol c \<noteq> protocol_version then Inl (Protocol (mc_protocol c))
      else if mc_actor c \<noteq> [] \<and> mc_actor c \<noteq> ''user'' then Inl ActorRefused
      else rbind (manifest_command_tx B enc now (stamped_command now c) opts (db_tx d)) (\<lambda>(r, q, t).
        Inr (r, q, \<lparr>db_tx = t, db_changes = record_changes [mc_item c] (db_changes d)\<rparr>)))"

text \<open>\<open>ExecuteManifestCommandWithQueue\<close> adds the selection after the command's item.\<close>

definition execute_with_queue ::
  "('b, stored) bolt \<Rightarrow> (manifest \<Rightarrow> string) \<Rightarrow> instant \<Rightarrow> manifest_command \<Rightarrow> queue_options \<Rightarrow> 'b database
   \<Rightarrow> (coord_error, manifest_result \<times> queue_result \<times> selection \<times> 'b database) result" where
  "execute_with_queue B enc now c opts d =
     rbind (execute_manifest_command B enc now c (Some opts) d) (\<lambda>(r, q, d).
       case q of None \<Rightarrow> Inl Undecodable | Some q \<Rightarrow> Inr (r, q, select_actionability q (mc_item c), d))"

section \<open>Reads\<close>

text \<open>\<open>resolve\<close> stands for the lookup of the repository's location in the file system.\<close>

definition canonical_manifest ::
  "('b, stored) bolt \<Rightarrow> (repository \<Rightarrow> (coord_error, repository) result) \<Rightarrow> string \<Rightarrow> 'b tx_state
   \<Rightarrow> (coord_error, manifest \<times> 64 word) result" where
  "canonical_manifest B resolve i t =
     (if \<not> valid_id i then Inl InvalidItemId
      else (case get_projection B manifest_projection i t of
          None \<Rightarrow> Inl NotFound
        | Some v \<Rightarrow> (case as_manifest v of
            None \<Rightarrow> Inl Undecodable
          | Some m \<Rightarrow> rbind (resolve (m_repository m)) (\<lambda>r. Inr (m\<lparr>m_repository := r\<rparr>, item_revision B t i)))))"

definition write_less :: "native_write \<Rightarrow> native_write \<Rightarrow> bool" where
  "write_less v w = (if nw_sequence v = nw_sequence w then nw_command v < nw_command w else nw_sequence v < nw_sequence w)"

definition pending_native_writes :: "('b, stored) bolt \<Rightarrow> 'b tx_state \<Rightarrow> (coord_error, native_write list) result" where
  "pending_native_writes B t = (case those (List.map (\<lambda>p. as_pending (snd p)) (b_entries B (tx_pending t))) of
     None \<Rightarrow> Inl Undecodable | Some ws \<Rightarrow> Inr (stable_sort write_less ws))"

definition clear_pending_write :: "('b, stored) bolt \<Rightarrow> string \<Rightarrow> 'b database \<Rightarrow> 'b database" where
  "clear_pending_write B i d = d\<lparr>db_tx := (db_tx d)\<lparr>tx_pending := b_delete B i (tx_pending (db_tx d))\<rparr>\<rparr>"

text \<open>Whether an edit was committed before, which the server asks before it stages content.\<close>

definition committed_edit :: "('b, stored) bolt \<Rightarrow> manifest_command \<Rightarrow> 'b tx_state \<Rightarrow> (coord_error, bool) result" where
  "committed_edit B c t = (case outcome_of B (mc_id c) t of
     None \<Rightarrow> Inr False
   | Some v \<Rightarrow> (case v of
       StOutcome (OutManifest c0 _ _ _) \<Rightarrow> if c \<noteq> c0 then Inl (AlreadyUsed (mc_id c)) else Inr True
     | StOutcome _ \<Rightarrow> Inl (AlreadyUsed (mc_id c))
     | _ \<Rightarrow> Inl Undecodable))"

section \<open>The invariant of the items\<close>

definition dependency :: "(string \<rightharpoonup> manifest) \<Rightarrow> (string \<times> string) set" where
  "dependency f = {(i, j). \<exists>m. f i = Some m \<and> j \<in> set (item_targets m)}"

text \<open>Items are stored under their identity, well formed, no two open ones share a slug, and the blockers
  between items have no cycle.\<close>

definition items_inv :: "(string \<rightharpoonup> manifest) \<Rightarrow> bool" where
  "items_inv f \<longleftrightarrow> (\<forall>i m. f i = Some m \<longrightarrow> m_id m = i \<and> item_ok m)
     \<and> (\<forall>i j m m'. f i = Some m \<longrightarrow> f j = Some m' \<longrightarrow> m_state m \<noteq> state_closed \<longrightarrow> m_state m' \<noteq> state_closed \<longrightarrow>
          m_slug m = m_slug m' \<longrightarrow> i = j)
     \<and> acyclic (dependency f)"

text \<open>A list of all items of the map.\<close>

definition lists_items :: "manifest list \<Rightarrow> (string \<rightharpoonup> manifest) \<Rightarrow> bool" where
  "lists_items ms f \<longleftrightarrow> distinct (List.map m_id ms) \<and> (\<forall>m. m \<in> set ms \<longleftrightarrow> f (m_id m) = Some m)"

lemma lists_items_by_id:
  assumes "lists_items ms f" and "\<And>i m. f i = Some m \<Longrightarrow> m_id m = i"
  shows "kv_get (by_id ms) = f"
proof
  fix i
  have "kv_get (by_id ms) i = Some m \<longleftrightarrow> f i = Some m" for m
    using assms by (auto simp: lists_items_def kv_get_by_id)
  then show "kv_get (by_id ms) i = f i" by (cases "f i"; cases "kv_get (by_id ms) i") auto
qed

lemma dependency_blocking: "kv_get g = f \<Longrightarrow> blocking g = dependency f"
  by (force simp: blocking_def dependency_def targets_of_def split: option.splits)

lemma dependency_smaller:
  assumes "f i = Some m" and "set (item_targets m') \<subseteq> set (item_targets m)"
  shows "dependency (f(i \<mapsto> m')) \<subseteq> dependency f"
  using assms by (auto simp: dependency_def split: if_split_asm)

lemma dependency_cong: "item_targets a = item_targets b \<Longrightarrow> dependency (f(i \<mapsto> a)) = dependency (f(i \<mapsto> b))"
  by (auto simp: dependency_def split: if_split_asm)

lemma item_targets_update [simp]:
  "item_targets (m\<lparr>m_title := x1\<rparr>) = item_targets m"
  "item_targets (m\<lparr>m_labels := x2\<rparr>) = item_targets m"
  "item_targets (m\<lparr>m_deep_work := x3\<rparr>) = item_targets m"
  "item_targets (m\<lparr>m_state := x1\<rparr>) = item_targets m"
  "item_targets (m\<lparr>m_slug := x1\<rparr>) = item_targets m"
  "item_targets (m\<lparr>m_resolution := x1\<rparr>) = item_targets m"
  "item_targets (m\<lparr>m_state_changed_at := x4\<rparr>) = item_targets m"
  "item_targets (m\<lparr>m_updated_at := x4\<rparr>) = item_targets m"
  "item_targets (m\<lparr>m_blockers := []\<rparr>) = []"
  by (simp_all add: item_targets_def)

lemma edit_frame_targets:
  assumes "edit_frame m' = edit_frame m"
  shows "item_targets m' = item_targets m"
  using arg_cong [OF assms, of m_blockers] by (simp add: item_targets_def edit_frame_def)

text \<open>Only adding a blocker gives an item a new target.\<close>

lemma command_effect_targets:
  assumes "command_effect c m all = Inr (m', evs)"
  shows "set (item_targets m') \<subseteq> set (item_targets m) \<or> apply_blocker_add c m all = Inr (m', evs)"
  using assms
proof (cases rule: command_effect_cases)
  case edit
  then obtain fs where "apply_metadata_edit (mc_edit c) m = Inr (m', fs)"
    unfolding edit_item_def by (elim rbind_InrE) (auto split: prod.splits if_split_asm)
  then show ?thesis
    using edit_frame_targets [of m' m] by (auto dest: apply_metadata_edit_kept simp: edit_kept_def)
next
  case state
  from state(2) show ?thesis by (cases rule: apply_state_set_cases) auto
next
  case clear
  then show ?thesis
    by (auto simp: apply_blocker_clear_def clear_all_blockers_def Let_def item_targets_def split: if_split_asm)
qed (auto simp: set_title_def labels_command_def set_deep_work_def Let_def split: if_split_asm option.splits sum.splits)

lemma command_keeps_inv:
  assumes "apply_manifest_command c m ms = Inr (m', evs, changed)" and "lists_items ms f" and "items_inv f"
    and "f (m_id m) = Some m"
  shows "items_inv (f(m_id m \<mapsto> m')) \<and> same_identity m m'"
proof -
  let ?i = "m_id m"
  obtain m1 where e: "command_effect c m ms = Inr (m1, evs)"
    and m1: "m_id m' = m_id m1" "m_state m' = m_state m1" "m_slug m' = m_slug m1" "m_blockers m' = m_blockers m1"
    and ok': "item_ok m' \<and> same_identity m m'"
  proof -
    obtain m1 where e: "command_effect c m ms = Inr (m1, evs)"
      using assms(1) by (cases "command_effect c m ms") (auto simp: apply_manifest_command_def Let_def split: if_split_asm)
    have m': "m' = m1\<lparr>m_state_changed_at := m_state_changed_at m', m_updated_at := m_updated_at m'\<rparr>"
      using assms(1) e by (auto simp: apply_manifest_command_def Let_def split: if_split_asm)
    have ok: "item_ok m" using assms(3,4) unfolding items_inv_def by blast
    have "item_ok (m1\<lparr>m_state_changed_at := t, m_updated_at := u\<rparr>) = item_ok m1"
      "same_identity m (m1\<lparr>m_state_changed_at := t, m_updated_at := u\<rparr>) = same_identity m m1" for t u
      by (simp_all add: item_ok_def manifest_ok_def same_identity_def)
    then have "item_ok m' \<and> same_identity m m'" using command_effect_ok [OF e ok] m' by metis
    moreover have "m_id m' = m_id m1" "m_state m' = m_state m1" "m_slug m' = m_slug m1" "m_blockers m' = m_blockers m1"
      using arg_cong [OF m', of m_id] arg_cong [OF m', of m_state] arg_cong [OF m', of m_slug]
        arg_cong [OF m', of m_blockers] by simp_all
    ultimately show thesis using that [OF e] by blast
  qed
  have id: "\<And>i m. f i = Some m \<Longrightarrow> m_id m = i" using assms(3) unfolding items_inv_def by blast
  have okm: "item_ok m" using assms(3,4) unfolding items_inv_def by blast
  have id': "m_id m' = ?i" using ok' by (simp add: same_identity_def)
  have slug: "m_slug x \<noteq> m_slug m'"
    if x: "f j = Some x" "j \<noteq> ?i" "m_state x \<noteq> state_closed" and "m_state m' \<noteq> state_closed" for j x
  proof -
    have "item_ok x" using x(1) assms(3) unfolding items_inv_def by blast
    then have "m_slug x \<noteq> []" using x(3) by (simp add: item_ok_def manifest_ok_def)
    moreover have "x \<in> set ms" "m_id x = j" using x(1) assms(2) id [OF x(1)] by (simp_all add: lists_items_def)
    ultimately have "m_slug x \<in> set (used_slugs ?i ms)" using x(2,3) unfolding used_slugs_iff by blast
    moreover have "m_state m \<noteq> state_closed \<Longrightarrow> m_slug x \<noteq> m_slug m"
      using x(1-3) assms(3,4) unfolding items_inv_def by blast
    ultimately show ?thesis using command_effect_slug [OF e okm] that(4) m1 by metis
  qed
  have "acyclic (dependency (f(?i \<mapsto> m')))"
  proof (cases "set (item_targets m1) \<subseteq> set (item_targets m)")
    case True
    then have "set (item_targets m') \<subseteq> set (item_targets m)" using m1(4) by (simp add: item_targets_def)
    with assms(4) have "dependency (f(?i \<mapsto> m')) \<subseteq> dependency f" by (rule dependency_smaller)
    with assms(3) show ?thesis unfolding items_inv_def by (blast intro: acyclic_subset)
  next
    case False
    then have add: "apply_blocker_add c m ms = Inr (m1, evs)" using command_effect_targets [OF e] by blast
    have g: "kv_get (by_id ms) = f" using lists_items_by_id [OF assms(2) id] .
    then have "acyclic (blocking (by_id ms))" using assms(3) dependency_blocking [OF g] by (simp add: items_inv_def)
    moreover have "kv_get (by_id ms) ?i = Some m" using g assms(4) by simp
    ultimately have "acyclic (blocking (kv_put ?i m1 (by_id ms)))" using add_keeps_acyclic [OF add] by blast
    moreover have "kv_get (kv_put ?i m1 (by_id ms)) = f(?i \<mapsto> m1)" using g by (auto simp: kv_get_put)
    ultimately have "acyclic (dependency (f(?i \<mapsto> m1)))" using dependency_blocking by metis
    moreover have "item_targets m1 = item_targets m'" using m1(4) by (simp add: item_targets_def)
    then have "dependency (f(?i \<mapsto> m1)) = dependency (f(?i \<mapsto> m'))" by (rule dependency_cong)
    ultimately show ?thesis by simp
  qed
  moreover have "\<forall>j x. (f(?i \<mapsto> m')) j = Some x \<longrightarrow> m_id x = j \<and> item_ok x"
    using assms(3) ok' id' by (auto simp: items_inv_def)
  moreover have "j = k" if "(f(?i \<mapsto> m')) j = Some x" "(f(?i \<mapsto> m')) k = Some y" "m_state x \<noteq> state_closed"
      "m_state y \<noteq> state_closed" "m_slug x = m_slug y" for j k x y
  proof (cases "j = ?i"; cases "k = ?i")
    assume "j \<noteq> ?i" "k \<noteq> ?i"
    with that assms(3) show ?thesis unfolding items_inv_def by auto
  next
    assume "j = ?i" "k \<noteq> ?i"
    with that slug [of k y] show ?thesis by simp
  next
    assume "j \<noteq> ?i" "k = ?i"
    with that slug [of j x] show ?thesis by simp
  qed simp
  ultimately show ?thesis using ok' unfolding items_inv_def by blast
qed

section \<open>The transaction\<close>

lemma persist_same_identity: "same_identity m m' \<Longrightarrow> persist_manifest m = m \<Longrightarrow> persist_manifest m' = m'"
  by (simp add: persist_fixed_iff same_identity_def)

lemma manifest_event_fields [simp]:
  "de_item (manifest_event i c a cr k ev) = i" "de_causation (manifest_event i c a cr k ev) = c"
  "de_actor (manifest_event i c a cr k ev) = a" "de_time (manifest_event i c a cr k ev) = cr"
  by (simp_all add: manifest_event_def)

definition command_events :: "manifest_command \<Rightarrow> domain_event list \<Rightarrow> bool" where
  "command_events c es \<longleftrightarrow> (\<forall>e\<in>set es. de_item e = mc_item c \<and> de_causation e = mc_id c \<and> de_actor e = mc_actor c
     \<and> de_time e = mc_created_at c)"

lemma commit_manifest_events_events:
  assumes "commit_manifest_events B enc m c a cr ps t = Inr (evs, rv, t')"
  shows "length evs = length ps \<and> (\<forall>e\<in>set evs. de_item e = m_id m \<and> de_causation e = c \<and> de_actor e = a \<and> de_time e = cr)"
proof -
  have loop: "\<exists>new. evs' = evs @ new \<and> length new = length ps
      \<and> (\<forall>e\<in>set new. de_item e = i \<and> de_causation e = c \<and> de_actor e = a \<and> de_time e = cr)"
    if "manifest_event_loop B i c a cr k ps (n, rv, evs, t) = Inr (n', rv', evs', t')"
    for i k ps n rv evs t n' rv' evs' t'
    using that
  proof (induction ps arbitrary: k n rv evs t)
    case (Cons p ps)
    define e where "e = (manifest_event i c a cr k p)\<lparr>de_sequence := n + 1, de_revision := rv + 1\<rparr>"
    have "manifest_event_loop B i c a cr (Suc k) ps (n + 1, rv + 1, evs @ [e], put_event B e t) = Inr (n', rv', evs', t')"
      using Cons.prems by (simp add: Let_def e_def split: if_split_asm)
    from Cons.IH [OF this] obtain new where "evs' = (evs @ [e]) @ new" "length new = length ps"
      "\<forall>e\<in>set new. de_item e = i \<and> de_causation e = c \<and> de_actor e = a \<and> de_time e = cr" by blast
    then show ?case by (intro exI [of _ "e # new"]) (simp add: e_def)
  qed simp
  obtain n t1 where "manifest_event_loop B (m_id m) c a cr 0 ps (global_sequence B t, item_revision B t (m_id m), [], t) = Inr (n, rv, evs, t1)"
    using assms by (auto simp: commit_manifest_events_def rbind_Inr_iff Let_def)
  from loop [OF this] show ?thesis by auto
qed

lemma same_others_fields: "tx_projections (ensure_projection B name t) = (tx_projections t)(name \<mapsto> projection_bucket B name t)"
  by (simp add: ensure_projection_def set_projection_def)

context event_store
begin

lemma ensure_projection_frame:
  assumes "tx_ok ok t"
  shows "tx_ok ok (ensure_projection B name t)" and "get_projection B n k (ensure_projection B name t) = get_projection B n k t"
    and "log_rep B ok (ensure_projection B name t) L = log_rep B ok t L"
    and "tx_outcomes (ensure_projection B name t) = tx_outcomes t" "tx_pending (ensure_projection B name t) = tx_pending t"
    "tx_commands (ensure_projection B name t) = tx_commands t"
proof -
  show "tx_ok ok (ensure_projection B name t)" using assms by (simp add: ensure_projection_def)
  show "get_projection B n k (ensure_projection B name t) = get_projection B n k t"
    by (auto simp: ensure_projection_def set_projection_def get_projection_def projection_bucket_def get_empty
        split: option.splits)
qed (simp_all add: ensure_projection_def set_projection_def log_rep_def)

lemma manifest_at_cong: "(\<And>k. get_projection B manifest_projection k t' = get_projection B manifest_projection k t) \<Longrightarrow>
    manifest_at B t' = manifest_at B t \<and> items_ok B t' = items_ok B t"
  by (simp add: manifest_at_def items_ok_def fun_eq_iff)

lemma commit_command_spec:
  assumes "commit_command B enc now c t = Inr (r, t')" and "log_rep B ok t L" and "tx_ok ok t" and "items_ok B t"
    and "items_inv (manifest_at B t)" and "length L + length (mr_events r) < 2 ^ 64"
  shows "mc_expected c = Some (item_revision B t (mc_item c)) \<and> manifest_at B t (mc_item c) \<noteq> None
    \<and> log_rep B ok t' (L @ mr_events r) \<and> command_events c (mr_events r) \<and> (mr_changed r \<longleftrightarrow> mr_events r \<noteq> [])
    \<and> (distinct (List.map de_id L) \<longrightarrow> distinct (List.map de_id (L @ mr_events r)))
    \<and> tx_ok ok t' \<and> items_ok B t' \<and> items_inv (manifest_at B t')
    \<and> manifest_at B t' = (manifest_at B t)(mc_item c \<mapsto> mr_manifest r)
    \<and> mr_revision r = of_nat (item_count (L @ mr_events r) (mc_item c))
    \<and> tx_outcomes t' = tx_outcomes t \<and> tx_pending t' = tx_pending t \<and> \<not> mr_duplicate r
    \<and> persist_manifest (mr_manifest r) = mr_manifest r"
proof -
  obtain m revision all m' pending changed where x: "expected_item B (mc_item c) (mc_expected c) t = Inr (m, revision)"
    and all: "manifests_of B t = Inr all" and ap: "apply_manifest_command c m all = Inr (m', pending, changed)"
    and rest: "(let result = \<lparr>mr_command = mc_id c, mr_manifest = m', mr_revision = revision, mr_changed = changed, mr_events = [],
             mr_duplicate = False, mr_committed_at = now\<rparr>
       in if \<not> changed then Inr (result, t)
          else rbind (commit_manifest_events B enc m' (mc_id c) (mc_actor c) (mc_created_at c) pending t)
            (\<lambda>(events, revision, t). Inr (result\<lparr>mr_events := events, mr_revision := revision\<rparr>, t))) = Inr (r, t')"
    using assms(1) unfolding commit_command_def by (elim rbind_InrE) (auto split: prod.splits elim!: rbind_InrE)
  let ?i = "mc_item c" and ?f = "manifest_at B t"
  have fi: "?f ?i = Some m" and rv: "revision = item_revision B t ?i" "mc_expected c = Some revision"
    using x by (auto simp: expected_item_def manifest_at_def Let_def split: option.splits if_split_asm)
  have id: "m_id m = ?i" "?i \<noteq> []" "persist_manifest m = m" using items_ok_id [OF assms(4) fi] by simp_all
  obtain ms where ms: "manifests_of B t = Inr ms" "distinct (List.map m_id ms)" "\<And>m. m \<in> set ms \<longleftrightarrow> ?f (m_id m) = Some m"
    using manifests_of_items [OF assms(3,4)] by blast
  have la: "lists_items all ?f" using ms all by (simp add: lists_items_def)
  have inv: "items_inv (?f(?i \<mapsto> m')) \<and> same_identity m m'"
    using command_keeps_inv [OF ap la assms(5)] fi id(1) by simp
  have ch: "changed \<longleftrightarrow> pending \<noteq> []" "\<not> changed \<Longrightarrow> m' = m"
    using ap command_effect_ok [of c m all _ pending] assms(5) fi
    by (auto simp: apply_manifest_command_def Let_def rbind_Inr_iff items_inv_def split: if_split_asm)
  have p': "persist_manifest m' = m'" using persist_same_identity inv id(3) by blast
  have id': "m_id m' = ?i" using inv id(1) by (simp add: same_identity_def)
  show ?thesis
  proof (cases changed)
    case False
    then have "t' = t" "mr_events r = []" "mr_manifest r = m" "\<not> mr_changed r" "mr_revision r = revision" "\<not> mr_duplicate r"
      using rest ch(2) by auto
    moreover have "?f(?i \<mapsto> m) = ?f" using fi by auto
    moreover have "revision = of_nat (item_count L ?i)"
      using assms(2) id(2) by (simp add: rv(1) log_rep_def rev_rep_def)
    ultimately show ?thesis using assms rv fi id by (simp add: command_events_def)
  next
    case True
    then obtain evs rv' where co: "commit_manifest_events B enc m' (mc_id c) (mc_actor c) (mc_created_at c) pending t = Inr (evs, rv', t')"
      and r: "mr_events r = evs" "mr_revision r = rv'" "mr_manifest r = m'" "mr_changed r" "\<not> mr_duplicate r"
      using rest by (auto simp: Let_def elim!: rbind_InrE)
    note ev = commit_manifest_events_events [OF co]
    have bound: "length L + length pending < 2 ^ 64" using assms(6) ev r(1) by simp
    have "m_id m' \<noteq> []" using id id' by simp
    note cr = commit_manifest_events_refines [OF co assms(2,3) this bound, unfolded id']
    have c1: "log_rep B ok t' (L @ evs)" "rv' = of_nat (item_count (L @ evs) ?i)" "tx_ok ok t'"
      "distinct (List.map de_id L) \<longrightarrow> distinct (List.map de_id (L @ evs))"
      "tx_outcomes t' = tx_outcomes t" "tx_pending t' = tx_pending t"
      and get: "\<And>k. get_projection B manifest_projection k t' =
         (if k = ?i then Some (StManifest m') else get_projection B manifest_projection k t)"
      using cr [unfolded p'] by blast+
    have c2: "manifest_at B t' = ?f(?i \<mapsto> m')" by (auto simp: manifest_at_def get fun_eq_iff)
    have c3: "items_ok B t'" using p' id(2) id' assms(4) by (auto simp: items_ok_def get)
    have c4: "command_events c evs" using ev id' by (simp add: command_events_def)
    have c5: "evs \<noteq> []" using ev ch(1) True by auto
    have c6: "items_inv (manifest_at B t')" using inv c2 by simp
    have c7: "mc_expected c = Some (item_revision B t ?i)" "?f ?i \<noteq> None" using rv fi by simp_all
    show ?thesis unfolding r(1-3) using c1 c2 c3 c4 c5 c6 c7 r(4,5) p' by blast
  qed
qed

lemma put_outcome_frame [simp]:
  "log_rep B ok (put_outcome B i x t) L = log_rep B ok t L"
  "get_projection B n k (put_outcome B i x t) = get_projection B n k t"
  "manifest_at B (put_outcome B i x t) = manifest_at B t"
  "items_ok B (put_outcome B i x t) = items_ok B t"
  "tx_ok ok t \<Longrightarrow> tx_ok ok (put_outcome B i x t)"
  by (simp_all add: put_outcome_def log_rep_def get_projection_def manifest_at_def items_ok_def tx_ok_def ok_put fun_eq_iff)

lemma outcome_of_put: "tx_ok ok t \<Longrightarrow> outcome_of B j (put_outcome B i x t) = (if j = i then Some (StOutcome x) else outcome_of B j t)"
  by (simp add: outcome_of_def put_outcome_def get_put tx_ok_def)

lemma stage_write_frame [simp]:
  "log_rep B ok (stage_write B w t) L = log_rep B ok t L"
  "get_projection B n k (stage_write B w t) = get_projection B n k t"
  "manifest_at B (stage_write B w t) = manifest_at B t"
  "items_ok B (stage_write B w t) = items_ok B t"
  "tx_ok ok t \<Longrightarrow> tx_ok ok (stage_write B w t)"
  "tx_outcomes (stage_write B w t) = tx_outcomes t"
  by (simp_all add: stage_write_def put_pending_def log_rep_def get_projection_def manifest_at_def items_ok_def tx_ok_def
      ok_put fun_eq_iff split: option.split)

lemma manifest_command_tx_fresh:
  assumes "manifest_command_tx B enc now c opts t = Inr (r, q, t')" and "outcome_of B (mc_id c) t = None"
  obtains t1 where "commit_command B enc now c (ensure_projection B manifest_projection t) = Inr (r, t1)"
    and "t' = put_outcome B (mc_id c) (OutManifest c (r\<lparr>mr_manifest := persist_manifest (mr_manifest r)\<rparr>) opts q)
      (stage_write B (description_write c (mr_manifest r)) t1)"
  using assms that
  by (cases "commit_command B enc now c (ensure_projection B manifest_projection t)")
    (auto simp: manifest_command_tx_def Let_def elim!: rbind_InrE)

end

section \<open>Properties\<close>

text \<open>The invariant of the database: the log it represents, its items, and unique event identities.\<close>

definition store_inv :: "('b, stored) bolt \<Rightarrow> ('b \<Rightarrow> bool) \<Rightarrow> 'b tx_state \<Rightarrow> domain_event list \<Rightarrow> bool" where
  "store_inv B ok t L \<longleftrightarrow> log_rep B ok t L \<and> tx_ok ok t \<and> items_ok B t \<and> items_inv (manifest_at B t)
     \<and> distinct (List.map de_id L)"

lemma execute_manifest_commandE:
  assumes "execute_manifest_command B enc now c opts d = Inr (r, q, d')"
  obtains t' where "manifest_command_tx B enc now (stamped_command now c) opts (db_tx d) = Inr (r, q, t')"
    and "d' = \<lparr>db_tx = t', db_changes = record_changes [mc_item c] (db_changes d)\<rparr>"
    and "mc_id c \<noteq> []" "valid_id (mc_item c)" "\<not> id_invalid (mc_id c)" "mc_protocol c = protocol_version"
    "mc_actor c = [] \<or> mc_actor c = ''user''" "mc_expected c \<noteq> None"
  using assms by (auto simp: execute_manifest_command_def split: if_split_asm elim!: rbind_InrE)

lemma stamped_fields [simp]:
  "mc_id (stamped_command now c) = mc_id c" "mc_item (stamped_command now c) = mc_item c"
  "mc_expected (stamped_command now c) = mc_expected c" "mc_type (stamped_command now c) = mc_type c"
  by (simp_all add: stamped_command_def)

lemma execute_manifest_command_spec:
  assumes "bucket_store B ok" and "execute_manifest_command B enc now c opts d = Inr (r, q, d')"
    and "outcome_of B (mc_id c) (db_tx d) = None" and "store_inv B ok (db_tx d) L"
    and "length L + length (mr_events r) < 2 ^ 64"
  shows "store_inv B ok (db_tx d') (L @ mr_events r)
    \<and> command_events (stamped_command now c) (mr_events r) \<and> (mr_changed r \<longleftrightarrow> mr_events r \<noteq> [])
    \<and> manifest_at B (db_tx d') = (manifest_at B (db_tx d))(mc_item c \<mapsto> mr_manifest r)
    \<and> mc_expected c = Some (item_revision B (db_tx d) (mc_item c))
    \<and> mr_revision r = of_nat (item_count (L @ mr_events r) (mc_item c))
    \<and> outcome_of B (mc_id c) (db_tx d') = Some (StOutcome (OutManifest (stamped_command now c) r opts q))
    \<and> (\<forall>j. j \<noteq> mc_id c \<longrightarrow> outcome_of B j (db_tx d') = outcome_of B j (db_tx d)) \<and> \<not> mr_duplicate r"
proof -
  note es = event_store_bucket [OF assms(1)]
  let ?c = "stamped_command now c" and ?t = "ensure_projection B manifest_projection (db_tx d)"
  obtain t' where tx: "manifest_command_tx B enc now ?c opts (db_tx d) = Inr (r, q, t')" and d': "db_tx d' = t'"
    using execute_manifest_commandE [OF assms(2)] by (metis database.select_convs(1))
  have none: "outcome_of B (mc_id ?c) (db_tx d) = None" using assms(3) by simp
  obtain t1 where co: "commit_command B enc now ?c ?t = Inr (r, t1)"
    and t': "t' = put_outcome B (mc_id c) (OutManifest ?c (r\<lparr>mr_manifest := persist_manifest (mr_manifest r)\<rparr>) opts q)
      (stage_write B (description_write ?c (mr_manifest r)) t1)"
    using event_store.manifest_command_tx_fresh [OF es tx none] by (metis stamped_fields(1))
  have inv: "log_rep B ok (db_tx d) L" "tx_ok ok (db_tx d)" "items_ok B (db_tx d)" "items_inv (manifest_at B (db_tx d))"
    "distinct (List.map de_id L)" using assms(4) by (simp_all add: store_inv_def)
  note fr = event_store.ensure_projection_frame [OF es inv(2), of manifest_projection]
  have at: "manifest_at B ?t = manifest_at B (db_tx d)" "items_ok B ?t = items_ok B (db_tx d)"
    using event_store.manifest_at_cong [OF es, of ?t "db_tx d"] fr(2) by simp_all
  have rev: "item_revision B ?t = item_revision B (db_tx d)"
    by (simp add: item_revision_def ensure_projection_def set_projection_def fun_eq_iff)
  have pre: "log_rep B ok ?t L" "items_ok B ?t" "items_inv (manifest_at B ?t)" using fr inv at by simp_all
  note sp = event_store.commit_command_spec [OF es co pre(1) fr(1) pre(2,3) assms(5), unfolded at rev stamped_fields fr(4)]
  have t1: "log_rep B ok t1 (L @ mr_events r)" "tx_ok ok t1" "items_ok B t1" "items_inv (manifest_at B t1)"
    "distinct (List.map de_id (L @ mr_events r))" "persist_manifest (mr_manifest r) = mr_manifest r"
    "tx_outcomes t1 = tx_outcomes (db_tx d)"
    using sp inv(5) by blast+
  have "store_inv B ok t' (L @ mr_events r)"
    using t1 es unfolding t' store_inv_def
    by (simp add: event_store.put_outcome_frame event_store.stage_write_frame del: map_append)
  moreover have "manifest_at B t' = manifest_at B t1"
    unfolding t' by (simp add: event_store.put_outcome_frame [OF es] event_store.stage_write_frame [OF es])
  moreover have "outcome_of B j t' = (if j = mc_id c then Some (StOutcome (OutManifest ?c r opts q)) else outcome_of B j (db_tx d))" for j
  proof -
    have "r\<lparr>mr_manifest := persist_manifest (mr_manifest r)\<rparr> = r" using t1(6) by simp
    moreover have "outcome_of B j (stage_write B w t1) = outcome_of B j (db_tx d)" for w
      using t1(7) by (simp add: outcome_of_def event_store.stage_write_frame [OF es])
    ultimately show ?thesis
      using event_store.stage_write_frame(5) [OF es t1(2)] by (simp add: t' event_store.outcome_of_put [OF es])
  qed
  ultimately show ?thesis unfolding d' using sp by simp
qed

text \<open>C2: executing a new manifest command refines appending its events to the log: the database represents the
  old log followed by the events, all of the item, caused by the command; the item's projection holds
  the returned manifest at the returned revision and no other item changes; identities stay unique,
  items well formed, open slugs distinct and item dependencies acyclic.\<close>

theorem execute_command_refines:
  assumes "bucket_store B ok" and "execute_manifest_command B enc now c opts d = Inr (r, q, d')"
    and "outcome_of B (mc_id c) (db_tx d) = None" and "store_inv B ok (db_tx d) L"
    and "length L + length (mr_events r) < 2 ^ 64"
  shows "store_inv B ok (db_tx d') (L @ mr_events r)
    \<and> (\<forall>e\<in>set (mr_events r). de_item e = mc_item c \<and> de_causation e = mc_id c \<and> de_actor e = ''user'')
    \<and> (mr_changed r \<longleftrightarrow> mr_events r \<noteq> [])
    \<and> manifest_at B (db_tx d') = (manifest_at B (db_tx d))(mc_item c \<mapsto> mr_manifest r)
    \<and> mr_revision r = of_nat (item_count (L @ mr_events r) (mc_item c))"
  using execute_manifest_command_spec [OF assms] by (simp add: command_events_def stamped_command_def)

text \<open>Retrying a command that carries its creation time returns the recorded result and queue, marked as a
  duplicate, in every later database that still holds its outcome; a different command under the
  same identity is refused, and either way the stored data do not change.\<close>

theorem execute_command_replay:
  assumes "bucket_store B ok" and "execute_manifest_command B enc now c opts d = Inr (r, q, d')"
    and "outcome_of B (mc_id c) (db_tx d) = None" and "store_inv B ok (db_tx d) L"
    and "length L + length (mr_events r) < 2 ^ 64" and "\<not> is_zero_time (mc_created_at c)"
    and "outcome_of B (mc_id c) (db_tx d2) = outcome_of B (mc_id c) (db_tx d')"
  shows "execute_manifest_command B enc now2 c opts d2 =
      Inr (r\<lparr>mr_duplicate := True\<rparr>, q, d2\<lparr>db_changes := record_changes [mc_item c] (db_changes d2)\<rparr>)
    \<and> (\<forall>c' opts'. mc_id c' = mc_id c \<longrightarrow> stamped_command now2 c' \<noteq> stamped_command now c \<longrightarrow>
         \<not> is_ok (execute_manifest_command B enc now2 c' opts' d2))"
proof -
  note sp = execute_manifest_command_spec [OF assms(1-5)]
  have out: "outcome_of B (mc_id c) (db_tx d2) = Some (StOutcome (OutManifest (stamped_command now c) r opts q))"
    using sp assms(7) by simp
  obtain t' where tx: "manifest_command_tx B enc now (stamped_command now c) opts (db_tx d) = Inr (r, q, t')"
    and valid: "mc_id c \<noteq> []" "valid_id (mc_item c)" "\<not> id_invalid (mc_id c)" "mc_protocol c = protocol_version"
      "mc_actor c = [] \<or> mc_actor c = ''user''" "mc_expected c \<noteq> None"
    using execute_manifest_commandE [OF assms(2)] by metis
  have same: "stamped_command now2 c = stamped_command now c"
    using assms(6) by (simp add: stamped_command_def)
  have q: "(opts = None \<longrightarrow> q = None) \<and> (opts \<noteq> None \<longrightarrow> q \<noteq> None)"
    using tx assms(3) by (auto simp: manifest_command_tx_def read_queue_def Let_def split: option.splits elim!: rbind_InrE)
  have "replay_manifest (OutManifest (stamped_command now c) r opts q) (stamped_command now2 c) opts
      = Inr (r\<lparr>mr_duplicate := True\<rparr>, q)"
    using q by (auto simp: replay_manifest_def same split: option.splits)
  then have "manifest_command_tx B enc now2 (stamped_command now2 c) opts (db_tx d2) = Inr (r\<lparr>mr_duplicate := True\<rparr>, q, db_tx d2)"
    by (simp add: manifest_command_tx_def out)
  then have "execute_manifest_command B enc now2 c opts d2 =
      Inr (r\<lparr>mr_duplicate := True\<rparr>, q, d2\<lparr>db_changes := record_changes [mc_item c] (db_changes d2)\<rparr>)"
    using valid by (simp add: execute_manifest_command_def)
  moreover have "\<not> is_ok (execute_manifest_command B enc now2 c' opts' d2)"
    if "mc_id c' = mc_id c" and "stamped_command now2 c' \<noteq> stamped_command now c" for c' opts'
    using that by (auto simp: execute_manifest_command_def manifest_command_tx_def out replay_manifest_def)
  ultimately show ?thesis by blast
qed

text \<open>C3: of two commands sent at the same revision of an item, once the first has changed it the second is
  refused with a revision conflict that names both revisions.\<close>

theorem execute_command_stale:
  assumes "bucket_store B ok" and "execute_manifest_command B enc now c opts d = Inr (r, q, d')"
    and "outcome_of B (mc_id c) (db_tx d) = None" and "store_inv B ok (db_tx d) L"
    and "length L + length (mr_events r) < 2 ^ 64" and "mr_changed r"
    and "mc_item c2 = mc_item c" and "mc_expected c2 = mc_expected c"
    and "outcome_of B (mc_id c2) (db_tx d) = None" and "mc_id c2 \<noteq> mc_id c"
    and "mc_id c2 \<noteq> []" and "\<not> id_invalid (mc_id c2)" and "mc_protocol c2 = 3" and "mc_actor c2 = ''user''"
  shows "\<exists>e. mc_expected c = Some e \<and> mr_revision r \<noteq> e
    \<and> execute_manifest_command B enc now2 c2 opts2 d' = Inl (RevisionConflict e (mr_revision r))"
proof -
  note es = event_store_bucket [OF assms(1)]
  note sp = execute_manifest_command_spec [OF assms(1-5)]
  let ?i = "mc_item c" and ?t = "ensure_projection B manifest_projection (db_tx d')" and ?n = "item_count L (mc_item c)"
  let ?n' = "item_count (L @ mr_events r) ?i"
  have i: "valid_id ?i" using execute_manifest_commandE [OF assms(2)] by metis
  then have "?i \<noteq> []" by (auto simp: valid_id_def)
  have inv': "log_rep B ok (db_tx d') (L @ mr_events r)" "tx_ok ok (db_tx d')" using sp by (simp_all add: store_inv_def)
  have rev: "item_revision B (db_tx d) ?i = of_nat ?n" "item_revision B (db_tx d') ?i = of_nat ?n'"
    using assms(4) inv'(1) \<open>?i \<noteq> []\<close> by (simp_all add: store_inv_def log_rep_def rev_rep_def)
  have own: "\<forall>e\<in>set (mr_events r). de_item e = ?i" and ne: "mr_events r \<noteq> []"
    using sp assms(6) by (simp_all add: command_events_def)
  have "?n' = ?n + length (mr_events r)" using own by (simp add: item_count_def filter_id_conv)
  moreover have "?n \<le> length L" by (rule item_count_le)
  ultimately have "?n < ?n'" "?n' < 2 ^ 64" using ne assms(5) by (cases "mr_events r"; simp)+
  then have neq: "(of_nat ?n' :: 64 word) \<noteq> of_nat ?n"
    using word_of_nat_less_iff64 [of ?n ?n'] by (metis less_irrefl order.strict_trans)
  have "manifest_at B (db_tx d') ?i = Some (mr_manifest r)" using sp by simp
  then obtain v where v: "get_projection B manifest_projection ?i ?t = Some v" "as_manifest v = Some (mr_manifest r)"
    using event_store.ensure_projection_frame(2) [OF es inv'(2)]
    by (auto simp: manifest_at_def split: option.splits)
  have "item_revision B ?t ?i = of_nat ?n'"
    using rev(2) by (simp add: item_revision_def ensure_projection_def set_projection_def)
  moreover have ex: "mc_expected c = Some (of_nat ?n)" using sp rev(1) by simp
  ultimately have "expected_item B ?i (mc_expected c) ?t = Inl (RevisionConflict (of_nat ?n) (of_nat ?n'))"
    using v neq by (simp add: expected_item_def Let_def)
  moreover have "outcome_of B (mc_id c2) (db_tx d') = None" using sp assms(9,10) by simp
  ultimately have "execute_manifest_command B enc now2 c2 opts2 d' = Inl (RevisionConflict (of_nat ?n) (of_nat ?n'))"
    using assms(7,8,11-14) i ex
    by (simp add: execute_manifest_command_def manifest_command_tx_def commit_command_def)
  then show ?thesis using ex sp neq by simp
qed

section \<open>A concrete execution\<close>

definition start_tx :: "(string \<times> stored) list tx_state" where
  "start_tx = put_projection list_bolt manifest_projection (m_id this_item) (StManifest deep_item) list_tx"

definition start_db :: "(string \<times> stored) list database" where
  "start_db = \<lparr>db_tx = start_tx, db_changes = new_change_log ''k''\<rparr>"

lemma start_tx_get: "get_projection list_bolt name k start_tx =
   (if name = manifest_projection \<and> k = m_id this_item then Some (StManifest deep_item) else None)"
  using list_events.get_put_projection [OF list_tx_ok]
  by (auto simp: start_tx_def) (auto simp: get_projection_def new_tx_def)

lemma start_manifest_at: "manifest_at list_bolt start_tx = [m_id this_item \<mapsto> deep_item]"
  by (simp add: manifest_at_def start_tx_get fun_eq_iff)

lemma deep_item_persist: "persist_manifest deep_item = deep_item" "item_targets deep_item = []"
  by (simp_all add: deep_item_def this_item_def sample_item_def zero_manifest_def persist_manifest_def
      persist_repository_def zero_repository_def item_targets_def)

lemma start_inv: "store_inv list_bolt kv_ok start_tx []"
proof -
  have "log_rep list_bolt kv_ok start_tx []" using list_tx_rep by (simp add: start_tx_def log_rep_def)
  moreover have "tx_ok kv_ok start_tx" using list_events.tx_ok_put(4) [OF list_tx_ok] by (simp add: start_tx_def)
  moreover have "items_ok list_bolt start_tx"
    by (auto simp: items_ok_def start_tx_get deep_item_fields deep_item_persist sample_fields)
  moreover have "dependency [m_id this_item \<mapsto> deep_item] = {}"
    by (auto simp: dependency_def deep_item_persist split: if_split_asm)
  then have "items_inv [m_id this_item \<mapsto> deep_item]"
    by (auto simp: items_inv_def deep_item_fields deep_item_ok acyclic_def split: if_split_asm)
  ultimately show ?thesis by (simp add: store_inv_def start_manifest_at)
qed

lemma start_valid: "valid_id (m_id this_item)" "\<not> id_invalid ''c1''" "\<not> id_invalid ''c2''"
  by (simp_all add: sample_fields valid_id_def id_char_def id_invalid_def compact_identifier_printable)

lemma start_outcome: "outcome_of list_bolt i start_tx = None"
  by (simp add: outcome_of_def start_tx_def put_projection_def set_projection_def new_tx_def kv_get_def)

lemma start_executes: "\<exists>r q d'. execute_manifest_command list_bolt (\<lambda>_. []) 9 start_command None start_db = Inr (r, q, d')
    \<and> length (mr_events r) \<le> 1 \<and> mr_changed r"
proof -
  let ?t = "ensure_projection list_bolt manifest_projection start_tx"
  have c: "stamped_command 9 start_command = start_command" "mc_item start_command = m_id this_item"
    "mc_id start_command = ''c1''" "mc_expected start_command = Some 0"
    "mc_protocol start_command = 3" "mc_actor start_command = ''user''" "mc_edit start_command = None"
    by (simp_all add: stamped_command_def start_command_def wait_command_def is_zero_time_def zero_time_def)
  have p: "tx_projections ?t manifest_projection = Some [(m_id this_item, StManifest deep_item)]"
    by (simp add: ensure_projection_def start_tx_def put_projection_def set_projection_def projection_bucket_def new_tx_def)
  have ms: "manifests_of list_bolt ?t = Inr [deep_item]" by (simp add: manifests_of_def p)
  have "item_revision list_bolt ?t (m_id this_item) = 0"
    by (simp add: item_revision_def ensure_projection_def set_projection_def start_tx_def put_projection_def new_tx_def
        get_u64_def kv_get_def)
  then have x: "expected_item list_bolt (m_id this_item) (Some 0) ?t = Inr (deep_item, 0)"
    by (simp add: expected_item_def get_projection_def p kv_get_def)
  obtain m' evs where run: "apply_manifest_command start_command deep_item [deep_item] = Inr (m', evs, True)"
      "m_state m' = state_active" using start_accepted by blast
  have one: "\<exists>e. evs = [e] \<and> ce_type e = ''work_item.state_set''"
    using run(1) by (auto simp: apply_manifest_command_def command_effect_def start_command_def wait_command_def
        apply_state_set_def move_item_def deep_item_fields deep_work_count active_deep_work_def Let_def emit_def)
  then obtain e where e: "evs = [e]" "ce_type e = ''work_item.state_set''" by blast
  have ids: "b_get list_bolt (tx_event_ids ?t) i = None" for i
    by (simp add: ensure_projection_def set_projection_def start_tx_def put_projection_def new_tx_def kv_get_def)
  have "\<exists>es rv t'. commit_manifest_events list_bolt (\<lambda>_. []) m' ''c1'' ''user'' cr [e] ?t = Inr (es, rv, t') \<and> length es = 1" for cr
    using ids e(2) by (simp add: commit_manifest_events_def Let_def manifest_event_def del: list_bolt_simps)
  then obtain es rv t' where "commit_manifest_events list_bolt (\<lambda>_. []) m' ''c1'' ''user'' (mc_created_at start_command) [e] ?t = Inr (es, rv, t')"
    "length es = 1" by blast
  then have "\<exists>r t'. commit_command list_bolt (\<lambda>_. []) 9 start_command ?t = Inr (r, t') \<and> length (mr_events r) \<le> 1 \<and> mr_changed r"
    by (simp add: commit_command_def c x ms run(1) e(1))
  then show ?thesis
    using start_valid c
    by (auto simp: execute_manifest_command_def manifest_command_tx_def start_outcome start_db_def read_queue_def Let_def)
qed

theorem execute_command_refines_witness:
  "\<exists>r q d'. execute_manifest_command list_bolt (\<lambda>_. []) 9 start_command None start_db = Inr (r, q, d')
     \<and> store_inv list_bolt kv_ok (db_tx d') (mr_events r)"
proof -
  obtain r q d' where run: "execute_manifest_command list_bolt (\<lambda>_. []) 9 start_command None start_db = Inr (r, q, d')"
    and len: "length (mr_events r) \<le> 1" using start_executes by blast
  show ?thesis
    using execute_command_refines [OF list_store.bucket_store_axioms run, of "[]"] run len
    by (simp add: start_db_def start_outcome start_inv)
qed

theorem execute_command_replay_witness:
  "\<exists>r q d'. execute_manifest_command list_bolt (\<lambda>_. []) 9 start_command None start_db = Inr (r, q, d')
     \<and> is_ok (execute_manifest_command list_bolt (\<lambda>_. []) 77 start_command None d')"
proof -
  obtain r q d' where run: "execute_manifest_command list_bolt (\<lambda>_. []) 9 start_command None start_db = Inr (r, q, d')"
    and len: "length (mr_events r) \<le> 1" using start_executes by blast
  have "\<not> is_zero_time (mc_created_at start_command)"
    by (simp add: start_command_def wait_command_def is_zero_time_def zero_time_def)
  then show ?thesis
    using execute_command_replay [OF list_store.bucket_store_axioms run, of "[]" d' 77] run len
    by (simp add: start_db_def start_outcome start_inv)
qed

theorem execute_command_stale_witness:
  "\<exists>r q d'. execute_manifest_command list_bolt (\<lambda>_. []) 9 start_command None start_db = Inr (r, q, d')
     \<and> execute_manifest_command list_bolt (\<lambda>_. []) 11 (start_command\<lparr>mc_id := ''c2''\<rparr>) None d'
         = Inl (RevisionConflict 0 (mr_revision r))"
proof -
  obtain r q d' where run: "execute_manifest_command list_bolt (\<lambda>_. []) 9 start_command None start_db = Inr (r, q, d')"
    and len: "length (mr_events r) \<le> 1" "mr_changed r" using start_executes by blast
  have c: "mc_expected start_command = Some 0" "mc_protocol start_command = 3" "mc_actor start_command = ''user''"
    "mc_id start_command = ''c1''" by (simp_all add: start_command_def wait_command_def)
  show ?thesis
    using execute_command_stale [OF list_store.bucket_store_axioms run, of "[]" "start_command\<lparr>mc_id := ''c2''\<rparr>" 11 None] run len c
    by (simp add: start_db_def start_outcome start_inv start_valid)
qed

end
