(* ===== verification/Create.thy ===== *)
theory Create
  imports Execute
begin

text \<open>
  Creating an item (\<open>internal/coordinator/create_domain.go\<close>) with the repository references it is allowed
  (\<open>repository_validation.go\<close>): the fences of creation, the single event of a new item, and its pending
  native write.
\<close>

section \<open>Repository references\<close>

definition repository_of :: "('b, stored) bolt \<Rightarrow> string \<Rightarrow> 'b tx_state \<Rightarrow> (coord_error, owned_repository) result" where
  "repository_of B i t = (case get_projection B repository_projection i t of
     None \<Rightarrow> Inl (NotRegistered i)
   | Some v \<Rightarrow> (case as_repository v of None \<Rightarrow> Inl Undecodable | Some r \<Rightarrow> Inr r))"

definition validate_repository_reference ::
  "('b, stored) bolt \<Rightarrow> manifest \<Rightarrow> 'b tx_state \<Rightarrow> (coord_error, unit) result" where
  "validate_repository_reference B m t =
     (if repo_id (m_repository m) = [] then
        (case tx_projections t repository_projection of
           None \<Rightarrow> Inr ()
         | Some b \<Rightarrow> if b_entries B b \<noteq> [] then Inl (Refused ''work items require a registered repository identity'') else Inr ())
      else rbind (repository_of B (repo_id (m_repository m)) t) (\<lambda>r.
        if cs_branch (co_specification (m_checkout m)) = or_branch r
        then Inl (Refused ''integration branch must remain unchecked out'') else Inr ()))"

definition validate_creation_repository ::
  "('b, stored) bolt \<Rightarrow> manifest \<Rightarrow> 'b tx_state \<Rightarrow> (coord_error, unit) result" where
  "validate_creation_repository B m t =
     rbind (validate_repository_reference B m t) (\<lambda>_.
       if repo_id (m_repository m) = [] then Inr ()
       else rbind (repository_of B (repo_id (m_repository m)) t) (\<lambda>r.
         if or_archived r then Inl (Refused ''repository is archived'') else Inr ()))"

definition create_claims_ok :: "manifest \<Rightarrow> manifest list \<Rightarrow> bool" where
  "create_claims_ok m existing \<longleftrightarrow>
     \<not> list_ex (\<lambda>x. m_id x \<noteq> m_id m \<and> m_state x \<noteq> state_closed \<and> m_slug x = m_slug m) existing"

section \<open>The command\<close>

definition persist_create :: "create_command \<Rightarrow> create_command" where
  "persist_create c = c\<lparr>cc_manifest := persist_manifest (cc_manifest c)\<rparr>"

definition created_event :: "create_command \<Rightarrow> domain_event" where
  "created_event c =
     (let m = cc_manifest c
      in \<lparr>de_sequence = 0, de_id = domain_event_id (cc_id c) 0, de_item = m_id m, de_revision = 1,
        de_type = ''work_item.created'', de_time = cc_created_at c, de_actor = cc_actor c, de_causation = cc_id c,
        de_payload = JObj [(''slug'', JStr (m_slug m)), (''title'', JStr (m_title m)),
          (''workspace_kind'', JStr (cs_kind (co_specification (m_checkout m))))]\<rparr>)"

text \<open>The writes of a creation that passed its checks.\<close>

definition create_writes ::
  "('b, stored) bolt \<Rightarrow> (manifest \<Rightarrow> string) \<Rightarrow> instant \<Rightarrow> create_command \<Rightarrow> 'b tx_state \<Rightarrow> create_result \<times> 'b tx_state" where
  "create_writes B enc now c t =
     (let m = cc_manifest c;
          sequence = global_sequence B t + 1;
          e = (created_event c)\<lparr>de_sequence := sequence\<rparr>;
          t = put_manifest B enc m (put_event B e t);
          t = put_revision B (m_id m) 1 t;
          t = put_pending B \<lparr>nw_command = cc_id c, nw_sequence = sequence, nw_operation = ''create'',
            nw_manifest = persist_manifest m, nw_digest = [], nw_previous_digest = []\<rparr> t;
          t = put_sequence B sequence t;
          r = \<lparr>ct_command = cc_id c, ct_manifest = m, ct_revision = 1, ct_event = e, ct_duplicate = False, ct_committed_at = now\<rparr>
      in (r, put_outcome B (cc_id c) (OutCreate (persist_create c) (r\<lparr>ct_manifest := persist_manifest m\<rparr>)) t))"

definition create_tx ::
  "('b, stored) bolt \<Rightarrow> (manifest \<Rightarrow> string) \<Rightarrow> instant \<Rightarrow> create_command \<Rightarrow> 'b tx_state
   \<Rightarrow> (coord_error, create_result \<times> 'b tx_state) result" where
  "create_tx B enc now c t = (case outcome_of B (cc_id c) t of
     Some v \<Rightarrow> (case v of
         StOutcome (OutCreate c0 r) \<Rightarrow>
           if c0 \<noteq> persist_create c then Inl (AlreadyUsed (cc_id c)) else Inr (r\<lparr>ct_duplicate := True\<rparr>, t)
       | StOutcome _ \<Rightarrow> Inl (AlreadyUsed (cc_id c))
       | _ \<Rightarrow> Inl Undecodable)
   | None \<Rightarrow>
       rbind (validate_creation_repository B (cc_manifest c) t) (\<lambda>_.
         let t = ensure_projection B manifest_projection t
         in if get_projection B manifest_projection (m_id (cc_manifest c)) t \<noteq> None
            then Inl (Refused ''work item id collision'')
            else rbind (manifests_of B t) (\<lambda>all.
              if \<not> create_claims_ok (cc_manifest c) all then Inl (Refused ''slug is already taken by active work item'')
              else Inr (create_writes B enc now c t))))"

text \<open>The command with its actor, its normalised manifest and its creation time.\<close>

definition prepare_create ::
  "(string \<Rightarrow> string option) \<Rightarrow> string \<Rightarrow> create_command \<Rightarrow> (coord_error, create_command) result" where
  "prepare_create url_clean actor c =
     (if id_invalid (cc_id c) \<or> cc_id c = [] then Inl CommandInvalid
      else if cc_protocol c \<noteq> protocol_version then Inl (Protocol (cc_protocol c))
      else if cc_actor c \<noteq> [] \<and> cc_actor c \<noteq> actor then Inl ActorRefused
      else if hex_decoded_length (cc_digest c) \<noteq> Some 32 then Inl (Refused ''description digest is invalid'')
      else (case normalize_manifest url_clean (cc_manifest c) of
          Inl e \<Rightarrow> Inl (OfManifest e)
        | Inr m \<Rightarrow>
            if \<not> is_zero_time (cc_created_at c) \<and> cc_created_at c \<noteq> m_created_at m
            then Inl (Refused ''command creation time must match manifest creation time'')
            else if m_state m \<noteq> state_backlog then Inl (Refused ''new work item must start in backlog'')
            else if slugify (m_slug m) \<noteq> m_slug m then Inl (Refused ''invalid canonical slug'')
            else Inr (c\<lparr>cc_actor := actor, cc_manifest := m, cc_created_at := m_created_at m\<rparr>)))"

definition execute_create ::
  "('b, stored) bolt \<Rightarrow> (manifest \<Rightarrow> string) \<Rightarrow> (string \<Rightarrow> string option) \<Rightarrow> instant \<Rightarrow> string \<Rightarrow> create_command \<Rightarrow> 'b database
   \<Rightarrow> (coord_error, create_result \<times> 'b database) result" where
  "execute_create B enc url_clean now actor c d =
     rbind (prepare_create url_clean actor c) (\<lambda>c.
       rbind (create_tx B enc now c (db_tx d)) (\<lambda>(r, t).
         Inr (r, \<lparr>db_tx = t, db_changes = (if ct_duplicate r then db_changes d
           else record_changes [m_id (ct_manifest r)] (db_changes d))\<rparr>)))"

section \<open>What normalising keeps\<close>

text \<open>The manifest a caller gave and the one that is stored: only the slug and the remote are trimmed, the remote loses
  its credentials, the labels become the set of their canonical forms, and the checkout gets its default kind and
  executor.\<close>

definition normal_form :: "(string \<Rightarrow> string option) \<Rightarrow> manifest \<Rightarrow> manifest \<Rightarrow> bool" where
  "normal_form url_clean given m \<longleftrightarrow> (\<exists>url labels ck.
     m = given\<lparr>m_slug := trim_space (m_slug given), m_repository := (m_repository given)\<lparr>remote_url := url\<rparr>,
         m_labels := labels, m_checkout := ck\<rparr>
     \<and> (let u = trim_space (remote_url (m_repository given)) in if contains_scheme u then url_clean u = Some url else url = u)
     \<and> distinct labels \<and> set labels = {n. \<exists>l\<in>set (m_labels given). normalize_label l = Inr n}
     \<and> co_generation ck = co_generation (m_checkout given)
     \<and> cs_branch (co_specification ck) = cs_branch (co_specification (m_checkout given))
     \<and> cs_kind (co_specification ck) = kind_managed_slot
     \<and> cs_executor (co_specification ck) = (let e = cs_executor (co_specification (m_checkout given))
         in if trim_space e = [] then executor_local else e)
     \<and> (case co_claim (m_checkout given) of None \<Rightarrow> co_claim ck = None
       | Some k \<Rightarrow> \<exists>k'. co_claim ck = Some k' \<and> wc_id k' = trim_space (wc_id k) \<and> wc_slot k' = trim_space (wc_slot k)
           \<and> wc_path k' = trim_space (wc_path k) \<and> wc_generation k' = co_generation (m_checkout given)))"

lemma normalize_checkout_keeps:
  assumes "normalize_checkout r c = Inr ck"
  shows "co_generation ck = co_generation c \<and> cs_branch (co_specification ck) = cs_branch (co_specification c)
    \<and> cs_kind (co_specification ck) = kind_managed_slot
    \<and> cs_executor (co_specification ck) = (let e = cs_executor (co_specification c) in if trim_space e = [] then executor_local else e)
    \<and> (case co_claim c of None \<Rightarrow> co_claim ck = None
       | Some k \<Rightarrow> \<exists>k'. co_claim ck = Some k' \<and> wc_id k' = trim_space (wc_id k) \<and> wc_slot k' = trim_space (wc_slot k)
           \<and> wc_path k' = trim_space (wc_path k) \<and> wc_generation k' = co_generation c)"
proof -
  have claim: "wc_id k' = trim_space (wc_id k) \<and> wc_slot k' = trim_space (wc_slot k) \<and> wc_path k' = trim_space (wc_path k)
      \<and> wc_generation k' = g" if "normalize_claim r s g k = Inr k'" for s g k k'
    using that by (auto simp: normalize_claim_def Let_def split: if_splits)
  show ?thesis using assms
    by (auto simp: normalize_checkout_def Let_def split: if_splits option.splits sum.splits dest: claim)
qed

lemma normalize_loop_set:
  "normalize_loop ls seen out = Inr r \<Longrightarrow> seen = set out \<Longrightarrow> distinct out \<Longrightarrow>
   distinct r \<and> set r = set out \<union> {n. \<exists>l\<in>set ls. normalize_label l = Inr n}"
  by (induction ls seen out rule: normalize_loop.induct) (auto split: sum.splits if_splits)

lemma normalize_labels_set:
  "normalize_labels ls = Inr r \<Longrightarrow> distinct r \<and> set r = {n. \<exists>l\<in>set ls. normalize_label l = Inr n}"
  using normalize_loop_set [of ls "{}" "[]" r] by (simp add: normalize_labels_def)

lemma sanitize_remote_url_Inr:
  assumes "sanitize_remote_url url_clean raw = Inr url"
  shows "let u = trim_space raw in if contains_scheme u then url_clean u = Some url else url = u"
  using assms by (auto simp: sanitize_remote_url_def contains_scheme_def Let_def split: if_split_asm option.splits)

lemma normalize_manifest_form:
  assumes "normalize_manifest url_clean m = Inr m'"
  shows "normal_form url_clean m m'"
proof -
  obtain remote labels c where "m' = m\<lparr>m_slug := trim_space (m_slug m),
        m_repository := (m_repository m)\<lparr>remote_url := remote\<rparr>, m_labels := labels, m_checkout := c\<rparr>"
    "normalize_labels (m_labels m) = Inr labels" "sanitize_remote_url url_clean (remote_url (m_repository m)) = Inr remote"
    "normalize_checkout ((m_repository m)\<lparr>remote_url := remote\<rparr>) (m_checkout m) = Inr c"
    using assms by (cases "normalize_labels (m_labels m)")
      (auto simp: normalize_manifest_def rbind_Inr_iff Let_def split: if_split_asm)
  then show ?thesis
    unfolding normal_form_def using normalize_labels_set normalize_checkout_keeps sanitize_remote_url_Inr by blast
qed

section \<open>Lemmas\<close>

lemma prepare_create_spec:
  assumes "prepare_create url_clean actor c = Inr c'"
  shows "\<exists>m. normalize_manifest url_clean (cc_manifest c) = Inr m
    \<and> c' = c\<lparr>cc_actor := actor, cc_manifest := m, cc_created_at := m_created_at m\<rparr>
    \<and> m_state m = state_backlog \<and> canonical_slug (m_slug m) \<and> cc_id c \<noteq> [] \<and> \<not> id_invalid (cc_id c)"
proof (cases "normalize_manifest url_clean (cc_manifest c)")
  case (Inr m)
  then show ?thesis
    using assms by (simp add: prepare_create_def canonical_slug_iff split: if_split_asm)
qed (use assms in \<open>simp add: prepare_create_def split: if_split_asm\<close>)

lemma create_tx_fresh:
  assumes "create_tx B enc now c t = Inr (r, t')" and "outcome_of B (cc_id c) t = None"
  shows "validate_creation_repository B (cc_manifest c) t = Inr ()
    \<and> get_projection B manifest_projection (m_id (cc_manifest c)) (ensure_projection B manifest_projection t) = None
    \<and> (\<exists>all. manifests_of B (ensure_projection B manifest_projection t) = Inr all \<and> create_claims_ok (cc_manifest c) all)
    \<and> (r, t') = create_writes B enc now c (ensure_projection B manifest_projection t)"
  using assms by (auto simp: create_tx_def Let_def split: if_split_asm elim!: rbind_InrE)

lemma item_ok_persist [simp]: "item_ok (persist_manifest m) = item_ok m" "item_targets (persist_manifest m) = item_targets m"
  by (simp_all add: item_ok_def manifest_ok_def item_targets_def persist_manifest_def)

lemma create_claims_persist [simp]: "create_claims_ok (persist_manifest m) all = create_claims_ok m all"
  by (simp add: create_claims_ok_def persist_manifest_def)

text \<open>A new item without item blockers and with an unused slug keeps the invariant.\<close>

lemma insert_keeps_inv:
  assumes "items_inv f" and "lists_items all f" and "f (m_id m) = None" and "item_ok m" and "m_state m \<noteq> state_closed"
    and "create_claims_ok m all" and "item_targets m = []"
  shows "items_inv (f(m_id m \<mapsto> m))"
proof -
  have id: "m_id x = i" if "f i = Some x" for i x using assms(1) that unfolding items_inv_def by blast
  have other: "m_slug x \<noteq> m_slug m" if "f i = Some x" "m_state x \<noteq> state_closed" for i x
  proof -
    have "x \<in> set all" using assms(2) that id by (simp add: lists_items_def)
    moreover have "m_id x \<noteq> m_id m" using that(1) id assms(3) by force
    ultimately show ?thesis using assms(6) that(2) by (auto simp: create_claims_ok_def list_ex_iff)
  qed
  have "dependency (f(m_id m \<mapsto> m)) \<subseteq> dependency f"
    using assms(3,7) by (auto simp: dependency_def split: if_split_asm)
  then have "acyclic (dependency (f(m_id m \<mapsto> m)))"
    using assms(1) unfolding items_inv_def by (blast intro: acyclic_subset)
  moreover have "j = k" if "(f(m_id m \<mapsto> m)) j = Some x" "(f(m_id m \<mapsto> m)) k = Some y" "m_state x \<noteq> state_closed"
      "m_state y \<noteq> state_closed" "m_slug x = m_slug y" for j k x y
  proof (cases "j = m_id m"; cases "k = m_id m")
    assume "j \<noteq> m_id m" "k \<noteq> m_id m"
    with that assms(1) show ?thesis unfolding items_inv_def by auto
  next
    assume "j = m_id m" "k \<noteq> m_id m"
    with that other [of k y] show ?thesis by simp
  next
    assume "j \<noteq> m_id m" "k = m_id m"
    with that other [of j x] show ?thesis by simp
  qed simp
  moreover have "\<forall>j x. (f(m_id m \<mapsto> m)) j = Some x \<longrightarrow> m_id x = j \<and> item_ok x"
    using assms(1,4) by (auto simp: items_inv_def)
  ultimately show ?thesis unfolding items_inv_def by blast
qed

context event_store
begin

lemma put_pending_frame [simp]:
  "log_rep B ok (put_pending B w t) L = log_rep B ok t L"
  "get_projection B n k (put_pending B w t) = get_projection B n k t"
  "tx_ok ok t \<Longrightarrow> tx_ok ok (put_pending B w t)"
  "tx_outcomes (put_pending B w t) = tx_outcomes t"
  by (simp_all add: put_pending_def log_rep_def get_projection_def tx_ok_def ok_put)

lemma get_projection_event [simp]:
  "get_projection B n k (put_event B e t) = get_projection B n k t"
  "get_projection B n k (put_revision B i rv t) = get_projection B n k t"
  "get_projection B n k (put_sequence B q t) = get_projection B n k t"
  by (simp_all add: get_projection_def put_event_def put_revision_def put_sequence_def)

lemma outcomes_event [simp]:
  "tx_outcomes (put_event B e t) = tx_outcomes t" "tx_outcomes (put_revision B i rv t) = tx_outcomes t"
  "tx_outcomes (put_sequence B q t) = tx_outcomes t" "tx_outcomes (put_manifest B enc m t) = tx_outcomes t"
  by (simp_all add: put_event_def put_revision_def put_sequence_def put_manifest_def put_source_def put_projection_def
      set_projection_def)

text \<open>One event at the end of the log, with the next sequence and its item's next revision.\<close>

lemma append_one_event:
  assumes "log_rep B ok t L" and "Suc (length L) < 2 ^ 64" and "de_item e \<noteq> []"
    and "de_sequence e = global_sequence B t + 1" and "de_revision e = of_nat (Suc (item_count L (de_item e)))"
    and "ev_rep B ok t' (L @ [e]) = ev_rep B ok (put_event B e t) (L @ [e])"
    and "tx_revisions t' = tx_revisions (put_revision B (de_item e) (de_revision e) t)"
    and "tx_meta t' = tx_meta (put_sequence B (de_sequence e) t)"
  shows "log_rep B ok t' (L @ [e])"
proof -
  have r: "ev_rep B ok t L" "rev_rep B ok t L" "seq_rep B ok t L" using assms(1) by (simp_all add: log_rep_def)
  have seq: "de_sequence e = of_nat (Suc (length L))" using assms(4) r(3) by (simp add: seq_rep_def)
  have "ev_rep B ok t' (L @ [e])" using ev_rep_put [OF r(1) assms(2) seq] assms(5,6) by simp
  moreover have "rev_rep B ok t' (L @ [e])"
    using rev_rep_put [OF r(2) assms(3) refl] assms(5,7) by (simp add: rev_rep_def item_revision_def)
  moreover have "seq_rep B ok t' (L @ [e])"
    using seq_rep_put [OF r(3), of "L @ [e]"] assms(8) seq by (simp add: seq_rep_def global_sequence_def)
  ultimately show ?thesis by (simp add: log_rep_def)
qed

lemma create_writes_spec:
  assumes "(r, t') = create_writes B enc now c t" and "log_rep B ok t L" and "tx_ok ok t" and "items_ok B t"
    and "Suc (length L) < 2 ^ 64" and "m_id (cc_manifest c) \<noteq> []" and "item_count L (m_id (cc_manifest c)) = 0"
  shows "log_rep B ok t' (L @ [ct_event r]) \<and> tx_ok ok t' \<and> items_ok B t'
    \<and> manifest_at B t' = (manifest_at B t)(m_id (cc_manifest c) \<mapsto> persist_manifest (cc_manifest c))
    \<and> (\<forall>j. outcome_of B j t' = (if j = cc_id c
         then Some (StOutcome (OutCreate (persist_create c) (r\<lparr>ct_manifest := persist_manifest (cc_manifest c)\<rparr>))) else outcome_of B j t))
    \<and> ct_event r = (created_event c)\<lparr>de_sequence := of_nat (Suc (length L))\<rparr>
    \<and> ct_manifest r = cc_manifest c \<and> ct_revision r = 1 \<and> \<not> ct_duplicate r"
proof -
  let ?m = "cc_manifest c" and ?n = "global_sequence B t + 1"
  let ?i = "m_id ?m" and ?e = "(created_event c)\<lparr>de_sequence := ?n\<rparr>"
  let ?w = "\<lparr>nw_command = cc_id c, nw_sequence = ?n, nw_operation = ''create'', nw_manifest = persist_manifest ?m,
      nw_digest = [], nw_previous_digest = []\<rparr>"
  define t1 where "t1 = put_sequence B ?n (put_pending B ?w (put_revision B ?i 1 (put_manifest B enc ?m (put_event B ?e t))))"
  have r: "r = \<lparr>ct_command = cc_id c, ct_manifest = ?m, ct_revision = 1, ct_event = ?e, ct_duplicate = False, ct_committed_at = now\<rparr>"
    and t': "t' = put_outcome B (cc_id c) (OutCreate (persist_create c) (r\<lparr>ct_manifest := persist_manifest ?m\<rparr>)) t1"
    using assms(1) by (simp_all add: create_writes_def Let_def t1_def)
  have ev: "de_item ?e = ?i" "de_sequence ?e = ?n" "de_revision ?e = 1" by (simp_all add: created_event_def Let_def)
  have n: "?n = of_nat (Suc (length L))" using assms(2) by (simp add: log_rep_def seq_rep_def)
  have "log_rep B ok t1 (L @ [?e])"
  proof (rule append_one_event [OF assms(2,5)])
    show "ev_rep B ok t1 (L @ [?e]) = ev_rep B ok (put_event B ?e t) (L @ [?e])"
      by (simp add: t1_def put_pending_def)
  qed (simp_all add: ev assms(6,7) t1_def put_pending_def put_manifest_def put_event_def put_sequence_def put_revision_def
      put_source_def put_projection_def set_projection_def)
  moreover have ok1: "tx_ok ok t1" using assms(3) by (simp add: t1_def)
  moreover have get: "get_projection B name k t1 =
      (if name = manifest_projection \<and> k = ?i then Some (StManifest (persist_manifest ?m)) else get_projection B name k t)" for name k
    using assms(3) by (simp add: t1_def)
  moreover have "items_ok B t1" using assms(4,6) by (auto simp: items_ok_def get persist_manifest_fields)
  moreover have "manifest_at B t1 = (manifest_at B t)(?i \<mapsto> persist_manifest ?m)"
    by (auto simp: manifest_at_def get fun_eq_iff)
  moreover have "tx_outcomes t1 = tx_outcomes t" by (simp add: t1_def)
  then have "outcome_of B j t1 = outcome_of B j t" for j by (simp add: outcome_of_def)
  ultimately show ?thesis
    unfolding t' using ok1 by (simp add: outcome_of_put r) (simp add: n [simplified])
qed

end

section \<open>Properties\<close>

text \<open>C4: creating an item whose identity is new to the log appends exactly one event, for this item, with its
  revision 1, its actor, its time and its slug and title, and stores for the item the manifest the caller gave in
  normal form: every field as given except a trimmed slug, a remote without credentials, the canonical labels and
  the defaults of the checkout. It starts in backlog with a canonical slug, no other item changes, the invariant of
  the database is kept, and a retry returns the recorded result. This holds as long as the manifest names no item
  blockers and the event identity is fresh.\<close>

theorem execute_create_refines:
  assumes "bucket_store B ok" and "store_inv B ok (db_tx d) L" and "Suc (length L) < 2 ^ 64"
    and "execute_create B enc url_clean now actor c d = Inr (r, d')" and "outcome_of B (cc_id c) (db_tx d) = None"
    and "item_count L (m_id (cc_manifest c)) = 0" and "item_targets (cc_manifest c) = []"
    and "domain_event_id (cc_id c) 0 \<notin> de_id ` set L"
  shows "store_inv B ok (db_tx d') (L @ [ct_event r])
    \<and> ct_event r = \<lparr>de_sequence = of_nat (Suc (length L)), de_id = domain_event_id (cc_id c) 0, de_item = m_id (cc_manifest c),
        de_revision = 1, de_type = ''work_item.created'', de_time = m_created_at (cc_manifest c), de_actor = actor,
        de_causation = cc_id c, de_payload = JObj [(''slug'', JStr (trim_space (m_slug (cc_manifest c)))),
          (''title'', JStr (m_title (cc_manifest c))), (''workspace_kind'', JStr kind_managed_slot)]\<rparr>
    \<and> manifest_at B (db_tx d') = (manifest_at B (db_tx d))(m_id (cc_manifest c) \<mapsto> persist_manifest (ct_manifest r))
    \<and> manifest_at B (db_tx d) (m_id (cc_manifest c)) = None
    \<and> normal_form url_clean (cc_manifest c) (ct_manifest r)
    \<and> m_state (ct_manifest r) = state_backlog \<and> canonical_slug (m_slug (ct_manifest r)) \<and> ct_revision r = 1
    \<and> (\<exists>r'. execute_create B enc url_clean now2 actor c d' = Inr (r', d') \<and> ct_duplicate r' \<and> ct_event r' = ct_event r)"
proof -
  note es = event_store_bucket [OF assms(1)]
  obtain c' t' where pre: "prepare_create url_clean actor c = Inr c'" and tx: "create_tx B enc now c' (db_tx d) = Inr (r, t')"
    and d': "d' = \<lparr>db_tx = t', db_changes = (if ct_duplicate r then db_changes d else record_changes [m_id (ct_manifest r)] (db_changes d))\<rparr>"
    using assms(4) unfolding execute_create_def by (auto elim!: rbind_InrE)
  obtain m where m: "normalize_manifest url_clean (cc_manifest c) = Inr m"
    and c': "c' = c\<lparr>cc_actor := actor, cc_manifest := m, cc_created_at := m_created_at m\<rparr>"
    and st: "m_state m = state_backlog" "canonical_slug (m_slug m)"
    using prepare_create_spec [OF pre] by blast
  note norm = normalized_manifest [OF m]
  have id: "m_id m = m_id (cc_manifest c)" "item_targets m = item_targets (cc_manifest c)" "m_id m \<noteq> []"
    using norm by (auto simp: item_targets_def manifest_ok_def valid_id_def)
  have "m_state m \<noteq> state_closed" using st(1) by simp
  then have okm: "item_ok m" using norm unfolding item_ok_def by blast
  let ?t = "ensure_projection B manifest_projection (db_tx d)"
  have inv: "log_rep B ok (db_tx d) L" "tx_ok ok (db_tx d)" "items_ok B (db_tx d)" "items_inv (manifest_at B (db_tx d))"
    "distinct (List.map de_id L)" using assms(2) by (simp_all add: store_inv_def)
  note fr = event_store.ensure_projection_frame [OF es inv(2), of manifest_projection]
  have at: "manifest_at B ?t = manifest_at B (db_tx d)" "items_ok B ?t = items_ok B (db_tx d)"
    using event_store.manifest_at_cong [OF es, of ?t "db_tx d"] fr(2) by simp_all
  obtain all where fresh: "get_projection B manifest_projection (m_id m) ?t = None" "manifests_of B ?t = Inr all"
      "create_claims_ok m all" "(r, t') = create_writes B enc now c' ?t"
    using create_tx_fresh [OF tx] assms(5) by (auto simp: c')
  have none: "manifest_at B (db_tx d) (m_id m) = None" using fresh(1) fr(2) by (simp add: manifest_at_def)
  have la: "lists_items all (manifest_at B (db_tx d))"
    using event_store.manifests_of_items [OF es fr(1)] at inv(3) fresh(2) by (auto simp: lists_items_def)
  have "log_rep B ok ?t L" "items_ok B ?t" using fr(3) inv at by simp_all
  note w = event_store.create_writes_spec [OF es fresh(4) this(1) fr(1) this(2) assms(3), unfolded at]
  have ci: "m_id (cc_manifest c') \<noteq> []" "item_count L (m_id (cc_manifest c')) = 0" using id assms(6) by (simp_all add: c')
  have cf: "cc_manifest c' = m" "cc_id c' = cc_id c" by (simp_all add: c')
  have w': "log_rep B ok t' (L @ [ct_event r])" "tx_ok ok t'" "items_ok B t'"
    "manifest_at B t' = (manifest_at B (db_tx d))(m_id m \<mapsto> persist_manifest m)"
    "ct_event r = (created_event c')\<lparr>de_sequence := of_nat (Suc (length L))\<rparr>"
    "ct_manifest r = m" "ct_revision r = 1" "\<not> ct_duplicate r"
    using w [OF ci, unfolded cf] by blast+
  have out: "outcome_of B (cc_id c) t' = Some (StOutcome (OutCreate (persist_create c') (r\<lparr>ct_manifest := persist_manifest m\<rparr>)))"
    using w [OF ci, unfolded cf] by simp
  have "items_inv ((manifest_at B (db_tx d))(m_id (persist_manifest m) \<mapsto> persist_manifest m))"
    by (rule insert_keeps_inv [OF inv(4) la]) (use none okm st(1) fresh(3) id(2) assms(7) in simp_all)
  then have "items_inv (manifest_at B t')" using w'(4) by simp
  moreover have ce: "de_id (ct_event r) = domain_event_id (cc_id c) 0"
    using w'(5) by (simp_all add: created_event_def c' Let_def)
  moreover have "distinct (List.map de_id (L @ [ct_event r]))" using ce inv(5) assms(8) by simp
  ultimately have "store_inv B ok t' (L @ [ct_event r])" using w'(1-3) unfolding store_inv_def by blast
  moreover have "\<exists>r'. execute_create B enc url_clean now2 actor c d' = Inr (r', d') \<and> ct_duplicate r' \<and> ct_event r' = ct_event r"
    using out w'(8) d' unfolding execute_create_def pre by (simp add: create_tx_def c')
  moreover have form: "normal_form url_clean (cc_manifest c) m" by (rule normalize_manifest_form [OF m])
  moreover have "ct_event r = \<lparr>de_sequence = of_nat (Suc (length L)), de_id = domain_event_id (cc_id c) 0,
      de_item = m_id (cc_manifest c), de_revision = 1, de_type = ''work_item.created'', de_time = m_created_at (cc_manifest c),
      de_actor = actor, de_causation = cc_id c, de_payload = JObj [(''slug'', JStr (trim_space (m_slug (cc_manifest c)))),
        (''title'', JStr (m_title (cc_manifest c))), (''workspace_kind'', JStr kind_managed_slot)]\<rparr>"
    using form norm by (auto simp: w'(5) created_event_def c' Let_def normal_form_def)
  ultimately show ?thesis using w'(4,6,7) none st id(1) d' by simp
qed

text \<open>C5: creation is fenced: an accepted new item refers to a registered repository that is not archived, on
  another branch than the repository's integration branch, or to none when none is registered.\<close>

theorem execute_create_fenced:
  assumes "execute_create B enc url_clean now actor c d = Inr (r, d')" and "outcome_of B (cc_id c) (db_tx d) = None"
  shows "(if repo_id (m_repository (ct_manifest r)) = []
      then (\<forall>b. tx_projections (db_tx d) repository_projection = Some b \<longrightarrow> b_entries B b = [])
      else \<exists>repo. get_projection B repository_projection (repo_id (m_repository (ct_manifest r))) (db_tx d) = Some (StRepository repo)
        \<and> \<not> or_archived repo \<and> cs_branch (co_specification (m_checkout (ct_manifest r))) \<noteq> or_branch repo)"
proof -
  obtain c' t' where pre: "prepare_create url_clean actor c = Inr c'" and tx: "create_tx B enc now c' (db_tx d) = Inr (r, t')"
    using assms(1) unfolding execute_create_def by (auto elim!: rbind_InrE)
  have "cc_id c' = cc_id c" using prepare_create_spec [OF pre] by auto
  then have f: "validate_creation_repository B (cc_manifest c') (db_tx d) = Inr ()" "ct_manifest r = cc_manifest c'"
    using create_tx_fresh [OF tx] assms(2) by (auto simp: create_writes_def Let_def)
  show ?thesis
    using f by (auto simp: validate_creation_repository_def validate_repository_reference_def repository_of_def as_repository_def
        split: if_split_asm option.splits stored.splits elim!: rbind_InrE)
qed

section \<open>A concrete creation\<close>

definition first_manifest :: manifest where
  "first_manifest = sample_manifest\<lparr>m_checkout := new_checkout kind_managed_slot executor_local ''wi/x''\<rparr>"

definition first_create :: create_command where
  "first_create = \<lparr>cc_id = ''c1'', cc_protocol = 3, cc_manifest = first_manifest, cc_digest = replicate 64 (CHR ''0''),
     cc_actor = [], cc_created_at = 5\<rparr>"

lemma first_fields:
  "m_created_at first_manifest = 5" "m_state first_manifest = state_backlog" "m_slug first_manifest = ''fix-it''"
  "item_targets first_manifest = []" "repo_id (m_repository first_manifest) = []"
  "m_id first_manifest = ''01HF7YAT0060RK4CSM6MV3EE1S''"
  by (simp_all add: first_manifest_def sample_manifest_def new_manifest_def zero_manifest_def item_targets_def
      zero_repository_def Let_def)

lemma first_create_runs:
  "\<exists>r d'. execute_create list_bolt (\<lambda>_. []) (\<lambda>_. None) 9 ''user'' first_create list_db = Inr (r, d')
     \<and> ct_manifest r = first_manifest"
proof -
  have "slugify ''fix-it'' = ''fix-it''"
    unfolding canonical_slug_iff
    by (simp add: canonical_slug_def max_slug_length_def slug_char_def slug_letter_def no_double_hyphen_def)
  moreover have "normalize_manifest (\<lambda>_. None) first_manifest = Inr first_manifest"
    using sample_manifest_normal by (simp add: first_manifest_def)
  moreover have "hex_decoded_length (replicate 64 (CHR ''0'')) = Some 32"
    by (simp add: hex_decoded_length_def is_hex_char_def list_all_iff)
  ultimately have pre: "prepare_create (\<lambda>_. None) ''user'' first_create = Inr (first_create\<lparr>cc_actor := ''user''\<rparr>)"
    by (simp add: prepare_create_def first_create_def first_fields start_valid)
  have p: "tx_projections (ensure_projection list_bolt manifest_projection list_tx) manifest_projection = Some []"
    by (simp add: ensure_projection_def set_projection_def projection_bucket_def new_tx_def)
  have "validate_creation_repository list_bolt first_manifest list_tx = Inr ()"
    by (simp add: validate_creation_repository_def validate_repository_reference_def first_fields new_tx_def)
  moreover have "get_projection list_bolt manifest_projection i (ensure_projection list_bolt manifest_projection list_tx) = None" for i
    by (simp add: get_projection_def p kv_get_def)
  moreover have "manifests_of list_bolt (ensure_projection list_bolt manifest_projection list_tx) = Inr []"
    by (simp add: manifests_of_def p)
  moreover have "outcome_of list_bolt i list_tx = None" for i by (simp add: outcome_of_def new_tx_def kv_get_def)
  ultimately have "\<exists>r t. create_tx list_bolt (\<lambda>_. []) 9 (first_create\<lparr>cc_actor := ''user''\<rparr>) list_tx = Inr (r, t)
      \<and> ct_manifest r = first_manifest"
    by (simp add: create_tx_def first_create_def create_claims_ok_def create_writes_def Let_def del: list_bolt_simps)
  then show ?thesis by (auto simp: execute_create_def pre)
qed

lemma empty_inv: "store_inv list_bolt kv_ok list_tx []"
proof -
  have "manifest_at list_bolt list_tx = Map.empty" "items_ok list_bolt list_tx"
    by (simp_all add: manifest_at_def items_ok_def get_projection_def new_tx_def kv_get_def fun_eq_iff)
  moreover have "items_inv Map.empty" by (simp add: items_inv_def dependency_def acyclic_def)
  ultimately show ?thesis using list_tx_rep list_tx_ok by (simp add: store_inv_def)
qed

theorem execute_create_refines_witness:
  "\<exists>r d'. execute_create list_bolt (\<lambda>_. []) (\<lambda>_. None) 9 ''user'' first_create list_db = Inr (r, d')
     \<and> store_inv list_bolt kv_ok (db_tx d') [ct_event r]"
proof -
  obtain r d' where run: "execute_create list_bolt (\<lambda>_. []) (\<lambda>_. None) 9 ''user'' first_create list_db = Inr (r, d')"
    using first_create_runs by blast
  have "outcome_of list_bolt i list_tx = None" for i by (simp add: outcome_of_def new_tx_def kv_get_def)
  then show ?thesis
    using execute_create_refines [OF list_store.bucket_store_axioms _ _ run, of "[]", THEN conjunct1] run
    by (simp add: empty_inv first_create_def first_fields)
qed

theorem execute_create_fenced_witness:
  "\<exists>r d'. execute_create list_bolt (\<lambda>_. []) (\<lambda>_. None) 9 ''user'' first_create list_db = Inr (r, d')
     \<and> (\<forall>b. tx_projections list_tx repository_projection = Some b \<longrightarrow> b = [])"
proof -
  obtain r d' where run: "execute_create list_bolt (\<lambda>_. []) (\<lambda>_. None) 9 ''user'' first_create list_db = Inr (r, d')"
    and m: "ct_manifest r = first_manifest" using first_create_runs by blast
  have "outcome_of list_bolt i list_tx = None" for i by (simp add: outcome_of_def new_tx_def kv_get_def)
  then show ?thesis using execute_create_fenced [OF run] run by (simp add: m first_fields)
qed

end
