(* ===== verification/StoreCommands.thy ===== *)
theory StoreCommands
  imports Create
begin

text \<open>
  Store commands (\<open>internal/coordinator/store_command.go\<close>): the operations of the item file store carried
  out on the database, each recorded as one event of its item, with the fences on saved manifests
  and the generations of agent runtimes. The payload is a JSON text; \<open>payload_codec\<close> gives what
  \<open>json.Unmarshal\<close> makes of it for each type.
\<close>

record payload_codec =
  cx_manifest :: "string \<Rightarrow> manifest option"
  cx_event :: "string \<Rightarrow> (string \<times> instant) option"
  cx_runtime :: "string \<Rightarrow> agent_runtime option"
  cx_terminal :: "string \<Rightarrow> terminal_runtime option"

abbreviation store_manifest_save :: string where "store_manifest_save \<equiv> ''manifest.save''"
abbreviation store_event_append :: string where "store_event_append \<equiv> ''event.append''"
abbreviation store_terminal_save :: string where "store_terminal_save \<equiv> ''terminal_runtime.save''"
abbreviation store_terminal_remove :: string where "store_terminal_remove \<equiv> ''terminal_runtime.remove''"
abbreviation store_runtime_save :: string where "store_runtime_save \<equiv> ''agent_runtime.save''"
abbreviation store_item_delete :: string where "store_item_delete \<equiv> ''item.delete''"

section \<open>The mutations\<close>

definition store_compact :: "store_command \<Rightarrow> json" where
  "store_compact c = JObj [(''operation'', JStr (so_operation c)), (''payload_digest'', JStr (so_digest c))]"

text \<open>Why a saved manifest is refused against the stored one.\<close>

definition save_fence :: "string \<Rightarrow> manifest \<Rightarrow> manifest \<Rightarrow> (coord_error, unit) result" where
  "save_fence i previous m =
     (if repo_id (m_repository previous) \<noteq> [] \<and>
          (repo_id (m_repository previous) \<noteq> repo_id (m_repository m)
           \<or> created_from_commit (m_repository previous) \<noteq> created_from_commit (m_repository m))
      then Inl (Refused ''repository identity and created-from commit are immutable'')
      else if cs_branch (co_specification (m_checkout previous)) \<noteq> cs_branch (co_specification (m_checkout m))
        then Inl (Refused ''implementation branch specification is immutable'')
      else if m_state previous \<noteq> state_closed \<and> m_state m \<noteq> state_closed \<and> m_slug previous \<noteq> m_slug m
        then Inl (Refused ''active slug is immutable'')
      else if m_id m \<noteq> i then Inl (Refused ''manifest item id mismatch'')
      else Inr ())"

definition save_manifest ::
  "('b, stored) bolt \<Rightarrow> (manifest \<Rightarrow> string) \<Rightarrow> (string \<Rightarrow> string option) \<Rightarrow> string \<Rightarrow> manifest \<Rightarrow> 'b tx_state
   \<Rightarrow> (coord_error, 'b tx_state) result" where
  "save_manifest B enc url_clean i raw t = (case normalize_manifest url_clean raw of
     Inl e \<Rightarrow> Inl (OfManifest e)
   | Inr m \<Rightarrow> (case manifest_at B t i of
       None \<Rightarrow> Inl Undecodable
     | Some previous \<Rightarrow>
         if m_blockers previous \<noteq> m_blockers m then Inl (Refused ''blocker changes require a typed manifest command'')
         else rbind (validate_repository_reference B m t) (\<lambda>_.
           rbind (save_fence i previous m) (\<lambda>_.
           rbind (manifests_of B t) (\<lambda>all.
             if \<not> create_claims_ok m all then Inl (Refused ''slug is already taken by active work item'')
             else Inr (put_manifest B enc m t))))))"

definition append_event ::
  "('b, stored) bolt \<Rightarrow> string \<Rightarrow> string \<times> instant \<Rightarrow> 'b tx_state \<Rightarrow> (coord_error, string \<times> json \<times> 'b tx_state) result" where
  "append_event B i event t =
     (let kind = compact_identifier (fst event) 128; compact = JObj [(''event_type'', JStr kind)]
      in if kind = [] then Inl (Refused ''event type is required'')
         else if kind = ''attention.deferred'' \<or> kind = ''attention.read'' \<or> kind = ''attention.unread''
           then rbind (record_marker B i kind (snd event) t) (\<lambda>t. Inr (kind, compact, t))
         else Inr (kind, compact, t))"

definition zero_runtime :: agent_runtime where
  "zero_runtime = \<lparr>ar_id = [], ar_generation = 0, ar_item = [], ar_mode = [], ar_state = [], ar_conversation = [],
     ar_executor = [], ar_claim_id = [], ar_claim_generation = 0,
     ar_capabilities = \<lparr>rc_live_content = False, rc_idle_guard = False, rc_image_input = False, rc_native_tui = False,
       rc_headless = False, rc_streaming = False, rc_prompt = False, rc_steering = False, rc_follow_up = False,
       rc_cancel = False, rc_monitor = False, rc_control = [], rc_settings = []\<rparr>,
     ar_host_pid = 0, ar_host_process_group = 0, ar_host_start_time = 0, ar_started_at = zero_time,
     ar_updated_at = zero_time, ar_stopped_at = None, ar_readiness = [], ar_readiness_reason = [], ar_readiness_at = None,
     ar_settings = []\<rparr>"

text \<open>A saved runtime against the current owner: the generation, and the readiness and settings that
  only the driver reports.\<close>

definition own_runtime :: "agent_runtime \<Rightarrow> agent_runtime \<Rightarrow> (coord_error, agent_runtime) result" where
  "own_runtime current r0 =
     (let r = r0\<lparr>ar_generation := 1\<rparr>; same = (ar_id current = ar_id r)
      in if \<not> same \<and> ar_generation current = - 1 then Inl (Refused ''agent generation exhausted'')
         else (let r = (if same \<and> ar_generation current \<noteq> 0 then r\<lparr>ar_generation := ar_generation current\<rparr>
                    else if \<not> same then r\<lparr>ar_generation := ar_generation current + 1\<rparr> else r);
                   r = (if same then r\<lparr>ar_settings := ar_settings current\<rparr> else r);
                   keep = same \<and> (case ar_readiness_at current of
                      None \<Rightarrow> False
                    | Some a \<Rightarrow> (case ar_readiness_at r of None \<Rightarrow> True | Some b \<Rightarrow> \<not> b > a))
               in Inr (if keep then r\<lparr>ar_readiness := ar_readiness current,
                      ar_readiness_reason := ar_readiness_reason current, ar_readiness_at := ar_readiness_at current\<rparr>
                    else r)))"

definition save_runtime ::
  "('b, stored) bolt \<Rightarrow> string \<Rightarrow> agent_runtime \<Rightarrow> 'b tx_state \<Rightarrow> (coord_error, 'b tx_state) result" where
  "save_runtime B i r t =
     (if ar_item r \<noteq> i then Inl (Refused ''runtime item id mismatch'')
      else rbind (case tx_projections t runtime_ownership_projection of
            None \<Rightarrow> Inr (r\<lparr>ar_generation := 1\<rparr>)
          | Some b \<Rightarrow> (case b_get B b i of
              None \<Rightarrow> own_runtime zero_runtime r
            | Some v \<Rightarrow> (case as_runtime v of None \<Rightarrow> Inl Undecodable | Some current \<Rightarrow> own_runtime current r)))
        (\<lambda>r. Inr (put_projection B runtime_ownership_projection i (StRuntime r) t)))"

text \<open>A deletion in a projection that may not exist.\<close>

definition drop_projection :: "('b, stored) bolt \<Rightarrow> string \<Rightarrow> 'b tx_state \<Rightarrow> string \<Rightarrow> 'b tx_state" where
  "drop_projection B i t name = (case tx_projections t name of
     None \<Rightarrow> t | Some b \<Rightarrow> set_projection name (b_delete B i b) t)"

definition item_projections :: "string list" where
  "item_projections = [observation_projection, attention_projection, runtime_activity_projection, conversation_projection,
     runtime_ownership_projection, terminal_ownership_projection]"

definition delete_item :: "('b, stored) bolt \<Rightarrow> string \<Rightarrow> 'b tx_state \<Rightarrow> (coord_error, 'b tx_state) result" where
  "delete_item B i t = (case manifest_at B t i of
     None \<Rightarrow> Inl Undecodable
   | Some m \<Rightarrow>
       if m_state m \<noteq> state_closed then Inl (Refused ''delete requires closed state'')
       else (let t = delete_projection B manifest_projection i t;
                 t = t\<lparr>tx_sources := b_delete B i (tx_sources t)\<rparr>
             in Inr (foldl (drop_projection B i) t item_projections)))"

definition of_payload :: "'a option \<Rightarrow> (coord_error, 'a) result" where
  "of_payload v = (case v of None \<Rightarrow> Inl Undecodable | Some x \<Rightarrow> Inr x)"

definition apply_store_mutation ::
  "('b, stored) bolt \<Rightarrow> (manifest \<Rightarrow> string) \<Rightarrow> (string \<Rightarrow> string option) \<Rightarrow> payload_codec \<Rightarrow> store_command \<Rightarrow> string \<Rightarrow> 'b tx_state
   \<Rightarrow> (coord_error, string \<times> json \<times> 'b tx_state) result" where
  "apply_store_mutation B enc url_clean cx c payload t =
     (let op = so_operation c; i = so_item c; compact = store_compact c
      in if op = store_manifest_save then
           rbind (of_payload (cx_manifest cx payload)) (\<lambda>m.
             rbind (save_manifest B enc url_clean i m t) (\<lambda>t. Inr (''manifest.updated'', compact, t)))
         else if op = store_event_append then rbind (of_payload (cx_event cx payload)) (\<lambda>e. append_event B i e t)
         else if op = store_runtime_save then
           rbind (of_payload (cx_runtime cx payload)) (\<lambda>r. rbind (save_runtime B i r t) (\<lambda>t. Inr (op, compact, t)))
         else if op = store_terminal_save then
           rbind (of_payload (cx_terminal cx payload)) (\<lambda>r.
             Inr (op, compact, put_projection B terminal_ownership_projection i (StTerminal (r\<lparr>tr_pane_path := []\<rparr>)) t))
         else if op = store_terminal_remove then Inr (op, compact, drop_projection B i t terminal_ownership_projection)
         else if op = store_item_delete then rbind (delete_item B i t) (\<lambda>t. Inr (''work_item.deleted'', compact, t))
         else Inl (Refused ''unsupported store operation''))"

section \<open>The command\<close>

definition requires_native_write :: "string \<Rightarrow> bool" where
  "requires_native_write op \<longleftrightarrow> op = store_item_delete"

definition event_time :: "payload_codec \<Rightarrow> store_command \<Rightarrow> string \<Rightarrow> instant" where
  "event_time cx c payload =
     (if so_operation c = store_event_append then
        (case cx_event cx payload of
           None \<Rightarrow> so_created_at c
         | Some (_, at) \<Rightarrow> if is_zero_time at then so_created_at c else at)
      else so_created_at c)"

definition store_writes ::
  "('b, stored) bolt \<Rightarrow> payload_codec \<Rightarrow> instant \<Rightarrow> store_command \<Rightarrow> string \<Rightarrow> 64 word \<Rightarrow> string \<Rightarrow> json \<Rightarrow> 'b tx_state
   \<Rightarrow> store_result \<times> 'b tx_state" where
  "store_writes B cx now c payload revision kind compact t =
     (let sequence = global_sequence B t + 1;
          revision = revision + 1;
          e = \<lparr>de_sequence = sequence, de_id = domain_event_id (so_id c) 0, de_item = so_item c, de_revision = revision,
            de_type = kind, de_time = event_time cx c payload, de_actor = ''wi'', de_causation = so_id c, de_payload = compact\<rparr>;
          t = put_sequence B sequence (put_revision B (so_item c) revision (put_event B e t));
          t = (if requires_native_write (so_operation c)
               then put_pending B \<lparr>nw_command = so_id c, nw_sequence = sequence, nw_operation = so_operation c,
                 nw_manifest = zero_manifest\<lparr>m_id := so_item c\<rparr>, nw_digest = [], nw_previous_digest = []\<rparr> t
               else t);
          r = \<lparr>sr_command = so_id c, sr_revision = revision, sr_event = e, sr_duplicate = False, sr_committed_at = now\<rparr>
      in (r, put_outcome B (so_id c) (OutStore c r) t))"

definition store_tx ::
  "('b, stored) bolt \<Rightarrow> (manifest \<Rightarrow> string) \<Rightarrow> (string \<Rightarrow> string option) \<Rightarrow> payload_codec \<Rightarrow> instant \<Rightarrow> store_command \<Rightarrow> string
   \<Rightarrow> 'b tx_state \<Rightarrow> (coord_error, store_result \<times> 'b tx_state) result" where
  "store_tx B enc url_clean cx now c payload t = (case outcome_of B (so_id c) t of
     Some v \<Rightarrow> (case v of
         StOutcome (OutStore c0 r) \<Rightarrow> if c0 \<noteq> c then Inl (AlreadyUsed (so_id c)) else Inr (r\<lparr>sr_duplicate := True\<rparr>, t)
       | StOutcome _ \<Rightarrow> Inl (AlreadyUsed (so_id c))
       | _ \<Rightarrow> Inl Undecodable)
   | None \<Rightarrow>
       if get_projection B manifest_projection (so_item c) t = None then Inl NotFound
       else (let revision = item_revision B t (so_item c)
         in if Some revision \<noteq> so_expected c
            then Inl (RevisionConflict (case so_expected c of None \<Rightarrow> 0 | Some e \<Rightarrow> e) revision)
            else rbind (apply_store_mutation B enc url_clean cx c payload t) (\<lambda>(kind, compact, t).
              Inr (store_writes B cx now c payload revision kind compact t))))"

definition execute_store_command ::
  "('b, stored) bolt \<Rightarrow> (manifest \<Rightarrow> string) \<Rightarrow> (string \<Rightarrow> string option) \<Rightarrow> payload_codec \<Rightarrow> instant \<Rightarrow> store_command \<Rightarrow> string
   \<Rightarrow> 'b database \<Rightarrow> (coord_error, store_result \<times> 'b database) result" where
  "execute_store_command B enc url_clean cx now c payload d =
     (if so_id c = [] \<or> id_invalid (so_id c) \<or> \<not> valid_id (so_item c) \<or> so_expected c = None then Inl CommandRequired
      else if so_protocol c \<noteq> protocol_version then Inl (Protocol (so_protocol c))
      else if hex_digest 32 payload \<noteq> so_digest c then Inl (Refused ''store command payload digest mismatch'')
      else (let c = (if is_zero_time (so_created_at c) then c\<lparr>so_created_at := now\<rparr> else c)
        in rbind (store_tx B enc url_clean cx now c payload (db_tx d)) (\<lambda>(r, t).
          Inr (r, \<lparr>db_tx = t, db_changes = (if sr_duplicate r then db_changes d
            else record_changes [so_item c] (db_changes d))\<rparr>))))"

section \<open>What a mutation leaves alone\<close>

text \<open>A mutation writes projections and import sources only.\<close>

definition projections_only :: "'b tx_state \<Rightarrow> 'b tx_state \<Rightarrow> bool" where
  "projections_only t t' \<longleftrightarrow> tx_meta t' = tx_meta t \<and> tx_commands t' = tx_commands t \<and> tx_events t' = tx_events t
     \<and> tx_event_ids t' = tx_event_ids t \<and> tx_revisions t' = tx_revisions t \<and> tx_offsets t' = tx_offsets t
     \<and> tx_outcomes t' = tx_outcomes t \<and> tx_pending t' = tx_pending t"

lemma projections_only_refl [simp]: "projections_only t t"
  by (simp add: projections_only_def)

lemma projections_only_trans: "projections_only t t1 \<Longrightarrow> projections_only t1 t2 \<Longrightarrow> projections_only t t2"
  by (simp add: projections_only_def)

lemma projections_only_put [simp]:
  "projections_only t (put_projection B name k v t)" "projections_only t (delete_projection B name k t)"
  "projections_only t (put_attention B a t)" "projections_only t (put_manifest B enc m t)"
  "projections_only t (drop_projection B i t name)" "projections_only t (t\<lparr>tx_sources := ss\<rparr>)"
  by (simp_all add: projections_only_def put_projection_def delete_projection_def put_attention_def put_manifest_def
      put_source_def drop_projection_def set_projection_def split: option.split)

lemma projections_only_log: "projections_only t t' \<Longrightarrow> log_rep B ok t' L = log_rep B ok t L"
  by (simp add: projections_only_def log_rep_def ev_rep_def rev_rep_def seq_rep_def item_revision_def global_sequence_def)

text \<open>The items after the mutation of one of them.\<close>

definition mutated_items :: "(string \<rightharpoonup> manifest) \<Rightarrow> (string \<rightharpoonup> manifest) \<Rightarrow> string \<Rightarrow> store_command \<Rightarrow> bool" where
  "mutated_items f f' i c \<longleftrightarrow>
     (if so_operation c = store_manifest_save
      then \<exists>m previous. f i = Some previous \<and> f' = f(i \<mapsto> m) \<and> m_id m = i \<and> manifest_ok m \<and> m_blockers m = m_blockers previous
        \<and> (\<forall>j x. f j = Some x \<longrightarrow> j \<noteq> i \<longrightarrow> m_state x \<noteq> state_closed \<longrightarrow> m_slug x \<noteq> m_slug m)
      else if so_operation c = store_item_delete then f' = f(i := None) \<and> (\<exists>m. f i = Some m \<and> m_state m = state_closed)
      else f' = f)"

lemma manifest_ok_persist: "manifest_ok (persist_manifest m) = manifest_ok m"
  by (simp add: manifest_ok_def persist_manifest_def)

text \<open>Saving and deleting keep the invariant; a saved manifest must not be closed with blockers left.\<close>

lemma mutated_keeps_inv:
  assumes "mutated_items f f' i c" and "items_inv f"
    and "\<And>m. f' i = Some m \<Longrightarrow> m_state m = state_closed \<Longrightarrow> m_blockers m = []"
  shows "items_inv f'"
proof -
  consider (save) m previous where "f i = Some previous" "f' = f(i \<mapsto> m)" "m_id m = i" "manifest_ok m"
      "m_blockers m = m_blockers previous"
      "\<And>j x. f j = Some x \<Longrightarrow> j \<noteq> i \<Longrightarrow> m_state x \<noteq> state_closed \<Longrightarrow> m_slug x \<noteq> m_slug m"
    | (del) "f' = f(i := None)" | (same) "f' = f"
    using assms(1) unfolding mutated_items_def by (metis (no_types, lifting))
  then show ?thesis
  proof cases
    case save
    have "item_ok m" using save(2,4) assms(3) by (simp add: item_ok_def)
    moreover have "item_targets m = item_targets previous" using save(5) by (simp add: item_targets_def)
    then have "dependency f' \<subseteq> dependency f" using dependency_smaller [of f i previous m] save(1,2) by simp
    then have "acyclic (dependency f')" using assms(2) unfolding items_inv_def by (blast intro: acyclic_subset)
    moreover have "j = k" if jk: "f' j = Some x" "f' k = Some y" "m_state x \<noteq> state_closed"
        "m_state y \<noteq> state_closed" "m_slug x = m_slug y" for j k x y
    proof (cases "j = i"; cases "k = i")
      assume "j \<noteq> i" "k \<noteq> i"
      with jk save(2) assms(2) show ?thesis unfolding items_inv_def by auto
    next
      assume "j = i" "k \<noteq> i"
      with jk save(2) save(6) [of k y] show ?thesis by simp
    next
      assume "j \<noteq> i" "k = i"
      with jk save(2) save(6) [of j x] show ?thesis by simp
    qed simp
    moreover have "\<forall>j x. f' j = Some x \<longrightarrow> m_id x = j \<and> item_ok x"
      using save(2,3) assms(2) \<open>item_ok m\<close> by (simp add: items_inv_def)
    ultimately show ?thesis unfolding items_inv_def by blast
  next
    case del
    have "dependency f' \<subseteq> dependency f" by (auto simp: del dependency_def split: if_split_asm)
    then have "acyclic (dependency f')" using assms(2) unfolding items_inv_def by (blast intro: acyclic_subset)
    moreover have "\<forall>j x. f' j = Some x \<longrightarrow> f j = Some x" by (simp add: del)
    ultimately show ?thesis using assms(2) unfolding items_inv_def by meson
  qed (use assms(2) in simp)
qed

text \<open>The owner of an item's runtime: a new runtime gets a larger generation, a known one keeps its
  generation, its settings and its readiness unless the report is newer.\<close>

lemma unat_succ_less: "w \<noteq> - 1 \<Longrightarrow> unat w < unat (w + 1)"
  for w :: "'a :: len word"
proof -
  assume "w \<noteq> - 1"
  then have "1 + w \<noteq> 0" by (metis add.commute add_eq_0_iff2)
  then have "unat (1 + w) = Suc (unat w)" by (rule unatSuc)
  then show ?thesis by (simp add: add.commute)
qed

lemma own_runtime_spec:
  assumes "own_runtime current r = Inr r'"
  shows "ar_id r' = ar_id r \<and> ar_item r' = ar_item r
    \<and> (if ar_id r = ar_id current then (ar_generation current \<noteq> 0 \<longrightarrow> ar_generation r' = ar_generation current)
         \<and> ar_settings r' = ar_settings current
         \<and> (\<forall>a. ar_readiness_at current = Some a \<longrightarrow> (\<exists>b. ar_readiness_at r' = Some b \<and> a \<le> b
              \<and> (b = a \<longrightarrow> ar_readiness r' = ar_readiness current)))
       else ar_generation current < ar_generation r')"
proof -
  have "ar_generation current < ar_generation current + 1" if "ar_generation current \<noteq> - 1"
    using that unat_succ_less [of "ar_generation current"] by (simp add: word_less_nat_alt add.commute)
  then show ?thesis
    using assms by (auto simp: own_runtime_def Let_def split: if_split_asm option.splits)
qed

context event_store
begin

lemma drop_projection_get:
  assumes "tx_ok ok t"
  shows "tx_ok ok (drop_projection B i t name) \<and> get_projection B n k (drop_projection B i t name) =
    (if n = name \<and> k = i then None else get_projection B n k t)"
  using assms
  by (cases "tx_projections t name")
    (auto simp: drop_projection_def set_projection_def get_projection_def tx_ok_def ok_delete get_delete)

lemma drop_projections_get:
  "tx_ok ok t \<Longrightarrow> tx_ok ok (foldl (drop_projection B i) t names) \<and> projections_only t (foldl (drop_projection B i) t names)
    \<and> get_projection B n k (foldl (drop_projection B i) t names) =
      (if n \<in> set names \<and> k = i then None else get_projection B n k t)"
proof (induction names arbitrary: t)
  case (Cons name names)
  note d = drop_projection_get [OF Cons.prems, of i name]
  have "tx_ok ok (drop_projection B i t name)" using d by blast
  note IH = Cons.IH [OF this]
  have "projections_only t (foldl (drop_projection B i) (drop_projection B i t name) names)"
    using IH projections_only_trans [OF projections_only_put(5)] by blast
  moreover have "get_projection B n k (drop_projection B i t name) = (if n = name \<and> k = i then None else get_projection B n k t)"
    using drop_projection_get [OF Cons.prems] by blast
  ultimately show ?case using IH by (cases "n = name \<and> k = i") auto
qed simp

lemma delete_item_spec:
  assumes "delete_item B i t = Inr t'" and "tx_ok ok t"
  shows "tx_ok ok t' \<and> projections_only t t' \<and> (\<exists>m. manifest_at B t i = Some m \<and> m_state m = state_closed)
    \<and> (\<forall>name k. get_projection B name k t' =
      (if (name = manifest_projection \<or> name \<in> set item_projections) \<and> k = i then None else get_projection B name k t))"
proof -
  define t1 where "t1 = (delete_projection B manifest_projection i t)\<lparr>tx_sources := b_delete B i (tx_sources (delete_projection B manifest_projection i t))\<rparr>"
  have t': "t' = foldl (drop_projection B i) t1 item_projections"
    and m: "\<exists>m. manifest_at B t i = Some m \<and> m_state m = state_closed"
    using assms(1) by (auto simp: delete_item_def t1_def Let_def split: option.splits if_split_asm)
  have "tx_ok ok (delete_projection B manifest_projection i t)" using assms(2) by simp
  then have ok1: "tx_ok ok t1" unfolding t1_def by (rule tx_ok_put(9))
  have g1: "get_projection B name k t1 = (if name = manifest_projection \<and> k = i then None else get_projection B name k t)" for name k
    using assms(2)
    by (cases "tx_projections t manifest_projection")
      (auto simp: t1_def delete_projection_def set_projection_def projection_bucket_def get_projection_def get_delete
        get_empty tx_ok_def ok_empty)
  have "projections_only t t1"
    unfolding t1_def by (rule projections_only_trans [OF projections_only_put(2) projections_only_put(6)])
  then have "projections_only t t'" using drop_projections_get [OF ok1, of i item_projections] projections_only_trans t' by blast
  then show ?thesis using drop_projections_get [OF ok1, of i item_projections] m by (auto simp: t' g1)
qed

lemma record_marker_frame:
  assumes "record_marker B i event at t = Inr t'" and "tx_ok ok t"
  shows "tx_ok ok t' \<and> projections_only t t'
    \<and> (name \<noteq> attention_projection \<longrightarrow> get_projection B name k t' = get_projection B name k t)"
proof -
  obtain a where "t' = put_attention B a t"
    using assms(1) by (auto simp: record_marker_def elim!: rbind_InrE split: prod.splits if_split_asm)
  then show ?thesis using assms(2) by (simp add: put_attention_def)
qed

lemma save_manifest_spec:
  assumes "save_manifest B enc url_clean i raw t = Inr t'" and "tx_ok ok t" and "items_ok B t"
  shows "tx_ok ok t' \<and> projections_only t t' \<and> (\<exists>m previous. manifest_at B t i = Some previous
      \<and> normalize_manifest url_clean raw = Inr m \<and> save_fence i previous m = Inr () \<and> m_id m = i
      \<and> m_blockers m = m_blockers previous
      \<and> (\<forall>j x. manifest_at B t j = Some x \<longrightarrow> j \<noteq> i \<longrightarrow> m_state x \<noteq> state_closed \<longrightarrow> m_slug x \<noteq> m_slug m)
      \<and> (\<forall>name k. get_projection B name k t' =
        (if name = manifest_projection \<and> k = i then Some (StManifest (persist_manifest m)) else get_projection B name k t)))"
proof -
  obtain m previous all where m: "normalize_manifest url_clean raw = Inr m" "manifest_at B t i = Some previous"
      "m_blockers previous = m_blockers m" "save_fence i previous m = Inr ()" "manifests_of B t = Inr all"
      "create_claims_ok m all" and t': "t' = put_manifest B enc m t"
    using assms(1) by (auto simp: save_manifest_def split: sum.splits option.splits if_split_asm elim!: rbind_InrE)
  have id: "m_id m = i" using m(4) by (simp add: save_fence_def split: if_split_asm)
  have slug: "m_slug x \<noteq> m_slug m" if "manifest_at B t j = Some x" "j \<noteq> i" "m_state x \<noteq> state_closed" for j x
  proof -
    have "m_id x = j" using items_ok_id [OF assms(3) that(1)] by blast
    moreover have "x \<in> set all"
      using manifests_of_items [OF assms(2,3)] m(5) that(1) \<open>m_id x = j\<close> by auto
    ultimately show ?thesis using m(6) that(2,3) id by (auto simp: create_claims_ok_def list_ex_iff)
  qed
  show ?thesis
    using assms(2) m id slug by (auto simp: t')
qed

lemma apply_store_mutation_spec:
  assumes "apply_store_mutation B enc url_clean cx c payload t = Inr (kind, compact, t')" and "tx_ok ok t" and "items_ok B t"
  shows "tx_ok ok t' \<and> projections_only t t' \<and> items_ok B t'
    \<and> mutated_items (manifest_at B t) (manifest_at B t') (so_item c) c"
proof -
  let ?i = "so_item c"
  have frame: "tx_ok ok t' \<and> projections_only t t' \<and> items_ok B t' \<and> mutated_items (manifest_at B t) (manifest_at B t') ?i c"
    if "so_operation c \<noteq> store_manifest_save" "so_operation c \<noteq> store_item_delete" "tx_ok ok t'" "projections_only t t'"
      "\<And>k. get_projection B manifest_projection k t' = get_projection B manifest_projection k t"
    using that manifest_at_cong [of t' t] assms(3) by (simp add: mutated_items_def)
  consider (save) m where "so_operation c = store_manifest_save" "save_manifest B enc url_clean ?i m t = Inr t'"
    | (append) e where "so_operation c = store_event_append" "append_event B ?i e t = Inr (kind, compact, t')"
    | (runtime) r where "so_operation c = store_runtime_save" "save_runtime B ?i r t = Inr t'"
    | (terminal) r where "so_operation c = store_terminal_save" "t' = put_projection B terminal_ownership_projection ?i (StTerminal r) t"
    | (remove) "so_operation c = store_terminal_remove" "t' = drop_projection B ?i t terminal_ownership_projection"
    | (del) "so_operation c = store_item_delete" "delete_item B ?i t = Inr t'"
    using assms(1) unfolding apply_store_mutation_def Let_def
    by (elim if_resultE rbind_InrE) (blast | simp | metis prod.inject sum.inject(2))+
  then show ?thesis
  proof cases
    case save
    from save_manifest_spec [OF save(2) assms(2,3)] obtain m previous where s: "tx_ok ok t'" "projections_only t t'"
      "manifest_at B t ?i = Some previous" "normalize_manifest url_clean m = normalize_manifest url_clean m"
      "m_id m = ?i" "m_blockers m = m_blockers previous" "manifest_ok m"
      "\<And>j x. manifest_at B t j = Some x \<Longrightarrow> j \<noteq> ?i \<Longrightarrow> m_state x \<noteq> state_closed \<Longrightarrow> m_slug x \<noteq> m_slug m"
      "\<And>name k. get_projection B name k t' =
        (if name = manifest_projection \<and> k = ?i then Some (StManifest (persist_manifest m)) else get_projection B name k t)"
      using normalized_manifest by blast
    have i: "?i \<noteq> []" using items_ok_id [OF assms(3) s(3)] by blast
    have "items_ok B t'" using assms(3) i s(5) by (auto simp: items_ok_def s(9))
    moreover have "manifest_at B t' = (manifest_at B t)(?i \<mapsto> persist_manifest m)"
      by (auto simp: manifest_at_def s(9) fun_eq_iff)
    moreover have "manifest_ok (persist_manifest m)" "m_blockers (persist_manifest m) = m_blockers m"
      using s(7) manifest_ok_persist by (simp_all add: persist_manifest_def)
    ultimately show ?thesis
      using s(1,2,3,5,6,8) save(1) unfolding mutated_items_def
      by (simp del: fun_upd_apply, intro exI [of _ "persist_manifest m"]) simp
  next
    case append
    then have "t' = t \<or> (\<exists>k a. record_marker B ?i k a t = Inr t')"
      by (auto simp: append_event_def Let_def split: if_split_asm elim!: rbind_InrE)
    then show ?thesis
      using append(1) assms(2) record_marker_frame by (intro frame) auto
  next
    case runtime
    then obtain r' where "t' = put_projection B runtime_ownership_projection ?i (StRuntime r') t"
      by (auto simp: save_runtime_def split: if_split_asm elim!: rbind_InrE)
    then show ?thesis using runtime(1) assms(2) by (intro frame) simp_all
  next
    case terminal
    then show ?thesis using assms(2) by (intro frame) simp_all
  next
    case remove
    then show ?thesis using drop_projection_get [OF assms(2)] by (intro frame) simp_all
  next
    case del
    note d = delete_item_spec [OF del(2) assms(2)]
    have g: "get_projection B manifest_projection k t' = (if k = ?i then None else get_projection B manifest_projection k t)" for k
      using d by (auto simp: item_projections_def)
    have "manifest_at B t' = (manifest_at B t)(?i := None)" by (auto simp: manifest_at_def g fun_eq_iff)
    moreover have "items_ok B t'" using assms(3) by (auto simp: items_ok_def g)
    ultimately show ?thesis using d del(1) by (simp add: mutated_items_def)
  qed
qed

lemma store_writes_spec:
  assumes "(r, t') = store_writes B cx now c payload rv kind compact t" and "log_rep B ok t L" and "tx_ok ok t"
    and "Suc (length L) < 2 ^ 64" and "so_item c \<noteq> []" and "rv = of_nat (item_count L (so_item c))"
  shows "log_rep B ok t' (L @ [sr_event r]) \<and> tx_ok ok t'
    \<and> (\<forall>n k. get_projection B n k t' = get_projection B n k t)
    \<and> (\<forall>j. outcome_of B j t' = (if j = so_id c then Some (StOutcome (OutStore c r)) else outcome_of B j t))
    \<and> de_id (sr_event r) = domain_event_id (so_id c) 0 \<and> de_item (sr_event r) = so_item c \<and> de_type (sr_event r) = kind
    \<and> sr_revision r = rv + 1 \<and> de_revision (sr_event r) = rv + 1 \<and> \<not> sr_duplicate r"
proof -
  let ?n = "global_sequence B t + 1"
  define e where "e = \<lparr>de_sequence = ?n, de_id = domain_event_id (so_id c) 0, de_item = so_item c, de_revision = rv + 1,
            de_type = kind, de_time = event_time cx c payload, de_actor = ''wi'', de_causation = so_id c, de_payload = compact\<rparr>"
  define t0 where "t0 = put_sequence B ?n (put_revision B (so_item c) (rv + 1) (put_event B e t))"
  define t1 where "t1 = (if requires_native_write (so_operation c)
               then put_pending B \<lparr>nw_command = so_id c, nw_sequence = ?n, nw_operation = so_operation c,
                 nw_manifest = zero_manifest\<lparr>m_id := so_item c\<rparr>, nw_digest = [], nw_previous_digest = []\<rparr> t0 else t0)"
  have r: "r = \<lparr>sr_command = so_id c, sr_revision = rv + 1, sr_event = e, sr_duplicate = False, sr_committed_at = now\<rparr>"
    and t': "t' = put_outcome B (so_id c) (OutStore c r) t1"
    using assms(1) by (simp_all add: store_writes_def Let_def t0_def t1_def e_def)
  have ev: "de_item e = so_item c" "de_sequence e = ?n" "de_revision e = rv + 1" by (simp_all add: e_def)
  have "log_rep B ok t0 (L @ [e])"
    by (rule append_one_event [OF assms(2,4)])
      (simp_all add: ev assms(5,6) t0_def put_event_def put_sequence_def put_revision_def add.commute)
  moreover have "tx_ok ok t0" using assms(3) by (simp add: t0_def)
  ultimately have t1: "log_rep B ok t1 (L @ [e])" "tx_ok ok t1" by (simp_all add: t1_def)
  have "get_projection B n k t1 = get_projection B n k t" for n k by (simp add: t1_def t0_def)
  moreover have "tx_outcomes t1 = tx_outcomes t" by (simp add: t1_def t0_def)
  then have "outcome_of B j t1 = outcome_of B j t" for j by (simp add: outcome_of_def)
  ultimately show ?thesis unfolding t' using t1 by (simp add: outcome_of_put r) (simp add: e_def)
qed

end

section \<open>Properties\<close>

definition store_stamped :: "instant \<Rightarrow> store_command \<Rightarrow> store_command" where
  "store_stamped now c = (if is_zero_time (so_created_at c) then c\<lparr>so_created_at := now\<rparr> else c)"

lemma store_stamped_fields [simp]:
  "so_id (store_stamped now c) = so_id c" "so_item (store_stamped now c) = so_item c"
  "so_operation (store_stamped now c) = so_operation c" "so_expected (store_stamped now c) = so_expected c"
  by (simp_all add: store_stamped_def)

text \<open>C6: a store command that commits appends one event of its item at the item's next revision and changes at
  most that item: a save replaces it within the fences (same blockers, unused slug), a delete removes a
  closed item, the other operations leave items alone. The invariant of the database is kept as long as
  a save does not close an item that still has blockers.\<close>

theorem execute_store_refines:
  assumes "bucket_store B ok" and "store_inv B ok (db_tx d) L" and "Suc (length L) < 2 ^ 64"
    and "execute_store_command B enc url_clean cx now c payload d = Inr (r, d')"
    and "outcome_of B (so_id c) (db_tx d) = None" and "domain_event_id (so_id c) 0 \<notin> de_id ` set L"
    and "\<forall>m. manifest_at B (db_tx d') (so_item c) = Some m \<longrightarrow> m_state m = state_closed \<longrightarrow> m_blockers m = []"
  shows "store_inv B ok (db_tx d') (L @ [sr_event r]) \<and> de_item (sr_event r) = so_item c
    \<and> so_expected c = Some (item_revision B (db_tx d) (so_item c))
    \<and> sr_revision r = of_nat (item_count (L @ [sr_event r]) (so_item c))
    \<and> mutated_items (manifest_at B (db_tx d)) (manifest_at B (db_tx d')) (so_item c) c"
proof -
  note es = event_store_bucket [OF assms(1)]
  let ?c = "store_stamped now c" and ?t = "db_tx d" and ?i = "so_item c"
  obtain t' where tx: "store_tx B enc url_clean cx now ?c payload ?t = Inr (r, t')" and d': "db_tx d' = t'"
    and valid: "valid_id ?i"
    using assms(4) unfolding execute_store_command_def store_stamped_def Let_def
    by (auto split: if_split_asm elim!: rbind_InrE)
  have inv: "log_rep B ok ?t L" "tx_ok ok ?t" "items_ok B ?t" "items_inv (manifest_at B ?t)" "distinct (List.map de_id L)"
    using assms(2) by (simp_all add: store_inv_def)
  have i: "?i \<noteq> []" using valid by (auto simp: valid_id_def)
  obtain kind compact t1 where ex: "so_expected c = Some (item_revision B ?t ?i)"
    and mu: "apply_store_mutation B enc url_clean cx ?c payload ?t = Inr (kind, compact, t1)"
    and w: "(r, t') = store_writes B cx now ?c payload (item_revision B ?t ?i) kind compact t1"
    using tx assms(5) by (auto simp: store_tx_def Let_def split: if_split_asm elim!: rbind_InrE)
  note m = event_store.apply_store_mutation_spec [OF es mu inv(2,3), unfolded store_stamped_fields]
  have ms: "mutated_items (manifest_at B ?t) (manifest_at B t1) ?i c"
    using m by (simp add: mutated_items_def)
  have log1: "log_rep B ok t1 L" using m inv(1) projections_only_log by blast
  have rv: "item_revision B ?t ?i = of_nat (item_count L (so_item ?c))"
    using inv(1) i by (simp add: log_rep_def rev_rep_def)
  have ok1: "tx_ok ok t1" using m by blast
  have ci: "so_item ?c \<noteq> []" using i by simp
  note s = event_store.store_writes_spec [OF es w log1 ok1 assms(3) ci rv, unfolded store_stamped_fields]
  have at: "manifest_at B t' = manifest_at B t1" "items_ok B t' = items_ok B t1"
    using event_store.manifest_at_cong [OF es, of t' t1] s by simp_all
  have "items_inv (manifest_at B t')"
    using mutated_keeps_inv [OF ms inv(4)] assms(7) unfolding d' at(1) by blast
  moreover have "distinct (List.map de_id (L @ [sr_event r]))" using s inv(5) assms(6) by simp
  moreover have "items_ok B t'" using at m by blast
  ultimately have "store_inv B ok t' (L @ [sr_event r])" using s unfolding store_inv_def by blast
  moreover have "sr_revision r = of_nat (item_count (L @ [sr_event r]) ?i)"
    using s rv by (simp add: add.commute)
  ultimately show ?thesis using s ex ms at d' by simp
qed

text \<open>C7: an agent runtime saved for an item is fenced: under a new identity its generation is larger than the
  current owner's (or the save is refused when generations are exhausted), and under the same identity
  it cannot change the generation, roll readiness back or overwrite the driver's settings.\<close>

theorem saved_runtime_fenced:
  assumes "bucket_store B ok" and "tx_ok ok t" and "save_runtime B i r t = Inr t'"
    and "get_projection B runtime_ownership_projection i t = Some (StRuntime current)"
  shows "\<exists>r'. get_projection B runtime_ownership_projection i t' = Some (StRuntime r') \<and> ar_id r' = ar_id r \<and> ar_item r' = i
    \<and> (if ar_id r = ar_id current then (ar_generation current \<noteq> 0 \<longrightarrow> ar_generation r' = ar_generation current)
         \<and> ar_settings r' = ar_settings current
         \<and> (\<forall>a. ar_readiness_at current = Some a \<longrightarrow> (\<exists>b. ar_readiness_at r' = Some b \<and> a \<le> b
              \<and> (b = a \<longrightarrow> ar_readiness r' = ar_readiness current)))
       else ar_generation current < ar_generation r')"
proof -
  obtain b where b: "tx_projections t runtime_ownership_projection = Some b" "b_get B b i = Some (StRuntime current)"
    using assms(4) by (auto simp: get_projection_def split: option.splits)
  then obtain r' where own: "own_runtime current r = Inr r'" and i: "ar_item r = i"
    and t': "t' = put_projection B runtime_ownership_projection i (StRuntime r') t"
    using assms(3) by (auto simp: save_runtime_def split: if_split_asm elim!: rbind_InrE)
  have "get_projection B runtime_ownership_projection i t' = Some (StRuntime r')"
    using event_store.get_put_projection [OF event_store_bucket [OF assms(1)] assms(2)] by (simp add: t')
  then show ?thesis using own_runtime_spec [OF own] i by auto
qed

section \<open>Concrete store commands\<close>

definition sample_codec :: payload_codec where
  "sample_codec = \<lparr>cx_manifest = (\<lambda>_. None), cx_event = (\<lambda>_. Some (''note'', 7)), cx_runtime = (\<lambda>_. None),
     cx_terminal = (\<lambda>_. None)\<rparr>"

definition note_command :: store_command where
  "note_command = \<lparr>so_id = ''c1'', so_protocol = 3, so_operation = ''event.append'', so_item = m_id this_item,
     so_expected = Some 0, so_digest = hex_digest 32 ''{}'', so_created_at = 5\<rparr>"

lemma note_runs: "\<exists>r d'. execute_store_command list_bolt (\<lambda>_. []) (\<lambda>_. None) sample_codec 9 note_command ''{}'' start_db = Inr (r, d')
    \<and> manifest_at list_bolt (db_tx d') = manifest_at list_bolt start_tx"
proof -
  have "item_revision list_bolt start_tx i = 0" for i
    by (simp add: item_revision_def start_tx_def put_projection_def set_projection_def new_tx_def get_u64_def kv_get_def)
  moreover have "compact_identifier ''note'' 128 = ''note''" by (rule compact_identifier_printable) simp_all
  ultimately have "\<exists>r t'. store_tx list_bolt (\<lambda>_. []) (\<lambda>_. None) sample_codec 9 note_command ''{}'' start_tx = Inr (r, t')
      \<and> manifest_at list_bolt t' = manifest_at list_bolt start_tx"
    by (simp add: store_tx_def note_command_def start_outcome start_tx_get apply_store_mutation_def sample_codec_def
        of_payload_def append_event_def store_writes_def requires_native_write_def Let_def
        manifest_at_def fun_eq_iff del: list_bolt_simps)
  then show ?thesis
    by (auto simp: execute_store_command_def note_command_def start_valid start_db_def is_zero_time_def zero_time_def)
qed

theorem execute_store_refines_witness:
  "\<exists>r d'. execute_store_command list_bolt (\<lambda>_. []) (\<lambda>_. None) sample_codec 9 note_command ''{}'' start_db = Inr (r, d')
     \<and> store_inv list_bolt kv_ok (db_tx d') [sr_event r]"
proof -
  obtain r d' where run: "execute_store_command list_bolt (\<lambda>_. []) (\<lambda>_. None) sample_codec 9 note_command ''{}'' start_db = Inr (r, d')"
    and at: "manifest_at list_bolt (db_tx d') = manifest_at list_bolt start_tx" using note_runs by blast
  have "\<forall>m. manifest_at list_bolt (db_tx d') (so_item note_command) = Some m \<longrightarrow> m_state m = state_closed \<longrightarrow> m_blockers m = []"
    by (auto simp: at start_manifest_at note_command_def deep_item_fields)
  then show ?thesis
    using execute_store_refines [OF list_store.bucket_store_axioms _ _ run, of "[]"] run
    by (simp add: start_db_def start_inv start_outcome)
qed

theorem saved_runtime_fenced_witness:
  "\<exists>t'. save_runtime list_bolt ''x'' (zero_runtime\<lparr>ar_id := ''b'', ar_item := ''x''\<rparr>)
       (put_projection list_bolt runtime_ownership_projection ''x'' (StRuntime (zero_runtime\<lparr>ar_id := ''a'', ar_generation := 7\<rparr>)) list_tx) = Inr t'
     \<and> (\<exists>r'. get_projection list_bolt runtime_ownership_projection ''x'' t' = Some (StRuntime r') \<and> 7 < ar_generation r')"
proof -
  let ?t = "put_projection list_bolt runtime_ownership_projection ''x'' (StRuntime (zero_runtime\<lparr>ar_id := ''a'', ar_generation := 7\<rparr>)) list_tx"
  have ok: "tx_ok kv_ok ?t" using list_events.tx_ok_put(4) [OF list_tx_ok] .
  have get: "get_projection list_bolt runtime_ownership_projection ''x'' ?t = Some (StRuntime (zero_runtime\<lparr>ar_id := ''a'', ar_generation := 7\<rparr>))"
    using list_events.get_put_projection [OF list_tx_ok] by simp
  have "\<exists>t'. save_runtime list_bolt ''x'' (zero_runtime\<lparr>ar_id := ''b'', ar_item := ''x''\<rparr>) ?t = Inr t'"
    by (simp add: save_runtime_def put_projection_def set_projection_def projection_bucket_def new_tx_def kv_get_def
        own_runtime_def zero_runtime_def Let_def)
  then obtain t' where run: "save_runtime list_bolt ''x'' (zero_runtime\<lparr>ar_id := ''b'', ar_item := ''x''\<rparr>) ?t = Inr t'" by blast
  from saved_runtime_fenced [OF list_store.bucket_store_axioms ok run get] run show ?thesis
    by (auto simp: zero_runtime_def)
qed

end
