(* ===== verification/Options.thy ===== *)
theory Options
  imports KeyValue Repositories
begin

text \<open>
  Plug-in options (\<open>internal/options/registry.go\<close>, \<open>repository.go\<close>): the registry of option
  definitions, the validation of a value, the settings of a repository on top of the global ones, and
  the redaction of what may be secret. A Go map is its list of entries in the order of its keys; where
  the code walks a map, Go's order is arbitrary, and which of several errors is reported first is the
  only thing the order decides. JSON decoding (\<open>encoding/json\<close>) is a parameter; a number stays the text it was
  (\<open>UseNumber\<close>).
\<close>

section \<open>Values and options\<close>

datatype setting_value =
    VNull
  | VBool bool
  | VInt int
  | VNumber string
  | VStr string
  | VStrs "string list"
  | VList "setting_value list"
  | VMap "(string \<times> setting_value) list"

record option_def =
  op_name :: string
  op_type :: string
  op_default :: "setting_value"
  op_repository :: bool
  op_secret :: bool
  op_choices :: "string list"
  op_min :: "int option"
  op_max :: "int option"

record plugin_def =
  pd_name :: string
  pd_options :: "option_def list"

type_synonym option_registry = "(string \<times> plugin_def) list"

type_synonym settings = "(string \<times> (string \<times> setting_value) list) list"

type_synonym raw_settings = "(string \<times> (string \<times> string) list) list"

datatype option_error =
    BadPlugin string
  | DuplicatePlugin string
  | BadOption string string
  | Expected string
  | OutsideBounds
  | NotAChoice
  | BadSettingKey
  | GlobalOnly string string
  | Unregistered string string
  | BadJson
  | UnsupportedType
  | NotRegisteredPlugin string
  | UnknownOption string string

definition name_char :: "char \<Rightarrow> bool" where
  "name_char c \<longleftrightarrow> (let n = of_char c :: nat in 97 \<le> n \<and> n \<le> 122 \<or> 48 \<le> n \<and> n \<le> 57) \<or> c = CHR ''_'' \<or> c = CHR ''-''"

definition valid_name :: "string \<Rightarrow> bool" where
  "valid_name s \<longleftrightarrow> s \<noteq> [] \<and> list_all name_char s"

section \<open>Integers of JSON numbers\<close>

text \<open>\<open>strconv.ParseInt\<close> in base 10 at 64 bits.\<close>

definition is_digit :: "char \<Rightarrow> bool" where
  "is_digit c \<longleftrightarrow> (let n = of_char c :: nat in 48 \<le> n \<and> n \<le> 57)"

definition digits_value :: "string \<Rightarrow> nat" where
  "digits_value s = foldl (\<lambda>n c. 10 * n + (of_char c - 48)) 0 s"

definition parse_int64 :: "string \<Rightarrow> int option" where
  "parse_int64 s =
     (let (negative, ds) = (case s of [] \<Rightarrow> (False, []) | c # cs \<Rightarrow>
            if c = CHR ''-'' then (True, cs) else if c = CHR ''+'' then (False, cs) else (False, s));
          n = int (digits_value ds)
      in if ds = [] \<or> \<not> list_all is_digit ds then None
         else if negative then (if n \<le> 2 ^ 63 then Some (- n) else None)
         else if n < 2 ^ 63 then Some n else None)"

section \<open>Validation\<close>

definition int_of_value :: "setting_value \<Rightarrow> int option" where
  "int_of_value v = (case v of VInt n \<Rightarrow> Some n | VNumber s \<Rightarrow> parse_int64 s | _ \<Rightarrow> None)"

definition strings_value :: "setting_value \<Rightarrow> bool" where
  "strings_value v \<longleftrightarrow> (case v of VStrs _ \<Rightarrow> True | VList vs \<Rightarrow> list_all (\<lambda>x. case x of VStr _ \<Rightarrow> True | _ \<Rightarrow> False) vs | _ \<Rightarrow> False)"

definition has_type :: "string \<Rightarrow> setting_value \<Rightarrow> bool" where
  "has_type ty v \<longleftrightarrow>
     (if ty = ''string'' then (case v of VStr _ \<Rightarrow> True | _ \<Rightarrow> False)
      else if ty = ''bool'' then (case v of VBool _ \<Rightarrow> True | _ \<Rightarrow> False)
      else if ty = ''integer'' then int_of_value v \<noteq> None
      else if ty = ''strings'' then strings_value v
      else False)"

definition outside_bounds :: "option_def \<Rightarrow> setting_value \<Rightarrow> bool" where
  "outside_bounds d v \<longleftrightarrow> op_type d = ''integer'' \<and>
     (case int_of_value v of None \<Rightarrow> False
      | Some n \<Rightarrow> (case op_min d of None \<Rightarrow> False | Some m \<Rightarrow> n < m) \<or> (case op_max d of None \<Rightarrow> False | Some m \<Rightarrow> n > m))"

definition validate_value :: "option_def \<Rightarrow> setting_value \<Rightarrow> (option_error, unit) result" where
  "validate_value d v =
     (if \<not> has_type (op_type d) v then Inl (Expected (op_type d))
      else if outside_bounds d v then Inl OutsideBounds
      else if op_choices d \<noteq> [] \<and> \<not> list_ex (\<lambda>c. v = VStr c) (op_choices d) then Inl NotAChoice
      else Inr ())"

section \<open>The registry\<close>

fun check_options :: "string \<Rightarrow> string list \<Rightarrow> option_def list \<Rightarrow> (option_error, unit) result" where
  "check_options plugin seen [] = Inr ()"
| "check_options plugin seen (d # ds) =
     (if \<not> valid_name (op_name d) \<or> op_name d \<in> set seen then Inl (BadOption plugin (op_name d))
      else rbind (validate_value d (op_default d)) (\<lambda>_. check_options plugin (op_name d # seen) ds))"

fun register_plugins :: "plugin_def list \<Rightarrow> option_registry \<Rightarrow> (option_error, option_registry) result" where
  "register_plugins [] r = Inr r"
| "register_plugins (p # ps) r =
     (if \<not> valid_name (pd_name p) then Inl (BadPlugin (pd_name p))
      else if kv_get r (pd_name p) \<noteq> None then Inl (DuplicatePlugin (pd_name p))
      else rbind (check_options (pd_name p) [] (pd_options p)) (\<lambda>_. register_plugins ps (kv_put (pd_name p) p r)))"

definition new_registry :: "plugin_def list \<Rightarrow> (option_error, option_registry) result" where
  "new_registry ps = register_plugins ps []"

definition find_option :: "string \<Rightarrow> option_def list \<Rightarrow> option_def option" where
  "find_option key ds = find (\<lambda>d. op_name d = key) ds"

text \<open>\<open>SplitRepositoryKey\<close>: the namespace and the key of a setting path.\<close>

definition split_repository_key :: "string \<Rightarrow> (option_error, string \<times> string) result" where
  "split_repository_key path = (case split_char (CHR ''.'') path of
     [a, b, c] \<Rightarrow> if a = ''plugins'' \<and> valid_name b \<and> valid_name c \<and> length b \<le> 64 \<and> length c \<le> 64
       then Inr (a @ ''.'' @ b, c) else Inl BadSettingKey
   | _ \<Rightarrow> Inl BadSettingKey)"

definition trim_plugins :: "string \<Rightarrow> string" where
  "trim_plugins namespace = (if has_prefix namespace ''plugins.'' then drop 8 namespace else namespace)"

definition plugin_namespace :: "string \<Rightarrow> string" where
  "plugin_namespace name = ''plugins.'' @ name"

definition repository_option :: "option_registry \<Rightarrow> string \<Rightarrow> string \<Rightarrow> (option_error, option_def) result" where
  "repository_option r namespace key =
     rbind (split_repository_key (namespace @ ''.'' @ key)) (\<lambda>_.
       case kv_get r (trim_plugins namespace) of
         None \<Rightarrow> Inl (Unregistered namespace key)
       | Some p \<Rightarrow> (case find_option key (pd_options p) of
           None \<Rightarrow> Inl (Unregistered namespace key)
         | Some d \<Rightarrow> if \<not> op_repository d then Inl (GlobalOnly namespace key) else Inr d))"

definition validate_repository_setting :: "option_registry \<Rightarrow> string \<Rightarrow> string \<Rightarrow> setting_value \<Rightarrow> (option_error, unit) result" where
  "validate_repository_setting r namespace key v =
     rbind (repository_option r namespace key) (\<lambda>d. validate_value d v)"

fun check_values ::
  "string \<Rightarrow> option_def list \<Rightarrow> bool \<Rightarrow> (string \<times> setting_value) list \<Rightarrow> (option_error, unit) result" where
  "check_values name known repository [] = Inr ()"
| "check_values name known repository ((key, v) # rest) = (case find_option key known of
     None \<Rightarrow> Inl (UnknownOption name key)
   | Some d \<Rightarrow> if repository \<and> \<not> op_repository d then Inl (GlobalOnly name key)
       else rbind (validate_value d v) (\<lambda>_. check_values name known repository rest))"

fun validate_settings :: "option_registry \<Rightarrow> bool \<Rightarrow> settings \<Rightarrow> string list \<Rightarrow> (option_error, string list) result" where
  "validate_settings r repository [] warnings = Inr (sort_strings warnings)"
| "validate_settings r repository ((name, values) # rest) warnings = (case kv_get r name of
     None \<Rightarrow> if kv_get values ''load'' = Some (VBool True) \<or> kv_get values ''enabled'' = Some (VBool True)
       then Inl (NotRegisteredPlugin name) else validate_settings r repository rest (warnings @ [name])
   | Some p \<Rightarrow> rbind (check_values name (pd_options p) repository values) (\<lambda>_.
       validate_settings r repository rest warnings))"

definition parse_repository_value ::
  "(string \<Rightarrow> setting_value option) \<Rightarrow> option_registry \<Rightarrow> string \<Rightarrow> string \<Rightarrow> string \<Rightarrow> (option_error,  setting_value) result" where
  "parse_repository_value decode r namespace key text =
     rbind (repository_option r namespace key) (\<lambda>d.
     rbind (if op_type d = ''string'' then Inr (VStr text)
            else if op_type d = ''bool'' then
              (if text \<noteq> ''true'' \<and> text \<noteq> ''false'' then Inl (Expected ''bool'') else Inr (VBool (text = ''true'')))
            else if op_type d = ''integer'' then
              (case parse_int64 text of None \<Rightarrow> Inl (Expected ''integer'') | Some n \<Rightarrow> Inr (VInt n))
            else if op_type d = ''strings'' then
              (case decode text of None \<Rightarrow> Inl BadJson | Some v \<Rightarrow> Inr v)
            else Inl UnsupportedType) (\<lambda>v.
     rbind (validate_value d v) (\<lambda>_. Inr v)))"

section \<open>Resolving and redacting\<close>

text \<open>Assigning every entry of a map to another one, key by key.\<close>

definition put_all :: "(string \<times> 'a) list \<Rightarrow> (string \<times> 'a) list \<Rightarrow> (string \<times> 'a) list" where
  "put_all entries m = foldl (\<lambda>m (k, v). kv_put k v m) m entries"

definition entries_of :: "'a list option \<Rightarrow> 'a list" where
  "entries_of m = (case m of None \<Rightarrow> [] | Some xs \<Rightarrow> xs)"

definition default_values :: "option_registry \<Rightarrow> settings" where
  "default_values r = foldl (\<lambda>m (_, p). kv_put (pd_name p)
     (put_all (List.map (\<lambda>d. (op_name d, op_default d)) (pd_options p)) []) m) [] r"

definition overlay :: "settings \<Rightarrow> settings \<Rightarrow> settings" where
  "overlay source result = foldl (\<lambda>m (name, values). kv_put name (put_all values (entries_of (kv_get m name))) m) result source"

definition resolve :: "option_registry \<Rightarrow> settings \<Rightarrow> settings \<Rightarrow> settings" where
  "resolve r global repo = overlay repo (overlay global (default_values r))"

fun decode_entries ::
  "(string \<Rightarrow> setting_value option) \<Rightarrow> option_registry \<Rightarrow> string \<Rightarrow> (string \<times> string) list \<Rightarrow> (option_error, (string \<times> setting_value) list) result" where
  "decode_entries decode r namespace [] = Inr []"
| "decode_entries decode r namespace ((key, raw) # rest) = (case decode raw of
     None \<Rightarrow> Inl BadJson
   | Some v \<Rightarrow> rbind (validate_repository_setting r namespace key v) (\<lambda>_.
       rbind (decode_entries decode r namespace rest) (\<lambda>vs. Inr ((key, v) # vs))))"

fun repository_overrides ::
  "(string \<Rightarrow> setting_value option) \<Rightarrow> option_registry \<Rightarrow> raw_settings \<Rightarrow> settings \<times> string list
   \<Rightarrow> (option_error, settings \<times> string list) result" where
  "repository_overrides decode r [] st = Inr st"
| "repository_overrides decode r ((namespace, entries) # rest) (overrides, warnings) =
     (let name = trim_plugins namespace
      in if kv_get r name = None \<or> namespace \<noteq> plugin_namespace name
         then repository_overrides decode r rest (overrides, warnings @ [namespace])
         else rbind (decode_entries decode r namespace entries) (\<lambda>vs.
           repository_overrides decode r rest (kv_put name (put_all vs []) overrides, warnings)))"

definition resolve_repository ::
  "(string \<Rightarrow> setting_value option) \<Rightarrow> option_registry \<Rightarrow> settings \<Rightarrow> raw_settings \<Rightarrow> (option_error, settings \<times> string list) result" where
  "resolve_repository decode r global stored =
     rbind (repository_overrides decode r stored ([], [])) (\<lambda>(overrides, warnings).
       Inr (resolve r global overrides, sort_strings warnings))"

abbreviation redacted :: string where "redacted \<equiv> ''[redacted]''"

text \<open>\<open>RedactRepository\<close>: the stored text of a setting is shown only if its option is registered for
  repositories and is not secret. The redacted text is a JSON string.\<close>

definition redact_entry :: "option_registry \<Rightarrow> string \<Rightarrow> string \<times> string \<Rightarrow> string \<times> string" where
  "redact_entry r namespace e = (fst e, case repository_option r namespace (fst e) of
     Inl _ \<Rightarrow> [CHR 0x22] @ redacted @ [CHR 0x22]
   | Inr d \<Rightarrow> if op_secret d then [CHR 0x22] @ redacted @ [CHR 0x22] else snd e)"

definition redact_repository :: "option_registry \<Rightarrow> raw_settings \<Rightarrow> raw_settings" where
  "redact_repository r stored = List.map (\<lambda>p. (fst p, List.map (redact_entry r (fst p)) (snd p))) stored"

text \<open>\<open>Redact\<close>: the same for decoded settings, where global options are shown as well.\<close>

definition redact :: "option_registry \<Rightarrow> (string \<times> setting_value) list \<Rightarrow> (string \<times> setting_value) list" where
  "redact r settings = List.map (\<lambda>(name, raw). (name, case raw of
     VMap values \<Rightarrow> (let known = (case kv_get r name of None \<Rightarrow> [] | Some p \<Rightarrow> pd_options p)
       in VMap (List.map (\<lambda>(key, v). (key, case find_option key known of
            None \<Rightarrow> VStr redacted | Some d \<Rightarrow> if op_secret d then VStr redacted else v)) values))
   | _ \<Rightarrow> raw)) settings"

section \<open>Looking up a setting\<close>

lemma kv_get_simps [simp]:
  "kv_get [] k = None"
  "kv_get (e # es) k = (if fst e = k then Some (snd e) else kv_get es k)"
  by (simp_all add: kv_get_def)

lemma kv_get_absent: "k \<notin> fst ` set es \<Longrightarrow> kv_get es k = None"
  by (simp add: kv_get_def map_of_eq_None_iff)

definition setting :: "settings \<Rightarrow> string \<Rightarrow> string \<Rightarrow> setting_value option" where
  "setting s name key = (case kv_get s name of None \<Rightarrow> None | Some vs \<Rightarrow> kv_get vs key)"

definition settings_ok :: "settings \<Rightarrow> bool" where
  "settings_ok s \<longleftrightarrow> kv_ok s \<and> (\<forall>p\<in>set s. kv_ok (snd p))"

lemma settings_ok_Nil [simp]: "settings_ok []"
  by (simp add: settings_ok_def)

lemma settings_ok_get: "settings_ok s \<Longrightarrow> kv_get s name = Some vs \<Longrightarrow> kv_ok vs"
  by (fastforce simp: settings_ok_def kv_get_iff)

lemma settings_ok_put: "settings_ok s \<Longrightarrow> kv_ok vs \<Longrightarrow> settings_ok (kv_put name vs s)"
  by (auto simp: settings_ok_def set_kv_put)

lemma setting_put: "settings_ok s \<Longrightarrow> setting (kv_put name vs s) n k = (if n = name then kv_get vs k else setting s n k)"
  by (simp add: setting_def settings_ok_def kv_get_put)

lemma put_all_simps [simp]:
  "put_all [] m = m"
  "put_all ((k, v) # es) m = put_all es (kv_put k v m)"
  by (simp_all add: put_all_def)

lemma kv_ok_put_all: "kv_ok m \<Longrightarrow> kv_ok (put_all es m)"
  by (induction es arbitrary: m) auto

lemma kv_get_put_all:
  "kv_ok m \<Longrightarrow> distinct (List.map fst es) \<Longrightarrow>
   kv_get (put_all es m) k = (case kv_get es k of None \<Rightarrow> kv_get m k | Some v \<Rightarrow> Some v)"
proof (induction es arbitrary: m)
  case (Cons e es)
  have "kv_get es (fst e) = None" using Cons.prems(2) by (simp add: kv_get_absent)
  then show ?case
    using Cons by (cases e) (auto simp: kv_get_put split: option.splits)
qed simp

lemma kv_ok_entries_of: "settings_ok s \<Longrightarrow> kv_ok (entries_of (kv_get s name))"
  by (auto simp: entries_of_def settings_ok_get split: option.splits)

lemma overlay_simps [simp]:
  "overlay [] s = s"
  "overlay ((name, vs) # rest) s = overlay rest (kv_put name (put_all vs (entries_of (kv_get s name))) s)"
  by (simp_all add: overlay_def)

text \<open>An overlay replaces exactly the values the source has.\<close>

lemma setting_overlay:
  assumes "settings_ok s" and "distinct (List.map fst source)" and "\<forall>p\<in>set source. distinct (List.map fst (snd p))"
  shows "settings_ok (overlay source s) \<and> setting (overlay source s) n k
    = (case setting source n k of None \<Rightarrow> setting s n k | Some v \<Rightarrow> Some v)"
  using assms
proof (induction source arbitrary: s)
  case Nil
  then show ?case by (simp add: setting_def)
next
  case (Cons p source)
  obtain name vs where p: "p = (name, vs)" by (cases p)
  let ?s = "kv_put name (put_all vs (entries_of (kv_get s name))) s"
  have ok: "settings_ok ?s" using Cons.prems(1) by (intro settings_ok_put kv_ok_put_all kv_ok_entries_of)
  have put: "setting ?s n k = (if n = name then kv_get (put_all vs (entries_of (kv_get s name))) k else setting s n k)"
    using setting_put Cons.prems(1) by blast
  have new: "kv_get (put_all vs (entries_of (kv_get s name))) k
      = (case kv_get vs k of None \<Rightarrow> setting s name k | Some v \<Rightarrow> Some v)"
    using kv_get_put_all [OF kv_ok_entries_of] Cons.prems by (simp add: p setting_def entries_of_def split: option.splits)
  have "kv_get source name = None" using Cons.prems(2) by (simp add: p kv_get_absent)
  then have none: "setting source name k = None" by (simp add: setting_def)
  have old: "setting (p # source) n k = (if n = name then kv_get vs k else setting source n k)"
    by (simp add: p setting_def)
  have IH: "settings_ok (overlay source ?s)"
    "setting (overlay source ?s) n k = (case setting source n k of None \<Rightarrow> setting ?s n k | Some v \<Rightarrow> Some v)"
    using Cons.IH [OF ok] Cons.prems(2,3) by auto
  show ?case
    unfolding p overlay_simps using IH none put new old by (cases "n = name") (simp_all add: p split: option.splits)
qed

section \<open>The registry\<close>

definition registry_ok :: "option_registry \<Rightarrow> bool" where
  "registry_ok r \<longleftrightarrow> kv_ok r \<and> (\<forall>(name, p)\<in>set r. pd_name p = name \<and> distinct (List.map op_name (pd_options p))
     \<and> (\<forall>d\<in>set (pd_options p). validate_value d (op_default d) = Inr ()))"

lemma check_options_ok:
  "check_options plugin seen ds = Inr () \<Longrightarrow>
   distinct (List.map op_name ds) \<and> set seen \<inter> op_name ` set ds = {} \<and> (\<forall>d\<in>set ds. validate_value d (op_default d) = Inr ())"
proof (induction ds arbitrary: seen)
  case (Cons d ds)
  then have "check_options plugin (op_name d # seen) ds = Inr ()" "op_name d \<notin> set seen" "validate_value d (op_default d) = Inr ()"
    by (auto split: if_split_asm elim!: rbind_InrE)
  then show ?case using Cons.IH [of "op_name d # seen"] by auto
qed simp

lemma registry_ok_put:
  assumes "registry_ok r" and "check_options (pd_name p) [] (pd_options p) = Inr ()"
  shows "registry_ok (kv_put (pd_name p) p r)"
  using assms check_options_ok [OF assms(2)] by (auto simp: registry_ok_def set_kv_put)

lemma register_plugins_ok: "register_plugins ps r = Inr r' \<Longrightarrow> registry_ok r \<Longrightarrow> registry_ok r'"
proof (induction ps arbitrary: r)
  case (Cons p ps)
  then obtain u where "check_options (pd_name p) [] (pd_options p) = Inr u"
    and next_step: "register_plugins ps (kv_put (pd_name p) p r) = Inr r'"
    by (auto split: if_split_asm elim!: rbind_InrE)
  then show ?case using Cons.IH [OF next_step] registry_ok_put Cons.prems(2) by simp
qed simp

lemma new_registry_ok: "new_registry ps = Inr r \<Longrightarrow> registry_ok r"
  using register_plugins_ok [of ps "[]" r] by (simp add: new_registry_def registry_ok_def)

definition registered :: "option_registry \<Rightarrow> string \<Rightarrow> string \<Rightarrow> option_def option" where
  "registered r name key = (case kv_get r name of None \<Rightarrow> None | Some p \<Rightarrow> find_option key (pd_options p))"

lemma find_option_Some: "find_option key ds = Some d \<Longrightarrow> d \<in> set ds \<and> op_name d = key"
  by (auto simp: find_option_def find_Some_iff)

lemma kv_get_defaults:
  "distinct (List.map op_name ds) \<Longrightarrow> kv_get (put_all (List.map (\<lambda>d. (op_name d, op_default d)) ds) []) k
     = map_option op_default (find_option k ds)"
proof -
  assume "distinct (List.map op_name ds)"
  then have "kv_get (put_all (List.map (\<lambda>d. (op_name d, op_default d)) ds) []) k = kv_get (List.map (\<lambda>d. (op_name d, op_default d)) ds) k"
    by (subst kv_get_put_all) (simp_all add: comp_def split: option.splits)
  also have "\<dots> = map_option op_default (find_option k ds)"
    by (induction ds) (auto simp: find_option_def)
  finally show ?thesis .
qed

lemma setting_defaults:
  assumes "registry_ok r"
  shows "settings_ok (default_values r) \<and> setting (default_values r) n k = map_option op_default (registered r n k)"
proof -
  let ?f = "\<lambda>m (uu, p). kv_put (pd_name p) (put_all (List.map (\<lambda>d. (op_name d, op_default d)) (pd_options p)) []) m"
  have step: "settings_ok (foldl ?f m xs) \<and> setting (foldl ?f m xs) n k
      = (case kv_get xs n of None \<Rightarrow> setting m n k | Some p \<Rightarrow> map_option op_default (find_option k (pd_options p)))"
    if "settings_ok m" "kv_ok xs" "\<forall>(name, p)\<in>set xs. pd_name p = name \<and> distinct (List.map op_name (pd_options p))" for m xs
    using that
  proof (induction xs arbitrary: m)
    case (Cons x xs)
    obtain name p where x: "x = (name, p)" "pd_name p = name" "distinct (List.map op_name (pd_options p))"
      using Cons.prems(3) by (cases x) auto
    have later: "kv_get xs name = None" using Cons.prems(2) by (intro kv_get_absent) (force simp: x)
    have "settings_ok (?f m x)" using Cons.prems(1) by (simp add: x(1) settings_ok_put kv_ok_put_all)
    note IH = Cons.IH [OF this]
    have "setting (?f m x) n k = (if n = name then map_option op_default (find_option k (pd_options p)) else setting m n k)"
      by (simp add: x setting_put [OF Cons.prems(1)] kv_get_defaults)
    then show ?case
      using IH Cons.prems(2,3) later by (auto simp: x split: option.splits)
  qed simp
  have "kv_ok r" "\<forall>(name, p)\<in>set r. pd_name p = name \<and> distinct (List.map op_name (pd_options p))"
    using assms unfolding registry_ok_def by blast+
  from step [OF settings_ok_Nil this] show ?thesis
    by (simp add: default_values_def registered_def setting_def split: option.splits)
qed

section \<open>Stored settings\<close>

lemma decode_entries_lookup:
  "decode_entries decode r namespace es = Inr vs \<Longrightarrow>
   List.map fst vs = List.map fst es
   \<and> kv_get vs k = (case kv_get es k of None \<Rightarrow> None | Some raw \<Rightarrow> decode raw)
   \<and> (\<forall>raw. kv_get es k = Some raw \<longrightarrow> (\<exists>v. decode raw = Some v \<and> validate_repository_setting r namespace k v = Inr ()))"
  by (induction es arbitrary: vs) (auto split: option.splits if_split_asm elim!: rbind_InrE)

definition raw_setting :: "raw_settings \<Rightarrow> string \<Rightarrow> string \<Rightarrow> string option" where
  "raw_setting stored namespace key = (case kv_get stored namespace of None \<Rightarrow> None | Some es \<Rightarrow> kv_get es key)"

definition active_namespace :: "option_registry \<Rightarrow> string \<Rightarrow> bool" where
  "active_namespace r namespace \<longleftrightarrow> (\<exists>name. namespace = plugin_namespace name \<and> kv_get r name \<noteq> None)"

lemma trim_plugins_append [simp]: "trim_plugins (plugin_namespace name) = name"
  by (simp add: plugin_namespace_def trim_plugins_def has_prefix_def)

lemma active_namespace_iff:
  "active_namespace r namespace \<longleftrightarrow> kv_get r (trim_plugins namespace) \<noteq> None \<and> namespace = plugin_namespace (trim_plugins namespace)"
  unfolding active_namespace_def by (metis trim_plugins_append)

text \<open>The overrides of the namespaces that the registry knows: every stored text decodes to a value its
  option accepts. The other namespaces are reported.\<close>

lemma repository_overrides_lookup:
  assumes "repository_overrides decode r stored (over, warnings) = Inr (over', warnings')" and "settings_ok over"
    and "distinct (List.map fst stored)" and "\<forall>p\<in>set stored. distinct (List.map fst (snd p))"
  shows "settings_ok over' \<and> warnings' = warnings @ filter (\<lambda>ns. \<not> active_namespace r ns) (List.map fst stored)
    \<and> setting over' n k = (if active_namespace r (plugin_namespace n) \<and> kv_get stored (plugin_namespace n) \<noteq> None
        then (case raw_setting stored (plugin_namespace n) k of None \<Rightarrow> None | Some raw \<Rightarrow> decode raw) else setting over n k)
    \<and> (active_namespace r (plugin_namespace n) \<longrightarrow> (\<forall>raw. raw_setting stored (plugin_namespace n) k = Some raw \<longrightarrow>
        (\<exists>v. decode raw = Some v \<and> validate_repository_setting r (plugin_namespace n) k v = Inr ())))"
  using assms
proof (induction stored arbitrary: over warnings)
  case Nil
  then show ?case by (simp add: raw_setting_def)
next
  case (Cons p stored)
  obtain namespace es where p: "p = (namespace, es)" by (cases p)
  let ?n = "plugin_namespace n"
  have rest: "distinct (List.map fst stored)" "\<forall>p\<in>set stored. distinct (List.map fst (snd p))" "kv_get stored namespace = None"
    using Cons.prems(3,4) by (auto simp: p kv_get_absent)
  have raw: "raw_setting (p # stored) ?n k = (if namespace = ?n then kv_get es k else raw_setting stored ?n k)"
    "kv_get (p # stored) ?n = (if namespace = ?n then Some es else kv_get stored ?n)"
    by (simp_all add: raw_setting_def p)
  show ?case
  proof (cases "active_namespace r namespace")
    case False
    then have "repository_overrides decode r stored (over, warnings @ [namespace]) = Inr (over', warnings')"
      using Cons.prems(1) by (simp add: p active_namespace_iff Let_def split: if_split_asm)
    note IH = Cons.IH [OF this Cons.prems(2) rest(1,2)]
    show ?thesis
      using IH False rest(3) unfolding raw by (cases "namespace = ?n") (auto simp: p raw_setting_def)
  next
    case True
    then have ns: "namespace = plugin_namespace (trim_plugins namespace)" and known: "kv_get r (trim_plugins namespace) \<noteq> None"
      by (simp_all add: active_namespace_iff)
    let ?name = "trim_plugins namespace"
    obtain vs where dec: "decode_entries decode r namespace es = Inr vs"
      and step: "repository_overrides decode r stored (kv_put ?name (put_all vs []) over, warnings) = Inr (over', warnings')"
      using Cons.prems(1) ns known by (auto simp: p Let_def elim!: rbind_InrE)
    have ok: "settings_ok (kv_put ?name (put_all vs []) over)"
      by (rule settings_ok_put [OF Cons.prems(2)]) (simp add: kv_ok_put_all)
    note IH = Cons.IH [OF step ok rest(1,2)]
    note es = decode_entries_lookup [OF dec]
    have "distinct (List.map fst vs)" using es Cons.prems(4) by (simp add: p)
    then have vs: "kv_get (put_all vs []) k = kv_get vs k" by (simp add: kv_get_put_all split: option.splits)
    have put: "setting (kv_put ?name (put_all vs []) over) n k = (if n = ?name then kv_get vs k else setting over n k)"
      using setting_put [OF Cons.prems(2)] vs by simp
    have eq: "namespace = ?n \<longleftrightarrow> n = ?name" using ns by (metis trim_plugins_append)
    show ?thesis
    proof (cases "n = ?name")
      case here: True
      have "setting over' n k = kv_get vs k" using IH put here rest(3) eq by simp
      then show ?thesis
        using IH es True here eq unfolding raw by (simp add: p)
    next
      case elsewhere: False
      then show ?thesis using IH put eq True unfolding raw by (auto simp: p)
    qed
  qed
qed

lemma repository_option_registered:
  "repository_option r (plugin_namespace n) k = Inr d \<Longrightarrow> registered r n k = Some d \<and> op_repository d"
  unfolding repository_option_def registered_def trim_plugins_append
  by (auto split: option.splits if_split_asm elim!: rbind_InrE)

lemma check_values_lookup:
  "check_values name known repository vs = Inr () \<Longrightarrow> kv_get vs k = Some v \<Longrightarrow>
   \<exists>d. find_option k known = Some d \<and> validate_value d v = Inr ()"
  by (induction vs) (auto split: option.splits if_split_asm elim!: rbind_InrE)

lemma validate_settings_lookup:
  "validate_settings r repository s warnings = Inr ws \<Longrightarrow> setting s n k = Some v \<Longrightarrow> registered r n k = Some d \<Longrightarrow>
   validate_value d v = Inr ()"
proof (induction s arbitrary: warnings)
  case (Cons p s)
  obtain name vs where p: "p = (name, vs)" by (cases p)
  show ?case
  proof (cases "name = n")
    case True
    then show ?thesis
      using Cons.prems
      by (auto simp: p setting_def registered_def split: option.splits if_split_asm elim!: rbind_InrE)
        (fastforce dest: check_values_lookup)
  next
    case False
    then have "setting s n k = Some v" using Cons.prems(2) by (simp add: p setting_def)
    then show ?thesis
      using Cons.IH Cons.prems by (auto simp: p split: option.splits if_split_asm elim!: rbind_InrE)
  qed
qed (simp add: setting_def)

section \<open>Properties\<close>


definition shown :: "option_registry \<Rightarrow> string \<Rightarrow> string \<Rightarrow> bool" where
  "shown r namespace key \<longleftrightarrow> (\<exists>d. repository_option r namespace key = Inr d \<and> \<not> op_secret d)"

text \<open>C37: redacted settings carry no information about secret or unregistered settings: stores that
  differ only in those values are redacted to the same.\<close>

theorem redact_noninterference:
  assumes "list_all2 (\<lambda>p q. fst p = fst q \<and> list_all2 (\<lambda>x y. fst x = fst y \<and> (shown r (fst p) (fst x) \<longrightarrow> snd x = snd y))
    (snd p) (snd q)) stored stored'"
  shows "redact_repository r stored = redact_repository r stored'"
proof -
  have entry: "redact_entry r n x = redact_entry r n y" if "fst x = fst y" "shown r n (fst x) \<longrightarrow> snd x = snd y" for n x y
    using that by (auto simp: redact_entry_def shown_def split: sum.splits)
  have entries: "List.map (redact_entry r n) es = List.map (redact_entry r n) es'"
    if "list_all2 (\<lambda>x y. fst x = fst y \<and> (shown r n (fst x) \<longrightarrow> snd x = snd y)) es es'" for n es es'
    using that by (induction rule: list_all2_induct) (auto intro: entry)
  show ?thesis
    using assms by (induction rule: list_all2_induct) (auto simp: redact_repository_def intro!: entries)
qed

section \<open>Integers of setting texts\<close>

lemma digits_value_snoc: "digits_value (s @ [c]) = 10 * digits_value s + (of_char c - 48)"
  by (simp add: digits_value_def)

lemma digits_value_itoa: "digits_value (itoa n) = n"
proof (induction n rule: itoa.induct)
  case (1 n)
  show ?case
  proof (cases "n < 10")
    case True
    then show ?thesis by (subst itoa.simps) (simp add: digits_value_def digit_char_def)
  next
    case False
    then have "itoa n = itoa (n div 10) @ [digit_char (n mod 10)]" by (subst itoa.simps) simp
    then show ?thesis using 1 False by (simp add: digits_value_snoc digit_char_def)
  qed
qed

lemma is_digit_itoa: "list_all is_digit (itoa n)"
  using itoa_digits by (auto simp: list_all_iff is_digit_def)

text \<open>The decimal text of an integer.\<close>

definition decimal :: "int \<Rightarrow> string" where
  "decimal n = (if n < 0 then CHR ''-'' # itoa (nat (- n)) else itoa (nat n))"


section \<open>Witnesses\<close>

definition port_option :: option_def where
  "port_option = \<lparr>op_name = ''port'', op_type = ''integer'', op_default = VInt 8080, op_repository = True, op_secret = False,
     op_choices = [], op_min = Some 1, op_max = Some 65535\<rparr>"

definition token_option :: option_def where
  "token_option = \<lparr>op_name = ''token'', op_type = ''string'', op_default = VStr [], op_repository = True, op_secret = True,
     op_choices = [], op_min = None, op_max = None\<rparr>"

definition demo_plugin :: plugin_def where
  "demo_plugin = \<lparr>pd_name = ''demo'', pd_options = [port_option, token_option]\<rparr>"

definition demo_registry :: option_registry where
  "demo_registry = [(''demo'', demo_plugin)]"

definition demo_stored :: raw_settings where
  "demo_stored = [(''plugins.demo'', [(''port'', ''90'')]), (''plugins.gone'', [(''x'', ''1'')])]"

lemmas demo_defs = demo_plugin_def port_option_def token_option_def

lemma demo_registers: "new_registry [demo_plugin] = Inr demo_registry"
  by (simp add: new_registry_def demo_registry_def demo_defs valid_name_def name_char_def validate_value_def has_type_def
      outside_bounds_def int_of_value_def)

lemma demo_port: "repository_option demo_registry ''plugins.demo'' ''port'' = Inr port_option"
  "repository_option demo_registry ''plugins.demo'' ''token'' = Inr token_option"
  by (simp_all add: repository_option_def split_repository_key_def demo_registry_def demo_defs valid_name_def name_char_def
      trim_plugins_def has_prefix_def find_option_def)

definition number_decoder :: "string \<Rightarrow> setting_value option" where
  "number_decoder s = Some (VNumber s)"

lemma demo_resolves:
  "\<exists>s. resolve_repository number_decoder demo_registry [] demo_stored = Inr (s, [''plugins.gone''])"
proof -
  have port: "decode_entries number_decoder demo_registry ''plugins.demo'' [(''port'', ''90'')] = Inr [(''port'', VNumber ''90'')]"
    by (simp add: number_decoder_def validate_repository_setting_def demo_port(1) validate_value_def port_option_def
        has_type_def outside_bounds_def int_of_value_def parse_int64_def is_digit_def digits_value_def)
  have names: "trim_plugins ''plugins.demo'' = ''demo''" "trim_plugins ''plugins.gone'' = ''gone''"
    "plugin_namespace ''demo'' = ''plugins.demo''"
    by (simp_all add: trim_plugins_def has_prefix_def plugin_namespace_def)
  have "repository_overrides number_decoder demo_registry demo_stored ([], [])
      = Inr (kv_put ''demo'' (put_all [(''port'', VNumber ''90'')] []) [], [''plugins.gone''])"
    unfolding demo_stored_def repository_overrides.simps names Let_def port by (simp add: demo_registry_def names)
  then show ?thesis by (simp add: resolve_repository_def sort_strings_def)
qed


theorem redact_noninterference_witness:
  "redact_repository demo_registry [(''plugins.demo'', [(''token'', ''hunter2'')])]
     = redact_repository demo_registry [(''plugins.demo'', [(''token'', ''other'')])]"
  by (rule redact_noninterference) (simp add: shown_def demo_port token_option_def)

end
