(* ===== verification/RepoCommands.thy ===== *)
theory RepoCommands
  imports Create Options
begin

text \<open>
  Commands on registered repositories (\<open>internal/coordinator/repository.go\<close>, \<open>repository_archive.go\<close>,
  \<open>repository_rename.go\<close>, \<open>repository_settings.go\<close>, \<open>repository_environment.go\<close>): the registry, its names,
  and the settings and environment of a repository. Encoding of JSON texts (\<open>encoding/json\<close>) is a parameter, used
  only where the code measures or digests a text.
\<close>

section \<open>Replays\<close>

text \<open>The check each of the commands begins its transaction with: an id that a generic command used is
  refused, an id of the same command with the same input yields its stored result.\<close>

definition replayed ::
  "('b, stored) bolt \<Rightarrow> string \<Rightarrow> (domain_outcome \<Rightarrow> 'r option) \<Rightarrow> 'b tx_state \<Rightarrow> (coord_error, 'r option) result" where
  "replayed B i same t =
     (if b_get B (tx_commands t) i \<noteq> None then Inl (AlreadyUsed i)
      else (case outcome_of B i t of
          None \<Rightarrow> Inr None
        | Some (StOutcome out) \<Rightarrow> (case same out of None \<Rightarrow> Inl (AlreadyUsed i) | Some r \<Rightarrow> Inr (Some r))
        | Some _ \<Rightarrow> Inl Undecodable))"

definition command_malformed :: "string \<Rightarrow> int \<Rightarrow> instant \<Rightarrow> bool" where
  "command_malformed i protocol at \<longleftrightarrow> i = [] \<or> id_invalid i \<or> protocol \<noteq> protocol_version \<or> is_zero_time at"

text \<open>An event of no item, caused by the user's command.\<close>

definition repository_event :: "string \<Rightarrow> instant \<Rightarrow> string \<Rightarrow> (string \<times> json) list \<Rightarrow> domain_event" where
  "repository_event command at kind data =
     \<lparr>de_sequence = 0, de_id = domain_event_id command 0, de_item = [], de_revision = 0, de_type = kind, de_time = at,
      de_actor = ''user'', de_causation = command, de_payload = JObj data\<rparr>"

text \<open>No repository but the skipped ones has the name.\<close>

fun name_free :: "(string \<Rightarrow> bool) \<Rightarrow> string \<Rightarrow> (string \<times> stored) list \<Rightarrow> (coord_error, unit) result" where
  "name_free skip name [] = Inr ()"
| "name_free skip name ((key, v) # rest) =
     (if skip key then name_free skip name rest
      else (case as_repository v of
          None \<Rightarrow> Inl Undecodable
        | Some r \<Rightarrow> if or_name r = name then Inl (NameTaken name) else name_free skip name rest))"

definition put_repository :: "('b, stored) bolt \<Rightarrow> owned_repository \<Rightarrow> 'b tx_state \<Rightarrow> 'b tx_state" where
  "put_repository B r t = put_projection B repository_projection (or_id r) (StRepository r) t"

section \<open>The registry\<close>

definition list_repositories :: "('b, stored) bolt \<Rightarrow> 'b tx_state \<Rightarrow> (coord_error, owned_repository list) result" where
  "list_repositories B t =
     rbind (list_projection B repository_projection t) (\<lambda>raw.
     case those (List.map (\<lambda>p. as_repository (snd p)) raw) of
       None \<Rightarrow> Inl Undecodable
     | Some rs \<Rightarrow> (case those (List.map (\<lambda>r. case normalize_owned_repository r of Inl _ \<Rightarrow> None | Inr r' \<Rightarrow> Some r') rs) of
         None \<Rightarrow> Inl (Refused ''invalid repository record'')
       | Some rs \<Rightarrow> Inr (stable_sort (\<lambda>a b. or_name a < or_name b) rs)))"

definition register_fresh ::
  "('b, stored) bolt \<Rightarrow> register_command \<Rightarrow> 'b tx_state \<Rightarrow> (coord_error, register_result \<times> 'b tx_state) result" where
  "register_fresh B c t0 =
     (let r = rg_repository c; t = ensure_projection B repository_projection t0; bucket = projection_bucket B repository_projection t
      in if b_get B bucket (or_id r) \<noteq> None then Inl (Refused ''repository id already exists'')
         else rbind (name_free (\<lambda>_. False) (or_name r) (b_entries B bucket)) (\<lambda>_.
           rbind (append_domain_event B (repository_event (rg_id c) (rg_created_at c) ''repository.onboarded''
               [(''integration_branch'', JStr (or_branch r)), (''name'', JStr (or_name r)), (''repository_id'', JStr (or_id r))]) t)
             (\<lambda>(sequence, t).
               let result = \<lparr>rr_repository = r, rr_sequence = sequence, rr_duplicate = False\<rparr>
               in Inr (result, put_outcome B (rg_id c) (OutRegister c result) (put_repository B r t)))))"

definition register_tx ::
  "('b, stored) bolt \<Rightarrow> register_command \<Rightarrow> 'b tx_state \<Rightarrow> (coord_error, register_result \<times> 'b tx_state) result" where
  "register_tx B c t =
     rbind (replayed B (rg_id c) (\<lambda>out. case out of OutRegister c0 r \<Rightarrow> if c0 = c then Some r else None | _ \<Rightarrow> None) t) (\<lambda>old.
       case old of Some r \<Rightarrow> Inr (r\<lparr>rr_duplicate := True\<rparr>, t) | None \<Rightarrow> register_fresh B c t)"

definition register_repository ::
  "('b, stored) bolt \<Rightarrow> register_command \<Rightarrow> 'b database \<Rightarrow> (coord_error, register_result \<times> 'b database) result" where
  "register_repository B c d =
     (if command_malformed (rg_id c) (rg_protocol c) (rg_created_at c) then Inl CommandInvalid
      else (case normalize_owned_repository (rg_repository c) of
          Inl e \<Rightarrow> Inl (OfRepository e)
        | Inr r \<Rightarrow>
            if or_archived r then Inl (Refused ''new repositories must be active'')
            else rbind (register_tx B (c\<lparr>rg_repository := r\<rparr>) (db_tx d)) (\<lambda>(result, t).
              Inr (result, \<lparr>db_tx = t, db_changes = record_all (db_changes d)\<rparr>))))"

section \<open>Archiving and renaming\<close>

definition archive_fresh ::
  "('b, stored) bolt \<Rightarrow> archive_command \<Rightarrow> 'b tx_state \<Rightarrow> (coord_error, archive_result \<times> 'b tx_state) result" where
  "archive_fresh B c t =
     rbind (repository_of B (ac_repository c) t) (\<lambda>repo.
       if or_id repo \<noteq> ac_repository c then Inl IdentityMismatch
       else (case normalize_owned_repository repo of
           Inl e \<Rightarrow> Inl (OfRepository e)
         | Inr repo \<Rightarrow>
             if or_archived repo \<noteq> ac_previous c then Inl (Refused ''repository archive state changed'')
             else (let result = \<lparr>ax_repository = repo, ax_changed = (or_archived repo \<noteq> ac_archived c), ax_sequence = 0, ax_duplicate = False\<rparr>
               in rbind (if ax_changed result
                    then (let repo = repo\<lparr>or_archived := ac_archived c\<rparr>
                      in rbind (append_domain_event B (repository_event (ac_id c) (ac_created_at c)
                           (if or_archived repo then ''repository.archived'' else ''repository.restored'')
                           [(''name'', JStr (or_name repo)), (''repository_id'', JStr (or_id repo))]) t)
                         (\<lambda>(sequence, t). Inr (result\<lparr>ax_repository := repo, ax_sequence := sequence\<rparr>, put_repository B repo t)))
                    else Inr (result, t))
                  (\<lambda>(result, t). Inr (result, put_outcome B (ac_id c) (OutArchive c result) t)))))"

definition archive_tx ::
  "('b, stored) bolt \<Rightarrow> archive_command \<Rightarrow> 'b tx_state \<Rightarrow> (coord_error, archive_result \<times> 'b tx_state) result" where
  "archive_tx B c t =
     rbind (replayed B (ac_id c) (\<lambda>out. case out of OutArchive c0 r \<Rightarrow> if c0 = c then Some r else None | _ \<Rightarrow> None) t) (\<lambda>old.
       case old of Some r \<Rightarrow> Inr (r\<lparr>ax_duplicate := True\<rparr>, t) | None \<Rightarrow> archive_fresh B c t)"

definition set_repository_archived ::
  "('b, stored) bolt \<Rightarrow> archive_command \<Rightarrow> 'b database \<Rightarrow> (coord_error, archive_result \<times> 'b database) result" where
  "set_repository_archived B c d =
     (if command_malformed (ac_id c) (ac_protocol c) (ac_created_at c) \<or> \<not> valid_id (ac_repository c) then Inl CommandInvalid
      else rbind (archive_tx B c (db_tx d)) (\<lambda>(result, t).
        Inr (result, \<lparr>db_tx = t, db_changes = record_all (db_changes d)\<rparr>)))"

definition rename_fresh ::
  "('b, stored) bolt \<Rightarrow> rename_command \<Rightarrow> 'b tx_state \<Rightarrow> (coord_error, rename_result \<times> 'b tx_state) result" where
  "rename_fresh B c t =
     rbind (repository_of B (rn_repository c) t) (\<lambda>repo.
       if or_name repo \<noteq> rn_previous c then Inl (Refused ''repository name changed'')
       else rbind (name_free (\<lambda>key. key = or_id repo) (rn_name c) (b_entries B (projection_bucket B repository_projection t))) (\<lambda>_.
         let result = \<lparr>rx_repository = repo, rx_previous = or_name repo, rx_changed = (or_name repo \<noteq> rn_name c), rx_sequence = 0,
               rx_duplicate = False\<rparr>
         in rbind (if rx_changed result
              then (case normalize_owned_repository (repo\<lparr>or_name := rn_name c\<rparr>) of
                  Inl e \<Rightarrow> Inl (OfRepository e)
                | Inr repo \<Rightarrow>
                    rbind (append_domain_event B (repository_event (rn_id c) (rn_created_at c) ''repository.renamed''
                        [(''name'', JStr (or_name repo)), (''previous_name'', JStr (rn_previous c)), (''repository_id'', JStr (or_id repo))]) t)
                      (\<lambda>(sequence, t). Inr (result\<lparr>rx_repository := repo, rx_sequence := sequence\<rparr>, put_repository B repo t)))
              else Inr (result, t))
            (\<lambda>(result, t). Inr (result, put_outcome B (rn_id c) (OutRename c result) t))))"

definition rename_tx ::
  "('b, stored) bolt \<Rightarrow> rename_command \<Rightarrow> 'b tx_state \<Rightarrow> (coord_error, rename_result \<times> 'b tx_state) result" where
  "rename_tx B c t =
     rbind (replayed B (rn_id c) (\<lambda>out. case out of OutRename c0 r \<Rightarrow> if c0 = c then Some r else None | _ \<Rightarrow> None) t) (\<lambda>old.
       case old of Some r \<Rightarrow> Inr (r\<lparr>rx_duplicate := True\<rparr>, t) | None \<Rightarrow> rename_fresh B c t)"

definition rename_repository ::
  "('b, stored) bolt \<Rightarrow> rename_command \<Rightarrow> 'b database \<Rightarrow> (coord_error, rename_result \<times> 'b database) result" where
  "rename_repository B c d =
     (if command_malformed (rn_id c) (rn_protocol c) (rn_created_at c) \<or> \<not> valid_id (rn_repository c) then Inl CommandInvalid
      else if \<not> valid_repository_name (rn_name c) \<or> \<not> valid_repository_name (rn_previous c) then Inl (OfRepository RepoName)
      else rbind (rename_tx B c (db_tx d)) (\<lambda>(result, t).
        Inr (result, \<lparr>db_tx = t, db_changes = record_all (db_changes d)\<rparr>)))"

section \<open>Settings\<close>

text \<open>\<open>encoding/json\<close> on setting values, commands and records.\<close>

record settings_codec =
  sj_decode :: "string \<Rightarrow> setting_value option"
  sj_marshal :: "setting_value \<Rightarrow> string"
  sj_command :: "setting_command \<Rightarrow> string"
  sj_settings :: "repository_settings \<Rightarrow> string"
  sj_environment :: "repository_environment \<Rightarrow> string"

abbreviation max_settings_bytes :: nat where "max_settings_bytes \<equiv> 65536"
abbreviation max_value_bytes :: nat where "max_value_bytes \<equiv> 8192"

definition no_settings :: "string \<Rightarrow> repository_settings" where
  "no_settings i = \<lparr>st_repository = i, st_revision = 0, st_namespaces = []\<rparr>"

definition stored_setting_ok :: "settings_codec \<Rightarrow> string \<Rightarrow> string \<times> string \<Rightarrow> bool" where
  "stored_setting_ok j namespace e \<longleftrightarrow> is_ok (split_repository_key (namespace @ ''.'' @ fst e))
     \<and> snd e \<noteq> [] \<and> length (snd e) \<le> max_value_bytes \<and> sj_decode j (snd e) \<noteq> None"

definition stored_settings_ok :: "settings_codec \<Rightarrow> string \<Rightarrow> repository_settings \<Rightarrow> bool" where
  "stored_settings_ok j i s \<longleftrightarrow> length (sj_settings j s) \<le> max_settings_bytes \<and> st_repository s = i \<and> st_revision s \<noteq> 0
     \<and> list_all (\<lambda>p. snd p \<noteq> [] \<and> list_all (stored_setting_ok j (fst p)) (snd p)) (st_namespaces s)"

definition read_settings ::
  "('b, stored) bolt \<Rightarrow> settings_codec \<Rightarrow> string \<Rightarrow> 'b tx_state \<Rightarrow> (coord_error, repository_settings) result" where
  "read_settings B j i t = (case get_projection B settings_projection i t of
     None \<Rightarrow> Inr (no_settings i)
   | Some v \<Rightarrow> (case as_settings v of
       None \<Rightarrow> Inl Undecodable
     | Some s \<Rightarrow> if stored_settings_ok j i s then Inr s else Inl (Refused ''invalid stored repository settings'')))"

text \<open>The repository a selector names; of several, the last one.\<close>

fun select_repository ::
  "string \<Rightarrow> (string \<times> stored) list \<Rightarrow> owned_repository option \<Rightarrow> (coord_error, owned_repository option) result" where
  "select_repository selector [] found = Inr found"
| "select_repository selector ((key, v) # rest) found = (case as_repository v of
     None \<Rightarrow> Inl Undecodable
   | Some r \<Rightarrow>
       if or_id r = selector \<or> or_name r = selector
       then (case normalize_owned_repository r of
           Inl e \<Rightarrow> Inl (OfRepository e)
         | Inr r' \<Rightarrow> if key \<noteq> or_id r then Inl IdentityMismatch else select_repository selector rest (Some r'))
       else select_repository selector rest found)"

definition repository_settings_of ::
  "('b, stored) bolt \<Rightarrow> settings_codec \<Rightarrow> string \<Rightarrow> 'b tx_state \<Rightarrow> (coord_error, owned_repository \<times> repository_settings) result" where
  "repository_settings_of B j selector t =
     (if \<not> valid_id selector \<and> \<not> valid_repository_name selector then Inl (Refused ''valid repository name or ID is required'')
      else (case tx_projections t repository_projection of
          None \<Rightarrow> Inl (NotRegistered selector)
        | Some b \<Rightarrow> rbind (select_repository selector (b_entries B b) None) (\<lambda>found. case found of
            None \<Rightarrow> Inl (NotRegistered selector)
          | Some r \<Rightarrow> rbind (read_settings B j (or_id r) t) (\<lambda>s. Inr (r, s)))))"

text \<open>The command with its value in canonical JSON.\<close>

definition prepare_setting :: "settings_codec \<Rightarrow> setting_command \<Rightarrow> (coord_error, setting_command) result" where
  "prepare_setting j c =
     (if command_malformed (sn_id c) (sn_protocol c) (sn_created_at c) \<or> \<not> valid_id (sn_repository c) then Inl CommandInvalid
      else if \<not> is_ok (split_repository_key (sn_namespace c @ ''.'' @ sn_key c)) then Inl (Refused ''setting key must be plugins.PLUGIN.OPTION'')
      else if sn_unset c then (if sn_value c \<noteq> [] then Inl (Refused ''unset cannot contain a value'') else Inr c)
      else if sn_value c = [] \<or> length (sn_value c) > max_value_bytes then Inl (Refused ''setting value must be nonempty JSON within 8 KiB'')
      else (case sj_decode j (sn_value c) of
          None \<Rightarrow> Inl (Refused ''setting value must be JSON'')
        | Some v \<Rightarrow>
            if length (sj_marshal j v) > max_value_bytes then Inl (Refused ''canonical setting value exceeds 8 KiB'')
            else Inr (c\<lparr>sn_value := sj_marshal j v\<rparr>)))"

definition setting_accepted :: "settings_codec \<Rightarrow> option_registry \<Rightarrow> setting_command \<Rightarrow> (coord_error, unit) result" where
  "setting_accepted j reg c =
     (if sn_unset c then Inr ()
      else (case sj_decode j (sn_value c) of
          None \<Rightarrow> Inl (Refused ''setting value must be JSON'')
        | Some v \<Rightarrow> (case validate_repository_setting reg (sn_namespace c) (sn_key c) v of
            Inl _ \<Rightarrow> Inl (Refused ''setting is not registered or has an invalid value'') | Inr _ \<Rightarrow> Inr ())))"

definition setting_changed :: "setting_command \<Rightarrow> repository_settings \<Rightarrow> bool" where
  "setting_changed c s \<longleftrightarrow>
     (let old = raw_setting (st_namespaces s) (sn_namespace c) (sn_key c)
      in if sn_unset c then old \<noteq> None else old \<noteq> Some (sn_value c))"

definition changed_settings :: "setting_command \<Rightarrow> repository_settings \<Rightarrow> repository_settings" where
  "changed_settings c s =
     (let entries = entries_of (kv_get (st_namespaces s) (sn_namespace c));
          entries' = (if sn_unset c then kv_delete (sn_key c) entries else kv_put (sn_key c) (sn_value c) entries)
      in s\<lparr>st_revision := st_revision s + 1,
           st_namespaces := (if entries' = [] then kv_delete (sn_namespace c) (st_namespaces s)
             else kv_put (sn_namespace c) entries' (st_namespaces s))\<rparr>)"

definition setting_event :: "setting_command \<Rightarrow> repository_settings \<Rightarrow> domain_event" where
  "setting_event c s = repository_event (sn_id c) (sn_created_at c) ''repository.setting_changed''
     [(''key'', JStr (sn_key c)), (''namespace'', JStr (sn_namespace c)), (''repository_id'', JStr (sn_repository c)),
      (''revision'', JInt (uint (st_revision s))), (''unset'', JBool (sn_unset c))]"

definition setting_fresh ::
  "('b, stored) bolt \<Rightarrow> settings_codec \<Rightarrow> option_registry \<Rightarrow> string \<Rightarrow> setting_command \<Rightarrow> 'b tx_state
   \<Rightarrow> (coord_error, setting_result \<times> 'b tx_state) result" where
  "setting_fresh B j reg digest c t =
     rbind (repository_of B (sn_repository c) t) (\<lambda>repo.
       if or_id repo \<noteq> sn_repository c then Inl IdentityMismatch
       else (case normalize_owned_repository repo of
           Inl e \<Rightarrow> Inl (OfRepository e)
         | Inr _ \<Rightarrow>
             rbind (read_settings B j (or_id repo) t) (\<lambda>s.
               if st_revision s \<noteq> sn_expected c then Inl (RevisionConflict (sn_expected c) (st_revision s))
               else rbind (setting_accepted j reg c) (\<lambda>_.
                 let result = \<lparr>sx_repository = or_id repo, sx_namespace = sn_namespace c, sx_key = sn_key c,
                       sx_revision = st_revision s, sx_changed = setting_changed c s, sx_sequence = 0, sx_duplicate = False\<rparr>
                 in rbind (if sx_changed result
                      then if st_revision s = - 1 then Inl (Refused ''repository settings revision exhausted'')
                        else (let s = changed_settings c s
                          in if length (sj_settings j s) > max_settings_bytes then Inl (Refused ''repository settings exceed 64 KiB'')
                             else rbind (append_domain_event B (setting_event c s)
                                 (put_projection B settings_projection (or_id repo) (StSettings s) t)) (\<lambda>(sequence, t).
                               Inr (result\<lparr>sx_revision := st_revision s, sx_sequence := sequence\<rparr>, t)))
                      else Inr (result, t))
                    (\<lambda>(result, t). Inr (result, put_outcome B (sn_id c) (OutSetting digest result) t))))))"

definition setting_tx ::
  "('b, stored) bolt \<Rightarrow> settings_codec \<Rightarrow> option_registry \<Rightarrow> setting_command \<Rightarrow> 'b tx_state
   \<Rightarrow> (coord_error, setting_result \<times> 'b tx_state) result" where
  "setting_tx B j reg c t =
     (let digest = hex_digest 32 (sj_command j c)
      in rbind (replayed B (sn_id c) (\<lambda>out. case out of OutSetting d r \<Rightarrow> if d = digest then Some r else None | _ \<Rightarrow> None) t) (\<lambda>old.
        case old of Some r \<Rightarrow> Inr (r\<lparr>sx_duplicate := True\<rparr>, t) | None \<Rightarrow> setting_fresh B j reg digest c t))"

definition set_repository_setting ::
  "('b, stored) bolt \<Rightarrow> settings_codec \<Rightarrow> option_registry \<Rightarrow> setting_command \<Rightarrow> 'b database
   \<Rightarrow> (coord_error, setting_result \<times> 'b database) result" where
  "set_repository_setting B j reg c d =
     rbind (prepare_setting j c) (\<lambda>c.
       rbind (setting_tx B j reg c (db_tx d)) (\<lambda>(result, t).
         Inr (result, \<lparr>db_tx = t, db_changes = record_all (db_changes d)\<rparr>)))"

section \<open>Environment\<close>

record environment_command =
  ec_selector :: string
  ec_expected :: "64 word option"
  ec_replace :: bool
  ec_set :: "env_var list"
  ec_unset :: "string list"

abbreviation max_environment_bytes :: nat where "max_environment_bytes \<equiv> 262144"
abbreviation max_environment_vars :: nat where "max_environment_vars \<equiv> 500"

definition no_environment :: "string \<Rightarrow> repository_environment" where
  "no_environment i = \<lparr>en_repository = i, en_revision = 0, en_vars = [], en_changed_at = None\<rparr>"

definition read_environment ::
  "('b, stored) bolt \<Rightarrow> string \<Rightarrow> 'b tx_state \<Rightarrow> (coord_error, repository_environment) result" where
  "read_environment B i t = (case get_projection B environment_projection i t of
     None \<Rightarrow> Inr (no_environment i)
   | Some v \<Rightarrow> (case as_environment v of
       None \<Rightarrow> Inl Undecodable
     | Some e \<Rightarrow> if en_repository e \<noteq> i then Inl IdentityMismatch else Inr e))"

definition repository_environment_of ::
  "('b, stored) bolt \<Rightarrow> settings_codec \<Rightarrow> string \<Rightarrow> 'b tx_state
   \<Rightarrow> (coord_error, owned_repository \<times> repository_environment) result" where
  "repository_environment_of B j selector t =
     rbind (repository_settings_of B j selector t) (\<lambda>(r, _).
       rbind (read_environment B (or_id r) t) (\<lambda>e. Inr (r, e)))"

definition next_vars :: "environment_command \<Rightarrow> env_var list \<Rightarrow> env_var list" where
  "next_vars c vars = (if ec_replace c then ec_set c else merge_env vars (ec_set c) (ec_unset c))"

definition environment_event :: "instant \<Rightarrow> string list \<Rightarrow> repository_environment \<Rightarrow> domain_event" where
  "environment_event now changed e =
     \<lparr>de_sequence = 0, de_id = ''repository-environment-'' @ en_repository e @ ''-'' @ itoa (unat (en_revision e)), de_item = [],
      de_revision = 0, de_type = ''repository.environment_changed'', de_time = now, de_actor = ''user'', de_causation = [],
      de_payload = JObj [(''keys'', jstrs changed), (''repository_id'', JStr (en_repository e)),
        (''revision'', JInt (uint (en_revision e)))]\<rparr>"

definition environment_tx ::
  "('b, stored) bolt \<Rightarrow> settings_codec \<Rightarrow> instant \<Rightarrow> string \<Rightarrow> environment_command \<Rightarrow> 'b tx_state
   \<Rightarrow> (coord_error, repository_environment \<times> 'b tx_state) result" where
  "environment_tx B j now i c t =
     rbind (read_environment B i t) (\<lambda>e.
       if ec_expected c \<noteq> None \<and> ec_expected c \<noteq> Some (en_revision e)
       then Inl (RevisionConflict (the (ec_expected c)) (en_revision e))
       else (let vars = next_vars c (en_vars e)
         in if length vars > max_environment_vars then Inl (Refused ''a repository holds at most 500 variables'')
            else (let changed = env_changes (en_vars e) vars; e = e\<lparr>en_vars := vars\<rparr>
              in if changed = [] then Inr (e, t)
                 else (let e = e\<lparr>en_revision := en_revision e + 1, en_changed_at := Some now\<rparr>
                   in if length (sj_environment j e) > max_environment_bytes then Inl (Refused ''repository environment exceeds 256 KiB'')
                      else rbind (append_domain_event B (environment_event now changed e)
                          (put_projection B environment_projection i (StEnvironment e) t)) (\<lambda>(_, t). Inr (e, t))))))"

definition set_repository_environment ::
  "('b, stored) bolt \<Rightarrow> settings_codec \<Rightarrow> instant \<Rightarrow> environment_command \<Rightarrow> 'b database
   \<Rightarrow> (coord_error, (owned_repository \<times> repository_environment) \<times> 'b database) result" where
  "set_repository_environment B j now c d =
     (if \<not> is_ok (valid_env (ec_set c)) \<or> \<not> list_all valid_env_key (ec_unset c) then Inl (Refused ''invalid environment variable'')
      else rbind (repository_settings_of B j (ec_selector c) (db_tx d)) (\<lambda>(r, _).
        rbind (environment_tx B j now (or_id r) c (db_tx d)) (\<lambda>(e, t). Inr ((r, e), d\<lparr>db_tx := t\<rparr>))))"

section \<open>One event, and nothing of the items\<close>

text \<open>What a repository command does to the state: at most one new event, of no item, and no change of the
  items.\<close>

definition quiet_step ::
  "('b, stored) bolt \<Rightarrow> ('b \<Rightarrow> bool) \<Rightarrow> 'b tx_state \<Rightarrow> 'b tx_state \<Rightarrow> domain_event list \<Rightarrow> domain_event list \<Rightarrow> bool" where
  "quiet_step B ok t t' L es \<longleftrightarrow> log_rep B ok t' (L @ es) \<and> tx_ok ok t' \<and> length es \<le> 1
     \<and> (\<forall>e\<in>set es. de_item e = [] \<and> de_id e \<notin> de_id ` set L)
     \<and> (\<forall>k. get_projection B manifest_projection k t' = get_projection B manifest_projection k t)"

context event_store
begin

lemma quiet_refl: "log_rep B ok t L \<Longrightarrow> tx_ok ok t \<Longrightarrow> quiet_step B ok t t L []"
  by (simp add: quiet_step_def)

lemma quiet_outcome: "quiet_step B ok t t' L es \<Longrightarrow> quiet_step B ok t (put_outcome B i x t') L es"
  by (simp add: quiet_step_def)

lemma quiet_projection:
  "quiet_step B ok t t' L es \<Longrightarrow> name \<noteq> manifest_projection \<Longrightarrow> quiet_step B ok t (put_projection B name k v t') L es"
  by (auto simp: quiet_step_def put_projection_def set_projection_def log_rep_def tx_ok_put(4) [unfolded put_projection_def set_projection_def]
      get_put_projection [unfolded put_projection_def set_projection_def])

lemma append_domain_event_spec:
  assumes "append_domain_event B e t = Inr (n, t')" and "de_item e = []" and "log_rep B ok t L" and "tx_ok ok t"
  shows "n = of_nat (Suc (length L)) \<and> log_rep B ok t' (L @ [e\<lparr>de_sequence := n\<rparr>]) \<and> tx_ok ok t' \<and> de_id e \<notin> de_id ` set L
    \<and> (\<forall>name k. get_projection B name k t' = get_projection B name k t) \<and> tx_outcomes t' = tx_outcomes t
    \<and> tx_commands t' = tx_commands t"
proof -
  have r: "ev_rep B ok t L" "rev_rep B ok t L" "seq_rep B ok t L" using assms(3) by (simp_all add: log_rep_def)
  have g: "global_sequence B t = of_nat (length L)" "length L < 2 ^ 64" using r(1,3) by (simp_all add: seq_rep_def ev_rep_def)
  have not_last: "global_sequence B t \<noteq> - 1" and n: "n = of_nat (Suc (length L))" and fresh: "b_get B (tx_event_ids t) (de_id e) = None"
    and t': "t' = put_sequence B n (put_event B (e\<lparr>de_sequence := n\<rparr>) t)"
    using assms(1) g(1) by (auto simp: append_domain_event_def Let_def split: if_split_asm)
  have len: "Suc (length L) < 2 ^ 64"
  proof (rule ccontr)
    assume "\<not> Suc (length L) < 2 ^ 64"
    with g(2) have "length L = 2 ^ 64 - 1" by simp
    then have "(of_nat (length L) :: 64 word) = - 1" by simp
    with not_last g(1) show False by simp
  qed
  let ?e = "e\<lparr>de_sequence := n\<rparr>"
  have "ev_rep B ok (put_event B ?e t) (L @ [?e])" by (rule ev_rep_put [OF r(1) len]) (simp_all add: n assms(2))
  moreover have "rev_rep B ok (put_event B ?e t) (L @ [?e])"
    using rev_rep_other [OF r(2)] assms(2) by (simp add: rev_rep_def item_revision_def put_event_def)
  moreover have "seq_rep B ok t' (L @ [?e])"
    using seq_rep_put [OF r(3), of "L @ [?e]"] n by (simp add: t' seq_rep_def global_sequence_def put_sequence_def put_event_def)
  ultimately have "log_rep B ok t' (L @ [?e])"
    by (simp add: t' log_rep_def put_sequence_def rev_rep_def item_revision_def)
  moreover have "de_id e \<notin> de_id ` set L" using r(1) fresh unfolding ev_rep_def by blast
  ultimately show ?thesis
    using n assms(4) by (simp add: t' put_event_def put_sequence_def get_projection_def tx_ok_def ok_put)
qed

lemma quiet_append:
  assumes "append_domain_event B e t1 = Inr (n, t')" and "de_item e = []" and "quiet_step B ok t t1 L []"
  shows "quiet_step B ok t t' L [e\<lparr>de_sequence := n\<rparr>]"
  using append_domain_event_spec [OF assms(1,2), of L] assms(2,3) by (auto simp: quiet_step_def)

lemma quiet_store_inv:
  assumes "quiet_step B ok t t' L es" and "store_inv B ok t L"
  shows "store_inv B ok t' (L @ es) \<and> manifest_at B t' = manifest_at B t"
proof -
  have at: "manifest_at B t' = manifest_at B t" "items_ok B t' = items_ok B t"
    using assms(1) manifest_at_cong [of t' t] by (simp_all add: quiet_step_def)
  have "distinct (List.map de_id (L @ es))"
    using assms unfolding quiet_step_def store_inv_def by (cases es) auto
  then show ?thesis using assms at unfolding quiet_step_def store_inv_def by simp
qed

lemma quiet_ensure:
  assumes "log_rep B ok t L" and "tx_ok ok t"
  shows "quiet_step B ok t (ensure_projection B name t) L []"
  using ensure_projection_frame [OF assms(2)] assms by (simp add: quiet_step_def)

end

lemma repository_event_item [simp]: "de_item (repository_event i at kind data) = []"
  by (simp add: repository_event_def)

lemma put_repository_names [simp]: "repository_projection \<noteq> manifest_projection" "settings_projection \<noteq> manifest_projection"
  "environment_projection \<noteq> manifest_projection"
  by simp_all

section \<open>The commands step quietly\<close>

context event_store
begin

lemma register_fresh_spec:
  assumes "register_fresh B c t = Inr (r, t')" and "log_rep B ok t L" and "tx_ok ok t"
  shows "\<exists>es. quiet_step B ok t t' L es \<and> get_projection B repository_projection (or_id (rg_repository c)) t = None
    \<and> name_free (\<lambda>_. False) (or_name (rg_repository c)) (b_entries B (projection_bucket B repository_projection t)) = Inr ()
    \<and> (\<forall>name k. get_projection B name k t' = (if name = repository_projection \<and> k = or_id (rg_repository c)
         then Some (StRepository (rg_repository c)) else get_projection B name k t))"
proof -
  let ?t = "ensure_projection B repository_projection t" and ?r = "rg_repository c"
  note q = quiet_ensure [OF assms(2,3), of repository_projection]
  note fr = ensure_projection_frame [OF assms(3)]
  have bucket: "projection_bucket B repository_projection ?t = projection_bucket B repository_projection t"
    by (simp add: ensure_projection_def projection_bucket_def set_projection_def)
  obtain n t1 e where free: "b_get B (projection_bucket B repository_projection t) (or_id ?r) = None"
    "name_free (\<lambda>_. False) (or_name ?r) (b_entries B (projection_bucket B repository_projection t)) = Inr ()"
    and ap: "append_domain_event B e ?t = Inr (n, t1)" "de_item e = []"
    and t': "\<exists>x. t' = put_outcome B (rg_id c) x (put_repository B ?r t1)"
    using assms(1) by (fastforce simp: register_fresh_def Let_def bucket split: if_split_asm elim!: rbind_InrE)
  note sp = append_domain_event_spec [OF ap, of L]
  have l: "log_rep B ok ?t L" "tx_ok ok ?t" using fr assms by simp_all
  have none: "get_projection B repository_projection (or_id ?r) t = None"
    using free(1) get_empty by (simp add: get_projection_def projection_bucket_def split: option.splits)
  have "quiet_step B ok t t' L [e\<lparr>de_sequence := n\<rparr>]"
    using quiet_append [OF ap q] t' by (auto simp: put_repository_def intro!: quiet_outcome quiet_projection)
  moreover have "get_projection B name k t' = (if name = repository_projection \<and> k = or_id ?r
         then Some (StRepository ?r) else get_projection B name k t)" for name k
    using t' sp [OF l] fr(2) by (auto simp: put_repository_def)
  ultimately show ?thesis using free(2) none by blast
qed

lemma archive_fresh_spec:
  assumes "archive_fresh B c t = Inr (r, t')" and "log_rep B ok t L" and "tx_ok ok t"
    and "get_projection B repository_projection (ac_repository c) t = Some (StRepository repo)" and "repository_ok repo"
  shows "\<exists>es. quiet_step B ok t t' L es \<and> or_id repo = ac_repository c \<and> or_archived repo = ac_previous c
    \<and> (\<forall>name k. get_projection B name k t' = (if name = repository_projection \<and> k = ac_repository c
         then Some (StRepository (repo\<lparr>or_archived := ac_archived c\<rparr>)) else get_projection B name k t))"
proof -
  have id: "or_id repo = ac_repository c" "or_archived repo = ac_previous c"
    using assms(1,4) normalize_owned_fixed [OF assms(5)]
    by (auto simp: archive_fresh_def repository_of_def Let_def split: if_split_asm elim!: rbind_InrE)
  show ?thesis
  proof (cases "or_archived repo = ac_archived c")
    case True
    then have "\<exists>x. t' = put_outcome B (ac_id c) x t"
      using assms(1,4) normalize_owned_fixed [OF assms(5)] id
      by (auto simp: archive_fresh_def repository_of_def Let_def)
    moreover have "repo\<lparr>or_archived := ac_archived c\<rparr> = repo" using True by simp
    ultimately show ?thesis
      using quiet_outcome [OF quiet_refl [OF assms(2,3)]] id assms(4) by auto
  next
    case False
    obtain n t1 e where ap: "append_domain_event B e t = Inr (n, t1)" "de_item e = []"
      and t': "\<exists>x. t' = put_outcome B (ac_id c) x (put_repository B (repo\<lparr>or_archived := ac_archived c\<rparr>) t1)"
      using assms(1,4) normalize_owned_fixed [OF assms(5)] id False
      by (fastforce simp: archive_fresh_def repository_of_def Let_def split: if_split_asm elim!: rbind_InrE)
    note sp = append_domain_event_spec [OF ap assms(2,3)]
    have "quiet_step B ok t t' L [e\<lparr>de_sequence := n\<rparr>]"
      using quiet_append [OF ap quiet_refl [OF assms(2,3)]] t' by (auto simp: put_repository_def intro!: quiet_outcome quiet_projection)
    moreover have "get_projection B name k t' = (if name = repository_projection \<and> k = ac_repository c
         then Some (StRepository (repo\<lparr>or_archived := ac_archived c\<rparr>)) else get_projection B name k t)" for name k
      using t' sp id by (auto simp: put_repository_def)
    ultimately show ?thesis using id by blast
  qed
qed

lemma rename_fresh_spec:
  assumes "rename_fresh B c t = Inr (r, t')" and "log_rep B ok t L" and "tx_ok ok t"
    and "get_projection B repository_projection (rn_repository c) t = Some (StRepository repo)" and "repository_ok repo"
    and "or_id repo = rn_repository c" and "valid_repository_name (rn_name c)"
  shows "\<exists>es. quiet_step B ok t t' L es \<and> or_name repo = rn_previous c
    \<and> name_free (\<lambda>k. k = rn_repository c) (rn_name c) (b_entries B (projection_bucket B repository_projection t)) = Inr ()
    \<and> (\<forall>name k. get_projection B name k t' = (if name = repository_projection \<and> k = rn_repository c
         then Some (StRepository (repo\<lparr>or_name := rn_name c\<rparr>)) else get_projection B name k t))"
proof -
  have id: "or_name repo = rn_previous c"
    and free: "name_free (\<lambda>k. k = rn_repository c) (rn_name c) (b_entries B (projection_bucket B repository_projection t)) = Inr ()"
    using assms(1,4,6) by (auto simp: rename_fresh_def repository_of_def Let_def split: if_split_asm elim!: rbind_InrE)
  have norm: "normalize_owned_repository (repo\<lparr>or_name := rn_name c\<rparr>) = Inr (repo\<lparr>or_name := rn_name c\<rparr>)"
    by (rule normalize_owned_fixed) (use assms(5,7) in \<open>simp add: repository_ok_def\<close>)
  show ?thesis
  proof (cases "or_name repo = rn_name c")
    case True
    then have "\<exists>x. t' = put_outcome B (rn_id c) x t"
      using assms(1,4,6) id free by (auto simp: rename_fresh_def repository_of_def Let_def)
    moreover have "repo\<lparr>or_name := rn_name c\<rparr> = repo" using True by simp
    ultimately show ?thesis
      using quiet_outcome [OF quiet_refl [OF assms(2,3)]] id assms(4) free by auto
  next
    case False
    obtain n t1 e where ap: "append_domain_event B e t = Inr (n, t1)" "de_item e = []"
      and t': "\<exists>x. t' = put_outcome B (rn_id c) x (put_repository B (repo\<lparr>or_name := rn_name c\<rparr>) t1)"
      using assms(1,4,6) id False free
      by (fastforce simp: rename_fresh_def repository_of_def Let_def norm elim!: rbind_InrE)
    note sp = append_domain_event_spec [OF ap assms(2,3)]
    have "quiet_step B ok t t' L [e\<lparr>de_sequence := n\<rparr>]"
      using quiet_append [OF ap quiet_refl [OF assms(2,3)]] t' by (auto simp: put_repository_def intro!: quiet_outcome quiet_projection)
    moreover have "get_projection B name k t' = (if name = repository_projection \<and> k = rn_repository c
         then Some (StRepository (repo\<lparr>or_name := rn_name c\<rparr>)) else get_projection B name k t)" for name k
      using t' sp assms(6) by (auto simp: put_repository_def)
    ultimately show ?thesis using id free by blast
  qed
qed

lemma setting_fresh_spec:
  assumes "setting_fresh B j reg digest c t = Inr (r, t')" and "log_rep B ok t L" and "tx_ok ok t"
  shows "\<exists>es s. quiet_step B ok t t' L es \<and> read_settings B j (sn_repository c) t = Inr s \<and> st_revision s = sn_expected c
    \<and> setting_accepted j reg c = Inr () \<and> sx_changed r = setting_changed c s
    \<and> es = (if setting_changed c s then [(setting_event c (changed_settings c s))\<lparr>de_sequence := of_nat (Suc (length L))\<rparr>] else [])
    \<and> (setting_changed c s \<longrightarrow> st_revision s \<noteq> - 1 \<and> length (sj_settings j (changed_settings c s)) \<le> max_settings_bytes)
    \<and> sx_revision r = (if setting_changed c s then st_revision (changed_settings c s) else st_revision s)
    \<and> (\<forall>name k. get_projection B name k t' = (if setting_changed c s \<and> name = settings_projection \<and> k = sn_repository c
         then Some (StSettings (changed_settings c s)) else get_projection B name k t))"
proof -
  obtain s where s: "read_settings B j (sn_repository c) t = Inr s" "st_revision s = sn_expected c" "setting_accepted j reg c = Inr ()"
    using assms(1) by (fastforce simp: setting_fresh_def split: if_split_asm sum.splits elim!: rbind_InrE)
  show ?thesis
  proof (cases "setting_changed c s")
    case False
    then have "\<exists>x. t' = put_outcome B (sn_id c) x t" "\<not> sx_changed r" "sx_revision r = st_revision s"
      using assms(1) s by (auto simp: setting_fresh_def Let_def split: if_split_asm sum.splits elim!: rbind_InrE)
    then show ?thesis
      using quiet_outcome [OF quiet_refl [OF assms(2,3)]] s False by (intro exI [of _ "[]"] exI [of _ s]) auto
  next
    case True
    let ?s = "changed_settings c s"
    obtain n t1 where ap: "append_domain_event B (setting_event c ?s) (put_projection B settings_projection (sn_repository c) (StSettings ?s) t) = Inr (n, t1)"
      and t': "\<exists>x. t' = put_outcome B (sn_id c) x t1" and lim: "st_revision s \<noteq> - 1" "length (sj_settings j ?s) \<le> max_settings_bytes"
      and r: "sx_changed r" "sx_revision r = st_revision ?s"
      using assms(1) s True by (fastforce simp: setting_fresh_def Let_def split: if_split_asm sum.splits elim!: rbind_InrE)
    have it: "de_item (setting_event c ?s) = []" by (simp add: setting_event_def)
    have q: "quiet_step B ok t (put_projection B settings_projection (sn_repository c) (StSettings ?s) t) L []"
      using quiet_projection [OF quiet_refl [OF assms(2,3)]] by simp
    then have l: "log_rep B ok (put_projection B settings_projection (sn_repository c) (StSettings ?s) t) L"
      "tx_ok ok (put_projection B settings_projection (sn_repository c) (StSettings ?s) t)" by (simp_all add: quiet_step_def)
    note sp = append_domain_event_spec [OF ap it l]
    have "quiet_step B ok t t' L [(setting_event c ?s)\<lparr>de_sequence := n\<rparr>]"
      using quiet_append [OF ap it q] t' by (auto intro!: quiet_outcome)
    moreover have "get_projection B name k t' = (if name = settings_projection \<and> k = sn_repository c
         then Some (StSettings ?s) else get_projection B name k t)" for name k
      using t' sp assms(3) by auto
    ultimately show ?thesis using s True lim r sp by (intro exI [of _ "[(setting_event c ?s)\<lparr>de_sequence := n\<rparr>]"] exI [of _ s]) simp
  qed
qed

lemma environment_tx_spec:
  assumes "environment_tx B j now i c t = Inr (e', t')" and "log_rep B ok t L" and "tx_ok ok t"
  shows "\<exists>es e. quiet_step B ok t t' L es \<and> read_environment B i t = Inr e \<and> (ec_expected c = None \<or> ec_expected c = Some (en_revision e))
    \<and> en_vars e' = next_vars c (en_vars e) \<and> length (en_vars e') \<le> max_environment_vars
    \<and> (if env_changes (en_vars e) (en_vars e') = [] then t' = t \<and> en_revision e' = en_revision e
       else en_revision e' = en_revision e + 1 \<and> en_changed_at e' = Some now \<and> length (sj_environment j e') \<le> max_environment_bytes)
    \<and> (\<forall>name k. get_projection B name k t' = (if env_changes (en_vars e) (en_vars e') \<noteq> [] \<and> name = environment_projection \<and> k = i
         then Some (StEnvironment e') else get_projection B name k t))"
proof -
  obtain e where e: "read_environment B i t = Inr e" "ec_expected c = None \<or> ec_expected c = Some (en_revision e)"
    and len: "length (next_vars c (en_vars e)) \<le> max_environment_vars"
    using assms(1) by (auto simp: environment_tx_def Let_def split: if_split_asm elim!: rbind_InrE)
  have fence: "\<not> (ec_expected c \<noteq> None \<and> ec_expected c \<noteq> Some (en_revision e))" using e(2) by auto
  let ?vars = "next_vars c (en_vars e)"
  show ?thesis
  proof (cases "env_changes (en_vars e) ?vars = []")
    case True
    then have "t' = t" "e' = e\<lparr>en_vars := ?vars\<rparr>"
      using assms(1) e(1) len fence True by (auto simp: environment_tx_def Let_def split: if_split_asm)
    then show ?thesis using quiet_refl [OF assms(2,3)] e len True by (intro exI [of _ "[]"] exI [of _ e]) simp
  next
    case False
    let ?e = "e\<lparr>en_vars := ?vars, en_revision := en_revision e + 1, en_changed_at := Some now\<rparr>"
    let ?p = "put_projection B environment_projection i (StEnvironment ?e) t"
    obtain n where ap: "append_domain_event B (environment_event now (env_changes (en_vars e) ?vars) ?e) ?p = Inr (n, t')"
      and lim: "length (sj_environment j ?e) \<le> max_environment_bytes" and e': "e' = ?e"
      using assms(1) e(1) len fence False by (auto simp: environment_tx_def Let_def split: if_split_asm elim!: rbind_InrE)
    have it: "de_item (environment_event now (env_changes (en_vars e) ?vars) ?e) = []" by (simp add: environment_event_def)
    have q: "quiet_step B ok t ?p L []" using quiet_projection [OF quiet_refl [OF assms(2,3)]] by simp
    then have l: "log_rep B ok ?p L" "tx_ok ok ?p" by (simp_all add: quiet_step_def)
    note sp = append_domain_event_spec [OF ap it l]
    show ?thesis
      using quiet_append [OF ap it q] sp e len lim False assms(3)
      by (intro exI [of _ "[(environment_event now (env_changes (en_vars e) ?vars) ?e)\<lparr>de_sequence := n\<rparr>]"] exI [of _ e]) (simp add: e')
  qed
qed

end

section \<open>The registry's invariant\<close>

definition repository_at :: "('b, stored) bolt \<Rightarrow> 'b tx_state \<Rightarrow> string \<Rightarrow> owned_repository option" where
  "repository_at B t k = (case get_projection B repository_projection k t of None \<Rightarrow> None | Some v \<Rightarrow> as_repository v)"

text \<open>Records under their own identities, well formed, with distinct names.\<close>

definition repos_inv :: "(string \<rightharpoonup> owned_repository) \<Rightarrow> bool" where
  "repos_inv f \<longleftrightarrow> (\<forall>k r. f k = Some r \<longrightarrow> or_id r = k \<and> repository_ok r)
     \<and> (\<forall>k l r s. f k = Some r \<longrightarrow> f l = Some s \<longrightarrow> or_name r = or_name s \<longrightarrow> k = l)"

definition registry_inv :: "('b, stored) bolt \<Rightarrow> 'b tx_state \<Rightarrow> bool" where
  "registry_inv B t \<longleftrightarrow> (\<forall>k v. get_projection B repository_projection k t = Some v \<longrightarrow> (\<exists>r. v = StRepository r))
     \<and> repos_inv (repository_at B t)"

text \<open>No registered repository disappears or changes its branch: references to it stay valid.\<close>

definition repositories_kept :: "(string \<rightharpoonup> owned_repository) \<Rightarrow> (string \<rightharpoonup> owned_repository) \<Rightarrow> bool" where
  "repositories_kept f f' \<longleftrightarrow> (\<forall>k r. f k = Some r \<longrightarrow>
     (\<exists>r'. f' k = Some r' \<and> or_id r' = or_id r \<and> or_branch r' = or_branch r \<and> or_created_at r' = or_created_at r))"

lemma repositories_kept_refl [simp]: "repositories_kept f f"
  by (simp add: repositories_kept_def)

lemma repos_inv_put:
  assumes "repos_inv f" and "or_id r = k" and "repository_ok r"
    and "\<And>l s. f l = Some s \<Longrightarrow> l \<noteq> k \<Longrightarrow> or_name s \<noteq> or_name r"
  shows "repos_inv (f(k \<mapsto> r))"
  unfolding repos_inv_def
proof (intro conjI allI impI)
  fix l s assume "(f(k \<mapsto> r)) l = Some s"
  then show "or_id s = l" "repository_ok s" using assms(1-3) by (auto simp: repos_inv_def split: if_split_asm)
next
  fix l m s q assume "(f(k \<mapsto> r)) l = Some s" "(f(k \<mapsto> r)) m = Some q" "or_name s = or_name q"
  then show "l = m" using assms(1,4) unfolding repos_inv_def by (auto split: if_split_asm)
qed

lemma name_free_entry: "name_free skip name es = Inr () \<Longrightarrow> (k, v) \<in> set es \<Longrightarrow> \<not> skip k \<Longrightarrow> \<exists>r. v = StRepository r \<and> or_name r \<noteq> name"
  by (induction es) (auto simp: as_repository_def split: if_split_asm option.splits stored.splits)

lemma registry_invD:
  "registry_inv B t \<Longrightarrow> get_projection B repository_projection k t = Some v \<Longrightarrow>
   \<exists>r. v = StRepository r \<and> repository_at B t k = Some r \<and> or_id r = k \<and> repository_ok r"
  by (auto simp: registry_inv_def repos_inv_def repository_at_def dest!: spec [where x = k])

context event_store
begin

lemma entries_projection:
  "tx_ok ok t \<Longrightarrow> (k, v) \<in> set (b_entries B (projection_bucket B name t)) \<longleftrightarrow> get_projection B name k t = Some v"
  by (auto simp: projection_bucket_def get_projection_def tx_ok_def entries_get ok_empty get_empty split: option.splits)

text \<open>Writing one record that takes no other record's name.\<close>

lemma registry_put:
  assumes "registry_inv B t" and "tx_ok ok t" and "or_id r = k" and "repository_ok r"
    and "name_free skip (or_name r) (b_entries B (projection_bucket B repository_projection t)) = Inr ()"
    and "\<And>l. skip l \<Longrightarrow> l = k"
    and "\<And>l. get_projection B repository_projection l t' = (if l = k then Some (StRepository r) else get_projection B repository_projection l t)"
  shows "registry_inv B t' \<and> repository_at B t' = (repository_at B t)(k \<mapsto> r)"
proof -
  have at: "repository_at B t' = (repository_at B t)(k \<mapsto> r)"
    by (auto simp: repository_at_def assms(7) fun_eq_iff)
  have "or_name s \<noteq> or_name r" if "repository_at B t l = Some s" "l \<noteq> k" for l s
    using that name_free_entry [OF assms(5)] entries_projection [OF assms(2), of l] assms(6)
    by (fastforce simp: repository_at_def split: option.splits)
  then have "repos_inv (repository_at B t')"
    unfolding at using repos_inv_put assms(1,3,4) by (simp add: registry_inv_def)
  then show ?thesis
    using assms(1,7) at unfolding registry_inv_def by auto
qed

text \<open>Commands that leave the registry alone.\<close>

lemma registry_same:
  assumes "\<And>k. get_projection B repository_projection k t' = get_projection B repository_projection k t"
  shows "registry_inv B t' = registry_inv B t \<and> repository_at B t' = repository_at B t"
proof -
  have "repository_at B t' = repository_at B t" by (simp add: repository_at_def assms fun_eq_iff)
  then show ?thesis by (simp add: registry_inv_def assms)
qed

end

section \<open>Steps\<close>

inductive repository_step ::
  "('b, stored) bolt \<Rightarrow> settings_codec \<Rightarrow> option_registry \<Rightarrow> 'b database \<Rightarrow> 'b database \<Rightarrow> bool"
  for B :: "('b, stored) bolt" and j :: settings_codec and reg :: option_registry where
  register: "register_repository B c d = Inr (r1, d') \<Longrightarrow> repository_step B j reg d d'"
| archive: "set_repository_archived B c2 d = Inr (r2, d') \<Longrightarrow> repository_step B j reg d d'"
| rename: "rename_repository B c3 d = Inr (r3, d') \<Longrightarrow> repository_step B j reg d d'"
| setting: "set_repository_setting B j reg c4 d = Inr (r4, d') \<Longrightarrow> repository_step B j reg d d'"
| environment: "set_repository_environment B j now c5 d = Inr (r5, d') \<Longrightarrow> repository_step B j reg d d'"

inductive_cases repository_stepE: "repository_step B j reg d d'"

text \<open>What holds of every step.\<close>

definition step_ok ::
  "('b, stored) bolt \<Rightarrow> ('b \<Rightarrow> bool) \<Rightarrow> 'b tx_state \<Rightarrow> 'b tx_state \<Rightarrow> domain_event list \<Rightarrow> bool" where
  "step_ok B ok t t' L \<longleftrightarrow> (\<exists>es. quiet_step B ok t t' L es) \<and> registry_inv B t'
     \<and> repositories_kept (repository_at B t) (repository_at B t')"

context event_store
begin

lemma step_refl: "log_rep B ok t L \<Longrightarrow> tx_ok ok t \<Longrightarrow> registry_inv B t \<Longrightarrow> step_ok B ok t t L"
  unfolding step_ok_def using quiet_refl by fastforce

lemma register_step:
  assumes "register_repository B c d = Inr (r, d')" and "log_rep B ok (db_tx d) L" and "tx_ok ok (db_tx d)" and "registry_inv B (db_tx d)"
  shows "step_ok B ok (db_tx d) (db_tx d') L"
proof -
  obtain repo where repo: "normalize_owned_repository (rg_repository c) = Inr repo"
    and tx: "register_tx B (c\<lparr>rg_repository := repo\<rparr>) (db_tx d) = Inr (r, db_tx d')"
    using assms(1) by (auto simp: register_repository_def split: if_split_asm sum.splits elim!: rbind_InrE)
  show ?thesis
  proof (cases "db_tx d' = db_tx d")
    case True
    then show ?thesis using step_refl assms by simp
  next
    case False
    then have fresh: "register_fresh B (c\<lparr>rg_repository := repo\<rparr>) (db_tx d) = Inr (r, db_tx d')"
      using tx by (auto simp: register_tx_def split: option.splits elim!: rbind_InrE)
    obtain es where q: "quiet_step B ok (db_tx d) (db_tx d') L es" and none: "get_projection B repository_projection (or_id repo) (db_tx d) = None"
      and free: "name_free (\<lambda>_. False) (or_name repo) (b_entries B (projection_bucket B repository_projection (db_tx d))) = Inr ()"
      and get: "\<And>name k. get_projection B name k (db_tx d') = (if name = repository_projection \<and> k = or_id repo
         then Some (StRepository repo) else get_projection B name k (db_tx d))"
      using register_fresh_spec [OF fresh assms(2,3)] by auto
    have put: "registry_inv B (db_tx d') \<and> repository_at B (db_tx d') = (repository_at B (db_tx d))(or_id repo \<mapsto> repo)"
      by (rule registry_put [OF assms(4,3) refl normalize_owned_ok [OF repo] free]) (simp_all add: get)
    moreover have "repository_at B (db_tx d) (or_id repo) = None" using none by (simp add: repository_at_def)
    ultimately show ?thesis using q by (auto simp: step_ok_def repositories_kept_def)
  qed
qed

lemma archive_step:
  assumes "set_repository_archived B c d = Inr (r, d')" and "log_rep B ok (db_tx d) L" and "tx_ok ok (db_tx d)" and "registry_inv B (db_tx d)"
  shows "step_ok B ok (db_tx d) (db_tx d') L"
proof (cases "db_tx d' = db_tx d")
  case True
  then show ?thesis using step_refl assms by simp
next
  case False
  then have fresh: "archive_fresh B c (db_tx d) = Inr (r, db_tx d')"
    using assms(1) by (auto simp: set_repository_archived_def archive_tx_def split: if_split_asm option.splits elim!: rbind_InrE)
  then obtain v where "get_projection B repository_projection (ac_repository c) (db_tx d) = Some v"
    by (auto simp: archive_fresh_def repository_of_def split: option.splits elim!: rbind_InrE)
  then obtain repo where repo: "get_projection B repository_projection (ac_repository c) (db_tx d) = Some (StRepository repo)"
    "repository_at B (db_tx d) (ac_repository c) = Some repo" "or_id repo = ac_repository c" "repository_ok repo"
    using registry_invD [OF assms(4)] by blast
  obtain es where q: "quiet_step B ok (db_tx d) (db_tx d') L es"
    and get: "\<And>name k. get_projection B name k (db_tx d') = (if name = repository_projection \<and> k = ac_repository c
         then Some (StRepository (repo\<lparr>or_archived := ac_archived c\<rparr>)) else get_projection B name k (db_tx d))"
    using archive_fresh_spec [OF fresh assms(2,3) repo(1,4)] by blast
  have at: "repository_at B (db_tx d') = (repository_at B (db_tx d))(ac_repository c \<mapsto> repo\<lparr>or_archived := ac_archived c\<rparr>)"
    by (auto simp: repository_at_def get fun_eq_iff)
  have inv: "repos_inv (repository_at B (db_tx d))" using assms(4) by (simp add: registry_inv_def)
  have "repos_inv (repository_at B (db_tx d'))" unfolding at
  proof (rule repos_inv_put [OF inv])
    fix l s assume "repository_at B (db_tx d) l = Some s" "l \<noteq> ac_repository c"
    then show "or_name s \<noteq> or_name (repo\<lparr>or_archived := ac_archived c\<rparr>)"
      using inv repo(2) unfolding repos_inv_def by auto
  qed (use repo(3,4) in \<open>simp_all add: repository_ok_def\<close>)
  then have "registry_inv B (db_tx d')" using assms(4) get unfolding registry_inv_def by simp
  then show ?thesis using q repo(2) at by (auto simp: step_ok_def repositories_kept_def)
qed

lemma rename_step:
  assumes "rename_repository B c d = Inr (r, d')" and "log_rep B ok (db_tx d) L" and "tx_ok ok (db_tx d)" and "registry_inv B (db_tx d)"
  shows "step_ok B ok (db_tx d) (db_tx d') L"
proof (cases "db_tx d' = db_tx d")
  case True
  then show ?thesis using step_refl assms by simp
next
  case False
  then have fresh: "rename_fresh B c (db_tx d) = Inr (r, db_tx d')" and name: "valid_repository_name (rn_name c)"
    using assms(1) by (auto simp: rename_repository_def rename_tx_def split: if_split_asm option.splits elim!: rbind_InrE)
  then obtain v where "get_projection B repository_projection (rn_repository c) (db_tx d) = Some v"
    by (auto simp: rename_fresh_def repository_of_def split: option.splits elim!: rbind_InrE)
  then obtain repo where repo: "get_projection B repository_projection (rn_repository c) (db_tx d) = Some (StRepository repo)"
    "repository_at B (db_tx d) (rn_repository c) = Some repo" "or_id repo = rn_repository c" "repository_ok repo"
    using registry_invD [OF assms(4)] by blast
  obtain es where q: "quiet_step B ok (db_tx d) (db_tx d') L es"
    and free: "name_free (\<lambda>k. k = rn_repository c) (rn_name c) (b_entries B (projection_bucket B repository_projection (db_tx d))) = Inr ()"
    and get: "\<And>name k. get_projection B name k (db_tx d') = (if name = repository_projection \<and> k = rn_repository c
         then Some (StRepository (repo\<lparr>or_name := rn_name c\<rparr>)) else get_projection B name k (db_tx d))"
    using rename_fresh_spec [OF fresh assms(2,3) repo(1,4,3) name] by blast
  have "registry_inv B (db_tx d') \<and> repository_at B (db_tx d') = (repository_at B (db_tx d))(rn_repository c \<mapsto> repo\<lparr>or_name := rn_name c\<rparr>)"
    by (rule registry_put [OF assms(4,3), where skip = "\<lambda>k. k = rn_repository c"])
      (use repo(3,4) name free in \<open>simp_all add: repository_ok_def get\<close>)
  then show ?thesis using q repo(2) by (auto simp: step_ok_def repositories_kept_def)
qed

lemma setting_step:
  assumes "set_repository_setting B j reg c d = Inr (r, d')" and "log_rep B ok (db_tx d) L" and "tx_ok ok (db_tx d)" and "registry_inv B (db_tx d)"
  shows "step_ok B ok (db_tx d) (db_tx d') L"
proof (cases "db_tx d' = db_tx d")
  case True
  then show ?thesis using step_refl assms by simp
next
  case False
  then obtain digest c' where fresh: "setting_fresh B j reg digest c' (db_tx d) = Inr (r, db_tx d')"
    using assms(1) by (auto simp: set_repository_setting_def setting_tx_def Let_def split: option.splits elim!: rbind_InrE)
  obtain es s where q: "quiet_step B ok (db_tx d) (db_tx d') L es"
    and get: "\<And>name k. get_projection B name k (db_tx d') = (if setting_changed c' s \<and> name = settings_projection \<and> k = sn_repository c'
         then Some (StSettings (changed_settings c' s)) else get_projection B name k (db_tx d))"
    using setting_fresh_spec [OF fresh assms(2,3)] by blast
  have "registry_inv B (db_tx d') = registry_inv B (db_tx d) \<and> repository_at B (db_tx d') = repository_at B (db_tx d)"
    by (rule registry_same) (simp add: get)
  then show ?thesis using q assms(4) unfolding step_ok_def by auto
qed

lemma environment_step:
  assumes "set_repository_environment B j now c d = Inr (r, d')" and "log_rep B ok (db_tx d) L" and "tx_ok ok (db_tx d)" and "registry_inv B (db_tx d)"
  shows "step_ok B ok (db_tx d) (db_tx d') L"
proof -
  obtain i e' where tx: "environment_tx B j now i c (db_tx d) = Inr (e', db_tx d')"
    using assms(1) by (auto simp: set_repository_environment_def split: if_split_asm elim!: rbind_InrE)
  obtain es and e :: repository_environment where q: "quiet_step B ok (db_tx d) (db_tx d') L es"
    and get: "\<forall>name k. get_projection B name k (db_tx d') = (if env_changes (en_vars e) (en_vars e') \<noteq> [] \<and> name = environment_projection \<and> k = i
         then Some (StEnvironment e') else get_projection B name k (db_tx d))"
    using environment_tx_spec [OF tx assms(2,3)] by blast
  have "registry_inv B (db_tx d') = registry_inv B (db_tx d) \<and> repository_at B (db_tx d') = repository_at B (db_tx d)"
    by (rule registry_same) (simp add: get)
  then show ?thesis using q assms(4) unfolding step_ok_def by auto
qed

lemmas repository_steps = register_step archive_step rename_step setting_step environment_step

lemma repository_step_ok:
  "repository_step B j reg d d' \<Longrightarrow> log_rep B ok (db_tx d) L \<Longrightarrow> tx_ok ok (db_tx d) \<Longrightarrow> registry_inv B (db_tx d) \<Longrightarrow>
   step_ok B ok (db_tx d) (db_tx d') L"
  by (induction rule: repository_step.induct) (rule repository_steps; assumption)+

end

section \<open>What a setting command writes\<close>

definition settings_sorted :: "repository_settings \<Rightarrow> bool" where
  "settings_sorted s \<longleftrightarrow> kv_ok (st_namespaces s) \<and> (\<forall>p\<in>set (st_namespaces s). kv_ok (snd p))"

definition entries_stored_ok :: "settings_codec \<Rightarrow> repository_settings \<Rightarrow> bool" where
  "entries_stored_ok j s \<longleftrightarrow> (\<forall>p\<in>set (st_namespaces s). snd p \<noteq> [] \<and> (\<forall>e\<in>set (snd p). stored_setting_ok j (fst p) e))"

lemma read_settings_ok: "read_settings B j i t = Inr s \<Longrightarrow> st_repository s = i \<and> entries_stored_ok j s"
  by (auto simp: read_settings_def no_settings_def stored_settings_ok_def entries_stored_ok_def list_all_iff
      split: option.splits if_split_asm)

lemma kv_get_entries: "settings_sorted s \<Longrightarrow> kv_ok (entries_of (kv_get (st_namespaces s) ns))"
  by (auto simp: settings_sorted_def entries_of_def kv_get_iff split: option.splits)

lemma changed_settings_lookup:
  assumes "settings_sorted s"
  shows "raw_setting (st_namespaces (changed_settings c s)) ns k =
    (if ns = sn_namespace c \<and> k = sn_key c then (if sn_unset c then None else Some (sn_value c))
     else raw_setting (st_namespaces s) ns k)"
proof -
  define es where "es = entries_of (kv_get (st_namespaces s) (sn_namespace c))"
  define es' where "es' = (if sn_unset c then kv_delete (sn_key c) es else kv_put (sn_key c) (sn_value c) es)"
  have ok: "kv_ok (st_namespaces s)" "kv_ok es" using assms kv_get_entries by (simp_all add: settings_sorted_def es_def)
  have es': "kv_get es' k = (if k = sn_key c then (if sn_unset c then None else Some (sn_value c)) else kv_get es k)" for k
    using ok(2) by (simp add: es'_def kv_get_put kv_get_delete)
  have es: "kv_get es k = raw_setting (st_namespaces s) (sn_namespace c) k" for k
    by (simp add: es_def entries_of_def raw_setting_def split: option.split)
  have "st_namespaces (changed_settings c s) = (if es' = [] then kv_delete (sn_namespace c) (st_namespaces s)
      else kv_put (sn_namespace c) es' (st_namespaces s))"
    by (simp add: changed_settings_def Let_def es'_def es_def)
  then have "raw_setting (st_namespaces (changed_settings c s)) ns k
      = (if ns = sn_namespace c then kv_get es' k else raw_setting (st_namespaces s) ns k)"
    using ok(1) by (auto simp: raw_setting_def kv_get_put kv_get_delete)
  then show ?thesis using es' es by simp
qed

lemma changed_settings_entries:
  assumes "settings_sorted s" and "entries_stored_ok j s"
    and "sn_unset c \<or> stored_setting_ok j (sn_namespace c) (sn_key c, sn_value c)"
  shows "entries_stored_ok j (changed_settings c s)"
proof -
  define es where "es = entries_of (kv_get (st_namespaces s) (sn_namespace c))"
  have ok: "kv_ok (st_namespaces s)" "kv_ok es" using assms(1) kv_get_entries by (simp_all add: settings_sorted_def es_def)
  have es: "stored_setting_ok j (sn_namespace c) e" if e: "e \<in> set es" for e
  proof -
    have "(sn_namespace c, es) \<in> set (st_namespaces s)"
    proof -
      have "kv_get (st_namespaces s) (sn_namespace c) = Some es"
        using e by (cases "kv_get (st_namespaces s) (sn_namespace c)") (simp_all add: es_def entries_of_def)
      then show ?thesis using ok(1) by (simp add: kv_get_iff)
    qed
    then show ?thesis using assms(2) e unfolding entries_stored_ok_def by force
  qed
  show ?thesis
    using assms(2,3) es ok unfolding entries_stored_ok_def
    by (auto simp: changed_settings_def Let_def es_def [symmetric] set_kv_put kv_delete_def)
qed

lemma prepare_setting_spec:
  assumes "prepare_setting j c = Inr c'"
  shows "\<exists>x. c' = c\<lparr>sn_value := x\<rparr>" and "is_ok (split_repository_key (sn_namespace c @ ''.'' @ sn_key c))"
    and "\<not> sn_unset c \<Longrightarrow> length (sn_value c') \<le> max_value_bytes"
    and "command_malformed (sn_id c) (sn_protocol c) (sn_created_at c) = False"
  using assms by (auto simp: prepare_setting_def split: if_split_asm option.splits) (metis setting_command.surjective setting_command.update_convs(7))

lemma replayed_fresh: "replayed B i same t = Inr old \<Longrightarrow> outcome_of B i t = None \<Longrightarrow> old = None"
  by (auto simp: replayed_def split: if_split_asm)

lemma set_setting_fresh:
  assumes "set_repository_setting B j reg c d = Inr (r, d')" and "outcome_of B (sn_id c) (db_tx d) = None"
    and "prepare_setting j c = Inr c'"
  shows "setting_fresh B j reg (hex_digest 32 (sj_command j c')) c' (db_tx d) = Inr (r, db_tx d')"
proof -
  have "sn_id c' = sn_id c" using prepare_setting_spec(1) [OF assms(3)] by auto
  then show ?thesis
    using assms by (auto simp: set_repository_setting_def setting_tx_def Let_def dest!: replayed_fresh elim!: rbind_InrE)
qed

section \<open>Properties\<close>


text \<open>A setting command is applied only to the revision it expects; afterwards the settings read back with the
  canonical text of its value (or without the setting) under its key and every other setting as before, at
  the next revision if anything changed; a value that is set passed the option's validation.\<close>

theorem set_setting_correct:
  assumes "bucket_store B ok" and "log_rep B ok (db_tx d) L" and "tx_ok ok (db_tx d)" and "sj_decode j [] = None"
    and "set_repository_setting B j reg c d = Inr (r, d')" and "outcome_of B (sn_id c) (db_tx d) = None"
    and "prepare_setting j c = Inr c'" and "read_settings B j (sn_repository c) (db_tx d) = Inr s" and "settings_sorted s"
  shows "st_revision s = sn_expected c
    \<and> (\<exists>s'. read_settings B j (sn_repository c) (db_tx d') = Inr s' \<and> st_revision s' = sx_revision r
        \<and> st_revision s' = (if sx_changed r then st_revision s + 1 else st_revision s)
        \<and> (\<forall>ns k. raw_setting (st_namespaces s') ns k =
             (if ns = sn_namespace c \<and> k = sn_key c then (if sn_unset c then None else Some (sn_value c'))
              else raw_setting (st_namespaces s) ns k)))
    \<and> (\<not> sn_unset c \<longrightarrow> (\<exists>v. sj_decode j (sn_value c') = Some v
         \<and> validate_repository_setting reg (sn_namespace c) (sn_key c) v = Inr ()))"
proof -
  note es = event_store_bucket [OF assms(1)]
  obtain x where c': "c' = c\<lparr>sn_value := x\<rparr>" using prepare_setting_spec(1) [OF assms(7)] by blast
  have f: "sn_repository c' = sn_repository c" "sn_namespace c' = sn_namespace c" "sn_key c' = sn_key c" "sn_unset c' = sn_unset c"
    "sn_expected c' = sn_expected c" by (simp_all add: c')
  note fresh = set_setting_fresh [OF assms(5-7)]
  from event_store.setting_fresh_spec [OF es fresh assms(2,3)] assms(8)
  have rev: "st_revision s = sn_expected c" and acc: "setting_accepted j reg c' = Inr ()" and ch: "sx_changed r = setting_changed c' s"
    and lim: "setting_changed c' s \<longrightarrow> st_revision s \<noteq> - 1 \<and> length (sj_settings j (changed_settings c' s)) \<le> max_settings_bytes"
    and rr: "sx_revision r = (if setting_changed c' s then st_revision (changed_settings c' s) else st_revision s)"
    and get: "\<And>name k. get_projection B name k (db_tx d') = (if setting_changed c' s \<and> name = settings_projection \<and> k = sn_repository c
         then Some (StSettings (changed_settings c' s)) else get_projection B name k (db_tx d))"
    by (auto simp: f)
  have val: "\<exists>v. sj_decode j (sn_value c') = Some v \<and> validate_repository_setting reg (sn_namespace c) (sn_key c) v = Inr ()"
    if "\<not> sn_unset c"
    using acc that by (auto simp: setting_accepted_def f split: option.splits sum.splits)
  show ?thesis
  proof (cases "setting_changed c' s")
    case False
    then have "read_settings B j (sn_repository c) (db_tx d') = Inr s" using assms(8) get by (simp add: read_settings_def)
    moreover have "raw_setting (st_namespaces s) (sn_namespace c) (sn_key c) = (if sn_unset c then None else Some (sn_value c'))"
      using False by (auto simp: setting_changed_def f Let_def split: if_split_asm)
    ultimately show ?thesis using rev rr False val ch by auto
  next
    case True
    let ?s = "changed_settings c' s"
    have one: "st_revision ?s = st_revision s + 1" "st_repository ?s = st_repository s" by (simp_all add: changed_settings_def Let_def)
    have "sn_unset c' \<or> stored_setting_ok j (sn_namespace c') (sn_key c', sn_value c')"
      using val prepare_setting_spec(2,3) [OF assms(7)] assms(4) by (fastforce simp: stored_setting_ok_def f)
    then have "entries_stored_ok j ?s"
      using changed_settings_entries [OF assms(9)] read_settings_ok [OF assms(8)] by blast
    moreover have "st_revision ?s \<noteq> 0" using lim True by (metis one(1) eq_neg_iff_add_eq_0)
    ultimately have "read_settings B j (sn_repository c) (db_tx d') = Inr ?s"
      using lim True read_settings_ok [OF assms(8)]
      by (simp add: read_settings_def get stored_settings_ok_def one entries_stored_ok_def list_all_iff)
    then show ?thesis
      using rev rr True val ch changed_settings_lookup [OF assms(9), of c'] by (auto simp: one f)
  qed
qed

text \<open>The history never shows a setting's value: two commands that differ only in their values leave the
  same events behind, whenever both change the settings or neither does.\<close>

theorem settings_history_hides_values:
  assumes "bucket_store B ok" and "log_rep B ok (db_tx d) L" and "tx_ok ok (db_tx d)"
    and "set_repository_setting B j reg c d = Inr (r1, d1)" and "set_repository_setting B j reg (c\<lparr>sn_value := x\<rparr>) d = Inr (r2, d2)"
    and "outcome_of B (sn_id c) (db_tx d) = None" and "sx_changed r1 = sx_changed r2"
  shows "\<exists>es. log_rep B ok (db_tx d1) (L @ es) \<and> log_rep B ok (db_tx d2) (L @ es) \<and> sx_revision r1 = sx_revision r2"
proof -
  note es = event_store_bucket [OF assms(1)]
  obtain c1 where p1: "prepare_setting j c = Inr c1"
    using assms(4) by (auto simp: set_repository_setting_def elim!: rbind_InrE)
  obtain c2 where p2: "prepare_setting j (c\<lparr>sn_value := x\<rparr>) = Inr c2"
    using assms(5) by (auto simp: set_repository_setting_def elim!: rbind_InrE)
  obtain x1 x2 where c: "c1 = c\<lparr>sn_value := x1\<rparr>" "c2 = c\<lparr>sn_value := x2\<rparr>"
    using prepare_setting_spec(1) [OF p1] prepare_setting_spec(1) [OF p2] by auto
  have out: "outcome_of B (sn_id (c\<lparr>sn_value := x\<rparr>)) (db_tx d) = None" using assms(6) by simp
  obtain es1 s1 where s1: "quiet_step B ok (db_tx d) (db_tx d1) L es1" "read_settings B j (sn_repository c) (db_tx d) = Inr s1"
      "sx_changed r1 = setting_changed c1 s1"
      "es1 = (if setting_changed c1 s1 then [(setting_event c1 (changed_settings c1 s1))\<lparr>de_sequence := of_nat (Suc (length L))\<rparr>] else [])"
      "sx_revision r1 = (if setting_changed c1 s1 then st_revision (changed_settings c1 s1) else st_revision s1)"
    using event_store.setting_fresh_spec [OF es set_setting_fresh [OF assms(4,6) p1] assms(2,3)] by (auto simp: c(1))
  obtain es2 s2 where s2: "quiet_step B ok (db_tx d) (db_tx d2) L es2" "read_settings B j (sn_repository c) (db_tx d) = Inr s2"
      "sx_changed r2 = setting_changed c2 s2"
      "es2 = (if setting_changed c2 s2 then [(setting_event c2 (changed_settings c2 s2))\<lparr>de_sequence := of_nat (Suc (length L))\<rparr>] else [])"
      "sx_revision r2 = (if setting_changed c2 s2 then st_revision (changed_settings c2 s2) else st_revision s2)"
    using event_store.setting_fresh_spec [OF es set_setting_fresh [OF assms(5) out p2] assms(2,3)] by (auto simp: c(2))
  have same: "s2 = s1" using s1(2) s2(2) by simp
  have "st_revision (changed_settings c1 s1) = st_revision (changed_settings c2 s1)" by (simp add: changed_settings_def Let_def)
  then have "setting_event c1 (changed_settings c1 s1) = setting_event c2 (changed_settings c2 s1)" and
    "es2 = es1" "sx_revision r1 = sx_revision r2"
    using s1(3-5) s2(3-5) assms(7) by (simp_all add: setting_event_def same c)
  then show ?thesis using s1(1) s2(1) by (auto simp: quiet_step_def)
qed

text \<open>A change of a repository's environment is refused at another revision than the expected one; otherwise
  the variables are afterwards the given ones (replacing), or the old ones with the set ones added or
  updated and the unset ones removed, and the revision moves on exactly when a variable changed.\<close>

theorem set_environment_correct:
  assumes "bucket_store B ok" and "log_rep B ok (db_tx d) L" and "tx_ok ok (db_tx d)"
    and "set_repository_environment B j now c d = Inr ((repo, e'), d')"
    and "read_environment B (or_id repo) (db_tx d) = Inr e" and "distinct (List.map ev_key (en_vars e))"
  shows "(ec_expected c = None \<or> ec_expected c = Some (en_revision e))
    \<and> env_map (en_vars e') k = (if ec_replace c then env_map (ec_set c) k
        else if k \<in> set (ec_unset c) then None else case env_map (ec_set c) k of None \<Rightarrow> env_map (en_vars e) k | Some x \<Rightarrow> Some x)
    \<and> (\<exists>e2. read_environment B (or_id repo) (db_tx d') = Inr e2 \<and> env_map (en_vars e2) = env_map (en_vars e')
        \<and> en_revision e2 = en_revision e' \<and> distinct (List.map ev_key (en_vars e2))
        \<and> en_revision e2 = (if env_map (en_vars e') = env_map (en_vars e) then en_revision e else en_revision e + 1))"
proof -
  note es = event_store_bucket [OF assms(1)]
  have valid: "is_ok (valid_env (ec_set c))" and tx: "environment_tx B j now (or_id repo) c (db_tx d) = Inr (e', db_tx d')"
    using assms(4) by (auto simp: set_repository_environment_def split: if_split_asm elim!: rbind_InrE)
  have loop: "valid_env_loop vs seen = Inr () \<Longrightarrow> distinct (List.map ev_key vs) \<and> set seen \<inter> ev_key ` set vs = {}" for vs seen
  proof (induction vs arbitrary: seen)
    case (Cons v vs)
    then have "valid_env_loop vs (ev_key v # seen) = Inr ()" "ev_key v \<notin> set seen" by (auto split: if_split_asm)
    then show ?case using Cons.IH [of "ev_key v # seen"] by auto
  qed simp
  have set_keys: "distinct (List.map ev_key (ec_set c))"
    using valid loop [of "ec_set c" "[]"] by (cases "valid_env (ec_set c)") (auto simp: valid_env_def)
  from event_store.environment_tx_spec [OF es tx assms(2,3)] assms(5)
  have fence: "ec_expected c = None \<or> ec_expected c = Some (en_revision e)" and vars: "en_vars e' = next_vars c (en_vars e)"
    and rev: "if env_changes (en_vars e) (en_vars e') = [] then db_tx d' = db_tx d \<and> en_revision e' = en_revision e
      else en_revision e' = en_revision e + 1 \<and> en_changed_at e' = Some now \<and> length (sj_environment j e') \<le> max_environment_bytes"
    and get: "\<And>name k. get_projection B name k (db_tx d') = (if env_changes (en_vars e) (en_vars e') \<noteq> [] \<and> name = environment_projection
      \<and> k = or_id repo then Some (StEnvironment e') else get_projection B name k (db_tx d))"
    by auto
  note merge = merge_env_correct [OF assms(6), of "ec_set c" "ec_unset c"]
  have keys: "distinct (List.map ev_key (en_vars e'))"
    using set_keys merge by (simp add: vars next_vars_def)
  have map: "env_map (en_vars e') k = (if ec_replace c then env_map (ec_set c) k
        else if k \<in> set (ec_unset c) then None else case env_map (ec_set c) k of None \<Rightarrow> env_map (en_vars e) k | Some x \<Rightarrow> Some x)"
    using merge by (simp add: vars next_vars_def)
  have ch: "env_changes (en_vars e) (en_vars e') = [] \<longleftrightarrow> env_map (en_vars e') = env_map (en_vars e)"
  proof -
    have "set (env_changes (en_vars e) (en_vars e')) = {k. env_map (en_vars e) k \<noteq> env_map (en_vars e') k}"
      using env_changes_correct [OF assms(6) keys] by blast
    then have "env_changes (en_vars e) (en_vars e') = [] \<longleftrightarrow> {k. env_map (en_vars e) k \<noteq> env_map (en_vars e') k} = {}"
      by (metis set_empty)
    then show ?thesis by (auto simp: fun_eq_iff)
  qed
  have "\<exists>e2. read_environment B (or_id repo) (db_tx d') = Inr e2 \<and> env_map (en_vars e2) = env_map (en_vars e')
        \<and> en_revision e2 = en_revision e' \<and> distinct (List.map ev_key (en_vars e2))
        \<and> en_revision e2 = (if env_map (en_vars e') = env_map (en_vars e) then en_revision e else en_revision e + 1)"
  proof (cases "env_changes (en_vars e) (en_vars e') = []")
    case True
    then show ?thesis using rev assms(5,6) ch by (intro exI [of _ e]) simp
  next
    case False
    have "en_repository e' = or_id repo"
    proof -
      have "en_repository e = or_id repo" using assms(5) by (auto simp: read_environment_def no_environment_def split: option.splits if_split_asm)
      moreover have "en_repository e' = en_repository e"
        using tx unfolding environment_tx_def assms(5) Let_def rbind_simps
        by (elim if_resultE rbind_InrE) (auto split: if_split_asm elim!: rbind_InrE)
      ultimately show ?thesis by simp
    qed
    then show ?thesis using rev False ch keys get by (intro exI [of _ e']) (simp add: read_environment_def)
  qed
  then show ?thesis using fence map by blast
qed

section \<open>A concrete registry\<close>

definition first_repo :: owned_repository where
  "first_repo = \<lparr>or_id = m_id this_item, or_name = ''core'', or_branch = ''main'', or_created_at = 5, or_archived = False\<rparr>"

lemma first_repo_ok: "normalize_owned_repository first_repo = Inr first_repo"
  by (rule normalize_owned_fixed)
    (simp add: repository_ok_def first_repo_def start_valid valid_repository_name_def name_start_char_def is_zero_time_def
      zero_time_def validate_repository_branch_def bad_branch_part_def branch_special_def has_prefix_def has_suffix_def
      runes_ascii is_ascii_def)

definition repo_tx :: "(string \<times> stored) list tx_state" where
  "repo_tx = put_projection list_bolt repository_projection (or_id first_repo) (StRepository first_repo) list_tx"

definition repo_db :: "(string \<times> stored) list database" where
  "repo_db = \<lparr>db_tx = repo_tx, db_changes = new_change_log ''k''\<rparr>"

lemma repo_tx_get: "get_projection list_bolt name k repo_tx =
   (if name = repository_projection \<and> k = or_id first_repo then Some (StRepository first_repo) else None)"
  unfolding repo_tx_def using list_events.get_put_projection [OF list_tx_ok]
  by (simp add: get_projection_def new_tx_def)

lemma repo_tx_rep: "log_rep list_bolt kv_ok repo_tx []" "tx_ok kv_ok repo_tx"
  using list_tx_rep list_events.tx_ok_put(4) [OF list_tx_ok] by (simp_all add: repo_tx_def log_rep_def)

lemma repo_tx_inv: "store_inv list_bolt kv_ok repo_tx []" "registry_inv list_bolt repo_tx"
proof -
  have "manifest_at list_bolt repo_tx = Map.empty" "items_ok list_bolt repo_tx"
    by (simp_all add: manifest_at_def items_ok_def repo_tx_get fun_eq_iff)
  moreover have "items_inv Map.empty" by (simp add: items_inv_def dependency_def acyclic_def)
  ultimately show "store_inv list_bolt kv_ok repo_tx []" using repo_tx_rep by (simp add: store_inv_def)
  have "repository_at list_bolt repo_tx = [or_id first_repo \<mapsto> first_repo]"
    by (simp add: repository_at_def repo_tx_get fun_eq_iff)
  then show "registry_inv list_bolt repo_tx"
    using normalize_owned_ok [OF first_repo_ok] by (simp add: registry_inv_def repos_inv_def repo_tx_get)
qed

lemma repo_tx_fresh:
  "outcome_of list_bolt i repo_tx = None" "kv_get (tx_commands repo_tx) i = None" "kv_get (tx_event_ids repo_tx) i = None"
  "global_sequence list_bolt repo_tx = 0" "tx_projections repo_tx repository_projection = Some [(or_id first_repo, StRepository first_repo)]"
  by (simp_all add: repo_tx_def put_projection_def set_projection_def projection_bucket_def outcome_of_def new_tx_def kv_get_def
      global_sequence_def get_u64_def)

definition text_codec :: settings_codec where
  "text_codec = \<lparr>sj_decode = (\<lambda>s. if s = [] then None else Some (VNumber s)), sj_marshal = (\<lambda>v. case v of VNumber s \<Rightarrow> s | _ \<Rightarrow> ''0''),
     sj_command = (\<lambda>_. []), sj_settings = (\<lambda>_. []), sj_environment = (\<lambda>_. [])\<rparr>"

definition port_command :: setting_command where
  "port_command = \<lparr>sn_id = ''c1'', sn_protocol = 3, sn_repository = or_id first_repo, sn_expected = 0, sn_namespace = ''plugins.demo'',
     sn_key = ''port'', sn_value = ''90'', sn_unset = False, sn_created_at = 5\<rparr>"

lemma port_prepared: "prepare_setting text_codec port_command = Inr port_command"
  by (simp add: prepare_setting_def port_command_def command_malformed_def id_invalid_def compact_identifier_printable is_zero_time_def
      zero_time_def first_repo_def start_valid split_repository_key_def valid_name_def name_char_def text_codec_def)

lemma port_accepted: "validate_repository_setting demo_registry ''plugins.demo'' ''port'' (VNumber ''90'') = Inr ()"
  by (simp add: validate_repository_setting_def demo_port(1) validate_value_def port_option_def
      has_type_def outside_bounds_def int_of_value_def parse_int64_def is_digit_def digits_value_def)

lemma port_runs: "\<exists>r d'. set_repository_setting list_bolt text_codec demo_registry port_command repo_db = Inr (r, d') \<and> sx_changed r"
proof -
  have repo: "repository_of list_bolt (or_id first_repo) repo_tx = Inr first_repo"
    by (simp add: repository_of_def repo_tx_get)
  have read: "read_settings list_bolt text_codec (or_id first_repo) repo_tx = Inr (no_settings (or_id first_repo))"
    by (simp add: read_settings_def repo_tx_get)
  have acc: "setting_accepted text_codec demo_registry port_command = Inr ()"
    by (simp add: setting_accepted_def port_command_def text_codec_def port_accepted)
  have "\<exists>n t'. append_domain_event list_bolt e (put_projection list_bolt settings_projection k v repo_tx) = Inr (n, t')" for e k v
    using repo_tx_fresh by (simp add: append_domain_event_def put_projection_def set_projection_def global_sequence_def)
  then obtain n t' where ap: "append_domain_event list_bolt (setting_event port_command (changed_settings port_command (no_settings (or_id first_repo))))
      (put_projection list_bolt settings_projection (or_id first_repo) (StSettings (changed_settings port_command (no_settings (or_id first_repo)))) repo_tx)
      = Inr (n, t')" by blast
  have ch: "setting_changed port_command (no_settings (or_id first_repo))"
    by (simp add: setting_changed_def port_command_def no_settings_def raw_setting_def)
  have f: "sn_repository port_command = or_id first_repo" "sn_expected port_command = 0"
    by (simp_all add: port_command_def)
  have "\<exists>r t'. setting_fresh list_bolt text_codec demo_registry digest port_command repo_tx = Inr (r, t') \<and> sx_changed r" for digest
    unfolding setting_fresh_def f repo rbind_simps first_repo_ok read acc
    using ap ch by (simp add: Let_def no_settings_def [where i = "or_id first_repo"] text_codec_def first_repo_ok)
  then obtain r t' where "setting_fresh list_bolt text_codec demo_registry (hex_digest 32 (sj_command text_codec port_command))
      port_command repo_tx = Inr (r, t')" "sx_changed r" by blast
  then show ?thesis
    using repo_tx_fresh by (simp add: set_repository_setting_def port_prepared setting_tx_def replayed_def repo_db_def Let_def)
qed


theorem set_setting_correct_witness:
  "\<exists>r d'. set_repository_setting list_bolt text_codec demo_registry port_command repo_db = Inr (r, d')
     \<and> (\<exists>s'. read_settings list_bolt text_codec (or_id first_repo) (db_tx d') = Inr s' \<and> st_revision s' = 1
          \<and> raw_setting (st_namespaces s') ''plugins.demo'' ''port'' = Some ''90'')"
proof -
  obtain r d' where run: "set_repository_setting list_bolt text_codec demo_registry port_command repo_db = Inr (r, d')" "sx_changed r"
    using port_runs by blast
  have read: "read_settings list_bolt text_codec (sn_repository port_command) (db_tx repo_db) = Inr (no_settings (or_id first_repo))"
    by (simp add: read_settings_def repo_tx_get repo_db_def port_command_def)
  have out: "outcome_of list_bolt (sn_id port_command) (db_tx repo_db) = None" by (simp add: repo_db_def repo_tx_fresh)
  have rep: "log_rep list_bolt kv_ok (db_tx repo_db) []" "tx_ok kv_ok (db_tx repo_db)" using repo_tx_rep by (simp_all add: repo_db_def)
  have "sj_decode text_codec [] = None" "settings_sorted (no_settings (or_id first_repo))"
    by (simp_all add: text_codec_def settings_sorted_def no_settings_def)
  from set_setting_correct [OF list_store.bucket_store_axioms rep this(1) run(1) out port_prepared read this(2)] run
  show ?thesis by (auto simp: port_command_def no_settings_def)
qed

theorem settings_history_hides_values_witness:
  "\<exists>r d'. set_repository_setting list_bolt text_codec demo_registry port_command repo_db = Inr (r, d')
     \<and> (\<exists>es. log_rep list_bolt kv_ok (db_tx d') es)"
proof -
  obtain r d' where run: "set_repository_setting list_bolt text_codec demo_registry port_command repo_db = Inr (r, d')"
    using port_runs by blast
  have "port_command\<lparr>sn_value := ''90''\<rparr> = port_command" by (simp add: port_command_def)
  then have run2: "set_repository_setting list_bolt text_codec demo_registry (port_command\<lparr>sn_value := ''90''\<rparr>) repo_db = Inr (r, d')"
    using run by simp
  have out: "outcome_of list_bolt (sn_id port_command) (db_tx repo_db) = None" by (simp add: repo_db_def repo_tx_fresh)
  have rep: "log_rep list_bolt kv_ok (db_tx repo_db) []" "tx_ok kv_ok (db_tx repo_db)" using repo_tx_rep by (simp_all add: repo_db_def)
  from settings_history_hides_values [OF list_store.bucket_store_axioms rep run run2 out refl] run show ?thesis by auto
qed

definition path_command :: environment_command where
  "path_command = \<lparr>ec_selector = ''core'', ec_expected = Some 0, ec_replace = False, ec_set = [\<lparr>ev_key = ''A'', ev_value = ''1''\<rparr>], ec_unset = []\<rparr>"

theorem set_environment_correct_witness:
  "\<exists>e' d'. set_repository_environment list_bolt text_codec 9 path_command repo_db = Inr ((first_repo, e'), d')
     \<and> env_map (en_vars e') ''A'' = Some ''1''"
proof -
  have sel: "repository_settings_of list_bolt text_codec ''core'' repo_tx = Inr (first_repo, no_settings (or_id first_repo))"
    by (simp add: repository_settings_of_def repo_tx_fresh first_repo_ok read_settings_def repo_tx_get)
      (simp add: first_repo_def valid_repository_name_def name_start_char_def)
  have read: "read_environment list_bolt (or_id first_repo) repo_tx = Inr (no_environment (or_id first_repo))"
    by (simp add: read_environment_def repo_tx_get)
  have ok: "is_ok (valid_env [\<lparr>ev_key = ''A'', ev_value = ''1''\<rparr>])"
    by (simp add: valid_env_def valid_env_key_def env_start_char_def has_prefix_def)
  have "\<exists>n t'. append_domain_event list_bolt e (put_projection list_bolt environment_projection k v repo_tx) = Inr (n, t')" for e k v
    using repo_tx_fresh by (simp add: append_domain_event_def put_projection_def set_projection_def global_sequence_def)
  then have "\<exists>e' t'. environment_tx list_bolt text_codec 9 (or_id first_repo) path_command repo_tx = Inr (e', t')"
    by (simp add: environment_tx_def read no_environment_def path_command_def Let_def next_vars_def merge_env_def text_codec_def)
      (metis (no_types, lifting) case_prod_conv rbind_simps(2))
  then obtain e' d' where run: "set_repository_environment list_bolt text_codec 9 path_command repo_db = Inr ((first_repo, e'), d')"
    using sel ok by (auto simp: set_repository_environment_def path_command_def repo_db_def)
  have rep: "log_rep list_bolt kv_ok (db_tx repo_db) []" "tx_ok kv_ok (db_tx repo_db)" using repo_tx_rep by (simp_all add: repo_db_def)
  have e: "read_environment list_bolt (or_id first_repo) (db_tx repo_db) = Inr (no_environment (or_id first_repo))"
    "distinct (List.map ev_key (en_vars (no_environment (or_id first_repo))))" using read by (simp_all add: repo_db_def no_environment_def)
  from set_environment_correct [OF list_store.bucket_store_axioms rep run e, of "''A''"] run show ?thesis
    by (auto simp: path_command_def env_map_def)
qed

end
