(* ===== verification/Protocol.thy ===== *)
theory Protocol
  imports GoStrings KeyValue "HOL-Library.Sublist"
begin

text \<open>
  The closed vocabularies and content limits of the agent-driver protocol (\<open>agentdriver/protocol\<close>): readiness,
  delivery states and reason codes (\<open>runtime_status.go\<close>), native state observations (\<open>runtime.go\<close>), runtime
  modes and settings (\<open>modes.go\<close>), control commands (\<open>control_content.go\<close>), and title requests (\<open>title.go\<close>).
\<close>

section \<open>Status facts\<close>

definition valid_readiness :: "string \<Rightarrow> bool" where
  "valid_readiness v \<longleftrightarrow> v \<in> set [[], ''starting'', ''ready'', ''busy'', ''awaiting_confirmation'', ''waiting_input'', ''blocked'', ''stopping'']"

definition valid_delivery_state :: "string \<Rightarrow> bool" where
  "valid_delivery_state v \<longleftrightarrow> v \<in> set [[], ''queued'', ''submitted'', ''confirmed'', ''not_sent'', ''uncertain'', ''cancelled'']"

definition awaits_answer :: "string \<Rightarrow> bool" where
  "awaits_answer code \<longleftrightarrow> code \<in> set [''question_pending'', ''plan_approval_pending'', ''permission_pending'']"

definition reason_table :: "(string \<times> string) list" where
  "reason_table =
    [(''runtime_stopping'', ''Claude is stopping''),
     (''headless_input_unavailable'', ''Claude native input is unavailable; restart before further delivery''),
     (''headless_initializing'', ''Waiting for Claude native JSON control initialization''),
     (''headless_ready'', ''Claude native headless control is ready''),
     (''headless_protocol_error'', ''Claude headless protocol failed; delivery may be uncertain''),
     (''interaction_required'', ''Interactive approval or user input is unavailable in headless mode''),
     (''native_auth_failed'', ''Claude authentication or account access failed; inspect its private runtime output''),
     (''usage_limit'', ''Usage limit reached; the turn stopped until it resets''),
     (''native_api_failed'', ''Claude'' @ [CHR 0x27] @ ''s model or API request failed''),
     (''native_turn_interrupted'', ''Claude'' @ [CHR 0x27] @ ''s turn was interrupted''),
     (''native_queued_cancelled'', ''Claude cancelled queued input before execution''),
     (''native_command_rejected'', ''Claude rejected or cancelled submitted input''),
     (''runtime_starting'', ''Claude is starting''),
     (''session_start_pending'', ''Waiting for Claude SessionStart; inspect its TUI for setup or disabled hooks''),
     (''editor_not_visible'', ''Claude chat editor is not visible; inspect its TUI''),
     (''question_pending'', ''Claude is waiting for your answer''),
     (''plan_approval_pending'', ''Claude is waiting for plan approval''),
     (''permission_pending'', ''Claude is waiting for permission''),
     (''editor_not_empty'', ''Claude editor contains a draft or dialog; no input sent''),
     (''controls_unavailable'', ''Claude terminal controls are unavailable''),
     (''bindings_unavailable'', ''Claude keybindings cannot be resolved safely''),
     (''bindings_changed'', ''Claude keybindings changed; restart the runtime''),
     (''pane_unavailable'', ''Claude pane inspection failed''),
     (''pane_changed'', ''Claude pane ownership or input state changed''),
     (''editor_ready'', ''Claude chat editor is ready''),
     (''execution_pending'', ''Native prompt received; execution has not yet been observed''),
     (''prompt_blocked'', ''Claude blocked the prompt through a user hook; no model execution''),
     (''active_turn'', ''Claude reports active work''),
     (''paste_readback_missing'', ''Pasted draft was not confirmed; submission shortcut not sent; do not resend automatically''),
     (''paste_uncertain'', ''Paste delivery is uncertain; do not resend automatically''),
     (''submission_uncertain'', ''Submission shortcut delivery is uncertain; do not resend automatically''),
     (''submission_interrupted'', ''Prompt interrupted before native receipt confirmation; do not resend automatically''),
     (''confirmation_timeout'', ''Native submission was not confirmed; do not resend automatically''),
     (''abort_uncertain'', ''Abort delivery is uncertain; do not repeat automatically''),
     (''abort_timeout'', ''Abort settlement was not confirmed; do not repeat automatically''),
     (''queued_cancelled'', ''Queued command cancelled before delivery''),
     (''runtime_stopped'', ''Runtime stopped before command confirmation''),
     (''queued_screen_busy'', ''Command queued until Claude'' @ [CHR 0x27] @ ''s screen is free; close the dialog in its terminal''),
     (''queued_follow_up'', ''Command queued until the current turn settles''),
     (''queued_startup'', ''Command queued until Claude is ready''),
     (''native_confirmed'', ''Native prompt receipt or abort settlement confirmed''),
     (''command_submitted'', ''Command submitted; awaiting native confirmation''),
     (''delivery_failed'', ''Terminal delivery failed; inspect the runtime''),
     (''setting_applied'', ''Runtime setting changed''),
     (''setting_rejected'', ''Runtime refused a setting change''),
     (''abort_accepted'', ''The agent stopped its turn'')]"

definition runtime_reason_text :: "string \<Rightarrow> string" where
  "runtime_reason_text code = (case map_of reason_table code of None \<Rightarrow> [] | Some s \<Rightarrow> s)"

definition valid_reason_code :: "string \<Rightarrow> bool" where
  "valid_reason_code code \<longleftrightarrow> code = [] \<or> runtime_reason_text code \<noteq> []"

definition setting_outcome :: "string \<Rightarrow> bool" where
  "setting_outcome code \<longleftrightarrow> code = ''setting_applied'' \<or> code = ''setting_rejected''"

definition quiet_outcome :: "string \<Rightarrow> bool" where
  "quiet_outcome code \<longleftrightarrow> setting_outcome code \<or> code = ''abort_accepted''"

definition leaf_char :: "char \<Rightarrow> bool" where
  "leaf_char c \<longleftrightarrow> (let n = of_char c :: nat in 97 \<le> n \<and> n \<le> 122 \<or> 65 \<le> n \<and> n \<le> 90 \<or> 48 \<le> n \<and> n \<le> 57)
     \<or> c = CHR ''-'' \<or> c = CHR ''_''"

definition valid_agent_observation :: "string \<Rightarrow> string \<Rightarrow> string \<Rightarrow> bool" where
  "valid_agent_observation state leaf readiness \<longleftrightarrow>
     state = [] \<and> leaf = []
   \<or> leaf \<noteq> [] \<and> length leaf \<le> 200 \<and> list_all leaf_char leaf
     \<and> (if state = ''active'' then readiness = ''busy''
        else if state = ''idle'' \<or> state = ''failed'' then readiness = ''ready'' else False)"

section \<open>Settings and modes\<close>

definition reasoning_levels :: "string list" where
  "reasoning_levels = [''off'', ''minimal'', ''low'', ''medium'', ''high'', ''xhigh'', ''max'']"

definition one_line :: "string \<Rightarrow> bool" where
  "one_line v \<longleftrightarrow> \<not> list_ex (\<lambda>c. of_char c \<in> {0, 10, 13 :: nat}) v"

definition valid_setting_values :: "(string \<times> string) list \<Rightarrow> bool" where
  "valid_setting_values vs \<longleftrightarrow> vs \<noteq> [] \<and> list_all (\<lambda>(name, v).
     (name = ''model'' \<or> name = ''reasoning'') \<and> v \<noteq> [] \<and> length v \<le> 200 \<and> one_line v
     \<and> (name = ''reasoning'' \<longrightarrow> v \<in> set reasoning_levels)) vs"

record mode_capabilities =
  mk_control :: string
  mk_terminal :: bool
  mk_idle_guard :: bool
  mk_image_input :: bool

record setting_change =
  sg_on_resume :: bool
  sg_live :: "string list"

record runtime_modes =
  rm_modes :: "(string \<times> mode_capabilities) list"
  rm_settings :: "(string \<times> setting_change) list"

text \<open>\<open>ModesWith\<close>: \<open>preferred\<close> modes that satisfy \<open>want\<close>, then the others by name.\<close>

fun preferred_modes ::
  "(string \<times> mode_capabilities) list \<Rightarrow> (mode_capabilities \<Rightarrow> bool) \<Rightarrow> string list \<Rightarrow> string list \<Rightarrow> string list" where
  "preferred_modes modes want [] seen = seen"
| "preferred_modes modes want (p # ps) seen = preferred_modes modes want ps
     (case kv_get modes p of
        None \<Rightarrow> seen
      | Some cap \<Rightarrow> if p \<notin> set seen \<and> want cap then seen @ [p] else seen)"

definition modes_with :: "runtime_modes \<Rightarrow> (mode_capabilities \<Rightarrow> bool) \<Rightarrow> string list \<Rightarrow> string list" where
  "modes_with m want preferred =
     (let result = preferred_modes (rm_modes m) want preferred []
      in result @ sort_strings (List.map fst (filter (\<lambda>(mode, cap). mode \<notin> set result \<and> want cap) (rm_modes m))))"

definition valid_runtime_modes :: "runtime_modes \<Rightarrow> bool" where
  "valid_runtime_modes m \<longleftrightarrow> rm_modes m \<noteq> []
     \<and> list_all (\<lambda>(mode, cap). (mode = ''tui'' \<or> mode = ''headless'')
         \<and> mk_control cap \<in> set [[], ''structured'', ''emulated'']) (rm_modes m)
     \<and> list_all (\<lambda>(name, s). list_all (\<lambda>mode. kv_get (rm_modes m) mode \<noteq> None) (sg_live s)) (rm_settings m)"

end
