(* ===== verification/Runtime.thy ===== *)
theory Runtime
  imports RepoCommands StoreCommands Protocol Queue
begin

text \<open>
  Live runtime events (\<open>internal/coordinator/runtime_ingest.go\<close>, \<open>source_stream.go\<close>): which events of which
  runtime are accepted, what they say of the agent's activity, and the observation shown for the item. The
  server holds its domain lock around an ingestion, so the reads and the commit are one step here.
\<close>

section \<open>Events\<close>

record runtime_event =
  re_id :: string
  re_runtime :: string
  re_item :: string
  re_type :: string
  re_time :: instant
  re_command :: string
  re_request :: string
  re_role :: string
  re_tool :: string
  re_failed :: bool
  re_readiness :: string
  re_reason :: string
  re_delivery :: string
  re_outcome :: string
  re_agent :: string
  re_leaf :: string
  re_settings :: "(string \<times> string) list"

datatype ingest_error =
    Rejected string
  | OwnerMismatch string string string
  | OfCoordinator coord_error

record ingest_result =
  ig_event :: string
  ig_sequence :: "64 word"
  ig_revision :: "64 word"
  ig_duplicate :: bool

abbreviation event_runtime_status :: string where "event_runtime_status \<equiv> ''runtime.status''"
abbreviation event_runtime_ready :: string where "event_runtime_ready \<equiv> ''runtime.ready''"
abbreviation event_runtime_stopping :: string where "event_runtime_stopping \<equiv> ''runtime.stopping''"
abbreviation event_runtime_failed :: string where "event_runtime_failed \<equiv> ''runtime.failed''"
abbreviation event_agent_started :: string where "event_agent_started \<equiv> ''agent.started''"
abbreviation event_agent_settled :: string where "event_agent_settled \<equiv> ''agent.settled''"
abbreviation event_command_accepted :: string where "event_command_accepted \<equiv> ''command.accepted''"
abbreviation event_command_rejected :: string where "event_command_rejected \<equiv> ''command.rejected''"
abbreviation event_turn_started :: string where "event_turn_started \<equiv> ''turn.started''"
abbreviation event_turn_ended :: string where "event_turn_ended \<equiv> ''turn.ended''"
abbreviation event_tool_started :: string where "event_tool_started \<equiv> ''tool.started''"
abbreviation event_message_completed :: string where "event_message_completed \<equiv> ''message.completed''"
abbreviation event_settings_changed :: string where "event_settings_changed \<equiv> ''settings.changed''"

definition allowed_live_event :: "string \<Rightarrow> bool" where
  "allowed_live_event kind \<longleftrightarrow> kind \<in> set [event_runtime_status, ''queue.changed'', event_runtime_ready, event_runtime_stopping,
     event_runtime_failed, event_agent_started, event_agent_settled, event_turn_started, event_turn_ended,
     event_message_completed, event_tool_started, ''tool.completed'', event_command_accepted, event_command_rejected,
     event_settings_changed]"

definition safe_runtime_id :: "string \<Rightarrow> bool" where
  "safe_runtime_id v \<longleftrightarrow> v \<noteq> [] \<and> v \<noteq> ''.'' \<and> v \<noteq> ''..'' \<and> CHR ''/'' \<notin> set v \<and> CHR 0x5C \<notin> set v \<and> length v \<le> 200"

text \<open>An agent that received a prompt and has not shown work on it.\<close>

definition prompt_received :: "string \<Rightarrow> string \<Rightarrow> bool" where
  "prompt_received readiness reason \<longleftrightarrow> readiness = ''awaiting_confirmation'' \<and> reason = ''execution_pending''"

definition awaiting_answer :: "string \<Rightarrow> string \<Rightarrow> bool" where
  "awaiting_answer readiness reason \<longleftrightarrow> readiness = ''waiting_input'' \<and> awaits_answer reason"

definition input_blocked :: "string \<Rightarrow> string \<Rightarrow> bool" where
  "input_blocked readiness reason \<longleftrightarrow>
     (if readiness = ''blocked'' then True
      else if readiness = ''waiting_input''
        then reason \<noteq> ''editor_not_empty'' \<and> reason \<noteq> ''editor_not_visible'' \<and> \<not> awaiting_answer readiness reason
      else False)"

section \<open>Activity\<close>

definition empty_activity :: "string \<Rightarrow> runtime_activity" where
  "empty_activity i = \<lparr>ra_item = i, ra_runtime = [], ra_runtime_state = [], ra_agent_state = [], ra_failure_reason = [],
     ra_leaf = [], ra_turn_state = [], ra_last_event_at = None, ra_last_requested_at = None, ra_last_completed_at = None,
     ra_observed_at = zero_time, ra_source = []\<rparr>"

definition ready_activity :: "runtime_event \<Rightarrow> runtime_activity \<Rightarrow> runtime_activity" where
  "ready_activity e a =
     (let a = a\<lparr>ra_runtime_state := ''running''\<rparr>;
          a = (if ra_agent_state a \<noteq> ''active'' \<and> ra_agent_state a \<noteq> ''failed'' \<and> ra_agent_state a \<noteq> ''idle''
               then a\<lparr>ra_agent_state := []\<rparr> else a);
          a = a\<lparr>ra_turn_state := (if ra_agent_state a = ''active'' then ''busy''
               else if ra_agent_state a = ''failed'' then ''failed'' else ''idle'')\<rparr>
      in if re_readiness e = ''busy'' \<and> ra_agent_state a \<noteq> ''active'' then a\<lparr>ra_agent_state := [], ra_turn_state := ''busy''\<rparr> else a)"

definition status_activity :: "runtime_event \<Rightarrow> runtime_activity \<Rightarrow> runtime_activity" where
  "status_activity e a =
     (if re_agent e \<noteq> [] then a\<lparr>ra_agent_state := re_agent e, ra_leaf := re_leaf e,
        ra_turn_state := (if re_agent e = ''active'' then ''busy'' else if re_agent e = ''idle'' then ''idle''
          else if re_agent e = ''failed'' then ''failed'' else ra_turn_state a)\<rparr>
      else if (re_readiness e = ''busy'' \<or> prompt_received (re_readiness e) (re_reason e)) \<and> ra_agent_state a \<noteq> ''active''
        then (let a = a\<lparr>ra_agent_state := [], ra_turn_state := ''busy''\<rparr>
              in if prompt_received (re_readiness e) (re_reason e) then a\<lparr>ra_last_requested_at := Some (re_time e)\<rparr> else a)
      else a)"

definition settled_activity :: "runtime_event \<Rightarrow> runtime_activity \<Rightarrow> runtime_activity" where
  "settled_activity e a =
     (let a = a\<lparr>ra_agent_state := (if re_outcome e = ''completed'' then ''settled'' else []), ra_turn_state := ''idle'', ra_failure_reason := []\<rparr>;
          a = (if re_failed e \<or> re_outcome e = ''failed''
               then a\<lparr>ra_agent_state := ''failed'', ra_turn_state := ''failed'', ra_failure_reason := re_reason e\<rparr> else a)
      in a\<lparr>ra_last_completed_at := Some (re_time e)\<rparr>)"

definition turn_ended_activity :: "runtime_event \<Rightarrow> runtime_activity \<Rightarrow> runtime_activity" where
  "turn_ended_activity e a =
     (if ra_agent_state a = ''active'' then a
      else if re_failed e then a\<lparr>ra_agent_state := ''failed'', ra_turn_state := ''failed''\<rparr>
      else a\<lparr>ra_turn_state := []\<rparr>)"

definition event_activity :: "runtime_event \<Rightarrow> runtime_activity \<Rightarrow> runtime_activity" where
  "event_activity e a =
     (let kind = re_type e; at = Some (re_time e)
      in if kind = event_runtime_ready then ready_activity e a
         else if kind = event_runtime_status then status_activity e a
         else if kind = event_agent_started then a\<lparr>ra_failure_reason := [], ra_agent_state := ''active'', ra_runtime_state := ''running'',
           ra_turn_state := ''busy'', ra_last_requested_at := at\<rparr>
         else if kind = event_runtime_stopping then a\<lparr>ra_runtime_state := ''stopping''\<rparr>
         else if kind = event_runtime_failed then a\<lparr>ra_runtime_state := ''problem''\<rparr>
         else if kind = event_command_accepted then a\<lparr>ra_agent_state := (if ra_agent_state a \<noteq> ''active'' then [] else ra_agent_state a),
           ra_turn_state := ''busy'', ra_last_requested_at := at\<rparr>
         else if kind = event_turn_started \<or> kind = event_tool_started then a\<lparr>ra_turn_state := ''busy'', ra_last_requested_at := at\<rparr>
         else if kind = event_turn_ended then turn_ended_activity e a
         else if kind = event_agent_settled then settled_activity e a
         else if kind = event_message_completed \<and> ra_agent_state a \<noteq> ''active'' \<and> (re_role e = ''assistant'' \<or> re_role e = [])
           then a\<lparr>ra_last_completed_at := at\<rparr>
         else a)"

text \<open>\<open>None\<close>: the event is older than the last one and is not applied.\<close>

definition apply_runtime_activity :: "runtime_activity \<Rightarrow> runtime_event \<Rightarrow> string \<Rightarrow> string \<Rightarrow> runtime_activity option" where
  "apply_runtime_activity a e i runtime =
     (if (case ra_last_event_at a of None \<Rightarrow> False | Some at \<Rightarrow> re_time e < at) then None
      else (let a = (if ra_runtime a \<noteq> [] \<and> ra_runtime a \<noteq> runtime then empty_activity i else a)
        in Some (event_activity e (a\<lparr>ra_item := i, ra_runtime := runtime, ra_last_event_at := Some (re_time e)\<rparr>))))"

section \<open>Observations\<close>

abbreviation busy_with :: "string \<Rightarrow> agent_observation \<Rightarrow> agent_observation" where
  "busy_with reason ob \<equiv> ob\<lparr>ob_status := ''busy'', ob_turn_state := ''incomplete'', ob_reason := reason\<rparr>"

definition completed_at :: "instant \<Rightarrow> agent_observation \<Rightarrow> agent_observation" where
  "completed_at at ob = ob\<lparr>ob_activity := (ob_activity ob)\<lparr>aa_completed_at := Some at\<rparr>\<rparr>"

definition reason_or :: "string \<Rightarrow> string \<Rightarrow> string" where
  "reason_or code text = (let reason = runtime_reason_text code in if reason \<noteq> [] then reason else text)"

definition work_observation :: "runtime_event \<Rightarrow> agent_observation \<Rightarrow> agent_observation" where
  "work_observation e ob = (let ob = busy_with
       (if re_type e = event_command_accepted \<and> re_reason e = ''native_confirmed''
        then ''Native command receipt confirmed; execution not yet observed'' else ''live runtime event reports active work'') ob
     in ob\<lparr>ob_activity := (ob_activity ob)\<lparr>aa_requested_at := Some (re_time e)\<rparr>\<rparr>)"

definition end_observation :: "runtime_event \<Rightarrow> runtime_activity \<Rightarrow> agent_observation \<Rightarrow> agent_observation" where
  "end_observation e a ob =
     (if re_type e = event_turn_ended \<and> ra_agent_state a \<noteq> ''active'' \<and> \<not> re_failed e
         \<or> re_type e = event_agent_settled \<and> ra_agent_state a = [] then ob
      else if ra_agent_state a = ''active'' then busy_with ''live agent loop is active'' ob
      else if ra_agent_state a = ''failed'' then completed_at (re_time e) (ob\<lparr>ob_status := ''problem'',
        ob_reason := reason_or (ra_failure_reason a) ''live agent loop settled with a failure'', ob_turn_state := ''failed''\<rparr>)
      else completed_at (re_time e)
        (if re_failed e then ob\<lparr>ob_status := ''problem'',
           ob_reason := reason_or (re_reason e) ''live runtime event reports failed or interrupted work'', ob_turn_state := ''failed''\<rparr>
         else ob\<lparr>ob_status := ''idle'', ob_reason := ''live runtime event reports settled work'', ob_turn_state := ''idle''\<rparr>))"

text \<open>The status facts of a running agent. \<open>True\<close>: the observation is final and the closing rule does
  not apply.\<close>

definition status_observation :: "runtime_event \<Rightarrow> runtime_activity \<Rightarrow> agent_observation \<Rightarrow> agent_observation \<times> bool" where
  "status_observation e a ob0 =
     (let ob = ob0\<lparr>ob_online := True\<rparr>; readiness = re_readiness e; reason = re_reason e
      in if ra_runtime_state a = ''problem''
         then (ob\<lparr>ob_status := ''problem'', ob_turn_state := ''failed'', ob_reason := ''live runtime reports failure''\<rparr>, False)
         else if re_agent e \<noteq> [] then
           (if re_agent e = ''active'' then busy_with ''native agent reports active work'' ob
            else if re_agent e = ''idle'' then ob\<lparr>ob_status := ''idle'', ob_turn_state := ''idle'',
              ob_reason := ''native agent reports idle on its selected branch''\<rparr>
            else if re_agent e = ''failed'' then ob\<lparr>ob_status := ''problem'', ob_turn_state := ''failed'',
              ob_reason := ''selected native branch ends with a failure''\<rparr>
            else ob, False)
         else if readiness = ''ready'' \<and> ob_turn_state ob = ''failed'' then (ob, True)
         else (let ob = ob\<lparr>ob_reason := runtime_reason_text reason\<rparr>;
                   ob = (if input_blocked readiness reason then ob\<lparr>ob_status := ''problem''\<rparr>
                     else if readiness = ''waiting_input'' then ob\<lparr>ob_status := ''idle''\<rparr> else ob)
           in if prompt_received readiness reason then (ob\<lparr>ob_status := ''busy'', ob_turn_state := ''incomplete''\<rparr>, True)
              else (if readiness = ''starting'' \<or> readiness = ''stopping'' \<or> readiness = ''awaiting_confirmation'' then ob\<lparr>ob_status := ''idle''\<rparr>
                else if readiness = ''busy'' then ob\<lparr>ob_status := ''busy'', ob_turn_state := ''incomplete''\<rparr>
                else if readiness = ''ready'' then ob\<lparr>ob_status := ''idle''\<rparr> else ob, False)))"

definition ready_observation :: "runtime_event \<Rightarrow> agent_observation \<Rightarrow> agent_observation \<times> bool" where
  "ready_observation e ob0 =
     (let ob = ob0\<lparr>ob_online := True\<rparr>
      in if ob_turn_state ob = ''failed'' \<and> re_readiness e \<noteq> ''busy'' then (ob, True)
         else if re_readiness e = ''busy'' then (busy_with (runtime_reason_text (re_reason e)) ob, False)
         else (ob\<lparr>ob_status := ''idle'', ob_reason := ''runtime is ready'', ob_turn_state := ''idle''\<rparr>, False))"

definition event_observation :: "runtime_event \<Rightarrow> runtime_activity \<Rightarrow> agent_observation \<Rightarrow> agent_observation \<times> bool" where
  "event_observation e a ob =
     (let kind = re_type e
      in if kind = event_turn_started \<or> kind = event_agent_started \<or> kind = event_command_accepted \<or> kind = event_tool_started
         then (work_observation e ob, False)
         else if kind = event_turn_ended \<or> kind = event_agent_settled then (end_observation e a ob, False)
         else if kind = event_runtime_failed \<or> kind = event_command_rejected
           then (ob\<lparr>ob_status := ''problem'', ob_reason := reason_or (re_reason e) ''live runtime event reports a failure''\<rparr>, False)
         else if kind = event_runtime_status then status_observation e a ob
         else if kind = event_runtime_ready then ready_observation e ob
         else (ob, False))"

text \<open>An active agent loop is busy whatever an event of its runtime says, unless only the operator can move it on.\<close>

definition needs_operator :: "runtime_event \<Rightarrow> bool" where
  "needs_operator e \<longleftrightarrow> re_type e = event_runtime_status
     \<and> (input_blocked (re_readiness e) (re_reason e) \<or> awaiting_answer (re_readiness e) (re_reason e))"

definition apply_live_observation :: "agent_observation \<Rightarrow> runtime_event \<Rightarrow> runtime_activity \<Rightarrow> agent_observation" where
  "apply_live_observation ob0 e a =
     (let (ob, final) = event_observation e a (ob0\<lparr>ob_agent_state := ra_agent_state a, ob_last_activity_at := Some (re_time e)\<rparr>)
      in if \<not> final \<and> ra_agent_state a = ''active'' \<and> ra_runtime_state a \<noteq> ''problem'' \<and> \<not> needs_operator e
         then busy_with ''live agent loop is active'' ob else ob)"

section \<open>Ingestion\<close>

definition event_refused :: "runtime_event \<Rightarrow> string option" where
  "event_refused e =
     (if re_id e = [] \<or> id_invalid (re_id e) \<or> \<not> safe_runtime_id (re_runtime e) \<or> \<not> valid_id (re_item e)
      then Some ''valid event, runtime, and work-item ids are required''
      else if is_zero_time (re_time e) then Some ''runtime event timestamp is required''
      else if \<not> allowed_live_event (re_type e) then Some ''runtime event type is not retained''
      else if \<not> valid_readiness (re_readiness e) \<or> \<not> valid_reason_code (re_reason e) \<or> \<not> valid_delivery_state (re_delivery e)
      then Some ''invalid compact runtime status facts''
      else if re_type e = event_runtime_status \<and> re_readiness e = [] then Some ''runtime.status requires readiness''
      else if re_outcome e \<noteq> [] \<and> (re_type e \<noteq> event_agent_settled \<or> re_outcome e \<noteq> ''completed'' \<and> re_outcome e \<noteq> ''failed''
          \<or> re_outcome e = ''completed'' \<and> re_failed e)
      then Some ''invalid agent settlement outcome''
      else if \<not> valid_agent_observation (re_agent e) (re_leaf e) (re_readiness e)
          \<or> (re_agent e \<noteq> [] \<or> re_leaf e \<noteq> []) \<and> re_type e \<noteq> event_runtime_status
      then Some ''invalid native agent state observation''
      else if (re_type e = event_settings_changed) \<noteq> (re_settings e \<noteq> [])
      then Some ''settings are reported only by settings.changed, which requires them''
      else if re_settings e \<noteq> [] \<and> \<not> valid_setting_values (re_settings e) then Some ''invalid reported settings''
      else None)"

text \<open>The event as the activity sees it.\<close>

definition event_header :: "runtime_event \<Rightarrow> runtime_event" where
  "event_header e = e\<lparr>re_request := compact_identifier (re_request e) 200, re_role := compact_identifier (re_role e) 32,
     re_tool := compact_identifier (re_tool e) 128, re_reason := compact_identifier (re_reason e) 64\<rparr>"

definition load_activity :: "('b, stored) bolt \<Rightarrow> string \<Rightarrow> 'b tx_state \<Rightarrow> (coord_error, runtime_activity) result" where
  "load_activity B i t = (case get_projection B runtime_activity_projection i t of
     None \<Rightarrow> Inr (empty_activity i)
   | Some v \<Rightarrow> (case as_activity v of None \<Rightarrow> Inl Undecodable | Some a \<Rightarrow> Inr a))"

definition zero_observation :: "string \<Rightarrow> agent_observation" where
  "zero_observation i = \<lparr>ob_item = i, ob_status = [], ob_reason = [], ob_online = False,
     ob_process = \<lparr>pp_runtime = [], pp_mode = [], pp_host_pid = 0, pp_tmux_session = [], pp_tmux_window = [], pp_pane_id = [],
       pp_pane_index = [], pp_pane_pid = 0, pp_pane_command = [], pp_pane_path = [], pp_backend_pid = 0, pp_source = []\<rparr>,
     ob_runtime = None, ob_terminal = None, ob_agent_state = [], ob_turn_state = [], ob_last_activity_at = None, ob_worktree = None,
     ob_worktree_at = zero_time, ob_activity = empty_attention i, ob_observed_at = zero_time, ob_warnings = []\<rparr>"

definition load_observation :: "('b, stored) bolt \<Rightarrow> string \<Rightarrow> 'b tx_state \<Rightarrow> agent_observation" where
  "load_observation B i t = (case get_projection B observation_projection i t of
     None \<Rightarrow> zero_observation i
   | Some v \<Rightarrow> (case as_observation v of None \<Rightarrow> zero_observation i | Some ob \<Rightarrow> ob))"

text \<open>The runtime that owns the item's event, current in its workspace claim.\<close>

definition event_owner ::
  "('b, stored) bolt \<Rightarrow> (repository \<Rightarrow> (coord_error, repository) result) \<Rightarrow> runtime_event \<Rightarrow> 'b tx_state
   \<Rightarrow> (ingest_error, agent_runtime) result" where
  "event_owner B locate e t = (case canonical_manifest B locate (re_item e) t of
     Inl x \<Rightarrow> Inl (OfCoordinator x)
   | Inr (m, _) \<Rightarrow> (case get_projection B runtime_ownership_projection (re_item e) t of
       None \<Rightarrow> Inl (OwnerMismatch (re_item e) (re_runtime e) [])
     | Some v \<Rightarrow> (case as_runtime v of
         None \<Rightarrow> Inl (OfCoordinator Undecodable)
       | Some owner \<Rightarrow>
           if ar_id owner \<noteq> re_runtime e then Inl (OwnerMismatch (re_item e) (re_runtime e) (ar_id owner))
           else if ar_claim_id owner \<noteq> [] \<and> (case co_claim (m_checkout m) of
               None \<Rightarrow> True
             | Some cl \<Rightarrow> wc_id cl \<noteq> ar_claim_id owner \<or> wc_generation cl \<noteq> ar_claim_generation owner)
             then Inl (Rejected ''runtime belongs to a superseded workspace claim'')
           else Inr owner)))"

definition owner_update :: "string \<Rightarrow> agent_runtime \<Rightarrow> projection_update" where
  "owner_update i owner = \<lparr>pu_projection = runtime_ownership_projection, pu_key = i, pu_value = StRuntime owner, pu_delete = False\<rparr>"

definition with_settings :: "runtime_event \<Rightarrow> agent_runtime \<Rightarrow> agent_runtime" where
  "with_settings e owner = owner\<lparr>ar_settings := foldl (\<lambda>m (k, v). kv_put k v m) (ar_settings owner) (re_settings e)\<rparr>"

definition event_readiness :: "runtime_event \<Rightarrow> string" where
  "event_readiness e = (if re_type e = event_runtime_ready \<and> re_readiness e = [] then ''ready'' else re_readiness e)"

definition with_readiness :: "runtime_event \<Rightarrow> agent_runtime \<Rightarrow> agent_runtime" where
  "with_readiness e owner = owner\<lparr>ar_readiness := event_readiness e, ar_readiness_reason := re_reason e,
     ar_readiness_at := Some (re_time e)\<rparr>"

definition activity_updates :: "instant \<Rightarrow> runtime_event \<Rightarrow> runtime_activity \<Rightarrow> agent_observation \<Rightarrow> projection_update list" where
  "activity_updates now e a ob =
     (let a = a\<lparr>ra_observed_at := now, ra_source := ''daemon.runtime.live''\<rparr>;
          ob = (apply_live_observation ob e a)\<lparr>ob_observed_at := now\<rparr>
      in [\<lparr>pu_projection = runtime_activity_projection, pu_key = re_item e, pu_value = StRuntimeActivity a, pu_delete = False\<rparr>,
          \<lparr>pu_projection = observation_projection, pu_key = re_item e, pu_value = StObservation ob, pu_delete = False\<rparr>])"

text \<open>The activity after an event: \<open>None\<close> when the event is no activity of the agent or an old one.\<close>

definition applied_activity :: "runtime_event \<Rightarrow> runtime_activity \<Rightarrow> runtime_activity option" where
  "applied_activity e a =
     (if re_type e = event_settings_changed \<or> quiet_outcome (re_reason e) then None
      else apply_runtime_activity a (event_header e) (re_item e) (re_runtime e))"

definition event_updates :: "instant \<Rightarrow> runtime_event \<Rightarrow> agent_runtime \<Rightarrow> runtime_activity \<Rightarrow> agent_observation \<Rightarrow> projection_update list" where
  "event_updates now e owner a ob =
     (if re_type e = event_settings_changed then [owner_update (re_item e) (with_settings e owner)] else [])
     @ (case applied_activity e a of
         None \<Rightarrow> []
       | Some a \<Rightarrow>
           (if event_readiness e \<noteq> [] \<and> (case ar_readiness_at owner of None \<Rightarrow> True | Some at \<Rightarrow> \<not> re_time e < at)
            then [owner_update (re_item e) (with_readiness e owner)] else [])
           @ activity_updates now e a ob)"

definition event_payload :: "runtime_event \<Rightarrow> json" where
  "event_payload e = JObj
     ([(''agent_state'', JStr (re_agent e)), (''command_id'', JStr (compact_identifier (re_command e) 200)),
       (''delivery_state'', JStr (re_delivery e)), (''failed'', JBool (re_failed e)), (''leaf_id'', JStr (re_leaf e)),
       (''outcome'', JStr (re_outcome e)), (''readiness'', JStr (re_readiness e)), (''reason_code'', JStr (re_reason e)),
       (''request_id'', JStr (re_request (event_header e))), (''role'', JStr (re_role (event_header e))),
       (''runtime_id'', JStr (re_runtime e))]
      @ (if re_settings e \<noteq> [] then [(''settings'', JObj (List.map (\<lambda>(k, v). (k, JStr v)) (re_settings e)))] else [])
      @ [(''tool_name'', JStr (re_tool (event_header e)))])"

definition ingest_command :: "instant \<Rightarrow> runtime_event \<Rightarrow> command" where
  "ingest_command now e = \<lparr>cm_id = ''runtime-event:'' @ re_id e, cm_protocol = protocol_version, cm_type = ''runtime.event.ingest'',
     cm_actor = ''runtime'', cm_item = re_item e, cm_expected = None, cm_payload = JNull, cm_received_at = now\<rparr>"

definition ingest_pending :: "runtime_event \<Rightarrow> pending_event" where
  "ingest_pending e = \<lparr>pe_id = re_id e, pe_item = re_item e, pe_type = re_type e, pe_time = re_time e, pe_actor = ''runtime'',
     pe_payload = event_payload e\<rparr>"

definition ingest_runtime_event ::
  "('b, stored) bolt \<Rightarrow> (repository \<Rightarrow> (coord_error, repository) result) \<Rightarrow> instant \<Rightarrow> runtime_event \<Rightarrow> 'b database
   \<Rightarrow> (ingest_error, ingest_result \<times> 'b database) result" where
  "ingest_runtime_event B locate now e d = (case event_refused e of
     Some reason \<Rightarrow> Inl (Rejected reason)
   | None \<Rightarrow> rbind (event_owner B locate e (db_tx d)) (\<lambda>owner. case load_activity B (re_item e) (db_tx d) of
       Inl x \<Rightarrow> Inl (OfCoordinator x)
     | Inr a \<Rightarrow> (case commit B now (ingest_command now e) [ingest_pending e]
           (event_updates now e owner a (load_observation B (re_item e) (db_tx d))) d of
         Inl x \<Rightarrow> Inl (OfCoordinator x)
       | Inr (c, d) \<Rightarrow> Inr (\<lparr>ig_event = re_id e,
             ig_sequence = (case cr_events c of [] \<Rightarrow> cr_final_sequence c | ev # _ \<Rightarrow> de_sequence ev),
             ig_revision = cr_item_revision c, ig_duplicate = cr_duplicate c\<rparr>, d))))"


section \<open>What a commit writes\<close>

text \<open>The value of a key after a list of updates.\<close>

fun updated :: "projection_update list \<Rightarrow> string \<Rightarrow> string \<Rightarrow> stored option \<Rightarrow> stored option" where
  "updated [] name k v = v"
| "updated (u # us) name k v = updated us name k
     (if pu_projection u = name \<and> pu_key u = k then (if pu_delete u then None else Some (pu_value u)) else v)"

lemma updated_append [simp]: "updated (us @ vs) name k v = updated vs name k (updated us name k v)"
  by (induction us arbitrary: v) simp_all

lemma updated_other: "\<forall>u\<in>set us. pu_projection u = name \<longrightarrow> pu_key u \<noteq> k \<Longrightarrow> updated us name k v = v"
  by (induction us arbitrary: v) auto

context event_store
begin

lemma get_apply_updates:
  "apply_updates B us t = Inr t' \<Longrightarrow> tx_ok ok t \<Longrightarrow> get_projection B name k t' = updated us name k (get_projection B name k t)"
proof (induction us arbitrary: t)
  case (Cons u us)
  then obtain t1 where t1: "apply_update B u t = Inr t1" "apply_updates B us t1 = Inr t'" by (auto simp: rbind_Inr_iff)
  then have "tx_ok ok t1" using Cons.prems(2) by (auto simp: apply_update_def split: if_split_asm)
  moreover have "get_projection B name k t1 = (if pu_projection u = name \<and> pu_key u = k
      then (if pu_delete u then None else Some (pu_value u)) else get_projection B name k t)"
    using t1(1) Cons.prems(2) by (auto simp: apply_update_def split: if_split_asm)
  ultimately show ?case using Cons.IH [OF t1(2)] by simp
qed simp

lemma commit_spec:
  assumes "commit B now c ps us d = Inr (r, d')" and "log_rep B ok (db_tx d) L" and "tx_ok ok (db_tx d)"
    and "length L + length ps < 2 ^ 64" and "b_get B (tx_commands (db_tx d)) (cm_id c) = None"
  shows "log_rep B ok (db_tx d') (L @ cr_events r) \<and> L @ cr_events r = log_appends (List.map (pending_event_of c) ps) L
    \<and> (distinct (List.map de_id L) \<longrightarrow> distinct (List.map de_id (L @ cr_events r))) \<and> \<not> cr_duplicate r \<and> tx_ok ok (db_tx d')
    \<and> (\<forall>name k. get_projection B name k (db_tx d') = updated us name k (get_projection B name k (db_tx d)))
    \<and> tx_outcomes (db_tx d') = tx_outcomes (db_tx d) \<and> tx_pending (db_tx d') = tx_pending (db_tx d)
    \<and> (\<forall>k. k \<noteq> cm_id c \<longrightarrow> b_get B (tx_commands (db_tx d')) k = b_get B (tx_commands (db_tx d)) k)"
proof -
  have tx: "commit_tx B now c ps us (db_tx d) = Inr (r, db_tx d')"
    using assms(1) by (auto simp: commit_def rbind_Inr_iff split: if_split_asm)
  obtain n evs rr t1 t2 where loop: "commit_loop B c ps (global_sequence B (db_tx d), [], 0, db_tx d) = Inr (n, evs, rr, t1)"
    and u: "apply_updates B us t1 = Inr t2"
    and t': "db_tx d' = (put_sequence B n t2)\<lparr>tx_commands := b_put B (cm_id c) (StCommit r) (tx_commands (put_sequence B n t2))\<rparr>"
    using commit_tx_fresh [OF tx assms(5)] by metis
  have rep: "ev_rep B ok (db_tx d) L" "rev_rep B ok (db_tx d) L" "global_sequence B (db_tx d) = of_nat (length L)"
    using assms(2) by (simp_all add: log_rep_def seq_rep_def)
  have same: "same_others (db_tx d) t1"
    using commit_loop_refines [OF loop [unfolded rep(3)] rep(1,2) assms(4)] by (simp add: Let_def)
  have ok1: "tx_ok ok t1" by (rule tx_ok_commit_loop [OF loop assms(3)])
  have ok2: "tx_ok ok t2" by (rule tx_ok_apply_updates [OF u ok1])
  have "get_projection B name k (db_tx d') = get_projection B name k t2" for name k
    by (simp add: t' get_projection_def put_sequence_def)
  then have "get_projection B name k (db_tx d') = updated us name k (get_projection B name k (db_tx d))" for name k
    using get_apply_updates [OF u ok1] same by (simp add: get_projection_def same_others_def)
  moreover have "tx_ok ok (db_tx d')" using ok2 unfolding t' by simp
  moreover have "tx_outcomes (db_tx d') = tx_outcomes (db_tx d) \<and> tx_pending (db_tx d') = tx_pending (db_tx d)"
    using apply_updates_frame [OF u] same unfolding t' same_others_def put_sequence_def by (cases t2) simp
  moreover have "ok (tx_commands t2)" "tx_commands t2 = tx_commands (db_tx d)"
    using ok2 apply_updates_frame [OF u] same unfolding same_others_def tx_ok_def by (simp, cases t2, simp)
  then have "b_get B (tx_commands (db_tx d')) k = b_get B (tx_commands (db_tx d)) k" if "k \<noteq> cm_id c" for k
    using that unfolding t' by (simp add: put_sequence_def get_put)
  ultimately show ?thesis using commit_tx_refines [OF tx assms(2,4,5)] by blast
qed

end

section \<open>One ingestion\<close>

definition owner_at :: "('b, stored) bolt \<Rightarrow> 'b tx_state \<Rightarrow> string \<Rightarrow> agent_runtime option" where
  "owner_at B t i = (case get_projection B runtime_ownership_projection i t of None \<Rightarrow> None | Some v \<Rightarrow> as_runtime v)"

definition activity_at :: "('b, stored) bolt \<Rightarrow> 'b tx_state \<Rightarrow> string \<Rightarrow> runtime_activity option" where
  "activity_at B t i = (case get_projection B runtime_activity_projection i t of None \<Rightarrow> None | Some v \<Rightarrow> as_activity v)"

definition observation_at :: "('b, stored) bolt \<Rightarrow> 'b tx_state \<Rightarrow> string \<Rightarrow> agent_observation option" where
  "observation_at B t i = (case get_projection B observation_projection i t of None \<Rightarrow> None | Some v \<Rightarrow> as_observation v)"

text \<open>The claim a runtime runs under is the item's current one.\<close>

definition claim_current :: "agent_runtime \<Rightarrow> manifest \<Rightarrow> bool" where
  "claim_current owner m \<longleftrightarrow> ar_claim_id owner = [] \<or> (\<exists>cl. co_claim (m_checkout m) = Some cl
     \<and> wc_id cl = ar_claim_id owner \<and> wc_generation cl = ar_claim_generation owner)"

lemma claim_current_iff:
  "claim_current owner m \<longleftrightarrow> \<not> (ar_claim_id owner \<noteq> [] \<and> (case co_claim (m_checkout m) of
     None \<Rightarrow> True | Some cl \<Rightarrow> wc_id cl \<noteq> ar_claim_id owner \<or> wc_generation cl \<noteq> ar_claim_generation owner))"
  by (auto simp: claim_current_def split: option.split)

lemma event_owner_iff:
  "event_owner B locate e t = Inr owner \<longleftrightarrow> (\<exists>m. manifest_at B t (re_item e) = Some m \<and> valid_id (re_item e)
     \<and> (\<exists>r. locate (m_repository m) = Inr r) \<and> owner_at B t (re_item e) = Some owner \<and> ar_id owner = re_runtime e \<and> claim_current owner m)"
proof (cases "valid_id (re_item e)")
  case True
  show ?thesis
  proof (cases "get_projection B manifest_projection (re_item e) t")
    case None
    then show ?thesis by (simp add: event_owner_def canonical_manifest_def manifest_at_def)
  next
    case (Some v)
    show ?thesis
    proof (cases "as_manifest v")
      case None
      then show ?thesis using True Some by (simp add: event_owner_def canonical_manifest_def manifest_at_def)
    next
      case m: (Some m)
      have head: "manifest_at B t (re_item e) = Some m" using Some m by (simp add: manifest_at_def)
      show ?thesis
      proof (cases "locate (m_repository m)")
        case (Inl x)
        then show ?thesis using True Some m head by (simp add: event_owner_def canonical_manifest_def)
      next
        case (Inr r)
        then have "event_owner B locate e t = (case get_projection B runtime_ownership_projection (re_item e) t of
            None \<Rightarrow> Inl (OwnerMismatch (re_item e) (re_runtime e) [])
          | Some v \<Rightarrow> (case as_runtime v of None \<Rightarrow> Inl (OfCoordinator Undecodable)
            | Some owner \<Rightarrow> if ar_id owner \<noteq> re_runtime e then Inl (OwnerMismatch (re_item e) (re_runtime e) (ar_id owner))
                else if \<not> claim_current owner m then Inl (Rejected ''runtime belongs to a superseded workspace claim'')
                else Inr owner))"
          using True Some m by (auto simp: event_owner_def canonical_manifest_def claim_current_iff split: option.split)
        then show ?thesis using True head Inr by (auto simp: owner_at_def split: option.split)
      qed
    qed
  qed
qed (simp add: event_owner_def canonical_manifest_def)

lemma event_refused_None:
  assumes "event_refused e = None"
  shows "valid_id (re_item e)" "re_id e \<noteq> []" "allowed_live_event (re_type e)" "re_item e \<noteq> []"
proof -
  show "valid_id (re_item e)" "re_id e \<noteq> []" "allowed_live_event (re_type e)"
    using assms unfolding event_refused_def by (auto split: if_split_asm)
  then show "re_item e \<noteq> []" by (auto simp: valid_id_def)
qed

lemma ingestE:
  assumes "ingest_runtime_event B locate now e d = Inr (r, d')"
  obtains owner a c where "event_refused e = None" and "event_owner B locate e (db_tx d) = Inr owner"
    and "load_activity B (re_item e) (db_tx d) = Inr a"
    and "commit B now (ingest_command now e) [ingest_pending e]
       (event_updates now e owner a (load_observation B (re_item e) (db_tx d))) d = Inr (c, d')"
    and "r = \<lparr>ig_event = re_id e, ig_sequence = (case cr_events c of [] \<Rightarrow> cr_final_sequence c | ev # _ \<Rightarrow> de_sequence ev),
       ig_revision = cr_item_revision c, ig_duplicate = cr_duplicate c\<rparr>"
  using assms unfolding ingest_runtime_event_def
  by (auto split: option.split_asm sum.split_asm elim!: rbind_InrE)

definition recorded :: "('b, stored) bolt \<Rightarrow> runtime_event \<Rightarrow> 'b tx_state \<Rightarrow> bool" where
  "recorded B e t \<longleftrightarrow> b_get B (tx_commands t) (''runtime-event:'' @ re_id e) \<noteq> None"

text \<open>What an event writes.\<close>

definition reported_owner :: "instant \<Rightarrow> runtime_event \<Rightarrow> runtime_activity \<Rightarrow> agent_runtime \<Rightarrow> agent_runtime" where
  "reported_owner now e a owner =
     (if re_type e = event_settings_changed then with_settings e owner
      else if applied_activity e a \<noteq> None \<and> event_readiness e \<noteq> []
          \<and> (case ar_readiness_at owner of None \<Rightarrow> True | Some at \<Rightarrow> \<not> re_time e < at) then with_readiness e owner
      else owner)"

lemma applied_activity_settings: "re_type e = event_settings_changed \<Longrightarrow> applied_activity e a = None"
  by (simp add: applied_activity_def)

lemma reported_owner_fields [simp]:
  "ar_id (reported_owner now e a owner) = ar_id owner" "ar_claim_id (reported_owner now e a owner) = ar_claim_id owner"
  "ar_claim_generation (reported_owner now e a owner) = ar_claim_generation owner"
  by (simp_all add: reported_owner_def with_settings_def with_readiness_def)

lemma event_updates_effect:
  "updated (event_updates now e owner a ob) name k (if name = runtime_ownership_projection \<and> k = re_item e then Some (StRuntime owner) else v) =
     (if k \<noteq> re_item e then v
      else if name = runtime_ownership_projection then Some (StRuntime (reported_owner now e a owner))
      else (case applied_activity e a of None \<Rightarrow> v | Some a' \<Rightarrow>
        let a' = a'\<lparr>ra_observed_at := now, ra_source := ''daemon.runtime.live''\<rparr>
        in if name = runtime_activity_projection then Some (StRuntimeActivity a')
           else if name = observation_projection then Some (StObservation ((apply_live_observation ob e a')\<lparr>ob_observed_at := now\<rparr>))
           else v))"
  by (auto simp: event_updates_def owner_update_def activity_updates_def reported_owner_def Let_def applied_activity_settings
      split: option.splits)

definition after_event ::
  "('b, stored) bolt \<Rightarrow> instant \<Rightarrow> runtime_event \<Rightarrow> agent_runtime \<Rightarrow> runtime_activity \<Rightarrow> 'b tx_state \<Rightarrow> string \<Rightarrow> string \<Rightarrow> stored option" where
  "after_event B now e owner a t name k =
     (if k \<noteq> re_item e then get_projection B name k t
      else if name = runtime_ownership_projection then Some (StRuntime (reported_owner now e a owner))
      else (case applied_activity e a of None \<Rightarrow> get_projection B name k t | Some a' \<Rightarrow>
        let a' = a'\<lparr>ra_observed_at := now, ra_source := ''daemon.runtime.live''\<rparr>
        in if name = runtime_activity_projection then Some (StRuntimeActivity a')
           else if name = observation_projection
             then Some (StObservation ((apply_live_observation (load_observation B (re_item e) t) e a')\<lparr>ob_observed_at := now\<rparr>))
           else get_projection B name k t))"

lemma after_event_other:
  "name \<noteq> runtime_ownership_projection \<Longrightarrow> name \<noteq> runtime_activity_projection \<Longrightarrow> name \<noteq> observation_projection \<Longrightarrow>
   after_event B now e owner a t name k = get_projection B name k t"
  by (simp add: after_event_def split: option.split)

lemma after_event_key: "k \<noteq> re_item e \<Longrightarrow> after_event B now e owner a t name k = get_projection B name k t"
  by (simp add: after_event_def)

lemma after_event_owner:
  "after_event B now e owner a t runtime_ownership_projection (re_item e) = Some (StRuntime (reported_owner now e a owner))"
  by (simp add: after_event_def)

lemma after_event_activity:
  "after_event B now e owner a t runtime_activity_projection (re_item e) = (case applied_activity e a of
     None \<Rightarrow> get_projection B runtime_activity_projection (re_item e) t
   | Some a' \<Rightarrow> Some (StRuntimeActivity (a'\<lparr>ra_observed_at := now, ra_source := ''daemon.runtime.live''\<rparr>)))"
  by (simp add: after_event_def Let_def split: option.split)

lemma after_event_observation:
  "after_event B now e owner a t observation_projection (re_item e) = (case applied_activity e a of
     None \<Rightarrow> get_projection B observation_projection (re_item e) t
   | Some a' \<Rightarrow> Some (StObservation ((apply_live_observation (load_observation B (re_item e) t) e
       (a'\<lparr>ra_observed_at := now, ra_source := ''daemon.runtime.live''\<rparr>))\<lparr>ob_observed_at := now\<rparr>)))"
  by (simp add: after_event_def Let_def split: option.split)

context event_store
begin

lemma single_event_revision:
  assumes "commit B now c [p] us d = Inr (r, d')" and "pe_item p = cm_item c" and "cm_item c \<noteq> []" and "rev_rep B ok (db_tx d) L"
    and "b_get B (tx_commands (db_tx d)) (cm_id c) = None" and "cr_events r = [ev]"
  shows "cr_item_revision r = de_revision ev"
  using assms by (auto simp: commit_def commit_tx_def Let_def rbind_Inr_iff split: if_split_asm)

lemma ingest_spec:
  assumes "ingest_runtime_event B locate now e d = Inr (r, d')" and "log_rep B ok (db_tx d) L" and "tx_ok ok (db_tx d)"
    and "length L < 2 ^ 64 - 1" and "\<not> recorded B e (db_tx d)"
  obtains owner a ev where "owner_at B (db_tx d) (re_item e) = Some owner" and "ar_id owner = re_runtime e"
    and "load_activity B (re_item e) (db_tx d) = Inr a"
    and "log_rep B ok (db_tx d') (L @ [ev])" and "tx_ok ok (db_tx d')"
    and "ev = stamp L (pending_event_of (ingest_command now e) (ingest_pending e))"
    and "distinct (List.map de_id L) \<longrightarrow> distinct (List.map de_id (L @ [ev]))"
    and "\<And>name k. get_projection B name k (db_tx d') = after_event B now e owner a (db_tx d) name k"
    and "ig_sequence r = de_sequence ev" and "\<not> ig_duplicate r" and "ig_event r = re_id e"
    and "ig_revision r = de_revision ev" and "tx_outcomes (db_tx d') = tx_outcomes (db_tx d)"
    and "\<And>e'. re_id e' \<noteq> re_id e \<Longrightarrow> recorded B e' (db_tx d') = recorded B e' (db_tx d)"
proof -
  obtain owner a c where e: "event_refused e = None" and owner: "event_owner B locate e (db_tx d) = Inr owner"
    and a: "load_activity B (re_item e) (db_tx d) = Inr a"
    and c: "commit B now (ingest_command now e) [ingest_pending e]
       (event_updates now e owner a (load_observation B (re_item e) (db_tx d))) d = Inr (c, d')"
    and r: "r = \<lparr>ig_event = re_id e, ig_sequence = (case cr_events c of [] \<Rightarrow> cr_final_sequence c | ev # _ \<Rightarrow> de_sequence ev),
       ig_revision = cr_item_revision c, ig_duplicate = cr_duplicate c\<rparr>"
    using ingestE [OF assms(1)] by metis
  have "b_get B (tx_commands (db_tx d)) (cm_id (ingest_command now e)) = None"
    using assms(5) by (simp add: recorded_def ingest_command_def)
  note s = commit_spec [OF c assms(2,3) _ this]
  define ev where "ev = stamp L (pending_event_of (ingest_command now e) (ingest_pending e))"
  have len: "length L + length [ingest_pending e] < 2 ^ 64" using assms(4) by simp
  have evs: "cr_events c = [ev]" using s [OF len] by (simp add: log_append_def ev_def)
  have "re_item e \<noteq> []" using event_refused_None [OF e] by simp
  then have rev: "cr_item_revision c = de_revision ev"
    using single_event_revision [OF c _ _ _ \<open>b_get B (tx_commands (db_tx d)) (cm_id (ingest_command now e)) = None\<close>, of L]
      assms(2) evs by (simp add: ingest_pending_def ingest_command_def log_rep_def)
  have own: "owner_at B (db_tx d) (re_item e) = Some owner" "ar_id owner = re_runtime e"
    using owner by (auto simp: event_owner_iff)
  then have raw: "get_projection B runtime_ownership_projection (re_item e) (db_tx d) = Some (StRuntime owner)"
    by (auto simp: owner_at_def as_runtime_def split: option.splits stored.splits)
  have get: "get_projection B name k (db_tx d') = updated (event_updates now e owner a (load_observation B (re_item e) (db_tx d))) name k
      (if name = runtime_ownership_projection \<and> k = re_item e then Some (StRuntime owner) else get_projection B name k (db_tx d))" for name k
    using s [OF len] raw by auto
  show thesis
    by (rule that [OF own a _ _ ev_def _ get [unfolded event_updates_effect, folded after_event_def]]) (use s [OF len] evs rev in \<open>simp_all add: r ev_def log_append_def recorded_def ingest_command_def\<close>)
qed

end

section \<open>Properties of an ingestion\<close>

lemma ingest_event_fields [simp]:
  "pe_id (ingest_pending e) = re_id e" "pe_item (ingest_pending e) = re_item e" "pe_type (ingest_pending e) = re_type e"
  "de_id (pending_event_of c p) = pe_id p" "de_item (pending_event_of c p) = pe_item p" "de_type (pending_event_of c p) = pe_type p"
  "de_id (stamp L ev) = de_id ev" "de_item (stamp L ev) = de_item ev" "de_type (stamp L ev) = de_type ev"
  by (simp_all add: ingest_pending_def pending_event_of_def stamp_def)

text \<open>C10: an accepted live event comes from the runtime that owns the item under its current workspace claim, and
  its ingestion refines one append to the log: the event with its identity, item and type gets the next
  sequence and revision, which the reply states; no item changes.\<close>

theorem ingest_runtime_event_refines:
  assumes "bucket_store B ok" and "store_inv B ok (db_tx d) L" and "length L < 2 ^ 64 - 1"
    and "ingest_runtime_event B locate now e d = Inr (r, d')" and "\<not> recorded B e (db_tx d)"
  shows "(\<exists>owner m. owner_at B (db_tx d) (re_item e) = Some owner \<and> ar_id owner = re_runtime e
        \<and> manifest_at B (db_tx d) (re_item e) = Some m \<and> claim_current owner m)
    \<and> (\<exists>ev. store_inv B ok (db_tx d') (L @ [ev]) \<and> de_id ev = re_id e \<and> de_item ev = re_item e \<and> de_type ev = re_type e
        \<and> ig_sequence r = de_sequence ev \<and> ig_revision r = de_revision ev)
    \<and> \<not> ig_duplicate r \<and> manifest_at B (db_tx d') = manifest_at B (db_tx d)"
proof -
  note es = event_store_bucket [OF assms(1)]
  have inv: "log_rep B ok (db_tx d) L" "tx_ok ok (db_tx d)" using assms(2) by (simp_all add: store_inv_def)
  obtain owner where "event_owner B locate e (db_tx d) = Inr owner" using ingestE [OF assms(4)] by metis
  then have fence: "\<exists>owner m. owner_at B (db_tx d) (re_item e) = Some owner \<and> ar_id owner = re_runtime e
      \<and> manifest_at B (db_tx d) (re_item e) = Some m \<and> claim_current owner m"
    by (auto simp: event_owner_iff)
  from event_store.ingest_spec [OF es assms(4) inv assms(3,5)] obtain owner a ev where
    s: "log_rep B ok (db_tx d') (L @ [ev])" "tx_ok ok (db_tx d')"
      "ev = stamp L (pending_event_of (ingest_command now e) (ingest_pending e))"
      "distinct (List.map de_id L) \<longrightarrow> distinct (List.map de_id (L @ [ev]))"
      "ig_sequence r = de_sequence ev" "\<not> ig_duplicate r" "ig_revision r = de_revision ev"
    and get: "\<And>name k. get_projection B name k (db_tx d') = after_event B now e owner a (db_tx d) name k"
    by metis
  have "get_projection B manifest_projection k (db_tx d') = get_projection B manifest_projection k (db_tx d)" for k
    by (simp add: get after_event_other)
  then have at: "manifest_at B (db_tx d') = manifest_at B (db_tx d)" "items_ok B (db_tx d') = items_ok B (db_tx d)"
    using event_store.manifest_at_cong [OF es, of "db_tx d'" "db_tx d"] by blast+
  then have "store_inv B ok (db_tx d') (L @ [ev])" using assms(2) s unfolding store_inv_def by simp
  moreover have "de_id ev = re_id e \<and> de_item ev = re_item e \<and> de_type ev = re_type e" by (simp add: s(3))
  ultimately show ?thesis using fence at s by blast
qed

lemma ingest_recorded:
  assumes "ingest_runtime_event B locate now e d = Inr (r, d')" and "recorded B e (db_tx d)"
  shows "db_tx d' = db_tx d"
proof -
  obtain owner a c where "commit B now (ingest_command now e) [ingest_pending e]
       (event_updates now e owner a (load_observation B (re_item e) (db_tx d))) d = Inr (c, d')"
    using ingestE [OF assms(1)] by metis
  moreover have "b_get B (tx_commands (db_tx d)) (cm_id (ingest_command now e)) \<noteq> None"
    using assms(2) by (simp add: recorded_def ingest_command_def)
  ultimately show ?thesis
    by (auto simp: commit_def commit_tx_def rbind_Inr_iff split: stored.splits if_split_asm)
qed

section \<open>The agent loop\<close>

text \<open>Runs of ingested events.\<close>

inductive ingest_run ::
  "('b, stored) bolt \<Rightarrow> (repository \<Rightarrow> (coord_error, repository) result) \<Rightarrow> 'b database \<Rightarrow> runtime_event list \<Rightarrow> 'b database \<Rightarrow> bool"
  for B :: "('b, stored) bolt" and locate :: "repository \<Rightarrow> (coord_error, repository) result" where
  nil: "ingest_run B locate d [] d"
| cons: "ingest_runtime_event B locate now e d = Inr (r, d1) \<Longrightarrow> ingest_run B locate d1 es d2 \<Longrightarrow> ingest_run B locate d (e # es) d2"

inductive_cases ingest_run_ConsE: "ingest_run B locate d (e # es) d2"

text \<open>The item's agent is in its loop: the runtime that owns it reports active work and the item shows it.\<close>

definition activity_running :: "string \<Rightarrow> runtime_activity \<Rightarrow> bool" where
  "activity_running rt a \<longleftrightarrow> ra_runtime a = rt \<and> ra_agent_state a = ''active'' \<and> ra_turn_state a = ''busy'' \<and> ra_runtime_state a \<noteq> ''problem''"

definition loop_running :: "('b, stored) bolt \<Rightarrow> string \<Rightarrow> string \<Rightarrow> 'b tx_state \<Rightarrow> bool" where
  "loop_running B i rt t \<longleftrightarrow> (\<exists>owner a ob. owner_at B t i = Some owner \<and> ar_id owner = rt \<and> activity_at B t i = Some a \<and> activity_running rt a
     \<and> observation_at B t i = Some ob \<and> ob_status ob = ''busy'' \<and> ob_turn_state ob = ''incomplete'')"

text \<open>The events that may take an item out of its loop: settlement, failure of the runtime, a native state,
  and an input only the operator can give.\<close>

definition leaves_loop :: "runtime_event \<Rightarrow> bool" where
  "leaves_loop e \<longleftrightarrow> re_type e = event_agent_settled \<or> re_type e = event_runtime_failed
     \<or> re_type e = event_runtime_status \<and> re_agent e \<noteq> [] \<or> needs_operator e"

lemma event_header_fields [simp]:
  "re_type (event_header e) = re_type e" "re_agent (event_header e) = re_agent e" "re_time (event_header e) = re_time e"
  "re_readiness (event_header e) = re_readiness e" "re_failed (event_header e) = re_failed e" "re_outcome (event_header e) = re_outcome e"
  "re_leaf (event_header e) = re_leaf e"
  by (simp_all add: event_header_def)

lemma running_applied:
  assumes "activity_running rt a" and "apply_runtime_activity a e i rt = Some a'"
    and no: "re_type e \<noteq> event_agent_settled" "re_type e \<noteq> event_runtime_failed" "re_type e = event_runtime_status \<Longrightarrow> re_agent e = []"
  shows "activity_running rt a'"
proof -
  have a': "a' = event_activity e (a\<lparr>ra_item := i, ra_runtime := rt, ra_last_event_at := Some (re_time e)\<rparr>)"
    using assms(1,2) by (auto simp: apply_runtime_activity_def activity_running_def Let_def split: if_split_asm)
  define b where "b = a\<lparr>ra_item := i, ra_runtime := rt, ra_last_event_at := Some (re_time e)\<rparr>"
  have b: "activity_running rt b" using assms(1) by (simp add: b_def activity_running_def)
  show ?thesis
    using b no unfolding a' b_def [symmetric] activity_running_def event_activity_def Let_def
    by (simp add: ready_activity_def status_activity_def turn_ended_activity_def)
qed

lemma running_observed:
  assumes "activity_running rt a" and "ob_turn_state ob = ''incomplete''" and "\<not> leaves_loop e"
  shows "ob_status (apply_live_observation ob e a) = ''busy'' \<and> ob_turn_state (apply_live_observation ob e a) = ''incomplete''"
proof -
  define ob1 where "ob1 = ob\<lparr>ob_agent_state := ra_agent_state a, ob_last_activity_at := Some (re_time e)\<rparr>"
  have ob1: "ob_turn_state ob1 = ''incomplete''" using assms(2) by (simp add: ob1_def)
  obtain ob' final where step: "event_observation e a ob1 = (ob', final)" by (cases "event_observation e a ob1")
  have "final \<Longrightarrow> ob_status ob' = ''busy'' \<and> ob_turn_state ob' = ''incomplete''"
    using step ob1 assms(1,3)
    by (auto simp: event_observation_def status_observation_def ready_observation_def Let_def activity_running_def leaves_loop_def
        split: if_split_asm)
  then show ?thesis
    using assms(1,3) step unfolding apply_live_observation_def ob1_def [symmetric]
    by (auto simp: activity_running_def leaves_loop_def)
qed

lemma owner_at_get: "owner_at B t i = Some owner \<longleftrightarrow> get_projection B runtime_ownership_projection i t = Some (StRuntime owner)"
  by (auto simp: owner_at_def as_runtime_def split: option.split stored.split)

lemma activity_at_get: "activity_at B t i = Some a \<longleftrightarrow> get_projection B runtime_activity_projection i t = Some (StRuntimeActivity a)"
  by (auto simp: activity_at_def as_activity_def split: option.split stored.split)

lemma observation_at_get: "observation_at B t i = Some ob \<longleftrightarrow> get_projection B observation_projection i t = Some (StObservation ob)"
  by (auto simp: observation_at_def as_observation_def split: option.split stored.split)

lemmas parts_at = owner_at_get activity_at_get observation_at_get

lemma load_activity_at: "activity_at B t i = Some a \<Longrightarrow> load_activity B i t = Inr a"
  by (simp add: activity_at_get load_activity_def as_activity_def)

lemma load_observation_at: "observation_at B t i = Some ob \<Longrightarrow> load_observation B i t = ob"
  by (simp add: observation_at_get load_observation_def)

lemma loop_not_queued: "loop_running B i rt t \<Longrightarrow> m_id m = i \<Longrightarrow> \<not> queue_admits B opts now t m a"
  by (auto simp: loop_running_def queue_admits_def parts_at)

context event_store
begin

text \<open>What an ingestion that is new stores, when the event is applied to the activity.\<close>

lemma ingest_applied:
  assumes "ingest_runtime_event B locate now e d = Inr (r, d')" and "log_rep B ok (db_tx d) L" and "tx_ok ok (db_tx d)"
    and "length L < 2 ^ 64 - 1" and "\<not> recorded B e (db_tx d)"
    and "load_activity B (re_item e) (db_tx d) = Inr a" and "applied_activity e a = Some a'"
  obtains owner b where "owner_at B (db_tx d') (re_item e) = Some owner" and "ar_id owner = re_runtime e"
    and "b = a'\<lparr>ra_observed_at := now, ra_source := ''daemon.runtime.live''\<rparr>" and "activity_at B (db_tx d') (re_item e) = Some b"
    and "observation_at B (db_tx d') (re_item e)
      = Some ((apply_live_observation (load_observation B (re_item e) (db_tx d)) e b)\<lparr>ob_observed_at := now\<rparr>)"
    and "\<forall>name k. name \<noteq> runtime_ownership_projection \<and> name \<noteq> runtime_activity_projection \<and> name \<noteq> observation_projection
      \<longrightarrow> get_projection B name k (db_tx d') = get_projection B name k (db_tx d)"
proof -
  from ingest_spec [OF assms(1-5)] obtain owner where own: "owner_at B (db_tx d) (re_item e) = Some owner" "ar_id owner = re_runtime e"
    and get: "\<And>name k. get_projection B name k (db_tx d') = after_event B now e owner a (db_tx d) name k"
    using assms(6) by (metis sum.inject(2))
  show thesis
    by (rule that [of "reported_owner now e a owner" "a'\<lparr>ra_observed_at := now, ra_source := ''daemon.runtime.live''\<rparr>"])
      (use own assms(7) in \<open>simp_all add: parts_at get after_event_owner after_event_activity after_event_observation after_event_other\<close>)
qed

lemma ingest_log:
  assumes "ingest_runtime_event B locate now e d = Inr (r, d')" and "log_rep B ok (db_tx d) L" and "tx_ok ok (db_tx d)"
    and "length L < 2 ^ 64 - 1"
  shows "\<exists>L'. log_rep B ok (db_tx d') L' \<and> tx_ok ok (db_tx d') \<and> length L' \<le> Suc (length L)"
proof (cases "recorded B e (db_tx d)")
  case True
  then have "db_tx d' = db_tx d" using ingest_recorded [OF assms(1)] by simp
  then show ?thesis using assms(2,3) by (intro exI [of _ L]) simp
next
  case False
  then obtain ev where "log_rep B ok (db_tx d') (L @ [ev])" "tx_ok ok (db_tx d')"
    using ingest_spec [OF assms] by metis
  then show ?thesis by (intro exI [of _ "L @ [ev]"]) simp
qed

lemma loop_step:
  assumes "ingest_runtime_event B locate now e d = Inr (r, d')" and "log_rep B ok (db_tx d) L" and "tx_ok ok (db_tx d)"
    and "length L < 2 ^ 64 - 1" and loop: "loop_running B i rt (db_tx d)" and stay: "re_item e = i \<Longrightarrow> \<not> leaves_loop e"
  shows "loop_running B i rt (db_tx d')"
proof (cases "recorded B e (db_tx d)")
  case True
  then show ?thesis using ingest_recorded [OF assms(1)] loop by simp
next
  case False
  obtain o0 a0 ob where at: "owner_at B (db_tx d) i = Some o0" "ar_id o0 = rt" "activity_at B (db_tx d) i = Some a0" "activity_running rt a0"
    "observation_at B (db_tx d) i = Some ob" "ob_status ob = ''busy''" "ob_turn_state ob = ''incomplete''"
    using loop by (auto simp: loop_running_def)
  from ingest_spec [OF assms(1-4) False] obtain owner a where own: "owner_at B (db_tx d) (re_item e) = Some owner" "ar_id owner = re_runtime e"
    and a: "load_activity B (re_item e) (db_tx d) = Inr a"
    and get: "\<And>name k. get_projection B name k (db_tx d') = after_event B now e owner a (db_tx d) name k"
    by metis
  show ?thesis
  proof (cases "re_item e = i")
    case other: False
    then have "get_projection B name i (db_tx d') = get_projection B name i (db_tx d)" for name
      using get after_event_key by metis
    then show ?thesis using loop by (simp add: loop_running_def parts_at)
  next
    case here: True
    have same: "owner = o0" "a = a0" "re_runtime e = rt" using own a at here load_activity_at [OF at(3)] by auto
    show ?thesis
    proof (cases "applied_activity e a")
      case None
      have "activity_at B (db_tx d') (re_item e) = Some a0" "observation_at B (db_tx d') (re_item e) = Some ob"
        using at(3,5) [folded here] None by (simp_all add: parts_at get after_event_activity after_event_observation)
      moreover have "owner_at B (db_tx d') (re_item e) = Some (reported_owner now e a owner)"
        by (simp add: parts_at get after_event_owner)
      ultimately show ?thesis unfolding loop_running_def here using at(2,4,6,7) same
        by (intro exI [of _ "reported_owner now e a owner"] exI [of _ a0] exI [of _ ob]) simp
    next
      case (Some a')
      from ingest_applied [OF assms(1-4) False a Some] obtain o1 b where
        new: "owner_at B (db_tx d') i = Some o1" "ar_id o1 = rt" "b = a'\<lparr>ra_observed_at := now, ra_source := ''daemon.runtime.live''\<rparr>"
          "activity_at B (db_tx d') i = Some b"
          "observation_at B (db_tx d') i = Some ((apply_live_observation (load_observation B i (db_tx d)) e b)\<lparr>ob_observed_at := now\<rparr>)"
        using here same(3) by metis
      have "apply_runtime_activity a (event_header e) i rt = Some a'"
        using Some here same(3) by (simp add: applied_activity_def split: if_split_asm)
      from running_applied [OF at(4) [folded same(2)] this] have "activity_running rt a'"
        using stay [OF here] by (auto simp: leaves_loop_def)
      then have run: "activity_running rt b" by (simp add: new(3) activity_running_def)
      from running_observed [OF this at(7) stay [OF here]]
      show ?thesis using new run load_observation_at [OF at(5)] by (simp add: loop_running_def)
    qed
  qed
qed

lemma loop_run:
  "ingest_run B locate d es d' \<Longrightarrow> log_rep B ok (db_tx d) L \<Longrightarrow> tx_ok ok (db_tx d) \<Longrightarrow> length L + length es < 2 ^ 64 \<Longrightarrow>
   loop_running B i rt (db_tx d) \<Longrightarrow> (\<And>e. e \<in> set es \<Longrightarrow> re_item e = i \<Longrightarrow> \<not> leaves_loop e) \<Longrightarrow> loop_running B i rt (db_tx d')"
proof (induction arbitrary: L rule: ingest_run.induct)
  case (cons now e d r d1 es d2)
  have len: "length L < 2 ^ 64 - 1" using cons.prems(3) by simp
  obtain L' where L': "log_rep B ok (db_tx d1) L'" "tx_ok ok (db_tx d1)" "length L' \<le> Suc (length L)"
    using ingest_log [OF cons.hyps(1) cons.prems(1,2) len] by blast
  have "loop_running B i rt (db_tx d1)"
    using loop_step [OF cons.hyps(1) cons.prems(1,2) len cons.prems(4)] cons.prems(5) by simp
  then show ?case using cons.IH [OF L'(1,2)] L'(3) cons.prems(3,5) by simp
qed simp

end

section \<open>Repeated delivery\<close>

text \<open>An event whose ingestion is on record and whose runtime still owns the item.\<close>

definition delivered ::
  "('b, stored) bolt \<Rightarrow> (repository \<Rightarrow> (coord_error, repository) result) \<Rightarrow> runtime_event \<Rightarrow> commit_result \<Rightarrow> 'b tx_state \<Rightarrow> bool" where
  "delivered B locate e c t \<longleftrightarrow> b_get B (tx_commands t) (''runtime-event:'' @ re_id e) = Some (StCommit c)
     \<and> (\<exists>owner. event_owner B locate e t = Inr owner) \<and> (\<exists>a. load_activity B (re_item e) t = Inr a)"

lemma delivered_same:
  "re_id e' = re_id e \<Longrightarrow> re_item e' = re_item e \<Longrightarrow> re_runtime e' = re_runtime e \<Longrightarrow> delivered B locate e' c t = delivered B locate e c t"
  by (simp add: delivered_def event_owner_iff)

lemma delivered_again:
  assumes "delivered B locate e c (db_tx d)" and "event_refused e = None"
  shows "ingest_runtime_event B locate now e d = Inr (\<lparr>ig_event = re_id e,
    ig_sequence = (case cr_events c of [] \<Rightarrow> cr_final_sequence c | ev # _ \<Rightarrow> de_sequence ev),
    ig_revision = cr_item_revision c, ig_duplicate = True\<rparr>, d)"
proof -
  have again: "commit B now (ingest_command now e) ps us d = Inr (c\<lparr>cr_duplicate := True\<rparr>, d)" for ps us
    using assms(1) by (simp add: commit_def commit_tx_def ingest_command_def delivered_def)
  then show ?thesis using assms by (auto simp: ingest_runtime_event_def delivered_def split: list.split)
qed

context event_store
begin

lemma ingest_keeps:
  assumes "ingest_runtime_event B locate now e d = Inr (r, d')" and "log_rep B ok (db_tx d) L" and "tx_ok ok (db_tx d)"
    and "length L < 2 ^ 64 - 1"
  shows "(\<forall>k v. b_get B (tx_commands (db_tx d)) k = Some v \<longrightarrow> b_get B (tx_commands (db_tx d')) k = Some v)
    \<and> (\<forall>e'. (\<exists>o1. event_owner B locate e' (db_tx d) = Inr o1) \<longrightarrow> (\<exists>o2. event_owner B locate e' (db_tx d') = Inr o2))
    \<and> (\<forall>i. (\<exists>a. load_activity B i (db_tx d) = Inr a) \<longrightarrow> (\<exists>a. load_activity B i (db_tx d') = Inr a))"
proof (cases "recorded B e (db_tx d)")
  case True
  then show ?thesis using ingest_recorded [OF assms(1)] by simp
next
  case False
  then have none: "b_get B (tx_commands (db_tx d)) (cm_id (ingest_command now e)) = None"
    by (simp add: recorded_def ingest_command_def)
  obtain owner a c where c: "commit B now (ingest_command now e) [ingest_pending e]
       (event_updates now e owner a (load_observation B (re_item e) (db_tx d))) d = Inr (c, d')"
    using ingestE [OF assms(1)] by metis
  have "length L + length [ingest_pending e] < 2 ^ 64" using assms(4) by simp
  from commit_spec [OF c assms(2,3) this none]
  have cmds: "\<forall>k v. b_get B (tx_commands (db_tx d)) k = Some v \<longrightarrow> b_get B (tx_commands (db_tx d')) k = Some v"
    using none by (metis option.distinct(1))
  from ingest_spec [OF assms False] obtain ow b where
    get: "\<And>name k. get_projection B name k (db_tx d') = after_event B now e ow b (db_tx d) name k"
    and ow: "owner_at B (db_tx d) (re_item e) = Some ow"
    by metis
  have "get_projection B manifest_projection k (db_tx d') = get_projection B manifest_projection k (db_tx d)" for k
    by (simp add: get after_event_other)
  then have m: "manifest_at B (db_tx d') = manifest_at B (db_tx d)" using manifest_at_cong [of "db_tx d'" "db_tx d"] by blast
  have own: "owner_at B (db_tx d') i = (if i = re_item e then Some (reported_owner now e b ow) else owner_at B (db_tx d) i)" for i
    by (simp add: owner_at_def get after_event_owner after_event_key)
  have "\<exists>o2. event_owner B locate e' (db_tx d') = Inr o2" if "event_owner B locate e' (db_tx d) = Inr o1" for e' o1
    using that ow own [of "re_item e'"] by (cases "re_item e' = re_item e") (auto simp: event_owner_iff m claim_current_def)
  moreover have "\<exists>a. load_activity B i (db_tx d') = Inr a" if "load_activity B i (db_tx d) = Inr a0" for i a0
    using that by (cases "i = re_item e")
      (auto simp: load_activity_def get after_event_activity after_event_key as_activity_def split: option.splits)
  ultimately show ?thesis using cmds by blast
qed

lemma ingest_delivers:
  assumes "ingest_runtime_event B locate now e d = Inr (r, d')" and "log_rep B ok (db_tx d) L" and "tx_ok ok (db_tx d)"
    and "length L < 2 ^ 64 - 1"
  obtains c where "delivered B locate e c (db_tx d')" and "r\<lparr>ig_duplicate := True\<rparr> = \<lparr>ig_event = re_id e,
    ig_sequence = (case cr_events c of [] \<Rightarrow> cr_final_sequence c | ev # _ \<Rightarrow> de_sequence ev),
    ig_revision = cr_item_revision c, ig_duplicate = True\<rparr>"
proof -
  obtain owner a c where owner: "event_owner B locate e (db_tx d) = Inr owner"
    and a: "load_activity B (re_item e) (db_tx d) = Inr a"
    and c: "commit B now (ingest_command now e) [ingest_pending e]
       (event_updates now e owner a (load_observation B (re_item e) (db_tx d))) d = Inr (c, d')"
    and r: "r = \<lparr>ig_event = re_id e, ig_sequence = (case cr_events c of [] \<Rightarrow> cr_final_sequence c | ev # _ \<Rightarrow> de_sequence ev),
       ig_revision = cr_item_revision c, ig_duplicate = cr_duplicate c\<rparr>"
    using ingestE [OF assms(1)] by metis
  have id: "cm_id (ingest_command now e) = ''runtime-event:'' @ re_id e" by (simp add: ingest_command_def)
  obtain r0 where "b_get B (tx_commands (db_tx d')) (''runtime-event:'' @ re_id e) = Some (StCommit r0)"
    and r0: "r0\<lparr>cr_duplicate := True\<rparr> = c\<lparr>cr_duplicate := True\<rparr>"
    using commit_recorded [OF bucket_store_axioms assms(3) c, unfolded id] by blast
  then have "delivered B locate e r0 (db_tx d')" using ingest_keeps [OF assms] owner a by (simp add: delivered_def)
  moreover have "cr_events r0 = cr_events c" "cr_final_sequence r0 = cr_final_sequence c" "cr_item_revision r0 = cr_item_revision c"
    using r0 by (metis commit_result.ext_inject commit_result.surjective commit_result.update_convs)+
  ultimately show thesis by (intro that [of r0]) (simp_all add: r split: list.split)
qed

lemma run_delivered:
  "ingest_run B locate d es d' \<Longrightarrow> log_rep B ok (db_tx d) L \<Longrightarrow> tx_ok ok (db_tx d) \<Longrightarrow> length L + length es < 2 ^ 64 \<Longrightarrow>
   delivered B locate e c (db_tx d) \<Longrightarrow> delivered B locate e c (db_tx d')"
proof (induction arbitrary: L rule: ingest_run.induct)
  case (cons now e1 d r d1 es d2)
  have len: "length L < 2 ^ 64 - 1" using cons.prems(3) by simp
  obtain L' where L': "log_rep B ok (db_tx d1) L'" "tx_ok ok (db_tx d1)" "length L' \<le> Suc (length L)"
    using ingest_log [OF cons.hyps(1) cons.prems(1,2) len] by blast
  have "delivered B locate e c (db_tx d1)"
    using ingest_keeps [OF cons.hyps(1) cons.prems(1,2) len] cons.prems(4) unfolding delivered_def by blast
  then show ?case using cons.IH [OF L'(1,2)] L'(3) cons.prems(3) by simp
qed simp

end

text \<open>C11: at-least-once delivery records an event once. When an event was ingested, every later delivery under its
  identity, by the same runtime for the same item, however many other live events of this and other items were
  ingested or repeated in between, is answered with the first sequence and revision, marked as a duplicate, and
  changes nothing.\<close>

theorem ingest_exactly_once:
  assumes "bucket_store B ok" and "log_rep B ok (db_tx d) L" and "tx_ok ok (db_tx d)" and "length L + length es < 2 ^ 64 - 1"
    and "ingest_runtime_event B locate now e d = Inr (r, d1)" and "ingest_run B locate d1 es d2"
    and "event_refused e' = None" and "re_id e' = re_id e" and "re_item e' = re_item e" and "re_runtime e' = re_runtime e"
  shows "ingest_runtime_event B locate now' e' d2 = Inr (r\<lparr>ig_duplicate := True\<rparr>, d2)"
proof -
  note es = event_store_bucket [OF assms(1)]
  have len: "length L < 2 ^ 64 - 1" using assms(4) by simp
  obtain L' where L': "log_rep B ok (db_tx d1) L'" "tx_ok ok (db_tx d1)" "length L' \<le> Suc (length L)"
    using event_store.ingest_log [OF es assms(5,2,3) len] by blast
  obtain c where c: "delivered B locate e c (db_tx d1)" and r: "r\<lparr>ig_duplicate := True\<rparr> = \<lparr>ig_event = re_id e,
      ig_sequence = (case cr_events c of [] \<Rightarrow> cr_final_sequence c | ev # _ \<Rightarrow> de_sequence ev),
      ig_revision = cr_item_revision c, ig_duplicate = True\<rparr>"
    by (rule event_store.ingest_delivers [OF es assms(5,2,3) len])
  have "delivered B locate e' c (db_tx d2)"
    using event_store.run_delivered [OF es assms(6) L'(1,2) _ c] L'(3) assms(4) by (simp add: delivered_same [OF assms(8-10)])
  from delivered_again [OF this assms(7)] show ?thesis using assms(8) by (simp add: r)
qed

context event_store
begin

text \<open>An event of the owner whose identity is new is accepted.\<close>

lemma ingest_accepts:
  assumes "event_refused e = None" and "event_owner B locate e (db_tx d) = Inr owner" and "load_activity B (re_item e) (db_tx d) = Inr a"
    and "\<not> recorded B e (db_tx d)" and "b_get B (tx_event_ids (db_tx d)) (re_id e) = None"
  shows "\<exists>r d'. ingest_runtime_event B locate now e d = Inr (r, d')"
proof -
  have ids: "re_item e \<noteq> []" "re_id e \<noteq> []" "re_type e \<noteq> []"
    using event_refused_None [OF assms(1)] by (auto simp: allowed_live_event_def)
  have "\<forall>u\<in>set us. pu_projection u \<noteq> [] \<and> pu_key u \<noteq> [] \<Longrightarrow> \<exists>t'. apply_updates B us t = Inr t'" for us t
    by (induction us arbitrary: t) (auto simp: apply_update_def)
  moreover have "\<forall>u\<in>set (event_updates now e owner a (load_observation B (re_item e) (db_tx d))). pu_projection u \<noteq> [] \<and> pu_key u \<noteq> []"
    using ids by (auto simp: event_updates_def owner_update_def activity_updates_def Let_def split: option.splits)
  ultimately have "\<exists>t'. apply_updates B (event_updates now e owner a (load_observation B (re_item e) (db_tx d))) t = Inr t'" for t
    by blast
  then obtain f where "apply_updates B (event_updates now e owner a (load_observation B (re_item e) (db_tx d))) t = Inr (f t)" for t
    by metis
  then have "\<exists>c d'. commit B now (ingest_command now e) [ingest_pending e]
      (event_updates now e owner a (load_observation B (re_item e) (db_tx d))) d = Inr (c, d')"
    using assms(4,5) ids by (auto simp: commit_def commit_tx_def ingest_command_def ingest_pending_def recorded_def Let_def)
  then show ?thesis using assms(1-3) by (auto simp: ingest_runtime_event_def)
qed

lemma ingest_next:
  assumes "ingest_runtime_event B locate now e d = Inr (r, d')" and "log_rep B ok (db_tx d) L" and "tx_ok ok (db_tx d)"
    and "length L < 2 ^ 64 - 1" and "\<not> recorded B e (db_tx d)" and "\<And>m. locate m = Inr m"
    and "event_refused e' = None" and "re_item e' = re_item e" and "re_runtime e' = re_runtime e" and "re_id e' \<noteq> re_id e"
    and "\<not> recorded B e' (db_tx d)" and "re_id e' \<notin> de_id ` set L"
  shows "(\<exists>r' d2. ingest_runtime_event B locate now' e' d' = Inr (r', d2)) \<and> \<not> recorded B e' (db_tx d')"
proof -
  from ingest_spec [OF assms(1-5)] obtain owner a ev where
    s: "owner_at B (db_tx d) (re_item e) = Some owner" "load_activity B (re_item e) (db_tx d) = Inr a" "log_rep B ok (db_tx d') (L @ [ev])"
      "ev = stamp L (pending_event_of (ingest_command now e) (ingest_pending e))" "\<not> recorded B e' (db_tx d')"
    and get: "\<And>name k. get_projection B name k (db_tx d') = after_event B now e owner a (db_tx d) name k"
    using assms(10,11) by metis
  have "get_projection B manifest_projection k (db_tx d') = get_projection B manifest_projection k (db_tx d)" for k
    by (simp add: get after_event_other)
  then have "manifest_at B (db_tx d') = manifest_at B (db_tx d)" using manifest_at_cong [of "db_tx d'" "db_tx d"] by blast
  moreover have "owner_at B (db_tx d') (re_item e) = Some (reported_owner now e a owner)" by (simp add: owner_at_def get after_event_owner)
  moreover obtain o0 where "event_owner B locate e (db_tx d) = Inr o0" using ingestE [OF assms(1)] by metis
  ultimately have "\<exists>o'. event_owner B locate e' (db_tx d') = Inr o'"
    using s(1) assms(6,8,9) by (auto simp: event_owner_iff claim_current_def)
  moreover have "\<exists>a'. load_activity B (re_item e') (db_tx d') = Inr a'"
    using s(2) assms(8) by (auto simp: load_activity_def get after_event_activity as_activity_def split: option.splits)
  moreover have "b_get B (tx_event_ids (db_tx d')) (re_id e') \<noteq> None \<longleftrightarrow> re_id e' \<in> de_id ` set (L @ [ev])"
    using s(3) unfolding log_rep_def ev_rep_def by blast
  then have "b_get B (tx_event_ids (db_tx d')) (re_id e') = None" using assms(10,12) by (simp add: s(4))
  ultimately show ?thesis using ingest_accepts assms(7) s(5) by blast
qed

end

text \<open>C12: an item whose agent is in its loop stays busy and out of the attention queue through any run of live
  events, until one says that the loop settled, that the runtime failed, what the native agent does, or that
  only the operator can move it on. The report that an agent started brings its item into that state.\<close>

theorem agent_loop_stays_busy:
  assumes "bucket_store B ok" and "log_rep B ok (db_tx d) L" and "tx_ok ok (db_tx d)" and "length L + length es < 2 ^ 64 - 1"
    and "ingest_runtime_event B locate now e d = Inr (r, d1)" and "\<not> recorded B e (db_tx d)"
    and "re_type e = event_agent_started" and "\<not> quiet_outcome (re_reason e)"
    and "\<forall>a at. activity_at B (db_tx d) (re_item e) = Some a \<and> ra_last_event_at a = Some at \<longrightarrow> at \<le> re_time e"
    and "ingest_run B locate d1 es d2" and "\<forall>e'\<in>set es. re_item e' = re_item e \<longrightarrow> \<not> leaves_loop e'"
  shows "loop_running B (re_item e) (re_runtime e) (db_tx d2)
    \<and> (\<forall>opts t m a. m_id m = re_item e \<longrightarrow> \<not> queue_admits B opts t (db_tx d2) m a)"
proof -
  note es = event_store_bucket [OF assms(1)]
  have len: "length L < 2 ^ 64 - 1" using assms(4) by simp
  obtain a where a: "load_activity B (re_item e) (db_tx d) = Inr a" using ingestE [OF assms(5)] by metis
  have new: "case ra_last_event_at a of None \<Rightarrow> True | Some at \<Rightarrow> at \<le> re_time e"
    using a assms(9) by (auto simp: load_activity_def activity_at_def empty_activity_def split: option.splits)
  define a' where "a' = event_activity (event_header e) ((if ra_runtime a \<noteq> [] \<and> ra_runtime a \<noteq> re_runtime e then empty_activity (re_item e) else a)
    \<lparr>ra_item := re_item e, ra_runtime := re_runtime e, ra_last_event_at := Some (re_time e)\<rparr>)"
  have applied: "applied_activity e a = Some a'"
    using new assms(7,8) by (auto simp: applied_activity_def apply_runtime_activity_def a'_def Let_def split: option.splits)
  have run: "activity_running (re_runtime e) a'" using assms(7) by (simp add: a'_def event_activity_def activity_running_def Let_def)
  from event_store.ingest_applied [OF es assms(5,2,3) len assms(6) a applied] obtain owner b where
    at: "owner_at B (db_tx d1) (re_item e) = Some owner" "ar_id owner = re_runtime e"
      "b = a'\<lparr>ra_observed_at := now, ra_source := ''daemon.runtime.live''\<rparr>" "activity_at B (db_tx d1) (re_item e) = Some b"
      "observation_at B (db_tx d1) (re_item e)
        = Some ((apply_live_observation (load_observation B (re_item e) (db_tx d)) e b)\<lparr>ob_observed_at := now\<rparr>)"
    by metis
  have "activity_running (re_runtime e) b" using run by (simp add: at(3) activity_running_def)
  moreover from this have "ob_status (apply_live_observation ob e b) = ''busy'' \<and> ob_turn_state (apply_live_observation ob e b) = ''incomplete''" for ob
    using assms(7) by (simp add: apply_live_observation_def event_observation_def work_observation_def activity_running_def needs_operator_def)
  ultimately have "loop_running B (re_item e) (re_runtime e) (db_tx d1)"
    using at by (simp add: loop_running_def)
  moreover obtain L' where "log_rep B ok (db_tx d1) L'" "tx_ok ok (db_tx d1)" "length L' \<le> Suc (length L)"
    using event_store.ingest_log [OF es assms(5,2,3) len] by blast
  ultimately have "loop_running B (re_item e) (re_runtime e) (db_tx d2)"
    using event_store.loop_run [OF es assms(10), of L'] assms(4,11) by simp
  then show ?thesis using loop_not_queued by blast
qed


section \<open>A concrete agent\<close>

definition live_runtime :: agent_runtime where
  "live_runtime = zero_runtime\<lparr>ar_id := ''rt1'', ar_item := m_id this_item\<rparr>"

definition live_tx :: "(string \<times> stored) list tx_state" where
  "live_tx = put_projection list_bolt runtime_ownership_projection (m_id this_item) (StRuntime live_runtime)
     (put_projection list_bolt manifest_projection (m_id this_item) (StManifest active_item) list_tx)"

definition live_db :: "(string \<times> stored) list database" where
  "live_db = \<lparr>db_tx = live_tx, db_changes = new_change_log ''k''\<rparr>"

definition live_event :: "string \<Rightarrow> string \<Rightarrow> string \<Rightarrow> instant \<Rightarrow> runtime_event" where
  "live_event i kind outcome at = \<lparr>re_id = i, re_runtime = ''rt1'', re_item = m_id this_item, re_type = kind, re_time = at,
     re_command = [], re_request = [], re_role = [], re_tool = [], re_failed = False, re_readiness = [], re_reason = [],
     re_delivery = [], re_outcome = outcome, re_agent = [], re_leaf = [], re_settings = []\<rparr>"

abbreviation started_event :: runtime_event where "started_event \<equiv> live_event ''e1'' event_agent_started [] 5"
abbreviation settled_event :: runtime_event where "settled_event \<equiv> live_event ''e2'' event_agent_settled ''completed'' 7"

lemma live_tx_get: "get_projection list_bolt name k live_tx =
   (if k \<noteq> m_id this_item then None else if name = runtime_ownership_projection then Some (StRuntime live_runtime)
    else if name = manifest_projection then Some (StManifest active_item) else None)"
  using list_events.get_put_projection [OF list_events.tx_ok_put(4) [OF list_tx_ok]] list_events.get_put_projection [OF list_tx_ok]
  by (auto simp: live_tx_def) (auto simp: get_projection_def new_tx_def)

lemma live_tx_rep: "log_rep list_bolt kv_ok live_tx []" "tx_ok kv_ok live_tx"
  using list_tx_rep list_events.tx_ok_put(4) [OF list_events.tx_ok_put(4) [OF list_tx_ok]] by (simp_all add: live_tx_def log_rep_def)

lemma live_manifest_at: "manifest_at list_bolt live_tx = [m_id this_item \<mapsto> active_item]"
  by (simp add: manifest_at_def live_tx_get fun_eq_iff)

lemma live_accepted: "event_refused started_event = None" "event_refused settled_event = None"
  by (simp_all add: go_eval event_refused_def live_event_def sample_fields valid_id_def id_char_def id_invalid_def compact_identifier_printable
      safe_runtime_id_def is_zero_time_def zero_time_def allowed_live_event_def valid_readiness_def valid_reason_code_def
      valid_delivery_state_def valid_agent_observation_def reason_table_def runtime_reason_text_def)

lemma live_owner: "event_owner list_bolt Inr e live_tx = Inr live_runtime" if "re_item e = m_id this_item" "re_runtime e = ''rt1''"
  using that by (simp add: event_owner_iff live_manifest_at owner_at_def live_tx_get claim_current_def live_runtime_def zero_runtime_def
      start_valid)

lemma live_starts: "\<exists>r d'. ingest_runtime_event list_bolt Inr 6 started_event live_db = Inr (r, d')"
  using live_tx_rep(1)
  by (intro list_events.ingest_accepts [OF live_accepted(1), where owner = live_runtime and a = "empty_activity (m_id this_item)"])
    (simp_all add: live_db_def live_owner live_event_def load_activity_def live_tx_get recorded_def log_rep_def ev_rep_def,
      simp_all add: live_tx_def put_projection_def set_projection_def new_tx_def kv_get_def)

lemma live_fresh: "\<not> recorded list_bolt e live_tx"
  by (simp add: recorded_def live_tx_def put_projection_def set_projection_def new_tx_def kv_get_def)

lemma live_inv: "store_inv list_bolt kv_ok live_tx []"
proof -
  have "items_ok list_bolt live_tx" by (auto simp: items_ok_def live_tx_get active_fields sample_fields)
  moreover have "dependency [m_id this_item \<mapsto> active_item] = {}"
    by (auto simp: dependency_def active_item_def deep_item_def deep_item_persist(2) [unfolded deep_item_def] item_targets_def
        sample_fields split: if_split_asm)
  moreover have "item_ok active_item" using deep_item_ok by (auto simp: item_ok_def manifest_ok_def active_item_def deep_item_def valid_state_def sample_fields)
  ultimately show ?thesis
    using live_tx_rep by (auto simp: store_inv_def live_manifest_at items_inv_def acyclic_def active_fields split: if_split_asm)
qed

theorem ingest_runtime_event_refines_witness:
  "\<exists>r d' ev. ingest_runtime_event list_bolt Inr 6 started_event live_db = Inr (r, d')
     \<and> store_inv list_bolt kv_ok (db_tx d') [ev] \<and> de_id ev = ''e1''"
proof -
  obtain r d' where run: "ingest_runtime_event list_bolt Inr 6 started_event live_db = Inr (r, d')" using live_starts by blast
  from ingest_runtime_event_refines [OF list_store.bucket_store_axioms _ _ run, of "[]"] live_inv live_fresh
  show ?thesis using run by (auto simp: live_db_def live_event_def)
qed

abbreviation working_event :: runtime_event where "working_event \<equiv> live_event ''e3'' event_tool_started [] 6"

lemma working_accepted: "event_refused working_event = None"
  by (simp add: go_eval event_refused_def live_event_def sample_fields valid_id_def id_char_def id_invalid_def compact_identifier_printable
      safe_runtime_id_def is_zero_time_def zero_time_def allowed_live_event_def valid_readiness_def valid_reason_code_def
      valid_delivery_state_def valid_agent_observation_def reason_table_def runtime_reason_text_def)

lemma live_run:
  assumes "event_refused (live_event i kind outcome at) = None" and "i \<noteq> ''e1''"
  obtains r1 d1 r2 d2 where "ingest_runtime_event list_bolt Inr 6 started_event live_db = Inr (r1, d1)"
    and "ingest_runtime_event list_bolt Inr 8 (live_event i kind outcome at) d1 = Inr (r2, d2)"
    and "\<not> recorded list_bolt (live_event i kind outcome at) (db_tx d1)"
proof -
  obtain r1 d1 where run: "ingest_runtime_event list_bolt Inr 6 started_event live_db = Inr (r1, d1)" using live_starts by blast
  have "(\<exists>r' d2. ingest_runtime_event list_bolt Inr 8 (live_event i kind outcome at) d1 = Inr (r', d2))
      \<and> \<not> recorded list_bolt (live_event i kind outcome at) (db_tx d1)"
    by (rule list_events.ingest_next [OF run, of "[]"]) (use live_tx_rep live_fresh assms in \<open>simp_all add: live_db_def live_event_def\<close>)
  then show thesis using that run by blast
qed

theorem ingest_exactly_once_witness:
  "\<exists>r1 d1 r2 d2. ingest_runtime_event list_bolt Inr 6 started_event live_db = Inr (r1, d1)
     \<and> ingest_runtime_event list_bolt Inr 8 working_event d1 = Inr (r2, d2)
     \<and> ingest_runtime_event list_bolt Inr 9 started_event d2 = Inr (r1\<lparr>ig_duplicate := True\<rparr>, d2)"
proof -
  obtain r1 d1 r2 d2 where run: "ingest_runtime_event list_bolt Inr 6 started_event live_db = Inr (r1, d1)"
    "ingest_runtime_event list_bolt Inr 8 working_event d1 = Inr (r2, d2)"
    by (rule live_run [OF working_accepted]) simp_all
  have "ingest_runtime_event list_bolt Inr 9 started_event d2 = Inr (r1\<lparr>ig_duplicate := True\<rparr>, d2)"
    by (rule ingest_exactly_once [OF list_store.bucket_store_axioms _ _ _ run(1) ingest_run.cons [OF run(2) ingest_run.nil]
        live_accepted(1), of "[]"]) (use live_tx_rep in \<open>simp_all add: live_db_def\<close>)
  then show ?thesis using run by blast
qed

lemma quiet_none: "\<not> quiet_outcome []"
  by (simp add: quiet_outcome_def setting_outcome_def)

theorem agent_loop_stays_busy_witness:
  "\<exists>r1 d1 r2 d2. ingest_runtime_event list_bolt Inr 6 started_event live_db = Inr (r1, d1)
     \<and> ingest_runtime_event list_bolt Inr 8 working_event d1 = Inr (r2, d2)
     \<and> loop_running list_bolt (m_id this_item) ''rt1'' (db_tx d2)"
proof -
  obtain r1 d1 r2 d2 where run: "ingest_runtime_event list_bolt Inr 6 started_event live_db = Inr (r1, d1)"
    "ingest_runtime_event list_bolt Inr 8 working_event d1 = Inr (r2, d2)"
    by (rule live_run [OF working_accepted]) simp_all
  have "loop_running list_bolt (re_item started_event) (re_runtime started_event) (db_tx d2) \<and>
      (\<forall>opts t m a. m_id m = re_item started_event \<longrightarrow> \<not> queue_admits list_bolt opts t (db_tx d2) m a)"
    by (rule agent_loop_stays_busy [OF list_store.bucket_store_axioms _ _ _ run(1), of "[]" "[working_event]"])
      (use live_tx_rep live_fresh quiet_none run(2) in \<open>simp_all add: live_db_def live_event_def activity_at_def live_tx_get
        leaves_loop_def needs_operator_def ingest_run.intros ingest_run.cons [OF run(2) [unfolded live_event_def] ingest_run.nil]\<close>)
  then show ?thesis using run by (auto simp: live_event_def)
qed


end
