(* ===== verification/Utf8.thy ===== *)
theory Utf8
  imports GoStrings
begin

text \<open>
  Slices of valid UTF-8: what the bounds of the program keep of a text (\<open>content.go\<close> cuts at the start of a rune)
  and what it puts together is valid UTF-8 again, so that \<open>encoding/json\<close>, which replaces only invalid bytes,
  carries it unchanged.
\<close>

section \<open>Single runes\<close>

text \<open>The bytes of one well-formed rune.\<close>

definition one_rune :: "string \<Rightarrow> bool" where
  "one_rune u \<longleftrightarrow> u \<noteq> [] \<and> snd (decode_rune (bytes_of u)) = length u
     \<and> \<not> (fst (decode_rune (bytes_of u)) = rune_error \<and> length u = 1)"

lemma decode_rune_forms:
  assumes "bs \<noteq> []" and "\<not> (fst (decode_rune bs) = rune_error \<and> snd (decode_rune bs) = 1)"
  obtains (one) b0 r where "bs = b0 # r" and "b0 < 0x80"
  | (two) b0 b1 r where "bs = b0 # b1 # r" and "0xC2 \<le> b0" and "b0 < 0xE0" and "second_lo b0 \<le> b1" and "b1 \<le> second_hi b0"
  | (three) b0 b1 b2 r where "bs = b0 # b1 # b2 # r" and "0xE0 \<le> b0" and "b0 < 0xF0" and "second_lo b0 \<le> b1" and "b1 \<le> second_hi b0"
      and "is_cont b2"
  | (four) b0 b1 b2 b3 r where "bs = b0 # b1 # b2 # b3 # r" and "0xF0 \<le> b0" and "b0 \<le> 0xF4" and "second_lo b0 \<le> b1"
      and "b1 \<le> second_hi b0" and "is_cont b2" and "is_cont b3"
proof -
  obtain b0 r where bs: "bs = b0 # r" using assms(1) by (cases bs) auto
  show thesis
  proof (cases "b0 < 0x80")
    case False
    then have b0: "0xC2 \<le> b0" "b0 \<le> 0xF4" using assms(2) by (auto simp: bs decode_rune_def split: if_split_asm)
    then obtain b1 r1 where r: "r = b1 # r1" using assms(2) False by (cases r) (auto simp: bs decode_rune_def)
    have b1: "second_lo b0 \<le> b1" "b1 \<le> second_hi b0"
      using assms(2) False b0 by (auto simp: bs r decode_rune_def split: if_split_asm)
    show thesis
    proof (cases "b0 < 0xE0")
      case False
      then obtain b2 r2 where r1: "r1 = b2 # r2" using assms(2) b0 b1 by (cases r1) (auto simp: bs r decode_rune_def)
      have b2: "is_cont b2" using assms(2) False b0 b1 by (auto simp: bs r r1 decode_rune_def split: if_split_asm)
      show thesis
      proof (cases "b0 < 0xF0")
        case False
        then obtain b3 r3 where r2: "r2 = b3 # r3" using assms(2) b0 b1 b2 by (cases r2) (auto simp: bs r r1 decode_rune_def)
        have "is_cont b3" using assms(2) False b0 b1 b2 by (auto simp: bs r r1 r2 decode_rune_def split: if_split_asm)
        then show thesis using four bs r r1 r2 False b0 b1 b2 by simp
      qed (use three bs r r1 b1 b2 \<open>\<not> b0 < 0xE0\<close> in simp)
    qed (use two bs r b0 b1 in simp)
  qed (use one bs in simp)
qed

lemma decode_rune_more:
  assumes "bs \<noteq> []" and "\<not> (fst (decode_rune bs) = rune_error \<and> snd (decode_rune bs) = 1)"
  shows "decode_rune (bs @ x) = decode_rune bs \<and> snd (decode_rune bs) \<le> length bs
    \<and> decode_rune (take (snd (decode_rune bs)) bs) = decode_rune bs"
  using assms by (cases rule: decode_rune_forms) (simp_all add: decode_rune_def)

lemma decode_rune_tail:
  assumes "snd (decode_rune bs) = length bs" and "\<not> (fst (decode_rune bs) = rune_error \<and> length bs = 1)" and "0 < k" and "k < length bs"
  shows "is_cont (bs ! k)"
proof -
  have cont: "is_cont b1" if "second_lo b \<le> b1" "b1 \<le> second_hi b" for b b1
    using that by (auto simp: is_cont_def second_lo_def second_hi_def split: if_split_asm)
  have "bs \<noteq> []" "\<not> (fst (decode_rune bs) = rune_error \<and> snd (decode_rune bs) = 1)" using assms(1,2,4) by auto
  then show ?thesis
  proof (cases rule: decode_rune_forms)
    case (three b0 b1 b2 r)
    then have "k = 1 \<or> k = 2" using assms by (auto simp: decode_rune_def)
    then show ?thesis using three cont by auto
  next
    case (four b0 b1 b2 b3 r)
    then have "k = 1 \<or> k = 2 \<or> k = 3" using assms by (auto simp: decode_rune_def)
    then show ?thesis using four cont by auto
  qed (use assms cont in \<open>auto simp: decode_rune_def less_Suc_eq\<close>)
qed

lemma bytes_of_simps [simp]:
  "bytes_of (s @ t) = bytes_of s @ bytes_of t" "length (bytes_of s) = length s" "bytes_of s = [] \<longleftrightarrow> s = []"
  "bytes_of (take n s) = take n (bytes_of s)"
  by (simp_all add: bytes_of_def take_map)

lemma chunks_step:
  "s \<noteq> [] \<Longrightarrow> chunks s = (fst (decode_rune (bytes_of s)), take (snd (decode_rune (bytes_of s))) s)
     # chunks (drop (snd (decode_rune (bytes_of s))) s)"
  by (cases s) (simp_all add: chunks.simps(2) split_def Let_def)

lemma chunks_rune:
  assumes "one_rune u"
  shows "chunks (u @ s) = (fst (decode_rune (bytes_of u)), u) # chunks s"
proof -
  have "decode_rune (bytes_of (u @ s)) = decode_rune (bytes_of u)"
    using decode_rune_more [of "bytes_of u" "bytes_of s"] assms by (auto simp: one_rune_def)
  then show ?thesis using assms chunks_step [of "u @ s"] by (simp add: one_rune_def)
qed

lemma valid_utf8_Nil [simp]: "valid_utf8 []"
  by (simp add: valid_utf8_def)

lemma valid_utf8_rune [simp]: "one_rune u \<Longrightarrow> valid_utf8 (u @ s) \<longleftrightarrow> valid_utf8 s"
  by (auto simp: valid_utf8_def chunks_rune bad_chunk_def one_rune_def)

lemma valid_utf8_first:
  assumes "valid_utf8 s" and "s \<noteq> []"
  obtains u v where "s = u @ v" and "one_rune u" and "valid_utf8 v"
proof -
  define w where "w = snd (decode_rune (bytes_of s))"
  have ch: "chunks s = (fst (decode_rune (bytes_of s)), take w s) # chunks (drop w s)"
    using chunks_step [OF assms(2)] by (simp add: w_def)
  have ne: "bytes_of s \<noteq> []" using assms(2) by simp
  have pos: "0 < w" using decode_rune_width [OF ne] by (simp add: w_def)
  have good: "\<not> (fst (decode_rune (bytes_of s)) = rune_error \<and> w = 1)"
  proof
    assume bad: "fst (decode_rune (bytes_of s)) = rune_error \<and> w = 1"
    then have "length (take w s) = 1" using assms(2) by (cases s) simp_all
    then show False using assms(1) ch bad by (simp add: valid_utf8_def bad_chunk_def)
  qed
  note m = decode_rune_more [OF ne good [unfolded w_def]]
  then have "one_rune (take w s)" using good pos assms(2) by (auto simp: one_rune_def w_def)
  moreover have "valid_utf8 (drop w s)" using assms(1) ch by (simp add: valid_utf8_def)
  ultimately show thesis using that [of "take w s" "drop w s"] by simp
qed

lemma valid_utf8_induct [consumes 1, case_names Nil rune]:
  assumes "valid_utf8 s" and "P []" and "\<And>u v. one_rune u \<Longrightarrow> valid_utf8 v \<Longrightarrow> P v \<Longrightarrow> P (u @ v)"
  shows "P s"
  using assms(1)
proof (induction "length s" arbitrary: s rule: less_induct)
  case less
  show ?case
  proof (cases "s = []")
    case False
    obtain u v where "s = u @ v" "one_rune u" "valid_utf8 v" using valid_utf8_first [OF less.prems False] by blast
    moreover have "u \<noteq> []" using \<open>one_rune u\<close> by (simp add: one_rune_def)
    ultimately show ?thesis using assms(3) less.hyps [of v] by simp
  qed (simp add: assms(2))
qed

section \<open>Texts\<close>

lemma valid_utf8_append: "valid_utf8 s \<Longrightarrow> valid_utf8 (s @ t) \<longleftrightarrow> valid_utf8 t"
  by (induction s rule: valid_utf8_induct) simp_all

lemma valid_utf8_cat [intro]: "valid_utf8 s \<Longrightarrow> valid_utf8 t \<Longrightarrow> valid_utf8 (s @ t)"
  by (simp add: valid_utf8_append)

text \<open>A cut before the first byte of a rune, or at the end, leaves two valid parts.\<close>

lemma valid_utf8_cut:
  assumes "valid_utf8 s" and "k < length s \<longrightarrow> \<not> is_cont (of_char (s ! k))"
  shows "valid_utf8 (take k s) \<and> valid_utf8 (drop k s)"
  using assms
proof (induction s arbitrary: k rule: valid_utf8_induct)
  case (rune u v)
  show ?case
  proof (cases "k = 0")
    case False
    have len: "length u \<le> k"
    proof (rule ccontr)
      assume k: "\<not> length u \<le> k"
      have "is_cont (bytes_of u ! k)"
        by (rule decode_rune_tail) (use rune.hyps(1) False k in \<open>auto simp: one_rune_def\<close>)
      then show False using rune.prems k by (simp add: nth_append bytes_of_def)
    qed
    then have "valid_utf8 (take (k - length u) v) \<and> valid_utf8 (drop (k - length u) v)"
      using rune.IH [of "k - length u"] rune.prems by (simp add: nth_append)
    then show ?thesis using rune.hyps(1) len by simp
  qed (use rune.hyps in simp)
qed simp

lemma valid_utf8_drop_prefix: "valid_utf8 (take n s) \<Longrightarrow> valid_utf8 s \<Longrightarrow> valid_utf8 (drop n s)"
  using valid_utf8_append [of "take n s" "drop n s"] by simp

end
