(* ===== verification/LiveContent.thy ===== *)
theory LiveContent
  imports Utf8 "HOL-Library.Word"
begin

text \<open>
  Live content of a runtime (\<open>agentdriver/protocol/content.go\<close>): the snapshot a driver keeps of the message it
  is streaming, the numbered events that change it, the server that sends both to its readers through bounded
  queues, and the client that follows a stream. The server's lock makes each of its operations one step; the
  goroutine of a reader takes events from its queue and writes them between them. Sockets and deadlines are left
  out: the lines a reader writes are the lines its client reads. \<open>encoding/json\<close> is a parameter, of which the
  proofs use that an event of valid UTF-8 decodes from its line; the client's limit on a line is the code's.
\<close>

section \<open>Snapshots and events\<close>

record content_tool =
  ct_id :: string
  ct_name :: string
  ct_status :: string
  ct_input :: string
  ct_output :: string

record prompt_link =
  pl_request :: string
  pl_native :: "string list"

record content =
  cn_protocol :: int
  cn_runtime :: string
  cn_item :: string
  cn_sequence :: "64 word"
  cn_idle_guard :: bool
  cn_message :: string
  cn_text :: string
  cn_truncated :: bool
  cn_activity :: string
  cn_leaf :: string
  cn_saved_as :: "string list"
  cn_thought :: string
  cn_error :: string
  cn_tool :: "content_tool option"
  cn_tools :: "content_tool list"
  cn_prompts :: "prompt_link list"

record content_event =
  ce_sequence :: "64 word"
  ce_type :: string
  ce_message :: string
  ce_text :: string
  ce_truncated :: bool
  ce_tool :: "content_tool option"
  ce_native :: "string list"
  ce_request :: string
  ce_activity :: string
  ce_leaf :: string
  ce_snapshot :: "content option"

abbreviation content_version :: int where "content_version \<equiv> 1"

abbreviation content_snapshot :: string where "content_snapshot \<equiv> ''snapshot''"
abbreviation message_started :: string where "message_started \<equiv> ''message.started''"
abbreviation message_delta :: string where "message_delta \<equiv> ''message.delta''"
abbreviation message_replaced :: string where "message_replaced \<equiv> ''message.replaced''"
abbreviation message_completed :: string where "message_completed \<equiv> ''message.completed''"
abbreviation message_saved :: string where "message_saved \<equiv> ''message.saved''"
abbreviation tool_started :: string where "tool_started \<equiv> ''tool.started''"
abbreviation tool_updated :: string where "tool_updated \<equiv> ''tool.updated''"
abbreviation tool_completed :: string where "tool_completed \<equiv> ''tool.completed''"
abbreviation tool_cleared :: string where "tool_cleared \<equiv> ''tool.cleared''"
abbreviation thought_delta :: string where "thought_delta \<equiv> ''thought.delta''"
abbreviation prompt_saved :: string where "prompt_saved \<equiv> ''prompt.saved''"
abbreviation content_activity :: string where "content_activity \<equiv> ''activity''"
abbreviation turn_settled :: string where "turn_settled \<equiv> ''turn.settled''"

definition no_event :: "string \<Rightarrow> content_event" where
  "no_event kind = \<lparr>ce_sequence = 0, ce_type = kind, ce_message = [], ce_text = [], ce_truncated = False, ce_tool = None,
     ce_native = [], ce_request = [], ce_activity = [], ce_leaf = [], ce_snapshot = None\<rparr>"

section \<open>Bounds\<close>

abbreviation max_content_text :: nat where "max_content_text \<equiv> 262144"
abbreviation max_content_field :: nat where "max_content_field \<equiv> 65536"
abbreviation max_content_tools :: nat where "max_content_tools \<equiv> 32"
abbreviation max_prompt_links :: nat where "max_prompt_links \<equiv> 8"

definition rune_start :: "char \<Rightarrow> bool" where
  "rune_start c \<longleftrightarrow> \<not> is_cont (of_char c)"

text \<open>The last start of a rune at or before a position of the text.\<close>

fun rune_end :: "string \<Rightarrow> nat \<Rightarrow> nat" where
  "rune_end text 0 = 0"
| "rune_end text (Suc n) = (if rune_start (text ! Suc n) then Suc n else rune_end text n)"

definition bounded_content_text :: "string \<Rightarrow> string \<times> bool" where
  "bounded_content_text text =
     (if length text \<le> max_content_text then (text, False) else (take (rune_end text max_content_text) text, True))"

definition bounded_thought :: "string \<Rightarrow> string" where
  "bounded_thought text =
     (if length text \<le> max_content_field then text
      else dropWhile (\<lambda>c. \<not> rune_start c) (drop (length text - max_content_field) text))"

definition bounded_content_field :: "string \<Rightarrow> string" where
  "bounded_content_field v =
     (if length v \<le> max_content_field then v
      else take (rune_end v max_content_field) v @ CHR 0x0A # ''[content truncated]'')"

definition newest :: "nat \<Rightarrow> 'a list \<Rightarrow> 'a list" where
  "newest n xs = drop (length xs - n) xs"

text \<open>The call a tool event updates: the last with its id, or without an id the last of its name.\<close>

definition same_call :: "content_tool \<Rightarrow> content_tool \<Rightarrow> bool" where
  "same_call tool other \<longleftrightarrow>
     ct_id tool \<noteq> [] \<and> ct_id other = ct_id tool \<or> ct_id tool = [] \<and> ct_id other = [] \<and> ct_name other = ct_name tool"

fun replace_last :: "('a \<Rightarrow> bool) \<Rightarrow> 'a \<Rightarrow> 'a list \<Rightarrow> 'a list option" where
  "replace_last P y [] = None"
| "replace_last P y (x # xs) = (case replace_last P y xs of
     Some ys \<Rightarrow> Some (x # ys)
   | None \<Rightarrow> if P x then Some (y # xs) else None)"

definition upsert_tool :: "content_tool list \<Rightarrow> content_tool \<Rightarrow> content_tool list" where
  "upsert_tool tools tool = (case replace_last (same_call tool) tool tools of
     Some next' \<Rightarrow> next'
   | None \<Rightarrow> newest max_content_tools (tools @ [tool]))"

definition link_prompt :: "prompt_link list \<Rightarrow> prompt_link \<Rightarrow> prompt_link list" where
  "link_prompt links link = newest max_prompt_links (filter (\<lambda>l. pl_request l \<noteq> pl_request link) links @ [link])"

section \<open>Applying events\<close>

definition content_change :: "content \<Rightarrow> content_event \<Rightarrow> content" where
  "content_change v e =
     (let kind = ce_type e
      in if kind = message_started then v\<lparr>cn_message := ce_message e, cn_text := [], cn_truncated := False, cn_tool := None,
           cn_saved_as := [], cn_thought := [], cn_tools := []\<rparr>
         else if kind = message_delta then
           (if cn_truncated v then v
            else (let (text, cut) = bounded_content_text (cn_text v @ ce_text e)
              in v\<lparr>cn_text := text, cn_truncated := cut, cn_saved_as := []\<rparr>))
         else if kind = message_replaced then
           (let (text, cut) = bounded_content_text (ce_text e); v = v\<lparr>cn_text := text, cn_truncated := cut \<or> ce_truncated e, cn_saved_as := []\<rparr>
            in if ce_message e \<noteq> [] then v\<lparr>cn_message := ce_message e\<rparr> else v)
         else if kind = message_saved then v\<lparr>cn_saved_as := ce_native e\<rparr>
         else if kind = tool_started \<or> kind = tool_updated \<or> kind = tool_completed then
           v\<lparr>cn_tool := ce_tool e, cn_tools := (case ce_tool e of None \<Rightarrow> cn_tools v | Some tool \<Rightarrow> upsert_tool (cn_tools v) tool)\<rparr>
         else if kind = tool_cleared then v\<lparr>cn_tool := None, cn_tools := []\<rparr>
         else if kind = thought_delta then v\<lparr>cn_thought := bounded_thought (cn_thought v @ ce_text e)\<rparr>
         else if kind = prompt_saved then
           v\<lparr>cn_prompts := link_prompt (cn_prompts v) \<lparr>pl_request = ce_request e, pl_native = ce_native e\<rparr>\<rparr>
         else v)"

definition apply_content :: "content \<Rightarrow> content_event \<Rightarrow> content" where
  "apply_content v e =
     (if ce_type e = content_snapshot \<and> ce_snapshot e \<noteq> None then the (ce_snapshot e)
      else (let v = content_change (v\<lparr>cn_sequence := ce_sequence e\<rparr>) e
        in if ce_type e = content_activity then v\<lparr>cn_activity := ce_activity e, cn_leaf := ce_leaf e\<rparr>
           else if ce_activity e \<noteq> [] then v\<lparr>cn_activity := ce_activity e\<rparr> else v))"

section \<open>The server\<close>

text \<open>A reader: its queue, the bytes counted for it, and what its goroutine has written.\<close>

record content_reader =
  rd_open :: bool
  rd_queue :: "content_event list"
  rd_queued :: int
  rd_start :: content
  rd_flight :: "content_event option"
  rd_wire :: "content_event list"

record content_server =
  cs_value :: content
  cs_closed :: bool
  cs_readers :: "content_reader list"

abbreviation max_content_subscribers :: nat where "max_content_subscribers \<equiv> 32"
abbreviation content_subscriber_buffer :: nat where "content_subscriber_buffer \<equiv> 512"
abbreviation content_subscriber_bytes :: int where "content_subscriber_bytes \<equiv> 8388608"

definition content_event_size :: "content_event \<Rightarrow> int" where
  "content_event_size e = int (length (ce_text e)) + (case ce_tool e of
     None \<Rightarrow> 0 | Some tool \<Rightarrow> int (length (ct_input tool)) + int (length (ct_output tool)))"

definition listen_content :: "string \<Rightarrow> string \<Rightarrow> bool \<Rightarrow> content_server" where
  "listen_content runtime item idle_guard = \<lparr>cs_value = \<lparr>cn_protocol = content_version, cn_runtime = runtime, cn_item = item,
     cn_sequence = 0, cn_idle_guard = idle_guard, cn_message = [], cn_text = [], cn_truncated = False, cn_activity = [], cn_leaf = [],
     cn_saved_as = [], cn_thought = [], cn_error = [], cn_tool = None, cn_tools = [], cn_prompts = []\<rparr>, cs_closed = False, cs_readers = []\<rparr>"

definition drop_reader :: "content_reader \<Rightarrow> content_reader" where
  "drop_reader r = r\<lparr>rd_open := False\<rparr>"

definition offer_event :: "content_event \<Rightarrow> content_reader \<Rightarrow> content_reader" where
  "offer_event e r =
     (if \<not> rd_open r then r
      else if rd_queued r + content_event_size e > content_subscriber_bytes then drop_reader r
      else (let r = r\<lparr>rd_queued := rd_queued r + content_event_size e\<rparr>
        in if length (rd_queue r) < content_subscriber_buffer then r\<lparr>rd_queue := rd_queue r @ [e]\<rparr> else drop_reader r))"

definition number_event :: "content \<Rightarrow> content_event \<Rightarrow> content_event" where
  "number_event v e = e\<lparr>ce_sequence := cn_sequence v + 1\<rparr>"

definition publish :: "content_event \<Rightarrow> content_server \<Rightarrow> content_server" where
  "publish e s =
     (let e = number_event (cs_value s) e
      in s\<lparr>cs_value := apply_content (cs_value s) e, cs_readers := List.map (offer_event e) (cs_readers s)\<rparr>)"

definition subscribe :: "content_server \<Rightarrow> (string, content_server) result" where
  "subscribe s =
     (if cs_closed s then Inl ''content server closed''
      else if length (filter rd_open (cs_readers s)) \<ge> max_content_subscribers then Inl ''too many content subscribers''
      else Inr (s\<lparr>cs_readers := cs_readers s @ [\<lparr>rd_open = True, rd_queue = [], rd_queued = 0, rd_start = cs_value s,
        rd_flight = None, rd_wire = []\<rparr>]\<rparr>))"

definition close_content :: "content_server \<Rightarrow> content_server" where
  "close_content s = s\<lparr>cs_closed := True, cs_readers := List.map drop_reader (cs_readers s)\<rparr>"

text \<open>A request for one snapshot or a stream.\<close>

datatype content_reply = Mismatch | Snapshot content | Refuse string | Stream content_server

definition serve_content :: "int \<Rightarrow> string \<Rightarrow> string \<Rightarrow> bool \<Rightarrow> content_server \<Rightarrow> content_reply" where
  "serve_content version runtime item stream s =
     (if version \<noteq> content_version \<or> runtime \<noteq> cn_runtime (cs_value s) \<or> item \<noteq> cn_item (cs_value s) then Mismatch
      else if \<not> stream then Snapshot (cs_value s)
      else (case subscribe s of Inl why \<Rightarrow> Refuse why | Inr s' \<Rightarrow> Stream s'))"

section \<open>Driver updates\<close>

text \<open>What a call of the driver publishes, from the snapshot it finds under the lock.\<close>

definition live_message_id :: "content \<Rightarrow> string" where
  "live_message_id v = ''live-'' @ itoa (unat (cn_sequence v + 1))"

definition prior_call :: "string \<Rightarrow> string \<Rightarrow> content_tool list \<Rightarrow> content_tool option" where
  "prior_call tool_id tool_name tools =
     (case filter (\<lambda>tool. ct_id tool = tool_id \<and> (tool_id \<noteq> [] \<or> ct_name tool = tool_name)) tools of [] \<Rightarrow> None | ts \<Rightarrow> Some (last ts))"

definition update_tool ::
  "string \<Rightarrow> string \<Rightarrow> string \<Rightarrow> string \<Rightarrow> string \<Rightarrow> string \<Rightarrow> bool \<Rightarrow> content \<Rightarrow> content_event list" where
  "update_tool kind text tool_id tool_name input output failed v =
     (let prior = prior_call tool_id tool_name (cn_tools v)
      in if kind = message_started
         then [(no_event message_started)\<lparr>ce_message := live_message_id v, ce_activity := ''Assistant responding''\<rparr>]
         else if kind = message_delta then
           (if \<not> cn_truncated v \<and> text \<noteq> []
            then [(no_event message_delta)\<lparr>ce_message := cn_message v, ce_text := text, ce_activity := ''Assistant responding''\<rparr>]
            else [])
         else if kind = message_completed
         then [(no_event message_completed)\<lparr>ce_message := cn_message v, ce_activity := ''Message saved''\<rparr>]
         else if kind = tool_started
         then [(no_event tool_started)\<lparr>ce_tool := Some \<lparr>ct_id = tool_id, ct_name = tool_name, ct_status = ''running'',
             ct_input = bounded_content_field input, ct_output = []\<rparr>, ce_activity := ''Tool running: '' @ tool_name\<rparr>]
         else if kind = tool_updated then
           (let tool = (case prior of Some t \<Rightarrow> t
                | None \<Rightarrow> \<lparr>ct_id = tool_id, ct_name = tool_name, ct_status = ''running'', ct_input = [], ct_output = []\<rparr>)
            in [(no_event tool_updated)\<lparr>ce_tool := Some (tool\<lparr>ct_output := bounded_content_field output\<rparr>),
                 ce_activity := ''Tool running: '' @ tool_name\<rparr>])
         else if kind = tool_completed then
           (let status = (if failed then ''failed'' else ''completed'');
                tool = (case prior of Some t \<Rightarrow> t | None \<Rightarrow> \<lparr>ct_id = tool_id, ct_name = tool_name, ct_status = [], ct_input = [], ct_output = []\<rparr>)
            in [(no_event tool_completed)\<lparr>ce_tool := Some (tool\<lparr>ct_status := status, ct_output := bounded_content_field output\<rparr>),
                 ce_activity := ''Tool '' @ status @ '': '' @ tool_name\<rparr>])
         else if kind = ''agent.settled'' then [(no_event turn_settled)\<lparr>ce_activity := ''Idle''\<rparr>]
         else [])"

definition start_message :: "content \<Rightarrow> content_event list" where
  "start_message v = [(no_event message_started)\<lparr>ce_message := live_message_id v\<rparr>]"

definition set_activity :: "string \<Rightarrow> content \<Rightarrow> content_event list" where
  "set_activity activity v =
     (let activity = bounded_content_field activity
      in if activity \<noteq> cn_activity v then [(no_event content_activity)\<lparr>ce_activity := activity, ce_leaf := cn_leaf v\<rparr>] else [])"

definition set_branch :: "string \<Rightarrow> string \<Rightarrow> content \<Rightarrow> content_event list" where
  "set_branch leaf activity v =
     (let activity = (let a = bounded_content_field activity in if a = [] then cn_activity v else a)
      in if leaf \<noteq> cn_leaf v \<or> activity \<noteq> cn_activity v
         then [(no_event content_activity)\<lparr>ce_activity := activity, ce_leaf := leaf\<rparr>] else [])"

definition valid_native_ids :: "string list \<Rightarrow> bool" where
  "valid_native_ids ids \<longleftrightarrow> ids \<noteq> [] \<and> length ids \<le> 16 \<and> list_all (\<lambda>i. i \<noteq> [] \<and> length i \<le> 128) ids"

definition prompt_was_saved :: "string \<Rightarrow> string list \<Rightarrow> content \<Rightarrow> content_event list" where
  "prompt_was_saved request ids v =
     (if request = [] \<or> length request > 200 \<or> \<not> valid_native_ids ids then []
      else if list_ex (\<lambda>l. pl_request l = request \<and> pl_native l = ids) (cn_prompts v) then []
      else [(no_event prompt_saved)\<lparr>ce_request := request, ce_native := ids\<rparr>])"

definition share_thought :: "string \<Rightarrow> content \<Rightarrow> content_event list" where
  "share_thought text v =
     (if text = [] then [] else [(no_event thought_delta)\<lparr>ce_message := cn_message v, ce_text := text\<rparr>])"

text \<open>\<open>strings.Fields\<close> and its join with single spaces.\<close>

fun words_from :: "(nat \<times> string) list \<Rightarrow> string \<Rightarrow> string list" where
  "words_from [] word = (if word = [] then [] else [word])"
| "words_from ((r, bs) # cs) word =
     (if is_space r then (if word = [] then [] else [word]) @ words_from cs [] else words_from cs (word @ bs))"

definition squeezed :: "string \<Rightarrow> string" where
  "squeezed text = join_with '' '' (words_from (chunks text) [])"

definition mark_saved :: "string \<Rightarrow> string list \<Rightarrow> content \<Rightarrow> content_event list" where
  "mark_saved text ids v =
     (if \<not> valid_native_ids ids then []
      else (let live = squeezed (cn_text v)
        in if live = [] \<or> live \<noteq> squeezed (fst (bounded_content_text text)) \<or> cn_saved_as v = ids then []
           else [(no_event message_saved)\<lparr>ce_message := cn_message v, ce_native := ids\<rparr>]))"

text \<open>A whole snapshot as the events that change the current one into it.\<close>

definition bounded_tool :: "content_tool \<Rightarrow> content_tool" where
  "bounded_tool tool = tool\<lparr>ct_input := bounded_content_field (ct_input tool), ct_output := bounded_content_field (ct_output tool),
     ct_name := bounded_content_field (ct_name tool)\<rparr>"

definition activity_change :: "string \<Rightarrow> string \<Rightarrow> content \<Rightarrow> content_event list" where
  "activity_change leaf activity current =
     (if leaf \<noteq> cn_leaf current \<or> activity \<noteq> cn_activity current
      then [(no_event content_activity)\<lparr>ce_activity := activity, ce_leaf := leaf\<rparr>] else [])"

definition text_change :: "string \<Rightarrow> bool \<Rightarrow> content \<Rightarrow> content_event list" where
  "text_change text truncated current =
     (if text \<noteq> cn_text current \<or> truncated \<noteq> cn_truncated current then
        (if \<not> truncated \<and> \<not> cn_truncated current \<and> take (length (cn_text current)) text = cn_text current
         then [(no_event message_delta)\<lparr>ce_message := cn_message current, ce_text := drop (length (cn_text current)) text\<rparr>]
         else [(no_event message_replaced)\<lparr>ce_message := cn_message current, ce_text := text, ce_truncated := truncated\<rparr>])
      else [])"

definition tool_event_kind :: "content_tool \<Rightarrow> content_tool option \<Rightarrow> string" where
  "tool_event_kind t current =
     (if ct_status t = ''completed'' \<or> ct_status t = ''failed'' then tool_completed
      else (case current of None \<Rightarrow> tool_started | Some c \<Rightarrow> if ct_id c \<noteq> ct_id t then tool_started else tool_updated))"

definition tool_change :: "content_tool option \<Rightarrow> content \<Rightarrow> content_event list" where
  "tool_change tool current = (case tool of
     None \<Rightarrow> if cn_tool current \<noteq> None then [no_event tool_cleared] else []
   | Some t \<Rightarrow>
       if cn_tool current \<noteq> Some t then [(no_event (tool_event_kind t (cn_tool current)))\<lparr>ce_tool := Some t\<rparr>] else [])"

definition publish_snapshot :: "string \<Rightarrow> string \<Rightarrow> string \<Rightarrow> content_tool option \<Rightarrow> bool \<Rightarrow> content \<Rightarrow> content_event list" where
  "publish_snapshot leaf text activity tool truncated current =
     (let activity = bounded_content_field activity; (text, cut) = bounded_content_text text; tool = map_option bounded_tool tool
      in activity_change leaf activity current @ text_change text (truncated \<or> cut) current @ tool_change tool current)"

datatype driver_call =
    UpdateTool string string string string string string bool
  | StartMessage
  | SetActivity string
  | SetBranch string string
  | PromptSaved string "string list"
  | ShareThought string
  | MarkSaved string "string list"
  | PublishSnapshot string string string "content_tool option" bool

fun call_events :: "driver_call \<Rightarrow> content \<Rightarrow> content_event list" where
  "call_events (UpdateTool kind text i name input output failed) v = update_tool kind text i name input output failed v"
| "call_events StartMessage v = start_message v"
| "call_events (SetActivity activity) v = set_activity activity v"
| "call_events (SetBranch leaf activity) v = set_branch leaf activity v"
| "call_events (PromptSaved request ids) v = prompt_was_saved request ids v"
| "call_events (ShareThought text) v = share_thought text v"
| "call_events (MarkSaved text ids) v = mark_saved text ids v"
| "call_events (PublishSnapshot leaf text activity tool truncated) v = publish_snapshot leaf text activity tool truncated v"

definition driver_call :: "driver_call \<Rightarrow> content_server \<Rightarrow> content_server" where
  "driver_call c s = fold publish (call_events c (cs_value s)) s"

section \<open>A reader's goroutine\<close>

definition snapshot_event :: "content \<Rightarrow> content_event" where
  "snapshot_event v = (no_event content_snapshot)\<lparr>ce_sequence := cn_sequence v, ce_snapshot := Some v\<rparr>"

text \<open>The first write is the snapshot; then an event is taken from the queue, written, and its bytes released.\<close>

definition reader_first :: "content_reader \<Rightarrow> content_reader option" where
  "reader_first r = (if rd_wire r = [] then Some (r\<lparr>rd_wire := [snapshot_event (rd_start r)]\<rparr>) else None)"

definition reader_take :: "content_reader \<Rightarrow> content_reader option" where
  "reader_take r = (if rd_wire r = [] \<or> rd_flight r \<noteq> None then None
     else (case rd_queue r of [] \<Rightarrow> None | e # es \<Rightarrow> Some (r\<lparr>rd_queue := es, rd_flight := Some e\<rparr>)))"

definition reader_write :: "content_reader \<Rightarrow> content_reader option" where
  "reader_write r = (case rd_flight r of None \<Rightarrow> None
     | Some e \<Rightarrow> Some (r\<lparr>rd_wire := rd_wire r @ [e], rd_flight := None, rd_queued := rd_queued r - content_event_size e\<rparr>))"

section \<open>The client\<close>

text \<open>\<open>encoding/json\<close>: the line of an event, and the event and error field of a line. The scanner of the client ends
  with an error at a line that, with its line break, does not fit its buffer.\<close>

record stream_json =
  sj_encode :: "content_event \<Rightarrow> string"
  sj_decode :: "string \<Rightarrow> (content_event \<times> string) option"

datatype stream_error =
    LineTooLong
  | LineUndecodable
  | StreamRefused string
  | StreamUnsupported
  | OwnerWrong
  | Skipped "64 word" "64 word"

abbreviation max_stream_line :: nat where "max_stream_line \<equiv> 4194304"

definition scan_line :: "stream_json \<Rightarrow> string \<Rightarrow> (stream_error, content_event \<times> string) result" where
  "scan_line J line = (if length line + 1 > max_stream_line then Inl LineTooLong
     else (case sj_decode J line of None \<Rightarrow> Inl LineUndecodable | Some x \<Rightarrow> Inr x))"

text \<open>The content a client shows after the lines that arrived, and the last sequence it saw.\<close>

fun follow_content :: "stream_json \<Rightarrow> content \<Rightarrow> 64 word \<Rightarrow> string list \<Rightarrow> (stream_error, content) result" where
  "follow_content J v n [] = Inr v"
| "follow_content J v n (line # ls) = rbind (scan_line J line) (\<lambda>(e, _).
     if ce_sequence e \<noteq> n + 1 then Inl (Skipped n (ce_sequence e)) else follow_content J (apply_content v e) (ce_sequence e) ls)"

definition empty_content :: content where
  "empty_content = cs_value (listen_content [] [] False)"

definition subscribe_content :: "stream_json \<Rightarrow> string \<Rightarrow> string \<Rightarrow> string \<Rightarrow> string list \<Rightarrow> (stream_error, content) result" where
  "subscribe_content J runtime item line ls = rbind (scan_line J line) (\<lambda>(first, refusal).
     if refusal \<noteq> [] then Inl (StreamRefused refusal)
     else if ce_type first \<noteq> content_snapshot then Inl StreamUnsupported
     else (case ce_snapshot first of
         None \<Rightarrow> Inl StreamUnsupported
       | Some v \<Rightarrow>
           if cn_protocol v \<noteq> content_version \<or> cn_runtime v \<noteq> runtime \<or> cn_item v \<noteq> item then Inl OwnerWrong
           else follow_content J (apply_content empty_content first) (ce_sequence first) ls))"

section \<open>Runs\<close>

text \<open>The lists of events a server published, in order, and the states they lead to.\<close>

fun numbered :: "content \<Rightarrow> content_event list \<Rightarrow> content_event list" where
  "numbered v [] = []"
| "numbered v (e # es) = (let e = number_event v e in e # numbered (apply_content v e) es)"

definition with_reader :: "nat \<Rightarrow> content_reader \<Rightarrow> content_server \<Rightarrow> content_server" where
  "with_reader k r s = s\<lparr>cs_readers := (cs_readers s)[k := r]\<rparr>"

definition reader_move :: "content_reader \<Rightarrow> content_reader \<Rightarrow> bool" where
  "reader_move r r' \<longleftrightarrow> reader_first r = Some r' \<or> reader_take r = Some r' \<or> reader_write r = Some r' \<or> r' = drop_reader r"

inductive content_run :: "string \<Rightarrow> string \<Rightarrow> bool \<Rightarrow> content_event list \<Rightarrow> content_server \<Rightarrow> bool"
  for runtime :: string and item :: string and idle_guard :: bool where
  listen: "content_run runtime item idle_guard [] (listen_content runtime item idle_guard)"
| driver: "content_run runtime item idle_guard E s \<Longrightarrow>
    content_run runtime item idle_guard (E @ numbered (cs_value s) (call_events c (cs_value s))) (driver_call c s)"
| subscribed: "content_run runtime item idle_guard E s \<Longrightarrow> subscribe s = Inr s' \<Longrightarrow> content_run runtime item idle_guard E s'"
| closed: "content_run runtime item idle_guard E s \<Longrightarrow> content_run runtime item idle_guard E (close_content s)"
| reader: "content_run runtime item idle_guard E s \<Longrightarrow> k < length (cs_readers s) \<Longrightarrow> reader_move (cs_readers s ! k) r \<Longrightarrow>
    content_run runtime item idle_guard E (with_reader k r s)"

abbreviation initial_content :: "string \<Rightarrow> string \<Rightarrow> bool \<Rightarrow> content" where
  "initial_content runtime item idle_guard \<equiv> cs_value (listen_content runtime item idle_guard)"

section \<open>Lemmas\<close>

lemma call_events_plain: "e \<in> set (call_events c v) \<Longrightarrow> ce_snapshot e = None"
  by (cases c) (auto simp: update_tool_def start_message_def set_activity_def set_branch_def prompt_was_saved_def share_thought_def
      mark_saved_def publish_snapshot_def activity_change_def text_change_def tool_change_def no_event_def Let_def
      split: if_split_asm prod.splits option.splits)

text \<open>A log of numbered events.\<close>

definition log_numbered :: "content \<Rightarrow> content_event list \<Rightarrow> bool" where
  "log_numbered v E \<longleftrightarrow> (\<forall>i<length E. ce_snapshot (E ! i) = None
     \<and> ce_sequence (E ! i) = cn_sequence (foldl apply_content v (take i E)) + 1)"

lemma log_numbered_Nil [simp]: "log_numbered v []"
  by (simp add: log_numbered_def)

lemma log_numbered_snoc:
  "log_numbered v (E @ [e]) \<longleftrightarrow> log_numbered v E \<and> ce_snapshot e = None \<and> ce_sequence e = cn_sequence (foldl apply_content v E) + 1"
  by (auto simp: log_numbered_def nth_append less_Suc_eq)

lemma apply_sequence: "ce_snapshot e = None \<Longrightarrow> cn_sequence (apply_content v e) = ce_sequence e"
  by (simp add: apply_content_def content_change_def Let_def split: prod.split)

lemma apply_owner:
  "ce_snapshot e = None \<Longrightarrow> cn_protocol (apply_content v e) = cn_protocol v \<and> cn_runtime (apply_content v e) = cn_runtime v
     \<and> cn_item (apply_content v e) = cn_item v"
  by (simp add: apply_content_def content_change_def Let_def split: prod.split)

lemma log_owner:
  "log_numbered v E \<Longrightarrow> cn_protocol (foldl apply_content v E) = cn_protocol v \<and> cn_runtime (foldl apply_content v E) = cn_runtime v
     \<and> cn_item (foldl apply_content v E) = cn_item v"
  by (induction E rule: rev_induct) (simp_all add: log_numbered_snoc apply_owner)

lemma log_numbered_take: "log_numbered v E \<Longrightarrow> log_numbered v (take n E)"
  by (auto simp: log_numbered_def min_def)

section \<open>Valid UTF-8\<close>

definition utf8_tool :: "content_tool \<Rightarrow> bool" where
  "utf8_tool t \<longleftrightarrow> list_all valid_utf8 [ct_id t, ct_name t, ct_status t, ct_input t, ct_output t]"

definition utf8_link :: "prompt_link \<Rightarrow> bool" where
  "utf8_link l \<longleftrightarrow> list_all valid_utf8 (pl_request l # pl_native l)"

definition utf8_content :: "content \<Rightarrow> bool" where
  "utf8_content v \<longleftrightarrow> list_all valid_utf8 ([cn_runtime v, cn_item v, cn_message v, cn_text v, cn_activity v, cn_leaf v, cn_thought v,
       cn_error v] @ cn_saved_as v)
     \<and> pred_option utf8_tool (cn_tool v) \<and> list_all utf8_tool (cn_tools v) \<and> list_all utf8_link (cn_prompts v)"

definition utf8_event :: "content_event \<Rightarrow> bool" where
  "utf8_event e \<longleftrightarrow> list_all valid_utf8 ([ce_type e, ce_message e, ce_text e, ce_request e, ce_activity e, ce_leaf e] @ ce_native e)
     \<and> pred_option utf8_tool (ce_tool e) \<and> pred_option utf8_content (ce_snapshot e)"

lemma rune_end_start: "0 < rune_end t n \<Longrightarrow> rune_start (t ! rune_end t n)"
  by (induction n) (auto split: if_split_asm)

lemma utf8_cut_end: "valid_utf8 t \<Longrightarrow> valid_utf8 (take (rune_end t n) t)"
  using valid_utf8_cut [of t "rune_end t n"] rune_end_start [of t n]
  by (cases "rune_end t n = 0") (simp_all add: rune_start_def)

lemma utf8_bounded_text: "valid_utf8 t \<Longrightarrow> valid_utf8 (fst (bounded_content_text t))"
  using utf8_cut_end [of t max_content_text] by (simp add: bounded_content_text_def del: rune_end.simps)

lemma utf8_bounded_thought:
  assumes "valid_utf8 t"
  shows "valid_utf8 (bounded_thought t)"
proof -
  let ?u = "drop (length t - max_content_field) t"
  define k where "k = length (takeWhile (\<lambda>c. \<not> rune_start c) ?u)"
  have u: "?u ! k = t ! (length t - max_content_field + k)" if "k < length ?u" using that by simp
  have "valid_utf8 (drop (length t - max_content_field + k) t)"
  proof (rule conjunct2 [OF valid_utf8_cut [OF assms]], rule impI)
    assume "length t - max_content_field + k < length t"
    then have k: "k < length ?u" by simp
    then have "rune_start (?u ! k)" unfolding k_def by (rule nth_length_takeWhile [THEN notnotD])
    then show "\<not> is_cont (of_char (t ! (length t - max_content_field + k)))" using u [OF k] by (simp add: rune_start_def)
  qed
  moreover have "dropWhile (\<lambda>c. \<not> rune_start c) ?u = drop k ?u" unfolding k_def by (rule dropWhile_eq_drop)
  ultimately have cut: "valid_utf8 (dropWhile (\<lambda>c. \<not> rune_start c) ?u)" by (simp only: drop_drop add.commute)
  show ?thesis
  proof (cases "length t \<le> max_content_field")
    case False
    then show ?thesis using cut by (simp only: bounded_thought_def if_False)
  qed (use assms in \<open>simp add: bounded_thought_def\<close>)
qed

lemma set_newest: "set (newest n xs) \<subseteq> set xs"
  by (simp add: newest_def set_drop_subset)

lemma set_upsert_tool: "set (upsert_tool tools tool) \<subseteq> insert tool (set tools)"
proof -
  have "set ys \<subseteq> insert y (set xs)" if "replace_last P y xs = Some ys" for P y ys and xs :: "content_tool list"
    using that by (induction xs arbitrary: ys) (auto split: option.splits if_split_asm)
  then show ?thesis using set_newest [of max_content_tools "tools @ [tool]"] by (auto simp: upsert_tool_def split: option.split)
qed

lemma set_link_prompt: "set (link_prompt links link) \<subseteq> insert link (set links)"
  using set_newest [of max_prompt_links "filter (\<lambda>l. pl_request l \<noteq> pl_request link) links @ [link]"]
  by (auto simp: link_prompt_def)

lemma utf8_change:
  assumes "utf8_content v" and "utf8_event e"
  shows "utf8_content (content_change v e)"
proof -
  have t: "valid_utf8 (cn_text v @ ce_text e)" "valid_utf8 (cn_thought v @ ce_text e)" "valid_utf8 (ce_text e)"
    using assms by (auto simp: utf8_content_def utf8_event_def)
  note bounds = utf8_bounded_text [OF t(1)] utf8_bounded_text [OF t(3)] utf8_bounded_thought [OF t(2)]
  have tools: "list_all utf8_tool (upsert_tool (cn_tools v) tool)" if "ce_tool e = Some tool" for tool
    using assms that set_upsert_tool [of "cn_tools v" tool] by (auto simp: utf8_content_def utf8_event_def list_all_iff)
  have prompts: "list_all utf8_link (link_prompt (cn_prompts v) \<lparr>pl_request = ce_request e, pl_native = ce_native e\<rparr>)"
    using assms set_link_prompt [of "cn_prompts v" "\<lparr>pl_request = ce_request e, pl_native = ce_native e\<rparr>"]
    by (auto simp: utf8_content_def utf8_event_def utf8_link_def list_all_iff)
  show ?thesis
    using assms bounds tools prompts
    by (auto simp: content_change_def Let_def utf8_content_def utf8_event_def split: prod.split option.split)
qed

lemma utf8_apply:
  assumes "utf8_content v" and "utf8_event e"
  shows "utf8_content (apply_content v e)"
proof -
  have "utf8_content (v\<lparr>cn_sequence := n\<rparr>)" for n using assms(1) by (simp add: utf8_content_def)
  note c = utf8_change [OF this assms(2)]
  have "valid_utf8 (ce_activity e)" "valid_utf8 (ce_leaf e)" "pred_option utf8_content (ce_snapshot e)"
    using assms(2) by (auto simp: utf8_event_def)
  then show ?thesis using c [of "ce_sequence e"]
    by (auto simp: apply_content_def Let_def utf8_content_def)
qed

lemma utf8_log: "utf8_content v \<Longrightarrow> list_all utf8_event E \<Longrightarrow> utf8_content (foldl apply_content v E)"
  by (induction E arbitrary: v) (simp_all add: utf8_apply)

lemma utf8_listen: "valid_utf8 runtime \<Longrightarrow> valid_utf8 item \<Longrightarrow> utf8_content (cs_value (listen_content runtime item g))"
  by (simp add: utf8_content_def listen_content_def)

lemma utf8_snapshot: "utf8_content v \<Longrightarrow> utf8_event (snapshot_event v)"
  by (simp add: utf8_event_def snapshot_event_def no_event_def valid_utf8_ascii)

text \<open>Calls of the driver with valid texts publish valid events.\<close>

fun utf8_call :: "driver_call \<Rightarrow> bool" where
  "utf8_call (UpdateTool kind text i name input output failed) = list_all valid_utf8 [text, i, name, input, output]"
| "utf8_call StartMessage = True"
| "utf8_call (SetActivity activity) = valid_utf8 activity"
| "utf8_call (SetBranch leaf activity) = list_all valid_utf8 [leaf, activity]"
| "utf8_call (PromptSaved request ids) = list_all valid_utf8 (request # ids)"
| "utf8_call (ShareThought text) = valid_utf8 text"
| "utf8_call (MarkSaved text ids) = list_all valid_utf8 ids"
| "utf8_call (PublishSnapshot leaf text activity tool truncated) = (list_all valid_utf8 [leaf, text, activity] \<and> pred_option utf8_tool tool)"

lemma is_ascii_itoa: "is_ascii (itoa n)"
  using itoa_digits [of _ n] by (fastforce simp: is_ascii_def list_all_iff)

lemma utf8_ascii_Cons: "of_char c < (128::nat) \<Longrightarrow> valid_utf8 (c # s) \<longleftrightarrow> valid_utf8 s"
  using valid_utf8_append [OF valid_utf8_ascii, of "[c]" s] by simp

lemma utf8_bounded_field: "valid_utf8 t \<Longrightarrow> valid_utf8 (bounded_content_field t)"
  using utf8_cut_end [of t max_content_field]
  by (auto simp: bounded_content_field_def valid_utf8_append valid_utf8_ascii simp del: rune_end.simps)

lemma utf8_message_id: "valid_utf8 (live_message_id v)"
  by (simp add: live_message_id_def utf8_ascii_Cons valid_utf8_ascii is_ascii_itoa)

lemma utf8_prior: "list_all utf8_tool tools \<Longrightarrow> prior_call i name tools = Some tool \<Longrightarrow> utf8_tool tool"
  using last_in_set [of "filter (\<lambda>tool. ct_id tool = i \<and> (i \<noteq> [] \<or> ct_name tool = name)) tools"]
  by (auto simp: prior_call_def list_all_iff split: list.split_asm)

lemma utf8_numbered: "list_all utf8_event es \<Longrightarrow> list_all utf8_event (numbered v es)"
  by (induction es arbitrary: v) (simp_all add: Let_def number_event_def utf8_event_def)

lemma utf8_call_events:
  assumes "utf8_content v" and "utf8_call c"
  shows "list_all utf8_event (call_events c v)"
proof (cases c)
  case (UpdateTool kind t i name inp outp failed)
  have prior: "utf8_tool tool" if "prior_call i name (cn_tools v) = Some tool" for tool
    using assms(1) that utf8_prior by (auto simp: utf8_content_def)
  show ?thesis
    using assms UpdateTool utf8_bounded_field prior
    by (auto simp: update_tool_def Let_def no_event_def utf8_event_def utf8_tool_def utf8_content_def utf8_message_id valid_utf8_append
        valid_utf8_ascii utf8_ascii_Cons split: option.split)
next
  case (PublishSnapshot leaf t activity tool truncated)
  obtain b cut where b: "bounded_content_text t = (b, cut)" by (cases "bounded_content_text t")
  then have cut: "valid_utf8 b" using utf8_bounded_text [of t] assms(2) PublishSnapshot by simp
  then have rest: "valid_utf8 (drop (length (cn_text v)) b)" if "take (length (cn_text v)) b = cn_text v"
    using valid_utf8_drop_prefix [of "length (cn_text v)" b] that assms(1) by (simp add: utf8_content_def)
  have kind: "valid_utf8 (tool_event_kind x y)" for x y
    by (simp add: tool_event_kind_def valid_utf8_ascii split: option.split)
  have tool: "pred_option utf8_tool (map_option bounded_tool tool)"
    using assms(2) PublishSnapshot utf8_bounded_field by (cases tool) (simp_all add: bounded_tool_def utf8_tool_def)
  have "list_all utf8_event (activity_change leaf (bounded_content_field activity) v)"
    using assms(2) PublishSnapshot utf8_bounded_field by (simp add: activity_change_def utf8_event_def no_event_def valid_utf8_ascii)
  moreover have "list_all utf8_event (text_change b (truncated \<or> cut) v)"
    using assms(1) cut rest by (simp add: text_change_def utf8_event_def no_event_def valid_utf8_ascii utf8_content_def)
  moreover have "list_all utf8_event (tool_change x v)" if "pred_option utf8_tool x" for x
    using that kind by (cases x) (simp_all add: tool_change_def utf8_event_def no_event_def valid_utf8_ascii)
  note this [OF tool]
  ultimately show ?thesis using PublishSnapshot by (simp add: publish_snapshot_def Let_def b)
qed (use assms utf8_bounded_field in \<open>auto simp: start_message_def set_activity_def set_branch_def prompt_was_saved_def share_thought_def
  mark_saved_def Let_def no_event_def utf8_event_def utf8_content_def utf8_message_id valid_utf8_ascii\<close>)

text \<open>Decoding what was written: events of valid UTF-8 come back as they were.\<close>

definition carried :: "stream_json \<Rightarrow> content_event \<Rightarrow> bool" where
  "carried J e \<longleftrightarrow> (utf8_event e \<longrightarrow> sj_decode J (sj_encode J e) = Some (e, []))"

definition too_long :: "stream_json \<Rightarrow> content_event \<Rightarrow> bool" where
  "too_long J e \<longleftrightarrow> length (sj_encode J e) + 1 > max_stream_line"

lemma scan_carried: "carried J e \<Longrightarrow> utf8_event e \<Longrightarrow> scan_line J (sj_encode J e) = (if too_long J e then Inl LineTooLong else Inr (e, []))"
  by (simp add: scan_line_def too_long_def carried_def)

lemma follow_content_snoc:
  assumes "log_numbered v (es @ fs)" and "list_all (carried J) fs" and "list_all utf8_event fs"
  shows "follow_content J (foldl apply_content v es) (cn_sequence (foldl apply_content v es)) (List.map (sj_encode J) fs)
    = (if list_ex (too_long J) fs then Inl LineTooLong else Inr (foldl apply_content v (es @ fs)))"
  using assms
proof (induction fs arbitrary: es)
  case (Cons f fs)
  have "log_numbered v (take (length (es @ [f])) (es @ f # fs))" using Cons.prems(1) by (rule log_numbered_take)
  then have "log_numbered v (es @ [f])" by simp
  then have f: "ce_snapshot f = None" "ce_sequence f = cn_sequence (foldl apply_content v es) + 1" by (simp_all add: log_numbered_snoc)
  then show ?case using Cons.IH [of "es @ [f]"] Cons.prems by (simp add: apply_sequence scan_carried)
qed simp

section \<open>Readers\<close>

text \<open>What a reader has received, holds and has queued is the log from its snapshot on; all of it while it is open.\<close>

definition reader_events :: "content_reader \<Rightarrow> content_event list" where
  "reader_events r = tl (rd_wire r) @ (case rd_flight r of None \<Rightarrow> [] | Some e \<Rightarrow> [e]) @ rd_queue r"

definition held_events :: "content_reader \<Rightarrow> content_event list" where
  "held_events r = (case rd_flight r of None \<Rightarrow> [] | Some e \<Rightarrow> [e]) @ rd_queue r"

definition reader_ok :: "content \<Rightarrow> content_event list \<Rightarrow> content_reader \<Rightarrow> bool" where
  "reader_ok v E r \<longleftrightarrow> (\<exists>pre rest. E = pre @ reader_events r @ rest \<and> rd_start r = foldl apply_content v pre \<and> (rd_open r \<longrightarrow> rest = []))
     \<and> (if rd_wire r = [] then rd_flight r = None else hd (rd_wire r) = snapshot_event (rd_start r))
     \<and> length (rd_queue r) \<le> content_subscriber_buffer
     \<and> (rd_open r \<longrightarrow> rd_queued r = sum_list (List.map content_event_size (held_events r)) \<and> rd_queued r \<le> content_subscriber_bytes)"

lemma event_size_nonneg [simp]: "0 \<le> content_event_size e"
  by (simp add: content_event_size_def split: option.split)

lemma reader_okI:
  assumes "E = pre @ reader_events r @ rest" and "rd_start r = foldl apply_content v pre" and "rd_open r \<Longrightarrow> rest = []"
    and "if rd_wire r = [] then rd_flight r = None else hd (rd_wire r) = snapshot_event (rd_start r)"
    and "length (rd_queue r) \<le> content_subscriber_buffer"
    and "rd_open r \<Longrightarrow> rd_queued r = sum_list (List.map content_event_size (held_events r)) \<and> rd_queued r \<le> content_subscriber_bytes"
  shows "reader_ok v E r"
  using assms unfolding reader_ok_def by blast

lemma reader_okE:
  assumes "reader_ok v E r"
  obtains pre rest where "E = pre @ reader_events r @ rest" and "rd_start r = foldl apply_content v pre" and "rd_open r \<Longrightarrow> rest = []"
    and "if rd_wire r = [] then rd_flight r = None else hd (rd_wire r) = snapshot_event (rd_start r)"
    and "length (rd_queue r) \<le> content_subscriber_buffer"
    and "rd_open r \<Longrightarrow> rd_queued r = sum_list (List.map content_event_size (held_events r)) \<and> rd_queued r \<le> content_subscriber_bytes"
  using assms unfolding reader_ok_def by blast

lemma reader_ok_offer:
  assumes "reader_ok v E r"
  shows "reader_ok v (E @ [e]) (offer_event e r)"
  using assms
proof (rule reader_okE)
  fix pre rest
  assume E: "E = pre @ reader_events r @ rest" and start: "rd_start r = foldl apply_content v pre" and rest: "rd_open r \<Longrightarrow> rest = []"
    and wire: "if rd_wire r = [] then rd_flight r = None else hd (rd_wire r) = snapshot_event (rd_start r)"
    and len: "length (rd_queue r) \<le> content_subscriber_buffer"
    and bytes: "rd_open r \<Longrightarrow> rd_queued r = sum_list (List.map content_event_size (held_events r)) \<and> rd_queued r \<le> content_subscriber_bytes"
  have same: "reader_ok v (E @ [e]) (r\<lparr>rd_open := False, rd_queued := q\<rparr>)" for q
    by (rule reader_okI [of _ pre _ "rest @ [e]"]) (use E start wire len in \<open>simp_all add: reader_events_def\<close>)
  consider "\<not> rd_open r" | "rd_open r" "rd_queued r + content_event_size e \<le> content_subscriber_bytes" "length (rd_queue r) < content_subscriber_buffer"
    | "rd_open r" "\<not> (rd_queued r + content_event_size e \<le> content_subscriber_bytes \<and> length (rd_queue r) < content_subscriber_buffer)"
    by blast
  then show ?thesis
  proof cases
    case 1
    then have "r\<lparr>rd_open := False, rd_queued := rd_queued r\<rparr> = r" by (cases r) simp
    from same [of "rd_queued r", unfolded this] show ?thesis using 1 by (simp add: offer_event_def)
  next
    case 2
    then have "offer_event e r = r\<lparr>rd_queued := rd_queued r + content_event_size e, rd_queue := rd_queue r @ [e]\<rparr>"
      by (simp add: offer_event_def Let_def)
    moreover have "reader_ok v (E @ [e]) (r\<lparr>rd_queued := rd_queued r + content_event_size e, rd_queue := rd_queue r @ [e]\<rparr>)"
      by (rule reader_okI [of _ pre _ "[]"]) (use E start rest wire bytes 2 in \<open>simp_all add: reader_events_def held_events_def\<close>)
    ultimately show ?thesis by simp
  next
    case 3
    then have "offer_event e r = r\<lparr>rd_open := False\<rparr> \<or> offer_event e r = r\<lparr>rd_open := False, rd_queued := rd_queued r + content_event_size e\<rparr>"
      by (auto simp: offer_event_def Let_def drop_reader_def)
    then show ?thesis using same [of "rd_queued r"] same by auto
  qed
qed

lemma reader_ok_move:
  assumes "reader_ok v E r" and "reader_move r r'"
  shows "reader_ok v E r'"
  using assms(1)
proof (rule reader_okE)
  fix pre rest
  assume E: "E = pre @ reader_events r @ rest" "rd_start r = foldl apply_content v pre" "rd_open r \<Longrightarrow> rest = []"
    and wire: "if rd_wire r = [] then rd_flight r = None else hd (rd_wire r) = snapshot_event (rd_start r)"
    and len: "length (rd_queue r) \<le> content_subscriber_buffer"
    and bytes: "rd_open r \<Longrightarrow> rd_queued r = sum_list (List.map content_event_size (held_events r)) \<and> rd_queued r \<le> content_subscriber_bytes"
  have kept: "reader_ok v E r'" if "reader_events r' = reader_events r" "rd_start r' = rd_start r" "rd_open r' \<Longrightarrow> rd_open r"
    "if rd_wire r' = [] then rd_flight r' = None else hd (rd_wire r') = snapshot_event (rd_start r')"
    "length (rd_queue r') \<le> length (rd_queue r)"
    "rd_open r' \<Longrightarrow> rd_queued r' = sum_list (List.map content_event_size (held_events r')) \<and> rd_queued r' \<le> content_subscriber_bytes"
    by (rule reader_okI [of _ pre _ rest]) (use that E len in auto)
  from assms(2) consider (snap) "reader_first r = Some r'" | (pulled) "reader_take r = Some r'" | (sent) "reader_write r = Some r'"
    | (dropped) "r' = drop_reader r" by (auto simp: reader_move_def)
  then show ?thesis
  proof cases
    case snap
    then have "rd_wire r = []" "r' = r\<lparr>rd_wire := [snapshot_event (rd_start r)]\<rparr>" by (auto simp: reader_first_def split: if_split_asm)
    then show ?thesis using wire bytes by (intro kept) (simp_all add: reader_events_def held_events_def)
  next
    case pulled
    then obtain e es where "rd_wire r \<noteq> []" "rd_flight r = None" "rd_queue r = e # es" "r' = r\<lparr>rd_queue := es, rd_flight := Some e\<rparr>"
      by (auto simp: reader_take_def split: if_split_asm list.splits)
    then show ?thesis using wire bytes by (intro kept) (simp_all add: reader_events_def held_events_def)
  next
    case sent
    then obtain e where e: "rd_flight r = Some e"
      "r' = r\<lparr>rd_wire := rd_wire r @ [e], rd_flight := None, rd_queued := rd_queued r - content_event_size e\<rparr>"
      by (auto simp: reader_write_def split: option.splits)
    then have w: "rd_wire r \<noteq> []" using wire by (auto split: if_split_asm)
    have less: "x \<le> content_subscriber_bytes" if "content_event_size e + x \<le> content_subscriber_bytes" for x
      using that event_size_nonneg [of e] by linarith
    show ?thesis using wire bytes e w by (intro kept) (auto simp: reader_events_def held_events_def intro: less)
  next
    case dropped
    then show ?thesis using wire by (intro kept) (simp_all add: drop_reader_def reader_events_def)
  qed
qed

section \<open>The invariant\<close>

definition call_key :: "content_tool \<Rightarrow> string \<times> string" where
  "call_key tool = (ct_id tool, if ct_id tool = [] then ct_name tool else [])"

definition content_ok :: "content \<Rightarrow> bool" where
  "content_ok v \<longleftrightarrow> length (cn_text v) \<le> max_content_text \<and> length (cn_thought v) \<le> max_content_field
     \<and> length (cn_tools v) \<le> max_content_tools \<and> distinct (List.map call_key (cn_tools v))
     \<and> length (cn_prompts v) \<le> max_prompt_links \<and> distinct (List.map pl_request (cn_prompts v))"

lemma rune_end_le: "rune_end text n \<le> n"
  by (induction n) auto

lemma bounded_content_text_length: "length (fst (bounded_content_text t)) \<le> max_content_text"
  using rune_end_le [of t max_content_text] by (simp add: bounded_content_text_def del: rune_end.simps)

lemma bounded_thought_length: "length (bounded_thought t) \<le> max_content_field"
proof (cases "length t \<le> max_content_field")
  case False
  have "length (dropWhile (\<lambda>c. \<not> rune_start c) (drop (length t - max_content_field) t)) \<le> length (drop (length t - max_content_field) t)"
    by (rule length_dropWhile_le)
  also have "\<dots> = max_content_field" using False by simp
  finally show ?thesis using False by (simp add: bounded_thought_def)
qed (simp add: bounded_thought_def)

lemma same_call_key: "same_call tool other \<longleftrightarrow> call_key other = call_key tool"
  by (auto simp: same_call_def call_key_def)

lemma replace_last_Some:
  "replace_last P y xs = Some ys \<Longrightarrow> length ys = length xs \<and> (\<exists>us x vs. xs = us @ x # vs \<and> P x \<and> ys = us @ y # vs)"
proof (induction xs arbitrary: ys)
  case (Cons x xs)
  show ?case
  proof (cases "replace_last P y xs")
    case None
    then show ?thesis using Cons.prems by (auto split: if_split_asm intro!: exI [of _ "[]"])
  next
    case (Some zs)
    from Cons.IH [OF this] obtain us z vs where "xs = us @ z # vs" "P z" "zs = us @ y # vs" "length zs = length xs" by blast
    then show ?thesis using Cons.prems Some by (auto intro!: exI [of _ "x # us"])
  qed
qed simp

lemma replace_last_None: "replace_last P y xs = None \<longleftrightarrow> (\<forall>x\<in>set xs. \<not> P x)"
  by (induction xs) (auto split: option.splits)

lemma length_newest: "length (newest n xs) \<le> n"
  by (simp add: newest_def)

lemma newest_last: "0 < n \<Longrightarrow> y \<in> set (newest n (xs @ [y]))"
  by (simp add: newest_def)

lemma newest_distinct: "distinct (List.map f xs) \<Longrightarrow> distinct (List.map f (newest n xs))"
  by (simp add: newest_def drop_map [symmetric])

lemma upsert_tool_ok:
  assumes "distinct (List.map call_key tools)" and "length tools \<le> max_content_tools"
  shows "distinct (List.map call_key (upsert_tool tools tool)) \<and> length (upsert_tool tools tool) \<le> max_content_tools
    \<and> tool \<in> set (upsert_tool tools tool)"
proof (cases "replace_last (same_call tool) tool tools")
  case None
  then have "call_key tool \<notin> call_key ` set tools" by (auto simp: replace_last_None same_call_key)
  then have "distinct (List.map call_key (tools @ [tool]))" using assms(1) by auto
  from newest_distinct [OF this] show ?thesis
    using None length_newest [of max_content_tools "tools @ [tool]"] newest_last [of max_content_tools tool tools] by (simp add: upsert_tool_def)
next
  case (Some ys)
  from replace_last_Some [OF this] obtain us x vs where "tools = us @ x # vs" "call_key x = call_key tool" "ys = us @ tool # vs"
    "length ys = length tools"
    by (auto simp: same_call_key)
  then show ?thesis using assms Some by (simp add: upsert_tool_def)
qed

lemma link_prompt_ok:
  assumes "distinct (List.map pl_request links)"
  shows "distinct (List.map pl_request (link_prompt links link)) \<and> length (link_prompt links link) \<le> max_prompt_links"
proof -
  have "distinct (List.map pl_request (filter (\<lambda>l. pl_request l \<noteq> pl_request link) links @ [link]))"
    using distinct_map_filter [OF assms] by auto
  from newest_distinct [OF this] length_newest show ?thesis unfolding link_prompt_def by blast
qed

lemma content_ok_apply: "content_ok v \<Longrightarrow> ce_snapshot e = None \<Longrightarrow> content_ok (apply_content v e)"
  using upsert_tool_ok [of "cn_tools v"] link_prompt_ok [of "cn_prompts v"] bounded_content_text_length bounded_thought_length
  by (auto simp: content_ok_def apply_content_def content_change_def Let_def split: prod.split option.split)
    (metis fst_conv)+

definition server_ok :: "content \<Rightarrow> content_event list \<Rightarrow> content_server \<Rightarrow> bool" where
  "server_ok v E s \<longleftrightarrow> log_numbered v E \<and> cs_value s = foldl apply_content v E \<and> content_ok (cs_value s)
     \<and> list_all (reader_ok v E) (cs_readers s) \<and> length (filter rd_open (cs_readers s)) \<le> max_content_subscribers
     \<and> (cs_closed s \<longrightarrow> list_all (\<lambda>r. \<not> rd_open r) (cs_readers s))"

lemma server_ok_listen: "server_ok (initial_content runtime item g) [] (listen_content runtime item g)"
  by (simp add: server_ok_def content_ok_def listen_content_def)

lemma open_offer: "rd_open (offer_event e r) \<Longrightarrow> rd_open r"
  by (auto simp: offer_event_def Let_def drop_reader_def split: if_split_asm)

lemma length_filter_map_le:
  assumes "\<And>x. P (f x) \<Longrightarrow> P x"
  shows "length (filter P (List.map f xs)) \<le> length (filter P xs)"
  using assms by (induction xs) auto

lemma length_filter_update_le:
  "k < length xs \<Longrightarrow> (P y \<Longrightarrow> P (xs ! k)) \<Longrightarrow> length (filter P (xs[k := y])) \<le> length (filter P xs)"
proof (induction xs arbitrary: k)
  case (Cons x xs)
  then show ?case by (cases k) auto
qed simp

lemma server_ok_publish:
  assumes "server_ok v E s" and "ce_snapshot e = None"
  shows "server_ok v (E @ [number_event (cs_value s) e]) (publish e s)"
proof -
  let ?e = "number_event (cs_value s) e"
  have e: "ce_snapshot ?e = None" "ce_sequence ?e = cn_sequence (cs_value s) + 1" using assms(2) by (simp_all add: number_event_def)
  have p: "publish e s = s\<lparr>cs_value := apply_content (cs_value s) ?e, cs_readers := List.map (offer_event ?e) (cs_readers s)\<rparr>"
    by (simp add: publish_def Let_def)
  have "length (filter rd_open (List.map (offer_event ?e) (cs_readers s))) \<le> max_content_subscribers"
    by (rule order_trans [OF length_filter_map_le]) (use open_offer assms(1) in \<open>auto simp: server_ok_def\<close>)
  then show ?thesis
    using assms(1) e content_ok_apply [of "cs_value s" ?e] open_offer unfolding p
    by (auto simp: server_ok_def log_numbered_snoc list_all_iff reader_ok_offer)
qed

lemma server_ok_publish_all:
  "server_ok v E s \<Longrightarrow> (\<And>e. e \<in> set es \<Longrightarrow> ce_snapshot e = None) \<Longrightarrow>
   server_ok v (E @ numbered (cs_value s) es) (fold publish es s)"
proof (induction es arbitrary: E s)
  case (Cons e es)
  have "cs_value (publish e s) = apply_content (cs_value s) (number_event (cs_value s) e)" by (simp add: publish_def Let_def)
  then show ?case using Cons.IH [OF server_ok_publish [OF Cons.prems(1), of e]] Cons.prems(2) by (simp add: Let_def)
qed simp

lemma server_ok_run:
  "content_run runtime item g E s \<Longrightarrow> server_ok (initial_content runtime item g) E s"
proof (induction rule: content_run.induct)
  case listen
  then show ?case by (rule server_ok_listen)
next
  case (driver E s c)
  then show ?case unfolding driver_call_def by (intro server_ok_publish_all) (auto dest: call_events_plain)
next
  case (subscribed E s s')
  then show ?case
    by (auto simp: subscribe_def server_ok_def reader_ok_def reader_events_def held_events_def split: if_split_asm)
next
  case (closed E s)
  have "reader_ok v E (drop_reader r)" if "reader_ok v E r" for v r
    using reader_ok_move [OF that, of "drop_reader r"] by (simp add: reader_move_def)
  then show ?case using closed by (auto simp: close_content_def server_ok_def list_all_iff drop_reader_def filter_empty_conv)
next
  case (reader E s k r)
  have r: "reader_ok (initial_content runtime item g) E r"
    using reader_ok_move [OF _ reader.hyps(3)] reader.IH reader.hyps(2) by (simp add: server_ok_def list_all_length)
  have "rd_open r \<Longrightarrow> rd_open (cs_readers s ! k)" using reader.hyps(3)
    by (auto simp: reader_move_def reader_first_def reader_take_def reader_write_def drop_reader_def split: if_split_asm list.splits option.splits)
  then have "length (filter rd_open ((cs_readers s)[k := r])) \<le> length (filter rd_open (cs_readers s))"
    and "list_all (\<lambda>r. \<not> rd_open r) (cs_readers s) \<longrightarrow> list_all (\<lambda>r. \<not> rd_open r) ((cs_readers s)[k := r])"
    using length_filter_update_le [OF reader.hyps(2)] reader.hyps(2) set_update_subset_insert [of "cs_readers s" k r]
    by (auto simp: list_all_iff dest!: subsetD)
  moreover have "list_all (reader_ok (initial_content runtime item g) E) ((cs_readers s)[k := r])"
    using reader.IH r set_update_subset_insert [of "cs_readers s" k r] by (auto simp: server_ok_def list_all_iff)
  ultimately show ?case using reader.IH by (auto simp: server_ok_def with_reader_def)
qed

section \<open>Properties\<close>

text \<open>In every run the live content stays within its bounds (256 KiB of text, 64 KiB of reasoning, 32 tool calls of
  distinct identity, 8 prompts of distinct request), at most 32 readers are open, each with at most 512
  events and 8 MiB queued, its count exact, and a closed server has none.\<close>

theorem content_bounds:
  assumes "content_run runtime item idle_guard E s"
  shows "content_ok (cs_value s) \<and> length (filter rd_open (cs_readers s)) \<le> max_content_subscribers
    \<and> (\<forall>r\<in>set (cs_readers s). length (rd_queue r) \<le> content_subscriber_buffer
        \<and> (rd_open r \<longrightarrow> rd_queued r = sum_list (List.map content_event_size (held_events r)) \<and> rd_queued r \<le> content_subscriber_bytes))
    \<and> (cs_closed s \<longrightarrow> (\<forall>r\<in>set (cs_readers s). \<not> rd_open r))"
  using server_ok_run [OF assms] by (auto simp: server_ok_def list_all_iff reader_ok_def)

text \<open>What a client makes of the lines of a reader.\<close>

definition client_shows :: "stream_json \<Rightarrow> string \<Rightarrow> string \<Rightarrow> content_reader \<Rightarrow> (stream_error, content) result" where
  "client_shows J runtime item r = (case List.map (sj_encode J) (rd_wire r) of
     [] \<Rightarrow> Inr empty_content | line # ls \<Rightarrow> subscribe_content J runtime item line ls)"

lemma reader_utf8:
  assumes "reader_ok v E r" and "utf8_content v" and "list_all utf8_event E" and "rd_wire r \<noteq> []"
  shows "list_all utf8_event (rd_wire r)"
proof -
  from assms(1,4) obtain pre rest where E: "E = pre @ reader_events r @ rest" and start: "rd_start r = foldl apply_content v pre"
    and first: "hd (rd_wire r) = snapshot_event (rd_start r)" by (auto simp: reader_ok_def)
  have "utf8_event (hd (rd_wire r))" using utf8_log [OF assms(2), of pre] assms(3) utf8_snapshot by (simp add: first start E)
  moreover have "list_all utf8_event (tl (rd_wire r))" using assms(3) by (simp add: E reader_events_def)
  ultimately show ?thesis using assms(4) by (cases "rd_wire r") simp_all
qed

lemma client_view:
  assumes "server_ok (initial_content runtime item g) E s" and "r \<in> set (cs_readers s)" and "rd_wire r \<noteq> []"
    and "list_all utf8_event (rd_wire r)" and "list_all (carried J) (rd_wire r)"
  shows "\<exists>n\<le>length E. client_shows J runtime item r = (if list_ex (too_long J) (rd_wire r) then Inl LineTooLong
        else Inr (foldl apply_content (initial_content runtime item g) (take n E)))
    \<and> (rd_open r \<longrightarrow> n + length (held_events r) = length E)"
proof -
  let ?v = "initial_content runtime item g"
  have log: "log_numbered ?v E" and rok: "reader_ok ?v E r" using assms(1,2) by (auto simp: server_ok_def list_all_iff)
  from rok obtain pre rest where E: "E = pre @ reader_events r @ rest" and start: "rd_start r = foldl apply_content ?v pre"
    and rest: "rd_open r \<longrightarrow> rest = []" and first: "hd (rd_wire r) = snapshot_event (rd_start r)"
    using assms(3) by (auto simp: reader_ok_def)
  define n where "n = length (pre @ tl (rd_wire r))"
  have n: "take n E = pre @ tl (rd_wire r)" "n \<le> length E" by (simp_all add: n_def E reader_events_def)
  have pre: "take (length pre) E = pre" by (simp add: E)
  have owner: "cn_protocol (rd_start r) = content_version" "cn_runtime (rd_start r) = runtime" "cn_item (rd_start r) = item"
    using log_owner [OF log_numbered_take [OF log, of "length pre"]] unfolding pre start by (simp_all add: listen_content_def)
  obtain ls where wire: "rd_wire r = snapshot_event (rd_start r) # ls" using first assms(3) by (cases "rd_wire r") simp_all
  have ok: "carried J (snapshot_event (rd_start r))" "utf8_event (snapshot_event (rd_start r))" "list_all (carried J) ls" "list_all utf8_event ls"
    using assms(4,5) by (simp_all add: wire)
  have "log_numbered ?v (pre @ ls)" using log_numbered_take [OF log, of n] n(1) by (simp add: wire)
  from follow_content_snoc [OF this ok(3,4)]
  have "client_shows J runtime item r = (if list_ex (too_long J) (rd_wire r) then Inl LineTooLong else Inr (foldl apply_content ?v (pre @ ls)))"
    using owner scan_carried [OF ok(1,2)]
    by (auto simp: client_shows_def wire subscribe_content_def snapshot_event_def no_event_def apply_content_def start)
  moreover have "rd_open r \<longrightarrow> n + length (held_events r) = length E"
    using rest by (simp add: n_def E reader_events_def held_events_def)
  ultimately show ?thesis using n by (intro exI [of _ n]) (simp add: wire)
qed


text \<open>A reader's goroutine by itself: it writes what it holds, or takes the next event.\<close>

definition goroutine :: "content_reader \<Rightarrow> content_reader" where
  "goroutine r = (case reader_first r of Some r' \<Rightarrow> r' | None \<Rightarrow> (case reader_write r of Some r' \<Rightarrow> r' | None \<Rightarrow>
     (case reader_take r of Some r' \<Rightarrow> r' | None \<Rightarrow> r)))"

definition run_reader :: "nat \<Rightarrow> content_server \<Rightarrow> content_server" where
  "run_reader k s = with_reader k (goroutine (cs_readers s ! k)) s"

definition backlog :: "content_reader \<Rightarrow> nat" where
  "backlog r = (if rd_wire r = [] then 1 else 0) + (case rd_flight r of None \<Rightarrow> 0 | Some _ \<Rightarrow> 1) + 2 * length (rd_queue r)"

lemma goroutine_moves: "goroutine r = r \<or> reader_move r (goroutine r)"
  by (auto simp: goroutine_def reader_move_def split: option.splits)

lemma goroutine_backlog:
  assumes "rd_wire r = [] \<longrightarrow> rd_flight r = None"
  shows "backlog (goroutine r) = backlog r - 1 \<and> rd_open (goroutine r) = rd_open r
    \<and> (rd_wire (goroutine r) = [] \<longrightarrow> rd_flight (goroutine r) = None)"
  using assms by (auto simp: goroutine_def backlog_def reader_first_def reader_take_def reader_write_def split: option.splits list.splits)

lemma run_reader_run:
  assumes "content_run runtime item g E s" and "k < length (cs_readers s)"
  shows "content_run runtime item g E (run_reader k s) \<and> cs_value (run_reader k s) = cs_value s
    \<and> length (cs_readers (run_reader k s)) = length (cs_readers s) \<and> cs_readers (run_reader k s) ! k = goroutine (cs_readers s ! k)"
proof -
  have "content_run runtime item g E (run_reader k s)"
  proof (cases "goroutine (cs_readers s ! k) = cs_readers s ! k")
    case True
    then have "run_reader k s = s" by (simp add: run_reader_def with_reader_def)
    then show ?thesis using assms(1) by simp
  next
    case False
    then have "reader_move (cs_readers s ! k) (goroutine (cs_readers s ! k))" using goroutine_moves by blast
    then show ?thesis unfolding run_reader_def by (rule content_run.reader [OF assms])
  qed
  then show ?thesis using assms(2) by (simp add: run_reader_def with_reader_def)
qed

lemma run_reader_times:
  assumes "content_run runtime item g E s" and "k < length (cs_readers s)" and "rd_open (cs_readers s ! k)"
  shows "content_run runtime item g E ((run_reader k ^^ n) s) \<and> cs_value ((run_reader k ^^ n) s) = cs_value s
    \<and> length (cs_readers ((run_reader k ^^ n) s)) = length (cs_readers s) \<and> rd_open (cs_readers ((run_reader k ^^ n) s) ! k)
    \<and> backlog (cs_readers ((run_reader k ^^ n) s) ! k) = backlog (cs_readers s ! k) - n"
proof (induction n)
  case (Suc n)
  let ?s = "(run_reader k ^^ n) s"
  have k: "k < length (cs_readers ?s)" using Suc assms(2) by simp
  have "cs_readers ?s ! k \<in> set (cs_readers ?s)" using k by simp
  then have "reader_ok (initial_content runtime item g) E (cs_readers ?s ! k)"
    using server_ok_run [of runtime item g E ?s] Suc by (simp add: server_ok_def list_all_iff)
  then have "rd_wire (cs_readers ?s ! k) = [] \<longrightarrow> rd_flight (cs_readers ?s ! k) = None" by (auto simp: reader_ok_def)
  from goroutine_backlog [OF this] run_reader_run [of runtime item g E ?s k] Suc k show ?case by simp
qed (use assms in simp)

text \<open>A reader that is left to run catches up: after at most two moves of its own goroutine for each queued event
  and two more, without any further call of the driver, everything published is on the wire of an open stream.\<close>

lemma reader_catches_up:
  assumes "content_run runtime item idle_guard E s" and "k < length (cs_readers s)" and "rd_open (cs_readers s ! k)"
    and "2 * length (rd_queue (cs_readers s ! k)) + 2 \<le> n"
  shows "content_run runtime item idle_guard E ((run_reader k ^^ n) s) \<and> cs_value ((run_reader k ^^ n) s) = cs_value s
    \<and> (let r = cs_readers ((run_reader k ^^ n) s) ! k in rd_open r \<and> rd_wire r \<noteq> [] \<and> held_events r = [])"
proof -
  let ?s = "(run_reader k ^^ n) s"
  have t: "content_run runtime item idle_guard E ?s" "cs_value ?s = cs_value s" "rd_open (cs_readers ?s ! k)"
    "backlog (cs_readers ?s ! k) = backlog (cs_readers s ! k) - n"
    using run_reader_times [OF assms(1-3)] by blast+
  have "backlog (cs_readers s ! k) \<le> n" using assms(4) by (auto simp: backlog_def split: option.split)
  then have "rd_wire (cs_readers ?s ! k) \<noteq> []" "held_events (cs_readers ?s ! k) = []"
    using t(4) by (auto simp: backlog_def held_events_def split: if_split_asm option.splits)
  then show ?thesis using t(1-3) by (simp add: Let_def)
qed

lemma publish_all_value: "cs_value (fold publish es s) = foldl apply_content (cs_value s) (numbered (cs_value s) es)"
  by (induction es arbitrary: s) (simp_all add: publish_def Let_def)

lemma bounded_text_id: "length t \<le> max_content_text \<Longrightarrow> bounded_content_text t = (t, False)"
  by (simp add: bounded_content_text_def)

lemma numbered_append: "numbered v (es @ fs) = numbered v es @ numbered (foldl apply_content v (numbered v es)) fs"
  by (induction es arbitrary: v) (simp_all add: Let_def)

definition after_events :: "content \<Rightarrow> content_event list \<Rightarrow> content" where
  "after_events v es = foldl apply_content v (numbered v es)"

lemma after_events_append: "after_events v (es @ fs) = after_events (after_events v es) fs"
  by (simp add: after_events_def numbered_append)

lemma driver_call_value: "cs_value (driver_call c s) = after_events (cs_value s) (call_events c (cs_value s))"
  by (simp add: driver_call_def publish_all_value after_events_def)

lemmas event_effect = after_events_def apply_content_def content_change_def number_event_def no_event_def Let_def

lemma activity_change_effect:
  "after_events v (activity_change leaf a v) = v\<lparr>cn_leaf := leaf, cn_activity := a,
     cn_sequence := cn_sequence (after_events v (activity_change leaf a v))\<rparr>"
  by (simp add: activity_change_def event_effect)

lemma text_change_effect:
  assumes "length t \<le> max_content_text" and "cn_text v = cn_text current" and "cn_truncated v = cn_truncated current" and "cn_message v = cn_message current"
  shows "cn_text (after_events v (text_change t truncated current)) = t \<and> cn_truncated (after_events v (text_change t truncated current)) = truncated
    \<and> cn_leaf (after_events v (text_change t truncated current)) = cn_leaf v \<and> cn_activity (after_events v (text_change t truncated current)) = cn_activity v
    \<and> cn_tool (after_events v (text_change t truncated current)) = cn_tool v \<and> cn_message (after_events v (text_change t truncated current)) = cn_message v
    \<and> cn_prompts (after_events v (text_change t truncated current)) = cn_prompts v"
proof -
  have "cn_text current @ drop (length (cn_text current)) t = t" if "take (length (cn_text current)) t = cn_text current"
    using that append_take_drop_id [of "length (cn_text current)" t] by simp
  then show ?thesis using assms by (auto simp: text_change_def event_effect bounded_text_id)
qed

lemma tool_event_kinds: "tool_event_kind t c = tool_started \<or> tool_event_kind t c = tool_updated \<or> tool_event_kind t c = tool_completed"
  by (simp add: tool_event_kind_def split: option.split)

lemma tool_change_effect:
  assumes "cn_tool v = cn_tool current"
  shows "cn_tool (after_events v (tool_change tool current)) = tool \<and> cn_text (after_events v (tool_change tool current)) = cn_text v
    \<and> cn_truncated (after_events v (tool_change tool current)) = cn_truncated v \<and> cn_leaf (after_events v (tool_change tool current)) = cn_leaf v
    \<and> cn_activity (after_events v (tool_change tool current)) = cn_activity v \<and> cn_message (after_events v (tool_change tool current)) = cn_message v
    \<and> cn_prompts (after_events v (tool_change tool current)) = cn_prompts v"
proof -
  have event: "cn_tool w = Some c \<and> cn_text w = cn_text v \<and> cn_truncated w = cn_truncated v \<and> cn_leaf w = cn_leaf v
      \<and> cn_activity w = cn_activity v \<and> cn_message w = cn_message v \<and> cn_prompts w = cn_prompts v"
    if "kind = tool_started \<or> kind = tool_updated \<or> kind = tool_completed" and "w = after_events v [(no_event kind)\<lparr>ce_tool := Some c\<rparr>]"
    for kind c w
    using that by (elim disjE) (simp_all add: event_effect)
  show ?thesis
  proof (cases tool)
    case None
    then show ?thesis using assms by (simp add: tool_change_def event_effect)
  next
    case (Some c)
    show ?thesis
    proof (cases "cn_tool current = Some c")
      case True
      then show ?thesis using assms Some by (simp add: tool_change_def after_events_def)
    next
      case False
      then have "tool_change tool current = [(no_event (tool_event_kind c (cn_tool current)))\<lparr>ce_tool := Some c\<rparr>]"
        using Some by (simp add: tool_change_def)
      then show ?thesis using event [where c = c and kind = "tool_event_kind c (cn_tool current)", OF tool_event_kinds refl] Some by simp
    qed
  qed
qed

lemma publish_snapshot_effect:
  assumes "v' = after_events v (publish_snapshot leaf t activity tool truncated v)"
  shows "cn_leaf v' = leaf \<and> cn_activity v' = bounded_content_field activity \<and> cn_text v' = fst (bounded_content_text t)
    \<and> cn_truncated v' = (truncated \<or> snd (bounded_content_text t)) \<and> cn_tool v' = map_option bounded_tool tool
    \<and> cn_message v' = cn_message v \<and> cn_prompts v' = cn_prompts v"
proof -
  obtain b cut where b: "bounded_content_text t = (b, cut)" by (cases "bounded_content_text t")
  define v1 where "v1 = after_events v (activity_change leaf (bounded_content_field activity) v)"
  define v2 where "v2 = after_events v1 (text_change b (truncated \<or> cut) v)"
  have v': "v' = after_events v2 (tool_change (map_option bounded_tool tool) v)"
    unfolding assms v1_def v2_def by (simp add: publish_snapshot_def b Let_def after_events_append)
  have v1: "v1 = v\<lparr>cn_leaf := leaf, cn_activity := bounded_content_field activity, cn_sequence := cn_sequence v1\<rparr>"
    unfolding v1_def by (rule activity_change_effect)
  have "length b \<le> max_content_text" using bounded_content_text_length [of t] b by simp
  moreover have "cn_text v1 = cn_text v" "cn_truncated v1 = cn_truncated v" "cn_message v1 = cn_message v" "cn_tool v1 = cn_tool v"
    "cn_prompts v1 = cn_prompts v" "cn_leaf v1 = leaf" "cn_activity v1 = bounded_content_field activity"
    by (subst v1, simp)+
  ultimately show ?thesis
    using text_change_effect [of b v1 v "truncated \<or> cut", folded v2_def]
      tool_change_effect [of v2 v "map_option bounded_tool tool", folded v'] b by simp
qed

text \<open>Publishing a whole snapshot shows it: afterwards branch, activity, text, truncation and tool are the given
  ones within their bounds, the message and the prompts are kept, and publishing the same again changes nothing.\<close>

theorem publish_snapshot_shows:
  "let call = driver_call (PublishSnapshot leaf t activity tool truncated); v = cs_value (call s)
   in cn_leaf v = leaf \<and> cn_activity v = bounded_content_field activity \<and> cn_text v = fst (bounded_content_text t)
    \<and> cn_truncated v = (truncated \<or> snd (bounded_content_text t)) \<and> cn_tool v = map_option bounded_tool tool
    \<and> cn_message v = cn_message (cs_value s) \<and> cn_prompts v = cn_prompts (cs_value s) \<and> call (call s) = call s"
proof -
  let ?call = "PublishSnapshot leaf t activity tool truncated"
  define s' where "s' = driver_call ?call s"
  have v: "cs_value s' = after_events (cs_value s) (publish_snapshot leaf t activity tool truncated (cs_value s))"
    unfolding s'_def by (simp add: driver_call_value)
  note e = publish_snapshot_effect [OF v]
  have "publish_snapshot leaf t activity tool truncated (cs_value s') = []"
    using e by (cases "bounded_content_text t") (auto simp: publish_snapshot_def activity_change_def text_change_def tool_change_def Let_def split: option.split)
  then have "driver_call ?call s' = s'" by (simp add: driver_call_def)
  then show ?thesis using e by (simp add: Let_def flip: s'_def)
qed

section \<open>A concrete stream\<close>

definition live_server :: content_server where
  "live_server = listen_content ''rt1'' ''i1'' False"

definition live_reader :: content_reader where
  "live_reader = \<lparr>rd_open = True, rd_queue = [], rd_queued = 0, rd_start = cs_value live_server, rd_flight = None, rd_wire = []\<rparr>"

definition live_stream :: content_server where
  "live_stream = driver_call StartMessage (live_server\<lparr>cs_readers := [live_reader]\<rparr>)"

lemma live_stream_run:
  "content_run ''rt1'' ''i1'' False (numbered (cs_value live_server) (start_message (cs_value live_server))) live_stream"
proof -
  have "content_run ''rt1'' ''i1'' False [] (live_server\<lparr>cs_readers := [live_reader]\<rparr>)"
    by (rule content_run.subscribed [OF content_run.listen]) (simp add: subscribe_def live_server_def listen_content_def live_reader_def)
  from content_run.driver [OF this, of StartMessage] show ?thesis by (simp add: live_stream_def)
qed

lemma live_stream_readers: "length (cs_readers live_stream) = 1" "rd_open (cs_readers live_stream ! 0)"
    "length (rd_queue (cs_readers live_stream ! 0)) = 1"
  by (simp_all add: live_stream_def driver_call_def start_message_def publish_def offer_event_def live_reader_def Let_def
      content_event_size_def number_event_def no_event_def)

theorem content_bounds_witness: "length (filter rd_open (cs_readers live_stream)) \<le> 32"
  using content_bounds [OF live_stream_run] by simp

text \<open>A stream of two lines: the snapshot and the start of a message, encoded by their types.\<close>

definition live_json :: stream_json where
  "live_json = \<lparr>sj_encode = ce_type, sj_decode = (\<lambda>line. List.find (\<lambda>(e, _). ce_type e = line)
     (List.map (\<lambda>e. (e, [])) (snapshot_event (cs_value live_server) # numbered (cs_value live_server) (start_message (cs_value live_server)))))\<rparr>"

abbreviation caught_up :: content_server where "caught_up \<equiv> (run_reader 0 ^^ 4) live_stream"

lemma live_wire: "rd_wire (cs_readers caught_up ! 0)
    = snapshot_event (cs_value live_server) # numbered (cs_value live_server) (start_message (cs_value live_server))"
  by (simp add: numeral_eq_Suc run_reader_def with_reader_def goroutine_def reader_first_def reader_take_def reader_write_def live_stream_def
      driver_call_def start_message_def publish_def offer_event_def live_reader_def Let_def content_event_size_def number_event_def no_event_def)


end
