(* ===== verification/Conversations.thy ===== *)
theory Conversations
  imports Runtime
begin

text \<open>
  The conversation importer (\<open>internal/coordinator/conversation_importer.go\<close>, \<open>fileFingerprint\<close> and
  \<open>readBoundedJSONLine\<close> of \<open>source_stream.go\<close>): the native conversation file of an item is read from its
  checkpoint, decoded by the driver in batches, and folded into the item's index and attention record. Reading and
  decoding run without the domain lock; each commit takes it and first checks that no other import moved the
  checkpoint. The driver's decoder is a parameter, and so is what other threads do to the database before each time the
  lock is taken.
\<close>

section \<open>Facts\<close>

definition contains_any :: "string list \<Rightarrow> string list \<Rightarrow> bool" where
  "contains_any vs needles \<longleftrightarrow> list_ex (\<lambda>v. v \<in> set needles) vs"

definition tool_content :: "string list" where
  "tool_content = [''toolCall'', ''toolResult'', ''bashExecution'', ''tool_use'', ''tool_result'']"

definition tool_fact :: "conversation_fact \<Rightarrow> bool" where
  "tool_fact f \<longleftrightarrow> cf_role f = ''toolResult'' \<or> cf_type f = ''toolResult'' \<or> contains_any (cf_content_types f) tool_content"

definition turn_fact :: "conversation_fact \<Rightarrow> bool" where
  "turn_fact f \<longleftrightarrow> cf_role f = ''user'' \<or> cf_role f = ''assistant'' \<or> tool_fact f"

definition prompt_fact :: "conversation_fact \<Rightarrow> bool" where
  "prompt_fact f \<longleftrightarrow> cf_role f = ''user'' \<and> \<not> cf_terminal f \<and> \<not> contains_any (cf_content_types f) [''tool_result'']"

text \<open>\<open>applyConversationFact\<close>: the index and the attention record it updates.\<close>

definition index_fact :: "conversation_fact \<Rightarrow> conversation_index \<Rightarrow> conversation_index" where
  "index_fact f x =
     (let x = x\<lparr>ci_last_event := Some f\<rparr>;
          x = (if turn_fact f then x\<lparr>ci_last_activity := Some f\<rparr> else x);
          x = (if prompt_fact f then x\<lparr>ci_last_prompt := Some f\<rparr>
               else if cf_role f = ''assistant'' then
                 (let x = x\<lparr>ci_last_assistant := Some f\<rparr>
                  in if cf_terminal f \<or> cf_failed f then x\<lparr>ci_last_terminal := Some f\<rparr> else x)
               else if tool_fact f then x\<lparr>ci_last_tool := Some f\<rparr> else x)
      in if cf_role f = ''assistant'' \<and> contains_any (cf_content_types f) [''toolCall'', ''bashExecution'', ''tool_use'']
         then x\<lparr>ci_last_tool := Some f\<rparr> else x)"

definition moved_to :: "instant \<Rightarrow> instant option \<Rightarrow> instant option" where
  "moved_to at old = (if \<not> is_zero_time at \<and> (case old of None \<Rightarrow> True | Some o' \<Rightarrow> at > o') then Some at else old)"

definition attention_fact :: "conversation_fact \<Rightarrow> attention_activity \<Rightarrow> attention_activity" where
  "attention_fact f a =
     (if prompt_fact f then a\<lparr>aa_requested_at := moved_to (cf_time f) (aa_requested_at a)\<rparr>
      else if cf_role f = ''assistant'' \<and> (cf_terminal f \<or> cf_failed f)
        then a\<lparr>aa_completed_at := moved_to (cf_time f) (aa_completed_at a)\<rparr>
      else a)"

definition apply_conversation_fact ::
  "conversation_fact \<Rightarrow> conversation_index \<times> attention_activity \<Rightarrow> conversation_index \<times> attention_activity" where
  "apply_conversation_fact f xa = (index_fact f (fst xa), attention_fact f (snd xa))"

definition after_time :: "conversation_fact option \<Rightarrow> conversation_fact \<Rightarrow> bool" where
  "after_time x f \<longleftrightarrow> (case x of None \<Rightarrow> False | Some y \<Rightarrow> cf_time y > cf_time f)"

definition infer_turn_state :: "conversation_index \<Rightarrow> string" where
  "infer_turn_state x = (case ci_last_activity x of
     None \<Rightarrow> ''idle''
   | Some last_activity \<Rightarrow>
       if cf_terminal last_activity \<and> cf_failed last_activity then ''failed''
       else (case ci_last_terminal x of
          None \<Rightarrow> ''incomplete''
        | Some terminal \<Rightarrow>
            if \<not> after_time (ci_last_prompt x) terminal \<and> \<not> after_time (ci_last_tool x) terminal
            then (if cf_failed terminal then ''failed'' else ''idle'')
            else ''incomplete''))"

section \<open>Lines\<close>

abbreviation newline :: char where "newline \<equiv> CHR 0x0A"

text \<open>The lines \<open>ReadSlice\<close> returns, each with its newline; the text after the last one is not complete yet.\<close>

definition complete_lines :: "string \<Rightarrow> string list" where
  "complete_lines s = List.map (\<lambda>l. l @ [newline]) (butlast (split_char newline s))"

abbreviation line_limit :: nat where "line_limit \<equiv> 16777216"

text \<open>\<open>None\<close>: the line is oversized.\<close>

definition bounded_line :: "string \<Rightarrow> string option" where
  "bounded_line l = (if length l > line_limit then None else Some (trim_space l))"

definition file_fingerprint :: "string \<Rightarrow> int \<Rightarrow> string option" where
  "file_fingerprint content n =
     (if n < 0 then None
      else Some (hex_digest 32 (take (nat n) content @ replicate (nat n - length content) (CHR 0x00))))"

section \<open>Importing a file\<close>

datatype import_error =
    ImportRaced
  | ImportIO string
  | DecodeFailed string
  | DecodeCount nat nat
  | DecodeUnmatched
  | ImportStore coord_error

type_synonym conversation_decoder =
  "conversation \<Rightarrow> (64 word \<times> string) list \<Rightarrow> (string, conversation_fact list \<times> bool list) result"

text \<open>What one import is about: the file as \<open>Lstat\<close> described it, its item and the decoder of its driver.\<close>

record import_job =
  ij_source :: string
  ij_item :: string
  ij_conversation :: conversation
  ij_size :: int
  ij_modified :: instant
  ij_decoder :: "conversation_decoder option"

text \<open>The variables of \<open>importConversationFile\<close>, with its report, and the number of times it took the lock.\<close>

record importer =
  im_checkpoint :: source_checkpoint
  im_committed :: "source_checkpoint option"
  im_reset :: bool
  im_offset :: int
  im_batch :: int
  im_changed :: bool
  im_records :: "(64 word \<times> string) list"
  im_facts :: "conversation_fact list"
  im_scanned :: "64 word"
  im_malformed :: "64 word"
  im_bytes :: int
  im_locks :: nat

definition count_skipped :: "64 word \<Rightarrow> importer \<Rightarrow> importer" where
  "count_skipped n im = im\<lparr>im_malformed := im_malformed im + n,
     im_checkpoint := (im_checkpoint im)\<lparr>sc_skipped := sc_skipped (im_checkpoint im) + n\<rparr>\<rparr>"

definition count_decoded :: "importer \<Rightarrow> importer" where
  "count_decoded im = im\<lparr>im_scanned := im_scanned im + 1,
     im_checkpoint := (im_checkpoint im)\<lparr>sc_imported := sc_imported (im_checkpoint im) + 1\<rparr>\<rparr>"

text \<open>Matching the facts with the decoded records, in order; the facts left over come with the importer.\<close>

fun take_decoded ::
  "(64 word \<times> string) list \<Rightarrow> bool list \<Rightarrow> conversation_fact list \<Rightarrow> importer \<Rightarrow> conversation_fact list \<times> importer" where
  "take_decoded (r # rs) (decoded # oks) fs im =
     (if \<not> decoded then take_decoded rs oks fs (count_skipped 1 im)
      else (let im = count_decoded im
        in case fs of
             f # gs \<Rightarrow> if cf_line f = fst r then take_decoded rs oks gs (im\<lparr>im_facts := im_facts im @ [f]\<rparr>)
                       else take_decoded rs oks fs im
           | [] \<Rightarrow> take_decoded rs oks fs im))"
| "take_decoded _ _ fs im = (fs, im)"

definition flush_records :: "import_job \<Rightarrow> importer \<Rightarrow> import_error option \<times> importer" where
  "flush_records job im =
     (if im_records im = [] then (None, im)
      else (case ij_decoder job of
         None \<Rightarrow> (None, (count_skipped (of_nat (length (im_records im))) im)\<lparr>im_records := []\<rparr>)
       | Some decode \<Rightarrow> (case decode (ij_conversation job) (im_records im) of
           Inl e \<Rightarrow> (Some (DecodeFailed e), im)
         | Inr (facts, decoded) \<Rightarrow>
             if length decoded \<noteq> length (im_records im)
             then (Some (DecodeCount (length decoded) (length (im_records im))), im)
             else (let (rest, im') = take_decoded (im_records im) decoded facts im
               in if rest \<noteq> [] then (Some DecodeUnmatched, im') else (None, im'\<lparr>im_records := []\<rparr>)))))"

definition checkpoint_moved :: "source_checkpoint option \<Rightarrow> source_checkpoint option \<Rightarrow> bool" where
  "checkpoint_moved current committed \<longleftrightarrow> (case (current, committed) of
     (None, None) \<Rightarrow> False
   | (Some a, Some b) \<Rightarrow> sc_offset a \<noteq> sc_offset b \<or> sc_fingerprint a \<noteq> sc_fingerprint b
   | _ \<Rightarrow> True)"

definition empty_index :: "import_job \<Rightarrow> conversation_index" where
  "empty_index job = \<lparr>ci_item = ij_item job, ci_conversation = cv_id (ij_conversation job), ci_source = ij_source job,
     ci_offset = 0, ci_size = 0, ci_observed_at = zero_time, ci_scanned = 0, ci_malformed = 0, ci_turn_state = [],
     ci_last_event = None, ci_last_activity = None, ci_last_prompt = None, ci_last_assistant = None,
     ci_last_terminal = None, ci_last_tool = None\<rparr>"

text \<open>The index of an item, \<open>None\<close> when there is none.\<close>

definition read_index :: "('b, stored) bolt \<Rightarrow> string \<Rightarrow> 'b tx_state \<Rightarrow> (import_error, conversation_index option) result" where
  "read_index B i t = (case read_projection B conversation_projection i t of
     Inl e \<Rightarrow> Inl (ImportStore e)
   | Inr None \<Rightarrow> Inr None
   | Inr (Some v) \<Rightarrow> (case as_conversation v of None \<Rightarrow> Inl (ImportStore Undecodable) | Some x \<Rightarrow> Inr (Some x)))"

definition import_base :: "('b, stored) bolt \<Rightarrow> import_job \<Rightarrow> bool \<Rightarrow> 'b tx_state \<Rightarrow> (import_error, conversation_index) result" where
  "import_base B job fresh t =
     (if fresh then Inr (empty_index job)
      else rbind (read_index B (ij_item job) t) (\<lambda>x. case x of None \<Rightarrow> Inl ImportRaced | Some x \<Rightarrow> Inr x))"

definition index_updates :: "string \<Rightarrow> conversation_index \<Rightarrow> attention_activity \<Rightarrow> projection_update list" where
  "index_updates i x a =
     [\<lparr>pu_projection = conversation_projection, pu_key = i, pu_value = StConversation x, pu_delete = False\<rparr>,
      \<lparr>pu_projection = attention_projection, pu_key = i, pu_value = StAttention a, pu_delete = False\<rparr>]"

definition describe_index :: "import_job \<Rightarrow> instant \<Rightarrow> source_checkpoint \<Rightarrow> conversation_index \<Rightarrow> conversation_index" where
  "describe_index job now cp x = x\<lparr>ci_offset := sc_offset cp, ci_size := ij_size job, ci_observed_at := now,
     ci_scanned := sc_imported cp, ci_malformed := sc_skipped cp, ci_turn_state := infer_turn_state x\<rparr>"

text \<open>The part of \<open>commit\<close> that holds the lock.\<close>

definition apply_facts ::
  "('b, stored) bolt \<Rightarrow> import_job \<Rightarrow> instant \<Rightarrow> importer \<Rightarrow> 'b database \<Rightarrow> import_error option \<times> importer \<times> 'b database" where
  "apply_facts B job now im d =
     (case source_checkpoint_of B (ij_source job) (db_tx d) of
        Inl e \<Rightarrow> (Some (ImportStore e), im, d)
      | Inr current \<Rightarrow>
          if checkpoint_moved current (im_committed im) then (Some ImportRaced, im, d)
          else (case import_base B job (im_reset im) (db_tx d) of
             Inl e \<Rightarrow> (Some e, im, d)
           | Inr x0 \<Rightarrow> (case attention_activity_of B (ij_item job) (db_tx d) of
               Inl e \<Rightarrow> (Some (ImportStore e), im, d)
             | Inr (_, a0, _) \<Rightarrow>
                 (let (x, a) = fold apply_conversation_fact (im_facts im) (x0, a0);
                      cp = (im_checkpoint im)\<lparr>sc_offset := im_offset im, sc_size := ij_size job,
                        sc_modified_at := ij_modified job, sc_observed_at := now\<rparr>;
                      x = describe_index job now cp x;
                      a = a\<lparr>aa_observed_at := now, aa_source := ij_source job\<rparr>;
                      im = im\<lparr>im_checkpoint := cp\<rparr>
                  in case commit_source_batch B cp [] (index_updates (ij_item job) x a) d of
                       Inl e \<Rightarrow> (Some (ImportStore e), im, d)
                     | Inr (_, d') \<Rightarrow> (None, im\<lparr>im_committed := Some cp, im_reset := False, im_facts := [],
                         im_batch := im_offset im, im_changed := False\<rparr>, d')))))"

text \<open>\<open>commit\<close>: \<open>others n\<close> is what the other threads did to the database before the lock was taken for the n-th time,
  \<open>clock n\<close> what \<open>time.Now\<close> returns then.\<close>

definition commit_import ::
  "('b, stored) bolt \<Rightarrow> (nat \<Rightarrow> 'b database \<Rightarrow> 'b database) \<Rightarrow> (nat \<Rightarrow> instant) \<Rightarrow> import_job \<Rightarrow> importer \<Rightarrow> 'b database
   \<Rightarrow> import_error option \<times> importer \<times> 'b database" where
  "commit_import B others clock job im d =
     (let (e, im) = flush_records job im
      in if e \<noteq> None then (e, im, d)
         else if im_offset im = sc_offset (im_checkpoint im) \<and> \<not> im_changed im then (None, im, d)
         else apply_facts B job (clock (im_locks im)) (im\<lparr>im_locks := im_locks im + 1\<rparr>) (others (im_locks im) d))"

abbreviation batch_records :: nat where "batch_records \<equiv> 1000"
abbreviation batch_bytes :: int where "batch_bytes \<equiv> 4194304"

definition take_line :: "string \<Rightarrow> importer \<Rightarrow> importer" where
  "take_line l im =
     (let cp = im_checkpoint im;
          im = im\<lparr>im_offset := im_offset im + int (length l), im_bytes := im_bytes im + int (length l),
            im_checkpoint := cp\<lparr>sc_seen := sc_seen cp + 1\<rparr>\<rparr>;
          im = (case bounded_line l of
                  None \<Rightarrow> count_skipped 1 im
                | Some raw \<Rightarrow> im\<lparr>im_records := im_records im @ [(sc_seen (im_checkpoint im), raw)]\<rparr>)
      in im\<lparr>im_changed := True\<rparr>)"

definition batch_full :: "importer \<Rightarrow> bool" where
  "batch_full im \<longleftrightarrow> unat (sc_seen (im_checkpoint im)) mod batch_records = 0 \<or> im_offset im - im_batch im \<ge> batch_bytes"

text \<open>The loop over the complete lines, with the commit after it.\<close>

fun import_lines ::
  "('b, stored) bolt \<Rightarrow> (nat \<Rightarrow> 'b database \<Rightarrow> 'b database) \<Rightarrow> (nat \<Rightarrow> instant) \<Rightarrow> import_job \<Rightarrow> string list
   \<Rightarrow> importer \<Rightarrow> 'b database \<Rightarrow> import_error option \<times> importer \<times> 'b database" where
  "import_lines B others clock job [] im d = commit_import B others clock job im d"
| "import_lines B others clock job (l # ls) im d =
     (let im = take_line l im
      in if batch_full im
         then (case commit_import B others clock job im d of
                 (Some e, im, d) \<Rightarrow> (Some e, im, d)
               | (None, im, d) \<Rightarrow> import_lines B others clock job ls im d)
         else import_lines B others clock job ls im d)"

definition empty_checkpoint :: source_checkpoint where
  "empty_checkpoint = \<lparr>sc_source = [], sc_fingerprint = [], sc_fingerprint_size = 0, sc_offset = 0, sc_size = 0,
     sc_modified_at = zero_time, sc_observed_at = zero_time, sc_seen = 0, sc_imported = 0, sc_skipped = 0\<rparr>"

definition reset_checkpoint :: "import_job \<Rightarrow> string \<Rightarrow> int \<Rightarrow> source_checkpoint" where
  "reset_checkpoint job fingerprint n = empty_checkpoint\<lparr>sc_source := ij_source job, sc_fingerprint := fingerprint,
     sc_fingerprint_size := n\<rparr>"

definition start_importer :: "source_checkpoint \<Rightarrow> source_checkpoint option \<Rightarrow> bool \<Rightarrow> importer" where
  "start_importer cp committed fresh = \<lparr>im_checkpoint = cp, im_committed = committed, im_reset = fresh,
     im_offset = sc_offset cp, im_batch = sc_offset cp, im_changed = False, im_records = [], im_facts = [],
     im_scanned = 0, im_malformed = 0, im_bytes = 0, im_locks = 0\<rparr>"

definition fingerprint_size :: "import_job \<Rightarrow> source_checkpoint option \<Rightarrow> int" where
  "fingerprint_size job found =
     (let size = (if ij_size job > 4096 then 4096 else ij_size job)
      in case found of None \<Rightarrow> size
         | Some cp \<Rightarrow> if sc_fingerprint_size cp < size then sc_fingerprint_size cp else size)"

text \<open>Whether the file is read from its start: it is new, was rewritten, shrank, or lost its index.\<close>

definition needs_reset ::
  "('b, stored) bolt \<Rightarrow> import_job \<Rightarrow> source_checkpoint option \<Rightarrow> string \<Rightarrow> 'b tx_state \<Rightarrow> (import_error, bool) result" where
  "needs_reset B job found fingerprint t = (case found of
     None \<Rightarrow> Inr True
   | Some cp \<Rightarrow>
       if sc_fingerprint cp \<noteq> fingerprint \<or> sc_offset cp > ij_size job then Inr True
       else rbind (read_index B (ij_item job) t) (\<lambda>x. Inr (x = None)))"

definition import_conversation_file ::
  "('b, stored) bolt \<Rightarrow> (nat \<Rightarrow> 'b database \<Rightarrow> 'b database) \<Rightarrow> (nat \<Rightarrow> instant) \<Rightarrow> import_job \<Rightarrow> string
   \<Rightarrow> 'b database \<Rightarrow> import_error option \<times> importer \<times> 'b database" where
  "import_conversation_file B others clock job content d =
     (let nothing = start_importer empty_checkpoint None True
      in case source_checkpoint_of B (ij_source job) (db_tx d) of
           Inl e \<Rightarrow> (Some (ImportStore e), nothing, d)
         | Inr found \<Rightarrow> (case file_fingerprint content (fingerprint_size job found) of
             None \<Rightarrow> (Some (ImportIO ''invalid fingerprint size''), nothing, d)
           | Some fingerprint \<Rightarrow> (case needs_reset B job found fingerprint (db_tx d) of
               Inl e \<Rightarrow> (Some e, nothing, d)
             | Inr fresh \<Rightarrow>
                 (let cp = (case found of
                        None \<Rightarrow> reset_checkpoint job fingerprint (fingerprint_size job found)
                      | Some cp \<Rightarrow> if fresh then reset_checkpoint job fingerprint (fingerprint_size job found) else cp)
                  in if sc_offset cp < 0 then (Some (ImportIO ''seek''), nothing, d)
                     else import_lines B others clock job (complete_lines (drop (nat (sc_offset cp)) content))
                            (start_importer cp found fresh) d))))"

section \<open>Lines of a growing file\<close>

text \<open>The text after the last newline.\<close>

definition open_line :: "string \<Rightarrow> string" where
  "open_line s = last (split_char newline s)"

lemma split_char_ne [simp]: "split_char c s \<noteq> []"
  by (induction s) (auto split: list.split)

lemma complete_lines_simps [simp]:
  "complete_lines [] = []"
  "complete_lines (x # xs) = (if x = newline then [newline] # complete_lines xs
     else (case complete_lines xs of [] \<Rightarrow> [] | l # ls \<Rightarrow> (x # l) # ls))"
  by (auto simp: complete_lines_def split: list.splits)

lemma complete_lines_Nil_iff: "complete_lines s = [] \<longleftrightarrow> newline \<notin> set s"
  by (induction s) (auto split: list.split)

lemma open_line_simps [simp]:
  "open_line [] = []"
  "open_line (x # xs) = (if x = newline then open_line xs
     else if complete_lines xs = [] then x # open_line xs else open_line xs)"
  by (auto simp: open_line_def complete_lines_def split: list.splits)

lemma lines_text: "concat (complete_lines s) @ open_line s = s"
  by (induction s) (auto split: list.splits)

lemma complete_lines_append: "complete_lines (s @ u) = complete_lines s @ complete_lines (open_line s @ u)"
  by (induction s) (auto split: list.splits)

definition line_shaped :: "string \<Rightarrow> bool" where
  "line_shaped l \<longleftrightarrow> (\<exists>p. l = p @ [newline] \<and> newline \<notin> set p)"

lemma line_shaped_complete: "l \<in> set (complete_lines s) \<Longrightarrow> line_shaped l"
proof (induction s arbitrary: l)
  case (Cons x xs)
  show ?case
  proof (cases "x = newline")
    case True
    then show ?thesis using Cons by (auto simp: line_shaped_def)
  next
    case False
    with Cons.prems obtain k ks where k: "complete_lines xs = k # ks" and "l = x # k \<or> l \<in> set ks"
      by (cases "complete_lines xs") auto
    moreover have "line_shaped k" using Cons.IH [of k] k by simp
    then have "line_shaped (x # k)" using False by (auto simp: line_shaped_def intro: exI [of _ "x # p" for p])
    ultimately show ?thesis using Cons.IH by auto
  qed
qed simp

lemma complete_line_shaped:
  assumes "line_shaped l"
  shows "complete_lines (l @ r) = l # complete_lines r"
proof -
  obtain p where p: "l = p @ [newline]" and "newline \<notin> set p" using assms by (auto simp: line_shaped_def)
  from this(2) have "complete_lines (p @ newline # r) = (p @ [newline]) # complete_lines r"
    by (induction p) auto
  then show ?thesis by (simp add: p)
qed

lemma complete_lines_concat:
  "\<forall>l\<in>set ls. line_shaped l \<Longrightarrow> complete_lines (concat ls @ r) = ls @ complete_lines r"
  by (induction ls) (auto simp: complete_line_shaped)

lemma complete_line_ne: "l \<in> set (complete_lines s) \<Longrightarrow> l \<noteq> []"
  by (auto dest!: line_shaped_complete simp: line_shaped_def)

text \<open>The text of the first \<open>n\<close> lines, and what is read after it.\<close>

definition text_bytes :: "string \<Rightarrow> nat \<Rightarrow> nat" where
  "text_bytes s n = length (concat (take n (complete_lines s)))"

lemma text_bytes_Suc: "n < length (complete_lines s) \<Longrightarrow> text_bytes s (Suc n) = text_bytes s n + length (complete_lines s ! n)"
  by (simp add: text_bytes_def take_Suc_conv_app_nth)

lemma text_bytes_less:
  assumes "m < n" and "n \<le> length (complete_lines s)"
  shows "text_bytes s m < text_bytes s n"
  using assms
proof (induction n)
  case (Suc n)
  have "text_bytes s n < text_bytes s (Suc n)"
    using Suc.prems complete_line_ne [OF nth_mem, of n s] by (simp add: text_bytes_Suc)
  then show ?case using Suc by (cases "m = n") auto
qed simp

lemma text_bytes_inj:
  "m \<le> length (complete_lines s) \<Longrightarrow> n \<le> length (complete_lines s) \<Longrightarrow> text_bytes s m = text_bytes s n \<Longrightarrow> m = n"
  using text_bytes_less [of m n s] text_bytes_less [of n m s] by (cases m n rule: linorder_cases) auto

lemma text_bytes_le: "text_bytes s n \<le> length s"
proof -
  have "length (concat (take n (complete_lines s))) \<le> length (concat (complete_lines s))"
    by (metis append_take_drop_id concat_append length_append le_add1)
  also have "\<dots> \<le> length s" by (metis lines_text length_append le_add1)
  finally show ?thesis by (simp add: text_bytes_def)
qed

lemma lines_after: "complete_lines (drop (text_bytes s n) s) = drop n (complete_lines s)"
proof -
  let ?L = "complete_lines s"
  have s: "s = concat (take n ?L) @ concat (drop n ?L) @ open_line s"
    by (metis append_assoc append_take_drop_id concat_append lines_text)
  then have "?L = take n ?L @ complete_lines (concat (drop n ?L) @ open_line s)"
    by (metis complete_lines_concat in_set_takeD line_shaped_complete)
  then have "complete_lines (concat (drop n ?L) @ open_line s) = drop n ?L"
    by (metis append_take_drop_id same_append_eq)
  moreover have "drop (text_bytes s n) s = concat (drop n ?L) @ open_line s"
    by (subst (2) s) (simp add: text_bytes_def)
  ultimately show ?thesis by simp
qed

lemma lines_grow:
  assumes "n \<le> length (complete_lines s)"
  shows "take n (complete_lines (s @ u)) = take n (complete_lines s)" and "text_bytes (s @ u) n = text_bytes s n"
  using assms by (simp_all add: text_bytes_def complete_lines_append [of s u])

section \<open>The index as a function of the lines\<close>

text \<open>The records of lines, the first having \<open>n\<close> before it; the facts of records, and how many are decoded, by
  what the driver decodes of each.\<close>

fun line_records :: "nat \<Rightarrow> string list \<Rightarrow> (64 word \<times> string) list" where
  "line_records n [] = []"
| "line_records n (l # ls) = (case bounded_line l of None \<Rightarrow> [] | Some raw \<Rightarrow> [(of_nat (Suc n), raw)]) @ line_records (Suc n) ls"

type_synonym record_meaning = "64 word \<times> string \<Rightarrow> conversation_fact option option"

definition facts_of :: "record_meaning \<Rightarrow> (64 word \<times> string) list \<Rightarrow> conversation_fact list" where
  "facts_of g rs = List.map_filter (\<lambda>r. Option.bind (g r) id) rs"

definition decoded_count :: "record_meaning \<Rightarrow> (64 word \<times> string) list \<Rightarrow> nat" where
  "decoded_count g rs = length (filter (\<lambda>r. g r \<noteq> None) rs)"

text \<open>The driver decodes record by record: each is understood or not, and yields at most one fact, which carries its
  line.\<close>

definition decodes_records :: "record_meaning \<Rightarrow> import_job \<Rightarrow> bool" where
  "decodes_records g job \<longleftrightarrow>
     (\<exists>decode. ij_decoder job = Some decode
        \<and> (\<forall>rs. decode (ij_conversation job) rs = Inr (facts_of g rs, List.map (\<lambda>r. g r \<noteq> None) rs)))
     \<and> (\<forall>r f. g r = Some (Some f) \<longrightarrow> cf_line f = fst r)"

lemma line_records_append: "line_records n (ls @ ks) = line_records n ls @ line_records (n + length ls) ks"
  by (induction ls arbitrary: n) (auto simp: add.commute)

lemma facts_of_simps [simp]:
  "facts_of g [] = []"
  "facts_of g (r # rs) = (case g r of Some (Some f) \<Rightarrow> f # facts_of g rs | _ \<Rightarrow> facts_of g rs)"
  "facts_of g (rs @ qs) = facts_of g rs @ facts_of g qs"
  by (auto simp: facts_of_def List.map_filter_def split: option.splits)

lemma decoded_count_simps [simp]:
  "decoded_count g [] = 0"
  "decoded_count g (r # rs) = (if g r \<noteq> None then Suc (decoded_count g rs) else decoded_count g rs)"
  "decoded_count g (rs @ qs) = decoded_count g rs + decoded_count g qs"
  by (auto simp: decoded_count_def)

lemma decoded_count_le: "decoded_count g rs \<le> length rs"
  by (simp add: decoded_count_def)

lemma length_line_records: "length (line_records n ls) \<le> length ls"
  by (induction ls arbitrary: n) (auto split: option.split intro: le_SucI)

lemma line_records_lines:
  "r \<in> set (line_records n ls) \<Longrightarrow> \<exists>k. n < k \<and> k \<le> n + length ls \<and> fst r = of_nat k"
proof (induction ls arbitrary: n)
  case (Cons l ls)
  show ?case
  proof (cases "r \<in> set (line_records (Suc n) ls)")
    case True
    from Cons.IH [OF this] obtain k where "Suc n < k" "k \<le> Suc n + length ls" "fst r = of_nat k" by blast
    then show ?thesis by (intro exI [of _ k]) auto
  next
    case False
    then have "fst r = of_nat (Suc n)" using Cons.prems by (auto split: option.splits)
    then show ?thesis by (intro exI [of _ "Suc n"]) auto
  qed
qed simp

lemma distinct_line_records:
  "n + length ls < 2 ^ 64 \<Longrightarrow> distinct (List.map fst (line_records n ls))"
proof (induction ls arbitrary: n)
  case (Cons l ls)
  have "of_nat (Suc n) \<notin> fst ` set (line_records (Suc n) ls)"
  proof
    assume "of_nat (Suc n) \<in> fst ` set (line_records (Suc n) ls)"
    then obtain r where "r \<in> set (line_records (Suc n) ls)" "fst r = of_nat (Suc n)" by force
    then obtain k where k: "Suc n < k" "k \<le> Suc n + length ls" "of_nat (Suc n) = (of_nat k :: 64 word)"
      using line_records_lines by metis
    then have "k < 2 ^ 64" "Suc n < 2 ^ 64" using Cons.prems by auto
    then have "Suc n = k" using k(3) word_of_nat_eq_iff [where 'a = 64, of "Suc n" k] by (simp add: take_bit_nat_eq_self)
    then show False using k(1) by simp
  qed
  then show ?case using Cons by (auto split: option.split)
qed simp

lemma take_decoded_records:
  assumes "distinct (List.map fst rs)" and "\<forall>r f. g r = Some (Some f) \<longrightarrow> cf_line f = fst r"
  shows "take_decoded rs (List.map (\<lambda>r. g r \<noteq> None) rs) (facts_of g rs) im =
    ([], im\<lparr>im_facts := im_facts im @ facts_of g rs, im_scanned := im_scanned im + of_nat (decoded_count g rs),
       im_malformed := im_malformed im + of_nat (length rs - decoded_count g rs),
       im_checkpoint := (im_checkpoint im)\<lparr>sc_imported := sc_imported (im_checkpoint im) + of_nat (decoded_count g rs),
         sc_skipped := sc_skipped (im_checkpoint im) + of_nat (length rs - decoded_count g rs)\<rparr>\<rparr>)"
  using assms(1)
proof (induction rs arbitrary: im)
  case (Cons r rs)
  have le: "decoded_count g rs \<le> length rs" by (rule decoded_count_le)
  show ?case
  proof (cases "g r")
    case None
    then show ?thesis
      using Cons le by (simp add: count_skipped_def Suc_diff_le)
  next
    case (Some x)
    show ?thesis
    proof (cases x)
      case None
      have "cf_line f \<noteq> fst r" if "facts_of g rs = f # fs" for f fs
      proof -
        have "f \<in> set (facts_of g rs)" using that by simp
        then obtain q where "q \<in> set rs" "g q = Some (Some f)"
          by (auto simp: facts_of_def List.map_filter_def bind_eq_Some_conv)
        moreover have "fst q \<noteq> fst r" using Cons.prems \<open>q \<in> set rs\<close> by (auto simp: image_iff)
        ultimately show ?thesis using assms(2) by metis
      qed
      then show ?thesis
        using Cons None Some le by (cases "facts_of g rs") (simp_all add: count_decoded_def Let_def add.assoc)
    next
      case (Some f)
      then have "cf_line f = fst r" using assms(2) \<open>g r = Some x\<close> by blast
      then show ?thesis
        using Cons Some \<open>g r = Some x\<close> le by (simp add: count_decoded_def Let_def add.assoc)
    qed
  qed
qed simp

section \<open>Folding facts into a described index\<close>

abbreviation describe :: "int \<Rightarrow> int \<Rightarrow> instant \<Rightarrow> 64 word \<Rightarrow> 64 word \<Rightarrow> string \<Rightarrow> conversation_index \<Rightarrow> conversation_index" where
  "describe at n now scanned malformed turn x \<equiv> x\<lparr>ci_offset := at, ci_size := n, ci_observed_at := now,
     ci_scanned := scanned, ci_malformed := malformed, ci_turn_state := turn\<rparr>"

lemma index_fact_describe: "index_fact f (describe at n now s m turn x) = describe at n now s m turn (index_fact f x)"
  by (simp add: index_fact_def Let_def)

lemma fold_index_describe:
  "fold index_fact fs (describe at n now s m turn x) = describe at n now s m turn (fold index_fact fs x)"
  by (induction fs arbitrary: x) (simp_all add: index_fact_describe)

lemma infer_describe: "infer_turn_state (describe at n now s m turn x) = infer_turn_state x"
  by (simp add: infer_turn_state_def split: option.split)

lemma describe_describe: "describe at n now s m turn (describe at' n' now' s' m' turn' x) = describe at n now s m turn x"
  by simp

lemma describe_index_fold:
  "describe_index job now cp (fold index_fact fs (describe_index job' now' cp' x)) = describe_index job now cp (fold index_fact fs x)"
  unfolding describe_index_def fold_index_describe infer_describe describe_describe ..

lemma fold_conversation_facts:
  "fold apply_conversation_fact fs (x, a) = (fold index_fact fs x, fold attention_fact fs a)"
  by (induction fs arbitrary: x a) (simp_all add: apply_conversation_fact_def)

lemma attention_facts_item [simp]: "aa_item (fold attention_fact fs a) = aa_item a"
  by (induction fs arbitrary: a) (simp_all add: attention_fact_def)

section \<open>What the database shows of a file\<close>

definition lines_index :: "record_meaning \<Rightarrow> import_job \<Rightarrow> string list \<Rightarrow> conversation_index" where
  "lines_index g job ls = fold index_fact (facts_of g (line_records 0 ls)) (empty_index job)"

text \<open>The checkpoint stands after the first \<open>n\<close> lines of the file: it counts their records, its fingerprint is of the
  file, and the index is the one of these lines.\<close>

definition checkpoint_at :: "record_meaning \<Rightarrow> import_job \<Rightarrow> string \<Rightarrow> nat \<Rightarrow> source_checkpoint \<Rightarrow> bool" where
  "checkpoint_at g job content n cp \<longleftrightarrow>
     (let rs = line_records 0 (take n (complete_lines content))
      in sc_source cp = ij_source job \<and> sc_offset cp = int (text_bytes content n)
         \<and> 0 \<le> sc_fingerprint_size cp \<and> sc_fingerprint_size cp \<le> 4096 \<and> sc_fingerprint_size cp \<le> int (length content)
         \<and> file_fingerprint content (sc_fingerprint_size cp) = Some (sc_fingerprint cp)
         \<and> sc_seen cp = of_nat n \<and> sc_imported cp = of_nat (decoded_count g rs)
         \<and> sc_skipped cp = of_nat (n - decoded_count g rs))"

definition indexed_upto ::
  "('b, stored) bolt \<Rightarrow> record_meaning \<Rightarrow> import_job \<Rightarrow> string \<Rightarrow> nat \<Rightarrow> 'b tx_state \<Rightarrow> bool" where
  "indexed_upto B g job content n t \<longleftrightarrow> n \<le> length (complete_lines content) \<and>
     (if n = 0 \<and> source_checkpoint_of B (ij_source job) t = Inr None then True
      else (\<exists>cp now z. source_checkpoint_of B (ij_source job) t = Inr (Some cp) \<and> checkpoint_at g job content n cp
        \<and> get_projection B conversation_projection (ij_item job) t
          = Some (StConversation (describe_index (job\<lparr>ij_size := z\<rparr>) now cp (lines_index g job (take n (complete_lines content)))))))"

text \<open>What an import relies on of the database, and keeps.\<close>

definition import_store :: "('b, stored) bolt \<Rightarrow> ('b \<Rightarrow> bool) \<Rightarrow> import_job \<Rightarrow> 'b tx_state \<Rightarrow> bool" where
  "import_store B ok job t \<longleftrightarrow> tx_ok ok t \<and> get_projection B manifest_projection (ij_item job) t \<noteq> None
     \<and> (\<exists>a found. read_attention B (ij_item job) t = Inr (a, found))"

definition job_ok :: "record_meaning \<Rightarrow> import_job \<Rightarrow> string \<Rightarrow> bool" where
  "job_ok g job content \<longleftrightarrow> valid_source_key (ij_source job) \<and> valid_id (ij_item job) \<and> ij_item job \<noteq> []
     \<and> decodes_records g job \<and> ij_size job = int (length content) \<and> length (complete_lines content) < 2 ^ 64"

lemma fingerprint_grow:
  assumes "file_fingerprint content n = Some fp" and "n \<le> int (length content)"
  shows "file_fingerprint (content @ extra) n = Some fp"
  using assms by (auto simp: file_fingerprint_def split: if_splits)

lemma checkpoint_at_grow:
  assumes "checkpoint_at g job content n cp" and "n \<le> length (complete_lines content)"
  shows "checkpoint_at g job (content @ extra) n cp"
  using assms fingerprint_grow [of content "sc_fingerprint_size cp" "sc_fingerprint cp" extra]
  by (simp add: checkpoint_at_def Let_def lines_grow)

lemma indexed_grow:
  assumes "indexed_upto B g job content n t"
  shows "indexed_upto B g job (content @ extra) n t"
proof -
  have n: "n \<le> length (complete_lines content)" using assms by (simp add: indexed_upto_def)
  then have "n \<le> length (complete_lines (content @ extra))" by (simp add: complete_lines_append [of content extra])
  then show ?thesis
    using assms n by (auto simp: indexed_upto_def lines_grow split: if_split_asm intro: checkpoint_at_grow)
qed

lemma indexedI:
  "n \<le> length (complete_lines content) \<Longrightarrow> source_checkpoint_of B (ij_source job) t = Inr (Some cp) \<Longrightarrow>
   checkpoint_at g job content n cp \<Longrightarrow>
   get_projection B conversation_projection (ij_item job) t
     = Some (StConversation (describe_index (job\<lparr>ij_size := z\<rparr>) now cp (lines_index g job (take n (complete_lines content))))) \<Longrightarrow>
   indexed_upto B g job content n t"
  by (auto simp: indexed_upto_def)

lemma indexed_cases:
  assumes "indexed_upto B g job content n t"
  obtains (fresh) "n = 0" "source_checkpoint_of B (ij_source job) t = Inr None"
  | (stored) cp now z where "n \<le> length (complete_lines content)" "source_checkpoint_of B (ij_source job) t = Inr (Some cp)"
      "checkpoint_at g job content n cp" "get_projection B conversation_projection (ij_item job) t
        = Some (StConversation (describe_index (job\<lparr>ij_size := z\<rparr>) now cp (lines_index g job (take n (complete_lines content)))))"
  using assms by (auto simp: indexed_upto_def split: if_split_asm)

context event_store
begin

text \<open>Committing an index: the batch has no events.\<close>

lemma commit_index:
  assumes "valid_source_key (sc_source cp)" and "0 \<le> sc_offset cp" and "0 \<le> sc_size cp" and "0 \<le> sc_fingerprint_size cp"
    and "import_store B ok job (db_tx d)" and "i = ij_item job" and "i \<noteq> []" and "aa_item a = i"
  shows "\<exists>r d'. commit_source_batch B cp [] (index_updates i x a) d = Inr (r, d') \<and> import_store B ok job (db_tx d')
    \<and> source_checkpoint_of B (sc_source cp) (db_tx d') = Inr (Some cp)
    \<and> get_projection B conversation_projection i (db_tx d') = Some (StConversation x)"
proof -
  obtain a0 f0 where a0: "read_attention B i (db_tx d) = Inr (a0, f0)" and ok: "tx_ok ok (db_tx d)"
    and m: "get_projection B manifest_projection i (db_tx d) \<noteq> None"
    using assms(5,6) by (auto simp: import_store_def)
  have read: "read_attention B i (put_projection B conversation_projection i v (db_tx d)) = Inr (a0, f0)" for v
    using a0 ok by (simp add: read_attention_def)
  have off: "source_checkpoint_of B (sc_source cp) (t\<lparr>tx_offsets := b_put B (sc_source cp) (StCheckpoint cp) (tx_offsets t)\<rparr>) = Inr (Some cp)"
    if "tx_ok ok t" for t
    using that assms(1) by (simp add: source_checkpoint_of_def tx_ok_def get_put)
  have seq: "source_checkpoint_of B s (put_sequence B n t) = source_checkpoint_of B s t"
    "get_projection B name k (put_sequence B n t) = get_projection B name k t" for s n t name k
    by (simp_all add: source_checkpoint_of_def put_sequence_def get_projection_def)
  have more: "get_projection B name k (t\<lparr>tx_offsets := y\<rparr>) = get_projection B name k t" for name k t y
    by (simp add: get_projection_def)
  let ?t = "put_projection B conversation_projection i (StConversation x) (db_tx d)"
  have "\<exists>a'. batch_updates B (index_updates i x a) (db_tx d) = Inr (put_attention B a' ?t) \<and> aa_item a' = i"
    using assms(7,8) by (auto simp: index_updates_def apply_update_def merge_attention_def read)
  then obtain a' where t': "batch_updates B (index_updates i x a) (db_tx d) = Inr (put_attention B a' ?t)" and "aa_item a' = i"
    by blast
  define t' where "t' = put_attention B a' ?t"
  have ok': "tx_ok ok t'" using ok by (simp add: t'_def)
  have p: "get_projection B conversation_projection i t' = Some (StConversation x)"
    "get_projection B manifest_projection i t' \<noteq> None" "read_attention B i t' = Inr (a', True)"
    using ok m \<open>aa_item a' = i\<close> by (simp_all add: t'_def put_attention_def read_attention_def)
  show ?thesis
    using assms(1-4,6) t' [folded t'_def] ok' p
    by (auto simp: commit_source_batch_def Let_def import_store_def seq off more read_attention_def)
qed

end

section \<open>The invariant of an import\<close>

text \<open>An importer that committed \<open>c\<close> lines and took \<open>p\<close>: the lines between are its records, or were too long.\<close>

definition lines_between :: "string \<Rightarrow> nat \<Rightarrow> nat \<Rightarrow> string list" where
  "lines_between content c p = drop c (take p (complete_lines content))"

definition importer_at :: "record_meaning \<Rightarrow> import_job \<Rightarrow> string \<Rightarrow> nat \<Rightarrow> nat \<Rightarrow> importer \<Rightarrow> bool" where
  "importer_at g job content c p im \<longleftrightarrow>
     (let rs = line_records c (lines_between content c p); cp = im_checkpoint im;
          skipped = c - decoded_count g (line_records 0 (take c (complete_lines content)))
      in c \<le> p \<and> p \<le> length (complete_lines content) \<and> im_records im = rs \<and> im_facts im = []
         \<and> im_offset im = int (text_bytes content p) \<and> im_changed im = (c \<noteq> p)
         \<and> checkpoint_at g job content c (cp\<lparr>sc_seen := of_nat c, sc_skipped := of_nat skipped\<rparr>)
         \<and> sc_seen cp = of_nat p \<and> sc_skipped cp = of_nat (skipped + (p - c - length rs)))"

definition in_step :: "('b, stored) bolt \<Rightarrow> import_job \<Rightarrow> importer \<Rightarrow> 'b tx_state \<Rightarrow> bool" where
  "in_step B job im t \<longleftrightarrow> source_checkpoint_of B (ij_source job) t = Inr (im_committed im) \<and> im_reset im = (im_committed im = None)"

lemma take_between: "c \<le> p \<Longrightarrow> take p (complete_lines s) = take c (complete_lines s) @ lines_between s c p"
  by (simp add: lines_between_def drop_take) (metis le_add_diff_inverse take_add)

lemma line_records_between:
  assumes "c \<le> p" and "p \<le> length (complete_lines s)"
  shows "line_records 0 (take p (complete_lines s)) = line_records 0 (take c (complete_lines s)) @ line_records c (lines_between s c p)"
  using assms by (simp add: take_between line_records_append)

lemma length_between: "p \<le> length (complete_lines s) \<Longrightarrow> length (lines_between s c p) = p - c"
  by (simp add: lines_between_def)

lemma take_line_at:
  assumes "importer_at g job content c p im" and "p < length (complete_lines content)"
  shows "importer_at g job content c (Suc p) (take_line (complete_lines content ! p) im)"
    and "im_committed (take_line l im) = im_committed im" and "im_reset (take_line l im) = im_reset im"
proof -
  let ?l = "complete_lines content ! p"
  have cp: "c \<le> p" "p \<le> length (complete_lines content)" using assms by (simp_all add: importer_at_def Let_def)
  have "lines_between content c (Suc p) = lines_between content c p @ [?l]"
    using assms(2) cp by (simp add: lines_between_def take_Suc_conv_app_nth)
  then have rs: "line_records c (lines_between content c (Suc p)) = line_records c (lines_between content c p) @ line_records p [?l]"
    using cp by (simp add: line_records_append length_between)
  have le: "length (line_records c (lines_between content c p)) \<le> p - c"
    using length_line_records [of c "lines_between content c p"] cp by (simp add: length_between)
  show "importer_at g job content c (Suc p) (take_line ?l im)"
    using assms cp le
    by (cases "bounded_line ?l")
      (simp_all add: importer_at_def Let_def take_line_def count_skipped_def rs text_bytes_Suc checkpoint_at_def Suc_diff_le)
  show "im_committed (take_line l im) = im_committed im" "im_reset (take_line l im) = im_reset im"
    by (simp_all add: take_line_def Let_def count_skipped_def split: option.split)
qed

lemma flush_at:
  assumes "importer_at g job content c p im" and "job_ok g job content"
  obtains im' where "flush_records job im = (None, im')" "im_records im' = []"
    "im_facts im' = facts_of g (line_records c (lines_between content c p))"
    "im_offset im' = im_offset im" "im_changed im' = im_changed im" "im_committed im' = im_committed im"
    "im_reset im' = im_reset im" "im_locks im' = im_locks im" "sc_offset (im_checkpoint im') = int (text_bytes content c)"
    "checkpoint_at g job content p ((im_checkpoint im')\<lparr>sc_offset := im_offset im, sc_size := ij_size job,
       sc_modified_at := ij_modified job, sc_observed_at := now\<rparr>)"
proof -
  let ?rs = "line_records c (lines_between content c p)" and ?L = "complete_lines content" and ?cp = "im_checkpoint im"
  define k where "k = decoded_count g ?rs"
  define im' where "im' = im\<lparr>im_records := [], im_facts := facts_of g ?rs, im_scanned := im_scanned im + of_nat k,
     im_malformed := im_malformed im + of_nat (length ?rs - k),
     im_checkpoint := ?cp\<lparr>sc_imported := sc_imported ?cp + of_nat k, sc_skipped := sc_skipped ?cp + of_nat (length ?rs - k)\<rparr>\<rparr>"
  have at: "c \<le> p" "p \<le> length ?L" "im_records im = ?rs" "im_facts im = []" "im_offset im = int (text_bytes content p)"
    "sc_seen ?cp = of_nat p"
    using assms(1) by (simp_all add: importer_at_def Let_def)
  obtain decode where decode: "ij_decoder job = Some decode"
    "\<And>rs. decode (ij_conversation job) rs = Inr (facts_of g rs, List.map (\<lambda>r. g r \<noteq> None) rs)"
    and lines: "\<forall>r f. g r = Some (Some f) \<longrightarrow> cf_line f = fst r" and total: "length ?L < 2 ^ 64"
    using assms(2) by (auto simp: job_ok_def decodes_records_def)
  have "c + length (lines_between content c p) < 2 ^ 64" using at(1,2) total by (simp add: length_between)
  note take = take_decoded_records [OF distinct_line_records [OF this] lines, of im]
  have "flush_records job im = (None, im')"
  proof (cases "?rs = []")
    case True
    then show ?thesis using at(3,4) by (simp add: flush_records_def im'_def k_def)
  next
    case False
    then show ?thesis
      using at(3,4) take by (simp add: flush_records_def decode im'_def k_def Let_def)
  qed
  moreover have "checkpoint_at g job content p ((im_checkpoint im')\<lparr>sc_offset := im_offset im, sc_size := ij_size job,
       sc_modified_at := ij_modified job, sc_observed_at := now\<rparr>)"
  proof -
    let ?dc = "decoded_count g (line_records 0 (take c ?L))"
    have bounds: "?dc \<le> c" "k \<le> length ?rs" "length ?rs \<le> p - c"
      using decoded_count_le [of g "line_records 0 (take c ?L)"] length_line_records [of 0 "take c ?L"] decoded_count_le [of g ?rs]
        length_line_records [of c "lines_between content c p"] at(1,2) by (simp_all add: k_def length_between)
    have dp: "decoded_count g (line_records 0 (take p ?L)) = ?dc + k"
      using at(1,2) by (simp add: line_records_between k_def)
    have "c - ?dc + (p - c - length ?rs) + (length ?rs - k) = p - (?dc + k)" using bounds at(1) by simp
    then have "of_nat (c - ?dc + (p - c - length ?rs)) + of_nat (length ?rs - k) = (of_nat (p - (?dc + k)) :: 64 word)"
      by (metis of_nat_add)
    then show ?thesis
      using assms(1) at by (simp add: importer_at_def Let_def checkpoint_at_def im'_def dp add.assoc)
  qed
  moreover have "sc_offset (im_checkpoint im') = int (text_bytes content c)"
    using assms(1) by (simp add: importer_at_def Let_def checkpoint_at_def im'_def)
  ultimately show thesis by (intro that [of im']) (simp_all add: im'_def)
qed

lemma indexed_same_place:
  assumes "indexed_upto B g job content c t" and "indexed_upto B g job content n t'"
    and "source_checkpoint_of B (ij_source job) t = Inr a" and "source_checkpoint_of B (ij_source job) t' = Inr b"
    and "\<not> checkpoint_moved b a"
  shows "n = c"
  using assms(1)
proof (cases rule: indexed_cases)
  case fresh
  then show ?thesis
    using assms(2-5) by (auto simp: checkpoint_moved_def indexed_upto_def split: if_split_asm)
next
  case (stored cp now z)
  then have a: "a = Some cp" using assms(3) by simp
  then obtain cp' where b: "b = Some cp'" and "sc_offset cp' = sc_offset cp"
    using assms(5) by (cases b) (auto simp: checkpoint_moved_def)
  moreover from assms(2) have "sc_offset cp' = int (text_bytes content n)" "n \<le> length (complete_lines content)"
    using assms(4) b by (auto elim!: indexed_cases simp: checkpoint_at_def Let_def)
  ultimately show ?thesis
    using stored(1,3) text_bytes_inj [of n content c] by (simp add: checkpoint_at_def Let_def)
qed

lemma import_base_at:
  assumes "indexed_upto B g job content n t" and "ij_item job \<noteq> []"
    and "source_checkpoint_of B (ij_source job) t = Inr current" and "fresh = (current = None)"
  obtains x where "import_base B job fresh t = Inr x"
    "\<And>fs cp now. describe_index job now cp (fold index_fact fs x)
       = describe_index job now cp (fold index_fact fs (lines_index g job (take n (complete_lines content))))"
  using assms(1)
proof (cases rule: indexed_cases)
  case fresh
  then have "import_base B job fresh t = Inr (empty_index job)" using assms(3,4) by (simp add: import_base_def)
  then show thesis using fresh(1) by (intro that) (auto simp: lines_index_def)
next
  case (stored cp now z)
  then have "import_base B job fresh t = Inr (describe_index (job\<lparr>ij_size := z\<rparr>) now cp (lines_index g job (take n (complete_lines content))))"
    using assms(2-4) by (simp add: import_base_def read_index_def read_projection_def)
  then show thesis by (rule that) (rule describe_index_fold)
qed

section \<open>Importing\<close>

text \<open>The rest of the daemon keeps what the import relies on: other imports of the file leave the database at some of its
  lines.\<close>

definition import_rely ::
  "('b, stored) bolt \<Rightarrow> ('b \<Rightarrow> bool) \<Rightarrow> record_meaning \<Rightarrow> import_job \<Rightarrow> string \<Rightarrow> (nat \<Rightarrow> 'b database \<Rightarrow> 'b database) \<Rightarrow> bool" where
  "import_rely B ok g job content others \<longleftrightarrow>
     (\<forall>k d n. import_store B ok job (db_tx d) \<longrightarrow> indexed_upto B g job content n (db_tx d) \<longrightarrow>
        import_store B ok job (db_tx (others k d)) \<and> (\<exists>m. indexed_upto B g job content m (db_tx (others k d))))"

text \<open>The outcome of a commit and of an import: all the lines taken are indexed, or another import was faster and the
  database is as it left it.\<close>

definition import_outcome ::
  "('b, stored) bolt \<Rightarrow> record_meaning \<Rightarrow> import_job \<Rightarrow> string \<Rightarrow> (nat \<Rightarrow> 'b database \<Rightarrow> 'b database) \<Rightarrow> nat
   \<Rightarrow> import_error option \<Rightarrow> 'b database \<Rightarrow> bool" where
  "import_outcome B g job content others p e d' \<longleftrightarrow>
     (if e = None then indexed_upto B g job content p (db_tx d')
      else e = Some ImportRaced \<and> (\<exists>m. indexed_upto B g job content m (db_tx d')) \<and> (\<exists>k d. others k d \<noteq> d))"

context event_store
begin

lemma apply_facts_at:
  assumes job: "job_ok g job content" and "import_store B ok job (db_tx d)" and "indexed_upto B g job content c (db_tx d)"
    and "source_checkpoint_of B (ij_source job) (db_tx d) = Inr (im_committed im)" and "im_reset im = (im_committed im = None)"
    and facts: "c \<le> p" "p \<le> length (complete_lines content)" "im_facts im = facts_of g (line_records c (lines_between content c p))"
    and cp: "cp = (im_checkpoint im)\<lparr>sc_offset := im_offset im, sc_size := ij_size job, sc_modified_at := ij_modified job,
      sc_observed_at := now\<rparr>" "checkpoint_at g job content p cp"
  shows "\<exists>im' d'. apply_facts B job now im d = (None, im', d') \<and> import_store B ok job (db_tx d')
    \<and> indexed_upto B g job content p (db_tx d') \<and> in_step B job im' (db_tx d')
    \<and> im' = im\<lparr>im_checkpoint := cp, im_committed := Some cp, im_reset := False, im_facts := [], im_batch := im_offset im, im_changed := False\<rparr>"
proof -
  have ij: "ij_item job \<noteq> []" "valid_id (ij_item job)" "valid_source_key (ij_source job)" "0 \<le> ij_size job"
    using job by (simp_all add: job_ok_def)
  obtain x where x: "import_base B job (im_reset im) (db_tx d) = Inr x"
    "\<And>fs cp now. describe_index job now cp (fold index_fact fs x)
       = describe_index job now cp (fold index_fact fs (lines_index g job (take c (complete_lines content))))"
    by (rule import_base_at [OF assms(3) ij(1) assms(4,5)]) blast
  obtain a found where "read_attention B (ij_item job) (db_tx d) = Inr (a, found)" and
    "get_projection B manifest_projection (ij_item job) (db_tx d) \<noteq> None"
    using assms(2) by (auto simp: import_store_def)
  then have a: "attention_activity_of B (ij_item job) (db_tx d) = Inr (global_sequence B (db_tx d), a, found)" "aa_item a = ij_item job"
    using ij(2) by (simp_all add: attention_activity_of_def read_attention_item)
  define x' where "x' = describe_index job now cp (lines_index g job (take p (complete_lines content)))"
  define a' where "a' = (fold attention_fact (im_facts im) a)\<lparr>aa_observed_at := now, aa_source := ij_source job\<rparr>"
  have x': "describe_index job now cp (fold index_fact (im_facts im) x) = x'"
    unfolding x'_def x(2) using facts by (simp add: lines_index_def line_records_between)
  have src: "sc_source cp = ij_source job" "0 \<le> sc_offset cp" "0 \<le> sc_fingerprint_size cp" "0 \<le> sc_size cp"
    using cp ij(4) by (auto simp: checkpoint_at_def Let_def)
  obtain r d' where r: "commit_source_batch B cp [] (index_updates (ij_item job) x' a') d = Inr (r, d')"
    and d': "import_store B ok job (db_tx d')" "source_checkpoint_of B (ij_source job) (db_tx d') = Inr (Some cp)"
    "get_projection B conversation_projection (ij_item job) (db_tx d') = Some (StConversation x')"
    using commit_index [of cp job d "ij_item job" a' x'] ij src assms(2) a(2) by (auto simp: a'_def)
  have "indexed_upto B g job content p (db_tx d')"
    by (rule indexedI [OF facts(2) d'(2) cp(2), where z = "ij_size job" and now = now])
      (simp add: d'(3) x'_def)
  moreover have "\<not> checkpoint_moved (im_committed im) (im_committed im)"
    by (simp add: checkpoint_moved_def split: option.split)
  then have "apply_facts B job now im d = (None, im\<lparr>im_checkpoint := cp, im_committed := Some cp, im_reset := False,
     im_facts := [], im_batch := im_offset im, im_changed := False\<rparr>, d')"
    using r by (simp add: apply_facts_def assms(4) x(1) a(1) fold_conversation_facts Let_def cp(1) [symmetric] x' a'_def)
  ultimately show ?thesis using d' by (simp add: in_step_def)
qed

lemma apply_facts_committed:
  assumes "apply_facts B job now (im\<lparr>im_committed := c\<rparr>) d = (None, im', d')"
    and "source_checkpoint_of B (ij_source job) (db_tx d) = Inr current" and "\<not> checkpoint_moved current (im_committed im)"
    and "\<not> checkpoint_moved current c"
  shows "apply_facts B job now im d = (None, im', d')"
  using assms by (cases "import_base B job (im_reset im) (db_tx d)"; cases "attention_activity_of B (ij_item job) (db_tx d)")
    (auto simp: apply_facts_def fold_conversation_facts Let_def split: sum.splits)

lemma commit_at:
  assumes job: "job_ok g job content" and im: "importer_at g job content c p im"
    and d: "import_store B ok job (db_tx d)" "indexed_upto B g job content c (db_tx d)" "in_step B job im (db_tx d)"
    and rely: "import_rely B ok g job content others" and run: "commit_import B others clock job im d = (e, im', d')"
  shows "import_store B ok job (db_tx d') \<and> import_outcome B g job content others p e d'
    \<and> (e = None \<longrightarrow> importer_at g job content p p im' \<and> in_step B job im' (db_tx d'))"
proof -
  let ?now = "clock (im_locks im)" and ?L = "complete_lines content"
  obtain im1 where flush: "flush_records job im = (None, im1)"
    and f: "im_records im1 = []" "im_facts im1 = facts_of g (line_records c (lines_between content c p))"
    "im_offset im1 = im_offset im" "im_changed im1 = im_changed im" "im_committed im1 = im_committed im"
    "im_reset im1 = im_reset im" "im_locks im1 = im_locks im" "sc_offset (im_checkpoint im1) = int (text_bytes content c)"
    "checkpoint_at g job content p ((im_checkpoint im1)\<lparr>sc_offset := im_offset im, sc_size := ij_size job,
       sc_modified_at := ij_modified job, sc_observed_at := ?now\<rparr>)"
    by (rule flush_at [OF im job, where now = ?now]) blast
  have at: "c \<le> p" "p \<le> length ?L" "im_offset im = int (text_bytes content p)" "im_changed im = (c \<noteq> p)"
    using im by (simp_all add: importer_at_def Let_def)
  show ?thesis
  proof (cases "c = p")
    case True
    then have "im1 = im" using flush im by (auto simp: flush_records_def importer_at_def Let_def lines_between_def)
    then have "commit_import B others clock job im d = (None, im, d)"
      using flush f(8) at True by (simp add: commit_import_def Let_def)
    then show ?thesis using run im d True by (auto simp: import_outcome_def)
  next
    case False
    define d1 where "d1 = others (im_locks im) d"
    define im2 where "im2 = im1\<lparr>im_locks := im_locks im + 1\<rparr>"
    define cp where "cp = (im_checkpoint im2)\<lparr>sc_offset := im_offset im2, sc_size := ij_size job,
      sc_modified_at := ij_modified job, sc_observed_at := ?now\<rparr>"
    have cp: "checkpoint_at g job content p cp" using f(9) by (simp add: cp_def im2_def f(3))
    have step: "apply_facts B job ?now im2 d1 = (e, im', d')"
      using run flush f at False by (simp add: commit_import_def Let_def d1_def im2_def)
    have d1: "import_store B ok job (db_tx d1)" "\<exists>m. indexed_upto B g job content m (db_tx d1)"
      using rely d(1,2) unfolding import_rely_def d1_def by blast+
    then obtain m where m: "indexed_upto B g job content m (db_tx d1)" by blast
    obtain current where current: "source_checkpoint_of B (ij_source job) (db_tx d1) = Inr current"
      using m by (auto elim!: indexed_cases)
    show ?thesis
    proof (cases "checkpoint_moved current (im_committed im)")
      case True
      then have "apply_facts B job ?now im2 d1 = (Some ImportRaced, im2, d1)"
        by (simp add: apply_facts_def current im2_def f)
      moreover have "d1 \<noteq> d"
        using True d(3) current by (auto simp: in_step_def checkpoint_moved_def split: option.splits)
      then have "\<exists>k d. others k d \<noteq> d" unfolding d1_def by blast
      ultimately show ?thesis using step d1 m by (auto simp: import_outcome_def)
    next
      case unmoved: False
      have "m = c"
        by (rule indexed_same_place [OF d(2) m _ current unmoved]) (use d(3) in \<open>simp add: in_step_def\<close>)
      have "current = None \<longleftrightarrow> im_committed im = None"
        using unmoved by (auto simp: checkpoint_moved_def split: option.splits)
      obtain im3 d2 where r: "apply_facts B job ?now (im2\<lparr>im_committed := current\<rparr>) d1 = (None, im3, d2)"
        and d2: "import_store B ok job (db_tx d2)" "indexed_upto B g job content p (db_tx d2)" "in_step B job im3 (db_tx d2)"
        and im3: "im3 = im2\<lparr>im_checkpoint := cp, im_committed := Some cp, im_reset := False, im_facts := [],
          im_batch := im_offset im2, im_changed := False\<rparr>"
        using apply_facts_at [OF job d1(1) m [unfolded \<open>m = c\<close>], of "im2\<lparr>im_committed := current\<rparr>" p cp ?now]
          current cp at(1,2) f d(3) \<open>current = None \<longleftrightarrow> im_committed im = None\<close>
        by (auto simp: im2_def cp_def in_step_def)
      have "\<not> checkpoint_moved current current" by (simp add: checkpoint_moved_def split: option.split)
      then have "apply_facts B job ?now im2 d1 = (None, im3, d2)"
        using apply_facts_committed [OF r current] unmoved by (simp add: im2_def f)
      then have "e = None" "im' = im3" "d' = d2" using step r by simp_all
      moreover have "importer_at g job content p p im3"
        using cp at by (simp add: importer_at_def Let_def im3 im2_def f lines_between_def checkpoint_at_def)
      ultimately show ?thesis using d2 by (simp add: import_outcome_def)
    qed
  qed
qed

lemma import_lines_at:
  assumes job: "job_ok g job content" and rely: "import_rely B ok g job content others"
    and "ls = drop p (complete_lines content)" and "importer_at g job content c p im"
    and "import_store B ok job (db_tx d)" and "indexed_upto B g job content c (db_tx d)" and "in_step B job im (db_tx d)"
    and "import_lines B others clock job ls im d = (e, im', d')"
  shows "import_store B ok job (db_tx d') \<and> import_outcome B g job content others (length (complete_lines content)) e d'"
  using assms(3-)
proof (induction ls arbitrary: p c im d)
  case Nil
  then have "p = length (complete_lines content)" by (simp add: importer_at_def Let_def)
  then show ?case using commit_at [OF job Nil.prems(2-5) rely, of clock] Nil.prems(6) by auto
next
  case (Cons l ls)
  let ?im = "take_line l im"
  have p: "p < length (complete_lines content)" "l = complete_lines content ! p" "ls = drop (Suc p) (complete_lines content)"
    using Cons.prems(1) by (metis drop_eq_Nil linorder_not_le list.distinct(1), metis drop_eq_Nil Cons_nth_drop_Suc linorder_not_le list.distinct(1) list.inject,
      metis Cons_nth_drop_Suc drop_eq_Nil linorder_not_le list.distinct(1) list.inject)
  have im: "importer_at g job content c (Suc p) ?im" and step: "in_step B job ?im (db_tx d)"
    using take_line_at [OF Cons.prems(2) p(1)] Cons.prems(5) by (simp_all add: p(2) in_step_def)
  show ?case
  proof (cases "batch_full ?im")
    case False
    then show ?thesis using Cons.IH [OF p(3) im Cons.prems(3,4) step] Cons.prems(6) by simp
  next
    case True
    obtain e1 im1 d1 where c1: "commit_import B others clock job ?im d = (e1, im1, d1)" by (metis prod_cases3)
    note c = commit_at [OF job im Cons.prems(3,4) step rely c1]
    show ?thesis
    proof (cases e1)
      case None
      then have "importer_at g job content (Suc p) (Suc p) im1" "in_step B job im1 (db_tx d1)" "import_store B ok job (db_tx d1)"
        "indexed_upto B g job content (Suc p) (db_tx d1)"
        using c by (simp_all add: import_outcome_def)
      then show ?thesis using Cons.IH [OF p(3), of "Suc p" im1 d1] Cons.prems(6) True c1 None by simp
    next
      case (Some x)
      then show ?thesis using c Cons.prems(6) True c1 by (auto simp: import_outcome_def)
    qed
  qed
qed

lemma import_file_at:
  assumes job: "job_ok g job content" and rely: "import_rely B ok g job content others"
    and d: "import_store B ok job (db_tx d)" and "indexed_upto B g job content n (db_tx d)"
    and run: "import_conversation_file B others clock job content d = (e, im, d')"
  shows "import_store B ok job (db_tx d') \<and> import_outcome B g job content others (length (complete_lines content)) e d'"
  using assms(4)
proof (cases rule: indexed_cases)
  case fresh
  define s where "s = fingerprint_size job None"
  have s: "0 \<le> s" "s \<le> 4096" "s \<le> int (length content)"
    using job by (auto simp: s_def fingerprint_size_def job_ok_def)
  then obtain fp where fp: "file_fingerprint content s = Some fp" by (auto simp: file_fingerprint_def)
  let ?im = "start_importer (reset_checkpoint job fp s) None True"
  have im: "importer_at g job content 0 0 ?im"
    using s fp by (simp add: importer_at_def Let_def start_importer_def reset_checkpoint_def empty_checkpoint_def
        checkpoint_at_def lines_between_def text_bytes_def)
  have "import_lines B others clock job (drop 0 (complete_lines content)) ?im d = (e, im, d')"
    using run fresh fp by (simp add: import_conversation_file_def s_def Let_def needs_reset_def reset_checkpoint_def empty_checkpoint_def)
  then show ?thesis
    using import_lines_at [OF job rely refl im d] assms(4) fresh by (simp add: in_step_def start_importer_def)
next
  case (stored cp now z)
  note cp = stored(3) [unfolded checkpoint_at_def Let_def]
  have s: "fingerprint_size job (Some cp) = sc_fingerprint_size cp"
    using cp job by (auto simp: fingerprint_size_def job_ok_def Let_def)
  have "sc_offset cp \<le> ij_size job" using cp job text_bytes_le [of content n] by (simp add: job_ok_def)
  then have "needs_reset B job (Some cp) (sc_fingerprint cp) (db_tx d) = Inr False"
    using stored(4) job by (simp add: needs_reset_def read_index_def read_projection_def job_ok_def)
  then have "import_lines B others clock job (drop n (complete_lines content)) (start_importer cp (Some cp) False) d = (e, im, d')"
    using run stored(2) cp by (simp add: import_conversation_file_def Let_def s lines_after)
  moreover have "importer_at g job content n n (start_importer cp (Some cp) False)"
    using stored(1,3) by (simp add: importer_at_def Let_def start_importer_def lines_between_def checkpoint_at_def)
  ultimately show ?thesis
    using import_lines_at [OF job rely refl _ d assms(4)] stored(2) by (simp add: in_step_def start_importer_def)
qed

end

section \<open>The import of every item\<close>

datatype source_error = InvalidPath | InvalidSource

definition conversation_source :: "string \<Rightarrow> conversation \<Rightarrow> (source_error, string) result" where
  "conversation_source i cv =
     (let rel = path_clean (cv_locator cv)
      in if is_abs rel \<or> rel = ''.'' \<or> rel = ''..'' \<or> prefix ''../'' rel then Inl InvalidPath
         else (let source = path_join [''items'', i, rel]
           in if \<not> valid_source_key source then Inl InvalidSource else Inr source))"

text \<open>What \<open>Lstat\<close> and \<open>Open\<close> find at a path.\<close>

datatype file_stat =
    NotThere
  | StatFailed string
  | NotRegular
  | RegularFile int instant "string option"

datatype import_warning =
    SourceRefused string source_error
  | StatWarning string string
  | NotRegularWarning string
  | ImportWarning string import_error

record import_report =
  ir_seen :: int
  ir_imported :: int
  ir_scanned :: "64 word"
  ir_malformed :: "64 word"
  ir_bytes :: int
  ir_warnings :: "import_warning list"

definition add_part :: "importer \<Rightarrow> import_report \<Rightarrow> import_report" where
  "add_part im r = r\<lparr>ir_scanned := ir_scanned r + im_scanned im, ir_malformed := ir_malformed r + im_malformed im,
     ir_bytes := ir_bytes r + im_bytes im\<rparr>"

definition warn :: "import_warning \<Rightarrow> import_report \<Rightarrow> import_report" where
  "warn w r = r\<lparr>ir_warnings := ir_warnings r @ [w]\<rparr>"

definition import_manifest ::
  "('b, stored) bolt \<Rightarrow> (nat \<Rightarrow> 'b database \<Rightarrow> 'b database) \<Rightarrow> (nat \<Rightarrow> instant) \<Rightarrow> (string \<Rightarrow> file_stat)
   \<Rightarrow> (string \<Rightarrow> conversation_decoder option) \<Rightarrow> bool \<Rightarrow> manifest \<Rightarrow> import_report \<times> 'b database \<Rightarrow> import_report \<times> 'b database" where
  "import_manifest B others clock files decoders active_only m rd =
     (let (r, d) = rd; i = m_id m
      in case m_conversation m of
           None \<Rightarrow> (r, d)
         | Some cv \<Rightarrow>
             if active_only \<and> m_state m \<noteq> state_active then (r, d)
             else (case conversation_source i cv of
               Inl e \<Rightarrow> (warn (SourceRefused i e) r, d)
             | Inr source \<Rightarrow> (case files source of
                 NotThere \<Rightarrow> (r, d)
               | StatFailed e \<Rightarrow> (warn (StatWarning i e) r, d)
               | NotRegular \<Rightarrow> (warn (NotRegularWarning i) (r\<lparr>ir_seen := ir_seen r + 1\<rparr>), d)
               | RegularFile n at content \<Rightarrow>
                   (let r = r\<lparr>ir_seen := ir_seen r + 1\<rparr>;
                        job = \<lparr>ij_source = source, ij_item = i, ij_conversation = cv, ij_size = n, ij_modified = at,
                          ij_decoder = decoders (cv_driver cv)\<rparr>
                    in case content of
                         None \<Rightarrow> (warn (ImportWarning i (ImportIO ''open'')) r, d)
                       | Some text \<Rightarrow>
                           (let (e, im, d) = import_conversation_file B others clock job text d; r = add_part im r
                            in case e of
                                 None \<Rightarrow> (r\<lparr>ir_imported := ir_imported r + 1\<rparr>, d)
                               | Some e \<Rightarrow> (if e = ImportRaced then r else warn (ImportWarning i e) r, d))))))"

text \<open>\<open>importConversations\<close> over the manifests \<open>ListManifests\<close> returned.\<close>

definition import_conversations ::
  "('b, stored) bolt \<Rightarrow> (string \<Rightarrow> nat \<Rightarrow> 'b database \<Rightarrow> 'b database) \<Rightarrow> (nat \<Rightarrow> instant) \<Rightarrow> (string \<Rightarrow> file_stat)
   \<Rightarrow> (string \<Rightarrow> conversation_decoder option) \<Rightarrow> bool \<Rightarrow> manifest list \<Rightarrow> 'b database \<Rightarrow> import_report \<times> 'b database" where
  "import_conversations B others clock files decoders active_only ms d =
     fold (\<lambda>m. import_manifest B (others (m_id m)) clock files decoders active_only m)
       (stable_sort (\<lambda>a b. m_id a < m_id b) ms)
       (\<lparr>ir_seen = 0, ir_imported = 0, ir_scanned = 0, ir_malformed = 0, ir_bytes = 0, ir_warnings = []\<rparr>, d)"

section \<open>Sources stay inside the item\<close>

definition path_name :: "string \<Rightarrow> bool" where
  "path_name p \<longleftrightarrow> p \<notin> {[], ''.'', ''..''} \<and> CHR ''/'' \<notin> set p"

text \<open>Parts of a relative path: leading \<open>..\<close>, then names. The accumulator holds them last first.\<close>

fun climbs :: "string list \<Rightarrow> bool" where
  "climbs [] = True"
| "climbs (p # ps) = (if p = ''..'' then climbs ps else list_all path_name (p # ps))"

lemma climbs_names: "list_all path_name ps \<Longrightarrow> climbs ps"
  by (cases ps) (auto simp: path_name_def)

lemma climbs_snoc:
  assumes "climbs ps" and "path_name p \<or> p = ''..'' \<and> (\<forall>q\<in>set ps. q = ''..'')"
  shows "climbs (ps @ [p])"
  using assms by (induction ps) (auto simp: path_name_def)

lemma climbs_last: "climbs (ps @ [''..'']) \<Longrightarrow> \<forall>q\<in>set ps. q = ''..''"
  by (induction ps) (auto simp: path_name_def split: if_split_asm)

lemma climbs_butlast: "climbs (ps @ [q]) \<Longrightarrow> climbs ps"
  by (induction ps) (auto split: if_split_asm)

lemma clean_parts_climbs:
  "climbs (rev acc) \<Longrightarrow> list_all (\<lambda>p. CHR ''/'' \<notin> set p) ps \<Longrightarrow> climbs (clean_parts False acc ps)"
proof (induction False acc ps rule: clean_parts.induct)
  case (2 acc p ps)
  consider "p = [] \<or> p = ''.''" | "p = ''..''" "acc = []" | q qs where "p = ''..''" "acc = q # qs" "q = ''..''"
    | q qs where "p = ''..''" "acc = q # qs" "q \<noteq> ''..''" | "path_name p"
    using "2.prems"(2) by (cases acc) (auto simp: path_name_def)
  then show ?case
  proof cases
    case (3 q qs)
    then have "climbs (rev (p # acc))"
      using climbs_snoc [of "rev acc" p] climbs_last [of "rev qs"] "2.prems"(1) by auto
    then show ?thesis using "2.hyps"(4) [OF _ 3(1) 3(2,3)] 3 "2.prems"(2) by simp
  next
    case (4 q qs)
    then have "climbs (rev qs)" using climbs_butlast [of "rev qs" q] "2.prems"(1) by simp
    then show ?thesis using "2.hyps" 4 "2.prems"(2) by simp
  next
    case 5
    then have "climbs (rev (p # acc))" using climbs_snoc [of "rev acc" p] "2.prems"(1) by simp
    then show ?thesis using "2.hyps" 5 "2.prems"(2) by (auto simp: path_name_def)
  qed (use "2.hyps" "2.prems" in auto)
qed simp

lemma split_char_parts: "p \<in> set (split_char c s) \<Longrightarrow> c \<notin> set p"
  by (induction s arbitrary: p) (auto split: if_split_asm list.splits)

lemma split_join_names:
  "ps \<noteq> [] \<Longrightarrow> \<forall>p\<in>set ps. CHR ''/'' \<notin> set p \<Longrightarrow> split_char (CHR ''/'') (join_with ''/'' ps) = ps"
proof (induction ps)
  case (Cons p ps)
  then have p: "CHR ''/'' \<notin> set p" by simp
  then have "split_char (CHR ''/'') (p @ ''/'' @ r) = p # split_char (CHR ''/'') r" for r
    by (induction p) auto
  moreover from p have "split_char (CHR ''/'') p = [p]" by (induction p) auto
  ultimately show ?case using Cons by (cases ps) auto
qed simp

lemma is_abs_clean: "is_abs s \<Longrightarrow> is_abs (path_clean s)"
  by (cases s) (simp_all add: path_clean_def Let_def is_abs_def)

lemma clean_parts_keep: "list_all path_name ps \<Longrightarrow> clean_parts rooted acc ps = rev acc @ ps"
  by (induction ps arbitrary: acc) (auto simp: path_name_def)

lemma join_with_Cons: "ps \<noteq> [] \<Longrightarrow> join_with sep (p # ps) = p @ sep @ join_with sep ps"
  by (cases ps) auto

lemma relative_parts:
  assumes "rel = path_clean s" and "\<not> is_abs rel" and "rel \<noteq> ''.''" and "rel \<noteq> ''..''" and "\<not> prefix ''../'' rel"
  obtains ps where "ps \<noteq> []" "list_all path_name ps" "rel = join_with ''/'' ps"
proof -
  define ps where "ps = clean_parts False [] (split_char (CHR ''/'') s)"
  have "s \<noteq> []" "\<not> is_abs s" using assms(1-3) is_abs_clean by (auto simp: path_clean_def)
  then have rel: "rel = (if ps = [] then ''.'' else join_with ''/'' ps)"
    using assms(1) by (simp add: path_clean_def Let_def ps_def)
  then have ne: "ps \<noteq> []" using assms(3) by auto
  have climbs: "climbs ps"
    unfolding ps_def by (rule clean_parts_climbs) (auto simp: list_all_iff split_char_parts)
  obtain p qs where ps: "ps = p # qs" using ne by (cases ps) auto
  have "p \<noteq> ''..''"
    using rel ne assms(4,5) ps join_with_Cons [of qs "''/''" p] by (cases qs) (auto simp: prefix_def)
  then have "list_all path_name ps" using climbs by (simp add: ps)
  then show thesis using that [OF ne] rel ne by simp
qed

text \<open>No conversation locator reaches outside its item: whatever the manifest names, the source that is read lies
  below \<open>items/<id>/\<close>, without a step upwards, and is a valid key of the database.\<close>

theorem conversation_source_confined:
  assumes "valid_id i" and "conversation_source i cv = Inr source"
  shows "\<exists>ps. ps \<noteq> [] \<and> source = ''items/'' @ i @ ''/'' @ join_with ''/'' ps \<and> list_all path_name ps
    \<and> valid_source_key source"
proof -
  define rel where "rel = path_clean (cv_locator cv)"
  have rel: "\<not> is_abs rel" "rel \<noteq> ''.''" "rel \<noteq> ''..''" "\<not> prefix ''../'' rel"
    and source: "source = path_join [''items'', i, rel]" "valid_source_key source"
    using assms(2) by (auto simp: conversation_source_def Let_def rel_def split: if_split_asm)
  obtain ps where ps: "ps \<noteq> []" "list_all path_name ps" "rel = join_with ''/'' ps"
    by (rule relative_parts [OF rel_def rel])
  have "length i = 26" "list_all id_char i" using assms(1) by (simp_all add: valid_id_def)
  then have name: "path_name i" by (auto simp: path_name_def list_all_iff id_char_def)
  have "rel \<noteq> []" using ps by (cases ps; cases "tl ps") (auto simp: path_name_def join_with_Cons)
  have qs: "list_all path_name (''items'' # i # ps)" using ps(2) name by (simp add: path_name_def)
  have join: "join_with ''/'' [''items'', i, rel] = join_with ''/'' (''items'' # i # ps)"
    using ps(1) by (simp add: ps(3) join_with_Cons)
  have "source = path_clean (join_with ''/'' (''items'' # i # ps))"
    using source(1) name \<open>rel \<noteq> []\<close> join by (simp add: path_join_def path_name_def)
  also have "\<dots> = join_with ''/'' (''items'' # i # ps)"
    using split_join_names [of "''items'' # i # ps"] clean_parts_keep [OF qs, of False "[]"] qs
    by (simp add: path_clean_def is_abs_def list_all_iff path_name_def)
  finally show ?thesis using ps source(2) by (auto simp: join_with_Cons)
qed

section \<open>The import is correct\<close>

text \<open>C15: incremental import equals indexing the whole file. From a database that holds the index of an older version of
  an append-only conversation file (or none), an import that ends without an error leaves the index and the counts of
  all complete lines, however the lines fall into batches; if another import of the file commits meanwhile, the import
  stops and the database stays at the lines that import indexed. Undisturbed imports never stop.\<close>

theorem conversation_import_correct:
  assumes "bucket_store B ok" and "job_ok g job content" and "content = old @ extra"
    and "import_store B ok job (db_tx d)" and "indexed_upto B g job old n (db_tx d)"
    and "import_rely B ok g job content others"
    and "import_conversation_file B others clock job content d = (e, im, d')"
  shows "import_store B ok job (db_tx d')
    \<and> (if e = None then indexed_upto B g job content (length (complete_lines content)) (db_tx d')
       else e = Some ImportRaced \<and> (\<exists>m. indexed_upto B g job content m (db_tx d')))
    \<and> ((\<forall>k d. others k d = d) \<longrightarrow> e = None)"
proof -
  note es = event_store_bucket [OF assms(1)]
  have "indexed_upto B g job content n (db_tx d)" using indexed_grow [OF assms(5)] assms(3) by simp
  from event_store.import_file_at [OF es assms(2,6,4) this assms(7)]
  have "import_store B ok job (db_tx d')" "import_outcome B g job content others (length (complete_lines content)) e d'"
    by blast+
  then show ?thesis by (auto simp: import_outcome_def split: if_split_asm)
qed

section \<open>A concrete conversation\<close>

definition sample_conversation :: "string \<Rightarrow> conversation" where
  "sample_conversation locator = \<lparr>cv_driver = ''pi'', cv_executor = [], cv_id = ''c'', cv_locator = locator, cv_format = []\<rparr>"

definition sample_fact :: "64 word \<Rightarrow> string \<Rightarrow> conversation_fact" where
  "sample_fact line role = \<lparr>cf_line = line, cf_type = ''message'', cf_role = role, cf_time = 5, cf_stop_reason = [],
     cf_content_types = [], cf_terminal = (role = ''assistant''), cf_failed = False\<rparr>"

text \<open>A driver that knows two kinds of records.\<close>

definition sample_meaning :: record_meaning where
  "sample_meaning r = (if snd r = ''q'' then Some (Some (sample_fact (fst r) ''user''))
     else if snd r = ''a'' then Some (Some (sample_fact (fst r) ''assistant'')) else None)"

definition sample_job :: import_job where
  "sample_job = \<lparr>ij_source = ''a'', ij_item = m_id this_item, ij_conversation = sample_conversation ''a'', ij_size = 6,
     ij_modified = 1, ij_decoder = Some (\<lambda>cv rs. Inr (facts_of sample_meaning rs, List.map (\<lambda>r. sample_meaning r \<noteq> None) rs))\<rparr>"

definition sample_text :: string where
  "sample_text = [CHR ''q'', newline, CHR ''a'', newline, CHR ''?'', newline]"

lemma sample_lines: "complete_lines sample_text = [[CHR ''q'', newline], [CHR ''a'', newline], [CHR ''?'', newline]]"
  by (simp add: sample_text_def)

lemma sample_job_ok: "job_ok sample_meaning sample_job sample_text"
proof -
  have "m_id this_item \<noteq> []" using start_valid(1) by (auto simp: valid_id_def)
  moreover have "length sample_text = 6" by (simp add: sample_text_def)
  ultimately show ?thesis
    using sample_source_key start_valid(1)
    by (auto simp: job_ok_def sample_job_def sample_lines decodes_records_def sample_meaning_def sample_fact_def split: if_splits)
qed

lemma sample_import_store: "import_store list_bolt kv_ok sample_job start_tx"
proof -
  have "tx_ok kv_ok start_tx" using list_events.tx_ok_put(4) [OF list_tx_ok] by (simp add: start_tx_def)
  then show ?thesis by (auto simp: import_store_def sample_job_def start_tx_get read_attention_def)
qed

lemma sample_fresh: "indexed_upto list_bolt sample_meaning sample_job [] 0 start_tx"
  by (simp add: indexed_upto_def source_checkpoint_of_def sample_job_def sample_source_key start_tx_def put_projection_def
      set_projection_def new_tx_def kv_get_def)

theorem conversation_import_correct_witness:
  "\<exists>im d'. import_conversation_file list_bolt (\<lambda>_ d. d) (\<lambda>_. 7) sample_job sample_text start_db = (None, im, d')
    \<and> indexed_upto list_bolt sample_meaning sample_job sample_text 3 (db_tx d')"
proof -
  obtain e im d' where run: "import_conversation_file list_bolt (\<lambda>_ d. d) (\<lambda>_. 7) sample_job sample_text start_db = (e, im, d')"
    by (metis prod_cases3)
  have rely: "import_rely list_bolt kv_ok sample_meaning sample_job sample_text (\<lambda>_ d. d)"
    by (auto simp: import_rely_def)
  note correct = conversation_import_correct [OF list_store.bucket_store_axioms sample_job_ok append_Nil [symmetric] _ _ rely run]
  have "import_store list_bolt kv_ok sample_job (db_tx start_db)" "indexed_upto list_bolt sample_meaning sample_job [] 0 (db_tx start_db)"
    using sample_import_store sample_fresh by (simp_all add: start_db_def)
  note c = correct [OF this]
  then have e: "e = None" by simp
  from c have "indexed_upto list_bolt sample_meaning sample_job sample_text (length (complete_lines sample_text)) (db_tx d')"
    unfolding e by (simp only: simp_thms if_True)
  moreover have "length (complete_lines sample_text) = 3" by (simp add: sample_lines)
  ultimately show ?thesis using run unfolding e by auto
qed

theorem conversation_source_confined_witness:
  "\<exists>ps. ps \<noteq> [] \<and> ''items/'' @ m_id this_item @ ''/s/c'' = ''items/'' @ m_id this_item @ ''/'' @ join_with ''/'' ps
    \<and> list_all path_name ps \<and> valid_source_key (''items/'' @ m_id this_item @ ''/s/c'')"
proof -
  have "conversation_source (m_id this_item) (sample_conversation ''s/../s//c'') = Inr (''items/'' @ m_id this_item @ ''/s/c'')"
    by (simp add: conversation_source_def sample_conversation_def path_clean_def path_join_def is_abs_def Let_def
        valid_source_key_def sample_fields)
  from conversation_source_confined [OF start_valid(1) this] show ?thesis .
qed

end
