(* ===== verification/Observer.thy ===== *)
theory Observer
  imports Runtime Conversations
begin

text \<open>
  The external observer (\<open>internal/coordinator/external_observer.go\<close>): what is shown of an active item, folded from the
  runtime that owns it, its indexed conversation, its live activity, its attention record and what was seen outside the
  daemon (processes, tmux panes, sockets, Git). What was seen is an argument; the folding, the classification and the
  reconciliation of all observations are the code's.
\<close>

section \<open>What was seen outside\<close>

record process_info =
  ps_pid :: int
  ps_state :: string
  ps_group :: int
  ps_start_time :: "64 word"
  ps_legacy_start_time :: "64 word"

record pane_info =
  pi_session :: string
  pi_window :: string
  pi_id :: string
  pi_index :: string
  pi_pid :: int
  pi_command :: string
  pi_path :: string

record inspected_worktree =
  iw_path :: string
  iw_branch :: string
  iw_worktree :: "projected_worktree option"

text \<open>An \<open>Inspection\<close>, with the clock and the probes of the moment it is applied: \<open>se_process\<close> looks a process up in the
  table that was read, \<open>se_live_process\<close> at once; \<open>se_backend\<close> is \<open>FindDescendant\<close> for the agent's commands;
  \<open>se_reachable\<close> tells whether the control socket of a runtime answers.\<close>

record sight =
  se_at :: instant
  se_now :: instant
  se_panes :: "string \<Rightarrow> pane_info list"
  se_process :: "int \<Rightarrow> process_info option"
  se_live_process :: "int \<Rightarrow> process_info option"
  se_backend :: "int \<Rightarrow> int option"
  se_checkouts :: "string \<Rightarrow> inspected_worktree option"
  se_socket_root :: string
  se_reachable :: "string \<Rightarrow> string \<Rightarrow> bool"

definition started_as :: "process_info \<Rightarrow> 64 word \<Rightarrow> bool" where
  "started_as p start \<longleftrightarrow> start \<noteq> 0 \<and> (ps_start_time p = start \<or> ps_legacy_start_time p = start)"

section \<open>Actionability\<close>

abbreviation agent_start_grace :: int where "agent_start_grace \<equiv> 30000000000"

definition starting_runtime :: "instant \<Rightarrow> agent_runtime \<Rightarrow> bool \<Rightarrow> bool" where
  "starting_runtime now owner online \<longleftrightarrow>
     (if ar_state owner \<noteq> ''starting'' \<and> ar_state owner \<noteq> ''running'' then False
      else online \<or> now - ar_updated_at owner < agent_start_grace)"

definition control_unavailable :: "sight \<Rightarrow> string \<Rightarrow> agent_runtime \<Rightarrow> bool" where
  "control_unavailable s i owner \<longleftrightarrow>
     (if se_socket_root s = [] \<or> \<not> rc_prompt (ar_capabilities owner) \<and> \<not> rc_cancel (ar_capabilities owner) then False
      else \<not> se_reachable s i (ar_id owner))"

abbreviation live_source :: string where "live_source \<equiv> ''daemon.runtime.live''"

definition not_before :: "instant \<Rightarrow> instant option \<Rightarrow> bool" where
  "not_before at x \<longleftrightarrow> (case x of None \<Rightarrow> True | Some y \<Rightarrow> \<not> at < y)"

text \<open>The readiness the owner reported is not older than the last request (and the last completion).\<close>

definition readiness_since :: "agent_runtime \<Rightarrow> instant option \<Rightarrow> bool" where
  "readiness_since owner x \<longleftrightarrow> (case ar_readiness_at owner of None \<Rightarrow> False | Some at \<Rightarrow> not_before at x)"

text \<open>What a case of the switch assigns: the status with its reason, the turn state if it is set, whether the last activity
  becomes the last live event, and whether the loop state is withdrawn.\<close>

record verdict =
  vd_status :: string
  vd_reason :: string
  vd_turn :: "string option"
  vd_seen :: bool
  vd_withdrawn :: bool

abbreviation verdict :: "string \<Rightarrow> string \<Rightarrow> string option \<Rightarrow> verdict" where
  "verdict status reason turn \<equiv> \<lparr>vd_status = status, vd_reason = reason, vd_turn = turn, vd_seen = False, vd_withdrawn = False\<rparr>"

abbreviation seen_verdict :: "string \<Rightarrow> string \<Rightarrow> string option \<Rightarrow> verdict" where
  "seen_verdict status reason turn \<equiv> \<lparr>vd_status = status, vd_reason = reason, vd_turn = turn, vd_seen = True, vd_withdrawn = False\<rparr>"

definition assign :: "verdict \<Rightarrow> instant option \<Rightarrow> agent_observation \<Rightarrow> agent_observation" where
  "assign v at ob = ob\<lparr>ob_status := vd_status v, ob_reason := vd_reason v,
     ob_turn_state := (case vd_turn v of None \<Rightarrow> ob_turn_state ob | Some turn \<Rightarrow> turn),
     ob_last_activity_at := (if vd_seen v then at else ob_last_activity_at ob),
     ob_agent_state := (if vd_withdrawn v then [] else ob_agent_state ob)\<rparr>"

text \<open>The live facts are as recent as the conversation's last turn activity.\<close>

definition live_current :: "runtime_activity \<Rightarrow> conversation_index option \<Rightarrow> bool" where
  "live_current live conv \<longleftrightarrow> ra_source live = live_source \<and> (case ra_last_event_at live of None \<Rightarrow> False
     | Some at \<Rightarrow> (case conv of None \<Rightarrow> True | Some x \<Rightarrow> (case ci_last_activity x of None \<Rightarrow> True | Some f \<Rightarrow> \<not> at < cf_time f)))"

definition failed_live :: "runtime_activity \<Rightarrow> string" where
  "failed_live live =
     (if ra_leaf live \<noteq> [] then ''native agent reports failure on its selected branch''
      else if runtime_reason_text (ra_failure_reason live) \<noteq> [] then runtime_reason_text (ra_failure_reason live)
      else ''live agent loop settled with a failure'')"

text \<open>The cases of the switch that rest on the live activity of the owning runtime; \<open>None\<close> when none of them applies.\<close>

definition live_verdict ::
  "bool \<Rightarrow> bool \<Rightarrow> conversation_index option \<Rightarrow> agent_runtime \<Rightarrow> runtime_activity \<Rightarrow> verdict option" where
  "live_verdict online unreachable conv owner live =
     (let reported = (ra_source live = live_source); active = (reported \<and> ra_agent_state live = ''active'');
          current = live_current live conv; readiness = ar_readiness owner; reason = ar_readiness_reason owner
      in if ra_runtime_state live = ''problem''
         then Some (verdict ''problem'' ''live runtime event reports a failure'' None)
         else if reported \<and> online \<and> input_blocked readiness reason \<and> readiness_since owner (ra_last_requested_at live)
             \<and> readiness_since owner (ra_last_completed_at live)
         then Some (verdict ''problem'' (runtime_reason_text reason) None)
         else if active \<and> online \<and> awaiting_answer readiness reason \<and> readiness_since owner (ra_last_requested_at live)
         then Some (verdict ''idle'' (runtime_reason_text reason) (Some ''incomplete''))
         else if active \<and> \<not> online
         then Some (verdict ''problem'' ''live agent loop was active but runtime ownership is offline'' None)
         else if active \<and> online \<and> unreachable
         then Some ((verdict ''problem'' ''runtime control channel is unavailable; live agent activity cannot be confirmed'' None)
           \<lparr>vd_withdrawn := True\<rparr>)
         else if active \<and> online
         then Some (seen_verdict ''busy'' ''live agent loop is active'' (Some ''incomplete''))
         else if current \<and> ra_agent_state live = ''failed''
         then Some (verdict ''problem'' (failed_live live) (Some ''failed''))
         else if current \<and> ra_agent_state live = ''idle''
         then Some (seen_verdict ''idle'' ''native agent reports idle on its selected branch'' (Some ''idle''))
         else if current \<and> ra_agent_state live = ''settled''
         then Some (seen_verdict ''idle'' ''live agent loop reports settled work'' (Some ''idle''))
         else if current \<and> ra_turn_state live = ''busy'' \<and> online
         then Some (seen_verdict ''busy'' ''live runtime event reports active work'' (Some ''incomplete''))
         else if current \<and> ra_turn_state live = ''idle'' \<and> (case conv of None \<Rightarrow> True | Some x \<Rightarrow> ci_turn_state x \<noteq> ''failed'')
         then Some (seen_verdict ''idle'' ''live runtime event reports settled work'' (Some ''idle''))
         else None)"

text \<open>The other cases: what the indexed conversation says, or that there is none.\<close>

definition recorded_verdict ::
  "bool \<Rightarrow> instant \<Rightarrow> conversation_index option \<Rightarrow> agent_runtime option \<Rightarrow> verdict" where
  "recorded_verdict online now conv owner = (case conv of
     None \<Rightarrow>
       (if (case owner of None \<Rightarrow> False | Some r \<Rightarrow> starting_runtime now r online)
        then verdict ''busy'' ''agent is starting'' (Some ''incomplete'')
        else if (case owner of None \<Rightarrow> True | Some r \<Rightarrow> ar_state r = ''stopped'')
        then verdict ''idle'' ''agent has not started; send it a message to start it'' None
        else verdict ''problem'' ''daemon has not indexed the conversation'' None)
   | Some x \<Rightarrow>
       (if ci_turn_state x = ''failed'' then
          verdict ''problem'' (case ci_last_terminal x of
              Some f \<Rightarrow> if cf_stop_reason f = ''usage_limit'' then runtime_reason_text (cf_stop_reason f)
                       else ''latest terminal assistant message failed''
            | None \<Rightarrow> ''latest terminal assistant message failed'') None
        else if ci_turn_state x = ''idle'' then verdict ''idle'' ''latest assistant answer is terminal'' None
        else if online
        then verdict ''busy'' ''latest conversation activity is incomplete and runtime ownership is online'' None
        else verdict ''problem'' ''latest conversation activity is incomplete and runtime ownership is offline'' None))"

text \<open>The live activity of the runtime that owns the item under its current claim.\<close>

definition owner_live ::
  "agent_runtime option \<Rightarrow> runtime_activity option \<Rightarrow> bool \<Rightarrow> (agent_runtime \<times> runtime_activity) option" where
  "owner_live owner live current = (case (owner, live) of
     (Some r, Some a) \<Rightarrow> if current \<and> ra_runtime a = ar_id r then Some (r, a) else None
   | _ \<Rightarrow> None)"

definition live_times :: "runtime_activity \<Rightarrow> attention_activity \<Rightarrow> attention_activity" where
  "live_times live a = a\<lparr>aa_requested_at := later_time (aa_requested_at a) (ra_last_requested_at live),
     aa_completed_at := later_time (aa_completed_at a) (ra_last_completed_at live)\<rparr>"

definition merged_live :: "runtime_activity \<Rightarrow> agent_observation \<Rightarrow> agent_observation" where
  "merged_live live ob = ob\<lparr>ob_activity := live_times live (ob_activity ob)\<rparr>"

text \<open>The fold of the live facts: the second half of \<open>applyActionability\<close>.\<close>

definition fold_live ::
  "sight \<Rightarrow> string \<Rightarrow> agent_runtime option \<Rightarrow> conversation_index option \<Rightarrow> runtime_activity option \<Rightarrow> bool
   \<Rightarrow> agent_observation \<Rightarrow> agent_observation" where
  "fold_live s i owner conv live current ob0 =
     (let ob = (case live of Some a \<Rightarrow> if current then merged_live a ob0 else ob0 | None \<Rightarrow> ob0);
          ob = ob\<lparr>ob_agent_state := []\<rparr>;
          told = recorded_verdict (ob_online ob) (se_now s) conv owner
      in case owner_live owner live current of
           None \<Rightarrow> assign told None ob
         | Some (r, a) \<Rightarrow>
             (let ob = (if ra_source a = live_source then ob\<lparr>ob_agent_state := ra_agent_state a\<rparr> else ob)
              in case live_verdict (ob_online ob) (control_unavailable s i r) conv r a of
                   Some v \<Rightarrow> assign v (ra_last_event_at a) ob
                 | None \<Rightarrow> assign told None ob))"

definition claim_is_current :: "agent_runtime \<Rightarrow> manifest \<Rightarrow> bool" where
  "claim_is_current owner m \<longleftrightarrow> (case co_claim (m_checkout m) of None \<Rightarrow> False
     | Some cl \<Rightarrow> wc_id cl = ar_claim_id owner \<and> wc_generation cl = ar_claim_generation owner)"

definition conversation_facts :: "conversation_index \<Rightarrow> agent_observation \<Rightarrow> agent_observation" where
  "conversation_facts x ob =
     (let ob = ob\<lparr>ob_turn_state := ci_turn_state x\<rparr>
      in case ci_last_activity x of None \<Rightarrow> ob
         | Some f \<Rightarrow> if is_zero_time (cf_time f) then ob else ob\<lparr>ob_last_activity_at := Some (cf_time f)\<rparr>)"

definition conversed :: "conversation_index option \<Rightarrow> agent_observation \<Rightarrow> agent_observation" where
  "conversed conv ob = (case conv of None \<Rightarrow> ob | Some x \<Rightarrow> conversation_facts x ob)"

text \<open>The attention record with the later of its times and of those the observation had.\<close>

definition later_times :: "attention_activity \<Rightarrow> attention_activity \<Rightarrow> attention_activity" where
  "later_times a old = a\<lparr>aa_requested_at := later_time (aa_requested_at a) (aa_requested_at old),
     aa_completed_at := later_time (aa_completed_at a) (aa_completed_at old),
     aa_deferred_at := later_time (aa_deferred_at a) (aa_deferred_at old)\<rparr>"

definition attended :: "string \<Rightarrow> attention_activity option \<Rightarrow> agent_observation \<Rightarrow> agent_observation" where
  "attended i attention ob = ob\<lparr>ob_activity :=
     later_times (case attention of None \<Rightarrow> empty_attention i | Some a \<Rightarrow> a) (ob_activity ob)\<rparr>"

text \<open>A projection decoded into the reader's type.\<close>

definition decoded_projection ::
  "('b, stored) bolt \<Rightarrow> (stored \<Rightarrow> 'a option) \<Rightarrow> string \<Rightarrow> string \<Rightarrow> 'b tx_state \<Rightarrow> (coord_error, 'a option) result" where
  "decoded_projection B decode name i t = rbind (read_projection B name i t) (\<lambda>v. case v of
     None \<Rightarrow> Inr None
   | Some x \<Rightarrow> (case decode x of None \<Rightarrow> Inl Undecodable | Some a \<Rightarrow> Inr (Some a)))"

text \<open>\<open>applyActionability\<close>: an error leaves the observation as far as it got.\<close>

definition apply_actionability ::
  "('b, stored) bolt \<Rightarrow> (repository \<Rightarrow> (coord_error, repository) result) \<Rightarrow> sight \<Rightarrow> string \<Rightarrow> 'b tx_state
   \<Rightarrow> agent_observation \<Rightarrow> coord_error option \<times> agent_observation" where
  "apply_actionability B locate s i t ob =
     (case decoded_projection B as_runtime runtime_ownership_projection i t of
        Inl e \<Rightarrow> (Some e, ob)
      | Inr owner \<Rightarrow>
     (let ob = ob\<lparr>ob_runtime := owner\<rparr> in
      case decoded_projection B as_conversation conversation_projection i t of
        Inl e \<Rightarrow> (Some e, ob)
      | Inr conv \<Rightarrow>
     (case decoded_projection B as_attention attention_projection i t of
        Inl e \<Rightarrow> (Some e, ob)
      | Inr attention \<Rightarrow>
     (let ob = conversed conv (attended i attention ob)
      in case decoded_projection B as_activity runtime_activity_projection i t of
        Inl e \<Rightarrow> (Some e, ob)
      | Inr live \<Rightarrow>
     (case owner of
        None \<Rightarrow> (None, fold_live s i owner conv live True ob)
      | Some r \<Rightarrow>
          if ar_claim_id r = [] then (None, fold_live s i owner conv live True ob)
          else (case canonical_manifest B locate i t of
             Inl e \<Rightarrow> (Some e, ob)
           | Inr (m, _) \<Rightarrow>
               (let current = claim_is_current r m
                in if ob_online ob \<and> \<not> current
                   then (None, assign (verdict ''problem'' ''active agent runtime belongs to a superseded workspace claim'' None) None ob)
                   else (None, fold_live s i owner conv live current ob))))))))"

section \<open>Observing an item\<close>

definition as_terminal :: "stored \<Rightarrow> terminal_runtime option" where
  "as_terminal v = (case v of StTerminal r \<Rightarrow> Some r | _ \<Rightarrow> None)"

definition host_process :: "sight \<Rightarrow> agent_runtime \<Rightarrow> process_info option" where
  "host_process s r = (case se_process s (ar_host_pid r) of
     Some p \<Rightarrow> Some p
   | None \<Rightarrow> if ar_updated_at r > se_at s then se_live_process s (ar_host_pid r) else None)"

text \<open>The process that hosts the runtime is alive and is the recorded one, not a later process under its number.\<close>

definition host_online :: "sight \<Rightarrow> agent_runtime \<Rightarrow> bool" where
  "host_online s r \<longleftrightarrow> ar_host_pid r > 0 \<and> ar_host_start_time r > 0 \<and> (case host_process s r of
     None \<Rightarrow> False
   | Some p \<Rightarrow> ps_state p \<noteq> ''Z'' \<and> started_as p (ar_host_start_time r)
       \<and> (ar_host_process_group r = 0 \<or> ps_group p = ar_host_process_group r))"

definition agent_window :: "terminal_runtime option \<Rightarrow> string" where
  "agent_window terminal = (case terminal of
     Some x \<Rightarrow> if trim_space (tr_window x) \<noteq> [] then tr_window x else ''agent''
   | None \<Rightarrow> ''agent'')"

text \<open>The first usable pane of the agent's window.\<close>

definition observe_pane :: "sight \<Rightarrow> string \<Rightarrow> pane_info list \<Rightarrow> agent_observation \<Rightarrow> agent_observation" where
  "observe_pane s window panes ob =
     (case find (\<lambda>p. \<not> (pi_window p \<noteq> window \<or> pi_pid p \<le> 0)) panes of
        None \<Rightarrow> ob
      | Some p \<Rightarrow>
          (let ob = ob\<lparr>ob_process := (ob_process ob)\<lparr>pp_tmux_session := pi_session p, pp_tmux_window := pi_window p,
                 pp_pane_id := pi_id p, pp_pane_index := pi_index p, pp_pane_pid := pi_pid p, pp_pane_command := pi_command p\<rparr>\<rparr>
           in case se_backend s (pi_pid p) of
                None \<Rightarrow> ob
              | Some pid \<Rightarrow> ob\<lparr>ob_online := True,
                  ob_process := (ob_process ob)\<lparr>pp_backend_pid := pid, pp_source := ''tmux''\<rparr>\<rparr>))"

definition runtime_process :: "string \<Rightarrow> agent_runtime \<Rightarrow> projected_process \<Rightarrow> projected_process" where
  "runtime_process session r p =
     (let p = p\<lparr>pp_runtime := ar_id r, pp_mode := ar_mode r, pp_host_pid := ar_host_pid r\<rparr>
      in if ar_mode r = ''tui'' then p\<lparr>pp_tmux_session := session, pp_tmux_window := ''agent''\<rparr> else p)"

definition checkout_key :: "manifest \<Rightarrow> string \<times> string" where
  "checkout_key m =
     (if present (m_checkout m) then (case co_claim (m_checkout m) of None \<Rightarrow> [] | Some cl \<Rightarrow> wc_path cl) else [],
      cs_branch (co_specification (m_checkout m)))"

text \<open>The observation an item had; \<open>None\<close> also when it cannot be decoded.\<close>

definition previous_observation :: "('b, stored) bolt \<Rightarrow> string \<Rightarrow> 'b tx_state \<Rightarrow> agent_observation option" where
  "previous_observation B i t = (case decoded_projection B as_observation observation_projection i t of
     Inl e \<Rightarrow> None | Inr x \<Rightarrow> x)"

definition observe_worktree_of ::
  "('b, stored) bolt \<Rightarrow> sight \<Rightarrow> manifest \<Rightarrow> 'b tx_state \<Rightarrow> agent_observation \<Rightarrow> agent_observation" where
  "observe_worktree_of B s m t ob =
     (let kept = (case previous_observation B (m_id m) t of
            None \<Rightarrow> ob | Some p \<Rightarrow> ob\<lparr>ob_worktree := ob_worktree p, ob_worktree_at := ob_worktree_at p\<rparr>)
      in case se_checkouts s (m_id m) of
           None \<Rightarrow> kept
         | Some w \<Rightarrow> if (iw_path w, iw_branch w) = checkout_key m
             then ob\<lparr>ob_worktree := iw_worktree w, ob_worktree_at := se_at s\<rparr> else kept)"

definition warned :: "string \<Rightarrow> agent_observation \<Rightarrow> agent_observation" where
  "warned w ob = ob\<lparr>ob_warnings := ob_warnings ob @ [w]\<rparr>"

definition new_observation :: "instant \<Rightarrow> string \<Rightarrow> agent_observation" where
  "new_observation now i = (zero_observation i)\<lparr>ob_status := ''problem'', ob_observed_at := now\<rparr>"

text \<open>\<open>observe\<close>; \<open>text_of\<close> is the text of an error with the context the code wraps it in.\<close>

definition observe ::
  "('b, stored) bolt \<Rightarrow> (repository \<Rightarrow> (coord_error, repository) result) \<Rightarrow> (coord_error \<Rightarrow> string) \<Rightarrow> sight
   \<Rightarrow> manifest \<Rightarrow> 'b tx_state \<Rightarrow> agent_observation" where
  "observe B locate text_of s m t =
     (let i = m_id m; ob = new_observation (se_now s) i; session = terminal_session_name i;
          (runtime, ob) = (case decoded_projection B as_runtime runtime_ownership_projection i t of
              Inl e \<Rightarrow> (None, warned (''read runtime state: '' @ text_of e) ob)
            | Inr r \<Rightarrow> (r, ob\<lparr>ob_runtime := r\<rparr>));
          (terminal, ob) = (case decoded_projection B as_terminal terminal_ownership_projection i t of
              Inl e \<Rightarrow> (None, warned (''read terminal state: '' @ text_of e) ob)
            | Inr r \<Rightarrow> (r, ob\<lparr>ob_terminal := r\<rparr>));
          ob = (case runtime of None \<Rightarrow> ob
            | Some r \<Rightarrow> (let ob = ob\<lparr>ob_process := runtime_process session r (ob_process ob)\<rparr>
                in if host_online s r then ob\<lparr>ob_online := True, ob_process := (ob_process ob)\<lparr>pp_source := ''runtime''\<rparr>\<rparr> else ob));
          ob = (if ob_online ob then ob else observe_pane s (agent_window terminal) (se_panes s session) ob);
          (e, ob) = apply_actionability B locate s i t ob;
          ob = (case e of None \<Rightarrow> ob | Some e \<Rightarrow> warned (text_of e) ob)
      in observe_worktree_of B s m t ob)"

section \<open>Reconciliation\<close>

definition zero_worktree :: projected_worktree where
  "zero_worktree = \<lparr>pw_status = [], pw_reason = [], pw_checkout_path = [], pw_head = [], pw_expected_branch = [],
     pw_current_branch = [], pw_branch_matches = False, pw_branch_mismatch = False, pw_dirty = False, pw_has_changes = False\<rparr>"

text \<open>What readers show of an observation, without its times.\<close>

definition observation_shown :: "agent_observation \<Rightarrow> string \<times> string \<times> string \<times> bool \<times> projected_worktree" where
  "observation_shown ob = (ob_status ob, ob_reason ob, ob_turn_state ob, ob_online ob,
     (case ob_worktree ob of None \<Rightarrow> zero_worktree | Some w \<Rightarrow> w))"

fun resolve_all :: "(repository \<Rightarrow> (coord_error, repository) result) \<Rightarrow> manifest list \<Rightarrow> (coord_error, manifest list) result" where
  "resolve_all locate [] = Inr []"
| "resolve_all locate (m # ms) = rbind (locate (m_repository m)) (\<lambda>r.
     rbind (resolve_all locate ms) (\<lambda>ms. Inr (m\<lparr>m_repository := r\<rparr> # ms)))"

text \<open>All manifests are decoded before their repositories are located; where both fail, which of the two errors is
  reported is all that differs.\<close>

definition list_manifests ::
  "('b, stored) bolt \<Rightarrow> (repository \<Rightarrow> (coord_error, repository) result) \<Rightarrow> 'b tx_state \<Rightarrow> (coord_error, manifest list) result" where
  "list_manifests B locate t = rbind (manifests_of B t) (resolve_all locate)"

definition observation_update :: "string \<Rightarrow> agent_observation \<Rightarrow> projection_update" where
  "observation_update i ob = \<lparr>pu_projection = observation_projection, pu_key = i, pu_value = StObservation ob, pu_delete = False\<rparr>"

definition shown_anew :: "agent_observation option \<Rightarrow> agent_observation \<Rightarrow> bool" where
  "shown_anew previous ob \<longleftrightarrow> (case previous of None \<Rightarrow> True | Some p \<Rightarrow> observation_shown p \<noteq> observation_shown ob)"

text \<open>The updates of a pass with the items that are shown anew, from the observation of each active item.\<close>

fun observe_all ::
  "(manifest \<Rightarrow> (coord_error, agent_observation) result) \<Rightarrow> (string \<Rightarrow> agent_observation option) \<Rightarrow> manifest list
   \<Rightarrow> (coord_error, projection_update list \<times> string list) result" where
  "observe_all f previous [] = Inr ([], [])"
| "observe_all f previous (m # ms) =
     (if m_state m \<noteq> state_active then observe_all f previous ms
      else rbind (f m) (\<lambda>ob. rbind (observe_all f previous ms) (\<lambda>(us, ids).
        Inr (observation_update (m_id m) ob # us,
             (if shown_anew (previous (m_id m)) ob then m_id m # ids else ids)))))"

definition apply_observations ::
  "('b, stored) bolt \<Rightarrow> projection_update list \<times> string list \<Rightarrow> 'b database \<Rightarrow> (coord_error, 'b database) result" where
  "apply_observations B out d = rbind (update_projections B (fst out) d)
     (\<lambda>d. Inr (d\<lparr>db_changes := record_changes (snd out) (db_changes d)\<rparr>))"

definition reconcile_with ::
  "('b, stored) bolt \<Rightarrow> (repository \<Rightarrow> (coord_error, repository) result) \<Rightarrow> (coord_error \<Rightarrow> string) \<Rightarrow> sight
   \<Rightarrow> 'b database \<Rightarrow> (coord_error, 'b database) result" where
  "reconcile_with B locate text_of s d =
     rbind (list_manifests B locate (db_tx d)) (\<lambda>ms.
     rbind (observe_all (\<lambda>m. Inr (observe B locate text_of s m (db_tx d)))
         (\<lambda>i. previous_observation B i (db_tx d)) ms)
       (\<lambda>out. apply_observations B out d))"

definition reconciled ::
  "('b, stored) bolt \<Rightarrow> (repository \<Rightarrow> (coord_error, repository) result) \<Rightarrow> sight \<Rightarrow> 'b tx_state \<Rightarrow> string
   \<Rightarrow> (coord_error, agent_observation) result" where
  "reconciled B locate s t i =
     (let ob = (case previous_observation B i t of None \<Rightarrow> new_observation (se_now s) i | Some ob \<Rightarrow> ob)
      in case apply_actionability B locate s i t ob of (Some e, _) \<Rightarrow> Inl e | (None, ob) \<Rightarrow> Inr ob)"

definition reconcile_actionability ::
  "('b, stored) bolt \<Rightarrow> (repository \<Rightarrow> (coord_error, repository) result) \<Rightarrow> sight \<Rightarrow> 'b database
   \<Rightarrow> (coord_error, 'b database) result" where
  "reconcile_actionability B locate s d =
     rbind (list_manifests B locate (db_tx d)) (\<lambda>ms.
     rbind (observe_all (\<lambda>m. reconciled B locate s (db_tx d) (m_id m)) (\<lambda>i. previous_observation B i (db_tx d)) ms)
       (\<lambda>out. apply_observations B out d))"

section \<open>Worktrees\<close>

text \<open>What Git says of a checkout, and the record of its setup (its claim, its status, its error).\<close>

datatype checkout_sight =
    PathGone string
  | GitFailed string
  | Snapshot string string string "(string \<times> string \<times> string) option"

definition classify_worktree :: "manifest \<Rightarrow> string \<Rightarrow> string \<Rightarrow> projected_worktree \<Rightarrow> projected_worktree" where
  "classify_worktree m expected status w =
     (let branch = pw_current_branch w; head = pw_head w; base = created_from_commit (m_repository m);
          mismatch = (expected \<noteq> [] \<and> branch \<noteq> expected); dirty = (trim_space status \<noteq> []);
          moved = (head \<noteq> [] \<and> base \<noteq> [] \<and> head \<noteq> base);
          w = w\<lparr>pw_branch_matches := (expected \<noteq> [] \<and> branch = expected), pw_branch_mismatch := mismatch, pw_dirty := dirty,
            pw_has_changes := (mismatch \<or> dirty \<or> moved)\<rparr>
      in if mismatch then w\<lparr>pw_status := ''changed'',
           pw_reason := ''checkout branch '' @ branch @ '' differs from expected '' @ expected\<rparr>
         else if dirty then w\<lparr>pw_status := ''changed'', pw_reason := ''checkout has uncommitted changes''\<rparr>
         else if moved then w\<lparr>pw_status := ''changed'', pw_reason := ''checkout HEAD differs from the item'' @ [CHR 0x27] @ ''s created-from commit''\<rparr>
         else w\<lparr>pw_status := ''clean'',
           pw_reason := (if expected \<noteq> [] then ''checkout matches the expected branch and created-from commit''
             else ''checkout matches the created-from commit'')\<rparr>)"

definition observe_worktree :: "manifest \<Rightarrow> checkout_sight \<Rightarrow> projected_worktree" where
  "observe_worktree m seen =
     (let expected = trim_space (cs_branch (co_specification (m_checkout m)));
          w = zero_worktree\<lparr>pw_status := ''absent'', pw_reason := ''checkout is absent'', pw_expected_branch := expected\<rparr>
      in case co_claim (m_checkout m) of
           None \<Rightarrow> w
         | Some cl \<Rightarrow>
             if \<not> present (m_checkout m) \<or> trim_space (wc_path cl) = [] then w
             else (let w = w\<lparr>pw_checkout_path := wc_path cl\<rparr> in case seen of
               PathGone e \<Rightarrow> w\<lparr>pw_status := ''problem'', pw_reason := ''checkout path is unavailable: '' @ e\<rparr>
             | GitFailed e \<Rightarrow> w\<lparr>pw_status := ''problem'', pw_reason := ''could not inspect checkout: '' @ e\<rparr>
             | Snapshot head branch status setup \<Rightarrow>
                 (let w = w\<lparr>pw_head := head, pw_current_branch := branch\<rparr>
                  in case setup of
                       Some (claim, st, err) \<Rightarrow>
                         if claim = wc_id cl \<and> st = ''failed''
                         then w\<lparr>pw_status := ''problem'', pw_reason := ''workspace setup failed: '' @ err\<rparr>
                         else classify_worktree m expected status w
                     | None \<Rightarrow> classify_worktree m expected status w)))"

section \<open>Classification\<close>

definition classified :: "string \<Rightarrow> bool" where
  "classified status \<longleftrightarrow> status = ''busy'' \<or> status = ''idle'' \<or> status = ''problem''"

lemma live_verdict_classified: "live_verdict online u conv owner live = Some v \<Longrightarrow> classified (vd_status v)"
  by (auto simp: live_verdict_def Let_def classified_def split: if_split_asm)

lemma recorded_verdict_classified: "classified (vd_status (recorded_verdict online now conv owner))"
  by (simp add: recorded_verdict_def classified_def split: option.split)

lemma assign_fields [simp]:
  "ob_status (assign v at ob) = vd_status v" "ob_online (assign v at ob) = ob_online ob"
  "ob_worktree (assign v at ob) = ob_worktree ob" "ob_activity (assign v at ob) = ob_activity ob"
  "ob_item (assign v at ob) = ob_item ob"
  by (simp_all add: assign_def)

section \<open>A pass without news changes nothing\<close>

lemma later_time_absorb:
  "later_time x (later_time (later_time x y) z) = later_time (later_time x y) z"
  "later_time x (later_time x y) = later_time x y"
  "later_time (later_time x z) z = later_time x z"
  by (cases x; cases y; cases z; simp add: max_def)+

lemma times_again:
  "later_times a (later_times a x) = later_times a x"
  "live_times l (later_times a (live_times l (later_times a x))) = live_times l (later_times a x)"
  by (simp_all add: later_times_def live_times_def later_time_absorb)

lemma conversation_facts_again:
  "conversation_facts x ob = ob\<lparr>ob_turn_state := ci_turn_state x, ob_last_activity_at := (case ci_last_activity x of
     None \<Rightarrow> ob_last_activity_at ob | Some f \<Rightarrow> if is_zero_time (cf_time f) then ob_last_activity_at ob else Some (cf_time f))\<rparr>"
  by (simp add: conversation_facts_def split: option.split)

lemma conversation_facts_fields [simp]:
  "ob_online (conversation_facts x ob) = ob_online ob" "ob_worktree (conversation_facts x ob) = ob_worktree ob"
  by (simp_all add: conversation_facts_again)

text \<open>What the fold is given: the observation with what the projections say of it.\<close>

definition prepared ::
  "string \<Rightarrow> agent_runtime option \<Rightarrow> conversation_index option \<Rightarrow> attention_activity option \<Rightarrow> agent_observation \<Rightarrow> agent_observation" where
  "prepared i owner conv attention ob = conversed conv (attended i attention (ob\<lparr>ob_runtime := owner\<rparr>))"

lemma prepared_fields [simp]:
  "ob_online (prepared i owner conv attention ob) = ob_online ob"
  "ob_worktree (prepared i owner conv attention ob) = ob_worktree ob"
  by (cases conv; simp add: prepared_def conversed_def attended_def)+

text \<open>What a fold assigns, on top of the live times and the loop state.\<close>

definition outcome :: "verdict \<Rightarrow> instant option \<Rightarrow> runtime_activity option \<Rightarrow> string \<Rightarrow> agent_observation \<Rightarrow> agent_observation" where
  "outcome v at live loop ob = assign v at ((case live of None \<Rightarrow> ob | Some a \<Rightarrow> merged_live a ob)\<lparr>ob_agent_state := loop\<rparr>)"

text \<open>A field that is kept or set to a value.\<close>

definition kept_or_set :: "('a \<Rightarrow> 'a) \<Rightarrow> bool" where
  "kept_or_set f \<longleftrightarrow> f = id \<or> (\<exists>c. f = (\<lambda>_. c))"

lemma kept_or_set_again: "kept_or_set f \<Longrightarrow> kept_or_set g \<Longrightarrow> f (g (f (g x))) = f (g x)"
  by (auto simp: kept_or_set_def)

lemma kept_or_set_intros: "kept_or_set (\<lambda>x. x)" "kept_or_set (\<lambda>x. c)"
  by (auto simp: kept_or_set_def)

lemma prepared_form:
  obtains f g where "kept_or_set f" "kept_or_set g"
    "\<And>ob. prepared i owner conv attention ob = ob\<lparr>ob_runtime := owner,
       ob_activity := later_times (case attention of None \<Rightarrow> empty_attention i | Some a \<Rightarrow> a) (ob_activity ob),
       ob_turn_state := f (ob_turn_state ob), ob_last_activity_at := g (ob_last_activity_at ob)\<rparr>"
proof (cases conv)
  case None
  then show thesis
    by (intro that [of "\<lambda>x. x" "\<lambda>x. x"]) (simp_all add: kept_or_set_intros prepared_def conversed_def attended_def)
next
  case (Some x)
  define seen where "seen = (case ci_last_activity x of None \<Rightarrow> None | Some f \<Rightarrow> if is_zero_time (cf_time f) then None else Some (cf_time f))"
  have facts: "conversation_facts x ob = ob\<lparr>ob_turn_state := ci_turn_state x,
      ob_last_activity_at := (case seen of None \<Rightarrow> ob_last_activity_at ob | Some y \<Rightarrow> Some y)\<rparr>" for ob
    by (simp add: conversation_facts_again seen_def split: option.split)
  show thesis
  proof (cases seen)
    case None
    then show thesis
      by (intro that [of "\<lambda>_. ci_turn_state x" "\<lambda>y. y"])
        (simp_all add: kept_or_set_intros prepared_def conversed_def attended_def Some facts)
  next
    case (Some y)
    then show thesis
      by (intro that [of "\<lambda>_. ci_turn_state x" "\<lambda>_. Some y"])
        (simp_all add: kept_or_set_intros prepared_def conversed_def attended_def \<open>conv = Some x\<close> facts)
  qed
qed

lemma assign_form:
  obtains f g h where "kept_or_set f" "kept_or_set g" "kept_or_set h"
    "\<And>ob. assign v at ob = ob\<lparr>ob_status := vd_status v, ob_reason := vd_reason v, ob_turn_state := f (ob_turn_state ob),
       ob_last_activity_at := g (ob_last_activity_at ob), ob_agent_state := h (ob_agent_state ob)\<rparr>"
proof -
  let ?f = "\<lambda>x. case vd_turn v of None \<Rightarrow> x | Some turn \<Rightarrow> turn" and ?g = "\<lambda>x. if vd_seen v then at else x"
    and ?h = "\<lambda>x. if vd_withdrawn v then [] else x"
  have "kept_or_set ?f" by (cases "vd_turn v") (simp_all add: kept_or_set_intros)
  moreover have "kept_or_set ?g" by (cases "vd_seen v") (auto simp: kept_or_set_def)
  moreover have "kept_or_set ?h" by (cases "vd_withdrawn v") (auto simp: kept_or_set_def)
  ultimately show thesis by (rule that) (simp add: assign_def)
qed

lemma outcome_again:
  "outcome v at live loop (prepared i owner conv attention (outcome v at live loop (prepared i owner conv attention ob)))
   = outcome v at live loop (prepared i owner conv attention ob)"
proof -
  obtain f g where p: "kept_or_set f" "kept_or_set g"
    "\<And>ob. prepared i owner conv attention ob = ob\<lparr>ob_runtime := owner,
       ob_activity := later_times (case attention of None \<Rightarrow> empty_attention i | Some a \<Rightarrow> a) (ob_activity ob),
       ob_turn_state := f (ob_turn_state ob), ob_last_activity_at := g (ob_last_activity_at ob)\<rparr>"
    by (rule prepared_form [of i owner conv attention]) blast
  obtain f' g' h where a: "kept_or_set f'" "kept_or_set g'" "kept_or_set h"
    "\<And>ob. assign v at ob = ob\<lparr>ob_status := vd_status v, ob_reason := vd_reason v, ob_turn_state := f' (ob_turn_state ob),
       ob_last_activity_at := g' (ob_last_activity_at ob), ob_agent_state := h (ob_agent_state ob)\<rparr>"
    by (rule assign_form [of v at]) blast
  show ?thesis
    by (cases live) (simp_all add: outcome_def merged_live_def p(3) a(4) times_again
        kept_or_set_again [OF a(1) p(1)] kept_or_set_again [OF a(2) p(2)])
qed

lemma fold_live_outcome:
  obtains v at live' loop where
    "\<And>ob. ob_online ob = online \<Longrightarrow> fold_live s i owner conv live current ob = outcome v at live' loop ob"
    "classified (vd_status v)"
proof -
  define live' where "live' = (if current then live else None)"
  have base: "(case live of None \<Rightarrow> ob | Some a \<Rightarrow> if current then merged_live a ob else ob) =
      (case live' of None \<Rightarrow> ob | Some a \<Rightarrow> merged_live a ob)" for ob
    by (simp add: live'_def split: option.split)
  have on: "ob_online (case live' of None \<Rightarrow> ob | Some a \<Rightarrow> merged_live a ob) = ob_online ob" for ob
    by (simp add: merged_live_def split: option.split)
  let ?told = "recorded_verdict online (se_now s) conv owner"
  show thesis
  proof (cases "owner_live owner live current")
    case None
    then show thesis
      by (intro that [of ?told None live' "[]"])
        (simp_all add: fold_live_def Let_def base on outcome_def recorded_verdict_classified)
  next
    case (Some p)
    obtain r a where p: "p = (r, a)" by (cases p)
    let ?loop = "if ra_source a = live_source then ra_agent_state a else []"
    show thesis
    proof (cases "live_verdict online (control_unavailable s i r) conv r a")
      case None
      then show thesis
        by (intro that [of ?told None live' ?loop])
          (simp_all add: fold_live_def Let_def base on outcome_def Some p recorded_verdict_classified)
    next
      case (Some v)
      then show thesis
        by (intro that [of v "ra_last_event_at a" live' ?loop])
          (simp_all add: fold_live_def Let_def base on outcome_def \<open>owner_live owner live current = Some p\<close> p live_verdict_classified [OF Some])
    qed
  qed
qed

lemma outcome_fields [simp]:
  "ob_online (outcome v at live loop ob) = ob_online ob" "ob_worktree (outcome v at live loop ob) = ob_worktree ob"
  "ob_status (outcome v at live loop ob) = vd_status v"
  by (simp_all add: outcome_def merged_live_def split: option.split)

text \<open>The verdict on a superseded claim is an outcome as well.\<close>

lemma superseded_again:
  "assign (verdict st reason None) None (prepared i owner conv attention
     (assign (verdict st reason None) None (prepared i owner conv attention ob)))
   = assign (verdict st reason None) None (prepared i owner conv attention ob)"
proof -
  obtain f g where p: "kept_or_set f" "kept_or_set g"
    "\<And>ob. prepared i owner conv attention ob = ob\<lparr>ob_runtime := owner,
       ob_activity := later_times (case attention of None \<Rightarrow> empty_attention i | Some a \<Rightarrow> a) (ob_activity ob),
       ob_turn_state := f (ob_turn_state ob), ob_last_activity_at := g (ob_last_activity_at ob)\<rparr>"
    by (rule prepared_form [of i owner conv attention]) blast
  have same: "f (f x) = f x" "g (g y) = g y" for x y using p(1,2) by (auto simp: kept_or_set_def)
  show ?thesis by (simp add: p(3) assign_def times_again same)
qed

text \<open>The facts of an item, and the fold of them, when all of them can be read.\<close>

lemma actionability_cases:
  assumes "apply_actionability B locate s i t ob = (None, ob')"
  obtains owner conv attention live where
    "decoded_projection B as_runtime runtime_ownership_projection i t = Inr owner"
    "decoded_projection B as_conversation conversation_projection i t = Inr conv"
    "decoded_projection B as_attention attention_projection i t = Inr attention"
    "decoded_projection B as_activity runtime_activity_projection i t = Inr live"
    "\<And>r. owner = Some r \<Longrightarrow> ar_claim_id r \<noteq> [] \<Longrightarrow> \<exists>m n. canonical_manifest B locate i t = Inr (m, n)"
proof -
  from assms obtain owner conv attention live where
    o: "decoded_projection B as_runtime runtime_ownership_projection i t = Inr owner"
    "decoded_projection B as_conversation conversation_projection i t = Inr conv"
    "decoded_projection B as_attention attention_projection i t = Inr attention"
    "decoded_projection B as_activity runtime_activity_projection i t = Inr live"
    unfolding apply_actionability_def Let_def by (auto split: sum.splits)
  moreover have "\<exists>m n. canonical_manifest B locate i t = Inr (m, n)" if "owner = Some r" "ar_claim_id r \<noteq> []" for r
    using assms that by (auto simp: apply_actionability_def o Let_def split: sum.splits)
  ultimately show thesis by (rule that)
qed

text \<open>The claim of the owner, as the fold sees it.\<close>

definition owner_current ::
  "('b, stored) bolt \<Rightarrow> (repository \<Rightarrow> (coord_error, repository) result) \<Rightarrow> string \<Rightarrow> 'b tx_state \<Rightarrow> agent_runtime option \<Rightarrow> bool" where
  "owner_current B locate i t owner \<longleftrightarrow> (case owner of None \<Rightarrow> True
     | Some r \<Rightarrow> ar_claim_id r = [] \<or> (\<exists>m n. canonical_manifest B locate i t = Inr (m, n) \<and> claim_is_current r m))"

lemma actionability_fold:
  assumes "decoded_projection B as_runtime runtime_ownership_projection i t = Inr owner"
    and "decoded_projection B as_conversation conversation_projection i t = Inr conv"
    and "decoded_projection B as_attention attention_projection i t = Inr attention"
    and "decoded_projection B as_activity runtime_activity_projection i t = Inr live"
    and "\<And>r. owner = Some r \<Longrightarrow> ar_claim_id r \<noteq> [] \<Longrightarrow> \<exists>m n. canonical_manifest B locate i t = Inr (m, n)"
  shows "apply_actionability B locate s i t ob =
    (None, if ob_online ob \<and> \<not> owner_current B locate i t owner
       then assign (verdict ''problem'' ''active agent runtime belongs to a superseded workspace claim'' None) None
         (prepared i owner conv attention ob)
       else fold_live s i owner conv live (owner_current B locate i t owner) (prepared i owner conv attention ob))"
proof -
  have prep: "conversed conv (attended i attention (ob\<lparr>ob_runtime := owner\<rparr>)) = prepared i owner conv attention ob"
    by (simp add: prepared_def)
  show ?thesis
  proof (cases owner)
    case None
    then show ?thesis
      using assms(1-4) by (simp add: apply_actionability_def Let_def owner_current_def prep [unfolded None])
  next
    case (Some r)
    show ?thesis
    proof (cases "ar_claim_id r = []")
      case True
      then show ?thesis
        using assms(1-4) Some by (simp add: apply_actionability_def Let_def owner_current_def prep [unfolded Some])
    next
      case False
      then obtain m n where "canonical_manifest B locate i t = Inr (m, n)" using assms(5) Some by blast
      then show ?thesis
        using assms(1-4) Some False by (simp add: apply_actionability_def Let_def owner_current_def prep [unfolded Some])
    qed
  qed
qed

lemma actionability_fields:
  assumes "apply_actionability B locate s i t ob = (None, ob')"
  shows "ob_online ob' = ob_online ob" and "ob_worktree ob' = ob_worktree ob" and "classified (ob_status ob')"
proof -
  obtain owner conv attention live where r: "decoded_projection B as_runtime runtime_ownership_projection i t = Inr owner"
    "decoded_projection B as_conversation conversation_projection i t = Inr conv"
    "decoded_projection B as_attention attention_projection i t = Inr attention"
    "decoded_projection B as_activity runtime_activity_projection i t = Inr live"
    "\<And>r. owner = Some r \<Longrightarrow> ar_claim_id r \<noteq> [] \<Longrightarrow> \<exists>m n. canonical_manifest B locate i t = Inr (m, n)"
    by (rule actionability_cases [OF assms]) blast
  obtain v at live' loop where out: "\<And>x. ob_online x = ob_online ob \<Longrightarrow>
      fold_live s i owner conv live (owner_current B locate i t owner) x = outcome v at live' loop x" "classified (vd_status v)"
    by (rule fold_live_outcome [of "ob_online ob" s i owner conv live "owner_current B locate i t owner"]) blast
  show "ob_online ob' = ob_online ob" and "ob_worktree ob' = ob_worktree ob" and "classified (ob_status ob')"
    using assms out by (auto simp: actionability_fold [OF r] classified_def split: if_split_asm)
qed

lemma actionability_again:
  assumes "apply_actionability B locate s i t ob = (None, ob')"
  shows "apply_actionability B locate s i t ob' = (None, ob')"
proof -
  obtain owner conv attention live where r: "decoded_projection B as_runtime runtime_ownership_projection i t = Inr owner"
    "decoded_projection B as_conversation conversation_projection i t = Inr conv"
    "decoded_projection B as_attention attention_projection i t = Inr attention"
    "decoded_projection B as_activity runtime_activity_projection i t = Inr live"
    "\<And>r. owner = Some r \<Longrightarrow> ar_claim_id r \<noteq> [] \<Longrightarrow> \<exists>m n. canonical_manifest B locate i t = Inr (m, n)"
    by (rule actionability_cases [OF assms]) blast
  note fold = actionability_fold [OF r]
  obtain v at live' loop where out: "\<And>x. ob_online x = ob_online ob \<Longrightarrow>
      fold_live s i owner conv live (owner_current B locate i t owner) x = outcome v at live' loop x"
    by (rule fold_live_outcome [of "ob_online ob" s i owner conv live "owner_current B locate i t owner"]) blast
  have on: "ob_online ob' = ob_online ob" by (rule actionability_fields [OF assms])
  show ?thesis
  proof (cases "ob_online ob \<and> \<not> owner_current B locate i t owner")
    case True
    then have "ob' = assign (verdict ''problem'' ''active agent runtime belongs to a superseded workspace claim'' None) None
        (prepared i owner conv attention ob)" using assms by (simp add: fold)
    then show ?thesis using True on by (simp add: fold superseded_again)
  next
    case False
    then have "\<not> (ob_online ob' \<and> \<not> owner_current B locate i t owner)" by (simp only: on not_False_eq_True)
    note f = fold [where s = s and ob = ob, unfolded if_not_P [OF False]] and f' = fold [where s = s and ob = ob', unfolded if_not_P [OF this]]
    have "fold_live s i owner conv live (owner_current B locate i t owner) (prepared i owner conv attention ob)
        = outcome v at live' loop (prepared i owner conv attention ob)"
      by (rule out) simp
    then have ob': "ob' = outcome v at live' loop (prepared i owner conv attention ob)" using assms f by simp
    have again: "fold_live s i owner conv live (owner_current B locate i t owner) (prepared i owner conv attention ob')
        = outcome v at live' loop (prepared i owner conv attention ob')"
      by (rule out) (simp add: on)
    have "outcome v at live' loop (prepared i owner conv attention ob') = ob'" unfolding ob' by (rule outcome_again)
    then show ?thesis using f' unfolding again by simp
  qed
qed

section \<open>A pass over the items\<close>

abbreviation active_items :: "manifest list \<Rightarrow> manifest list" where
  "active_items ms \<equiv> filter (\<lambda>m. m_state m = state_active) ms"

lemma observe_all_results: "observe_all f previous ms = Inr out \<Longrightarrow> m \<in> set (active_items ms) \<Longrightarrow> \<exists>ob. f m = Inr ob"
  by (induction ms arbitrary: out) (auto simp: rbind_Inr_iff split: if_split_asm)

lemma observe_all_eq:
  assumes "\<forall>m\<in>set (active_items ms). f m = Inr (g m)"
  shows "observe_all f previous ms =
    Inr (List.map (\<lambda>m. observation_update (m_id m) (g m)) (active_items ms),
         List.map m_id (filter (\<lambda>m. shown_anew (previous (m_id m)) (g m)) (active_items ms)))"
  using assms by (induction ms) auto

lemma updated_observation:
  assumes "distinct (List.map m_id ms)" and "m \<in> set ms"
  shows "updated (List.map (\<lambda>m. observation_update (m_id m) (g m)) ms) observation_projection (m_id m) v = Some (StObservation (g m))"
  using assms
proof (induction ms arbitrary: v)
  case (Cons x ms)
  show ?case
  proof (cases "m \<in> set ms")
    case True
    then show ?thesis using Cons by simp
  next
    case False
    then have "x = m" "\<forall>u\<in>set (List.map (\<lambda>m. observation_update (m_id m) (g m)) ms). pu_projection u = observation_projection \<longrightarrow> pu_key u \<noteq> m_id m"
      using Cons.prems by (auto simp: observation_update_def) (metis image_eqI)
    then show ?thesis by (simp add: updated_other) (simp add: observation_update_def)
  qed
qed simp

lemma resolve_all_items:
  "resolve_all locate ms = Inr ms' \<Longrightarrow> list_all2 (\<lambda>m m'. \<exists>r. locate (m_repository m) = Inr r \<and> m' = m\<lparr>m_repository := r\<rparr>) ms ms'"
  by (induction ms arbitrary: ms') (auto simp: rbind_Inr_iff)

lemma resolve_all_ids:
  assumes "resolve_all locate ms = Inr ms'"
  shows "List.map m_id ms' = List.map m_id ms" and "List.map m_state ms' = List.map m_state ms"
  using resolve_all_items [OF assms] by (induction rule: list_all2_induct) auto

lemma previous_observation_at: "i \<noteq> [] \<Longrightarrow> previous_observation B i t = observation_at B t i"
  by (simp add: previous_observation_def decoded_projection_def read_projection_def observation_at_def split: option.split)

lemma decoded_projection_cong:
  "get_projection B name i t' = get_projection B name i t \<Longrightarrow> decoded_projection B decode name i t' = decoded_projection B decode name i t"
  by (simp add: decoded_projection_def read_projection_def)

lemma actionability_cong:
  assumes "\<And>name. name \<noteq> observation_projection \<Longrightarrow> get_projection B name i t' = get_projection B name i t"
    and "item_revision B t' i = item_revision B t i"
  shows "apply_actionability B locate s i t' = apply_actionability B locate s i t"
proof -
  have canonical: "canonical_manifest B locate i t' = canonical_manifest B locate i t"
    unfolding canonical_manifest_def assms(2) by (simp add: assms(1))
  have get: "get_projection B runtime_ownership_projection i t' = get_projection B runtime_ownership_projection i t"
    "get_projection B conversation_projection i t' = get_projection B conversation_projection i t"
    "get_projection B attention_projection i t' = get_projection B attention_projection i t"
    "get_projection B runtime_activity_projection i t' = get_projection B runtime_activity_projection i t"
    by (rule assms(1), simp)+
  show ?thesis
    unfolding apply_actionability_def canonical get [THEN decoded_projection_cong] ..
qed

lemma apply_updates_projections:
  "apply_updates B us t = Inr t' \<Longrightarrow> \<forall>u\<in>set us. pu_projection u \<noteq> name \<Longrightarrow> tx_projections t' name = tx_projections t name"
proof (induction us arbitrary: t)
  case (Cons u us)
  then obtain t1 where "apply_update B u t = Inr t1" "apply_updates B us t1 = Inr t'" by (auto simp: rbind_Inr_iff)
  moreover from this(1) have "tx_projections t1 name = tx_projections t name"
    using Cons.prems(2) by (auto simp: apply_update_def put_projection_def delete_projection_def set_projection_def split: if_split_asm)
  ultimately show ?case using Cons by simp
qed simp

lemma apply_updates_succeed:
  "\<forall>u\<in>set us. pu_projection u \<noteq> [] \<and> pu_key u \<noteq> [] \<Longrightarrow> \<exists>t'. apply_updates B us t = Inr t'"
  by (induction us arbitrary: t) (auto simp: apply_update_def)

context event_store
begin

lemma list_manifests_items:
  assumes "tx_ok ok t" and "items_ok B t" and "list_manifests B locate t = Inr ms"
  shows "distinct (List.map m_id ms)"
    and "m \<in> set ms \<Longrightarrow> m_id m \<noteq> [] \<and> (\<exists>m0 r. manifest_at B t (m_id m) = Some m0 \<and> locate (m_repository m0) = Inr r \<and> m = m0\<lparr>m_repository := r\<rparr>)"
    and "manifest_at B t i = Some m0 \<Longrightarrow> \<exists>m\<in>set ms. m_id m = i \<and> m_state m = m_state m0"
proof -
  obtain ms0 where ms0: "manifests_of B t = Inr ms0" "distinct (List.map m_id ms0)"
    "\<And>m. m \<in> set ms0 \<longleftrightarrow> manifest_at B t (m_id m) = Some m"
    using manifests_of_items [OF assms(1,2)] by blast
  then have ms: "resolve_all locate ms0 = Inr ms" using assms(3) by (simp add: list_manifests_def)
  show "distinct (List.map m_id ms)" using resolve_all_ids(1) [OF ms] ms0(2) by simp
  note each = resolve_all_items [OF ms, unfolded list_all2_conv_all_nth]
  show "m_id m \<noteq> [] \<and> (\<exists>m0 r. manifest_at B t (m_id m) = Some m0 \<and> locate (m_repository m0) = Inr r \<and> m = m0\<lparr>m_repository := r\<rparr>)"
    if "m \<in> set ms"
  proof -
    obtain k where k: "k < length ms" "ms ! k = m" using \<open>m \<in> set ms\<close> by (auto simp: in_set_conv_nth)
    with each obtain r where r: "m = (ms0 ! k)\<lparr>m_repository := r\<rparr>" "locate (m_repository (ms0 ! k)) = Inr r" "k < length ms0" by auto
    then have "manifest_at B t (m_id (ms0 ! k)) = Some (ms0 ! k)" using ms0(3) nth_mem by blast
    moreover from items_ok_id [OF assms(2) this] have "m_id (ms0 ! k) \<noteq> []" by simp
    ultimately show ?thesis using r(1,2) by (intro conjI exI [of _ "ms0 ! k"] exI [of _ r]) simp_all
  qed
  show "\<exists>m\<in>set ms. m_id m = i \<and> m_state m = m_state m0" if "manifest_at B t i = Some m0"
  proof -
    have "m_id m0 = i" using items_ok_id [OF assms(2) that] by blast
    then have "m0 \<in> set ms0" using ms0(3) that by simp
    then obtain k where k: "k < length ms0" "ms0 ! k = m0" by (auto simp: in_set_conv_nth)
    with each obtain r where "ms ! k = m0\<lparr>m_repository := r\<rparr>" "k < length ms" by auto
    moreover from this(2) have "ms ! k \<in> set ms" by (rule nth_mem)
    ultimately show ?thesis using \<open>m_id m0 = i\<close> by (intro bexI [of _ "ms ! k"]) simp_all
  qed
qed

text \<open>One pass: the observations written, the items announced, and what stays as it was.\<close>

lemma pass_spec:
  assumes "tx_ok ok (db_tx d)" and "items_ok B (db_tx d)" and "list_manifests B locate (db_tx d) = Inr ms"
    and g: "\<forall>m\<in>set (active_items ms). f m = Inr (g m)"
  shows "\<exists>d'. rbind (observe_all f previous ms) (\<lambda>out. apply_observations B out d) = Inr d'
    \<and> tx_ok ok (db_tx d') \<and> list_manifests B locate (db_tx d') = Inr ms
    \<and> db_changes d' = record_changes (List.map m_id (filter (\<lambda>m. shown_anew (previous (m_id m)) (g m)) (active_items ms))) (db_changes d)
    \<and> (\<forall>m\<in>set (active_items ms). get_projection B observation_projection (m_id m) (db_tx d') = Some (StObservation (g m)))
    \<and> (\<forall>name i. name \<noteq> observation_projection \<or> i \<notin> m_id ` set (active_items ms) \<longrightarrow>
         get_projection B name i (db_tx d') = get_projection B name i (db_tx d))
    \<and> (\<forall>i. item_revision B (db_tx d') i = item_revision B (db_tx d) i) \<and> items_ok B (db_tx d')"
proof -
  have dist: "distinct (List.map m_id (active_items ms))"
    using list_manifests_items(1) [OF assms(1-3)] by (simp add: distinct_map_filter)
  have ne: "m_id m \<noteq> []" if "m \<in> set ms" for m
    using list_manifests_items(2) [OF assms(1-3) that] by blast
  let ?us = "List.map (\<lambda>m. observation_update (m_id m) (g m)) (active_items ms)"
  have keys: "\<forall>u\<in>set ?us. pu_projection u \<noteq> [] \<and> pu_key u \<noteq> []" using ne by (auto simp: observation_update_def)
  obtain t' where t': "apply_updates B ?us (db_tx d) = Inr t'" using apply_updates_succeed [OF keys] by blast
  have get: "get_projection B name k t' = updated ?us name k (get_projection B name k (db_tx d))" for name k
    by (rule get_apply_updates [OF t' assms(1)])
  have frame: "t' = (db_tx d)\<lparr>tx_projections := tx_projections t'\<rparr>" by (rule apply_updates_frame [OF t'])
  have rev: "item_revision B t' i = item_revision B (db_tx d) i" for i
    by (subst frame) (simp add: item_revision_def)
  have "tx_projections t' manifest_projection = tx_projections (db_tx d) manifest_projection"
    by (rule apply_updates_projections [OF t']) (auto simp: observation_update_def)
  then have list: "list_manifests B locate t' = Inr ms"
    using assms(3) by (simp add: list_manifests_def manifests_of_def)
  have other: "get_projection B name i t' = get_projection B name i (db_tx d)"
    if "name \<noteq> observation_projection \<or> i \<notin> m_id ` set (active_items ms)" for name i
    unfolding get by (rule updated_other) (use that in \<open>auto simp: observation_update_def\<close>)
  have "items_ok B t'" using assms(2) other [of manifest_projection] by (simp add: items_ok_def)
  then show ?thesis
    unfolding observe_all_eq [OF g] using t' tx_ok_apply_updates [OF t' assms(1)] list other rev updated_observation [OF dist]
    by (auto simp: apply_observations_def update_projections_def get)
qed

lemma reconcile_spec:
  assumes "tx_ok ok (db_tx d)" and "items_ok B (db_tx d)" and "reconcile_actionability B locate s d = Inr d'"
  obtains ms g where "list_manifests B locate (db_tx d) = Inr ms"
    "\<forall>m\<in>set (active_items ms). reconciled B locate s (db_tx d) (m_id m) = Inr (g (m_id m))"
    "tx_ok ok (db_tx d')" "items_ok B (db_tx d')" "list_manifests B locate (db_tx d') = Inr ms"
    "db_changes d' = record_changes (List.map m_id (filter (\<lambda>m. shown_anew (previous_observation B (m_id m) (db_tx d)) (g (m_id m)))
       (active_items ms))) (db_changes d)"
    "\<And>m. m \<in> set (active_items ms) \<Longrightarrow> get_projection B observation_projection (m_id m) (db_tx d') = Some (StObservation (g (m_id m)))"
    "\<And>name i. name \<noteq> observation_projection \<or> i \<notin> m_id ` set (active_items ms) \<Longrightarrow>
       get_projection B name i (db_tx d') = get_projection B name i (db_tx d)"
    "\<And>i. item_revision B (db_tx d') i = item_revision B (db_tx d) i"
proof -
  obtain ms out where ms: "list_manifests B locate (db_tx d) = Inr ms" and
    out: "observe_all (\<lambda>m. reconciled B locate s (db_tx d) (m_id m)) (\<lambda>i. previous_observation B i (db_tx d)) ms = Inr out"
    using assms(3) by (auto simp: reconcile_actionability_def rbind_Inr_iff)
  define g where "g i = (case reconciled B locate s (db_tx d) i of Inr ob \<Rightarrow> ob)" for i
  have g: "\<forall>m\<in>set (active_items ms). reconciled B locate s (db_tx d) (m_id m) = Inr (g (m_id m))"
    using observe_all_results [OF out] by (fastforce simp: g_def)
  from pass_spec [OF assms(1,2) ms g, of "\<lambda>i. previous_observation B i (db_tx d)"] show thesis
    using assms(3) ms by (intro that [OF ms g]) (auto simp: reconcile_actionability_def)
qed

lemma reconcile_again:
  assumes "tx_ok ok (db_tx d)" and "items_ok B (db_tx d)" and "reconcile_actionability B locate s d = Inr d'"
  shows "\<exists>d''. reconcile_actionability B locate s d' = Inr d'' \<and> db_changes d'' = db_changes d'
    \<and> (\<forall>name i. get_projection B name i (db_tx d'') = get_projection B name i (db_tx d'))"
proof -
  obtain ms g where r: "list_manifests B locate (db_tx d) = Inr ms"
    "\<forall>m\<in>set (active_items ms). reconciled B locate s (db_tx d) (m_id m) = Inr (g (m_id m))"
    "tx_ok ok (db_tx d')" "items_ok B (db_tx d')" "list_manifests B locate (db_tx d') = Inr ms"
    and obs: "\<And>m. m \<in> set (active_items ms) \<Longrightarrow> get_projection B observation_projection (m_id m) (db_tx d') = Some (StObservation (g (m_id m)))"
    and other: "\<And>name i. name \<noteq> observation_projection \<or> i \<notin> m_id ` set (active_items ms) \<Longrightarrow>
       get_projection B name i (db_tx d') = get_projection B name i (db_tx d)"
    and rev: "\<And>i. item_revision B (db_tx d') i = item_revision B (db_tx d) i"
    by (rule reconcile_spec [OF assms]) blast
  have again: "reconciled B locate s (db_tx d') (m_id m) = Inr (g (m_id m))
      \<and> previous_observation B (m_id m) (db_tx d') = Some (g (m_id m))" if m: "m \<in> set (active_items ms)" for m
  proof -
    let ?i = "m_id m"
    define ob where "ob = (case previous_observation B ?i (db_tx d) of None \<Rightarrow> new_observation (se_now s) ?i | Some ob \<Rightarrow> ob)"
    have "reconciled B locate s (db_tx d) ?i = Inr (g ?i)" using r(2) m by blast
    then have "apply_actionability B locate s ?i (db_tx d) ob = (None, g ?i)"
      by (auto simp: reconciled_def ob_def Let_def split: prod.splits option.splits)
    then have "apply_actionability B locate s ?i (db_tx d) (g ?i) = (None, g ?i)" by (rule actionability_again)
    moreover have "apply_actionability B locate s ?i (db_tx d') = apply_actionability B locate s ?i (db_tx d)"
      by (rule actionability_cong) (use other rev in auto)
    moreover have "?i \<noteq> []" using list_manifests_items(2) [OF r(3,4,5)] m by auto
    then have "previous_observation B ?i (db_tx d') = Some (g ?i)"
      by (simp add: previous_observation_at observation_at_def obs [OF m])
    ultimately show ?thesis by (simp add: reconciled_def)
  qed
  then have g': "\<forall>m\<in>set (active_items ms). reconciled B locate s (db_tx d') (m_id m) = Inr (g (m_id m))" by blast
  have none: "filter (\<lambda>m. shown_anew (previous_observation B (m_id m) (db_tx d')) (g (m_id m))) (active_items ms) = []"
    using again by (auto simp: filter_empty_conv shown_anew_def)
  from pass_spec [OF r(3,4,5) g', of "\<lambda>i. previous_observation B i (db_tx d')"] obtain d'' where
    d'': "reconcile_actionability B locate s d' = Inr d''" "db_changes d'' = db_changes d'"
    "\<forall>m\<in>set (active_items ms). get_projection B observation_projection (m_id m) (db_tx d'') = Some (StObservation (g (m_id m)))"
    "\<forall>name i. name \<noteq> observation_projection \<or> i \<notin> m_id ` set (active_items ms) \<longrightarrow>
         get_projection B name i (db_tx d'') = get_projection B name i (db_tx d')"
    unfolding none by (auto simp: reconcile_actionability_def r(5) record_changes_def)
  have "get_projection B name i (db_tx d'') = get_projection B name i (db_tx d')" for name i
    using d''(3,4) obs by (cases "name = observation_projection \<and> i \<in> m_id ` set (active_items ms)") auto
  then show ?thesis using d'' by blast
qed

end

section \<open>Properties\<close>

lemma decoded_Some:
  "i \<noteq> [] \<Longrightarrow> name \<noteq> [] \<Longrightarrow> get_projection B name i t = Some v \<Longrightarrow> decode v = Some a \<Longrightarrow>
   decoded_projection B decode name i t = Inr (Some a)"
  by (simp add: decoded_projection_def read_projection_def)

lemma decoded_at:
  "i \<noteq> [] \<Longrightarrow> owner_at B t i = Some r \<Longrightarrow> decoded_projection B as_runtime runtime_ownership_projection i t = Inr (Some r)"
  "i \<noteq> [] \<Longrightarrow> activity_at B t i = Some a \<Longrightarrow> decoded_projection B as_activity runtime_activity_projection i t = Inr (Some a)"
  by (auto simp: owner_at_def activity_at_def decoded_projection_def read_projection_def split: option.splits)

context event_store
begin

lemma reconcile_active:
  assumes "tx_ok ok (db_tx d)" and "items_ok B (db_tx d)" and "reconcile_actionability B locate s d = Inr d'"
    and "manifest_at B (db_tx d) i = Some m" and "m_state m = state_active"
  obtains ob' where "apply_actionability B locate s i (db_tx d)
      (case observation_at B (db_tx d) i of None \<Rightarrow> new_observation (se_now s) i | Some ob \<Rightarrow> ob) = (None, ob')"
    "observation_at B (db_tx d') i = Some ob'" "i \<noteq> []" "m_id m = i"
    "\<exists>r. locate (m_repository m) = Inr r"
proof -
  obtain ms g where r: "list_manifests B locate (db_tx d) = Inr ms"
    "\<forall>m\<in>set (active_items ms). reconciled B locate s (db_tx d) (m_id m) = Inr (g (m_id m))"
    and obs: "\<And>m. m \<in> set (active_items ms) \<Longrightarrow> get_projection B observation_projection (m_id m) (db_tx d') = Some (StObservation (g (m_id m)))"
    by (rule reconcile_spec [OF assms(1-3)]) blast
  have i: "i \<noteq> []" "m_id m = i" using items_ok_id [OF assms(2,4)] by auto
  obtain m' where m': "m' \<in> set ms" "m_id m' = i" "m_state m' = m_state m"
    using list_manifests_items(3) [OF assms(1,2) r(1) assms(4)] by blast
  then have "m' \<in> set (active_items ms)" using assms(5) by simp
  then have "reconciled B locate s (db_tx d) i = Inr (g i)" "observation_at B (db_tx d') i = Some (g i)"
    using r(2) obs m'(2) by (force simp: observation_at_def)+
  moreover from list_manifests_items(2) [OF assms(1,2) r(1) m'(1)] obtain repo where "locate (m_repository m) = Inr repo"
    using m'(2) assms(4) by auto
  ultimately show thesis
    using i by (intro that [of "g i"]) (auto simp: reconciled_def previous_observation_at Let_def split: prod.splits option.splits)
qed

lemma canonical_at:
  assumes "items_ok B t" and "manifest_at B t i = Some m" and "locate (m_repository m) = Inr r" and "valid_id i"
  shows "canonical_manifest B locate i t = Inr (m\<lparr>m_repository := r\<rparr>, item_revision B t i)"
  using assms manifest_at_Some [OF assms(1), of i m] by (simp add: canonical_manifest_def)

end

text \<open>C16: a reconciliation gives every active item a status (busy, idle or problem), announces exactly the items that are
  shown differently than before, and settles: repeating it without news announces nothing and changes no projection.\<close>

theorem reconciliation_settles:
  assumes "bucket_store B ok" and "tx_ok ok (db_tx d)" and "items_ok B (db_tx d)"
    and "reconcile_actionability B locate s d = Inr d'"
  shows "(\<forall>i m. manifest_at B (db_tx d) i = Some m \<and> m_state m = state_active \<longrightarrow>
        (\<exists>ob. observation_at B (db_tx d') i = Some ob \<and> classified (ob_status ob)))
    \<and> (\<exists>ids. db_changes d' = record_changes ids (db_changes d) \<and> set ids = {i. \<exists>m ob. manifest_at B (db_tx d) i = Some m
        \<and> m_state m = state_active \<and> observation_at B (db_tx d') i = Some ob \<and> shown_anew (observation_at B (db_tx d) i) ob})
    \<and> (\<exists>d''. reconcile_actionability B locate s d' = Inr d'' \<and> db_changes d'' = db_changes d'
        \<and> (\<forall>name i. get_projection B name i (db_tx d'') = get_projection B name i (db_tx d')))"
proof -
  note es = event_store_bucket [OF assms(1)]
  obtain ms g where ms: "list_manifests B locate (db_tx d) = Inr ms"
    and changes: "db_changes d' = record_changes (List.map m_id (filter (\<lambda>m. shown_anew (previous_observation B (m_id m) (db_tx d)) (g (m_id m)))
       (active_items ms))) (db_changes d)"
    and obs: "\<And>m. m \<in> set (active_items ms) \<Longrightarrow> get_projection B observation_projection (m_id m) (db_tx d') = Some (StObservation (g (m_id m)))"
    by (rule event_store.reconcile_spec [OF es assms(2-4)]) blast
  note item = event_store.list_manifests_items [OF es assms(2,3) ms]
  have at: "observation_at B (db_tx d') (m_id m) = Some (g (m_id m))" "m_id m \<noteq> []" if "m \<in> set (active_items ms)" for m
    using obs [OF that] item(2) that by (auto simp: observation_at_def)
  have active: "(\<exists>m. manifest_at B (db_tx d) i = Some m \<and> m_state m = state_active) \<longleftrightarrow> i \<in> m_id ` set (active_items ms)" for i
  proof
    assume "\<exists>m. manifest_at B (db_tx d) i = Some m \<and> m_state m = state_active"
    then show "i \<in> m_id ` set (active_items ms)" using item(3) by fastforce
  next
    assume "i \<in> m_id ` set (active_items ms)"
    then obtain m where m: "m \<in> set ms" "m_state m = state_active" "i = m_id m" by auto
    from item(2) [OF m(1)] obtain m0 r where "manifest_at B (db_tx d) (m_id m) = Some m0" "m = m0\<lparr>m_repository := r\<rparr>" by blast
    then show "\<exists>m. manifest_at B (db_tx d) i = Some m \<and> m_state m = state_active" using m by auto
  qed
  let ?ids = "List.map m_id (filter (\<lambda>m. shown_anew (previous_observation B (m_id m) (db_tx d)) (g (m_id m))) (active_items ms))"
  have "set ?ids = {i. i \<in> m_id ` set (active_items ms) \<and> (\<exists>ob. observation_at B (db_tx d') i = Some ob \<and> shown_anew (observation_at B (db_tx d) i) ob)}"
    using at by (fastforce simp: previous_observation_at)
  then have announced: "set ?ids = {i. \<exists>m ob. manifest_at B (db_tx d) i = Some m
        \<and> m_state m = state_active \<and> observation_at B (db_tx d') i = Some ob \<and> shown_anew (observation_at B (db_tx d) i) ob}"
    unfolding active [symmetric] by auto
  moreover have "\<exists>ob. observation_at B (db_tx d') i = Some ob \<and> classified (ob_status ob)"
    if "manifest_at B (db_tx d) i = Some m \<and> m_state m = state_active" for i m
    using event_store.reconcile_active [OF es assms(2-4), of i m] that actionability_fields(3) by metis
  moreover note event_store.reconcile_again [OF es assms(2-4)]
  ultimately show ?thesis using changes by blast
qed

text \<open>C17: reconciliation does not take an agent out of its loop: when the runtime that owns an active item under its current
  claim runs its agent's loop, is online and reachable, and reports nothing only the operator can resolve, the item is
  busy afterwards and the queue passes it over, whatever its conversation file says.\<close>

theorem reconciliation_keeps_loop:
  assumes "bucket_store B ok" and "tx_ok ok (db_tx d)" and "items_ok B (db_tx d)"
    and "reconcile_actionability B locate s d = Inr d'"
    and "manifest_at B (db_tx d) i = Some m" and "m_state m = state_active" and "valid_id i"
    and "owner_at B (db_tx d) i = Some r" and "ar_claim_id r = [] \<or> claim_is_current r m"
    and "activity_at B (db_tx d) i = Some a" and "activity_running (ar_id r) a" and "ra_source a = live_source"
    and "observation_at B (db_tx d) i = Some ob" and "ob_online ob"
    and "\<not> control_unavailable s i r" and "\<not> input_blocked (ar_readiness r) (ar_readiness_reason r)"
    and "\<not> awaiting_answer (ar_readiness r) (ar_readiness_reason r)"
  shows "\<exists>ob'. observation_at B (db_tx d') i = Some ob' \<and> ob_status ob' = ''busy'' \<and> ob_turn_state ob' = ''incomplete''
    \<and> ob_agent_state ob' = ''active'' \<and> (\<forall>opts now a. m_id m = i \<longrightarrow> \<not> queue_admits B opts now (db_tx d') m a)"
proof -
  note es = event_store_bucket [OF assms(1)]
  obtain ob' where ob': "apply_actionability B locate s i (db_tx d) ob = (None, ob')" "observation_at B (db_tx d') i = Some ob'"
    and i: "i \<noteq> []" "m_id m = i" and "\<exists>repo. locate (m_repository m) = Inr repo"
    by (rule event_store.reconcile_active [OF es assms(2-6)]) (auto simp: assms(13))
  then obtain repo where repo: "locate (m_repository m) = Inr repo" by blast
  obtain owner conv attention live where f: "decoded_projection B as_runtime runtime_ownership_projection i (db_tx d) = Inr owner"
    "decoded_projection B as_conversation conversation_projection i (db_tx d) = Inr conv"
    "decoded_projection B as_attention attention_projection i (db_tx d) = Inr attention"
    "decoded_projection B as_activity runtime_activity_projection i (db_tx d) = Inr live"
    "\<And>r. owner = Some r \<Longrightarrow> ar_claim_id r \<noteq> [] \<Longrightarrow> \<exists>m n. canonical_manifest B locate i (db_tx d) = Inr (m, n)"
    by (rule actionability_cases [OF ob'(1)]) blast
  have ol: "owner = Some r" "live = Some a" using f(1,4) decoded_at(1) [OF i(1) assms(8)] decoded_at(2) [OF i(1) assms(10)] by simp_all
  have "owner_current B locate i (db_tx d) owner"
    using assms(9) event_store.canonical_at [where locate = locate and r = repo, OF es assms(3,5) repo assms(7)] by (auto simp: owner_current_def ol claim_is_current_def)
  then have ob'': "ob' = fold_live s i owner conv live True (prepared i owner conv attention ob)"
    using ob'(1) by (simp add: actionability_fold [OF f])
  have "live_verdict True False conv r a = Some (seen_verdict ''busy'' ''live agent loop is active'' (Some ''incomplete''))"
    using assms(11,12,16,17) by (simp add: live_verdict_def activity_running_def Let_def)
  then have "ob_status ob' = ''busy''" "ob_turn_state ob' = ''incomplete''" "ob_agent_state ob' = ''active''"
    unfolding ob'' using assms(11,12,14,15)
    by (simp_all add: fold_live_def ol owner_live_def activity_running_def Let_def assign_def merged_live_def)
  then show ?thesis using ob'(2) by (auto simp: queue_admits_def observation_at_def)
qed

text \<open>An agent that still runs under a superseded claim is a problem, whatever it reports, and the queue never offers its
  item.\<close>

theorem superseded_agent_is_problem:
  assumes "bucket_store B ok" and "tx_ok ok (db_tx d)" and "items_ok B (db_tx d)"
    and "reconcile_actionability B locate s d = Inr d'"
    and "manifest_at B (db_tx d) i = Some m" and "m_state m = state_active" and "valid_id i"
    and "owner_at B (db_tx d) i = Some r" and "ar_claim_id r \<noteq> []" and "\<not> claim_is_current r m"
    and "observation_at B (db_tx d) i = Some ob" and "ob_online ob"
  shows "\<exists>ob'. observation_at B (db_tx d') i = Some ob' \<and> ob_status ob' = ''problem''
    \<and> ob_reason ob' = ''active agent runtime belongs to a superseded workspace claim''
    \<and> (\<forall>opts now a. \<not> queue_admits B opts now (db_tx d') m a)"
proof -
  note es = event_store_bucket [OF assms(1)]
  obtain ob' where ob': "apply_actionability B locate s i (db_tx d) ob = (None, ob')" "observation_at B (db_tx d') i = Some ob'"
    and i: "i \<noteq> []" "m_id m = i" and "\<exists>repo. locate (m_repository m) = Inr repo"
    by (rule event_store.reconcile_active [OF es assms(2-6)]) (auto simp: assms(11))
  then obtain repo where repo: "locate (m_repository m) = Inr repo" by blast
  obtain owner conv attention live where f: "decoded_projection B as_runtime runtime_ownership_projection i (db_tx d) = Inr owner"
    "decoded_projection B as_conversation conversation_projection i (db_tx d) = Inr conv"
    "decoded_projection B as_attention attention_projection i (db_tx d) = Inr attention"
    "decoded_projection B as_activity runtime_activity_projection i (db_tx d) = Inr live"
    "\<And>r. owner = Some r \<Longrightarrow> ar_claim_id r \<noteq> [] \<Longrightarrow> \<exists>m n. canonical_manifest B locate i (db_tx d) = Inr (m, n)"
    by (rule actionability_cases [OF ob'(1)]) blast
  have "owner = Some r" using f(1) decoded_at(1) [OF i(1) assms(8)] by simp
  then have "\<not> owner_current B locate i (db_tx d) owner"
    using assms(9,10) event_store.canonical_at [where locate = locate and r = repo, OF es assms(3,5) repo assms(7)] by (auto simp: owner_current_def claim_is_current_def)
  then have "ob_status ob' = ''problem''" "ob_reason ob' = ''active agent runtime belongs to a superseded workspace claim''"
    using ob'(1) assms(12) by (auto simp: actionability_fold [OF f] assign_def)
  then show ?thesis using ob'(2) i(2) by (auto simp: queue_admits_def observation_at_def)
qed

text \<open>A worktree is clean exactly when its checkout is present and could be inspected, its setup did not fail, nothing is
  uncommitted, the expected branch (if any) is checked out and the created-from commit (if known) is its head.\<close>

theorem worktree_clean_iff:
  "pw_status (observe_worktree m seen) = ''clean'' \<longleftrightarrow> present (m_checkout m) \<and>
     (\<exists>head branch status setup cl. seen = Snapshot head branch status setup \<and> co_claim (m_checkout m) = Some cl
       \<and> (\<forall>claim err. setup = Some (claim, ''failed'', err) \<longrightarrow> claim \<noteq> wc_id cl) \<and> trim_space status = []
       \<and> (let expected = trim_space (cs_branch (co_specification (m_checkout m))) in expected = [] \<or> branch = expected)
       \<and> (head = [] \<or> created_from_commit (m_repository m) = [] \<or> head = created_from_commit (m_repository m)))"
proof -
  have classify: "pw_status (classify_worktree m expected status w) = ''clean'' \<longleftrightarrow> trim_space status = [] \<and> (expected = [] \<or> pw_current_branch w = expected)
      \<and> (pw_head w = [] \<or> created_from_commit (m_repository m) = [] \<or> pw_head w = created_from_commit (m_repository m))" for expected status w
    by (auto simp: classify_worktree_def Let_def)
  show ?thesis
  proof (cases "co_claim (m_checkout m)")
    case None
    then show ?thesis by (simp add: observe_worktree_def present_def zero_worktree_def Let_def)
  next
    case (Some cl)
    show ?thesis
    proof (cases "present (m_checkout m)")
      case False
      then show ?thesis using Some by (simp add: observe_worktree_def zero_worktree_def Let_def)
    next
      case True
      then show ?thesis
        using Some by (cases seen) (auto simp: observe_worktree_def present_def classify Let_def split: option.split)
    qed
  qed
qed

section \<open>A concrete pass\<close>

context event_store
begin

lemma reconcile_succeeds:
  assumes "tx_ok ok (db_tx d)" and "items_ok B (db_tx d)" and "list_manifests B locate (db_tx d) = Inr ms"
    and "\<And>m. m \<in> set ms \<Longrightarrow> \<exists>ob. reconciled B locate s (db_tx d) (m_id m) = Inr ob"
  shows "\<exists>d'. reconcile_actionability B locate s d = Inr d'"
proof -
  define g where "g m = (case reconciled B locate s (db_tx d) (m_id m) of Inr ob \<Rightarrow> ob)" for m :: manifest
  have "\<forall>m\<in>set (active_items ms). reconciled B locate s (db_tx d) (m_id m) = Inr (g m)"
    using assms(4) by (fastforce simp: g_def)
  from pass_spec [OF assms(1-3) this, of "\<lambda>i. previous_observation B i (db_tx d)"] show ?thesis
    using assms(3) by (auto simp: reconcile_actionability_def)
qed

end

lemma resolve_all_Inr: "resolve_all Inr ms = Inr ms"
  by (induction ms) auto

definition sample_sight :: sight where
  "sample_sight = \<lparr>se_at = 8, se_now = 9, se_panes = \<lambda>_. [], se_process = \<lambda>_. None, se_live_process = \<lambda>_. None,
     se_backend = \<lambda>_. None, se_checkouts = \<lambda>_. None, se_socket_root = [], se_reachable = \<lambda>_ _. False\<rparr>"

definition looping_activity :: runtime_activity where
  "looping_activity = (empty_activity (m_id this_item))\<lparr>ra_runtime := ''rt1'', ra_agent_state := ''active'',
     ra_turn_state := ''busy'', ra_source := live_source\<rparr>"

definition online_observation :: agent_observation where
  "online_observation = (zero_observation (m_id this_item))\<lparr>ob_online := True\<rparr>"

text \<open>An item whose agent runs its loop, hosted by a runtime; the claim of the runtime is an argument.\<close>

definition loop_tx :: "string \<Rightarrow> (string \<times> stored) list tx_state" where
  "loop_tx claim = put_projection list_bolt observation_projection (m_id this_item) (StObservation online_observation)
     (put_projection list_bolt runtime_activity_projection (m_id this_item) (StRuntimeActivity looping_activity)
       (put_projection list_bolt runtime_ownership_projection (m_id this_item)
         (StRuntime (live_runtime\<lparr>ar_claim_id := claim\<rparr>)) live_tx))"

definition loop_db :: "string \<Rightarrow> (string \<times> stored) list database" where
  "loop_db claim = \<lparr>db_tx = loop_tx claim, db_changes = new_change_log ''k''\<rparr>"

lemma loop_tx_ok: "tx_ok kv_ok (loop_tx claim)"
  using live_tx_rep(2) list_events.tx_ok_put(4) by (simp add: loop_tx_def)

lemma loop_tx_get: "get_projection list_bolt name k (loop_tx claim) =
   (if k \<noteq> m_id this_item then None
    else if name = observation_projection then Some (StObservation online_observation)
    else if name = runtime_activity_projection then Some (StRuntimeActivity looping_activity)
    else if name = runtime_ownership_projection then Some (StRuntime (live_runtime\<lparr>ar_claim_id := claim\<rparr>))
    else if name = manifest_projection then Some (StManifest active_item) else None)"
proof -
  note put = list_events.tx_ok_put(4)
  note ok = live_tx_rep(2) put [OF live_tx_rep(2)] put [OF put [OF live_tx_rep(2)]]
  show ?thesis
    unfolding loop_tx_def list_events.get_put_projection [OF ok(3)] list_events.get_put_projection [OF ok(2)]
      list_events.get_put_projection [OF ok(1)] live_tx_get by simp
qed

lemma loop_items: "items_ok list_bolt (loop_tx claim)" "manifest_at list_bolt (loop_tx claim) = [m_id this_item \<mapsto> active_item]"
  using start_valid(1) by (auto simp: items_ok_def loop_tx_get active_fields valid_id_def manifest_at_def fun_eq_iff)

lemma loop_reads:
  "owner_at list_bolt (loop_tx claim) (m_id this_item) = Some (live_runtime\<lparr>ar_claim_id := claim\<rparr>)"
  "activity_at list_bolt (loop_tx claim) (m_id this_item) = Some looping_activity"
  "observation_at list_bolt (loop_tx claim) (m_id this_item) = Some online_observation"
  by (simp_all add: owner_at_def activity_at_def observation_at_def loop_tx_get)

lemma this_item_ne: "m_id this_item \<noteq> []"
  using start_valid(1) by (auto simp: valid_id_def)

lemma loop_reconciles: "\<exists>d'. reconcile_actionability list_bolt Inr sample_sight (loop_db claim) = Inr d'"
proof -
  have tx: "db_tx (loop_db claim) = loop_tx claim" by (simp add: loop_db_def)
  obtain ms where ms: "manifests_of list_bolt (loop_tx claim) = Inr ms"
    "\<And>m. m \<in> set ms \<longleftrightarrow> manifest_at list_bolt (loop_tx claim) (m_id m) = Some m"
    using list_events.manifests_of_items [OF loop_tx_ok loop_items(1)] by blast
  have canonical: "canonical_manifest list_bolt Inr (m_id this_item) (loop_tx claim)
      = Inr (active_item, item_revision list_bolt (loop_tx claim) (m_id this_item))"
    using start_valid(1) by (simp add: canonical_manifest_def loop_tx_get)
  have "\<exists>ob. reconciled list_bolt Inr sample_sight (loop_tx claim) (m_id this_item) = Inr ob"
    using this_item_ne
    by (simp add: reconciled_def apply_actionability_def decoded_projection_def read_projection_def loop_tx_get canonical Let_def)
  moreover have "m_id m = m_id this_item" if "m \<in> set ms" for m
    using that ms(2) [of m] by (simp add: loop_items(2) split: if_split_asm)
  moreover have "list_manifests list_bolt Inr (loop_tx claim) = Inr ms"
    by (simp add: list_manifests_def ms(1) resolve_all_Inr)
  ultimately show ?thesis
    using list_events.reconcile_succeeds [of "loop_db claim" Inr ms sample_sight] loop_tx_ok loop_items(1) unfolding tx by metis
qed

lemma loop_runs: "activity_running ''rt1'' looping_activity" "ra_source looping_activity = live_source" "ob_online online_observation"
  by (simp_all add: activity_running_def looping_activity_def empty_activity_def online_observation_def)

theorem reconciliation_settles_witness:
  "\<exists>d1 d2. reconcile_actionability list_bolt Inr sample_sight (loop_db []) = Inr d1
     \<and> reconcile_actionability list_bolt Inr sample_sight d1 = Inr d2 \<and> db_changes d2 = db_changes d1"
proof -
  obtain d1 where d1: "reconcile_actionability list_bolt Inr sample_sight (loop_db []) = Inr d1" using loop_reconciles by blast
  have "tx_ok kv_ok (db_tx (loop_db []))" "items_ok list_bolt (db_tx (loop_db []))"
    by (simp_all add: loop_db_def loop_tx_ok loop_items)
  from reconciliation_settles [OF list_store.bucket_store_axioms this d1] d1 show ?thesis by blast
qed

theorem reconciliation_keeps_loop_witness:
  "\<exists>d1 ob. reconcile_actionability list_bolt Inr sample_sight (loop_db []) = Inr d1
     \<and> observation_at list_bolt (db_tx d1) (m_id this_item) = Some ob \<and> ob_status ob = ''busy''"
proof -
  obtain d1 where d1: "reconcile_actionability list_bolt Inr sample_sight (loop_db []) = Inr d1" using loop_reconciles by blast
  let ?r = "live_runtime\<lparr>ar_claim_id := []\<rparr>"
  have r: "ar_id ?r = ''rt1''" "ar_readiness ?r = []" "ar_readiness_reason ?r = []" by (simp_all add: live_runtime_def zero_runtime_def)
  have control: "\<not> control_unavailable sample_sight (m_id this_item) ?r" by (simp add: control_unavailable_def sample_sight_def)
  have input: "\<not> input_blocked (ar_readiness ?r) (ar_readiness_reason ?r)" "\<not> awaiting_answer (ar_readiness ?r) (ar_readiness_reason ?r)"
    by (simp_all only: r input_blocked_def awaiting_answer_def) simp_all
  have "\<exists>ob'. observation_at list_bolt (db_tx d1) (m_id this_item) = Some ob' \<and> ob_status ob' = ''busy'' \<and> ob_turn_state ob' = ''incomplete''
    \<and> ob_agent_state ob' = ''active'' \<and> (\<forall>opts now a. m_id active_item = m_id this_item \<longrightarrow> \<not> queue_admits list_bolt opts now (db_tx d1) active_item a)"
    by (rule reconciliation_keeps_loop [OF list_store.bucket_store_axioms _ _ d1 _ active_fields(2) start_valid(1) _ _ _ _ loop_runs(2) _ loop_runs(3) control input])
      (simp_all add: loop_db_def loop_tx_ok loop_items loop_reads loop_runs(1) r(1) [simplified])
  then show ?thesis using d1 by blast
qed

theorem superseded_agent_is_problem_witness:
  "\<exists>d1 ob. reconcile_actionability list_bolt Inr sample_sight (loop_db ''k'') = Inr d1
     \<and> observation_at list_bolt (db_tx d1) (m_id this_item) = Some ob \<and> ob_status ob = ''problem''"
proof -
  obtain d1 where d1: "reconcile_actionability list_bolt Inr sample_sight (loop_db ''k'') = Inr d1" using loop_reconciles by blast
  have stale: "\<not> claim_is_current (live_runtime\<lparr>ar_claim_id := ''k''\<rparr>) active_item"
    by (simp add: claim_is_current_def active_item_def deep_item_def this_item_def Sweep.sample_item_def new_checkout_def zero_manifest_def zero_checkout_def)
  have "\<exists>ob'. observation_at list_bolt (db_tx d1) (m_id this_item) = Some ob' \<and> ob_status ob' = ''problem''
    \<and> ob_reason ob' = ''active agent runtime belongs to a superseded workspace claim''
    \<and> (\<forall>opts now a. \<not> queue_admits list_bolt opts now (db_tx d1) active_item a)"
    by (rule superseded_agent_is_problem [OF list_store.bucket_store_axioms _ _ d1 _ active_fields(2) start_valid(1) _ _ stale _ loop_runs(3)])
      (simp_all add: loop_db_def loop_tx_ok loop_items loop_reads)
  then show ?thesis using d1 by blast
qed
end
