(* ===== verification/Jobs.thy ===== *)
theory Jobs
  imports Database "HOL-Library.AList"
begin

text \<open>
  The daemon's jobs (\<open>internal/daemonapi/jobs.go\<close>, \<open>job_progress.go\<close>) and their records
  (\<open>internal/coordinator/api_jobs.go\<close>): the bounded history, the registry with its goroutines, approvals that a job asks
  for and an operator answers, cancellation, shutdown, restart and watching. Every section under a lock is one step;
  the steps of all goroutines interleave. \<open>fault\<close> is the error a write of the store returns, if any.
\<close>

section \<open>Records of jobs\<close>

abbreviation api_job_history_limit :: nat where "api_job_history_limit \<equiv> 500"

definition terminal_job :: "job_state \<Rightarrow> bool" where
  "terminal_job s \<longleftrightarrow> s = JobSucceeded \<or> s = JobFailed \<or> s = JobCancelled"

text \<open>\<open>AsTime\<close> of a timestamp; one that is not set is the Unix epoch.\<close>

definition as_time :: "instant option \<Rightarrow> instant" where
  "as_time x = (case x of None \<Rightarrow> 0 | Some at \<Rightarrow> at)"

text \<open>The latest first, of equal times the greatest id first.\<close>

definition newer :: "string \<times> instant \<Rightarrow> string \<times> instant \<Rightarrow> bool" where
  "newer x y \<longleftrightarrow> (if snd x = snd y then fst x > fst y else snd x > snd y)"

definition newest_first :: "(string \<times> instant) list \<Rightarrow> (string \<times> instant) list" where
  "newest_first xs = stable_sort newer xs"

fun finished_entries :: "(string \<times> stored) list \<Rightarrow> (coord_error, (string \<times> instant) list) result" where
  "finished_entries [] = Inr []"
| "finished_entries ((i, v) # xs) = (case v of
     StJob job at \<Rightarrow> rbind (finished_entries xs) (\<lambda>es. Inr (if is_zero_time at then es else (i, at) # es))
   | _ \<Rightarrow> Inl Undecodable)"

definition save_api_job ::
  "('b, stored) bolt \<Rightarrow> string \<Rightarrow> api_job \<Rightarrow> instant \<Rightarrow> 'b tx_state \<Rightarrow> (coord_error, 'b tx_state) result" where
  "save_api_job B i job finished t =
     (let bucket = b_put B i (StJob job finished) (projection_bucket B api_jobs_projection t)
      in if is_zero_time finished then Inr (set_projection api_jobs_projection bucket t)
         else rbind (finished_entries (b_entries B bucket)) (\<lambda>es.
           Inr (set_projection api_jobs_projection
             (fold (b_delete B) (List.map fst (drop api_job_history_limit (newest_first es))) bucket) t)))"

fun job_records :: "(string \<times> stored) list \<Rightarrow> (coord_error, api_job list) result" where
  "job_records [] = Inr []"
| "job_records ((i, v) # xs) = (case v of
     StJob job at \<Rightarrow> rbind (job_records xs) (\<lambda>js. Inr (job # js))
   | _ \<Rightarrow> Inl Undecodable)"

definition api_jobs :: "('b, stored) bolt \<Rightarrow> 'b tx_state \<Rightarrow> (coord_error, api_job list) result" where
  "api_jobs B t = (case tx_projections t api_jobs_projection of None \<Rightarrow> Inr [] | Some b \<Rightarrow> job_records (b_entries B b))"

section \<open>Runs and the registry\<close>

datatype decision = Unspecified | Allow | Deny

text \<open>Where the goroutine of a job is: before its first change, in the run function, in \<open>approve\<close> (about to make a
  challenge again, with a challenge not yet shown, waiting for its answer, with an answer, with an allowing answer),
  after its last change, and gone.\<close>

datatype job_point =
    AtStart
  | Working
  | Asking string string
  | Offering job_approval nat
  | Waiting job_approval nat
  | Answered job_approval decision
  | Checking job_approval
  | Finishing
  | Gone

text \<open>A \<open>jobRun\<close>. \<open>jr_version\<close> counts the times \<open>notify\<close> was closed; \<open>jr_channels\<close> are the answer channels it made, each with
  room for one decision, and \<open>jr_answer\<close> the one \<open>answer\<close> refers to.\<close>

record job_run =
  jr_key :: string
  jr_value :: api_job
  jr_version :: nat
  jr_answer :: "nat option"
  jr_channels :: "decision option list"
  jr_cancelled :: bool
  jr_error :: "coord_error option"
  jr_point :: job_point

text \<open>The registry: the runs that were ever made with the ids under which they are listed, whether it is closed, whether
  the daemon's context has ended, the last error of the store, and, of the world around it, the store and the clock.\<close>

record 'b job_registry =
  jg_runs :: "(string \<times> job_run) list"
  jg_entries :: "string list"
  jg_closed :: bool
  jg_stopping :: bool
  jg_error :: "coord_error option"
  jg_tx :: "'b tx_state"
  jg_clock :: instant

definition run_of :: "'b job_registry \<Rightarrow> string \<Rightarrow> job_run option" where
  "run_of g i = map_of (jg_runs g) i"

definition set_run :: "string \<Rightarrow> job_run \<Rightarrow> 'b job_registry \<Rightarrow> 'b job_registry" where
  "set_run i r g = g\<lparr>jg_runs := AList.update i r (jg_runs g)\<rparr>"

definition finish_stamp :: "api_job \<Rightarrow> instant" where
  "finish_stamp job = (if terminal_job (jb_state job) then as_time (jb_finished_at job) else zero_time)"

definition persist ::
  "('b, stored) bolt \<Rightarrow> coord_error option \<Rightarrow> api_job \<Rightarrow> 'b job_registry \<Rightarrow> coord_error option \<times> 'b job_registry" where
  "persist B fault job g =
     (case (case fault of Some e \<Rightarrow> Inl e
        | None \<Rightarrow> save_api_job B (jb_id job) job (finish_stamp job) (jg_tx g)) of
        Inl e \<Rightarrow> (Some e, g\<lparr>jg_error := Some e\<rparr>)
      | Inr t \<Rightarrow> (None, g\<lparr>jg_tx := t\<rparr>))"

text \<open>\<open>change\<close>: whether the run is still persisted, the run and the registry.\<close>

definition change ::
  "('b, stored) bolt \<Rightarrow> (coord_error \<Rightarrow> string) \<Rightarrow> coord_error option \<Rightarrow> (api_job \<Rightarrow> api_job) \<Rightarrow> job_run
   \<Rightarrow> 'b job_registry \<Rightarrow> bool \<times> job_run \<times> 'b job_registry" where
  "change B text_of fault apply r g =
     (if jr_error r \<noteq> None then (False, r, g)
      else (let next = apply (jr_value r)
            in if next = jr_value r then (True, r, g)
               else (case persist B fault next g of
                  (None, g) \<Rightarrow> (True, r\<lparr>jr_value := next, jr_version := jr_version r + 1\<rparr>, g)
                | (Some e, g) \<Rightarrow> (False, r\<lparr>jr_error := Some e, jr_cancelled := True,
                    jr_value := next\<lparr>jb_state := JobFailed, jb_error := ''persist job summary: '' @ text_of e,
                      jb_finished_at := Some (jg_clock g)\<rparr>, jr_version := jr_version r + 1\<rparr>, g))))"

text \<open>\<open>pruneLocked\<close>: of the finished jobs that are listed, the newest stay.\<close>

definition finished_runs :: "'b job_registry \<Rightarrow> (string \<times> instant) list" where
  "finished_runs g = List.map_filter (\<lambda>i. case run_of g i of
      None \<Rightarrow> None
    | Some r \<Rightarrow> if terminal_job (jb_state (jr_value r)) then Some (i, as_time (jb_finished_at (jr_value r))) else None) (jg_entries g)"

definition prune :: "'b job_registry \<Rightarrow> 'b job_registry" where
  "prune g = (let dropped = List.map fst (drop api_job_history_limit (newest_first (finished_runs g)))
     in g\<lparr>jg_entries := filter (\<lambda>i. i \<notin> set dropped) (jg_entries g)\<rparr>)"

section \<open>Starting, answering and ending jobs\<close>

definition new_job :: "string \<Rightarrow> string \<Rightarrow> string \<Rightarrow> string \<Rightarrow> job_state \<Rightarrow> instant \<Rightarrow> api_job" where
  "new_job i kind item repo state now = \<lparr>jb_id = i, jb_kind = kind, jb_state = state, jb_item = item, jb_repository = repo,
     jb_phase = [], jb_log_tail = [], jb_approval = None, jb_error = [], jb_partial = None, jb_warnings = [],
     jb_created_at = Some now, jb_started_at = None, jb_finished_at = None\<rparr>"

definition new_run :: "string \<Rightarrow> api_job \<Rightarrow> job_point \<Rightarrow> job_run" where
  "new_run key job p = \<lparr>jr_key = key, jr_value = job, jr_version = 0, jr_answer = None, jr_channels = [],
     jr_cancelled = False, jr_error = None, jr_point = p\<rparr>"

definition add_run :: "string \<Rightarrow> job_run \<Rightarrow> 'b job_registry \<Rightarrow> 'b job_registry" where
  "add_run i r g = (set_run i r g)\<lparr>jg_entries := (if i \<in> set (jg_entries g) then jg_entries g else jg_entries g @ [i])\<rparr>"

text \<open>A listed run that still does what is asked for. (The order in which a Go map is visited does not matter: at most
  one run fits, see \<open>one_active_run\<close>.)\<close>

definition active_run :: "string \<Rightarrow> string \<Rightarrow> string \<Rightarrow> string \<Rightarrow> job_run \<Rightarrow> bool" where
  "active_run kind key item repo r \<longleftrightarrow> jr_key r = key \<and> jb_kind (jr_value r) = kind \<and> jb_item (jr_value r) = item
     \<and> jb_repository (jr_value r) = repo \<and> \<not> terminal_job (jb_state (jr_value r))"

definition find_active :: "string \<Rightarrow> string \<Rightarrow> string \<Rightarrow> string \<Rightarrow> 'b job_registry \<Rightarrow> job_run option" where
  "find_active kind key item repo g =
     List.find (active_run kind key item repo) (List.map_filter (run_of g) (jg_entries g))"

text \<open>\<open>startKey\<close>; \<open>i\<close> is the id that \<open>id()\<close> makes. The goroutine of a new job is at its start.\<close>

definition start_key ::
  "('b, stored) bolt \<Rightarrow> (coord_error \<Rightarrow> string) \<Rightarrow> coord_error option \<Rightarrow> string \<Rightarrow> string \<Rightarrow> string \<Rightarrow> string \<Rightarrow> string
   \<Rightarrow> 'b job_registry \<Rightarrow> api_job \<times> 'b job_registry" where
  "start_key B text_of fault i kind key item repo g =
     (let now = jg_clock g in
      if jg_closed g \<or> jg_stopping g
      then (let job = (new_job i kind item repo JobCancelled now)\<lparr>jb_error := ''daemon is stopping'', jb_finished_at := Some now\<rparr>
            in (job, add_run i (new_run [] job Gone) (snd (persist B fault job g))))
      else (let g = prune g in case find_active kind key item repo g of
          Some r \<Rightarrow> (jr_value r, g)
        | None \<Rightarrow> (let job = new_job i kind item repo JobQueued now in case persist B fault job g of
              (Some e, g) \<Rightarrow> (job\<lparr>jb_state := JobFailed, jb_error := text_of e, jb_finished_at := Some now\<rparr>, g)
            | (None, g) \<Rightarrow> (job, add_run i (new_run key job AtStart) g))))"

text \<open>What the change at the end of a job records: the run's error with whether it is \<open>context.Canceled\<close> and the partial
  outcomes it carries, and whether the daemon is stopping.\<close>

datatype run_outcome = Completed | Failure string bool "job_partial list"

definition interrupted_by_restart :: "api_job \<Rightarrow> api_job" where
  "interrupted_by_restart v = v\<lparr>jb_state := JobFailed, jb_error := ''interrupted by a daemon restart''\<rparr>"

definition finish_job :: "bool \<Rightarrow> instant \<Rightarrow> run_outcome \<Rightarrow> api_job \<Rightarrow> api_job" where
  "finish_job stopping now outcome v =
     (let v = v\<lparr>jb_finished_at := Some now, jb_approval := None\<rparr>;
          v = (case outcome of
              Completed \<Rightarrow> v\<lparr>jb_state := JobSucceeded, jb_phase := ''finished''\<rparr>
            | Failure e cancelled partials \<Rightarrow>
                (let v = v\<lparr>jb_state := JobFailed, jb_error := e\<rparr>;
                     v = (if cancelled then (if stopping then interrupted_by_restart v else v\<lparr>jb_state := JobCancelled\<rparr>) else v)
                 in if partials = [] then v else v\<lparr>jb_partial := Some (last partials)\<rparr>))
      in if stopping then interrupted_by_restart v else v)"

datatype job_edit = SetPhase string | SetLogTail string | SetWarnings "string list" | SetRepository string

definition edit_job :: "job_edit \<Rightarrow> api_job \<Rightarrow> api_job" where
  "edit_job e v = (case e of SetPhase x \<Rightarrow> v\<lparr>jb_phase := x\<rparr> | SetLogTail x \<Rightarrow> v\<lparr>jb_log_tail := x\<rparr>
     | SetWarnings x \<Rightarrow> v\<lparr>jb_warnings := x\<rparr> | SetRepository x \<Rightarrow> v\<lparr>jb_repository := x\<rparr>)"

definition begin_job :: "string \<Rightarrow> instant \<Rightarrow> api_job \<Rightarrow> api_job" where
  "begin_job kind now v = v\<lparr>jb_state := JobRunning, jb_started_at := Some now, jb_phase := kind\<rparr>"

definition challenge :: "string \<Rightarrow> string \<Rightarrow> string \<Rightarrow> string \<Rightarrow> instant \<Rightarrow> job_approval" where
  "challenge i question path dg now = \<lparr>jp_challenge = i, jp_question = question, jp_path = path, jp_digest = dg,
     jp_expires_at = now + 600000000000\<rparr>"

definition await_approval :: "job_approval \<Rightarrow> api_job \<Rightarrow> api_job" where
  "await_approval a v = v\<lparr>jb_approval := Some a, jb_state := JobWaiting\<rparr>"

definition resume_job :: "api_job \<Rightarrow> api_job" where
  "resume_job v = v\<lparr>jb_approval := None, jb_state := JobRunning\<rparr>"

text \<open>\<open>get\<close> and \<open>AnswerApproval\<close>.\<close>

definition get_job :: "string \<Rightarrow> 'b job_registry \<Rightarrow> (coord_error, job_run) result" where
  "get_job i g = (if i \<in> set (jg_entries g) then (case run_of g i of Some r \<Rightarrow> Inr r | None \<Rightarrow> Inl NotFound) else Inl NotFound)"

definition answer_run :: "instant \<Rightarrow> string \<Rightarrow> decision \<Rightarrow> job_run \<Rightarrow> (coord_error, job_run) result" where
  "answer_run now c d r =
     (case (jb_approval (jr_value r), jr_answer r) of
        (Some a, Some n) \<Rightarrow>
          if jp_challenge a \<noteq> c \<or> \<not> jp_expires_at a > now then Inl (Refused ''approval challenge is stale or expired'')
          else if jr_channels r ! n \<noteq> None then Inl (Refused ''approval challenge was already answered'')
          else Inr (r\<lparr>jr_channels := (jr_channels r)[n := Some d], jr_answer := None\<rparr>)
      | _ \<Rightarrow> Inl (Refused ''approval challenge is stale or expired''))"

definition answer_approval :: "string \<Rightarrow> string \<Rightarrow> decision \<Rightarrow> 'b job_registry \<Rightarrow> (coord_error, api_job) result \<times> 'b job_registry" where
  "answer_approval i c d g =
     (if d \<noteq> Allow \<and> d \<noteq> Deny then (Inl (Refused ''approval decision is required''), g)
      else (let g = prune g in case get_job i g of
          Inl e \<Rightarrow> (Inl e, g)
        | Inr r \<Rightarrow> (case answer_run (jg_clock g) c d r of
            Inl e \<Rightarrow> (Inl e, g)
          | Inr r \<Rightarrow> (Inr (jr_value r), set_run i r g))))"

text \<open>\<open>CancelJob\<close> and \<open>wait\<close>; \<open>cancel\<close> does nothing on a run that has no context of its own.\<close>

definition cancel_run :: "job_run \<Rightarrow> job_run" where
  "cancel_run r = r\<lparr>jr_cancelled := True\<rparr>"

definition cancel_job :: "string \<Rightarrow> 'b job_registry \<Rightarrow> (coord_error, api_job) result \<times> 'b job_registry" where
  "cancel_job i g = (let g = prune g in case get_job i g of
       Inl e \<Rightarrow> (Inl e, g) | Inr r \<Rightarrow> (Inr (jr_value r), set_run i (cancel_run r) g))"

definition close_registry :: "'b job_registry \<Rightarrow> 'b job_registry" where
  "close_registry g = g\<lparr>jg_closed := True,
     jg_runs := List.map (\<lambda>(i, r). (i, if i \<in> set (jg_entries g) then cancel_run r else r)) (jg_runs g)\<rparr>"

definition list_jobs :: "string \<Rightarrow> bool \<Rightarrow> 'b job_registry \<Rightarrow> api_job list \<times> 'b job_registry" where
  "list_jobs item running g = (let g = prune g;
       vs = filter (\<lambda>v. (item = [] \<or> jb_item v = item) \<and> (\<not> running \<or> \<not> terminal_job (jb_state v)))
         (List.map jr_value (List.map_filter (run_of g) (jg_entries g)))
     in (stable_sort (\<lambda>v w. as_time (jb_created_at v) > as_time (jb_created_at w)) vs, g))"

section \<open>A restart\<close>

definition empty_registry :: "instant \<Rightarrow> 'b tx_state \<Rightarrow> 'b job_registry" where
  "empty_registry now t = \<lparr>jg_runs = [], jg_entries = [], jg_closed = False, jg_stopping = False, jg_error = None,
     jg_tx = t, jg_clock = now\<rparr>"

definition interrupt_job :: "instant \<Rightarrow> api_job \<Rightarrow> api_job" where
  "interrupt_job now v = (interrupted_by_restart v)\<lparr>jb_approval := None, jb_finished_at := Some now\<rparr>"

text \<open>The loop of \<open>newPersistentJobRegistry\<close>; \<open>faults\<close> are the errors of the writes, by the id of the job.\<close>

fun load_runs ::
  "('b, stored) bolt \<Rightarrow> (string \<Rightarrow> coord_error option) \<Rightarrow> api_job list \<Rightarrow> 'b job_registry \<Rightarrow> (coord_error, 'b job_registry) result" where
  "load_runs B faults [] g = Inr g"
| "load_runs B faults (v # vs) g =
     (if jb_id v = [] then Inl (Refused ''persisted job has no ID'')
      else if terminal_job (jb_state v) then load_runs B faults vs (add_run (jb_id v) (new_run [] v Gone) g)
      else (let v = interrupt_job (jg_clock g) v in case persist B (faults (jb_id v)) v g of
          (Some e, _) \<Rightarrow> Inl e
        | (None, g) \<Rightarrow> load_runs B faults vs (add_run (jb_id v) (new_run [] v Gone) g)))"

definition open_registry ::
  "('b, stored) bolt \<Rightarrow> (string \<Rightarrow> coord_error option) \<Rightarrow> instant \<Rightarrow> 'b tx_state \<Rightarrow> (coord_error, 'b job_registry) result" where
  "open_registry B faults now t = rbind (api_jobs B t) (\<lambda>vs.
     rbind (load_runs B faults vs (empty_registry now t)) (\<lambda>g. Inr (prune g)))"

section \<open>The steps of the goroutines\<close>

text \<open>What the goroutine of a job does next. The run function is the program that runs the job's work: it edits the job,
  asks for approvals and ends. \<open>approve\<close> is the sequence from \<open>Offer\<close> (a challenge with the digest the file has, and
  the channel for its answer) to \<open>Check\<close> (the digest the file has then).\<close>

datatype job_event =
    Begin
  | Edit job_edit
  | Offer string string string string
  | Show
  | Take
  | Abandon
  | Expire
  | Resume
  | Check string
  | Finish run_outcome
  | Retire

definition in_run :: "job_point \<Rightarrow> bool" where
  "in_run p \<longleftrightarrow> p \<noteq> AtStart \<and> p \<noteq> Finishing \<and> p \<noteq> Gone"

definition goto :: "job_point \<Rightarrow> bool \<times> job_run \<times> 'b job_registry \<Rightarrow> job_run \<times> 'b job_registry" where
  "goto p x = ((fst (snd x))\<lparr>jr_point := p\<rparr>, snd (snd x))"

definition run_step ::
  "('b, stored) bolt \<Rightarrow> (coord_error \<Rightarrow> string) \<Rightarrow> coord_error option \<Rightarrow> job_event \<Rightarrow> job_run \<Rightarrow> 'b job_registry
   \<Rightarrow> (job_run \<times> 'b job_registry) option" where
  "run_step B text_of fault e r g = (case e of
     Begin \<Rightarrow> if jr_point r \<noteq> AtStart then None
       else (let x = change B text_of fault (begin_job (jb_kind (jr_value r)) (jg_clock g)) r g
         in Some (if fst x then goto Working x else goto Gone (False, cancel_run (fst (snd x)), snd (snd x))))
   | Edit e \<Rightarrow> if \<not> in_run (jr_point r) then None
       else (let x = change B text_of fault (edit_job e) r g in Some (goto (jr_point r) x))
   | Offer question path c dg \<Rightarrow> if jr_point r \<noteq> Working \<and> jr_point r \<noteq> Asking question path then None
       else (let n = length (jr_channels r)
         in Some (r\<lparr>jr_channels := jr_channels r @ [None], jr_answer := Some n,
              jr_point := Offering (challenge c question path dg (jg_clock g)) n\<rparr>, g))
   | Show \<Rightarrow> (case jr_point r of
        Offering a n \<Rightarrow> (let x = change B text_of fault (await_approval a) r g
          in Some (goto (if fst x then Waiting a n else Working) x))
      | _ \<Rightarrow> None)
   | Take \<Rightarrow> (case jr_point r of
        Waiting a n \<Rightarrow> (case jr_channels r ! n of
            Some d \<Rightarrow> Some (r\<lparr>jr_channels := (jr_channels r)[n := None], jr_point := Answered a d\<rparr>, g)
          | None \<Rightarrow> None)
      | _ \<Rightarrow> None)
   | Abandon \<Rightarrow> (case jr_point r of
        Waiting a n \<Rightarrow> if jr_cancelled r \<or> jg_stopping g then Some (r\<lparr>jr_point := Working\<rparr>, g) else None
      | _ \<Rightarrow> None)
   | Expire \<Rightarrow> (case jr_point r of
        Waiting a n \<Rightarrow> if jp_expires_at a \<le> jg_clock g then Some (r\<lparr>jr_point := Working\<rparr>, g) else None
      | _ \<Rightarrow> None)
   | Resume \<Rightarrow> (case jr_point r of
        Answered a d \<Rightarrow> (let x = change B text_of fault resume_job r g
          in Some (goto (if d = Deny then Working else Checking a) x))
      | _ \<Rightarrow> None)
   | Check dg \<Rightarrow> (case jr_point r of
        Checking a \<Rightarrow> Some (r\<lparr>jr_point := (if dg \<noteq> jp_digest a then Asking (jp_question a) (jp_path a) else Working)\<rparr>, g)
      | _ \<Rightarrow> None)
   | Finish outcome \<Rightarrow> if jr_point r \<noteq> Working then None
       else Some (goto Finishing (change B text_of fault (finish_job (jg_stopping g) (jg_clock g) outcome) r g))
   | Retire \<Rightarrow> if jr_point r \<noteq> Finishing then None
       else Some ((cancel_run r)\<lparr>jr_point := Gone\<rparr>, prune g))"

text \<open>The steps of the registry: a request, a step of a goroutine, the daemon stopping, time passing, and the rest of the
  daemon writing other projections. \<open>id()\<close> makes an id that no job and no record has.\<close>

datatype job_label =
    Request string string string string string
  | Run string job_event
  | Reply string string decision
  | Cancel string
  | Look
  | Stop
  | Close
  | Tick
  | Elsewhere

inductive job_step ::
  "('b, stored) bolt \<Rightarrow> ('b \<Rightarrow> bool) \<Rightarrow> (coord_error \<Rightarrow> string) \<Rightarrow> 'b job_registry \<Rightarrow> job_label \<Rightarrow> 'b job_registry \<Rightarrow> bool"
  for B ok text_of where
  request: "run_of g i = None \<Longrightarrow> i \<noteq> [] \<Longrightarrow> get_projection B api_jobs_projection i (jg_tx g) = None
    \<Longrightarrow> start_key B text_of fault i kind key item repo g = (v, g') \<Longrightarrow> job_step B ok text_of g (Request i kind key item repo) g'"
| run: "run_of g i = Some r \<Longrightarrow> run_step B text_of fault e r g = Some (r', g') \<Longrightarrow> job_step B ok text_of g (Run i e) (set_run i r' g')"
| reply: "answer_approval i c d g = (Inr v, g') \<Longrightarrow> job_step B ok text_of g (Reply i c d) g'"
| cancel: "cancel_job i g = (x, g') \<Longrightarrow> job_step B ok text_of g (Cancel i) g'"
| look: "job_step B ok text_of g Look (prune g)"
| stop: "job_step B ok text_of g Stop (g\<lparr>jg_stopping := True\<rparr>)"
| close: "job_step B ok text_of g Close (close_registry g)"
| tick: "jg_clock g \<le> now \<Longrightarrow> job_step B ok text_of g Tick (g\<lparr>jg_clock := now\<rparr>)"
| elsewhere: "tx_ok ok t \<Longrightarrow> (\<And>i. get_projection B api_jobs_projection i t = get_projection B api_jobs_projection i (jg_tx g))
    \<Longrightarrow> job_step B ok text_of g Elsewhere (g\<lparr>jg_tx := t\<rparr>)"

text \<open>The challenges a trace made; a new one has an id none of them has.\<close>

fun offered :: "job_label list \<Rightarrow> string list" where
  "offered [] = []"
| "offered (l # ls) = (case l of Run i e \<Rightarrow> (case e of Offer q p c dg \<Rightarrow> [c] | _ \<Rightarrow> []) | _ \<Rightarrow> []) @ offered ls"

inductive job_trace ::
  "('b, stored) bolt \<Rightarrow> ('b \<Rightarrow> bool) \<Rightarrow> (coord_error \<Rightarrow> string) \<Rightarrow> 'b job_registry \<Rightarrow> job_label list \<Rightarrow> 'b job_registry \<Rightarrow> bool"
  for B ok text_of g0 where
  no_step: "job_trace B ok text_of g0 [] g0"
| one_more: "job_trace B ok text_of g0 tr g \<Longrightarrow> job_step B ok text_of g l g' \<Longrightarrow> distinct (offered (tr @ [l]))
    \<Longrightarrow> job_trace B ok text_of g0 (tr @ [l]) g'"

inductive_cases requestE: "job_step B ok text_of g (Request i kind key item repo) g'"

section \<open>The bounded history\<close>

interpretation newest: weak_order newer
  by unfold_locales (auto simp: newer_def split: if_splits)

text \<open>What is behind the first \<open>n\<close> of a strictly sorted list has at least \<open>n\<close> elements before it.\<close>

lemma in_drop_iff:
  assumes "sorted_wrt R xs" and "\<And>x y. R x y \<Longrightarrow> \<not> R y x" and "\<And>x. \<not> R x x" and "x \<in> set xs"
  shows "x \<in> set (drop n xs) \<longleftrightarrow> n \<le> card {y \<in> set xs. R y x}"
  using assms(1,4)
proof (induction xs arbitrary: n)
  case (Cons y ys)
  have d: "y \<notin> set ys" using Cons.prems(1) assms(3) by auto
  show ?case
  proof (cases "x = y")
    case True
    then have "{z \<in> set (y # ys). R z x} = {}" using Cons.prems(1) assms(2,3) by auto
    then have "card {z \<in> set (y # ys). R z x} = 0" by simp
    moreover have "x \<notin> set (drop k ys)" for k using d True by (meson in_set_dropD)
    ultimately show ?thesis using True by (cases n) (simp_all only: drop0 drop_Suc_Cons, simp_all)
  next
    case False
    then have x: "x \<in> set ys" "R y x" using Cons.prems by auto
    then have "{z \<in> set (y # ys). R z x} = insert y {z \<in> set ys. R z x}" by auto
    then have "card {z \<in> set (y # ys). R z x} = Suc (card {z \<in> set ys. R z x})" using d by simp
    then show ?thesis using Cons.IH [of "n - 1"] Cons.prems(1) x(1) False by (cases n) auto
  qed
qed simp

lemma newest_first_sorted:
  assumes "distinct (List.map fst xs)"
  shows "sorted_wrt newer (newest_first xs)"
proof -
  have "distinct (List.map fst (newest_first xs))"
    using assms unfolding newest_first_def by (metis mset_map mset_stable_sort mset_eq_imp_distinct_iff)
  moreover have "sorted_wrt (\<lambda>a b. \<not> newer b a) (newest_first xs)"
    using newest.sorted_stable_sort by (simp add: newest_first_def)
  moreover have "sorted_wrt newer ys" if "distinct (List.map fst ys)" "sorted_wrt (\<lambda>a b. \<not> newer b a) ys" for ys
    using that by (induction ys) (force simp: newer_def split: if_splits)+
  ultimately show ?thesis by blast
qed


lemma set_newest_first [simp]: "set (newest_first xs) = set xs"
  by (simp add: newest_first_def)

text \<open>An element is behind the first \<open>n\<close> exactly when at least \<open>n\<close> are newer.\<close>

lemma dropped_iff:
  assumes "distinct (List.map fst xs)"
  shows "i \<in> fst ` set (drop n (newest_first xs)) \<longleftrightarrow> (\<exists>at. (i, at) \<in> set xs \<and> n \<le> card {y \<in> set xs. newer y (i, at)})"
proof -
  have "(i, at) \<in> set (drop n (newest_first xs)) \<longleftrightarrow> (i, at) \<in> set xs \<and> n \<le> card {y \<in> set xs. newer y (i, at)}" for at
  proof (cases "(i, at) \<in> set xs")
    case True
    then show ?thesis
      using in_drop_iff [OF newest_first_sorted [OF assms] newest.asymmetric newest.irreflexive, of "(i, at)" n] by simp
  next
    case False
    then show ?thesis using in_set_dropD [of "(i, at)" n "newest_first xs"] by auto
  qed
  then show ?thesis by force
qed

definition stored_job :: "stored \<Rightarrow> bool" where
  "stored_job v \<longleftrightarrow> (\<exists>job at. v = StJob job at)"

definition jobs_stored :: "('b, stored) bolt \<Rightarrow> 'b tx_state \<Rightarrow> bool" where
  "jobs_stored B t \<longleftrightarrow> (\<forall>i v. get_projection B api_jobs_projection i t = Some v \<longrightarrow> stored_job v)"

text \<open>The finished records.\<close>

definition finished_records :: "('b, stored) bolt \<Rightarrow> 'b tx_state \<Rightarrow> (string \<times> instant) set" where
  "finished_records B t = {(i, at). \<exists>job. get_projection B api_jobs_projection i t = Some (StJob job at) \<and> \<not> is_zero_time at}"

lemma finished_entries_ok:
  assumes "\<forall>x\<in>set xs. stored_job (snd x)"
  shows "\<exists>es. finished_entries xs = Inr es \<and> set es = {(i, at). \<exists>job. (i, StJob job at) \<in> set xs \<and> \<not> is_zero_time at}
    \<and> (distinct (List.map fst xs) \<longrightarrow> distinct (List.map fst es))"
  using assms
proof (induction xs)
  case (Cons x xs)
  then obtain es where es: "finished_entries xs = Inr es" "set es = {(i, at). \<exists>job. (i, StJob job at) \<in> set xs \<and> \<not> is_zero_time at}"
      "distinct (List.map fst xs) \<longrightarrow> distinct (List.map fst es)" by auto
  obtain i job at where "x = (i, StJob job at)" using Cons.prems by (cases x) (auto simp: stored_job_def)
  moreover from this have "i \<notin> fst ` set es" if "distinct (List.map fst (x # xs))" using that es(2) by force
  ultimately show ?case using es by auto
qed simp

lemma job_records_ok:
  assumes "\<forall>x\<in>set xs. stored_job (snd x)"
  shows "\<exists>js. job_records xs = Inr js \<and> set js = {job. \<exists>i at. (i, StJob job at) \<in> set xs}"
  using assms
proof (induction xs)
  case (Cons x xs)
  then obtain js where "job_records xs = Inr js" "set js = {job. \<exists>i at. (i, StJob job at) \<in> set xs}" by auto
  moreover obtain i job at where "x = (i, StJob job at)" using Cons.prems by (cases x) (auto simp: stored_job_def)
  ultimately show ?case by auto
qed simp

context event_store
begin

lemma get_fold_delete:
  "ok b \<Longrightarrow> ok (fold (b_delete B) ks b) \<and> b_get B (fold (b_delete B) ks b) k = (if k \<in> set ks then None else b_get B b k)"
  by (induction ks arbitrary: b) (simp_all add: ok_delete get_delete)

lemma job_bucket:
  assumes "tx_ok ok t"
  shows "ok (b_put B i v (projection_bucket B api_jobs_projection t))"
    and "b_get B (b_put B i v (projection_bucket B api_jobs_projection t)) k
      = (if k = i then Some v else get_projection B api_jobs_projection k t)"
  using assms
  by (auto simp: projection_bucket_def get_projection_def tx_ok_def ok_put get_put ok_empty get_empty split: option.splits)

lemma get_set_projection:
  "get_projection B name' k (set_projection name b t) = (if name' = name then b_get B b k else get_projection B name' k t)"
  by (simp add: get_projection_def set_projection_def)

lemma tx_ok_set_projection: "tx_ok ok t \<Longrightarrow> ok b \<Longrightarrow> tx_ok ok (set_projection name b t)"
  by (simp add: tx_ok_def set_projection_def)

text \<open>What saving a record does, with the other projections as they were.\<close>

lemma save_api_job_spec:
  fixes i job at t
  defines "t1 \<equiv> put_projection B api_jobs_projection i (StJob job at) t"
  assumes "tx_ok ok t" and "jobs_stored B t"
  shows "\<exists>t'. save_api_job B i job at t = Inr t' \<and> tx_ok ok t'
    \<and> (\<forall>name k. get_projection B name k t' = (if name = api_jobs_projection \<and> \<not> is_zero_time at
          \<and> (\<exists>u. (k, u) \<in> finished_records B t1 \<and> api_job_history_limit \<le> card {y \<in> finished_records B t1. newer y (k, u)})
        then None else get_projection B name k t1))"
proof -
  let ?b = "b_put B i (StJob job at) (projection_bucket B api_jobs_projection t)"
  have t1: "t1 = set_projection api_jobs_projection ?b t" by (simp add: t1_def put_projection_def)
  note b = job_bucket [OF assms(2)]
  have ok1: "tx_ok ok t1" unfolding t1 by (rule tx_ok_set_projection [OF assms(2) b(1)])
  show ?thesis
  proof (cases "is_zero_time at")
    case True
    then show ?thesis using ok1 by (simp add: save_api_job_def Let_def t1)
  next
    case False
    have stored: "\<forall>x\<in>set (b_entries B ?b). stored_job (snd x)"
      using b entries_get [OF b(1)] assms(3) by (auto simp: jobs_stored_def stored_job_def split: if_splits)
    obtain es where es: "finished_entries (b_entries B ?b) = Inr es"
      "set es = {(i, at). \<exists>job. (i, StJob job at) \<in> set (b_entries B ?b) \<and> \<not> is_zero_time at}" "distinct (List.map fst es)"
      using finished_entries_ok [OF stored] entries_distinct [OF b(1)] by blast
    have "set es = finished_records B t1"
      unfolding es(2) using entries_get [OF b(1)] by (auto simp: finished_records_def t1 get_set_projection)
    note dropped = dropped_iff [OF es(3), of _ api_job_history_limit, unfolded this]
    let ?ks = "List.map fst (drop api_job_history_limit (newest_first es))"
    have s: "save_api_job B i job at t = Inr (set_projection api_jobs_projection (fold (b_delete B) ?ks ?b) t)"
      using False es(1) by (simp add: save_api_job_def Let_def)
    show ?thesis
      unfolding s using get_fold_delete [OF b(1), of ?ks] dropped False
      by (auto simp: tx_ok_set_projection [OF assms(2)] get_set_projection t1)
  qed
qed

end


section \<open>What a step changes\<close>

named_theorems job_defs

lemma run_of_set_run [simp]: "run_of (set_run i r g) j = (if j = i then Some r else run_of g j)"
  by (simp add: run_of_def set_run_def update_conv)

lemma set_run_fields [simp]:
  "jg_entries (set_run i r g) = jg_entries g" "jg_closed (set_run i r g) = jg_closed g"
  "jg_stopping (set_run i r g) = jg_stopping g" "jg_tx (set_run i r g) = jg_tx g" "jg_clock (set_run i r g) = jg_clock g"
  by (simp_all add: set_run_def)

lemma empty_registry_fields [simp]:
  "run_of (empty_registry now t) i = None" "jg_tx (empty_registry now t) = t" "jg_clock (empty_registry now t) = now"
  by (simp_all add: run_of_def empty_registry_def)

lemma prune_fields [simp]:
  "run_of (prune g) i = run_of g i" "jg_closed (prune g) = jg_closed g" "jg_stopping (prune g) = jg_stopping g"
  "jg_tx (prune g) = jg_tx g" "jg_clock (prune g) = jg_clock g"
  by (simp_all add: prune_def run_of_def Let_def)

lemma add_run_fields [simp]:
  "run_of (add_run i r g) j = (if j = i then Some r else run_of g j)" "jg_closed (add_run i r g) = jg_closed g"
  "jg_stopping (add_run i r g) = jg_stopping g" "jg_tx (add_run i r g) = jg_tx g" "jg_clock (add_run i r g) = jg_clock g"
  by (simp_all add: add_run_def run_of_def set_run_def update_conv)

lemma persist_fields:
  assumes "persist B fault job g = (e, g')"
  shows "run_of g' i = run_of g i" "jg_entries g' = jg_entries g" "jg_closed g' = jg_closed g"
    "jg_stopping g' = jg_stopping g" "jg_clock g' = jg_clock g"
  using assms by (auto simp: persist_def run_of_def split: option.splits sum.splits)

lemma map_filter_iff: "y \<in> set (List.map_filter f xs) \<longleftrightarrow> (\<exists>x\<in>set xs. f x = Some y)"
  by (induction xs) (auto simp: map_filter_simps split: option.splits)

lemma in_finished_runs:
  "(i, at) \<in> set (finished_runs g) \<longleftrightarrow> i \<in> set (jg_entries g) \<and> (\<exists>r. run_of g i = Some r
     \<and> terminal_job (jb_state (jr_value r)) \<and> at = as_time (jb_finished_at (jr_value r)))"
  unfolding finished_runs_def map_filter_iff by (auto split: option.splits if_splits)

lemma run_of_close: "run_of (close_registry g) i = map_option (\<lambda>r. if i \<in> set (jg_entries g) then cancel_run r else r) (run_of g i)"
proof -
  have "map_of (List.map (\<lambda>(i, r). (i, f i r)) xs) i = map_option (f i) (map_of xs i)" for f :: "string \<Rightarrow> job_run \<Rightarrow> job_run" and xs
    by (induction xs) auto
  from this [of "\<lambda>i r. if i \<in> set (jg_entries g) then cancel_run r else r"] show ?thesis
    by (simp add: close_registry_def run_of_def)
qed

lemma close_fields [simp]:
  "jg_entries (close_registry g) = jg_entries g" "jg_stopping (close_registry g) = jg_stopping g"
  "jg_tx (close_registry g) = jg_tx g" "jg_clock (close_registry g) = jg_clock g"
  by (simp_all add: close_registry_def)

text \<open>A change keeps all of the run but its value, its version, its error and, when it fails, its context.\<close>

lemma change_cases:
  assumes "change B text_of fault f r g = (ok, r', g')"
  obtains (refused) e where "\<not> ok" "jr_error r = Some e" "r' = r" "g' = g"
  | (same) "ok" "jr_error r = None" "f (jr_value r) = jr_value r" "r' = r" "g' = g"
  | (saved) "ok" "jr_error r = None" "f (jr_value r) \<noteq> jr_value r" "persist B fault (f (jr_value r)) g = (None, g')"
      "r' = r\<lparr>jr_value := f (jr_value r), jr_version := jr_version r + 1\<rparr>"
  | (failed) e where "\<not> ok" "jr_error r = None" "f (jr_value r) \<noteq> jr_value r" "persist B fault (f (jr_value r)) g = (Some e, g')"
      "r' = r\<lparr>jr_error := Some e, jr_cancelled := True, jr_value := (f (jr_value r))\<lparr>jb_state := JobFailed,
        jb_error := ''persist job summary: '' @ text_of e, jb_finished_at := Some (jg_clock g')\<rparr>, jr_version := jr_version r + 1\<rparr>"
  using assms by (auto simp: change_def Let_def split: if_splits prod.splits option.splits)

lemma change_fields:
  assumes "change B text_of fault f r g = (ok, r', g')"
  shows "run_of g' i = run_of g i" "jg_entries g' = jg_entries g" "jg_closed g' = jg_closed g"
    "jg_stopping g' = jg_stopping g" "jg_clock g' = jg_clock g"
    "jr_key r' = jr_key r" "jr_answer r' = jr_answer r" "jr_channels r' = jr_channels r" "jr_point r' = jr_point r"
    "jr_cancelled r \<Longrightarrow> jr_cancelled r'" "\<not> ok \<Longrightarrow> jr_error r' \<noteq> None"
    "(jr_error r \<noteq> None \<longrightarrow> jr_cancelled r) \<Longrightarrow> jr_error r' \<noteq> None \<longrightarrow> jr_cancelled r'"
    "jr_error r' = None \<Longrightarrow> jr_value r' = f (jr_value r) \<and> jr_error r = None"
  using assms by (cases rule: change_cases; auto simp: persist_fields)+

lemma triple: "x = (fst x, fst (snd x), snd (snd x))"
  by simp

lemmas change_frame [simp] = change_fields(1-9) [OF triple]

lemma run_step_registry:
  assumes "run_step B text_of fault e r g = Some (r', g')"
  shows "run_of g' i = run_of g i" "jg_stopping g' = jg_stopping g" "jg_clock g' = jg_clock g" "jg_closed g' = jg_closed g"
  using assms
  by (auto simp: run_step_def goto_def Let_def split: job_event.splits job_point.splits if_splits option.splits)

lemma start_key_registry:
  assumes "start_key B text_of fault i kind key item repo g = (v, g')"
  shows "jg_stopping g' = jg_stopping g" "jg_clock g' = jg_clock g" "jg_closed g' = jg_closed g"
    "\<And>j. run_of g' j = run_of g j \<or> j = i \<and> (\<exists>r. run_of g' i = Some r \<and> jr_channels r = [] \<and> jr_answer r = None
       \<and> jr_error r = None \<and> jb_approval (jr_value r) = None \<and> (jr_point r = AtStart \<or> jr_point r = Gone))"
proof -
  have "run_of (snd (persist B fault job g)) j = run_of g j" "jg_stopping (snd (persist B fault job g)) = jg_stopping g"
    "jg_clock (snd (persist B fault job g)) = jg_clock g" "jg_closed (snd (persist B fault job g)) = jg_closed g" for job j
    by (simp_all add: persist_fields [OF prod.collapse [symmetric]])
  then show "jg_stopping g' = jg_stopping g" "jg_clock g' = jg_clock g" "jg_closed g' = jg_closed g"
    "\<And>j. run_of g' j = run_of g j \<or> j = i \<and> (\<exists>r. run_of g' i = Some r \<and> jr_channels r = [] \<and> jr_answer r = None
       \<and> jr_error r = None \<and> jb_approval (jr_value r) = None \<and> (jr_point r = AtStart \<or> jr_point r = Gone))"
    using assms by (auto simp: start_key_def Let_def new_run_def new_job_def persist_fields split: if_splits option.splits prod.splits)
qed

text \<open>What a step does to a run: nothing, cancel it, make it, let it do its next step, or hand it an answer.\<close>

lemma job_step_run:
  assumes "job_step B ok text_of g l g'" and "run_of g' i = Some r'"
  obtains (kept) "run_of g i = Some r'"
  | (cancelled) r where "run_of g i = Some r" "r' = cancel_run r"
  | (made) kind key item repo where "l = Request i kind key item repo" "run_of g i = None" "jr_channels r' = []" "jr_answer r' = None"
      "jr_error r' = None" "jb_approval (jr_value r') = None" "jr_point r' = AtStart \<or> jr_point r' = Gone"
  | (stepped) fault e r g'' where "l = Run i e" "run_of g i = Some r" "run_step B text_of fault e r g = Some (r', g'')"
  | (answered) c d r where "l = Reply i c d" "run_of g i = Some r" "answer_run (jg_clock g) c d r = Inr r'" "d \<noteq> Unspecified"
  using assms(1)
proof cases
  case (request i' fault kind key item repo v)
  then show thesis using start_key_registry(4) [OF request(5), of i] assms(2) kept made by (metis option.inject)
next
  case (run i' r fault e r'' g'')
  then show thesis using assms(2) kept stepped by (auto simp: run_step_registry split: if_splits)
next
  case (reply i' c d v)
  then show thesis
    using assms(2) kept answered
    by (auto simp: answer_approval_def get_job_def Let_def split: if_splits sum.splits option.splits; cases d; auto)
next
  case (cancel i' x)
  then show thesis
    using assms(2) kept cancelled by (auto simp: cancel_job_def get_job_def Let_def split: if_splits sum.splits option.splits)
next
  case close
  then show thesis using assms(2) kept cancelled by (auto simp: run_of_close split: if_splits)
next
  case look
  then show thesis using assms(2) kept by simp
qed (use assms(2) kept in \<open>auto simp: run_of_def\<close>)

lemma job_step_grows:
  assumes "job_step B ok text_of g l g'"
  shows "jg_clock g \<le> jg_clock g'" "jg_stopping g \<Longrightarrow> jg_stopping g'"
  using assms
  by (cases; auto simp: start_key_registry run_step_registry answer_approval_def cancel_job_def Let_def split: if_splits sum.splits)+


section \<open>Approvals\<close>

definition lapsed :: "instant \<Rightarrow> job_run \<Rightarrow> bool" where
  "lapsed now r \<longleftrightarrow> (case jb_approval (jr_value r) of None \<Rightarrow> True | Some a \<Rightarrow> jp_expires_at a \<le> now)"

definition made :: "job_label list \<Rightarrow> string \<Rightarrow> job_approval \<Rightarrow> bool" where
  "made tr i a \<longleftrightarrow> Run i (Offer (jp_question a) (jp_path a) (jp_challenge a) (jp_digest a)) \<in> set tr"

definition replied :: "job_label list \<Rightarrow> string \<Rightarrow> job_approval \<Rightarrow> decision \<Rightarrow> bool" where
  "replied tr i a d \<longleftrightarrow> Reply i (jp_challenge a) d \<in> set tr \<and> d \<noteq> Unspecified"

text \<open>What holds of a run that is not cancelled where it is in \<open>approve\<close>.\<close>

definition at_point :: "job_label list \<Rightarrow> instant \<Rightarrow> string \<Rightarrow> job_run \<Rightarrow> bool" where
  "at_point tr now i r = (case jr_point r of
     AtStart \<Rightarrow> lapsed now r
   | Working \<Rightarrow> lapsed now r
   | Asking q p \<Rightarrow> lapsed now r
   | Offering a n \<Rightarrow> lapsed now r \<and> made tr i a \<and> Suc n = length (jr_channels r) \<and> jr_channels r ! n = None
   | Waiting a n \<Rightarrow> jb_approval (jr_value r) = Some a \<and> made tr i a \<and> Suc n = length (jr_channels r)
       \<and> (\<forall>d. jr_channels r ! n = Some d \<longrightarrow> replied tr i a d)
   | Answered a d \<Rightarrow> made tr i a \<and> replied tr i a d
   | Checking a \<Rightarrow> lapsed now r \<and> made tr i a \<and> replied tr i a Allow
   | _ \<Rightarrow> True)"

definition approval_inv :: "job_label list \<Rightarrow> bool \<Rightarrow> instant \<Rightarrow> string \<Rightarrow> job_run \<Rightarrow> bool" where
  "approval_inv tr stopping now i r \<longleftrightarrow> (jr_error r \<noteq> None \<longrightarrow> jr_cancelled r)
     \<and> (\<forall>n. jr_answer r = Some n \<longrightarrow> Suc n \<le> length (jr_channels r))
     \<and> (\<not> jr_cancelled r \<and> \<not> stopping \<longrightarrow> at_point tr now i r \<and> (\<forall>n. jr_answer r = Some n \<longrightarrow> Suc n = length (jr_channels r)))"

lemma at_point_later:
  assumes "at_point tr now i r" and "now \<le> now'" and "set tr \<subseteq> set tr'"
  shows "at_point tr' now' i r"
  using assms by (auto simp: at_point_def lapsed_def made_def replied_def split: job_point.splits option.splits)

lemma approval_inv_later:
  assumes "approval_inv tr stopping now i r" and "now \<le> now'" and "set tr \<subseteq> set tr'" and "stopping \<longrightarrow> stopping'"
  shows "approval_inv tr' stopping' now' i r"
  using assms at_point_later by (auto simp: approval_inv_def)

lemma approval_inv_cancel: "approval_inv tr stopping now i r \<Longrightarrow> approval_inv tr stopping now i (cancel_run r)"
  by (simp add: approval_inv_def cancel_run_def)

lemma approval_inv_answer:
  assumes "approval_inv tr stopping now i r" and "answer_run now c d r = Inr r'" and "d \<noteq> Unspecified"
  shows "approval_inv (tr @ [Reply i c d]) stopping now i r'"
proof -
  obtain a n where a: "jb_approval (jr_value r) = Some a" "jr_answer r = Some n" "jp_challenge a = c" "jp_expires_at a > now"
      "jr_channels r ! n = None" "r' = r\<lparr>jr_channels := (jr_channels r)[n := Some d], jr_answer := None\<rparr>"
    using assms(2) by (auto simp: answer_run_def split: option.splits if_splits)
  have "at_point (tr @ [Reply i c d]) now i r'" if "\<not> jr_cancelled r" "\<not> stopping"
  proof -
    have "at_point tr now i r" "Suc n = length (jr_channels r)"
      using assms(1) that a(2) by (auto simp: approval_inv_def)
    then show ?thesis
      using a assms(3) unfolding a(6)
      by (auto simp: at_point_def lapsed_def made_def replied_def nth_list_update split: job_point.splits)
  qed
  then show ?thesis using assms(1) a(6) by (auto simp: approval_inv_def)
qed

lemma change_lapsed:
  assumes "change B text_of fault f r g = (ok, r', g')" and "lapsed now r"
    and "\<And>v. jb_approval (f v) = jb_approval v \<or> jb_approval (f v) = None"
  shows "lapsed now r'"
  using assms(1)
proof (cases rule: change_cases)
  case saved
  then show ?thesis using assms(2) assms(3) [of "jr_value r"] by (auto simp: lapsed_def split: option.splits)
next
  case (failed e)
  then show ?thesis using assms(2) assms(3) [of "jr_value r"] by (auto simp: lapsed_def split: option.splits)
qed (use assms(2) in auto)

lemma edit_approval: "jb_approval (edit_job e v) = jb_approval v" "jb_approval (begin_job k now v) = jb_approval v"
    "jb_approval (resume_job v) = None" "jb_approval (finish_job s now out v) = None" "jb_approval (await_approval a v) = Some a"
  by (simp_all add: edit_job_def begin_job_def resume_job_def finish_job_def interrupted_by_restart_def await_approval_def Let_def
      split: job_edit.splits run_outcome.splits)

text \<open>A change of a run that has no error of its own keeps where it is.\<close>

lemma approval_inv_change:
  assumes "change B text_of fault f r g = (ok, r', g')" and "approval_inv tr stopping now i r"
    and "\<not> jr_cancelled r' \<Longrightarrow> \<not> stopping \<Longrightarrow> at_point tr now i r \<Longrightarrow> at_point tr now i (r'\<lparr>jr_point := p\<rparr>)"
  shows "approval_inv tr stopping now i (r'\<lparr>jr_point := p\<rparr>)"
proof -
  note fr = change_fields [OF assms(1)]
  show ?thesis using assms(2,3) fr(7,8,10,12) by (auto simp: approval_inv_def)
qed

lemma at_point_set:
  "at_point tr now i (r\<lparr>jr_point := p\<rparr>) = at_point tr now i r" if "p = jr_point r"
  using that by simp

lemma approval_inv_step:
  assumes "run_step B text_of fault e r g = Some (r', g')" and "approval_inv tr (jg_stopping g) (jg_clock g) i r"
  shows "approval_inv (tr @ [Run i e]) (jg_stopping g) (jg_clock g) i r'"
proof -
  let ?at = "at_point (tr @ [Run i e]) (jg_clock g) i"
  let ?inv = "approval_inv (tr @ [Run i e]) (jg_stopping g) (jg_clock g) i"
  have inv: "?inv r" by (rule approval_inv_later [OF assms(2)]) auto
  have ended: "?inv (r''\<lparr>jr_point := p\<rparr>)" "?inv ((cancel_run r'')\<lparr>jr_point := p\<rparr>)"
    if "change B text_of fault f r g = (ok, r'', g'')" "p = Finishing \<or> p = Gone" for f ok r'' g'' p
    using approval_inv_change [OF that(1) inv, of p] that(2) by (auto simp: at_point_def approval_inv_def cancel_run_def)
  show ?thesis
  proof (cases e)
    case Begin
    obtain ok r'' g'' where c: "change B text_of fault (begin_job (jb_kind (jr_value r)) (jg_clock g)) r g = (ok, r'', g'')"
      by (metis prod_cases3)
    have "?inv (r''\<lparr>jr_point := Working\<rparr>)" if "jr_point r = AtStart"
      by (rule approval_inv_change [OF c inv])
        (use change_lapsed [OF c] that in \<open>auto simp: at_point_def edit_approval lapsed_def\<close>)
    then show ?thesis using assms(1) ended [OF c] c Begin by (auto simp: run_step_def goto_def Let_def split: if_splits)
  next
    case (Edit x)
    obtain ok r'' g'' where c: "change B text_of fault (edit_job x) r g = (ok, r'', g'')" by (metis prod_cases3)
    have r': "r' = r''\<lparr>jr_point := jr_point r\<rparr>"
      using assms(1) c Edit by (auto simp: run_step_def goto_def split: if_splits)
    have "jb_approval (jr_value r'') = jb_approval (jr_value r)"
      using c by (cases rule: change_cases) (simp_all add: edit_approval)
    then show ?thesis
      unfolding r' by (intro approval_inv_change [OF c inv])
        (auto simp: at_point_def lapsed_def change_fields(8) [OF c] split: job_point.splits)
  next
    case (Offer q p x dg)
    have r': "jr_point r = Working \<or> jr_point r = Asking q p" "r' = r\<lparr>jr_channels := jr_channels r @ [None],
        jr_answer := Some (length (jr_channels r)), jr_point := Offering (challenge x q p dg (jg_clock g)) (length (jr_channels r))\<rparr>"
      using assms(1) Offer by (auto simp: run_step_def Let_def split: if_splits)
    show ?thesis
      using inv r'(1) Offer unfolding r'(2)
      by (auto simp: approval_inv_def at_point_def lapsed_def made_def challenge_def split: job_point.splits)
  next
    case Show
    then obtain a n where a: "jr_point r = Offering a n" using assms(1) by (auto simp: run_step_def split: job_point.splits)
    obtain ok r'' g'' where c: "change B text_of fault (await_approval a) r g = (ok, r'', g'')" by (metis prod_cases3)
    have r': "r' = r''\<lparr>jr_point := if ok then Waiting a n else Working\<rparr>"
      using assms(1) a c Show by (auto simp: run_step_def goto_def)
    have ok: "ok \<and> jr_value r'' = await_approval a (jr_value r)" if "\<not> jr_cancelled r''"
    proof -
      have "jr_error r'' = None" using change_fields(12) [OF c] that inv by (auto simp: approval_inv_def)
      then show ?thesis using change_fields(11,13) [OF c] by auto
    qed
    show ?thesis
      unfolding r' by (rule approval_inv_change [OF c inv])
        (use ok a change_fields(8) [OF c] in \<open>auto simp: at_point_def edit_approval\<close>)
  next
    case Take
    then obtain a n d where a: "jr_point r = Waiting a n" "jr_channels r ! n = Some d"
        "r' = r\<lparr>jr_channels := (jr_channels r)[n := None], jr_point := Answered a d\<rparr>"
      using assms(1) by (auto simp: run_step_def split: job_point.splits option.splits)
    then show ?thesis using inv by (auto simp: approval_inv_def at_point_def)
  next
    case Abandon
    then obtain a n where "jr_point r = Waiting a n" "jr_cancelled r \<or> jg_stopping g" "r' = r\<lparr>jr_point := Working\<rparr>"
      using assms(1) by (auto simp: run_step_def split: job_point.splits if_splits)
    then show ?thesis using inv by (auto simp: approval_inv_def)
  next
    case Expire
    then obtain a n where "jr_point r = Waiting a n" "jp_expires_at a \<le> jg_clock g" "r' = r\<lparr>jr_point := Working\<rparr>"
      using assms(1) by (auto simp: run_step_def split: job_point.splits if_splits)
    then show ?thesis using inv by (auto simp: approval_inv_def at_point_def lapsed_def)
  next
    case Resume
    then obtain a d where a: "jr_point r = Answered a d" using assms(1) by (auto simp: run_step_def split: job_point.splits)
    obtain ok r'' g'' where c: "change B text_of fault resume_job r g = (ok, r'', g'')" by (metis prod_cases3)
    have r': "r' = r''\<lparr>jr_point := if d = Deny then Working else Checking a\<rparr>"
      using assms(1) a c Resume by (auto simp: run_step_def goto_def)
    have "lapsed (jg_clock g) r''" if "\<not> jr_cancelled r''"
    proof -
      have "jr_error r'' = None" using change_fields(12) [OF c] that inv by (auto simp: approval_inv_def)
      then show ?thesis using change_fields(13) [OF c] by (simp add: lapsed_def edit_approval)
    qed
    then show ?thesis
      unfolding r' by (intro approval_inv_change [OF c inv]) (use a in \<open>cases d; auto simp: at_point_def lapsed_def replied_def\<close>)
  next
    case (Check dg)
    then obtain a where a: "jr_point r = Checking a" "r' = r\<lparr>jr_point := (if dg \<noteq> jp_digest a then Asking (jp_question a) (jp_path a) else Working)\<rparr>"
      using assms(1) by (auto simp: run_step_def split: job_point.splits)
    then show ?thesis using inv by (auto simp: approval_inv_def at_point_def lapsed_def)
  next
    case (Finish out)
    obtain ok r'' g'' where c: "change B text_of fault (finish_job (jg_stopping g) (jg_clock g) out) r g = (ok, r'', g'')"
      by (metis prod_cases3)
    then show ?thesis using assms(1) Finish ended [OF c] by (auto simp: run_step_def goto_def split: if_splits)
  next
    case Retire
    then show ?thesis using assms(1) inv by (auto simp: run_step_def approval_inv_def cancel_run_def at_point_def split: if_splits)
  qed
qed


text \<open>A registry that was opened: its runs are gone.\<close>

definition all_gone :: "'b job_registry \<Rightarrow> bool" where
  "all_gone g \<longleftrightarrow> (\<forall>i r. run_of g i = Some r \<longrightarrow> jr_point r = Gone \<and> jr_answer r = None \<and> jr_error r = None)"

lemma all_gone_add: "all_gone g \<Longrightarrow> all_gone (add_run i (new_run k v Gone) g)"
  by (auto simp: all_gone_def new_run_def)

lemma all_gone_persist: "persist B fault v g = (e, g') \<Longrightarrow> all_gone g \<Longrightarrow> all_gone g'"
  by (auto simp: all_gone_def persist_fields)

lemma load_runs_Cons:
  assumes "load_runs B faults (v # vs) g = Inr g'"
  obtains (finished) "jb_id v \<noteq> []" "terminal_job (jb_state v)" "load_runs B faults vs (add_run (jb_id v) (new_run [] v Gone) g) = Inr g'"
  | (unfinished) g1 where "jb_id v \<noteq> []" "\<not> terminal_job (jb_state v)"
      "persist B (faults (jb_id v)) (interrupt_job (jg_clock g) v) g = (None, g1)"
      "load_runs B faults vs (add_run (jb_id v) (new_run [] (interrupt_job (jg_clock g) v) Gone) g1) = Inr g'"
  using assms by (auto simp: Let_def interrupt_job_def interrupted_by_restart_def split: if_splits prod.splits option.splits)

lemma load_runs_gone: "load_runs B faults vs g = Inr g' \<Longrightarrow> all_gone g \<Longrightarrow> all_gone g' \<and> jg_clock g' = jg_clock g"
proof (induction vs arbitrary: g)
  case (Cons v vs)
  from Cons.prems(1) show ?case
  proof (cases rule: load_runs_Cons)
    case finished
    then show ?thesis using Cons.IH [OF finished(3)] Cons.prems(2) by (simp add: all_gone_add)
  next
    case (unfinished g1)
    then show ?thesis
      using Cons.IH [OF unfinished(4)] Cons.prems(2) persist_fields(5) [OF unfinished(3)] by (simp add: all_gone_add all_gone_persist [OF unfinished(3)])
  qed
qed simp

lemma open_registry_gone: "open_registry B faults now t = Inr g \<Longrightarrow> all_gone g"
proof -
  assume "open_registry B faults now t = Inr g"
  then obtain vs g1 where "load_runs B faults vs (empty_registry now t) = Inr g1" "g = prune g1"
    by (auto simp: open_registry_def rbind_Inr_iff)
  then show "all_gone g" using load_runs_gone [of B faults vs "empty_registry now t"] by (auto simp: all_gone_def)
qed

lemma trace_approval_inv:
  assumes "job_trace B ok text_of g0 tr g" and "all_gone g0" and "run_of g i = Some r"
  shows "approval_inv tr (jg_stopping g) (jg_clock g) i r"
  using assms(1,3)
proof (induction arbitrary: r)
  case no_step
  then show ?case using assms(2) by (auto simp: all_gone_def approval_inv_def at_point_def)
next
  case (one_more tr g l g')
  note grows = job_step_grows [OF one_more.hyps(2)]
  have later: "approval_inv (tr @ [l]) (jg_stopping g') (jg_clock g') i x"
    if "approval_inv tr' (jg_stopping g) (jg_clock g) i x" "set tr' \<subseteq> set (tr @ [l])" for x tr'
    by (rule approval_inv_later [OF that(1)]) (use that grows in auto)
  from one_more.hyps(2) one_more.prems show ?case
  proof (cases rule: job_step_run)
    case kept
    then show ?thesis by (intro later [OF one_more.IH]) auto
  next
    case (cancelled x)
    then show ?thesis by (auto intro!: later [OF approval_inv_cancel] one_more.IH)
  next
    case (made kind key item repo)
    then show ?thesis by (auto simp: approval_inv_def at_point_def lapsed_def)
  next
    case (stepped fault e x g'')
    show ?thesis using later [OF approval_inv_step [OF stepped(3) one_more.IH [OF stepped(2)]]] stepped(1) by simp
  next
    case (answered c d x)
    show ?thesis using later [OF approval_inv_answer [OF one_more.IH [OF answered(2)] answered(3,4)]] answered(1) by simp
  qed
qed

text \<open>C18: nothing is approved that the operator did not allow: when a job that was not cancelled, in a daemon that is not
  stopping, goes on from an approval, the operator has allowed a challenge of this job, and the content of the file is,
  by its digest, the one that challenge was made for.\<close>

theorem approved_only_if_allowed:
  assumes "open_registry B faults now t = Inr g0" and "job_trace B ok text_of g0 tr g"
    and "run_of g i = Some r" and "\<not> jr_cancelled r" and "\<not> jg_stopping g"
    and "run_step B text_of fault (Check dg) r g = Some (r', g')" and "jr_point r' = Working"
  shows "\<exists>a. jr_point r = Checking a \<and> dg = jp_digest a \<and> Reply i (jp_challenge a) Allow \<in> set tr
    \<and> Run i (Offer (jp_question a) (jp_path a) (jp_challenge a) dg) \<in> set tr"
proof -
  obtain a where a: "jr_point r = Checking a" "dg = jp_digest a"
    using assms(6,7) by (auto simp: run_step_def split: job_point.splits if_splits)
  have "approval_inv tr (jg_stopping g) (jg_clock g) i r"
    by (rule trace_approval_inv [OF assms(2) open_registry_gone [OF assms(1)] assms(3)])
  then have "made tr i a" "replied tr i a Allow" using assms(4,5) a(1) by (auto simp: approval_inv_def at_point_def)
  then show ?thesis using a by (auto simp: made_def replied_def)
qed


section \<open>The records and the runs\<close>

text \<open>A well-formed store of jobs: every record is of the job of its key, with the time it finished.\<close>

definition jobs_wf :: "('b, stored) bolt \<Rightarrow> 'b tx_state \<Rightarrow> bool" where
  "jobs_wf B t \<longleftrightarrow> (\<forall>k v. get_projection B api_jobs_projection k t = Some v
     \<longrightarrow> k \<noteq> [] \<and> (\<exists>job. v = StJob job (finish_stamp job) \<and> jb_id job = k))"

text \<open>What the store may lose: records of finished jobs.\<close>

definition record_kept :: "('b, stored) bolt \<Rightarrow> 'b tx_state \<Rightarrow> 'b tx_state \<Rightarrow> string \<Rightarrow> bool" where
  "record_kept B t t' k \<longleftrightarrow> get_projection B api_jobs_projection k t' = get_projection B api_jobs_projection k t
     \<or> get_projection B api_jobs_projection k t' = None
       \<and> (\<exists>job at. get_projection B api_jobs_projection k t = Some (StJob job at) \<and> terminal_job (jb_state job))"

definition ended :: "job_point \<Rightarrow> bool" where
  "ended p \<longleftrightarrow> p = Finishing \<or> p = Gone"

definition run_inv :: "('b, stored) bolt \<Rightarrow> 'b tx_state \<Rightarrow> string \<Rightarrow> job_run \<Rightarrow> bool" where
  "run_inv B t i r \<longleftrightarrow> i \<noteq> [] \<and> jb_id (jr_value r) = i
     \<and> (jr_error r = None \<longrightarrow> (terminal_job (jb_state (jr_value r)) \<longleftrightarrow> ended (jr_point r))
         \<and> (get_projection B api_jobs_projection i t = Some (StJob (jr_value r) (finish_stamp (jr_value r)))
           \<or> terminal_job (jb_state (jr_value r)) \<and> get_projection B api_jobs_projection i t = None))
     \<and> (jr_error r \<noteq> None \<longrightarrow> terminal_job (jb_state (jr_value r)))"

lemma run_inv_kept: "run_inv B t i r \<Longrightarrow> record_kept B t t' i \<Longrightarrow> run_inv B t' i r"
  by (auto simp: run_inv_def record_kept_def)

lemma run_inv_point: "run_inv B t i (r\<lparr>jr_point := p, jr_channels := cs, jr_answer := n, jr_cancelled := c\<rparr>) \<longleftrightarrow> run_inv B t i (r\<lparr>jr_point := p\<rparr>)"
  by (simp add: run_inv_def)

definition jobs_inv :: "('b, stored) bolt \<Rightarrow> ('b \<Rightarrow> bool) \<Rightarrow> 'b job_registry \<Rightarrow> bool" where
  "jobs_inv B ok g \<longleftrightarrow> tx_ok ok (jg_tx g) \<and> jobs_wf B (jg_tx g)
     \<and> (\<forall>i r. run_of g i = Some r \<longrightarrow> run_inv B (jg_tx g) i r
         \<and> (\<not> terminal_job (jb_state (jr_value r)) \<longrightarrow> i \<in> set (jg_entries g)))"

definition store_ok :: "('b, stored) bolt \<Rightarrow> ('b \<Rightarrow> bool) \<Rightarrow> 'b job_registry \<Rightarrow> bool" where
  "store_ok B ok g \<longleftrightarrow> tx_ok ok (jg_tx g) \<and> jobs_wf B (jg_tx g)"

definition loaded :: "instant \<Rightarrow> api_job \<Rightarrow> api_job" where
  "loaded now v = (if terminal_job (jb_state v) then v else interrupt_job now v)"

lemma loaded_simps [simp]: "jb_id (loaded now v) = jb_id v" "terminal_job (jb_state (loaded now v))"
  by (simp_all add: loaded_def interrupt_job_def interrupted_by_restart_def terminal_job_def)

text \<open>Saving a job.\<close>

context event_store
begin

lemma persist_spec:
  assumes "tx_ok ok (jg_tx g)" and "jobs_wf B (jg_tx g)" and "jb_id job \<noteq> []" and "persist B fault job g = (e, g')"
  shows "tx_ok ok (jg_tx g') \<and> jobs_wf B (jg_tx g') \<and> (fault = None \<longrightarrow> e = None) \<and> (e \<noteq> None \<longrightarrow> jg_tx g' = jg_tx g)
    \<and> (\<forall>k. k \<noteq> jb_id job \<longrightarrow> record_kept B (jg_tx g) (jg_tx g') k)
    \<and> (e = None \<longrightarrow> get_projection B api_jobs_projection (jb_id job) (jg_tx g') = Some (StJob job (finish_stamp job))
       \<or> terminal_job (jb_state job) \<and> get_projection B api_jobs_projection (jb_id job) (jg_tx g') = None)"
proof (cases fault)
  case None
  define t1 where "t1 = put_projection B api_jobs_projection (jb_id job) (StJob job (finish_stamp job)) (jg_tx g)"
  have js: "jobs_stored B (jg_tx g)" using assms(2) unfolding jobs_wf_def jobs_stored_def stored_job_def by blast
  note get1 = get_put_projection [OF assms(1), of _ _ api_jobs_projection "jb_id job" "StJob job (finish_stamp job)", folded t1_def]
  have wf1: "jobs_wf B t1" using assms(2,3) by (auto simp: jobs_wf_def get1)
  obtain t' where t': "save_api_job B (jb_id job) job (finish_stamp job) (jg_tx g) = Inr t'" "tx_ok ok t'"
    and get: "\<And>name k. get_projection B name k t' = (if name = api_jobs_projection \<and> \<not> is_zero_time (finish_stamp job)
          \<and> (\<exists>u. (k, u) \<in> finished_records B t1 \<and> api_job_history_limit \<le> card {y \<in> finished_records B t1. newer y (k, u)})
        then None else get_projection B name k t1)"
    using save_api_job_spec [OF assms(1) js, of "jb_id job" job "finish_stamp job", folded t1_def] by blast
  have g': "e = None" "jg_tx g' = t'" using assms(4) t'(1) None by (auto simp: persist_def)
  have fin: "\<exists>job' at. get_projection B api_jobs_projection k t1 = Some (StJob job' at) \<and> terminal_job (jb_state job')"
    if "(k, u) \<in> finished_records B t1" for k u
  proof -
    obtain job' where job': "get_projection B api_jobs_projection k t1 = Some (StJob job' u)" "\<not> is_zero_time u"
      using \<open>(k, u) \<in> finished_records B t1\<close> by (auto simp: finished_records_def)
    then have "u = finish_stamp job'" using wf1 unfolding jobs_wf_def by blast
    then have "terminal_job (jb_state job')" using job'(2) by (auto simp: finish_stamp_def is_zero_time_def split: if_splits)
    then show ?thesis using job'(1) by blast
  qed
  have kept: "record_kept B t1 t' k" for k
  proof (cases "\<exists>u. (k, u) \<in> finished_records B t1")
    case True
    then obtain job' at where "get_projection B api_jobs_projection k t1 = Some (StJob job' at)" "terminal_job (jb_state job')"
      using fin by blast
    then show ?thesis unfolding record_kept_def get by simp
  qed (auto simp: record_kept_def get)
  have "get_projection B api_jobs_projection k t1 = Some v" if "get_projection B api_jobs_projection k t' = Some v" for k v
    using kept [of k] that by (simp add: record_kept_def)
  then have "jobs_wf B t'" using wf1 unfolding jobs_wf_def by blast
  moreover have "record_kept B (jg_tx g) t' k" if "k \<noteq> jb_id job" for k
    using kept [of k] that by (simp add: record_kept_def get1)
  moreover have "get_projection B api_jobs_projection (jb_id job) t' = Some (StJob job (finish_stamp job))
       \<or> terminal_job (jb_state job) \<and> get_projection B api_jobs_projection (jb_id job) t' = None"
    using kept [of "jb_id job"] by (auto simp: record_kept_def get1)
  ultimately show ?thesis using g' t'(2) by simp
next
  case (Some x)
  then show ?thesis using assms by (auto simp: persist_def record_kept_def)
qed

text \<open>A change to a value that is terminal exactly where the run is afterwards.\<close>

lemma change_inv:
  assumes "change B text_of fault f r g = (b, r', g')" and "store_ok B ok g" and "run_inv B (jg_tx g) i r"
    and "jb_id (f (jr_value r)) = jb_id (jr_value r)"
    and "jr_error r' = None \<Longrightarrow> terminal_job (jb_state (f (jr_value r))) \<longleftrightarrow> ended p"
  shows "store_ok B ok g' \<and> run_inv B (jg_tx g') i (r'\<lparr>jr_point := p\<rparr>) \<and> (\<forall>k. k \<noteq> i \<longrightarrow> record_kept B (jg_tx g) (jg_tx g') k)"
  using assms(1)
proof (cases rule: change_cases)
  case (refused e)
  then show ?thesis using assms(2,3) by (auto simp: run_inv_def record_kept_def)
next
  case same
  then show ?thesis using assms(2,3,5) by (auto simp: run_inv_def record_kept_def)
next
  case saved
  have id: "jb_id (f (jr_value r)) = i" "i \<noteq> []" using assms(3,4) by (auto simp: run_inv_def)
  then show ?thesis
    using persist_spec [of g "f (jr_value r)" fault None g'] saved(4) assms(2,5) saved(2) unfolding saved(5)
    by (auto simp: store_ok_def run_inv_def)
next
  case (failed e)
  have id: "jb_id (f (jr_value r)) = i" "i \<noteq> []" using assms(3,4) by (auto simp: run_inv_def)
  then show ?thesis
    using persist_spec [of g "f (jr_value r)" fault "Some e" g'] failed(4) assms(2) unfolding failed(5)
    by (auto simp: store_ok_def run_inv_def terminal_job_def)
qed

lemma job_functions:
  "jb_id (edit_job x v) = jb_id v" "jb_id (begin_job k now v) = jb_id v" "jb_id (resume_job v) = jb_id v"
  "jb_id (finish_job s now out v) = jb_id v" "jb_id (await_approval a v) = jb_id v"
  "jb_state (edit_job x v) = jb_state v" "\<not> terminal_job (jb_state (begin_job k now v))"
  "\<not> terminal_job (jb_state (resume_job v))" "\<not> terminal_job (jb_state (await_approval a v))"
  "terminal_job (jb_state (finish_job s now out v))"
  by (simp_all add: edit_job_def begin_job_def resume_job_def finish_job_def interrupted_by_restart_def await_approval_def
      terminal_job_def Let_def split: job_edit.splits run_outcome.splits)

lemma run_step_inv:
  assumes "run_step B text_of fault e r g = Some (r', g')" and "store_ok B ok g" and "run_inv B (jg_tx g) i r"
  shows "store_ok B ok g' \<and> run_inv B (jg_tx g') i r' \<and> (\<forall>k. k \<noteq> i \<longrightarrow> record_kept B (jg_tx g) (jg_tx g') k)"
proof -
  have changed: "store_ok B ok (snd (snd x)) \<and> run_inv B (jg_tx (snd (snd x))) i ((fst (snd x))\<lparr>jr_point := p\<rparr>)
      \<and> (\<forall>k. k \<noteq> i \<longrightarrow> record_kept B (jg_tx g) (jg_tx (snd (snd x))) k)"
    if "x = change B text_of fault f r g" "jb_id (f (jr_value r)) = jb_id (jr_value r)"
      "jr_error (fst (snd x)) = None \<Longrightarrow> terminal_job (jb_state (f (jr_value r))) \<longleftrightarrow> ended p" for f p x
    by (rule change_inv [OF triple [of "change B text_of fault f r g"] assms(2,3), folded that(1)]) (use that in simp_all)
  have still: "store_ok B ok g \<and> run_inv B (jg_tx g) i r'' \<and> (\<forall>k. k \<noteq> i \<longrightarrow> record_kept B (jg_tx g) (jg_tx g) k)"
    if "jr_value r'' = jr_value r" "jr_error r'' = jr_error r" "ended (jr_point r'') \<longleftrightarrow> ended (jr_point r)" for r''
    using that assms(2,3) by (auto simp: run_inv_def record_kept_def)
  have unchanged: ?thesis
    if "jr_value r' = jr_value r" "jr_error r' = jr_error r" "ended (jr_point r') \<longleftrightarrow> ended (jr_point r)" "g' = g"
    using still [OF that(1-3)] that(4) by simp
  show ?thesis
  proof (cases e)
    case Begin
    let ?x = "change B text_of fault (begin_job (jb_kind (jr_value r)) (jg_clock g)) r g"
    have "jr_error (fst (snd ?x)) \<noteq> None" if "\<not> fst ?x" using change_fields(11) [OF triple] that by blast
    then show ?thesis
      using assms(1) Begin changed [of ?x "begin_job (jb_kind (jr_value r)) (jg_clock g)" "if fst ?x then Working else Gone"]
      by (auto simp: run_step_def goto_def Let_def job_functions ended_def cancel_run_def run_inv_def split: if_splits)
  next
    case (Edit x)
    have "terminal_job (jb_state (jr_value r)) \<longleftrightarrow> ended (jr_point r)" if "jr_error r = None"
      using assms(3) that by (simp add: run_inv_def)
    moreover have "jr_error (fst (snd (change B text_of fault (edit_job x) r g))) = None \<Longrightarrow> jr_error r = None"
      using change_fields(13) [OF triple] by blast
    ultimately show ?thesis
      using assms(1) Edit changed [OF refl, of "edit_job x" "jr_point r"]
      by (auto simp: run_step_def goto_def Let_def job_functions split: if_splits)
  next
    case Show
    then obtain a n where "jr_point r = Offering a n" using assms(1) by (auto simp: run_step_def split: job_point.splits)
    then show ?thesis
      using assms(1) Show changed [OF refl, of "await_approval a" "Waiting a n"] changed [OF refl, of "await_approval a" "Working"]
      by (auto simp: run_step_def goto_def Let_def job_functions ended_def split: if_splits)
  next
    case Resume
    then obtain a d where "jr_point r = Answered a d" using assms(1) by (auto simp: run_step_def split: job_point.splits)
    then show ?thesis
      using assms(1) Resume changed [OF refl, of resume_job "Checking a"] changed [OF refl, of resume_job "Working"]
      by (auto simp: run_step_def goto_def Let_def job_functions ended_def split: if_splits)
  next
    case (Finish out)
    then show ?thesis
      using assms(1) changed [OF refl, of "finish_job (jg_stopping g) (jg_clock g) out" Finishing]
      by (auto simp: run_step_def goto_def job_functions ended_def split: if_splits)
  next
    case Retire
    then show ?thesis
      using assms by (auto simp: run_step_def store_ok_def run_inv_def ended_def record_kept_def cancel_run_def split: if_splits)
  next
    case (Offer q p c dg)
    then show ?thesis using unchanged assms(1) by (auto simp: run_step_def ended_def Let_def split: if_splits)
  next
    case Take
    then show ?thesis
      using unchanged assms(1) by (auto simp: run_step_def ended_def split: job_point.splits option.splits)
  next
    case Abandon
    then show ?thesis using unchanged assms(1) by (auto simp: run_step_def ended_def split: job_point.splits if_splits)
  next
    case Expire
    then show ?thesis using unchanged assms(1) by (auto simp: run_step_def ended_def split: job_point.splits if_splits)
  next
    case (Check dg)
    then show ?thesis using unchanged assms(1) by (auto simp: run_step_def ended_def split: job_point.splits)
  qed
qed

lemma jobs_inv_iff:
  "jobs_inv B ok g \<longleftrightarrow> store_ok B ok g \<and> (\<forall>i r. run_of g i = Some r \<longrightarrow> run_inv B (jg_tx g) i r
     \<and> (\<not> terminal_job (jb_state (jr_value r)) \<longrightarrow> i \<in> set (jg_entries g)))"
  by (auto simp: jobs_inv_def store_ok_def)

lemma prune_keeps_active:
  assumes "run_of g i = Some r" and "\<not> terminal_job (jb_state (jr_value r))" and "i \<in> set (jg_entries g)"
  shows "i \<in> set (jg_entries (prune g))"
proof -
  have "i \<notin> fst ` set (finished_runs g)" using assms(1,2) by (auto simp: in_finished_runs)
  then have "i \<notin> fst ` set (drop n (newest_first (finished_runs g)))" for n
    using set_drop_subset [of n "newest_first (finished_runs g)"] by (metis image_mono set_newest_first subsetD)
  then show ?thesis using assms(3) by (simp add: prune_def Let_def)
qed

lemma jobs_inv_prune: "jobs_inv B ok g \<Longrightarrow> jobs_inv B ok (prune g)"
  by (auto simp: jobs_inv_iff store_ok_def intro: prune_keeps_active)

lemma jobs_inv_run:
  assumes "jobs_inv B ok g" and "run_of g i = Some r"
  shows "run_inv B (jg_tx g) i r" "\<not> terminal_job (jb_state (jr_value r)) \<Longrightarrow> i \<in> set (jg_entries g)"
  using assms by (simp_all add: jobs_inv_iff)

lemma jobs_inv_set_run:
  assumes "jobs_inv B ok g" and "run_inv B (jg_tx g) i r" and "\<not> terminal_job (jb_state (jr_value r)) \<Longrightarrow> i \<in> set (jg_entries g)"
  shows "jobs_inv B ok (set_run i r g)"
  using assms by (auto simp: jobs_inv_iff store_ok_def)

lemma run_inv_simps:
  "run_inv B t i (cancel_run r) = run_inv B t i r"
  "answer_run now c d r = Inr r' \<Longrightarrow> run_inv B t i r' = run_inv B t i r"
  by (auto simp: run_inv_def cancel_run_def answer_run_def split: option.splits if_splits)

lemma run_step_entries:
  assumes "run_step B text_of fault e r g = Some (r', g')"
  shows "jg_entries g' = jg_entries g \<or> g' = prune g"
  using assms by (auto simp: run_step_def goto_def Let_def split: job_event.splits job_point.splits if_splits option.splits)

text \<open>Finished jobs stay as they are.\<close>

lemma run_step_final:
  assumes "run_step B text_of fault e r g = Some (r', g')" and "run_inv B t i r" and "terminal_job (jb_state (jr_value r))"
  shows "jr_value r' = jr_value r \<and> jr_version r' = jr_version r"
proof (cases "jr_error r")
  case None
  then have "ended (jr_point r)" using assms(2,3) by (simp add: run_inv_def)
  then show ?thesis
    using assms(1) by (auto simp: ended_def run_step_def in_run_def cancel_run_def split: job_event.splits if_splits)
next
  case (Some x)
  then have "change B text_of fault f r g = (False, r, g)" for f by (simp add: change_def)
  then show ?thesis
    using assms(1) by (auto simp: run_step_def goto_def cancel_run_def Let_def split: job_event.splits job_point.splits if_splits option.splits)
qed

lemma jobs_inv_add:
  assumes "persist B fault job g = (e, g')" and "jb_id job = i" and "jobs_inv B ok g" and "run_of g i = None" and "i \<noteq> []"
    and "terminal_job (jb_state job) \<longleftrightarrow> ended p" and "e = None \<or> terminal_job (jb_state job)"
    and "e = None \<or> get_projection B api_jobs_projection i (jg_tx g) = None"
  shows "jobs_inv B ok (add_run i (new_run k job p) g')"
proof -
  have st: "tx_ok ok (jg_tx g)" "jobs_wf B (jg_tx g)" "jb_id job \<noteq> []"
    using assms(2,3,5) by (simp_all add: jobs_inv_iff store_ok_def)
  note p = persist_spec [OF st assms(1)] and f = persist_fields [OF assms(1)]
  have new: "run_inv B (jg_tx g') i (new_run k job p)"
    using p assms(2,5-8) by (cases e) (auto simp: run_inv_def new_run_def)
  have other: "run_inv B (jg_tx g') j r" "\<not> terminal_job (jb_state (jr_value r)) \<Longrightarrow> j \<in> set (jg_entries g')"
    if "run_of g' j = Some r" "j \<noteq> i" for j r
  proof -
    have r: "run_of g j = Some r" using that(1) f(1) by simp
    have "record_kept B (jg_tx g) (jg_tx g') j" using p that(2) assms(2) by blast
    then show "run_inv B (jg_tx g') j r" by (rule run_inv_kept [rotated]) (use r assms(3) in \<open>simp add: jobs_inv_iff\<close>)
    show "j \<in> set (jg_entries g')" if "\<not> terminal_job (jb_state (jr_value r))"
      using r that assms(3) f(2) by (simp add: jobs_inv_iff)
  qed
  have "store_ok B ok (add_run i (new_run k job p) g')" using p by (simp add: store_ok_def)
  then show ?thesis
    unfolding jobs_inv_iff using new other by (auto simp: add_run_def set_run_def run_of_def update_conv split: if_splits)
qed

lemma start_key_inv:
  assumes "start_key B text_of fault i kind key item repo g = (v, g')" and "jobs_inv B ok g" and "run_of g i = None" and "i \<noteq> []"
    and "get_projection B api_jobs_projection i (jg_tx g) = None"
  shows "jobs_inv B ok g'"
proof (cases "jg_closed g \<or> jg_stopping g")
  case True
  let ?job = "(new_job i kind item repo JobCancelled (jg_clock g))\<lparr>jb_error := ''daemon is stopping'', jb_finished_at := Some (jg_clock g)\<rparr>"
  obtain e h where h: "persist B fault ?job g = (e, h)" by fastforce
  have "jobs_inv B ok (add_run i (new_run [] ?job Gone) h)"
    by (rule jobs_inv_add [OF h _ assms(2-4)]) (simp_all add: new_job_def terminal_job_def ended_def assms(5))
  then show ?thesis using assms(1) True h by (auto simp: start_key_def Let_def)
next
  case False
  let ?job = "new_job i kind item repo JobQueued (jg_clock g)"
  obtain e h where h: "persist B fault ?job (prune g) = (e, h)" by fastforce
  have pr: "jobs_inv B ok (prune g)" "run_of (prune g) i = None" by (simp_all add: jobs_inv_prune assms(2,3))
  show ?thesis
  proof (cases "find_active kind key item repo (prune g)")
    case None
    show ?thesis
    proof (cases e)
      case None
      have "jobs_inv B ok (add_run i (new_run key ?job AtStart) h)"
        by (rule jobs_inv_add [OF h _ pr assms(4)]) (simp_all add: new_job_def terminal_job_def ended_def None)
      then show ?thesis using assms(1) False h None \<open>find_active kind key item repo (prune g) = None\<close> by (auto simp: start_key_def Let_def)
    next
      case (Some x)
      have "jg_tx h = jg_tx (prune g)" "jg_entries h = jg_entries (prune g)" "\<And>j. run_of h j = run_of (prune g) j"
        using persist_spec [OF _ _ _ h] pr(1) persist_fields [OF h] Some assms(4) by (auto simp: jobs_inv_iff store_ok_def new_job_def)
      then have "jobs_inv B ok h" using pr(1) by (simp add: jobs_inv_iff store_ok_def)
      then show ?thesis using assms(1) False h Some \<open>find_active kind key item repo (prune g) = None\<close> by (auto simp: start_key_def Let_def)
    qed
  next
    case (Some r)
    then show ?thesis using assms(1) False pr(1) by (auto simp: start_key_def Let_def)
  qed
qed

lemma job_step_inv:
  assumes "job_step B ok text_of g l g'" and "jobs_inv B ok g"
  shows "jobs_inv B ok g'"
  using assms(1)
proof cases
  case (request i fault kind key item repo v)
  then show ?thesis using start_key_inv assms(2) by blast
next
  case (run i r fault e r' h)
  have i: "run_inv B (jg_tx g) i r" "store_ok B ok g" using run(3) assms(2) by (simp_all add: jobs_inv_iff)
  note s = run_step_inv [OF run(4) i(2,1)]
  have active: "\<not> terminal_job (jb_state (jr_value r))" if "\<not> terminal_job (jb_state (jr_value r'))"
    using run_step_final [OF run(4) i(1)] that by auto
  have kept: "j \<in> set (jg_entries h)" if "run_of g j = Some x" "\<not> terminal_job (jb_state (jr_value x))" for j x
  proof -
    have "j \<in> set (jg_entries g)" using that assms(2) by (simp add: jobs_inv_iff)
    then show ?thesis using run_step_entries [OF run(4)] prune_keeps_active [OF that] by auto
  qed
  have "run_inv B (jg_tx h) j x" if "run_of g j = Some x" "j \<noteq> i" for j x
    by (rule run_inv_kept [where t = "jg_tx g"]) (use that s assms(2) in \<open>simp_all add: jobs_inv_iff\<close>)
  then show ?thesis
    unfolding run(2) jobs_inv_iff using s active kept run(3) by (auto simp: store_ok_def run_step_registry(1) [OF run(4)])
next
  case (reply i c d v)
  then obtain r r' where r: "run_of (prune g) i = Some r" "answer_run (jg_clock g) c d r = Inr r'" "g' = set_run i r' (prune g)"
    by (auto simp: answer_approval_def get_job_def Let_def split: if_splits sum.splits option.splits)
  have "jr_value r' = jr_value r" using r(2) by (auto simp: answer_run_def split: option.splits if_splits)
  then show ?thesis
    using jobs_inv_set_run [OF jobs_inv_prune [OF assms(2)], of i r'] jobs_inv_run [OF jobs_inv_prune [OF assms(2)] r(1)]
      run_inv_simps(2) [OF r(2)] r(3) by auto
next
  case (cancel i x)
  then consider "g' = prune g" | r where "run_of (prune g) i = Some r" "g' = set_run i (cancel_run r) (prune g)"
    by (auto simp: cancel_job_def get_job_def Let_def split: if_splits sum.splits option.splits)
  then show ?thesis
  proof cases
    case 1
    then show ?thesis by (simp add: jobs_inv_prune assms(2))
  next
    case (2 r)
    then show ?thesis
      using jobs_inv_set_run [OF jobs_inv_prune [OF assms(2)], of i "cancel_run r"] jobs_inv_run [OF jobs_inv_prune [OF assms(2)] 2(1)]
        run_inv_simps(1) [of _ i r] by (auto simp: cancel_run_def)
  qed
next
  case close
  then show ?thesis
    using assms(2) by (auto simp: jobs_inv_iff store_ok_def run_of_close run_inv_simps(1))
next
  case (elsewhere t)
  have "run_inv B t i r" if "run_of g i = Some r" for i r
    by (rule run_inv_kept [where t = "jg_tx g"]) (use that elsewhere(4) assms(2) in \<open>auto simp: jobs_inv_iff record_kept_def\<close>)
  then show ?thesis
    using assms(2) elsewhere(3,4) unfolding elsewhere(2) by (auto simp: jobs_inv_iff store_ok_def run_of_def jobs_wf_def)
qed (use assms(2) jobs_inv_prune in \<open>auto simp: jobs_inv_iff store_ok_def run_of_def\<close>)

text \<open>Loading the records, in the order of their keys.\<close>

lemma load_runs_spec:
  assumes "jobs_inv B ok g" and "distinct (List.map jb_id vs)" and "\<forall>v\<in>set vs. run_of g (jb_id v) = None \<and> jb_id v \<noteq> []"
    and "\<forall>v\<in>set vs. get_projection B api_jobs_projection (jb_id v) (jg_tx g) = Some (StJob v (finish_stamp v))
      \<or> terminal_job (jb_state v) \<and> get_projection B api_jobs_projection (jb_id v) (jg_tx g) = None"
    and "\<And>i. faults i = None"
  shows "\<exists>g'. load_runs B faults vs g = Inr g' \<and> jobs_inv B ok g' \<and> (\<forall>i. run_of g' i =
    (case List.find (\<lambda>v. jb_id v = i) vs of Some v \<Rightarrow> Some (new_run [] (loaded (jg_clock g) v) Gone) | None \<Rightarrow> run_of g i))"
  using assms(1-4)
proof (induction vs arbitrary: g)
  case (Cons v vs)
  let ?l = "loaded (jg_clock g) v"
  obtain h where h: "jobs_inv B ok (add_run (jb_id v) (new_run [] ?l Gone) h)" "jg_clock h = jg_clock g" "\<And>i. run_of h i = run_of g i"
      "load_runs B faults (v # vs) g = load_runs B faults vs (add_run (jb_id v) (new_run [] ?l Gone) h)"
      "\<And>k. k \<noteq> jb_id v \<Longrightarrow> record_kept B (jg_tx g) (jg_tx h) k"
  proof (cases "terminal_job (jb_state v)")
    case True
    have "run_inv B (jg_tx g) (jb_id v) (new_run [] v Gone)"
      using Cons.prems(3,4) True by (auto simp: run_inv_def new_run_def ended_def)
    then have "jobs_inv B ok (add_run (jb_id v) (new_run [] v Gone) g)"
      using Cons.prems(1) True by (auto simp: jobs_inv_iff store_ok_def new_run_def add_run_def set_run_def run_of_def update_conv)
    then show thesis using Cons.prems(3) True by (intro that [of g]) (auto simp: loaded_def record_kept_def)
  next
    case False
    have v: "run_of g (jb_id v) = None" "jb_id v \<noteq> []" using Cons.prems(3) by auto
    obtain e h where h: "persist B (faults (jb_id v)) ?l g = (e, h)" by fastforce
    have l: "?l = interrupt_job (jg_clock g) v" using False by (simp add: loaded_def)
    have st: "tx_ok ok (jg_tx g)" "jobs_wf B (jg_tx g)" "jb_id ?l \<noteq> []"
      using Cons.prems(1) v(2) unfolding jobs_inv_def loaded_simps by blast+
    note p = persist_spec [OF st h]
    have e: "e = None" using p [THEN conjunct2, THEN conjunct2, THEN conjunct1] assms(5) by simp
    have "jobs_inv B ok (add_run (jb_id v) (new_run [] ?l Gone) h)"
      by (rule jobs_inv_add [OF h loaded_simps(1) Cons.prems(1) v]) (simp_all add: ended_def e)
    then show thesis
      using Cons.prems(3) False p persist_fields [OF h] h e by (intro that [of h]) (auto simp: l [symmetric] Let_def)
  qed
  let ?g = "add_run (jb_id v) (new_run [] ?l Gone) h"
  have "\<forall>w\<in>set vs. run_of ?g (jb_id w) = None \<and> jb_id w \<noteq> []"
    using Cons.prems(2,3) h(3) by (force simp: image_iff)
  moreover have "\<forall>w\<in>set vs. get_projection B api_jobs_projection (jb_id w) (jg_tx ?g) = Some (StJob w (finish_stamp w))
      \<or> terminal_job (jb_state w) \<and> get_projection B api_jobs_projection (jb_id w) (jg_tx ?g) = None"
  proof
    fix w assume w: "w \<in> set vs"
    then have "jb_id w \<in> jb_id ` set vs" by simp
    then have "jb_id w \<noteq> jb_id v" using Cons.prems(2) by (metis distinct.simps(2) list.map(2) set_map)
    then show "get_projection B api_jobs_projection (jb_id w) (jg_tx ?g) = Some (StJob w (finish_stamp w))
      \<or> terminal_job (jb_state w) \<and> get_projection B api_jobs_projection (jb_id w) (jg_tx ?g) = None"
      using h(5) [of "jb_id w"] Cons.prems(4) w by (auto simp: record_kept_def)
  qed
  moreover have "distinct (List.map jb_id vs)" using Cons.prems(2) by simp
  moreover have "jg_clock ?g = jg_clock g" using h(2) by simp
  ultimately obtain g' where g': "load_runs B faults vs ?g = Inr g'" "jobs_inv B ok g'"
      "\<And>i. run_of g' i = (case List.find (\<lambda>v. jb_id v = i) vs of Some v \<Rightarrow> Some (new_run [] (loaded (jg_clock g) v) Gone) | None \<Rightarrow> run_of ?g i)"
    using Cons.IH [OF h(1)] by metis
  have "List.find (\<lambda>v. jb_id v = i) vs = None" if "i = jb_id v" for i
  proof -
    have "i \<notin> jb_id ` set vs" using Cons.prems(2) that by simp
    then show ?thesis by (auto simp: find_None_iff)
  qed
  then show ?case using g' h(3) unfolding h(4) by (auto split: option.split)
qed simp

lemma api_jobs_spec:
  assumes "tx_ok ok t" and "jobs_wf B t"
  shows "\<exists>vs. api_jobs B t = Inr vs \<and> distinct (List.map jb_id vs)
    \<and> (\<forall>v. v \<in> set vs \<longleftrightarrow> get_projection B api_jobs_projection (jb_id v) t = Some (StJob v (finish_stamp v)))"
proof (cases "tx_projections t api_jobs_projection")
  case None
  then show ?thesis by (simp add: api_jobs_def get_projection_def)
next
  case (Some b)
  have b: "ok b" using assms(1) Some by (simp add: tx_ok_def)
  have wf: "k \<noteq> [] \<and> (\<exists>job. v = StJob job (finish_stamp job) \<and> jb_id job = k)" if "(k, v) \<in> set (b_entries B b)" for k v
    using assms(2) that entries_get [OF b] Some by (simp add: jobs_wf_def get_projection_def)
  have "\<exists>js. job_records xs = Inr js \<and> List.map jb_id js = List.map fst xs \<and> (\<forall>v. v \<in> set js \<longleftrightarrow> (jb_id v, StJob v (finish_stamp v)) \<in> set xs)"
    if "\<forall>(k, v)\<in>set xs. \<exists>job. v = StJob job (finish_stamp job) \<and> jb_id job = k" for xs
    using that by (induction xs) (auto split: stored.splits)
  from this [of "b_entries B b"] obtain js where "job_records (b_entries B b) = Inr js"
      "List.map jb_id js = List.map fst (b_entries B b)" "\<forall>v. v \<in> set js \<longleftrightarrow> (jb_id v, StJob v (finish_stamp v)) \<in> set (b_entries B b)"
    using wf by blast
  then show ?thesis
    using Some entries_get [OF b] entries_distinct [OF b] by (auto simp: api_jobs_def get_projection_def)
qed

lemma open_registry_spec:
  assumes "tx_ok ok t" and "jobs_wf B t" and "\<And>i. faults i = None"
  shows "\<exists>g. open_registry B faults now t = Inr g \<and> jobs_inv B ok g
    \<and> (\<forall>i. run_of g i = (case get_projection B api_jobs_projection i t of
        Some (StJob v at) \<Rightarrow> Some (new_run [] (loaded now v) Gone) | _ \<Rightarrow> None))"
proof -
  obtain vs where vs: "api_jobs B t = Inr vs" "distinct (List.map jb_id vs)"
      "\<And>v. v \<in> set vs \<longleftrightarrow> get_projection B api_jobs_projection (jb_id v) t = Some (StJob v (finish_stamp v))"
    using api_jobs_spec [OF assms(1,2)] by blast
  have "jobs_inv B ok (empty_registry now t)" using assms(1,2) by (simp add: jobs_inv_iff store_ok_def)
  then obtain g where g: "load_runs B faults vs (empty_registry now t) = Inr g" "jobs_inv B ok g"
      "\<And>i. run_of g i = (case List.find (\<lambda>v. jb_id v = i) vs of Some v \<Rightarrow> Some (new_run [] (loaded now v) Gone) | None \<Rightarrow> None)"
    using load_runs_spec [of "empty_registry now t" vs faults, unfolded empty_registry_fields, OF _ vs(2) _ _ assms(3)] vs(3) assms(2)
    unfolding jobs_wf_def by blast
  have "run_of g i = (case get_projection B api_jobs_projection i t of
        Some (StJob v at) \<Rightarrow> Some (new_run [] (loaded now v) Gone) | _ \<Rightarrow> None)" for i
  proof (cases "get_projection B api_jobs_projection i t")
    case None
    then have "List.find (\<lambda>v. jb_id v = i) vs = None" using vs(3) by (auto simp: find_None_iff)
    then show ?thesis using g(3) None by simp
  next
    case (Some x)
    then obtain v where v: "x = StJob v (finish_stamp v)" "jb_id v = i" using assms(2) unfolding jobs_wf_def by blast
    have "List.find (\<lambda>v. jb_id v = i) vs = Some v"
    proof (cases "List.find (\<lambda>v. jb_id v = i) vs")
      case None
      then show ?thesis using vs(3) [of v] v Some by (auto simp: find_None_iff)
    next
      case (Some w)
      then have "w \<in> set vs" "jb_id w = i" by (auto simp: find_Some_iff)
      then show ?thesis using vs(3) [of w] v \<open>get_projection B api_jobs_projection i t = Some x\<close> Some by auto
    qed
    then show ?thesis using g(3) Some v by simp
  qed
  then show ?thesis using g jobs_inv_prune vs(1) by (simp add: open_registry_def)
qed

end

lemma trace_jobs_inv:
  assumes "bucket_store B ok" and "job_trace B ok text_of g0 tr g" and "jobs_inv B ok g0"
  shows "jobs_inv B ok g"
  using assms(2,3) by induction (use event_store.job_step_inv [OF event_store_bucket [OF assms(1)]] in blast)+

text \<open>Pruning drops a listed run only for so many newer ones, which stay.\<close>

definition listed_newer :: "string \<times> instant \<Rightarrow> 'b job_registry \<Rightarrow> string set" where
  "listed_newer x g = {k. \<exists>r. get_job k g = Inr r \<and> newer (k, as_time (jb_finished_at (jr_value r))) x}"

lemma get_job_Inr: "get_job i g = Inr r \<longleftrightarrow> i \<in> set (jg_entries g) \<and> run_of g i = Some r"
  by (auto simp: get_job_def split: option.splits)

lemma distinct_map_filter_fst:
  assumes f: "\<And>i y. f i = Some y \<Longrightarrow> fst y = i" and "distinct xs"
  shows "distinct (List.map fst (List.map_filter f xs))"
  using assms(2)
proof (induction xs)
  case (Cons x xs)
  then have "x \<notin> fst ` set (List.map_filter f xs)" by (auto simp: map_filter_iff) (metis f fst_conv)
  then show ?case using Cons f by (auto simp: map_filter_simps split: option.split)
qed (simp add: map_filter_simps)

lemma finished_runs_distinct: "distinct (jg_entries g) \<Longrightarrow> distinct (List.map fst (finished_runs g))"
  unfolding finished_runs_def by (rule distinct_map_filter_fst) (auto split: option.splits if_splits)

lemma prune_listed:
  assumes "distinct (jg_entries g)" and "get_job i g = Inr r"
  shows "get_job i (prune g) = Inr r
    \<or> get_job i (prune g) = Inl NotFound \<and> api_job_history_limit \<le> card (listed_newer (i, as_time (jb_finished_at (jr_value r))) (prune g))"
proof (cases "i \<in> set (jg_entries (prune g))")
  case True
  then show ?thesis using assms(2) by (simp add: get_job_Inr)
next
  case False
  define S where "S = newest_first (finished_runs g)"
  let ?n = api_job_history_limit and ?x = "(i, as_time (jb_finished_at (jr_value r)))"
  have dist: "distinct (List.map fst (finished_runs g))" by (rule finished_runs_distinct [OF assms(1)])
  have entries: "set (jg_entries (prune g)) = {k \<in> set (jg_entries g). k \<notin> fst ` set (drop ?n S)}"
    by (auto simp: prune_def Let_def S_def)
  then obtain at where at: "(i, at) \<in> set (drop ?n S)" using False assms(2) by (auto simp: get_job_Inr)
  then have "(i, at) \<in> set (finished_runs g)" using in_set_dropD [of "(i, at)" ?n S] by (simp add: S_def)
  then have x: "at = as_time (jb_finished_at (jr_value r))" using assms(2) by (auto simp: in_finished_runs get_job_Inr)
  have sorted: "sorted_wrt newer (take ?n S @ drop ?n S)" using newest_first_sorted [OF dist] by (simp add: S_def)
  have fst_dist: "distinct (List.map fst (take ?n S @ drop ?n S))"
    using dist unfolding append_take_drop_id S_def newest_first_def by (metis mset_map mset_stable_sort mset_eq_imp_distinct_iff)
  have len: "length (take ?n S) = ?n" using at by (cases "?n \<le> length S") auto
  have "fst y \<in> listed_newer ?x (prune g)" if y: "y \<in> set (take ?n S)" for y
  proof -
    obtain k u where k: "y = (k, u)" by (cases y)
    have "(k, u) \<in> set (finished_runs g)" using in_set_takeD [of y ?n S] y by (simp add: S_def k)
    then obtain r' where r': "k \<in> set (jg_entries g)" "run_of g k = Some r'" "u = as_time (jb_finished_at (jr_value r'))"
      by (auto simp: in_finished_runs)
    have "newer y (i, at)" using sorted y at unfolding sorted_wrt_append by blast
    moreover have "fst ` set (take ?n S) \<inter> fst ` set (drop ?n S) = {}" using fst_dist by (simp only: map_append distinct_append set_map)
    moreover have "k \<in> fst ` set (take ?n S)" using y by (force simp: k)
    ultimately have "newer y (i, at)" "k \<notin> fst ` set (drop ?n S)" by blast+
    then show ?thesis using r' x entries by (simp add: listed_newer_def get_job_Inr k)
  qed
  then have "fst ` set (take ?n S) \<subseteq> listed_newer ?x (prune g)" by blast
  moreover have "finite (listed_newer ?x (prune g))"
    by (rule finite_subset [of _ "set (jg_entries (prune g))"]) (auto simp: listed_newer_def get_job_Inr)
  ultimately have "card (fst ` set (take ?n S)) \<le> card (listed_newer ?x (prune g))" by (intro card_mono)
  moreover have "distinct (List.map fst (take ?n S))" using fst_dist unfolding map_append distinct_append by blast
  then have "card (fst ` set (take ?n S)) = ?n" using len distinct_card [of "List.map fst (take ?n S)"] by simp
  ultimately show ?thesis using False by (simp add: get_job_def)
qed

text \<open>Every loaded run is listed, once.\<close>

definition all_listed :: "'b job_registry \<Rightarrow> bool" where
  "all_listed g \<longleftrightarrow> distinct (jg_entries g) \<and> (\<forall>i. run_of g i \<noteq> None \<longleftrightarrow> i \<in> set (jg_entries g))"

lemma all_listed_add:
  assumes "all_listed g"
  shows "all_listed (add_run i r g)"
proof -
  have "jg_entries (add_run i r g) = (if i \<in> set (jg_entries g) then jg_entries g else jg_entries g @ [i])" by (simp add: add_run_def)
  then show ?thesis using assms by (auto simp: all_listed_def)
qed

lemma load_runs_listed: "load_runs B faults vs g = Inr g' \<Longrightarrow> all_listed g \<Longrightarrow> all_listed g'"
proof (induction vs arbitrary: g)
  case (Cons v vs)
  have "all_listed h" if "persist B fault w g = (e, h)" for fault w e h
    using persist_fields [OF that] Cons.prems(2) by (simp add: all_listed_def)
  then show ?case using Cons.prems Cons.IH all_listed_add
    by (auto simp: Let_def split: if_split_asm prod.split_asm option.split_asm)
qed simp

lemma open_registry_listed:
  assumes "open_registry B faults now t = Inr g" and "run_of g i = Some r"
  shows "get_job i g = Inr r
    \<or> get_job i g = Inl NotFound \<and> api_job_history_limit \<le> card (listed_newer (i, as_time (jb_finished_at (jr_value r))) g)"
proof -
  obtain vs h where h: "load_runs B faults vs (empty_registry now t) = Inr h" and g: "g = prune h"
    using assms(1) by (auto simp: open_registry_def elim!: rbind_InrE)
  have "all_listed (empty_registry now t)" by (simp add: all_listed_def empty_registry_def run_of_def)
  then have l: "all_listed h" by (rule load_runs_listed [OF h])
  then have "get_job i h = Inr r" using assms(2) by (auto simp: all_listed_def get_job_Inr g)
  then show ?thesis using prune_listed [of h i r] l by (simp add: all_listed_def g)
qed


section \<open>Watching a job\<close>

text \<open>What a step does to the value of a run.\<close>

lemma job_step_keeps:
  assumes "job_step B ok text_of g l g'" and "run_of g i = Some r"
  shows "\<exists>r'. run_of g' i = Some r'"
  using assms(1)
proof cases
  case (request i' fault kind key item repo v)
  then show ?thesis using start_key_registry(4) [OF request(5), of i] assms(2) by auto
next
  case (run i' x fault e x' h)
  then show ?thesis using assms(2) by (auto simp: run_step_registry)
next
  case (reply i' c d v)
  then show ?thesis
    using assms(2) by (auto simp: answer_approval_def get_job_def Let_def split: if_splits sum.splits option.splits)
next
  case (cancel i' x)
  then show ?thesis using assms(2) by (auto simp: cancel_job_def get_job_def Let_def split: if_splits sum.splits option.splits)
next
  case close
  then show ?thesis using assms(2) by (simp add: run_of_close)
next
  case look
  then show ?thesis using assms(2) by simp
qed (use assms(2) in \<open>auto simp: run_of_def\<close>)

definition advanced :: "job_run \<Rightarrow> job_run \<Rightarrow> bool" where
  "advanced r r' \<longleftrightarrow> jr_version r' = jr_version r \<and> jr_value r' = jr_value r \<or> jr_version r' = jr_version r + 1"

lemma advanced_simps:
  "advanced r r" "advanced r (cancel_run x) = advanced r x" "advanced r (x\<lparr>jr_point := p\<rparr>) = advanced r x"
  "advanced r (x\<lparr>jr_channels := cs\<rparr>) = advanced r x" "advanced r (x\<lparr>jr_answer := n\<rparr>) = advanced r x"
  "advanced r (fst (snd (change B text_of fault f r g)))"
proof -
  show "advanced r (fst (snd (change B text_of fault f r g)))"
    by (rule change_cases [OF triple [of "change B text_of fault f r g"]]) (auto simp: advanced_def)
qed (auto simp: advanced_def cancel_run_def)

lemma run_step_version: "run_step B text_of fault e r g = Some (r', g') \<Longrightarrow> advanced r r'"
  by (auto simp: run_step_def goto_def Let_def advanced_simps split: job_event.splits job_point.splits if_splits option.splits)

lemma job_step_value:
  assumes "job_step B ok text_of g l g'" and "bucket_store B ok" and "jobs_inv B ok g" and "run_of g i = Some r"
  obtains r' where "run_of g' i = Some r'"
    and "jr_version r' = jr_version r \<and> jr_value r' = jr_value r \<or> \<not> terminal_job (jb_state (jr_value r)) \<and> jr_version r' = jr_version r + 1"
proof -
  obtain r' where r': "run_of g' i = Some r'" using job_step_keeps [OF assms(1,4)] by blast
  note inv = event_store.jobs_inv_run(1) [OF event_store_bucket [OF assms(2)] assms(3,4)]
  from assms(1) r' have "jr_version r' = jr_version r \<and> jr_value r' = jr_value r
      \<or> \<not> terminal_job (jb_state (jr_value r)) \<and> jr_version r' = jr_version r + 1"
  proof (cases rule: job_step_run)
    case (stepped fault e x h)
    then show ?thesis
      using assms(4) run_step_version [OF stepped(3), unfolded advanced_def] event_store.run_step_final [OF event_store_bucket [OF assms(2)] stepped(3), of "jg_tx g" i] inv
      by auto
  qed (use assms(4) in \<open>auto simp: cancel_run_def answer_run_def split: option.splits if_splits\<close>)
  then show thesis using that r' by blast
qed

text \<open>\<open>WatchJob\<close>: it sends the job, returns when that was the end of it, and otherwise waits until \<open>notify\<close>, as it was
  when the job was read, is closed.\<close>

record job_watch =
  jw_seen :: "nat option"
  jw_sent :: "api_job list"
  jw_done :: bool

definition new_watch :: job_watch where
  "new_watch = \<lparr>jw_seen = None, jw_sent = [], jw_done = False\<rparr>"

definition watch_ready :: "job_run \<Rightarrow> job_watch \<Rightarrow> bool" where
  "watch_ready r w \<longleftrightarrow> \<not> jw_done w \<and> jw_seen w \<noteq> Some (jr_version r)"

definition watch_send :: "job_run \<Rightarrow> job_watch \<Rightarrow> job_watch" where
  "watch_send r w = \<lparr>jw_seen = Some (jr_version r), jw_sent = jw_sent w @ [jr_value r], jw_done = terminal_job (jb_state (jr_value r))\<rparr>"

inductive watched ::
  "('b, stored) bolt \<Rightarrow> ('b \<Rightarrow> bool) \<Rightarrow> (coord_error \<Rightarrow> string) \<Rightarrow> 'b job_registry \<Rightarrow> string \<Rightarrow> 'b job_registry \<Rightarrow> job_watch \<Rightarrow> bool"
  for B ok text_of g0 i where
  watch: "job_trace B ok text_of g0 tr g \<Longrightarrow> run_of g i = Some r \<Longrightarrow> watched B ok text_of g0 i g new_watch"
| others: "watched B ok text_of g0 i g w \<Longrightarrow> job_step B ok text_of g l g' \<Longrightarrow> watched B ok text_of g0 i g' w"
| send: "watched B ok text_of g0 i g w \<Longrightarrow> run_of g i = Some r \<Longrightarrow> watch_ready r w \<Longrightarrow> watched B ok text_of g0 i g (watch_send r w)"

definition watch_inv :: "job_run \<Rightarrow> job_watch \<Rightarrow> bool" where
  "watch_inv r w \<longleftrightarrow> (case jw_seen w of None \<Rightarrow> \<not> jw_done w
     | Some n \<Rightarrow> n \<le> jr_version r \<and> jw_sent w \<noteq> [] \<and> (n = jr_version r \<longrightarrow> last (jw_sent w) = jr_value r)
         \<and> (jw_done w \<longrightarrow> n = jr_version r) \<and> (n = jr_version r \<longrightarrow> jw_done w = terminal_job (jb_state (jr_value r))))"

lemma watched_inv:
  assumes "watched B ok text_of g0 i g w" and "bucket_store B ok" and "jobs_inv B ok g0"
  shows "jobs_inv B ok g \<and> (\<exists>r. run_of g i = Some r \<and> watch_inv r w)"
  using assms(1)
proof induction
  case (watch tr g r)
  have "jobs_inv B ok g" by (rule trace_jobs_inv [OF assms(2) watch.hyps(1) assms(3)])
  then show ?case using watch.hyps(2) by (auto simp: watch_inv_def new_watch_def)
next
  case (others g w l g')
  then obtain r where r: "run_of g i = Some r" "watch_inv r w" and inv: "jobs_inv B ok g" by blast
  obtain r' where "run_of g' i = Some r'" "jr_version r' = jr_version r \<and> jr_value r' = jr_value r
      \<or> \<not> terminal_job (jb_state (jr_value r)) \<and> jr_version r' = jr_version r + 1"
    using job_step_value [OF others.hyps(2) assms(2) inv r(1)] by metis
  moreover from this(2) have "watch_inv r' w"
  proof (elim disjE conjE)
    assume "jr_version r' = jr_version r" "jr_value r' = jr_value r"
    then show ?thesis using r(2) by (cases "jw_seen w") (simp_all add: watch_inv_def)
  next
    assume "\<not> terminal_job (jb_state (jr_value r))" "jr_version r' = jr_version r + 1"
    then show ?thesis using r(2) by (cases "jw_seen w") (auto simp: watch_inv_def)
  qed
  ultimately show ?case
    using event_store.job_step_inv [OF event_store_bucket [OF assms(2)] others.hyps(2) inv] by blast
next
  case (send g w r)
  then show ?case by (auto simp: watch_inv_def watch_send_def)
qed

text \<open>Whoever watches a job misses nothing for good: when a watcher has nothing to do, it has sent the job as it is,
  and it has returned exactly if the job is finished; so it never waits for a job that has ended.\<close>

theorem watcher_sees_the_end:
  assumes "bucket_store B ok" and "tx_ok ok t" and "jobs_wf B t" and "open_registry B (\<lambda>i. None) now t = Inr g0"
    and "watched B ok text_of g0 i g w" and "run_of g i = Some r" and "\<not> watch_ready r w"
  shows "jw_sent w \<noteq> [] \<and> last (jw_sent w) = jr_value r \<and> (jw_done w \<longleftrightarrow> terminal_job (jb_state (jr_value r)))"
proof -
  have "jobs_inv B ok g0"
    using event_store.open_registry_spec [OF event_store_bucket [OF assms(1)] assms(2,3), of "\<lambda>i. None" now] assms(4) by auto
  then have "watch_inv r w" using watched_inv [OF assms(5,1)] assms(6) by auto
  then show ?thesis using assms(7) by (auto simp: watch_inv_def watch_ready_def split: option.splits)
qed


section \<open>One active job\<close>

definition same_work :: "job_run \<Rightarrow> job_run \<Rightarrow> bool" where
  "same_work r s \<longleftrightarrow> jr_key r = jr_key s \<and> jb_kind (jr_value r) = jb_kind (jr_value s) \<and> jb_item (jr_value r) = jb_item (jr_value s)
     \<and> jb_repository (jr_value r) = jb_repository (jr_value s)"

text \<open>A job that learned its repository while it ran (\<open>add_repository\<close> does).\<close>

definition moved :: "job_label list \<Rightarrow> string \<Rightarrow> bool" where
  "moved tr i \<longleftrightarrow> (\<exists>x. Run i (Edit (SetRepository x)) \<in> set tr)"

lemma same_work_equiv: "same_work r r" "same_work r s = same_work s r" "same_work r s \<Longrightarrow> same_work s x \<Longrightarrow> same_work r x"
  by (auto simp: same_work_def)

lemma same_work_simps [simp]:
  "same_work r (cancel_run x) = same_work r x" "same_work r (x\<lparr>jr_point := p\<rparr>) = same_work r x"
  "same_work r (x\<lparr>jr_channels := cs\<rparr>) = same_work r x" "same_work r (x\<lparr>jr_answer := n\<rparr>) = same_work r x"
  by (auto simp: same_work_def cancel_run_def)

lemma same_work_change:
  assumes "\<And>v. jb_kind (f v) = jb_kind v \<and> jb_item (f v) = jb_item v \<and> jb_repository (f v) = jb_repository v"
  shows "same_work r (fst (snd (change B text_of fault f r g)))"
  by (rule change_cases [OF triple [of "change B text_of fault f r g"]]) (auto simp: same_work_def assms)

lemma work_functions:
  "jb_kind (begin_job k now v) = jb_kind v \<and> jb_item (begin_job k now v) = jb_item v \<and> jb_repository (begin_job k now v) = jb_repository v"
  "jb_kind (resume_job v) = jb_kind v \<and> jb_item (resume_job v) = jb_item v \<and> jb_repository (resume_job v) = jb_repository v"
  "jb_kind (await_approval a v) = jb_kind v \<and> jb_item (await_approval a v) = jb_item v \<and> jb_repository (await_approval a v) = jb_repository v"
  "jb_kind (finish_job st now out v) = jb_kind v \<and> jb_item (finish_job st now out v) = jb_item v
    \<and> jb_repository (finish_job st now out v) = jb_repository v"
  "(\<And>x. e \<noteq> SetRepository x) \<Longrightarrow> jb_kind (edit_job e v) = jb_kind v \<and> jb_item (edit_job e v) = jb_item v
    \<and> jb_repository (edit_job e v) = jb_repository v"
  by (auto simp: edit_job_def begin_job_def resume_job_def finish_job_def interrupted_by_restart_def await_approval_def Let_def
      split: job_edit.splits run_outcome.splits)

lemma run_step_work:
  assumes "run_step B text_of fault e r g = Some (r', g')" and "\<And>x. e \<noteq> Edit (SetRepository x)"
  shows "same_work r r'"
proof -
  have "same_work r (fst (snd (change B text_of fault (edit_job x) r g)))" if "e = Edit x" for x
    by (rule same_work_change) (use assms(2) that work_functions(5) in blast)
  then show ?thesis
    using assms(1)
    by (auto simp: run_step_def goto_def Let_def same_work_equiv(1) same_work_change [OF work_functions(1)] same_work_change [OF work_functions(2)]
        same_work_change [OF work_functions(3)] same_work_change [OF work_functions(4)]
        split: job_event.splits job_point.splits if_splits option.splits)
qed

text \<open>A new active run is not like one that is listed and active.\<close>

lemma start_key_new:
  assumes "start_key B text_of fault i kind key item repo g = (v, g')" and "run_of g i = None" and "run_of g' i = Some r"
    and "\<not> terminal_job (jb_state (jr_value r))" and "run_of g j = Some s" and "\<not> terminal_job (jb_state (jr_value s))"
    and "j \<in> set (jg_entries (prune g))"
  shows "\<not> same_work r s"
proof -
  have "\<not> (jg_closed g \<or> jg_stopping g)"
    using assms(1,3,4) by (auto simp: start_key_def Let_def new_run_def new_job_def terminal_job_def)
  then have "find_active kind key item repo (prune g) = None \<and> same_work r (new_run key (new_job i kind item repo JobQueued (jg_clock g)) AtStart)"
    using assms(1-3)
    by (auto simp: start_key_def Let_def same_work_equiv(1) split: option.splits prod.splits dest!: persist_fields(1) [where i = i])
  moreover have "s \<in> set (List.map_filter (run_of (prune g)) (jg_entries (prune g)))"
    using assms(5,7) by (auto simp: map_filter_def image_iff intro!: bexI [of _ j])
  ultimately show ?thesis
    using assms(6) by (auto simp: find_active_def find_None_iff active_run_def same_work_def new_run_def new_job_def)
qed

definition apart :: "job_label list \<Rightarrow> 'b job_registry \<Rightarrow> bool" where
  "apart tr g \<longleftrightarrow> (\<forall>i j r s. i \<noteq> j \<and> run_of g i = Some r \<and> run_of g j = Some s \<and> \<not> terminal_job (jb_state (jr_value r))
     \<and> \<not> terminal_job (jb_state (jr_value s)) \<and> same_work r s \<longrightarrow> moved tr i \<or> moved tr j)"

lemma apartD:
  "apart tr g \<Longrightarrow> i \<noteq> j \<Longrightarrow> run_of g i = Some r \<Longrightarrow> run_of g j = Some s \<Longrightarrow> \<not> terminal_job (jb_state (jr_value r))
    \<Longrightarrow> \<not> terminal_job (jb_state (jr_value s)) \<Longrightarrow> same_work r s \<Longrightarrow> moved tr i \<or> moved tr j"
  unfolding apart_def by blast

text \<open>What a step does to the work of a run that is active after it.\<close>

lemma job_step_work:
  assumes "job_step B ok text_of g l g'" and "bucket_store B ok" and "jobs_inv B ok g"
    and "run_of g' i = Some r'" and "\<not> terminal_job (jb_state (jr_value r'))"
  obtains (made) kind key item repo where "l = Request i kind key item repo" "run_of g i = None"
  | (kept) r where "run_of g i = Some r" "\<not> terminal_job (jb_state (jr_value r))" "same_work r r'"
  | (moves) "moved [l] i"
  using assms(1,4)
proof (cases rule: job_step_run)
  case kept
  then show thesis using assms(5) that(2) same_work_equiv(1) by blast
next
  case (cancelled r)
  then show thesis using assms(5) that(2) [of r] by (simp add: same_work_equiv(1)) (simp add: cancel_run_def)
next
  case (made kind key item repo)
  then show thesis using that(1) by blast
next
  case (stepped fault e r h)
  note inv = event_store.jobs_inv_run(1) [OF event_store_bucket [OF assms(2)] assms(3) stepped(2)]
  have "\<not> terminal_job (jb_state (jr_value r))"
    using event_store.run_step_final [OF event_store_bucket [OF assms(2)] stepped(3) inv] assms(5) by auto
  moreover have "moved [l] i" if "\<not> same_work r r'"
    using run_step_work [OF stepped(3)] that stepped(1) by (auto simp: moved_def)
  ultimately show thesis using that(2,3) stepped(2) by blast
next
  case (answered c d r)
  then show thesis
    using assms(5) that(2) [of r] by (auto simp: answer_run_def same_work_equiv(1) split: option.splits if_splits)
qed

lemma apart_step:
  assumes "job_step B ok text_of g l g'" and "bucket_store B ok" and "jobs_inv B ok g" and "apart tr g"
  shows "apart (tr @ [l]) g'"
proof -
  note es = event_store_bucket [OF assms(2)]
  have mono: "moved tr i \<Longrightarrow> moved (tr @ [l]) i" "moved [l] i \<Longrightarrow> moved (tr @ [l]) i" for i by (auto simp: moved_def)
  have new: "\<not> same_work r' s" if "l = Request i kind key item repo" "run_of g i = None" "run_of g' i = Some r'"
      "\<not> terminal_job (jb_state (jr_value r'))" "run_of g j = Some s" "\<not> terminal_job (jb_state (jr_value s))" for i j r' s kind key item repo
  proof -
    have "job_step B ok text_of g (Request i kind key item repo) g'" using assms(1) that(1) by simp
    then obtain fault v where st: "start_key B text_of fault i kind key item repo g = (v, g')"
      by (elim requestE) blast
    have "j \<in> set (jg_entries (prune g))"
      by (rule event_store.prune_keeps_active [OF es that(5,6)]) (rule event_store.jobs_inv_run(2) [OF es assms(3) that(5,6)])
    then show ?thesis by (rule start_key_new [OF st that(2-6)])
  qed
  have "moved (tr @ [l]) i \<or> moved (tr @ [l]) j"
    if "i \<noteq> j" "run_of g' i = Some r" "run_of g' j = Some s" "\<not> terminal_job (jb_state (jr_value r))"
      "\<not> terminal_job (jb_state (jr_value s))" "same_work r s" for i j r s
  proof (rule job_step_work [OF assms(1-3) that(2,4)])
    fix kind key item repo
    assume i: "l = Request i kind key item repo" "run_of g i = None"
    show ?thesis
    proof (rule job_step_work [OF assms(1-3) that(3,5)])
      fix s0 assume "run_of g j = Some s0" "\<not> terminal_job (jb_state (jr_value s0))" "same_work s0 s"
      moreover from this(3) have "same_work r s0" using that(6) same_work_equiv(2,3) by metis
      ultimately show ?thesis using new [OF i that(2,4)] by blast
    qed (use i that(1) mono in auto)
  next
    fix r0 assume r0: "run_of g i = Some r0" "\<not> terminal_job (jb_state (jr_value r0))" "same_work r0 r"
    show ?thesis
    proof (rule job_step_work [OF assms(1-3) that(3,5)])
      fix kind key item repo assume "l = Request j kind key item repo" "run_of g j = None"
      moreover have "same_work s r0" using that(6) r0(3) same_work_equiv(2,3) by metis
      ultimately show ?thesis using new [OF _ _ that(3,5) r0(1,2)] by blast
    next
      fix s0 assume "run_of g j = Some s0" "\<not> terminal_job (jb_state (jr_value s0))" "same_work s0 s"
      moreover from this(3) have "same_work r0 s0" using that(6) r0(3) same_work_equiv(2,3) by metis
      ultimately show ?thesis using apartD [OF assms(4) that(1) r0(1) _ r0(2)] mono(1) by blast
    qed (use mono in blast)
  qed (use mono in blast)
  then show ?thesis unfolding apart_def by blast
qed

text \<open>A request that is repeated does not start the same work twice: no two unfinished jobs are of the same kind, key,
  item and repository, unless one of them was given its repository while it ran.\<close>

theorem one_active_job:
  assumes "bucket_store B ok" and "tx_ok ok t" and "jobs_wf B t" and "open_registry B (\<lambda>i. None) now t = Inr g0"
    and "job_trace B ok text_of g0 tr g" and "run_of g i = Some r" and "run_of g j = Some s" and "i \<noteq> j"
    and "\<not> terminal_job (jb_state (jr_value r))" and "\<not> terminal_job (jb_state (jr_value s))" and "same_work r s"
  shows "moved tr i \<or> moved tr j"
proof -
  note open_spec = event_store.open_registry_spec [OF event_store_bucket [OF assms(1)] assms(2,3), of "\<lambda>i. None" now]
  have inv: "jobs_inv B ok g0" using open_spec assms(4) by auto
  have "terminal_job (jb_state (jr_value x))" if "run_of g0 k = Some x" for k x
    using open_spec assms(4) that by (auto simp: new_run_def split: option.splits stored.splits)
  then have "apart [] g0" unfolding apart_def by blast
  from assms(5) this have "apart tr g"
  proof induction
    case (one_more tr g l g')
    then show ?case using apart_step [OF one_more.hyps(2) assms(1) trace_jobs_inv [OF assms(1) one_more.hyps(1) inv]] by blast
  qed
  then show ?thesis using assms(6-11) unfolding apart_def by blast
qed


section \<open>Sample runs\<close>

text \<open>A run does the given steps, with no failed write.\<close>

fun play :: "('b, stored) bolt \<Rightarrow> (coord_error \<Rightarrow> string) \<Rightarrow> string \<Rightarrow> job_event list \<Rightarrow> 'b job_registry \<Rightarrow> 'b job_registry option" where
  "play B text_of i [] g = Some g"
| "play B text_of i (e # es) g = (case run_of g i of None \<Rightarrow> None | Some r \<Rightarrow> (case run_step B text_of None e r g of
     None \<Rightarrow> None | Some (r', g') \<Rightarrow> play B text_of i es (set_run i r' g')))"

lemma offered_append [simp]: "offered (xs @ ys) = offered xs @ offered ys"
  by (induction xs) auto

lemma play_trace:
  assumes "play B text_of i es g = Some g'" and "job_trace B ok text_of g0 tr g" and "distinct (offered (tr @ List.map (Run i) es))"
  shows "job_trace B ok text_of g0 (tr @ List.map (Run i) es) g'"
  using assms
proof (induction es arbitrary: g tr)
  case (Cons e es)
  then obtain r r' h where r: "run_of g i = Some r" "run_step B text_of None e r g = Some (r', h)" "play B text_of i es (set_run i r' h) = Some g'"
    by (auto split: option.splits)
  have "job_trace B ok text_of g0 (tr @ [Run i e]) (set_run i r' h)"
    by (rule one_more [OF Cons.prems(2) run [OF r(1,2)]]) (use Cons.prems(3) in auto)
  then show ?case using Cons.IH [OF r(3), of "tr @ [Run i e]"] Cons.prems(3) by simp
qed simp

definition sample_tx :: "(string \<times> stored) list tx_state" where
  "sample_tx = \<lparr>tx_meta = [], tx_commands = [], tx_events = [], tx_event_ids = [], tx_revisions = [],
     tx_projections = Map.empty, tx_sources = [], tx_offsets = [], tx_outcomes = [], tx_pending = []\<rparr>"

lemma sample_store: "tx_ok kv_ok sample_tx" "jobs_wf list_bolt sample_tx"
  by (simp_all add: sample_tx_def tx_ok_def jobs_wf_def get_projection_def)

lemma save_unfinished: "save_api_job B i job zero_time t = Inr (put_projection B api_jobs_projection i (StJob job zero_time) t)"
  by (simp add: save_api_job_def put_projection_def is_zero_time_def Let_def)

text \<open>The registry with one run, and what saving an unfinished job makes of its store.\<close>

definition sample_registry :: "job_run \<Rightarrow> (string \<times> stored) list tx_state \<Rightarrow> (string \<times> stored) list job_registry" where
  "sample_registry r t = \<lparr>jg_runs = [(''j'', r)], jg_entries = [''j''], jg_closed = False, jg_stopping = False, jg_error = None,
     jg_tx = t, jg_clock = 0\<rparr>"

definition sample_saved :: "api_job \<Rightarrow> (string \<times> stored) list tx_state \<Rightarrow> (string \<times> stored) list tx_state" where
  "sample_saved job t = put_projection list_bolt api_jobs_projection (jb_id job) (StJob job zero_time) t"

definition queued_job :: api_job where
  "queued_job = new_job ''j'' ''start_item'' ''it'' [] JobQueued 0"

abbreviation sample_play where "sample_play \<equiv> play list_bolt (\<lambda>e. [])"

abbreviation sample_trace where "sample_trace \<equiv> job_trace list_bolt kv_ok (\<lambda>e. []) (empty_registry 0 sample_tx)"

lemma sample_opens: "open_registry list_bolt (\<lambda>i. None) 0 sample_tx = Inr (empty_registry 0 sample_tx)"
  by (simp add: open_registry_def api_jobs_def sample_tx_def prune_def finished_runs_def map_filter_simps newest_first_def empty_registry_def)

lemma sample_persist:
  assumes "\<not> terminal_job (jb_state job)"
  shows "persist list_bolt None job g = (None, g\<lparr>jg_tx := sample_saved job (jg_tx g)\<rparr>)"
  using assms by (simp add: persist_def finish_stamp_def save_unfinished sample_saved_def)

definition sample_start :: "(string \<times> stored) list job_registry" where
  "sample_start = sample_registry (new_run ''start_item'' queued_job AtStart) (sample_saved queued_job sample_tx)"

lemma sample_requested: "sample_trace [Request ''j'' ''start_item'' ''start_item'' ''it'' []] sample_start"
proof -
  have "start_key list_bolt (\<lambda>e. []) None ''j'' ''start_item'' ''start_item'' ''it'' [] (empty_registry 0 sample_tx) = (queued_job, sample_start)"
    using sample_persist [of queued_job "empty_registry 0 sample_tx"]
    by (simp add: start_key_def find_active_def map_filter_simps prune_def finished_runs_def newest_first_def queued_job_def new_job_def
        terminal_job_def Let_def add_run_def set_run_def sample_start_def sample_registry_def empty_registry_def)
  then have "job_step list_bolt kv_ok (\<lambda>e. []) (empty_registry 0 sample_tx) (Request ''j'' ''start_item'' ''start_item'' ''it'' []) sample_start"
    by (intro request) (simp_all add: sample_tx_def get_projection_def)
  then show ?thesis using one_more [OF no_step] by fastforce
qed

lemma sample_change:
  assumes "jr_error r = None" and "jr_value r = v" and "f v \<noteq> v" and "\<not> terminal_job (jb_state (f v))"
  shows "change list_bolt (\<lambda>e. []) None f r g = (True, r\<lparr>jr_value := f v, jr_version := jr_version r + 1\<rparr>, g\<lparr>jg_tx := sample_saved (f v) (jg_tx g)\<rparr>)"
  using assms by (simp add: change_def sample_persist Let_def)

definition running_job :: api_job where
  "running_job = begin_job ''start_item'' 0 queued_job"

definition sample_approval :: job_approval where
  "sample_approval = challenge ''c'' ''q'' ''/f'' ''d'' 0"

definition waiting_job :: api_job where
  "waiting_job = await_approval sample_approval running_job"

lemmas sample_jobs = queued_job_def running_job_def waiting_job_def new_job_def begin_job_def await_approval_def resume_job_def terminal_job_def

definition waiting_run :: job_run where
  "waiting_run = \<lparr>jr_key = ''start_item'', jr_value = waiting_job, jr_version = 2, jr_answer = Some 0, jr_channels = [None],
     jr_cancelled = False, jr_error = None, jr_point = Waiting sample_approval 0\<rparr>"

definition waiting_tx :: "(string \<times> stored) list tx_state" where
  "waiting_tx = sample_saved waiting_job (sample_saved running_job (sample_saved queued_job sample_tx))"

lemma sample_asks: "sample_play ''j'' [Begin, Offer ''q'' ''/f'' ''c'' ''d'', Show] sample_start = Some (sample_registry waiting_run waiting_tx)"
  by (simp add: sample_start_def sample_registry_def run_of_def set_run_def run_step_def sample_change [OF _ refl] goto_def Let_def
      sample_jobs new_run_def waiting_run_def waiting_tx_def sample_approval_def)

text \<open>The run waits; its challenge is allowed; it takes the answer and resumes.\<close>

lemma sample_waiting: "sample_trace (Request ''j'' ''start_item'' ''start_item'' ''it'' [] # List.map (Run ''j'') [Begin, Offer ''q'' ''/f'' ''c'' ''d'', Show])
    (sample_registry waiting_run waiting_tx)"
  using play_trace [OF sample_asks sample_requested] by simp

definition allowed_run :: job_run where
  "allowed_run = waiting_run\<lparr>jr_value := resume_job waiting_job, jr_version := 3, jr_answer := None, jr_point := Checking sample_approval\<rparr>"

lemma sample_allowed: "\<exists>tr. sample_trace tr (sample_registry allowed_run (sample_saved (resume_job waiting_job) waiting_tx))"
proof -
  let ?run = "waiting_run\<lparr>jr_answer := None, jr_channels := [Some Allow]\<rparr>"
  have "answer_approval ''j'' ''c'' Allow (sample_registry waiting_run waiting_tx) = (Inr waiting_job, sample_registry ?run waiting_tx)"
    by (simp add: answer_approval_def answer_run_def get_job_def prune_def finished_runs_def map_filter_simps newest_first_def run_of_def
        sample_registry_def set_run_def waiting_run_def sample_jobs sample_approval_def challenge_def Let_def)
  note answered = reply [OF this]
  have "sample_play ''j'' [Take, Resume] (sample_registry ?run waiting_tx)
      = Some (sample_registry allowed_run (sample_saved (resume_job waiting_job) waiting_tx))"
    by (simp add: sample_registry_def run_of_def set_run_def run_step_def sample_change [OF _ refl] goto_def Let_def
      sample_jobs new_run_def waiting_run_def allowed_run_def sample_approval_def)
  from play_trace [OF this one_more [OF sample_waiting answered]] show ?thesis by (fastforce simp: sample_approval_def)
qed

theorem approved_only_if_allowed_witness:
  "\<exists>tr. sample_trace tr (sample_registry allowed_run (sample_saved (resume_job waiting_job) waiting_tx))
    \<and> Reply ''j'' ''c'' Allow \<in> set tr"
proof -
  let ?g = "sample_registry allowed_run (sample_saved (resume_job waiting_job) waiting_tx)"
  obtain tr where tr: "sample_trace tr ?g" using sample_allowed by blast
  have g: "run_of ?g ''j'' = Some allowed_run" "\<not> jr_cancelled allowed_run" "\<not> jg_stopping ?g" "jr_point allowed_run = Checking sample_approval"
    by (simp_all add: sample_registry_def run_of_def allowed_run_def waiting_run_def)
  have step: "run_step list_bolt (\<lambda>e. []) None (Check ''d'') allowed_run ?g = Some (allowed_run\<lparr>jr_point := Working\<rparr>, ?g)"
    by (simp add: run_step_def g(4)) (simp add: sample_approval_def challenge_def)
  show ?thesis
    using approved_only_if_allowed [OF sample_opens tr g(1-3) step] tr g(4) by (auto simp: sample_approval_def challenge_def)
qed


theorem watcher_sees_the_end_witness:
  "jw_sent (watch_send waiting_run new_watch) = [waiting_job] \<and> \<not> watch_ready waiting_run (watch_send waiting_run new_watch)
    \<and> \<not> jw_done (watch_send waiting_run new_watch)"
proof -
  let ?g = "sample_registry waiting_run waiting_tx"
  have g: "run_of ?g ''j'' = Some waiting_run" "watch_ready waiting_run new_watch" "\<not> watch_ready waiting_run (watch_send waiting_run new_watch)"
    "jr_value waiting_run = waiting_job" "\<not> terminal_job (jb_state waiting_job)"
    by (simp_all add: sample_registry_def run_of_def watch_ready_def new_watch_def watch_send_def sample_jobs waiting_run_def)
  have "watched list_bolt kv_ok (\<lambda>e. []) (empty_registry 0 sample_tx) ''j'' ?g (watch_send waiting_run new_watch)"
    by (rule watched.send [OF watched.watch [OF sample_waiting g(1)] g(1,2)])
  from watcher_sees_the_end [OF list_store.bucket_store_axioms sample_store sample_opens this g(1,3)]
  show ?thesis using g(3-5) by (simp add: watch_send_def new_watch_def)
qed

text \<open>Two requests of the same work, while the first job was given its repository in between.\<close>

definition moved_job :: "string \<Rightarrow> api_job" where
  "moved_job i = edit_job (SetRepository ''r'') (begin_job ''start_item'' 0 (queued_job\<lparr>jb_id := i\<rparr>))"

definition moved_run :: "string \<Rightarrow> job_run" where
  "moved_run i = \<lparr>jr_key = ''start_item'', jr_value = moved_job i, jr_version = 2, jr_answer = None, jr_channels = [],
     jr_cancelled = False, jr_error = None, jr_point = Working\<rparr>"

definition pair_registry :: "job_run \<Rightarrow> (string \<times> stored) list tx_state \<Rightarrow> (string \<times> stored) list job_registry" where
  "pair_registry r t = \<lparr>jg_runs = [(''j'', moved_run ''j''), (''k'', r)], jg_entries = [''j'', ''k''], jg_closed = False,
     jg_stopping = False, jg_error = None, jg_tx = t, jg_clock = 0\<rparr>"

definition moved_tx :: "string \<Rightarrow> (string \<times> stored) list tx_state \<Rightarrow> (string \<times> stored) list tx_state" where
  "moved_tx i t = sample_saved (moved_job i) (sample_saved (begin_job ''start_item'' 0 (queued_job\<lparr>jb_id := i\<rparr>)) (sample_saved (queued_job\<lparr>jb_id := i\<rparr>) t))"

lemma sample_moves: "\<exists>tr. sample_trace tr (pair_registry (moved_run ''k'') (moved_tx ''k'' (moved_tx ''j'' sample_tx)))"
proof -
  let ?es = "[Begin, Edit (SetRepository ''r'')]" and ?q = "queued_job\<lparr>jb_id := ''k''\<rparr>" and ?t = "moved_tx ''j'' sample_tx"
  let ?req = "Request ''k'' ''start_item'' ''start_item'' ''it'' []" and ?g = "sample_registry (moved_run ''j'') ?t"
  let ?h = "pair_registry (new_run ''start_item'' ?q AtStart) (sample_saved ?q ?t)"
  have "sample_play ''j'' ?es sample_start = Some ?g"
    by (simp add: sample_start_def sample_registry_def run_of_def set_run_def run_step_def sample_change [OF _ refl] goto_def Let_def
      sample_jobs new_run_def moved_run_def moved_job_def moved_tx_def edit_job_def in_run_def)
  note tr = play_trace [OF this sample_requested]
  have "start_key list_bolt (\<lambda>e. []) None ''k'' ''start_item'' ''start_item'' ''it'' [] ?g = (?q, ?h)"
    using sample_persist [of ?q ?g]
    by (simp add: start_key_def find_active_def map_filter_simps prune_def finished_runs_def newest_first_def Let_def add_run_def set_run_def
        sample_registry_def pair_registry_def run_of_def moved_run_def moved_job_def edit_job_def sample_jobs active_run_def new_run_def)
  moreover have "get_projection list_bolt api_jobs_projection ''k'' (jg_tx ?g) = None"
    by (simp add: sample_registry_def moved_tx_def sample_saved_def moved_job_def edit_job_def sample_jobs get_projection_def put_projection_def
        set_projection_def projection_bucket_def sample_tx_def kv_get_def)
  ultimately have "job_step list_bolt kv_ok (\<lambda>e. []) ?g ?req ?h"
    by (intro request) (simp_all add: sample_registry_def run_of_def)
  from one_more [OF tr this] obtain tr' where tr': "sample_trace tr' ?h" "offered tr' = []" by fastforce
  have "sample_play ''k'' ?es ?h = Some (pair_registry (moved_run ''k'') (moved_tx ''k'' ?t))"
    by (simp add: pair_registry_def run_of_def set_run_def run_step_def sample_change [OF _ refl] goto_def Let_def
      sample_jobs new_run_def moved_run_def moved_job_def moved_tx_def edit_job_def in_run_def)
  from play_trace [OF this tr'(1)] tr'(2) show ?thesis by auto
qed

theorem one_active_job_witness:
  "\<exists>tr. sample_trace tr (pair_registry (moved_run ''k'') (moved_tx ''k'' (moved_tx ''j'' sample_tx))) \<and> (moved tr ''j'' \<or> moved tr ''k'')"
proof -
  let ?g = "pair_registry (moved_run ''k'') (moved_tx ''k'' (moved_tx ''j'' sample_tx))"
  obtain tr where tr: "sample_trace tr ?g" using sample_moves by blast
  have g: "run_of ?g ''j'' = Some (moved_run ''j'')" "run_of ?g ''k'' = Some (moved_run ''k'')" "''j'' \<noteq> (''k'' :: string)"
    by (simp_all add: pair_registry_def run_of_def)
  have r: "\<not> terminal_job (jb_state (jr_value (moved_run i)))" "same_work (moved_run ''j'') (moved_run ''k'')" for i
    by (simp_all add: moved_run_def moved_job_def edit_job_def sample_jobs same_work_def)
  show ?thesis
    using one_active_job [OF list_store.bucket_store_axioms sample_store sample_opens tr g(1,2,3) r(1) r(1) r(2)] tr by blast
qed

end
