(* ===== verification/Actions.thy ===== *)
theory Actions
  imports Prelude
begin

text \<open>
  Sequences of actions that change the world and can fail where they are: the form of the Go functions that run programs,
  read files and write the database one after the other and return at the first error. What was done before an error
  stays done, so the world is returned with the error. \<open>upholds\<close> is their Hoare logic: a pre-condition, a post-condition
  for a returned value and one for an error.
\<close>

type_synonym ('w, 'e, 'a) action = "'w \<Rightarrow> ('e, 'a) result \<times> 'w"

definition act_return :: "'a \<Rightarrow> ('w, 'e, 'a) action" where
  "act_return x = (\<lambda>w. (Inr x, w))"

definition act_fail :: "'e \<Rightarrow> ('w, 'e, 'a) action" where
  "act_fail e = (\<lambda>w. (Inl e, w))"

definition act_bind :: "('w, 'e, 'a) action \<Rightarrow> ('a \<Rightarrow> ('w, 'e, 'b) action) \<Rightarrow> ('w, 'e, 'b) action" where
  "act_bind m f = (\<lambda>w. case m w of (Inl e, w) \<Rightarrow> (Inl e, w) | (Inr x, w) \<Rightarrow> f x w)"

text \<open>Look at the world; turn a result into an action; keep an error as a value; wrap an error.\<close>

definition act_ask :: "('w \<Rightarrow> 'a) \<Rightarrow> ('w, 'e, 'a) action" where
  "act_ask f = (\<lambda>w. (Inr (f w), w))"

definition act_lift :: "('e, 'a) result \<Rightarrow> ('w, 'e, 'a) action" where
  "act_lift r = (\<lambda>w. (r, w))"

definition act_try :: "('w, 'e, 'a) action \<Rightarrow> ('w, 'e, ('e, 'a) result) action" where
  "act_try m = (\<lambda>w. case m w of (r, w) \<Rightarrow> (Inr r, w))"

definition act_wrap :: "('e \<Rightarrow> 'e) \<Rightarrow> ('w, 'e, 'a) action \<Rightarrow> ('w, 'e, 'a) action" where
  "act_wrap f m = (\<lambda>w. case m w of (Inl e, w) \<Rightarrow> (Inl (f e), w) | (Inr x, w) \<Rightarrow> (Inr x, w))"

definition act_when :: "bool \<Rightarrow> ('w, 'e, unit) action \<Rightarrow> ('w, 'e, unit) action" where
  "act_when c m = (if c then m else act_return ())"

definition act_check :: "bool \<Rightarrow> 'e \<Rightarrow> ('w, 'e, unit) action" where
  "act_check c e = (if c then act_return () else act_fail e)"

fun act_each :: "('a \<Rightarrow> ('w, 'e, unit) action) \<Rightarrow> 'a list \<Rightarrow> ('w, 'e, unit) action" where
  "act_each f [] = act_return ()"
| "act_each f (x # xs) = act_bind (f x) (\<lambda>_. act_each f xs)"

section \<open>Hoare logic\<close>

definition upholds ::
  "('w \<Rightarrow> bool) \<Rightarrow> ('w, 'e, 'a) action \<Rightarrow> ('a \<Rightarrow> 'w \<Rightarrow> bool) \<Rightarrow> ('e \<Rightarrow> 'w \<Rightarrow> bool) \<Rightarrow> bool" where
  "upholds P m Q E \<longleftrightarrow> (\<forall>w. P w \<longrightarrow> (case m w of (Inl e, w') \<Rightarrow> E e w' | (Inr x, w') \<Rightarrow> Q x w'))"

lemma upholdsI: "(\<And>w e w'. P w \<Longrightarrow> m w = (Inl e, w') \<Longrightarrow> E e w') \<Longrightarrow> (\<And>w x w'. P w \<Longrightarrow> m w = (Inr x, w') \<Longrightarrow> Q x w') \<Longrightarrow> upholds P m Q E"
  by (auto simp: upholds_def split: prod.splits sum.splits)

lemma upholds_Inr: "upholds P m Q E \<Longrightarrow> P w \<Longrightarrow> m w = (Inr x, w') \<Longrightarrow> Q x w'"
  by (auto simp: upholds_def split: prod.splits sum.splits)

lemma upholds_Inl: "upholds P m Q E \<Longrightarrow> P w \<Longrightarrow> m w = (Inl e, w') \<Longrightarrow> E e w'"
  by (auto simp: upholds_def split: prod.splits sum.splits)

lemma upholds_return: "(\<And>w. P w \<Longrightarrow> Q x w) \<Longrightarrow> upholds P (act_return x) Q E"
  by (simp add: upholds_def act_return_def)

lemma upholds_fail: "(\<And>w. P w \<Longrightarrow> E e w) \<Longrightarrow> upholds P (act_fail e) Q E"
  by (simp add: upholds_def act_fail_def)

lemma upholds_bind:
  assumes "upholds P m R E" and "\<And>x. upholds (R x) (f x) Q E"
  shows "upholds P (act_bind m f) Q E"
proof (rule upholdsI)
  fix w e w' assume w: "P w" "act_bind m f w = (Inl e, w')"
  show "E e w'"
  proof (cases "m w")
    case (Pair r w1)
    then show ?thesis
      using w upholds_Inl [OF assms(1) w(1)] upholds_Inr [OF assms(1) w(1)] upholds_Inl [OF assms(2)]
      by (cases r) (auto simp: act_bind_def)
  qed
next
  fix w x w' assume w: "P w" "act_bind m f w = (Inr x, w')"
  show "Q x w'"
  proof (cases "m w")
    case (Pair r w1)
    then show ?thesis
      using w upholds_Inr [OF assms(1) w(1)] upholds_Inr [OF assms(2)] by (cases r) (auto simp: act_bind_def)
  qed
qed

lemma upholds_ask: "(\<And>w. P w \<Longrightarrow> Q (f w) w) \<Longrightarrow> upholds P (act_ask f) Q E"
  by (simp add: upholds_def act_ask_def)

lemma upholds_lift: "(\<And>w e. P w \<Longrightarrow> r = Inl e \<Longrightarrow> E e w) \<Longrightarrow> (\<And>w x. P w \<Longrightarrow> r = Inr x \<Longrightarrow> Q x w) \<Longrightarrow> upholds P (act_lift r) Q E"
  by (auto simp: upholds_def act_lift_def split: sum.splits)

lemma upholds_try:
  assumes "upholds P m (\<lambda>x. Q (Inr x)) (\<lambda>e. Q (Inl e))"
  shows "upholds P (act_try m) Q E"
proof (rule upholdsI)
  fix w x w' assume w: "P w" "act_try m w = (Inr x, w')"
  then have "m w = (x, w')" by (auto simp: act_try_def split: prod.splits)
  then show "Q x w'" using upholds_Inl [OF assms w(1)] upholds_Inr [OF assms w(1)] by (cases x) auto
qed (auto simp: act_try_def split: prod.splits)

lemma upholds_wrap: "upholds P m Q (\<lambda>e. E (f e)) \<Longrightarrow> upholds P (act_wrap f m) Q E"
  by (auto simp: upholds_def act_wrap_def split: prod.splits sum.splits)

lemma upholds_when: "upholds (\<lambda>w. P w \<and> c) m Q E \<Longrightarrow> (\<And>w. P w \<Longrightarrow> \<not> c \<Longrightarrow> Q () w) \<Longrightarrow> upholds P (act_when c m) Q E"
  by (auto simp: act_when_def upholds_def act_return_def)

lemma upholds_check: "(\<And>w. P w \<Longrightarrow> c \<Longrightarrow> Q () w) \<Longrightarrow> (\<And>w. P w \<Longrightarrow> \<not> c \<Longrightarrow> E e w) \<Longrightarrow> upholds P (act_check c e) Q E"
  by (auto simp: act_check_def upholds_def act_return_def act_fail_def)

lemma upholds_each:
  assumes "\<And>x. x \<in> set xs \<Longrightarrow> upholds P (f x) (\<lambda>_. P) E"
  shows "upholds P (act_each f xs) (\<lambda>_. P) E"
  using assms by (induction xs) (auto intro: upholds_return upholds_bind)

lemma upholds_weaken:
  assumes "upholds P' m Q' E'" and "\<And>w. P w \<Longrightarrow> P' w" and "\<And>x w. Q' x w \<Longrightarrow> Q x w" and "\<And>e w. E' e w \<Longrightarrow> E e w"
  shows "upholds P m Q E"
proof (rule upholdsI)
  show "E e w'" if "P w" "m w = (Inl e, w')" for w e w' using upholds_Inl [OF assms(1)] assms(2,4) that by blast
  show "Q x w'" if "P w" "m w = (Inr x, w')" for w x w' using upholds_Inr [OF assms(1)] assms(2,3) that by blast
qed

text \<open>An action that keeps a predicate whatever comes of it.\<close>

definition keeps :: "('w \<Rightarrow> bool) \<Rightarrow> ('w, 'e, 'a) action \<Rightarrow> bool" where
  "keeps P m \<longleftrightarrow> upholds P m (\<lambda>_. P) (\<lambda>_. P)"

named_theorems keeps_intros

lemma keeps_iff: "keeps P m \<longleftrightarrow> (\<forall>w. P w \<longrightarrow> P (snd (m w)))"
proof
  assume k: "keeps P m"
  have "P (snd (m w))" if "P w" for w
    using upholds_Inl [OF k [unfolded keeps_def] that] upholds_Inr [OF k [unfolded keeps_def] that]
    by (cases "m w"; cases "fst (m w)") auto
  then show "\<forall>w. P w \<longrightarrow> P (snd (m w))" by blast
next
  assume "\<forall>w. P w \<longrightarrow> P (snd (m w))"
  then show "keeps P m" unfolding keeps_def by (intro upholdsI) (metis snd_conv)+
qed

lemma keeps_simple [keeps_intros]:
  "keeps P (act_return x)" "keeps P (act_fail e)" "keeps P (act_ask f)" "keeps P (act_lift r)" "keeps P (act_check c e)"
  by (simp_all add: keeps_iff act_return_def act_fail_def act_ask_def act_lift_def act_check_def)

lemma keeps_bind [keeps_intros]: "keeps P m \<Longrightarrow> (\<And>x. keeps P (f x)) \<Longrightarrow> keeps P (act_bind m f)"
  unfolding keeps_def by (rule upholds_bind)

lemma keeps_try [keeps_intros]: "keeps P m \<Longrightarrow> keeps P (act_try m)"
  unfolding keeps_def by (rule upholds_try)

lemma keeps_wrap [keeps_intros]: "keeps P m \<Longrightarrow> keeps P (act_wrap f m)"
  unfolding keeps_def by (rule upholds_wrap)

lemma keeps_when [keeps_intros]: "keeps P m \<Longrightarrow> keeps P (act_when c m)"
  by (simp add: act_when_def keeps_simple)

lemma keeps_each [keeps_intros]: "(\<And>x. x \<in> set xs \<Longrightarrow> keeps P (f x)) \<Longrightarrow> keeps P (act_each f xs)"
  unfolding keeps_def by (rule upholds_each)

lemma keeps_if [keeps_intros]: "keeps P m \<Longrightarrow> keeps P n \<Longrightarrow> keeps P (if c then m else n)"
  by simp

lemma keeps_upholds: "keeps P m \<Longrightarrow> (\<And>w. P w \<Longrightarrow> E w) \<Longrightarrow> upholds P m (\<lambda>_. P) (\<lambda>_. E)"
  unfolding keeps_def by (erule upholds_weaken) auto

end
