(* ===== verification/Git.thy ===== *)
theory Git
  imports Actions Normalize Records Options
begin

text \<open>
  The Git client (\<open>internal/git/git.go\<close>, \<open>repository_sync.go\<close>, \<open>branch_tracking.go\<close>, \<open>owned_repository.go\<close>). The program
  \<open>git\<close> and the file system are the world outside: an argument that says what a command with given arguments in a
  directory does. The functions here are the code's: which commands they run, in which order, what they read of the
  output, and which errors they return. \<open>git_contract\<close> collects what is documented of the commands and relied on.
\<close>

section \<open>Splitting output\<close>

text \<open>\<open>strings.Fields\<close>, and \<open>strings.Split\<close> at a string.\<close>

fun fields_loop :: "string \<Rightarrow> (nat \<times> string) list \<Rightarrow> string list" where
  "fields_loop acc [] = (if acc = [] then [] else [acc])"
| "fields_loop acc ((r, bs) # cs) =
     (if is_space r then (if acc = [] then fields_loop [] cs else acc # fields_loop [] cs) else fields_loop (acc @ bs) cs)"

definition fields_of :: "string \<Rightarrow> string list" where
  "fields_of s = fields_loop [] (chunks s)"

function split_string :: "string \<Rightarrow> string \<Rightarrow> string \<Rightarrow> string list" where
  "split_string sep acc [] = [acc]"
| "split_string sep acc (c # s) =
     (if sep \<noteq> [] \<and> has_prefix (c # s) sep then acc # split_string sep [] (drop (length sep) (c # s))
      else split_string sep (acc @ [c]) s)"
  by pat_completeness auto
termination by (relation "measure (\<lambda>(sep, acc, s). length s)") auto

text \<open>\<open>strings.TrimPrefix\<close>, \<open>TrimSuffix\<close> and \<open>Cut\<close> at a character.\<close>

definition trim_prefix :: "string \<Rightarrow> string \<Rightarrow> string" where
  "trim_prefix s p = (if has_prefix s p then drop (length p) s else s)"

definition trim_suffix :: "string \<Rightarrow> string \<Rightarrow> string" where
  "trim_suffix s p = (if has_suffix s p then take (length s - length p) s else s)"

definition cut_at :: "char \<Rightarrow> string \<Rightarrow> string \<times> string" where
  "cut_at c s = (case cut_char c s of None \<Rightarrow> (s, []) | Some ab \<Rightarrow> ab)"

definition trim_right_char :: "char \<Rightarrow> string \<Rightarrow> string" where
  "trim_right_char c s = rev (dropWhile (\<lambda>x. x = c) (rev s))"

definition newline_char :: char where "newline_char = CHR 0x0A"

definition nul_char :: char where "nul_char = CHR 0x00"

section \<open>The world outside\<close>

datatype path_kind = Missing | Directory | OtherFile | Unreadable string

text \<open>\<open>GitError\<close>: the arguments, the exit code (\<open>None\<close> when the program did not run) and what it wrote. \<open>Context\<close> is
  \<open>fmt.Errorf\<close> with \<open>%w\<close>.\<close>

datatype git_error =
    GitError "string list" "int option" string
  | Problem string
  | PathError string
  | BranchError repository_error
  | RemoteError manifest_error
  | Context string git_error

text \<open>\<open>ow_git\<close> runs a command in a directory; its error is the exit code and the output. \<open>ow_url\<close> and \<open>ow_url_password\<close>
  are what \<open>net/url\<close> makes of a URL: the cleaned text and whether it has a password. \<open>ow_lock\<close> takes a lock file, without or
  with waiting for it; \<open>Inr False\<close> is \<open>ErrLocked\<close>.\<close>

record 'w outside =
  ow_git :: "string \<Rightarrow> string list \<Rightarrow> ('w, int option \<times> string, string) action"
  ow_lstat :: "string \<Rightarrow> 'w \<Rightarrow> path_kind"
  ow_stat :: "string \<Rightarrow> 'w \<Rightarrow> path_kind"
  ow_symlink_in :: "string \<Rightarrow> 'w \<Rightarrow> (string, string option) result"
  ow_real_path :: "string \<Rightarrow> 'w \<Rightarrow> (string, string) result"
  ow_same_file :: "string \<Rightarrow> string \<Rightarrow> 'w \<Rightarrow> bool"
  ow_make_dirs :: "string \<Rightarrow> ('w, string, unit) action"
  ow_lock :: "bool \<Rightarrow> string \<Rightarrow> 'w \<Rightarrow> (string, bool) result"
  ow_cwd :: string
  ow_url :: "string \<Rightarrow> string option"
  ow_url_password :: "string \<Rightarrow> (string, bool) result"

type_synonym ('w, 'a) git_action = "('w, git_error, 'a) action"

fun exit_code :: "git_error \<Rightarrow> int option" where
  "exit_code (GitError args code text) = code"
| "exit_code (Context s e) = exit_code e"
| "exit_code e = None"

definition git_output :: "'w outside \<Rightarrow> string \<Rightarrow> string list \<Rightarrow> ('w, string) git_action" where
  "git_output W dir args = (\<lambda>w. case ow_git W dir args w of
      (Inl (code, text), w) \<Rightarrow> (Inl (GitError args code (trim_space text)), w)
    | (Inr out, w) \<Rightarrow> (Inr out, w))"

definition git_run :: "'w outside \<Rightarrow> string \<Rightarrow> string list \<Rightarrow> ('w, unit) git_action" where
  "git_run W dir args = act_bind (git_output W dir args) (\<lambda>_. act_return ())"

definition git_trimmed :: "'w outside \<Rightarrow> string \<Rightarrow> string list \<Rightarrow> ('w, string) git_action" where
  "git_trimmed W dir args = act_bind (git_output W dir args) (\<lambda>out. act_return (trim_space out))"

text \<open>A command that tells yes by success and no by exit code 1.\<close>

definition git_decides :: "'w outside \<Rightarrow> string \<Rightarrow> string list \<Rightarrow> ('w, bool) git_action" where
  "git_decides W dir args = act_bind (act_try (git_output W dir args)) (\<lambda>r. case r of
      Inr _ \<Rightarrow> act_return True
    | Inl e \<Rightarrow> if exit_code e = Some 1 then act_return False else act_fail e)"

definition path_abs :: "'w outside \<Rightarrow> string \<Rightarrow> string" where
  "path_abs W p = (if is_abs p then path_clean p else path_join [ow_cwd W, p])"

text \<open>\<open>SameDir\<close>.\<close>

definition same_dir :: "'w outside \<Rightarrow> string \<Rightarrow> string \<Rightarrow> 'w \<Rightarrow> bool" where
  "same_dir W a b w =
     (let there = (\<lambda>k. k = Directory \<or> k = OtherFile)
      in if there (ow_stat W a w) \<and> there (ow_stat W b w) then ow_same_file W a b w else path_clean a = path_clean b)"

section \<open>Reading commands\<close>

definition rev_parse :: "'w outside \<Rightarrow> string \<Rightarrow> string \<Rightarrow> ('w, string) git_action" where
  "rev_parse W dir revision = git_trimmed W dir [''rev-parse'', ''--verify'', revision]"

definition git_head :: "'w outside \<Rightarrow> string \<Rightarrow> ('w, string) git_action" where
  "git_head W dir = git_trimmed W dir [''rev-parse'', ''--verify'', ''HEAD^{commit}'']"

definition resolve_branch_sha :: "'w outside \<Rightarrow> string \<Rightarrow> string \<Rightarrow> ('w, string) git_action" where
  "resolve_branch_sha W dir branch = rev_parse W dir (''refs/heads/'' @ trim_space branch @ ''^{commit}'')"

definition current_branch :: "'w outside \<Rightarrow> string \<Rightarrow> ('w, string) git_action" where
  "current_branch W dir = git_trimmed W dir [''branch'', ''--show-current'']"

definition status_porcelain :: "'w outside \<Rightarrow> string \<Rightarrow> ('w, string) git_action" where
  "status_porcelain W dir = git_output W dir [''status'', ''--porcelain'']"

definition branch_exists :: "'w outside \<Rightarrow> string \<Rightarrow> string \<Rightarrow> ('w, bool) git_action" where
  "branch_exists W dir branch0 =
     (let branch = trim_space branch0
      in if branch = [] then act_fail (Problem ''branch name is empty'')
         else git_decides W dir [''show-ref'', ''--verify'', ''--quiet'', ''refs/heads/'' @ branch])"

definition reference_exists :: "'w outside \<Rightarrow> string \<Rightarrow> string \<Rightarrow> ('w, bool) git_action" where
  "reference_exists W dir ref = git_decides W dir [''show-ref'', ''--verify'', ''--quiet'', ref]"

definition is_ancestor :: "'w outside \<Rightarrow> string \<Rightarrow> string \<Rightarrow> string \<Rightarrow> ('w, bool) git_action" where
  "is_ancestor W dir ancestor descendant = git_decides W dir [''merge-base'', ''--is-ancestor'', ancestor, descendant]"

definition local_only_commits :: "'w outside \<Rightarrow> string \<Rightarrow> string \<Rightarrow> string \<Rightarrow> ('w, string list) git_action" where
  "local_only_commits W dir own other =
     act_bind (git_output W dir [''log'', ''--format=%H'', ''--max-count=20'', other @ ''..'' @ own]) (\<lambda>out. act_return (fields_of out))"

definition ahead_behind :: "'w outside \<Rightarrow> string \<Rightarrow> string \<Rightarrow> string \<Rightarrow> ('w, int \<times> int) git_action" where
  "ahead_behind W dir left right =
     act_bind (git_output W dir [''rev-list'', ''--left-right'', ''--count'', left @ ''...'' @ right]) (\<lambda>out. case fields_of out of
       [a, b] \<Rightarrow> (case parse_int64 a of
           None \<Rightarrow> act_fail (Problem (''parsing '' @ a))
         | Some x \<Rightarrow> (case parse_int64 b of None \<Rightarrow> act_fail (Problem (''parsing '' @ b)) | Some y \<Rightarrow> act_return (x, y)))
     | _ \<Rightarrow> act_fail (Problem ''invalid Git ahead/behind response''))"

definition equal_trees :: "'w outside \<Rightarrow> string \<Rightarrow> string \<Rightarrow> string \<Rightarrow> ('w, bool) git_action" where
  "equal_trees W dir a b = act_bind (rev_parse W dir (a @ ''^{tree}'')) (\<lambda>x.
     act_bind (rev_parse W dir (b @ ''^{tree}'')) (\<lambda>y. act_return (x = y)))"

definition ensure_clean :: "'w outside \<Rightarrow> string \<Rightarrow> ('w, unit) git_action" where
  "ensure_clean W dir = act_bind (git_output W dir [''status'', ''--porcelain=v1'', ''-uall'']) (\<lambda>out.
     act_check (trim_space out = []) (Problem ''checkout has staged, unstaged, untracked, or unmerged changes''))"

text \<open>The path of a marker of an operation in a checkout, and the checks for them.\<close>

definition git_path :: "'w outside \<Rightarrow> string \<Rightarrow> string \<Rightarrow> ('w, string) git_action" where
  "git_path W dir marker = act_bind (git_trimmed W dir [''rev-parse'', ''--git-path'', marker])
     (\<lambda>p. act_return (if is_abs p then p else path_join [dir, p]))"

definition no_marker :: "'w outside \<Rightarrow> string \<Rightarrow> string \<Rightarrow> (string \<Rightarrow> git_error) \<Rightarrow> string \<Rightarrow> ('w, unit) git_action" where
  "no_marker W dir found unreadable marker = act_bind (git_path W dir marker) (\<lambda>p.
     act_bind (act_ask (ow_stat W p)) (\<lambda>k. case k of
       Missing \<Rightarrow> act_return ()
     | Unreadable e \<Rightarrow> act_fail (unreadable e)
     | _ \<Rightarrow> act_fail (Problem (found @ marker @ '' exists''))))"

definition ensure_no_operation :: "'w outside \<Rightarrow> string \<Rightarrow> string \<Rightarrow> ('w, unit) git_action" where
  "ensure_no_operation W dir what =
     act_each (\<lambda>marker. no_marker W dir (''cannot '' @ what @ '' while Git operation marker '')
         (\<lambda>e. Context (''inspect Git operation marker '' @ marker) (PathError e)) marker)
       [''rebase-merge'', ''rebase-apply'', ''MERGE_HEAD'', ''CHERRY_PICK_HEAD'', ''REVERT_HEAD'', ''BISECT_LOG'']"

definition ensure_reconciliation_operation :: "'w outside \<Rightarrow> string \<Rightarrow> ('w, unit) git_action" where
  "ensure_reconciliation_operation W dir =
     act_each (no_marker W dir ''cannot reconcile while Git operation marker '' PathError)
       [''rebase-merge'', ''rebase-apply'', ''CHERRY_PICK_HEAD'', ''REVERT_HEAD'', ''BISECT_LOG'']"

definition merge_in_progress :: "'w outside \<Rightarrow> string \<Rightarrow> ('w, bool) git_action" where
  "merge_in_progress W dir = act_bind (git_path W dir ''MERGE_HEAD'') (\<lambda>p.
     act_bind (act_ask (ow_stat W p)) (\<lambda>k. case k of
       Missing \<Rightarrow> act_return False
     | Unreadable e \<Rightarrow> act_fail (PathError e)
     | _ \<Rightarrow> act_return True))"

section \<open>Parsing what Git prints\<close>

record worktree_info =
  wt_path :: string
  wt_head :: string
  wt_branch :: string
  wt_bare :: bool
  wt_detached :: bool
  wt_prunable :: string

definition empty_worktree :: worktree_info where
  "empty_worktree = \<lparr>wt_path = [], wt_head = [], wt_branch = [], wt_bare = False, wt_detached = False, wt_prunable = []\<rparr>"

definition worktree_line :: "worktree_info \<Rightarrow> string \<Rightarrow> worktree_info" where
  "worktree_line wt line = (let (key, v) = cut_at (CHR '' '') line in
     if key = ''worktree'' then wt\<lparr>wt_path := v\<rparr>
     else if key = ''HEAD'' then wt\<lparr>wt_head := v\<rparr>
     else if key = ''branch'' then wt\<lparr>wt_branch := trim_prefix v ''refs/heads/''\<rparr>
     else if key = ''bare'' then wt\<lparr>wt_bare := True\<rparr>
     else if key = ''detached'' then wt\<lparr>wt_detached := True\<rparr>
     else if key = ''prunable'' then wt\<lparr>wt_prunable := v\<rparr>
     else wt)"

definition worktree_block :: "string \<Rightarrow> worktree_info" where
  "worktree_block block = foldl worktree_line empty_worktree (split_char newline_char block)"

definition parse_worktree_list :: "string \<Rightarrow> worktree_info list" where
  "parse_worktree_list out =
     filter (\<lambda>wt. wt_path wt \<noteq> []) (List.map worktree_block
       (filter (\<lambda>b. trim_space b \<noteq> []) (split_string [newline_char, newline_char] [] (trim_space out))))"

definition list_worktrees :: "'w outside \<Rightarrow> string \<Rightarrow> ('w, worktree_info list) git_action" where
  "list_worktrees W dir = act_bind (git_output W dir [''worktree'', ''list'', ''--porcelain'']) (\<lambda>out. act_return (parse_worktree_list out))"

definition target_worktree_for_branch :: "'w outside \<Rightarrow> string \<Rightarrow> string \<Rightarrow> ('w, worktree_info option) git_action" where
  "target_worktree_for_branch W dir branch = act_bind (list_worktrees W dir) (\<lambda>wts. act_return (List.find (\<lambda>wt. wt_branch wt = branch) wts))"

text \<open>\<open>WorktreeSnapshot\<close>: the head, the branch and the status lines.\<close>

definition snapshot_line :: "string \<times> string \<times> string list \<Rightarrow> string \<Rightarrow> string \<times> string \<times> string list" where
  "snapshot_line st line = (case st of (head, branch, lines) \<Rightarrow>
     if has_prefix line ''# branch.oid ''
     then (let h = trim_space (trim_prefix line ''# branch.oid '') in (if h = ''(initial)'' then [] else h, branch, lines))
     else if has_prefix line ''# branch.head ''
     then (let b = trim_space (trim_prefix line ''# branch.head '') in (head, if b = ''(detached)'' then [] else b, lines))
     else if has_prefix line ''#'' \<or> trim_space line = [] then st
     else (head, branch, lines @ [line]))"

definition parse_snapshot :: "string \<Rightarrow> string \<times> string \<times> string" where
  "parse_snapshot out =
     (case foldl snapshot_line ([], [], []) (split_char newline_char (trim_right_char newline_char out)) of
        (head, branch, lines) \<Rightarrow> (head, branch, join_with [newline_char] lines))"

definition worktree_snapshot :: "'w outside \<Rightarrow> string \<Rightarrow> ('w, string \<times> string \<times> string) git_action" where
  "worktree_snapshot W dir =
     act_bind (git_output W dir [''--no-optional-locks'', ''status'', ''--porcelain=v2'', ''--branch'', ''--untracked-files=normal''])
       (\<lambda>out. act_return (parse_snapshot out))"

definition split_nul :: "string \<Rightarrow> string list" where
  "split_nul out = filter (\<lambda>p. p \<noteq> []) (split_char nul_char out)"

definition untracked_files :: "'w outside \<Rightarrow> string \<Rightarrow> ('w, string list) git_action" where
  "untracked_files W dir = act_bind (git_output W dir [''ls-files'', ''--others'', ''--exclude-standard'', ''-z''])
     (\<lambda>out. act_return (split_nul out))"

definition diff_name_only :: "'w outside \<Rightarrow> string \<Rightarrow> string \<Rightarrow> string \<Rightarrow> ('w, string list) git_action" where
  "diff_name_only W dir old new = act_bind (git_output W dir [''diff'', ''--name-only'', ''-z'', old, new]) (\<lambda>out. act_return (split_nul out))"

text \<open>\<open>StatusPaths\<close>: a renamed or copied entry is followed by the path it came from.\<close>

definition moved_entry :: "string \<Rightarrow> bool" where
  "moved_entry e \<longleftrightarrow> e ! 0 = CHR ''R'' \<or> e ! 0 = CHR ''C'' \<or> e ! 1 = CHR ''R'' \<or> e ! 1 = CHR ''C''"

fun status_entries :: "string list \<Rightarrow> string list" where
  "status_entries [] = []"
| "status_entries [e] = (if length e < 3 then [] else [drop 3 e])"
| "status_entries (e # f # rest) =
     (if length e < 3 then status_entries (f # rest)
      else if moved_entry e \<and> f \<noteq> [] then drop 3 e # f # status_entries rest
      else drop 3 e # status_entries (f # rest))"

definition status_paths :: "'w outside \<Rightarrow> string \<Rightarrow> ('w, string list) git_action" where
  "status_paths W dir = act_bind (git_output W dir [''status'', ''--porcelain=v1'', ''-z'', ''-uall''])
     (\<lambda>out. act_return (status_entries (split_char nul_char out)))"

section \<open>Changing commands\<close>

definition update_ref :: "'w outside \<Rightarrow> string \<Rightarrow> string \<Rightarrow> string \<Rightarrow> string \<Rightarrow> string \<Rightarrow> ('w, unit) git_action" where
  "update_ref W dir ref new old message = git_run W dir [''update-ref'', ''-m'', message, ref, new, old]"

definition zeros :: "string \<Rightarrow> string" where
  "zeros sha = replicate (length sha) (CHR ''0'')"

definition recovery_ref :: "'w outside \<Rightarrow> string \<Rightarrow> string \<Rightarrow> string \<Rightarrow> ('w, unit) git_action" where
  "recovery_ref W dir ref sha = git_run W dir [''update-ref'', ref, sha, zeros sha]"

definition add_reconciliation :: "'w outside \<Rightarrow> string \<Rightarrow> string \<Rightarrow> string \<Rightarrow> ('w, unit) git_action" where
  "add_reconciliation W dir path sha = git_run W dir [''worktree'', ''add'', ''--detach'', ''--'', path, sha]"

definition merge_reconciliation :: "'w outside \<Rightarrow> string \<Rightarrow> string \<Rightarrow> ('w, unit) git_action" where
  "merge_reconciliation W path sha = git_run W path
     [''-c'', ''core.hooksPath=/dev/null'', ''-c'', ''core.editor=true'', ''merge'', ''--no-ff'', ''--no-edit'', ''--'', sha]"

definition commit_reconciliation :: "'w outside \<Rightarrow> string \<Rightarrow> ('w, unit) git_action" where
  "commit_reconciliation W path = git_run W path
     [''-c'', ''core.hooksPath=/dev/null'', ''-c'', ''core.editor=true'', ''commit'', ''--no-edit'']"

definition abort_reconciliation :: "'w outside \<Rightarrow> string \<Rightarrow> ('w, unit) git_action" where
  "abort_reconciliation W path = git_run W path [''merge'', ''--abort'']"

definition worktree_remove :: "'w outside \<Rightarrow> string \<Rightarrow> string \<Rightarrow> bool \<Rightarrow> ('w, unit) git_action" where
  "worktree_remove W dir path force = git_run W dir ([''worktree'', ''remove''] @ (if force then [''--force''] else []) @ [path])"

record worktree_add_options =
  wo_root :: string
  wo_path :: string
  wo_branch :: string
  wo_start :: string
  wo_new_branch :: bool

definition worktree_add :: "'w outside \<Rightarrow> worktree_add_options \<Rightarrow> ('w, unit) git_action" where
  "worktree_add W opts =
     (if trim_space (wo_root opts) = [] then act_fail (Problem ''repository root is required'')
      else if trim_space (wo_path opts) = [] then act_fail (Problem ''worktree path is required'')
      else if wo_new_branch opts
      then (if trim_space (wo_branch opts) = [] then act_fail (Problem ''branch is required when creating a new worktree branch'')
        else git_run W (wo_root opts) ([''worktree'', ''add'', ''-b'', wo_branch opts, wo_path opts]
          @ (if trim_space (wo_start opts) \<noteq> [] then [wo_start opts] else [])))
      else git_run W (wo_root opts) ([''worktree'', ''add'', wo_path opts]
          @ (if trim_space (wo_branch opts) \<noteq> [] then [wo_branch opts]
             else if trim_space (wo_start opts) \<noteq> [] then [wo_start opts] else [])))"

definition git_switch :: "'w outside \<Rightarrow> string \<Rightarrow> string \<Rightarrow> string \<Rightarrow> bool \<Rightarrow> ('w, unit) git_action" where
  "git_switch W dir branch0 start create =
     (let branch = trim_space branch0
      in if branch = [] then act_fail (Problem ''branch name is empty'')
         else git_run W dir (''switch'' # (if create then [''-c'', branch] @ (if trim_space start \<noteq> [] then [trim_space start] else [])
           else [branch])))"

definition delete_branch :: "'w outside \<Rightarrow> string \<Rightarrow> string \<Rightarrow> bool \<Rightarrow> ('w, unit) git_action" where
  "delete_branch W dir branch force = git_run W dir [''branch'', if force then ''-D'' else ''-d'', branch]"

fun first_branch :: "'w outside \<Rightarrow> string \<Rightarrow> string list \<Rightarrow> ('w, string) git_action" where
  "first_branch W dir [] = act_fail (Problem ''could not determine repository default branch; pass a target branch explicitly'')"
| "first_branch W dir (b # bs) = act_bind (branch_exists W dir b) (\<lambda>yes. if yes then act_return b else first_branch W dir bs)"

definition default_branch :: "'w outside \<Rightarrow> string \<Rightarrow> ('w, string) git_action" where
  "default_branch W dir =
     (let rest = first_branch W dir [''main'', ''master'', ''develop'', ''trunk'']
      in act_bind (act_try (git_output W dir [''symbolic-ref'', ''--short'', ''refs/remotes/origin/HEAD''])) (\<lambda>r. case r of
           Inl _ \<Rightarrow> rest
         | Inr out \<Rightarrow> (let branch = trim_space out;
                 branch = (case cut_char (CHR ''/'') branch of None \<Rightarrow> branch | Some (_, name) \<Rightarrow> name)
               in act_bind (branch_exists W dir branch) (\<lambda>yes. if yes then act_return branch else rest))))"

definition commit_all :: "'w outside \<Rightarrow> string \<Rightarrow> string \<Rightarrow> ('w, string) git_action" where
  "commit_all W dir message =
     act_bind (ensure_no_operation W dir ''commit uncommitted changes'') (\<lambda>_.
     act_bind (git_run W dir [''add'', ''--all'']) (\<lambda>_.
     act_bind (git_run W dir [''-c'', ''commit.gpgsign=false'', ''commit'', ''--no-verify'', ''--quiet'', ''-m'', message]) (\<lambda>_.
     git_head W dir)))"

definition git_rebase :: "'w outside \<Rightarrow> string \<Rightarrow> string \<Rightarrow> ('w, unit) git_action" where
  "git_rebase W dir target = git_run W dir [''rebase'', ''refs/heads/'' @ trim_space target]"

definition rebase_abort :: "'w outside \<Rightarrow> string \<Rightarrow> ('w, unit) git_action" where
  "rebase_abort W dir = git_run W dir [''rebase'', ''--abort'']"

definition reset_hard :: "'w outside \<Rightarrow> string \<Rightarrow> string \<Rightarrow> ('w, unit) git_action" where
  "reset_hard W dir revision = git_run W dir [''reset'', ''--hard'', revision]"

definition update_index_refresh :: "'w outside \<Rightarrow> string \<Rightarrow> ('w, unit) git_action" where
  "update_index_refresh W dir = git_run W dir [''update-index'', ''-q'', ''--refresh'']"

definition read_tree_merge_update :: "'w outside \<Rightarrow> string \<Rightarrow> string \<Rightarrow> string \<Rightarrow> ('w, unit) git_action" where
  "read_tree_merge_update W dir old new =
     git_run W dir [''-c'', ''submodule.recurse=false'', ''read-tree'', ''-m'', ''-u'', old, new]"

text \<open>\<open>WorktreeRelativeRevision\<close>.\<close>

definition worktree_relative :: "string \<Rightarrow> string \<times> bool" where
  "worktree_relative revision =
     (if revision = ''-'' then ([CHR ''@'', CHR ''{''] @ ''-1}'', True)
      else if contains_string revision [CHR ''@'', CHR ''{''] then (revision, True)
      else (revision, list_ex (\<lambda>head. revision = head \<or> has_prefix revision (head @ ''^'') \<or> has_prefix revision (head @ ''~'')
          \<or> has_prefix revision (head @ '':''))
        [''HEAD'', ''@'', ''ORIG_HEAD'', ''FETCH_HEAD'', ''MERGE_HEAD'', ''CHERRY_PICK_HEAD'', ''REVERT_HEAD'', ''REBASE_HEAD'',
         ''BISECT_HEAD'', ''AUTO_MERGE'']))"

definition hex_char :: "char \<Rightarrow> bool" where
  "hex_char c \<longleftrightarrow> c \<in> set ''0123456789abcdef''"

definition valid_commit_sha :: "string \<Rightarrow> bool" where
  "valid_commit_sha s \<longleftrightarrow> list_all hex_char s \<and> (length s = 40 \<or> length s = 64)"

section \<open>Upstreams\<close>

text \<open>\<open>ValidateRepositorySource\<close>.\<close>

definition validate_repository_source :: "'w outside \<Rightarrow> string \<Rightarrow> (git_error, unit) result" where
  "validate_repository_source W source =
     (if sanitize_remote_url (ow_url W) source \<noteq> Inr source \<or> source = [] \<or> length source > 4096
      then Inl (Problem ''valid credential-free onboarding source is required'')
      else if contains_scheme source
      then (case ow_url_password W source of
          Inl e \<Rightarrow> Inl (Problem e)
        | Inr secret \<Rightarrow> if secret then Inl (Problem ''onboarding source must not contain a password'') else Inr ())
      else Inr ())"

definition branch_ok :: "string \<Rightarrow> bool" where
  "branch_ok b \<longleftrightarrow> is_ok (validate_repository_branch b)"

definition simple_remote :: "string \<Rightarrow> bool" where
  "simple_remote r \<longleftrightarrow> r \<noteq> ''.'' \<and> CHR ''/'' \<notin> set r \<and> branch_ok r"

definition tracking_ref_ok :: "string \<Rightarrow> bool" where
  "tracking_ref_ok r \<longleftrightarrow> has_prefix r ''refs/remotes/'' \<and> branch_ok (trim_prefix r ''refs/remotes/'')"

definition upstream_validate :: "'w outside \<Rightarrow> repo_upstream \<Rightarrow> (git_error, unit) result" where
  "upstream_validate W u =
     (if ru_remote u \<noteq> [] \<and> \<not> simple_remote (ru_remote u) then Inl (Problem ''upstream remote must be a simple named remote'')
      else if ru_tracking_ref u \<noteq> [] \<and> (ru_remote u = [] \<or> \<not> tracking_ref_ok (ru_tracking_ref u))
      then Inl (Problem ''upstream tracking ref must be under refs/remotes/'')
      else if has_prefix (ru_url u) ''-'' \<or> (CHR '':'' \<notin> set (ru_url u) \<and> \<not> is_abs (ru_url u))
      then Inl (Problem ''upstream must be a Git URL or absolute repository path'')
      else (case validate_repository_source W (ru_url u) of
          Inl e \<Rightarrow> Inl (Context ''invalid upstream URL'' e)
        | Inr _ \<Rightarrow> if \<not> branch_ok (ru_branch u) \<or> length (ru_branch u) > 256
            then Inl (Problem (''invalid upstream branch '' @ ru_branch u)) else Inr ()))"

definition parse_repository_upstream :: "'w outside \<Rightarrow> string \<Rightarrow> string \<Rightarrow> (git_error, repo_upstream) result" where
  "parse_repository_upstream W url branch =
     (let u = \<lparr>ru_url = url, ru_branch = branch, ru_remote = ''origin'', ru_tracking_ref = ''refs/remotes/origin/'' @ branch\<rparr>
      in rbind (upstream_validate W u) (\<lambda>_. Inr u))"

definition upstream_ref :: "repo_upstream \<Rightarrow> string" where
  "upstream_ref u =
     (if ru_tracking_ref u \<noteq> [] then ru_tracking_ref u
      else ''refs/remotes/'' @ (if ru_remote u = [] then ''origin'' else ru_remote u) @ ''/'' @ ru_branch u)"

definition upstream_string :: "repo_upstream \<Rightarrow> string" where
  "upstream_string u = ru_url u @ '' branch '' @ ru_branch u"

text \<open>\<open>trackingValue\<close>: the one value of a key of the repository's own configuration; no value is the empty text.\<close>

definition tracking_value :: "'w outside \<Rightarrow> string \<Rightarrow> string \<Rightarrow> ('w, string) git_action" where
  "tracking_value W dir key =
     act_bind (act_try (git_output W dir [''config'', ''--local'', ''--includes'', ''--null'', ''--get-all'', key])) (\<lambda>r. case r of
       Inl e \<Rightarrow> if exit_code e = Some 1 then act_return [] else act_fail e
     | Inr out \<Rightarrow> (case split_char nul_char (trim_suffix out [nul_char]) of
         [v] \<Rightarrow> if v = [] then act_fail (Problem (''Git tracking key '' @ key @ '' must have one nonempty value'')) else act_return v
       | _ \<Rightarrow> act_fail (Problem (''Git tracking key '' @ key @ '' must have one nonempty value''))))"

text \<open>\<open>BranchUpstream\<close>: a missing pair of keys is a branch without an upstream.\<close>

definition branch_upstream :: "'w outside \<Rightarrow> string \<Rightarrow> string \<Rightarrow> ('w, repo_upstream option) git_action" where
  "branch_upstream W dir branch =
     (case validate_repository_branch branch of
        Inl e \<Rightarrow> act_fail (BranchError e)
      | Inr _ \<Rightarrow>
          act_bind (tracking_value W dir (''branch.'' @ branch @ ''.remote'')) (\<lambda>remote.
          act_bind (tracking_value W dir (''branch.'' @ branch @ ''.merge'')) (\<lambda>merge.
          if remote = [] \<and> merge = [] then act_return None
          else if remote = [] \<or> \<not> has_prefix merge ''refs/heads/''
          then act_fail (Problem (''incomplete Git tracking for '' @ branch @ ''; configure its remote and merge branch''))
          else if \<not> simple_remote remote
          then act_fail (Problem ''Git upstream must use a named remote, not local branch tracking'')
          else act_bind (tracking_value W dir (''remote.'' @ remote @ ''.url'')) (\<lambda>url.
            if url = [] then act_fail (Problem (''Git upstream remote '' @ remote @ '' has no URL''))
            else (let url = (if CHR '':'' \<notin> set url \<and> \<not> is_abs url then path_join [dir, url] else url)
              in act_bind (git_trimmed W dir [''for-each-ref'', ''--format=%(upstream)'', ''refs/heads/'' @ branch]) (\<lambda>ref.
                 if \<not> tracking_ref_ok ref
                 then act_fail (Problem (''Git upstream fetch ref must be under refs/remotes/; configure remote.'' @ remote @ ''.fetch''))
                 else (let u = \<lparr>ru_url = url, ru_branch = trim_prefix merge ''refs/heads/'', ru_remote = remote, ru_tracking_ref = ref\<rparr>
                   in act_bind (act_lift (upstream_validate W u)) (\<lambda>_. act_return (Some u)))))))))"

text \<open>\<open>OriginTrackingBranch\<close>.\<close>

definition tab_char :: char where "tab_char = CHR 0x09"

definition origin_tracking_branch :: "'w outside \<Rightarrow> string \<Rightarrow> string \<Rightarrow> ('w, string) git_action" where
  "origin_tracking_branch W path branch =
     act_bind (git_trimmed W path [''for-each-ref'', ''--format=%(upstream:remotename)%09%(upstream:remoteref)'', ''refs/heads/'' @ branch])
       (\<lambda>out. case cut_char tab_char out of
          None \<Rightarrow> act_return []
        | Some (remote, ref) \<Rightarrow>
            if remote \<noteq> ''origin'' \<or> \<not> has_prefix ref ''refs/heads/'' then act_return []
            else (case validate_repository_branch (trim_prefix ref ''refs/heads/'') of
                Inl e \<Rightarrow> act_fail (BranchError e)
              | Inr _ \<Rightarrow> act_return (trim_prefix ref ''refs/heads/'')))"

definition fetch_repository_upstream :: "'w outside \<Rightarrow> string \<Rightarrow> repo_upstream \<Rightarrow> ('w, unit) git_action" where
  "fetch_repository_upstream W dir u =
     act_bind (act_lift (upstream_validate W u)) (\<lambda>_.
     if ru_remote u = [] \<or> \<not> has_prefix (upstream_ref u) ''refs/remotes/''
     then act_fail (Problem ''fetch requires an observed Git upstream'')
     else act_bind (git_trimmed W dir [''remote'', ''get-url'', ''--'', ru_remote u]) (\<lambda>resolved.
       act_bind (act_lift (validate_repository_source W resolved)) (\<lambda>_.
       git_run W dir [''fetch'', ''--atomic'', ''--no-tags'', ''--no-write-fetch-head'', ''--'', ru_remote u,
         ''+refs/heads/'' @ ru_branch u @ '':'' @ upstream_ref u])))"

section \<open>Repositories on disk\<close>

text \<open>\<open>DetectRepository\<close>: root, common directory, remote and commit.\<close>

record detected_repository =
  dr_root :: string
  dr_common :: string
  dr_remote :: string
  dr_commit :: string

definition detect_root :: "'w outside \<Rightarrow> string \<Rightarrow> ('w, string) git_action" where
  "detect_root W dir =
     act_bind (act_try (git_output W dir [''rev-parse'', ''--show-toplevel''])) (\<lambda>r. case r of
       Inr root \<Rightarrow> act_return root
     | Inl e \<Rightarrow> act_bind (act_try (git_output W dir [''rev-parse'', ''--is-bare-repository''])) (\<lambda>bare. case bare of
         Inr yes \<Rightarrow> if trim_space yes = ''true'' then git_output W dir [''rev-parse'', ''--absolute-git-dir'']
           else act_fail (Context ''not inside a git repository'' e)
       | Inl _ \<Rightarrow> act_fail (Context ''not inside a git repository'' e)))"

definition detect_repository :: "'w outside \<Rightarrow> string \<Rightarrow> string \<Rightarrow> ('w, detected_repository) git_action" where
  "detect_repository W dir0 revision0 =
     (let dir = (if dir0 = [] then ''.'' else dir0);
          revision = (if trim_space revision0 \<noteq> [] then trim_space revision0 else ''HEAD'')
      in act_bind (detect_root W dir) (\<lambda>out.
         let root = path_abs W (trim_space out)
         in act_bind (act_wrap (Context ''resolve git common directory'') (git_trimmed W root [''rev-parse'', ''--git-common-dir''])) (\<lambda>out.
            let common = path_abs W (if is_abs out then out else path_join [root, out])
            in act_bind (act_wrap (Context (''resolve commit '' @ revision)) (rev_parse W root (revision @ ''^{commit}''))) (\<lambda>commit.
               act_bind (act_try (git_trimmed W root [''config'', ''--get'', ''remote.origin.url''])) (\<lambda>r. case r of
                 Inl _ \<Rightarrow> act_return \<lparr>dr_root = root, dr_common = common, dr_remote = [], dr_commit = commit\<rparr>
               | Inr out \<Rightarrow> (case sanitize_remote_url (ow_url W) out of
                   Inl e \<Rightarrow> act_fail (Context ''sanitize origin remote URL'' (RemoteError e))
                 | Inr remote \<Rightarrow> act_return \<lparr>dr_root = root, dr_common = common, dr_remote = remote, dr_commit = commit\<rparr>))))))"

text \<open>\<open>validateOwnedBare\<close>: a directory without symbolic links that is a bare repository of its own, in which the branch
  exists and is checked out nowhere.\<close>

definition require_directory :: "'w outside \<Rightarrow> string \<Rightarrow> string \<Rightarrow> ('w, unit) git_action" where
  "require_directory W path complaint = act_bind (act_ask (ow_lstat W path)) (\<lambda>k. case k of
     Directory \<Rightarrow> act_return ()
   | Missing \<Rightarrow> act_fail (PathError (''missing '' @ path))
   | Unreadable e \<Rightarrow> act_fail (PathError e)
   | OtherFile \<Rightarrow> act_fail (Problem complaint))"

definition require_same_path :: "'w outside \<Rightarrow> string \<Rightarrow> string list \<Rightarrow> string \<Rightarrow> string \<Rightarrow> ('w, unit) git_action" where
  "require_same_path W path args real complaint = act_bind (git_trimmed W path args) (\<lambda>out.
     act_check (path_clean out = path_clean real) (Problem complaint))"

definition not_checked_out :: "bool \<Rightarrow> string \<Rightarrow> worktree_info \<Rightarrow> ('w, unit) git_action" where
  "not_checked_out allow branch wt =
     act_check (allow \<or> wt_bare wt \<or> wt_detached wt \<or> wt_branch wt \<noteq> branch)
       (Problem (''integration branch '' @ branch @ '' is checked out at '' @ wt_path wt))"

definition validate_bare :: "'w outside \<Rightarrow> string \<Rightarrow> string \<Rightarrow> bool \<Rightarrow> ('w, unit) git_action" where
  "validate_bare W path branch allow =
     act_bind (require_directory W path ''owned Git store must be a directory, not a symlink'') (\<lambda>_.
     act_bind (act_each (\<lambda>entry. require_directory W (path_join [path, entry]) (''owned Git '' @ entry @ '' must be a directory, not a symlink''))
       [''objects'', ''refs'']) (\<lambda>_.
     act_bind (act_ask (ow_symlink_in W path)) (\<lambda>found. case found of
       Inl e \<Rightarrow> act_fail (PathError e)
     | Inr (Some name) \<Rightarrow> act_fail (Problem (''owned Git metadata must not use symlinks: '' @ name))
     | Inr None \<Rightarrow>
         act_bind (git_output W path [''check-ref-format'', ''refs/heads/'' @ branch]) (\<lambda>_.
         act_bind (git_trimmed W path [''rev-parse'', ''--is-bare-repository'']) (\<lambda>bare.
         act_bind (act_check (bare = ''true'') (Problem ''owned Git store must be bare'')) (\<lambda>_.
         act_bind (act_ask (ow_real_path W path)) (\<lambda>real. case real of
           Inl e \<Rightarrow> act_fail (PathError e)
         | Inr real \<Rightarrow>
             act_bind (require_same_path W path [''rev-parse'', ''--absolute-git-dir''] real
               ''owned Git directory resolves outside its registered location'') (\<lambda>_.
             act_bind (require_same_path W path [''rev-parse'', ''--path-format=absolute'', ''--git-common-dir''] real
               ''owned Git common directory resolves outside its registered location'') (\<lambda>_.
             act_bind (act_ask (ow_lstat W (path_join [path, ''objects'', ''info'', ''alternates'']))) (\<lambda>k. case k of
               Directory \<Rightarrow> act_fail (Problem ''owned Git store must not use external object alternates'')
             | OtherFile \<Rightarrow> act_fail (Problem ''owned Git store must not use external object alternates'')
             | Unreadable e \<Rightarrow> act_fail (PathError e)
             | Missing \<Rightarrow>
                 act_bind (git_output W path [''rev-parse'', ''--verify'', ''refs/heads/'' @ branch @ ''^{commit}'']) (\<lambda>_.
                 act_bind (list_worktrees W path) (act_each (not_checked_out allow branch)))))))))))))"

definition validate_owned_bare :: "'w outside \<Rightarrow> string \<Rightarrow> string \<Rightarrow> ('w, unit) git_action" where
  "validate_owned_bare W path branch = validate_bare W path branch False"

definition validate_owned_bare_observation :: "'w outside \<Rightarrow> string \<Rightarrow> string \<Rightarrow> ('w, unit) git_action" where
  "validate_owned_bare_observation W path branch = validate_bare W path branch True"

text \<open>\<open>filepath.Dir\<close> and \<open>Base\<close>; \<open>IsManagedSlotPath\<close>.\<close>

definition path_dir :: "string \<Rightarrow> string" where
  "path_dir p = path_clean (rev (dropWhile (\<lambda>c. c \<noteq> CHR ''/'') (rev p)))"

definition path_base :: "string \<Rightarrow> string" where
  "path_base p = (if p = [] then ''.'' else
     (let base = rev (takeWhile (\<lambda>c. c \<noteq> CHR ''/'') (dropWhile (\<lambda>c. c = CHR ''/'') (rev p)))
      in if base = [] then ''/'' else base))"

definition managed_slot_name :: "string \<Rightarrow> bool" where
  "managed_slot_name name \<longleftrightarrow> has_prefix name ''slot-'' \<and>
     (let digits = trim_prefix name ''slot-''
      in digits \<noteq> [] \<and> list_all is_digit digits \<and> (case parse_int64 digits of None \<Rightarrow> False | Some n \<Rightarrow> 0 < n))"

definition managed_slot_path :: "'w outside \<Rightarrow> string \<Rightarrow> string \<Rightarrow> string \<Rightarrow> 'w \<Rightarrow> bool" where
  "managed_slot_path W worktrees key path w \<longleftrightarrow>
     \<not> (worktrees = [] \<or> key = [] \<or> path = [] \<or> is_abs key \<or> path_base key \<noteq> key \<or> key = ''.'' \<or> key = ''..'')
     \<and> same_dir W (path_dir (path_abs W path)) (path_abs W (path_join [worktrees, key])) w
     \<and> managed_slot_name (path_base (path_abs W path))"

section \<open>What is relied on of Git\<close>

text \<open>What can be seen of the store in a directory \<open>store\<close>: the commit each reference names, the ancestry of commits, and
  whether no branch is checked out in a directory.\<close>

record 'w git_view =
  gv_refs :: "'w \<Rightarrow> string \<Rightarrow> string option"
  gv_ancestor :: "string \<Rightarrow> string \<Rightarrow> bool"
  gv_detached :: "string \<Rightarrow> 'w \<Rightarrow> bool"

definition calm :: "'w git_view \<Rightarrow> 'w \<Rightarrow> 'w \<Rightarrow> bool" where
  "calm V w w' \<longleftrightarrow> gv_refs V w' = gv_refs V w \<and> (\<forall>p. gv_detached V p w \<longrightarrow> gv_detached V p w')"

definition reading_command :: "string list \<Rightarrow> bool" where
  "reading_command args \<longleftrightarrow> args \<noteq> [] \<and>
     (hd args \<in> {''rev-parse'', ''show-ref'', ''merge-base'', ''rev-list'', ''log'', ''status'', ''for-each-ref'', ''config'', ''check-ref-format''}
      \<or> take 2 args \<in> {[''branch'', ''--show-current''], [''remote'', ''get-url''], [''worktree'', ''list'']})"

text \<open>The name of no object stands for the absence of a reference.\<close>

definition ref_value :: "string \<Rightarrow> string option" where
  "ref_value sha = (if sha = zeros sha then None else Some sha)"

definition reading_law :: "'w outside \<Rightarrow> string \<Rightarrow> 'w git_view \<Rightarrow> bool" where
  "reading_law W store V \<longleftrightarrow>
     (\<forall>dir args w. reading_command args \<longrightarrow> calm V w (snd (ow_git W dir args w)))
     \<and> (\<forall>name w out w'. ow_git W store [''rev-parse'', ''--verify'', ''refs/'' @ name @ ''^{commit}''] w = (Inr out, w')
          \<longrightarrow> gv_refs V w (''refs/'' @ name) = Some (trim_space out))
     \<and> (\<forall>dir a b w out w'. ow_git W dir [''merge-base'', ''--is-ancestor'', a, b] w = (Inr out, w') \<longrightarrow> gv_ancestor V a b \<and> b \<noteq> zeros b)
     \<and> (\<forall>dir w out w'. ow_git W dir [''branch'', ''--show-current''] w = (Inr out, w') \<longrightarrow> trim_space out = [] \<longrightarrow> gv_detached V dir w)"

text \<open>\<open>update-ref\<close> compares and swaps; the reference must have had the old value, which for the name of no object means
  that there was none. When it fails nothing has changed.\<close>

definition swaps :: "'w git_view \<Rightarrow> string \<Rightarrow> string \<Rightarrow> string \<Rightarrow> 'w \<Rightarrow> (int option \<times> string, string) result \<times> 'w \<Rightarrow> bool" where
  "swaps V ref new old w res \<longleftrightarrow> (\<forall>p. gv_detached V p w \<longrightarrow> gv_detached V p (snd res)) \<and>
     (if is_ok (fst res) then gv_refs V w ref = ref_value old \<and> gv_refs V (snd res) = (gv_refs V w)(ref := ref_value new)
      else gv_refs V (snd res) = gv_refs V w)"

definition update_law :: "'w outside \<Rightarrow> string \<Rightarrow> 'w git_view \<Rightarrow> bool" where
  "update_law W store V \<longleftrightarrow>
     (\<forall>message ref new old w. swaps V ref new old w (ow_git W store [''update-ref'', ''-m'', message, ref, new, old] w))
     \<and> (\<forall>ref new old w. swaps V ref new old w (ow_git W store [''update-ref'', ref, new, old] w))"

text \<open>A fetch writes under \<open>refs/remotes/\<close>, where the remote's fetch configuration maps the branch and where the refspec
  of the command line puts it.\<close>

definition fetch_law :: "'w outside \<Rightarrow> 'w git_view \<Rightarrow> bool" where
  "fetch_law W V \<longleftrightarrow> (\<forall>dir remote branch ref w. has_prefix ref ''refs/remotes/'' \<longrightarrow>
     (let w' = snd (ow_git W dir [''fetch'', ''--atomic'', ''--no-tags'', ''--no-write-fetch-head'', ''--'', remote,
         ''+refs/heads/'' @ branch @ '':'' @ ref] w)
      in (\<forall>p. gv_detached V p w \<longrightarrow> gv_detached V p w')
         \<and> (\<forall>r. \<not> has_prefix r ''refs/remotes/'' \<longrightarrow> gv_refs V w' r = gv_refs V w r)))"

text \<open>Adding a detached checkout, removing a checkout and aborting a merge move no reference; neither do a merge and a
  commit, without hooks, where no branch is checked out. Nothing is checked out where there is nothing.\<close>

definition checkout_law :: "'w outside \<Rightarrow> 'w git_view \<Rightarrow> bool" where
  "checkout_law W V \<longleftrightarrow>
     (\<forall>dir path sha w. calm V w (snd (ow_git W dir [''worktree'', ''add'', ''--detach'', ''--'', path, sha] w)))
     \<and> (\<forall>dir path sha w out w'. ow_git W dir [''worktree'', ''add'', ''--detach'', ''--'', path, sha] w = (Inr out, w') \<longrightarrow> gv_detached V path w')
     \<and> (\<forall>dir path w. calm V w (snd (ow_git W dir [''worktree'', ''remove'', path] w)))
     \<and> (\<forall>dir w. calm V w (snd (ow_git W dir [''merge'', ''--abort''] w)))
     \<and> (\<forall>dir args w. gv_detached V dir w \<longrightarrow> args \<noteq> [] \<longrightarrow> hd args \<in> {''merge'', ''commit''} \<longrightarrow>
          calm V w (snd (ow_git W dir ([''-c'', ''core.hooksPath=/dev/null'', ''-c'', ''core.editor=true''] @ args) w)))
     \<and> (\<forall>path w. calm V w (snd (ow_make_dirs W path w)))
     \<and> (\<forall>path w. ow_lstat W path w = Missing \<longrightarrow> gv_detached V path w)"

definition git_contract :: "'w outside \<Rightarrow> string \<Rightarrow> 'w git_view \<Rightarrow> bool" where
  "git_contract W store V \<longleftrightarrow> reading_law W store V \<and> update_law W store V \<and> fetch_law W V \<and> checkout_law W V"

section \<open>What the client's commands keep\<close>

text \<open>A predicate that depends on the references, and on where no branch is checked out.\<close>

definition steady :: "'w git_view \<Rightarrow> ('w \<Rightarrow> bool) \<Rightarrow> bool" where
  "steady V P \<longleftrightarrow> (\<forall>w w'. calm V w w' \<longrightarrow> P w \<longrightarrow> P w')"

lemma snd_git_output: "snd (git_output W dir args w) = snd (ow_git W dir args w)"
  by (auto simp: git_output_def split: prod.split sum.split)

lemma git_output_Inr: "git_output W dir args w = (Inr out, w') \<longleftrightarrow> ow_git W dir args w = (Inr out, w')"
  by (auto simp: git_output_def split: prod.split sum.split)

lemma keeps_calm: "steady V P \<Longrightarrow> (\<And>w. P w \<Longrightarrow> calm V w (snd (m w))) \<Longrightarrow> keeps P m"
  by (auto simp: keeps_iff steady_def)

lemma keeps_reading:
  "git_contract W store V \<Longrightarrow> steady V P \<Longrightarrow> reading_command args \<Longrightarrow> keeps P (git_output W dir args)"
  by (erule keeps_calm) (auto simp: snd_git_output git_contract_def reading_law_def)

lemma keeps_run [keeps_intros]: "keeps P (git_output W dir args) \<Longrightarrow> keeps P (git_run W dir args)"
  unfolding git_run_def by (intro keeps_intros)

lemma keeps_trimmed [keeps_intros]: "keeps P (git_output W dir args) \<Longrightarrow> keeps P (git_trimmed W dir args)"
  unfolding git_trimmed_def by (intro keeps_intros)

lemma keeps_decides [keeps_intros]: "keeps P (git_output W dir args) \<Longrightarrow> keeps P (git_decides W dir args)"
  unfolding git_decides_def by (auto intro!: keeps_intros split: sum.split)

lemma keeps_option [keeps_intros]:
  "(x = None \<Longrightarrow> keeps P m) \<Longrightarrow> (\<And>y. x = Some y \<Longrightarrow> keeps P (f y)) \<Longrightarrow> keeps P (case x of None \<Rightarrow> m | Some y \<Rightarrow> f y)"
  by (cases x) auto

lemma keeps_sum [keeps_intros]:
  "(\<And>e. x = Inl e \<Longrightarrow> keeps P (g e)) \<Longrightarrow> (\<And>y. x = Inr y \<Longrightarrow> keeps P (f y)) \<Longrightarrow> keeps P (case x of Inl e \<Rightarrow> g e | Inr y \<Rightarrow> f y)"
  by (cases x) auto

lemma keeps_list [keeps_intros]:
  "keeps P m \<Longrightarrow> (\<And>y ys. keeps P (f y ys)) \<Longrightarrow> keeps P (case x of [] \<Rightarrow> m | y # ys \<Rightarrow> f y ys)"
  by (cases x) auto

lemma keeps_path_kind [keeps_intros]:
  "keeps P a \<Longrightarrow> keeps P b \<Longrightarrow> keeps P c \<Longrightarrow> (\<And>e. keeps P (d e)) \<Longrightarrow>
   keeps P (case k of Missing \<Rightarrow> a | Directory \<Rightarrow> b | OtherFile \<Rightarrow> c | Unreadable e \<Rightarrow> d e)"
  by (cases k) auto

lemma keeps_prod [keeps_intros]: "(\<And>a b. keeps P (f a b)) \<Longrightarrow> keeps P (case x of (a, b) \<Rightarrow> f a b)"
  by (cases x) auto

definition reading_keeps :: "'w outside \<Rightarrow> ('w \<Rightarrow> bool) \<Rightarrow> bool" where
  "reading_keeps W P \<longleftrightarrow> (\<forall>dir args. reading_command args \<longrightarrow> keeps P (git_output W dir args))"

lemma contract_reading: "git_contract W store V \<Longrightarrow> steady V P \<Longrightarrow> reading_keeps W P"
  by (simp add: reading_keeps_def keeps_reading)

lemma stable_reads:
  assumes "reading_keeps W P"
  shows "keeps P (rev_parse W dir r)" and "keeps P (git_head W dir)" and "keeps P (resolve_branch_sha W dir b)"
    and "keeps P (current_branch W dir)" and "keeps P (reference_exists W dir r)" and "keeps P (is_ancestor W dir x y)"
    and "keeps P (local_only_commits W dir x y)" and "keeps P (ahead_behind W dir x y)" and "keeps P (equal_trees W dir x y)"
    and "keeps P (ensure_clean W dir)" and "keeps P (git_path W dir marker)" and "keeps P (list_worktrees W dir)"
    and "keeps P (tracking_value W dir key)" and "keeps P (detect_root W dir)"
    and "keeps P (require_same_path W dir args' real c) \<or> \<not> reading_command args'"
proof -
  note k = assms [unfolded reading_keeps_def, rule_format] keeps_intros
  show rp: "keeps P (rev_parse W dir r)" for dir r unfolding rev_parse_def by (intro k) (simp add: reading_command_def)
  show "keeps P (git_head W dir)" unfolding git_head_def by (intro k) (simp add: reading_command_def)
  show "keeps P (resolve_branch_sha W dir b)" unfolding resolve_branch_sha_def by (rule rp)
  show "keeps P (current_branch W dir)" unfolding current_branch_def by (intro k) (simp add: reading_command_def)
  show "keeps P (reference_exists W dir r)" unfolding reference_exists_def by (intro k) (simp add: reading_command_def)
  show "keeps P (is_ancestor W dir x y)" unfolding is_ancestor_def by (intro k) (simp add: reading_command_def)
  show "keeps P (local_only_commits W dir x y)" unfolding local_only_commits_def by (intro k) (simp add: reading_command_def)
  show "keeps P (ahead_behind W dir x y)" unfolding ahead_behind_def by (intro k) (simp add: reading_command_def)
  show "keeps P (equal_trees W dir x y)" unfolding equal_trees_def by (intro k rp)
  show "keeps P (ensure_clean W dir)" unfolding ensure_clean_def by (intro k) (simp add: reading_command_def)
  show "keeps P (git_path W dir marker)" unfolding git_path_def by (intro k) (simp add: reading_command_def)
  show "keeps P (list_worktrees W dir)" unfolding list_worktrees_def by (intro k) (simp add: reading_command_def)
  show "keeps P (tracking_value W dir key)" unfolding tracking_value_def by (intro k) (simp add: reading_command_def)
  show "keeps P (detect_root W dir)" unfolding detect_root_def by (intro k) (simp_all add: reading_command_def)
  show "keeps P (require_same_path W dir args' real c) \<or> \<not> reading_command args'"
    by (cases "reading_command args'") (auto simp: require_same_path_def intro!: k)
qed

lemma stable_reads_more:
  assumes "reading_keeps W P"
  shows "keeps P (no_marker W dir found unreadable marker)" and "keeps P (ensure_no_operation W dir what)"
    and "keeps P (ensure_reconciliation_operation W dir)" and "keeps P (merge_in_progress W dir)"
    and "keeps P (branch_upstream W dir branch)" and "keeps P (detect_repository W dir r)" and "keeps P (validate_bare W dir branch allow)"
proof -
  note k = keeps_intros stable_reads [OF assms]
  show nm: "keeps P (no_marker W dir found unreadable marker)" for dir found unreadable marker
    unfolding no_marker_def by (intro k)
  show "keeps P (ensure_no_operation W dir what)" unfolding ensure_no_operation_def by (intro k nm)
  show "keeps P (ensure_reconciliation_operation W dir)" unfolding ensure_reconciliation_operation_def by (intro k nm)
  show "keeps P (merge_in_progress W dir)" unfolding merge_in_progress_def by (intro k)
  show "keeps P (branch_upstream W dir branch)"
    unfolding branch_upstream_def Let_def by (intro k assms [unfolded reading_keeps_def, rule_format]) (simp add: reading_command_def)
  show "keeps P (detect_repository W dir r)"
    unfolding detect_repository_def Let_def by (intro k assms [unfolded reading_keeps_def, rule_format]) (simp_all add: reading_command_def)
  show "keeps P (validate_bare W dir branch allow)"
    unfolding validate_bare_def require_directory_def require_same_path_def not_checked_out_def
    by (intro k assms [unfolded reading_keeps_def, rule_format]) (simp_all add: reading_command_def)
qed

lemmas reads = stable_reads [OF contract_reading]
lemmas reads_more = stable_reads_more [OF contract_reading]

text \<open>What a resolved reference, an ancestor and a blank current branch tell.\<close>

lemma reading_laws:
  assumes "git_contract W store V"
  shows "ow_git W store [''rev-parse'', ''--verify'', ''refs/'' @ name @ ''^{commit}''] w = (Inr out, w') \<Longrightarrow>
      gv_refs V w (''refs/'' @ name) = Some (trim_space out)"
    and "ow_git W dir [''merge-base'', ''--is-ancestor'', a, b] w = (Inr out, w') \<Longrightarrow> gv_ancestor V a b \<and> b \<noteq> zeros b"
    and "ow_git W dir [''branch'', ''--show-current''] w = (Inr out, w') \<Longrightarrow> trim_space out = [] \<Longrightarrow> gv_detached V dir w"
proof -
  note law = assms [unfolded git_contract_def reading_law_def]
  note laws = law [THEN conjunct1, THEN conjunct2]
  show "ow_git W store [''rev-parse'', ''--verify'', ''refs/'' @ name @ ''^{commit}''] w = (Inr out, w') \<Longrightarrow>
      gv_refs V w (''refs/'' @ name) = Some (trim_space out)"
    by (rule laws [THEN conjunct1, rule_format])
  show "ow_git W dir [''merge-base'', ''--is-ancestor'', a, b] w = (Inr out, w') \<Longrightarrow> gv_ancestor V a b \<and> b \<noteq> zeros b"
    by (rule laws [THEN conjunct2, THEN conjunct1, rule_format])
  show "ow_git W dir [''branch'', ''--show-current''] w = (Inr out, w') \<Longrightarrow> trim_space out = [] \<Longrightarrow> gv_detached V dir w"
    by (rule laws [THEN conjunct2, THEN conjunct2, rule_format])
qed

lemma git_trimmed_Inr: "git_trimmed W dir args w = (Inr t, w') \<longleftrightarrow> (\<exists>out. ow_git W dir args w = (Inr out, w') \<and> t = trim_space out)"
  by (cases "ow_git W dir args w"; cases "fst (ow_git W dir args w)")
    (auto simp: git_trimmed_def act_bind_def act_return_def git_output_def)

lemma git_decides_True: "git_decides W dir args w = (Inr True, w') \<Longrightarrow> \<exists>out. ow_git W dir args w = (Inr out, w')"
  by (cases "ow_git W dir args w"; cases "fst (ow_git W dir args w)")
    (auto simp: git_decides_def act_bind_def act_try_def act_return_def act_fail_def git_output_def split: if_splits)

lemma rev_parse_tells:
  assumes "git_contract W store V" and "rev_parse W store (''refs/'' @ name @ ''^{commit}'') w = (Inr sha, w')"
  shows "gv_refs V w (''refs/'' @ name) = Some sha"
  using assms(2) reading_laws(1) [OF assms(1)] unfolding rev_parse_def git_trimmed_Inr by blast

lemma is_ancestor_tells:
  assumes "git_contract W store V" and "is_ancestor W dir a b w = (Inr True, w')"
  shows "gv_ancestor V a b \<and> b \<noteq> zeros b"
  using git_decides_True [OF assms(2) [unfolded is_ancestor_def]] reading_laws(2) [OF assms(1)] by blast

lemma current_branch_tells:
  assumes "git_contract W store V" and "current_branch W dir w = (Inr [], w')"
  shows "gv_detached V dir w"
  using assms(2) reading_laws(3) [OF assms(1)] unfolding current_branch_def git_trimmed_Inr by metis

text \<open>The commands that change the store.\<close>

definition same_detached :: "'w git_view \<Rightarrow> 'w \<Rightarrow> 'w \<Rightarrow> bool" where
  "same_detached V w w' \<longleftrightarrow> (\<forall>p. gv_detached V p w \<longrightarrow> gv_detached V p w')"

lemma snd_git_run: "snd (git_run W dir args w) = snd (ow_git W dir args w)"
  by (cases "ow_git W dir args w"; cases "fst (ow_git W dir args w)") (auto simp: git_run_def act_bind_def act_return_def git_output_def)

lemma fst_git_run: "is_ok (fst (git_run W dir args w)) = is_ok (fst (ow_git W dir args w))"
  by (cases "ow_git W dir args w"; cases "fst (ow_git W dir args w)") (auto simp: git_run_def act_bind_def act_return_def git_output_def)

lemma update_ref_swaps:
  assumes "git_contract W store V"
  shows "if is_ok (fst (update_ref W store ref new old message w))
    then gv_refs V w ref = ref_value old \<and> gv_refs V (snd (update_ref W store ref new old message w)) = (gv_refs V w)(ref := ref_value new)
    else gv_refs V (snd (update_ref W store ref new old message w)) = gv_refs V w"
  using assms unfolding git_contract_def update_law_def swaps_def update_ref_def fst_git_run snd_git_run by simp

lemma recovery_ref_swaps:
  assumes "git_contract W store V"
  shows "(if is_ok (fst (recovery_ref W store ref sha w))
    then gv_refs V w ref = None \<and> gv_refs V (snd (recovery_ref W store ref sha w)) = (gv_refs V w)(ref := ref_value sha)
    else gv_refs V (snd (recovery_ref W store ref sha w)) = gv_refs V w)
    \<and> same_detached V w (snd (recovery_ref W store ref sha w))"
proof -
  have z: "ref_value (zeros sha) = None" by (simp add: ref_value_def zeros_def)
  show ?thesis
    using assms unfolding git_contract_def update_law_def swaps_def recovery_ref_def fst_git_run snd_git_run same_detached_def
    by (simp add: z)
qed

lemma recovery_ref_refs:
  assumes "git_contract W store V"
  shows "gv_refs V (snd (recovery_ref W store ref sha w)) = gv_refs V w \<or>
    gv_refs V w ref = None \<and> gv_refs V (snd (recovery_ref W store ref sha w)) = (gv_refs V w)(ref := ref_value sha)"
  using recovery_ref_swaps [OF assms, of ref sha w] by (auto split: if_splits)

definition remote_blind :: "'w git_view \<Rightarrow> ('w \<Rightarrow> bool) \<Rightarrow> bool" where
  "remote_blind V P \<longleftrightarrow> (\<forall>w w'. (\<forall>r. \<not> has_prefix r ''refs/remotes/'' \<longrightarrow> gv_refs V w' r = gv_refs V w r) \<longrightarrow> P w \<longrightarrow> P w')"

lemma remote_blind_steady: "remote_blind V P \<Longrightarrow> steady V P"
  unfolding remote_blind_def steady_def calm_def by metis

lemma keeps_fetch:
  assumes c: "git_contract W store V" and P: "remote_blind V P"
  shows "keeps P (fetch_repository_upstream W dir u)"
proof -
  have "keeps P (git_run W dir [''fetch'', ''--atomic'', ''--no-tags'', ''--no-write-fetch-head'', ''--'', ru_remote u,
      ''+refs/heads/'' @ ru_branch u @ '':'' @ upstream_ref u])" if "has_prefix (upstream_ref u) ''refs/remotes/''"
  proof -
    have "P (snd (ow_git W dir [''fetch'', ''--atomic'', ''--no-tags'', ''--no-write-fetch-head'', ''--'', ru_remote u,
        ''+refs/heads/'' @ ru_branch u @ '':'' @ upstream_ref u] w))" if "P w" for w
    proof (rule P [unfolded remote_blind_def, rule_format, OF _ that])
      note law = c [unfolded git_contract_def fetch_law_def Let_def, THEN conjunct2, THEN conjunct2, THEN conjunct1, rule_format,
          OF \<open>has_prefix (upstream_ref u) _\<close>, THEN conjunct2, rule_format]
      show "gv_refs V (snd (ow_git W dir [''fetch'', ''--atomic'', ''--no-tags'', ''--no-write-fetch-head'', ''--'', ru_remote u,
          ''+refs/heads/'' @ ru_branch u @ '':'' @ upstream_ref u] w)) r = gv_refs V w r" if "\<not> has_prefix r ''refs/remotes/''" for r
        by (rule law [OF that])
    qed
    then show ?thesis by (simp only: keeps_iff snd_git_run) simp
  qed
  moreover have "keeps P (git_trimmed W dir [''remote'', ''get-url'', ''--'', ru_remote u])"
    by (intro keeps_intros keeps_reading [OF c remote_blind_steady [OF P]]) (simp add: reading_command_def)
  ultimately show ?thesis
    unfolding fetch_repository_upstream_def
    by (cases "has_prefix (upstream_ref u) ''refs/remotes/''") (auto intro!: keeps_intros)
qed

lemma checkout_keeps:
  assumes "git_contract W store V" and "steady V P"
  shows "keeps P (add_reconciliation W dir path sha)" and "keeps P (worktree_remove W dir path False)"
    and "keeps P (abort_reconciliation W dir)" and "keeps P (ow_make_dirs W path)"
  using assms(1) unfolding add_reconciliation_def worktree_remove_def abort_reconciliation_def git_contract_def checkout_law_def
  by (auto intro!: keeps_calm [OF assms(2)] simp: snd_git_run)

lemma add_reconciliation_detached:
  assumes "git_contract W store V" and "add_reconciliation W dir path sha w = (Inr x, w')"
  shows "gv_detached V path w'"
proof -
  obtain out where "ow_git W dir [''worktree'', ''add'', ''--detach'', ''--'', path, sha] w = (Inr out, w')"
    using assms(2) unfolding add_reconciliation_def git_run_def act_bind_def
    by (auto simp: git_output_Inr act_return_def split: prod.splits sum.splits)
  then show ?thesis using assms(1) [unfolded git_contract_def checkout_law_def] by blast
qed

lemma missing_detached: "git_contract W store V \<Longrightarrow> ow_lstat W path w = Missing \<Longrightarrow> gv_detached V path w"
  unfolding git_contract_def checkout_law_def by blast

lemma detached_keeps:
  assumes c: "git_contract W store V" and P: "steady V P" and d: "\<And>w. P w \<Longrightarrow> gv_detached V path w"
  shows "keeps P (merge_reconciliation W path sha)" and "keeps P (commit_reconciliation W path)"
proof -
  have law: "calm V w (snd (ow_git W path (''-c'' # ''core.hooksPath=/dev/null'' # ''-c'' # ''core.editor=true'' # args) w))"
    if "P w" "args \<noteq> []" "hd args \<in> {''merge'', ''commit''}" for w args
    using c d [OF that(1)] that(2-3) unfolding git_contract_def checkout_law_def by auto
  show "keeps P (merge_reconciliation W path sha)" "keeps P (commit_reconciliation W path)"
    unfolding merge_reconciliation_def commit_reconciliation_def
    by (auto intro!: keeps_calm [OF P] law simp: snd_git_run)
qed

end
