(* ===== verification/RepoSync.thy ===== *)
theory RepoSync
  imports Git RepoCommands
begin

text \<open>
  Synchronizing an onboarded repository with its upstream (\<open>internal/coordinator/repository_sync.go\<close>): fetching, the
  status, and the fast-forward, merge and reset of the integration branch, which are written down as a plan in the
  database and can be continued or aborted after a failure at any step. The world is that of the Git client with the
  coordinator's database; identities, times and failures of the store are functions of a counter that each write
  advances. The model of a failed call keeps the error and the world, not the partial result returned beside it.
\<close>

section \<open>World and environment\<close>

datatype sync_error =
    OfGit git_error
  | OfDb coord_error
  | SyncFault string
  | SyncRefused string
  | SyncContext string sync_error

record ('w, 'b) sync_world =
  sy_git :: 'w
  sy_db :: "'b database"
  sy_tick :: nat

record 'b sync_env =
  se_bolt :: "('b, stored) bolt"
  se_root :: string
  se_id :: "nat \<Rightarrow> (string, string) result"
  se_now :: "nat \<Rightarrow> instant"
  se_fault :: "nat \<Rightarrow> coord_error option"

type_synonym ('w, 'b, 'a) sync_action = "(('w, 'b) sync_world, sync_error, 'a) action"

definition on_git :: "('w, 'a) git_action \<Rightarrow> ('w, 'b, 'a) sync_action" where
  "on_git m = (\<lambda>y. case m (sy_git y) of
      (Inl e, w) \<Rightarrow> (Inl (OfGit e), y\<lparr>sy_git := w\<rparr>)
    | (Inr x, w) \<Rightarrow> (Inr x, y\<lparr>sy_git := w\<rparr>))"

definition ask_git :: "('w \<Rightarrow> 'a) \<Rightarrow> ('w, 'b, 'a) sync_action" where
  "ask_git f = act_ask (\<lambda>y. f (sy_git y))"

definition on_db :: "('b database \<Rightarrow> (coord_error, 'a) result) \<Rightarrow> ('w, 'b, 'a) sync_action" where
  "on_db f = (\<lambda>y. case f (sy_db y) of Inl e \<Rightarrow> (Inl (OfDb e), y) | Inr x \<Rightarrow> (Inr x, y))"

definition refuse :: "string \<Rightarrow> ('w, 'b, 'a) sync_action" where
  "refuse s = act_fail (SyncRefused s)"

section \<open>Requests, results and plans\<close>

record sync_request =
  sq_selector :: string
  sq_mode :: string
  sq_confirm_reset :: bool
  sq_expected_local :: string
  sq_expected_upstream :: string

record repo_source =
  rs_repository :: owned_repository
  rs_git_dir :: string
  rs_pending :: bool

record sync_status =
  ss_repository :: owned_repository
  ss_upstream :: "repo_upstream option"
  ss_upstream_error :: "sync_error option"
  ss_local :: string
  ss_upstream_sha :: string
  ss_state :: string
  ss_ahead :: int
  ss_behind :: int
  ss_local_only :: "string list"
  ss_equal_trees :: bool
  ss_fetched_at :: "instant option"
  ss_pending :: "sync_plan option"
  ss_path :: string

record sync_outcome =
  yr_status :: sync_status
  yr_changed :: bool
  yr_recovery :: string

definition optional_field :: "string \<Rightarrow> string \<Rightarrow> (string \<times> json) list" where
  "optional_field name v = (if v = [] then [] else [(name, JStr v)])"

definition upstream_json :: "repo_upstream \<Rightarrow> json" where
  "upstream_json u = JObj ([(''url'', JStr (ru_url u)), (''branch'', JStr (ru_branch u))]
     @ optional_field ''remote'' (ru_remote u) @ optional_field ''tracking_ref'' (ru_tracking_ref u))"

definition plan_json :: "sync_plan \<Rightarrow> json" where
  "plan_json p = JObj ([(''id'', JStr (sp_id p)), (''mode'', JStr (sp_mode p)), (''phase'', JStr (sp_phase p)),
      (''old_sha'', JStr (sp_old p)), (''upstream_sha'', JStr (sp_upstream_sha p))]
     @ optional_field ''new_sha'' (sp_new p) @ [(''recovery_ref'', JStr (sp_recovery_ref p))]
     @ (case sp_upstream p of None \<Rightarrow> [] | Some u \<Rightarrow> [(''upstream'', upstream_json u)]))"

section \<open>The database\<close>

text \<open>\<open>repositoryFact\<close>: one event with its projection update under a new command.\<close>

definition fact_command :: "string \<Rightarrow> instant \<Rightarrow> string \<Rightarrow> json \<Rightarrow> command" where
  "fact_command ident now kind payload =
     \<lparr>cm_id = ident, cm_protocol = protocol_version, cm_type = kind, cm_actor = ''user'', cm_item = [], cm_expected = None,
      cm_payload = payload, cm_received_at = now\<rparr>"

definition fact_event :: "string \<Rightarrow> instant \<Rightarrow> string \<Rightarrow> json \<Rightarrow> pending_event" where
  "fact_event ident now kind payload =
     \<lparr>pe_id = ident @ '':0'', pe_item = [], pe_type = kind, pe_time = now, pe_actor = ''user'', pe_payload = payload\<rparr>"

definition repository_fact ::
  "'b sync_env \<Rightarrow> string \<Rightarrow> json \<Rightarrow> projection_update list \<Rightarrow> ('w, 'b, unit) sync_action" where
  "repository_fact E kind payload updates y =
     (let n = sy_tick y; y = y\<lparr>sy_tick := n + 1\<rparr>; now = se_now E n
      in case se_id E n of
          Inl e \<Rightarrow> (Inl (SyncFault e), y)
        | Inr ident \<Rightarrow> (case se_fault E n of
            Some e \<Rightarrow> (Inl (OfDb e), y)
          | None \<Rightarrow> (case commit (se_bolt E) now (fact_command ident now kind payload) [fact_event ident now kind payload] updates (sy_db y) of
              Inl e \<Rightarrow> (Inl (OfDb e), y)
            | Inr (_, d) \<Rightarrow> (Inr (), y\<lparr>sy_db := d\<rparr>))))"

definition plan_update :: "string \<Rightarrow> sync_plan option \<Rightarrow> projection_update" where
  "plan_update repo plan = \<lparr>pu_projection = repository_sync_projection, pu_key = repo,
     pu_value = (case plan of None \<Rightarrow> StBytes [] | Some p \<Rightarrow> StSyncPlan p), pu_delete = (plan = None)\<rparr>"

definition save_sync_plan :: "'b sync_env \<Rightarrow> string \<Rightarrow> sync_plan \<Rightarrow> ('w, 'b, unit) sync_action" where
  "save_sync_plan E repo plan = repository_fact E ''repository.sync_progress''
     (JObj [(''plan'', plan_json plan), (''repository_id'', JStr repo)]) [plan_update repo (Some plan)]"

definition finish_sync_plan :: "'b sync_env \<Rightarrow> string \<Rightarrow> string \<Rightarrow> (string \<times> json) list \<Rightarrow> ('w, 'b, unit) sync_action" where
  "finish_sync_plan E kind repo data = repository_fact E kind (JObj data) [plan_update repo None]"

definition read_plan :: "'b sync_env \<Rightarrow> string \<Rightarrow> ('w, 'b, sync_plan option) sync_action" where
  "read_plan E repo = on_db (\<lambda>d. rbind (read_projection (se_bolt E) repository_sync_projection repo (db_tx d)) (\<lambda>v. case v of
      None \<Rightarrow> Inr None
    | Some (StSyncPlan p) \<Rightarrow> Inr (Some p)
    | Some _ \<Rightarrow> Inl Undecodable))"

definition read_fetch :: "'b sync_env \<Rightarrow> string \<Rightarrow> ('w, 'b, repo_fetch option) sync_action" where
  "read_fetch E repo = on_db (\<lambda>d. rbind (read_projection (se_bolt E) repository_fetch_projection repo (db_tx d)) (\<lambda>v. case v of
      None \<Rightarrow> Inr None
    | Some (StFetch f) \<Rightarrow> Inr (Some f)
    | Some _ \<Rightarrow> Inl Undecodable))"

text \<open>\<open>OwnedRepositoryGitDir\<close> and \<open>RepositorySource\<close> with \<open>MetadataOnly\<close>.\<close>

definition owned_git_dir :: "string \<Rightarrow> string \<Rightarrow> (coord_error, string) result" where
  "owned_git_dir root ident =
     (if \<not> valid_id ident then Inl (OfRepository (RepoId ident))
      else if \<not> is_abs root then Inl (coord_error.Refused ''repository data root must be absolute'')
      else Inr (path_join [root, ''repositories'', ident @ ''.git'']))"

definition repository_source :: "'b sync_env \<Rightarrow> string \<Rightarrow> ('w, 'b, repo_source) sync_action" where
  "repository_source E selector =
     act_bind (on_db (\<lambda>d. list_repositories (se_bolt E) (db_tx d))) (\<lambda>repos.
     case List.find (\<lambda>r. or_id r = selector \<or> or_name r = selector) repos of
       None \<Rightarrow> refuse (''unknown repository '' @ selector)
     | Some r \<Rightarrow>
         act_bind (on_db (\<lambda>_. owned_git_dir (se_root E) (or_id r))) (\<lambda>path.
         act_bind (read_plan E (or_id r)) (\<lambda>pending.
         act_return \<lparr>rs_repository = r, rs_git_dir = path, rs_pending = (pending \<noteq> None)\<rparr>)))"

section \<open>Access\<close>

definition integration_lock_path :: "string \<Rightarrow> string" where
  "integration_lock_path dir = path_join [dir, ''wi-integration.lock'']"

text \<open>\<open>repositoryAccess\<close>; the lock it returns is held until the request ends.\<close>

definition repository_access :: "'w outside \<Rightarrow> 'b sync_env \<Rightarrow> string \<Rightarrow> bool \<Rightarrow> ('w, 'b, repo_source) sync_action" where
  "repository_access W E selector refuse_busy =
     act_bind (repository_source E selector) (\<lambda>source.
     act_bind (on_git (require_directory W (rs_git_dir source) ''owned Git store must not be a symlink'')) (\<lambda>_.
     act_bind (ask_git (ow_lock W refuse_busy (integration_lock_path (rs_git_dir source)))) (\<lambda>locked. case locked of
       Inl e \<Rightarrow> act_fail (SyncFault e)
     | Inr False \<Rightarrow> refuse ''repository integration is active; retry after it finishes''
     | Inr True \<Rightarrow>
         act_bind (repository_source E (or_id (rs_repository source))) (\<lambda>source.
         act_bind (on_git (validate_owned_bare_observation W (rs_git_dir source) (or_branch (rs_repository source)))) (\<lambda>_.
         act_return source)))))"

section \<open>Inspecting and fetching\<close>

definition reconciliation_path :: "'b sync_env \<Rightarrow> string \<Rightarrow> sync_plan \<Rightarrow> string" where
  "reconciliation_path E repo plan = path_join [se_root E, ''reconciliation'', repo, sp_id plan]"

definition sync_state :: "int \<Rightarrow> int \<Rightarrow> string" where
  "sync_state ahead behind =
     (if ahead = 0 \<and> behind = 0 then ''equal'' else if ahead = 0 then ''behind'' else if behind = 0 then ''ahead'' else ''diverged'')"

definition compare_tips :: "'w outside \<Rightarrow> string \<Rightarrow> sync_status \<Rightarrow> ('w, sync_status) git_action" where
  "compare_tips W dir st =
     act_bind (ahead_behind W dir (ss_local st) (ss_upstream_sha st)) (\<lambda>(ahead, behind).
     act_bind (if ahead > 0 then local_only_commits W dir (ss_local st) (ss_upstream_sha st) else act_return []) (\<lambda>commits.
     act_bind (equal_trees W dir (ss_local st) (ss_upstream_sha st)) (\<lambda>same.
     act_return (st\<lparr>ss_state := sync_state ahead behind, ss_ahead := ahead, ss_behind := behind, ss_local_only := commits,
       ss_equal_trees := same\<rparr>))))"

definition inspect_upstream ::
  "'w outside \<Rightarrow> 'b sync_env \<Rightarrow> repo_source \<Rightarrow> repo_upstream \<Rightarrow> sync_status \<Rightarrow> ('w, 'b, sync_status) sync_action" where
  "inspect_upstream W E source u st =
     (let dir = rs_git_dir source
      in act_bind (on_git (reference_exists W dir (upstream_ref u))) (\<lambda>there.
         if \<not> there then act_return (st\<lparr>ss_state := ''unfetched''\<rparr>)
         else act_bind (on_git (rev_parse W dir (upstream_ref u @ ''^{commit}''))) (\<lambda>sha.
           act_bind (read_fetch E (or_id (rs_repository source))) (\<lambda>seen.
           if (case seen of None \<Rightarrow> False
               | Some f \<Rightarrow> rf_sha f = sha \<and> upstream_ref (rf_upstream f) = upstream_ref u \<and> ru_url (rf_upstream f) \<noteq> ru_url u)
           then act_return (st\<lparr>ss_state := ''unfetched''\<rparr>)
           else (let at = (case seen of None \<Rightarrow> None | Some f \<Rightarrow> if rf_sha f = sha \<and> rf_upstream f = u then Some (rf_at f) else None)
             in on_git (compare_tips W dir (st\<lparr>ss_upstream_sha := sha, ss_fetched_at := at\<rparr>)))))))"

definition inspect_repository :: "'w outside \<Rightarrow> 'b sync_env \<Rightarrow> repo_source \<Rightarrow> ('w, 'b, sync_status) sync_action" where
  "inspect_repository W E source =
     (let dir = rs_git_dir source; branch = or_branch (rs_repository source); repo = or_id (rs_repository source)
      in act_bind (act_try (on_git (branch_upstream W dir branch))) (\<lambda>up.
         act_bind (on_git (resolve_branch_sha W dir branch)) (\<lambda>tip.
         act_bind (read_plan E repo) (\<lambda>plan.
         let st = \<lparr>ss_repository = rs_repository source,
               ss_upstream = (case up of Inl _ \<Rightarrow> None | Inr u \<Rightarrow> u),
               ss_upstream_error = (case up of Inl e \<Rightarrow> Some e | Inr _ \<Rightarrow> None),
               ss_local = tip, ss_upstream_sha = [],
               ss_state = (case up of Inl _ \<Rightarrow> ''problem'' | Inr _ \<Rightarrow> ''untracked''),
               ss_ahead = 0, ss_behind = 0, ss_local_only = [], ss_equal_trees = False, ss_fetched_at = None,
               ss_pending = plan,
               ss_path = (case plan of None \<Rightarrow> [] | Some p \<Rightarrow> if sp_mode p = ''merge'' then reconciliation_path E repo p else [])\<rparr>
         in case ss_upstream st of None \<Rightarrow> act_return st | Some u \<Rightarrow> inspect_upstream W E source u st))))"

definition fetch_repository :: "'w outside \<Rightarrow> 'b sync_env \<Rightarrow> repo_source \<Rightarrow> ('w, 'b, unit) sync_action" where
  "fetch_repository W E source =
     (let dir = rs_git_dir source; repo = rs_repository source
      in act_bind (on_git (branch_upstream W dir (or_branch repo))) (\<lambda>up. case up of
         None \<Rightarrow> refuse (''repository '' @ or_name repo @ '' has no upstream'')
       | Some u \<Rightarrow>
           act_bind (act_wrap (SyncContext ''fetch upstream'') (on_git (fetch_repository_upstream W dir u))) (\<lambda>_.
           act_bind (on_git (branch_upstream W dir (or_branch repo))) (\<lambda>current.
           if current \<noteq> Some u then refuse ''Git upstream changed during fetch; integration was not updated''
           else act_bind (on_git (rev_parse W dir (upstream_ref u @ ''^{commit}''))) (\<lambda>sha.
             act_bind (act_ask (\<lambda>y. se_now E (sy_tick y))) (\<lambda>now.
             repository_fact E ''repository.fetched''
               (JObj [(''repository_id'', JStr (or_id repo)), (''sha'', JStr sha), (''upstream'', upstream_json u)])
               [\<lparr>pu_projection = repository_fetch_projection, pu_key = or_id repo,
                 pu_value = StFetch \<lparr>rf_sha = sha, rf_upstream = u, rf_at = now\<rparr>, pu_delete = False\<rparr>]))))))"

definition repository_status :: "'w outside \<Rightarrow> 'b sync_env \<Rightarrow> string \<Rightarrow> bool \<Rightarrow> ('w, 'b, sync_status) sync_action" where
  "repository_status W E selector fetch =
     act_bind (repository_access W E selector fetch) (\<lambda>source.
     act_bind (act_when fetch (fetch_repository W E source)) (\<lambda>_. inspect_repository W E source))"

section \<open>The plan and its steps\<close>

definition recovery_prefix :: string where
  "recovery_prefix = ''refs/wi/recovery/repository-sync/''"

definition retained_prefix :: string where
  "retained_prefix = ''refs/wi/recovery/repository-reconciliation/''"

definition sync_plan_ok :: "sync_plan \<Rightarrow> bool" where
  "sync_plan_ok p \<longleftrightarrow>
     \<not> (\<not> valid_id (sp_id p) \<or> \<not> valid_commit_sha (sp_old p) \<or> \<not> valid_commit_sha (sp_upstream_sha p)
        \<or> (sp_new p \<noteq> [] \<and> \<not> valid_commit_sha (sp_new p)) \<or> sp_recovery_ref p \<noteq> recovery_prefix @ sp_id p
        \<or> sp_mode p \<notin> {''ff'', ''merge'', ''reset''} \<or> sp_phase p \<notin> {''merging'', ''prepared'', ''applied''}
        \<or> (sp_phase p = ''merging'' \<and> sp_mode p \<noteq> ''merge'') \<or> (sp_phase p \<noteq> ''merging'' \<and> sp_new p = []))"

text \<open>\<open>ensureRepositoryIdle\<close>: no operation is in progress in a slot the program manages.\<close>

definition slot_idle :: "'w outside \<Rightarrow> 'b sync_env \<Rightarrow> string \<Rightarrow> string \<Rightarrow> worktree_info \<Rightarrow> ('w, unit) git_action" where
  "slot_idle W E repo skip wt =
     act_bind (act_ask (managed_slot_path W (path_join [se_root E, ''worktrees'']) repo (wt_path wt))) (\<lambda>slot.
     if wt_bare wt \<or> wt_path wt = skip \<or> \<not> slot then act_return ()
     else ensure_no_operation W (wt_path wt) ''synchronize repository'')"

definition ensure_repository_idle :: "'w outside \<Rightarrow> 'b sync_env \<Rightarrow> repo_source \<Rightarrow> string \<Rightarrow> ('w, 'b, unit) sync_action" where
  "ensure_repository_idle W E source skip =
     on_git (act_bind (list_worktrees W (rs_git_dir source)) (act_each (slot_idle W E (or_id (rs_repository source)) skip)))"

text \<open>The checks of the checkout a merge is prepared in.\<close>

definition check_parent :: "'w outside \<Rightarrow> string \<Rightarrow> ('w, 'b, unit) sync_action" where
  "check_parent W parent = act_bind (ask_git (ow_lstat W parent)) (\<lambda>k. case k of
     Missing \<Rightarrow> act_return ()
   | Directory \<Rightarrow> act_return ()
   | OtherFile \<Rightarrow> refuse ''reconciliation parent must not use symlinks''
   | Unreadable e \<Rightarrow> act_fail (OfGit (PathError e)))"

definition check_checkout_dir :: "'w outside \<Rightarrow> string \<Rightarrow> string \<Rightarrow> sync_plan \<Rightarrow> bool \<Rightarrow> ('w, 'b, unit) sync_action" where
  "check_checkout_dir W store path plan abort =
     act_bind (act_try (on_git (detect_repository W path []))) (\<lambda>info. case info of
       Inl _ \<Rightarrow> refuse ''reconciliation checkout no longer belongs to owned store''
     | Inr info \<Rightarrow>
         act_bind (ask_git (same_dir W (dr_common info) store)) (\<lambda>same.
         if \<not> same then refuse ''reconciliation checkout no longer belongs to owned store''
         else act_bind (act_try (on_git (current_branch W path))) (\<lambda>branch.
           if branch \<noteq> Inr [] then refuse ''reconciliation checkout must remain detached''
           else act_bind (on_git (ensure_reconciliation_operation W path)) (\<lambda>_.
             if \<not> abort \<and> sp_new plan \<noteq> []
             then act_bind (on_git (git_head W path)) (\<lambda>head.
               act_check (head = sp_new plan) (SyncRefused ''reconciliation HEAD changed after preparation''))
             else act_return ()))))"

definition check_checkout :: "'w outside \<Rightarrow> 'b sync_env \<Rightarrow> string \<Rightarrow> string \<Rightarrow> sync_plan \<Rightarrow> bool \<Rightarrow> ('w, 'b, unit) sync_action" where
  "check_checkout W E store path plan abort =
     act_bind (act_each (check_parent W) [path_join [se_root E, ''reconciliation''], path_dir path]) (\<lambda>_.
     act_bind (ask_git (ow_lstat W path)) (\<lambda>k. case k of
       Missing \<Rightarrow> act_return ()
     | Directory \<Rightarrow> check_checkout_dir W store path plan abort
     | OtherFile \<Rightarrow> refuse ''reconciliation checkout must not be a symlink''
     | Unreadable e \<Rightarrow> act_fail (OfGit (PathError e))))"

text \<open>Aborting: the checkout goes, and a commit it was left at is kept under a reference. Yields that reference.\<close>

definition retain_head :: "'w outside \<Rightarrow> string \<Rightarrow> sync_plan \<Rightarrow> string \<Rightarrow> ('w, 'b, string) sync_action" where
  "retain_head W store plan head =
     (if head = sp_old plan then act_return (sp_recovery_ref plan)
      else (let retained = retained_prefix @ sp_id plan
        in act_bind (act_try (on_git (rev_parse W store (retained @ ''^{commit}'')))) (\<lambda>existing. case existing of
             Inl _ \<Rightarrow> act_bind (on_git (recovery_ref W store retained head)) (\<lambda>_. act_return retained)
           | Inr sha \<Rightarrow> if sha \<noteq> head then refuse ''reconciliation recovery ref conflict'' else act_return retained)))"

definition path_exists :: "path_kind \<Rightarrow> bool" where
  "path_exists k \<longleftrightarrow> k = Directory \<or> k = OtherFile"

definition abort_checkout :: "'w outside \<Rightarrow> string \<Rightarrow> string \<Rightarrow> sync_plan \<Rightarrow> ('w, 'b, string) sync_action" where
  "abort_checkout W store path plan =
     act_bind (ask_git (ow_stat W path)) (\<lambda>k.
     if \<not> path_exists k then act_return (sp_recovery_ref plan)
     else act_bind (on_git (merge_in_progress W path)) (\<lambda>merging.
       act_bind (act_when merging (on_git (abort_reconciliation W path))) (\<lambda>_.
       act_bind (on_git (git_head W path)) (\<lambda>head.
       act_bind (retain_head W store plan head) (\<lambda>ref.
       act_bind (act_wrap (SyncContext ''reconciliation files retained'') (on_git (worktree_remove W store path False))) (\<lambda>_.
       act_return ref))))))"

definition abort_sync :: "'w outside \<Rightarrow> 'b sync_env \<Rightarrow> repo_source \<Rightarrow> string \<Rightarrow> sync_plan \<Rightarrow> ('w, 'b, sync_outcome) sync_action" where
  "abort_sync W E source path plan =
     act_bind (if path = [] then act_return (sp_recovery_ref plan) else abort_checkout W (rs_git_dir source) path plan) (\<lambda>ref.
     act_bind (finish_sync_plan E ''repository.sync_aborted'' (or_id (rs_repository source))
       [(''operation_id'', JStr (sp_id plan)), (''repository_id'', JStr (or_id (rs_repository source)))]) (\<lambda>_.
     act_bind (inspect_repository W E source) (\<lambda>st.
     act_return \<lparr>yr_status = st, yr_changed = False, yr_recovery = ref\<rparr>)))"

text \<open>Preparing a merge in its checkout.\<close>

definition require_ancestor :: "'w outside \<Rightarrow> string \<Rightarrow> string \<Rightarrow> string \<Rightarrow> string \<Rightarrow> ('w, 'b, unit) sync_action" where
  "require_ancestor W store complaint descendant ancestor =
     act_bind (act_try (on_git (is_ancestor W store ancestor descendant))) (\<lambda>r. act_check (r = Inr True) (SyncRefused complaint))"

definition make_dirs :: "'w outside \<Rightarrow> string \<Rightarrow> ('w, unit) git_action" where
  "make_dirs W dir w = (case ow_make_dirs W dir w of (Inl e, w) \<Rightarrow> (Inl (PathError e), w) | (Inr _, w) \<Rightarrow> (Inr (), w))"

definition make_checkout :: "'w outside \<Rightarrow> string \<Rightarrow> string \<Rightarrow> sync_plan \<Rightarrow> ('w, 'b, unit) sync_action" where
  "make_checkout W store path plan =
     act_bind (ask_git (ow_lstat W path)) (\<lambda>k.
     if k \<noteq> Missing then act_return ()
     else act_bind (on_git (make_dirs W (path_dir path))) (\<lambda>_.
       on_git (add_reconciliation W store path (sp_old plan))))"

definition merge_checkout :: "'w outside \<Rightarrow> string \<Rightarrow> sync_plan \<Rightarrow> ('w, 'b, unit) sync_action" where
  "merge_checkout W path plan =
     act_bind (on_git (merge_in_progress W path)) (\<lambda>merging.
     if merging then act_wrap (SyncContext ''resolve and stage conflicts'') (on_git (commit_reconciliation W path))
     else act_bind (on_git (git_head W path)) (\<lambda>head.
       act_when (head = sp_old plan)
         (act_wrap (SyncContext ''reconciliation retained'') (on_git (merge_reconciliation W path (sp_upstream_sha plan))))))"

definition prepare_merge :: "'w outside \<Rightarrow> 'b sync_env \<Rightarrow> repo_source \<Rightarrow> string \<Rightarrow> sync_plan \<Rightarrow> ('w, 'b, sync_plan) sync_action" where
  "prepare_merge W E source path plan =
     (let store = rs_git_dir source
      in act_bind (make_checkout W store path plan) (\<lambda>_.
         act_bind (merge_checkout W path plan) (\<lambda>_.
         act_bind (act_wrap (SyncContext ''reconciliation checkout must be clean'') (on_git (ensure_clean W path))) (\<lambda>_.
         act_bind (on_git (git_head W path)) (\<lambda>head.
         act_bind (act_each (require_ancestor W store ''reconciliation must preserve both local and upstream ancestry'' head)
           [sp_old plan, sp_upstream_sha plan]) (\<lambda>_.
         let plan = plan\<lparr>sp_new := head, sp_phase := ''prepared''\<rparr>
         in act_bind (save_sync_plan E (or_id (rs_repository source)) plan) (\<lambda>_. act_return plan)))))))"

text \<open>The recovery reference is made before the integration branch moves.\<close>

definition protect_tip :: "'w outside \<Rightarrow> string \<Rightarrow> sync_plan \<Rightarrow> ('w, 'b, unit) sync_action" where
  "protect_tip W store plan =
     act_bind (act_try (on_git (rev_parse W store (sp_recovery_ref plan @ ''^{commit}'')))) (\<lambda>backup. case backup of
       Inl _ \<Rightarrow> on_git (recovery_ref W store (sp_recovery_ref plan) (sp_old plan))
     | Inr sha \<Rightarrow> act_check (sha = sp_old plan) (SyncRefused ''recovery ref identity conflict''))"

definition check_target :: "'w outside \<Rightarrow> string \<Rightarrow> sync_plan \<Rightarrow> ('w, 'b, unit) sync_action" where
  "check_target W store plan =
     (if sp_mode plan \<noteq> ''merge'' \<and> sp_new plan \<noteq> sp_upstream_sha plan then refuse ''invalid synchronization target''
      else act_when (sp_mode plan \<noteq> ''reset'' \<and> sp_new plan \<noteq> [])
        (act_each (require_ancestor W store ''synchronization must preserve local and upstream ancestry'' (sp_new plan))
          [sp_old plan, sp_upstream_sha plan]))"

definition apply_plan :: "'w outside \<Rightarrow> 'b sync_env \<Rightarrow> repo_source \<Rightarrow> string \<Rightarrow> sync_plan \<Rightarrow> ('w, 'b, unit) sync_action" where
  "apply_plan W E source path plan =
     (let store = rs_git_dir source; branch = or_branch (rs_repository source)
      in act_bind (case sp_upstream plan of
             None \<Rightarrow> act_return ()
           | Some u \<Rightarrow> act_bind (on_git (branch_upstream W store branch)) (\<lambda>current.
               act_check (current = Some u) (SyncRefused ''Git upstream changed during reconciliation; restore it or use --abort''))) (\<lambda>_.
         act_bind (on_git (validate_owned_bare W store branch)) (\<lambda>_.
         act_bind (ensure_repository_idle W E source path) (\<lambda>_.
         act_bind (on_git (update_ref W store (''refs/heads/'' @ branch) (sp_new plan) (sp_old plan) ''wi repository sync'')) (\<lambda>_.
         act_wrap (SyncContext ''integration updated; finish with --continue'')
           (save_sync_plan E (or_id (rs_repository source)) (plan\<lparr>sp_phase := ''applied''\<rparr>)))))))"

definition finish_sync :: "'w outside \<Rightarrow> 'b sync_env \<Rightarrow> repo_source \<Rightarrow> string \<Rightarrow> sync_plan \<Rightarrow> ('w, 'b, sync_outcome) sync_action" where
  "finish_sync W E source path plan =
     (let store = rs_git_dir source; repo = or_id (rs_repository source)
      in act_bind (if path = [] then act_return () else act_bind (ask_git (ow_stat W path)) (\<lambda>k.
             act_when (path_exists k) (act_wrap (SyncContext ''integration updated but reconciliation checkout retained'')
               (on_git (worktree_remove W store path False))))) (\<lambda>_.
         act_bind (act_wrap (SyncContext ''integration updated; finish with --continue'') (finish_sync_plan E ''repository.synced'' repo
           [(''mode'', JStr (sp_mode plan)), (''new_sha'', JStr (sp_new plan)), (''old_sha'', JStr (sp_old plan)),
            (''recovery_ref'', JStr (sp_recovery_ref plan)), (''repository_id'', JStr repo)])) (\<lambda>_.
         act_bind (inspect_repository W E source) (\<lambda>st.
         act_return \<lparr>yr_status = st, yr_changed = True, yr_recovery = sp_recovery_ref plan\<rparr>))))"

text \<open>\<open>resumeRepositorySync\<close>. A plan whose target the branch already has is taken as applied.\<close>

definition resumed :: "sync_plan \<Rightarrow> string \<Rightarrow> sync_plan" where
  "resumed plan current = (if sp_new plan \<noteq> [] \<and> current = sp_new plan then plan\<lparr>sp_phase := ''applied''\<rparr> else plan)"

definition complete_sync :: "'w outside \<Rightarrow> 'b sync_env \<Rightarrow> repo_source \<Rightarrow> string \<Rightarrow> sync_plan \<Rightarrow> ('w, 'b, sync_outcome) sync_action" where
  "complete_sync W E source path plan =
     (let store = rs_git_dir source
      in if sp_phase plan \<noteq> ''applied'' \<and> sp_upstream plan = None
         then refuse ''invalid reconciliation identity: missing upstream snapshot''
         else act_bind (if sp_phase plan = ''merging'' then prepare_merge W E source path plan else act_return plan) (\<lambda>plan.
           act_bind (protect_tip W store plan) (\<lambda>_.
           act_bind (check_target W store plan) (\<lambda>_.
           act_bind (act_when (sp_phase plan \<noteq> ''applied'') (apply_plan W E source path plan)) (\<lambda>_.
           finish_sync W E source path plan)))))"

definition resume_sync ::
  "'w outside \<Rightarrow> 'b sync_env \<Rightarrow> repo_source \<Rightarrow> sync_plan \<Rightarrow> bool \<Rightarrow> ('w, 'b, sync_outcome) sync_action" where
  "resume_sync W E source plan abort =
     (let store = rs_git_dir source; repo = or_id (rs_repository source);
          path = (if sp_mode plan = ''merge'' then reconciliation_path E repo plan else [])
      in if \<not> sync_plan_ok plan then refuse ''invalid reconciliation identity''
         else act_bind (on_git (rev_parse W store (''refs/heads/'' @ or_branch (rs_repository source) @ ''^{commit}''))) (\<lambda>current.
           if current \<noteq> sp_old plan \<and> \<not> abort \<and> sp_phase (resumed plan current) \<noteq> ''applied''
           then refuse ''integration tip changed during reconciliation; recovery ref retained''
           else if abort \<and> sp_phase (resumed plan current) = ''applied''
           then refuse ''integration ref was already updated; use --continue to finish, not --abort''
           else act_bind (ensure_repository_idle W E source path) (\<lambda>_.
             act_bind (if path = [] then act_return () else check_checkout W E store path (resumed plan current) abort) (\<lambda>_.
             if abort then abort_sync W E source path (resumed plan current)
             else complete_sync W E source path (resumed plan current)))))"

section \<open>The request\<close>

definition new_plan :: "string \<Rightarrow> string \<Rightarrow> sync_status \<Rightarrow> sync_plan" where
  "new_plan ident mode st =
     (let merging = (mode = ''merge'' \<and> ss_state st = ''diverged'')
      in \<lparr>sp_id = ident, sp_mode = mode, sp_phase = (if merging then ''merging'' else ''prepared''), sp_old = ss_local st,
          sp_upstream_sha = ss_upstream_sha st, sp_new = (if merging then [] else ss_upstream_sha st),
          sp_recovery_ref = recovery_prefix @ ident, sp_upstream = ss_upstream st\<rparr>)"

definition fresh_id :: "'b sync_env \<Rightarrow> ('w, 'b, string) sync_action" where
  "fresh_id E y = (case se_id E (sy_tick y) of
      Inl e \<Rightarrow> (Inl (SyncFault e), y\<lparr>sy_tick := sy_tick y + 1\<rparr>)
    | Inr ident \<Rightarrow> (Inr ident, y\<lparr>sy_tick := sy_tick y + 1\<rparr>))"

text \<open>Without a pending plan: fetch, compare, write the plan down and carry it out.\<close>

definition decide_sync ::
  "'w outside \<Rightarrow> 'b sync_env \<Rightarrow> sync_request \<Rightarrow> string \<Rightarrow> repo_source \<Rightarrow> sync_status \<Rightarrow> ('w, 'b, sync_outcome) sync_action" where
  "decide_sync W E req mode source st =
     (if sq_expected_local req \<noteq> [] \<and> ss_local st \<noteq> sq_expected_local req
      then refuse ''local integration tip changed; inspect and confirm again''
      else if sq_expected_upstream req \<noteq> [] \<and> ss_upstream_sha st \<noteq> sq_expected_upstream req
      then refuse ''upstream tip changed; inspect and confirm again''
      else if ss_state st = ''equal'' \<or> (ss_state st = ''ahead'' \<and> mode \<noteq> ''reset'')
      then act_return \<lparr>yr_status = st, yr_changed = False, yr_recovery = []\<rparr>
      else if ss_state st = ''diverged'' \<and> mode = ''ff'' then refuse ''diverged; choose --merge or --reset-to-upstream''
      else act_bind (fresh_id E) (\<lambda>ident.
        act_bind (save_sync_plan E (or_id (rs_repository source)) (new_plan ident mode st)) (\<lambda>_.
        resume_sync W E source (new_plan ident mode st) False)))"

definition start_sync ::
  "'w outside \<Rightarrow> 'b sync_env \<Rightarrow> sync_request \<Rightarrow> string \<Rightarrow> repo_source \<Rightarrow> ('w, 'b, sync_outcome) sync_action" where
  "start_sync W E req mode source =
     act_bind (on_git (validate_owned_bare W (rs_git_dir source) (or_branch (rs_repository source)))) (\<lambda>_.
     act_bind (ensure_repository_idle W E source []) (\<lambda>_.
     act_bind (fetch_repository W E source) (\<lambda>_.
     act_bind (inspect_repository W E source) (decide_sync W E req mode source))))"

definition repository_sync :: "'w outside \<Rightarrow> 'b sync_env \<Rightarrow> sync_request \<Rightarrow> ('w, 'b, sync_outcome) sync_action" where
  "repository_sync W E req =
     (let mode = (if sq_mode req = [] then ''ff'' else sq_mode req)
      in if mode \<notin> {''ff'', ''merge'', ''reset'', ''continue'', ''abort''} then refuse ''invalid repository sync mode''
         else if mode = ''reset'' \<and> (\<not> sq_confirm_reset req \<or> sq_expected_local req = [] \<or> sq_expected_upstream req = [])
         then refuse ''reset requires confirmation and expected local/upstream commits''
         else act_bind (repository_access W E (sq_selector req) True) (\<lambda>source.
           act_bind (inspect_repository W E source) (\<lambda>st. case ss_pending st of
             Some plan \<Rightarrow>
               if mode \<noteq> ''continue'' \<and> mode \<noteq> ''abort'' then refuse ''repository reconciliation is pending''
               else resume_sync W E source plan (mode = ''abort'')
           | None \<Rightarrow>
               if mode = ''continue'' \<or> mode = ''abort'' then refuse ''repository has no pending reconciliation''
               else start_sync W E req mode source)))"

end
