(* ===== verification/Merge.thy ===== *)
theory Merge
  imports RepoSync
begin

text \<open>
  Merging an item's branch into a target branch (\<open>internal/app/integration_merge.go\<close>, with \<open>git/merge_snapshot.go\<close>,
  \<open>repositoryView\<close> and the metadata of \<open>RepositorySource\<close>): the checks, the synchronization of the integration branch, the
  rebase in the item's checkout or in a temporary one, the fast-forward of the target, and the rollback. The item store
  (an interface in the code), tmux and temporary directories are arguments. \<open>me_text\<close> is what \<open>Error()\<close> prints. Deadlines
  and the cancellation of contexts are left out.
\<close>

section \<open>Git commands of a merge\<close>

definition add_merge_snapshot :: "'w outside \<Rightarrow> string \<Rightarrow> string \<Rightarrow> string \<Rightarrow> ('w, unit) git_action" where
  "add_merge_snapshot W root path sha =
     git_run W root [''-c'', ''core.hooksPath=/dev/null'', ''worktree'', ''add'', ''--detach'', ''--'', path, sha]"

definition rebase_merge_snapshot :: "'w outside \<Rightarrow> string \<Rightarrow> string \<Rightarrow> ('w, unit) git_action" where
  "rebase_merge_snapshot W path sha = git_run W path
     [''-c'', ''core.hooksPath=/dev/null'', ''-c'', ''rebase.updateRefs=false'', ''-c'', ''core.editor=true'', ''rebase'', sha]"

definition has_merge_source_changes :: "'w outside \<Rightarrow> string \<Rightarrow> ('w, bool) git_action" where
  "has_merge_source_changes W path = act_bind (git_output W path
     [''status'', ''--porcelain=v1'', ''-z'', ''--ignored=matching'', ''--untracked-files=normal'', ''--ignore-submodules=none''])
     (\<lambda>out. act_return (out \<noteq> []))"

definition ensure_no_unmerged :: "'w outside \<Rightarrow> string \<Rightarrow> ('w, unit) git_action" where
  "ensure_no_unmerged W path = act_bind (git_output W path [''ls-files'', ''--unmerged'', ''-z'']) (\<lambda>out.
     act_check (out = []) (Problem ''source index has unmerged entries; resolve conflicts before merging''))"

section \<open>Options, results and errors\<close>

datatype merge_error =
    OfSync sync_error
  | MergeProblem string
  | MergeContext string merge_error
  | MergeNoted merge_error string
  | MergeStage string merge_error "string list"

record merge_options =
  mo_selector :: string
  mo_target :: string
  mo_cwd :: string
  mo_env :: "(string \<times> string) list"
  mo_local :: bool

record merge_result =
  mr_sync :: "sync_outcome option"
  mr_item :: string
  mr_source_branch :: string
  mr_source_path :: string
  mr_source_old :: string
  mr_source_new :: string
  mr_target_branch :: string
  mr_target_old :: string
  mr_target_path :: string
  mr_target_item :: string
  mr_preserved :: bool
  mr_rebased :: bool
  mr_advanced :: bool
  mr_synced :: bool
  mr_rolled_back :: bool
  mr_warnings :: "string list"

definition empty_merge_result :: merge_result where
  "empty_merge_result = \<lparr>mr_sync = None, mr_item = [], mr_source_branch = [], mr_source_path = [], mr_source_old = [],
     mr_source_new = [], mr_target_branch = [], mr_target_old = [], mr_target_path = [], mr_target_item = [], mr_preserved = False,
     mr_rebased = False, mr_advanced = False, mr_synced = False, mr_rolled_back = False, mr_warnings = []\<rparr>"

text \<open>An action of a merge fails with the result so far and the error.\<close>

type_synonym ('w, 'b, 'a) merge_action = "(('w, 'b) sync_world, merge_result \<times> merge_error, 'a) action"

record ('w, 'b) merge_env =
  me_text :: "merge_error \<Rightarrow> string"
  me_daemon :: bool
  me_worktrees :: string
  me_session :: "('w, 'b) sync_world \<Rightarrow> string"
  me_resolve :: "string \<Rightarrow> (('w, 'b) sync_world, merge_error, manifest) action"
  me_find :: "string \<Rightarrow> ('w, 'b) sync_world \<Rightarrow> (merge_error, manifest option) result"
  me_lock_path :: "string \<Rightarrow> string"
  me_load :: "string \<Rightarrow> (('w, 'b) sync_world, merge_error, manifest) action"
  me_append :: "string \<Rightarrow> string \<Rightarrow> string \<Rightarrow> json \<Rightarrow> (('w, 'b) sync_world, merge_error, unit) action"
  me_temp :: "(('w, 'b) sync_world, merge_error, string) action"
  me_remove_all :: "string \<Rightarrow> (('w, 'b) sync_world, merge_error, unit) action"

text \<open>A step that fails ends the merge with the result so far.\<close>

definition attempt :: "merge_result \<Rightarrow> (merge_error \<Rightarrow> merge_error) \<Rightarrow> ('w, 'b, 'a) sync_action \<Rightarrow> ('w, 'b, 'a) merge_action" where
  "attempt res f m = (\<lambda>y. case m y of (Inl e, y) \<Rightarrow> (Inl (res, f (OfSync e)), y) | (Inr x, y) \<Rightarrow> (Inr x, y))"

definition stop :: "merge_result \<Rightarrow> string \<Rightarrow> ('w, 'b, 'a) merge_action" where
  "stop res s = act_fail (res, MergeProblem s)"

definition require :: "bool \<Rightarrow> merge_result \<Rightarrow> string \<Rightarrow> ('w, 'b, unit) merge_action" where
  "require c res s = act_check c (res, MergeProblem s)"

definition look :: "('w \<Rightarrow> 'a) \<Rightarrow> (('w, 'b) sync_world, 'e, 'a) action" where
  "look f = act_ask (\<lambda>y. f (sy_git y))"

text \<open>Keep the outcome of a step as a value.\<close>

definition outcome :: "('w, 'b, 'a) sync_action \<Rightarrow> ('w, 'b, (merge_error, 'a) result) merge_action" where
  "outcome m = (\<lambda>y. case m y of (Inl e, y) \<Rightarrow> (Inr (Inl (OfSync e)), y) | (Inr x, y) \<Rightarrow> (Inr (Inr x), y))"

definition short_sha :: "string \<Rightarrow> string" where
  "short_sha sha = take 7 sha"

section \<open>Selecting and locking the item\<close>

text \<open>\<open>ResolveItem\<close>: an explicit selector, the variable \<open>WI_ID\<close>, the tmux session, the directory.\<close>

definition resolve_item :: "('w, 'b) merge_env \<Rightarrow> merge_options \<Rightarrow> (('w, 'b) sync_world, merge_error, manifest) action" where
  "resolve_item M opts =
     (let wanted = trim_space (mo_selector opts);
          named = trim_space (case map_of (mo_env opts) ''WI_ID'' of None \<Rightarrow> [] | Some v \<Rightarrow> v);
          nothing = act_fail (MergeProblem ''no work item selected; pass an item ID, active slug, unique keyword, or set WI_ID'')
      in if wanted \<noteq> [] then me_resolve M wanted
         else if named \<noteq> [] then me_resolve M named
         else act_bind (act_ask (me_session M)) (\<lambda>session.
           if trim_space session \<noteq> [] then me_resolve M (trim_space session)
           else if mo_cwd opts = [] then nothing
           else act_bind (act_ask (me_find M (mo_cwd opts))) (\<lambda>found. case found of
             Inr (Some m) \<Rightarrow> act_return m
           | Inr None \<Rightarrow> nothing
           | Inl e \<Rightarrow> act_fail e)))"

definition lock_item_operation :: "'w outside \<Rightarrow> ('w, 'b) merge_env \<Rightarrow> merge_options \<Rightarrow> (('w, 'b) sync_world, merge_error, manifest) action" where
  "lock_item_operation W M opts =
     act_bind (resolve_item M opts) (\<lambda>m.
     act_bind (look (ow_lock W False (me_lock_path M (m_id m) @ ''.operation''))) (\<lambda>locked. case locked of
       Inl e \<Rightarrow> act_fail (MergeProblem e)
     | Inr _ \<Rightarrow> me_load M (m_id m)))"

section \<open>What the daemon tells of the repository\<close>

record source_view = repo_source +
  sv_upstream :: "repo_upstream option"
  sv_by :: string
  sv_error :: "sync_error option"

definition source_view :: "'w outside \<Rightarrow> 'b sync_env \<Rightarrow> string \<Rightarrow> ('w, 'b, source_view) sync_action" where
  "source_view W E selector =
     act_bind (repository_source E selector) (\<lambda>source.
     act_bind (act_try (on_git (branch_upstream W (rs_git_dir source) (or_branch (rs_repository source))))) (\<lambda>up.
     act_return \<lparr>rs_repository = rs_repository source, rs_git_dir = rs_git_dir source, rs_pending = rs_pending source,
       sv_upstream = (case up of Inl _ \<Rightarrow> None | Inr u \<Rightarrow> u), sv_by = ''git'',
       sv_error = (case up of Inl e \<Rightarrow> Some e | Inr _ \<Rightarrow> None)\<rparr>))"

definition sync_integration :: "'w outside \<Rightarrow> 'b sync_env \<Rightarrow> string \<Rightarrow> ('w, 'b, sync_outcome) sync_action" where
  "sync_integration W E ident =
     act_bind (source_view W E ident) (\<lambda>source.
     if sv_by source \<noteq> ''git'' then refuse ''daemon does not support Git-owned tracking; restart it before using repository commands''
     else repository_sync W E \<lparr>sq_selector = ident, sq_mode = [], sq_confirm_reset = False, sq_expected_local = [], sq_expected_upstream = []\<rparr>)"


section \<open>Events and rollback\<close>

text \<open>\<open>mergeEventData\<close>, in the order in which its keys are encoded.\<close>

definition merge_event_data :: "merge_result \<Rightarrow> string \<Rightarrow> string \<Rightarrow> string list option \<Rightarrow> json" where
  "merge_event_data res stage failure rollback = JObj (
     optional_field ''error'' failure @ optional_field ''failure_stage'' stage @ [(''rebased'', JBool (mr_rebased res))]
     @ (case rollback of None \<Rightarrow> [] | Some es \<Rightarrow> [(''rollback_errors'', JList (List.map JStr es))])
     @ [(''rolled_back'', JBool (mr_rolled_back res)), (''source_branch'', JStr (mr_source_branch res)),
        (''source_new_sha'', JStr (mr_source_new res)), (''source_old_sha'', JStr (mr_source_old res)),
        (''source_path'', JStr (mr_source_path res)), (''source_preserved'', JBool (mr_preserved res)),
        (''target_advanced'', JBool (mr_advanced res)), (''target_branch'', JStr (mr_target_branch res)),
        (''target_new_sha'', JStr (mr_source_new res)), (''target_old_sha'', JStr (mr_target_old res)),
        (''target_synced'', JBool (mr_synced res)), (''target_worktree_path'', JStr (mr_target_path res))])"

definition warn :: "merge_result \<Rightarrow> string \<Rightarrow> merge_result" where
  "warn res s = res\<lparr>mr_warnings := mr_warnings res @ [s]\<rparr>"

definition append_merge_event ::
  "('w, 'b) merge_env \<Rightarrow> string \<Rightarrow> string \<Rightarrow> json \<Rightarrow> merge_result \<Rightarrow> ('w, 'b, merge_result) merge_action" where
  "append_merge_event M item kind payload res = (\<lambda>y. case me_append M item kind ''user'' payload y of
      (Inl e, y) \<Rightarrow> (Inr (warn res (''could not append '' @ kind @ '' event: '' @ me_text M e)), y)
    | (Inr _, y) \<Rightarrow> (Inr res, y))"

definition note_progress :: "('w, 'b) merge_env \<Rightarrow> string \<Rightarrow> string \<Rightarrow> merge_result \<Rightarrow> ('w, 'b, merge_result) merge_action" where
  "note_progress M item kind res = append_merge_event M item kind (merge_event_data res [] [] None) res"

definition undo_target ::
  "'w outside \<Rightarrow> ('w, 'b) merge_env \<Rightarrow> string \<Rightarrow> merge_result \<Rightarrow> ('w, 'b, merge_result \<times> string list) merge_action" where
  "undo_target W M item res y =
     (if \<not> mr_advanced res then (Inr (res, []), y)
      else (let (loaded, y) = me_load M item y;
                root = (case loaded of Inl _ \<Rightarrow> [] | Inr m \<Rightarrow> operational_root (m_repository m))
            in if root = [] then (Inr (res, [''could not resolve repository root for target rollback'']), y)
               else (case on_git (update_ref W root (''refs/heads/'' @ mr_target_branch res) (mr_target_old res) (mr_source_new res)
                   ''wi merge: rollback target sync failed'') y of
                   (Inl e, y) \<Rightarrow> (Inr (res, [''target ref rollback failed: '' @ me_text M (OfSync e)]), y)
                 | (Inr _, y) \<Rightarrow> (Inr (res\<lparr>mr_advanced := False\<rparr>, []), y))))"

definition undo_source ::
  "'w outside \<Rightarrow> ('w, 'b) merge_env \<Rightarrow> merge_result \<times> string list \<Rightarrow> ('w, 'b, merge_result \<times> string list) merge_action" where
  "undo_source W M st = (case st of (res, problems) \<Rightarrow>
     if mr_rebased res \<and> \<not> mr_preserved res
     then act_bind (outcome (on_git (reset_hard W (mr_source_path res) (mr_source_old res)))) (\<lambda>r. case r of
         Inl e \<Rightarrow> act_return (res, problems @ [''source reset failed: '' @ me_text M e])
       | Inr _ \<Rightarrow> act_return (res\<lparr>mr_rebased := False\<rparr>, problems))
     else act_return (res, problems))"

definition fail_merge ::
  "'w outside \<Rightarrow> ('w, 'b) merge_env \<Rightarrow> string \<Rightarrow> string \<Rightarrow> merge_result \<Rightarrow> merge_error \<Rightarrow> ('w, 'b, 'a) merge_action" where
  "fail_merge W M item stage res cause =
     act_bind (append_merge_event M item ''merge.failed'' (merge_event_data res stage (me_text M cause) None) res) (\<lambda>res.
     act_bind (undo_target W M item res) (\<lambda>st.
     act_bind (undo_source W M st) (\<lambda>(res, problems).
     let res = res\<lparr>mr_rolled_back := (problems = [])\<rparr>
     in act_bind (append_merge_event M item ''merge.rolled_back'' (merge_event_data res stage (me_text M cause) (Some problems)) res) (\<lambda>res.
        act_fail (res, MergeStage stage cause problems)))))"

text \<open>A step of the transaction: its failure rolls back.\<close>

definition step ::
  "'w outside \<Rightarrow> ('w, 'b) merge_env \<Rightarrow> string \<Rightarrow> string \<Rightarrow> merge_result \<Rightarrow> (merge_error \<Rightarrow> merge_error) \<Rightarrow> ('w, 'b, 'a) sync_action
    \<Rightarrow> ('w, 'b, 'a) merge_action" where
  "step W M item stage res f m =
     act_bind (outcome m) (\<lambda>r. case r of Inl e \<Rightarrow> fail_merge W M item stage res (f e) | Inr x \<Rightarrow> act_return x)"

section \<open>Checks before the merge\<close>

definition check_source_item :: "manifest \<Rightarrow> merge_result \<Rightarrow> ('w, 'b, merge_result) merge_action" where
  "check_source_item m res =
     act_bind (require (m_state m = state_active) res (''work item '' @ m_id m @ '' is '' @ m_state m @ ''; merge requires an active item'')) (\<lambda>_.
     case co_claim (m_checkout m) of
       None \<Rightarrow> stop res (''work item '' @ m_id m @ '' has no checkout; start it before merging'')
     | Some c \<Rightarrow>
         if trim_space (wc_path c) = [] then stop res (''work item '' @ m_id m @ '' has no checkout; start it before merging'')
         else act_return (res\<lparr>mr_source_path := wc_path c\<rparr>))"

definition check_source :: "'w outside \<Rightarrow> merge_result \<Rightarrow> ('w, 'b, unit) merge_action" where
  "check_source W res =
     act_bind (attempt res (\<lambda>e. e) (on_git (ensure_no_operation W (mr_source_path res) ''merge''))) (\<lambda>_.
     act_bind (attempt res (MergeContext ''inspect source branch'') (on_git (current_branch W (mr_source_path res)))) (\<lambda>branch.
     act_bind (require (branch \<noteq> []) res (''source checkout is detached; expected branch '' @ mr_source_branch res)) (\<lambda>_.
     act_bind (require (branch = mr_source_branch res) res
       (''checkout branch mismatch at '' @ mr_source_path res @ '': expected '' @ mr_source_branch res @ '', found '' @ branch
        @ ''; repair the worktree before continuing'')) (\<lambda>_.
     attempt res (\<lambda>e. e) (on_git (ensure_no_unmerged W (mr_source_path res)))))))"

definition choose_target ::
  "'w outside \<Rightarrow> merge_options \<Rightarrow> manifest \<Rightarrow> merge_result \<Rightarrow> ('w, 'b, merge_result) merge_action" where
  "choose_target W opts m res =
     (let r = m_repository m; wanted = trim_space (mo_target opts)
      in act_bind (if wanted \<noteq> [] then act_return wanted
           else if repo_id r \<noteq> [] then act_return (integration_branch r)
           else attempt res (\<lambda>e. e) (on_git (default_branch W (operational_root r)))) (\<lambda>target.
         act_bind (require (target \<noteq> mr_source_branch res) res (''target branch '' @ target @ '' is the source branch'')) (\<lambda>_.
         act_return (res\<lparr>mr_target_branch := target\<rparr>))))"

text \<open>With a daemon: the base is synchronized first, when it is the integration branch and has an upstream.\<close>

definition sync_base ::
  "'w outside \<Rightarrow> 'b sync_env \<Rightarrow> merge_options \<Rightarrow> manifest \<Rightarrow> merge_result \<Rightarrow> ('w, 'b, source_view \<times> merge_result) merge_action" where
  "sync_base W E opts m res =
     act_bind (attempt res (\<lambda>e. e) (source_view W E (repo_id (m_repository m)))) (\<lambda>source.
     act_bind (require (mo_local opts \<or> sv_by source = ''git'') res ''daemon does not support Git-owned tracking; restart it before merging'') (\<lambda>_.
     act_bind (require (\<not> rs_pending source) res ''finish or abort pending repository reconciliation before merging'') (\<lambda>_.
     act_bind (case sv_error source of
         None \<Rightarrow> act_return ()
       | Some e \<Rightarrow> if mo_local opts then act_return () else act_fail (res, MergeContext ''inspect Git upstream'' (OfSync e))) (\<lambda>_.
     if sv_upstream source \<noteq> None \<and> mr_target_branch res = or_branch (rs_repository source) \<and> \<not> mo_local opts
     then act_bind (attempt res (MergeContext ''synchronize integration base before merge'')
         (sync_integration W E (repo_id (m_repository m)))) (\<lambda>done_sync.
       act_return (source, res\<lparr>mr_sync := Some done_sync\<rparr>))
     else act_return (source, res)))))"

definition recheck_base ::
  "'w outside \<Rightarrow> 'b sync_env \<Rightarrow> merge_options \<Rightarrow> manifest \<Rightarrow> merge_result \<Rightarrow> source_view \<Rightarrow> ('w, 'b, unit) merge_action" where
  "recheck_base W E opts m res source =
     act_bind (attempt res (\<lambda>e. e) (source_view W E (repo_id (m_repository m)))) (\<lambda>current.
     act_bind (case sv_error current of
         None \<Rightarrow> act_return ()
       | Some e \<Rightarrow> if mo_local opts then act_return ()
           else act_fail (res, MergeContext ''Git upstream became invalid during integration preflight'' (OfSync e))) (\<lambda>_.
     act_bind (require (\<not> (rs_pending current \<or> sv_upstream current \<noteq> sv_upstream source)) res
       ''repository synchronization policy changed; retry merge'') (\<lambda>_.
     case mr_sync res of
       None \<Rightarrow> act_return ()
     | Some done_sync \<Rightarrow>
         act_bind (attempt res (\<lambda>e. e) (on_git (resolve_branch_sha W (operational_root (m_repository m)) (mr_target_branch res)))) (\<lambda>sha.
         require (sha = ss_local (yr_status done_sync)) res ''integration branch moved after upstream synchronization; retry merge''))))"

definition recheck_source :: "'w outside \<Rightarrow> merge_result \<Rightarrow> ('w, 'b, unit) merge_action" where
  "recheck_source W res =
     act_bind (attempt res (\<lambda>e. e) (on_git (ensure_no_operation W (mr_source_path res) ''merge''))) (\<lambda>_.
     act_bind (attempt res (\<lambda>e. e) (on_git (current_branch W (mr_source_path res)))) (\<lambda>branch.
     act_bind (require (branch = mr_source_branch res) res
       (''source branch changed during integration preflight; expected '' @ mr_source_branch res @ '', found '' @ branch)) (\<lambda>_.
     attempt res (\<lambda>e. e) (on_git (ensure_no_unmerged W (mr_source_path res))))))"

text \<open>The preflight of a registered repository; the lock it takes is held until the merge ends.\<close>

definition registered_preflight ::
  "'w outside \<Rightarrow> 'b sync_env \<Rightarrow> ('w, 'b) merge_env \<Rightarrow> merge_options \<Rightarrow> manifest \<Rightarrow> merge_result \<Rightarrow> ('w, 'b, merge_result) merge_action" where
  "registered_preflight W E M opts m res =
     (let lock = (\<lambda>res. act_bind (look (ow_lock W False (integration_lock_path (operational_root (m_repository m))))) (\<lambda>locked.
            case locked of Inl e \<Rightarrow> stop res e | Inr _ \<Rightarrow> act_return ()))
      in act_bind
        (if me_daemon M
         then act_bind (sync_base W E opts m res) (\<lambda>(source, res).
           act_bind (lock res) (\<lambda>_. act_bind (recheck_base W E opts m res source) (\<lambda>_. act_return res)))
         else act_bind (lock res) (\<lambda>_. act_return res)) (\<lambda>res.
        act_bind (recheck_source W res) (\<lambda>_. act_return res)))"

text \<open>The commits to start from, and the checkout that has the target branch.\<close>

definition check_target_checkout ::
  "'w outside \<Rightarrow> ('w, 'b) merge_env \<Rightarrow> manifest \<Rightarrow> merge_result \<Rightarrow> worktree_info \<Rightarrow> ('w, 'b, merge_result) merge_action" where
  "check_target_checkout W M m res wt =
     (let r = m_repository m; target = mr_target_branch res; path = wt_path wt
      in if repo_id r \<noteq> [] \<and> target = integration_branch r
         then stop res (''integration branch '' @ target @ '' is checked out at '' @ path @ ''; release that checkout before merging'')
         else act_bind (look (managed_slot_path W (me_worktrees M) (repo_id r) path)) (\<lambda>managed.
           if repo_id r \<noteq> [] \<and> \<not> managed
           then stop res (''target branch '' @ target @ '' is checked out in external worktree '' @ path
             @ ''; wi will not modify an unmanaged checkout; choose an unchecked-out target or manage that worktree with Git'')
           else (let res = res\<lparr>mr_target_path := path\<rparr>
             in act_bind (look (ow_stat W path)) (\<lambda>k. case k of
                  Directory \<Rightarrow> act_bind (act_ask (me_find M path)) (\<lambda>found. case found of
                      Inr (Some item) \<Rightarrow> act_return (res\<lparr>mr_target_item := m_id item\<rparr>)
                    | _ \<Rightarrow> act_return res)
                | OtherFile \<Rightarrow> stop res (''target branch '' @ target @ '' is registered at non-directory worktree path '' @ path
                    @ ''; repair the Git worktree registration'')
                | _ \<Rightarrow> stop res (''target branch '' @ target @ '' is registered at unavailable worktree '' @ path)))))"

definition resolve_tips ::
  "'w outside \<Rightarrow> ('w, 'b) merge_env \<Rightarrow> manifest \<Rightarrow> merge_result \<Rightarrow> ('w, 'b, merge_result) merge_action" where
  "resolve_tips W M m res =
     (let root = operational_root (m_repository m); target = mr_target_branch res
      in act_bind (attempt res (MergeContext ''resolve source HEAD'') (on_git (rev_parse W (mr_source_path res) ''HEAD^{commit}''))) (\<lambda>sha.
         let res = res\<lparr>mr_source_old := sha\<rparr>
         in act_bind (attempt res (MergeContext (''target must be an existing local branch '' @ target))
              (on_git (resolve_branch_sha W root target))) (\<lambda>sha.
            let res = res\<lparr>mr_target_old := sha\<rparr>
            in act_bind (attempt res (MergeContext ''inspect target worktree'') (on_git (target_worktree_for_branch W root target))) (\<lambda>wt.
               case wt of None \<Rightarrow> act_return res | Some wt \<Rightarrow> check_target_checkout W M m res wt))))"


section \<open>The transaction\<close>

text \<open>\<open>overlappingPaths\<close>: local changes at, above or below an incoming path, once each and sorted.\<close>

definition paths_overlap :: "string \<Rightarrow> string \<Rightarrow> bool" where
  "paths_overlap a b \<longleftrightarrow> a = b \<or> has_prefix a (b @ ''/'') \<or> has_prefix b (a @ ''/'')"

definition overlapping_paths :: "string list \<Rightarrow> string list \<Rightarrow> string list" where
  "overlapping_paths dirty incoming =
     sort (foldl (\<lambda>seen p. if list_ex (paths_overlap p) (List.map path_clean incoming) \<and> p \<notin> set seen then seen @ [p] else seen) []
       (List.map path_clean dirty))"

text \<open>The temporary checkout is removed when the merge returns, whatever came of it.\<close>

definition warn_outcome :: "string \<Rightarrow> (merge_result \<times> merge_error, merge_result) result \<Rightarrow> (merge_result \<times> merge_error, merge_result) result" where
  "warn_outcome s r = (case r of Inl (res, e) \<Rightarrow> Inl (warn res s, MergeNoted e s) | Inr res \<Rightarrow> Inr (warn res s))"

definition cleaning_up ::
  "'w outside \<Rightarrow> ('w, 'b) merge_env \<Rightarrow> string \<Rightarrow> string \<Rightarrow> string \<Rightarrow> ('w, 'b, merge_result) merge_action \<Rightarrow> ('w, 'b, merge_result) merge_action" where
  "cleaning_up W M root temporary snapshot m = (\<lambda>y. case m y of (r, y) \<Rightarrow>
     (case on_git (worktree_remove W root snapshot True) y of
        (Inl e, y) \<Rightarrow> (warn_outcome (''temporary merge checkout retained at '' @ snapshot @ '': '' @ me_text M (OfSync e)) r, y)
      | (Inr _, y) \<Rightarrow> (case me_remove_all M temporary y of
            (Inl e, y) \<Rightarrow> (warn_outcome (''remove temporary merge directory: '' @ me_text M e) r, y)
          | (Inr _, y) \<Rightarrow> (r, y))))"

text \<open>The target checkout must not have changes where the update brings some.\<close>

definition check_target_changes ::
  "'w outside \<Rightarrow> ('w, 'b) merge_env \<Rightarrow> manifest \<Rightarrow> merge_result \<Rightarrow> ('w, 'b, unit) merge_action" where
  "check_target_changes W M m res =
     act_bind (step W M (m_id m) ''target_dirty_check'' res (\<lambda>e. e) (on_git (status_paths W (mr_target_path res)))) (\<lambda>dirty.
     act_bind (step W M (m_id m) ''incoming_paths'' res (\<lambda>e. e)
       (on_git (diff_name_only W (operational_root (m_repository m)) (mr_target_old res) (mr_source_new res)))) (\<lambda>incoming.
     let overlap = overlapping_paths dirty incoming
     in if overlap \<noteq> []
        then fail_merge W M (m_id m) ''target_overlap'' res
          (MergeProblem (''target worktree has local changes overlapping incoming update: '' @ concat (List.map (\<lambda>p. newline_char # ''  '' @ p) overlap)))
        else act_return ()))"

text \<open>The source must still be where it was, when it was not rebased in place.\<close>

definition check_source_unchanged ::
  "'w outside \<Rightarrow> ('w, 'b) merge_env \<Rightarrow> manifest \<Rightarrow> merge_result \<Rightarrow> ('w, 'b, unit) merge_action" where
  "check_source_unchanged W M m res =
     (let path = mr_source_path res; stage = ''source_changed''
      in act_bind (step W M (m_id m) stage res (\<lambda>e. e) (on_git (ensure_no_operation W path ''merge''))) (\<lambda>_.
         act_bind (step W M (m_id m) stage res (\<lambda>e. e) (on_git (ensure_no_unmerged W path))) (\<lambda>_.
         act_bind (outcome (on_git (current_branch W path))) (\<lambda>branch.
         act_bind (outcome (on_git (rev_parse W path ''HEAD^{commit}''))) (\<lambda>head.
         if branch \<noteq> Inr (mr_source_branch res) \<or> head \<noteq> Inr (mr_source_old res)
         then fail_merge W M (m_id m) stage res (MergeProblem ''source branch or HEAD changed during merge; retry with its current committed state'')
         else act_return ())))))"

text \<open>The checkout of the target follows the branch.\<close>

definition sync_target_checkout ::
  "'w outside \<Rightarrow> ('w, 'b) merge_env \<Rightarrow> manifest \<Rightarrow> merge_result \<Rightarrow> ('w, 'b, merge_result) merge_action" where
  "sync_target_checkout W M m res =
     act_bind (outcome (on_git (update_index_refresh W (mr_target_path res)))) (\<lambda>r.
     let res = (case r of Inl e \<Rightarrow> warn res (''target index refresh reported local changes: '' @ me_text M e) | Inr _ \<Rightarrow> res)
     in act_bind (step W M (m_id m) ''target_sync'' res (MergeContext (''sync target worktree '' @ mr_target_path res))
          (on_git (read_tree_merge_update W (mr_target_path res) (mr_target_old res) (mr_source_new res)))) (\<lambda>_.
        act_bind (note_progress M (m_id m) ''merge.target_synced'' (res\<lparr>mr_synced := True\<rparr>)) (\<lambda>res.
        if mr_target_item res \<noteq> [] \<and> mr_target_item res \<noteq> m_id m
        then (\<lambda>y. case me_append M (mr_target_item res) ''checkout.updated_by_merge'' ''wi'' (JObj [(''new_sha'', JStr (mr_source_new res)),
              (''old_sha'', JStr (mr_target_old res)), (''source_item_id'', JStr (m_id m)), (''target_branch'', JStr (mr_target_branch res))]) y of
            (Inl e, y) \<Rightarrow> (Inr (warn res (''could not append target work-item event: '' @ me_text M e)), y)
          | (Inr _, y) \<Rightarrow> (Inr res, y))
        else act_return res)))"

text \<open>From the source's new commit on: the fast-forward check, the update of the branch and of its checkout.\<close>

definition advance_target ::
  "'w outside \<Rightarrow> ('w, 'b) merge_env \<Rightarrow> manifest \<Rightarrow> merge_result \<Rightarrow> ('w, 'b, merge_result) merge_action" where
  "advance_target W M m res =
     (let root = operational_root (m_repository m); target = mr_target_branch res; item = m_id m
      in act_bind (step W M item ''target_update'' res (MergeContext (''target branch '' @ target @ '' moved during merge''))
           (on_git (update_ref W root (''refs/heads/'' @ target) (mr_source_new res) (mr_target_old res) ''wi merge: fast-forward''))) (\<lambda>_.
         act_bind (note_progress M item ''merge.target_advanced'' (res\<lparr>mr_advanced := True\<rparr>)) (\<lambda>res.
         act_bind (if mr_target_path res \<noteq> [] then sync_target_checkout W M m res else act_return res) (\<lambda>res.
         act_bind (outcome (on_git (resolve_branch_sha W root target))) (\<lambda>now.
         let res = (if now = Inr (mr_source_new res) then res
               else warn res (''target branch moved again after merge; inspect '' @ target @ '' and '' @ mr_target_path res))
         in note_progress M item ''merge.completed'' res)))))"

definition finish_merge ::
  "'w outside \<Rightarrow> ('w, 'b) merge_env \<Rightarrow> manifest \<Rightarrow> merge_result \<Rightarrow> ('w, 'b, merge_result) merge_action" where
  "finish_merge W M m res =
     (let root = operational_root (m_repository m); target = mr_target_branch res; item = m_id m
      in act_bind (step W M item ''fast_forward_check'' res (\<lambda>e. e) (on_git (is_ancestor W root (mr_target_old res) (mr_source_new res)))) (\<lambda>yes.
         if \<not> yes
         then fail_merge W M item ''fast_forward_check'' res (MergeProblem (''target '' @ target @ '' cannot fast-forward to rebased source''))
         else act_bind (if mr_target_path res \<noteq> [] then check_target_changes W M m res else act_return ()) (\<lambda>_.
           act_bind (if \<not> mr_rebased res \<or> mr_preserved res then check_source_unchanged W M m res else act_return ()) (\<lambda>_.
           advance_target W M m res))))"

text \<open>The rebase of a source with uncommitted changes, in a temporary checkout.\<close>

definition rebase_snapshot ::
  "'w outside \<Rightarrow> ('w, 'b) merge_env \<Rightarrow> manifest \<Rightarrow> merge_result \<Rightarrow> ('w, 'b, merge_result) merge_action" where
  "rebase_snapshot W M m res =
     (let res = res\<lparr>mr_preserved := True\<rparr>; item = m_id m; root = operational_root (m_repository m)
      in (\<lambda>y. case me_temp M y of
           (Inl e, y) \<Rightarrow> fail_merge W M item ''snapshot_create'' res e y
         | (Inr temporary, y) \<Rightarrow>
             (let snapshot = path_join [temporary, ''checkout'']
              in cleaning_up W M root temporary snapshot
                (act_bind (step W M item ''snapshot_checkout'' res (\<lambda>e. e) (on_git (add_merge_snapshot W root snapshot (mr_source_old res)))) (\<lambda>_.
                 act_bind (outcome (on_git (rebase_merge_snapshot W snapshot (mr_target_old res)))) (\<lambda>r. case r of
                   Inl e \<Rightarrow> act_bind (outcome (on_git (rebase_abort W snapshot))) (\<lambda>a.
                     fail_merge W M item ''isolated_rebase''
                       (case a of Inl e \<Rightarrow> warn res (''temporary rebase abort failed: '' @ me_text M e) | Inr _ \<Rightarrow> res)
                       (MergeContext ''isolated rebase failed; source checkout was not modified'' e))
                 | Inr _ \<Rightarrow> act_bind (step W M item ''resolve_rebased_head'' res (\<lambda>e. e) (on_git (rev_parse W snapshot ''HEAD^{commit}''))) (\<lambda>sha.
                     act_bind (note_progress M item ''merge.rebased'' (warn (res\<lparr>mr_source_new := sha, mr_rebased := True\<rparr>)
                       ''rebased committed work in a temporary checkout; source branch and uncommitted changes were left untouched'')) (\<lambda>res.
                     finish_merge W M m res))))) y)))"

text \<open>The rebase of a clean source in its own checkout.\<close>

definition failed_rebase_text :: "merge_result \<Rightarrow> bool \<Rightarrow> bool \<Rightarrow> string" where
  "failed_rebase_text res aborted restored =
     (if \<not> aborted
      then ''rebase of '' @ mr_source_branch res @ '' onto '' @ mr_target_branch res @ '' failed and automatic abort also failed; inspect ''
        @ mr_source_path res @ '' manually''
      else ''rebase of '' @ mr_source_branch res @ '' onto '' @ mr_target_branch res
        @ '' failed and was aborted; no merge was performed. Run `git -C '' @ mr_source_path res @ '' rebase '' @ mr_target_branch res
        @ ''` manually, resolve conflicts, then retry `wi merge`''
        @ (if restored then [] else ''. WARNING: source HEAD was not verified at '' @ short_sha (mr_source_old res) @ ''; inspect it manually''))"

definition failed_rebase_result :: "('w, 'b) merge_env \<Rightarrow> merge_result \<Rightarrow> (merge_error, unit) result \<Rightarrow> bool \<Rightarrow> merge_result" where
  "failed_rebase_result M res abort restored =
     (let res = (case abort of Inl e \<Rightarrow> warn res (''automatic rebase abort failed: '' @ me_text M e) | Inr _ \<Rightarrow> res)
      in if restored then res
         else warn res (''automatic abort did not verify source HEAD '' @ short_sha (mr_source_old res) @ ''; inspect ''
           @ mr_source_path res @ '' manually''))"

definition failed_rebase ::
  "'w outside \<Rightarrow> ('w, 'b) merge_env \<Rightarrow> manifest \<Rightarrow> merge_result \<Rightarrow> merge_error \<Rightarrow> ('w, 'b, merge_result) merge_action" where
  "failed_rebase W M m res cause =
     act_bind (outcome (on_git (rebase_abort W (mr_source_path res)))) (\<lambda>abort.
     act_bind (outcome (on_git (rev_parse W (mr_source_path res) ''HEAD^{commit}''))) (\<lambda>head.
     let restored = (head = Inr (mr_source_old res)); res = failed_rebase_result M res abort restored
     in act_bind (append_merge_event M (m_id m) ''merge.failed'' (merge_event_data res ''rebase'' (me_text M cause) None) res) (\<lambda>res.
        let res = res\<lparr>mr_rolled_back := (is_ok abort \<and> restored)\<rparr>
        in act_bind (append_merge_event M (m_id m) ''merge.rolled_back'' (merge_event_data res ''rebase'' (me_text M cause)
             (case abort of Inl e \<Rightarrow> Some [me_text M e] | Inr _ \<Rightarrow> None)) res) (\<lambda>res.
           act_fail (res, MergeProblem (failed_rebase_text res (is_ok abort) restored @ [newline_char] @ ''Git reported: '' @ me_text M cause))))))"

definition rebase_source ::
  "'w outside \<Rightarrow> ('w, 'b) merge_env \<Rightarrow> manifest \<Rightarrow> merge_result \<Rightarrow> ('w, 'b, merge_result) merge_action" where
  "rebase_source W M m res =
     (let path = mr_source_path res; item = m_id m
      in act_bind (step W M item ''source_dirty_check'' res (\<lambda>e. e) (on_git (ensure_clean W path))) (\<lambda>_.
         act_bind (outcome (on_git (git_rebase W path (mr_target_branch res)))) (\<lambda>r. case r of
           Inl e \<Rightarrow> failed_rebase W M m res e
         | Inr _ \<Rightarrow>
             let res = res\<lparr>mr_rebased := True\<rparr>
             in act_bind (step W M item ''resolve_rebased_head'' res (\<lambda>e. e) (on_git (rev_parse W path ''HEAD^{commit}''))) (\<lambda>sha.
                act_bind (note_progress M item ''merge.rebased'' (res\<lparr>mr_source_new := sha\<rparr>)) (\<lambda>res.
                finish_merge W M m res)))))"

definition merge_transaction ::
  "'w outside \<Rightarrow> ('w, 'b) merge_env \<Rightarrow> manifest \<Rightarrow> merge_result \<Rightarrow> bool \<Rightarrow> ('w, 'b, merge_result) merge_action" where
  "merge_transaction W M m res fast_forward =
     act_bind (note_progress M (m_id m) ''merge.started'' res) (\<lambda>res.
     if fast_forward then finish_merge W M m (res\<lparr>mr_source_new := mr_source_old res\<rparr>)
     else act_bind (step W M (m_id m) ''source_dirty_check'' res (\<lambda>e. e) (on_git (has_merge_source_changes W (mr_source_path res)))) (\<lambda>dirty.
       if dirty then rebase_snapshot W M m res else rebase_source W M m res))"

section \<open>The whole merge\<close>

definition merge_locked_item ::
  "'w outside \<Rightarrow> 'b sync_env \<Rightarrow> ('w, 'b) merge_env \<Rightarrow> merge_options \<Rightarrow> manifest \<Rightarrow> ('w, 'b, merge_result) merge_action" where
  "merge_locked_item W E M opts m =
     (let res = empty_merge_result\<lparr>mr_item := m_id m, mr_source_branch := trim_space (cs_branch (co_specification (m_checkout m)))\<rparr>
      in act_bind (check_source_item m res) (\<lambda>res.
         act_bind (check_source W res) (\<lambda>_.
         act_bind (choose_target W opts m res) (\<lambda>res.
         act_bind (if repo_id (m_repository m) \<noteq> [] then registered_preflight W E M opts m res else act_return res) (\<lambda>res.
         act_bind (resolve_tips W M m res) (\<lambda>res.
         act_bind (attempt res (MergeContext ''check target ancestry'')
           (on_git (is_ancestor W (operational_root (m_repository m)) (mr_target_old res) (mr_source_old res)))) (\<lambda>fast_forward.
         merge_transaction W M m res fast_forward)))))))"

definition merge_work_item ::
  "'w outside \<Rightarrow> 'b sync_env \<Rightarrow> ('w, 'b) merge_env \<Rightarrow> merge_options \<Rightarrow> ('w, 'b, merge_result) merge_action" where
  "merge_work_item W E M opts = (\<lambda>y. case lock_item_operation W M opts y of
     (Inl e, y) \<Rightarrow> (Inl (empty_merge_result, e), y)
   | (Inr m, y) \<Rightarrow> merge_locked_item W E M opts m y)"

end
