(* ===== verification/SyncSafety.thy ===== *)
theory SyncSafety
  imports RepoSync Execute
begin

text \<open>
  What a synchronization can do to a repository (\<open>internal/coordinator/repository_sync.go\<close>, modelled in \<open>RepoSync\<close>): the
  Hoare rules of its steps over the references of the store, and the theorems that hold for every outcome, a failure at
  any step included.
\<close>

section \<open>What the steps keep\<close>

definition at_git :: "('w \<Rightarrow> bool) \<Rightarrow> ('w, 'b) sync_world \<Rightarrow> bool" where
  "at_git P y \<longleftrightarrow> P (sy_git y)"

lemma on_git_unfold: "on_git m y = (case fst (m (sy_git y)) of Inl e \<Rightarrow> Inl (OfGit e) | Inr x \<Rightarrow> Inr x, y\<lparr>sy_git := snd (m (sy_git y))\<rparr>)"
  by (auto simp: on_git_def split: prod.split sum.split)

lemma keeps_on_git [keeps_intros]: "keeps P m \<Longrightarrow> keeps (at_git P) (on_git m)"
  by (auto simp: keeps_iff at_git_def on_git_unfold)

lemma keeps_off_git [keeps_intros]:
  "keeps Q (ask_git f)" "keeps Q (on_db g)" "keeps Q (refuse s)" "keeps Q (read_plan E repo)" "keeps Q (read_fetch E repo)"
  by (auto simp: keeps_iff ask_git_def act_ask_def on_db_def refuse_def act_fail_def read_plan_def read_fetch_def split: sum.split)

lemma keeps_fact [keeps_intros]: "keeps (at_git P) (repository_fact E kind payload us)"
  by (auto simp: keeps_iff at_git_def repository_fact_def Let_def split: sum.split option.split prod.split)

lemma keeps_saves [keeps_intros]:
  "keeps (at_git P) (save_sync_plan E repo plan)" "keeps (at_git P) (finish_sync_plan E kind repo data)"
  by (auto simp: save_sync_plan_def finish_sync_plan_def intro: keeps_intros)

lemma keeps_source [keeps_intros]: "keeps Q (repository_source E selector)"
  unfolding repository_source_def by (intro keeps_intros)

lemma upholds_on_git: "upholds P m Q (\<lambda>_. F) \<Longrightarrow> upholds (at_git P) (on_git m) (\<lambda>x. at_git (Q x)) (\<lambda>_. at_git F)"
proof (rule upholdsI)
  assume u: "upholds P m Q (\<lambda>_. F)"
  show "at_git F y'" if "at_git P y" "on_git m y = (Inl e, y')" for y e y'
    using that upholds_Inl [OF u, of "sy_git y"] by (auto simp: at_git_def on_git_def split: prod.splits sum.splits)
  show "at_git (Q x) y'" if "at_git P y" "on_git m y = (Inr x, y')" for y x y'
    using that upholds_Inr [OF u, of "sy_git y"] by (auto simp: at_git_def on_git_def split: prod.splits sum.splits)
qed

lemma upholds_pure: "(c \<Longrightarrow> upholds (at_git P) m Q F) \<Longrightarrow> upholds (at_git (\<lambda>w. P w \<and> c)) m Q F"
  by (auto simp: upholds_def at_git_def)

text \<open>The reading steps.\<close>

lemma sync_reads:
  assumes "git_contract W store V" and "steady V P"
  shows "keeps (at_git P) (inspect_repository W E source)" and "keeps (at_git P) (ensure_repository_idle W E source skip)"
    and "keeps (at_git P) (repository_access W E selector busy)" and "keeps (at_git P) (check_checkout W E dir path plan abort)"
    and "keeps (at_git P) (require_ancestor W dir complaint x y)" and "keeps (at_git P) (check_target W dir plan)"
proof -
  note k = keeps_intros reads [OF assms] reads_more [OF assms]
  have c: "keeps P (compare_tips W dir st)" for dir st unfolding compare_tips_def by (intro k)
  show "keeps (at_git P) (inspect_repository W E source)"
    unfolding inspect_repository_def inspect_upstream_def Let_def by (intro k c)
  have i: "keeps P (slot_idle W E repo skip wt)" for repo wt unfolding slot_idle_def by (intro k)
  show "keeps (at_git P) (ensure_repository_idle W E source skip)"
    unfolding ensure_repository_idle_def by (intro k i)
  have d: "keeps P (require_directory W dir complaint)" for dir complaint unfolding require_directory_def by (intro k)
  have b: "keeps (at_git P) (case z of True \<Rightarrow> m | False \<Rightarrow> m')" if "keeps (at_git P) m" "keeps (at_git P) m'" for z m m'
    using that by (cases z) auto
  show "keeps (at_git P) (repository_access W E selector busy)"
    unfolding repository_access_def validate_owned_bare_observation_def by (intro k d b)
  have cd: "keeps (at_git P) (check_checkout_dir W dir path plan abort)" unfolding check_checkout_dir_def by (intro k)
  show "keeps (at_git P) (check_checkout W E dir path plan abort)"
    unfolding check_checkout_def check_parent_def by (intro k cd)
  show ra: "keeps (at_git P) (require_ancestor W dir complaint x y)" for dir complaint x y
    unfolding require_ancestor_def by (intro k)
  show "keeps (at_git P) (check_target W dir plan)" unfolding check_target_def by (intro k ra)
qed

lemma fetch_keeps:
  assumes "git_contract W store V" and "remote_blind V P"
  shows "keeps (at_git P) (fetch_repository W E source)"
proof -
  note k = keeps_intros reads [OF assms(1) remote_blind_steady [OF assms(2)]] reads_more [OF assms(1) remote_blind_steady [OF assms(2)]]
    keeps_fetch [OF assms]
  show ?thesis unfolding fetch_repository_def Let_def by (intro k)
qed

section \<open>No history is lost\<close>

text \<open>The references of a store before (\<open>r0\<close>) and after (\<open>r\<close>): the ones that were there, outside the remote-tracking
  ones, are as they were, the branch included or not; and what has happened when the branch has moved.\<close>

definition intact :: "string \<Rightarrow> (string \<Rightarrow> string option) \<Rightarrow> (string \<Rightarrow> string option) \<Rightarrow> bool" where
  "intact tip r0 r \<longleftrightarrow> (\<forall>ref. \<not> has_prefix ref ''refs/remotes/'' \<longrightarrow> r0 ref \<noteq> None \<or> ref = tip \<longrightarrow> r ref = r0 ref)"

definition others_kept :: "string \<Rightarrow> (string \<Rightarrow> string option) \<Rightarrow> (string \<Rightarrow> string option) \<Rightarrow> bool" where
  "others_kept tip r0 r \<longleftrightarrow> (\<forall>ref. ref \<noteq> tip \<longrightarrow> \<not> has_prefix ref ''refs/remotes/'' \<longrightarrow> r0 ref \<noteq> None \<longrightarrow> r ref = r0 ref)"

definition moved_by ::
  "(string \<Rightarrow> string \<Rightarrow> bool) \<Rightarrow> string \<Rightarrow> (string \<Rightarrow> string option) \<Rightarrow> sync_plan \<Rightarrow> (string \<Rightarrow> string option) \<Rightarrow> bool" where
  "moved_by ancestor tip r0 plan r \<longleftrightarrow>
     r0 tip = Some (sp_old plan) \<and> r (sp_recovery_ref plan) = Some (sp_old plan)
     \<and> (sp_phase plan \<noteq> ''merging'' \<longrightarrow> r tip = ref_value (sp_new plan))
     \<and> (sp_mode plan = ''reset'' \<or> (\<exists>new. r tip = Some new \<and> ancestor (sp_old plan) new \<and> ancestor (sp_upstream_sha plan) new))"

definition kept_or_moved ::
  "(string \<Rightarrow> string \<Rightarrow> bool) \<Rightarrow> string \<Rightarrow> (string \<Rightarrow> string option) \<Rightarrow> sync_plan \<Rightarrow> (string \<Rightarrow> string option) \<Rightarrow> bool" where
  "kept_or_moved ancestor tip r0 plan r \<longleftrightarrow> others_kept tip r0 r \<and> (r tip = r0 tip \<or> moved_by ancestor tip r0 plan r)"

definition branch_ref :: "string \<Rightarrow> string" where
  "branch_ref branch = ''refs/heads/'' @ branch"

lemma branch_ref_local: "\<not> has_prefix (branch_ref b) ''refs/remotes/''"
  by (simp add: branch_ref_def has_prefix_def)

lemma recovery_local:
  "\<not> has_prefix (recovery_prefix @ i) ''refs/remotes/''" "\<not> has_prefix (retained_prefix @ i) ''refs/remotes/''"
  "recovery_prefix @ i \<noteq> branch_ref b" "retained_prefix @ i \<noteq> branch_ref b"
  by (simp_all add: branch_ref_def recovery_prefix_def retained_prefix_def has_prefix_def)

lemma intact_tip: "intact (branch_ref b) r0 r \<Longrightarrow> r (branch_ref b) = r0 (branch_ref b)"
  using branch_ref_local [of b] unfolding intact_def by blast

lemma intact_kept: "intact (branch_ref b) r0 r \<Longrightarrow> kept_or_moved anc (branch_ref b) r0 plan r"
  using intact_tip [of b r0 r] by (simp add: kept_or_moved_def others_kept_def) (simp add: intact_def)

lemma intact_refl: "intact tip r r"
  by (simp add: intact_def)

lemma intact_blind: "remote_blind V (\<lambda>w. intact tip r0 (gv_refs V w))"
  by (auto simp: remote_blind_def intact_def)

lemma intact_new: "intact tip r0 r \<Longrightarrow> ref \<noteq> tip \<Longrightarrow> r ref = None \<Longrightarrow> \<not> has_prefix ref ''refs/remotes/'' \<Longrightarrow> intact tip r0 (r(ref := x))"
  by (auto simp: intact_def)

lemma refs_steady: "steady V (\<lambda>w. Q (gv_refs V w))"
  by (simp add: steady_def calm_def)

lemma steady_conj: "steady V P \<Longrightarrow> steady V Q \<Longrightarrow> steady V (\<lambda>w. P w \<and> Q w)"
  by (auto simp: steady_def)

lemma detached_steady: "steady V (gv_detached V path)"
  by (simp add: steady_def calm_def)

lemma upholds_seq:
  assumes "keeps P m" and "\<And>w. P w \<Longrightarrow> F w" and "\<And>x. upholds P (f x) Q (\<lambda>_. F)"
  shows "upholds P (act_bind m f) Q (\<lambda>_. F)"
  using keeps_upholds [OF assms(1,2)] assms(3) by (rule upholds_bind)

lemma upholds_end: "keeps P m \<Longrightarrow> (\<And>w. P w \<Longrightarrow> Q w) \<Longrightarrow> (\<And>w. P w \<Longrightarrow> F w) \<Longrightarrow> upholds P m (\<lambda>_. Q) (\<lambda>_. F)"
  unfolding keeps_def by (erule upholds_weaken)

lemma require_ancestor_upholds:
  assumes c: "git_contract W store V" and P: "steady V P"
  shows "upholds (at_git P) (require_ancestor W store complaint y x) (\<lambda>_. at_git (\<lambda>w. P w \<and> gv_ancestor V x y \<and> y \<noteq> zeros y)) (\<lambda>_. at_git P)"
  unfolding require_ancestor_def
proof (rule upholds_bind)
  show "upholds (at_git P) (act_try (on_git (is_ancestor W store x y)))
      (\<lambda>r. at_git (\<lambda>w. P w \<and> (r = Inr True \<longrightarrow> gv_ancestor V x y \<and> y \<noteq> zeros y))) (\<lambda>_. at_git P)"
  proof (rule upholds_try, rule upholdsI)
    have k: "P (snd (is_ancestor W store x y w))" if "P w" for w using reads(6) [OF c P] that by (simp add: keeps_iff)
    show "at_git (\<lambda>w. P w \<and> (Inl e = Inr True \<longrightarrow> gv_ancestor V x y \<and> y \<noteq> zeros y)) y2"
      if "at_git P y1" "on_git (is_ancestor W store x y) y1 = (Inl e, y2)" for y1 e y2
      using that k [of "sy_git y1"] by (auto simp: at_git_def on_git_unfold split: sum.splits)
    show "at_git (\<lambda>w. P w \<and> (Inr v = Inr True \<longrightarrow> gv_ancestor V x y \<and> y \<noteq> zeros y)) y2"
      if "at_git P y1" "on_git (is_ancestor W store x y) y1 = (Inr v, y2)" for y1 v y2
    proof -
      have v: "fst (is_ancestor W store x y (sy_git y1)) = Inr v" and y2: "y2 = y1\<lparr>sy_git := snd (is_ancestor W store x y (sy_git y1))\<rparr>"
        using that(2) by (auto simp: on_git_unfold split: sum.splits)
      have "v \<Longrightarrow> gv_ancestor V x y \<and> y \<noteq> zeros y"
        using is_ancestor_tells [OF c, of store x y "sy_git y1"] v by (cases "is_ancestor W store x y (sy_git y1)") auto
      then show ?thesis using that(1) k [of "sy_git y1"] y2 by (auto simp: at_git_def)
    qed
  qed
  show "upholds (at_git (\<lambda>w. P w \<and> (r = Inr True \<longrightarrow> gv_ancestor V x y \<and> y \<noteq> zeros y)))
      (act_check (r = Inr True) (SyncRefused complaint))
      (\<lambda>_. at_git (\<lambda>w. P w \<and> gv_ancestor V x y \<and> y \<noteq> zeros y)) (\<lambda>_. at_git P)" for r
    by (rule upholds_check) (auto simp: at_git_def)
qed

lemma both_ancestors:
  assumes c: "git_contract W store V" and P: "steady V P"
  shows "upholds (at_git P) (act_each (require_ancestor W store complaint y) [a, b])
     (\<lambda>_. at_git (\<lambda>w. P w \<and> (gv_ancestor V a y \<and> gv_ancestor V b y \<and> y \<noteq> zeros y))) (\<lambda>_. at_git P)"
proof -
  have s: "steady V (\<lambda>w. P w \<and> gv_ancestor V a y \<and> y \<noteq> zeros y)" using P by (auto simp: steady_def)
  have b: "upholds (at_git (\<lambda>w. P w \<and> gv_ancestor V a y \<and> y \<noteq> zeros y)) (require_ancestor W store complaint y b)
      (\<lambda>_. at_git (\<lambda>w. P w \<and> (gv_ancestor V a y \<and> gv_ancestor V b y \<and> y \<noteq> zeros y))) (\<lambda>_. at_git P)"
    by (rule upholds_weaken [OF require_ancestor_upholds [OF c s]]) (auto simp: at_git_def)
  show ?thesis
    unfolding act_each.simps
    by (rule upholds_bind [OF require_ancestor_upholds [OF c P]], rule upholds_bind [OF b], rule upholds_return)
qed

lemma upholds_at_git:
  assumes "\<And>w. P w \<Longrightarrow> (case fst (m w) of Inl _ \<Rightarrow> F (snd (m w)) | Inr x \<Rightarrow> Q x (snd (m w)))"
  shows "upholds (at_git P) (on_git m) (\<lambda>x. at_git (Q x)) (\<lambda>_. at_git F)"
proof (rule upholds_on_git, rule upholdsI)
  show "F w'" if "P w" "m w = (Inl e, w')" for w e w' using assms [OF that(1)] that(2) by simp
  show "Q x w'" if "P w" "m w = (Inr x, w')" for w x w' using assms [OF that(1)] that(2) by simp
qed

lemma recovery_keeps:
  assumes c: "git_contract W store V" and n: "ref \<noteq> branch_ref b" "\<not> has_prefix ref ''refs/remotes/''" and A: "intact (branch_ref b) r0 (gv_refs V w)"
  shows "intact (branch_ref b) r0 (gv_refs V (snd (recovery_ref W store ref sha w)))"
  using recovery_ref_refs [OF c, of ref sha w] intact_new [OF A n(1) _ n(2)] A by auto

lemma protect_upholds:
  fixes b :: string and r0 :: "string \<Rightarrow> string option"
  assumes c: "git_contract W store V" and i: "sp_recovery_ref plan = recovery_prefix @ sp_id plan"
  defines "A \<equiv> \<lambda>w. intact (branch_ref b) r0 (gv_refs V w)"
  shows "upholds (at_git A) (protect_tip W store plan)
     (\<lambda>_. at_git (\<lambda>w. A w \<and> gv_refs V w (sp_recovery_ref plan) \<in> {Some (sp_old plan), ref_value (sp_old plan)})) (\<lambda>_. at_git A)"
  unfolding protect_tip_def
proof (rule upholds_bind)
  define name where "name = ''wi/recovery/repository-sync/'' @ sp_id plan"
  have rec: "sp_recovery_ref plan = ''refs/'' @ name" by (simp add: i name_def recovery_prefix_def)
  have st: "steady V A" unfolding A_def by (rule remote_blind_steady [OF intact_blind])
  show "upholds (at_git A) (act_try (on_git (rev_parse W store (sp_recovery_ref plan @ ''^{commit}''))))
      (\<lambda>r. at_git (\<lambda>w. A w \<and> (\<forall>sha. r = Inr sha \<longrightarrow> gv_refs V w (sp_recovery_ref plan) = Some sha))) (\<lambda>_. at_git A)"
  proof (rule upholds_try, rule upholds_weaken)
    let ?m = "rev_parse W store (sp_recovery_ref plan @ ''^{commit}'')"
    show "upholds (at_git A) (on_git ?m) (\<lambda>x. at_git (\<lambda>w. A w \<and> gv_refs V w (sp_recovery_ref plan) = Some x)) (\<lambda>_. at_git A)"
    proof (rule upholds_at_git)
      fix w assume a: "A w"
      have k: "calm V w (snd (?m w))"
        using reads(1) [OF c, of "calm V w" store "sp_recovery_ref plan @ ''^{commit}''"]
        by (simp add: keeps_iff steady_def calm_def)
      have a': "A (snd (?m w))" using st k a by (auto simp: steady_def)
      have "gv_refs V (snd (?m w)) (sp_recovery_ref plan) = Some x" if "fst (?m w) = Inr x" for x
        using rev_parse_tells [OF c, of name w x "snd (?m w)"] that k by (cases "?m w") (simp add: rec calm_def)
      then show "case fst (?m w) of Inl x \<Rightarrow> A (snd (?m w))
          | Inr x \<Rightarrow> A (snd (?m w)) \<and> gv_refs V (snd (?m w)) (sp_recovery_ref plan) = Some x"
        using a' by (auto split: sum.split)
    qed
  qed (auto simp: at_git_def)
  fix r
  let ?P = "\<lambda>w. A w \<and> (\<forall>sha. r = Inr sha \<longrightarrow> gv_refs V w (sp_recovery_ref plan) = Some sha)"
  let ?Q = "\<lambda>w. A w \<and> gv_refs V w (sp_recovery_ref plan) \<in> {Some (sp_old plan), ref_value (sp_old plan)}"
  have new: "upholds (at_git A) (on_git (recovery_ref W store (sp_recovery_ref plan) (sp_old plan))) (\<lambda>_. at_git ?Q) (\<lambda>_. at_git A)"
  proof (rule upholds_at_git)
    fix w assume a: "A w"
    let ?w = "recovery_ref W store (sp_recovery_ref plan) (sp_old plan) w"
    have "A (snd ?w)" using recovery_keeps [OF c, of "sp_recovery_ref plan" b r0 w] a recovery_local i by (simp add: A_def)
    then show "case fst ?w of Inl x \<Rightarrow> A (snd ?w)
        | Inr x \<Rightarrow> A (snd ?w) \<and> gv_refs V (snd ?w) (sp_recovery_ref plan) \<in> {Some (sp_old plan), ref_value (sp_old plan)}"
      using recovery_ref_swaps [OF c, of "sp_recovery_ref plan" "sp_old plan" w] by (auto split: sum.splits)
  qed
  show "upholds (at_git ?P) (case r of Inl _ \<Rightarrow> on_git (recovery_ref W store (sp_recovery_ref plan) (sp_old plan))
      | Inr sha \<Rightarrow> act_check (sha = sp_old plan) (SyncRefused ''recovery ref identity conflict'')) (\<lambda>_. at_git ?Q) (\<lambda>_. at_git A)"
  proof (cases r)
    case (Inl e)
    then show ?thesis using new by simp
  next
    case (Inr sha)
    show ?thesis unfolding Inr by simp (rule upholds_check; auto simp: at_git_def)
  qed
qed

lemma update_upholds:
  assumes c: "git_contract W store V" and i: "sp_recovery_ref plan = recovery_prefix @ sp_id plan"
    and old: "r0 (branch_ref b) = Some (sp_old plan)"
    and new: "sp_mode plan = ''reset'' \<or> gv_ancestor V (sp_old plan) (sp_new plan) \<and> gv_ancestor V (sp_upstream_sha plan) (sp_new plan)
      \<and> sp_new plan \<noteq> zeros (sp_new plan)"
  shows "upholds (at_git (\<lambda>w. intact (branch_ref b) r0 (gv_refs V w) \<and>
      gv_refs V w (sp_recovery_ref plan) \<in> {Some (sp_old plan), ref_value (sp_old plan)}))
    (on_git (update_ref W store (branch_ref b) (sp_new plan) (sp_old plan) message))
    (\<lambda>_. at_git (\<lambda>w. kept_or_moved (gv_ancestor V) (branch_ref b) r0 plan (gv_refs V w)))
    (\<lambda>_. at_git (\<lambda>w. kept_or_moved (gv_ancestor V) (branch_ref b) r0 plan (gv_refs V w)))"
proof (rule upholds_at_git)
  fix w assume w: "intact (branch_ref b) r0 (gv_refs V w) \<and> gv_refs V w (sp_recovery_ref plan) \<in> {Some (sp_old plan), ref_value (sp_old plan)}"
  let ?w = "update_ref W store (branch_ref b) (sp_new plan) (sp_old plan) message w"
  have tip: "gv_refs V w (branch_ref b) = Some (sp_old plan)" using intact_tip w old by metis
  have rn: "sp_recovery_ref plan \<noteq> branch_ref b" unfolding i by (rule recovery_local)
  have "kept_or_moved (gv_ancestor V) (branch_ref b) r0 plan (gv_refs V (snd ?w))"
  proof (cases "is_ok (fst ?w)")
    case True
    then have o: "gv_refs V w (branch_ref b) = ref_value (sp_old plan)"
      and r: "gv_refs V (snd ?w) = (gv_refs V w)(branch_ref b := ref_value (sp_new plan))"
      using update_ref_swaps [OF c, of "branch_ref b" "sp_new plan" "sp_old plan" message w] by simp_all
    have rv: "gv_refs V (snd ?w) (sp_recovery_ref plan) = Some (sp_old plan)" using w o tip rn r by auto
    have others: "others_kept (branch_ref b) r0 (gv_refs V (snd ?w))"
      using w unfolding r others_kept_def intact_def by simp
    have "moved_by (gv_ancestor V) (branch_ref b) r0 plan (gv_refs V (snd ?w))"
      unfolding moved_by_def using old rv new by (auto simp: r ref_value_def)
    with others show ?thesis by (simp add: kept_or_moved_def)
  next
    case False
    then have "gv_refs V (snd ?w) = gv_refs V w"
      using update_ref_swaps [OF c, of "branch_ref b" "sp_new plan" "sp_old plan" message w] by simp
    then show ?thesis using w by (simp add: intact_kept)
  qed
  then show "case fst ?w of Inl x \<Rightarrow> kept_or_moved (gv_ancestor V) (branch_ref b) r0 plan (gv_refs V (snd ?w))
      | Inr x \<Rightarrow> kept_or_moved (gv_ancestor V) (branch_ref b) r0 plan (gv_refs V (snd ?w))"
    by (simp split: sum.split)
qed

lemma prepare_keeps:
  assumes c: "git_contract W store V" and P: "steady V P" and d: "\<And>w. P w \<Longrightarrow> gv_detached V path w"
  shows "keeps (at_git P) (make_checkout W dir path plan)" and "keeps (at_git P) (merge_checkout W path plan)"
proof -
  have m: "keeps P (make_dirs W p)" for p
    using checkout_keeps(4) [OF c P, of p] by (auto simp: keeps_iff make_dirs_def split: prod.split sum.split)
  note k = keeps_intros reads [OF c P] reads_more [OF c P] checkout_keeps [OF c P] detached_keeps [OF c P d] m
  show "keeps (at_git P) (make_checkout W dir path plan)" unfolding make_checkout_def by (intro k)
  show "keeps (at_git P) (merge_checkout W path plan)" unfolding merge_checkout_def by (intro k)
qed

definition prepared_from :: "sync_plan \<Rightarrow> sync_plan \<Rightarrow> bool" where
  "prepared_from plan p \<longleftrightarrow> (\<exists>head. p = plan\<lparr>sp_new := head, sp_phase := ''prepared''\<rparr> \<and> head \<noteq> [])"

lemma prepare_upholds:
  assumes c: "git_contract W (rs_git_dir source) V" and P: "steady V P"
  shows "upholds (at_git (\<lambda>w. P w \<and> gv_detached V path w)) (prepare_merge W E source path plan)
     (\<lambda>p. at_git (\<lambda>w. P w \<and> prepared_from plan p)) (\<lambda>_. at_git P)"
proof -
  let ?P = "\<lambda>w. P w \<and> gv_detached V path w"
  have P': "steady V ?P" by (rule steady_conj [OF P detached_steady])
  have d: "\<And>w. ?P w \<Longrightarrow> gv_detached V path w" by simp
  note k = keeps_intros reads [OF c P'] prepare_keeps [OF c P' d]
  have fin: "upholds (at_git (\<lambda>w. ?P w \<and> (gv_ancestor V (sp_old plan) head \<and> gv_ancestor V (sp_upstream_sha plan) head \<and> head \<noteq> zeros head)))
      (act_bind (save_sync_plan E repo (plan\<lparr>sp_new := head, sp_phase := ''prepared''\<rparr>))
        (\<lambda>_. act_return (plan\<lparr>sp_new := head, sp_phase := ''prepared''\<rparr>)))
      (\<lambda>p. at_git (\<lambda>w. P w \<and> prepared_from plan p)) (\<lambda>_. at_git P)" for head repo
  proof (rule upholds_pure, rule upholds_seq)
    assume "gv_ancestor V (sp_old plan) head \<and> gv_ancestor V (sp_upstream_sha plan) head \<and> head \<noteq> zeros head"
    then have "head \<noteq> []" by (auto simp: zeros_def)
    then show "upholds (at_git ?P) (act_return (plan\<lparr>sp_new := head, sp_phase := ''prepared''\<rparr>))
        (\<lambda>p. at_git (\<lambda>w. P w \<and> prepared_from plan p)) (\<lambda>_. at_git P)"
      by (intro upholds_return) (auto simp: at_git_def prepared_from_def)
  qed (auto intro: k simp: at_git_def)
  have tail: "upholds (at_git ?P) (act_bind (act_each (require_ancestor W (rs_git_dir source) complaint head) [sp_old plan, sp_upstream_sha plan])
      (\<lambda>_. act_bind (save_sync_plan E repo (plan\<lparr>sp_new := head, sp_phase := ''prepared''\<rparr>))
        (\<lambda>_. act_return (plan\<lparr>sp_new := head, sp_phase := ''prepared''\<rparr>))))
      (\<lambda>p. at_git (\<lambda>w. P w \<and> prepared_from plan p)) (\<lambda>_. at_git P)" for complaint head repo
    by (rule upholds_bind [OF upholds_weaken [OF both_ancestors [OF c P']] fin]) (auto simp: at_git_def)
  have weaker: "at_git P y" if "at_git ?P y" for y using that by (simp add: at_git_def)
  show ?thesis
    unfolding prepare_merge_def Let_def by (intro tail upholds_seq [OF _ weaker] k)
qed

lemma check_target_upholds:
  assumes c: "git_contract W store V" and P: "steady V P" and n: "sp_new plan \<noteq> []"
  shows "upholds (at_git P) (check_target W store plan)
     (\<lambda>_. at_git (\<lambda>w. P w \<and> (sp_mode plan = ''reset'' \<or> gv_ancestor V (sp_old plan) (sp_new plan)
        \<and> gv_ancestor V (sp_upstream_sha plan) (sp_new plan) \<and> sp_new plan \<noteq> zeros (sp_new plan)))) (\<lambda>_. at_git P)"
proof (cases "sp_mode plan \<noteq> ''merge'' \<and> sp_new plan \<noteq> sp_upstream_sha plan")
  case True
  then show ?thesis by (simp add: check_target_def refuse_def) (rule upholds_fail, simp)
next
  case False
  show ?thesis
    unfolding check_target_def if_not_P [OF False] using n
    by (intro upholds_when upholds_weaken [OF both_ancestors [OF c P]]) (auto simp: at_git_def)
qed

abbreviation kept_at :: "'w git_view \<Rightarrow> string \<Rightarrow> (string \<Rightarrow> string option) \<Rightarrow> sync_plan \<Rightarrow> 'w \<Rightarrow> bool" where
  "kept_at V b r0 plan w \<equiv> kept_or_moved (gv_ancestor V) (branch_ref b) r0 plan (gv_refs V w)"

abbreviation intact_at :: "'w git_view \<Rightarrow> string \<Rightarrow> (string \<Rightarrow> string option) \<Rightarrow> 'w \<Rightarrow> bool" where
  "intact_at V b r0 w \<equiv> intact (branch_ref b) r0 (gv_refs V w)"

lemma kept_steady: "steady V (kept_at V b r0 plan)" and intact_steady: "steady V (intact_at V b r0)"
  by (rule refs_steady)+

lemma finish_keeps:
  assumes c: "git_contract W (rs_git_dir source) V" and P: "steady V P"
  shows "keeps (at_git P) (finish_sync W E source path plan)"
  unfolding finish_sync_def Let_def by (intro keeps_intros checkout_keeps [OF c P] sync_reads [OF c P])

lemma apply_upholds:
  assumes c: "git_contract W (rs_git_dir source) V" and i: "sp_recovery_ref plan = recovery_prefix @ sp_id plan"
    and b: "b = or_branch (rs_repository source)" and old: "r0 (branch_ref b) = Some (sp_old plan)"
    and new: "sp_mode plan = ''reset'' \<or> gv_ancestor V (sp_old plan) (sp_new plan) \<and> gv_ancestor V (sp_upstream_sha plan) (sp_new plan)
      \<and> sp_new plan \<noteq> zeros (sp_new plan)"
  shows "upholds (at_git (\<lambda>w. intact_at V b r0 w \<and> gv_refs V w (sp_recovery_ref plan) \<in> {Some (sp_old plan), ref_value (sp_old plan)}))
    (apply_plan W E source path plan) (\<lambda>_. at_git (kept_at V b r0 plan)) (\<lambda>_. at_git (kept_at V b r0 plan))"
proof -
  let ?B = "\<lambda>w. intact_at V b r0 w \<and> gv_refs V w (sp_recovery_ref plan) \<in> {Some (sp_old plan), ref_value (sp_old plan)}"
  have B: "steady V ?B" by (rule refs_steady)
  note k = keeps_intros reads [OF c B] reads_more [OF c B] sync_reads [OF c B]
  have weaker: "at_git (kept_at V b r0 plan) y" if "at_git ?B y" for y
    using that by (simp add: at_git_def intact_kept)
  have eq: "''refs/heads/'' @ or_branch (rs_repository source) = branch_ref b" by (simp only: branch_ref_def b)
  have upd: "upholds (at_git ?B) (act_bind (on_git (update_ref W (rs_git_dir source) (branch_ref b)
        (sp_new plan) (sp_old plan) message)) (\<lambda>_. act_wrap f (save_sync_plan E repo p)))
      (\<lambda>_. at_git (kept_at V b r0 plan)) (\<lambda>_. at_git (kept_at V b r0 plan))" for message repo p f
    by (rule upholds_bind [OF update_upholds [where ?r0.0 = r0 and b = b and plan = plan, OF c i old new]])
      (auto intro!: upholds_wrap keeps_upholds keeps_intros)
  show ?thesis
    unfolding apply_plan_def Let_def validate_owned_bare_def eq
    by (intro upd upholds_seq [OF _ weaker] k)
qed

lemma carry_out_upholds:
  assumes c: "git_contract W (rs_git_dir source) V" and i: "sp_recovery_ref plan = recovery_prefix @ sp_id plan"
    and b: "b = or_branch (rs_repository source)" and old: "sp_phase plan \<noteq> ''applied'' \<Longrightarrow> r0 (branch_ref b) = Some (sp_old plan)"
    and n: "sp_new plan \<noteq> []"
  shows "upholds (at_git (intact_at V b r0))
    (act_bind (protect_tip W (rs_git_dir source) plan) (\<lambda>_. act_bind (check_target W (rs_git_dir source) plan) (\<lambda>_.
      act_bind (act_when (sp_phase plan \<noteq> ''applied'') (apply_plan W E source path plan)) (\<lambda>_. finish_sync W E source path plan))))
    (\<lambda>_. at_git (kept_at V b r0 plan)) (\<lambda>_. at_git (kept_at V b r0 plan))"
proof -
  let ?A = "intact_at V b r0" and ?H = "kept_at V b r0 plan"
  let ?B = "\<lambda>w. ?A w \<and> gv_refs V w (sp_recovery_ref plan) \<in> {Some (sp_old plan), ref_value (sp_old plan)}"
  let ?G = "sp_mode plan = ''reset'' \<or> gv_ancestor V (sp_old plan) (sp_new plan) \<and> gv_ancestor V (sp_upstream_sha plan) (sp_new plan)
      \<and> sp_new plan \<noteq> zeros (sp_new plan)"
  have B: "steady V ?B" by (rule refs_steady)
  have weaker: "at_git ?H y" if "at_git ?B y \<or> at_git ?A y" for y
    using that by (auto simp: at_git_def intact_kept)
  have move: "upholds (at_git ?B) (act_when (sp_phase plan \<noteq> ''applied'') (apply_plan W E source path plan))
      (\<lambda>_. at_git ?H) (\<lambda>_. at_git ?H)" if g: ?G
  proof (cases "sp_phase plan = ''applied''")
    case True
    then show ?thesis by (simp only: act_when_def if_False simp_thms) (rule upholds_return, rule weaker, simp)
  next
    case False
    then show ?thesis by (simp only: act_when_def if_True simp_thms) (rule apply_upholds [where ?r0.0 = r0, OF c i b old [OF False] g])
  qed
  have fin: "upholds (at_git ?H) (finish_sync W E source path plan) (\<lambda>_. at_git ?H) (\<lambda>_. at_git ?H)"
    by (rule finish_keeps [OF c kept_steady, unfolded keeps_def])
  show ?thesis
  proof (rule upholds_bind)
    show "upholds (at_git ?A) (protect_tip W (rs_git_dir source) plan) (\<lambda>_. at_git ?B) (\<lambda>_. at_git ?H)"
      by (rule upholds_weaken [OF protect_upholds [where b = b and ?r0.0 = r0, OF c i]]) (auto intro: weaker)
    show "upholds (at_git ?B) (act_bind (check_target W (rs_git_dir source) plan) (\<lambda>_.
        act_bind (act_when (sp_phase plan \<noteq> ''applied'') (apply_plan W E source path plan)) (\<lambda>_. finish_sync W E source path plan)))
        (\<lambda>_. at_git ?H) (\<lambda>_. at_git ?H)"
    proof (rule upholds_bind)
      show "upholds (at_git ?B) (check_target W (rs_git_dir source) plan) (\<lambda>_. at_git (\<lambda>w. ?B w \<and> ?G)) (\<lambda>_. at_git ?H)"
        by (rule upholds_weaken [OF check_target_upholds [OF c B n]]) (auto intro: weaker)
      show "upholds (at_git (\<lambda>w. ?B w \<and> ?G)) (act_bind (act_when (sp_phase plan \<noteq> ''applied'') (apply_plan W E source path plan))
          (\<lambda>_. finish_sync W E source path plan)) (\<lambda>_. at_git ?H) (\<lambda>_. at_git ?H)"
        by (rule upholds_pure) (rule upholds_bind [OF move fin])
    qed
  qed
qed

lemma kept_as_applied: "kept_at V b r0 (plan\<lparr>sp_phase := ''applied''\<rparr>) w \<Longrightarrow> kept_at V b r0 plan w"
  by (auto simp: kept_or_moved_def moved_by_def)

lemma kept_prepared: "prepared_from plan p \<Longrightarrow> sp_phase plan = ''merging'' \<Longrightarrow> kept_at V b r0 p w \<Longrightarrow> kept_at V b r0 plan w"
  by (auto simp: kept_or_moved_def moved_by_def prepared_from_def)

lemma complete_upholds:
  assumes c: "git_contract W (rs_git_dir source) V" and i: "sp_recovery_ref plan = recovery_prefix @ sp_id plan"
    and b: "b = or_branch (rs_repository source)" and old: "sp_phase plan \<noteq> ''applied'' \<Longrightarrow> r0 (branch_ref b) = Some (sp_old plan)"
    and n: "sp_phase plan \<noteq> ''merging'' \<Longrightarrow> sp_new plan \<noteq> []"
  shows "upholds (at_git (\<lambda>w. intact_at V b r0 w \<and> (sp_phase plan = ''merging'' \<longrightarrow> gv_detached V path w)))
    (complete_sync W E source path plan) (\<lambda>_. at_git (kept_at V b r0 plan)) (\<lambda>_. at_git (kept_at V b r0 plan))"
proof -
  let ?A = "intact_at V b r0" and ?H = "kept_at V b r0 plan"
  let ?D = "\<lambda>w. ?A w \<and> (sp_phase plan = ''merging'' \<longrightarrow> gv_detached V path w)"
  let ?prep = "if sp_phase plan = ''merging'' then prepare_merge W E source path plan else act_return plan"
  have weaker: "at_git ?H y" if "at_git ?A y" for y using that by (simp add: at_git_def intact_kept)
  have prep: "upholds (at_git ?D) ?prep
      (\<lambda>p. at_git (\<lambda>w. ?A w \<and> (sp_phase plan = ''merging'' \<and> prepared_from plan p \<or> sp_phase plan \<noteq> ''merging'' \<and> p = plan))) (\<lambda>_. at_git ?H)"
  proof (cases "sp_phase plan = ''merging''")
    case True
    have D: "?D = (\<lambda>w. ?A w \<and> gv_detached V path w)" using True by simp
    show ?thesis
      unfolding D if_P [OF True]
      by (rule upholds_weaken [OF prepare_upholds [OF c intact_steady]]) (use True in \<open>auto simp: at_git_def intact_kept\<close>)
  next
    case False
    then show ?thesis by (auto intro!: upholds_return simp: at_git_def)
  qed
  have rest: "upholds (at_git ?A) (act_bind (protect_tip W (rs_git_dir source) p) (\<lambda>_. act_bind (check_target W (rs_git_dir source) p) (\<lambda>_.
      act_bind (act_when (sp_phase p \<noteq> ''applied'') (apply_plan W E source path p)) (\<lambda>_. finish_sync W E source path p))))
      (\<lambda>_. at_git ?H) (\<lambda>_. at_git ?H)"
    if p: "sp_phase plan = ''merging'' \<and> prepared_from plan p \<or> sp_phase plan \<noteq> ''merging'' \<and> p = plan" for p
  proof (rule upholds_weaken [OF carry_out_upholds [OF c _ b, of p r0]])
    show "sp_recovery_ref p = recovery_prefix @ sp_id p" using p i by (auto simp: prepared_from_def)
    show "r0 (branch_ref b) = Some (sp_old p)" if "sp_phase p \<noteq> ''applied''"
      using p old that by (auto simp: prepared_from_def)
    show "sp_new p \<noteq> []" using p n by (auto simp: prepared_from_def)
    have h: "kept_at V b r0 plan w" if "kept_at V b r0 p w" for w
      using p that kept_prepared [of plan p V b r0 w] by blast
    show "at_git ?H y" if "at_git (kept_at V b r0 p) y" for y
      using that h by (simp add: at_git_def)
    then show "at_git ?H y" if "at_git (kept_at V b r0 p) y" for y
      using that .
  qed
  show ?thesis
  proof (cases "sp_phase plan \<noteq> ''applied'' \<and> sp_upstream plan = None")
    case True
    show ?thesis unfolding complete_sync_def Let_def if_P [OF True] refuse_def
      by (rule upholds_fail) (auto simp: at_git_def intact_kept)
  next
    case False
    show ?thesis unfolding complete_sync_def Let_def if_not_P [OF False]
      by (rule upholds_bind [OF prep]) (rule upholds_pure, rule rest)
  qed
qed

lemma current_branch_upholds:
  assumes c: "git_contract W store V" and P: "steady V P"
  shows "upholds (at_git P) (act_try (on_git (current_branch W path)))
      (\<lambda>r. at_git (\<lambda>w. P w \<and> (r = Inr [] \<longrightarrow> gv_detached V path w))) (\<lambda>_. at_git P)"
proof (rule upholds_try, rule upholds_weaken)
  show "upholds (at_git P) (on_git (current_branch W path)) (\<lambda>b. at_git (\<lambda>w. P w \<and> (b = [] \<longrightarrow> gv_detached V path w))) (\<lambda>_. at_git P)"
  proof (rule upholds_at_git)
    fix w assume w: "P w"
    let ?w = "current_branch W path w"
    have calm: "calm V w (snd ?w)" using reads(4) [OF c, of "calm V w" path] by (simp add: keeps_iff steady_def calm_def)
    then have P': "P (snd ?w)" using P w by (auto simp: steady_def)
    have "gv_detached V path (snd ?w)" if "fst ?w = Inr []"
      using current_branch_tells [OF c, of path w "snd ?w"] that calm by (cases ?w) (auto simp: calm_def)
    then show "case fst ?w of Inl x \<Rightarrow> P (snd ?w) | Inr b \<Rightarrow> P (snd ?w) \<and> (b = [] \<longrightarrow> gv_detached V path (snd ?w))"
      using P' by (auto split: sum.split)
  qed
qed (auto simp: at_git_def)

lemma check_dir_detached:
  assumes c: "git_contract W store V" and P: "steady V P"
  shows "upholds (at_git P) (check_checkout_dir W dir path plan abort) (\<lambda>_. at_git (\<lambda>w. P w \<and> gv_detached V path w)) (\<lambda>_. at_git P)"
proof -
  let ?D = "\<lambda>w. P w \<and> gv_detached V path w"
  have D: "steady V ?D" by (rule steady_conj [OF P detached_steady])
  note k = keeps_intros reads [OF c P] reads_more [OF c P]
  note kD = keeps_intros reads [OF c D] reads_more [OF c D]
  have rest: "upholds (at_git (\<lambda>w. P w \<and> (r = Inr [] \<longrightarrow> gv_detached V path w)))
      (if r \<noteq> Inr [] then refuse s else act_bind (on_git (ensure_reconciliation_operation W path)) (\<lambda>_.
         if \<not> abort \<and> sp_new plan \<noteq> []
         then act_bind (on_git (git_head W path)) (\<lambda>head. act_check (head = sp_new plan) (SyncRefused s'))
         else act_return ())) (\<lambda>_. at_git ?D) (\<lambda>_. at_git P)" for r s s'
  proof (cases "r = Inr []")
    case False
    then show ?thesis by (auto simp: refuse_def at_git_def intro!: upholds_fail)
  next
    case True
    have "keeps (at_git ?D) (act_bind (on_git (ensure_reconciliation_operation W path)) (\<lambda>_.
         if \<not> abort \<and> sp_new plan \<noteq> []
         then act_bind (on_git (git_head W path)) (\<lambda>head. act_check (head = sp_new plan) (SyncRefused s'))
         else act_return ()))" by (intro kD)
    then show ?thesis unfolding if_not_P [OF True [THEN not_not [THEN iffD2]]]
      by (rule upholds_weaken [OF upholds_end [where Q = "at_git ?D" and F = "at_git P"]]) (use True in \<open>auto simp: at_git_def\<close>)
  qed
  have fail: "upholds (at_git P) (refuse s) (\<lambda>_. at_git ?D) (\<lambda>_. at_git P)" for s
    by (auto simp: refuse_def intro!: upholds_fail)
  have checks: "upholds (at_git P) (if \<not> same then refuse s0 else act_bind (act_try (on_git (current_branch W path))) (\<lambda>r.
      if r \<noteq> Inr [] then refuse s else act_bind (on_git (ensure_reconciliation_operation W path)) (\<lambda>_.
         if \<not> abort \<and> sp_new plan \<noteq> []
         then act_bind (on_git (git_head W path)) (\<lambda>head. act_check (head = sp_new plan) (SyncRefused s'))
         else act_return ()))) (\<lambda>_. at_git ?D) (\<lambda>_. at_git P)" for same s0 s s'
    by (cases same) (simp_all only: not_True_eq_False not_False_eq_True if_True if_False fail upholds_bind [OF current_branch_upholds [OF c P] rest])
  show ?thesis
    unfolding check_checkout_dir_def
  proof (rule upholds_seq)
    show "upholds (at_git P) (case info of Inl _ \<Rightarrow> refuse ''reconciliation checkout no longer belongs to owned store''
      | Inr info \<Rightarrow>
         act_bind (ask_git (same_dir W (dr_common info) dir)) (\<lambda>same.
         if \<not> same then refuse ''reconciliation checkout no longer belongs to owned store''
         else act_bind (act_try (on_git (current_branch W path))) (\<lambda>branch.
           if branch \<noteq> Inr [] then refuse ''reconciliation checkout must remain detached''
           else act_bind (on_git (ensure_reconciliation_operation W path)) (\<lambda>_.
             if \<not> abort \<and> sp_new plan \<noteq> []
             then act_bind (on_git (git_head W path)) (\<lambda>head.
               act_check (head = sp_new plan) (SyncRefused ''reconciliation HEAD changed after preparation''))
             else act_return ())))) (\<lambda>_. at_git ?D) (\<lambda>_. at_git P)" for info
      by (cases info) (simp_all only: sum.case fail, rule upholds_seq [OF _ _ checks], (intro k)+)
  qed (intro k)+
qed

lemma check_checkout_detached:
  assumes c: "git_contract W store V" and P: "steady V P"
  shows "upholds (at_git P) (check_checkout W E dir path plan abort) (\<lambda>_. at_git (\<lambda>w. P w \<and> gv_detached V path w)) (\<lambda>_. at_git P)"
  unfolding check_checkout_def
proof (rule upholds_seq)
  show "keeps (at_git P) (act_each (check_parent W) [path_join [se_root E, ''reconciliation''], path_dir path])"
    unfolding check_parent_def by (intro keeps_intros)
  have "upholds (at_git P) (ask_git (ow_lstat W path)) (\<lambda>k. at_git (\<lambda>w. P w \<and> (k = Missing \<longrightarrow> gv_detached V path w))) (\<lambda>_. at_git P)"
    unfolding ask_git_def by (rule upholds_ask) (auto simp: at_git_def missing_detached [OF c])
  then show "upholds (at_git P) (act_bind (ask_git (ow_lstat W path)) (\<lambda>k. case k of
       Missing \<Rightarrow> act_return ()
     | Directory \<Rightarrow> check_checkout_dir W dir path plan abort
     | OtherFile \<Rightarrow> refuse ''reconciliation checkout must not be a symlink''
     | Unreadable e \<Rightarrow> act_fail (OfGit (PathError e)))) (\<lambda>_. at_git (\<lambda>w. P w \<and> gv_detached V path w)) (\<lambda>_. at_git P)"
  proof (rule upholds_bind)
    show "upholds (at_git (\<lambda>w. P w \<and> (k = Missing \<longrightarrow> gv_detached V path w))) (case k of
       Missing \<Rightarrow> act_return ()
     | Directory \<Rightarrow> check_checkout_dir W dir path plan abort
     | OtherFile \<Rightarrow> refuse ''reconciliation checkout must not be a symlink''
     | Unreadable e \<Rightarrow> act_fail (OfGit (PathError e))) (\<lambda>_. at_git (\<lambda>w. P w \<and> gv_detached V path w)) (\<lambda>_. at_git P)" for k
      by (cases k) (auto simp: refuse_def at_git_def check_dir_detached [OF c P] intro: upholds_return upholds_fail)
  qed
qed auto

lemma abort_keeps:
  assumes c: "git_contract W (rs_git_dir source) V"
  shows "keeps (at_git (intact_at V b r0)) (abort_sync W E source path plan)"
proof -
  let ?A = "intact_at V b r0"
  note k = keeps_intros reads [OF c intact_steady] reads_more [OF c intact_steady] sync_reads [OF c intact_steady]
    checkout_keeps [OF c intact_steady]
  have r: "keeps ?A (recovery_ref W (rs_git_dir source) (retained_prefix @ sp_id plan) sha)" for sha
    using recovery_keeps [OF c, of "retained_prefix @ sp_id plan" b r0] recovery_local by (simp add: keeps_iff)
  have h: "keeps (at_git ?A) (retain_head W (rs_git_dir source) plan head)" for head
    unfolding retain_head_def Let_def by (intro k r)
  have a: "keeps (at_git ?A) (abort_checkout W (rs_git_dir source) path plan)" unfolding abort_checkout_def by (intro k h)
  show ?thesis unfolding abort_sync_def by (intro k a)
qed

lemma tip_upholds:
  assumes c: "git_contract W (rs_git_dir source) V" and b: "b = or_branch (rs_repository source)"
  shows "upholds (at_git (intact_at V b r0))
    (on_git (rev_parse W (rs_git_dir source) (''refs/heads/'' @ or_branch (rs_repository source) @ ''^{commit}'')))
    (\<lambda>current. at_git (\<lambda>w. intact_at V b r0 w \<and> r0 (branch_ref b) = Some current)) (\<lambda>_. at_git (intact_at V b r0))"
proof (rule upholds_at_git)
  fix w assume w: "intact_at V b r0 w"
  have e: "''refs/heads/'' @ or_branch (rs_repository source) @ ''^{commit}'' = ''refs/'' @ (''heads/'' @ b) @ ''^{commit}''" by (simp add: b)
  let ?w = "rev_parse W (rs_git_dir source) (''refs/'' @ (''heads/'' @ b) @ ''^{commit}'') w"
  have w': "intact_at V b r0 (snd ?w)" using reads(1) [OF c intact_steady] w by (simp add: keeps_iff)
  have "r0 (branch_ref b) = Some x" if "fst ?w = Inr x" for x
  proof -
    have "gv_refs V w (''refs/'' @ (''heads/'' @ b)) = Some x"
      by (rule rev_parse_tells [OF c, of _ w x "snd ?w"]) (use that in \<open>simp add: prod_eq_iff\<close>)
    then show ?thesis using intact_tip [OF w] by (simp add: branch_ref_def)
  qed
  then show "case fst (rev_parse W (rs_git_dir source) (''refs/heads/'' @ or_branch (rs_repository source) @ ''^{commit}'') w) of
      Inl x \<Rightarrow> intact_at V b r0 (snd (rev_parse W (rs_git_dir source) (''refs/heads/'' @ or_branch (rs_repository source) @ ''^{commit}'') w))
    | Inr current \<Rightarrow> intact_at V b r0 (snd (rev_parse W (rs_git_dir source) (''refs/heads/'' @ or_branch (rs_repository source) @ ''^{commit}'') w))
        \<and> r0 (branch_ref b) = Some current"
    unfolding e using w' by (auto split: sum.split)
qed

lemma resumed_simps [simp]:
  "sp_id (resumed plan c) = sp_id plan" "sp_mode (resumed plan c) = sp_mode plan" "sp_old (resumed plan c) = sp_old plan"
  "sp_new (resumed plan c) = sp_new plan" "sp_recovery_ref (resumed plan c) = sp_recovery_ref plan"
  "sp_upstream_sha (resumed plan c) = sp_upstream_sha plan"
  by (simp_all add: resumed_def)

lemma resumed_merging: "sp_phase (resumed plan c) = ''merging'' \<Longrightarrow> sp_phase plan = ''merging''"
  by (simp add: resumed_def split: if_splits)

lemma kept_resumed: "kept_at V b r0 (resumed plan c) w \<Longrightarrow> kept_at V b r0 plan w"
  using kept_as_applied [of V b r0 plan w] by (simp add: resumed_def split: if_splits)

lemma sync_plan_ok_facts:
  assumes "sync_plan_ok plan"
  shows "sp_recovery_ref plan = recovery_prefix @ sp_id plan" and "sp_phase plan \<noteq> ''merging'' \<Longrightarrow> sp_new plan \<noteq> []"
    and "sp_phase plan = ''merging'' \<Longrightarrow> sp_mode plan = ''merge''"
proof -
  note a = assms [unfolded sync_plan_ok_def not_not de_Morgan_disj]
  from a show "sp_recovery_ref plan = recovery_prefix @ sp_id plan" by (elim conjE)
  from a have n: "\<not> (sp_phase plan \<noteq> ''merging'' \<and> sp_new plan = [])" by (elim conjE)
  show "sp_new plan \<noteq> []" if "sp_phase plan \<noteq> ''merging''" using n that by (rule contrapos_nn [OF _ conjI])
  from a have m: "\<not> (sp_phase plan = ''merging'' \<and> sp_mode plan \<noteq> ''merge'')" by (elim conjE)
  show "sp_mode plan = ''merge''" if "sp_phase plan = ''merging''"
    by (rule ccontr) (rule notE [OF m conjI [OF that]])
qed

lemma clean_parts_nonempty: "[] \<notin> set acc \<Longrightarrow> [] \<notin> set (clean_parts rooted acc ps)"
  by (induction rooted acc ps rule: clean_parts.induct) (auto split: list.splits)

lemma path_clean_nonempty: "path_clean p \<noteq> []"
proof (cases "clean_parts (is_abs p) [] (split_char (CHR ''/'') p)")
  case (Cons q qs)
  then have "q \<noteq> []" using clean_parts_nonempty [of "[]" "is_abs p" "split_char (CHR ''/'') p"] by auto
  then have "join_with s (q # qs) \<noteq> []" for s by (cases qs) auto
  with Cons show ?thesis by (simp add: path_clean_def Let_def)
qed (simp add: path_clean_def Let_def)

lemma reconciliation_path_nonempty: "reconciliation_path E repo plan \<noteq> []"
proof -
  have "filter (\<lambda>p. p \<noteq> []) [se_root E, ''reconciliation'', repo, sp_id plan] \<noteq> []" by simp
  then show ?thesis unfolding reconciliation_path_def path_join_def Let_def by (metis path_clean_nonempty)
qed

lemma resume_upholds:
  assumes c: "git_contract W (rs_git_dir source) V" and b: "b = or_branch (rs_repository source)"
  shows "upholds (at_git (intact_at V b r0)) (resume_sync W E source plan False)
     (\<lambda>_. at_git (kept_at V b r0 plan)) (\<lambda>_. at_git (kept_at V b r0 plan))"
proof (cases "sync_plan_ok plan")
  case False
  then show ?thesis by (auto simp: resume_sync_def Let_def refuse_def at_git_def intact_kept intro!: upholds_fail)
next
  case True
  let ?A = "intact_at V b r0" and ?H = "kept_at V b r0 plan"
  let ?path = "if sp_mode plan = ''merge'' then reconciliation_path E (or_id (rs_repository source)) plan else []"
  have ok: "\<not> \<not> sync_plan_ok plan" using True by simp
  have weaker: "at_git ?H y" if "at_git ?A y" for y using that by (simp add: at_git_def intact_kept)
  have complete: "upholds (at_git (\<lambda>w. ?A w \<and> (sp_phase (resumed plan current) = ''merging'' \<longrightarrow> gv_detached V ?path w)))
      (complete_sync W E source ?path (resumed plan current)) (\<lambda>_. at_git ?H) (\<lambda>_. at_git ?H)"
    if tip: "r0 (branch_ref b) = Some current" and go: "\<not> (current \<noteq> sp_old plan \<and> \<not> False \<and> sp_phase (resumed plan current) \<noteq> ''applied'')" for current
  proof (rule upholds_weaken [OF complete_upholds [where ?r0.0 = r0, OF c _ b]])
    show "sp_recovery_ref (resumed plan current) = recovery_prefix @ sp_id (resumed plan current)" using sync_plan_ok_facts(1) [OF True] by simp
    show "r0 (branch_ref b) = Some (sp_old (resumed plan current))" if "sp_phase (resumed plan current) \<noteq> ''applied''" using tip go that by simp
    show "sp_new (resumed plan current) \<noteq> []" if "sp_phase (resumed plan current) \<noteq> ''merging''"
      using that sync_plan_ok_facts(2) [OF True] by (auto simp: resumed_def split: if_splits)
  qed (auto simp: at_git_def intro: kept_resumed)
  have checked: "upholds (at_git ?A) (if ?path = [] then act_return () else check_checkout W E (rs_git_dir source) ?path (resumed plan current) False)
      (\<lambda>_. at_git (\<lambda>w. ?A w \<and> (sp_phase (resumed plan current) = ''merging'' \<longrightarrow> gv_detached V ?path w))) (\<lambda>_. at_git ?H)" for current
  proof (cases "sp_mode plan = ''merge''")
    case merge: True
    show ?thesis
      unfolding if_P [OF merge] if_not_P [OF reconciliation_path_nonempty]
      by (rule upholds_weaken [OF check_checkout_detached [OF c intact_steady]]) (auto simp: at_git_def intact_kept)
  next
    case False
    then have "sp_phase (resumed plan current) \<noteq> ''merging''" using resumed_merging sync_plan_ok_facts(3) [OF True] by blast
    then show ?thesis using False by (auto intro!: upholds_return simp: at_git_def)
  qed
  have rest: "upholds (at_git (\<lambda>w. ?A w \<and> r0 (branch_ref b) = Some current))
      (if current \<noteq> sp_old plan \<and> \<not> False \<and> sp_phase (resumed plan current) \<noteq> ''applied''
       then refuse ''integration tip changed during reconciliation; recovery ref retained''
       else if False \<and> sp_phase (resumed plan current) = ''applied''
       then refuse ''integration ref was already updated; use --continue to finish, not --abort''
       else act_bind (ensure_repository_idle W E source ?path) (\<lambda>_.
         act_bind (if ?path = [] then act_return () else check_checkout W E (rs_git_dir source) ?path (resumed plan current) False) (\<lambda>_.
         if False then abort_sync W E source ?path (resumed plan current) else complete_sync W E source ?path (resumed plan current))))
      (\<lambda>_. at_git ?H) (\<lambda>_. at_git ?H)" for current
  proof (cases "current \<noteq> sp_old plan \<and> \<not> False \<and> sp_phase (resumed plan current) \<noteq> ''applied''")
    case True
    show ?thesis unfolding if_P [OF True] refuse_def by (rule upholds_fail) (auto simp: at_git_def intact_kept)
  next
    case go: False
    have nf: "\<not> (False \<and> sp_phase (resumed plan current) = ''applied'')" by simp
    show ?thesis
      unfolding if_not_P [OF go] if_not_P [OF nf] if_False
      by (rule upholds_pure, rule upholds_seq [OF sync_reads(2) [OF c intact_steady] weaker], assumption, rule upholds_bind [OF checked])
        (rule complete [OF _ go])
  qed
  show ?thesis
    unfolding resume_sync_def Let_def if_not_P [OF ok]
    by (rule upholds_bind [OF upholds_weaken [OF tip_upholds [OF c b]] rest]) (auto simp: at_git_def intact_kept)
qed

lemma resume_abort_keeps:
  assumes c: "git_contract W (rs_git_dir source) V"
  shows "keeps (at_git (intact_at V b r0)) (resume_sync W E source plan True)"
  unfolding resume_sync_def Let_def if_True
  by (intro keeps_intros reads [OF c intact_steady] sync_reads [OF c intact_steady] abort_keeps [OF c])

section \<open>The whole request\<close>

text \<open>The plan a request writes down: the branch moves from where the request expects it to what it expects upstream.\<close>

definition started_by :: "sync_request \<Rightarrow> string \<Rightarrow> sync_plan \<Rightarrow> bool" where
  "started_by req mode plan \<longleftrightarrow> sp_mode plan = mode \<and> (\<exists>i. sp_recovery_ref plan = recovery_prefix @ i)
     \<and> (sq_expected_local req \<noteq> [] \<longrightarrow> sp_old plan = sq_expected_local req)
     \<and> (sq_expected_upstream req \<noteq> [] \<longrightarrow> sp_upstream_sha plan = sq_expected_upstream req)
     \<and> (sp_phase plan = ''merging'' \<longrightarrow> mode = ''merge'') \<and> (sp_phase plan \<noteq> ''merging'' \<longrightarrow> sp_new plan = sp_upstream_sha plan)"

definition moved_within :: "'w git_view \<Rightarrow> string \<Rightarrow> (string \<Rightarrow> string option) \<Rightarrow> (sync_plan \<Rightarrow> bool) \<Rightarrow> 'w \<Rightarrow> bool" where
  "moved_within V b r0 C w \<longleftrightarrow> others_kept (branch_ref b) r0 (gv_refs V w)
     \<and> (gv_refs V w (branch_ref b) = r0 (branch_ref b) \<or> (\<exists>plan. C plan \<and> moved_by (gv_ancestor V) (branch_ref b) r0 plan (gv_refs V w)))"

lemma intact_within: "intact_at V b r0 w \<Longrightarrow> moved_within V b r0 C w"
  using intact_kept [of b r0 "gv_refs V w" "\<lambda>_ _. False" undefined] intact_tip [of b r0 "gv_refs V w"]
  by (simp add: moved_within_def kept_or_moved_def)

lemma kept_within: "kept_at V b r0 plan w \<Longrightarrow> C plan \<Longrightarrow> moved_within V b r0 C w"
  by (auto simp: moved_within_def kept_or_moved_def)

lemma new_plan_started:
  assumes "\<not> (sq_expected_local req \<noteq> [] \<and> ss_local st \<noteq> sq_expected_local req)"
    and "\<not> (sq_expected_upstream req \<noteq> [] \<and> ss_upstream_sha st \<noteq> sq_expected_upstream req)"
  shows "started_by req mode (new_plan ident mode st)"
  using assms by (auto simp: started_by_def new_plan_def Let_def)

lemma upholds_if: "(c \<Longrightarrow> upholds P m Q F) \<Longrightarrow> (\<not> c \<Longrightarrow> upholds P n Q F) \<Longrightarrow> upholds P (if c then m else n) Q F"
  by simp

lemma decide_upholds:
  assumes c: "git_contract W (rs_git_dir source) V" and b: "b = or_branch (rs_repository source)"
  shows "upholds (at_git (intact_at V b r0)) (decide_sync W E req mode source st)
     (\<lambda>_. at_git (moved_within V b r0 (started_by req mode))) (\<lambda>_. at_git (moved_within V b r0 (started_by req mode)))"
proof -
  let ?A = "intact_at V b r0" and ?S = "moved_within V b r0 (started_by req mode)"
  have weaker: "at_git ?S y" if "at_git ?A y" for y using that by (simp add: at_git_def intact_within)
  have ident: "keeps (at_git ?A) (fresh_id E)" by (auto simp: keeps_iff at_git_def fresh_id_def split: sum.split)
  have go: "upholds (at_git ?A) (act_bind (fresh_id E) (\<lambda>ident. act_bind (save_sync_plan E repo (new_plan ident mode st))
      (\<lambda>_. resume_sync W E source (new_plan ident mode st) False))) (\<lambda>_. at_git ?S) (\<lambda>_. at_git ?S)"
    if "\<And>ident. started_by req mode (new_plan ident mode st)" for repo
    by (rule upholds_seq [OF ident weaker], assumption, rule upholds_seq [OF keeps_saves(1) weaker], assumption,
        rule upholds_weaken [OF resume_upholds [OF c b]])
      (auto simp: at_git_def intro: kept_within that)
  show ?thesis
    unfolding decide_sync_def refuse_def
    by (intro upholds_if upholds_fail upholds_return weaker go new_plan_started)
qed

lemma start_upholds:
  assumes c: "git_contract W (rs_git_dir source) V" and b: "b = or_branch (rs_repository source)"
  shows "upholds (at_git (intact_at V b r0)) (start_sync W E req mode source)
     (\<lambda>_. at_git (moved_within V b r0 (started_by req mode))) (\<lambda>_. at_git (moved_within V b r0 (started_by req mode)))"
proof -
  let ?A = "intact_at V b r0" and ?S = "moved_within V b r0 (started_by req mode)"
  note k = keeps_intros sync_reads [OF c intact_steady] reads_more [OF c intact_steady] fetch_keeps [OF c intact_blind]
  have weaker: "at_git ?S y" if "at_git ?A y" for y using that by (simp add: at_git_def intact_within)
  show ?thesis
    unfolding start_sync_def validate_owned_bare_def
    by (intro upholds_seq [OF _ weaker] decide_upholds [OF c b] k)
qed

text \<open>The plan the database holds for a repository.\<close>

definition at_db :: "'b database \<Rightarrow> ('w, 'b) sync_world \<Rightarrow> bool" where
  "at_db d y \<longleftrightarrow> sy_db y = d"

definition plan_in :: "'b sync_env \<Rightarrow> string \<Rightarrow> 'b database \<Rightarrow> sync_plan option" where
  "plan_in E repo d = (case get_projection (se_bolt E) repository_sync_projection repo (db_tx d) of
     Some (StSyncPlan p) \<Rightarrow> Some p | _ \<Rightarrow> None)"

lemma on_git_db: "keeps (at_db d) (on_git m)"
  by (auto simp: keeps_iff at_db_def on_git_unfold)

lemma access_db: "keeps (at_db d) (repository_access W E selector busy)"
proof -
  have b: "keeps (at_db d) (case z of True \<Rightarrow> m | False \<Rightarrow> m')" if "keeps (at_db d) m" "keeps (at_db d) m'" for z m m'
    using that by (cases z) auto
  show ?thesis unfolding repository_access_def by (intro keeps_intros on_git_db b)
qed

lemma read_plan_upholds: "upholds (at_db d) (read_plan E repo) (\<lambda>p _. p = plan_in E repo d) (\<lambda>_ _. True)"
  by (auto simp: upholds_def at_db_def read_plan_def on_db_def rbind_def read_projection_def plan_in_def
      split: sum.splits option.splits stored.splits if_splits)

lemma upholds_True: "(\<And>x. upholds P (f x) Q (\<lambda>_ _. True)) \<Longrightarrow> upholds P' m (\<lambda>_. P) (\<lambda>_ _. True) \<Longrightarrow> upholds P' (act_bind m f) Q (\<lambda>_ _. True)"
  by (rule upholds_bind)

lemma any_upholds: "upholds P m (\<lambda>_ _. True) (\<lambda>_ _. True)"
  by (auto simp: upholds_def split: prod.split sum.split)

lemma compare_tips_pending: "upholds (\<lambda>_. True) (on_git (compare_tips W dir st)) (\<lambda>st' _. ss_pending st' = ss_pending st) (\<lambda>_ _. True)"
  unfolding on_git_unfold upholds_def compare_tips_def act_bind_def act_return_def
  by (auto split: prod.splits sum.splits)

lemma inspect_upstream_pending:
  "upholds (\<lambda>_. True) (inspect_upstream W E source u st) (\<lambda>st' _. ss_pending st' = ss_pending st) (\<lambda>_ _. True)"
  unfolding inspect_upstream_def Let_def
  by (intro upholds_True [OF _ any_upholds] upholds_if)
    (auto intro: upholds_return upholds_weaken [OF compare_tips_pending])

lemma inspect_pending:
  "upholds (at_db d) (inspect_repository W E source) (\<lambda>st _. ss_pending st = plan_in E (or_id (rs_repository source)) d) (\<lambda>_ _. True)"
proof -
  have tail: "upholds (\<lambda>_. p = plan_in E repo d) (case ss_upstream st of None \<Rightarrow> act_return st | Some u \<Rightarrow> inspect_upstream W E source u st)
      (\<lambda>st _. ss_pending st = plan_in E repo d) (\<lambda>_ _. True)" if "ss_pending st = p" for p repo st
  proof (cases "ss_upstream st")
    case (Some u)
    show ?thesis
    proof (cases "p = plan_in E repo d")
      case True
      show ?thesis unfolding Some option.case
        by (rule upholds_weaken [OF inspect_upstream_pending]) (use that True in auto)
    qed (simp add: upholds_def)
  qed (use that in \<open>auto intro: upholds_return\<close>)
  have k: "keeps (at_db d) (act_try (on_git m))" "keeps (at_db d) (on_git m)" for m
    by (intro keeps_intros on_git_db)+
  show ?thesis
    unfolding inspect_repository_def Let_def
    by (intro upholds_True [OF _ keeps_upholds [OF k(1)]] upholds_True [OF _ keeps_upholds [OF k(2)]]
        upholds_bind [OF read_plan_upholds] tail) simp_all
qed

lemma resume_within:
  assumes c: "git_contract W (rs_git_dir source) V" and b: "b = or_branch (rs_repository source)" and C: "sync_plan_ok plan \<Longrightarrow> C plan"
  shows "upholds (at_git (intact_at V b r0)) (resume_sync W E source plan False)
     (\<lambda>_. at_git (moved_within V b r0 C)) (\<lambda>_. at_git (moved_within V b r0 C))"
proof (cases "sync_plan_ok plan")
  case True
  show ?thesis by (rule upholds_weaken [OF resume_upholds [OF c b]]) (auto simp: at_git_def intro: kept_within C [OF True])
next
  case False
  then show ?thesis by (auto simp: resume_sync_def Let_def refuse_def at_git_def intro!: upholds_fail intact_within)
qed

text \<open>The plans a request may carry out: the pending one when it continues, the one it starts otherwise.\<close>

definition request_mode :: "sync_request \<Rightarrow> string" where
  "request_mode req = (if sq_mode req = [] then ''ff'' else sq_mode req)"

definition allowed_plan :: "sync_request \<Rightarrow> sync_plan option \<Rightarrow> sync_plan \<Rightarrow> bool" where
  "allowed_plan req pending plan \<longleftrightarrow>
     (if request_mode req = ''continue'' then pending = Some plan \<and> sync_plan_ok plan
      else request_mode req \<noteq> ''abort'' \<and> pending = None \<and> started_by req (request_mode req) plan)"

lemma after_inspection:
  assumes c: "git_contract W (rs_git_dir source) V" and b: "b = or_branch (rs_repository source)"
  shows "upholds (\<lambda>y. at_git (intact_at V b r0) y \<and> at_db d y)
    (act_bind (inspect_repository W E source) (\<lambda>st. case ss_pending st of
       Some plan \<Rightarrow>
         if request_mode req \<noteq> ''continue'' \<and> request_mode req \<noteq> ''abort'' then refuse ''repository reconciliation is pending''
         else resume_sync W E source plan (request_mode req = ''abort'')
     | None \<Rightarrow>
         if request_mode req = ''continue'' \<or> request_mode req = ''abort'' then refuse ''repository has no pending reconciliation''
         else start_sync W E req (request_mode req) source))
    (\<lambda>_. at_git (moved_within V b r0 (allowed_plan req (plan_in E (or_id (rs_repository source)) d))))
    (\<lambda>_. at_git (moved_within V b r0 (allowed_plan req (plan_in E (or_id (rs_repository source)) d))))"
    (is "upholds ?P (act_bind _ ?rest) (\<lambda>_. at_git ?S) (\<lambda>_. at_git ?S)")
proof (rule upholds_bind)
  let ?A = "intact_at V b r0" and ?pending = "plan_in E (or_id (rs_repository source)) d"
  show "upholds ?P (inspect_repository W E source) (\<lambda>st y. at_git ?A y \<and> ss_pending st = ?pending) (\<lambda>_. at_git ?S)"
  proof (rule upholdsI)
    fix y assume y: "?P y"
    then have A: "at_git ?A (snd (inspect_repository W E source y))" using sync_reads(1) [OF c intact_steady, of b r0 E source] y
      by (simp only: keeps_iff)
    show "at_git ?S y'" if "inspect_repository W E source y = (Inl e, y')" for e y'
      using A that by (simp add: at_git_def intact_within)
    show "at_git ?A y' \<and> ss_pending st = ?pending" if "inspect_repository W E source y = (Inr st, y')" for st y'
      using A upholds_Inr [OF inspect_pending _ that, of d] y that by simp
  qed
  fix st
  have stop: "upholds (at_git ?A) (refuse s) (\<lambda>_. at_git ?S) (\<lambda>_. at_git ?S)" for s
    unfolding refuse_def by (rule upholds_fail) (simp add: at_git_def intact_within)
  have abort: "upholds (at_git ?A) (resume_sync W E source plan True) (\<lambda>_. at_git ?S) (\<lambda>_. at_git ?S)" for plan
    by (rule upholds_end [OF resume_abort_keeps [OF c]]) (auto simp: at_git_def intact_within)
  have rest: "upholds (at_git ?A) (?rest st) (\<lambda>_. at_git ?S) (\<lambda>_. at_git ?S)" if p: "ss_pending st = ?pending"
  proof (cases ?pending)
    case None
    have C: "started_by req (request_mode req) plan \<Longrightarrow> allowed_plan req None plan"
      if "\<not> (request_mode req = ''continue'' \<or> request_mode req = ''abort'')" for plan
      using that unfolding allowed_plan_def by auto
    have go: "upholds (at_git ?A) (start_sync W E req (request_mode req) source) (\<lambda>_. at_git ?S) (\<lambda>_. at_git ?S)"
      if m: "\<not> (request_mode req = ''continue'' \<or> request_mode req = ''abort'')"
      by (rule upholds_weaken [OF start_upholds [OF c b]]) (use C [OF m] None in \<open>auto simp: at_git_def moved_within_def\<close>)
    show ?thesis unfolding p None option.case by (intro upholds_if stop [unfolded None] go [unfolded None])
  next
    case (Some plan)
    have C: "allowed_plan req (Some plan) plan" if "request_mode req = ''continue''" "sync_plan_ok plan"
      using that by (simp add: allowed_plan_def)
    have go: "upholds (at_git ?A) (resume_sync W E source plan (request_mode req = ''abort'')) (\<lambda>_. at_git ?S) (\<lambda>_. at_git ?S)"
      if m: "\<not> (request_mode req \<noteq> ''continue'' \<and> request_mode req \<noteq> ''abort'')"
    proof (cases "request_mode req = ''abort''")
      case True
      show ?thesis using abort [of plan] by (simp only: True refl)
    next
      case False
      then have cont: "request_mode req = ''continue''" using m by blast
      show ?thesis
        using resume_within [OF c b, of plan "allowed_plan req ?pending" r0 E] C [OF cont] by (simp only: False Some)
    qed
    show ?thesis unfolding p Some option.case by (intro upholds_if stop [unfolded Some] go [unfolded Some])
  qed
  show "upholds (\<lambda>y. at_git ?A y \<and> ss_pending st = ?pending) (?rest st) (\<lambda>_. at_git ?S) (\<lambda>_. at_git ?S)"
    by (cases "ss_pending st = ?pending") (use rest in \<open>auto simp: upholds_def\<close>)
qed

lemma sync_within:
  assumes acc: "repository_access W E (sq_selector req) True y = (Inr source, y1)"
    and c: "git_contract W (rs_git_dir source) V" and run: "repository_sync W E req y = (r, y')"
  shows "moved_within V (or_branch (rs_repository source)) (gv_refs V (sy_git y))
    (allowed_plan req (plan_in E (or_id (rs_repository source)) (sy_db y))) (sy_git y')"
proof -
  let ?b = "or_branch (rs_repository source)" and ?r0 = "gv_refs V (sy_git y)"
  let ?S = "moved_within V ?b ?r0 (allowed_plan req (plan_in E (or_id (rs_repository source)) (sy_db y)))"
  have y0: "at_git (intact_at V ?b ?r0) y" by (simp add: at_git_def intact_refl)
  have "keeps (at_git (intact_at V ?b ?r0)) (repository_access W E (sq_selector req) True)"
    by (rule sync_reads(3) [OF c intact_steady])
  then have y1: "at_git (intact_at V ?b ?r0) y1" using y0 acc by (simp add: keeps_iff) (metis snd_conv)
  have d1: "at_db (sy_db y) y1" using access_db [of "sy_db y" W E] acc by (simp add: keeps_iff at_db_def) (metis snd_conv)
  define after where "after = (act_bind (inspect_repository W E source) (\<lambda>st. case ss_pending st of
       Some plan \<Rightarrow>
         if request_mode req \<noteq> ''continue'' \<and> request_mode req \<noteq> ''abort'' then refuse ''repository reconciliation is pending''
         else resume_sync W E source plan (request_mode req = ''abort'')
     | None \<Rightarrow>
         if request_mode req = ''continue'' \<or> request_mode req = ''abort'' then refuse ''repository has no pending reconciliation''
         else start_sync W E req (request_mode req) source))"
  have up: "upholds (\<lambda>y. at_git (intact_at V ?b ?r0) y \<and> at_db (sy_db y') y) after (\<lambda>_. at_git ?S) (\<lambda>_. at_git ?S)" if "sy_db y' = sy_db y" for y'
    unfolding after_def that by (rule after_inspection [OF c refl])
  have "at_git ?S (snd (after y1))"
    using upholds_Inl [OF up [OF refl], of y1] upholds_Inr [OF up [OF refl], of y1] y1 d1
    by (cases "after y1"; cases "fst (after y1)") auto
  moreover have "repository_sync W E req y \<in> {(Inl e, y) |e. True} \<union> {after y1}"
    unfolding repository_sync_def Let_def request_mode_def [symmetric]
    by (auto simp: act_bind_def acc refuse_def act_fail_def after_def)
  moreover have "at_git ?S y" using y0 by (simp add: at_git_def intact_within)
  ultimately have "at_git ?S (snd (repository_sync W E req y))" by auto
  then show ?thesis using run by (simp add: at_git_def)
qed

section \<open>A concrete repository\<close>

text \<open>A small Git, which answers a table of reading commands and keeps a map of references, and a database with a fast-forward
  written down as a plan.\<close>

definition demo_old :: string where "demo_old = ''aaaaaaaaaaaaaaaaaaaaaaaaaaaaaaaaaaaaaaaa''"
definition demo_up :: string where "demo_up = ''bbbbbbbbbbbbbbbbbbbbbbbbbbbbbbbbbbbbbbbb''"
definition demo_store :: string where "demo_store = ''/d/repositories/01ARZ3NDEKTSV4RRFFQ69G5FAV.git''"

type_synonym ref_map = "string \<Rightarrow> string option"

definition demo_answers :: "(string list \<times> string) list" where
  "demo_answers =
    [([''check-ref-format'', ''refs/heads/main''], ''''),
     ([''rev-parse'', ''--is-bare-repository''], ''true''),
     ([''rev-parse'', ''--absolute-git-dir''], demo_store),
     ([''rev-parse'', ''--path-format=absolute'', ''--git-common-dir''], demo_store),
     ([''rev-parse'', ''--verify'', demo_old @ ''^{tree}''], ''t''),
     ([''rev-parse'', ''--verify'', demo_up @ ''^{tree}''], ''u''),
     ([''worktree'', ''list'', ''--porcelain''], ''''),
     ([''config'', ''--local'', ''--includes'', ''--null'', ''--get-all'', ''branch.main.remote''], ''origin'' @ [nul_char]),
     ([''config'', ''--local'', ''--includes'', ''--null'', ''--get-all'', ''branch.main.merge''], ''refs/heads/main'' @ [nul_char]),
     ([''config'', ''--local'', ''--includes'', ''--null'', ''--get-all'', ''remote.origin.url''], ''/up'' @ [nul_char]),
     ([''for-each-ref'', ''--format=%(upstream)'', ''refs/heads/main''], ''refs/remotes/origin/main''),
     ([''show-ref'', ''--verify'', ''--quiet'', ''refs/remotes/origin/main''], ''''),
     ([''remote'', ''get-url'', ''--'', ''origin''], ''/up''),
     ([''rev-list'', ''--left-right'', ''--count'', demo_old @ ''...'' @ demo_up], ''0 1''),
     ([''rev-list'', ''--left-right'', ''--count'', demo_old @ ''...'' @ demo_old], ''0 0''),
     ([''rev-list'', ''--left-right'', ''--count'', demo_up @ ''...'' @ demo_up], ''0 0''),
     ([''merge-base'', ''--is-ancestor'', demo_old, demo_up], ''''),
     ([''merge-base'', ''--is-ancestor'', demo_up, demo_up], '''')]"

definition demo_swap :: "string \<Rightarrow> string \<Rightarrow> string \<Rightarrow> ref_map \<Rightarrow> (int option \<times> string, string) result \<times> ref_map" where
  "demo_swap ref new old w = (if w ref = ref_value old then (Inr [], w(ref := ref_value new)) else (Inl (Some 1, []), w))"

definition demo_lookup :: "string list \<Rightarrow> ref_map \<Rightarrow> (int option \<times> string, string) result" where
  "demo_lookup args w =
     (if take 2 args = [''rev-parse'', ''--verify'']
      then (case w (trim_suffix (last args) ''^{commit}'') of
          Some s \<Rightarrow> if trim_space s = s then Inr s else Inl (Some 1, [])
        | None \<Rightarrow> Inl (Some 128, []))
      else Inl (Some 1, []))"

definition demo_git :: "string \<Rightarrow> string list \<Rightarrow> (ref_map, int option \<times> string, string) action" where
  "demo_git dir args w =
     (case map_of demo_answers args of
        Some out \<Rightarrow> (Inr out, w)
      | None \<Rightarrow>
          if take 1 args = [''update-ref''] then demo_swap (rev args ! 2) (rev args ! 1) (rev args ! 0) w
          else if take 1 args = [''fetch''] then (Inr [], w(''refs/remotes/origin/main'' := Some demo_up))
          else (demo_lookup args w, w))"

definition demo_outside :: "ref_map outside" where
  "demo_outside = \<lparr>ow_git = demo_git,
     ow_lstat = (\<lambda>p w. if p = demo_store \<or> p = demo_store @ ''/objects'' \<or> p = demo_store @ ''/refs'' then Directory else Missing),
     ow_stat = (\<lambda>p w. Missing), ow_symlink_in = (\<lambda>p w. Inr None), ow_real_path = (\<lambda>p w. Inr p),
     ow_same_file = (\<lambda>a b w. a = b), ow_make_dirs = (\<lambda>p w. (Inr (), w)), ow_lock = (\<lambda>b p w. Inr True),
     ow_cwd = ''/'', ow_url = (\<lambda>u. None), ow_url_password = (\<lambda>u. Inr False)\<rparr>"

definition demo_env :: "(string \<times> stored) list sync_env" where
  "demo_env = \<lparr>se_bolt = list_bolt, se_root = ''/d'', se_id = (\<lambda>n. Inr (''01ARZ3NDEKTSV4RRFFQ69G5FA'' @ [char_of (65 + n)])),
     se_now = (\<lambda>n. 7), se_fault = (\<lambda>n. None)\<rparr>"

definition demo_repo :: owned_repository where
  "demo_repo = \<lparr>or_id = ''01ARZ3NDEKTSV4RRFFQ69G5FAV'', or_name = ''core'', or_branch = ''main'', or_created_at = 5, or_archived = False\<rparr>"

definition demo_refs :: ref_map where
  "demo_refs = [''refs/heads/main'' \<mapsto> demo_old, ''refs/remotes/origin/main'' \<mapsto> demo_up]"

definition demo_up_remote :: repo_upstream where
  "demo_up_remote = \<lparr>ru_url = ''/up'', ru_branch = ''main'', ru_remote = ''origin'', ru_tracking_ref = ''refs/remotes/origin/main''\<rparr>"

definition demo_plan :: sync_plan where
  "demo_plan = \<lparr>sp_id = ''01ARZ3NDEKTSV4RRFFQ69G5FAW'', sp_mode = ''ff'', sp_phase = ''prepared'', sp_old = demo_old,
     sp_upstream_sha = demo_up, sp_new = demo_up, sp_recovery_ref = recovery_prefix @ ''01ARZ3NDEKTSV4RRFFQ69G5FAW'',
     sp_upstream = Some demo_up_remote\<rparr>"

definition demo_world :: "(ref_map, (string \<times> stored) list) sync_world" where
  "demo_world = \<lparr>sy_git = demo_refs,
     sy_db = \<lparr>db_tx = put_projection list_bolt repository_sync_projection (or_id demo_repo) (StSyncPlan demo_plan)
         (put_projection list_bolt repository_projection (or_id demo_repo) (StRepository demo_repo) list_tx),
       db_changes = new_change_log ''k''\<rparr>, sy_tick = 0\<rparr>"

definition demo_request :: sync_request where
  "demo_request = \<lparr>sq_selector = ''core'', sq_mode = ''continue'', sq_confirm_reset = False, sq_expected_local = [], sq_expected_upstream = []\<rparr>"


lemma demo_list_get: "get_projection list_bolt name k (db_tx (sy_db demo_world)) =
   (if name = repository_sync_projection \<and> k = or_id demo_repo then Some (StSyncPlan demo_plan)
    else if name = repository_projection \<and> k = or_id demo_repo then Some (StRepository demo_repo) else None)"
proof -
  have "tx_ok kv_ok (put_projection list_bolt repository_projection (or_id demo_repo) (StRepository demo_repo) list_tx)"
    using list_tx_ok by (rule list_events.tx_ok_put(4))
  from list_events.get_put_projection [OF this] list_events.get_put_projection [OF list_tx_ok]
  show ?thesis by (auto simp: demo_world_def) (auto simp: get_projection_def new_tx_def)
qed

lemma demo_repos: "list_repositories list_bolt (db_tx (sy_db demo_world)) = Inr [demo_repo]"
  by (simp add: list_repositories_def demo_world_def list_projection_def put_projection_def set_projection_def
      projection_bucket_def new_tx_def demo_repo_def normalize_owned_repository_def go_eval
      valid_id_def id_char_def valid_repository_name_def name_start_char_def validate_repository_branch_def bad_branch_part_def
      branch_special_def has_prefix_def has_suffix_def is_zero_time_def zero_time_def
      contains_string.simps is_ok.simps)

lemma demo_source: "repository_source demo_env sel demo_world =
   (if sel = or_id demo_repo \<or> sel = ''core''
    then (Inr \<lparr>rs_repository = demo_repo, rs_git_dir = demo_store, rs_pending = True\<rparr>, demo_world)
    else (Inl (SyncRefused (''unknown repository '' @ sel)), demo_world))"
  by (auto simp: repository_source_def demo_env_def act_bind_def on_db_def demo_repos demo_repo_def refuse_def act_fail_def
    owned_git_dir_def valid_id_def id_char_def is_abs_def path_join_def path_clean_def demo_store_def read_plan_def read_projection_def
    demo_list_get act_return_def)

lemma demo_outside_simps [simp]:
  "ow_git demo_outside = demo_git" "ow_stat demo_outside = (\<lambda>p w. Missing)" "ow_symlink_in demo_outside = (\<lambda>p w. Inr None)"
  "ow_real_path demo_outside = (\<lambda>p w. Inr p)" "ow_lock demo_outside = (\<lambda>b p w. Inr True)" "ow_url demo_outside = (\<lambda>u. None)"
  "ow_url_password demo_outside = (\<lambda>u. Inr False)"
  "ow_lstat demo_outside = (\<lambda>p w. if p = demo_store \<or> p = demo_store @ ''/objects'' \<or> p = demo_store @ ''/refs'' then Directory else Missing)"
  by (simp_all add: demo_outside_def)

lemmas demo_run = demo_git_def demo_lookup_def demo_swap_def demo_answers_def git_trimmed_def git_output_def git_run_def git_decides_def act_bind_def act_return_def
  act_try_def act_check_def act_ask_def act_fail_def act_lift_def

lemma demo_validate:
  assumes "w ''refs/heads/main'' = Some s" and "trim_space s = s"
  shows "validate_bare demo_outside demo_store ''main'' allow w = (Inr (), w)"
  using assms
  by (simp add: validate_bare_def require_directory_def require_same_path_def list_worktrees_def demo_run
    demo_store_def path_join_def path_clean_def is_abs_def go_eval parse_worktree_list_def split_string.simps trim_suffix_def has_suffix_def
    has_prefix_def demo_old_def demo_up_def)

definition demo_source_record :: repo_source where
  "demo_source_record = \<lparr>rs_repository = demo_repo, rs_git_dir = demo_store, rs_pending = True\<rparr>"

lemma demo_source_simps [simp]: "rs_repository demo_source_record = demo_repo" "rs_git_dir demo_source_record = demo_store"
  "or_branch demo_repo = ''main''" "or_name demo_repo = ''core''" "or_id demo_repo = ''01ARZ3NDEKTSV4RRFFQ69G5FAV''"
  by (simp_all add: demo_source_record_def demo_repo_def)

lemma demo_spaces: "trim_space demo_old = demo_old" "trim_space demo_up = demo_up" "trim_space demo_store = demo_store"
  by (simp_all add: demo_old_def demo_up_def demo_store_def go_eval)

lemma demo_access: "repository_access demo_outside demo_env ''core'' True demo_world = (Inr demo_source_record, demo_world)"
proof -
  have v: "validate_bare demo_outside demo_store ''main'' True (sy_git demo_world) = (Inr (), sy_git demo_world)"
    by (rule demo_validate [of _ demo_old]) (simp_all add: demo_world_def demo_refs_def demo_spaces)
  show ?thesis
    by (simp add: repository_access_def act_bind_def demo_source [unfolded demo_source_record_def [symmetric]] on_git_unfold require_directory_def act_ask_def ask_git_def
      act_return_def validate_owned_bare_observation_def v)
qed

lemmas branch_eval = validate_repository_branch_def bad_branch_part_def branch_special_def has_prefix_def has_suffix_def
    contains_string.simps go_eval

lemma demo_branches: "validate_repository_branch ''main'' = Inr ()" "validate_repository_branch ''origin'' = Inr ()"
  "validate_repository_branch ''origin/main'' = Inr ()"
  by (simp_all add: branch_eval)

lemma demo_url: "validate_repository_source demo_outside ''/up'' = Inr ()"
  by (simp add: validate_repository_source_def sanitize_remote_url_def has_control_def is_control_def go_eval contains_scheme_def sublist_code Let_def)

lemma demo_upstream_ok: "upstream_validate demo_outside demo_up_remote = Inr ()"
  by (simp add: upstream_validate_def demo_up_remote_def simple_remote_def branch_ok_def demo_branches tracking_ref_ok_def has_prefix_def
    trim_prefix_def is_abs_def demo_url)

lemma demo_upstream: "branch_upstream demo_outside demo_store ''main'' w = (Inr (Some demo_up_remote), w)"
  using demo_upstream_ok
  by (simp add: branch_upstream_def demo_branches tracking_value_def demo_run nul_char_def trim_suffix_def has_suffix_def has_prefix_def
    simple_remote_def branch_ok_def is_abs_def tracking_ref_ok_def trim_prefix_def go_eval demo_up_remote_def Let_def)

lemma demo_world_simps [simp]: "sy_git demo_world = demo_refs" "demo_world\<lparr>sy_git := demo_refs\<rparr> = demo_world"
  "se_bolt demo_env = list_bolt"
  by (simp_all add: demo_world_def demo_env_def)

lemma demo_rev_parse:
  "w ''refs/heads/main'' = Some s \<Longrightarrow> trim_space s = s \<Longrightarrow> rev_parse demo_outside demo_store ''refs/heads/main^{commit}'' w = (Inr s, w)"
  "w ''refs/remotes/origin/main'' = Some s \<Longrightarrow> trim_space s = s \<Longrightarrow>
     rev_parse demo_outside demo_store ''refs/remotes/origin/main^{commit}'' w = (Inr s, w)"
  by (simp_all add: rev_parse_def demo_run trim_suffix_def has_suffix_def has_prefix_def demo_old_def demo_up_def)

lemma demo_compare: "compare_tips demo_outside demo_store st w =
  (Inr (st\<lparr>ss_state := ''behind'', ss_ahead := 0, ss_behind := 1, ss_local_only := [], ss_equal_trees := False\<rparr>), w)"
  if "ss_local st = demo_old" "ss_upstream_sha st = demo_up"
  using that
  by (simp add: compare_tips_def ahead_behind_def equal_trees_def rev_parse_def demo_run demo_old_def demo_up_def go_eval fields_of_def
    chunks_ascii parse_int64_def digits_value_def is_digit_def sync_state_def)

lemma demo_inspect:
  "\<exists>st. inspect_repository demo_outside demo_env demo_source_record demo_world = (Inr st, demo_world) \<and> ss_pending st = Some demo_plan"
proof -
  have r: "demo_refs ''refs/heads/main'' = Some demo_old" "demo_refs ''refs/remotes/origin/main'' = Some demo_up"
    by (simp_all add: demo_refs_def)
  have ref: "upstream_ref demo_up_remote = ''refs/remotes/origin/main''" by (simp add: upstream_ref_def demo_up_remote_def)
  have there: "reference_exists demo_outside demo_store ''refs/remotes/origin/main'' w = (Inr True, w)" for w
    by (simp add: reference_exists_def demo_run)
  have p: "read_plan demo_env ''01ARZ3NDEKTSV4RRFFQ69G5FAV'' demo_world = (Inr (Some demo_plan), demo_world)"
    "read_fetch demo_env ''01ARZ3NDEKTSV4RRFFQ69G5FAV'' demo_world = (Inr None, demo_world)"
    by (simp_all add: read_plan_def read_fetch_def on_db_def read_projection_def demo_list_get)
  show ?thesis
    by (simp add: inspect_repository_def inspect_upstream_def act_bind_def act_try_def act_return_def on_git_unfold demo_upstream Let_def
      resolve_branch_sha_def trim_both_def go_eval demo_rev_parse(1) [where w = demo_refs, OF r(1)] demo_rev_parse(2) [where w = demo_refs, OF r(2)] demo_spaces p ref there demo_compare)
qed

definition demo_view :: "ref_map git_view" where
  "demo_view = \<lparr>gv_refs = (\<lambda>w. w), gv_ancestor = (\<lambda>a b. a = b \<or> a = demo_old \<and> b = demo_up), gv_detached = (\<lambda>p w. True)\<rparr>"

lemma demo_view_simps [simp]: "gv_refs demo_view = (\<lambda>w. w)" "gv_detached demo_view = (\<lambda>p w. True)"
  "gv_ancestor demo_view a b \<longleftrightarrow> a = b \<or> a = demo_old \<and> b = demo_up" "calm demo_view w w' \<longleftrightarrow> w' = w"
  by (simp_all add: demo_view_def calm_def)

lemma demo_git_reads: "take 1 args \<noteq> [''update-ref''] \<Longrightarrow> take 1 args \<noteq> [''fetch''] \<Longrightarrow> snd (demo_git dir args w) = w"
  by (simp add: demo_git_def split: option.split)

lemma reading_first: "reading_command args \<Longrightarrow> take 1 args \<noteq> [''update-ref''] \<and> take 1 args \<noteq> [''fetch'']"
  by (cases args; cases "tl args") (simp_all add: reading_command_def, auto)

lemma demo_merge_base: "demo_git dir [''merge-base'', ''--is-ancestor'', a, b] w = (Inr out, w') \<Longrightarrow>
   (a = b \<or> a = demo_old \<and> b = demo_up) \<and> b \<noteq> zeros b"
  by (auto simp: demo_git_def demo_lookup_def demo_answers_def split: if_splits) (simp_all add: demo_up_def zeros_def)

lemma demo_contract: "git_contract demo_outside demo_store demo_view"
proof -
  have "reading_law demo_outside demo_store demo_view"
    unfolding reading_law_def
  proof (intro conjI allI impI)
    show "calm demo_view w (snd (ow_git demo_outside dir args w))" if "reading_command args" for dir args w
      using reading_first [OF that] by (simp add: demo_git_reads)
    show "gv_refs demo_view w (''refs/'' @ name) = Some (trim_space out)"
      if "ow_git demo_outside demo_store [''rev-parse'', ''--verify'', ''refs/'' @ name @ ''^{commit}''] w = (Inr out, w')" for name w out w'
      using that by (auto simp: demo_git_def demo_lookup_def demo_answers_def demo_old_def demo_up_def trim_suffix_def has_suffix_def has_prefix_def
        split: option.splits if_splits)
  qed (use demo_merge_base in auto)
  moreover have "update_law demo_outside demo_store demo_view"
    by (simp add: update_law_def swaps_def demo_git_def demo_answers_def demo_swap_def)
  moreover have "fetch_law demo_outside demo_view"
    by (auto simp: fetch_law_def demo_git_def demo_answers_def has_prefix_def Let_def)
  moreover have "checkout_law demo_outside demo_view"
    by (auto simp: checkout_law_def demo_git_reads demo_outside_def)
  ultimately show ?thesis by (simp add: git_contract_def)
qed

definition demo_protected :: ref_map where
  "demo_protected = demo_refs(recovery_prefix @ sp_id demo_plan := Some demo_old)"

definition demo_moved :: ref_map where
  "demo_moved = demo_protected(''refs/heads/main'' := Some demo_up)"

lemma demo_ref_values: "ref_value demo_old = Some demo_old" "ref_value demo_up = Some demo_up" "ref_value (zeros s) = None"
  by (simp_all add: ref_value_def zeros_def demo_old_def demo_up_def)

lemma demo_plan_simps [simp]: "sp_mode demo_plan = ''ff''" "sp_phase demo_plan = ''prepared''" "sp_old demo_plan = demo_old"
  "sp_new demo_plan = demo_up" "sp_upstream_sha demo_plan = demo_up" "sp_upstream demo_plan = Some demo_up_remote"
  "sp_recovery_ref demo_plan = ''refs/wi/recovery/repository-sync/01ARZ3NDEKTSV4RRFFQ69G5FAW''"
  "recovery_prefix @ sp_id demo_plan = ''refs/wi/recovery/repository-sync/01ARZ3NDEKTSV4RRFFQ69G5FAW''"
  by (simp_all add: demo_plan_def recovery_prefix_def)

lemma demo_ok: "sync_plan_ok demo_plan"
  by (simp add: sync_plan_ok_def valid_commit_sha_def hex_char_def demo_old_def demo_up_def) (simp add: demo_plan_def valid_id_def id_char_def recovery_prefix_def)

lemma demo_steps:
  "update_ref demo_outside demo_store ''refs/heads/main'' demo_up demo_old m demo_protected = (Inr (), demo_moved)"
  "recovery_ref demo_outside demo_store ''refs/wi/recovery/repository-sync/01ARZ3NDEKTSV4RRFFQ69G5FAW'' demo_old demo_refs = (Inr (), demo_protected)"
  by (simp_all add: update_ref_def recovery_ref_def demo_run demo_ref_values demo_protected_def demo_moved_def demo_refs_def)

lemma demo_no_backup: "\<exists>e. rev_parse demo_outside demo_store ''refs/wi/recovery/repository-sync/01ARZ3NDEKTSV4RRFFQ69G5FAW^{commit}'' demo_refs = (Inl e, demo_refs)"
  by (simp add: rev_parse_def demo_run trim_suffix_def has_suffix_def has_prefix_def demo_old_def demo_up_def demo_refs_def)

lemma demo_ancestors: "is_ancestor demo_outside demo_store demo_old demo_up w = (Inr True, w)"
  "is_ancestor demo_outside demo_store demo_up demo_up w = (Inr True, w)"
  by (simp_all add: is_ancestor_def demo_run demo_old_def demo_up_def)

lemma demo_idle: "ensure_repository_idle demo_outside E demo_source_record skip y = (Inr (), y)"
  by (simp add: ensure_repository_idle_def on_git_unfold list_worktrees_def demo_run parse_worktree_list_def go_eval split_string.simps)

lemma demo_distinct: "demo_old \<noteq> demo_up" "demo_old \<noteq> []" "demo_up \<noteq> []"
  by (simp_all add: demo_old_def demo_up_def)

lemma demo_resume: "sy_git (snd (resume_sync demo_outside demo_env demo_source_record demo_plan False demo_world)) = demo_moved"
proof -
  have r: "demo_refs ''refs/heads/main'' = Some demo_old" by (simp add: demo_refs_def)
  have p: "demo_protected ''refs/heads/main'' = Some demo_old" by (simp add: demo_protected_def demo_refs_def)
  have resumed: "resumed demo_plan demo_old = demo_plan" by (simp add: resumed_def demo_distinct)
  obtain e where b: "rev_parse demo_outside demo_store ''refs/wi/recovery/repository-sync/01ARZ3NDEKTSV4RRFFQ69G5FAW^{commit}'' demo_refs = (Inl e, demo_refs)"
    using demo_no_backup by blast
  let ?w = "demo_world\<lparr>sy_git := demo_moved\<rparr>"
  let ?rest = "act_bind (act_wrap (SyncContext ''integration updated; finish with --continue'')
      (save_sync_plan demo_env (or_id demo_repo) (demo_plan\<lparr>sp_phase := ''applied''\<rparr>)))
    (\<lambda>_. finish_sync demo_outside demo_env demo_source_record [] demo_plan)"
  have st: "steady demo_view (\<lambda>w. w = demo_moved)" by (simp add: steady_def)
  have "keeps (at_git (\<lambda>w. w = demo_moved)) ?rest"
    by (intro keeps_intros finish_keeps [where source = demo_source_record, simplified, OF demo_contract st])
  then have rest: "sy_git (snd (?rest ?w)) = demo_moved" by (simp add: keeps_iff at_git_def)
  have "resume_sync demo_outside demo_env demo_source_record demo_plan False demo_world = ?rest ?w"
    by (simp add: resume_sync_def demo_ok act_bind_def on_git_unfold demo_rev_parse(1) [where w = demo_refs, OF r] demo_spaces resumed demo_idle
      act_return_def complete_sync_def protect_tip_def act_try_def b demo_steps check_target_def act_when_def require_ancestor_def demo_ancestors
      act_check_def apply_plan_def demo_upstream validate_owned_bare_def demo_validate [where w = demo_protected, OF p] Let_def demo_distinct)
  then show ?thesis using rest by simp
qed

lemma demo_sync: "sy_git (snd (repository_sync demo_outside demo_env demo_request demo_world)) = demo_moved"
proof -
  obtain st where st: "inspect_repository demo_outside demo_env demo_source_record demo_world = (Inr st, demo_world)" "ss_pending st = Some demo_plan"
    using demo_inspect by blast
  have "repository_sync demo_outside demo_env demo_request demo_world = resume_sync demo_outside demo_env demo_source_record demo_plan False demo_world"
    by (simp add: repository_sync_def demo_request_def act_bind_def demo_access st Let_def)
  then show ?thesis using demo_resume by simp
qed

section \<open>The theorems\<close>

definition history_kept ::
  "(string \<Rightarrow> string \<Rightarrow> bool) \<Rightarrow> string \<Rightarrow> bool \<Rightarrow> (string \<Rightarrow> string option) \<Rightarrow> (string \<Rightarrow> string option) \<Rightarrow> bool" where
  "history_kept ancestor tip resets r0 r \<longleftrightarrow> others_kept tip r0 r
     \<and> (r tip = r0 tip \<or> (\<exists>old i. r0 tip = Some old \<and> r (recovery_prefix @ i) = Some old
          \<and> (resets \<or> (\<exists>new. r tip = Some new \<and> ancestor old new))))"

definition resets_history :: "sync_request \<Rightarrow> sync_plan option \<Rightarrow> bool" where
  "resets_history req pending \<longleftrightarrow> request_mode req = ''reset'' \<or> (\<exists>p. pending = Some p \<and> sp_mode p = ''reset'')"

text \<open>C20: Whatever a synchronization does and at whatever step it fails, the branch stays where it was or its old tip is
  kept under a recovery reference; only a reset moves the branch to a commit that does not descend from the old tip. Every
  other reference outside the remote-tracking ones stays as it was.\<close>

theorem sync_keeps_history:
  assumes "repository_access W E (sq_selector req) True y = (Inr source, y1)"
    and "git_contract W (rs_git_dir source) V" and "repository_sync W E req y = (r, y')"
  shows "history_kept (gv_ancestor V) (branch_ref (or_branch (rs_repository source)))
    (resets_history req (plan_in E (or_id (rs_repository source)) (sy_db y))) (gv_refs V (sy_git y)) (gv_refs V (sy_git y'))"
proof -
  let ?tip = "branch_ref (or_branch (rs_repository source))"
  let ?pending = "plan_in E (or_id (rs_repository source)) (sy_db y)"
  have w: "others_kept ?tip (gv_refs V (sy_git y)) (gv_refs V (sy_git y'))"
    "gv_refs V (sy_git y') ?tip = gv_refs V (sy_git y) ?tip \<or>
     (\<exists>plan. allowed_plan req ?pending plan \<and> moved_by (gv_ancestor V) ?tip (gv_refs V (sy_git y)) plan (gv_refs V (sy_git y')))"
    using sync_within [OF assms] by (simp_all add: moved_within_def)
  have rec: "\<exists>i. sp_recovery_ref plan = recovery_prefix @ i" if "allowed_plan req ?pending plan" for plan
    using that sync_plan_ok_facts(1) [of plan] by (auto simp: allowed_plan_def started_by_def split: if_splits)
  have mode: "resets_history req ?pending" if "allowed_plan req ?pending plan" "sp_mode plan = ''reset''" for plan
    using that unfolding allowed_plan_def resets_history_def started_by_def by (metis (no_types))
  show ?thesis
    unfolding history_kept_def
  proof (intro conjI w(1), use w(2) in \<open>elim disjE exE conjE\<close>)
    fix plan assume a: "allowed_plan req ?pending plan"
      and m: "moved_by (gv_ancestor V) ?tip (gv_refs V (sy_git y)) plan (gv_refs V (sy_git y'))"
    obtain i where i: "sp_recovery_ref plan = recovery_prefix @ i" using rec [OF a] by blast
    have "sp_mode plan = ''reset'' \<longrightarrow> resets_history req ?pending" using mode [OF a] by blast
    then have "\<exists>old i. gv_refs V (sy_git y) ?tip = Some old \<and> gv_refs V (sy_git y') (recovery_prefix @ i) = Some old
        \<and> (resets_history req ?pending \<or> (\<exists>new. gv_refs V (sy_git y') ?tip = Some new \<and> gv_ancestor V old new))"
      using m i unfolding moved_by_def by metis
    then show "gv_refs V (sy_git y') ?tip = gv_refs V (sy_git y) ?tip \<or> (\<exists>old i. gv_refs V (sy_git y) ?tip = Some old \<and>
        gv_refs V (sy_git y') (recovery_prefix @ i) = Some old
        \<and> (resets_history req ?pending \<or> (\<exists>new. gv_refs V (sy_git y') ?tip = Some new \<and> gv_ancestor V old new)))" ..
  qed simp
qed

theorem sync_keeps_history_witness:
  "\<exists>r y'. repository_sync demo_outside demo_env demo_request demo_world = (r, y')
     \<and> sy_git y' ''refs/heads/main'' = Some demo_up
     \<and> history_kept (gv_ancestor demo_view) (branch_ref ''main'') (resets_history demo_request (plan_in demo_env (or_id demo_repo) (sy_db demo_world)))
         demo_refs (sy_git y')"
proof -
  obtain r y' where run: "repository_sync demo_outside demo_env demo_request demo_world = (r, y')" by fastforce
  have "sy_git (snd (repository_sync demo_outside demo_env demo_request demo_world)) = demo_moved" by (rule demo_sync)
  then have "sy_git y' ''refs/heads/main'' = Some demo_up" by (simp add: run demo_moved_def)
  moreover have "repository_access demo_outside demo_env (sq_selector demo_request) True demo_world = (Inr demo_source_record, demo_world)"
    using demo_access by (simp add: demo_request_def)
  moreover have "git_contract demo_outside (rs_git_dir demo_source_record) demo_view" using demo_contract by simp
  ultimately show ?thesis using sync_keeps_history [OF _ _ run] run by fastforce
qed





end
