(* ===== verification/MergeRules.thy ===== *)
theory MergeRules
  imports Merge SyncSafety
begin

text \<open>
  Hoare rules of a merge (\<open>internal/app/integration_merge.go\<close>, modelled in \<open>Merge\<close>): what it relies on of Git beyond
  \<open>git_contract\<close>, the state of its transaction, and what each step of the transaction and of the rollback keeps of it.
\<close>

section \<open>What a merge relies on\<close>

text \<open>Besides the references: the branch that is checked out in a directory, and the branch that the abort of a rebase
  stopped there goes back to.\<close>

record 'w merge_view =
  mv_base :: "'w git_view"
  mv_attached :: "string \<Rightarrow> 'w \<Rightarrow> string option"
  mv_rebasing :: "string \<Rightarrow> 'w \<Rightarrow> string option"

definition mv_refs :: "'w merge_view \<Rightarrow> 'w \<Rightarrow> string \<Rightarrow> string option" where
  "mv_refs X = gv_refs (mv_base X)"

definition quiet_outside :: "'w merge_view \<Rightarrow> string set \<Rightarrow> 'w \<Rightarrow> 'w \<Rightarrow> bool" where
  "quiet_outside X D w w' \<longleftrightarrow> calm (mv_base X) w w'
     \<and> (\<forall>p. p \<notin> D \<longrightarrow> mv_attached X p w' = mv_attached X p w \<and> mv_rebasing X p w' = mv_rebasing X p w)"

abbreviation quiet :: "'w merge_view \<Rightarrow> 'w \<Rightarrow> 'w \<Rightarrow> bool" where
  "quiet X \<equiv> quiet_outside X {}"

text \<open>No branch is checked out in a directory, and none is to come back.\<close>

definition isolated :: "'w merge_view \<Rightarrow> string \<Rightarrow> 'w \<Rightarrow> bool" where
  "isolated X p w \<longleftrightarrow> gv_detached (mv_base X) p w \<and> mv_rebasing X p w = None"

definition merge_reading :: "string list \<Rightarrow> bool" where
  "merge_reading args \<longleftrightarrow> reading_command args
     \<or> args \<noteq> [] \<and> (hd args \<in> {''ls-files'', ''diff'', ''update-index''}
       \<or> take 2 args = [''symbolic-ref'', ''--short''] \<or> take 3 args = [''-c'', ''submodule.recurse=false'', ''read-tree''])"

text \<open>What is checked out in a directory, and what \<open>HEAD\<close> names there. The markers of an operation tell a stopped rebase.\<close>

definition head_law :: "'w outside \<Rightarrow> 'w merge_view \<Rightarrow> bool" where
  "head_law W X \<longleftrightarrow>
     (\<forall>dir args w. merge_reading args \<longrightarrow> quiet X w (snd (ow_git W dir args w)))
     \<and> (\<forall>dir w out w'. ow_git W dir [''branch'', ''--show-current''] w = (Inr out, w') \<longrightarrow> trim_space out \<noteq> [] \<longrightarrow>
          mv_attached X dir w = Some (trim_space out))
     \<and> (\<forall>dir b w out w'. ow_git W dir [''rev-parse'', ''--verify'', ''HEAD^{commit}''] w = (Inr out, w') \<longrightarrow>
          mv_attached X dir w = Some b \<longrightarrow> mv_refs X w (branch_ref b) = Some (trim_space out) \<and> valid_commit_sha (trim_space out))
     \<and> (\<forall>dir what w w'. ensure_no_operation W dir what w = (Inr (), w') \<longrightarrow> mv_rebasing X dir w = None)
     \<and> (\<forall>dir message ref new old w p. mv_attached X p (snd (ow_git W dir [''update-ref'', ''-m'', message, ref, new, old] w)) = mv_attached X p w)"

text \<open>A temporary checkout: adding it, rebasing in it without hooks and without updating other branches, and removing it move
  no branch and touch no other checkout.\<close>

definition snapshot_law :: "'w outside \<Rightarrow> 'w merge_view \<Rightarrow> bool" where
  "snapshot_law W X \<longleftrightarrow>
     (\<forall>dir path sha w. quiet_outside X {path} w
        (snd (ow_git W dir [''-c'', ''core.hooksPath=/dev/null'', ''worktree'', ''add'', ''--detach'', ''--'', path, sha] w)))
     \<and> (\<forall>dir path sha w out w'. ow_git W dir [''-c'', ''core.hooksPath=/dev/null'', ''worktree'', ''add'', ''--detach'', ''--'', path, sha] w
          = (Inr out, w') \<longrightarrow> isolated X path w')
     \<and> (\<forall>path sha w. isolated X path w \<longrightarrow>
          (let w' = snd (ow_git W path [''-c'', ''core.hooksPath=/dev/null'', ''-c'', ''rebase.updateRefs=false'', ''-c'', ''core.editor=true'',
             ''rebase'', sha] w)
           in quiet_outside X {path} w w' \<and> isolated X path w'))
     \<and> (\<forall>dir path w. quiet_outside X {path} w (snd (ow_git W dir [''worktree'', ''remove'', ''--force'', path] w)))"

text \<open>A rebase of the branch checked out in a directory onto another branch leaves that other one and what is no branch where
  they are; it ends with the branch checked out, or stops, and then an abort goes back to it. A branch between the two can
  move, when \<open>rebase.updateRefs\<close> is configured. A hard reset moves the branch that is checked out.\<close>

definition rebase_law :: "'w outside \<Rightarrow> 'w merge_view \<Rightarrow> bool" where
  "rebase_law W X \<longleftrightarrow>
     (\<forall>dir b target w. mv_attached X dir w = Some b \<longrightarrow> mv_rebasing X dir w = None \<longrightarrow>
        (case ow_git W dir [''rebase'', ''refs/heads/'' @ target] w of (r, w') \<Rightarrow>
           (b \<noteq> target \<longrightarrow> mv_refs X w' (branch_ref target) = mv_refs X w (branch_ref target))
           \<and> (\<forall>ref. \<not> has_prefix ref ''refs/heads/'' \<longrightarrow> mv_refs X w' ref = mv_refs X w ref)
           \<and> (if is_ok r then mv_attached X dir w' = Some b
              else mv_attached X dir w' = Some b \<and> mv_rebasing X dir w' = None \<or> mv_rebasing X dir w' = Some b)))
     \<and> (\<forall>dir w. case ow_git W dir [''rebase'', ''--abort''] w of (r, w') \<Rightarrow>
          (case mv_rebasing X dir w of None \<Rightarrow> quiet X w w'
           | Some b \<Rightarrow> (\<forall>ref. ref \<noteq> branch_ref b \<longrightarrow> mv_refs X w' ref = mv_refs X w ref) \<and> (is_ok r \<longrightarrow> mv_attached X dir w' = Some b)))
     \<and> (\<forall>dir b sha w. mv_attached X dir w = Some b \<longrightarrow> valid_commit_sha sha \<longrightarrow>
          (case ow_git W dir [''reset'', ''--hard'', sha] w of (r, w') \<Rightarrow>
             (\<forall>ref. ref \<noteq> branch_ref b \<longrightarrow> mv_refs X w' ref = mv_refs X w ref) \<and> (is_ok r \<longrightarrow> mv_refs X w' (branch_ref b) = Some sha)
             \<and> mv_attached X dir w' = Some b))"

definition merge_contract :: "'w outside \<Rightarrow> string \<Rightarrow> 'w merge_view \<Rightarrow> bool" where
  "merge_contract W root X \<longleftrightarrow> git_contract W root (mv_base X) \<and> head_law W X \<and> snapshot_law W X \<and> rebase_law W X"

text \<open>The item store and the temporary directories are apart from the repository, and the item stays in it.\<close>

definition store_apart :: "('w, 'b) merge_env \<Rightarrow> 'w merge_view \<Rightarrow> string \<Rightarrow> string \<Rightarrow> bool" where
  "store_apart M X item root \<longleftrightarrow>
     (\<forall>i kind actor payload y. quiet X (sy_git y) (sy_git (snd (me_append M i kind actor payload y))))
     \<and> (\<forall>i y. quiet X (sy_git y) (sy_git (snd (me_load M i y))))
     \<and> (\<forall>y. quiet X (sy_git y) (sy_git (snd (me_temp M y))))
     \<and> (\<forall>p y. quiet X (sy_git y) (sy_git (snd (me_remove_all M p y))))
     \<and> (\<forall>y m y'. me_load M item y = (Inr m, y') \<longrightarrow> operational_root (m_repository m) = root)"

text \<open>The daemon's database has the repository of the item at this place and with this integration branch.\<close>

definition daemon_at :: "'w outside \<Rightarrow> 'b sync_env \<Rightarrow> string \<Rightarrow> string \<Rightarrow> string \<Rightarrow> 'b database \<Rightarrow> bool" where
  "daemon_at W E ident root branch d \<longleftrightarrow>
     (\<forall>y v y'. sy_db (y :: ('w, 'b) sync_world) = d \<longrightarrow> repository_source E ident y = (Inr v, y') \<longrightarrow> rs_git_dir v = root \<and> or_branch (rs_repository v) = branch)
     \<and> (\<forall>y v y'. sy_db (y :: ('w, 'b) sync_world) = d \<longrightarrow> repository_access W E ident True y = (Inr v, y') \<longrightarrow>
          rs_git_dir v = root \<and> or_branch (rs_repository v) = branch)"

section \<open>Rules\<close>

definition tame :: "'w merge_view \<Rightarrow> ('w \<Rightarrow> bool) \<Rightarrow> bool" where
  "tame X P \<longleftrightarrow> (\<forall>w w'. quiet X w w' \<longrightarrow> P w \<longrightarrow> P w')"

lemma tameD: "tame X P \<Longrightarrow> quiet X w w' \<Longrightarrow> P w \<Longrightarrow> P w'"
  by (simp add: tame_def)

lemma quiet_outside_refl: "quiet_outside X D w w"
  by (simp add: quiet_outside_def calm_def)

lemma quiet_refs: "quiet_outside X D w w' \<Longrightarrow> mv_refs X w' = mv_refs X w"
  by (simp add: quiet_outside_def calm_def mv_refs_def)

lemma steady_tame: "steady (mv_base X) P \<Longrightarrow> tame X P"
  by (auto simp: steady_def tame_def quiet_outside_def)

lemma contract_quiet: "merge_contract W root X \<Longrightarrow> merge_reading args \<Longrightarrow> quiet X w (snd (ow_git W dir args w))"
  by (simp add: merge_contract_def head_law_def)

lemma merge_keeps: "merge_contract W root X \<Longrightarrow> tame X P \<Longrightarrow> merge_reading args \<Longrightarrow> keeps P (git_output W dir args)"
  by (auto simp: keeps_iff snd_git_output intro: tameD contract_quiet)

lemma merge_reading_keeps: "merge_contract W root X \<Longrightarrow> tame X P \<Longrightarrow> reading_keeps W P"
  by (auto simp: reading_keeps_def merge_reading_def intro: merge_keeps)

lemma merge_reads:
  assumes "merge_contract W root X" and "tame X P"
  shows "keeps P (ensure_no_unmerged W dir)" and "keeps P (has_merge_source_changes W dir)" and "keeps P (status_paths W dir)"
    and "keeps P (diff_name_only W dir a b)" and "keeps P (update_index_refresh W dir)" and "keeps P (read_tree_merge_update W dir a b)"
    and "keeps P (target_worktree_for_branch W dir branch)" and "keeps P (default_branch W dir)"
proof -
  note k = keeps_intros merge_keeps [OF assms] stable_reads [OF merge_reading_keeps [OF assms]]
  show "keeps P (ensure_no_unmerged W dir)" unfolding ensure_no_unmerged_def by (intro k) (simp add: merge_reading_def)
  show "keeps P (has_merge_source_changes W dir)" unfolding has_merge_source_changes_def
    by (intro k) (simp add: merge_reading_def reading_command_def)
  show "keeps P (status_paths W dir)" unfolding status_paths_def by (intro k) (simp add: merge_reading_def reading_command_def)
  show "keeps P (diff_name_only W dir a b)" unfolding diff_name_only_def by (intro k) (simp add: merge_reading_def)
  show "keeps P (update_index_refresh W dir)" unfolding update_index_refresh_def by (intro k) (simp add: merge_reading_def)
  show "keeps P (read_tree_merge_update W dir a b)" unfolding read_tree_merge_update_def by (intro k) (simp add: merge_reading_def)
  show "keeps P (target_worktree_for_branch W dir branch)" unfolding target_worktree_for_branch_def by (intro k)
  have e: "keeps P (branch_exists W dir b)" for b
    unfolding branch_exists_def Let_def by (intro k) (simp add: merge_reading_def reading_command_def)
  have f: "keeps P (first_branch W dir bs)" for bs by (induction bs) (auto intro!: k e)
  show "keeps P (default_branch W dir)"
    unfolding default_branch_def Let_def by (intro k e f) (simp add: merge_reading_def)
qed


section \<open>Rules for the steps of a merge\<close>

text \<open>The post-condition of an error looks at the result it carries.\<close>

definition at_error :: "(merge_result \<Rightarrow> 'w \<Rightarrow> bool) \<Rightarrow> merge_result \<times> merge_error \<Rightarrow> ('w, 'b) sync_world \<Rightarrow> bool" where
  "at_error F re y \<longleftrightarrow> F (fst re) (sy_git y)"

lemma attempt_upholds:
  assumes "upholds (at_git P) m (\<lambda>x. at_git (Q x)) (\<lambda>_. at_git (F res))"
  shows "upholds (at_git P) (attempt res f m) (\<lambda>x. at_git (Q x)) (at_error F)"
proof (rule upholdsI)
  show "at_error F e y'" if "at_git P y" "attempt res f m y = (Inl e, y')" for y e y'
    using that upholds_Inl [OF assms, of y] by (auto simp: attempt_def at_error_def at_git_def split: prod.splits sum.splits)
  show "at_git (Q x) y'" if "at_git P y" "attempt res f m y = (Inr x, y')" for y x y'
    using that upholds_Inr [OF assms, of y] by (auto simp: attempt_def split: prod.splits sum.splits)
qed

lemma attempt_keeps:
  assumes "keeps (at_git P) m" and "\<And>w. P w \<Longrightarrow> F res w"
  shows "upholds (at_git P) (attempt res f m) (\<lambda>_. at_git P) (at_error F)"
  by (rule attempt_upholds, rule keeps_upholds [OF assms(1)]) (simp add: at_git_def assms(2))

lemma stop_upholds: "(\<And>w. P w \<Longrightarrow> F res w) \<Longrightarrow> upholds (at_git P) (stop res s) Q (at_error F)"
  unfolding stop_def by (rule upholds_fail) (simp add: at_git_def at_error_def)

lemma require_upholds: "(\<And>w. P w \<Longrightarrow> F res w) \<Longrightarrow> upholds (at_git P) (require c res s) (\<lambda>_. at_git P) (at_error F)"
  unfolding require_def by (rule upholds_check) (simp_all add: at_git_def at_error_def)

lemma require_tells: "(\<And>w. P w \<Longrightarrow> F res w) \<Longrightarrow> upholds (at_git P) (require c res s) (\<lambda>_. at_git (\<lambda>w. P w \<and> c)) (at_error F)"
  unfolding require_def by (rule upholds_check) (simp_all add: at_git_def at_error_def)

lemma look_upholds: "upholds (at_git P) (look f) (\<lambda>_. at_git P) E"
  unfolding look_def by (rule upholds_ask) (simp add: at_git_def)

lemma outcome_upholds:
  assumes "upholds (at_git P) m (\<lambda>x. at_git (Q x)) (\<lambda>_. at_git F)"
  shows "upholds (at_git P) (outcome m) (\<lambda>r. at_git (\<lambda>w. case r of Inl _ \<Rightarrow> F w | Inr x \<Rightarrow> Q x w)) E"
proof (rule upholdsI)
  show "at_git (\<lambda>w. case r of Inl _ \<Rightarrow> F w | Inr x \<Rightarrow> Q x w) y'" if "at_git P y" "outcome m y = (Inr r, y')" for y r y'
    using that upholds_Inl [OF assms, of y] upholds_Inr [OF assms, of y] by (auto simp: outcome_def at_git_def split: prod.splits sum.splits)
qed (auto simp: outcome_def split: prod.splits sum.splits)

lemma outcome_keeps: "keeps (at_git P) m \<Longrightarrow> upholds (at_git P) (outcome m) (\<lambda>_. at_git P) E"
  by (rule upholds_weaken [OF outcome_upholds [where P = P and Q = "\<lambda>_. P" and F = P]])
    (auto simp: keeps_def at_git_def split: sum.splits)

text \<open>A command whose world and answer are known.\<close>

lemma run_upholds:
  assumes "\<And>w. P w \<Longrightarrow> (if is_ok (fst (m w)) then Q (snd (m w)) else F (snd (m w)))"
  shows "upholds (at_git P) (on_git m) (\<lambda>_. at_git Q) (\<lambda>_. at_git F)"
  by (rule upholds_at_git) (use assms in \<open>auto split: sum.splits\<close>)

lemma store_apart_root: "store_apart M X item root \<Longrightarrow> me_load M item y = (Inr m, y') \<Longrightarrow> operational_root (m_repository m) = root"
  unfolding store_apart_def by blast

lemma store_apart_quiet:
  assumes "store_apart M X item root"
  shows "quiet X (sy_git y) (sy_git (snd (me_append M i kind actor payload y)))" and "quiet X (sy_git y) (sy_git (snd (me_load M i y)))"
    and "quiet X (sy_git y) (sy_git (snd (me_temp M y)))" and "quiet X (sy_git y) (sy_git (snd (me_remove_all M p y)))"
  using assms unfolding store_apart_def by simp_all

lemma append_upholds:
  assumes "store_apart M X item root" and "tame X (P res)" and "\<And>res s. P (warn res s) = P res"
  shows "upholds (at_git (P res)) (append_merge_event M i kind payload res) (\<lambda>res. at_git (P res)) E"
proof (rule upholdsI)
  have k: "P res (sy_git (snd (me_append M i kind ''user'' payload y)))" if "at_git (P res) y" for y
    using that tameD [OF assms(2) store_apart_quiet(1) [OF assms(1)]] unfolding at_git_def by blast
  show "at_git (P r) y'" if "at_git (P res) y" "append_merge_event M i kind payload res y = (Inr r, y')" for y r y'
    using that k [OF that(1)] assms(3) by (auto simp: append_merge_event_def at_git_def split: prod.splits sum.splits)
qed (auto simp: append_merge_event_def split: prod.splits sum.splits)

section \<open>The state of the transaction\<close>

definition plain :: "string \<Rightarrow> bool" where
  "plain name \<longleftrightarrow> trim_space name = name"

definition ahead_of :: "'w merge_view \<Rightarrow> (string \<Rightarrow> string option) \<Rightarrow> string \<Rightarrow> string \<Rightarrow> bool" where
  "ahead_of X r0 ref new \<longleftrightarrow> (\<forall>old. r0 ref = Some old \<longrightarrow> (gv_ancestor (mv_base X))\<^sup>*\<^sup>* old new)"

text \<open>The references a merge started from: the source is where it was, the target may have been synchronized.\<close>

definition started :: "'w merge_view \<Rightarrow> (string \<Rightarrow> string option) \<Rightarrow> merge_result \<Rightarrow> bool" where
  "started X r0 res \<longleftrightarrow> (plain (mr_target_branch res) \<longrightarrow> ahead_of X r0 (branch_ref (mr_target_branch res)) (mr_target_old res))
     \<and> r0 (branch_ref (mr_source_branch res)) \<in> {None, Some (mr_source_old res)} \<and> valid_commit_sha (mr_source_old res)
     \<and> mr_source_branch res \<noteq> mr_target_branch res"

definition target_at :: "'w merge_view \<Rightarrow> merge_result \<Rightarrow> 'w \<Rightarrow> bool" where
  "target_at X res w \<longleftrightarrow>
     (plain (mr_target_branch res) \<longrightarrow>
        mv_refs X w (branch_ref (mr_target_branch res)) = Some (if mr_advanced res then mr_source_new res else mr_target_old res)
        \<and> (mr_advanced res \<longrightarrow> ref_value (mr_target_old res) = Some (mr_target_old res)))
     \<and> (mr_advanced res \<longrightarrow> gv_ancestor (mv_base X) (mr_target_old res) (mr_source_new res))"

definition in_place :: "merge_result \<Rightarrow> bool" where
  "in_place res \<longleftrightarrow> mr_rebased res \<and> \<not> mr_preserved res"

definition source_at :: "'w merge_view \<Rightarrow> merge_result \<Rightarrow> 'w \<Rightarrow> bool" where
  "source_at X res w \<longleftrightarrow>
     (if in_place res then mv_attached X (mr_source_path res) w = Some (mr_source_branch res)
      else mv_refs X w (branch_ref (mr_source_branch res)) = Some (mr_source_old res))"

definition under_way :: "'w merge_view \<Rightarrow> (string \<Rightarrow> string option) \<Rightarrow> merge_result \<Rightarrow> 'w \<Rightarrow> bool" where
  "under_way X r0 res w \<longleftrightarrow> started X r0 res \<and> target_at X res w \<and> source_at X res w \<and> \<not> mr_rolled_back res"

text \<open>How a merge ends.\<close>

definition ended :: "'w merge_view \<Rightarrow> (string \<Rightarrow> string option) \<Rightarrow> merge_result \<Rightarrow> 'w \<Rightarrow> bool" where
  "ended X r0 res w \<longleftrightarrow> started X r0 res \<and> target_at X res w
     \<and> (mr_rolled_back res \<longrightarrow> \<not> mr_advanced res \<and> mv_refs X w (branch_ref (mr_source_branch res)) = Some (mr_source_old res))"

lemma warn_simps [simp]:
  "mr_target_branch (warn res s) = mr_target_branch res" "mr_target_old (warn res s) = mr_target_old res"
  "mr_source_branch (warn res s) = mr_source_branch res" "mr_source_old (warn res s) = mr_source_old res"
  "mr_source_new (warn res s) = mr_source_new res" "mr_source_path (warn res s) = mr_source_path res"
  "mr_target_path (warn res s) = mr_target_path res" "mr_target_item (warn res s) = mr_target_item res"
  "mr_preserved (warn res s) = mr_preserved res" "mr_rebased (warn res s) = mr_rebased res"
  "mr_advanced (warn res s) = mr_advanced res" "mr_rolled_back (warn res s) = mr_rolled_back res"
  "mr_synced (warn res s) = mr_synced res"
  by (simp_all add: warn_def)

lemmas merge_state_defs = started_def target_at_def source_at_def in_place_def under_way_def ended_def

lemma warn_state [simp]: "under_way X r0 (warn res s) = under_way X r0 res" "ended X r0 (warn res s) = ended X r0 res"
  by (auto simp: merge_state_defs fun_eq_iff)

lemma under_way_quiet:
  "under_way X r0 res w \<Longrightarrow> mv_refs X w' = mv_refs X w \<Longrightarrow>
   mv_attached X (mr_source_path res) w' = mv_attached X (mr_source_path res) w \<Longrightarrow> under_way X r0 res w'"
  by (simp add: merge_state_defs)

lemma under_way_tame: "tame X (under_way X r0 res)"
  by (auto simp: tame_def quiet_outside_def calm_def mv_refs_def intro: under_way_quiet)

lemma ended_tame: "tame X (ended X r0 res)"
  by (auto simp: tame_def quiet_outside_def calm_def mv_refs_def merge_state_defs)

lemma under_way_ended: "under_way X r0 res w \<Longrightarrow> ended X r0 res w"
  by (simp add: merge_state_defs)


lemma branch_ref_eq [simp]: "branch_ref a = branch_ref b \<longleftrightarrow> a = b"
  by (simp add: branch_ref_def)

text \<open>The laws one by one.\<close>

lemma attached_update: "merge_contract W root X \<Longrightarrow> mv_attached X p (snd (update_ref W dir ref new old message w)) = mv_attached X p w"
  unfolding merge_contract_def head_law_def update_ref_def snd_git_run by blast

lemma merge_update_swaps:
  assumes "merge_contract W root X"
  shows "if is_ok (fst (update_ref W root ref new old message w))
    then mv_refs X w ref = ref_value old \<and> mv_refs X (snd (update_ref W root ref new old message w)) = (mv_refs X w)(ref := ref_value new)
    else mv_refs X (snd (update_ref W root ref new old message w)) = mv_refs X w"
  unfolding mv_refs_def by (rule update_ref_swaps) (use assms in \<open>simp add: merge_contract_def\<close>)

lemma rebase_laws:
  assumes "merge_contract W root X"
  shows "mv_attached X dir w = Some b \<Longrightarrow> mv_rebasing X dir w = None \<Longrightarrow>
      (case ow_git W dir [''rebase'', ''refs/heads/'' @ target] w of (r, w') \<Rightarrow>
         (b \<noteq> target \<longrightarrow> mv_refs X w' (branch_ref target) = mv_refs X w (branch_ref target))
         \<and> (\<forall>ref. \<not> has_prefix ref ''refs/heads/'' \<longrightarrow> mv_refs X w' ref = mv_refs X w ref)
         \<and> (if is_ok r then mv_attached X dir w' = Some b
            else mv_attached X dir w' = Some b \<and> mv_rebasing X dir w' = None \<or> mv_rebasing X dir w' = Some b))"
    and "case ow_git W dir [''rebase'', ''--abort''] w of (r, w') \<Rightarrow>
      (case mv_rebasing X dir w of None \<Rightarrow> quiet X w w'
       | Some b \<Rightarrow> (\<forall>ref. ref \<noteq> branch_ref b \<longrightarrow> mv_refs X w' ref = mv_refs X w ref) \<and> (is_ok r \<longrightarrow> mv_attached X dir w' = Some b))"
    and "mv_attached X dir w = Some b \<Longrightarrow> valid_commit_sha sha \<Longrightarrow>
      (case ow_git W dir [''reset'', ''--hard'', sha] w of (r, w') \<Rightarrow>
         (\<forall>ref. ref \<noteq> branch_ref b \<longrightarrow> mv_refs X w' ref = mv_refs X w ref) \<and> (is_ok r \<longrightarrow> mv_refs X w' (branch_ref b) = Some sha)
         \<and> mv_attached X dir w' = Some b)"
proof -
  note law = assms [unfolded merge_contract_def rebase_law_def, THEN conjunct2, THEN conjunct2, THEN conjunct2]
  show "mv_attached X dir w = Some b \<Longrightarrow> mv_rebasing X dir w = None \<Longrightarrow>
      (case ow_git W dir [''rebase'', ''refs/heads/'' @ target] w of (r, w') \<Rightarrow>
         (b \<noteq> target \<longrightarrow> mv_refs X w' (branch_ref target) = mv_refs X w (branch_ref target))
         \<and> (\<forall>ref. \<not> has_prefix ref ''refs/heads/'' \<longrightarrow> mv_refs X w' ref = mv_refs X w ref)
         \<and> (if is_ok r then mv_attached X dir w' = Some b
            else mv_attached X dir w' = Some b \<and> mv_rebasing X dir w' = None \<or> mv_rebasing X dir w' = Some b))"
    by (rule law [THEN conjunct1, rule_format])
  show "case ow_git W dir [''rebase'', ''--abort''] w of (r, w') \<Rightarrow>
      (case mv_rebasing X dir w of None \<Rightarrow> quiet X w w'
       | Some b \<Rightarrow> (\<forall>ref. ref \<noteq> branch_ref b \<longrightarrow> mv_refs X w' ref = mv_refs X w ref) \<and> (is_ok r \<longrightarrow> mv_attached X dir w' = Some b))"
    by (rule law [THEN conjunct2, THEN conjunct1, rule_format])
  show "mv_attached X dir w = Some b \<Longrightarrow> valid_commit_sha sha \<Longrightarrow>
      (case ow_git W dir [''reset'', ''--hard'', sha] w of (r, w') \<Rightarrow>
         (\<forall>ref. ref \<noteq> branch_ref b \<longrightarrow> mv_refs X w' ref = mv_refs X w ref) \<and> (is_ok r \<longrightarrow> mv_refs X w' (branch_ref b) = Some sha)
         \<and> mv_attached X dir w' = Some b)"
    by (rule law [THEN conjunct2, THEN conjunct2, rule_format])
qed

text \<open>The rollback.\<close>

lemma undo_target_upholds:
  assumes c: "merge_contract W root X" and m: "store_apart M X item root"
  shows "upholds (at_git (under_way X r0 res)) (undo_target W M item res)
    (\<lambda>(res, problems). at_git (\<lambda>w. under_way X r0 res w \<and> (problems = [] \<longrightarrow> \<not> mr_advanced res))) E"
proof (rule upholdsI)
  fix y st y' assume y: "at_git (under_way X r0 res) y" and run: "undo_target W M item res y = (Inr st, y')"
  show "(case st of (res, problems) \<Rightarrow> at_git (\<lambda>w. under_way X r0 res w \<and> (problems = [] \<longrightarrow> \<not> mr_advanced res))) y'"
  proof (cases "mr_advanced res")
    case False
    then show ?thesis using y run by (auto simp: undo_target_def at_git_def)
  next
    case adv: True
    obtain loaded y1 where l: "me_load M item y = (loaded, y1)" by fastforce
    have q: "quiet X (sy_git y) (sy_git y1)" using m l unfolding store_apart_def by (metis snd_conv)
    have u1: "under_way X r0 res (sy_git y1)" using y tameD [OF under_way_tame q] by (simp add: at_git_def)
    define place where "place = (case loaded of Inl _ \<Rightarrow> [] | Inr m \<Rightarrow> operational_root (m_repository m))"
    have place: "place = [] \<or> place = root" using store_apart_root [OF m] l by (auto simp: place_def split: sum.split)
    let ?ref = "branch_ref (mr_target_branch res)"
    let ?m = "update_ref W root ?ref (mr_target_old res) (mr_source_new res) ''wi merge: rollback target sync failed''"
    let ?w = "snd (?m (sy_git y1))"
    note sw = merge_update_swaps [OF c, of ?ref "mr_target_old res" "mr_source_new res" "''wi merge: rollback target sync failed''" "sy_git y1"]
    note at = attached_update [OF c, of _ root ?ref "mr_target_old res" "mr_source_new res" "''wi merge: rollback target sync failed''" "sy_git y1"]
    show ?thesis
    proof (cases "place = []")
      case True
      then show ?thesis using run adv u1 by (auto simp: undo_target_def l place_def [symmetric] at_git_def Let_def)
    next
      case False
      then have p: "place = root" using place by simp
      have "undo_target W M item res y = (case on_git ?m y1 of
            (Inl e, y) \<Rightarrow> (Inr (res, [''target ref rollback failed: '' @ me_text M (OfSync e)]), y)
          | (Inr _, y) \<Rightarrow> (Inr (res\<lparr>mr_advanced := False\<rparr>, []), y))"
        using adv False p by (simp add: undo_target_def l place_def [symmetric] Let_def branch_ref_def)
      note run' = this [unfolded run]
      show ?thesis
      proof (cases "fst (?m (sy_git y1))")
        case (Inl e)
        then have "under_way X r0 res ?w" using under_way_quiet [OF u1, of ?w] sw at by simp
        then show ?thesis using run' Inl by (auto simp: on_git_unfold at_git_def)
      next
        case (Inr v)
        then have "under_way X r0 (res\<lparr>mr_advanced := False\<rparr>) ?w" using u1 sw at adv by (auto simp: merge_state_defs)
        then show ?thesis using run' Inr by (auto simp: on_git_unfold at_git_def)
      qed
    qed
  qed
next
  fix y e y' assume "undo_target W M item res y = (Inl e, y')"
  then show "E e y'" by (auto simp: undo_target_def Let_def split: if_splits prod.splits sum.splits)
qed

lemma undo_source_upholds:
  assumes c: "merge_contract W root X"
  shows "upholds (at_git (under_way X r0 (fst st))) (undo_source W M st)
    (\<lambda>(res, problems). at_git (\<lambda>w. under_way X r0 res w \<and> mr_advanced res = mr_advanced (fst st) \<and> (problems = [] \<longrightarrow> snd st = [] \<and> \<not> in_place res))) E"
proof -
  obtain res problems where st: "st = (res, problems)" by fastforce
  show ?thesis
  proof (cases "in_place res")
    case False
    then show ?thesis unfolding st undo_source_def in_place_def [symmetric]
      by (auto simp: in_place_def at_git_def intro!: upholds_return)
  next
    case True
    let ?m = "reset_hard W (mr_source_path res) (mr_source_old res)"
    have ref: "ref \<noteq> branch_ref (mr_source_branch res) \<Longrightarrow> mv_refs X (snd (?m w)) ref = mv_refs X w ref"
      and ok: "is_ok (fst (?m w)) \<Longrightarrow> mv_refs X (snd (?m w)) (branch_ref (mr_source_branch res)) = Some (mr_source_old res)"
      and att: "mv_attached X (mr_source_path res) (snd (?m w)) = Some (mr_source_branch res)"
      if u: "under_way X r0 res w" for w ref
    proof -
      have a: "mv_attached X (mr_source_path res) w = Some (mr_source_branch res)" "valid_commit_sha (mr_source_old res)"
        using u True by (simp_all add: under_way_def source_at_def started_def)
      note law = rebase_laws(3) [OF c a]
      show "ref \<noteq> branch_ref (mr_source_branch res) \<Longrightarrow> mv_refs X (snd (?m w)) ref = mv_refs X w ref"
        "is_ok (fst (?m w)) \<Longrightarrow> mv_refs X (snd (?m w)) (branch_ref (mr_source_branch res)) = Some (mr_source_old res)"
        "mv_attached X (mr_source_path res) (snd (?m w)) = Some (mr_source_branch res)"
        using law unfolding reset_hard_def snd_git_run fst_git_run by (simp_all add: split_beta)
    qed
    have run: "upholds (at_git (under_way X r0 res)) (on_git ?m)
        (\<lambda>_. at_git (\<lambda>w. under_way X r0 (res\<lparr>mr_rebased := False\<rparr>) w)) (\<lambda>_. at_git (under_way X r0 res))"
    proof (rule run_upholds)
      fix w assume u: "under_way X r0 res w"
      have n: "branch_ref (mr_target_branch res) \<noteq> branch_ref (mr_source_branch res)" using u by (auto simp: merge_state_defs)
      have t: "mv_refs X (snd (?m w)) (branch_ref (mr_target_branch res)) = mv_refs X w (branch_ref (mr_target_branch res))"
        by (rule ref [OF u n])
      have both: "is_ok (fst (?m w)) \<Longrightarrow> under_way X r0 (res\<lparr>mr_rebased := False\<rparr>) (snd (?m w))"
        "under_way X r0 res (snd (?m w))"
        using u t ok [OF u] att [OF u] True by (simp_all add: merge_state_defs)
      then show "if is_ok (fst (?m w)) then under_way X r0 (res\<lparr>mr_rebased := False\<rparr>) (snd (?m w)) else under_way X r0 res (snd (?m w))"
        by simp
    qed
    show ?thesis
      unfolding st undo_source_def prod.case fst_conv snd_conv if_P [OF True [unfolded in_place_def]]
    proof (rule upholds_bind [OF outcome_upholds [OF run]])
      show "upholds (at_git (\<lambda>w. case r of Inl _ \<Rightarrow> under_way X r0 res w | Inr x \<Rightarrow> under_way X r0 (res\<lparr>mr_rebased := False\<rparr>) w))
          (case r of Inl e \<Rightarrow> act_return (res, problems @ [''source reset failed: '' @ me_text M e])
           | Inr _ \<Rightarrow> act_return (res\<lparr>mr_rebased := False\<rparr>, problems))
          (\<lambda>(r, ps). at_git (\<lambda>w. under_way X r0 r w \<and> mr_advanced r = mr_advanced res \<and> (ps = [] \<longrightarrow> problems = [] \<and> \<not> in_place r))) E" for r
        by (cases r) (auto intro!: upholds_return simp: at_git_def in_place_def)
    qed
  qed
qed


lemma undone_ended:
  "under_way X r0 res w \<Longrightarrow> (c \<Longrightarrow> \<not> mr_advanced res \<and> \<not> in_place res) \<Longrightarrow> ended X r0 (res\<lparr>mr_rolled_back := c\<rparr>) w"
  by (cases c) (auto simp: merge_state_defs)

lemma fail_upholds:
  assumes c: "merge_contract W root X" and m: "store_apart M X item root"
  shows "upholds (at_git (under_way X r0 res)) (fail_merge W M item stage res cause) Q (at_error (ended X r0))"
  unfolding fail_merge_def
proof (rule upholds_bind [OF append_upholds [OF m under_way_tame]])
  show "under_way X r0 (warn res s) = under_way X r0 res" for res s by simp
  fix res
  show "upholds (at_git (under_way X r0 res)) (act_bind (undo_target W M item res) (\<lambda>st. act_bind (undo_source W M st) (\<lambda>(res, problems).
      let res = res\<lparr>mr_rolled_back := (problems = [])\<rparr>
      in act_bind (append_merge_event M item ''merge.rolled_back'' (merge_event_data res stage (me_text M cause) (Some problems)) res) (\<lambda>res.
         act_fail (res, MergeStage stage cause problems))))) Q (at_error (ended X r0))"
  proof (rule upholds_bind [OF undo_target_upholds [OF c m]])
    fix st :: "merge_result \<times> string list"
    obtain res1 ps1 where st: "st = (res1, ps1)" by fastforce
    have src: "upholds (at_git (\<lambda>w. under_way X r0 res1 w \<and> (ps1 = [] \<longrightarrow> \<not> mr_advanced res1))) (undo_source W M (res1, ps1))
        (\<lambda>(res, problems). at_git (ended X r0 (res\<lparr>mr_rolled_back := (problems = [])\<rparr>))) (at_error (ended X r0))"
    proof (rule upholds_pure)
      assume adv: "ps1 = [] \<longrightarrow> \<not> mr_advanced res1"
      show "upholds (at_git (under_way X r0 res1)) (undo_source W M (res1, ps1))
          (\<lambda>(res, problems). at_git (ended X r0 (res\<lparr>mr_rolled_back := (problems = [])\<rparr>))) (at_error (ended X r0))"
        by (rule upholds_weaken [OF undo_source_upholds [OF c, where st = "(res1, ps1)" and ?r0.0 = r0]])
          (use adv in \<open>auto simp: at_git_def intro!: undone_ended\<close>)
    qed
    show "upholds (case st of (res, problems) \<Rightarrow> at_git (\<lambda>w. under_way X r0 res w \<and> (problems = [] \<longrightarrow> \<not> mr_advanced res)))
      (act_bind (undo_source W M st) (\<lambda>(res, problems).
        let res = res\<lparr>mr_rolled_back := (problems = [])\<rparr>
        in act_bind (append_merge_event M item ''merge.rolled_back'' (merge_event_data res stage (me_text M cause) (Some problems)) res) (\<lambda>res.
           act_fail (res, MergeStage stage cause problems)))) Q (at_error (ended X r0))"
      unfolding st prod.case
    proof (rule upholds_bind [OF src])
      fix st2 :: "merge_result \<times> string list"
      obtain res2 ps2 where st2: "st2 = (res2, ps2)" by fastforce
      show "upholds (case st2 of (res, problems) \<Rightarrow> at_git (ended X r0 (res\<lparr>mr_rolled_back := (problems = [])\<rparr>)))
        (case st2 of (res, problems) \<Rightarrow> let res = res\<lparr>mr_rolled_back := (problems = [])\<rparr>
          in act_bind (append_merge_event M item ''merge.rolled_back'' (merge_event_data res stage (me_text M cause) (Some problems)) res)
            (\<lambda>res. act_fail (res, MergeStage stage cause problems))) Q (at_error (ended X r0))"
        unfolding st2 prod.case Let_def
        by (rule upholds_bind [OF append_upholds [OF m ended_tame]])
          (auto intro!: upholds_fail simp: at_git_def at_error_def)
    qed
  qed
qed

lemma step_upholds:
  fixes M :: "('w, 'b) merge_env"
  assumes c: "merge_contract W root X" and m: "store_apart M X item root"
    and run: "upholds (at_git P) (on_git f :: ('w, 'b, 'a) sync_action) (\<lambda>x. at_git (Q x)) (\<lambda>_. at_git (under_way X r0 res))"
  shows "upholds (at_git P) (step W M item stage res g (on_git f)) (\<lambda>x. at_git (Q x)) (at_error (ended X r0))"
  unfolding step_def
proof (rule upholds_bind [OF outcome_upholds [OF run]])
  show "upholds (at_git (\<lambda>w. case r of Inl _ \<Rightarrow> under_way X r0 res w | Inr x \<Rightarrow> Q x w))
      (case r of Inl e \<Rightarrow> fail_merge W M item stage res (g e) | Inr x \<Rightarrow> act_return x) (\<lambda>x. at_git (Q x)) (at_error (ended X r0))" for r
    by (cases r) (auto intro: fail_upholds [OF c m] upholds_return)
qed

lemma step_keeps:
  assumes "merge_contract W root X" and "store_apart M X item root" and "keeps P f" and "\<And>w. P w \<Longrightarrow> under_way X r0 res w"
  shows "upholds (at_git P) (step W M item stage res g (on_git f)) (\<lambda>_. at_git P) (at_error (ended X r0))"
  by (rule step_upholds [OF assms(1,2)], rule keeps_upholds [OF keeps_on_git [OF assms(3)]]) (simp add: at_git_def assms(4))

lemma fail_from:
  assumes "merge_contract W root X" and "store_apart M X item root" and "\<And>w. P w \<Longrightarrow> under_way X r0 res w"
  shows "upholds (at_git P) (fail_merge W M item stage res cause) Q (at_error (ended X r0))"
  by (rule upholds_weaken [OF fail_upholds [OF assms(1,2)]]) (auto simp: at_git_def assms(3))

text \<open>Reading commands over the state of the transaction and what has been learned beside it.\<close>

lemma tame_and: "tame X P \<Longrightarrow> tame X (\<lambda>w. P w \<and> c)"
  by (auto simp: tame_def)

lemma note_upholds:
  assumes "store_apart M X item root" and "tame X (P res)" and "\<And>res s. P (warn res s) = P res"
  shows "upholds (at_git (P res)) (note_progress M i kind res) (\<lambda>res. at_git (P res)) E"
  unfolding note_progress_def by (rule append_upholds [OF assms])

section \<open>Advancing the target\<close>

text \<open>After a rebase in place the source names the new commit; the end of a merge that returns without an error.\<close>

definition placed :: "'w merge_view \<Rightarrow> (string \<Rightarrow> string option) \<Rightarrow> merge_result \<Rightarrow> 'w \<Rightarrow> bool" where
  "placed X r0 res w \<longleftrightarrow> under_way X r0 res w
     \<and> (in_place res \<longrightarrow> mv_refs X w (branch_ref (mr_source_branch res)) = Some (mr_source_new res))"

definition merged :: "'w merge_view \<Rightarrow> (string \<Rightarrow> string option) \<Rightarrow> merge_result \<Rightarrow> 'w \<Rightarrow> bool" where
  "merged X r0 res w \<longleftrightarrow> placed X r0 res w \<and> mr_advanced res"

lemma placed_under_way: "placed X r0 res w \<Longrightarrow> under_way X r0 res w"
  by (simp add: placed_def)

lemma placed_warn [simp]: "placed X r0 (warn res s) = placed X r0 res"
  by (auto simp: placed_def in_place_def fun_eq_iff)

lemma merged_warn [simp]: "merged X r0 (warn res s) = merged X r0 res"
  by (auto simp: merged_def fun_eq_iff)

lemma placed_tame: "tame X (placed X r0 res)"
  using under_way_tame [of X r0 res] by (auto simp: tame_def placed_def quiet_refs)

lemma merged_tame: "tame X (merged X r0 res)"
  unfolding merged_def [abs_def] by (rule tame_and [OF placed_tame])

lemma sync_target_upholds:
  assumes c: "merge_contract W root X" and m: "store_apart M X (m_id mf) root"
  shows "upholds (at_git (merged X r0 res)) (sync_target_checkout W M mf res) (\<lambda>res. at_git (merged X r0 res)) (at_error (ended X r0))"
  unfolding sync_target_checkout_def
proof (rule upholds_bind [OF outcome_keeps [OF keeps_on_git]])
  show "keeps (merged X r0 res) (update_index_refresh W (mr_target_path res))" by (rule merge_reads(5) [OF c merged_tame])
  fix r :: "(merge_error, unit) result"
  define res1 where "res1 = (case r of Inl e \<Rightarrow> warn res (''target index refresh reported local changes: '' @ me_text M e) | Inr _ \<Rightarrow> res)"
  have r1: "merged X r0 res = merged X r0 res1" by (simp add: res1_def split: sum.split)
  let ?synced = "res1\<lparr>mr_synced := True\<rparr>"
  have r2: "merged X r0 ?synced = merged X r0 res1" by (auto simp: merged_def placed_def merge_state_defs fun_eq_iff)
  have fin: "upholds (at_git (merged X r0 res2)) (if mr_target_item res2 \<noteq> [] \<and> mr_target_item res2 \<noteq> m_id mf
      then (\<lambda>y. case me_append M (mr_target_item res2) kind actor payload y of
            (Inl e, y) \<Rightarrow> (Inr (warn res2 (s @ me_text M e)), y) | (Inr _, y) \<Rightarrow> (Inr res2, y))
      else act_return res2) (\<lambda>res. at_git (merged X r0 res)) (at_error (ended X r0))" for res2 kind actor payload s
  proof (rule upholds_if)
    have q: "merged X r0 res2 (sy_git (snd (me_append M i kind actor payload y)))" if "merged X r0 res2 (sy_git y)" for i y
      by (rule tameD [OF merged_tame store_apart_quiet(1) [OF m] that])
    show "upholds (at_git (merged X r0 res2)) (\<lambda>y. case me_append M (mr_target_item res2) kind actor payload y of
            (Inl e, y) \<Rightarrow> (Inr (warn res2 (s @ me_text M e)), y) | (Inr _, y) \<Rightarrow> (Inr res2, y))
          (\<lambda>res. at_git (merged X r0 res)) (at_error (ended X r0))"
    proof (rule upholdsI)
      fix y x y' assume "at_git (merged X r0 res2) y" and "(case me_append M (mr_target_item res2) kind actor payload y of
            (Inl e, y) \<Rightarrow> (Inr (warn res2 (s @ me_text M e)), y) | (Inr _, y) \<Rightarrow> (Inr res2, y)) = (Inr x, y')"
      then show "at_git (merged X r0 x) y'"
        using q [of y "mr_target_item res2"] by (auto simp: at_git_def split: prod.splits sum.splits)
    qed (auto split: prod.splits sum.splits)
    show "upholds (at_git (merged X r0 res2)) (act_return res2) (\<lambda>res. at_git (merged X r0 res)) (at_error (ended X r0))"
      by (rule upholds_return)
  qed
  show "upholds (at_git (merged X r0 res))
      (let res = case r of Inl e \<Rightarrow> warn res (''target index refresh reported local changes: '' @ me_text M e) | Inr _ \<Rightarrow> res
       in act_bind (step W M (m_id mf) ''target_sync'' res (MergeContext (''sync target worktree '' @ mr_target_path res))
            (on_git (read_tree_merge_update W (mr_target_path res) (mr_target_old res) (mr_source_new res)))) (\<lambda>_.
          act_bind (note_progress M (m_id mf) ''merge.target_synced'' (res\<lparr>mr_synced := True\<rparr>)) (\<lambda>res.
          if mr_target_item res \<noteq> [] \<and> mr_target_item res \<noteq> m_id mf
          then (\<lambda>y. case me_append M (mr_target_item res) ''checkout.updated_by_merge'' ''wi'' (JObj [(''new_sha'', JStr (mr_source_new res)),
              (''old_sha'', JStr (mr_target_old res)), (''source_item_id'', JStr (m_id mf)), (''target_branch'', JStr (mr_target_branch res))]) y of
            (Inl e, y) \<Rightarrow> (Inr (warn res (''could not append target work-item event: '' @ me_text M e)), y)
          | (Inr _, y) \<Rightarrow> (Inr res, y))
          else act_return res)))
      (\<lambda>res. at_git (merged X r0 res)) (at_error (ended X r0))"
    unfolding r1 res1_def [symmetric] Let_def
  proof (rule upholds_bind [OF step_keeps [OF c m]])
    show "keeps (merged X r0 res1) (read_tree_merge_update W (mr_target_path res1) (mr_target_old res1) (mr_source_new res1))"
      by (rule merge_reads(6) [OF c merged_tame])
    show "merged X r0 res1 w \<Longrightarrow> under_way X r0 res1 w" for w by (simp add: merged_def placed_def)
    show "upholds (at_git (merged X r0 res1)) (act_bind (note_progress M (m_id mf) ''merge.target_synced'' ?synced) (\<lambda>res.
          if mr_target_item res \<noteq> [] \<and> mr_target_item res \<noteq> m_id mf
          then (\<lambda>y. case me_append M (mr_target_item res) ''checkout.updated_by_merge'' ''wi'' (JObj [(''new_sha'', JStr (mr_source_new res)),
              (''old_sha'', JStr (mr_target_old res)), (''source_item_id'', JStr (m_id mf)), (''target_branch'', JStr (mr_target_branch res))]) y of
            (Inl e, y) \<Rightarrow> (Inr (warn res (''could not append target work-item event: '' @ me_text M e)), y)
          | (Inr _, y) \<Rightarrow> (Inr res, y))
          else act_return res)) (\<lambda>res. at_git (merged X r0 res)) (at_error (ended X r0))"
      unfolding r2 [symmetric]
      by (rule upholds_bind [OF note_upholds [OF m merged_tame merged_warn]]) (rule fin)
  qed
qed


lemma under_way_unadvanced_update:
  assumes c: "merge_contract W root X" and n: "\<not> mr_advanced res"
    and anc: "gv_ancestor (mv_base X) (mr_target_old res) (mr_source_new res)" "mr_source_new res \<noteq> zeros (mr_source_new res)"
  shows "upholds (at_git (placed X r0 res))
    (on_git (update_ref W root (branch_ref (mr_target_branch res)) (mr_source_new res) (mr_target_old res) message))
    (\<lambda>_. at_git (merged X r0 (res\<lparr>mr_advanced := True\<rparr>))) (\<lambda>_. at_git (under_way X r0 res))"
proof (rule run_upholds)
  fix w assume p: "placed X r0 res w"
  then have u: "under_way X r0 res w" by (rule placed_under_way)
  let ?m = "update_ref W root (branch_ref (mr_target_branch res)) (mr_source_new res) (mr_target_old res) message"
  note sw = merge_update_swaps [OF c, of "branch_ref (mr_target_branch res)" "mr_source_new res" "mr_target_old res" message w]
  note at = attached_update [OF c, of _ root "branch_ref (mr_target_branch res)" "mr_source_new res" "mr_target_old res" message w]
  show "if is_ok (fst (?m w)) then merged X r0 (res\<lparr>mr_advanced := True\<rparr>) (snd (?m w)) else under_way X r0 res (snd (?m w))"
  proof (cases "is_ok (fst (?m w))")
    case True
    then show ?thesis using p sw at n anc by (auto simp: merged_def placed_def merge_state_defs ref_value_def split: if_splits)
  next
    case False
    then show ?thesis using under_way_quiet [OF u] sw at by simp
  qed
qed

lemma advance_upholds:
  assumes c: "merge_contract W root X" and m: "store_apart M X (m_id mf) root" and r: "operational_root (m_repository mf) = root"
    and n: "\<not> mr_advanced res"
    and anc: "gv_ancestor (mv_base X) (mr_target_old res) (mr_source_new res)" "mr_source_new res \<noteq> zeros (mr_source_new res)"
  shows "upholds (at_git (placed X r0 res)) (advance_target W M mf res) (\<lambda>res. at_git (merged X r0 res)) (at_error (ended X r0))"
  unfolding advance_target_def Let_def r branch_ref_def [symmetric]
proof (rule upholds_bind [OF step_upholds [OF c m under_way_unadvanced_update [OF c n anc]]], rule upholds_bind [OF note_upholds [OF m merged_tame merged_warn]])
  fix res
  show "upholds (at_git (merged X r0 res))
     (act_bind (if mr_target_path res \<noteq> [] then sync_target_checkout W M mf res else act_return res) (\<lambda>res.
      act_bind (outcome (on_git (resolve_branch_sha W root target))) (\<lambda>now.
      note_progress M (m_id mf) ''merge.completed'' (if now = Inr (mr_source_new res) then res
        else warn res (''target branch moved again after merge; inspect '' @ target @ '' and '' @ mr_target_path res)))))
     (\<lambda>res. at_git (merged X r0 res)) (at_error (ended X r0))" for target
  proof (rule upholds_bind [where R = "\<lambda>res. at_git (merged X r0 res)"])
    show "upholds (at_git (merged X r0 res)) (if mr_target_path res \<noteq> [] then sync_target_checkout W M mf res else act_return res)
        (\<lambda>res. at_git (merged X r0 res)) (at_error (ended X r0))"
      by (auto intro: sync_target_upholds [OF c m] upholds_return)
    fix res
    have nu: "upholds (at_git (merged X r0 r)) (note_progress M (m_id mf) kind r) (\<lambda>res. at_git (merged X r0 res)) (at_error (ended X r0))" for r kind
      by (rule note_upholds [OF m merged_tame merged_warn])
    show "upholds (at_git (merged X r0 res)) (act_bind (outcome (on_git (resolve_branch_sha W root target))) (\<lambda>now.
        note_progress M (m_id mf) ''merge.completed'' (if now = Inr (mr_source_new res) then res
          else warn res (''target branch moved again after merge; inspect '' @ target @ '' and '' @ mr_target_path res))))
        (\<lambda>res. at_git (merged X r0 res)) (at_error (ended X r0))"
    proof (rule upholds_bind [OF outcome_keeps [OF keeps_on_git]])
      show "keeps (merged X r0 res) (resolve_branch_sha W root target)"
        by (rule stable_reads(3) [OF merge_reading_keeps [OF c merged_tame]])
      show "upholds (at_git (merged X r0 res)) (note_progress M (m_id mf) ''merge.completed'' (if now = Inr (mr_source_new res) then res
          else warn res (''target branch moved again after merge; inspect '' @ target @ '' and '' @ mr_target_path res)))
          (\<lambda>res. at_git (merged X r0 res)) (at_error (ended X r0))" for now
        by (rule upholds_weaken [OF nu]) (auto simp: at_git_def)
    qed
  qed
qed

lemma changes_upholds:
  assumes c: "merge_contract W root X" and m: "store_apart M X (m_id mf) root"
  shows "upholds (at_git (placed X r0 res)) (check_target_changes W M mf res) (\<lambda>_. at_git (placed X r0 res)) (at_error (ended X r0))"
  unfolding check_target_changes_def Let_def
  by (intro upholds_bind [OF step_keeps [OF c m merge_reads(3) [OF c placed_tame]]]
      upholds_bind [OF step_keeps [OF c m merge_reads(4) [OF c placed_tame]]] upholds_if fail_from [OF c m] upholds_return) (auto intro: placed_under_way)

lemma unchanged_upholds:
  assumes c: "merge_contract W root X" and m: "store_apart M X (m_id mf) root"
  shows "upholds (at_git (placed X r0 res)) (check_source_unchanged W M mf res) (\<lambda>_. at_git (placed X r0 res)) (at_error (ended X r0))"
proof -
  note k = merge_reading_keeps [OF c placed_tame]
  show ?thesis
    unfolding check_source_unchanged_def Let_def
    by (intro upholds_bind [OF step_keeps [OF c m stable_reads_more(2) [OF k]]] upholds_bind [OF step_keeps [OF c m merge_reads(1) [OF c placed_tame]]]
        upholds_bind [OF outcome_keeps [OF keeps_on_git [OF stable_reads(4) [OF k]]]]
        upholds_bind [OF outcome_keeps [OF keeps_on_git [OF stable_reads(1) [OF k]]]] upholds_if fail_from [OF c m] upholds_return) (auto intro: placed_under_way)
qed

lemma ancestor_upholds:
  assumes c: "merge_contract W root X" and P: "tame X P"
  shows "upholds (at_git P) (on_git (is_ancestor W dir a b))
    (\<lambda>yes. at_git (\<lambda>w. P w \<and> (yes \<longrightarrow> gv_ancestor (mv_base X) a b \<and> b \<noteq> zeros b))) (\<lambda>_. at_git P)"
proof (rule upholds_at_git)
  fix w assume p: "P w"
  have k: "P (snd (is_ancestor W dir a b w))"
    using stable_reads(6) [OF merge_reading_keeps [OF c P]] p by (simp add: keeps_iff)
  have t: "yes \<longrightarrow> gv_ancestor (mv_base X) a b \<and> b \<noteq> zeros b" if "fst (is_ancestor W dir a b w) = Inr yes" for yes
    using is_ancestor_tells [of W root "mv_base X" dir a b w] c that unfolding merge_contract_def
    by (cases "is_ancestor W dir a b w") auto
  show "case fst (is_ancestor W dir a b w) of Inl x \<Rightarrow> P (snd (is_ancestor W dir a b w))
      | Inr x \<Rightarrow> P (snd (is_ancestor W dir a b w)) \<and> (x \<longrightarrow> gv_ancestor (mv_base X) a b \<and> b \<noteq> zeros b)"
    using k t by (simp split: sum.split)
qed

lemma finish_upholds:
  assumes c: "merge_contract W root X" and m: "store_apart M X (m_id mf) root" and r: "operational_root (m_repository mf) = root"
    and n: "\<not> mr_advanced res"
  shows "upholds (at_git (placed X r0 res)) (finish_merge W M mf res) (\<lambda>res. at_git (merged X r0 res)) (at_error (ended X r0))"
proof -
  have anc: "upholds (at_git (placed X r0 res)) (on_git (is_ancestor W dir a b)) (\<lambda>yes. at_git (\<lambda>w. placed X r0 res w
      \<and> (yes \<longrightarrow> gv_ancestor (mv_base X) a b \<and> b \<noteq> zeros b))) (\<lambda>_. at_git (under_way X r0 res))" for dir a b
    by (rule upholds_weaken [OF ancestor_upholds [OF c placed_tame]]) (auto simp: at_git_def placed_under_way)
  show ?thesis
  unfolding finish_merge_def Let_def
proof (rule upholds_bind [OF step_upholds [OF c m anc]], rule upholds_pure)
  fix yes assume yes: "yes \<longrightarrow> gv_ancestor (mv_base X) (mr_target_old res) (mr_source_new res) \<and> mr_source_new res \<noteq> zeros (mr_source_new res)"
  let ?P = "at_git (placed X r0 res)" and ?Q = "\<lambda>res. at_git (merged X r0 res)" and ?E = "at_error (ended X r0)"
  have a: "upholds ?P (if mr_target_path res \<noteq> [] then check_target_changes W M mf res else act_return ()) (\<lambda>_. ?P) ?E"
    by (auto intro: changes_upholds [OF c m] upholds_return)
  have b: "upholds ?P (if \<not> mr_rebased res \<or> mr_preserved res then check_source_unchanged W M mf res else act_return ()) (\<lambda>_. ?P) ?E"
    by (auto intro: unchanged_upholds [OF c m] upholds_return)
  show "upholds ?P (if \<not> yes then fail_merge W M (m_id mf) ''fast_forward_check'' res (MergeProblem (''target '' @ mr_target_branch res @ '' cannot fast-forward to rebased source''))
     else act_bind (if mr_target_path res \<noteq> [] then check_target_changes W M mf res else act_return ()) (\<lambda>_.
       act_bind (if \<not> mr_rebased res \<or> mr_preserved res then check_source_unchanged W M mf res else act_return ()) (\<lambda>_.
       advance_target W M mf res))) ?Q ?E"
    by (intro upholds_if fail_from [OF c m] upholds_bind [OF a] upholds_bind [OF b] advance_upholds [OF c m r n]) (use yes in \<open>simp_all add: placed_under_way\<close>)
qed
qed

section \<open>Rebasing\<close>

text \<open>The end of a merge without an error, as far as the references go.\<close>

definition finished :: "'w merge_view \<Rightarrow> (string \<Rightarrow> string option) \<Rightarrow> merge_result \<Rightarrow> 'w \<Rightarrow> bool" where
  "finished X r0 res w \<longleftrightarrow> started X r0 res \<and> target_at X res w \<and> mr_advanced res
     \<and> mv_refs X w (branch_ref (mr_source_branch res)) = Some (if in_place res then mr_source_new res else mr_source_old res)"

lemma merged_finished: "merged X r0 res w \<Longrightarrow> finished X r0 res w"
  by (simp add: merged_def finished_def placed_def under_way_def source_at_def)

lemma finished_warn [simp]: "finished X r0 (warn res s) = finished X r0 res"
  by (auto simp: finished_def merge_state_defs fun_eq_iff)

lemma ends_steady: "steady (mv_base X) (finished X r0 res)" "steady (mv_base X) (ended X r0 res)"
  by (auto simp: steady_def calm_def finished_def merge_state_defs mv_refs_def)

lemma preserved_steady: "mr_preserved res \<Longrightarrow> steady (mv_base X) (under_way X r0 res)"
  by (auto simp: steady_def calm_def merge_state_defs mv_refs_def)

lemma quiet_calm: "quiet_outside X D w w' \<Longrightarrow> calm (mv_base X) w w'"
  by (simp add: quiet_outside_def)

lemma steadyD: "steady V P \<Longrightarrow> calm V w w' \<Longrightarrow> P w \<Longrightarrow> P w'"
  by (simp add: steady_def)

lemma snapshot_laws:
  assumes "merge_contract W root X"
  shows "quiet_outside X {path} w (snd (add_merge_snapshot W dir path sha w))"
    and "is_ok (fst (add_merge_snapshot W dir path sha w)) \<Longrightarrow> isolated X path (snd (add_merge_snapshot W dir path sha w))"
    and "isolated X path w \<Longrightarrow> quiet_outside X {path} w (snd (rebase_merge_snapshot W path sha w))"
    and "isolated X path w \<Longrightarrow> isolated X path (snd (rebase_merge_snapshot W path sha w))"
    and "quiet_outside X {path} w (snd (worktree_remove W dir path True w))"
proof -
  note law = assms [unfolded merge_contract_def snapshot_law_def, THEN conjunct2, THEN conjunct2, THEN conjunct1]
  show "quiet_outside X {path} w (snd (add_merge_snapshot W dir path sha w))"
    unfolding add_merge_snapshot_def snd_git_run by (rule law [THEN conjunct1, rule_format])
  show "isolated X path (snd (add_merge_snapshot W dir path sha w))" if "is_ok (fst (add_merge_snapshot W dir path sha w))"
    using that unfolding add_merge_snapshot_def snd_git_run fst_git_run
    by (cases "ow_git W dir [''-c'', ''core.hooksPath=/dev/null'', ''worktree'', ''add'', ''--detach'', ''--'', path, sha] w";
        cases "fst (ow_git W dir [''-c'', ''core.hooksPath=/dev/null'', ''worktree'', ''add'', ''--detach'', ''--'', path, sha] w)")
      (auto intro: law [THEN conjunct2, THEN conjunct1, rule_format])
  show "quiet_outside X {path} w (snd (rebase_merge_snapshot W path sha w))" "isolated X path (snd (rebase_merge_snapshot W path sha w))"
    if "isolated X path w"
    unfolding rebase_merge_snapshot_def snd_git_run
    using law [THEN conjunct2, THEN conjunct2, THEN conjunct1, rule_format, OF that, of sha] by (simp_all add: Let_def)
  show "quiet_outside X {path} w (snd (worktree_remove W dir path True w))"
    unfolding worktree_remove_def snd_git_run if_P [OF TrueI] append.simps
    by (rule law [THEN conjunct2, THEN conjunct2, THEN conjunct2, rule_format])
qed

definition outcome_at ::
  "'w merge_view \<Rightarrow> (string \<Rightarrow> string option) \<Rightarrow> (merge_result \<times> merge_error, merge_result) result \<Rightarrow> 'w \<Rightarrow> bool" where
  "outcome_at X r0 r w = (case r of Inl (res, e) \<Rightarrow> ended X r0 res w | Inr res \<Rightarrow> finished X r0 res w)"

lemma warn_outcome_ends: "outcome_at X r0 r w \<Longrightarrow> outcome_at X r0 (warn_outcome s r) w"
  by (auto simp: outcome_at_def warn_outcome_def split: sum.splits prod.splits)

text \<open>Removing the temporary checkout changes nothing of what was reached.\<close>

lemma cleaning_upholds:
  assumes c: "merge_contract W root X" and m: "store_apart M X item root"
    and run: "upholds P act (\<lambda>res. at_git (finished X r0 res)) (at_error (ended X r0))"
  shows "upholds P (cleaning_up W M dir temporary snapshot act) (\<lambda>res. at_git (finished X r0 res)) (at_error (ended X r0))"
proof -
  have G: "outcome_at X r0 r w'" if "outcome_at X r0 r w" "calm (mv_base X) w w'" for r :: "(merge_result \<times> merge_error, merge_result) result" and w w'
    using that steadyD [OF ends_steady(1) that(2)] steadyD [OF ends_steady(2) that(2)] by (auto simp: outcome_at_def split: sum.splits prod.splits)
  have ends: "outcome_at X r0 (fst (cleaning_up W M dir temporary snapshot act y)) (sy_git (snd (cleaning_up W M dir temporary snapshot act y)))" if y: "P y" for y
  proof -
    obtain r y1 where a: "act y = (r, y1)" by fastforce
    have g1: "outcome_at X r0 r (sy_git y1)"
      using upholds_Inl [OF run y] upholds_Inr [OF run y] a by (cases r) (auto simp: outcome_at_def at_git_def at_error_def)
    obtain r2 w2 where b: "worktree_remove W dir snapshot True (sy_git y1) = (r2, w2)" by fastforce
    have g2: "outcome_at X r0 r w2" by (rule G [OF g1]) (use snapshot_laws(5) [OF c, of snapshot "sy_git y1" dir] b in \<open>auto intro: quiet_calm\<close>)
    obtain r3 y3 where d: "me_remove_all M temporary (y1\<lparr>sy_git := w2\<rparr>) = (r3, y3)" by fastforce
    have g3: "outcome_at X r0 r (sy_git y3)"
      by (rule G [OF g2]) (use store_apart_quiet(4) [OF m, of "y1\<lparr>sy_git := w2\<rparr>" temporary] d in \<open>auto intro: quiet_calm\<close>)
    show ?thesis
      unfolding cleaning_up_def a prod.case
      using warn_outcome_ends g2 g3 b d
      by (cases r2; cases r3) (auto simp: on_git_def intro: warn_outcome_ends)
  qed
  show ?thesis
  proof (rule upholdsI)
    show "at_error (ended X r0) e y'" if "P y" "cleaning_up W M dir temporary snapshot act y = (Inl e, y')" for y e y'
      using ends [OF that(1)] that(2) by (cases e) (simp add: outcome_at_def at_error_def)
    show "at_git (finished X r0 res) y'" if "P y" "cleaning_up W M dir temporary snapshot act y = (Inr res, y')" for y res y'
      using ends [OF that(1)] that(2) by (simp add: outcome_at_def at_git_def)
  qed
qed


lemma finish_finished:
  assumes "merge_contract W root X" and "store_apart M X (m_id mf) root" and "operational_root (m_repository mf) = root" and "\<not> mr_advanced res"
  shows "upholds (at_git (placed X r0 res)) (finish_merge W M mf res) (\<lambda>res. at_git (finished X r0 res)) (at_error (ended X r0))"
  by (rule upholds_weaken [OF finish_upholds [OF assms]]) (auto simp: at_git_def merged_finished)

text \<open>What is known when the transaction starts.\<close>

definition fresh_merge :: "merge_result \<Rightarrow> bool" where
  "fresh_merge res \<longleftrightarrow> \<not> mr_advanced res \<and> \<not> mr_rebased res \<and> \<not> mr_preserved res"

definition poised :: "'w merge_view \<Rightarrow> (string \<Rightarrow> string option) \<Rightarrow> merge_result \<Rightarrow> 'w \<Rightarrow> bool" where
  "poised X r0 res w \<longleftrightarrow> under_way X r0 res w \<and> mv_attached X (mr_source_path res) w = Some (mr_source_branch res)
     \<and> mv_rebasing X (mr_source_path res) w = None \<and> fresh_merge res"

lemma poised_warn [simp]: "poised X r0 (warn res s) = poised X r0 res"
  by (auto simp: poised_def fresh_merge_def fun_eq_iff)

lemma poised_tame: "tame X (poised X r0 res)"
  using under_way_tame [of X r0 res] by (auto simp: tame_def poised_def quiet_outside_def)

lemma poised_fresh: "(fresh_merge res \<Longrightarrow> upholds (at_git (poised X r0 res)) m Q E) \<Longrightarrow> upholds (at_git (poised X r0 res)) m Q E"
  by (auto simp: upholds_def at_git_def poised_def)

text \<open>In a temporary checkout.\<close>

lemma snapshot_upholds:
  assumes c: "merge_contract W root X" and m: "store_apart M X (m_id mf) root" and r: "operational_root (m_repository mf) = root"
    and f: "fresh_merge res"
  shows "upholds (at_git (under_way X r0 res)) (rebase_snapshot W M mf res) (\<lambda>res. at_git (finished X r0 res)) (at_error (ended X r0))"
proof -
  define res1 where "res1 = res\<lparr>mr_preserved := True\<rparr>"
  let ?Q = "\<lambda>res. at_git (finished X r0 res)" and ?E = "at_error (ended X r0)" and ?U = "under_way X r0 res1"
  have pre: "under_way X r0 res w = ?U w" for w using f by (simp add: res1_def merge_state_defs fresh_merge_def)
  have U: "steady (mv_base X) ?U" by (rule preserved_steady) (simp add: res1_def)
  have adv: "\<not> mr_advanced res1" using f by (simp add: res1_def fresh_merge_def)
  define work where "work = (\<lambda>snapshot. act_bind (step W M (m_id mf) ''snapshot_checkout'' res1 (\<lambda>e. e)
      (on_git (add_merge_snapshot W root snapshot (mr_source_old res1)))) (\<lambda>_.
    act_bind (outcome (on_git (rebase_merge_snapshot W snapshot (mr_target_old res1)))) (\<lambda>r. case r of
      Inl e \<Rightarrow> act_bind (outcome (on_git (rebase_abort W snapshot))) (\<lambda>a.
        fail_merge W M (m_id mf) ''isolated_rebase'' (case a of Inl e \<Rightarrow> warn res1 (''temporary rebase abort failed: '' @ me_text M e) | Inr _ \<Rightarrow> res1)
          (MergeContext ''isolated rebase failed; source checkout was not modified'' e))
    | Inr _ \<Rightarrow> act_bind (step W M (m_id mf) ''resolve_rebased_head'' res1 (\<lambda>e. e) (on_git (rev_parse W snapshot ''HEAD^{commit}''))) (\<lambda>sha.
        act_bind (note_progress M (m_id mf) ''merge.rebased'' (warn (res1\<lparr>mr_source_new := sha, mr_rebased := True\<rparr>)
          ''rebased committed work in a temporary checkout; source branch and uncommitted changes were left untouched'')) (\<lambda>res.
        finish_merge W M mf res)))))"
  have work: "upholds (at_git ?U) (work snapshot) ?Q ?E" for snapshot
    unfolding work_def
  proof (rule upholds_bind [OF step_upholds [OF c m, where Q = "\<lambda>_ w. ?U w \<and> isolated X snapshot w"]])
    show "upholds (at_git ?U) (on_git (add_merge_snapshot W root snapshot (mr_source_old res1)))
        (\<lambda>_. at_git (\<lambda>w. ?U w \<and> isolated X snapshot w)) (\<lambda>_. at_git ?U)"
      by (rule run_upholds) (simp add: steadyD [OF U quiet_calm [OF snapshot_laws(1) [OF c]]] snapshot_laws(2) [OF c])
    have reb: "keeps (\<lambda>w. ?U w \<and> isolated X snapshot w) (rebase_merge_snapshot W snapshot (mr_target_old res1))"
      by (simp add: keeps_iff steadyD [OF U quiet_calm [OF snapshot_laws(3) [OF c]]] snapshot_laws(4) [OF c])
    have run: "upholds (at_git (\<lambda>w. ?U w \<and> isolated X snapshot w)) (on_git (rebase_abort W snapshot)) (\<lambda>_. at_git ?U) (\<lambda>_. at_git ?U)"
    proof (rule run_upholds)
      fix w assume w: "?U w \<and> isolated X snapshot w"
      have "quiet X w (snd (rebase_abort W snapshot w))"
        using rebase_laws(2) [OF c, where dir = snapshot and w = w] w unfolding rebase_abort_def snd_git_run isolated_def by (auto split: prod.splits)
      then have "?U (snd (rebase_abort W snapshot w))" using steadyD [OF U quiet_calm] w by blast
      then show "if is_ok (fst (rebase_abort W snapshot w)) then ?U (snd (rebase_abort W snapshot w)) else ?U (snd (rebase_abort W snapshot w))"
        by simp
    qed
    have abort: "upholds (at_git (\<lambda>w. ?U w \<and> isolated X snapshot w)) (outcome (on_git (rebase_abort W snapshot))) (\<lambda>_. at_git ?U) ?E"
      by (rule upholds_weaken [OF outcome_upholds [OF run]]) (auto simp: at_git_def split: sum.splits)
    show "upholds (at_git (\<lambda>w. ?U w \<and> isolated X snapshot w)) (act_bind (outcome (on_git (rebase_merge_snapshot W snapshot (mr_target_old res1)))) (\<lambda>r. case r of
      Inl e \<Rightarrow> act_bind (outcome (on_git (rebase_abort W snapshot))) (\<lambda>a.
        fail_merge W M (m_id mf) ''isolated_rebase'' (case a of Inl e \<Rightarrow> warn res1 (''temporary rebase abort failed: '' @ me_text M e) | Inr _ \<Rightarrow> res1)
          (MergeContext ''isolated rebase failed; source checkout was not modified'' e))
    | Inr _ \<Rightarrow> act_bind (step W M (m_id mf) ''resolve_rebased_head'' res1 (\<lambda>e. e) (on_git (rev_parse W snapshot ''HEAD^{commit}''))) (\<lambda>sha.
        act_bind (note_progress M (m_id mf) ''merge.rebased'' (warn (res1\<lparr>mr_source_new := sha, mr_rebased := True\<rparr>)
          ''rebased committed work in a temporary checkout; source branch and uncommitted changes were left untouched'')) (\<lambda>res.
        finish_merge W M mf res)))) ?Q ?E"
    proof (rule upholds_bind [OF outcome_keeps [OF keeps_on_git [OF reb]]])
      fix r :: "(merge_error, unit) result"
      show "upholds (at_git (\<lambda>w. ?U w \<and> isolated X snapshot w)) (case r of
          Inl e \<Rightarrow> act_bind (outcome (on_git (rebase_abort W snapshot))) (\<lambda>a.
            fail_merge W M (m_id mf) ''isolated_rebase'' (case a of Inl e \<Rightarrow> warn res1 (''temporary rebase abort failed: '' @ me_text M e) | Inr _ \<Rightarrow> res1)
              (MergeContext ''isolated rebase failed; source checkout was not modified'' e))
        | Inr _ \<Rightarrow> act_bind (step W M (m_id mf) ''resolve_rebased_head'' res1 (\<lambda>e. e) (on_git (rev_parse W snapshot ''HEAD^{commit}''))) (\<lambda>sha.
            act_bind (note_progress M (m_id mf) ''merge.rebased'' (warn (res1\<lparr>mr_source_new := sha, mr_rebased := True\<rparr>)
              ''rebased committed work in a temporary checkout; source branch and uncommitted changes were left untouched'')) (\<lambda>res.
            finish_merge W M mf res))) ?Q ?E"
      proof (cases r)
        case (Inl e)
        have "upholds (at_git ?U) (fail_merge W M (m_id mf) ''isolated_rebase''
            (case a of Inl e \<Rightarrow> warn res1 s | Inr _ \<Rightarrow> res1) cause) ?Q ?E" for a :: "(merge_error, unit) result" and s cause
          by (rule fail_from [OF c m]) (simp split: sum.split)
        then show ?thesis unfolding Inl sum.case
          by (intro upholds_bind [OF abort]) (auto split: sum.split intro: fail_from [OF c m])
      next
        case (Inr u)
        let ?res2 = "\<lambda>sha. warn (res1\<lparr>mr_source_new := sha, mr_rebased := True\<rparr>)
              ''rebased committed work in a temporary checkout; source branch and uncommitted changes were left untouched''"
        have same: "placed X r0 (?res2 sha) = ?U" for sha
          using adv by (auto simp: res1_def placed_def merge_state_defs fun_eq_iff)
        have go: "upholds (at_git (\<lambda>w. placed X r0 res w \<and> \<not> mr_advanced res)) (finish_merge W M mf res) ?Q ?E" for res
          by (rule upholds_pure) (rule finish_finished [OF c m r])
        have note_step: "upholds (at_git (\<lambda>w. placed X r0 (?res2 sha) w \<and> \<not> mr_advanced (?res2 sha)))
            (note_progress M (m_id mf) ''merge.rebased'' (?res2 sha)) (\<lambda>res. at_git (\<lambda>w. placed X r0 res w \<and> \<not> mr_advanced res)) ?E" for sha
          by (rule note_upholds [OF m, where P = "\<lambda>res w. placed X r0 res w \<and> \<not> mr_advanced res"]) (simp_all add: tame_and placed_tame)
        have rest: "upholds (at_git ?U) (act_bind (note_progress M (m_id mf) ''merge.rebased'' (?res2 sha)) (finish_merge W M mf)) ?Q ?E" for sha
          by (rule upholds_weaken [OF upholds_bind [OF note_step go]]) (use adv in \<open>simp_all add: at_git_def same del: placed_warn\<close>)
        have k: "keeps ?U (rev_parse W snapshot ''HEAD^{commit}'')"
          by (rule stable_reads(1) [OF merge_reading_keeps [OF c steady_tame [OF U]]])
        have "upholds (at_git ?U) (act_bind (step W M (m_id mf) ''resolve_rebased_head'' res1 (\<lambda>e. e) (on_git (rev_parse W snapshot ''HEAD^{commit}'')))
            (\<lambda>sha. act_bind (note_progress M (m_id mf) ''merge.rebased'' (?res2 sha)) (finish_merge W M mf))) ?Q ?E"
          by (rule upholds_bind [OF step_keeps [OF c m k] rest])
        then show ?thesis unfolding Inr sum.case by (rule upholds_weaken) (auto simp: at_git_def)
      qed
    qed
  qed
  show ?thesis
  proof (rule upholds_weaken [where P' = "at_git ?U"])
    show "upholds (at_git ?U) (rebase_snapshot W M mf res) ?Q ?E"
    proof (rule upholdsI)
      have split: "\<exists>m' y1. rebase_snapshot W M mf res y = m' y1 \<and> at_git ?U y1 \<and> upholds (at_git ?U) m' ?Q ?E" if y: "at_git ?U y" for y
      proof -
        obtain t y1 where t: "me_temp M y = (t, y1)" by fastforce
        have u1: "at_git ?U y1" using steadyD [OF U quiet_calm [OF store_apart_quiet(3) [OF m, of y]]] y t by (simp add: at_git_def)
        show ?thesis
        proof (cases t)
          case (Inl e)
          then show ?thesis using t u1 fail_upholds [OF c m, of r0 res1 "''snapshot_create''" e ?Q]
            by (auto simp: rebase_snapshot_def Let_def res1_def [symmetric])
        next
          case (Inr temporary)
          have "rebase_snapshot W M mf res y
            = cleaning_up W M root temporary (path_join [temporary, ''checkout'']) (work (path_join [temporary, ''checkout''])) y1"
            by (simp add: rebase_snapshot_def Let_def t Inr r res1_def [symmetric] work_def)
          then show ?thesis using u1 cleaning_upholds [OF c m work] by blast
        qed
      qed
      show "?E e y'" if "at_git ?U y" "rebase_snapshot W M mf res y = (Inl e, y')" for y e y'
        using split [OF that(1)] that(2) upholds_Inl by metis
      show "?Q x y'" if "at_git ?U y" "rebase_snapshot W M mf res y = (Inr x, y')" for y x y'
        using split [OF that(1)] that(2) upholds_Inr by metis
    qed
  qed (simp_all add: at_git_def pre)
qed


text \<open>In the source's own checkout: after a failed rebase the branch is checked out, or an abort goes back to it.\<close>

definition stuck :: "'w merge_view \<Rightarrow> (string \<Rightarrow> string option) \<Rightarrow> merge_result \<Rightarrow> 'w \<Rightarrow> bool" where
  "stuck X r0 res w \<longleftrightarrow> started X r0 res \<and> target_at X res w \<and> \<not> mr_advanced res
     \<and> (mv_attached X (mr_source_path res) w = Some (mr_source_branch res) \<and> mv_rebasing X (mr_source_path res) w = None
        \<or> mv_rebasing X (mr_source_path res) w = Some (mr_source_branch res))"

text \<open>What the code looks at after the abort: whether it succeeded, and what is checked out.\<close>

definition unstuck :: "'w merge_view \<Rightarrow> (string \<Rightarrow> string option) \<Rightarrow> merge_result \<Rightarrow> bool \<Rightarrow> 'w \<Rightarrow> bool" where
  "unstuck X r0 res aborted w \<longleftrightarrow> started X r0 res \<and> target_at X res w \<and> \<not> mr_advanced res
     \<and> (aborted \<longrightarrow> mv_attached X (mr_source_path res) w = Some (mr_source_branch res))"

lemma unstuck_tame: "tame X (unstuck X r0 res aborted)"
  by (auto simp: tame_def quiet_outside_def calm_def mv_refs_def unstuck_def target_at_def)

lemma abort_upholds:
  assumes c: "merge_contract W root X"
  shows "upholds (at_git (stuck X r0 res)) (outcome (on_git (rebase_abort W (mr_source_path res)))) (\<lambda>r. at_git (unstuck X r0 res (is_ok r))) E"
proof -
  let ?m = "rebase_abort W (mr_source_path res)"
  have "upholds (at_git (stuck X r0 res)) (on_git ?m) (\<lambda>_. at_git (unstuck X r0 res True)) (\<lambda>_. at_git (unstuck X r0 res False))"
  proof (rule run_upholds)
    fix w assume s: "stuck X r0 res w"
    have n: "branch_ref (mr_target_branch res) \<noteq> branch_ref (mr_source_branch res)" using s by (auto simp: stuck_def started_def)
    have "unstuck X r0 res (is_ok (fst (?m w))) (snd (?m w))"
    proof (cases "mv_rebasing X (mr_source_path res) w")
      case None
      have "quiet X w (snd (?m w))"
        using rebase_laws(2) [OF c, where dir = "mr_source_path res" and w = w] None
        unfolding rebase_abort_def snd_git_run by (auto split: prod.splits)
      moreover have "unstuck X r0 res (is_ok (fst (?m w))) w" using s None by (auto simp: stuck_def unstuck_def)
      ultimately show ?thesis by (rule tameD [OF unstuck_tame])
    next
      case (Some b)
      then have b: "mv_rebasing X (mr_source_path res) w = Some (mr_source_branch res)" using s by (auto simp: stuck_def)
      have "mv_refs X (snd (?m w)) (branch_ref (mr_target_branch res)) = mv_refs X w (branch_ref (mr_target_branch res))"
        "is_ok (fst (?m w)) \<Longrightarrow> mv_attached X (mr_source_path res) (snd (?m w)) = Some (mr_source_branch res)"
        using rebase_laws(2) [OF c, where dir = "mr_source_path res" and w = w] b n
        unfolding rebase_abort_def snd_git_run fst_git_run by (auto split: prod.splits)
      then show ?thesis using s by (auto simp: stuck_def unstuck_def target_at_def)
    qed
    then show "if is_ok (fst (?m w)) then unstuck X r0 res True (snd (?m w)) else unstuck X r0 res False (snd (?m w))"
      by (cases "is_ok (fst (?m w))") simp_all
  qed
  note o = outcome_upholds [OF this]
  show ?thesis
  proof (rule upholds_weaken [OF o])
    fix r :: "(merge_error, unit) result" and y :: "('a, 'b) sync_world"
    assume "at_git (\<lambda>w. case r of Inl _ \<Rightarrow> unstuck X r0 res False w | Inr _ \<Rightarrow> unstuck X r0 res True w) y"
    then show "at_git (unstuck X r0 res (is_ok r)) y" by (cases r) simp_all
  qed auto
qed

lemma head_tells:
  assumes c: "merge_contract W root X" and a: "mv_attached X dir w = Some b" and run: "rev_parse W dir ''HEAD^{commit}'' w = (Inr sha, w')"
  shows "mv_refs X w (branch_ref b) = Some sha \<and> valid_commit_sha sha"
proof -
  note law = c [unfolded merge_contract_def head_law_def, THEN conjunct2, THEN conjunct1, THEN conjunct2, THEN conjunct2, THEN conjunct1, rule_format]
  obtain out where out: "ow_git W dir [''rev-parse'', ''--verify'', ''HEAD^{commit}''] w = (Inr out, w')" "sha = trim_space out"
    using run unfolding rev_parse_def git_trimmed_Inr by blast
  show ?thesis using law [OF out(1) a] out(2) by simp
qed

lemma head_upholds:
  assumes c: "merge_contract W root X" and P: "tame X P"
  shows "upholds (at_git P) (on_git (rev_parse W dir ''HEAD^{commit}''))
    (\<lambda>sha. at_git (\<lambda>w. P w \<and> (\<forall>b. mv_attached X dir w = Some b \<longrightarrow> mv_refs X w (branch_ref b) = Some sha \<and> valid_commit_sha sha))) (\<lambda>_. at_git P)"
proof (rule upholds_at_git)
  fix w assume p: "P w"
  let ?m = "rev_parse W dir ''HEAD^{commit}''"
  have q: "quiet X w (snd (?m w))"
    using stable_reads(1) [OF merge_reading_keeps [OF c, of "quiet X w"], of dir "''HEAD^{commit}''"]
    by (auto simp: keeps_iff tame_def quiet_outside_refl quiet_outside_def calm_def)
  have "mv_refs X (snd (?m w)) (branch_ref b) = Some sha \<and> valid_commit_sha sha"
    if "fst (?m w) = Inr sha" "mv_attached X dir (snd (?m w)) = Some b" for sha b
    using head_tells [OF c, of dir w b sha "snd (?m w)"] that quiet_refs [OF q] q by (cases "?m w") (auto simp: quiet_outside_def)
  then show "case fst (?m w) of Inl x \<Rightarrow> P (snd (?m w)) | Inr sha \<Rightarrow> P (snd (?m w)) \<and> (\<forall>b. mv_attached X dir (snd (?m w)) = Some b \<longrightarrow>
      mv_refs X (snd (?m w)) (branch_ref b) = Some sha \<and> valid_commit_sha sha)"
    using tameD [OF P q p] by (auto split: sum.split)
qed

lemma failed_result_state:
  "ended X r0 ((failed_rebase_result M res abort restored)\<lparr>mr_rolled_back := c\<rparr>) = ended X r0 (res\<lparr>mr_rolled_back := c\<rparr>)"
  by (auto simp: failed_rebase_result_def merge_state_defs fun_eq_iff Let_def split: sum.split)

lemma failed_head_upholds:
  fixes abort :: "(merge_error, unit) result"
  assumes c: "merge_contract W root X"
  shows "upholds (at_git (unstuck X r0 res (is_ok abort))) (outcome (on_git (rev_parse W (mr_source_path res) ''HEAD^{commit}'')))
    (\<lambda>head. at_git (ended X r0 ((failed_rebase_result M res abort (head = Inr (mr_source_old res)))
       \<lparr>mr_rolled_back := (is_ok abort \<and> head = Inr (mr_source_old res))\<rparr>))) E"
  unfolding failed_result_state
proof (rule upholds_weaken [OF outcome_upholds [OF head_upholds [OF c unstuck_tame]]])
  fix head :: "(merge_error, string) result" and y :: "('a, 'b) sync_world"
  assume h: "at_git (\<lambda>w. case head of Inl _ \<Rightarrow> unstuck X r0 res (is_ok abort) w
    | Inr sha \<Rightarrow> unstuck X r0 res (is_ok abort) w \<and> (\<forall>b. mv_attached X (mr_source_path res) w = Some b \<longrightarrow>
        mv_refs X w (branch_ref b) = Some sha \<and> valid_commit_sha sha)) y"
  then have "unstuck X r0 res (is_ok abort) (sy_git y)" by (cases head) (simp_all add: at_git_def)
  with h show "at_git (ended X r0 (res\<lparr>mr_rolled_back := (is_ok abort \<and> head = Inr (mr_source_old res))\<rparr>)) y"
    by (cases head) (auto simp: at_git_def unstuck_def ended_def started_def target_at_def)
qed auto

lemma report_upholds:
  assumes m: "store_apart M X item root"
  shows "upholds (at_git (ended X r0 (res\<lparr>mr_rolled_back := b\<rparr>)))
    (act_bind (append_merge_event M i k p res) (\<lambda>res. act_bind (append_merge_event M i k' (p' res) (res\<lparr>mr_rolled_back := b\<rparr>)) (\<lambda>res. act_fail (res, e res))))
    Q (at_error (ended X r0))"
proof (rule upholds_bind [OF append_upholds [OF m, where P = "\<lambda>res. ended X r0 (res\<lparr>mr_rolled_back := b\<rparr>)"]])
  show "ended X r0 (warn res s\<lparr>mr_rolled_back := b\<rparr>) = ended X r0 (res\<lparr>mr_rolled_back := b\<rparr>)" for res s
    by (auto simp: warn_def merge_state_defs fun_eq_iff)
  show "upholds (at_git (ended X r0 (res\<lparr>mr_rolled_back := b\<rparr>))) (act_bind (append_merge_event M i k' (p' res) (res\<lparr>mr_rolled_back := b\<rparr>))
      (\<lambda>res. act_fail (res, e res))) Q (at_error (ended X r0))" for res
    by (rule upholds_bind [OF append_upholds [OF m ended_tame]]) (auto intro!: upholds_fail simp: at_git_def at_error_def)
qed (rule ended_tame)

lemma failed_rebase_upholds:
  assumes c: "merge_contract W root X" and m: "store_apart M X (m_id mf) root"
  shows "upholds (at_git (stuck X r0 res)) (failed_rebase W M mf res cause) Q (at_error (ended X r0))"
  unfolding failed_rebase_def Let_def
  by (rule upholds_bind [OF abort_upholds [OF c]], rule upholds_bind [OF failed_head_upholds [OF c]], rule report_upholds [OF m])

lemma rebase_upholds:
  assumes c: "merge_contract W root X" and f: "fresh_merge res"
  shows "upholds (at_git (poised X r0 res)) (on_git (git_rebase W (mr_source_path res) (mr_target_branch res)))
    (\<lambda>_. at_git (under_way X r0 (res\<lparr>mr_rebased := True\<rparr>))) (\<lambda>_. at_git (stuck X r0 res))"
proof (rule run_upholds)
  fix w assume p: "poised X r0 res w"
  let ?m = "git_rebase W (mr_source_path res) (mr_target_branch res)" and ?b = "mr_source_branch res" and ?t = "trim_space (mr_target_branch res)"
  have law: "(?b \<noteq> ?t \<longrightarrow> mv_refs X (snd (?m w)) (branch_ref ?t) = mv_refs X w (branch_ref ?t))
      \<and> (if is_ok (fst (?m w)) then mv_attached X (mr_source_path res) (snd (?m w)) = Some ?b
         else mv_attached X (mr_source_path res) (snd (?m w)) = Some ?b \<and> mv_rebasing X (mr_source_path res) (snd (?m w)) = None
           \<or> mv_rebasing X (mr_source_path res) (snd (?m w)) = Some ?b)"
    using rebase_laws(1) [OF c, where dir = "mr_source_path res" and w = w and b = ?b and target = ?t] p
    unfolding git_rebase_def snd_git_run fst_git_run poised_def by (simp add: split_beta)
  have t: "plain (mr_target_branch res) \<Longrightarrow> mv_refs X (snd (?m w)) (branch_ref (mr_target_branch res)) = mv_refs X w (branch_ref (mr_target_branch res))"
    using law p by (simp add: poised_def under_way_def started_def plain_def)
  have u: "started X r0 res" "target_at X res (snd (?m w))" "\<not> mr_advanced res" "\<not> mr_rolled_back res"
    using p f t by (auto simp: poised_def under_way_def target_at_def fresh_merge_def)
  show "if is_ok (fst (?m w)) then under_way X r0 (res\<lparr>mr_rebased := True\<rparr>) (snd (?m w)) else stuck X r0 res (snd (?m w))"
    using u law f by (simp add: stuck_def fresh_merge_def) (simp add: merge_state_defs)
qed

lemma rebase_source_upholds:
  assumes c: "merge_contract W root X" and m: "store_apart M X (m_id mf) root" and r: "operational_root (m_repository mf) = root"
    and f: "fresh_merge res"
  shows "upholds (at_git (poised X r0 res)) (rebase_source W M mf res) (\<lambda>res. at_git (finished X r0 res)) (at_error (ended X r0))"
proof -
  let ?Q = "\<lambda>res. at_git (finished X r0 res)" and ?E = "at_error (ended X r0)"
  let ?U = "under_way X r0 (res\<lparr>mr_rebased := True\<rparr>)"
  let ?new = "\<lambda>sha. res\<lparr>mr_rebased := True, mr_source_new := sha\<rparr>"
  have same: "placed X r0 (?new sha) w \<longleftrightarrow> ?U w \<and> mv_refs X w (branch_ref (mr_source_branch res)) = Some sha" for sha w
    using f by (auto simp: placed_def merge_state_defs fresh_merge_def)
  have go: "upholds (at_git (\<lambda>w. placed X r0 res w \<and> \<not> mr_advanced res)) (finish_merge W M mf res) ?Q ?E" for res
    by (rule upholds_pure) (rule finish_finished [OF c m r])
  have note_step: "upholds (at_git (\<lambda>w. placed X r0 (?new sha) w \<and> \<not> mr_advanced (?new sha)))
      (note_progress M (m_id mf) ''merge.rebased'' (?new sha)) (\<lambda>res. at_git (\<lambda>w. placed X r0 res w \<and> \<not> mr_advanced res)) ?E" for sha
    by (rule note_upholds [OF m, where P = "\<lambda>res w. placed X r0 res w \<and> \<not> mr_advanced res"]) (simp_all add: tame_and placed_tame)
  have rest: "upholds (at_git (placed X r0 (?new sha))) (act_bind (note_progress M (m_id mf) ''merge.rebased'' (?new sha)) (finish_merge W M mf)) ?Q ?E" for sha
    by (rule upholds_weaken [OF upholds_bind [OF note_step go]]) (use f in \<open>simp_all add: at_git_def fresh_merge_def\<close>)
  have head: "upholds (at_git ?U) (on_git (rev_parse W (mr_source_path res) ''HEAD^{commit}'') :: ('a, 'b, string) sync_action) (\<lambda>sha. at_git (placed X r0 (?new sha))) (\<lambda>_. at_git ?U)"
  proof (rule upholds_weaken [OF head_upholds [OF c under_way_tame]])
    fix sha and y :: "('a, 'b) sync_world"
    assume y: "at_git (\<lambda>w. ?U w \<and> (\<forall>b. mv_attached X (mr_source_path res) w = Some b \<longrightarrow>
      mv_refs X w (branch_ref b) = Some sha \<and> valid_commit_sha sha)) y"
    then have "mv_attached X (mr_source_path res) (sy_git y) = Some (mr_source_branch res)"
      using f by (simp add: at_git_def under_way_def source_at_def in_place_def fresh_merge_def)
    then show "at_git (placed X r0 (?new sha)) y" using y by (simp add: at_git_def same)
  qed auto
  have resolved: "upholds (at_git ?U) (act_bind (step W M (m_id mf) ''resolve_rebased_head'' (res\<lparr>mr_rebased := True\<rparr>) (\<lambda>e. e)
      (on_git (rev_parse W (mr_source_path res) ''HEAD^{commit}'')))
      (\<lambda>sha. act_bind (note_progress M (m_id mf) ''merge.rebased'' (?new sha)) (finish_merge W M mf))) ?Q ?E"
    by (rule upholds_bind [OF step_upholds [OF c m head] rest])
  have clean: "upholds (at_git (poised X r0 res)) (step W M (m_id mf) ''source_dirty_check'' res (\<lambda>e. e) (on_git (ensure_clean W (mr_source_path res))))
      (\<lambda>_. at_git (poised X r0 res)) ?E"
    by (rule step_keeps [OF c m stable_reads(10) [OF merge_reading_keeps [OF c poised_tame]]]) (simp add: poised_def)
  show ?thesis
    unfolding rebase_source_def Let_def
  proof (rule upholds_bind [OF clean], rule upholds_bind [OF outcome_upholds [OF rebase_upholds [OF c f]]])
    fix r :: "(merge_error, unit) result"
    show "upholds (at_git (\<lambda>w. case r of Inl _ \<Rightarrow> stuck X r0 res w | Inr _ \<Rightarrow> ?U w))
        (case r of Inl e \<Rightarrow> failed_rebase W M mf res e
         | Inr _ \<Rightarrow> act_bind (step W M (m_id mf) ''resolve_rebased_head'' (res\<lparr>mr_rebased := True\<rparr>) (\<lambda>e. e)
             (on_git (rev_parse W (mr_source_path res) ''HEAD^{commit}'')))
             (\<lambda>sha. act_bind (note_progress M (m_id mf) ''merge.rebased'' (?new sha)) (\<lambda>res. finish_merge W M mf res))) ?Q ?E"
      by (cases r) (simp_all add: failed_rebase_upholds [OF c m] resolved)
  qed
qed

lemma transaction_upholds:
  assumes c: "merge_contract W root X" and m: "store_apart M X (m_id mf) root" and r: "operational_root (m_repository mf) = root"
  shows "upholds (at_git (poised X r0 res)) (merge_transaction W M mf res ff) (\<lambda>res. at_git (finished X r0 res)) (at_error (ended X r0))"
  unfolding merge_transaction_def
proof (rule upholds_bind [OF note_upholds [OF m poised_tame poised_warn]], rule poised_fresh)
  fix res assume f: "fresh_merge res"
  let ?P = "at_git (poised X r0 res)" and ?Q = "\<lambda>res. at_git (finished X r0 res)" and ?E = "at_error (ended X r0)"
  have weaker: "?P y \<Longrightarrow> at_git (under_way X r0 res) y" for y :: "('a, 'b) sync_world" by (simp add: at_git_def poised_def)
  have direct: "upholds ?P (finish_merge W M mf (res\<lparr>mr_source_new := mr_source_old res\<rparr>)) ?Q ?E"
    by (rule upholds_weaken [OF finish_finished [OF c m r, where res = "res\<lparr>mr_source_new := mr_source_old res\<rparr>"]])
      (use f in \<open>auto simp: at_git_def poised_def placed_def fresh_merge_def merge_state_defs\<close>)
  have dirty: "upholds ?P (step W M (m_id mf) ''source_dirty_check'' res (\<lambda>e. e) (on_git (has_merge_source_changes W (mr_source_path res)))) (\<lambda>_. ?P) ?E"
    by (rule step_keeps [OF c m merge_reads(2) [OF c poised_tame]]) (simp add: poised_def)
  have snap: "upholds ?P (rebase_snapshot W M mf res) ?Q ?E"
    by (rule upholds_weaken [OF snapshot_upholds [OF c m r f] weaker])
  show "upholds ?P (if ff then finish_merge W M mf (res\<lparr>mr_source_new := mr_source_old res\<rparr>)
      else act_bind (step W M (m_id mf) ''source_dirty_check'' res (\<lambda>e. e) (on_git (has_merge_source_changes W (mr_source_path res)))) (\<lambda>dirty.
        if dirty then rebase_snapshot W M mf res else rebase_source W M mf res)) ?Q ?E"
    by (intro upholds_if direct upholds_bind [OF dirty] snap rebase_source_upholds [OF c m r f])
qed

end
