(* ===== verification/MergeSafety.thy ===== *)
theory MergeSafety
  imports MergeRules
begin

text \<open>
  What a merge can do to a repository (\<open>internal/app/integration_merge.go\<close>, modelled in \<open>Merge\<close>): the rules of the checks
  and of the synchronization before the transaction, and the theorems that hold for every outcome, a failure and a
  rollback at any step included, with a concrete repository in which merges are carried out.
\<close>

section \<open>Before the transaction\<close>

text \<open>The branches as they were or ahead of it, and the source as it was.\<close>

definition ahead_at :: "'w merge_view \<Rightarrow> (string \<Rightarrow> string option) \<Rightarrow> 'w \<Rightarrow> bool" where
  "ahead_at X r0 w \<longleftrightarrow> (\<forall>b old. r0 (branch_ref b) = Some old \<longrightarrow>
     (\<exists>new. mv_refs X w (branch_ref b) = Some new \<and> (gv_ancestor (mv_base X))\<^sup>*\<^sup>* old new))"

definition stopped :: "'w merge_view \<Rightarrow> (string \<Rightarrow> string option) \<Rightarrow> merge_result \<Rightarrow> 'w \<Rightarrow> bool" where
  "stopped X r0 res w \<longleftrightarrow> \<not> mr_rolled_back res \<and> ahead_at X r0 w"

definition begun :: "'w merge_view \<Rightarrow> (string \<Rightarrow> string option) \<Rightarrow> merge_result \<Rightarrow> 'w \<Rightarrow> bool" where
  "begun X r0 res w \<longleftrightarrow> stopped X r0 res w \<and> fresh_merge res
     \<and> (\<forall>v. r0 (branch_ref (mr_source_branch res)) = Some v \<longrightarrow> mv_refs X w (branch_ref (mr_source_branch res)) = Some v)"

definition checked :: "'w merge_view \<Rightarrow> merge_result \<Rightarrow> 'w \<Rightarrow> bool" where
  "checked X res w \<longleftrightarrow> mr_source_branch res \<noteq> [] \<and> mv_attached X (mr_source_path res) w = Some (mr_source_branch res)
     \<and> mv_rebasing X (mr_source_path res) w = None"

lemmas begun_defs = begun_def stopped_def ahead_at_def fresh_merge_def

lemma begun_tame: "tame X (begun X r0 res)"
  by (auto simp: tame_def quiet_outside_def calm_def mv_refs_def begun_defs)

lemma checked_tame: "tame X (checked X res)"
  by (auto simp: tame_def quiet_outside_def checked_def)

lemma tame_conj: "tame X P \<Longrightarrow> tame X Q \<Longrightarrow> tame X (\<lambda>w. P w \<and> Q w)"
  by (auto simp: tame_def)

lemma begun_stopped: "begun X r0 res w \<Longrightarrow> stopped X r0 res w"
  by (simp add: begun_def)

lemma begun_start:
  assumes "\<not> mr_rolled_back res" and "fresh_merge res" and "mv_refs X w = r0"
  shows "begun X r0 res w"
  using assms by (auto simp: begun_def stopped_def ahead_at_def)

text \<open>What the checks of the source tell.\<close>

lemma no_operation_upholds:
  assumes c: "merge_contract W root X" and P: "tame X P"
  shows "upholds (at_git P) (on_git (ensure_no_operation W dir what)) (\<lambda>_. at_git (\<lambda>w. P w \<and> mv_rebasing X dir w = None)) (\<lambda>_. at_git P)"
proof (rule upholds_at_git)
  fix w assume p: "P w"
  let ?m = "ensure_no_operation W dir what"
  have q: "quiet X w (snd (?m w))"
    using stable_reads_more(2) [OF merge_reading_keeps [OF c, of "quiet X w"], of dir what]
    by (auto simp: keeps_iff tame_def quiet_outside_refl quiet_outside_def calm_def)
  note law = c [unfolded merge_contract_def head_law_def, THEN conjunct2, THEN conjunct1, THEN conjunct2, THEN conjunct2, THEN conjunct2,
      THEN conjunct1, rule_format]
  have n: "mv_rebasing X dir w = None" if "fst (?m w) = Inr u" for u
    using law [of dir what w "snd (?m w)"] that by (cases "?m w") simp
  show "case fst (?m w) of Inl x \<Rightarrow> P (snd (?m w)) | Inr x \<Rightarrow> P (snd (?m w)) \<and> mv_rebasing X dir (snd (?m w)) = None"
    using tameD [OF P q p] n q by (auto simp: quiet_outside_def split: sum.split)
qed

lemma current_upholds:
  assumes c: "merge_contract W root X" and P: "tame X P"
  shows "upholds (at_git P) (on_git (current_branch W dir)) (\<lambda>b. at_git (\<lambda>w. P w \<and> (b \<noteq> [] \<longrightarrow> mv_attached X dir w = Some b))) (\<lambda>_. at_git P)"
proof (rule upholds_at_git)
  fix w assume p: "P w"
  let ?m = "current_branch W dir"
  have q: "quiet X w (snd (?m w))"
    using stable_reads(4) [OF merge_reading_keeps [OF c, of "quiet X w"], of dir]
    by (auto simp: keeps_iff tame_def quiet_outside_refl quiet_outside_def calm_def)
  note law = c [unfolded merge_contract_def head_law_def, THEN conjunct2, THEN conjunct1, THEN conjunct2, THEN conjunct1, rule_format]
  have n: "mv_attached X dir w = Some b" if r: "fst (?m w) = Inr b" "b \<noteq> []" for b
  proof -
    obtain out where "ow_git W dir [''branch'', ''--show-current''] w = (Inr out, snd (?m w))" "b = trim_space out"
      using git_trimmed_Inr [of W dir "[''branch'', ''--show-current'']" w b "snd (?m w)"] r unfolding current_branch_def
      by (metis prod.collapse)
    then show ?thesis using law r(2) by blast
  qed
  show "case fst (?m w) of Inl x \<Rightarrow> P (snd (?m w)) | Inr b \<Rightarrow> P (snd (?m w)) \<and> (b \<noteq> [] \<longrightarrow> mv_attached X dir (snd (?m w)) = Some b)"
    using tameD [OF P q p] n q by (auto simp: quiet_outside_def split: sum.split)
qed

definition idle_at :: "'w merge_view \<Rightarrow> (string \<Rightarrow> string option) \<Rightarrow> merge_result \<Rightarrow> string option \<Rightarrow> 'w \<Rightarrow> bool" where
  "idle_at X r0 res branch w \<longleftrightarrow> begun X r0 res w \<and> mv_rebasing X (mr_source_path res) w = None
     \<and> (\<forall>b. branch = Some b \<longrightarrow> b \<noteq> [] \<longrightarrow> mv_attached X (mr_source_path res) w = Some b)"

lemma idle_tame: "tame X (idle_at X r0 res branch)"
  using begun_tame [of X r0 res] by (auto simp: tame_def quiet_outside_def idle_at_def)

lemma idle_stopped: "idle_at X r0 res branch w \<Longrightarrow> stopped X r0 res w"
  by (simp add: idle_at_def begun_stopped)

lemma source_steps:
  assumes c: "merge_contract W root X"
  shows "upholds (at_git (begun X r0 res)) (attempt res f (on_git (ensure_no_operation W (mr_source_path res) what)))
      (\<lambda>_. at_git (idle_at X r0 res None)) (at_error (stopped X r0))"
    and "upholds (at_git (idle_at X r0 res None)) (attempt res f (on_git (current_branch W (mr_source_path res))))
      (\<lambda>b. at_git (idle_at X r0 res (Some b))) (at_error (stopped X r0))"
    and "upholds (at_git (idle_at X r0 res (Some b))) (require okay res s) (\<lambda>_. at_git (\<lambda>w. idle_at X r0 res (Some b) w \<and> okay)) (at_error (stopped X r0))"
    and "upholds (at_git (\<lambda>w. begun X r0 res w \<and> checked X res w)) (attempt res f (on_git (ensure_no_unmerged W (mr_source_path res))))
      (\<lambda>_. at_git (\<lambda>w. begun X r0 res w \<and> checked X res w)) (at_error (stopped X r0))"
proof -
  show "upholds (at_git (begun X r0 res)) (attempt res f (on_git (ensure_no_operation W (mr_source_path res) what)))
      (\<lambda>_. at_git (idle_at X r0 res None)) (at_error (stopped X r0))"
    by (rule attempt_upholds, rule upholds_weaken [OF no_operation_upholds [OF c begun_tame]]) (auto simp: at_git_def idle_at_def begun_stopped)
  show "upholds (at_git (idle_at X r0 res None)) (attempt res f (on_git (current_branch W (mr_source_path res))))
      (\<lambda>b. at_git (idle_at X r0 res (Some b))) (at_error (stopped X r0))"
    by (rule attempt_upholds, rule upholds_weaken [OF current_upholds [OF c idle_tame]]) (auto simp: at_git_def idle_at_def begun_stopped)
  show "upholds (at_git (idle_at X r0 res (Some b))) (require okay res s) (\<lambda>_. at_git (\<lambda>w. idle_at X r0 res (Some b) w \<and> okay)) (at_error (stopped X r0))"
    by (rule require_tells) (rule idle_stopped)
  show "upholds (at_git (\<lambda>w. begun X r0 res w \<and> checked X res w)) (attempt res f (on_git (ensure_no_unmerged W (mr_source_path res))))
      (\<lambda>_. at_git (\<lambda>w. begun X r0 res w \<and> checked X res w)) (at_error (stopped X r0))"
    by (rule attempt_keeps [OF keeps_on_git [OF merge_reads(1) [OF c tame_conj [OF begun_tame checked_tame]]]]) (simp add: begun_stopped)
qed

lemma idle_checked:
  "idle_at X r0 res (Some (mr_source_branch res)) w \<Longrightarrow> mr_source_branch res \<noteq> [] \<Longrightarrow> begun X r0 res w \<and> checked X res w"
  by (simp add: idle_at_def checked_def)

lemma recheck_upholds:
  assumes c: "merge_contract W root X" and s: "mr_source_branch res \<noteq> []"
  shows "upholds (at_git (begun X r0 res)) (recheck_source W res) (\<lambda>_. at_git (\<lambda>w. begun X r0 res w \<and> checked X res w)) (at_error (stopped X r0))"
proof -
  have e: "upholds (at_git (\<lambda>w. idle_at X r0 res (Some b) w \<and> b = mr_source_branch res)) (attempt res f (on_git (ensure_no_unmerged W (mr_source_path res))))
      (\<lambda>_. at_git (\<lambda>w. begun X r0 res w \<and> checked X res w)) (at_error (stopped X r0))" for b f
    by (rule upholds_weaken [OF source_steps(4) [OF c]]) (use s in \<open>auto simp: at_git_def dest: idle_checked\<close>)
  show ?thesis
    unfolding recheck_source_def
    by (rule upholds_bind [OF source_steps(1) [OF c]], rule upholds_bind [OF source_steps(2) [OF c]], rule upholds_bind [OF source_steps(3) [OF c]],
        rule e)
qed

lemma check_source_upholds:
  assumes c: "merge_contract W root X"
  shows "upholds (at_git (begun X r0 res)) (check_source W res) (\<lambda>_. at_git (\<lambda>w. begun X r0 res w \<and> checked X res w)) (at_error (stopped X r0))"
proof -
  have q: "upholds (at_git (\<lambda>w. idle_at X r0 res (Some b) w \<and> b \<noteq> [])) (require (b = mr_source_branch res) res s)
      (\<lambda>_. at_git (\<lambda>w. begun X r0 res w \<and> checked X res w)) (at_error (stopped X r0))" for b s
    by (rule upholds_pure, rule upholds_weaken [OF source_steps(3) [OF c]]) (auto simp: at_git_def dest: idle_checked)
  show ?thesis
    unfolding check_source_def
    by (rule upholds_bind [OF source_steps(1) [OF c]], rule upholds_bind [OF source_steps(2) [OF c]], rule upholds_bind [OF source_steps(3) [OF c]],
        rule upholds_bind [OF q], rule source_steps(4) [OF c])
qed


text \<open>The target, and the synchronization of it when it is the integration branch.\<close>

definition aimed :: "'w merge_view \<Rightarrow> (string \<Rightarrow> string option) \<Rightarrow> merge_result \<Rightarrow> 'w \<Rightarrow> bool" where
  "aimed X r0 res w \<longleftrightarrow> begun X r0 res w \<and> checked X res w \<and> mr_source_branch res \<noteq> mr_target_branch res"

lemma aimed_tame: "tame X (aimed X r0 res)"
  using begun_tame [of X r0 res] checked_tame [of X res] by (auto simp: tame_def aimed_def)

lemma aimed_stopped: "aimed X r0 res w \<Longrightarrow> stopped X r0 res w"
  by (simp add: aimed_def begun_stopped)

lemma begun_checked_target:
  "begun X r0 (res\<lparr>mr_target_branch := t\<rparr>) w = begun X r0 res w" "checked X (res\<lparr>mr_target_branch := t\<rparr>) w = checked X res w"
  "begun X r0 (res\<lparr>mr_sync := z\<rparr>) w = begun X r0 res w"
  by (simp_all add: begun_defs checked_def)

lemma choose_upholds:
  assumes c: "merge_contract W root X"
  shows "upholds (at_git (\<lambda>w. begun X r0 res w \<and> checked X res w)) (choose_target W opts m res) (\<lambda>res. at_git (aimed X r0 res)) (at_error (stopped X r0))"
  unfolding choose_target_def Let_def
proof (rule upholds_bind [where R = "\<lambda>_. at_git (\<lambda>w. begun X r0 res w \<and> checked X res w)"])
  note t = tame_conj [OF begun_tame checked_tame]
  show "upholds (at_git (\<lambda>w. begun X r0 res w \<and> checked X res w))
      (if trim_space (mo_target opts) \<noteq> [] then act_return (trim_space (mo_target opts))
       else if repo_id (m_repository m) \<noteq> [] then act_return (integration_branch (m_repository m))
       else attempt res (\<lambda>e. e) (on_git (default_branch W (operational_root (m_repository m)))))
      (\<lambda>_. at_git (\<lambda>w. begun X r0 res w \<and> checked X res w)) (at_error (stopped X r0))"
    by (intro upholds_if upholds_return attempt_keeps keeps_on_git merge_reads(8) [OF c t]) (auto simp: begun_stopped)
  fix target
  have q: "upholds (at_git (\<lambda>w. begun X r0 res w \<and> checked X res w)) (require (target \<noteq> mr_source_branch res) res s)
      (\<lambda>_. at_git (aimed X r0 (res\<lparr>mr_target_branch := target\<rparr>))) (at_error (stopped X r0))" for s
    by (rule upholds_weaken [OF require_tells [where F = "stopped X r0" and P = "\<lambda>w. begun X r0 res w \<and> checked X res w"]])
      (auto simp: at_git_def aimed_def begun_checked_target begun_stopped)
  show "upholds (at_git (\<lambda>w. begun X r0 res w \<and> checked X res w)) (act_bind
      (require (target \<noteq> mr_source_branch res) res (''target branch '' @ target @ '' is the source branch''))
      (\<lambda>_. act_return (res\<lparr>mr_target_branch := target\<rparr>))) (\<lambda>res. at_git (aimed X r0 res)) (at_error (stopped X r0))"
    by (rule upholds_bind [OF q]) (rule upholds_return)
qed

lemma view_keeps:
  assumes "reading_keeps W P"
  shows "keeps (at_git P) (source_view W E selector)"
  unfolding source_view_def by (intro keeps_intros stable_reads_more(5) [OF assms])

lemma view_db: "keeps (at_db d) (source_view W E selector)"
  unfolding source_view_def by (intro keeps_intros on_git_db)

lemma upholds_snd: "(\<And>y. P y \<Longrightarrow> Q (snd (m y))) \<Longrightarrow> upholds P m (\<lambda>_. Q) (\<lambda>_. Q)"
  by (intro upholdsI) (metis snd_conv)+

lemma view_branch:
  fixes W :: "'w outside" and E :: "'b sync_env"
  assumes "daemon_at W E ident root b d"
  shows "upholds (at_db d) (source_view W E ident) (\<lambda>v _. or_branch (rs_repository v) = b) (\<lambda>_ _. True)"
  unfolding source_view_def
proof (rule upholds_bind [where R = "\<lambda>v _. or_branch (rs_repository v) = b"])
  show "upholds (at_db d) (repository_source E ident :: ('w, 'b, repo_source) sync_action) (\<lambda>v _. or_branch (rs_repository v) = b) (\<lambda>_ _. True)"
    by (rule upholdsI) (use assms in \<open>auto simp: daemon_at_def at_db_def\<close>)
  show "upholds (\<lambda>_. or_branch (rs_repository v) = b) (act_bind (act_try (on_git (branch_upstream W (rs_git_dir v) (or_branch (rs_repository v))))) (\<lambda>up.
      act_return \<lparr>rs_repository = rs_repository v, rs_git_dir = rs_git_dir v, rs_pending = rs_pending v,
        sv_upstream = (case up of Inl _ \<Rightarrow> None | Inr u \<Rightarrow> u), sv_by = ''git'', sv_error = (case up of Inl e \<Rightarrow> Some e | Inr _ \<Rightarrow> None)\<rparr>))
      (\<lambda>v _. or_branch (rs_repository v) = b) (\<lambda>_ _. True)" for v
    by (auto simp: upholds_def act_bind_def act_try_def act_return_def split: prod.split)
qed

lemma upholds_conj:
  "upholds P m Q E \<Longrightarrow> upholds P' m Q' E' \<Longrightarrow> upholds (\<lambda>y. P y \<and> P' y) m (\<lambda>x y. Q x y \<and> Q' x y) (\<lambda>e y. E e y \<and> E' e y)"
  by (auto simp: upholds_def split: prod.splits sum.splits)

text \<open>A fast-forward synchronization keeps every branch or moves it ahead.\<close>

lemma ff_moved_begun:
  assumes b: "begun X r0 res w" and mv: "moved_within (mv_base X) tip (mv_refs X w) (started_by req ''ff'') w'" and n: "mr_source_branch res \<noteq> tip"
  shows "begun X r0 res w'"
proof -
  have o: "mv_refs X w' (branch_ref b) = mv_refs X w (branch_ref b)" if "b \<noteq> tip" "mv_refs X w (branch_ref b) \<noteq> None" for b
    using mv that branch_ref_local [of b] unfolding moved_within_def others_kept_def mv_refs_def by auto
  have t: "\<exists>new. mv_refs X w' (branch_ref tip) = Some new \<and> (gv_ancestor (mv_base X))\<^sup>*\<^sup>* old new" if "mv_refs X w (branch_ref tip) = Some old" for old
    using mv that unfolding moved_within_def moved_by_def started_by_def mv_refs_def by (auto intro: r_into_rtranclp)
  have "\<exists>new. mv_refs X w' (branch_ref br) = Some new \<and> (gv_ancestor (mv_base X))\<^sup>*\<^sup>* old new" if "r0 (branch_ref br) = Some old" for br old
  proof -
    obtain mid where mid: "mv_refs X w (branch_ref br) = Some mid" "(gv_ancestor (mv_base X))\<^sup>*\<^sup>* old mid"
      using b \<open>r0 (branch_ref br) = Some old\<close> unfolding begun_defs by blast
    show ?thesis
    proof (cases "br = tip")
      case True
      then obtain new where "mv_refs X w' (branch_ref br) = Some new" "(gv_ancestor (mv_base X))\<^sup>*\<^sup>* mid new" using t mid(1) by blast
      then show ?thesis using mid(2) by (auto intro: rtranclp_trans)
    next
      case False
      then show ?thesis using o [OF False] mid by simp
    qed
  qed
  moreover have "mv_refs X w' (branch_ref (mr_source_branch res)) = Some v" if "r0 (branch_ref (mr_source_branch res)) = Some v" for v
    using b that o [OF n] unfolding begun_def by simp
  ultimately show ?thesis using b unfolding begun_defs by blast
qed

lemma sync_integration_upholds:
  assumes c: "merge_contract W root X" and d: "daemon_at W E ident root b db" and n: "mr_source_branch res \<noteq> b"
  shows "upholds (\<lambda>y. at_git (begun X r0 res) y \<and> at_db db y) (sync_integration W E ident) (\<lambda>_. at_git (begun X r0 res)) (\<lambda>_. at_git (begun X r0 res))"
    (is "upholds ?P _ _ _")
proof -
  let ?req = "\<lparr>sq_selector = ident, sq_mode = [], sq_confirm_reset = False, sq_expected_local = [], sq_expected_upstream = []\<rparr>"
  have cg: "git_contract W root (mv_base X)" using c by (simp add: merge_contract_def)
  have run: "upholds ?P (repository_sync W E ?req) (\<lambda>_. at_git (begun X r0 res)) (\<lambda>_. at_git (begun X r0 res))"
  proof -
    have "at_git (begun X r0 res) (snd (repository_sync W E ?req y))" if y: "?P y" for y
    proof -
      obtain r y1 where acc: "repository_access W E ident True y = (r, y1)" by fastforce
      have st: "steady (mv_base X) (begun X r0 res)" by (auto simp: steady_def calm_def begun_defs mv_refs_def)
      have k: "at_git (begun X r0 res) y1"
        using sync_reads(3) [OF cg st, of E ident True] y acc by (simp add: keeps_iff) (metis snd_conv)
      show ?thesis
      proof (cases r)
        case (Inl e)
        then have "repository_sync W E ?req y = (Inl e, y1)" using acc by (simp add: repository_sync_def Let_def act_bind_def)
        then show ?thesis using k by simp
      next
        case (Inr source)
        have s: "rs_git_dir source = root" "or_branch (rs_repository source) = b"
          using d y acc Inr unfolding daemon_at_def at_db_def by blast+
        have mode: "request_mode ?req = ''ff''" by (simp add: request_mode_def)
        obtain rr y' where fin: "repository_sync W E ?req y = (rr, y')" by fastforce
        have "moved_within (mv_base X) b (gv_refs (mv_base X) (sy_git y))
            (allowed_plan ?req (plan_in E (or_id (rs_repository source)) (sy_db y))) (sy_git y')"
          using sync_within [where req = ?req and W = W and E = E and y = y and source = source and ?y1.0 = y1 and V = "mv_base X"]
            acc Inr s cg fin by simp
        then have "moved_within (mv_base X) b (mv_refs X (sy_git y)) (started_by ?req ''ff'') (sy_git y')"
          unfolding moved_within_def mv_refs_def allowed_plan_def mode by auto
        then show ?thesis using ff_moved_begun [of X r0 res "sy_git y" b ?req "sy_git y'"] y n fin by (simp add: at_git_def)
      qed
    qed
    then show ?thesis by (rule upholds_snd)
  qed
  have view: "upholds ?P (source_view W E ident) (\<lambda>_. ?P) (\<lambda>_. at_git (begun X r0 res))"
    using upholds_conj [OF view_keeps [OF merge_reading_keeps [OF c begun_tame], unfolded keeps_def] view_db [unfolded keeps_def]]
    by (rule upholds_weaken) auto
  show ?thesis
    unfolding sync_integration_def
    by (rule upholds_bind [OF view], rule upholds_if) (auto simp: refuse_def intro: upholds_fail run)
qed


lemma attempt_any:
  assumes "upholds P m Q (\<lambda>_. at_git (F res))"
  shows "upholds P (attempt res f m) Q (at_error F)"
proof (rule upholdsI)
  show "at_error F e y'" if "P y" "attempt res f m y = (Inl e, y')" for y e y'
    using that upholds_Inl [OF assms, of y] by (auto simp: attempt_def at_error_def at_git_def split: prod.splits sum.splits)
  show "Q x y'" if "P y" "attempt res f m y = (Inr x, y')" for y x y'
    using that upholds_Inr [OF assms, of y] by (auto simp: attempt_def split: prod.splits sum.splits)
qed

definition named :: "merge_result \<Rightarrow> bool" where
  "named res \<longleftrightarrow> mr_source_branch res \<noteq> [] \<and> mr_source_branch res \<noteq> mr_target_branch res"

lemma begun_named_tame: "tame X (\<lambda>w. begun X r0 res w \<and> named res)"
  by (rule tame_and [OF begun_tame])

lemma require_any: "(\<And>y. P y \<Longrightarrow> at_git (F res) y) \<Longrightarrow> upholds P (require c res s) (\<lambda>_. P) (at_error F)"
  unfolding require_def by (rule upholds_check) (auto simp: at_git_def at_error_def)

lemma sync_base_upholds:
  assumes c: "merge_contract W root X" and d: "daemon_at W E (repo_id (m_repository m)) root b db" and n: "named res"
  shows "upholds (\<lambda>y. at_git (begun X r0 res) y \<and> at_db db y) (sync_base W E opts m res)
    (\<lambda>(source, res). at_git (\<lambda>w. begun X r0 res w \<and> named res)) (at_error (stopped X r0))"
    (is "upholds ?P _ ?Q ?E")
proof -
  let ?id = "repo_id (m_repository m)"
  have stop: "?P y \<Longrightarrow> at_git (stopped X r0 res) y" for y by (simp add: at_git_def begun_stopped)
  have req: "upholds ?P (require c res s) (\<lambda>_. ?P) ?E" for c s by (rule require_any) (rule stop)
  have view: "upholds ?P (attempt res f (source_view W E ?id)) (\<lambda>v y. ?P y \<and> or_branch (rs_repository v) = b) ?E" for f
  proof (rule attempt_any)
    have "upholds (\<lambda>y. ?P y \<and> at_db db y) (source_view W E ?id) (\<lambda>v y. ?P y \<and> or_branch (rs_repository v) = b) (\<lambda>e y. ?P y \<and> True)"
      by (rule upholds_conj [OF upholds_conj [OF view_keeps [OF merge_reading_keeps [OF c begun_tame], unfolded keeps_def] view_db [unfolded keeps_def]]
            view_branch [OF d]])
    then show "upholds ?P (source_view W E ?id) (\<lambda>v y. ?P y \<and> or_branch (rs_repository v) = b) (\<lambda>_. at_git (stopped X r0 res))"
      by (rule upholds_weaken) (auto intro: stop)
  qed
  have sync: "upholds ?P (attempt res f (sync_integration W E ?id)) (\<lambda>_. at_git (begun X r0 res)) ?E" if "mr_target_branch res = b" for f
    by (rule attempt_any, rule upholds_weaken [OF sync_integration_upholds [OF c d]])
      (use n that in \<open>auto simp: named_def at_git_def begun_stopped\<close>)
  have fin: "upholds (at_git (begun X r0 res)) (act_return (v, res\<lparr>mr_sync := z\<rparr>)) ?Q ?E" for v and z
    by (rule upholds_return) (use n in \<open>simp add: at_git_def begun_checked_target named_def\<close>)
  have same: "upholds ?P (act_return (v, res)) ?Q ?E" for v
    by (rule upholds_return) (use n in \<open>simp add: at_git_def\<close>)
  have err: "upholds ?P (case sv_error v of None \<Rightarrow> act_return () | Some e \<Rightarrow> if mo_local opts then act_return ()
      else act_fail (res, MergeContext s (OfSync e))) (\<lambda>_. ?P) ?E" for v s
    using stop by (auto simp: at_error_def at_git_def split: option.split intro!: upholds_return upholds_fail)
  have rest: "upholds ?P (act_bind (require (mo_local opts \<or> sv_by v = ''git'') res s1) (\<lambda>_.
     act_bind (require (\<not> rs_pending v) res s2) (\<lambda>_.
     act_bind (case sv_error v of None \<Rightarrow> act_return () | Some e \<Rightarrow> if mo_local opts then act_return ()
       else act_fail (res, MergeContext s3 (OfSync e))) (\<lambda>_.
     if sv_upstream v \<noteq> None \<and> mr_target_branch res = or_branch (rs_repository v) \<and> \<not> mo_local opts
     then act_bind (attempt res f (sync_integration W E ?id)) (\<lambda>done_sync. act_return (v, res\<lparr>mr_sync := Some done_sync\<rparr>))
     else act_return (v, res))))) ?Q ?E" if "or_branch (rs_repository v) = b" for v s1 s2 s3 f
    by (intro upholds_bind [OF req] upholds_bind [OF err] upholds_if upholds_bind [OF sync fin] same) (use that in simp)
  have rest': "upholds (\<lambda>y. ?P y \<and> or_branch (rs_repository v) = b) (act_bind (require (mo_local opts \<or> sv_by v = ''git'') res s1) (\<lambda>_.
     act_bind (require (\<not> rs_pending v) res s2) (\<lambda>_.
     act_bind (case sv_error v of None \<Rightarrow> act_return () | Some e \<Rightarrow> if mo_local opts then act_return ()
       else act_fail (res, MergeContext s3 (OfSync e))) (\<lambda>_.
     if sv_upstream v \<noteq> None \<and> mr_target_branch res = or_branch (rs_repository v) \<and> \<not> mo_local opts
     then act_bind (attempt res f (sync_integration W E ?id)) (\<lambda>done_sync. act_return (v, res\<lparr>mr_sync := Some done_sync\<rparr>))
     else act_return (v, res))))) ?Q ?E" for v s1 s2 s3 f
    by (cases "or_branch (rs_repository v) = b") (use rest in \<open>auto simp: upholds_def\<close>)
  show ?thesis
    unfolding sync_base_def by (rule upholds_bind [OF view rest'])
qed

lemma recheck_base_upholds:
  assumes c: "merge_contract W root X"
  shows "upholds (at_git (\<lambda>w. begun X r0 res w \<and> named res)) (recheck_base W E opts m res source)
    (\<lambda>_. at_git (\<lambda>w. begun X r0 res w \<and> named res)) (at_error (stopped X r0))"
    (is "upholds ?P _ _ ?E")
proof -
  have stop: "?P y \<Longrightarrow> at_git (stopped X r0 res) y" for y by (simp add: at_git_def begun_stopped)
  note k = merge_reading_keeps [OF c begun_named_tame]
  have req: "upholds ?P (require c res s) (\<lambda>_. ?P) ?E" for c s by (rule require_any) (rule stop)
  have view: "upholds ?P (attempt res f (source_view W E ident)) (\<lambda>_. ?P) ?E" for f ident
    by (rule attempt_keeps [OF view_keeps [OF k]]) (simp add: begun_stopped)
  have err: "upholds ?P (case sv_error v of None \<Rightarrow> act_return () | Some e \<Rightarrow> if mo_local opts then act_return ()
      else act_fail (res, MergeContext s (OfSync e))) (\<lambda>_. ?P) ?E" for v s
    using stop by (auto simp: at_error_def at_git_def split: option.split intro!: upholds_return upholds_fail)
  have tip: "upholds ?P (attempt res f (on_git (resolve_branch_sha W dir br))) (\<lambda>_. ?P) ?E" for f dir br
    by (rule attempt_keeps [OF keeps_on_git [OF stable_reads(3) [OF k]]]) (simp add: begun_stopped)
  have last: "upholds ?P (case mr_sync res of None \<Rightarrow> act_return () | Some z \<Rightarrow> act_bind (attempt res f (on_git (resolve_branch_sha W dir br)))
      (\<lambda>sha. require (sha = g z) res s)) (\<lambda>_. ?P) ?E" for f dir br g s
    by (cases "mr_sync res") (auto intro!: upholds_return upholds_bind [OF tip] req)
  show ?thesis
    unfolding recheck_base_def by (rule upholds_bind [OF view], rule upholds_bind [OF err], rule upholds_bind [OF req], rule last)
qed

lemma registered_upholds:
  assumes c: "merge_contract W root X" and d: "daemon_at W E (repo_id (m_repository m)) root b db"
  shows "upholds (\<lambda>y. at_git (aimed X r0 res) y \<and> at_db db y) (registered_preflight W E M opts m res) (\<lambda>res. at_git (aimed X r0 res)) (at_error (stopped X r0))"
proof (cases "named res")
  case False
  then have "\<not> aimed X r0 res w" for w by (auto simp: named_def aimed_def checked_def)
  then show ?thesis by (simp add: upholds_def at_git_def)
next
  case n: True
  let ?P = "\<lambda>y. at_git (begun X r0 res) y \<and> at_db db y" and ?E = "at_error (stopped X r0)"
  let ?B = "\<lambda>res. at_git (\<lambda>w. begun X r0 res w \<and> named res)"
  have stop: "?B res y \<Longrightarrow> at_git (stopped X r0 res) y" for res and y :: "('a, 'b) sync_world" by (simp add: at_git_def begun_stopped)
  have lock: "upholds (?B res) (act_bind (look f) (\<lambda>locked. case locked of Inl e \<Rightarrow> stop res e | Inr _ \<Rightarrow> act_return ())) (\<lambda>_. ?B res) ?E"
    for res and f :: "'a \<Rightarrow> (string, bool) result"
  proof (rule upholds_bind [OF look_upholds])
    show "upholds (?B res) (case locked of Inl e \<Rightarrow> stop res e | Inr _ \<Rightarrow> act_return ()) (\<lambda>_. ?B res) ?E" for locked :: "(string, bool) result"
      by (cases locked) (auto intro!: stop_upholds upholds_return simp: begun_stopped)
  qed
  have recheck: "upholds (?B res) (act_bind (recheck_source W res) (\<lambda>_. act_return res)) (\<lambda>res. at_git (aimed X r0 res)) ?E" for res
  proof (rule upholds_pure)
    assume n: "named res"
    show "upholds (at_git (begun X r0 res)) (act_bind (recheck_source W res) (\<lambda>_. act_return res)) (\<lambda>res. at_git (aimed X r0 res)) ?E"
      by (rule upholds_bind [OF recheck_upholds [OF c]])
        (use n in \<open>auto simp: named_def at_git_def aimed_def intro!: upholds_return\<close>)
  qed
  have go: "upholds (case v of (source, res) \<Rightarrow> ?B res) (case v of (source, res) \<Rightarrow> act_bind (act_bind (look f)
      (\<lambda>locked. case locked of Inl e \<Rightarrow> stop res e | Inr _ \<Rightarrow> act_return ())) (\<lambda>_. act_bind (recheck_base W E opts m res source) (\<lambda>_. act_return res)))
      ?B ?E" for v :: "source_view \<times> merge_result" and f :: "'a \<Rightarrow> (string, bool) result"
    by (cases v) (auto intro!: upholds_bind [OF lock] upholds_bind [OF recheck_base_upholds [OF c]] upholds_return)
  have whole: "upholds ?P (registered_preflight W E M opts m res) (\<lambda>res. at_git (aimed X r0 res)) ?E"
    unfolding registered_preflight_def Let_def
  proof (rule upholds_bind [where R = ?B], rule upholds_if)
    show "upholds ?P (act_bind (sync_base W E opts m res) (\<lambda>(source, res). act_bind
        (act_bind (look (ow_lock W False (integration_lock_path (operational_root (m_repository m)))))
          (\<lambda>locked. case locked of Inl e \<Rightarrow> stop res e | Inr _ \<Rightarrow> act_return ()))
        (\<lambda>_. act_bind (recheck_base W E opts m res source) (\<lambda>_. act_return res)))) ?B ?E"
      by (rule upholds_bind [OF sync_base_upholds [OF c d n]]) (rule go)
    show "upholds ?P (act_bind (act_bind (look (ow_lock W False (integration_lock_path (operational_root (m_repository m)))))
        (\<lambda>locked. case locked of Inl e \<Rightarrow> stop res e | Inr _ \<Rightarrow> act_return ())) (\<lambda>_. act_return res)) ?B ?E"
      by (rule upholds_weaken [where P' = "?B res"], rule upholds_bind [OF lock], rule upholds_return) (use n in \<open>auto simp: at_git_def\<close>)
    show "upholds (?B res) (act_bind (recheck_source W res) (\<lambda>_. act_return res)) (\<lambda>res. at_git (aimed X r0 res)) ?E" for res by (rule recheck)
  qed
  show ?thesis by (rule upholds_weaken [OF whole]) (auto simp: at_git_def aimed_def)
qed


text \<open>The commits to start from.\<close>

definition tipped :: "'w merge_view \<Rightarrow> (string \<Rightarrow> string option) \<Rightarrow> merge_result \<Rightarrow> 'w \<Rightarrow> bool" where
  "tipped X r0 res w \<longleftrightarrow> aimed X r0 res w \<and> mv_refs X w (branch_ref (mr_source_branch res)) = Some (mr_source_old res)
     \<and> valid_commit_sha (mr_source_old res) \<and> (plain (mr_target_branch res) \<longrightarrow> mv_refs X w (branch_ref (mr_target_branch res)) = Some (mr_target_old res))"

lemma tipped_tame: "tame X (tipped X r0 res)"
  using aimed_tame [of X r0 res] by (auto simp: tame_def tipped_def quiet_outside_def calm_def mv_refs_def)

lemma tipped_stopped: "tipped X r0 res w \<Longrightarrow> stopped X r0 res w"
  by (simp add: tipped_def aimed_stopped)

lemma tipped_poised: "tipped X r0 res w \<Longrightarrow> poised X r0 res w"
proof -
  assume t: "tipped X r0 res w"
  have b: "begun X r0 res w" "checked X res w" "mr_source_branch res \<noteq> mr_target_branch res" "valid_commit_sha (mr_source_old res)"
    "mv_refs X w (branch_ref (mr_source_branch res)) = Some (mr_source_old res)"
    "plain (mr_target_branch res) \<Longrightarrow> mv_refs X w (branch_ref (mr_target_branch res)) = Some (mr_target_old res)"
    using t by (simp_all add: tipped_def aimed_def)
  have "r0 (branch_ref (mr_source_branch res)) \<in> {None, Some (mr_source_old res)}"
    using b(1,5) unfolding begun_def by (cases "r0 (branch_ref (mr_source_branch res))") auto
  moreover have "ahead_of X r0 (branch_ref (mr_target_branch res)) (mr_target_old res)" if "plain (mr_target_branch res)"
    using b(1) b(6) [OF that] unfolding begun_def stopped_def ahead_at_def ahead_of_def by fastforce
  ultimately have "started X r0 res" using b(3,4) by (simp add: started_def)
  then show ?thesis using b by (simp add: poised_def under_way_def target_at_def source_at_def in_place_def begun_defs checked_def)
qed

lemma aimed_simps [simp]:
  "aimed X r0 (res\<lparr>mr_source_old := a\<rparr>) w = aimed X r0 res w" "aimed X r0 (res\<lparr>mr_target_old := a\<rparr>) w = aimed X r0 res w"
  "tipped X r0 (res\<lparr>mr_target_path := a\<rparr>) w = tipped X r0 res w" "tipped X r0 (res\<lparr>mr_target_item := a\<rparr>) w = tipped X r0 res w"
  by (simp_all add: tipped_def aimed_def begun_defs checked_def)

lemma stopped_simps [simp]: "stopped X r0 (res\<lparr>mr_source_old := a\<rparr>) w = stopped X r0 res w"
  by (simp add: stopped_def)

lemma resolve_branch_tells:
  assumes "merge_contract W root X" and "resolve_branch_sha W root b w = (Inr sha, w')"
  shows "mv_refs X w (branch_ref (trim_space b)) = Some sha"
  using rev_parse_tells [of W root "mv_base X" "''heads/'' @ trim_space b" w sha w'] assms
  by (simp add: resolve_branch_sha_def merge_contract_def mv_refs_def branch_ref_def)

lemma target_checkout_upholds:
  shows "upholds (at_git (tipped X r0 res)) (check_target_checkout W M m res wt) (\<lambda>res. at_git (tipped X r0 res)) (at_error (stopped X r0))"
proof -
  let ?P = "at_git (tipped X r0 res)" and ?Q = "\<lambda>res. at_git (tipped X r0 res)" and ?E = "at_error (stopped X r0)"
  have halt: "upholds ?P (stop r s) ?Q ?E" if "stopped X r0 r = stopped X r0 res" for r s
    by (rule stop_upholds) (simp add: that tipped_stopped)
  have path: "stopped X r0 (res\<lparr>mr_target_path := p\<rparr>) = stopped X r0 res" for p by (simp add: stopped_def fun_eq_iff)
  have find: "upholds ?P (act_bind (act_ask f) (\<lambda>found. case found of Inr (Some item) \<Rightarrow> act_return (res\<lparr>mr_target_path := p, mr_target_item := m_id item\<rparr>)
      | _ \<Rightarrow> act_return (res\<lparr>mr_target_path := p\<rparr>))) ?Q ?E" for f :: "('a, 'b) sync_world \<Rightarrow> (merge_error, manifest option) result" and p
    by (auto simp: upholds_def act_bind_def act_ask_def act_return_def at_git_def split: sum.splits option.splits)
  have kind: "upholds ?P (case k of Directory \<Rightarrow> act_bind (act_ask f) (\<lambda>found. case found of
        Inr (Some item) \<Rightarrow> act_return (res\<lparr>mr_target_path := p, mr_target_item := m_id item\<rparr>) | _ \<Rightarrow> act_return (res\<lparr>mr_target_path := p\<rparr>))
      | OtherFile \<Rightarrow> stop (res\<lparr>mr_target_path := p\<rparr>) s1 | Missing \<Rightarrow> stop (res\<lparr>mr_target_path := p\<rparr>) s2
      | Unreadable e \<Rightarrow> stop (res\<lparr>mr_target_path := p\<rparr>) s2) ?Q ?E"
    for k and f :: "('a, 'b) sync_world \<Rightarrow> (merge_error, manifest option) result" and p s1 s2
    by (cases k) (auto intro: halt [OF path] find)
  show ?thesis
    unfolding check_target_checkout_def Let_def
  proof (rule upholds_if)
    show "upholds ?P (stop res s) ?Q ?E" for s by (rule halt [OF refl])
    show "upholds ?P (act_bind (look f) (\<lambda>managed. if repo_id (m_repository m) \<noteq> [] \<and> \<not> managed then stop res s
        else act_bind (look g) (\<lambda>k. case k of
          Directory \<Rightarrow> act_bind (act_ask h) (\<lambda>found. case found of
              Inr (Some item) \<Rightarrow> act_return (res\<lparr>mr_target_path := p, mr_target_item := m_id item\<rparr>) | _ \<Rightarrow> act_return (res\<lparr>mr_target_path := p\<rparr>))
        | OtherFile \<Rightarrow> stop (res\<lparr>mr_target_path := p\<rparr>) s1 | Missing \<Rightarrow> stop (res\<lparr>mr_target_path := p\<rparr>) s2
        | Unreadable e \<Rightarrow> stop (res\<lparr>mr_target_path := p\<rparr>) s2))) ?Q ?E"
      for f :: "'a \<Rightarrow> bool" and g and h :: "('a, 'b) sync_world \<Rightarrow> (merge_error, manifest option) result" and s p s1 s2
      by (rule upholds_bind [OF look_upholds], rule upholds_if, rule halt [OF refl], rule upholds_bind [OF look_upholds], rule kind)
  qed
qed

lemma resolve_upholds:
  assumes c: "merge_contract W root X" and r: "operational_root (m_repository m) = root"
  shows "upholds (at_git (aimed X r0 res)) (resolve_tips W M m res) (\<lambda>res. at_git (tipped X r0 res)) (at_error (stopped X r0))"
proof -
  let ?P = "at_git (aimed X r0 res)" and ?Q = "\<lambda>res. at_git (tipped X r0 res)" and ?E = "at_error (stopped X r0)"
  let ?S = "\<lambda>sha w. aimed X r0 res w \<and> mv_refs X w (branch_ref (mr_source_branch res)) = Some sha \<and> valid_commit_sha sha"
  let ?T = "\<lambda>sha told. res\<lparr>mr_source_old := sha, mr_target_old := told\<rparr>"
  have source: "upholds ?P (attempt res f (on_git (rev_parse W (mr_source_path res) ''HEAD^{commit}''))) (\<lambda>sha. at_git (?S sha)) ?E" for f
    by (rule attempt_upholds, rule upholds_weaken [OF head_upholds [OF c aimed_tame]])
      (auto simp: at_git_def aimed_stopped, simp_all add: aimed_def checked_def)
  have S: "tame X (?S sha)" for sha
    using aimed_tame [of X r0 res] by (auto simp: tame_def quiet_outside_def calm_def mv_refs_def)
  have target: "upholds (at_git (?S sha)) (attempt (res\<lparr>mr_source_old := sha\<rparr>) f (on_git (resolve_branch_sha W root (mr_target_branch res))))
      (\<lambda>told. at_git (tipped X r0 (?T sha told))) ?E" for sha f
  proof (rule attempt_upholds, rule upholds_at_git)
    fix w assume p: "?S sha w"
    let ?m = "resolve_branch_sha W root (mr_target_branch res)"
    have q: "quiet X w (snd (?m w))"
      using stable_reads(3) [OF merge_reading_keeps [OF c, of "quiet X w"], of root "mr_target_branch res"]
      by (auto simp: keeps_iff tame_def quiet_outside_refl quiet_outside_def calm_def)
    have "mv_refs X (snd (?m w)) (branch_ref (mr_target_branch res)) = Some told" if "fst (?m w) = Inr told" "plain (mr_target_branch res)" for told
      using resolve_branch_tells [OF c, of "mr_target_branch res" w told "snd (?m w)"] that quiet_refs [OF q]
      by (cases "?m w") (simp add: plain_def)
    then show "case fst (?m w) of Inl x \<Rightarrow> stopped X r0 (res\<lparr>mr_source_old := sha\<rparr>) (snd (?m w))
        | Inr told \<Rightarrow> tipped X r0 (?T sha told) (snd (?m w))"
      using tameD [OF S q p] by (auto simp: tipped_def aimed_stopped split: sum.split)
  qed
  have wt: "upholds (at_git (tipped X r0 res)) (attempt res f (on_git (target_worktree_for_branch W dir br))) (\<lambda>_. at_git (tipped X r0 res)) ?E"
    for res f dir br
    by (rule attempt_keeps [OF keeps_on_git [OF merge_reads(7) [OF c tipped_tame]]]) (rule tipped_stopped)
  have last: "upholds (at_git (tipped X r0 res)) (case wt of None \<Rightarrow> act_return res | Some wt \<Rightarrow> check_target_checkout W M m res wt) ?Q ?E" for res wt
    by (cases wt) (auto intro: upholds_return target_checkout_upholds)
  show ?thesis
    unfolding resolve_tips_def Let_def r
    by (rule upholds_bind [OF source], rule upholds_bind, rule target, rule upholds_bind [OF wt], rule last)
qed

text \<open>The whole merge of a locked item.\<close>

definition halted :: "'w merge_view \<Rightarrow> (string \<Rightarrow> string option) \<Rightarrow> merge_result \<Rightarrow> 'w \<Rightarrow> bool" where
  "halted X r0 res w \<longleftrightarrow> stopped X r0 res w \<or> ended X r0 res w"

lemma at_error_mono: "upholds P m Q (at_error F) \<Longrightarrow> (\<And>res w. F res w \<Longrightarrow> G res w) \<Longrightarrow> upholds P m Q (at_error G)"
  by (erule upholds_weaken) (auto simp: at_error_def)

lemma merge_upholds:
  assumes c: "merge_contract W root X" and s: "store_apart M X (m_id m) root" and r: "operational_root (m_repository m) = root"
    and d: "daemon_at W E (repo_id (m_repository m)) root b db"
  shows "upholds (\<lambda>y. at_git (\<lambda>w. mv_refs X w = r0) y \<and> at_db db y) (merge_locked_item W E M opts m)
    (\<lambda>res. at_git (finished X r0 res)) (at_error (halted X r0))"
proof -
  let ?E = "at_error (stopped X r0)"
  have item: "upholds (\<lambda>y. at_git (\<lambda>w. mv_refs X w = r0) y \<and> at_db db y)
      (check_source_item m (empty_merge_result\<lparr>mr_item := i, mr_source_branch := br\<rparr>)) (\<lambda>res y. at_git (begun X r0 res) y \<and> at_db db y) ?E" for i br
  proof -
    have a: "begun X r0 (empty_merge_result\<lparr>mr_item := i, mr_source_branch := br, mr_source_path := p\<rparr>) w"
      "begun X r0 (empty_merge_result\<lparr>mr_item := i, mr_source_branch := br\<rparr>) w" if "mv_refs X w = r0" for p w
      by (rule begun_start [OF _ _ that]; simp add: empty_merge_result_def fresh_merge_def)+
    show ?thesis
      unfolding check_source_item_def
      by (auto simp: upholds_def act_bind_def require_def act_check_def act_return_def act_fail_def stop_def at_error_def at_git_def at_db_def
          a begun_stopped split: option.splits)
  qed
  have db: "keeps (at_db db) (check_source W res)" "keeps (at_db db) (choose_target W opts m res)" for res
  proof -
    have at: "keeps (at_db db) (attempt res f (on_git g))" for res f and g :: "('a, 'x) git_action"
      by (auto simp: keeps_iff at_db_def attempt_def on_git_unfold split: prod.splits sum.splits)
    have rq: "keeps (at_db db) (require c res s)" for c res s unfolding require_def by (rule keeps_simple)
    show "keeps (at_db db) (check_source W res)" unfolding check_source_def by (intro keeps_intros at rq)
    show "keeps (at_db db) (choose_target W opts m res)" unfolding choose_target_def Let_def by (intro keeps_intros at rq)
  qed
  have src: "upholds (\<lambda>y. at_git (begun X r0 res) y \<and> at_db db y) (check_source W res)
      (\<lambda>_ y. at_git (\<lambda>w. begun X r0 res w \<and> checked X res w) y \<and> at_db db y) ?E" for res
    by (rule upholds_weaken [OF upholds_conj [OF check_source_upholds [OF c] db(1) [unfolded keeps_def]]]) auto
  have tgt: "upholds (\<lambda>y. at_git (\<lambda>w. begun X r0 res w \<and> checked X res w) y \<and> at_db db y) (choose_target W opts m res)
      (\<lambda>res y. at_git (aimed X r0 res) y \<and> at_db db y) ?E" for res
    by (rule upholds_weaken [OF upholds_conj [OF choose_upholds [OF c] db(2) [unfolded keeps_def]]]) auto
  have reg: "upholds (\<lambda>y. at_git (aimed X r0 res) y \<and> at_db db y)
      (if repo_id (m_repository m) \<noteq> [] then registered_preflight W E M opts m res else act_return res) (\<lambda>res. at_git (aimed X r0 res)) ?E" for res
    by (rule upholds_if, rule registered_upholds [OF c d], rule upholds_return) simp
  have anc: "upholds (at_git (tipped X r0 res)) (attempt res f (on_git (is_ancestor W dir x z))) (\<lambda>_. at_git (tipped X r0 res)) ?E" for res f dir x z
    by (rule attempt_keeps [OF keeps_on_git [OF stable_reads(6) [OF merge_reading_keeps [OF c tipped_tame]]]]) (rule tipped_stopped)
  have tx: "upholds (at_git (tipped X r0 res)) (merge_transaction W M m res ff) (\<lambda>res. at_git (finished X r0 res)) (at_error (halted X r0))" for res ff
    by (rule upholds_weaken [OF at_error_mono [OF transaction_upholds [OF c s r]]]) (auto simp: at_git_def tipped_poised halted_def)
  note early = at_error_mono [where F = "stopped X r0" and G = "halted X r0"]
  show ?thesis
    unfolding merge_locked_item_def Let_def
    by (rule upholds_bind [OF early [OF item]], simp add: halted_def, rule upholds_bind [OF early [OF src]], simp add: halted_def,
        rule upholds_bind [OF early [OF tgt]], simp add: halted_def, rule upholds_bind [OF early [OF reg]], simp add: halted_def,
        rule upholds_bind [OF early [OF resolve_upholds [OF c r]]], simp add: halted_def,
        rule upholds_bind [OF early [OF anc]], simp add: halted_def, rule tx)
qed


section \<open>A concrete merge\<close>

text \<open>The small Git of \<open>SyncSafety\<close> with a checkout in which the branch \<open>work\<close> is checked out. A rebase conflicts and can be
  aborted.\<close>

definition demo_merge_git :: "string \<Rightarrow> string list \<Rightarrow> (ref_map, int option \<times> string, string) action" where
  "demo_merge_git dir args w =
     (if args = [''branch'', ''--show-current''] then (Inr (if dir = ''/w'' then ''work'' else []), w)
      else if args = [''rev-parse'', ''--verify'', ''HEAD^{commit}'']
      then (case w ''refs/heads/work'' of
          Some s \<Rightarrow> if dir = ''/w'' \<and> valid_commit_sha s \<and> trim_space s = s then (Inr s, w) else (Inl (Some 128, []), w)
        | None \<Rightarrow> (Inl (Some 128, []), w))
      else if take 2 args = [''rev-parse'', ''--git-path''] then (Inr (last args), w)
      else if args = [''ls-files'', ''--unmerged'', ''-z''] \<or> take 1 args = [''status''] \<or> args = [''rebase'', ''--abort''] then (Inr [], w)
      else demo_git dir args w)"

definition demo_merge_outside :: "ref_map outside" where
  "demo_merge_outside = demo_outside\<lparr>ow_git := demo_merge_git\<rparr>"

definition demo_merge_view :: "ref_map merge_view" where
  "demo_merge_view = \<lparr>mv_base = demo_view, mv_attached = (\<lambda>p w. if p = ''/w'' then Some ''work'' else None), mv_rebasing = (\<lambda>p w. None)\<rparr>"

definition demo_item :: manifest where
  "demo_item = zero_manifest\<lparr>m_id := ''I'', m_state := state_active, m_repository := zero_repository\<lparr>root_at_creation := demo_store\<rparr>,
     m_checkout := zero_checkout\<lparr>co_specification := \<lparr>cs_kind = [], cs_executor = [], cs_branch = ''work''\<rparr>,
       co_claim := Some \<lparr>wc_id = [], wc_generation = 0, wc_executor = [], wc_repository_key = [], wc_slot = [], wc_path = ''/w''\<rparr>\<rparr>\<rparr>"

definition demo_merge_env :: "(ref_map, (string \<times> stored) list) merge_env" where
  "demo_merge_env = \<lparr>me_text = (\<lambda>e. ''error''), me_daemon = False, me_worktrees = [], me_session = (\<lambda>y. []),
     me_resolve = (\<lambda>s y. (Inr demo_item, y)), me_find = (\<lambda>p y. Inr None), me_lock_path = (\<lambda>i. i), me_load = (\<lambda>i y. (Inr demo_item, y)),
     me_append = (\<lambda>i k a d y. (Inr (), y)), me_temp = (\<lambda>y. (Inr ''/tmp'', y)), me_remove_all = (\<lambda>p y. (Inr (), y))\<rparr>"

definition demo_merge_options :: merge_options where
  "demo_merge_options = \<lparr>mo_selector = ''I'', mo_target = ''main'', mo_cwd = [], mo_env = [], mo_local = False\<rparr>"

text \<open>The branches before a fast-forward, and before a merge that conflicts.\<close>

definition demo_ahead :: ref_map where
  "demo_ahead = [''refs/heads/main'' \<mapsto> demo_old, ''refs/heads/work'' \<mapsto> demo_up]"

definition demo_apart :: ref_map where
  "demo_apart = [''refs/heads/main'' \<mapsto> demo_up, ''refs/heads/work'' \<mapsto> demo_old]"

definition demo_before :: "ref_map \<Rightarrow> (ref_map, (string \<times> stored) list) sync_world" where
  "demo_before refs = demo_world\<lparr>sy_git := refs\<rparr>"

lemma demo_merge_simps [simp]:
  "ow_git demo_merge_outside = demo_merge_git" "ow_stat demo_merge_outside = (\<lambda>p w. Missing)"
  "mv_base demo_merge_view = demo_view" "mv_attached demo_merge_view p w = (if p = ''/w'' then Some ''work'' else None)"
  "mv_rebasing demo_merge_view p w = None" "sy_git (demo_before refs) = refs" "sy_db (demo_before refs) = sy_db demo_world"
  "m_id demo_item = ''I''" "operational_root (m_repository demo_item) = demo_store" "repo_id (m_repository demo_item) = []"
  by (simp_all add: demo_merge_outside_def demo_merge_view_def demo_before_def demo_item_def zero_manifest_def zero_repository_def
      operational_root_def demo_spaces)

lemma demo_quiet: "quiet_outside demo_merge_view D w w' \<longleftrightarrow> w' = w"
  by (auto simp: quiet_outside_def)

lemma demo_refs_of: "mv_refs demo_merge_view w = w"
  by (simp add: mv_refs_def)

lemma demo_merge_git_reads:
  "take 1 args \<noteq> [''update-ref''] \<Longrightarrow> take 1 args \<noteq> [''fetch''] \<Longrightarrow> snd (demo_merge_git dir args w) = w"
  by (simp add: demo_merge_git_def demo_git_reads split: option.split)

lemma merge_reading_first: "merge_reading args \<Longrightarrow> take 1 args \<noteq> [''update-ref''] \<and> take 1 args \<noteq> [''fetch'']"
  using reading_first [of args] by (cases args; cases "tl args") (auto simp: merge_reading_def)

lemma demo_merge_git_other:
  "args \<noteq> [] \<Longrightarrow> hd args \<in> {''update-ref'', ''fetch'', ''merge-base'', ''worktree'', ''merge'', ''-c'', ''reset''} \<Longrightarrow>
   demo_merge_git dir args w = demo_git dir args w"
  by (cases args) (auto simp: demo_merge_git_def)

lemma demo_merge_git_contract: "git_contract demo_merge_outside demo_store demo_view"
proof -
  have "reading_law demo_merge_outside demo_store demo_view"
    unfolding reading_law_def
  proof (intro conjI allI impI)
    show "calm demo_view w (snd (ow_git demo_merge_outside dir args w))" if "reading_command args" for dir args w
      using reading_first [OF that] by (simp add: demo_merge_git_reads)
    show "gv_refs demo_view w (''refs/'' @ name) = Some (trim_space out)"
      if "ow_git demo_merge_outside demo_store [''rev-parse'', ''--verify'', ''refs/'' @ name @ ''^{commit}''] w = (Inr out, w')" for name w out w'
      using that by (auto simp: demo_merge_git_def demo_git_def demo_lookup_def demo_answers_def demo_old_def demo_up_def trim_suffix_def has_suffix_def
        has_prefix_def split: option.splits if_splits)
    show "gv_ancestor demo_view a b" "b \<noteq> zeros b"
      if "ow_git demo_merge_outside dir [''merge-base'', ''--is-ancestor'', a, b] w = (Inr out, w')" for dir a b w out w'
      using that demo_merge_base [of dir a b w out w'] by (simp_all add: demo_merge_git_other)
  qed simp
  moreover have "update_law demo_merge_outside demo_store demo_view"
    by (simp add: update_law_def swaps_def demo_merge_git_other demo_git_def demo_answers_def demo_swap_def)
  moreover have "fetch_law demo_merge_outside demo_view"
    by (auto simp: fetch_law_def demo_merge_git_other demo_git_def demo_answers_def has_prefix_def Let_def)
  moreover have "checkout_law demo_merge_outside demo_view"
    by (auto simp: checkout_law_def demo_merge_git_reads) (simp add: demo_merge_outside_def demo_outside_def)
  ultimately show ?thesis by (simp add: git_contract_def)
qed

lemma demo_merge_contract: "merge_contract demo_merge_outside demo_store demo_merge_view"
proof -
  have h: "head_law demo_merge_outside demo_merge_view"
    unfolding head_law_def demo_quiet demo_refs_of
  proof (intro conjI allI impI)
    show "snd (ow_git demo_merge_outside dir args w) = w" if "merge_reading args" for dir args w
      using merge_reading_first [OF that] by (simp add: demo_merge_git_reads)
    show "mv_attached demo_merge_view dir w = Some (trim_space out)"
      if "ow_git demo_merge_outside dir [''branch'', ''--show-current''] w = (Inr out, w')" "trim_space out \<noteq> []" for dir w out w'
      using that by (auto simp: demo_merge_git_def go_eval split: if_splits)
    show "w (branch_ref b) = Some (trim_space out)" "valid_commit_sha (trim_space out)"
      if "ow_git demo_merge_outside dir [''rev-parse'', ''--verify'', ''HEAD^{commit}''] w = (Inr out, w')" "mv_attached demo_merge_view dir w = Some b"
      for dir b w out w'
      using that by (auto simp: demo_merge_git_def branch_ref_def split: if_splits option.splits)
  qed simp_all
  have r: "snapshot_law demo_merge_outside demo_merge_view"
    unfolding snapshot_law_def demo_quiet by (auto simp: demo_merge_git_reads isolated_def Let_def)
  have "rebase_law demo_merge_outside demo_merge_view"
    unfolding rebase_law_def demo_quiet demo_refs_of
    by (auto simp: demo_merge_git_def demo_git_def demo_answers_def demo_lookup_def split: prod.splits)
  with h r demo_merge_git_contract show ?thesis by (simp add: merge_contract_def)
qed

lemma demo_apart_store: "store_apart demo_merge_env demo_merge_view ''I'' demo_store"
  by (auto simp: store_apart_def demo_quiet demo_merge_env_def)


lemma demo_unregistered: "sy_db y = sy_db demo_world \<Longrightarrow> \<exists>e. repository_source demo_env [] y = (Inl e, y)"
  using demo_repos by (auto simp: repository_source_def demo_env_def act_bind_def on_db_def demo_repo_def refuse_def act_fail_def)

lemma demo_daemon: "daemon_at demo_merge_outside demo_env [] root b (sy_db demo_world)"
proof -
  have "fst (repository_access demo_merge_outside demo_env [] True y) \<noteq> Inr v" if "sy_db y = sy_db demo_world" for y v
    using demo_unregistered [OF that] by (auto simp: repository_access_def act_bind_def)
  moreover have "fst (repository_source demo_env [] y) \<noteq> Inr v" if "sy_db y = sy_db demo_world" for y :: "(ref_map, (string \<times> stored) list) sync_world" and v
    using demo_unregistered [OF that] by auto
  ultimately show ?thesis unfolding daemon_at_def by (metis fst_conv)
qed

lemmas demo_merge_run = demo_merge_git_def git_trimmed_def git_output_def git_run_def git_decides_def act_bind_def act_return_def act_try_def act_check_def
  act_ask_def act_fail_def

lemma demo_source_checks:
  "ensure_no_operation demo_merge_outside ''/w'' what w = (Inr (), w)"
  "current_branch demo_merge_outside ''/w'' w = (Inr ''work'', w)"
  "ensure_no_unmerged demo_merge_outside ''/w'' w = (Inr (), w)"
  "has_merge_source_changes demo_merge_outside ''/w'' w = (Inr False, w)"
  "ensure_clean demo_merge_outside ''/w'' w = (Inr (), w)"
  "rebase_abort demo_merge_outside ''/w'' w = (Inr (), w)"
  by (simp_all add: ensure_no_operation_def no_marker_def git_path_def current_branch_def ensure_no_unmerged_def has_merge_source_changes_def
      ensure_clean_def rebase_abort_def demo_merge_run go_eval is_abs_def path_join_def path_clean_def)

lemma demo_shas: "valid_commit_sha demo_old" "valid_commit_sha demo_up"
  by (simp_all add: valid_commit_sha_def hex_char_def demo_old_def demo_up_def)

lemma demo_tips:
  "rev_parse demo_merge_outside ''/w'' ''HEAD^{commit}'' demo_ahead = (Inr demo_up, demo_ahead)"
  "rev_parse demo_merge_outside ''/w'' ''HEAD^{commit}'' demo_apart = (Inr demo_old, demo_apart)"
  "resolve_branch_sha demo_merge_outside demo_store ''main'' demo_ahead = (Inr demo_old, demo_ahead)"
  "resolve_branch_sha demo_merge_outside demo_store ''main'' (demo_ahead(''refs/heads/main'' \<mapsto> demo_up))
     = (Inr demo_up, demo_ahead(''refs/heads/main'' \<mapsto> demo_up))"
  "resolve_branch_sha demo_merge_outside demo_store ''main'' demo_apart = (Inr demo_up, demo_apart)"
  by (simp_all add: rev_parse_def resolve_branch_sha_def demo_merge_run demo_shas demo_spaces demo_ahead_def demo_apart_def)
    (simp_all add: demo_git_def demo_lookup_def demo_answers_def demo_old_def demo_up_def trim_suffix_def has_suffix_def has_prefix_def go_eval)

lemma demo_no_worktree: "target_worktree_for_branch demo_merge_outside demo_store b w = (Inr None, w)"
  by (simp add: target_worktree_for_branch_def list_worktrees_def demo_merge_run demo_git_def demo_answers_def parse_worktree_list_def go_eval
      split_string.simps)

lemma demo_forward:
  "is_ancestor demo_merge_outside demo_store demo_old demo_up w = (Inr True, w)"
  "is_ancestor demo_merge_outside demo_store demo_up demo_old w = (Inr False, w)"
  by (simp_all add: is_ancestor_def demo_merge_run demo_git_def demo_answers_def demo_lookup_def demo_old_def demo_up_def)

lemma demo_conflict: "\<exists>e. git_rebase demo_merge_outside ''/w'' ''main'' w = (Inl e, w)"
  by (simp add: git_rebase_def demo_merge_run demo_git_def demo_answers_def demo_lookup_def)

lemma demo_advance:
  "update_ref demo_merge_outside demo_store ''refs/heads/main'' demo_up demo_old m demo_ahead = (Inr (), demo_ahead(''refs/heads/main'' := Some demo_up))"
  by (simp add: update_ref_def demo_merge_run demo_git_def demo_answers_def demo_swap_def demo_ref_values demo_ahead_def)


lemma demo_env_simps [simp]:
  "me_append demo_merge_env i k a d y = (Inr (), y)" "me_load demo_merge_env i y = (Inr demo_item, y)" "me_text demo_merge_env e = ''error''"
  by (simp_all add: demo_merge_env_def)

lemma demo_git_step: "on_git m (demo_before w) = (case m w of (Inl e, w') \<Rightarrow> (Inl (OfGit e), demo_before w') | (Inr x, w') \<Rightarrow> (Inr x, demo_before w'))"
  by (simp add: on_git_def demo_before_def split: prod.split sum.split)

definition demo_start :: merge_result where
  "demo_start = empty_merge_result\<lparr>mr_item := ''I'', mr_source_branch := ''work'', mr_source_path := ''/w'', mr_target_branch := ''main''\<rparr>"

lemmas merge_steps = act_bind_def act_return_def act_check_def act_fail_def act_ask_def attempt_def require_def outcome_def stop_def step_def
  note_progress_def append_merge_event_def look_def

lemma demo_preflight:
  "check_source_item demo_item (empty_merge_result\<lparr>mr_item := ''I'', mr_source_branch := ''work''\<rparr>) y
     = (Inr (empty_merge_result\<lparr>mr_item := ''I'', mr_source_branch := ''work'', mr_source_path := ''/w''\<rparr>), y)"
  "check_source demo_merge_outside (empty_merge_result\<lparr>mr_item := ''I'', mr_source_branch := ''work'', mr_source_path := ''/w''\<rparr>) (demo_before w)
     = (Inr (), demo_before w)"
  "choose_target demo_merge_outside demo_merge_options demo_item
      (empty_merge_result\<lparr>mr_item := ''I'', mr_source_branch := ''work'', mr_source_path := ''/w''\<rparr>) (demo_before w) = (Inr demo_start, demo_before w)"
  by (simp_all add: check_source_item_def check_source_def choose_target_def merge_steps demo_git_step demo_source_checks demo_start_def
      demo_merge_options_def go_eval)
    (simp add: demo_item_def go_eval act_return_def)

lemma demo_item_branch: "trim_space (cs_branch (co_specification (m_checkout demo_item))) = ''work''"
  by (simp add: demo_item_def go_eval)

lemma demo_start_simps [simp]:
  "mr_source_path demo_start = ''/w''" "mr_source_branch demo_start = ''work''" "mr_target_branch demo_start = ''main''"
  "mr_rebased demo_start = False" "mr_preserved demo_start = False" "mr_advanced demo_start = False" "mr_target_path demo_start = []"
  by (simp_all add: demo_start_def empty_merge_result_def)

lemma demo_fast_forward:
  "\<exists>res y'. merge_locked_item demo_merge_outside demo_env demo_merge_env demo_merge_options demo_item (demo_before demo_ahead) = (Inr res, y')
     \<and> mr_target_branch res = ''main'' \<and> sy_git y' ''refs/heads/main'' = Some demo_up"
  by (simp add: merge_locked_item_def Let_def act_bind_def demo_item_branch demo_preflight act_return_def resolve_tips_def attempt_def demo_git_step
      demo_tips demo_no_worktree demo_forward merge_transaction_def note_progress_def append_merge_event_def finish_merge_def step_def outcome_def
      check_source_unchanged_def demo_source_checks advance_target_def demo_advance split: prod.split sum.split)

lemma demo_rollback:
  "\<exists>res e y'. merge_locked_item demo_merge_outside demo_env demo_merge_env demo_merge_options demo_item (demo_before demo_apart) = (Inl (res, e), y')
     \<and> mr_target_branch res = ''main'' \<and> mr_rolled_back res"
proof -
  obtain e where e: "git_rebase demo_merge_outside ''/w'' ''main'' demo_apart = (Inl e, demo_apart)" using demo_conflict by blast
  show ?thesis
    by (simp add: merge_locked_item_def Let_def act_bind_def demo_item_branch demo_preflight act_return_def resolve_tips_def attempt_def demo_git_step
        demo_tips demo_no_worktree demo_forward merge_transaction_def note_progress_def append_merge_event_def step_def outcome_def
        demo_source_checks rebase_source_def e failed_rebase_def failed_rebase_result_def act_fail_def)
qed

section \<open>The theorems\<close>

definition result_of :: "(merge_result \<times> merge_error, merge_result) result \<Rightarrow> merge_result" where
  "result_of r = (case r of Inl (res, e) \<Rightarrow> res | Inr res \<Rightarrow> res)"

text \<open>A reference names what it named or a commit that descends from it.\<close>

definition moves_ahead :: "(string \<Rightarrow> string \<Rightarrow> bool) \<Rightarrow> string \<Rightarrow> (string \<Rightarrow> string option) \<Rightarrow> (string \<Rightarrow> string option) \<Rightarrow> bool" where
  "moves_ahead ancestor ref r0 r \<longleftrightarrow> (\<forall>old. r0 ref = Some old \<longrightarrow> (\<exists>new. r ref = Some new \<and> ancestor\<^sup>*\<^sup>* old new))"

lemma merge_outcomes:
  assumes "merge_contract W root X" and "store_apart M X (m_id m) root" and "operational_root (m_repository m) = root"
    and "daemon_at W E (repo_id (m_repository m)) root b (sy_db y)" and "merge_locked_item W E M opts m y = (r, y')"
  shows "case r of Inl (res, e) \<Rightarrow> halted X (mv_refs X (sy_git y)) res (sy_git y') | Inr res \<Rightarrow> finished X (mv_refs X (sy_git y)) res (sy_git y')"
proof -
  note u = merge_upholds [OF assms(1-4), where opts = opts and ?r0.0 = "mv_refs X (sy_git y)"]
  have p: "at_git (\<lambda>w. mv_refs X w = mv_refs X (sy_git y)) y \<and> at_db (sy_db y) y" by (simp add: at_git_def at_db_def)
  show ?thesis
    using upholds_Inl [OF u p] upholds_Inr [OF u p] assms(5) by (cases r) (auto simp: at_git_def at_error_def split: prod.split)
qed

text \<open>C23: Whatever a merge does and wherever it fails, its target branch ends where it was or ahead of it: the commits it had
  are not lost, the synchronization of the integration branch before the merge included.\<close>

theorem merge_only_advances:
  assumes "merge_contract W root X" and "store_apart M X (m_id m) root" and "operational_root (m_repository m) = root"
    and "daemon_at W E (repo_id (m_repository m)) root b (sy_db y)" and "merge_locked_item W E M opts m y = (r, y')"
    and "plain (mr_target_branch (result_of r))"
  shows "moves_ahead (gv_ancestor (mv_base X)) (branch_ref (mr_target_branch (result_of r))) (mv_refs X (sy_git y)) (mv_refs X (sy_git y'))"
proof -
  let ?r0 = "mv_refs X (sy_git y)" and ?res = "result_of r"
  have "started X ?r0 ?res \<and> target_at X ?res (sy_git y') \<or> ahead_at X ?r0 (sy_git y')"
    using merge_outcomes [OF assms(1-5)]
    by (auto simp: result_of_def halted_def stopped_def ended_def finished_def split: sum.splits prod.splits)
  then show ?thesis
  proof
    assume s: "started X ?r0 ?res \<and> target_at X ?res (sy_git y')"
    have "(gv_ancestor (mv_base X))\<^sup>*\<^sup>* (mr_target_old ?res) (if mr_advanced ?res then mr_source_new ?res else mr_target_old ?res)"
      using s by (auto simp: target_at_def)
    moreover have "mv_refs X (sy_git y') (branch_ref (mr_target_branch ?res)) = Some (if mr_advanced ?res then mr_source_new ?res else mr_target_old ?res)"
      using s assms(6) by (simp add: target_at_def)
    ultimately show ?thesis
      using s assms(6) unfolding moves_ahead_def started_def ahead_of_def by (blast intro: rtranclp_trans)
  qed (simp add: ahead_at_def moves_ahead_def)
qed

theorem merge_only_advances_witness:
  "\<exists>r y'. merge_locked_item demo_merge_outside demo_env demo_merge_env demo_merge_options demo_item (demo_before demo_ahead) = (r, y')
     \<and> mr_target_branch (result_of r) = ''main'' \<and> sy_git y' ''refs/heads/main'' = Some demo_up
     \<and> moves_ahead (gv_ancestor demo_view) (branch_ref ''main'') demo_ahead (sy_git y')"
proof -
  obtain res y' where run: "merge_locked_item demo_merge_outside demo_env demo_merge_env demo_merge_options demo_item (demo_before demo_ahead) = (Inr res, y')"
    and res: "mr_target_branch res = ''main''" "sy_git y' ''refs/heads/main'' = Some demo_up"
    using demo_fast_forward by blast
  have "moves_ahead (gv_ancestor (mv_base demo_merge_view)) (branch_ref (mr_target_branch (result_of (Inr res))))
      (mv_refs demo_merge_view (sy_git (demo_before demo_ahead))) (mv_refs demo_merge_view (sy_git y'))"
    by (rule merge_only_advances [OF demo_merge_contract _ _ _ run, where b = "[]"])
      (simp_all add: demo_apart_store demo_daemon result_of_def res plain_def go_eval)
  then show ?thesis using run res by (auto simp: result_of_def demo_refs_of)
qed

text \<open>C24: A merge that returns without an error has put the target at the commit it reports, which descends from the target's
  old one; the source names that commit too when it was rebased in its own checkout, and is where it was otherwise.\<close>

theorem merge_reports_target:
  assumes "merge_contract W root X" and "store_apart M X (m_id m) root" and "operational_root (m_repository m) = root"
    and "daemon_at W E (repo_id (m_repository m)) root b (sy_db y)" and "merge_locked_item W E M opts m y = (Inr res, y')"
    and "plain (mr_target_branch res)"
  shows "mr_advanced res \<and> mv_refs X (sy_git y') (branch_ref (mr_target_branch res)) = Some (mr_source_new res)
    \<and> gv_ancestor (mv_base X) (mr_target_old res) (mr_source_new res)
    \<and> mv_refs X (sy_git y') (branch_ref (mr_source_branch res)) = Some (if in_place res then mr_source_new res else mr_source_old res)"
  using merge_outcomes [OF assms(1-5)] assms(6) by (simp add: finished_def target_at_def)

theorem merge_reports_target_witness:
  "\<exists>res y'. merge_locked_item demo_merge_outside demo_env demo_merge_env demo_merge_options demo_item (demo_before demo_ahead) = (Inr res, y')
     \<and> mr_advanced res \<and> sy_git y' (branch_ref ''main'') = Some (mr_source_new res) \<and> mr_source_new res = demo_up"
proof -
  obtain res y' where run: "merge_locked_item demo_merge_outside demo_env demo_merge_env demo_merge_options demo_item (demo_before demo_ahead) = (Inr res, y')"
    and res: "mr_target_branch res = ''main''" "sy_git y' ''refs/heads/main'' = Some demo_up"
    using demo_fast_forward by blast
  have "mr_advanced res \<and> mv_refs demo_merge_view (sy_git y') (branch_ref (mr_target_branch res)) = Some (mr_source_new res)
    \<and> gv_ancestor (mv_base demo_merge_view) (mr_target_old res) (mr_source_new res)
    \<and> mv_refs demo_merge_view (sy_git y') (branch_ref (mr_source_branch res)) = Some (if in_place res then mr_source_new res else mr_source_old res)"
    by (rule merge_reports_target [OF demo_merge_contract _ _ _ run, where b = "[]"])
      (simp_all add: demo_apart_store demo_daemon res plain_def go_eval)
  then show ?thesis using run res by (auto simp: demo_refs_of branch_ref_def)
qed

text \<open>C25: A merge that failed and reports a rollback has left the source branch where it was when the merge began, and the
  target at the commit the merge was to start from.\<close>

theorem rollback_restores:
  assumes "merge_contract W root X" and "store_apart M X (m_id m) root" and "operational_root (m_repository m) = root"
    and "daemon_at W E (repo_id (m_repository m)) root b (sy_db y)" and "merge_locked_item W E M opts m y = (Inl (res, e), y')"
    and "plain (mr_target_branch res)" and "mr_rolled_back res"
  shows "mv_refs X (sy_git y') (branch_ref (mr_target_branch res)) = Some (mr_target_old res)
    \<and> (\<forall>v. mv_refs X (sy_git y) (branch_ref (mr_source_branch res)) = Some v \<longrightarrow> mv_refs X (sy_git y') (branch_ref (mr_source_branch res)) = Some v)"
proof -
  have e: "ended X (mv_refs X (sy_git y)) res (sy_git y')"
    using merge_outcomes [OF assms(1-5)] assms(7) by (auto simp: halted_def stopped_def)
  then show ?thesis using assms(6,7) by (auto simp: ended_def target_at_def started_def)
qed

theorem rollback_restores_witness:
  "\<exists>res e y'. merge_locked_item demo_merge_outside demo_env demo_merge_env demo_merge_options demo_item (demo_before demo_apart) = (Inl (res, e), y')
     \<and> mr_rolled_back res \<and> sy_git y' (branch_ref ''main'') = Some (mr_target_old res)"
proof -
  obtain res e y' where run: "merge_locked_item demo_merge_outside demo_env demo_merge_env demo_merge_options demo_item (demo_before demo_apart) = (Inl (res, e), y')"
    and res: "mr_target_branch res = ''main''" "mr_rolled_back res"
    using demo_rollback by blast
  have "mv_refs demo_merge_view (sy_git y') (branch_ref (mr_target_branch res)) = Some (mr_target_old res)
    \<and> (\<forall>v. mv_refs demo_merge_view (sy_git (demo_before demo_apart)) (branch_ref (mr_source_branch res)) = Some v \<longrightarrow>
        mv_refs demo_merge_view (sy_git y') (branch_ref (mr_source_branch res)) = Some v)"
    by (rule rollback_restores [OF demo_merge_contract _ _ _ run, where b = "[]"])
      (simp_all add: demo_apart_store demo_daemon res plain_def go_eval)
  then show ?thesis using run res by (auto simp: demo_refs_of)
qed

end
