(* ===== verification/Notes.thy ===== *)
theory Notes
  imports Git Changes "HOL-Library.Sublist"
begin

text \<open>
  The notes and attachments of an item (\<open>internal/itemnotes/itemnotes.go\<close>) and the coordinator's operations on them
  (\<open>internal/coordinator/notes.go\<close>): an append-only file of one JSON value per line, and a directory of contents named by
  their digest. The item's directory is a value; each operation takes the fault that the file system has in store for it,
  and returns what is on disk then, so a crash after a step leaves what a fault of the next step leaves. JSON is an
  argument. What a power failure does to data that was not synced is left out.
\<close>

section \<open>Notes, attachments and their files\<close>

record attachment =
  at_name :: string
  at_sha256 :: string
  at_size :: int
  at_type :: string
  at_path :: string

record item_note =
  no_time :: instant
  no_text :: string
  no_head :: string
  no_attachment :: "attachment option"

record current_attachment = attachment +
  ca_time :: instant

text \<open>What has a name in a directory. \<open>Other\<close> is a link, a directory or a device, with what reading it gives.\<close>

datatype 'a node = Absent | Regular 'a | Other "'a option"

record item_dir =
  id_there :: bool
  id_log :: "string node"
  id_blobs :: "(string \<Rightarrow> string node) node"

record note_json =
  nj_encode :: "item_note \<Rightarrow> string option"
  nj_decode :: "string \<Rightarrow> item_note option"

datatype note_error =
    NoteProblem string
  | TooLong string nat nat
  | BadPath string
  | BadName string
  | BadLine nat
  | NotRegular string
  | OsFailure string
  | BadDigest string
  | NoteContext string note_error

definition max_note_bytes :: nat where "max_note_bytes = 2048"
definition max_attachment_bytes :: nat where "max_attachment_bytes = 16 * 2 ^ 20"
definition max_name_bytes :: nat where "max_name_bytes = 128"
definition max_log_bytes :: nat where "max_log_bytes = 64 * 2 ^ 20"

section \<open>Checking what is given\<close>

fun crlf_to_lf :: "string \<Rightarrow> string" where
  "crlf_to_lf (a # b # s) = (if a = CHR 0x0D \<and> b = CHR 0x0A then b # crlf_to_lf s else a # crlf_to_lf (b # s))"
| "crlf_to_lf s = s"

definition clean_text :: "string \<Rightarrow> (note_error, string) result" where
  "clean_text text0 =
     (let text = trim_space (crlf_to_lf text0)
      in if text = [] then Inl (NoteProblem ''note is empty'')
         else if length text > max_note_bytes then Inl (TooLong ''note'' (length text) max_note_bytes)
         else if \<not> valid_utf8 text then Inl (NoteProblem ''note is not valid UTF-8'')
         else if list_ex (\<lambda>r. is_control r \<and> r \<noteq> 10 \<and> r \<noteq> 9) (runes text) then Inl (NoteProblem ''note contains control characters'')
         else Inr text)"

definition path_char_refused :: "char \<Rightarrow> bool" where
  "path_char_refused c \<longleftrightarrow> c = CHR 0x5C \<or> c = CHR 0x00 \<or> c = CHR 0x0A \<or> c = CHR 0x0D"

definition valid_path :: "string \<Rightarrow> bool" where
  "valid_path p \<longleftrightarrow>
     \<not> (p = [] \<or> length p > 1024 \<or> \<not> valid_utf8 p \<or> list_ex path_char_refused p \<or> has_prefix p ''/'' \<or> path_clean p \<noteq> p)
     \<and> list_all (\<lambda>part. \<not> (part = ''.'' \<or> part = ''..'' \<or> part = ''.git'')) (split_char (CHR ''/'') p)"

definition valid_attachment_name :: "string \<Rightarrow> bool" where
  "valid_attachment_name name \<longleftrightarrow>
     \<not> (name = [] \<or> length name > max_name_bytes)
     \<and> \<not> (\<not> valid_utf8 name \<or> list_ex (\<lambda>c. c = CHR ''/'' \<or> c = CHR 0x5C) name \<or> has_prefix name ''.'' \<or> trim_space name \<noteq> name)
     \<and> \<not> list_ex is_control (runes name)"

section \<open>Reading the log\<close>

text \<open>A last line without its end is an append that was cut short.\<close>

function read_lines :: "note_json \<Rightarrow> nat \<Rightarrow> string \<Rightarrow> (note_error, item_note list) result" where
  "read_lines J line s = (case cut_char newline_char s of
      None \<Rightarrow> Inr []
    | Some (a, rest) \<Rightarrow> (case nj_decode J (a @ [newline_char]) of
          None \<Rightarrow> Inl (BadLine line)
        | Some n \<Rightarrow> rbind (read_lines J (line + 1) rest) (\<lambda>ns. Inr (n # ns))))"
  by pat_completeness auto
termination
  by (relation "measure (\<lambda>(J, line, s). length s)") (auto dest!: cut_char_Some)

declare read_lines.simps [simp del]

definition read_notes :: "note_json \<Rightarrow> item_dir \<Rightarrow> (note_error, item_note list) result" where
  "read_notes J d = (case id_log d of
      Absent \<Rightarrow> Inr []
    | Other _ \<Rightarrow> Inl (NotRegular ''notes.jsonl'')
    | Regular content \<Rightarrow> read_lines J 1 (take max_log_bytes content))"


section \<open>Attachments\<close>

text \<open>\<open>Attachments\<close> keeps the latest content under each name, by name.\<close>

definition current_of :: "attachment \<Rightarrow> instant \<Rightarrow> current_attachment" where
  "current_of a t = \<lparr>at_name = at_name a, at_sha256 = at_sha256 a, at_size = at_size a, at_type = at_type a, at_path = at_path a,
     ca_time = t\<rparr>"

definition latest_attachments :: "item_note list \<Rightarrow> string \<Rightarrow> current_attachment option" where
  "latest_attachments ns = fold (\<lambda>n m. case no_attachment n of
      None \<Rightarrow> m
    | Some a \<Rightarrow> m(at_name a \<mapsto> current_of a (no_time n))) ns Map.empty"

definition attachment_names :: "item_note list \<Rightarrow> string list" where
  "attachment_names ns = remdups (List.map_filter (\<lambda>n. map_option at_name (no_attachment n)) ns)"

definition attachments :: "item_note list \<Rightarrow> current_attachment list" where
  "attachments ns = List.map_filter (latest_attachments ns) (sort_strings (attachment_names ns))"

definition find_attachment :: "item_note list \<Rightarrow> string \<Rightarrow> current_attachment option" where
  "find_attachment ns name = List.find (\<lambda>a. at_name a = name) (attachments ns)"

section \<open>Appending to the log\<close>

text \<open>\<open>bytes.LastIndexByte\<close>; \<open>dropTornLine\<close> reads the file from its end in pieces of 4096 bytes.\<close>

fun last_index :: "char \<Rightarrow> string \<Rightarrow> nat option" where
  "last_index c [] = None"
| "last_index c (x # xs) = (case last_index c xs of
      Some i \<Rightarrow> Some (Suc i)
    | None \<Rightarrow> if x = c then Some 0 else None)"

function torn_from :: "string \<Rightarrow> nat \<Rightarrow> nat" where
  "torn_from content at =
     (if at = 0 then 0
      else (let n = min 4096 at; at = at - n
            in case last_index newline_char (take n (drop at content)) of
                 Some i \<Rightarrow> at + i + 1
               | None \<Rightarrow> torn_from content at))"
  by pat_completeness auto
termination
  by (relation "measure snd") auto

declare torn_from.simps [simp del]

definition torn_keep :: "string \<Rightarrow> nat" where
  "torn_keep content = torn_from content (length content)"

datatype fault = NoFault | OpenFault | ReadFault | TruncateFault | WriteFault nat | SyncFault

definition append_note :: "note_json \<Rightarrow> fault \<Rightarrow> item_note \<Rightarrow> item_dir \<Rightarrow> (note_error, unit) result \<times> item_dir" where
  "append_note J fault n d =
     (if \<not> id_there d then (Inl (NoteProblem ''item directory is not a directory''), d)
      else case nj_encode J n of
        None \<Rightarrow> (Inl (NoteProblem ''json''), d)
      | Some text \<Rightarrow> (case id_log d of
          Other _ \<Rightarrow> (Inl (NotRegular ''notes.jsonl''), d)
        | found \<Rightarrow>
            (let content = (case found of Regular c \<Rightarrow> c | _ \<Rightarrow> []);
                 opened = d\<lparr>id_log := Regular content\<rparr>;
                 keep = torn_keep content;
                 cut = d\<lparr>id_log := Regular (take keep content)\<rparr>;
                 line = text @ [newline_char]
             in case fault of
                  OpenFault \<Rightarrow> (Inl (OsFailure ''open''), d)
                | ReadFault \<Rightarrow> (Inl (OsFailure ''read''), opened)
                | WriteFault k \<Rightarrow> (Inl (OsFailure ''write''), d\<lparr>id_log := Regular (take keep content @ take k line)\<rparr>)
                | SyncFault \<Rightarrow> (Inl (OsFailure ''sync''), d\<lparr>id_log := Regular (take keep content @ line)\<rparr>)
                | TruncateFault \<Rightarrow> if keep < length content \<or> content = [] then (Inl (OsFailure ''truncate''), opened)
                    else (Inr (), d\<lparr>id_log := Regular (take keep content @ line)\<rparr>)
                | NoFault \<Rightarrow> (Inr (), d\<lparr>id_log := Regular (take keep content @ line)\<rparr>))))"

section \<open>Contents by digest\<close>

text \<open>The faults of a write before its rename leave no content behind; a temporary file is no content.\<close>

datatype blob_fault = NoBlobFault | DirFault | TempFault | RenameFault

definition blob_names :: "item_dir \<Rightarrow> (note_error, string \<Rightarrow> string node) result" where
  "blob_names d = (case id_blobs d of
      Absent \<Rightarrow> Inr (\<lambda>_. Absent)
    | Regular m \<Rightarrow> Inr m
    | Other _ \<Rightarrow> Inl (NoteProblem ''attachments is not a directory''))"

definition reads_as :: "'a node \<Rightarrow> 'a option" where
  "reads_as f = (case f of Absent \<Rightarrow> None | Regular c \<Rightarrow> Some c | Other c \<Rightarrow> c)"

definition write_blob :: "blob_fault \<Rightarrow> string \<Rightarrow> item_dir \<Rightarrow> (note_error, string) result \<times> item_dir" where
  "write_blob fault content d =
     (if length content > max_attachment_bytes then (Inl (TooLong ''attachment'' (length content) max_attachment_bytes), d)
      else if \<not> id_there d then (Inl (NoteProblem ''item directory is not a directory''), d)
      else (let digest = hex_digest 32 content
            in if fault = DirFault then (Inl (OsFailure ''mkdir''), d)
               else case blob_names d of
                 Inl e \<Rightarrow> (Inl e, d)
               | Inr names \<Rightarrow>
                   (let made = d\<lparr>id_blobs := Regular names\<rparr>
                    in if reads_as (names digest) = Some content then (Inr digest, made)
                       else if fault = TempFault \<or> fault = RenameFault then (Inl (OsFailure ''write''), made)
                       else (Inr digest, d\<lparr>id_blobs := Regular (names(digest := Regular content))\<rparr>))))"

definition lower_hex :: "char \<Rightarrow> bool" where
  "lower_hex c \<longleftrightarrow> (let n = of_char c :: nat in 48 \<le> n \<and> n \<le> 57 \<or> 97 \<le> n \<and> n \<le> 102)"

definition digest_pattern :: "string \<Rightarrow> bool" where
  "digest_pattern s \<longleftrightarrow> length s = 64 \<and> list_all lower_hex s"

definition open_blob :: "string \<Rightarrow> item_dir \<Rightarrow> (note_error, string) result" where
  "open_blob digest d =
     (if \<not> digest_pattern digest then Inl (BadDigest digest)
      else case id_blobs d of
        Absent \<Rightarrow> Inl (OsFailure ''lstat'')
      | Other _ \<Rightarrow> Inl (NoteProblem ''attachments is not a directory'')
      | Regular names \<Rightarrow> (case names digest of
            Absent \<Rightarrow> Inl (OsFailure ''lstat'')
          | Other _ \<Rightarrow> Inl (NotRegular digest)
          | Regular content \<Rightarrow> Inr content))"

section \<open>The coordinator's operations\<close>

record add_note_request =
  an_item :: string
  an_text :: string

record attach_request =
  ac_item :: string
  ac_name :: string
  ac_content :: string
  ac_text :: string
  ac_path :: string

text \<open>The item is looked up before its worktree's commit is read and again under the lock.\<close>

record 'w note_moment =
  nm_before :: "(note_error, manifest) result"
  nm_after :: "(note_error, manifest) result"
  nm_world :: 'w
  nm_now :: instant
  nm_blob_fault :: blob_fault
  nm_fault :: fault

definition worktree_head :: "'w outside \<Rightarrow> manifest \<Rightarrow> 'w \<Rightarrow> string" where
  "worktree_head W m w = (case co_claim (m_checkout m) of
      None \<Rightarrow> []
    | Some k \<Rightarrow> if trim_space (wc_path k) = [] then []
        else (case fst (rev_parse W (wc_path k) ''HEAD'' w) of Inl _ \<Rightarrow> [] | Inr head \<Rightarrow> head))"

record note_store =
  ns_dir :: item_dir
  ns_changes :: change_log

definition store_note ::
  "'w outside \<Rightarrow> note_json \<Rightarrow> 'w note_moment \<Rightarrow> string \<Rightarrow> item_note \<Rightarrow> string \<Rightarrow> note_store \<Rightarrow> (note_error, item_note) result \<times> note_store" where
  "store_note W J t item n0 content st =
     (if \<not> valid_id item then (Inl (NoteProblem ''invalid work item id''), st)
      else case nm_before t of
        Inl e \<Rightarrow> (Inl e, st)
      | Inr m \<Rightarrow> (case nm_after t of
          Inl e \<Rightarrow> (Inl e, st)
        | Inr _ \<Rightarrow>
            (let n1 = n0\<lparr>no_head := worktree_head W m (nm_world t)\<rparr>;
                 stored = (case no_attachment n1 of
                     None \<Rightarrow> (Inr n1, ns_dir st)
                   | Some a \<Rightarrow> (case write_blob (nm_blob_fault t) content (ns_dir st) of
                       (Inl e, d) \<Rightarrow> (Inl (NoteContext ''store attachment'' e), d)
                     | (Inr digest, d) \<Rightarrow> (Inr (n1\<lparr>no_attachment := Some (a\<lparr>at_sha256 := digest\<rparr>)\<rparr>), d)))
             in case stored of
                  (Inl e, d) \<Rightarrow> (Inl e, st\<lparr>ns_dir := d\<rparr>)
                | (Inr n2, d) \<Rightarrow>
                    (let n3 = n2\<lparr>no_time := nm_now t\<rparr>
                     in case append_note J (nm_fault t) n3 d of
                          (Inl e, d) \<Rightarrow> (Inl (NoteContext ''record note'' e), st\<lparr>ns_dir := d\<rparr>)
                        | (Inr _, d) \<Rightarrow> (Inr n3, st\<lparr>ns_dir := d, ns_changes := record_changes [item] (ns_changes st)\<rparr>)))))"

definition add_note :: "'w outside \<Rightarrow> note_json \<Rightarrow> 'w note_moment \<Rightarrow> add_note_request \<Rightarrow> note_store \<Rightarrow> (note_error, item_note) result \<times> note_store" where
  "add_note W J t r st = (case clean_text (an_text r) of
      Inl e \<Rightarrow> (Inl e, st)
    | Inr text \<Rightarrow> store_note W J t (an_item r) \<lparr>no_time = zero_time, no_text = text, no_head = [], no_attachment = None\<rparr> [] st)"

definition attach ::
  "'w outside \<Rightarrow> note_json \<Rightarrow> (string \<Rightarrow> string \<Rightarrow> string) \<Rightarrow> 'w note_moment \<Rightarrow> attach_request \<Rightarrow> note_store \<Rightarrow> (note_error, item_note) result \<times> note_store" where
  "attach W J content_type t r st =
     (if \<not> valid_attachment_name (ac_name r) then (Inl (BadName (ac_name r)), st)
      else if ac_path r \<noteq> [] \<and> \<not> valid_path (ac_path r) then (Inl (BadPath (ac_path r)), st)
      else if length (ac_content r) > max_attachment_bytes
      then (Inl (TooLong ''attachment'' (length (ac_content r)) max_attachment_bytes), st)
      else case (if trim_space (ac_text r) \<noteq> [] then clean_text (ac_text r) else Inr (''Attached '' @ ac_name r)) of
        Inl e \<Rightarrow> (Inl e, st)
      | Inr text \<Rightarrow> store_note W J t (ac_item r)
          \<lparr>no_time = zero_time, no_text = text, no_head = [],
            no_attachment = Some \<lparr>at_name = ac_name r, at_sha256 = [], at_size = int (length (ac_content r)),
              at_type = content_type (ac_name r) (ac_content r), at_path = ac_path r\<rparr>\<rparr> (ac_content r) st)"


section \<open>The latest attachments\<close>

lemma latest_attachments_snoc: "latest_attachments (ns @ [n]) = (case no_attachment n of
    None \<Rightarrow> latest_attachments ns | Some a \<Rightarrow> (latest_attachments ns)(at_name a \<mapsto> current_of a (no_time n)))"
  by (simp add: latest_attachments_def split: option.split)

lemma latest_attachments_name: "latest_attachments ns name = Some a \<Longrightarrow> at_name a = name"
  by (induction ns arbitrary: a rule: rev_induct)
    (auto simp: latest_attachments_snoc current_of_def latest_attachments_def split: option.splits if_splits)

lemma latest_attachments_dom: "latest_attachments ns name \<noteq> None \<longleftrightarrow> name \<in> set (attachment_names ns)"
  by (induction ns rule: rev_induct)
    (auto simp: latest_attachments_snoc attachment_names_def List.map_filter_simps List.map_filter_def
      latest_attachments_def split: option.splits)

lemma set_attachments: "set (attachments ns) = {a. \<exists>name. latest_attachments ns name = Some a}"
  using latest_attachments_dom by (fastforce simp: attachments_def List.map_filter_def image_iff)

text \<open>What is listed are the latest contents, by name, each name once.\<close>

lemma attachments_sorted: "sorted_wrt (<) (map at_name (attachments ns))"
proof -
  have "map at_name (List.map_filter (latest_attachments ns) names) = names"
    if "\<forall>name \<in> set names. latest_attachments ns name \<noteq> None" for names
    using that by (induction names) (auto simp: List.map_filter_simps dest: latest_attachments_name)
  then have "map at_name (attachments ns) = sort_strings (attachment_names ns)"
    using latest_attachments_dom by (simp add: attachments_def)
  moreover have "distinct (attachment_names ns)" by (simp add: attachment_names_def)
  ultimately show ?thesis using sorted_sort_strings [of "attachment_names ns"] by (simp add: strict_sorted_iff)
qed

lemma find_attachment_latest: "find_attachment ns name = latest_attachments ns name"
proof (cases "latest_attachments ns name")
  case None
  then have "a \<in> set (attachments ns) \<Longrightarrow> at_name a \<noteq> name" for a
    using set_attachments latest_attachments_name by fastforce
  then show ?thesis using None by (auto simp: find_attachment_def find_None_iff)
next
  case (Some a)
  have inj: "b = a" if "b \<in> set (attachments ns)" "at_name b = name" for b
    using that set_attachments [of ns] latest_attachments_name [of ns] Some by fastforce
  have "a \<in> set (attachments ns)" "at_name a = name" using Some set_attachments latest_attachments_name by fastforce+
  then obtain b where "find_attachment ns name = Some b"
    unfolding find_attachment_def by (metis (mono_tags, lifting) find_None_iff not_None_eq)
  then have "b \<in> set (attachments ns)" "at_name b = name"
    unfolding find_attachment_def by (auto simp: find_Some_iff)
  then show ?thesis using Some inj \<open>find_attachment ns name = Some b\<close> by simp
qed

section \<open>The end of the last complete line\<close>

lemma last_index_append:
  "last_index c (a @ b) = (case last_index c b of Some i \<Rightarrow> Some (length a + i) | None \<Rightarrow> last_index c a)"
  by (induction a) (auto split: option.splits)

lemma last_index_None: "last_index c s = None \<longleftrightarrow> c \<notin> set s"
  by (induction s) (auto split: option.splits)

lemma last_index_rev: "last_index c s = Some i \<Longrightarrow> i < length s \<and> length (takeWhile (\<lambda>x. x \<noteq> c) (rev s)) = length s - Suc i"
proof (induction s arbitrary: i)
  case (Cons x s)
  show ?case
  proof (cases "last_index c s")
    case None
    then have "c \<notin> set s" by (simp add: last_index_None)
    moreover have "x = c" "i = 0" using Cons.prems None by (auto split: if_splits)
    moreover have "takeWhile (\<lambda>x. x \<noteq> c) (rev s @ [c]) = rev s"
      using \<open>c \<notin> set s\<close> by (subst takeWhile_append2) auto
    ultimately show ?thesis by simp
  next
    case (Some j)
    then have "c \<in> set s" using last_index_None [of c s] by auto
    then have "takeWhile (\<lambda>x. x \<noteq> c) (rev s @ [x]) = takeWhile (\<lambda>x. x \<noteq> c) (rev s)"
      by (intro takeWhile_append1 [of c]) auto
    then show ?thesis using Cons.IH [OF Some] Cons.prems Some by auto
  qed
qed simp

definition last_end :: "string \<Rightarrow> nat" where
  "last_end s = length s - length (takeWhile (\<lambda>c. c \<noteq> newline_char) (rev s))"

lemma last_end_index: "last_end s = (case last_index newline_char s of None \<Rightarrow> 0 | Some i \<Rightarrow> i + 1)"
proof (cases "last_index newline_char s")
  case None
  then have "newline_char \<notin> set s" by (simp add: last_index_None)
  then have t: "takeWhile (\<lambda>c. c \<noteq> newline_char) (rev s) = rev s" by (auto simp: takeWhile_eq_all_conv)
  show ?thesis unfolding last_end_def t using None by simp
next
  case (Some i)
  then show ?thesis using last_index_rev [OF Some] by (simp add: last_end_def)
qed

lemma torn_from_last_end: "at \<le> length content \<Longrightarrow> torn_from content at = last_end (take at content)"
proof (induction content at rule: torn_from.induct)
  case (1 content at)
  show ?case
  proof (cases "at = 0")
    case True
    then show ?thesis by (simp add: torn_from.simps [of content 0] last_end_def)
  next
    case False
    let ?n = "min 4096 at"
    let ?r = "at - ?n"
    have split: "take at content = take ?r content @ take ?n (drop ?r content)"
      by (metis add_diff_inverse_nat min.cobounded2 not_less take_add add.commute diff_add)
    have len: "length (take ?r content) = ?r" using 1(2) by simp
    have ih: "torn_from content ?r = last_end (take ?r content)"
      if "last_index newline_char (take ?n (drop ?r content)) = None"
      using 1(1) [OF False refl refl that] 1(2) by simp
    show ?thesis
      unfolding torn_from.simps [of content at] Let_def split last_end_index last_index_append len
      using False ih by (auto simp: last_end_index split: option.splits)
  qed
qed

text \<open>The search from the end in pieces of 4096 bytes finds the end of the last complete line, whatever the log holds
  and wherever the pieces fall.\<close>

lemma torn_keep_last_line:
  "torn_keep content = length content - length (takeWhile (\<lambda>c. c \<noteq> newline_char) (rev content))"
  using torn_from_last_end [of "length content" content] by (simp add: torn_keep_def last_end_def)


section \<open>What an append leaves to read\<close>

text \<open>\<open>encoding/json\<close> writes a value without line breaks, and reads it back.\<close>

definition json_law :: "note_json \<Rightarrow> item_note \<Rightarrow> bool" where
  "json_law J n \<longleftrightarrow> (\<forall>text. nj_encode J n = Some text \<longrightarrow>
     newline_char \<notin> set text \<and> nj_decode J (text @ [newline_char]) = Some n)"

definition log_content :: "item_dir \<Rightarrow> string" where
  "log_content d = (case id_log d of Regular c \<Rightarrow> c | _ \<Rightarrow> [])"

lemma cut_char_line: "newline_char \<notin> set a \<Longrightarrow> cut_char newline_char (a @ newline_char # b) = Some (a, b)"
  by (induction a) auto

lemma read_lines_torn: "newline_char \<notin> set s \<Longrightarrow> read_lines J l s = Inr []"
  using cut_char_None [of newline_char s] by (simp add: read_lines.simps [of J l s])

lemma read_lines_append:
  "read_lines J l (s @ newline_char # t) =
     rbind (read_lines J l (s @ [newline_char])) (\<lambda>ns. rbind (read_lines J (l + length ns) t) (\<lambda>ms. Inr (ns @ ms)))"
proof (induction s arbitrary: l rule: length_induct)
  case (1 s)
  show ?case
  proof (cases "newline_char \<in> set s")
    case False
    then show ?thesis
      by (simp add: read_lines.simps [of J l "s @ newline_char # _"] cut_char_line read_lines_torn split: option.splits)
  next
    case True
    then obtain a b where ab: "s = a @ newline_char # b" "newline_char \<notin> set a" by (metis split_list_first)
    have ih: "read_lines J (l + 1) (b @ newline_char # t) =
        rbind (read_lines J (l + 1) (b @ [newline_char])) (\<lambda>ns. rbind (read_lines J (l + 1 + length ns) t) (\<lambda>ms. Inr (ns @ ms)))"
      using 1 [rule_format, of b] ab(1) by simp
    show ?thesis
      using ih ab(2)
      by (cases "read_lines J (l + 1) (b @ [newline_char])")
        (simp_all add: ab(1) read_lines.simps [of J l "a @ newline_char # _"] cut_char_line rbind_def split: option.splits sum.splits)
  qed
qed


lemma last_index_split: "last_index c s = Some i \<Longrightarrow> s = take i s @ c # drop (Suc i) s \<and> c \<notin> set (drop (Suc i) s)"
proof (induction s arbitrary: i)
  case (Cons x s)
  then show ?case
    by (cases "last_index c s") (use last_index_None [of c s] in \<open>auto split: if_splits\<close>)
qed simp

definition complete :: "string \<Rightarrow> bool" where
  "complete s \<longleftrightarrow> s = [] \<or> (\<exists>p. s = p @ [newline_char])"

lemma kept_complete: "complete (take (last_end s) s) \<and> newline_char \<notin> set (drop (last_end s) s)"
proof (cases "last_index newline_char s")
  case None
  then show ?thesis using last_index_None [of newline_char s] by (simp add: last_end_index complete_def)
next
  case (Some i)
  have s: "s = take i s @ newline_char # drop (Suc i) s" "newline_char \<notin> set (drop (Suc i) s)"
    using last_index_split [OF Some] by blast+
  have i: "i < length s" using last_index_rev [OF Some] by blast
  have "take (Suc i) s = take i s @ [newline_char]"
    using i s(1) by (metis take_Suc_conv_app_nth nth_append_length length_take min.absorb4)
  then show ?thesis using s(2) Some by (auto simp: last_end_index complete_def)
qed

lemma read_complete_append:
  assumes "complete p"
  shows "read_lines J l (p @ t) = rbind (read_lines J l p) (\<lambda>ns. rbind (read_lines J (l + length ns) t) (\<lambda>ms. Inr (ns @ ms)))"
proof (cases "p = []")
  case True
  then show ?thesis by (simp add: read_lines_torn rbind_def split: sum.split)
next
  case False
  with assms obtain q where "p = q @ [newline_char]" by (auto simp: complete_def)
  then show ?thesis using read_lines_append [of J l q t] by simp
qed

lemma read_kept: "read_lines J l (take (last_end s) s) = read_lines J l s"
proof -
  have "read_lines J l s = read_lines J l (take (last_end s) s @ drop (last_end s) s)" by simp
  also have "\<dots> = read_lines J l (take (last_end s) s)"
    using kept_complete [of s] by (simp only: read_complete_append) (simp add: read_lines_torn rbind_def split: sum.split)
  finally show ?thesis by simp
qed

lemma read_one_line: "newline_char \<notin> set body \<Longrightarrow> nj_decode J (body @ [newline_char]) = Some n \<Longrightarrow>
    read_lines J l (body @ [newline_char]) = Inr [n]"
  using cut_char_line [of body "[]"] by (simp add: read_lines.simps [of J l "body @ _"] read_lines_torn)

lemma read_after_write:
  assumes "newline_char \<notin> set body" and "nj_decode J (body @ [newline_char]) = Some n" and "read_lines J 1 s = Inr ns"
  shows "read_lines J 1 (take (last_end s) s @ take k (body @ [newline_char])) = Inr (if length body < k then ns @ [n] else ns)"
proof (cases "length body < k")
  case True
  then have "take k (body @ [newline_char]) = body @ [newline_char]" by simp
  then show ?thesis
    using assms kept_complete [of s] True by (simp add: read_complete_append read_kept read_one_line)
next
  case False
  then have "newline_char \<notin> set (take k (body @ [newline_char]))" using assms(1) by (auto dest: in_set_takeD)
  then show ?thesis
    using assms(3) kept_complete [of s] False by (simp only: read_complete_append) (simp add: read_kept read_lines_torn)
qed

definition log_lines :: "note_json \<Rightarrow> item_dir \<Rightarrow> (note_error, item_note list) result" where
  "log_lines J d = read_lines J 1 (log_content d)"

lemma append_note_reads:
  assumes law: "json_law J n" and lines: "log_lines J d = Inr ns" and run: "append_note J f n d = (r, d')"
  shows "log_lines J d' = Inr (ns @ [n]) \<or> (log_lines J d' = Inr ns \<and> \<not> is_ok r)"
proof (cases "\<not> id_there d \<or> nj_encode J n = None \<or> (\<exists>c. id_log d = Other c)")
  case True
  then have "d' = d \<and> \<not> is_ok r" using run by (auto simp: append_note_def split: if_splits option.splits)
  then show ?thesis using lines by simp
next
  case False
  then obtain body where encoded: "nj_encode J n = Some body" by auto
  let ?c = "log_content d"
  let ?w = "\<lambda>k. take (last_end ?c) ?c @ take k (body @ [newline_char])"
  have keep: "torn_keep c = last_end c" for c using torn_from_last_end [of "length c" c] by (simp add: torn_keep_def)
  have w: "read_lines J 1 (?w k) = Inr (if length body < k then ns @ [n] else ns)" for k
    using read_after_write [of body J n ?c ns k] law encoded lines by (simp add: json_law_def log_lines_def)
  have full: "\<exists>k. p @ body @ [newline_char] = p @ take k (body @ [newline_char]) \<and> (e \<or> length body < k)" for p e
    by (intro exI [of _ "Suc (length body)"]) simp
  have outcome: "(\<exists>k. log_content d' = ?w k \<and> (\<not> is_ok r \<or> length body < k)) \<or> (log_content d' = ?c \<and> \<not> is_ok r)"
    using run False encoded
    by (cases "id_log d"; cases f)
      (auto simp: append_note_def Let_def log_content_def keep full [of _ True, simplified] full [of _ False, simplified] split: if_splits)
  show ?thesis
    using outcome
  proof
    assume "\<exists>k. log_content d' = ?w k \<and> (\<not> is_ok r \<or> length body < k)"
    then obtain k where "log_content d' = ?w k" "\<not> is_ok r \<or> length body < k" by blast
    then show ?thesis using w [of k] by (auto simp: log_lines_def)
  qed (use lines in \<open>auto simp: log_lines_def\<close>)
qed


text \<open>A run of appends with the faults they meet, and which of them succeeded.\<close>

fun append_run :: "note_json \<Rightarrow> (fault \<times> item_note) list \<Rightarrow> item_dir \<Rightarrow> bool list \<times> item_dir" where
  "append_run J [] d = ([], d)"
| "append_run J ((f, n) # ops) d =
     (let (r, d1) = append_note J f n d; (oks, d2) = append_run J ops d1 in (is_ok r # oks, d2))"

definition acknowledged :: "(fault \<times> item_note) list \<Rightarrow> bool list \<Rightarrow> item_note list" where
  "acknowledged ops oks = map (\<lambda>((f, n), ok). n) (filter snd (zip ops oks))"

lemma acknowledged_Cons: "acknowledged ((f, n) # ops) (ok # oks) = (if ok then n # acknowledged ops oks else acknowledged ops oks)"
  by (simp add: acknowledged_def)

lemma append_log_kind: "(\<forall>c. id_log d \<noteq> Other c) \<Longrightarrow> id_log (snd (append_note J f n d)) \<noteq> Other c"
  by (auto simp: append_note_def Let_def split: option.split node.splits fault.split)

lemma append_run_reads:
  assumes "\<forall>(f, n) \<in> set ops. json_law J n" and "log_lines J d = Inr ns" and "append_run J ops d = (oks, d')"
  shows "\<exists>kept. log_lines J d' = Inr (ns @ kept) \<and> subseq (acknowledged ops oks) kept \<and> subseq kept (map snd ops)"
  using assms
proof (induction ops arbitrary: d ns oks)
  case Nil
  then show ?case by (auto simp: acknowledged_def)
next
  case (Cons fn ops)
  obtain f n where fn: "fn = (f, n)" by (cases fn)
  obtain r d1 where step: "append_note J f n d = (r, d1)" by (cases "append_note J f n d")
  obtain oks1 where rest: "append_run J ops d1 = (oks1, d')" "oks = is_ok r # oks1"
    using Cons.prems(3) step fn by (auto split: prod.splits)
  from append_note_reads [OF _ Cons.prems(2) step]
  have "log_lines J d1 = Inr (ns @ [n]) \<or> (log_lines J d1 = Inr ns \<and> \<not> is_ok r)" using Cons.prems(1) fn by simp
  then show ?case
  proof (elim disjE conjE)
    assume "log_lines J d1 = Inr (ns @ [n])"
    then obtain kept where "log_lines J d' = Inr ((ns @ [n]) @ kept)" "subseq (acknowledged ops oks1) kept" "subseq kept (map snd ops)"
      using Cons.IH [OF _ _ rest(1)] Cons.prems(1) by fastforce
    then show ?thesis by (intro exI [of _ "n # kept"]) (auto simp: fn rest(2) acknowledged_Cons intro: list_emb_Cons)
  next
    assume "log_lines J d1 = Inr ns" "\<not> is_ok r"
    then obtain kept where "log_lines J d' = Inr (ns @ kept)" "subseq (acknowledged ops oks1) kept" "subseq kept (map snd ops)"
      using Cons.IH [OF _ _ rest(1)] Cons.prems(1) by fastforce
    then show ?thesis using \<open>\<not> is_ok r\<close> by (intro exI [of _ kept]) (auto simp: fn rest(2) acknowledged_Cons intro: list_emb_Cons)
  qed
qed

lemma append_run_kind: "(\<forall>c. id_log d \<noteq> Other c) \<Longrightarrow> id_log (snd (append_run J ops d)) \<noteq> Other c"
proof (induction ops arbitrary: d)
  case (Cons fn ops)
  obtain f n r d1 where fn: "fn = (f, n)" "append_note J f n d = (r, d1)" by (metis prod.exhaust)
  have "\<forall>c. id_log d1 \<noteq> Other c" using append_log_kind [OF Cons.prems, of J f n] fn by simp
  from Cons.IH [OF this] show ?case using fn by (auto split: prod.splits)
qed simp

lemma read_notes_lines:
  "length (log_content d) \<le> max_log_bytes \<Longrightarrow> (\<forall>c. id_log d \<noteq> Other c) \<Longrightarrow> read_notes J d = log_lines J d"
  by (cases "id_log d") (simp_all add: read_notes_def log_lines_def log_content_def read_lines_torn)


definition demo_note :: item_note where
  "demo_note = \<lparr>no_time = 5, no_text = ''done'', no_head = [], no_attachment = None\<rparr>"

definition demo_note_json :: note_json where
  "demo_note_json = \<lparr>nj_encode = (\<lambda>n. if n = demo_note then Some ''{}'' else None),
     nj_decode = (\<lambda>s. if s = ''{}'' @ [newline_char] then Some demo_note else None)\<rparr>"

definition demo_item_dir :: item_dir where
  "demo_item_dir = \<lparr>id_there = True, id_log = Absent, id_blobs = Absent\<rparr>"

text \<open>The first append is cut short after one byte, the second succeeds.\<close>

lemma demo_appends: "append_run demo_note_json [(WriteFault 1, demo_note), (NoFault, demo_note)] demo_item_dir =
    ([False, True], demo_item_dir\<lparr>id_log := Regular (''{}'' @ [newline_char])\<rparr>)"
  by (simp add: append_note_def demo_item_dir_def demo_note_json_def torn_keep_def torn_from.simps newline_char_def)


section \<open>A note never names missing content\<close>

lemma lower_hex_digit: "d < 16 \<Longrightarrow> lower_hex (digit_char d)"
  by (auto simp: digit_char_def lower_hex_def Let_def)

lemma digest_pattern_hex_digest: "digest_pattern (hex_digest 32 s)"
proof -
  have "list_all lower_hex (hex_of_bytes bs)" for bs
    by (induction bs) (auto simp: hex_of_bytes_def lower_hex_digit)
  then show ?thesis using length_hex_digest [of 32 s] by (simp add: digest_pattern_def hex_digest_def)
qed

definition no_links :: "item_dir \<Rightarrow> bool" where
  "no_links d \<longleftrightarrow> (\<forall>names h. id_blobs d = Regular names \<longrightarrow> (\<forall>c. names h \<noteq> Other c))"


definition held :: "string \<Rightarrow> item_dir \<Rightarrow> bool" where
  "held digest d \<longleftrightarrow> (\<exists>c. open_blob digest d = Inr c \<and> hex_digest 32 c = digest)"

definition intact :: "note_json \<Rightarrow> item_dir \<Rightarrow> bool" where
  "intact J d \<longleftrightarrow> no_links d \<and> (\<exists>ns. log_lines J d = Inr ns \<and>
     (\<forall>n \<in> set ns. \<forall>a. no_attachment n = Some a \<longrightarrow> held (at_sha256 a) d))"

lemma open_blob_Inr: "open_blob h d = Inr c \<longleftrightarrow>
    digest_pattern h \<and> (\<exists>names. id_blobs d = Regular names \<and> names h = Regular c)"
  by (auto simp: open_blob_def split: node.splits)

lemma write_blob_log: "write_blob f content d = (r, d') \<Longrightarrow> id_log d' = id_log d"
  by (auto simp: write_blob_def Let_def split: if_splits sum.splits)

lemma write_blob_keeps:
  assumes "no_links d" and "write_blob f content d = (r, d')"
  shows "no_links d' \<and> (held h d \<longrightarrow> held h d') \<and> (\<forall>digest. r = Inr digest \<longrightarrow> held digest d')"
proof (cases "d' = d \<and> \<not> is_ok r")
  case False
  let ?h = "hex_digest 32 content"
  from False assms(2) obtain names where names: "blob_names d = Inr names"
    by (auto simp: write_blob_def Let_def split: if_splits sum.splits)
  have plain: "names k \<noteq> Other c" for k c
    using names assms(1) by (auto simp: blob_names_def no_links_def split: node.splits)
  have ok: "held k d \<Longrightarrow> \<exists>c. names k = Regular c \<and> hex_digest 32 c = k" for k
    using names by (auto simp: held_def open_blob_Inr blob_names_def)
  obtain names' where d': "d' = d\<lparr>id_blobs := Regular names'\<rparr>"
    and n': "names' = names \<or> names' = names(?h := Regular content)"
    and r: "is_ok r \<Longrightarrow> r = Inr ?h \<and> names' ?h = Regular content"
    using assms(2) False names plain [of ?h]
    by (auto simp: write_blob_def Let_def reads_as_def split: if_splits node.splits)
  have there: "held k d'" if "names' k = Regular c" "hex_digest 32 c = k" for k c
    using that digest_pattern_hex_digest [of c] d' by (auto simp: held_def open_blob_Inr)
  have "names' k \<noteq> Other c" for k c using n' plain [of k c] by (auto split: if_splits)
  then have "no_links d'" using d' by (simp add: no_links_def)
  moreover have "held h d'" if before: "held h d"
  proof (cases "h = ?h \<and> names' = names(?h := Regular content)")
    case True
    then show ?thesis using there [of ?h content] by simp
  next
    case False
    then have "names' h = names h" using n' by auto
    then show ?thesis using ok [OF before] there [of h] by auto
  qed
  moreover have "held digest d'" if "r = Inr digest" for digest
    using r that there [of ?h content] by simp
  ultimately show ?thesis by blast
qed (use assms in auto)

lemma append_note_blobs: "append_note J f n d = (r, d') \<Longrightarrow> id_blobs d' = id_blobs d"
  by (auto simp: append_note_def Let_def split: if_splits option.splits node.splits fault.splits)

lemma intact_append:
  assumes "json_law J n" and "intact J d" and "append_note J f n d = (r, d')"
    and "\<And>a. no_attachment n = Some a \<Longrightarrow> held (at_sha256 a) d"
  shows "intact J d'"
proof -
  obtain ns where ns: "log_lines J d = Inr ns" "\<forall>n \<in> set ns. \<forall>a. no_attachment n = Some a \<longrightarrow> held (at_sha256 a) d" "no_links d"
    using assms(2) by (auto simp: intact_def)
  have same: "held h d' = held h d" "no_links d' = no_links d" for h
    using append_note_blobs [OF assms(3)] by (simp_all add: held_def open_blob_Inr no_links_def)
  show ?thesis
    using append_note_reads [OF assms(1) ns(1) assms(3)] ns assms(4) by (auto simp: intact_def same)
qed

lemma intact_blob:
  assumes "intact J d" and "write_blob f content d = (r, d')"
  shows "intact J d'"
proof -
  obtain ns where ns: "log_lines J d = Inr ns" "\<forall>n \<in> set ns. \<forall>a. no_attachment n = Some a \<longrightarrow> held (at_sha256 a) d" "no_links d"
    using assms(1) by (auto simp: intact_def)
  show ?thesis
    using ns write_blob_keeps [OF ns(3) assms(2)] write_blob_log [OF assms(2)]
    by (auto simp: intact_def log_lines_def log_content_def)
qed

lemma intact_store:
  assumes law: "\<And>n. json_law J n" and "intact J (ns_dir st)"
  shows "intact J (ns_dir (snd (store_note W J t item n0 content st)))"
proof (cases "valid_id item \<and> is_ok (nm_before t) \<and> is_ok (nm_after t)")
  case False
  then have "snd (store_note W J t item n0 content st) = st"
    by (cases "nm_before t"; cases "nm_after t") (auto simp: store_note_def)
  then show ?thesis using assms(2) by simp
next
  case True
  then obtain m m' where ok: "nm_before t = Inr m" "nm_after t = Inr m'" "valid_id item"
    by (cases "nm_before t"; cases "nm_after t") auto
  show ?thesis
  proof (cases "no_attachment n0")
    case None
    have "intact J d'" if "append_note J f n (ns_dir st) = (r, d')" "no_attachment n = None" for f n r d'
      using intact_append [OF law assms(2) that(1)] that(2) by simp
    then show ?thesis
      using None ok by (auto simp: store_note_def Let_def split: prod.split sum.split)
  next
    case (Some a)
    obtain r d where blob: "write_blob (nm_blob_fault t) content (ns_dir st) = (r, d)" by (metis prod.exhaust)
    have "intact J d" using intact_blob [OF assms(2) blob] .
    moreover have "held digest d" if "r = Inr digest" for digest
      using write_blob_keeps [OF _ blob] assms(2) that by (auto simp: intact_def)
    ultimately have "intact J d'" if "append_note J f n d = (x, d')" "no_attachment n = Some (a\<lparr>at_sha256 := digest\<rparr>)" "r = Inr digest"
      for f n x d' digest
      using intact_append [OF law _ that(1)] that(2,3) by simp
    then show ?thesis
      using \<open>intact J d\<close> ok Some blob
      by (cases r) (auto simp: store_note_def Let_def split: prod.split sum.split)
  qed
qed

datatype 'w note_op = AddNote "'w note_moment" add_note_request | Attach "'w note_moment" attach_request

definition note_step :: "'w outside \<Rightarrow> note_json \<Rightarrow> (string \<Rightarrow> string \<Rightarrow> string) \<Rightarrow> 'w note_op \<Rightarrow> note_store \<Rightarrow> note_store" where
  "note_step W J content_type opn st = (case opn of
      AddNote t r \<Rightarrow> snd (add_note W J t r st)
    | Attach t r \<Rightarrow> snd (attach W J content_type t r st))"

text \<open>C27: whatever notes and attachments are added, and whatever fails or is cut short on the way, every note that can be read
  names contents that are there, under their own digest.\<close>

theorem notes_name_contents:
  assumes "\<And>n. json_law J n" and "intact J (ns_dir st)"
  shows "intact J (ns_dir (fold (note_step W J content_type) ops st))"
  using assms(2)
proof (induction ops arbitrary: st)
  case (Cons opn ops)
  have "intact J (ns_dir (note_step W J content_type opn st))"
    using Cons.prems intact_store [OF assms(1)]
    by (auto simp: note_step_def add_note_def attach_def split: note_op.split sum.split)
  then show ?case using Cons.IH by simp
qed simp



definition demo_moment :: "unit note_moment" where
  "demo_moment = \<lparr>nm_before = Inr sample_manifest, nm_after = Inr sample_manifest, nm_world = (), nm_now = 5,
     nm_blob_fault = NoBlobFault, nm_fault = NoFault\<rparr>"

definition demo_attached :: item_note where
  "demo_attached = \<lparr>no_time = 5, no_text = ''Attached a'', no_head = [], no_attachment = Some \<lparr>at_name = ''a'',
     at_sha256 = hex_digest 32 ''x'', at_size = 1, at_type = ''text/plain'', at_path = []\<rparr>\<rparr>"

definition demo_attached_json :: note_json where
  "demo_attached_json = \<lparr>nj_encode = (\<lambda>n. if n = demo_attached then Some ''{}'' else None),
     nj_decode = (\<lambda>s. if s = ''{}'' @ [newline_char] then Some demo_attached else None)\<rparr>"

definition demo_note_store :: note_store where
  "demo_note_store = \<lparr>ns_dir = demo_item_dir, ns_changes = new_change_log ''e''\<rparr>"

abbreviation (input) demo_attach_request :: attach_request where
  "demo_attach_request \<equiv> \<lparr>ac_item = replicate 26 (CHR ''0''), ac_name = ''a'', ac_content = ''x'', ac_text = [], ac_path = []\<rparr>"

lemma demo_checks: "valid_attachment_name ''a''" "valid_id (replicate 26 (CHR ''0''))" "worktree_head W sample_manifest w = []" "torn_keep [] = 0"
  by (simp add: valid_attachment_name_def max_name_bytes_def valid_utf8_ascii go_eval has_prefix_def runes_ascii is_control_def)
    (simp_all add: valid_id_def id_char_def numeral_eq_Suc worktree_head_def sample_manifest_def new_manifest_def zero_checkout_def
      torn_keep_def torn_from.simps Let_def)

lemma demo_attach: "note_step W demo_attached_json (\<lambda>_ _. ''text/plain'') (Attach demo_moment demo_attach_request) demo_note_store =
    \<lparr>ns_dir = \<lparr>id_there = True, id_log = Regular (''{}'' @ [newline_char]),
        id_blobs = Regular ((\<lambda>_. Absent)(hex_digest 32 ''x'' := Regular ''x''))\<rparr>,
      ns_changes = record_changes [replicate 26 (CHR ''0'')] (new_change_log ''e'')\<rparr>"
  using demo_checks
  by (simp add: note_step_def attach_def store_note_def write_blob_def append_note_def demo_moment_def demo_note_store_def
      demo_item_dir_def blob_names_def reads_as_def demo_attached_json_def demo_attached_def max_attachment_bytes_def Let_def)

theorem notes_name_contents_witness:
  "\<forall>W. intact demo_attached_json (ns_dir (fold (note_step W demo_attached_json (\<lambda>_ _. ''text/plain''))
     [Attach demo_moment demo_attach_request] demo_note_store))"
proof (intro allI notes_name_contents)
  show "json_law demo_attached_json n" for n by (simp add: json_law_def demo_attached_json_def newline_char_def)
  show "intact demo_attached_json (ns_dir demo_note_store)"
    by (simp add: intact_def no_links_def log_lines_def log_content_def demo_note_store_def demo_item_dir_def read_lines_torn)
qed

end
