(* ===== verification/Spec2Isabelle.thy ===== *)
theory Spec2Isabelle
  imports Ident Slug Labels Lifecycle Manifest Normalize Priority Lease Changes Repositories
    Database Sources Blockers Sweep Queue Commands Execute Create StoreCommands Options RepoCommands Protocol Runtime LiveContent Conversations Observer Jobs MergeSafety Notes
begin

text \<open>
  workitem (the command \<open>wi\<close>) keeps a list of work items, each with a checkout of a repository and a coding agent. A
  daemon, the coordinator, owns the state; the command line, the editors and the agents' adapters talk to it over
  sockets. This development models the coordinator and what it rests on, from the byte strings of Go up to the commands,
  and proves what keeps its state right. All paths below are under \<open>src/internal\<close> unless they start with a slash.

  \<^bold>\<open>The parts and their theories.\<close> Each theory imports the ones it calls; the order here is the order of the code.

  \<^item> Foundations. \<open>Prelude\<close>: the result type of fallible functions (\<open>Inl\<close> is the returned error), instants, lemma
    collections. \<open>GoStrings\<close> and \<open>GoPath\<close>: what the source uses of \<open>strings\<close>, \<open>unicode/utf8\<close>, \<open>strconv\<close> and
    \<open>path/filepath\<close>, on byte strings. \<open>Sha256\<close>: the digest that identifiers are derived from. \<open>KeyValue\<close>: maps in key
    order and the contract of a bucket of bbolt. \<open>Actions\<close>: sequences of actions that change the world and stop at the
    first error, with their Hoare logic.
  \<^item> The model of the data (\<open>model/\<close>). \<open>Ident\<close> (\<open>id.go\<close>: \<open>NewIDWith\<close>, \<open>ValidID\<close>, \<open>UniqueIDPrefixes\<close>), \<open>Slug\<close>
    (\<open>slug.go\<close>), \<open>Labels\<close> (\<open>labels.go\<close>), \<open>Lifecycle\<close> (\<open>lifecycle.go\<close>), \<open>Manifest\<close> (\<open>manifest.go\<close>: the record of an
    item with its claims), \<open>Normalize\<close> (\<open>store/store.go\<close>: \<open>NormalizeManifest\<close>; \<open>repository.go\<close>: \<open>SanitizeRemoteURL\<close>),
    \<open>Repositories\<close> (\<open>owned_repository.go\<close>, \<open>repository_settings.go\<close>, \<open>repository_environment.go\<close>), \<open>Lease\<close>
    (\<open>control.go\<close>, \<open>coordinator/lease.go\<close>), \<open>Priority\<close> (\<open>priority/priority.go\<close>: \<open>Rank\<close>), \<open>Options\<close> (\<open>options/\<close>: the
    registry of plug-in options, overlays and redaction).
  \<^item> The database (\<open>coordinator/\<close>). \<open>Records\<close>: every stored type. \<open>EventLog\<close> and \<open>Database\<close> (\<open>database.go\<close>): buckets,
    the event log in four buckets against the list of events, the idempotent \<open>Commit\<close>. \<open>Sources\<close> (\<open>source_store.go\<close>,
    \<open>attention_activity.go\<close>): attention markers, batches of a native source, imported manifests. \<open>Changes\<close>
    (\<open>changes.go\<close>): what a waiting reader is told.
  \<^item> The commands. \<open>Commands\<close> (\<open>domain.go\<close>, \<open>edit_item.go\<close>: what each manifest command makes of an item), \<open>Blockers\<close> and
    \<open>Sweep\<close> (\<open>blockers.go\<close>), \<open>Queue\<close> (\<open>actionabilityQueueFromTransaction\<close>, \<open>SelectActionability\<close>), \<open>Execute\<close>
    (\<open>executeManifestCommand\<close> with its queue and native writes), \<open>Create\<close> (\<open>create_domain.go\<close>), \<open>StoreCommands\<close>
    (\<open>store_command.go\<close>), \<open>RepoCommands\<close> (\<open>repository.go\<close>, \<open>repository_archive.go\<close>, \<open>repository_rename.go\<close>,
    \<open>repository_settings.go\<close>, \<open>repository_environment.go\<close>).
  \<^item> The agents. \<open>Protocol\<close> (\<open>/agentdriver/protocol\<close>: the vocabularies), \<open>LiveContent\<close> (\<open>content.go\<close>: snapshot, server,
    readers and client of the streamed message), \<open>Runtime\<close> (\<open>runtime_ingest.go\<close>: live events and the activity they
    give), \<open>Conversations\<close> (\<open>conversation_importer.go\<close>), \<open>Observer\<close> (\<open>external_observer.go\<close>: the reconciliation of what
    is shown of an item).
  \<^item> The notes of an item. \<open>Notes\<close> (\<open>itemnotes/itemnotes.go\<close>, \<open>coordinator/notes.go\<close>): the log with its torn last
    line, the contents by digest, and \<open>add_note\<close> and \<open>attach\<close>.
  \<^item> The daemon's jobs. \<open>Jobs\<close> (\<open>daemonapi/jobs.go\<close>, \<open>job_progress.go\<close>, \<open>coordinator/api_jobs.go\<close>): the registry with
    its goroutines, approvals, cancellation, shutdown and restart.
  \<^item> Git. \<open>Git\<close> (\<open>git/git.go\<close>, \<open>git/repository_sync.go\<close>, \<open>git/branch_tracking.go\<close>, \<open>git/owned_repository.go\<close>): which
    commands the client runs and what it reads of their output. \<open>RepoSync\<close> (\<open>coordinator/repository_sync.go\<close>): fetching,
    fast-forward, merge and reset of the integration branch as a plan that survives failures; \<open>SyncSafety\<close> proves what
    a synchronization can do to the repository. \<open>Merge\<close> (\<open>app/integration_merge.go\<close>, \<open>git/merge_snapshot.go\<close>):
    \<open>MergeWorkItem\<close> with its preflight, the synchronization through the daemon, the rebase in place or in a temporary
    checkout, the fast-forward of the integration branch and the rollback. \<open>MergeRules\<close> holds the laws and the rules
    of each step, \<open>MergeSafety\<close> what a merge can do to the two branches.

  \<^bold>\<open>How state and operations correspond.\<close> A Go struct is a record with the fields of the struct behind a two-letter
  prefix; an operation is a definition with the name of the function in small letters. A transaction of bbolt is a
  function of the database (\<open>db_tx\<close>) that returns the new one or an error, since the store rolls a failed transaction
  back; a bucket is an element of a type \<open>'b\<close> with the operations of the record \<open>bolt\<close>, whose laws are the locale of
  \<open>KeyValue\<close>, interpreted on sorted association lists. A section under a mutex is one step. Where goroutines
  interleave (\<open>Jobs\<close>, \<open>LiveContent\<close>, \<open>Conversations\<close>) the steps are a relation or are given the state another thread
  left. \<open>time.Now\<close>, random bytes, failures of the store and the observations of processes are arguments. Code outside
  the repository is an argument too: JSON decoding, \<open>net/url\<close>, the drivers' decoders, the program \<open>git\<close> and the file
  system.

  \<^bold>\<open>What the lemmas show.\<close> \<open>EventLog\<close> and \<open>Database\<close>: the buckets are a representation of a list of events, a commit
  appends exactly its events once, and the sequence numbers have no gaps. \<open>Commands\<close>, \<open>Execute\<close>, \<open>Create\<close>,
  \<open>StoreCommands\<close> and \<open>RepoCommands\<close>: each command refines one append to that list, refuses a stale revision, and keeps
  the invariants (unique slugs, a bounded number of deep-work items, an acyclic graph of blockers, unique repository
  names, no settings in the history). \<open>Queue\<close>: the queue is the sorted list of the actionable items. \<open>Runtime\<close>:
  events are taken exactly once and only from the runtime that owns the item, and the item returns to the user only when
  the agent's loop settled. \<open>LiveContent\<close>: a client has the server's snapshot of the last event it read, or is told
  that it fell behind. \<open>Conversations\<close>: batches commit exactly the file's records, in order, or nothing when
  another import came first. \<open>Observer\<close>: a reconciliation is idempotent and never makes a busy agent idle on less
  than its own word. \<open>Jobs\<close>: what runs after an approval was approved, and a restart reads back what was stored.
  \<open>Notes\<close>: appends that are cut short lose no note that was read or acknowledged before, and every note names
  contents that are there. \<open>Options\<close>: what is redacted has no influence on what is printed. \<open>SyncSafety\<close>: whatever fails, the old tip of the
  integration branch stays named, by the branch or by a recovery reference. \<open>MergeSafety\<close>: whatever fails, a merge only
  moves the integration branch ahead; a merge that succeeds reports the tip it left; a failure that reports no broken
  rollback left both branches where the snapshot found them.

  \<^bold>\<open>Bounds and fuel.\<close> The slug allocation tries the suffixes 2 to 10000, the bound of the code, so its fuel of 9999 is
  the code's loop and not a limit of the model. All other loops are structural or have a measure. The recent changes are
  1024 entries; live content, the readers' queues, the job history (500 finished jobs), the approval's ten minutes, the
  conversation batches (1000 records or 4 MiB, lines of 16 MiB, a fingerprint of 4096 bytes) and the 20 listed
  local-only commits are the constants of the code. Sequence numbers and revisions are 64-bit words where they are
  encoded as keys; the theorems on the log state the bound below which they do not wrap.

  \<^bold>\<open>What is assumed of Git.\<close> \<open>git_contract\<close> in \<open>Git\<close> holds documented behaviour only: the reading commands move no
  reference; \<open>rev-parse --verify refs/...\<close> prints the commit the reference names; \<open>merge-base --is-ancestor\<close> succeeds
  for an ancestor; \<open>update-ref\<close> with an old value compares and swaps; \<open>fetch\<close> with a refspec into \<open>refs/remotes/\<close>
  writes only there; a merge or a commit in a detached checkout with hooks disabled moves no branch. \<open>SyncSafety\<close>
  evaluates a concrete repository that satisfies it and runs a reset and an abort through every step. \<open>merge_contract\<close> in
  \<open>MergeRules\<close> adds what the merge relies on: a rebase moves the branch checked out there and no other (the temporary
  checkout runs it with hooks disabled and \<open>rebase.updateRefs=false\<close>), its abort returns to that branch, a hard reset
  moves only the branch checked out. \<open>store_apart\<close> says that the item store moves no reference, \<open>daemon_at\<close> that the
  daemon's synchronization is the one of \<open>RepoSync\<close>. \<open>MergeSafety\<close> runs a concrete merge through every step.

  \<^bold>\<open>Not modelled.\<close> The item file store (\<open>store/\<close>), opening, backing up and upgrading the database file: reading and
  writing of files. The coordinator's server and client, the daemon's other RPC handlers, the runtime hosts: sockets and
  dispatch around operations that are modelled. The agent drivers: the file formats of other programs. The command line:
  parsing and rendering of text. The use cases of \<open>app/\<close> apart from the merge, among them the assignment of checkouts
  (\<open>core/workspace\<close>): their effects are calls of tmux, Git and the agents. Generated code under \<open>/gen\<close>. Within modelled parts: display texts (\<open>Describe\<close>, \<open>Short\<close>), JSON codecs,
  cancellation of contexts, the partial result that a synchronization returns beside an error, and waiting on channels. The notes of
  the components in the manifest say the same for each part.
\<close>

end
